(* ===== verification/Prelude.thy ===== *)
theory Prelude
  imports Main "HOL-Library.Word" "HOL-Library.Monad_Syntax"
begin

text \<open>
  Shared vocabulary of the zERC20 development: the machine types of the Rust
  sources, big-endian byte strings (\<open>to_be_bytes\<close>, \<open>from_be_slice\<close>), little-endian
  bit strings (\<open>to_bits_le\<close>), and the generic lemmas on lists, options and words
  that the component theories use.

  A Rust panic (an \<open>unwrap\<close> on \<open>None\<close>, an index out of range, a failed \<open>assert\<close>, an
  arithmetic overflow in checked code) is the value \<open>None\<close> of an \<open>option\<close>; a
  \<open>Result\<close> is a sum, \<open>Inl\<close> the error.
\<close>

named_theorems codec_simps \<open>encoding and decoding of bytes and bits\<close>
named_theorems panic_free \<open>operations that return a value\<close>

unbundle bit_operations_syntax

section \<open>Machine types\<close>

type_synonym byte = "8 word"
type_synonym u32 = "32 word"
type_synonym u64 = "64 word"
type_synonym u256 = "256 word"
type_synonym b256 = "256 word"
type_synonym address = "160 word"
type_synonym bytes = "8 word list"

lemma unat_byte_less [simp]: "unat (b :: byte) < 256"
  using unsigned_less [of b] by simp

lemma unat_word_of_nat: "unat (word_of_nat n :: 'a :: len word) = n mod 2 ^ LENGTH('a)"
  by (simp add: unsigned_of_nat take_bit_eq_mod)

lemma unat_u64_less [simp]: "unat (x :: u64) < 18446744073709551616"
  using unsigned_less [of x] by simp

lemma unat_u32_less [simp]: "unat (x :: u32) < 4294967296"
  using unsigned_less [of x] by simp

lemma word_of_nat_small_inj:
  assumes "a < 2 ^ LENGTH('a :: len)" "b < 2 ^ LENGTH('a)"
  shows "(word_of_nat a :: 'a word) = word_of_nat b \<longleftrightarrow> a = b"
  using assms by (metis mod_less unat_word_of_nat)

lemma unat_plus_one_word:
  assumes "Suc (unat (x :: 'a :: len word)) < 2 ^ LENGTH('a)"
  shows "unat (x + 1) = Suc (unat x)"
  using assms by (simp add: unat_word_ariths(1))

section \<open>Big-endian byte strings\<close>

text \<open>The \<open>n\<close> low bytes of a number, most significant first.\<close>

primrec be_bytes :: "nat \<Rightarrow> nat \<Rightarrow> bytes" where
  "be_bytes 0 x = []"
| "be_bytes (Suc n) x = be_bytes n (x div 256) @ [word_of_nat x]"

definition nat_of_be :: "bytes \<Rightarrow> nat" where
  "nat_of_be bs = foldl (\<lambda>acc b. acc * 256 + unat b) 0 bs"

lemma nat_of_be_Nil [simp, codec_simps]: "nat_of_be [] = 0"
  by (simp add: nat_of_be_def)

lemma nat_of_be_snoc [simp, codec_simps]: "nat_of_be (bs @ [b]) = nat_of_be bs * 256 + unat b"
  by (simp add: nat_of_be_def)

lemma length_be_bytes [simp, codec_simps]: "length (be_bytes n x) = n"
  by (induction n arbitrary: x) auto

lemma nat_of_be_be_bytes [simp, codec_simps]: "nat_of_be (be_bytes n x) = x mod 256 ^ n"
proof (induction n arbitrary: x)
  case (Suc n)
  have "x mod 256 ^ Suc n = 256 * (x div 256 mod 256 ^ n) + x mod 256"
    using mod_mult2_eq [of x 256 "256 ^ n"] by simp
  then show ?case
    by (simp add: Suc unat_word_of_nat)
qed simp

lemma be_bytes_nat_of_be [simp, codec_simps]: "be_bytes (length bs) (nat_of_be bs) = bs"
proof (induction bs rule: rev_induct)
  case (snoc b bs)
  have "(word_of_nat (nat_of_be bs * 256 + unat b) :: byte) = b"
  proof -
    have modulus: "(256 :: byte) = 0"
      using word_exp_length_eq_0 [where 'a = 8] by simp
    show ?thesis
      by (simp add: modulus)
  qed
  moreover have "(nat_of_be bs * 256 + unat b) div 256 = nat_of_be bs"
    by simp
  ultimately show ?case
    using snoc by simp
qed simp

lemma nat_of_be_less: "nat_of_be bs < 256 ^ length bs"
  by (metis be_bytes_nat_of_be mod_less_divisor nat_of_be_be_bytes zero_less_numeral zero_less_power)

lemma be_bytes_mod: "be_bytes n (x mod 256 ^ n) = be_bytes n x"
  by (metis be_bytes_nat_of_be length_be_bytes nat_of_be_be_bytes)

lemma be_bytes_add: "be_bytes (m + n) x = be_bytes m (x div 256 ^ n) @ be_bytes n x"
proof (induction n arbitrary: x)
  case (Suc n)
  show ?case
    by (simp add: Suc div_mult2_eq)
qed simp

lemma drop_be_bytes: "k \<le> n \<Longrightarrow> drop k (be_bytes n x) = be_bytes (n - k) x"
  using be_bytes_add [of k "n - k" x] by simp

lemma take_be_bytes: "k \<le> n \<Longrightarrow> take k (be_bytes n x) = be_bytes k (x div 256 ^ (n - k))"
  using be_bytes_add [of k "n - k" x] by simp

lemma nat_of_be_inject:
  assumes "length as = length bs" "nat_of_be as = nat_of_be bs"
  shows "as = bs"
  using assms by (metis be_bytes_nat_of_be)

lemma be_bytes_inject:
  assumes "x < 256 ^ n" "y < 256 ^ n" "be_bytes n x = be_bytes n y"
  shows "x = y"
  using assms by (metis mod_less nat_of_be_be_bytes)

lemma nat_of_be_append: "nat_of_be (as @ bs) = nat_of_be as * 256 ^ length bs + nat_of_be bs"
  by (induction bs rule: rev_induct) (auto simp flip: append_assoc simp: algebra_simps)

lemma nat_of_be_Cons: "nat_of_be (b # bs) = unat b * 256 ^ length bs + nat_of_be bs"
  using nat_of_be_append [of "[b]" bs] nat_of_be_snoc [of "[]" b] by simp

lemma div_pow_Suc: "(n :: nat) div 2 ^ Suc l = n div 2 ^ l div 2"
  by (metis div_mult2_eq power_Suc2)

section \<open>Little-endian bit strings\<close>

primrec bits_le :: "nat \<Rightarrow> nat \<Rightarrow> bool list" where
  "bits_le 0 x = []"
| "bits_le (Suc n) x = odd x # bits_le n (x div 2)"

primrec nat_of_bits_le :: "bool list \<Rightarrow> nat" where
  "nat_of_bits_le [] = 0"
| "nat_of_bits_le (b # bs) = of_bool b + 2 * nat_of_bits_le bs"

lemma length_bits_le [simp, codec_simps]: "length (bits_le n x) = n"
  by (induction n arbitrary: x) auto

lemma nat_of_bits_le_bits_le [simp, codec_simps]: "nat_of_bits_le (bits_le n x) = x mod 2 ^ n"
proof (induction n arbitrary: x)
  case (Suc n)
  have "x mod 2 ^ Suc n = 2 * (x div 2 mod 2 ^ n) + x mod 2"
    using mod_mult2_eq [of x 2 "2 ^ n"] by simp
  then show ?case
    by (simp add: Suc mod_2_eq_odd)
qed simp

lemma bits_le_nat_of_bits_le [simp, codec_simps]: "bits_le (length bs) (nat_of_bits_le bs) = bs"
  by (induction bs) auto

lemma nat_of_bits_le_less: "nat_of_bits_le bs < 2 ^ length bs"
  by (metis bits_le_nat_of_bits_le mod_less_divisor nat_of_bits_le_bits_le zero_less_numeral
      zero_less_power)

lemma bits_le_add: "bits_le (m + n) x = bits_le m x @ bits_le n (x div 2 ^ m)"
  by (induction m arbitrary: x) (auto simp: div_mult2_eq)

lemma drop_bits_le: "k \<le> n \<Longrightarrow> drop k (bits_le n x) = bits_le (n - k) (x div 2 ^ k)"
  using bits_le_add [of k "n - k" x] by simp

lemma take_bits_le: "k \<le> n \<Longrightarrow> take k (bits_le n x) = bits_le k x"
  using bits_le_add [of k "n - k" x] by simp

lemma nth_bits_le: "i < n \<Longrightarrow> bits_le n x ! i = odd (x div 2 ^ i)"
proof (induction n arbitrary: x i)
  case (Suc n)
  then show ?case
    by (cases i) (auto simp: div_mult2_eq)
qed simp

lemma bits_le_all_zero: "(\<forall>b \<in> set (bits_le n x). \<not> b) \<longleftrightarrow> x mod 2 ^ n = 0"
proof (induction n arbitrary: x)
  case (Suc n)
  have "x mod 2 ^ Suc n = 2 * (x div 2 mod 2 ^ n) + x mod 2"
    using mod_mult2_eq [of x 2 "2 ^ n"] by simp
  then show ?case
    using Suc [of "x div 2"] by (auto simp: mod_2_eq_odd)
qed simp

lemma bits_le_inject:
  assumes "x < 2 ^ n" "y < 2 ^ n" "bits_le n x = bits_le n y"
  shows "x = y"
  using assms by (metis mod_less nat_of_bits_le_bits_le)

section \<open>Results\<close>

text \<open>The \<open>?\<close> operator on \<open>Result\<close>: an error ends the function.\<close>

fun res_bind :: "'e + 'a \<Rightarrow> ('a \<Rightarrow> 'e + 'b) \<Rightarrow> 'e + 'b" where
  "res_bind (Inl e) f = Inl e"
| "res_bind (Inr x) f = f x"

fun is_ok :: "'e + 'a \<Rightarrow> bool" where
  "is_ok (Inl e) = False"
| "is_ok (Inr x) = True"

lemma res_bind_Inr_iff: "res_bind r f = Inr y \<longleftrightarrow> (\<exists>x. r = Inr x \<and> f x = Inr y)"
  by (cases r) auto

lemma res_bind_Inl_iff: "res_bind r f = Inl e \<longleftrightarrow> r = Inl e \<or> (\<exists>x. r = Inr x \<and> f x = Inl e)"
  by (cases r) auto

lemma is_ok_iff: "is_ok r \<longleftrightarrow> (\<exists>x. r = Inr x)"
  by (cases r) auto

text \<open>\<open>Option::ok_or\<close>.\<close>

definition ok_or :: "'e \<Rightarrow> 'a option \<Rightarrow> 'e + 'a" where
  "ok_or e x = (case x of None \<Rightarrow> Inl e | Some y \<Rightarrow> Inr y)"

lemma ok_or_simps [simp]: "ok_or e None = Inl e" "ok_or e (Some y) = Inr y"
  by (simp_all add: ok_or_def)

text \<open>\<open>iter().map(f).collect::<Result<Vec<_>, _>>()\<close>: the first error wins.\<close>

fun res_map :: "('a \<Rightarrow> 'e + 'b) \<Rightarrow> 'a list \<Rightarrow> 'e + 'b list" where
  "res_map f [] = Inr []"
| "res_map f (x # xs) = res_bind (f x) (\<lambda>y. res_bind (res_map f xs) (\<lambda>ys. Inr (y # ys)))"

lemma res_map_Inr: "(\<And>x. x \<in> set xs \<Longrightarrow> f x = Inr (g x)) \<Longrightarrow> res_map f xs = Inr (map g xs)"
  by (induction xs) auto

lemma res_map_length: "res_map f xs = Inr ys \<Longrightarrow> length ys = length xs"
  by (induction xs arbitrary: ys) (auto simp: res_bind_Inr_iff)

lemma res_map_nth: "res_map f xs = Inr ys \<Longrightarrow> i < length xs \<Longrightarrow> f (xs ! i) = Inr (ys ! i)"
proof (induction xs arbitrary: ys i)
  case (Cons x xs)
  then show ?case
    by (cases i) (auto simp: res_bind_Inr_iff)
qed simp

section \<open>Strings\<close>

text \<open>\<open>str::trim\<close> and \<open>strip_prefix("0x").unwrap_or(s)\<close>, on strings of ASCII characters.\<close>

definition is_space :: "char \<Rightarrow> bool" where
  "is_space c \<longleftrightarrow> c \<in> set [CHR 0x09, CHR 0x0A, CHR 0x0B, CHR 0x0C, CHR 0x0D, CHR 0x20]"

definition trim_ascii :: "string \<Rightarrow> string" where
  "trim_ascii s = rev (dropWhile is_space (rev (dropWhile is_space s)))"

definition strip_0x :: "string \<Rightarrow> string" where
  "strip_0x s = (if take 2 s = ''0x'' then drop 2 s else s)"

lemma trim_ascii_id:
  assumes "\<forall>c \<in> set s. \<not> is_space c"
  shows "trim_ascii s = s"
proof -
  have none: "dropWhile is_space xs = xs" if "\<forall>c \<in> set xs. \<not> is_space c" for xs
    using that by (cases xs) auto
  show ?thesis
    unfolding trim_ascii_def using none [of s] none [of "rev s"] assms by simp
qed

lemma strip_0x_prefix [simp]: "strip_0x (''0x'' @ s) = s"
  by (simp add: strip_0x_def)

end
