(* ===== verification/Field.thy ===== *)
theory Field
  imports Prelude
begin

text \<open>
  The scalar field of BN254 (\<open>ark_bn254::Fr\<close>) as a type of its own, the
  conversions of \<open>zkp/src/utils/convertion.rs\<close> between field elements, 256-bit
  words and addresses, and the recipient encoding of
  \<open>zkp/src/utils/general_recipient.rs\<close>.

  A field element is its canonical representative; \<open>into_bigint\<close> reads it, and a
  \<open>BigUint\<close> is converted by reduction modulo the group order. \<open>B256\<close> values are
  256-bit words read big-endian.
\<close>

section \<open>The field\<close>

definition bn254_r :: nat where
  "bn254_r = 21888242871839275222246405745257275088548364400416034343698204186575808495617"

lemma bn254_r_pos [simp]: "0 < bn254_r"
  by (simp add: bn254_r_def)

lemma bn254_r_gt_1 [simp]: "Suc 0 < bn254_r" "1 < bn254_r"
  by (simp_all add: bn254_r_def)

lemma bn254_r_neq_1 [simp]: "bn254_r \<noteq> Suc 0" "bn254_r \<noteq> 1"
  by (simp_all add: bn254_r_def)

lemma bn254_r_bounds: "2 ^ 253 < bn254_r" "bn254_r < 2 ^ 254"
  by (simp_all add: bn254_r_def)

typedef fr = "{0..<bn254_r}"
  morphisms into_bigint Abs_fr
  by (rule exI [of _ 0]) simp

setup_lifting type_definition_fr

lemma into_bigint_less [simp]: "into_bigint x < bn254_r"
  using into_bigint [of x] by simp

lemma into_bigint_less_254: "into_bigint x < 2 ^ 254"
  by (rule less_trans [OF into_bigint_less bn254_r_bounds(2)])

lemma into_bigint_less_256: "into_bigint x < 2 ^ 256"
  by (rule less_trans [OF into_bigint_less_254]) simp

text \<open>\<open>impl From<BigUint> for Fp\<close>: reduction modulo the order.\<close>

lift_definition fr_of_nat :: "nat \<Rightarrow> fr" is "\<lambda>n. n mod bn254_r"
  by simp

lemma into_bigint_fr_of_nat [simp]: "into_bigint (fr_of_nat n) = n mod bn254_r"
  by (simp add: fr_of_nat.rep_eq)

lemma fr_of_nat_into_bigint [simp]: "fr_of_nat (into_bigint x) = x"
  by (simp add: into_bigint_inject [symmetric])

lemma fr_eq_iff: "x = y \<longleftrightarrow> into_bigint x = into_bigint y"
  by (simp add: into_bigint_inject)

lemma fr_of_nat_inject: "a < bn254_r \<Longrightarrow> b < bn254_r \<Longrightarrow> fr_of_nat a = fr_of_nat b \<longleftrightarrow> a = b"
  by (simp add: fr_eq_iff)

instantiation fr :: comm_ring_1
begin

lift_definition zero_fr :: fr is "0 :: nat"
  by simp

lift_definition one_fr :: fr is "1 :: nat"
  by simp

lift_definition plus_fr :: "fr \<Rightarrow> fr \<Rightarrow> fr" is "\<lambda>a b. (a + b) mod bn254_r"
  by simp

lift_definition uminus_fr :: "fr \<Rightarrow> fr" is "\<lambda>a. (bn254_r - a) mod bn254_r"
  by simp

lift_definition minus_fr :: "fr \<Rightarrow> fr \<Rightarrow> fr" is "\<lambda>a b. (a + (bn254_r - b)) mod bn254_r"
  by simp

lift_definition times_fr :: "fr \<Rightarrow> fr \<Rightarrow> fr" is "\<lambda>a b. (a * b) mod bn254_r"
  by simp

instance
proof
  fix a b c :: fr
  show "a * b * c = a * (b * c)"
    by (transfer, simp add: mod_simps mult.assoc)
  show "a * b = b * a"
    by (transfer, simp add: mult.commute)
  show "1 * a = a"
    by (transfer, simp)
  show "a + b + c = a + (b + c)"
    by (transfer, simp add: mod_simps add.assoc)
  show "a + b = b + a"
    by (transfer, simp add: add.commute)
  show "0 + a = a"
    by (transfer, simp)
  show "- a + a = 0"
    by (transfer, simp add: mod_simps)
  show "a - b = a + - b"
    by (transfer, simp add: mod_simps)
  show "(a + b) * c = a * c + b * c"
    by (transfer, simp add: mod_simps algebra_simps)
  show "(0 :: fr) \<noteq> 1"
    by (transfer, simp)
qed

end

instantiation fr :: equal
begin

definition equal_fr :: "fr \<Rightarrow> fr \<Rightarrow> bool" where
  "equal_fr x y \<longleftrightarrow> into_bigint x = into_bigint y"

instance
  by standard (simp add: equal_fr_def into_bigint_inject)

end

lemmas into_bigint_ops = zero_fr.rep_eq one_fr.rep_eq plus_fr.rep_eq minus_fr.rep_eq
  times_fr.rep_eq uminus_fr.rep_eq

lemma into_bigint_0 [simp]: "into_bigint 0 = 0"
  and into_bigint_1 [simp]: "into_bigint 1 = 1"
  by (simp_all add: into_bigint_ops)

lemma into_bigint_eq_0_iff [simp]: "into_bigint x = 0 \<longleftrightarrow> x = 0"
  by (simp add: fr_eq_iff)

lemma into_bigint_add_small:
  "into_bigint x + into_bigint y < bn254_r \<Longrightarrow> into_bigint (x + y) = into_bigint x + into_bigint y"
  by (simp add: into_bigint_ops)

lemma into_bigint_diff:
  "into_bigint (x - y) = (if into_bigint y \<le> into_bigint x then into_bigint x - into_bigint y
     else bn254_r - (into_bigint y - into_bigint x))"
proof (cases "into_bigint y \<le> into_bigint x")
  case True
  then have "into_bigint x + (bn254_r - into_bigint y)
      = (into_bigint x - into_bigint y) + bn254_r"
    using into_bigint_less [of y] by linarith
  moreover have "into_bigint x - into_bigint y < bn254_r"
    using into_bigint_less [of x] by linarith
  ultimately have "(into_bigint x + (bn254_r - into_bigint y)) mod bn254_r
      = into_bigint x - into_bigint y"
    by (metis mod_add_self2 mod_less)
  with True show ?thesis
    by (simp add: into_bigint_ops)
next
  case False
  then have "into_bigint x + (bn254_r - into_bigint y) < bn254_r"
    using into_bigint_less [of y] by linarith
  then have "into_bigint (x - y) = into_bigint x + (bn254_r - into_bigint y)"
    unfolding minus_fr.rep_eq by (rule mod_less)
  with False show ?thesis
    using into_bigint_less [of y] by simp
qed

lemma fr_of_nat_add: "fr_of_nat (m + n) = fr_of_nat m + fr_of_nat n"
  by (simp add: fr_eq_iff into_bigint_ops mod_simps)

lemma fr_of_nat_mult: "fr_of_nat (m * n) = fr_of_nat m * fr_of_nat n"
  by (simp add: fr_eq_iff into_bigint_ops mod_simps)

lemma fr_of_nat_0 [simp]: "fr_of_nat 0 = 0"
  and fr_of_nat_1 [simp]: "fr_of_nat 1 = 1" "fr_of_nat (Suc 0) = 1"
  by (simp_all add: fr_eq_iff)

lemma of_nat_fr: "(of_nat n :: fr) = fr_of_nat n"
  by (induction n) (simp_all add: fr_of_nat_add [of 1, simplified])

section \<open>Conversions (\<open>convertion.rs\<close>)\<close>

definition u256_to_be_bytes :: "u256 \<Rightarrow> bytes" where
  "u256_to_be_bytes x = be_bytes 32 (unat x)"

definition u256_from_be_slice :: "bytes \<Rightarrow> u256" where
  "u256_from_be_slice bs = word_of_nat (nat_of_be bs)"

definition address_bytes :: "address \<Rightarrow> bytes" where
  "address_bytes a = be_bytes 20 (unat a)"

definition address_from_slice :: "bytes \<Rightarrow> address" where
  "address_from_slice bs = word_of_nat (nat_of_be bs)"

definition fr_to_address :: "fr \<Rightarrow> address" where
  "fr_to_address x = address_from_slice (drop 12 (be_bytes 32 (into_bigint x)))"

definition address_to_fr :: "address \<Rightarrow> fr" where
  "address_to_fr x = fr_of_nat (nat_of_be (address_bytes x))"

definition u256_to_fr :: "u256 \<Rightarrow> fr" where
  "u256_to_fr x = fr_of_nat (nat_of_be (u256_to_be_bytes x))"

definition fr_to_u256 :: "fr \<Rightarrow> u256" where
  "fr_to_u256 x = u256_from_be_slice (be_bytes 32 (into_bigint x))"

definition b256_to_fr :: "b256 \<Rightarrow> fr" where
  "b256_to_fr x = fr_of_nat (nat_of_be (u256_to_be_bytes x))"

definition fr_to_b256 :: "fr \<Rightarrow> b256" where
  "fr_to_b256 x = fr_to_u256 x"

definition u256_to_usize :: "u256 \<Rightarrow> u64 option" where
  "u256_to_usize x =
     (let x_bigint = nat_of_be (u256_to_be_bytes x)
      in if x_bigint < 2 ^ 64 then Some (word_of_nat x_bigint) else None)"

lemma unat_u256_less [simp]: "unat (x :: u256) < 2 ^ 256"
  using unsigned_less [of x] by simp

lemma unat_address_less [simp]: "unat (a :: address) < 2 ^ 160"
  using unsigned_less [of a] by simp

lemma pow_256_32: "(256 :: nat) ^ 32 = 2 ^ 256" and pow_256_20: "(256 :: nat) ^ 20 = 2 ^ 160"
  and pow_256_31: "(256 :: nat) ^ 31 = 2 ^ 248"
  by simp_all

lemma nat_of_be_u256 [simp, codec_simps]: "nat_of_be (u256_to_be_bytes x) = unat x"
  using unat_u256_less [of x] by (simp add: u256_to_be_bytes_def)

lemma nat_of_be_address [simp, codec_simps]: "nat_of_be (address_bytes a) = unat a"
  using unat_address_less [of a] by (simp add: address_bytes_def)

lemma length_u256_to_be_bytes [simp, codec_simps]: "length (u256_to_be_bytes x) = 32"
  by (simp add: u256_to_be_bytes_def)

lemma length_address_bytes [simp, codec_simps]: "length (address_bytes a) = 20"
  by (simp add: address_bytes_def)

lemma u256_from_be_slice_inverse [simp, codec_simps]:
  "u256_from_be_slice (u256_to_be_bytes x) = x"
  by (simp add: u256_from_be_slice_def)

lemma u256_to_be_bytes_inject: "u256_to_be_bytes x = u256_to_be_bytes y \<longleftrightarrow> x = y"
  by (metis u256_from_be_slice_inverse)

lemma address_bytes_inject: "address_bytes a = address_bytes b \<longleftrightarrow> a = b"
  by (metis nat_of_be_address unsigned_word_eqI)

lemma unat_u256_from_be_slice:
  "length bs \<le> 32 \<Longrightarrow> unat (u256_from_be_slice bs) = nat_of_be bs"
proof -
  assume "length bs \<le> 32"
  then have "nat_of_be bs < 256 ^ 32"
    using nat_of_be_less [of bs] by (meson less_le_trans one_le_numeral power_increasing)
  then show ?thesis
    by (simp add: u256_from_be_slice_def unat_word_of_nat)
qed

lemma be_bytes_u256_from_be_slice: "length bs = 32 \<Longrightarrow> u256_to_be_bytes (u256_from_be_slice bs) = bs"
  using be_bytes_nat_of_be [of bs] unat_u256_from_be_slice [of bs] by (simp add: u256_to_be_bytes_def)

lemma unat_fr_to_u256 [simp]: "unat (fr_to_u256 x) = into_bigint x"
  using into_bigint_less_256 [of x] by (simp add: fr_to_u256_def unat_u256_from_be_slice)

lemma unat_fr_to_address: "unat (fr_to_address x) = into_bigint x mod 2 ^ 160"
  by (simp add: fr_to_address_def address_from_slice_def drop_be_bytes unat_word_of_nat)

lemma into_bigint_u256_to_fr: "into_bigint (u256_to_fr x) = unat x mod bn254_r"
  by (simp add: u256_to_fr_def)

lemma into_bigint_address_to_fr [simp]: "into_bigint (address_to_fr a) = unat a"
proof -
  have "(2 :: nat) ^ 160 < bn254_r"
    by (simp add: bn254_r_def)
  then have "unat a < bn254_r"
    using unat_address_less [of a] by linarith
  then show ?thesis
    by (simp add: address_to_fr_def)
qed

lemma fr_to_address_to_fr [simp, codec_simps]: "fr_to_address (address_to_fr a) = a"
  using unat_address_less [of a]
  by (intro unsigned_word_eqI [where 'a = nat]) (simp add: unat_fr_to_address)

lemma u256_to_fr_fr_to_u256 [simp, codec_simps]: "u256_to_fr (fr_to_u256 x) = x"
  by (simp add: u256_to_fr_def)

lemma fr_to_u256_u256_to_fr: "fr_to_u256 (u256_to_fr x) = x \<longleftrightarrow> unat x < bn254_r"
proof
  assume "fr_to_u256 (u256_to_fr x) = x"
  then have "unat x = unat x mod bn254_r"
    by (metis into_bigint_u256_to_fr unat_fr_to_u256)
  then show "unat x < bn254_r"
    by (metis bn254_r_pos mod_less_divisor)
next
  assume "unat x < bn254_r"
  then show "fr_to_u256 (u256_to_fr x) = x"
    by (intro unsigned_word_eqI [where 'a = nat]) (simp add: into_bigint_u256_to_fr)
qed

lemma b256_to_fr_eq: "b256_to_fr x = u256_to_fr x"
  by (simp add: b256_to_fr_def u256_to_fr_def)

lemma u256_to_usize_iff: "u256_to_usize x = Some y \<longleftrightarrow> unat x < 2 ^ 64 \<and> unat x = unat y"
  by (auto simp: u256_to_usize_def Let_def unsigned_ucast_eq take_bit_nat_eq_self_iff take_bit_eq_mod
      split: if_splits intro!: unsigned_word_eqI [where 'a = nat])

section \<open>Recipients (\<open>general_recipient.rs\<close>)\<close>

text \<open>
  SHA-256 is a parameter: its documented behaviour is a digest of 32 bytes.
\<close>

definition digest32 :: "(bytes \<Rightarrow> bytes) \<Rightarrow> bool" where
  "digest32 sha \<longleftrightarrow> (\<forall>m. length (sha m) = 32)"

record general_recipient =
  chain_id :: u64
  recipient_address :: b256
  tweak :: b256

definition new_evm :: "u64 \<Rightarrow> address \<Rightarrow> b256 \<Rightarrow> general_recipient" where
  "new_evm cid addr tw = \<lparr>chain_id = cid, recipient_address = ucast addr, tweak = tw\<rparr>"

definition recipient_version :: byte where
  "recipient_version = 1"

definition recipient_preimage :: "general_recipient \<Rightarrow> bytes" where
  "recipient_preimage g =
     concat [be_bytes 8 (unat (chain_id g)), u256_to_be_bytes (recipient_address g),
             u256_to_be_bytes (tweak g)]"

definition recipient_to_u256 :: "(bytes \<Rightarrow> bytes) \<Rightarrow> general_recipient \<Rightarrow> u256" where
  "recipient_to_u256 sha g =
     (let digest = sha (recipient_preimage g)
      in u256_from_be_slice (digest[0 := recipient_version]))"

definition recipient_to_fr :: "(bytes \<Rightarrow> bytes) \<Rightarrow> general_recipient \<Rightarrow> fr" where
  "recipient_to_fr sha g = u256_to_fr (recipient_to_u256 sha g)"

lemma nat_of_be_update_head:
  assumes "length d = Suc n"
  shows "nat_of_be (d[0 := b]) = unat b * 256 ^ n + nat_of_be (tl d)"
  using assms by (cases d) (auto simp: nat_of_be_Cons)

lemma nat_of_be_tl_less:
  assumes "length d = Suc n"
  shows "nat_of_be (tl d) < 256 ^ n"
  using nat_of_be_less [of "tl d"] assms by simp

lemma recipient_preimage_inject:
  assumes "recipient_preimage g = recipient_preimage g'"
  shows "g = g'"
proof -
  have "be_bytes 8 (unat (chain_id g)) = be_bytes 8 (unat (chain_id g'))"
    and rest: "recipient_address g = recipient_address g'" "tweak g = tweak g'"
    using assms by (auto simp: recipient_preimage_def append_eq_append_conv u256_to_be_bytes_inject)
  then have "unat (chain_id g) = unat (chain_id g')"
    using be_bytes_inject [of "unat (chain_id g)" 8 "unat (chain_id g')"] by simp
  then have "chain_id g = chain_id g'"
    by (rule unsigned_word_eqI)
  with rest show ?thesis
    by simp
qed

lemma unat_recipient_to_u256:
  assumes "digest32 sha"
  shows "unat (recipient_to_u256 sha g) = 2 ^ 248 + nat_of_be (tl (sha (recipient_preimage g)))"
  using assms
  by (simp add: recipient_to_u256_def digest32_def Let_def unat_u256_from_be_slice
      nat_of_be_update_head [where n = 31] recipient_version_def)

lemma recipient_tail_less:
  assumes "digest32 sha"
  shows "nat_of_be (tl (sha m)) < 2 ^ 248"
  using nat_of_be_tl_less [of "sha m" 31] assms by (simp add: digest32_def)

text \<open>
  The recipient word carries the version byte 1 in its most significant
  byte, so it is a canonical field element and survives the passage through the
  circuits' field unchanged.
\<close>

theorem recipient_to_fr_lossless:
  assumes "digest32 sha"
  shows "unat (recipient_to_u256 sha g) div 2 ^ 248 = 1
    \<and> fr_to_u256 (recipient_to_fr sha g) = recipient_to_u256 sha g"
proof -
  note tail = recipient_tail_less [OF assms, of "recipient_preimage g"]
  note val = unat_recipient_to_u256 [OF assms, of g]
  have "unat (recipient_to_u256 sha g) < 2 ^ 249"
    using tail unfolding val by simp
  moreover have "(2 :: nat) ^ 249 < bn254_r"
    by (simp add: bn254_r_def)
  ultimately have "fr_to_u256 (recipient_to_fr sha g) = recipient_to_u256 sha g"
    by (simp add: recipient_to_fr_def fr_to_u256_u256_to_fr)
  with tail show ?thesis
    unfolding val by simp
qed

definition const_sha :: "bytes \<Rightarrow> bytes" where
  "const_sha m = replicate 32 7"

lemma digest32_const_sha [simp]: "digest32 const_sha"
  by (simp add: digest32_def const_sha_def)

theorem recipient_to_fr_lossless_witness:
  "unat (recipient_to_u256 const_sha (new_evm 1 5 0)) div 2 ^ 248 = 1
    \<and> fr_to_u256 (recipient_to_fr const_sha (new_evm 1 5 0))
        = recipient_to_u256 const_sha (new_evm 1 5 0)"
  by (rule recipient_to_fr_lossless [OF digest32_const_sha])

text \<open>
  Two different recipients can share a recipient word only through a
  collision of the truncated digest: the hashed byte strings differ and their
  digests agree on the last 31 bytes.
\<close>

lemma recipient_to_u256_binding:
  assumes "digest32 sha"
    and "recipient_to_u256 sha g = recipient_to_u256 sha g'"
    and "g \<noteq> g'"
  shows "recipient_preimage g \<noteq> recipient_preimage g'
    \<and> tl (sha (recipient_preimage g)) = tl (sha (recipient_preimage g'))"
proof -
  have "nat_of_be (tl (sha (recipient_preimage g))) = nat_of_be (tl (sha (recipient_preimage g')))"
    using assms(2) unat_recipient_to_u256 [OF assms(1)] by (metis add_left_cancel)
  then have "tl (sha (recipient_preimage g)) = tl (sha (recipient_preimage g'))"
    by (rule nat_of_be_inject [rotated]) (use assms(1) in \<open>simp add: digest32_def\<close>)
  with assms(3) show ?thesis
    using recipient_preimage_inject by blast
qed

end
