(* ===== verification/Poseidon.thy ===== *)
theory Poseidon
  imports Field
begin

text \<open>
  The Poseidon wrappers of \<open>zkp/src/utils/poseidon/\<close>. The native sponge, the sponge of the
  constraint system and the parameter table are third-party code (\<open>ark_crypto_primitives\<close>,
  \<open>light_poseidon\<close>): the records \<open>native_sponge\<close> and \<open>sponge_gadget\<close> hold their operations
  and \<open>table\<close> is the table lookup. What the repository adds is modelled: the translation of the
  parameter table, the checks on the input length, the sequence of absorb, squeeze and
  selection of the first state element, and the choice between the constant and the
  constrained evaluation of a gadget.
\<close>

record light_params =
  lp_width :: nat
  lp_full_rounds :: nat
  lp_partial_rounds :: nat
  lp_alpha :: u64
  lp_mds :: "fr list list"
  lp_ark :: "fr list"

record poseidon_config =
  full_rounds :: nat
  partial_rounds :: nat
  alpha :: u64
  mds :: "fr list list"
  ark :: "fr list list"
  rate :: nat
  capacity :: nat

text \<open>\<open>slice::chunks\<close>; a chunk size of zero panics.\<close>

function chunks :: "nat \<Rightarrow> 'a list \<Rightarrow> 'a list list option" where
  "chunks w xs =
     (if w = 0 then None
      else if xs = [] then Some []
      else do { cs \<leftarrow> chunks w (drop w xs); Some (take w xs # cs) })"
  by pat_completeness auto
termination
  by (relation "measure (\<lambda>(w, xs). length xs)") auto

declare chunks.simps [simp del]

definition light_poseidon_to_ark_config :: "light_params \<Rightarrow> poseidon_config option" where
  "light_poseidon_to_ark_config params =
     (let width = lp_width params;
          rounds = lp_full_rounds params + lp_partial_rounds params
      in if length (lp_ark params) \<noteq> rounds * width then None
         else do {
           ark' \<leftarrow> chunks width (lp_ark params);
           Some \<lparr>full_rounds = lp_full_rounds params, partial_rounds = lp_partial_rounds params,
                 alpha = lp_alpha params, mds = lp_mds params, ark = ark',
                 rate = width - 1, capacity = 1\<rparr>
         })"

text \<open>The table lookup \<open>get_poseidon_parameters(3)\<close> is the parameter \<open>table\<close>.\<close>

definition circom_poseidon_config :: "(nat \<Rightarrow> light_params option) \<Rightarrow> poseidon_config option" where
  "circom_poseidon_config table = do { params \<leftarrow> table 3; light_poseidon_to_ark_config params }"

text \<open>
  The operations of \<open>PoseidonSponge\<close>. The sponge state is opaque but for its public field
  \<open>state\<close>.
\<close>

record 's native_sponge =
  ns_new :: "poseidon_config \<Rightarrow> 's"
  ns_absorb :: "'s \<Rightarrow> fr \<Rightarrow> 's"
  ns_squeeze_native_field_elements :: "'s \<Rightarrow> nat \<Rightarrow> fr list \<times> 's"
  ns_state :: "'s \<Rightarrow> fr list"

text \<open>An index expression on a vector panics out of range.\<close>

fun vec_index :: "'a list \<Rightarrow> nat \<Rightarrow> 'a option" where
  "vec_index [] i = None"
| "vec_index (x # xs) i = (if i = 0 then Some x else vec_index xs (i - 1))"

definition circom_poseidon_hash :: "'s native_sponge \<Rightarrow> poseidon_config \<Rightarrow> fr list \<Rightarrow> fr option" where
  "circom_poseidon_hash ns config inputs =
     (if length inputs \<noteq> rate config then None
      else let sponge = ns_new ns config;
               sponge = foldl (ns_absorb ns) sponge inputs;
               (_, sponge) = ns_squeeze_native_field_elements ns sponge 1
           in vec_index (ns_state ns sponge) 0)"

definition poseidon2 :: "(nat \<Rightarrow> light_params option) \<Rightarrow> 's native_sponge \<Rightarrow> fr \<Rightarrow> fr \<Rightarrow> fr option" where
  "poseidon2 table ns left right =
     do { config \<leftarrow> circom_poseidon_config table; circom_poseidon_hash ns config [left, right] }"

datatype crh_error = IncorrectInputLength nat

text \<open>\<open>CircomCRH::evaluate\<close>; the outer option is the assertion of the hash.\<close>

definition crh_evaluate :: "'s native_sponge \<Rightarrow> poseidon_config \<Rightarrow> fr list \<Rightarrow> (crh_error + fr) option" where
  "crh_evaluate ns parameters input =
     (if length input \<noteq> rate parameters then Some (Inl (IncorrectInputLength (length input)))
      else map_option Inr (circom_poseidon_hash ns parameters input))"

definition two_to_one_compress :: "'s native_sponge \<Rightarrow> poseidon_config \<Rightarrow> fr \<Rightarrow> fr \<Rightarrow> (crh_error + fr) option" where
  "two_to_one_compress ns parameters left right =
     (if rate parameters \<noteq> 2 then Some (Inl (IncorrectInputLength (rate parameters)))
      else map_option Inr (circom_poseidon_hash ns parameters [left, right]))"

text \<open>A circuit variable is a constant or an allocated variable with its assignment.\<close>

datatype fp_var = FpConstant fr | FpVar fr

fun fp_value :: "fp_var \<Rightarrow> fr" where
  "fp_value (FpConstant x) = x"
| "fp_value (FpVar x) = x"

fun has_cs :: "fp_var \<Rightarrow> bool" where
  "has_cs (FpConstant x) = False"
| "has_cs (FpVar x) = True"

text \<open>
  The operations of \<open>PoseidonSpongeVar\<close> on circuit variables; absorbing and squeezing may fail
  with a synthesis error of type \<open>'e\<close>.
\<close>

record ('t, 'e) sponge_gadget =
  sv_new :: "poseidon_config \<Rightarrow> 't"
  sv_absorb :: "'t \<Rightarrow> fp_var \<Rightarrow> 'e + 't"
  sv_squeeze_field_elements :: "'t \<Rightarrow> nat \<Rightarrow> 'e + fp_var list \<times> 't"
  sv_state :: "'t \<Rightarrow> fp_var list"

fun absorb_vars :: "('t, 'e) sponge_gadget \<Rightarrow> fp_var list \<Rightarrow> 't \<Rightarrow> 'e + 't" where
  "absorb_vars sv [] sponge = Inr sponge"
| "absorb_vars sv (value # input) sponge = res_bind (sv_absorb sv sponge value) (absorb_vars sv input)"

definition crh_gadget_evaluate ::
  "'s native_sponge \<Rightarrow> ('t, 'e) sponge_gadget \<Rightarrow> poseidon_config \<Rightarrow> fp_var list \<Rightarrow> ('e + fp_var) option" where
  "crh_gadget_evaluate ns sv parameters input =
     (if \<not> list_ex has_cs input
      then map_option (\<lambda>h. Inr (FpConstant h)) (circom_poseidon_hash ns parameters (map fp_value input))
      else case absorb_vars sv input (sv_new sv parameters) of
             Inl e \<Rightarrow> Some (Inl e)
           | Inr sponge \<Rightarrow>
               (case sv_squeeze_field_elements sv sponge 1 of
                  Inl e \<Rightarrow> Some (Inl e)
                | Inr (_, sponge) \<Rightarrow> map_option Inr (vec_index (sv_state sv sponge) 0)))"

definition two_to_one_gadget_compress ::
  "'s native_sponge \<Rightarrow> ('t, 'e) sponge_gadget \<Rightarrow> poseidon_config \<Rightarrow> fp_var \<Rightarrow> fp_var \<Rightarrow> ('e + fp_var) option" where
  "two_to_one_gadget_compress ns sv parameters left right =
     (if \<not> has_cs left \<and> \<not> has_cs right
      then map_option (\<lambda>h. Inr (FpConstant h)) (circom_poseidon_hash ns parameters [fp_value left, fp_value right])
      else case sv_absorb sv (sv_new sv parameters) left of
             Inl e \<Rightarrow> Some (Inl e)
           | Inr sponge \<Rightarrow>
               (case sv_absorb sv sponge right of
                  Inl e \<Rightarrow> Some (Inl e)
                | Inr sponge \<Rightarrow>
                    (case sv_squeeze_field_elements sv sponge 1 of
                       Inl e \<Rightarrow> Some (Inl e)
                     | Inr (_, sponge) \<Rightarrow> map_option Inr (vec_index (sv_state sv sponge) 0))))"

section \<open>Properties\<close>

lemma chunks_Some:
  assumes "0 < w" "length xs = n * w"
  shows "\<exists>cs. chunks w xs = Some cs \<and> length cs = n \<and> (\<forall>c \<in> set cs. length c = w) \<and> concat cs = xs"
  using assms
proof (induction n arbitrary: xs)
  case 0
  then show ?case
    by (simp add: chunks.simps)
next
  case (Suc n)
  have "length (drop w xs) = n * w"
    using Suc.prems by simp
  from Suc.IH [OF Suc.prems(1) this] obtain cs where
    cs: "chunks w (drop w xs) = Some cs" "length cs = n" "\<forall>c \<in> set cs. length c = w"
      "concat cs = drop w xs"
    by blast
  have "xs \<noteq> []"
    using Suc.prems by auto
  then have "chunks w xs = Some (take w xs # cs)"
    using Suc.prems(1) cs(1) by (simp add: chunks.simps [of w xs])
  then show ?case
    using cs Suc.prems by simp
qed

definition params_ok :: "light_params \<Rightarrow> bool" where
  "params_ok p \<longleftrightarrow> lp_width p = 3
     \<and> length (lp_ark p) = (lp_full_rounds p + lp_partial_rounds p) * lp_width p"

lemma light_poseidon_to_ark_config_ok:
  assumes "params_ok p"
  shows "\<exists>c. light_poseidon_to_ark_config p = Some c \<and> rate c = 2 \<and> capacity c = 1
    \<and> length (ark c) = lp_full_rounds p + lp_partial_rounds p \<and> (\<forall>r \<in> set (ark c). length r = 3)
    \<and> concat (ark c) = lp_ark p"
proof -
  from assms obtain cs where "chunks 3 (lp_ark p) = Some cs"
      "length cs = lp_full_rounds p + lp_partial_rounds p" "\<forall>c \<in> set cs. length c = 3"
      "concat cs = lp_ark p"
    using chunks_Some [of 3 "lp_ark p" "lp_full_rounds p + lp_partial_rounds p"]
    by (auto simp: params_ok_def)
  with assms show ?thesis
    by (simp add: light_poseidon_to_ark_config_def params_ok_def Let_def)
qed

section \<open>The gadget sponge implements the native one\<close>

text \<open>
  What the wrappers rely on of the two sponges, operation by operation: a new sponge has
  \<open>rate + capacity\<close> state elements and keeps that number; each operation of the gadget succeeds
  on assigned variables and leaves a sponge with the values of the native one (the relation
  \<open>R\<close>).
\<close>

definition sponge_width :: "'s native_sponge \<Rightarrow> ('s \<Rightarrow> nat) \<Rightarrow> bool" where
  "sponge_width ns wd \<longleftrightarrow>
     (\<forall>c. wd (ns_new ns c) = rate c + capacity c) \<and> (\<forall>s x. wd (ns_absorb ns s x) = wd s)
     \<and> (\<forall>s n. wd (snd (ns_squeeze_native_field_elements ns s n)) = wd s) \<and> (\<forall>s. length (ns_state ns s) = wd s)"

definition gadget_implements :: "('t \<Rightarrow> 's \<Rightarrow> bool) \<Rightarrow> ('t, 'e) sponge_gadget \<Rightarrow> 's native_sponge \<Rightarrow> bool" where
  "gadget_implements R sv ns \<longleftrightarrow>
     (\<forall>c. R (sv_new sv c) (ns_new ns c))
     \<and> (\<forall>t s v. R t s \<longrightarrow> (\<exists>t'. sv_absorb sv t v = Inr t' \<and> R t' (ns_absorb ns s (fp_value v))))
     \<and> (\<forall>t s n. R t s \<longrightarrow> (\<exists>vs t'. sv_squeeze_field_elements sv t n = Inr (vs, t')
            \<and> R t' (snd (ns_squeeze_native_field_elements ns s n))))
     \<and> (\<forall>t s. R t s \<longrightarrow> map fp_value (sv_state sv t) = ns_state ns s)"

lemma vec_index_nth: "i < length xs \<Longrightarrow> vec_index xs i = Some (xs ! i)"
  by (induction xs i rule: vec_index.induct) (auto simp: nth_Cons')

lemma width_foldl: "sponge_width ns wd \<Longrightarrow> wd (foldl (ns_absorb ns) s xs) = wd s"
  by (induction xs arbitrary: s) (simp_all add: sponge_width_def)

lemma absorb_vars_implements:
  assumes "gadget_implements R sv ns" "R t s"
  shows "\<exists>t'. absorb_vars sv vs t = Inr t' \<and> R t' (foldl (ns_absorb ns) s (map fp_value vs))"
  using assms(2)
proof (induction vs arbitrary: t s)
  case (Cons v vs)
  then obtain t' where "sv_absorb sv t v = Inr t'" "R t' (ns_absorb ns s (fp_value v))"
    using assms(1) unfolding gadget_implements_def by blast
  with Cons.IH [of t' "ns_absorb ns s (fp_value v)"] show ?case
    by simp
qed simp

text \<open>The first state element after absorbing the inputs and squeezing once.\<close>

definition sponge_out :: "'s native_sponge \<Rightarrow> poseidon_config \<Rightarrow> fr list \<Rightarrow> fr" where
  "sponge_out ns c xs =
     ns_state ns (snd (ns_squeeze_native_field_elements ns (foldl (ns_absorb ns) (ns_new ns c) xs) 1)) ! 0"

lemma circom_poseidon_hash_out:
  assumes "sponge_width ns wd" "length xs = rate c" "capacity c = 1"
  shows "circom_poseidon_hash ns c xs = Some (sponge_out ns c xs)"
proof -
  have "0 < length (ns_state ns (snd (ns_squeeze_native_field_elements ns (foldl (ns_absorb ns) (ns_new ns c) xs) 1)))"
    using assms(1,3) width_foldl [OF assms(1)] by (simp add: sponge_width_def)
  then show ?thesis
    using assms(2) by (simp add: circom_poseidon_hash_def sponge_out_def vec_index_nth Let_def split_beta)
qed

lemma gadget_out:
  assumes "sponge_width ns wd" "gadget_implements R sv ns" "capacity c = 1"
    and "R t (foldl (ns_absorb ns) (ns_new ns c) xs)"
  obtains vs t' v where "sv_squeeze_field_elements sv t 1 = Inr (vs, t')" "vec_index (sv_state sv t') 0 = Some v"
    "fp_value v = sponge_out ns c xs"
proof -
  let ?s = "snd (ns_squeeze_native_field_elements ns (foldl (ns_absorb ns) (ns_new ns c) xs) 1)"
  obtain vs t' where t: "sv_squeeze_field_elements sv t 1 = Inr (vs, t')" "R t' ?s"
    using assms(2,4) unfolding gadget_implements_def by blast
  have val: "map fp_value (sv_state sv t') = ns_state ns ?s"
    using assms(2) t(2) unfolding gadget_implements_def by blast
  have len: "length (ns_state ns ?s) = rate c + 1"
    using assms(1,3) width_foldl [OF assms(1)] by (simp add: sponge_width_def)
  then have "0 < length (sv_state sv t')"
    using arg_cong [OF val, of length] by simp
  moreover from this have "fp_value (sv_state sv t' ! 0) = sponge_out ns c xs"
    using nth_map [of 0 "sv_state sv t'" fp_value] by (simp add: val sponge_out_def)
  ultimately show ?thesis
    using that t(1) vec_index_nth [of 0 "sv_state sv t'"] by blast
qed

lemma crh_gadget_out:
  assumes "sponge_width ns wd" "gadget_implements R sv ns" "length vs = rate c" "capacity c = 1"
  shows "\<exists>v. crh_gadget_evaluate ns sv c vs = Some (Inr v) \<and> fp_value v = sponge_out ns c (map fp_value vs)"
proof (cases "list_ex has_cs vs")
  case True
  obtain t where t: "absorb_vars sv vs (sv_new sv c) = Inr t" "R t (foldl (ns_absorb ns) (ns_new ns c) (map fp_value vs))"
    using absorb_vars_implements [OF assms(2), of "sv_new sv c" "ns_new ns c" vs] assms(2) by (auto simp: gadget_implements_def)
  obtain os t' v where "sv_squeeze_field_elements sv t 1 = Inr (os, t')" "vec_index (sv_state sv t') 0 = Some v"
    "fp_value v = sponge_out ns c (map fp_value vs)"
    using gadget_out [OF assms(1,2,4) t(2)] .
  with True t(1) show ?thesis
    by (simp add: crh_gadget_evaluate_def)
next
  case False
  with circom_poseidon_hash_out [OF assms(1) _ assms(4), of "map fp_value vs"] assms(3) show ?thesis
    by (simp add: crh_gadget_evaluate_def)
qed

lemma two_to_one_gadget_crh: "two_to_one_gadget_compress ns sv c l r = crh_gadget_evaluate ns sv c [l, r]"
  by (cases "sv_absorb sv (sv_new sv c) l") (auto simp: two_to_one_gadget_compress_def crh_gadget_evaluate_def res_bind_Inl_iff res_bind_Inr_iff split: sum.splits)

text \<open>
  \<^bold>\<open>C35\<close>. With a width-3 parameter table whose round constants have the announced length, the
  two-input hash never panics: it is the first state element of a fresh sponge that has
  absorbed the left and then the right input and has been squeezed once. The CRH trait
  implementations and the two circuit gadgets, on constants, allocated variables or a mix of
  both, compute that element too, given that each operation of the sponge of the constraint
  system does on values what the native one does and that a sponge keeps its number of state
  elements. An input of another length is refused by the trait and panics in the hash. The
  configuration holds exactly the round constants of the table, one row of three per round.
\<close>

theorem poseidon_wrappers_agree:
  assumes "table 3 = Some p" "params_ok p"
    and "sponge_width ns wd" "gadget_implements R sv ns"
  shows "\<exists>c h vc vt. circom_poseidon_config table = Some c \<and> concat (ark c) = lp_ark p
    \<and> length (ark c) = lp_full_rounds p + lp_partial_rounds p \<and> (\<forall>row \<in> set (ark c). length row = 3)
    \<and> h = ns_state ns (snd (ns_squeeze_native_field_elements ns
        (ns_absorb ns (ns_absorb ns (ns_new ns c) (fp_value l)) (fp_value r)) 1)) ! 0
    \<and> poseidon2 table ns (fp_value l) (fp_value r) = Some h
    \<and> crh_evaluate ns c [fp_value l, fp_value r] = Some (Inr h)
    \<and> two_to_one_compress ns c (fp_value l) (fp_value r) = Some (Inr h)
    \<and> crh_gadget_evaluate ns sv c [l, r] = Some (Inr vc) \<and> fp_value vc = h
    \<and> two_to_one_gadget_compress ns sv c l r = Some (Inr vt) \<and> fp_value vt = h
    \<and> (\<forall>xs. length xs \<noteq> 2 \<longrightarrow> crh_evaluate ns c xs = Some (Inl (IncorrectInputLength (length xs)))
         \<and> circom_poseidon_hash ns c xs = None)"
proof -
  obtain c where c: "light_poseidon_to_ark_config p = Some c" "rate c = 2" "capacity c = 1" "\<forall>row \<in> set (ark c). length row = 3"
      "length (ark c) = lp_full_rounds p + lp_partial_rounds p" "concat (ark c) = lp_ark p"
    using light_poseidon_to_ark_config_ok [OF assms(2)] by blast
  have cfg: "circom_poseidon_config table = Some c"
    using assms(1) c(1) by (simp add: circom_poseidon_config_def)
  have hash: "circom_poseidon_hash ns c [fp_value l, fp_value r] = Some (sponge_out ns c [fp_value l, fp_value r])"
    using circom_poseidon_hash_out [OF assms(3) _ c(3)] c(2) by simp
  obtain v where v: "crh_gadget_evaluate ns sv c [l, r] = Some (Inr v)" "fp_value v = sponge_out ns c [fp_value l, fp_value r]"
    using crh_gadget_out [OF assms(3,4) _ c(3), of "[l, r]"] c(2) by auto
  show ?thesis
    using c cfg hash v
    by (intro exI [of _ c] exI [of _ "sponge_out ns c [fp_value l, fp_value r]"] exI [of _ v])
      (simp add: poseidon2_def crh_evaluate_def two_to_one_compress_def two_to_one_gadget_crh sponge_out_def circom_poseidon_hash_def)
qed

definition sample_params :: light_params where
  "sample_params = \<lparr>lp_width = 3, lp_full_rounds = 1, lp_partial_rounds = 1, lp_alpha = 5,
     lp_mds = [], lp_ark = [1, 1, 1, 1, 1, 1]\<rparr>"

text \<open>A sample sponge: the state and the number of absorbed elements; squeezing mixes the state.\<close>

definition sample_sponge :: "(fr list \<times> nat) native_sponge" where
  "sample_sponge = \<lparr>ns_new = (\<lambda>c. (replicate (rate c + capacity c) 0, 1)),
     ns_absorb = (\<lambda>(st, k) x. (list_update st k x, k + 1)),
     ns_squeeze_native_field_elements = (\<lambda>(st, k) n. (take n st, (map (\<lambda>x. x + sum_list st) st, 1))),
     ns_state = fst\<rparr>"

definition sample_gadget :: "(fp_var list \<times> nat, unit) sponge_gadget" where
  "sample_gadget = \<lparr>sv_new = (\<lambda>c. (replicate (rate c + capacity c) (FpConstant 0), 1)),
     sv_absorb = (\<lambda>(st, k) v. Inr (list_update st k v, k + 1)),
     sv_squeeze_field_elements = (\<lambda>(st, k) n.
       Inr (take n st, (map (\<lambda>v. FpVar (fp_value v + sum_list (map fp_value st))) st, 1))),
     sv_state = fst\<rparr>"

lemma sample_sponges:
  "sponge_width sample_sponge (length \<circ> fst)"
  "gadget_implements (\<lambda>(vs, i) (st, k). map fp_value vs = st \<and> i = k) sample_gadget sample_sponge"
  by (auto simp: sponge_width_def gadget_implements_def sample_sponge_def sample_gadget_def map_update)

theorem poseidon_wrappers_agree_witness:
  "\<exists>c h vc vt. circom_poseidon_config (\<lambda>_. Some sample_params) = Some c
    \<and> poseidon2 (\<lambda>_. Some sample_params) sample_sponge 0 1 = Some h
    \<and> crh_evaluate sample_sponge c [0, 1] = Some (Inr h)
    \<and> two_to_one_compress sample_sponge c 0 1 = Some (Inr h)
    \<and> crh_gadget_evaluate sample_sponge sample_gadget c [FpConstant 0, FpVar 1] = Some (Inr vc) \<and> fp_value vc = h
    \<and> two_to_one_gadget_compress sample_sponge sample_gadget c (FpConstant 0) (FpVar 1) = Some (Inr vt) \<and> fp_value vt = h"
proof -
  have "params_ok sample_params"
    by (simp add: params_ok_def sample_params_def)
  then show ?thesis
    using poseidon_wrappers_agree [of "\<lambda>_. Some sample_params", OF refl _ sample_sponges, of "FpConstant 0" "FpVar 1"]
    unfolding fp_value.simps by blast
qed

end
