(* ===== verification/Merkle_Tree.thy ===== *)
theory Merkle_Tree
  imports Field
begin

text \<open>
  The sparse Merkle tree of \<open>zkp/src/utils/tree/\<close>: bit paths, the node map with its
  table of empty-subtree hashes, inclusion proofs and their composition.

  The two-to-one hash \<open>poseidon2\<close> is the parameter \<open>H\<close>. The specification is the
  complete binary tree over a leaf function (\<open>node\<close>); \<open>mt_inv\<close> ties a node map to it.
  The locale \<open>merkle_store\<close> states what the rest of the system relies on.
\<close>

named_theorems merkle_simps \<open>rewrite rules of the tree model\<close>

section \<open>Bit paths (\<open>bit_path.rs\<close>)\<close>

record bit_path =
  bp_length :: u32
  bp_value :: u64

definition bp_new :: "u32 \<Rightarrow> u64 \<Rightarrow> bit_path" where
  "bp_new l v = \<lparr>bp_length = l, bp_value = v\<rparr>"

definition bp_default :: bit_path where
  "bp_default = \<lparr>bp_length = 0, bp_value = 0\<rparr>"

definition bp_is_empty :: "bit_path \<Rightarrow> bool" where
  "bp_is_empty p \<longleftrightarrow> bp_length p = 0"

definition bp_pop :: "bit_path \<Rightarrow> bool option \<times> bit_path" where
  "bp_pop p =
     (if bp_length p = 0 then (None, p)
      else (let bit = bp_value p AND 1
            in (Some (bit = 1),
                \<lparr>bp_length = bp_length p - 1, bp_value = drop_bit 1 (bp_value p)\<rparr>)))"

definition bp_sibling :: "bit_path \<Rightarrow> bit_path" where
  "bp_sibling p = p\<lparr>bp_value := bp_value p XOR 1\<rparr>"

definition bp_to_bytes :: "bit_path \<Rightarrow> bytes" where
  "bp_to_bytes p = be_bytes 4 (unat (bp_length p)) @ be_bytes 8 (unat (bp_value p))"

definition bp_from_bytes :: "bytes \<Rightarrow> bit_path" where
  "bp_from_bytes bs =
     bp_new (word_of_nat (nat_of_be (take 4 bs))) (word_of_nat (nat_of_be (drop 4 bs)))"

lemma bp_from_to_bytes [simp, codec_simps]: "bp_from_bytes (bp_to_bytes p) = p"
  using unat_u32_less [of "bp_length p"]
  by (cases p) (simp add: bp_from_bytes_def bp_to_bytes_def bp_new_def)

lemma bp_to_from_bytes [codec_simps]:
  assumes "length bs = 12"
  shows "bp_to_bytes (bp_from_bytes bs) = bs"
proof -
  have "nat_of_be (take 4 bs) < 256 ^ 4" "nat_of_be (drop 4 bs) < 256 ^ 8"
    using nat_of_be_less [of "take 4 bs"] nat_of_be_less [of "drop 4 bs"] assms by simp_all
  moreover have "be_bytes 4 (nat_of_be (take 4 bs)) = take 4 bs"
    "be_bytes 8 (nat_of_be (drop 4 bs)) = drop 4 bs"
    using be_bytes_nat_of_be [of "take 4 bs"] be_bytes_nat_of_be [of "drop 4 bs"] assms
    by simp_all
  ultimately show ?thesis
    by (simp add: bp_to_bytes_def bp_from_bytes_def bp_new_def unat_word_of_nat)
qed

lemma bp_to_bytes_inject: "bp_to_bytes p = bp_to_bytes q \<longleftrightarrow> p = q"
  by (metis bp_from_to_bytes)

lemma length_bp_to_bytes [simp]: "length (bp_to_bytes p) = 12"
  by (simp add: bp_to_bytes_def)

text \<open>The numbers a path stands for.\<close>

abbreviation plen :: "bit_path \<Rightarrow> nat" where "plen p \<equiv> unat (bp_length p)"
abbreviation pval :: "bit_path \<Rightarrow> nat" where "pval p \<equiv> unat (bp_value p)"

definition sib :: "nat \<Rightarrow> nat" where
  "sib v = (if even v then v + 1 else v - 1)"

lemma sib_sib [simp]: "sib (sib v) = v"
  by (auto simp: sib_def)

lemma sib_div2 [simp]: "sib v div 2 = v div 2"
  by (auto simp: sib_def elim: oddE)

lemma sib_even [simp]: "even (sib v) \<longleftrightarrow> odd v"
  by (auto simp: sib_def elim: oddE)

lemma sib_neq [simp]: "sib v \<noteq> v"
  using odd_pos [of v] by (auto simp: sib_def)

lemma sib_less: "v < 2 ^ n \<Longrightarrow> n \<noteq> 0 \<Longrightarrow> sib v < 2 ^ n"
proof -
  assume "v < 2 ^ n" "n \<noteq> 0"
  then have "v div 2 < 2 ^ (n - 1)"
    by (cases n) auto
  moreover have "(2 :: nat) ^ n = 2 * 2 ^ (n - 1)"
    using \<open>n \<noteq> 0\<close> by (cases n) auto
  ultimately show ?thesis
    by (metis div_less_iff_less_mult mult.commute sib_div2 zero_less_numeral)
qed

lemma unat_xor_one: "unat ((x :: 'a :: len word) XOR 1) = unat x XOR 1"
  by (simp add: unsigned_xor_eq)

lemma nat_xor_one: "(v :: nat) XOR Suc 0 = sib v"
  by (simp add: sib_def xor_Suc_0_eq)

lemma pval_sibling [simp, merkle_simps]: "pval (bp_sibling p) = sib (pval p)"
  by (simp add: bp_sibling_def unat_xor_one nat_xor_one)

lemma plen_sibling [simp, merkle_simps]: "bp_length (bp_sibling p) = bp_length p"
  by (simp add: bp_sibling_def)

lemma pop_nonempty:
  assumes "plen p = Suc n"
  shows "\<exists>q. bp_pop p = (Some (odd (pval p)), q) \<and> plen q = n \<and> pval q = pval p div 2"
proof -
  have ne: "bp_length p \<noteq> 0"
    using assms by auto
  have "bp_value p AND 1 = 1 \<longleftrightarrow> odd (pval p)"
    by (simp add: and_one_eq mod_2_eq_odd bit_unsigned_iff flip: bit_0)
  moreover have "unat (bp_length p - 1) = n"
    using assms ne by (simp add: unat_minus_one)
  moreover have "unat (drop_bit 1 (bp_value p)) = pval p div 2"
    by (simp add: drop_bit_Suc unat_div)
  ultimately show ?thesis
    using ne by (simp add: bp_pop_def Let_def)
qed

lemma pop_empty: "plen p = 0 \<Longrightarrow> bp_pop p = (None, p)"
  by (simp add: bp_pop_def unat_eq_0)

section \<open>The tree and its proofs (\<open>merkle_tree.rs\<close>)\<close>

record merkle_tree =
  mt_height :: nat
  node_hashes :: "bit_path \<rightharpoonup> fr"
  zero_hashes :: "fr list"

record merkle_proof =
  siblings :: "fr list"

primrec zero_loop :: "(fr \<Rightarrow> fr \<Rightarrow> fr) \<Rightarrow> nat \<Rightarrow> fr \<Rightarrow> fr list \<Rightarrow> fr list" where
  "zero_loop H 0 h zs = zs"
| "zero_loop H (Suc n) h zs = (let h' = H h h in zero_loop H n h' (zs @ [h']))"

definition mt_new :: "(fr \<Rightarrow> fr \<Rightarrow> fr) \<Rightarrow> nat \<Rightarrow> merkle_tree" where
  "mt_new H height =
     \<lparr>mt_height = height, node_hashes = Map.empty, zero_hashes = zero_loop H height 0 [0]\<rparr>"

definition get_node_hash :: "merkle_tree \<Rightarrow> bit_path \<Rightarrow> fr option" where
  "get_node_hash t path =
     (case node_hashes t path of
        Some h \<Rightarrow> Some h
      | None \<Rightarrow>
          if plen path \<le> mt_height t \<and> mt_height t - plen path < length (zero_hashes t)
          then Some (zero_hashes t ! (mt_height t - plen path)) else None)"

definition mt_get_root :: "merkle_tree \<Rightarrow> fr option" where
  "mt_get_root t = get_node_hash t bp_default"

primrec update_loop ::
  "(fr \<Rightarrow> fr \<Rightarrow> fr) \<Rightarrow> nat \<Rightarrow> merkle_tree \<Rightarrow> bit_path \<Rightarrow> fr \<Rightarrow> merkle_tree option" where
  "update_loop H 0 t path h = Some t"
| "update_loop H (Suc n) t path h =
     do {
       sibling \<leftarrow> get_node_hash t (bp_sibling path);
       bit \<leftarrow> fst (bp_pop path);
       let path' = snd (bp_pop path);
       let h' = (if bit then H sibling h else H h sibling);
       update_loop H n (t\<lparr>node_hashes := (node_hashes t)(path' \<mapsto> h')\<rparr>) path' h'
     }"

definition update_leaf ::
  "(fr \<Rightarrow> fr \<Rightarrow> fr) \<Rightarrow> merkle_tree \<Rightarrow> u64 \<Rightarrow> fr \<Rightarrow> merkle_tree option" where
  "update_leaf H t index leaf_hash =
     (let path = bp_new (word_of_nat (mt_height t)) index
      in update_loop H (mt_height t) (t\<lparr>node_hashes := (node_hashes t)(path \<mapsto> leaf_hash)\<rparr>)
           path leaf_hash)"

primrec prove_loop :: "merkle_tree \<Rightarrow> nat \<Rightarrow> bit_path \<Rightarrow> fr list option" where
  "prove_loop t 0 path = Some []"
| "prove_loop t (Suc n) path =
     do {
       sibling \<leftarrow> get_node_hash t (bp_sibling path);
       rest \<leftarrow> prove_loop t n (snd (bp_pop path));
       Some (sibling # rest)
     }"

definition mt_prove :: "merkle_tree \<Rightarrow> u64 \<Rightarrow> merkle_proof option" where
  "mt_prove t index =
     do {
       ss \<leftarrow> prove_loop t (mt_height t) (bp_new (word_of_nat (mt_height t)) index);
       Some \<lparr>siblings = ss\<rparr>
     }"

definition proof_dummy :: "nat \<Rightarrow> merkle_proof" where
  "proof_dummy height = \<lparr>siblings = replicate height 0\<rparr>"

definition proof_height :: "merkle_proof \<Rightarrow> nat" where
  "proof_height p = length (siblings p)"

primrec get_root_loop ::
  "(fr \<Rightarrow> fr \<Rightarrow> fr) \<Rightarrow> fr list \<Rightarrow> bit_path \<Rightarrow> fr \<Rightarrow> fr option" where
  "get_root_loop H [] path state = Some state"
| "get_root_loop H (sibling # ss) path state =
     do {
       bit \<leftarrow> fst (bp_pop path);
       get_root_loop H ss (snd (bp_pop path)) (if bit then H sibling state else H state sibling)
     }"

definition proof_get_root ::
  "(fr \<Rightarrow> fr \<Rightarrow> fr) \<Rightarrow> merkle_proof \<Rightarrow> fr \<Rightarrow> u64 \<Rightarrow> fr option" where
  "proof_get_root H p leaf_hash index =
     get_root_loop H (siblings p) (bp_new (word_of_nat (proof_height p)) index) leaf_hash"

definition proof_extend :: "merkle_proof \<Rightarrow> merkle_proof \<Rightarrow> merkle_proof" where
  "proof_extend p q = \<lparr>siblings = siblings p @ siblings q\<rparr>"

section \<open>Specification: the complete tree over a leaf function\<close>

primrec node :: "(fr \<Rightarrow> fr \<Rightarrow> fr) \<Rightarrow> (nat \<Rightarrow> fr) \<Rightarrow> nat \<Rightarrow> nat \<Rightarrow> fr" where
  "node H f 0 j = f j"
| "node H f (Suc l) j = H (node H f l (2 * j)) (node H f l (2 * j + 1))"

text \<open>The root obtained from a leaf, its index and the sibling hashes, leaf level first.\<close>

primrec path_root :: "(fr \<Rightarrow> fr \<Rightarrow> fr) \<Rightarrow> fr list \<Rightarrow> nat \<Rightarrow> fr \<Rightarrow> fr" where
  "path_root H [] i x = x"
| "path_root H (s # ss) i x = path_root H ss (i div 2) (if odd i then H s x else H x s)"

text \<open>The siblings met on the way up from node \<open>j\<close> of level \<open>l\<close>, \<open>n\<close> levels.\<close>

primrec path_siblings :: "(fr \<Rightarrow> fr \<Rightarrow> fr) \<Rightarrow> (nat \<Rightarrow> fr) \<Rightarrow> nat \<Rightarrow> nat \<Rightarrow> nat \<Rightarrow> fr list" where
  "path_siblings H f l 0 j = []"
| "path_siblings H f l (Suc n) j = node H f l (sib j) # path_siblings H f (Suc l) n (j div 2)"

lemma length_path_siblings [simp]: "length (path_siblings H f l n j) = n"
  by (induction n arbitrary: l j) auto

lemma node_parent:
  "node H f (Suc l) (j div 2)
     = (if odd j then H (node H f l (sib j)) (node H f l j) else H (node H f l j) (node H f l (sib j)))"
  by (auto simp: sib_def elim!: oddE evenE)

lemma path_root_siblings:
  "path_root H (path_siblings H f l n j) j (node H f l j) = node H f (l + n) (j div 2 ^ n)"
proof (induction n arbitrary: l j)
  case (Suc n)
  have "path_root H (path_siblings H f l (Suc n) j) j (node H f l j)
      = path_root H (path_siblings H f (Suc l) n (j div 2)) (j div 2) (node H f (Suc l) (j div 2))"
    using node_parent [of H f l j] by simp
  also have "\<dots> = node H f (Suc l + n) (j div 2 div 2 ^ n)"
    by (rule Suc.IH)
  finally show ?case
    by (simp add: div_mult2_eq)
qed simp

lemma node_upd_other:
  assumes "j \<noteq> i div 2 ^ l"
  shows "node H (f(i := x)) l j = node H f l j"
  using assms
proof (induction l arbitrary: j)
  case (Suc l)
  have "2 * j \<noteq> i div 2 ^ l" "2 * j + 1 \<noteq> i div 2 ^ l"
    using Suc.prems unfolding div_pow_Suc by auto
  then show ?case
    using Suc.IH by simp
qed simp

lemma path_siblings_upd:
  assumes "j = i div 2 ^ l"
  shows "path_siblings H (f(i := x)) l n j = path_siblings H f l n j"
  using assms
proof (induction n arbitrary: l j)
  case (Suc n)
  have "node H (f(i := x)) l (sib j) = node H f l (sib j)"
    using Suc.prems by (intro node_upd_other) simp
  moreover have "j div 2 = i div 2 ^ Suc l"
    using Suc.prems by (simp only: div_pow_Suc)
  ultimately show ?case
    using Suc.IH [of "j div 2" "Suc l"] by (simp del: fun_upd_apply)
qed simp

lemma node_upd_path_root:
  assumes "i < 2 ^ n"
  shows "node H (f(i := x)) n 0 = path_root H (path_siblings H f 0 n i) i x"
  using path_root_siblings [of H "f(i := x)" 0 n i] assms by (simp add: path_siblings_upd)

lemma node_path_root:
  assumes "i < 2 ^ n"
  shows "path_root H (path_siblings H f 0 n i) i (f i) = node H f n 0"
  using path_root_siblings [of H f 0 n i] assms by simp

lemma path_root_append:
  "path_root H (ss @ ts) i x = path_root H ts (i div 2 ^ length ss) (path_root H ss i x)"
  by (induction ss arbitrary: i x) (auto simp: div_mult2_eq)

primrec zero_hash :: "(fr \<Rightarrow> fr \<Rightarrow> fr) \<Rightarrow> nat \<Rightarrow> fr" where
  "zero_hash H 0 = 0"
| "zero_hash H (Suc n) = H (zero_hash H n) (zero_hash H n)"

lemma node_zero: "node H (\<lambda>_. 0) l j = zero_hash H l"
  by (induction l arbitrary: j) auto

lemma zero_loop_eq:
  "zero_loop H n (zero_hash H k) zs = zs @ map (zero_hash H) [Suc k..<Suc k + n]"
proof (induction n arbitrary: k zs)
  case (Suc n)
  have "[Suc k..<Suc k + Suc n] = Suc k # [Suc (Suc k)..<Suc (Suc k) + n]"
    by (subst upt_conv_Cons) auto
  then show ?case
    using Suc.IH [of "Suc k"] by (simp add: Let_def)
qed simp

lemma zero_hashes_new: "zero_hashes (mt_new H n) = map (zero_hash H) [0..<Suc n]"
  using zero_loop_eq [of H n 0 "[0]"] by (simp add: mt_new_def upt_conv_Cons del: upt_Suc)

section \<open>The node map refines the specification\<close>

definition valid_path :: "nat \<Rightarrow> bit_path \<Rightarrow> bool" where
  "valid_path height p \<longleftrightarrow> plen p \<le> height \<and> pval p < 2 ^ plen p"

definition mt_shape :: "nat \<Rightarrow> merkle_tree \<Rightarrow> bool" where
  "mt_shape height t \<longleftrightarrow>
     mt_height t = height \<and> height < 2 ^ 32 \<and> length (zero_hashes t) = Suc height"

definition mt_inv :: "(fr \<Rightarrow> fr \<Rightarrow> fr) \<Rightarrow> nat \<Rightarrow> merkle_tree \<Rightarrow> (nat \<Rightarrow> fr) \<Rightarrow> bool" where
  "mt_inv H height t f \<longleftrightarrow>
     mt_shape height t
     \<and> (\<forall>p. valid_path height p \<longrightarrow>
          get_node_hash t p = Some (node H f (height - plen p) (pval p)))"

lemma get_node_hash_defined [panic_free]:
  assumes "mt_shape height t" "plen p \<le> height"
  shows "\<exists>h. get_node_hash t p = Some h"
  using assms by (auto simp: get_node_hash_def mt_shape_def split: option.splits)

lemma get_node_hash_upd:
  "get_node_hash (t\<lparr>node_hashes := (node_hashes t)(q \<mapsto> h)\<rparr>) p
     = (if p = q then Some h else get_node_hash t p)"
  by (cases t) (auto simp: get_node_hash_def split: option.splits)

lemma mt_shape_upd [simp]: "mt_shape height (t\<lparr>node_hashes := m\<rparr>) = mt_shape height t"
  by (simp add: mt_shape_def)

lemma path_eqI: "plen p = plen q \<Longrightarrow> pval p = pval q \<Longrightarrow> (p :: bit_path) = q"
  by (metis (full_types) bit_path.surjective old.unit.exhaust unsigned_word_eqI)

lemma mt_inv_new:
  assumes "height < 2 ^ 32"
  shows "mt_inv H height (mt_new H height) (\<lambda>_. 0)"
proof -
  have "mt_shape height (mt_new H height)"
    using assms zero_hashes_new [of H height] by (simp add: mt_shape_def) (simp add: mt_new_def)
  moreover have "get_node_hash (mt_new H height) p = Some (zero_hash H (height - plen p))"
    if "plen p \<le> height" for p
  proof -
    have "mt_height (mt_new H height) = height" "node_hashes (mt_new H height) = Map.empty"
      by (simp_all add: mt_new_def)
    then show ?thesis
      using that by (simp add: get_node_hash_def zero_hashes_new del: upt_Suc)
  qed
  ultimately show ?thesis
    by (simp add: mt_inv_def valid_path_def node_zero)
qed

text \<open>
  One pass of the update loop: below the current level the map already shows the
  new leaf function \<open>f'\<close>, above it still the old one \<open>f\<close>.
\<close>

definition mid_inv ::
  "(fr \<Rightarrow> fr \<Rightarrow> fr) \<Rightarrow> nat \<Rightarrow> nat \<Rightarrow> merkle_tree \<Rightarrow> (nat \<Rightarrow> fr) \<Rightarrow> (nat \<Rightarrow> fr) \<Rightarrow> bool" where
  "mid_inv H height n t f f' \<longleftrightarrow>
     mt_shape height t
     \<and> (\<forall>p. valid_path height p \<longrightarrow>
          get_node_hash t p
            = Some (node H (if n \<le> plen p then f' else f) (height - plen p) (pval p)))"

lemma mid_inv_step:
  assumes mid: "mid_inv H height (Suc n) t f (f(i := x))"
    and n: "Suc n \<le> height" and i: "i < 2 ^ height"
    and q: "plen q = n" "pval q = i div 2 ^ (height - n)"
  shows "mid_inv H height n
    (t\<lparr>node_hashes := (node_hashes t)(q \<mapsto> node H (f(i := x)) (height - n) (pval q))\<rparr>) f (f(i := x))"
proof -
  have "get_node_hash t p = Some (node H (f(i := x)) (height - plen p) (pval p))"
    if "valid_path height p" "plen p = n" "p \<noteq> q" for p
  proof -
    have "pval p \<noteq> i div 2 ^ (height - plen p)"
      using that q path_eqI [of p q] by auto
    then have "node H (f(i := x)) (height - plen p) (pval p) = node H f (height - plen p) (pval p)"
      by (rule node_upd_other)
    then show ?thesis
      using mid that by (auto simp: mid_inv_def)
  qed
  with mid q show ?thesis
    unfolding mid_inv_def get_node_hash_upd
    by (auto simp: not_less_eq_eq le_Suc_eq simp del: fun_upd_apply)
qed

lemma update_loop_ok:
  assumes "mid_inv H height n t f (f(i := x))"
    and "n \<le> height" "i < 2 ^ height"
    and "plen p = n" "pval p = i div 2 ^ (height - n)"
    and "h = node H (f(i := x)) (height - n) (pval p)"
  shows "\<exists>t'. update_loop H n t p h = Some t' \<and> mid_inv H height 0 t' f (f(i := x))"
  using assms
proof (induction n arbitrary: t p h)
  case (Suc n)
  let ?f' = "f(i := x)"
  obtain q where q: "bp_pop p = (Some (odd (pval p)), q)" "plen q = n" "pval q = pval p div 2"
    using pop_nonempty [OF Suc.prems(4)] by blast
  have lvl: "height - n = Suc (height - Suc n)"
    using Suc.prems(2) by simp
  have pv: "pval q = i div 2 ^ (height - n)"
    using q(3) Suc.prems(5) unfolding lvl div_pow_Suc by simp
  have "pval p < 2 ^ plen p"
    using Suc.prems(2-5)
    by (simp add: div_less_iff_less_mult flip: power_add power_Suc)
  then have "valid_path height (bp_sibling p)"
    using Suc.prems(2,4) sib_less [of "pval p" "plen p"] by (simp add: valid_path_def)
  then have sibh: "get_node_hash t (bp_sibling p) = Some (node H ?f' (height - Suc n) (sib (pval p)))"
    using Suc.prems(1,4) by (simp add: mid_inv_def del: fun_upd_apply)
  let ?h = "node H ?f' (height - n) (pval q)"
  have h: "(if odd (pval p) then H (node H ?f' (height - Suc n) (sib (pval p))) h
      else H h (node H ?f' (height - Suc n) (sib (pval p)))) = ?h"
    using node_parent [of H ?f' "height - Suc n" "pval p"] Suc.prems(6) q(3) lvl
    by (simp del: fun_upd_apply node.simps)
  have "mid_inv H height n (t\<lparr>node_hashes := (node_hashes t)(q \<mapsto> ?h)\<rparr>) f ?f'"
    by (rule mid_inv_step [OF Suc.prems(1,2,3) q(2) pv])
  from Suc.IH [OF this _ Suc.prems(3) q(2) pv refl] Suc.prems(2) sibh q h show ?case
    by (simp add: Let_def del: fun_upd_apply node.simps)
qed simp

text \<open>An index beyond the leaves never touches a node of the tree.\<close>

lemma update_loop_outside:
  assumes "mt_inv H height t f" "n \<le> height" "plen p = n" "2 ^ n \<le> pval p"
  shows "\<exists>t'. update_loop H n t p h = Some t' \<and> mt_inv H height t' f"
  using assms
proof (induction n arbitrary: t p h)
  case (Suc n)
  obtain q where q: "bp_pop p = (Some (odd (pval p)), q)" "plen q = n" "pval q = pval p div 2"
    using pop_nonempty [OF Suc.prems(3)] by blast
  obtain s where s: "get_node_hash t (bp_sibling p) = Some s"
    using get_node_hash_defined [of height t "bp_sibling p"] Suc.prems by (auto simp: mt_inv_def)
  have big: "2 ^ n \<le> pval q"
    using q(3) Suc.prems(4) by simp
  have "mt_inv H height (t\<lparr>node_hashes := (node_hashes t)(q \<mapsto> g)\<rparr>) f" for g
    using Suc.prems(1) big q(2) by (auto simp: mt_inv_def get_node_hash_upd valid_path_def)
  from Suc.IH [OF this _ q(2) big] Suc.prems(2) q s show ?case
    by (simp add: Let_def)
qed simp

lemma initial_path:
  assumes "mt_shape height t"
  shows "plen (bp_new (word_of_nat height) index) = height"
    and "pval (bp_new (word_of_nat height) index) = unat index"
  using assms by (simp_all add: bp_new_def mt_shape_def unat_word_of_nat)

lemma update_leaf_inside:
  assumes inv: "mt_inv H height t f" and i: "unat index < 2 ^ height"
  shows "\<exists>t'. update_leaf H t index x = Some t' \<and> mt_inv H height t' (f(unat index := x))"
proof -
  let ?f' = "f(unat index := x)" and ?p = "bp_new (word_of_nat height) index"
  have shape: "mt_shape height t"
    using inv by (simp add: mt_inv_def)
  note ip = initial_path [OF shape, of index]
  have "get_node_hash t p = Some (node H ?f' (height - plen p) (pval p))"
    if "valid_path height p" "height \<le> plen p" "p \<noteq> ?p" for p
  proof -
    have "plen p = height"
      using that by (simp add: valid_path_def)
    with that have "pval p \<noteq> unat index"
      using path_eqI [of p ?p] ip by auto
    with inv that \<open>plen p = height\<close> show ?thesis
      by (auto simp: mt_inv_def)
  qed
  then have "mid_inv H height height (t\<lparr>node_hashes := (node_hashes t)(?p \<mapsto> x)\<rparr>) f ?f'"
    using inv ip by (auto simp: mid_inv_def mt_inv_def get_node_hash_upd)
  from update_loop_ok [OF this le_refl i, of ?p x] ip show ?thesis
    using shape
    by (auto simp: update_leaf_def mt_shape_def Let_def mid_inv_def mt_inv_def)
qed

lemma update_leaf_outside:
  assumes inv: "mt_inv H height t f" and i: "2 ^ height \<le> unat index"
  shows "\<exists>t'. update_leaf H t index x = Some t' \<and> mt_inv H height t' f"
proof -
  let ?p = "bp_new (word_of_nat height) index"
  have shape: "mt_shape height t"
    using inv by (simp add: mt_inv_def)
  note ip = initial_path [OF shape, of index]
  have "mt_inv H height (t\<lparr>node_hashes := (node_hashes t)(?p \<mapsto> x)\<rparr>) f"
    using inv i ip by (auto simp: mt_inv_def get_node_hash_upd valid_path_def)
  from update_loop_outside [OF this, of height ?p x] ip i show ?thesis
    using shape by (auto simp: update_leaf_def mt_shape_def Let_def)
qed

lemma prove_loop_ok:
  assumes "mt_inv H height t f" "n \<le> height" "plen p = n" "pval p < 2 ^ n"
  shows "prove_loop t n p = Some (path_siblings H f (height - n) n (pval p))"
  using assms
proof (induction n arbitrary: p)
  case (Suc n)
  obtain q where q: "bp_pop p = (Some (odd (pval p)), q)" "plen q = n" "pval q = pval p div 2"
    using pop_nonempty [OF Suc.prems(3)] by blast
  have "valid_path height (bp_sibling p)"
    using Suc.prems sib_less [of "pval p" "Suc n"] by (simp add: valid_path_def)
  then have "get_node_hash t (bp_sibling p) = Some (node H f (height - Suc n) (sib (pval p)))"
    using Suc.prems(1,3) by (simp add: mt_inv_def)
  moreover have "pval q < 2 ^ n"
    using q(3) Suc.prems(4) by simp
  moreover have "height - n = Suc (height - Suc n)"
    using Suc.prems(2) by simp
  ultimately show ?case
    using Suc.IH [of q] Suc.prems(1,2) q by simp
qed simp

lemma mt_prove_ok:
  assumes "mt_inv H height t f" "unat index < 2 ^ height"
  shows "mt_prove t index = Some \<lparr>siblings = path_siblings H f 0 height (unat index)\<rparr>"
proof -
  have shape: "mt_shape height t"
    using assms(1) by (simp add: mt_inv_def)
  note ip = initial_path [OF shape, of index]
  show ?thesis
    using prove_loop_ok [OF assms(1) le_refl ip(1)] ip(2) assms(2) shape
    by (simp add: mt_prove_def mt_shape_def)
qed

lemma get_root_loop_eq:
  assumes "length ss \<le> plen p"
  shows "get_root_loop H ss p x = Some (path_root H ss (pval p) x)"
  using assms
proof (induction ss arbitrary: p x)
  case (Cons s ss)
  obtain n where "plen p = Suc n"
    using Cons.prems by (cases "plen p") auto
  from pop_nonempty [OF this] obtain q where
    "bp_pop p = (Some (odd (pval p)), q)" "plen q = n" "pval q = pval p div 2"
    by blast
  then show ?case
    using Cons \<open>plen p = Suc n\<close> by simp
qed simp

lemma proof_get_root_eq:
  assumes "length (siblings p) < 2 ^ 32"
  shows "proof_get_root H p x index = Some (path_root H (siblings p) (unat index) x)"
  using assms get_root_loop_eq [of "siblings p" "bp_new (word_of_nat (proof_height p)) index"]
  by (simp add: proof_get_root_def bp_new_def proof_height_def unat_word_of_nat)

lemma mt_get_root_ok: "mt_inv H height t f \<Longrightarrow> mt_get_root t = Some (node H f height 0)"
  by (auto simp: mt_inv_def mt_get_root_def bp_default_def valid_path_def)

section \<open>The interface of a Merkle store\<close>

text \<open>A sequence of leaf updates, and the leaf function it leaves behind.\<close>

fun apply_updates :: "('s \<Rightarrow> u64 \<Rightarrow> fr \<Rightarrow> 's option) \<Rightarrow> 's \<Rightarrow> (u64 \<times> fr) list \<Rightarrow> 's option" where
  "apply_updates upd s [] = Some s"
| "apply_updates upd s ((i, x) # us) = do { s' \<leftarrow> upd s i x; apply_updates upd s' us }"

fun write_leaves :: "(nat \<Rightarrow> fr) \<Rightarrow> (u64 \<times> fr) list \<Rightarrow> nat \<Rightarrow> fr" where
  "write_leaves f [] = f"
| "write_leaves f ((i, x) # us) = write_leaves (f(unat i := x)) us"

locale merkle_store =
  fixes H :: "fr \<Rightarrow> fr \<Rightarrow> fr" and height :: nat
    and inv :: "'s \<Rightarrow> (nat \<Rightarrow> fr) \<Rightarrow> bool"
    and root :: "'s \<Rightarrow> fr option"
    and update :: "'s \<Rightarrow> u64 \<Rightarrow> fr \<Rightarrow> 's option"
    and prove :: "'s \<Rightarrow> u64 \<Rightarrow> merkle_proof option"
  assumes height_bound: "inv s f \<Longrightarrow> height < 2 ^ 32"
    and root_law: "inv s f \<Longrightarrow> root s = Some (node H f height 0)"
    and update_law: "inv s f \<Longrightarrow> unat i < 2 ^ height
      \<Longrightarrow> \<exists>s'. update s i x = Some s' \<and> inv s' (f(unat i := x))"
    and prove_law: "inv s f \<Longrightarrow> unat i < 2 ^ height
      \<Longrightarrow> prove s i = Some \<lparr>siblings = path_siblings H f 0 height (unat i)\<rparr>"
begin

lemma prove_verifies:
  assumes "inv s f" "unat i < 2 ^ height"
  shows "\<exists>p. prove s i = Some p \<and> proof_height p = height \<and> proof_get_root H p (f (unat i)) i = root s"
  using prove_law [OF assms] root_law [OF assms(1)] height_bound [OF assms(1)] assms(2)
  by (simp add: proof_height_def proof_get_root_eq node_path_root)

lemma update_root_by_proof:
  assumes "inv s f" "unat i < 2 ^ height"
  shows "\<exists>p s'. prove s i = Some p \<and> update s i x = Some s' \<and> inv s' (f(unat i := x))
    \<and> root s' = proof_get_root H p x i"
proof -
  obtain s' where s': "update s i x = Some s'" "inv s' (f(unat i := x))"
    using update_law [OF assms] by blast
  then show ?thesis
    using prove_law [OF assms] root_law [OF s'(2)] height_bound [OF assms(1)] assms(2)
    by (simp add: proof_get_root_eq node_upd_path_root del: fun_upd_apply)
qed

lemma updates_ok:
  assumes "inv s f" "\<forall>(i, x) \<in> set us. unat i < 2 ^ height"
  shows "\<exists>s'. apply_updates update s us = Some s' \<and> inv s' (write_leaves f us)"
  using assms
proof (induction us arbitrary: s f)
  case (Cons u us)
  obtain i x where u: "u = (i, x)"
    by (cases u)
  obtain s' where s': "update s i x = Some s'" "inv s' (f(unat i := x))"
    using update_law [OF Cons.prems(1), of i x] Cons.prems(2) u by auto
  then show ?case
    using Cons.IH [OF s'(2)] Cons.prems(2) u by (simp del: fun_upd_apply)
qed simp

lemma updates_prove:
  assumes "inv s f" "\<forall>(i, x) \<in> set us. unat i < 2 ^ height" "unat j < 2 ^ height"
  shows "\<exists>s' p r. apply_updates update s us = Some s' \<and> prove s' j = Some p \<and> root s' = Some r
    \<and> r = node H (write_leaves f us) height 0
    \<and> proof_get_root H p (write_leaves f us (unat j)) j = Some r"
proof -
  obtain s' where s': "apply_updates update s us = Some s'" "inv s' (write_leaves f us)"
    using updates_ok [OF assms(1,2)] by blast
  then show ?thesis
    using prove_verifies [OF s'(2) assms(3)] root_law [OF s'(2)] by auto
qed

end

interpretation mt: merkle_store H height "mt_inv H height" mt_get_root "update_leaf H" mt_prove
  for H height
proof
  fix t f i x
  assume inv: "mt_inv H height t f"
  then show "height < 2 ^ 32"
    by (simp add: mt_inv_def mt_shape_def)
  show "mt_get_root t = Some (node H f height 0)"
    by (rule mt_get_root_ok [OF inv])
  show "unat i < 2 ^ height
    \<Longrightarrow> \<exists>t'. update_leaf H t i x = Some t' \<and> mt_inv H height t' (f(unat i := x))"
    by (rule update_leaf_inside [OF inv])
  show "unat i < 2 ^ height
    \<Longrightarrow> mt_prove t i = Some \<lparr>siblings = path_siblings H f 0 height (unat i)\<rparr>"
    by (rule mt_prove_ok [OF inv])
qed

section \<open>Properties of the tree\<close>

text \<open>
  \<^bold>\<open>C11\<close>. After any sequence of leaf updates on a fresh tree, no operation panics,
  the root is the root of the complete binary tree over the written leaves, and the
  proof produced for any index leads from that index's leaf to that root.
\<close>

theorem merkle_updates_then_prove:
  assumes "height < 2 ^ 32" "\<forall>(i, x) \<in> set us. unat i < 2 ^ height" "unat j < 2 ^ height"
  shows "\<exists>t p r. apply_updates (update_leaf H) (mt_new H height) us = Some t
    \<and> mt_prove t j = Some p \<and> mt_get_root t = Some r
    \<and> r = node H (write_leaves (\<lambda>_. 0) us) height 0
    \<and> proof_get_root H p (write_leaves (\<lambda>_. 0) us (unat j)) j = Some r"
  by (rule mt.updates_prove [OF mt_inv_new [OF assms(1)] assms(2,3)])

definition toy_hash :: "fr \<Rightarrow> fr \<Rightarrow> fr" where
  "toy_hash a b = a + (b + b) + 1"

theorem merkle_updates_then_prove_witness:
  "\<exists>t p r. apply_updates (update_leaf toy_hash) (mt_new toy_hash 3) [(5, 7), (2, 4), (5, 1)] = Some t
    \<and> mt_prove t 5 = Some p \<and> mt_get_root t = Some r
    \<and> r = node toy_hash (write_leaves (\<lambda>_. 0) [(5, 7), (2, 4), (5, 1)]) 3 0
    \<and> proof_get_root toy_hash p (write_leaves (\<lambda>_. 0) [(5, 7), (2, 4), (5, 1)] (unat (5 :: u64))) 5
        = Some r"
  by (rule merkle_updates_then_prove) simp_all

text \<open>
  A write to an index that the tree has no leaf for succeeds and changes
  nothing that can be observed: every valid node, hence the root, stays as it was.
  The operation has no guard against a full tree.
\<close>

theorem update_leaf_out_of_range_ignored:
  assumes "mt_inv H height t f" "2 ^ height \<le> unat index"
  shows "\<exists>t'. update_leaf H t index x = Some t' \<and> mt_get_root t' = mt_get_root t
    \<and> (\<forall>j. unat j < 2 ^ height \<longrightarrow> mt_prove t' j = mt_prove t j)"
proof -
  obtain t' where t': "update_leaf H t index x = Some t'" "mt_inv H height t' f"
    using update_leaf_outside [OF assms] by blast
  then show ?thesis
    using mt_get_root_ok mt_prove_ok assms(1) by auto
qed

theorem update_leaf_out_of_range_ignored_witness:
  "\<exists>t'. update_leaf toy_hash (mt_new toy_hash 1) 2 9 = Some t'
    \<and> mt_get_root t' = mt_get_root (mt_new toy_hash 1)
    \<and> mt_prove t' 1 = mt_prove (mt_new toy_hash 1) 1"
  using update_leaf_out_of_range_ignored [OF mt_inv_new, of 1 2 toy_hash 9] by auto

text \<open>
  An explicit collision finder: it walks two authentication paths for the same index
  and returns the first two different pairs of children with the same hash.
\<close>

fun find_collision ::
  "(fr \<Rightarrow> fr \<Rightarrow> fr) \<Rightarrow> nat \<Rightarrow> fr list \<Rightarrow> fr \<Rightarrow> fr list \<Rightarrow> fr \<Rightarrow> ((fr \<times> fr) \<times> (fr \<times> fr)) option" where
  "find_collision H i (s # ss) x (t # ts) y =
     (let a = (if odd i then (s, x) else (x, s));
          b = (if odd i then (t, y) else (y, t))
      in if a \<noteq> b \<and> H (fst a) (snd a) = H (fst b) (snd b) then Some (a, b)
         else find_collision H (i div 2) ss (H (fst a) (snd a)) ts (H (fst b) (snd b)))"
| "find_collision H i _ x _ y = None"

lemma find_collision_sound:
  "find_collision H i ss x ts y = Some (a, b)
     \<Longrightarrow> a \<noteq> b \<and> H (fst a) (snd a) = H (fst b) (snd b)"
  by (induction H i ss x ts y rule: find_collision.induct) (auto simp: Let_def split: if_splits)

lemma find_collision_complete:
  assumes "length ss = length ts" "path_root H ss i x = path_root H ts i y" "(x, ss) \<noteq> (y, ts)"
  shows "\<exists>a b. find_collision H i ss x ts y = Some (a, b)"
  using assms
proof (induction H i ss x ts y rule: find_collision.induct)
  case (1 H i s ss x t ts y)
  then show ?case
    by (auto simp: Let_def split: if_splits)
qed auto

text \<open>
  Binding: if a proof of the tree's height leads from a value \<open>x\<close> at index \<open>i\<close>
  to the root of a tree whose leaf there is different, then comparing it with the
  tree's own proof exhibits a concrete collision of the two-to-one hash.
\<close>

theorem merkle_proof_binding:
  assumes "mt_inv H height t f" "unat i < 2 ^ height"
    and "proof_height p = height" "proof_get_root H p x i = mt_get_root t" "x \<noteq> f (unat i)"
  shows "\<exists>q a b. mt_prove t i = Some q
    \<and> find_collision H (unat i) (siblings p) x (siblings q) (f (unat i)) = Some (a, b)
    \<and> a \<noteq> b \<and> H (fst a) (snd a) = H (fst b) (snd b)"
proof -
  let ?ss = "path_siblings H f 0 height (unat i)"
  have "height < 2 ^ 32"
    using assms(1) by (simp add: mt_inv_def mt_shape_def)
  then have "path_root H (siblings p) (unat i) x = path_root H ?ss (unat i) (f (unat i))"
    using assms(3,4) mt_get_root_ok [OF assms(1)] assms(2)
    by (simp add: proof_get_root_eq proof_height_def node_path_root)
  then obtain a b where c: "find_collision H (unat i) (siblings p) x ?ss (f (unat i)) = Some (a, b)"
    using find_collision_complete [of "siblings p" ?ss H "unat i" x "f (unat i)"] assms(3,5)
    by (auto simp: proof_height_def)
  show ?thesis
    using mt_prove_ok [OF assms(1,2)] c find_collision_sound [OF c]
    by (intro exI [of _ "\<lparr>siblings = ?ss\<rparr>"] exI [of _ a] exI [of _ b]) simp
qed

theorem merkle_proof_binding_witness:
  "\<exists>q a b. mt_prove (mt_new (\<lambda>_ _. 0) 1) 0 = Some q
    \<and> find_collision (\<lambda>_ _. 0) (unat (0 :: u64)) [4] 1 (siblings q) 0 = Some (a, b)
    \<and> a \<noteq> b \<and> (\<lambda>_ _. 0 :: fr) (fst a) (snd a) = (\<lambda>_ _. 0) (fst b) (snd b)"
  using merkle_proof_binding [OF mt_inv_new, of 1 "0 :: u64" "\<lparr>siblings = [4]\<rparr>" "\<lambda>_ _. 0" 1]
  by (simp add: proof_height_def proof_get_root_eq mt_get_root_ok [OF mt_inv_new])

text \<open>A proof extended by a proof of the combined tree leads to its root, at the shifted index.\<close>

lemma proof_extend_get_root:
  assumes "proof_height p + proof_height q < 2 ^ 32" "unat i < 2 ^ proof_height p"
    and "unat g = unat j * 2 ^ proof_height p + unat i"
  shows "proof_get_root H (proof_extend p q) x g
    = do { mid \<leftarrow> proof_get_root H p x i; proof_get_root H q mid j }"
proof -
  have "path_root H ss (unat g) x = path_root H ss (unat i) x" if "length ss \<le> proof_height p" for ss
    using that assms(3)
  proof (induction ss arbitrary: x rule: rev_induct)
    case (snoc s ss)
    let ?n = "length ss"
    obtain k where k: "proof_height p = ?n + Suc k"
      using snoc.prems(1) less_imp_Suc_add [of ?n "proof_height p"] by auto
    have "unat g = unat i + (unat j * 2 ^ Suc k) * 2 ^ ?n"
      unfolding assms(3) k by (simp add: power_add)
    then have "unat g div 2 ^ ?n = unat j * 2 ^ Suc k + unat i div 2 ^ ?n"
      using div_mult_self1 [of "2 ^ ?n" "unat i" "unat j * 2 ^ Suc k"] by simp
    then have "odd (unat g div 2 ^ ?n) = odd (unat i div 2 ^ ?n)"
      by simp
    then show ?case
      using snoc by (simp add: path_root_append)
  qed simp
  moreover have "unat g div 2 ^ proof_height p = unat j"
    using assms(2,3) by simp
  ultimately show ?thesis
    using assms(1)
    by (simp add: proof_get_root_eq proof_extend_def proof_height_def path_root_append)
qed

text \<open>
  Paths survive their 12-byte database key in both directions, so different
  nodes have different keys.
\<close>

theorem bit_path_bytes_roundtrip:
  "bp_from_bytes (bp_to_bytes p) = p \<and> (length bs = 12 \<longrightarrow> bp_to_bytes (bp_from_bytes bs) = bs)
    \<and> (bp_to_bytes p = bp_to_bytes q \<longleftrightarrow> p = q)"
  using bp_to_from_bytes bp_to_bytes_inject by simp

theorem bit_path_bytes_roundtrip_witness:
  "bp_to_bytes (bp_from_bytes (replicate 12 3)) = replicate 12 3"
  using bit_path_bytes_roundtrip [of "bp_default" "replicate 12 3"] by simp

end
