(* ===== verification/Incremental_Tree.thy ===== *)
theory Incremental_Tree
  imports Merkle_Tree
begin

text \<open>
  The append-only transfer tree of \<open>zkp/src/utils/tree/incremental_merkle_tree.rs\<close>
  with its leaf hash (\<open>gadgets/leaf_hash.rs\<close>) and the SHA-256 hash chain over the
  transfers (\<open>gadgets/hash_chain.rs\<close>, host side). SHA-256 is the parameter \<open>sha\<close>,
  the two-to-one hash the parameter \<open>H\<close>.
\<close>

section \<open>Leaf hash and hash chain\<close>

definition compute_leaf_hash :: "(fr \<Rightarrow> fr \<Rightarrow> fr) \<Rightarrow> fr \<Rightarrow> fr \<Rightarrow> fr" where
  "compute_leaf_hash H addr amount = H addr amount"

definition chain_preimage :: "u256 \<Rightarrow> address \<Rightarrow> u256 \<Rightarrow> bytes" where
  "chain_preimage prev addr v =
     concat [u256_to_be_bytes prev, address_bytes addr, u256_to_be_bytes v]"

definition hash_chain :: "(bytes \<Rightarrow> bytes) \<Rightarrow> u256 \<Rightarrow> address \<Rightarrow> u256 \<Rightarrow> u256" where
  "hash_chain sha prev addr v =
     (let digest = sha (chain_preimage prev addr v)
      in u256_from_be_slice (digest[0 := 0]))"

lemma unat_hash_chain:
  assumes "digest32 sha"
  shows "unat (hash_chain sha prev addr v) = nat_of_be (tl (sha (chain_preimage prev addr v)))"
  using assms
  by (simp add: hash_chain_def digest32_def Let_def unat_u256_from_be_slice
      nat_of_be_update_head [where n = 31])

lemma hash_chain_less: "digest32 sha \<Longrightarrow> unat (hash_chain sha prev addr v) < 2 ^ 248"
  using recipient_tail_less [of sha] by (simp add: unat_hash_chain)

lemma chain_preimage_inject:
  "chain_preimage prev addr v = chain_preimage prev' addr' v'
     \<longleftrightarrow> prev = prev' \<and> addr = addr' \<and> v = v'"
  by (auto simp: chain_preimage_def append_eq_append_conv u256_to_be_bytes_inject
      address_bytes_inject)

lemma hash_chain_collision:
  assumes "digest32 sha" "hash_chain sha p a v = hash_chain sha p' a' v'"
  shows "tl (sha (chain_preimage p a v)) = tl (sha (chain_preimage p' a' v'))"
proof (rule nat_of_be_inject)
  show "length (tl (sha (chain_preimage p a v))) = length (tl (sha (chain_preimage p' a' v')))"
    using assms(1) by (simp add: digest32_def)
  show "nat_of_be (tl (sha (chain_preimage p a v))) = nat_of_be (tl (sha (chain_preimage p' a' v')))"
    using assms(2) unat_hash_chain [OF assms(1)] by metis
qed

section \<open>The incremental tree\<close>

record leaf =
  leaf_address :: address
  leaf_value :: u256

definition leaf_hash :: "(fr \<Rightarrow> fr \<Rightarrow> fr) \<Rightarrow> leaf \<Rightarrow> fr" where
  "leaf_hash H l =
     (let address_fr = address_to_fr (leaf_address l);
          value_fr = u256_to_fr (leaf_value l)
      in compute_leaf_hash H address_fr value_fr)"

record incremental_tree =
  it_tree :: merkle_tree
  it_index :: u64
  it_hash_chain :: u256
  it_leaves :: "u64 \<rightharpoonup> leaf"
  address_to_indices :: "address \<rightharpoonup> u64 list"

definition it_new :: "(fr \<Rightarrow> fr \<Rightarrow> fr) \<Rightarrow> nat \<Rightarrow> incremental_tree" where
  "it_new H height =
     \<lparr>it_tree = mt_new H height, it_index = 0, it_hash_chain = 0, it_leaves = Map.empty,
      address_to_indices = Map.empty\<rparr>"

text \<open>\<open>entry(address).or_default().push(index)\<close>.\<close>

definition push_index :: "(address \<rightharpoonup> u64 list) \<Rightarrow> address \<Rightarrow> u64 \<Rightarrow> (address \<rightharpoonup> u64 list)" where
  "push_index m a i = m(a \<mapsto> (case m a of None \<Rightarrow> [] | Some is \<Rightarrow> is) @ [i])"

text \<open>The index and the tree after the insertion.\<close>

definition it_insert ::
  "(fr \<Rightarrow> fr \<Rightarrow> fr) \<Rightarrow> (bytes \<Rightarrow> bytes) \<Rightarrow> incremental_tree \<Rightarrow> address \<Rightarrow> u256
     \<Rightarrow> (u64 \<times> incremental_tree) option" where
  "it_insert H sha s addr v =
     (let leaf = \<lparr>leaf_address = addr, leaf_value = v\<rparr>;
          index = it_index s
      in do {
        tree \<leftarrow> update_leaf H (it_tree s) index (leaf_hash H leaf);
        Some (index,
          \<lparr>it_tree = tree, it_index = index + 1,
           it_hash_chain = hash_chain sha (it_hash_chain s) addr v,
           it_leaves = (it_leaves s)(index \<mapsto> leaf),
           address_to_indices = push_index (address_to_indices s) addr index\<rparr>)
      })"

definition it_get_root :: "incremental_tree \<Rightarrow> fr option" where
  "it_get_root s = mt_get_root (it_tree s)"

definition it_prove :: "incremental_tree \<Rightarrow> u64 \<Rightarrow> merkle_proof option" where
  "it_prove s index = mt_prove (it_tree s) index"

fun it_insert_all ::
  "(fr \<Rightarrow> fr \<Rightarrow> fr) \<Rightarrow> (bytes \<Rightarrow> bytes) \<Rightarrow> incremental_tree \<Rightarrow> (address \<times> u256) list
     \<Rightarrow> incremental_tree option" where
  "it_insert_all H sha s [] = Some s"
| "it_insert_all H sha s ((a, v) # ts) =
     do { r \<leftarrow> it_insert H sha s a v; it_insert_all H sha (snd r) ts }"

section \<open>Specification: the transfers themselves\<close>

type_synonym transfer = "address \<times> u256"

definition transfer_hash :: "(fr \<Rightarrow> fr \<Rightarrow> fr) \<Rightarrow> transfer \<Rightarrow> fr" where
  "transfer_hash H t = H (address_to_fr (fst t)) (u256_to_fr (snd t))"

definition transfer_leaves :: "(fr \<Rightarrow> fr \<Rightarrow> fr) \<Rightarrow> transfer list \<Rightarrow> nat \<Rightarrow> fr" where
  "transfer_leaves H ts k = (if k < length ts then transfer_hash H (ts ! k) else 0)"

definition chain_of :: "(bytes \<Rightarrow> bytes) \<Rightarrow> transfer list \<Rightarrow> u256" where
  "chain_of sha ts = foldl (\<lambda>c t. hash_chain sha c (fst t) (snd t)) 0 ts"

definition positions :: "transfer list \<Rightarrow> address \<Rightarrow> nat list" where
  "positions ts a = filter (\<lambda>k. fst (ts ! k) = a) [0..<length ts]"

definition it_inv ::
  "(fr \<Rightarrow> fr \<Rightarrow> fr) \<Rightarrow> (bytes \<Rightarrow> bytes) \<Rightarrow> nat \<Rightarrow> incremental_tree \<Rightarrow> transfer list \<Rightarrow> bool" where
  "it_inv H sha height s ts \<longleftrightarrow>
     mt_inv H height (it_tree s) (transfer_leaves H ts)
     \<and> it_index s = word_of_nat (length ts)
     \<and> it_hash_chain s = chain_of sha ts
     \<and> (\<forall>i. it_leaves s i = (if unat i < length ts
          then Some \<lparr>leaf_address = fst (ts ! unat i), leaf_value = snd (ts ! unat i)\<rparr> else None))
     \<and> (\<forall>a. map unat (case address_to_indices s a of None \<Rightarrow> [] | Some is \<Rightarrow> is) = positions ts a)"

lemma transfer_leaves_snoc:
  "transfer_leaves H (ts @ [t]) = (transfer_leaves H ts)(length ts := transfer_hash H t)"
  by (auto simp: transfer_leaves_def nth_append)

lemma transfer_leaves_Nil: "transfer_leaves H [] = (\<lambda>_. 0)"
  by (simp add: transfer_leaves_def fun_eq_iff)

lemma chain_of_snoc: "chain_of sha (ts @ [t]) = hash_chain sha (chain_of sha ts) (fst t) (snd t)"
  by (simp add: chain_of_def)

lemma positions_snoc:
  "positions (ts @ [t]) a = positions ts a @ (if fst t = a then [length ts] else [])"
proof -
  have "filter (\<lambda>k. fst ((ts @ [t]) ! k) = a) [0..<length ts]
      = filter (\<lambda>k. fst (ts ! k) = a) [0..<length ts]"
    by (rule filter_cong) (auto simp: nth_append)
  then show ?thesis
    by (simp add: positions_def)
qed

lemma it_inv_new: "height < 2 ^ 32 \<Longrightarrow> it_inv H sha height (it_new H height) []"
  using mt_inv_new [of height H]
  by (simp add: it_inv_def it_new_def transfer_leaves_Nil chain_of_def positions_def)

lemma it_insert_ok:
  assumes inv: "it_inv H sha height s ts" and room: "length ts < 2 ^ height" "length ts < 2 ^ 64"
  shows "\<exists>s'. it_insert H sha s a v = Some (word_of_nat (length ts), s')
    \<and> it_inv H sha height s' (ts @ [(a, v)])"
proof -
  let ?l = "\<lparr>leaf_address = a, leaf_value = v\<rparr>" and ?i = "it_index s"
  have i: "unat ?i = length ts"
    using inv room(2) by (simp add: it_inv_def unat_word_of_nat)
  have "leaf_hash H ?l = transfer_hash H (a, v)"
    by (simp add: leaf_hash_def transfer_hash_def compute_leaf_hash_def)
  then obtain t' where t': "update_leaf H (it_tree s) ?i (leaf_hash H ?l) = Some t'"
      "mt_inv H height t' (transfer_leaves H (ts @ [(a, v)]))"
    using update_leaf_inside [of H height "it_tree s" "transfer_leaves H ts" ?i] inv room(1) i
    by (metis it_inv_def transfer_leaves_snoc)
  have idx: "?i = word_of_nat (length ts)"
    using inv by (simp add: it_inv_def)
  have same: "j = word_of_nat (length ts) \<longleftrightarrow> unat j = length ts" for j :: u64
    using i idx by (metis unsigned_word_eqI)
  show ?thesis
    using inv t' i unfolding idx
    by (auto simp: it_insert_def it_inv_def Let_def idx chain_of_snoc nth_append same push_index_def
        positions_snoc less_Suc_eq split: option.splits)
qed

lemma it_insert_all_ok:
  assumes "it_inv H sha height s ts"
    and "length ts + length us \<le> 2 ^ height" "length ts + length us \<le> 2 ^ 64"
  shows "\<exists>s'. it_insert_all H sha s us = Some s' \<and> it_inv H sha height s' (ts @ us)"
  using assms
proof (induction us arbitrary: s ts)
  case (Cons u us)
  obtain a v where u: "u = (a, v)"
    by (cases u)
  obtain s' where s': "it_insert H sha s a v = Some (word_of_nat (length ts), s')"
      "it_inv H sha height s' (ts @ [(a, v)])"
    using it_insert_ok [OF Cons.prems(1), of a v] Cons.prems(2,3) by auto
  from Cons.IH [OF s'(2)] Cons.prems(2,3) show ?case
    using s' u by simp
qed simp

text \<open>
  Inserting any list of transfers that fits the tree succeeds, and the
  resulting state determines them: the next index is their number, the hash chain
  is the fold of the chain step from zero and fits 248 bits, every index holds its
  transfer, the per-address index lists are the positions of that address in order,
  the root is the root of the complete tree over the leaf hashes, and the proof of
  each index verifies against it.
\<close>

theorem incremental_tree_records_transfers:
  assumes "digest32 sha" "height < 2 ^ 32" "length ts \<le> 2 ^ height" "length ts \<le> 2 ^ 64"
  shows "\<exists>s. it_insert_all H sha (it_new H height) ts = Some s
    \<and> it_index s = word_of_nat (length ts)
    \<and> it_hash_chain s = chain_of sha ts \<and> unat (it_hash_chain s) < 2 ^ 248
    \<and> it_get_root s = Some (node H (transfer_leaves H ts) height 0)
    \<and> (\<forall>a. map unat (case address_to_indices s a of None \<Rightarrow> [] | Some is \<Rightarrow> is) = positions ts a)
    \<and> (\<forall>i. unat i < length ts \<longrightarrow>
         it_leaves s i = Some \<lparr>leaf_address = fst (ts ! unat i), leaf_value = snd (ts ! unat i)\<rparr>
         \<and> (\<exists>p. it_prove s i = Some p
              \<and> proof_get_root H p (transfer_hash H (ts ! unat i)) i = it_get_root s))"
proof -
  obtain s where s: "it_insert_all H sha (it_new H height) ts = Some s" "it_inv H sha height s ts"
    using it_insert_all_ok [OF it_inv_new [OF assms(2), of H sha], of ts] assms(3,4) by auto
  have "unat (chain_of sha ts) < 2 ^ 248"
    by (cases ts rule: rev_cases) (use hash_chain_less [OF assms(1)] in \<open>auto simp: chain_of_def\<close>)
  moreover have "\<exists>p. it_prove s i = Some p
      \<and> proof_get_root H p (transfer_hash H (ts ! unat i)) i = it_get_root s"
    if "unat i < length ts" for i
    using mt.prove_verifies [of H height "it_tree s" "transfer_leaves H ts" i] s(2) that assms(3)
    by (auto simp: it_inv_def it_prove_def it_get_root_def transfer_leaves_def)
  ultimately show ?thesis
    using s by (auto simp: it_inv_def it_get_root_def mt_get_root_ok)
qed

theorem incremental_tree_records_transfers_witness:
  "\<exists>s. it_insert_all toy_hash const_sha (it_new toy_hash 2) [(3, 10), (4, 20), (3, 5)] = Some s
    \<and> it_index s = word_of_nat (length [(3, 10), (4, 20), (3 :: address, 5 :: u256)])
    \<and> it_hash_chain s = chain_of const_sha [(3, 10), (4, 20), (3, 5)]
    \<and> unat (it_hash_chain s) < 2 ^ 248
    \<and> it_get_root s = Some (node toy_hash (transfer_leaves toy_hash [(3, 10), (4, 20), (3, 5)]) 2 0)"
  using incremental_tree_records_transfers
    [of const_sha 2 "[(3, 10), (4, 20), (3, 5)]" toy_hash] by auto

definition chain_input :: "(bytes \<Rightarrow> bytes) \<Rightarrow> transfer list \<Rightarrow> nat \<Rightarrow> bytes" where
  "chain_input sha ts k = chain_preimage (chain_of sha (take k ts)) (fst (ts ! k)) (snd (ts ! k))"

text \<open>
  The hash chain binds the transfers: two different lists of the same length
  with the same chain differ in the string hashed at some step where the digests
  agree on their last 31 bytes.
\<close>

theorem hash_chain_binding:
  assumes "digest32 sha" "length ts = length us" "chain_of sha ts = chain_of sha us" "ts \<noteq> us"
  shows "\<exists>k < length ts. chain_input sha ts k \<noteq> chain_input sha us k
    \<and> tl (sha (chain_input sha ts k)) = tl (sha (chain_input sha us k))"
  using assms(2-4)
proof (induction ts arbitrary: us rule: rev_induct)
  case (snoc t ts)
  obtain u vs where us: "us = vs @ [u]" "length vs = length ts"
    using snoc.prems(1) by (metis append_butlast_last_id length_append_singleton length_butlast
        diff_Suc_1 length_0_conv nat.distinct(1))
  have lst: "chain_input sha (ts @ [t]) (length ts) = chain_preimage (chain_of sha ts) (fst t) (snd t)"
      "chain_input sha us (length ts) = chain_preimage (chain_of sha vs) (fst u) (snd u)"
    using us by (simp_all add: chain_input_def nth_append)
  show ?case
  proof (cases "chain_of sha ts = chain_of sha vs \<and> t = u")
    case True
    then have "ts \<noteq> vs"
      using snoc.prems(3) us by simp
    with snoc.IH [of vs] us True obtain k where "k < length ts"
        "chain_input sha ts k \<noteq> chain_input sha vs k
         \<and> tl (sha (chain_input sha ts k)) = tl (sha (chain_input sha vs k))"
      by auto
    then show ?thesis
      using us by (intro exI [of _ k]) (auto simp: chain_input_def nth_append)
  next
    case False
    then have "chain_input sha (ts @ [t]) (length ts) \<noteq> chain_input sha us (length ts)"
      unfolding lst chain_preimage_inject by (auto simp: prod_eq_iff)
    moreover have "tl (sha (chain_input sha (ts @ [t]) (length ts)))
        = tl (sha (chain_input sha us (length ts)))"
      unfolding lst using snoc.prems(2) us
      by (intro hash_chain_collision [OF assms(1)]) (simp add: chain_of_snoc)
    ultimately show ?thesis
      by (intro exI [of _ "length ts"]) simp
  qed
qed simp

theorem hash_chain_binding_witness:
  "\<exists>k < length [(1 :: address, 2 :: u256)].
     chain_input const_sha [(1, 2)] k \<noteq> chain_input const_sha [(1, 3)] k
     \<and> tl (const_sha (chain_input const_sha [(1, 2)] k))
         = tl (const_sha (chain_input const_sha [(1, 3)] k))"
  by (rule hash_chain_binding) (simp_all add: chain_of_def hash_chain_def const_sha_def digest32_def)

end
