(* ===== verification/Gadgets.thy ===== *)
theory Gadgets
  imports Incremental_Tree
begin

text \<open>
  The R1CS gadgets of \<open>zkp/src/utils/tree/gadgets/\<close> and \<open>zkp/src/circuits/burn_address.rs\<close>.

  A gadget is modelled by what its constraints say about an assignment: it returns
  the assignment of its output variables if every enforced constraint holds for the
  assignment of its inputs, and \<open>None\<close> if a constraint is violated, an assertion fails
  or a synthesis error is returned. \<open>FpVar::to_bits_le\<close> and \<open>to_bytes_le\<close> constrain the
  canonical decomposition, 254 bits and 32 bytes; \<open>Boolean::le_bits_to_fp\<close> packs fewer
  than 254 bits. The Poseidon gadget computes the native hash \<open>H\<close> and the SHA-256
  gadget the native digest \<open>sha\<close>.
\<close>

named_theorems gadget_simps \<open>exact meaning of the gadgets\<close>

definition enforce :: "bool \<Rightarrow> unit option" where
  "enforce b = (if b then Some () else None)"

lemma enforce_eq_Some [simp]: "enforce b = Some u \<longleftrightarrow> b"
  by (simp add: enforce_def)

lemma enforce_simps [simp]: "enforce True = Some ()" "enforce False = None"
  by (simp_all add: enforce_def)

section \<open>Bits and bytes of a field variable\<close>

definition fp_to_bits_le :: "fr \<Rightarrow> bool list" where
  "fp_to_bits_le x = bits_le 254 (into_bigint x)"

definition fp_to_bytes_le :: "fr \<Rightarrow> bytes" where
  "fp_to_bytes_le x = rev (be_bytes 32 (into_bigint x))"

definition le_bits_to_fp :: "bool list \<Rightarrow> fr" where
  "le_bits_to_fp bs = fr_of_nat (nat_of_bits_le bs)"

definition fp_of_bool :: "bool \<Rightarrow> fr" where
  "fp_of_bool b = (if b then 1 else 0)"

section \<open>Range checks and the Merkle path (\<open>merkle.rs\<close>)\<close>

definition to_bits_le_limited :: "fr \<Rightarrow> nat \<Rightarrow> bool list option" where
  "to_bits_le_limited v num_bits =
     (let bits = fp_to_bits_le v
      in do {
        enforce (list_all (\<lambda>b. b = False) (drop num_bits bits));
        Some (take num_bits bits)
      })"

definition enforce_bit_length :: "fr \<Rightarrow> nat \<Rightarrow> unit option" where
  "enforce_bit_length v num_bits = do { to_bits_le_limited v num_bits; Some () }"

primrec double_loop :: "nat \<Rightarrow> fr \<Rightarrow> fr" where
  "double_loop 0 offset = offset"
| "double_loop (Suc n) offset = double_loop n (offset + offset)"

definition enforce_strict_less_than :: "fr \<Rightarrow> fr \<Rightarrow> nat \<Rightarrow> unit option" where
  "enforce_strict_less_than left right num_bits =
     do {
       enforce_bit_length left num_bits;
       enforce_bit_length right num_bits;
       let offset = double_loop num_bits 1;
       let adjusted = left + offset - right;
       let bits = fp_to_bits_le adjusted;
       if num_bits < length bits then enforce (bits ! num_bits = False) else None
     }"

fun merkle_path_loop :: "(fr \<Rightarrow> fr \<Rightarrow> fr) \<Rightarrow> fr \<Rightarrow> (bool \<times> fr) list \<Rightarrow> fr" where
  "merkle_path_loop H current [] = current"
| "merkle_path_loop H current ((b, sibling) # rest) =
     (let bit_fp = fp_of_bool b;
          one_minus_bit = 1 - bit_fp;
          left = current * one_minus_bit + sibling * bit_fp;
          right = current * bit_fp + sibling * one_minus_bit
      in merkle_path_loop H (H left right) rest)"

definition merkle_root_from_leaf ::
  "(fr \<Rightarrow> fr \<Rightarrow> fr) \<Rightarrow> fr \<Rightarrow> bool list \<Rightarrow> fr list \<Rightarrow> fr option" where
  "merkle_root_from_leaf H leaf index_bits sibs =
     (if length index_bits \<noteq> length sibs then None
      else Some (merkle_path_loop H leaf (zip index_bits sibs)))"

definition leaf_hash_var :: "(fr \<Rightarrow> fr \<Rightarrow> fr) \<Rightarrow> fr \<Rightarrow> fr \<Rightarrow> fr" where
  "leaf_hash_var H addr amount = H addr amount"

section \<open>The hash chain in the circuit (\<open>hash_chain.rs\<close>)\<close>

definition fp_var_be_bytes :: "fr \<Rightarrow> nat \<Rightarrow> bytes \<times> bytes" where
  "fp_var_be_bytes var target_len =
     (let bytes_be = rev (fp_to_bytes_le var);
          bytes_be = (if length bytes_be < target_len
                      then replicate (target_len - length bytes_be) 0 @ bytes_be else bytes_be);
          split = length bytes_be - target_len
      in (take split bytes_be, drop split bytes_be))"

definition enforce_zero_bytes :: "bytes \<Rightarrow> unit option" where
  "enforce_zero_bytes bs = enforce (list_all (\<lambda>b. b = 0) bs)"

definition enforce_first_zero :: "bytes \<Rightarrow> unit option" where
  "enforce_first_zero bs = (case bs of [] \<Rightarrow> Some () | first # _ \<Rightarrow> enforce (first = 0))"

definition hash_chain_var :: "(bytes \<Rightarrow> bytes) \<Rightarrow> fr \<Rightarrow> fr \<Rightarrow> fr \<Rightarrow> fr option" where
  "hash_chain_var sha prev_hash_chain addr v =
     (let (prev_prefix, prev_bytes) = fp_var_be_bytes prev_hash_chain 32;
          (address_prefix, address_bs) = fp_var_be_bytes addr 20;
          (value_prefix, value_bytes) = fp_var_be_bytes v 32
      in do {
        enforce_zero_bytes prev_prefix;
        enforce_first_zero prev_bytes;
        enforce_zero_bytes address_prefix;
        enforce_zero_bytes value_prefix;
        enforce_first_zero value_bytes;
        let digest_bytes = sha (prev_bytes @ address_bs @ value_bytes);
        let truncated = drop 1 digest_bytes;
        Some (le_bits_to_fp (concat (map (\<lambda>b. bits_le 8 (unat b)) (rev truncated))))
      })"

section \<open>Burn addresses (\<open>burn_address.rs\<close>)\<close>

definition BYTES31_BIT_LENGTH :: nat where "BYTES31_BIT_LENGTH = 248"
definition ADDRESS_BIT_LENGTH :: nat where "ADDRESS_BIT_LENGTH = 160"
definition POW_DIFFICULTY :: nat where "POW_DIFFICULTY = 12"

datatype burn_address_error = PowDifficultyUnsatisfied nat

definition compute_burn_address_from_secret ::
  "(fr \<Rightarrow> fr \<Rightarrow> fr) \<Rightarrow> fr \<Rightarrow> fr \<Rightarrow> burn_address_error + fr" where
  "compute_burn_address_from_secret H recipient secret =
     (let hash = into_bigint (H recipient secret);
          hash_bits = bits_le 256 hash
      in if list_ex (\<lambda>b. b) (take POW_DIFFICULTY (drop ADDRESS_BIT_LENGTH hash_bits))
         then Inl (PowDifficultyUnsatisfied POW_DIFFICULTY)
         else Inr (fr_of_nat (hash AND (2 ^ ADDRESS_BIT_LENGTH - 1))))"

definition secret_from_nonce :: "fr \<Rightarrow> u64 \<Rightarrow> fr" where
  "secret_from_nonce secret_seed nonce = secret_seed + fr_of_nat (unat nonce)"

definition compute_burn_address_for_nonce ::
  "(fr \<Rightarrow> fr \<Rightarrow> fr) \<Rightarrow> fr \<Rightarrow> fr \<Rightarrow> u64 \<Rightarrow> burn_address_error + fr" where
  "compute_burn_address_for_nonce H recipient secret_seed nonce =
     compute_burn_address_from_secret H recipient (secret_from_nonce secret_seed nonce)"

text \<open>
  The loop over \<open>0u64..\<close>: it stops at the first nonce that works. \<open>None\<close> stands for a search
  that does not return a nonce: past the last \<open>u64\<close> the range overflows, which panics with
  overflow checks and otherwise starts again from 0 and goes on forever.
\<close>

function find_pow_from :: "(fr \<Rightarrow> fr \<Rightarrow> fr) \<Rightarrow> fr \<Rightarrow> fr \<Rightarrow> nat \<Rightarrow> u64 option" where
  "find_pow_from H recipient secret_seed nonce =
     (if 2 ^ 64 \<le> nonce then None
      else (let candidate = secret_seed + fr_of_nat nonce
            in if is_ok (compute_burn_address_from_secret H recipient candidate)
               then Some (word_of_nat nonce)
               else find_pow_from H recipient secret_seed (nonce + 1)))"
  by pat_completeness auto
termination
  by (relation "measure (\<lambda>(H, r, s, n). 2 ^ 64 - n)") auto

declare find_pow_from.simps [simp del]

definition find_pow_nonce :: "(fr \<Rightarrow> fr \<Rightarrow> fr) \<Rightarrow> fr \<Rightarrow> fr \<Rightarrow> u64 option" where
  "find_pow_nonce H recipient secret_seed = find_pow_from H recipient secret_seed 0"

fun enforce_pow :: "fr \<Rightarrow> bool list \<Rightarrow> unit option" where
  "enforce_pow is_constrained_fp [] = Some ()"
| "enforce_pow is_constrained_fp (b # bits) =
     do { enforce (fp_of_bool b * is_constrained_fp = 0); enforce_pow is_constrained_fp bits }"

definition burn_address_var :: "(fr \<Rightarrow> fr \<Rightarrow> fr) \<Rightarrow> fr \<Rightarrow> fr \<Rightarrow> bool \<Rightarrow> fr option" where
  "burn_address_var H recipient secret is_constrained =
     (let poseidon_bits = fp_to_bits_le (H recipient secret)
      in do {
        enforce_pow (fp_of_bool is_constrained)
          (take POW_DIFFICULTY (drop ADDRESS_BIT_LENGTH poseidon_bits));
        Some (le_bits_to_fp (take ADDRESS_BIT_LENGTH poseidon_bits))
      })"

section \<open>What the gadgets mean\<close>

lemma to_bits_le_limited_eq [gadget_simps]:
  assumes "n \<le> 254"
  shows "to_bits_le_limited x n
    = (if into_bigint x < 2 ^ n then Some (bits_le n (into_bigint x)) else None)"
proof -
  have "list_all (\<lambda>b. b = False) (drop n (fp_to_bits_le x))
      \<longleftrightarrow> into_bigint x div 2 ^ n mod 2 ^ (254 - n) = 0"
    using bits_le_all_zero [of "254 - n" "into_bigint x div 2 ^ n"] assms
    by (simp add: fp_to_bits_le_def drop_bits_le list_all_iff)
  also have "\<dots> \<longleftrightarrow> into_bigint x div 2 ^ n = 0"
  proof -
    have "into_bigint x < 2 ^ (254 - n) * 2 ^ n"
      using into_bigint_less_254 [of x] assms by (simp flip: power_add)
    then show ?thesis
      by (simp add: div_less_iff_less_mult)
  qed
  finally show ?thesis
    using assms
    by (auto simp: to_bits_le_limited_def Let_def enforce_def fp_to_bits_le_def take_bits_le
        div_eq_0_iff)
qed

lemma enforce_bit_length_iff [gadget_simps]:
  "n \<le> 254 \<Longrightarrow> enforce_bit_length x n = Some u \<longleftrightarrow> into_bigint x < 2 ^ n"
  by (simp add: enforce_bit_length_def to_bits_le_limited_eq)

lemma double_loop_eq: "double_loop n x = fr_of_nat (2 ^ n) * x"
proof (induction n arbitrary: x)
  case (Suc n)
  have "fr_of_nat (2 ^ Suc n) = fr_of_nat (2 ^ n) + fr_of_nat (2 ^ n)"
    by (simp add: mult_2 flip: fr_of_nat_add)
  then show ?case
    using Suc [of "x + x"] by (simp add: algebra_simps)
qed simp

lemma two_power_less_r: "n \<le> 253 \<Longrightarrow> 2 ^ n < bn254_r"
proof -
  assume "n \<le> 253"
  then have "(2 :: nat) ^ n \<le> 2 ^ 253"
    by (intro power_increasing) auto
  then show ?thesis
    using bn254_r_bounds(1) by linarith
qed

lemma enforce_strict_less_than_iff:
  assumes "n \<le> 252"
  shows "enforce_strict_less_than x y n = Some u
    \<longleftrightarrow> into_bigint x < into_bigint y \<and> into_bigint y < 2 ^ n"
proof (cases "into_bigint x < 2 ^ n \<and> into_bigint y < 2 ^ n")
  case True
  let ?a = "into_bigint x" and ?b = "into_bigint y"
  have pw: "(2 :: nat) ^ n < bn254_r" "?a + 2 ^ n < bn254_r"
    using True assms two_power_less_r [of n] two_power_less_r [of "Suc n"] by auto
  then have sum: "into_bigint (x + fr_of_nat (2 ^ n)) = ?a + 2 ^ n"
    by (simp add: into_bigint_add_small)
  then have adj: "into_bigint (x + fr_of_nat (2 ^ n) - y) = ?a + 2 ^ n - ?b"
    using True by (simp add: into_bigint_diff)
  have "odd ((?a + 2 ^ n - ?b) div 2 ^ n) \<longleftrightarrow> \<not> ?a < ?b"
  proof (cases "?a < ?b")
    case lt: True
    then have "?a + 2 ^ n - ?b < 2 ^ n"
      using True by linarith
    with lt show ?thesis
      by simp
  next
    case False
    then obtain d where d: "?a = ?b + d"
      using le_Suc_ex not_less by blast
    then have "?a + 2 ^ n - ?b = 2 ^ n + d" "d < 2 ^ n"
      using True by auto
    with False show ?thesis
      using div_add_self1 [of "2 ^ n" d] by simp
  qed
  then show ?thesis
    using True assms
    by (simp add: enforce_strict_less_than_def enforce_bit_length_iff fp_to_bits_le_def
        nth_bits_le double_loop_eq adj Let_def enforce_bit_length_def to_bits_le_limited_eq)
next
  case False
  then show ?thesis
    using assms
    by (auto simp: enforce_strict_less_than_def enforce_bit_length_def to_bits_le_limited_eq
        split: if_splits)
qed

lemma merkle_path_loop_eq:
  "length bits = length ss
     \<Longrightarrow> merkle_path_loop H x (zip bits ss) = path_root H ss (nat_of_bits_le bits) x"
  by (induction bits ss arbitrary: x rule: list_induct2) (auto simp: fp_of_bool_def Let_def)

lemma merkle_root_from_leaf_eq [gadget_simps]:
  "i < 2 ^ n \<Longrightarrow> merkle_root_from_leaf H x (bits_le n i) ss
     = (if length ss = n then Some (path_root H ss i x) else None)"
  by (simp add: merkle_root_from_leaf_def merkle_path_loop_eq)

lemma list_all_zero_bytes: "list_all (\<lambda>b. b = 0) bs \<longleftrightarrow> nat_of_be bs = 0"
  by (induction bs rule: rev_induct) (auto simp: unat_eq_0)

lemma fp_var_be_bytes_eq:
  assumes "n \<le> 32"
  shows "fp_var_be_bytes x n
    = (be_bytes (32 - n) (into_bigint x div 256 ^ n), be_bytes n (into_bigint x))"
  using assms by (simp add: fp_var_be_bytes_def fp_to_bytes_le_def Let_def take_be_bytes drop_be_bytes)

lemma enforce_zero_prefix:
  assumes "n \<le> 32"
  shows "enforce_zero_bytes (be_bytes (32 - n) (into_bigint x div 256 ^ n)) = Some u
    \<longleftrightarrow> into_bigint x < 256 ^ n"
proof -
  have "(2 :: nat) ^ 256 = 256 ^ (32 - n) * 256 ^ n"
    using assms pow_256_32 by (simp flip: power_add)
  then have "into_bigint x div 256 ^ n < 256 ^ (32 - n)"
    using into_bigint_less_256 [of x] by (simp add: div_less_iff_less_mult)
  then show ?thesis
    by (simp add: enforce_zero_bytes_def list_all_zero_bytes div_eq_0_iff)
qed

lemma enforce_first_zero_32:
  "enforce_first_zero (be_bytes 32 (into_bigint x)) = Some u \<longleftrightarrow> into_bigint x < 2 ^ 248"
proof -
  have "be_bytes 32 (into_bigint x) = be_bytes 1 (into_bigint x div 256 ^ 31) @ be_bytes 31 (into_bigint x)"
    using be_bytes_add [of 1 31] by simp
  then have "be_bytes 32 (into_bigint x) = word_of_nat (into_bigint x div 2 ^ 248) # be_bytes 31 (into_bigint x)"
    unfolding pow_256_31 by (simp only: One_nat_def be_bytes.simps append_Nil append_Cons)
  then have "enforce_first_zero (be_bytes 32 (into_bigint x)) = Some u
      \<longleftrightarrow> (word_of_nat (into_bigint x div 2 ^ 248) :: byte) = 0"
    by (simp only: enforce_first_zero_def list.case enforce_eq_Some)
  also have "\<dots> \<longleftrightarrow> unat (word_of_nat (into_bigint x div 2 ^ 248) :: byte) = 0"
    by (simp only: unat_eq_0)
  also have "\<dots> \<longleftrightarrow> into_bigint x div 2 ^ 248 = 0"
  proof -
    have "into_bigint x div 2 ^ 248 < 2 ^ 8"
      using into_bigint_less_256 [of x] by (simp add: div_less_iff_less_mult)
    then show ?thesis
      by (simp add: unat_word_of_nat del: unsigned_of_nat)
  qed
  finally show ?thesis
    by (simp add: div_eq_0_iff)
qed

lemma nat_of_bits_le_append:
  "nat_of_bits_le (as @ bs) = nat_of_bits_le as + 2 ^ length as * nat_of_bits_le bs"
  by (induction as) (auto simp: algebra_simps)

lemma length_concat_byte_bits:
  "length (concat (map (\<lambda>b. bits_le 8 (unat (b :: byte))) bs)) = 8 * length bs"
  by (induction bs) auto

lemma nat_of_bits_bytes_rev:
  "nat_of_bits_le (concat (map (\<lambda>b. bits_le 8 (unat b)) (rev bs))) = nat_of_be (bs :: bytes)"
proof (induction bs rule: rev_induct)
  case (snoc b bs)
  then show ?case
    using unat_byte_less [of b] by (simp add: nat_of_bits_le_append)
qed simp

lemma unat_word_of_into_bigint:
  "into_bigint x < 2 ^ LENGTH('a :: len) \<Longrightarrow> unat (word_of_nat (into_bigint x) :: 'a word) = into_bigint x"
  by (simp add: unat_word_of_nat)

text \<open>The in-circuit chain step is the host step on range-checked inputs.\<close>

lemma hash_chain_var_eq [gadget_simps]:
  assumes "digest32 sha"
  shows "hash_chain_var sha p a v =
    (if into_bigint p < 2 ^ 248 \<and> into_bigint a < 2 ^ 160 \<and> into_bigint v < 2 ^ 248
     then Some (u256_to_fr (hash_chain sha (fr_to_u256 p) (fr_to_address a) (fr_to_u256 v)))
     else None)"
proof -
  let ?m = "be_bytes 32 (into_bigint p) @ be_bytes 20 (into_bigint a) @ be_bytes 32 (into_bigint v)"
  have enc: "enforce_zero_bytes (be_bytes (32 - 20) (into_bigint a div 256 ^ 20))
      = enforce (into_bigint a < 2 ^ 160)"
      "enforce_zero_bytes (be_bytes (32 - 32) (into_bigint x div 256 ^ 32)) = Some ()"
      "enforce_first_zero (be_bytes 32 (into_bigint x)) = enforce (into_bigint x < 2 ^ 248)" for x
    using enforce_zero_prefix [of 20 a] enforce_first_zero_32 [of x]
    by (auto simp: enforce_def enforce_zero_bytes_def enforce_first_zero_def split: if_splits list.splits)
  have out: "le_bits_to_fp (concat (map (\<lambda>b. bits_le 8 (unat b)) (rev (drop 1 (sha ?m)))))
      = u256_to_fr (hash_chain sha (fr_to_u256 p) (fr_to_address a) (fr_to_u256 v))"
    if "into_bigint a < 2 ^ 160"
  proof -
    have "?m = chain_preimage (fr_to_u256 p) (fr_to_address a) (fr_to_u256 v)"
      using that by (simp add: chain_preimage_def u256_to_be_bytes_def address_bytes_def
          unat_fr_to_address)
    then show ?thesis
      using unat_hash_chain [OF assms, of "fr_to_u256 p" "fr_to_address a" "fr_to_u256 v"]
      by (simp add: le_bits_to_fp_def nat_of_bits_bytes_rev u256_to_fr_def drop_Suc)
  qed
  have rng: "(20 :: nat) \<le> 32" "(32 :: nat) \<le> 32"
    by simp_all
  show ?thesis
    unfolding hash_chain_var_def fp_var_be_bytes_eq [OF rng(1)] fp_var_be_bytes_eq [OF rng(2)]
      Let_def prod.case enc enforce_def
    using out by simp
qed

lemma enforce_pow_eq:
  "enforce_pow (fp_of_bool c) bs = (if c \<and> list_ex (\<lambda>b. b) bs then None else Some ())"
  by (induction bs) (auto simp: fp_of_bool_def enforce_def)

lemma take_drop_bits_254:
  "take 12 (drop 160 (bits_le 256 x)) = take 12 (drop 160 (bits_le 254 x))"
  by (simp add: drop_bits_le take_bits_le)

lemma burn_address_var_eq [gadget_simps]:
  "burn_address_var H r s c =
     (case compute_burn_address_from_secret H r s of
        Inr a \<Rightarrow> Some a
      | Inl e \<Rightarrow> if c then None else Some (fr_of_nat (into_bigint (H r s) mod 2 ^ 160)))"
proof -
  have "into_bigint (H r s) AND (2 ^ 160 - 1) = into_bigint (H r s) mod 2 ^ 160"
    by (simp only: take_bit_eq_mod [symmetric] take_bit_eq_mask mask_eq_exp_minus_1)
  then show ?thesis
    by (simp add: burn_address_var_def compute_burn_address_from_secret_def Let_def enforce_pow_eq
        fp_to_bits_le_def le_bits_to_fp_def take_bits_le take_drop_bits_254 ADDRESS_BIT_LENGTH_def
        POW_DIFFICULTY_def)
qed

section \<open>Properties of the gadgets\<close>

text \<open>
  The comparison gadget is exact for every width up to 252 bits: it is
  satisfied precisely when both operands fit the width and the left one is smaller
  as a number. In particular no wrap-around of the field can satisfy it.
\<close>

theorem enforce_strict_less_than_exact:
  assumes "num_bits \<le> 252"
  shows "enforce_strict_less_than left right num_bits = Some ()
    \<longleftrightarrow> into_bigint left < into_bigint right \<and> into_bigint right < 2 ^ num_bits"
  by (rule enforce_strict_less_than_iff [OF assms])

theorem enforce_strict_less_than_exact_witness:
  "enforce_strict_less_than 2 5 47 = Some ()
    \<longleftrightarrow> into_bigint 2 < into_bigint 5 \<and> into_bigint 5 < 2 ^ 47"
  by (rule enforce_strict_less_than_exact) simp

text \<open>
  The in-circuit hash chain accepts exactly the previous chains and values
  below \<open>2^248\<close> and the addresses below \<open>2^160\<close>, and then computes the host's
  \<open>hash_chain\<close> of them; the result is again accepted as a previous chain.
\<close>

theorem hash_chain_var_equals_host:
  assumes "digest32 sha"
  shows "hash_chain_var sha (u256_to_fr prev) (address_to_fr addr) (u256_to_fr v)
      = (if into_bigint (u256_to_fr prev) < 2 ^ 248 \<and> into_bigint (u256_to_fr v) < 2 ^ 248
         then Some (u256_to_fr (hash_chain sha (fr_to_u256 (u256_to_fr prev)) addr
                (fr_to_u256 (u256_to_fr v)))) else None)
    \<and> into_bigint (u256_to_fr (hash_chain sha prev addr v)) < 2 ^ 248
    \<and> fr_to_u256 (u256_to_fr (hash_chain sha prev addr v)) = hash_chain sha prev addr v"
proof -
  have "unat (hash_chain sha prev addr v) < bn254_r"
    using hash_chain_less [OF assms, of prev addr v] two_power_less_r [of 248] by linarith
  then show ?thesis
    using hash_chain_less [OF assms, of prev addr v] unat_address_less [of addr]
    by (simp add: hash_chain_var_eq [OF assms] into_bigint_u256_to_fr fr_to_u256_u256_to_fr)
qed

theorem hash_chain_var_equals_host_witness:
  "hash_chain_var const_sha (u256_to_fr 9) (address_to_fr 8) (u256_to_fr 7)
      = (if into_bigint (u256_to_fr 9) < 2 ^ 248 \<and> into_bigint (u256_to_fr 7) < 2 ^ 248
         then Some (u256_to_fr (hash_chain const_sha (fr_to_u256 (u256_to_fr 9)) 8
                (fr_to_u256 (u256_to_fr 7)))) else None)
    \<and> into_bigint (u256_to_fr (hash_chain const_sha 9 8 7)) < 2 ^ 248
    \<and> fr_to_u256 (u256_to_fr (hash_chain const_sha 9 8 7)) = hash_chain const_sha 9 8 7"
  by (rule hash_chain_var_equals_host [OF digest32_const_sha])

lemma compute_burn_address_iff:
  "compute_burn_address_from_secret H r s = Inr a
     \<longleftrightarrow> into_bigint (H r s) div 2 ^ 160 mod 2 ^ 12 = 0
       \<and> a = fr_of_nat (into_bigint (H r s) mod 2 ^ 160)"
proof -
  have "\<not> list_ex (\<lambda>b. b) (take 12 (drop 160 (bits_le 256 (into_bigint (H r s)))))
      \<longleftrightarrow> into_bigint (H r s) div 2 ^ 160 mod 2 ^ 12 = 0"
    using bits_le_all_zero [of 12 "into_bigint (H r s) div 2 ^ 160"]
    by (simp add: drop_bits_le take_bits_le list_ex_iff)
  moreover have "into_bigint (H r s) AND (2 ^ 160 - 1) = into_bigint (H r s) mod 2 ^ 160"
    by (simp only: take_bit_eq_mod [symmetric] take_bit_eq_mask mask_eq_exp_minus_1)
  ultimately show ?thesis
    by (auto simp: compute_burn_address_from_secret_def Let_def ADDRESS_BIT_LENGTH_def
        POW_DIFFICULTY_def)
qed

lemma burn_address_var_True [gadget_simps]:
  "burn_address_var H r s True = Some a \<longleftrightarrow> compute_burn_address_from_secret H r s = Inr a"
  by (auto simp: burn_address_var_eq split: sum.splits)

text \<open>
  The burn-address circuit, when constrained, is satisfiable exactly when the
  host function accepts the secret, with the same address. Acceptance means that
  bits 160 to 171 of the Poseidon hash are zero, and the address is the hash modulo
  \<open>2^160\<close>, hence an Ethereum address that converts back to the same field element.
\<close>

theorem burn_address_var_equals_host:
  "(burn_address_var H recipient secret True = Some a
      \<longleftrightarrow> compute_burn_address_from_secret H recipient secret = Inr a)
    \<and> (compute_burn_address_from_secret H recipient secret = Inr a
      \<longleftrightarrow> into_bigint (H recipient secret) div 2 ^ 160 mod 2 ^ 12 = 0
        \<and> a = address_to_fr (fr_to_address (H recipient secret)))"
proof -
  have "fr_of_nat (into_bigint (H recipient secret) mod 2 ^ 160)
      = address_to_fr (fr_to_address (H recipient secret))"
    by (simp add: fr_eq_iff unat_fr_to_address) (simp add: bn254_r_def)
  then show ?thesis
    using burn_address_var_True [of H recipient secret a] compute_burn_address_iff by metis
qed

lemma find_pow_from_spec:
  "case find_pow_from H r seed n of
     Some w \<Rightarrow> n \<le> unat w \<and> is_ok (compute_burn_address_for_nonce H r seed w)
        \<and> (\<forall>k. n \<le> k \<and> k < unat w
             \<longrightarrow> \<not> is_ok (compute_burn_address_from_secret H r (seed + fr_of_nat k)))
   | None \<Rightarrow> \<forall>k. n \<le> k \<and> k < 2 ^ 64
             \<longrightarrow> \<not> is_ok (compute_burn_address_from_secret H r (seed + fr_of_nat k))"
proof (induction H r seed n rule: find_pow_from.induct)
  case (1 H r seed n)
  show ?case
  proof (cases "2 ^ 64 \<le> n \<or> is_ok (compute_burn_address_from_secret H r (seed + fr_of_nat n))")
    case True
    then show ?thesis
      by (auto simp: find_pow_from.simps [of H r seed n] compute_burn_address_for_nonce_def
          secret_from_nonce_def unat_word_of_nat)
  next
    case False
    then have "find_pow_from H r seed n = find_pow_from H r seed (n + 1)"
      by (simp add: find_pow_from.simps [of H r seed n])
    with 1 False show ?thesis
      by (auto split: option.splits simp: less_eq_Suc_le) (metis Suc_le_eq le_neq_implies_less)+
  qed
qed

text \<open>
  \<^bold>\<open>C34\<close>. The proof-of-work search returns the least nonce whose secret has a burn
  address, and returns no nonce exactly if no 64-bit nonce has one (then the code panics, or
  in a release build searches forever); a returned nonce always gives an address.
\<close>

theorem find_pow_nonce_least:
  "(find_pow_nonce H recipient seed = Some w
      \<longrightarrow> is_ok (compute_burn_address_for_nonce H recipient seed w)
        \<and> (\<forall>w' < w. \<not> is_ok (compute_burn_address_for_nonce H recipient seed w')))
    \<and> (find_pow_nonce H recipient seed = None
      \<longleftrightarrow> (\<forall>w'. \<not> is_ok (compute_burn_address_for_nonce H recipient seed w')))"
proof -
  note spec = find_pow_from_spec [where H = H and r = recipient and seed = seed and n = 0]
  show ?thesis
  proof (cases "find_pow_nonce H recipient seed")
    case None
    then show ?thesis
      using spec unat_u64_less
      by (simp add: find_pow_nonce_def compute_burn_address_for_nonce_def secret_from_nonce_def)
  next
    case (Some v)
    then show ?thesis
      using spec
      by (auto simp: find_pow_nonce_def compute_burn_address_for_nonce_def secret_from_nonce_def
          word_less_nat_alt)
  qed
qed

definition late_hash :: "fr \<Rightarrow> fr \<Rightarrow> fr" where
  "late_hash r s = (if into_bigint s < 2 then fr_of_nat (2 ^ 160) else 0)"

lemma late_hash_pow:
  "is_ok (compute_burn_address_from_secret late_hash r (fr_of_nat n)) \<longleftrightarrow> 2 \<le> n mod bn254_r"
  by (auto simp: is_ok_iff compute_burn_address_iff late_hash_def not_less bn254_r_def)

theorem find_pow_nonce_least_witness:
  "find_pow_nonce late_hash 0 0 = Some 2
    \<and> is_ok (compute_burn_address_for_nonce late_hash 0 0 2)
    \<and> \<not> is_ok (compute_burn_address_for_nonce late_hash 0 0 1)"
proof -
  have "find_pow_nonce late_hash 0 0 = Some 2"
    using late_hash_pow [of 0 0] late_hash_pow [of 0 1] late_hash_pow [of 0 2]
      find_pow_from.simps [of late_hash 0 0 0] find_pow_from.simps [of late_hash 0 0 1]
      find_pow_from.simps [of late_hash 0 0 2]
    by (simp add: find_pow_nonce_def bn254_r_def flip: numeral_2_eq_2)
  then show ?thesis
    using find_pow_nonce_least [of late_hash 0 0 2] by simp
qed

end
