(* ===== verification/Circuits.thy ===== *)
theory Circuits
  imports Gadgets
begin

text \<open>
  The circuits of \<open>zkp/src/circuits/\<close> and their wrappers: the root-transition step and
  its Nova circuit (\<open>nova/root_nova.rs\<close>), the withdraw step and its Nova circuit
  (\<open>nova/withdraw_nova.rs\<close>), and the single-withdraw Groth16 circuit
  (\<open>groth16/withdraw.rs\<close>). As in \<open>Gadgets\<close>, a circuit returns its outputs iff all
  constraints hold. The folding scheme and the SNARK are not modelled: an accepted
  proof stands for a list of external inputs on which the step function is defined.
\<close>

section \<open>Tree heights (\<open>nova/constants.rs\<close>)\<close>

definition AGGREGATION_TREE_HEIGHT :: nat where "AGGREGATION_TREE_HEIGHT = 6"
definition TRANSFER_TREE_HEIGHT :: nat where "TRANSFER_TREE_HEIGHT = 40"
definition GLOBAL_TRANSFER_TREE_HEIGHT :: nat where
  "GLOBAL_TRANSFER_TREE_HEIGHT = TRANSFER_TREE_HEIGHT + AGGREGATION_TREE_HEIGHT"

lemmas tree_heights = AGGREGATION_TREE_HEIGHT_def TRANSFER_TREE_HEIGHT_def
  GLOBAL_TRANSFER_TREE_HEIGHT_def

section \<open>Root transition (\<open>root_transition.rs\<close>, \<open>root_nova.rs\<close>)\<close>

definition root_transition_step ::
  "(fr \<Rightarrow> fr \<Rightarrow> fr) \<Rightarrow> (bytes \<Rightarrow> bytes) \<Rightarrow> nat \<Rightarrow> fr \<Rightarrow> fr \<Rightarrow> fr \<Rightarrow> fr \<Rightarrow> fr \<Rightarrow> fr list \<Rightarrow> bool
     \<Rightarrow> (fr \<times> fr \<times> fr) option" where
  "root_transition_step H sha DEPTH index prev_hash_chain prev_root addr v sibs is_dummy =
     do {
       enforce (length sibs = DEPTH);
       enforce_bit_length addr ADDRESS_BIT_LENGTH;
       enforce_bit_length v BYTES31_BIT_LENGTH;
       index_bits \<leftarrow> to_bits_le_limited index DEPTH;
       prev_merkle \<leftarrow> merkle_root_from_leaf H 0 index_bits sibs;
       let should_enforce = (\<not> is_dummy);
       enforce (should_enforce \<longrightarrow> prev_root = prev_merkle);
       let leaf = leaf_hash_var H addr v;
       new_root \<leftarrow> merkle_root_from_leaf H leaf index_bits sibs;
       new_hash_chain \<leftarrow> hash_chain_var sha prev_hash_chain addr v;
       let new_index_candidate = index + 1;
       Some (if is_dummy then index else new_index_candidate,
             if is_dummy then prev_hash_chain else new_hash_chain,
             if is_dummy then prev_root else new_root)
     }"

record root_external_inputs =
  re_is_dummy :: bool
  re_address :: fr
  re_value :: fr
  re_siblings :: "fr list"

definition root_external_default :: root_external_inputs where
  "root_external_default =
     \<lparr>re_is_dummy = False, re_address = 0, re_value = 0,
      re_siblings = replicate TRANSFER_TREE_HEIGHT 0\<rparr>"

definition ROOT_STATE_LEN :: nat where "ROOT_STATE_LEN = 3"

definition root_step ::
  "(fr \<Rightarrow> fr \<Rightarrow> fr) \<Rightarrow> (bytes \<Rightarrow> bytes) \<Rightarrow> fr list \<Rightarrow> root_external_inputs \<Rightarrow> fr list option" where
  "root_step H sha z_i ext =
     (case z_i of
        [index, prev_hash_chain, prev_root] \<Rightarrow>
          do {
            (new_index, new_hash_chain, new_root) \<leftarrow>
              root_transition_step H sha TRANSFER_TREE_HEIGHT index prev_hash_chain prev_root
                (re_address ext) (re_value ext) (re_siblings ext) (re_is_dummy ext);
            Some [new_index, new_hash_chain, new_root]
          }
      | _ \<Rightarrow> None)"

text \<open>Incrementally verifiable computation: the step function iterated over the inputs.\<close>

fun ivc :: "('z \<Rightarrow> 'e \<Rightarrow> 'z option) \<Rightarrow> 'z \<Rightarrow> 'e list \<Rightarrow> 'z option" where
  "ivc step z [] = Some z"
| "ivc step z (e # es) = do { z' \<leftarrow> step z e; ivc step z' es }"

section \<open>Withdrawals (\<open>withdraw.rs\<close>, \<open>withdraw_nova.rs\<close>, \<open>groth16/withdraw.rs\<close>)\<close>

definition single_withdraw ::
  "(fr \<Rightarrow> fr \<Rightarrow> fr) \<Rightarrow> nat \<Rightarrow> fr \<Rightarrow> fr \<Rightarrow> fr \<Rightarrow> fr \<Rightarrow> fr \<Rightarrow> fr \<Rightarrow> fr list \<Rightarrow> fr option" where
  "single_withdraw H DEPTH merkle_root recipient v delta secret leaf_index sibs =
     do {
       enforce (length sibs = DEPTH);
       enforce_bit_length leaf_index DEPTH;
       enforce_bit_length v BYTES31_BIT_LENGTH;
       enforce_bit_length delta BYTES31_BIT_LENGTH;
       index_bits \<leftarrow> to_bits_le_limited leaf_index DEPTH;
       leaf_addr \<leftarrow> burn_address_var H recipient secret True;
       let leaf = leaf_hash_var H leaf_addr v;
       computed_root \<leftarrow> merkle_root_from_leaf H leaf index_bits sibs;
       enforce (merkle_root = computed_root);
       let withdraw_value = v - delta;
       enforce_bit_length withdraw_value BYTES31_BIT_LENGTH;
       Some withdraw_value
     }"

definition withdraw_step ::
  "(fr \<Rightarrow> fr \<Rightarrow> fr) \<Rightarrow> nat \<Rightarrow> fr \<Rightarrow> fr \<Rightarrow> fr \<Rightarrow> fr \<Rightarrow> bool \<Rightarrow> fr \<Rightarrow> fr \<Rightarrow> fr \<Rightarrow> fr list
     \<Rightarrow> (fr \<times> fr \<times> fr \<times> fr) option" where
  "withdraw_step H DEPTH merkle_root recipient prev_leaf_index_with_offset prev_total_value
       is_dummy v secret leaf_index sibs =
     do {
       enforce (length sibs = DEPTH);
       enforce_bit_length leaf_index DEPTH;
       enforce_bit_length prev_leaf_index_with_offset (DEPTH + 1);
       enforce_bit_length v BYTES31_BIT_LENGTH;
       let leaf_index_with_offset = leaf_index + 1;
       enforce_strict_less_than prev_leaf_index_with_offset leaf_index_with_offset (DEPTH + 1);
       index_bits \<leftarrow> to_bits_le_limited leaf_index DEPTH;
       leaf_addr \<leftarrow> burn_address_var H recipient secret (\<not> is_dummy);
       let leaf = leaf_hash_var H leaf_addr v;
       computed_root \<leftarrow> merkle_root_from_leaf H leaf index_bits sibs;
       let is_dummy_fp = fp_of_bool is_dummy;
       let is_real_fp = 1 - is_dummy_fp;
       let diff = merkle_root - computed_root;
       enforce (diff * is_real_fp = 0);
       let factor = 1 - is_dummy_fp * fr_of_nat 2;
       let new_total_value = prev_total_value + v * factor;
       enforce_bit_length new_total_value BYTES31_BIT_LENGTH;
       Some (merkle_root, recipient, leaf_index_with_offset, new_total_value)
     }"

record withdraw_external_inputs =
  we_is_dummy :: fr
  we_value :: fr
  we_secret :: fr
  we_leaf_index :: fr
  we_siblings :: "fr list"

definition WITHDRAW_STATE_LEN :: nat where "WITHDRAW_STATE_LEN = 4"

definition withdraw_external_default :: "nat \<Rightarrow> withdraw_external_inputs" where
  "withdraw_external_default DEPTH =
     \<lparr>we_is_dummy = 0, we_value = 0, we_secret = 0, we_leaf_index = 0,
      we_siblings = replicate DEPTH 0\<rparr>"

text \<open>The allocation of \<open>is_dummy\<close>: only 0 and 1 are assignments of a Boolean.\<close>

definition alloc_is_dummy :: "fr \<Rightarrow> bool option" where
  "alloc_is_dummy d = (if d = 0 then Some False else if d = 1 then Some True else None)"

definition withdraw_nova_step ::
  "(fr \<Rightarrow> fr \<Rightarrow> fr) \<Rightarrow> nat \<Rightarrow> fr list \<Rightarrow> withdraw_external_inputs \<Rightarrow> fr list option" where
  "withdraw_nova_step H DEPTH z_i ext =
     do {
       is_dummy \<leftarrow> alloc_is_dummy (we_is_dummy ext);
       (case z_i of
          [merkle_root, recipient, prev_leaf_index_with_offset, prev_total_value] \<Rightarrow>
            do {
              (out_root, out_recipient, out_leaf_index_with_offset, out_total) \<leftarrow>
                withdraw_step H DEPTH merkle_root recipient prev_leaf_index_with_offset
                  prev_total_value is_dummy (we_value ext) (we_secret ext) (we_leaf_index ext)
                  (we_siblings ext);
              Some [out_root, out_recipient, out_leaf_index_with_offset, out_total]
            }
        | _ \<Rightarrow> None)
     }"

definition dummy_withdraw_ext_input :: "nat \<Rightarrow> u64 \<Rightarrow> u256 \<Rightarrow> withdraw_external_inputs" where
  "dummy_withdraw_ext_input DEPTH index v =
     \<lparr>we_is_dummy = 1, we_value = u256_to_fr v, we_secret = 0,
      we_leaf_index = fr_of_nat (unat index), we_siblings = replicate DEPTH 0\<rparr>"

record single_withdraw_circuit =
  sw_merkle_root :: "fr option"
  sw_recipient :: "fr option"
  sw_withdraw_value :: "fr option"
  sw_value :: "fr option"
  sw_delta :: "fr option"
  sw_secret :: "fr option"
  sw_leaf_index :: "u64 option"
  sw_siblings :: "fr option list"

datatype synthesis_error = AssignmentMissing | Unsatisfied

definition single_withdraw_new :: "nat \<Rightarrow> single_withdraw_circuit" where
  "single_withdraw_new DEPTH =
     \<lparr>sw_merkle_root = None, sw_recipient = None, sw_withdraw_value = None, sw_value = None,
      sw_delta = None, sw_secret = None, sw_leaf_index = None,
      sw_siblings = replicate DEPTH None\<rparr>"

definition single_public_inputs :: "single_withdraw_circuit \<Rightarrow> synthesis_error + fr list" where
  "single_public_inputs c =
     res_bind (ok_or AssignmentMissing (sw_merkle_root c)) (\<lambda>a.
     res_bind (ok_or AssignmentMissing (sw_recipient c)) (\<lambda>b.
     res_bind (ok_or AssignmentMissing (sw_withdraw_value c)) (\<lambda>d. Inr [a, b, d])))"

definition single_generate_constraints ::
  "(fr \<Rightarrow> fr \<Rightarrow> fr) \<Rightarrow> nat \<Rightarrow> single_withdraw_circuit \<Rightarrow> synthesis_error + unit" where
  "single_generate_constraints H DEPTH c =
     res_bind (ok_or AssignmentMissing (sw_merkle_root c)) (\<lambda>merkle_root.
     res_bind (ok_or AssignmentMissing (sw_recipient c)) (\<lambda>recipient.
     res_bind (ok_or AssignmentMissing (sw_withdraw_value c)) (\<lambda>expected_withdraw_value.
     res_bind (ok_or AssignmentMissing (sw_value c)) (\<lambda>v.
     res_bind (ok_or AssignmentMissing (sw_delta c)) (\<lambda>delta.
     res_bind (ok_or AssignmentMissing (sw_secret c)) (\<lambda>secret.
     res_bind (ok_or AssignmentMissing (sw_leaf_index c)) (\<lambda>leaf_index.
     res_bind (res_map (ok_or AssignmentMissing) (sw_siblings c)) (\<lambda>sibling_vars.
     case single_withdraw H DEPTH merkle_root recipient v delta secret
            (fr_of_nat (unat leaf_index)) sibling_vars of
       None \<Rightarrow> Inl Unsatisfied
     | Some computed_withdraw_value \<Rightarrow>
         if expected_withdraw_value = computed_withdraw_value then Inr () else Inl Unsatisfied))))))))"

end
