(* ===== verification/Circuit_Props.thy ===== *)
theory Circuit_Props
  imports Circuits
begin

text \<open>
  What the circuits prove. The root-transition circuit, iterated from the empty
  state, accepts exactly the insertions of the incremental tree; the withdraw
  circuits accept only strictly increasing leaf indices and add up without
  wrap-around. Soundness is up to a collision of the two-to-one hash, which is
  exhibited by \<open>find_collision\<close>.
\<close>

section \<open>Exact meaning of the steps\<close>

lemma bind_enforce_iff [simp]: "(enforce b \<bind> f) = Some y \<longleftrightarrow> b \<and> f () = Some y"
  by (simp add: enforce_def)

lemma bind_if_Some_iff [simp]:
  "((if b then Some x else None) \<bind> f) = Some y \<longleftrightarrow> b \<and> f x = Some y"
  by simp

lemma enforce_bit_length_eq: "n \<le> 254 \<Longrightarrow> enforce_bit_length x n = enforce (into_bigint x < 2 ^ n)"
  by (simp add: enforce_bit_length_def to_bits_le_limited_eq enforce_def)

lemma enforce_strict_less_than_eq:
  assumes "n \<le> 252"
  shows "enforce_strict_less_than x y n
    = enforce (into_bigint x < into_bigint y \<and> into_bigint y < 2 ^ n)"
  using enforce_strict_less_than_iff [OF assms, of x y] by (auto simp: enforce_def)

definition burn_ok :: "(fr \<Rightarrow> fr \<Rightarrow> fr) \<Rightarrow> fr \<Rightarrow> fr \<Rightarrow> bool" where
  "burn_ok H r s \<longleftrightarrow> is_ok (compute_burn_address_from_secret H r s)"

definition burn_addr :: "(fr \<Rightarrow> fr \<Rightarrow> fr) \<Rightarrow> fr \<Rightarrow> fr \<Rightarrow> fr" where
  "burn_addr H r s = fr_of_nat (into_bigint (H r s) mod 2 ^ 160)"

lemma compute_burn_address_eq:
  "compute_burn_address_from_secret H r s = Inr a \<longleftrightarrow> burn_ok H r s \<and> a = burn_addr H r s"
  by (auto simp: burn_ok_def is_ok_iff compute_burn_address_iff burn_addr_def)

lemma burn_address_var_cases:
  "burn_address_var H r s c = (if c \<longrightarrow> burn_ok H r s then Some (burn_addr H r s) else None)"
proof (cases "compute_burn_address_from_secret H r s")
  case (Inl e)
  then show ?thesis
    by (simp add: burn_address_var_eq burn_ok_def burn_addr_def)
next
  case (Inr a)
  then show ?thesis
    using compute_burn_address_eq [of H r s a] by (simp add: burn_address_var_eq)
qed

lemmas step_rules = enforce_bit_length_eq to_bits_le_limited_eq merkle_root_from_leaf_eq
  leaf_hash_var_def burn_address_var_cases enforce_strict_less_than_eq ADDRESS_BIT_LENGTH_def
  BYTES31_BIT_LENGTH_def Let_def

lemma root_transition_step_iff:
  assumes "digest32 sha" "DEPTH \<le> 252"
  shows "root_transition_step H sha DEPTH i c r a v ss d = Some out
    \<longleftrightarrow> length ss = DEPTH \<and> into_bigint a < 2 ^ 160 \<and> into_bigint v < 2 ^ 248
      \<and> into_bigint i < 2 ^ DEPTH \<and> into_bigint c < 2 ^ 248
      \<and> (\<not> d \<longrightarrow> r = path_root H ss (into_bigint i) 0)
      \<and> out = (if d then (i, c, r) else
          (i + 1, u256_to_fr (hash_chain sha (fr_to_u256 c) (fr_to_address a) (fr_to_u256 v)),
           path_root H ss (into_bigint i) (H a v)))"
proof (cases "length ss = DEPTH \<and> into_bigint i < 2 ^ DEPTH")
  case True
  then show ?thesis
    using assms by (auto simp: root_transition_step_def step_rules hash_chain_var_eq)
next
  case False
  then show ?thesis
    using assms by (auto simp: root_transition_step_def step_rules)
qed

lemma single_withdraw_iff:
  assumes "DEPTH \<le> 252"
  shows "single_withdraw H DEPTH root rcp v delta secret li ss = Some w
    \<longleftrightarrow> length ss = DEPTH \<and> into_bigint li < 2 ^ DEPTH
      \<and> into_bigint v < 2 ^ 248 \<and> into_bigint delta \<le> into_bigint v
      \<and> burn_ok H rcp secret \<and> root = path_root H ss (into_bigint li) (H (burn_addr H rcp secret) v)
      \<and> into_bigint w = into_bigint v - into_bigint delta"
proof -
  have diff: "into_bigint (v - delta) < 2 ^ 248 \<longleftrightarrow> into_bigint delta \<le> into_bigint v"
    if "into_bigint v < 2 ^ 248" "into_bigint delta < 2 ^ 248"
    using that bn254_r_bounds(1) by (auto simp: into_bigint_diff)
  show ?thesis
  proof (cases "length ss = DEPTH \<and> into_bigint li < 2 ^ DEPTH")
    case True
    with assms have "single_withdraw H DEPTH root rcp v delta secret li ss = Some w
      \<longleftrightarrow> into_bigint v < 2 ^ 248 \<and> into_bigint delta < 2 ^ 248 \<and> burn_ok H rcp secret
        \<and> root = path_root H ss (into_bigint li) (H (burn_addr H rcp secret) v)
        \<and> into_bigint (v - delta) < 2 ^ 248 \<and> v - delta = w"
      by (auto simp: single_withdraw_def step_rules)
    moreover have "v - delta = w \<longleftrightarrow> into_bigint w = into_bigint (v - delta)"
      by (metis into_bigint_inject)
    ultimately show ?thesis
      using True diff by (auto simp: into_bigint_diff)
  next
    case False
    then show ?thesis
      using assms by (auto simp: single_withdraw_def step_rules)
  qed
qed

lemma fr_of_nat_2: "fr_of_nat 2 = 2"
  by (simp flip: of_nat_fr)

definition is_real :: "withdraw_external_inputs \<Rightarrow> bool" where
  "is_real e \<longleftrightarrow> we_is_dummy e = 0"

definition well_signed :: "withdraw_external_inputs \<Rightarrow> bool" where
  "well_signed e \<longleftrightarrow> we_is_dummy e = 0 \<or> we_is_dummy e = 1"

text \<open>The leaf an input claims: the burn address of its secret holds its value.\<close>

definition claims_leaf ::
  "(fr \<Rightarrow> fr \<Rightarrow> fr) \<Rightarrow> fr \<Rightarrow> fr \<Rightarrow> withdraw_external_inputs \<Rightarrow> bool" where
  "claims_leaf H root rcp e \<longleftrightarrow> burn_ok H rcp (we_secret e)
     \<and> root = path_root H (we_siblings e) (into_bigint (we_leaf_index e))
         (H (burn_addr H rcp (we_secret e)) (we_value e))"

lemma total_step_no_wrap:
  assumes "into_bigint t < 2 ^ 248" "into_bigint v < 2 ^ 248"
  shows "into_bigint (t + v) = into_bigint t + into_bigint v"
    and "into_bigint (t - v) < 2 ^ 248 \<longleftrightarrow> into_bigint v \<le> into_bigint t"
    and "into_bigint v \<le> into_bigint t \<Longrightarrow> into_bigint (t - v) = into_bigint t - into_bigint v"
  using assms bn254_r_bounds(1) by (auto simp: into_bigint_diff intro!: into_bigint_add_small)

lemma withdraw_step_iff:
  assumes "DEPTH \<le> 251" "into_bigint t < 2 ^ 248" "alloc_is_dummy (we_is_dummy e) = Some d"
  shows "withdraw_step H DEPTH root rcp prev t d (we_value e) (we_secret e)
      (we_leaf_index e) (we_siblings e) = Some out
    \<longleftrightarrow> length (we_siblings e) = DEPTH \<and> into_bigint (we_leaf_index e) < 2 ^ DEPTH
      \<and> into_bigint prev \<le> into_bigint (we_leaf_index e)
      \<and> into_bigint (we_value e) < 2 ^ 248
      \<and> (\<not> d \<longrightarrow> claims_leaf H root rcp e)
      \<and> (if d then into_bigint (we_value e) \<le> into_bigint t
          else into_bigint t + into_bigint (we_value e) < 2 ^ 248)
      \<and> out = (root, rcp, we_leaf_index e + 1, if d then t - we_value e else t + we_value e)"
    (is "?step \<longleftrightarrow> ?spec")
proof (cases "into_bigint (we_leaf_index e) < 2 ^ DEPTH")
  case True
  have "(2 :: nat) ^ DEPTH < bn254_r"
    using assms(1) by (intro two_power_less_r) simp
  then have li: "into_bigint (we_leaf_index e + 1) = Suc (into_bigint (we_leaf_index e))"
    using True into_bigint_add_small [of "we_leaf_index e" 1] by simp
  note rules = withdraw_step_def step_rules li less_Suc_eq_le claims_leaf_def fp_of_bool_def
  have neg: "t + we_value e * (1 - 1 * fr_of_nat 2) = t - we_value e"
    by (simp add: fr_of_nat_2 algebra_simps)
  show ?thesis
  proof (cases "length (we_siblings e) = DEPTH \<and> into_bigint (we_value e) < 2 ^ 248")
    case ok: True
    note sums = total_step_no_wrap [OF assms(2) conjunct2 [OF ok]]
    show ?thesis
    proof (cases d)
      case True
      then show ?thesis
        using assms(1) ok \<open>into_bigint (we_leaf_index e) < 2 ^ DEPTH\<close> neg sums
        by (auto simp: rules)
    next
      case False
      then show ?thesis
        using assms(1) ok \<open>into_bigint (we_leaf_index e) < 2 ^ DEPTH\<close> sums
        by (auto simp: rules)
    qed
  next
    case False
    then show ?thesis
      using assms(1) by (auto simp: rules)
  qed
next
  case False
  then show ?thesis
    using assms(1) by (auto simp: withdraw_step_def step_rules)
qed

section \<open>The root circuit computes the incremental tree\<close>

text \<open>The public state of the root circuit after a list of transfers.\<close>

definition root_state :: "(fr \<Rightarrow> fr \<Rightarrow> fr) \<Rightarrow> (bytes \<Rightarrow> bytes) \<Rightarrow> transfer list \<Rightarrow> fr list" where
  "root_state H sha ts =
     [fr_of_nat (length ts), u256_to_fr (chain_of sha ts),
      node H (transfer_leaves H ts) TRANSFER_TREE_HEIGHT 0]"

definition input_transfer :: "root_external_inputs \<Rightarrow> transfer" where
  "input_transfer e = (fr_to_address (re_address e), fr_to_u256 (re_value e))"

definition real_transfers :: "root_external_inputs list \<Rightarrow> transfer list" where
  "real_transfers es = map input_transfer (filter (\<lambda>e. \<not> re_is_dummy e) es)"

text \<open>The siblings of the next free leaf.\<close>

definition next_siblings :: "(fr \<Rightarrow> fr \<Rightarrow> fr) \<Rightarrow> transfer list \<Rightarrow> fr list" where
  "next_siblings H ts = path_siblings H (transfer_leaves H ts) 0 TRANSFER_TREE_HEIGHT (length ts)"

fun root_collision ::
  "(fr \<Rightarrow> fr \<Rightarrow> fr) \<Rightarrow> transfer list \<Rightarrow> root_external_inputs list \<Rightarrow> ((fr \<times> fr) \<times> (fr \<times> fr)) option" where
  "root_collision H ts [] = None"
| "root_collision H ts (e # es) =
     (if re_is_dummy e then root_collision H ts es
      else case find_collision H (length ts) (re_siblings e) 0 (next_siblings H ts) 0 of
             Some c \<Rightarrow> Some c
           | None \<Rightarrow> root_collision H (ts @ [input_transfer e]) es)"

lemma root_collision_sound:
  "root_collision H ts es = Some (a, b) \<Longrightarrow> a \<noteq> b \<and> H (fst a) (snd a) = H (fst b) (snd b)"
  by (induction H ts es rule: root_collision.induct)
    (auto split: if_splits option.splits dest: find_collision_sound)

lemma chain_of_less: "digest32 sha \<Longrightarrow> unat (chain_of sha ts) < 2 ^ 248"
  by (cases ts rule: rev_cases) (use hash_chain_less [of sha] in \<open>auto simp: chain_of_def\<close>)

lemma chain_of_fr [simp]:
  assumes "digest32 sha"
  shows "fr_to_u256 (u256_to_fr (chain_of sha ts)) = chain_of sha ts"
    and "into_bigint (u256_to_fr (chain_of sha ts)) = unat (chain_of sha ts)"
proof -
  have "unat (chain_of sha ts) < bn254_r"
    using chain_of_less [OF assms, of ts] two_power_less_r [of 248] by linarith
  then show "fr_to_u256 (u256_to_fr (chain_of sha ts)) = chain_of sha ts"
    and "into_bigint (u256_to_fr (chain_of sha ts)) = unat (chain_of sha ts)"
    by (simp_all add: fr_to_u256_u256_to_fr into_bigint_u256_to_fr)
qed

lemma address_to_fr_to_address: "into_bigint a < 2 ^ 160 \<Longrightarrow> address_to_fr (fr_to_address a) = a"
  by (simp add: into_bigint_inject [symmetric] unat_fr_to_address)

lemma two_40_less_r: "n \<le> 2 ^ 40 \<Longrightarrow> n < bn254_r"
  by (simp add: bn254_r_def)

lemma root_step_sound:
  assumes "digest32 sha" "length ts \<le> 2 ^ 40" "root_step H sha (root_state H sha ts) e = Some z"
  shows "if re_is_dummy e then z = root_state H sha ts
    else length ts < 2 ^ 40
      \<and> (find_collision H (length ts) (re_siblings e) 0 (next_siblings H ts) 0 = None
         \<longrightarrow> z = root_state H sha (ts @ [input_transfer e]))"
proof (cases "re_is_dummy e")
  case True
  then show ?thesis
    using assms(3)
    by (auto simp: root_step_def root_state_def root_transition_step_iff [OF assms(1)]
        bind_eq_Some_conv TRANSFER_TREE_HEIGHT_def)
next
  case False
  let ?n = "length ts" and ?f = "transfer_leaves H ts"
  have n: "?n mod bn254_r = ?n"
    using two_40_less_r [OF assms(2)] by simp
  from assms(3) False have acc: "length (re_siblings e) = 40" "into_bigint (re_address e) < 2 ^ 160"
      "?n < 2 ^ 40" "node H ?f 40 0 = path_root H (re_siblings e) ?n 0"
      "z = [fr_of_nat ?n + 1,
            u256_to_fr (hash_chain sha (chain_of sha ts) (fr_to_address (re_address e))
              (fr_to_u256 (re_value e))),
            path_root H (re_siblings e) ?n (H (re_address e) (re_value e))]"
    by (auto simp: root_step_def root_state_def root_transition_step_iff [OF assms(1)]
        bind_eq_Some_conv TRANSFER_TREE_HEIGHT_def n assms(1))
  have "z = root_state H sha (ts @ [input_transfer e])"
    if "find_collision H ?n (re_siblings e) 0 (next_siblings H ts) 0 = None"
  proof -
    have "?f ?n = 0"
      by (simp add: transfer_leaves_def)
    then have "path_root H (next_siblings H ts) ?n 0 = node H ?f 40 0"
      using node_path_root [OF acc(3), of H ?f] by (simp add: next_siblings_def TRANSFER_TREE_HEIGHT_def)
    then have "re_siblings e = next_siblings H ts"
      using find_collision_complete [of "re_siblings e" "next_siblings H ts" H ?n 0 0] acc(1,4) that
      by (auto simp: next_siblings_def TRANSFER_TREE_HEIGHT_def)
    moreover have "H (re_address e) (re_value e) = transfer_hash H (input_transfer e)"
      using acc(2) by (simp add: transfer_hash_def input_transfer_def address_to_fr_to_address)
    ultimately have "path_root H (re_siblings e) ?n (H (re_address e) (re_value e))
        = node H (transfer_leaves H (ts @ [input_transfer e])) 40 0"
      using node_upd_path_root [OF acc(3), of H ?f]
      by (simp add: next_siblings_def TRANSFER_TREE_HEIGHT_def transfer_leaves_snoc)
    moreover have "fr_of_nat ?n + 1 = fr_of_nat (Suc ?n)"
      using fr_of_nat_add [of ?n 1] by simp
    ultimately show ?thesis
      using acc(5) by (simp add: root_state_def TRANSFER_TREE_HEIGHT_def chain_of_snoc input_transfer_def)
  qed
  with False acc(3) show ?thesis
    by simp
qed

lemma root_ivc_sound_from:
  assumes "digest32 sha" "length ts \<le> 2 ^ 40"
    and "ivc (root_step H sha) (root_state H sha ts) es = Some z" "root_collision H ts es = None"
  shows "z = root_state H sha (ts @ real_transfers es) \<and> length (ts @ real_transfers es) \<le> 2 ^ 40"
  using assms(2-4)
proof (induction es arbitrary: ts)
  case Nil
  then show ?case
    by (simp add: real_transfers_def)
next
  case (Cons e es)
  obtain z1 where z1: "root_step H sha (root_state H sha ts) e = Some z1"
      "ivc (root_step H sha) z1 es = Some z"
    using Cons.prems(2) by (auto simp: bind_eq_Some_conv)
  note snd = root_step_sound [OF assms(1) Cons.prems(1) z1(1)]
  show ?case
  proof (cases "re_is_dummy e")
    case True
    then show ?thesis
      using snd z1 Cons.IH [of ts] Cons.prems by (simp add: real_transfers_def)
  next
    case False
    then have "find_collision H (length ts) (re_siblings e) 0 (next_siblings H ts) 0 = None"
        "root_collision H (ts @ [input_transfer e]) es = None"
      using Cons.prems(3) by (simp_all split: option.splits)
    then show ?thesis
      using snd z1 False Cons.IH [of "ts @ [input_transfer e]"] by (simp add: real_transfers_def)
  qed
qed

text \<open>The circuit state of an incremental tree, as the prover starts from it.\<close>

definition state_of_tree :: "incremental_tree \<Rightarrow> fr list option" where
  "state_of_tree s =
     do { root \<leftarrow> it_get_root s;
          Some [fr_of_nat (unat (it_index s)), u256_to_fr (it_hash_chain s), root] }"

lemma state_of_tree_inv:
  assumes "it_inv H sha TRANSFER_TREE_HEIGHT s ts" "length ts < 2 ^ 64"
  shows "state_of_tree s = Some (root_state H sha ts)"
  using assms mt_get_root_ok [of H TRANSFER_TREE_HEIGHT "it_tree s" "transfer_leaves H ts"]
  by (simp add: state_of_tree_def it_inv_def it_get_root_def root_state_def unat_word_of_nat)

text \<open>
  \<^bold>\<open>C6\<close>. Soundness of the root circuit: from the state of the empty tree, any
  accepted sequence of external inputs either exhibits a concrete collision of the
  two-to-one hash, or ends in the state (index, hash chain, root) of the incremental
  tree after inserting exactly the transfers of the non-dummy inputs, in order.
\<close>

theorem root_circuit_sound:
  assumes "digest32 sha" "ivc (root_step H sha) (root_state H sha []) es = Some z"
  shows "(\<exists>a b. root_collision H [] es = Some (a, b) \<and> a \<noteq> b
            \<and> H (fst a) (snd a) = H (fst b) (snd b))
    \<or> (\<exists>s. it_insert_all H sha (it_new H TRANSFER_TREE_HEIGHT) (real_transfers es) = Some s
         \<and> state_of_tree s = Some z)"
proof (cases "root_collision H [] es")
  case (Some c)
  then show ?thesis
    using root_collision_sound [of H "[]" es "fst c" "snd c"] by (cases c) auto
next
  case None
  have fin: "z = root_state H sha (real_transfers es)" "length (real_transfers es) \<le> 2 ^ 40"
    using root_ivc_sound_from [OF assms(1) _ assms(2) None] by auto
  have "it_inv H sha TRANSFER_TREE_HEIGHT (it_new H TRANSFER_TREE_HEIGHT) []"
    by (rule it_inv_new) (simp add: TRANSFER_TREE_HEIGHT_def)
  from it_insert_all_ok [OF this, of "real_transfers es"] fin(2) obtain s where
    "it_insert_all H sha (it_new H TRANSFER_TREE_HEIGHT) (real_transfers es) = Some s"
    "it_inv H sha TRANSFER_TREE_HEIGHT s (real_transfers es)"
    by (auto simp: TRANSFER_TREE_HEIGHT_def)
  then show ?thesis
    using state_of_tree_inv [of H sha s] fin by auto
qed

definition zero_fn :: "fr \<Rightarrow> fr \<Rightarrow> fr" where
  "zero_fn a b = 0"

lemma path_root_zero_fn: "path_root zero_fn ss i 0 = 0"
  by (induction ss arbitrary: i) (auto simp: zero_fn_def)

lemma node_zero_fn: "node zero_fn (\<lambda>_. 0) n j = 0"
  by (cases n) (simp_all add: zero_fn_def)

definition sample_root_input :: root_external_inputs where
  "sample_root_input = \<lparr>re_is_dummy = False, re_address = 5, re_value = 7,
     re_siblings = replicate 40 3\<rparr>"

lemma into_bigint_numeral: "into_bigint (numeral k) = numeral k mod bn254_r"
  by (metis into_bigint_fr_of_nat of_nat_fr of_nat_numeral)

lemma sample_root_step:
  "root_step zero_fn const_sha (root_state zero_fn const_sha []) sample_root_input
     = Some [1, u256_to_fr (hash_chain const_sha 0 5 7), 0]"
proof -
  have "fr_to_address 5 = 5" "fr_to_u256 7 = 7" "fr_to_u256 (u256_to_fr 0) = 0"
    by (simp_all add: word_unat_eq_iff unat_fr_to_address into_bigint_numeral into_bigint_u256_to_fr
        bn254_r_def)
  then have "root_transition_step zero_fn const_sha 40 0 (u256_to_fr 0) 0 5 7 (replicate 40 3) False
      = Some (1, u256_to_fr (hash_chain const_sha 0 5 7), 0)"
    by (subst root_transition_step_iff)
      (simp_all add: path_root_zero_fn zero_fn_def into_bigint_numeral into_bigint_u256_to_fr bn254_r_def)
  then show ?thesis
    by (simp add: root_step_def root_state_def chain_of_def transfer_leaves_Nil node_zero_fn
        sample_root_input_def TRANSFER_TREE_HEIGHT_def)
qed

theorem root_circuit_sound_witness:
  "(\<exists>a b. root_collision zero_fn [] [sample_root_input] = Some (a, b) \<and> a \<noteq> b
            \<and> zero_fn (fst a) (snd a) = zero_fn (fst b) (snd b))
    \<or> (\<exists>s. it_insert_all zero_fn const_sha (it_new zero_fn TRANSFER_TREE_HEIGHT)
               (real_transfers [sample_root_input]) = Some s
         \<and> state_of_tree s = Some [1, u256_to_fr (hash_chain const_sha 0 5 7), 0])"
  by (rule root_circuit_sound [OF digest32_const_sha]) (simp add: sample_root_step)

text \<open>
  The inputs a prover builds from the tree: the proof of the next free leaf, taken
  before the insertion.
\<close>

fun root_inputs ::
  "(fr \<Rightarrow> fr \<Rightarrow> fr) \<Rightarrow> (bytes \<Rightarrow> bytes) \<Rightarrow> incremental_tree \<Rightarrow> transfer list
     \<Rightarrow> root_external_inputs list option" where
  "root_inputs H sha s [] = Some []"
| "root_inputs H sha s ((a, v) # ts) =
     do {
       p \<leftarrow> it_prove s (it_index s);
       r \<leftarrow> it_insert H sha s a v;
       rest \<leftarrow> root_inputs H sha (snd r) ts;
       Some (\<lparr>re_is_dummy = False, re_address = address_to_fr a, re_value = u256_to_fr v,
              re_siblings = siblings p\<rparr> # rest)
     }"

lemma root_step_complete:
  assumes "digest32 sha" "length ts < 2 ^ 40" "unat v < 2 ^ 248"
  shows "root_step H sha (root_state H sha ts)
      \<lparr>re_is_dummy = False, re_address = address_to_fr a, re_value = u256_to_fr v,
       re_siblings = next_siblings H ts\<rparr>
    = Some (root_state H sha (ts @ [(a, v)]))"
proof -
  let ?n = "length ts" and ?f = "transfer_leaves H ts" and ?ss = "next_siblings H ts"
  have n: "?n mod bn254_r = ?n"
    using two_40_less_r [of ?n] assms(2) by simp
  have "unat v < bn254_r"
    using assms(3) two_power_less_r [of 248] by linarith
  then have v: "into_bigint (u256_to_fr v) = unat v" "fr_to_u256 (u256_to_fr v) = v"
    by (simp_all add: into_bigint_u256_to_fr fr_to_u256_u256_to_fr)
  have old: "node H ?f 40 0 = path_root H ?ss ?n 0"
    using node_path_root [OF assms(2), of H ?f]
    by (simp add: next_siblings_def TRANSFER_TREE_HEIGHT_def transfer_leaves_def)
  have new: "node H (transfer_leaves H (ts @ [(a, v)])) 40 0
      = path_root H ?ss ?n (H (address_to_fr a) (u256_to_fr v))"
    using node_upd_path_root [OF assms(2), of H ?f]
    by (simp add: next_siblings_def TRANSFER_TREE_HEIGHT_def transfer_leaves_snoc transfer_hash_def)
  have "fr_of_nat ?n + 1 = fr_of_nat (Suc ?n)"
    using fr_of_nat_add [of ?n 1] by simp
  then have "root_transition_step H sha 40 (fr_of_nat ?n) (u256_to_fr (chain_of sha ts))
      (node H ?f 40 0) (address_to_fr a) (u256_to_fr v) ?ss False
    = Some (fr_of_nat (Suc ?n), u256_to_fr (chain_of sha (ts @ [(a, v)])),
        node H (transfer_leaves H (ts @ [(a, v)])) 40 0)"
    using assms v chain_of_less [OF assms(1), of ts] unat_address_less [of a]
    by (subst root_transition_step_iff [OF assms(1)])
      (simp_all add: n old new chain_of_snoc next_siblings_def TRANSFER_TREE_HEIGHT_def)
  then show ?thesis
    by (simp add: root_step_def root_state_def TRANSFER_TREE_HEIGHT_def)
qed

lemma root_inputs_complete:
  assumes "digest32 sha" "it_inv H sha TRANSFER_TREE_HEIGHT s ts"
    and "length ts + length us \<le> 2 ^ 40" "\<forall>(a, v) \<in> set us. unat v < 2 ^ 248"
  shows "\<exists>es. root_inputs H sha s us = Some es
    \<and> ivc (root_step H sha) (root_state H sha ts) es = Some (root_state H sha (ts @ us))"
  using assms(2-4)
proof (induction us arbitrary: s ts)
  case (Cons u us)
  obtain a v where u: "u = (a, v)"
    by (cases u)
  have room: "length ts < 2 ^ TRANSFER_TREE_HEIGHT" "length ts < 2 ^ 40"
    using Cons.prems(2) by (simp_all add: TRANSFER_TREE_HEIGHT_def)
  then have idx: "unat (it_index s) = length ts"
    using Cons.prems(1) by (simp add: it_inv_def unat_word_of_nat)
  have p: "it_prove s (it_index s) = Some \<lparr>siblings = next_siblings H ts\<rparr>"
    using mt_prove_ok [of H TRANSFER_TREE_HEIGHT "it_tree s" "transfer_leaves H ts" "it_index s"]
      Cons.prems(1) room idx
    by (simp add: it_prove_def it_inv_def next_siblings_def)
  obtain s' where s': "it_insert H sha s a v = Some (word_of_nat (length ts), s')"
      "it_inv H sha TRANSFER_TREE_HEIGHT s' (ts @ [(a, v)])"
    using it_insert_ok [OF Cons.prems(1) room(1), of a v] room(2) by auto
  have "unat v < 2 ^ 248"
    using Cons.prems(3) u by simp
  note step = root_step_complete [OF assms(1) room(2) this, of H a]
  obtain es where "root_inputs H sha s' us = Some es"
      "ivc (root_step H sha) (root_state H sha (ts @ [(a, v)])) es
        = Some (root_state H sha ((ts @ [(a, v)]) @ us))"
    using Cons.IH [OF s'(2)] Cons.prems(2,3) u by auto
  then show ?case
    using p s' step u by simp
qed simp

text \<open>
  \<^bold>\<open>C13\<close>. Completeness of the root circuit: for every list of at most \<open>2^40\<close>
  transfers with values below \<open>2^248\<close>, the inputs read off the incremental tree are
  accepted step by step and lead from the empty state to the state of the tree that
  holds them all.
\<close>

theorem root_circuit_complete:
  assumes "digest32 sha" "length ts \<le> 2 ^ 40" "\<forall>(a, v) \<in> set ts. unat v < 2 ^ 248"
  shows "\<exists>es s. root_inputs H sha (it_new H TRANSFER_TREE_HEIGHT) ts = Some es
    \<and> it_insert_all H sha (it_new H TRANSFER_TREE_HEIGHT) ts = Some s
    \<and> ivc (root_step H sha) (root_state H sha []) es = state_of_tree s"
proof -
  have inv: "it_inv H sha TRANSFER_TREE_HEIGHT (it_new H TRANSFER_TREE_HEIGHT) []"
    by (rule it_inv_new) (simp add: TRANSFER_TREE_HEIGHT_def)
  from it_insert_all_ok [OF this, of ts] assms(2) obtain s where
    s: "it_insert_all H sha (it_new H TRANSFER_TREE_HEIGHT) ts = Some s"
      "it_inv H sha TRANSFER_TREE_HEIGHT s ts"
    by (auto simp: TRANSFER_TREE_HEIGHT_def)
  then show ?thesis
    using root_inputs_complete [OF assms(1) inv, of ts] assms(2,3) state_of_tree_inv [OF s(2)] by auto
qed

theorem root_circuit_complete_witness:
  "\<exists>es s. root_inputs toy_hash const_sha (it_new toy_hash TRANSFER_TREE_HEIGHT) [(5, 7), (6, 9)] = Some es
    \<and> it_insert_all toy_hash const_sha (it_new toy_hash TRANSFER_TREE_HEIGHT) [(5, 7), (6, 9)] = Some s
    \<and> ivc (root_step toy_hash const_sha) (root_state toy_hash const_sha []) es = state_of_tree s"
  by (rule root_circuit_complete [OF digest32_const_sha]) simp_all

end
