(* ===== verification/Withdraw_Props.thy ===== *)
theory Withdraw_Props
  imports Circuit_Props
begin

text \<open>
  The withdraw circuits: no leaf is counted twice, the total is the exact sum of
  the claimed values, and every claimed value is backed by a transfer of the tree.
\<close>

definition leaf_idx :: "withdraw_external_inputs \<Rightarrow> nat" where
  "leaf_idx e = into_bigint (we_leaf_index e)"

definition amount :: "withdraw_external_inputs \<Rightarrow> nat" where
  "amount e = into_bigint (we_value e)"

definition signed_amount :: "withdraw_external_inputs \<Rightarrow> int" where
  "signed_amount e = (if is_real e then int (amount e) else - int (amount e))"

lemma alloc_is_dummy_iff:
  "alloc_is_dummy (we_is_dummy e) = Some d \<longleftrightarrow> well_signed e \<and> d = (\<not> is_real e)"
  by (auto simp: alloc_is_dummy_def well_signed_def is_real_def)

definition input_ok ::
  "(fr \<Rightarrow> fr \<Rightarrow> fr) \<Rightarrow> nat \<Rightarrow> fr \<Rightarrow> fr \<Rightarrow> withdraw_external_inputs \<Rightarrow> bool" where
  "input_ok H DEPTH root rcp e \<longleftrightarrow>
     well_signed e \<and> length (we_siblings e) = DEPTH \<and> leaf_idx e < 2 ^ DEPTH
     \<and> amount e < 2 ^ 248 \<and> (is_real e \<longrightarrow> claims_leaf H root rcp e)"

lemma withdraw_nova_step_iff:
  assumes "DEPTH \<le> 251" "into_bigint t < 2 ^ 248"
  shows "withdraw_nova_step H DEPTH [root, rcp, prev, t] e = Some z
    \<longleftrightarrow> input_ok H DEPTH root rcp e \<and> into_bigint prev \<le> leaf_idx e
      \<and> (\<exists>t'. z = [root, rcp, fr_of_nat (Suc (leaf_idx e)), t'] \<and> into_bigint t' < 2 ^ 248
           \<and> int (into_bigint t') = int (into_bigint t) + signed_amount e)"
    (is "?step \<longleftrightarrow> ?spec")
proof -
  have li: "we_leaf_index e + 1 = fr_of_nat (Suc (leaf_idx e))"
    using fr_of_nat_add [of "leaf_idx e" 1] by (simp add: leaf_idx_def)
  have tot: "(\<exists>t'. z = [root, rcp, fr_of_nat (Suc (leaf_idx e)), t'] \<and> into_bigint t' < 2 ^ 248
       \<and> int (into_bigint t') = int (into_bigint t) + signed_amount e)
    \<longleftrightarrow> (if is_real e then into_bigint t + amount e < 2 ^ 248 else amount e \<le> into_bigint t)
      \<and> z = [root, rcp, we_leaf_index e + 1, if is_real e then t + we_value e else t - we_value e]"
    if "amount e < 2 ^ 248"
  proof (cases "is_real e")
    case True
    have "int (into_bigint t') = int (into_bigint t) + signed_amount e \<longleftrightarrow> t' = t + we_value e" for t'
      using that True total_step_no_wrap(1) [OF assms(2), of "we_value e"]
      by (simp add: signed_amount_def amount_def into_bigint_inject [symmetric] flip: of_nat_add)
    with True that show ?thesis
      using total_step_no_wrap(1) [OF assms(2), of "we_value e"] by (auto simp: li amount_def)
  next
    case False
    have "int (into_bigint t') = int (into_bigint t) + signed_amount e
        \<longleftrightarrow> amount e \<le> into_bigint t \<and> t' = t - we_value e" for t'
      using that False total_step_no_wrap(3) [OF assms(2), of "we_value e"]
      by (auto simp: signed_amount_def amount_def into_bigint_inject [symmetric])
    with False that assms(2) show ?thesis
      using total_step_no_wrap(3) [OF assms(2), of "we_value e"] by (auto simp: li amount_def)
  qed
  show ?thesis
  proof (cases "well_signed e \<and> amount e < 2 ^ 248")
    case True
    then show ?thesis
      using tot alloc_is_dummy_iff [of e "\<not> is_real e"]
        withdraw_step_iff [OF assms, of e "\<not> is_real e" H root rcp prev]
      by (auto simp: withdraw_nova_step_def bind_eq_Some_conv input_ok_def leaf_idx_def amount_def)
  next
    case False
    have "\<not> ?step"
    proof
      assume ?step
      then obtain d out where "alloc_is_dummy (we_is_dummy e) = Some d"
        "withdraw_step H DEPTH root rcp prev t d (we_value e) (we_secret e) (we_leaf_index e)
           (we_siblings e) = Some out"
        by (auto simp: withdraw_nova_step_def bind_eq_Some_conv)
      with withdraw_step_iff [OF assms this(1)] False show False
        by (auto simp: alloc_is_dummy_iff amount_def)
    qed
    with False show ?thesis
      by (auto simp: input_ok_def)
  qed
qed

section \<open>Accepted sequences\<close>

text \<open>Running totals stay below \<open>2^248\<close> and never go below zero.\<close>

fun totals_ok :: "int \<Rightarrow> withdraw_external_inputs list \<Rightarrow> bool" where
  "totals_ok t [] = True"
| "totals_ok t (e # es) =
     (0 \<le> t + signed_amount e \<and> t + signed_amount e < 2 ^ 248 \<and> totals_ok (t + signed_amount e) es)"

definition strictly_increasing :: "nat list \<Rightarrow> bool" where
  "strictly_increasing xs \<longleftrightarrow> sorted_wrt (<) xs"

lemma withdraw_ivc_iff:
  assumes "DEPTH \<le> 251" "into_bigint t < 2 ^ 248" "into_bigint prev \<le> 2 ^ DEPTH"
  shows "ivc (withdraw_nova_step H DEPTH) [root, rcp, prev, t] es = Some z
    \<longleftrightarrow> (\<forall>e \<in> set es. input_ok H DEPTH root rcp e \<and> into_bigint prev \<le> leaf_idx e)
      \<and> strictly_increasing (map leaf_idx es) \<and> totals_ok (int (into_bigint t)) es
      \<and> (\<exists>t'. z = [root, rcp, if es = [] then prev else fr_of_nat (Suc (leaf_idx (last es))), t']
           \<and> into_bigint t' < 2 ^ 248
           \<and> int (into_bigint t') = int (into_bigint t) + sum_list (map signed_amount es))"
    (is "?run prev t es \<longleftrightarrow> ?spec prev t es")
  using assms(2,3)
proof (induction es arbitrary: prev t)
  case Nil
  then show ?case
    by (auto simp: strictly_increasing_def into_bigint_inject)
next
  case (Cons e es)
  let ?prev' = "fr_of_nat (Suc (leaf_idx e))"
  show ?case
  proof (cases "input_ok H DEPTH root rcp e \<and> into_bigint prev \<le> leaf_idx e
      \<and> 0 \<le> int (into_bigint t) + signed_amount e
      \<and> int (into_bigint t) + signed_amount e < 2 ^ 248")
    case False
    have "withdraw_nova_step H DEPTH [root, rcp, prev, t] e \<noteq> Some z'" for z'
    proof
      assume "withdraw_nova_step H DEPTH [root, rcp, prev, t] e = Some z'"
      with withdraw_nova_step_iff [OF assms(1) Cons.prems(1)] obtain t' where
        "input_ok H DEPTH root rcp e" "into_bigint prev \<le> leaf_idx e" "into_bigint t' < 2 ^ 248"
        "int (into_bigint t') = int (into_bigint t) + signed_amount e"
        by blast
      then show False
        using False by (metis of_nat_0_le_iff of_nat_less_iff of_nat_numeral of_nat_power)
    qed
    then show ?thesis
      using False by (auto simp: bind_eq_Some_conv)
  next
    case True
    define t' where "t' = fr_of_nat (nat (int (into_bigint t) + signed_amount e))"
    have bound: "nat (int (into_bigint t) + signed_amount e) < 2 ^ 248"
      using True by (simp add: nat_less_iff)
    then have t': "int (into_bigint t') = int (into_bigint t) + signed_amount e"
        "into_bigint t' < 2 ^ 248"
      using True two_power_less_r [of 248] by (simp_all add: t'_def)
    have lt: "leaf_idx e < 2 ^ DEPTH"
      using True by (simp add: input_ok_def)
    moreover have "(2 :: nat) ^ DEPTH < bn254_r"
      using assms(1) by (intro two_power_less_r) simp
    ultimately have prev': "into_bigint ?prev' = Suc (leaf_idx e)"
      by simp
    have "withdraw_nova_step H DEPTH [root, rcp, prev, t] e = Some [root, rcp, ?prev', t']"
      using withdraw_nova_step_iff [OF assms(1) Cons.prems(1)] True t' by blast
    then have "?run prev t (e # es) \<longleftrightarrow> ?run ?prev' t' es"
      by simp
    also have "\<dots> \<longleftrightarrow> ?spec ?prev' t' es"
      using Cons.IH [of t' ?prev'] t' prev' lt by simp
    also have "\<dots> \<longleftrightarrow> ?spec prev t (e # es)"
      using True prev' t'(1)
      by (auto simp: strictly_increasing_def Suc_le_eq add.assoc simp del: into_bigint_fr_of_nat)
    finally show ?thesis .
  qed
qed

lemma sum_signed_split:
  "sum_list (map signed_amount es)
     = int (sum_list (map amount (filter is_real es)))
       - int (sum_list (map amount (filter (\<lambda>e. \<not> is_real e) es)))"
  by (induction es) (auto simp: signed_amount_def)

lemma withdraw_ivc_exact:
  assumes "DEPTH \<le> 251"
  shows "ivc (withdraw_nova_step H DEPTH) [root, recipient, 0, 0] es = Some z
    \<longleftrightarrow> (\<forall>e \<in> set es. input_ok H DEPTH root recipient e)
      \<and> strictly_increasing (map leaf_idx es) \<and> totals_ok 0 es
      \<and> (\<exists>t. z = [root, recipient, if es = [] then 0 else fr_of_nat (Suc (leaf_idx (last es))), t]
           \<and> into_bigint t < 2 ^ 248
           \<and> into_bigint t + sum_list (map amount (filter (\<lambda>e. \<not> is_real e) es))
               = sum_list (map amount (filter is_real es)))"
proof -
  have "int (into_bigint t) = sum_list (map signed_amount es)
      \<longleftrightarrow> into_bigint t + sum_list (map amount (filter (\<lambda>e. \<not> is_real e) es))
            = sum_list (map amount (filter is_real es))" for t
    unfolding sum_signed_split by linarith
  then show ?thesis
    using withdraw_ivc_iff [OF assms, of 0 0 H root recipient es z] by simp
qed

text \<open>
  \<^bold>\<open>C7\<close>. The batch-withdraw circuit, from the initial state with offset index 0 and
  total 0, accepts a sequence of inputs exactly when every input is well formed (a
  real one proves its leaf under the root for the recipient), the leaf indices are
  strictly increasing, and every running total lies in \<open>[0, 2^248)\<close>; the final total is
  then exactly the sum of the real values minus the sum of the dummy values, with no
  wrap-around of the field.
\<close>

theorem withdraw_circuit_exact:
  assumes "DEPTH \<le> 251"
  shows "ivc (withdraw_nova_step H DEPTH) [root, recipient, 0, 0] es = Some z
    \<longleftrightarrow> (\<forall>e \<in> set es. input_ok H DEPTH root recipient e)
      \<and> strictly_increasing (map leaf_idx es) \<and> totals_ok 0 es
      \<and> (\<exists>t. z = [root, recipient, if es = [] then 0 else fr_of_nat (Suc (leaf_idx (last es))), t]
           \<and> into_bigint t < 2 ^ 248
           \<and> into_bigint t + sum_list (map amount (filter (\<lambda>e. \<not> is_real e) es))
               = sum_list (map amount (filter is_real es)))"
  by (rule withdraw_ivc_exact [OF assms])

definition sample_withdraw_input :: "nat \<Rightarrow> withdraw_external_inputs" where
  "sample_withdraw_input i =
     \<lparr>we_is_dummy = 0, we_value = 7, we_secret = 1, we_leaf_index = fr_of_nat i, we_siblings = [0, 0]\<rparr>"

lemma sample_withdraw_simps:
  "i < 4 \<Longrightarrow> leaf_idx (sample_withdraw_input i) = i" "amount (sample_withdraw_input i) = 7"
  "is_real (sample_withdraw_input i)" "signed_amount (sample_withdraw_input i) = 7"
  by (simp_all add: leaf_idx_def amount_def is_real_def signed_amount_def sample_withdraw_input_def
      into_bigint_numeral bn254_r_def)

lemma sample_withdraw_ok:
  assumes "i < 4"
  shows "input_ok zero_fn 2 0 9 (sample_withdraw_input i)"
proof -
  have "burn_ok zero_fn 9 1"
    by (simp add: burn_ok_def is_ok_iff compute_burn_address_iff zero_fn_def)
  then show ?thesis
    using assms sample_withdraw_simps [of i] path_root_zero_fn [of "[0, 0]" i]
    by (simp add: input_ok_def well_signed_def claims_leaf_def)
      (simp add: sample_withdraw_input_def zero_fn_def)
qed

theorem withdraw_circuit_exact_witness:
  "ivc (withdraw_nova_step zero_fn 2) [0, 9, 0, 0] [sample_withdraw_input 1, sample_withdraw_input 2]
     = Some [0, 9, fr_of_nat 3, fr_of_nat 14]
   \<and> ivc (withdraw_nova_step zero_fn 2) [0, 9, 0, 0] [sample_withdraw_input 1, sample_withdraw_input 1]
     = None"
proof -
  have "ivc (withdraw_nova_step zero_fn 2) [0, 9, 0, 0] [sample_withdraw_input 1, sample_withdraw_input 1]
      \<noteq> Some z" for z
    using withdraw_circuit_exact
      [of 2 zero_fn 0 9 "[sample_withdraw_input 1, sample_withdraw_input 1]" z]
    by (simp add: strictly_increasing_def)
  moreover have "ivc (withdraw_nova_step zero_fn 2) [0, 9, 0, 0]
      [sample_withdraw_input 1, sample_withdraw_input 2] = Some [0, 9, fr_of_nat 3, fr_of_nat 14]"
    by (subst withdraw_circuit_exact)
      (simp_all add: strictly_increasing_def sample_withdraw_simps sample_withdraw_ok bn254_r_def)
  ultimately show ?thesis
    by (meson not_Some_eq)
qed

section \<open>Backing of a withdrawal by the transfers\<close>

text \<open>
  What an accepted real input means for a tree of transfers: its leaf is the
  transfer at its index, unless it breaks the hash in one of three explicit ways.
\<close>

definition breaks_hash ::
  "(fr \<Rightarrow> fr \<Rightarrow> fr) \<Rightarrow> nat \<Rightarrow> fr \<Rightarrow> transfer list \<Rightarrow> withdraw_external_inputs \<Rightarrow> bool" where
  "breaks_hash H DEPTH rcp ts e \<longleftrightarrow>
     (let f = transfer_leaves H ts; i = leaf_idx e;
          claimed = H (burn_addr H rcp (we_secret e)) (we_value e)
      in find_collision H i (we_siblings e) claimed (path_siblings H f 0 DEPTH i) (f i) \<noteq> None
       \<or> length ts \<le> i \<and> claimed = 0
       \<or> i < length ts
         \<and> (burn_addr H rcp (we_secret e), we_value e)
             \<noteq> (address_to_fr (fst (ts ! i)), u256_to_fr (snd (ts ! i)))
         \<and> claimed = transfer_hash H (ts ! i))"

definition backed :: "(fr \<Rightarrow> fr \<Rightarrow> fr) \<Rightarrow> fr \<Rightarrow> transfer list \<Rightarrow> withdraw_external_inputs \<Rightarrow> bool" where
  "backed H rcp ts e \<longleftrightarrow>
     leaf_idx e < length ts \<and> burn_ok H rcp (we_secret e)
     \<and> address_to_fr (fst (ts ! leaf_idx e)) = burn_addr H rcp (we_secret e)
     \<and> u256_to_fr (snd (ts ! leaf_idx e)) = we_value e"

lemma real_input_backed:
  assumes "input_ok H DEPTH (node H (transfer_leaves H ts) DEPTH 0) rcp e" "is_real e"
    and "\<not> breaks_hash H DEPTH rcp ts e"
  shows "backed H rcp ts e"
proof -
  let ?f = "transfer_leaves H ts" and ?i = "leaf_idx e"
  let ?claimed = "H (burn_addr H rcp (we_secret e)) (we_value e)"
  have ok: "length (we_siblings e) = DEPTH" "?i < 2 ^ DEPTH" "burn_ok H rcp (we_secret e)"
      "node H ?f DEPTH 0 = path_root H (we_siblings e) ?i ?claimed"
    using assms(1,2) by (auto simp: input_ok_def claims_leaf_def leaf_idx_def)
  then have "path_root H (we_siblings e) ?i ?claimed
      = path_root H (path_siblings H ?f 0 DEPTH ?i) ?i (?f ?i)"
    by (simp add: node_path_root)
  then have "?claimed = ?f ?i"
    using find_collision_complete [of "we_siblings e" "path_siblings H ?f 0 DEPTH ?i" H ?i ?claimed "?f ?i"]
      assms(3) ok(1) by (auto simp: breaks_hash_def Let_def)
  then show ?thesis
    using assms(3) ok(3)
    by (auto simp: breaks_hash_def Let_def backed_def transfer_leaves_def split: if_splits)
qed

lemma sum_over_distinct_indices:
  assumes "distinct (map leaf_idx es)" "\<forall>e \<in> set es. amount e = g (leaf_idx e)"
  shows "sum_list (map amount es) = (\<Sum>k \<in> leaf_idx ` set es. g k)"
  using assms by (induction es) auto

text \<open>
  \<^bold>\<open>C5\<close>. No double spending: whenever the circuit accepts inputs against the root of a
  tree of transfers and no real input breaks the hash (by an explicit collision, a
  preimage of the empty leaf, or a second preimage of a leaf), the withdrawn total
  plus the dummy values is the sum of the values of a set of transfers, one per real
  input, each of which burned to an address derived from the recipient.
\<close>

theorem withdraw_total_backed:
  assumes "DEPTH \<le> 251"
    and "ivc (withdraw_nova_step H DEPTH)
           [node H (transfer_leaves H ts) DEPTH 0, recipient, 0, 0] es = Some [r, p, i, tot]"
    and "\<forall>e \<in> set es. is_real e \<longrightarrow> \<not> breaks_hash H DEPTH recipient ts e"
  shows "\<exists>K. K \<subseteq> {..<length ts} \<and> card K = length (filter is_real es)
    \<and> (\<forall>k \<in> K. \<exists>secret. compute_burn_address_from_secret H recipient secret
                         = Inr (address_to_fr (fst (ts ! k))))
    \<and> into_bigint tot + sum_list (map amount (filter (\<lambda>e. \<not> is_real e) es))
        = (\<Sum>k \<in> K. into_bigint (u256_to_fr (snd (ts ! k))))"
proof -
  let ?root = "node H (transfer_leaves H ts) DEPTH 0" and ?rs = "filter is_real es"
  let ?K = "leaf_idx ` set ?rs"
  have acc: "\<forall>e \<in> set es. input_ok H DEPTH ?root recipient e"
      "strictly_increasing (map leaf_idx es)"
      "into_bigint tot + sum_list (map amount (filter (\<lambda>e. \<not> is_real e) es))
        = sum_list (map amount ?rs)"
    using assms(2) unfolding withdraw_ivc_exact [OF assms(1)] by auto
  have bk: "backed H recipient ts e" if "e \<in> set ?rs" for e
    using that acc(1) assms(3) by (auto intro!: real_input_backed)
  have dist: "distinct (map leaf_idx ?rs)"
    using acc(2) unfolding strictly_increasing_def
    by (auto simp: strict_sorted_iff intro: distinct_map_filter)
  have "card ?K = length ?rs"
    using distinct_card [OF dist] by simp
  moreover have "sum_list (map amount ?rs) = (\<Sum>k \<in> ?K. into_bigint (u256_to_fr (snd (ts ! k))))"
    by (rule sum_over_distinct_indices [OF dist]) (use bk in \<open>auto simp: backed_def amount_def\<close>)
  moreover have "?K \<subseteq> {..<length ts}"
    using bk by (auto simp: backed_def)
  moreover have "\<forall>k \<in> ?K. \<exists>secret. compute_burn_address_from_secret H recipient secret
                         = Inr (address_to_fr (fst (ts ! k)))"
    using bk by (auto simp: backed_def compute_burn_address_eq)
  ultimately show ?thesis
    using acc(3) by metis
qed

definition leaf_only_input :: withdraw_external_inputs where
  "leaf_only_input =
     \<lparr>we_is_dummy = 0, we_value = 7, we_secret = 1, we_leaf_index = 0, we_siblings = []\<rparr>"

lemma leaf_only_simps:
  "leaf_idx leaf_only_input = 0" "amount leaf_only_input = 7" "is_real leaf_only_input"
  "signed_amount leaf_only_input = 7" "input_ok zero_fn 0 0 9 leaf_only_input"
  "\<not> breaks_hash zero_fn 0 9 [(0, 7)] leaf_only_input"
proof -
  show simps: "leaf_idx leaf_only_input = 0" "amount leaf_only_input = 7" "is_real leaf_only_input"
    "signed_amount leaf_only_input = 7"
    by (simp_all add: leaf_idx_def amount_def is_real_def signed_amount_def leaf_only_input_def
        into_bigint_numeral bn254_r_def)
  have "burn_ok zero_fn 9 1" "burn_addr zero_fn 9 1 = 0"
    by (simp_all add: burn_ok_def is_ok_iff compute_burn_address_iff zero_fn_def burn_addr_def)
  moreover have "address_to_fr 0 = 0" "u256_to_fr 7 = 7"
    by (simp_all add: into_bigint_inject [symmetric] into_bigint_u256_to_fr into_bigint_numeral
        del: into_bigint_eq_0_iff)
  ultimately show "input_ok zero_fn 0 0 9 leaf_only_input"
    "\<not> breaks_hash zero_fn 0 9 [(0, 7)] leaf_only_input"
    using simps
    by (simp_all add: input_ok_def well_signed_def claims_leaf_def breaks_hash_def)
      (simp_all add: leaf_only_input_def zero_fn_def)
qed

theorem withdraw_total_backed_witness:
  "\<exists>K. K \<subseteq> {..<length [(0 :: address, 7 :: u256)]} \<and> card K = length (filter is_real [leaf_only_input])
    \<and> into_bigint (fr_of_nat 7)
        + sum_list (map amount (filter (\<lambda>e. \<not> is_real e) [leaf_only_input]))
        = (\<Sum>k \<in> K. into_bigint (u256_to_fr (snd ([(0 :: address, 7 :: u256)] ! k))))"
proof -
  have root: "node zero_fn (transfer_leaves zero_fn [(0, 7)]) 0 0 = 0"
    by (simp add: transfer_leaves_def transfer_hash_def zero_fn_def)
  have "ivc (withdraw_nova_step zero_fn 0)
      [node zero_fn (transfer_leaves zero_fn [(0, 7)]) 0 0, 9, 0, 0] [leaf_only_input]
    = Some [0, 9, 1, fr_of_nat 7]"
    unfolding root
    by (subst withdraw_ivc_exact)
      (simp_all add: leaf_only_simps strictly_increasing_def bn254_r_def)
  from withdraw_total_backed [OF _ this] show ?thesis
    by (auto simp: leaf_only_simps)
qed

text \<open>
  \<^bold>\<open>C18\<close>. The single-withdraw circuit accepts exactly the values \<open>v\<close> proved under the root
  for a burn address of the recipient, together with a deduction \<open>delta \<le> v\<close>, and the
  withdrawn value is \<open>v - delta\<close> as numbers: the subtraction cannot wrap.
\<close>

theorem single_withdraw_exact:
  assumes "DEPTH \<le> 252"
  shows "single_withdraw H DEPTH root recipient v delta secret leaf_index ss = Some w
    \<longleftrightarrow> length ss = DEPTH \<and> into_bigint leaf_index < 2 ^ DEPTH
      \<and> into_bigint v < 2 ^ 248 \<and> into_bigint delta \<le> into_bigint v
      \<and> (\<exists>a. compute_burn_address_from_secret H recipient secret = Inr a
           \<and> root = path_root H ss (into_bigint leaf_index) (H a v))
      \<and> into_bigint w = into_bigint v - into_bigint delta"
  by (auto simp: single_withdraw_iff [OF assms] compute_burn_address_eq)

theorem single_withdraw_exact_witness:
  "single_withdraw zero_fn 2 0 9 7 5 1 3 [4, 4] = Some 2"
  by (subst single_withdraw_exact)
    (simp_all add: zero_fn_def path_root_zero_fn compute_burn_address_iff into_bigint_numeral bn254_r_def)

text \<open>
  The Groth16 circuit refuses to synthesise with any missing assignment, and with
  all assignments present it is satisfied exactly when the public withdraw value is
  the one computed by the single-withdraw gadget; its public inputs are then the root,
  the recipient and that value, in this order.
\<close>

lemma single_circuit_public_inputs:
  "single_generate_constraints H DEPTH c = Inr ()
    \<longleftrightarrow> (\<exists>root rcp w v delta secret li ss.
          single_public_inputs c = Inr [root, rcp, w]
          \<and> sw_value c = Some v \<and> sw_delta c = Some delta \<and> sw_secret c = Some secret
          \<and> sw_leaf_index c = Some li \<and> sw_siblings c = map Some ss
          \<and> single_withdraw H DEPTH root rcp v delta secret (fr_of_nat (unat li)) ss = Some w)"
proof -
  have sibs: "res_map (ok_or AssignmentMissing) xs = Inr ys \<longleftrightarrow> xs = map Some ys" for xs and ys :: "fr list"
    by (induction xs arbitrary: ys) (auto simp: res_bind_Inr_iff ok_or_def split: option.splits)
  have w: "(case r of None \<Rightarrow> Inl Unsatisfied | Some c \<Rightarrow> if w = c then Inr () else Inl Unsatisfied) = Inr ()
      \<longleftrightarrow> r = Some w" for r and w :: fr
    by (auto split: option.splits)
  have opt: "ok_or AssignmentMissing x = Inr y \<longleftrightarrow> x = Some y" for x and y :: u64
    by (cases x) auto
  have ofr: "ok_or AssignmentMissing x = Inr y \<longleftrightarrow> x = Some y" for x and y :: fr
    by (cases x) auto
  show ?thesis
    unfolding single_generate_constraints_def single_public_inputs_def res_bind_Inr_iff ofr opt sibs w
    by auto
qed

end
