(* ===== verification/Decider.thy ===== *)
theory Decider
  imports Prelude
begin

text \<open>
  The decider service (\<open>decider-prover/src\<close>): a job queue in Redis (\<open>queue.rs\<close>), the worker
  (\<open>worker.rs\<close>), the engine (\<open>circuits.rs\<close>) and the handlers (\<open>main.rs\<close>), with the wire types
  of \<open>api-types\<close>; and its client \<open>client-common/src/prover/mod.rs\<close>.

  A Rust string is a list of Unicode code points. Redis keeps strings with an expiry time under
  keys, and one list, the queue; a call to Redis can fail, which is an argument (\<open>up\<close>). JSON and
  base64 are parameters, as are the folding scheme and the decider behind the engine.
\<close>

section \<open>Strings\<close>

type_synonym rstring = "nat list"

definition lit :: "string \<Rightarrow> rstring" where
  "lit s = map of_char s"

text \<open>\<open>char::is_whitespace\<close>.\<close>

definition is_whitespace :: "nat \<Rightarrow> bool" where
  "is_whitespace c \<longleftrightarrow> 9 \<le> c \<and> c \<le> 13 \<or> c \<in> set [32, 0x85, 0xA0, 0x1680, 0x2028, 0x2029, 0x202F, 0x205F, 0x3000]
     \<or> 0x2000 \<le> c \<and> c \<le> 0x200A"

definition trim :: "rstring \<Rightarrow> rstring" where
  "trim s = rev (dropWhile is_whitespace (rev (dropWhile is_whitespace s)))"

text \<open>Lengths and slices of strings count bytes; a slice that ends inside a character panics.\<close>

definition utf8_len :: "nat \<Rightarrow> nat" where
  "utf8_len c = (if c < 0x80 then 1 else if c < 0x800 then 2 else if c < 0x10000 then 3 else 4)"

definition byte_len :: "rstring \<Rightarrow> nat" where
  "byte_len s = sum_list (map utf8_len s)"

fun slice_to :: "nat \<Rightarrow> rstring \<Rightarrow> rstring option" where
  "slice_to n [] = (if n = 0 then Some [] else None)"
| "slice_to n (c # cs) =
     (if n = 0 then Some [] else if utf8_len c \<le> n then map_option (Cons c) (slice_to (n - utf8_len c) cs) else None)"

section \<open>Wire types (\<open>api-types\<close>)\<close>

datatype circuit_kind = Root | WithdrawLocal | WithdrawGlobal

definition circuit_name :: "circuit_kind \<Rightarrow> rstring" where
  "circuit_name k = (case k of Root \<Rightarrow> lit ''root'' | WithdrawLocal \<Rightarrow> lit ''withdraw_local'' | WithdrawGlobal \<Rightarrow> lit ''withdraw_global'')"

definition circuit_from_str :: "rstring \<Rightarrow> rstring + circuit_kind" where
  "circuit_from_str v =
     (if v = lit ''root'' then Inr Root
      else if v = lit ''withdraw_local'' then Inr WithdrawLocal
      else if v = lit ''withdraw_global'' then Inr WithdrawGlobal
      else Inl (lit ''unsupported circuit kind '' @ v))"

datatype job_status = Queued | Processing | Completed | Failed

definition status_name :: "job_status \<Rightarrow> rstring" where
  "status_name s = (case s of Queued \<Rightarrow> lit ''queued'' | Processing \<Rightarrow> lit ''processing''
     | Completed \<Rightarrow> lit ''completed'' | Failed \<Rightarrow> lit ''failed'')"

definition status_from_str :: "rstring \<Rightarrow> rstring + job_status" where
  "status_from_str v =
     (if v = lit ''queued'' then Inr Queued
      else if v = lit ''processing'' then Inr Processing
      else if v = lit ''completed'' then Inr Completed
      else if v = lit ''failed'' then Inr Failed
      else Inl (lit ''unsupported job status '' @ v))"

record job_request =
  jr_job_id :: rstring
  jr_circuit :: circuit_kind
  jr_ivc_proof :: rstring

record job_state =
  js_job_id :: rstring
  js_circuit :: circuit_kind
  js_status :: job_status
  js_result :: "rstring option"
  js_error :: "rstring option"

record submit_job_response =
  sr_job_id :: rstring
  sr_status :: job_status
  sr_message :: rstring

section \<open>Parameters and errors\<close>

record job_codec =
  jc_encode_state :: "job_state \<Rightarrow> rstring"
  jc_decode_state :: "rstring \<Rightarrow> job_state option"
  jc_encode_request :: "job_request \<Rightarrow> rstring"
  jc_decode_request :: "rstring \<Rightarrow> job_request option"
  jc_b64_encode :: "bytes \<Rightarrow> rstring"
  jc_b64_decode :: "rstring \<Rightarrow> bytes option"

datatype prover_error =
    PConfig rstring
  | PIo rstring
  | PRedis
  | PSerialization
  | PNova rstring
  | PInvalidInput rstring

text \<open>The display of an error; texts of Redis and of the serialiser are left out, no engine returns them.\<close>

definition error_text :: "prover_error \<Rightarrow> rstring" where
  "error_text e = (case e of
      PConfig m \<Rightarrow> lit ''configuration error: '' @ m
    | PIo m \<Rightarrow> lit ''I/O error: '' @ m
    | PRedis \<Rightarrow> lit ''redis error: ''
    | PSerialization \<Rightarrow> lit ''serialization error: ''
    | PNova m \<Rightarrow> lit ''nova error: '' @ m
    | PInvalidInput m \<Rightarrow> lit ''invalid input: '' @ m)"

section \<open>The engine (\<open>circuits.rs\<close>)\<close>

record ('p, 'n) circuit_context =
  cc_deserialize :: "bytes \<Rightarrow> rstring + 'p"
  cc_verify :: "'p \<Rightarrow> rstring + unit"
  cc_nova_from_ivc :: "'p \<Rightarrow> rstring + 'n"
  cc_decider :: "'n \<Rightarrow> rstring + bytes"

definition map_error :: "('e \<Rightarrow> 'f) \<Rightarrow> 'e + 'a \<Rightarrow> 'f + 'a" where
  "map_error g r = (case r of Inl e \<Rightarrow> Inl (g e) | Inr x \<Rightarrow> Inr x)"

definition engine_produce :: "('p, 'n) circuit_context \<Rightarrow> bytes \<Rightarrow> prover_error + bytes" where
  "engine_produce cc ivc_proof_bytes =
     res_bind (map_error (\<lambda>e. PInvalidInput (lit ''failed to deserialize IVC proof: '' @ e)) (cc_deserialize cc ivc_proof_bytes)) (\<lambda>ivc_proof.
     res_bind (map_error (\<lambda>e. PInvalidInput (lit ''invalid IVC proof: '' @ e)) (cc_verify cc ivc_proof)) (\<lambda>_.
     res_bind (map_error PNova (cc_nova_from_ivc cc ivc_proof)) (\<lambda>nova.
     map_error PNova (cc_decider cc nova))))"

record ('p, 'n) prover_engine =
  pe_root :: "('p, 'n) circuit_context"
  pe_withdraw_local :: "('p, 'n) circuit_context option"
  pe_withdraw_global :: "('p, 'n) circuit_context"

definition generate_decider_proof :: "('p, 'n) prover_engine \<Rightarrow> circuit_kind \<Rightarrow> bytes \<Rightarrow> prover_error + bytes" where
  "generate_decider_proof E k b =
     (case k of
        Root \<Rightarrow> engine_produce (pe_root E) b
      | WithdrawLocal \<Rightarrow>
          (case pe_withdraw_local E of
             None \<Rightarrow> Inl (PInvalidInput (lit ''withdraw_local circuit is disabled in the prover''))
           | Some cc \<Rightarrow> engine_produce cc b)
      | WithdrawGlobal \<Rightarrow> engine_produce (pe_withdraw_global E) b)"

section \<open>Redis\<close>

record redis =
  rs_kv :: "rstring \<rightharpoonup> rstring \<times> nat"
  rs_queue :: "rstring list"

datatype redis_value =
    NilV
  | IntV int
  | DataV "rstring option"
  | BulkV "redis_value list"
  | StatusV rstring

definition redis_get :: "nat \<Rightarrow> redis \<Rightarrow> rstring \<Rightarrow> rstring option" where
  "redis_get now r k = (case rs_kv r k of None \<Rightarrow> None | Some (v, expiry) \<Rightarrow> if now < expiry then Some v else None)"

definition redis_set_ex :: "nat \<Rightarrow> nat \<Rightarrow> rstring \<Rightarrow> rstring \<Rightarrow> redis \<Rightarrow> redis" where
  "redis_set_ex now ttl k v r = r\<lparr>rs_kv := (rs_kv r)(k \<mapsto> (v, now + ttl))\<rparr>"

text \<open>The script \<open>ENQUEUE_JOB_LUA\<close>, which Redis runs atomically.\<close>

definition enqueue_script :: "nat \<Rightarrow> nat \<Rightarrow> rstring \<Rightarrow> rstring \<Rightarrow> rstring \<Rightarrow> redis \<Rightarrow> redis_value \<times> redis" where
  "enqueue_script now ttl key job_state queue_payload r =
     (case redis_get now r key of
        Some v \<Rightarrow> (BulkV [IntV 0, DataV (Some v)], redis_set_ex now ttl key v r)
      | None \<Rightarrow>
          (BulkV [IntV 1, DataV (Some job_state)],
           (redis_set_ex now ttl key job_state r)\<lparr>rs_queue := rs_queue r @ [queue_payload]\<rparr>))"

section \<open>The queue (\<open>queue.rs\<close>)\<close>

definition job_key :: "rstring \<Rightarrow> rstring \<Rightarrow> rstring" where
  "job_key prefix job_id = prefix @ lit '':'' @ job_id"

definition get_job :: "job_codec \<Rightarrow> bool \<Rightarrow> nat \<Rightarrow> rstring \<Rightarrow> rstring \<Rightarrow> redis \<Rightarrow> prover_error + job_state option" where
  "get_job C up now prefix job_id r =
     (if \<not> up then Inl PRedis
      else case redis_get now r (job_key prefix job_id) of
        None \<Rightarrow> Inr None
      | Some data \<Rightarrow> (case jc_decode_state C data of None \<Rightarrow> Inl PSerialization | Some s \<Rightarrow> Inr (Some s)))"

definition save_job :: "job_codec \<Rightarrow> bool \<Rightarrow> nat \<Rightarrow> rstring \<Rightarrow> nat \<Rightarrow> job_state \<Rightarrow> redis \<Rightarrow> (prover_error + unit) \<times> redis" where
  "save_job C up now prefix ttl job r =
     (if \<not> up then (Inl PRedis, r)
      else (Inr (), redis_set_ex now ttl (job_key prefix (js_job_id job)) (jc_encode_state C job) r))"

datatype enqueue_job_result = Enqueued job_state | AlreadyExists job_state

definition parse_enqueue_flag :: "redis_value \<Rightarrow> prover_error + bool" where
  "parse_enqueue_flag v =
     (case v of
        IntV n \<Rightarrow> Inr (n = 1)
      | StatusV s \<Rightarrow> Inr (s = lit ''1'')
      | DataV d \<Rightarrow> (case d of None \<Rightarrow> Inl (PInvalidInput (lit ''invalid enqueue flag'')) | Some s \<Rightarrow> Inr (s = lit ''1''))
      | _ \<Rightarrow> Inl (PInvalidInput (lit ''unexpected enqueue flag type'')))"

definition parse_job_state :: "job_codec \<Rightarrow> redis_value \<Rightarrow> prover_error + job_state" where
  "parse_job_state C v =
     res_bind (case v of
        DataV d \<Rightarrow> (case d of None \<Rightarrow> Inl (PInvalidInput (lit ''invalid job payload'')) | Some s \<Rightarrow> Inr s)
      | StatusV s \<Rightarrow> Inr s
      | _ \<Rightarrow> Inl (PInvalidInput (lit ''unexpected job payload type''))) (\<lambda>json.
     case jc_decode_state C json of None \<Rightarrow> Inl PSerialization | Some s \<Rightarrow> Inr s)"

definition parse_enqueue_response :: "job_codec \<Rightarrow> redis_value \<Rightarrow> prover_error + enqueue_job_result" where
  "parse_enqueue_response C v =
     (case v of
        BulkV items \<Rightarrow>
          (case items of
             [a, b] \<Rightarrow>
               res_bind (parse_enqueue_flag a) (\<lambda>inserted.
               res_bind (parse_job_state C b) (\<lambda>state.
               Inr (if inserted then Enqueued state else AlreadyExists state)))
           | _ \<Rightarrow> Inl (PInvalidInput (lit ''unexpected enqueue response length'')))
      | _ \<Rightarrow> Inl (PInvalidInput (lit ''unexpected enqueue response'')))"

definition enqueue_job ::
  "job_codec \<Rightarrow> bool \<Rightarrow> nat \<Rightarrow> rstring \<Rightarrow> nat \<Rightarrow> job_request \<Rightarrow> redis \<Rightarrow> (prover_error + enqueue_job_result) \<times> redis" where
  "enqueue_job C up now prefix ttl request r =
     (let state = \<lparr>js_job_id = jr_job_id request, js_circuit = jr_circuit request, js_status = Queued,
            js_result = None, js_error = None\<rparr> in
      if \<not> up then (Inl PRedis, r)
      else
        let (v, r') = enqueue_script now ttl (job_key prefix (js_job_id state)) (jc_encode_state C state)
              (jc_encode_request C request) r
        in (parse_enqueue_response C v, r'))"

text \<open>\<open>BLPOP\<close> waits while the queue is empty, here \<open>None\<close>.\<close>

definition wait_for_job :: "job_codec \<Rightarrow> bool \<Rightarrow> redis \<Rightarrow> ((prover_error + job_request) \<times> redis) option" where
  "wait_for_job C up r =
     (if \<not> up then Some (Inl PRedis, r)
      else case rs_queue r of
        [] \<Rightarrow> None
      | payload # rest \<Rightarrow>
          Some (case jc_decode_request C payload of None \<Rightarrow> Inl PSerialization | Some job \<Rightarrow> Inr job, r\<lparr>rs_queue := rest\<rparr>))"

text \<open>Two calls to Redis: the state is read and changed, and then written.\<close>

definition load_update ::
  "job_codec \<Rightarrow> bool \<Rightarrow> nat \<Rightarrow> rstring \<Rightarrow> rstring \<Rightarrow> job_status \<Rightarrow> rstring option \<Rightarrow> rstring option \<Rightarrow> redis \<Rightarrow> prover_error + job_state" where
  "load_update C up now prefix job_id status result error r =
     (case get_job C up now prefix job_id r of
        Inl e \<Rightarrow> Inl e
      | Inr None \<Rightarrow> Inl (PInvalidInput (lit ''job '' @ job_id @ lit '' not found''))
      | Inr (Some job) \<Rightarrow> Inr (job\<lparr>js_status := status, js_result := result, js_error := error\<rparr>))"

definition update_status ::
  "job_codec \<Rightarrow> bool \<times> bool \<Rightarrow> nat \<Rightarrow> rstring \<Rightarrow> nat \<Rightarrow> rstring \<Rightarrow> job_status \<Rightarrow> rstring option \<Rightarrow> rstring option \<Rightarrow> redis
     \<Rightarrow> (prover_error + job_state) \<times> redis" where
  "update_status C up now prefix ttl job_id status result error r =
     (case load_update C (fst up) now prefix job_id status result error r of
        Inl e \<Rightarrow> (Inl e, r)
      | Inr job \<Rightarrow>
          (case save_job C (snd up) now prefix ttl job r of
             (Inl e, r') \<Rightarrow> (Inl e, r')
           | (Inr _, r') \<Rightarrow> (Inr job, r')))"

section \<open>The worker (\<open>worker.rs\<close>)\<close>

definition decode_base64 :: "job_codec \<Rightarrow> rstring \<Rightarrow> prover_error + bytes" where
  "decode_base64 C input =
     (if trim input = [] then Inl (PInvalidInput (lit ''ivc_proof payload is empty''))
      else case jc_b64_decode C (trim input) of
        None \<Rightarrow> Inl (PInvalidInput (lit ''ivc_proof must be valid base64''))
      | Some b \<Rightarrow> Inr b)"

definition MAX_ERROR_LEN :: nat where "MAX_ERROR_LEN = 512"

definition truncate_error :: "rstring \<Rightarrow> rstring option" where
  "truncate_error message =
     (if byte_len message \<le> MAX_ERROR_LEN then Some message
      else map_option (\<lambda>s. s @ lit ''...'') (slice_to MAX_ERROR_LEN message))"

record decider_config =
  dg_job_prefix :: rstring
  dg_ttl :: nat
  dg_enable_withdraw_local :: bool

definition worker_start ::
  "decider_config \<Rightarrow> job_codec \<Rightarrow> bool \<times> bool \<Rightarrow> nat \<Rightarrow> job_request \<Rightarrow> redis \<Rightarrow> (prover_error + job_state) \<times> redis" where
  "worker_start cfg C up now job r =
     update_status C up now (dg_job_prefix cfg) (dg_ttl cfg) (jr_job_id job) Processing None None r"

text \<open>What the worker makes of a job, before it stores it; \<open>None\<close>: the task panics.\<close>

definition worker_outcome ::
  "job_codec \<Rightarrow> ('p, 'n) prover_engine \<Rightarrow> job_request \<Rightarrow> (prover_error + job_status \<times> rstring option \<times> rstring option) option" where
  "worker_outcome C E job =
     (case decode_base64 C (jr_ivc_proof job) of
        Inl e \<Rightarrow> Some (Inl e)
      | Inr proof_bytes \<Rightarrow>
          (case generate_decider_proof E (jr_circuit job) proof_bytes of
             Inr proof \<Rightarrow> Some (Inr (Completed, Some (jc_b64_encode C proof), None))
           | Inl err \<Rightarrow> map_option (\<lambda>m. Inr (Failed, None, Some m)) (truncate_error (error_text err))))"

definition worker_finish ::
  "decider_config \<Rightarrow> job_codec \<Rightarrow> ('p, 'n) prover_engine \<Rightarrow> bool \<times> bool \<Rightarrow> nat \<Rightarrow> job_request \<Rightarrow> redis
     \<Rightarrow> ((prover_error + unit) \<times> redis) option" where
  "worker_finish cfg C E up now job r =
     map_option (\<lambda>outcome.
       case outcome of
         Inl e \<Rightarrow> (Inl e, r)
       | Inr (status, result, error) \<Rightarrow>
           (case update_status C up now (dg_job_prefix cfg) (dg_ttl cfg) (jr_job_id job) status result error r of
              (Inl e, r') \<Rightarrow> (Inl e, r') | (Inr _, r') \<Rightarrow> (Inr (), r')))
       (worker_outcome C E job)"

text \<open>One round, while nobody else uses Redis: \<open>None\<close> if it waits or panics.\<close>

definition process_once ::
  "decider_config \<Rightarrow> job_codec \<Rightarrow> ('p, 'n) prover_engine \<Rightarrow> (nat \<Rightarrow> bool \<times> bool) \<Rightarrow> nat \<times> nat \<Rightarrow> redis
     \<Rightarrow> ((prover_error + unit) \<times> redis) option" where
  "process_once cfg C E up clock r =
     (case wait_for_job C (fst (up 0)) r of
        None \<Rightarrow> None
      | Some (Inl e, r1) \<Rightarrow> Some (Inl e, r1)
      | Some (Inr job, r1) \<Rightarrow>
          (case worker_start cfg C (up 1) (fst clock) job r1 of
             (Inl e, r2) \<Rightarrow> Some (Inl e, r2)
           | (Inr _, r2) \<Rightarrow> worker_finish cfg C E (up 2) (snd clock) job r2))"

section \<open>The handlers (\<open>main.rs\<close>)\<close>

datatype decider_http_error = BadRequest rstring | NotFound rstring | InternalServerError rstring

definition map_internal_error :: "prover_error \<Rightarrow> decider_http_error" where
  "map_internal_error e = (case e of PInvalidInput m \<Rightarrow> BadRequest m | _ \<Rightarrow> InternalServerError (lit ''internal server error''))"

definition ensure_base64_payload :: "job_codec \<Rightarrow> rstring \<Rightarrow> decider_http_error + unit" where
  "ensure_base64_payload C v =
     (if trim v = [] then Inl (BadRequest (lit ''ivc_proof payload is empty''))
      else case jc_b64_decode C (trim v) of
        None \<Rightarrow> Inl (BadRequest (lit ''ivc_proof must be valid base64''))
      | Some _ \<Rightarrow> Inr ())"

definition validate_job_request :: "job_codec \<Rightarrow> bool \<Rightarrow> job_request \<Rightarrow> decider_http_error + unit" where
  "validate_job_request C enable_withdraw_local request =
     (if trim (jr_job_id request) = [] then Inl (BadRequest (lit ''job_id must not be empty''))
      else if jr_circuit request = WithdrawLocal \<and> \<not> enable_withdraw_local
        then Inl (BadRequest (lit ''withdraw_local circuit is disabled in this prover''))
      else ensure_base64_payload C (jr_ivc_proof request))"

datatype submit_response = Accepted submit_job_response | Existing submit_job_response

definition submit_job ::
  "decider_config \<Rightarrow> job_codec \<Rightarrow> bool \<Rightarrow> nat \<Rightarrow> job_request \<Rightarrow> redis \<Rightarrow> (decider_http_error + submit_response) \<times> redis" where
  "submit_job cfg C up now request r =
     (case validate_job_request C (dg_enable_withdraw_local cfg) request of
        Inl e \<Rightarrow> (Inl e, r)
      | Inr _ \<Rightarrow>
          (case enqueue_job C up now (dg_job_prefix cfg) (dg_ttl cfg) request r of
             (Inl e, r') \<Rightarrow> (Inl (map_internal_error e), r')
           | (Inr (Enqueued s), r') \<Rightarrow>
               (Inr (Accepted \<lparr>sr_job_id = js_job_id s, sr_status = js_status s, sr_message = lit ''job queued''\<rparr>), r')
           | (Inr (AlreadyExists s), r') \<Rightarrow>
               (Inr (Existing \<lparr>sr_job_id = js_job_id s, sr_status = js_status s,
                  sr_message = lit ''job '' @ js_job_id s @ lit '' already exists with status '' @ status_name (js_status s)\<rparr>), r')))"

definition get_job_status ::
  "decider_config \<Rightarrow> job_codec \<Rightarrow> bool \<Rightarrow> nat \<Rightarrow> rstring \<Rightarrow> redis \<Rightarrow> decider_http_error + job_state" where
  "get_job_status cfg C up now job_id r =
     (case get_job C up now (dg_job_prefix cfg) job_id r of
        Inr (Some s) \<Rightarrow> Inr s
      | Inr None \<Rightarrow> Inl (NotFound (lit ''job '' @ job_id @ lit '' not found''))
      | Inl e \<Rightarrow> Inl (map_internal_error e))"

section \<open>The client (\<open>client-common/src/prover/mod.rs\<close>)\<close>

datatype decider_error =
    SubmitJobError
  | StatusRequestError
  | MissingResult rstring
  | InvalidResultPayload
  | EmptyPayload
  | JobFailed circuit_kind rstring rstring
  | Timeout rstring

definition decode_base64_payload :: "job_codec \<Rightarrow> rstring \<Rightarrow> decider_error + bytes" where
  "decode_base64_payload C v =
     (if trim v = [] then Inl EmptyPayload
      else case jc_b64_decode C (trim v) of None \<Rightarrow> Inl InvalidResultPayload | Some b \<Rightarrow> Inr b)"

text \<open>The loop over the answers of the status endpoint, each with the time elapsed; \<open>None\<close> while it goes on.\<close>

fun poll_loop ::
  "job_codec \<Rightarrow> nat \<Rightarrow> circuit_kind \<Rightarrow> rstring \<Rightarrow> (nat \<times> (decider_http_error + job_state)) list \<Rightarrow> (decider_error + bytes) option" where
  "poll_loop C timeout circuit job_id [] = None"
| "poll_loop C timeout circuit job_id ((elapsed, answer) # polls) =
     (if timeout < elapsed then Some (Inl (Timeout job_id))
      else case answer of
        Inl _ \<Rightarrow> Some (Inl StatusRequestError)
      | Inr status \<Rightarrow>
          (case js_status status of
             Completed \<Rightarrow>
               Some (case js_result status of None \<Rightarrow> Inl (MissingResult job_id) | Some result \<Rightarrow> decode_base64_payload C result)
           | Failed \<Rightarrow>
               Some (Inl (JobFailed circuit job_id (case js_error status of None \<Rightarrow> lit ''unknown error'' | Some e \<Rightarrow> e)))
           | _ \<Rightarrow> poll_loop C timeout circuit job_id polls))"

definition client_request :: "job_codec \<Rightarrow> rstring \<Rightarrow> circuit_kind \<Rightarrow> bytes \<Rightarrow> job_request" where
  "client_request C job_id circuit ivc_proof =
     \<lparr>jr_job_id = job_id, jr_circuit = circuit, jr_ivc_proof = jc_b64_encode C ivc_proof\<rparr>"

definition produce_decider_proof ::
  "job_codec \<Rightarrow> nat \<Rightarrow> rstring \<Rightarrow> circuit_kind \<Rightarrow> bytes \<Rightarrow> (job_request \<Rightarrow> decider_http_error + submit_response)
     \<Rightarrow> (nat \<times> (decider_http_error + job_state)) list \<Rightarrow> (decider_error + bytes) option" where
  "produce_decider_proof C timeout job_id circuit ivc_proof submit polls =
     (case submit (client_request C job_id circuit ivc_proof) of
        Inl _ \<Rightarrow> Some (Inl SubmitJobError)
      | Inr _ \<Rightarrow> poll_loop C timeout circuit job_id polls)"

end
