(* ===== verification/Decider_Props.thy ===== *)
theory Decider_Props
  imports Decider
begin

text \<open>
  The decider service as a system of handlers and workers over one Redis, with failing calls,
  expiry and crashes: whatever a client is told is genuine, and a worker that is left alone
  resolves every queued job.
\<close>

section \<open>The parameters\<close>

text \<open>JSON and base64 decode what they encode; the base64 alphabet has no white space.\<close>

definition codec_ok :: "job_codec \<Rightarrow> bool" where
  "codec_ok C \<longleftrightarrow> (\<forall>s. jc_decode_state C (jc_encode_state C s) = Some s)
     \<and> (\<forall>q. jc_decode_request C (jc_encode_request C q) = Some q)
     \<and> (\<forall>b. trim (jc_b64_encode C b) = jc_b64_encode C b \<and> jc_b64_decode C (jc_b64_encode C b) = Some b)"

lemma codec_okD:
  assumes "codec_ok C"
  shows "jc_decode_state C (jc_encode_state C s) = Some s" "jc_decode_request C (jc_encode_request C q) = Some q"
    "trim (jc_b64_encode C b) = jc_b64_encode C b" "jc_b64_decode C (jc_b64_encode C b) = Some b"
  using assms by (simp_all add: codec_ok_def)

section \<open>Redis\<close>

lemma job_key_inject [simp]: "job_key p a = job_key p b \<longleftrightarrow> a = b"
  by (simp add: job_key_def)

lemma redis_set_ex_simps [simp]:
  "rs_kv (redis_set_ex now ttl k v r) = (rs_kv r)(k \<mapsto> (v, now + ttl))" "rs_queue (redis_set_ex now ttl k v r) = rs_queue r"
  by (simp_all add: redis_set_ex_def)

lemma redis_get_set [simp]:
  "redis_get t (redis_set_ex now ttl k v r) k' = (if k' = k then if t < now + ttl then Some v else None else redis_get t r k')"
  by (simp add: redis_get_def)

lemma redis_get_queue [simp]: "redis_get t (r\<lparr>rs_queue := q\<rparr>) k = redis_get t r k"
  by (simp add: redis_get_def)

lemma redis_get_Some: "redis_get t r k = Some v \<Longrightarrow> \<exists>e. rs_kv r k = Some (v, e) \<and> t < e"
  by (auto simp: redis_get_def split: option.splits if_splits)

section \<open>The system\<close>

text \<open>
  A worker between its calls to Redis: \<open>Marking\<close> and \<open>Storing\<close> carry the state it has read and
  changed and is about to write, for the start and for the end of a job.
\<close>

datatype worker_phase =
    Waiting
  | Popped job_request
  | Marking job_request job_state
  | Started job_request
  | Storing job_request job_state
  | Dead

text \<open>\<open>ds_accepted\<close>: every request that was put on the queue.\<close>

record decider_sys =
  ds_redis :: redis
  ds_now :: nat
  ds_workers :: "nat \<Rightarrow> worker_phase"
  ds_accepted :: "job_request list"

definition set_worker :: "nat \<Rightarrow> worker_phase \<Rightarrow> redis \<Rightarrow> decider_sys \<Rightarrow> decider_sys" where
  "set_worker w ph r s = s\<lparr>ds_redis := r, ds_workers := (ds_workers s)(w := ph)\<rparr>"

lemma set_worker_simps [simp]:
  "ds_redis (set_worker w ph r s) = r" "ds_now (set_worker w ph r s) = ds_now s" "ds_accepted (set_worker w ph r s) = ds_accepted s"
  "ds_workers (set_worker w ph r s) w' = (if w' = w then ph else ds_workers s w')"
  by (simp_all add: set_worker_def)

inductive decider_step ::
  "decider_config \<Rightarrow> job_codec \<Rightarrow> ('p, 'n) prover_engine \<Rightarrow> decider_sys \<Rightarrow> decider_sys \<Rightarrow> bool"
  for cfg C E where
  Tick: "decider_step cfg C E s (s\<lparr>ds_now := ds_now s + d\<rparr>)"
| Submit: "submit_job cfg C up (ds_now s) q (ds_redis s) = (a, r) \<Longrightarrow>
    decider_step cfg C E s (s\<lparr>ds_redis := r,
      ds_accepted := ds_accepted s @ (case a of Inr (Accepted _) \<Rightarrow> [q] | _ \<Rightarrow> [])\<rparr>)"
| Pop: "ds_workers s w = Waiting \<Longrightarrow> wait_for_job C up (ds_redis s) = Some (a, r) \<Longrightarrow>
    decider_step cfg C E s (set_worker w (case a of Inl _ \<Rightarrow> Waiting | Inr q \<Rightarrow> Popped q) r s)"
| StartRead: "ds_workers s w = Popped q \<Longrightarrow>
    load_update C up (ds_now s) (dg_job_prefix cfg) (jr_job_id q) Processing None None (ds_redis s) = b \<Longrightarrow>
    decider_step cfg C E s (set_worker w (case b of Inl _ \<Rightarrow> Waiting | Inr st \<Rightarrow> Marking q st) (ds_redis s) s)"
| StartSave: "ds_workers s w = Marking q st \<Longrightarrow>
    save_job C up (ds_now s) (dg_job_prefix cfg) (dg_ttl cfg) st (ds_redis s) = (c, r) \<Longrightarrow>
    decider_step cfg C E s (set_worker w (case c of Inl _ \<Rightarrow> Waiting | Inr _ \<Rightarrow> Started q) r s)"
| FinishRead: "ds_workers s w = Started q \<Longrightarrow> worker_outcome C E q = Some (Inr (status, result, error)) \<Longrightarrow>
    load_update C up (ds_now s) (dg_job_prefix cfg) (jr_job_id q) status result error (ds_redis s) = b \<Longrightarrow>
    decider_step cfg C E s (set_worker w (case b of Inl _ \<Rightarrow> Waiting | Inr st \<Rightarrow> Storing q st) (ds_redis s) s)"
| FinishSave: "ds_workers s w = Storing q st \<Longrightarrow>
    save_job C up (ds_now s) (dg_job_prefix cfg) (dg_ttl cfg) st (ds_redis s) = (c, r) \<Longrightarrow>
    decider_step cfg C E s (set_worker w Waiting r s)"
| FinishError: "ds_workers s w = Started q \<Longrightarrow> worker_outcome C E q = Some (Inl e) \<Longrightarrow>
    decider_step cfg C E s (set_worker w Waiting (ds_redis s) s)"
| Panic: "ds_workers s w = Started q \<Longrightarrow> worker_outcome C E q = None \<Longrightarrow>
    decider_step cfg C E s (set_worker w Dead (ds_redis s) s)"
| Restart: "decider_step cfg C E s (set_worker w Waiting (ds_redis s) s)"

definition empty_decider :: decider_sys where
  "empty_decider = \<lparr>ds_redis = \<lparr>rs_kv = Map.empty, rs_queue = []\<rparr>, ds_now = 0, ds_workers = (\<lambda>_. Waiting), ds_accepted = []\<rparr>"

definition decider_reach :: "decider_config \<Rightarrow> job_codec \<Rightarrow> ('p, 'n) prover_engine \<Rightarrow> decider_sys \<Rightarrow> bool" where
  "decider_reach cfg C E s \<longleftrightarrow> (decider_step cfg C E)\<^sup>*\<^sup>* empty_decider s"

section \<open>The invariant\<close>

text \<open>A job state is genuine: its outcome is that of the engine on an accepted request with its identifier.\<close>

definition outcome_of :: "job_codec \<Rightarrow> ('p, 'n) prover_engine \<Rightarrow> job_request \<Rightarrow> job_state \<Rightarrow> bool" where
  "outcome_of C E q st \<longleftrightarrow> jr_job_id q = js_job_id st
     \<and> (\<exists>b. decode_base64 C (jr_ivc_proof q) = Inr b
         \<and> (case generate_decider_proof E (jr_circuit q) b of
              Inr proof \<Rightarrow> js_status st = Completed \<and> js_result st = Some (jc_b64_encode C proof) \<and> js_error st = None
            | Inl e \<Rightarrow> js_status st = Failed \<and> js_result st = None \<and> js_error st = truncate_error (error_text e)
                \<and> truncate_error (error_text e) \<noteq> None))"

definition genuine :: "job_codec \<Rightarrow> ('p, 'n) prover_engine \<Rightarrow> job_request list \<Rightarrow> job_state \<Rightarrow> bool" where
  "genuine C E acc st \<longleftrightarrow>
     (\<exists>q \<in> set acc. jr_job_id q = js_job_id st \<and> jr_circuit q = js_circuit st)
     \<and> (js_status st \<in> {Queued, Processing} \<and> js_result st = None \<and> js_error st = None \<or> (\<exists>q \<in> set acc. outcome_of C E q st))"

definition redis_inv :: "decider_config \<Rightarrow> job_codec \<Rightarrow> ('p, 'n) prover_engine \<Rightarrow> job_request list \<Rightarrow> redis \<Rightarrow> bool" where
  "redis_inv cfg C E acc r \<longleftrightarrow> (\<forall>p \<in> set (rs_queue r). \<exists>q \<in> set acc. p = jc_encode_request C q)
     \<and> (\<forall>k v e. rs_kv r k = Some (v, e) \<longrightarrow>
          (\<exists>st. v = jc_encode_state C st \<and> k = job_key (dg_job_prefix cfg) (js_job_id st) \<and> genuine C E acc st))"

definition decider_inv :: "decider_config \<Rightarrow> job_codec \<Rightarrow> ('p, 'n) prover_engine \<Rightarrow> decider_sys \<Rightarrow> bool" where
  "decider_inv cfg C E s \<longleftrightarrow> redis_inv cfg C E (ds_accepted s) (ds_redis s)
     \<and> (\<forall>w q. ds_workers s w \<in> {Popped q, Started q} \<longrightarrow> q \<in> set (ds_accepted s))
     \<and> (\<forall>w q st. ds_workers s w \<in> {Marking q st, Storing q st} \<longrightarrow> q \<in> set (ds_accepted s) \<and> genuine C E (ds_accepted s) st)
     \<and> (\<forall>q \<in> set (ds_accepted s). \<exists>b. decode_base64 C (jr_ivc_proof q) = Inr b)"

lemma genuine_mono: "genuine C E acc st \<Longrightarrow> set acc \<subseteq> set acc' \<Longrightarrow> genuine C E acc' st"
  unfolding genuine_def by blast

lemma redis_inv_mono: "redis_inv cfg C E acc r \<Longrightarrow> set acc \<subseteq> set acc' \<Longrightarrow> redis_inv cfg C E acc' r"
  unfolding redis_inv_def using genuine_mono by (meson subsetD)

lemma redis_inv_set:
  assumes "redis_inv cfg C E acc r" "genuine C E acc st"
  shows "redis_inv cfg C E acc (redis_set_ex now ttl (job_key (dg_job_prefix cfg) (js_job_id st)) (jc_encode_state C st) r)"
  using assms by (auto simp: redis_inv_def)

lemma redis_inv_push:
  assumes "redis_inv cfg C E acc r" "q \<in> set acc"
  shows "redis_inv cfg C E acc (r\<lparr>rs_queue := rs_queue r @ [jc_encode_request C q]\<rparr>)"
  using assms by (auto simp: redis_inv_def)

lemma get_job_genuine:
  assumes C: "codec_ok C" and inv: "redis_inv cfg C E acc r" and "get_job C up now (dg_job_prefix cfg) jid r = Inr (Some st)"
  shows "js_job_id st = jid \<and> genuine C E acc st
    \<and> redis_get now r (job_key (dg_job_prefix cfg) jid) = Some (jc_encode_state C st)"
proof -
  obtain v where v: "redis_get now r (job_key (dg_job_prefix cfg) jid) = Some v" "jc_decode_state C v = Some st"
    using assms(3) by (auto simp: get_job_def split: if_splits option.splits)
  then obtain st' where "v = jc_encode_state C st'" "job_key (dg_job_prefix cfg) jid = job_key (dg_job_prefix cfg) (js_job_id st')"
      "genuine C E acc st'"
    using inv redis_get_Some [OF v(1)] unfolding redis_inv_def by blast
  then show ?thesis
    using v codec_okD(1) [OF C, of st'] by simp
qed

lemma load_update_genuine:
  assumes C: "codec_ok C" and inv: "redis_inv cfg C E acc r"
    and load: "load_update C up now (dg_job_prefix cfg) jid status result error r = Inr st'"
    and ok: "\<And>st. genuine C E acc st \<Longrightarrow> js_job_id st = jid \<Longrightarrow>
      genuine C E acc (st\<lparr>js_status := status, js_result := result, js_error := error\<rparr>)"
  shows "genuine C E acc st'"
proof -
  obtain st where "get_job C up now (dg_job_prefix cfg) jid r = Inr (Some st)"
    "st' = st\<lparr>js_status := status, js_result := result, js_error := error\<rparr>"
    using load by (auto simp: load_update_def split: sum.splits option.splits)
  then show ?thesis
    using get_job_genuine [OF C inv] ok by blast
qed

lemma save_job_inv:
  assumes "redis_inv cfg C E acc r" "genuine C E acc st" "save_job C up now (dg_job_prefix cfg) ttl st r = (c, r')"
  shows "redis_inv cfg C E acc r'"
  using assms redis_inv_set by (auto simp: save_job_def split: if_splits)

text \<open>A new state of a job in progress, and one that carries the outcome of a request, are genuine.\<close>

lemma genuine_processing:
  "genuine C E acc st \<Longrightarrow> genuine C E acc (st\<lparr>js_status := Processing, js_result := None, js_error := None\<rparr>)"
  by (simp add: genuine_def)

lemma worker_outcome_of:
  assumes "worker_outcome C E q = Some (Inr (status, result, error))" "js_job_id st = jr_job_id q"
  shows "outcome_of C E q (st\<lparr>js_status := status, js_result := result, js_error := error\<rparr>)"
proof -
  obtain b where b: "decode_base64 C (jr_ivc_proof q) = Inr b"
    using assms(1) by (auto simp: worker_outcome_def split: sum.splits)
  show ?thesis
    using assms b by (cases "generate_decider_proof E (jr_circuit q) b") (auto simp: outcome_of_def worker_outcome_def)
qed

lemma genuine_outcome:
  assumes "worker_outcome C E q = Some (Inr (status, result, error))" "q \<in> set acc" "genuine C E acc st" "js_job_id st = jr_job_id q"
  shows "genuine C E acc (st\<lparr>js_status := status, js_result := result, js_error := error\<rparr>)"
  using worker_outcome_of [OF assms(1,4)] assms(2,3) by (auto simp: genuine_def)

lemma update_status_inv:
  assumes C: "codec_ok C" and inv: "redis_inv cfg C E acc r"
    and ok: "\<And>st. genuine C E acc st \<Longrightarrow> js_job_id st = jid \<Longrightarrow>
      genuine C E acc (st\<lparr>js_status := status, js_result := result, js_error := error\<rparr>)"
  shows "redis_inv cfg C E acc (snd (update_status C up now (dg_job_prefix cfg) ttl jid status result error r))"
proof (cases "load_update C (fst up) now (dg_job_prefix cfg) jid status result error r")
  case (Inr st)
  then show ?thesis
    using save_job_inv [OF inv load_update_genuine [OF C inv Inr ok] prod.collapse [symmetric], of "snd up" now ttl]
    by (auto simp: update_status_def split: prod.splits sum.splits)
qed (use inv in \<open>simp add: update_status_def\<close>)

lemma submit_inv:
  assumes C: "codec_ok C" and inv: "redis_inv cfg C E acc r" and s: "submit_job cfg C up now q r = (a, r')"
  shows "redis_inv cfg C E (acc @ (case a of Inr (Accepted _) \<Rightarrow> [q] | _ \<Rightarrow> [])) r'"
proof (cases "up \<and> validate_job_request C (dg_enable_withdraw_local cfg) q = Inr ()")
  case True
  let ?st = "\<lparr>js_job_id = jr_job_id q, js_circuit = jr_circuit q, js_status = Queued, js_result = None, js_error = None\<rparr>"
  let ?k = "job_key (dg_job_prefix cfg) (jr_job_id q)"
  show ?thesis
  proof (cases "redis_get now r ?k")
    case None
    then have r': "r' = (redis_set_ex now (dg_ttl cfg) ?k (jc_encode_state C ?st) r)\<lparr>rs_queue := rs_queue r @ [jc_encode_request C q]\<rparr>"
        "\<exists>x. a = Inr (Accepted x)"
      using s True codec_okD(1) [OF C]
      by (auto simp: submit_job_def enqueue_job_def enqueue_script_def parse_enqueue_response_def parse_enqueue_flag_def
          parse_job_state_def Let_def)
    have "genuine C E (acc @ [q]) ?st"
      by (simp add: genuine_def)
    then have "redis_inv cfg C E (acc @ [q]) (redis_set_ex now (dg_ttl cfg) ?k (jc_encode_state C ?st) r)"
      using redis_inv_set [OF redis_inv_mono [OF inv], of "acc @ [q]" ?st] by auto
    then show ?thesis
      using r' redis_inv_push [of cfg C E "acc @ [q]" _ q] by fastforce
  next
    case (Some v)
    then obtain st where st: "v = jc_encode_state C st" "?k = job_key (dg_job_prefix cfg) (js_job_id st)" "genuine C E acc st"
      using inv redis_get_Some unfolding redis_inv_def by blast
    then have "r' = redis_set_ex now (dg_ttl cfg) ?k v r" "\<exists>x. a = Inr (Existing x)"
      using s True codec_okD(1) [OF C] Some
      by (auto simp: submit_job_def enqueue_job_def enqueue_script_def parse_enqueue_response_def parse_enqueue_flag_def
          parse_job_state_def Let_def)
    then show ?thesis
      using redis_inv_set [OF inv st(3)] st(1,2) by auto
  qed
next
  case False
  then have "r' = r" "\<forall>x. a \<noteq> Inr x"
    using s by (auto simp: submit_job_def enqueue_job_def Let_def split: sum.splits)
  then show ?thesis
    using inv by (cases a) auto
qed

lemma accepted_decodes:
  assumes "submit_job cfg C up now q r = (Inr x, r')"
  shows "\<exists>b. decode_base64 C (jr_ivc_proof q) = Inr b"
proof -
  have "validate_job_request C (dg_enable_withdraw_local cfg) q = Inr ()"
    using assms by (auto simp: submit_job_def split: sum.splits)
  then show ?thesis
    by (auto simp: validate_job_request_def ensure_base64_payload_def decode_base64_def split: if_splits option.splits)
qed

lemma wait_inv:
  assumes C: "codec_ok C" and inv: "redis_inv cfg C E acc r" and "wait_for_job C up r = Some (a, r')"
  shows "redis_inv cfg C E acc r'" "\<forall>q. a = Inr q \<longrightarrow> q \<in> set acc"
  using assms codec_okD(2) [OF C]
  by (auto simp: wait_for_job_def redis_inv_def split: if_splits list.splits option.splits)

lemma start_inv:
  assumes "codec_ok C" "redis_inv cfg C E acc r"
  shows "redis_inv cfg C E acc (snd (worker_start cfg C up now q r))"
  unfolding worker_start_def by (rule update_status_inv [OF assms genuine_processing])

lemma finish_inv:
  assumes C: "codec_ok C" and inv: "redis_inv cfg C E acc r" and q: "q \<in> set acc"
    and f: "worker_finish cfg C E up now q r = Some (a, r')"
  shows "redis_inv cfg C E acc r'"
proof -
  obtain outcome where o: "worker_outcome C E q = Some outcome"
    using f by (auto simp: worker_finish_def)
  show ?thesis
  proof (cases outcome)
    case (Inr p)
    obtain status result error where p: "p = (status, result, error)"
      by (cases p)
    have "redis_inv cfg C E acc (snd (update_status C up now (dg_job_prefix cfg) (dg_ttl cfg) (jr_job_id q) status result error r))"
      using o Inr p q by (intro update_status_inv [OF C inv] genuine_outcome) auto
    moreover have "r' = snd (update_status C up now (dg_job_prefix cfg) (dg_ttl cfg) (jr_job_id q) status result error r)"
      using f o Inr p by (auto simp: worker_finish_def split: prod.splits sum.splits)
    ultimately show ?thesis
      by simp
  qed (use f o inv in \<open>simp add: worker_finish_def\<close>)
qed

lemma set_worker_inv:
  assumes "decider_inv cfg C E s" "redis_inv cfg C E (ds_accepted s) r" "\<And>q. ph \<in> {Popped q, Started q} \<Longrightarrow> q \<in> set (ds_accepted s)"
    and "\<And>q st. ph \<in> {Marking q st, Storing q st} \<Longrightarrow> q \<in> set (ds_accepted s) \<and> genuine C E (ds_accepted s) st"
  shows "decider_inv cfg C E (set_worker w ph r s)"
  using assms by (auto simp: decider_inv_def set_worker_def)

lemma decider_inv_step:
  assumes C: "codec_ok C" and step: "decider_step cfg C E s s'" and inv: "decider_inv cfg C E s"
  shows "decider_inv cfg C E s'"
proof -
  have r: "redis_inv cfg C E (ds_accepted s) (ds_redis s)"
    and w: "\<And>w q. ds_workers s w \<in> {Popped q, Started q} \<Longrightarrow> q \<in> set (ds_accepted s)"
    and st: "\<And>w q st. ds_workers s w \<in> {Marking q st, Storing q st} \<Longrightarrow> q \<in> set (ds_accepted s) \<and> genuine C E (ds_accepted s) st"
    using inv unfolding decider_inv_def by blast+
  show ?thesis
    using step
  proof cases
    case (Submit up q a r')
    have mono: "genuine C E (ds_accepted s @ [q]) st" if "genuine C E (ds_accepted s) st" for st
      by (rule genuine_mono [OF that]) auto
    show ?thesis
      using Submit submit_inv [OF C r Submit(2)] inv accepted_decodes [of cfg C up "ds_now s" q "ds_redis s"]
      by (auto simp: decider_inv_def intro: mono split: sum.splits submit_response.splits)
  next
    case (Pop w' up a r')
    show ?thesis
      unfolding Pop(1) using wait_inv [OF C r Pop(3)] by (intro set_worker_inv [OF inv]) (auto split: sum.splits)
  next
    case (StartRead w' q up b)
    have "genuine C E (ds_accepted s) st'" if "b = Inr st'" for st'
      using load_update_genuine [OF C r StartRead(3) [unfolded that] genuine_processing] .
    then show ?thesis
      unfolding StartRead(1) using r w [of w' q] StartRead(2) by (intro set_worker_inv [OF inv]) (auto split: sum.splits)
  next
    case (StartSave w' q st' up c r')
    show ?thesis
      unfolding StartSave(1) using save_job_inv [OF r _ StartSave(3)] st [of w' q st'] StartSave(2)
      by (intro set_worker_inv [OF inv]) (auto split: sum.splits)
  next
    case (FinishRead w' q status result error up b)
    have q: "q \<in> set (ds_accepted s)"
      using w [of w' q] FinishRead(2) by simp
    have "genuine C E (ds_accepted s) st'" if "b = Inr st'" for st'
      using load_update_genuine [OF C r FinishRead(4) [unfolded that] genuine_outcome [OF FinishRead(3) q]] .
    then show ?thesis
      unfolding FinishRead(1) using r q by (intro set_worker_inv [OF inv]) (auto split: sum.splits)
  next
    case (FinishSave w' q st' up c r')
    show ?thesis
      unfolding FinishSave(1) using save_job_inv [OF r _ FinishSave(3)] st [of w' q st'] FinishSave(2)
      by (intro set_worker_inv [OF inv]) auto
  next
    case Tick
    then show ?thesis
      using inv by (simp add: decider_inv_def)
  qed (use set_worker_inv [OF inv r] in auto)
qed

lemma decider_inv_reach:
  assumes "codec_ok C" "decider_reach cfg C E s"
  shows "decider_inv cfg C E s"
  using assms(2) unfolding decider_reach_def
proof (induction rule: rtranclp_induct)
  case base
  then show ?case
    by (simp add: decider_inv_def redis_inv_def empty_decider_def)
next
  case (step s s')
  then show ?case
    using decider_inv_step [OF assms(1)] by blast
qed

section \<open>The client\<close>

text \<open>
  What the client relies on: an answer that reports a completed job of a request carries the
  engine's proof for this request. \<open>owns s jid q\<close>: in \<open>s\<close> nobody but the sender of \<open>q\<close> has
  used the identifier.
\<close>

locale decider_endpoint =
  fixes C :: job_codec and E :: "('p, 'n) prover_engine"
    and answer :: "'s \<Rightarrow> rstring \<Rightarrow> decider_http_error + job_state"
    and owns :: "'s \<Rightarrow> rstring \<Rightarrow> job_request \<Rightarrow> bool"
  assumes codec: "owns s jid q \<Longrightarrow> codec_ok C"
    and completed: "answer s jid = Inr st \<Longrightarrow> js_status st = Completed \<Longrightarrow> owns s jid q \<Longrightarrow>
      \<exists>b proof. decode_base64 C (jr_ivc_proof q) = Inr b \<and> generate_decider_proof E (jr_circuit q) b = Inr proof
        \<and> js_result st = Some (jc_b64_encode C proof)"
begin

lemma poll_genuine:
  assumes "poll_loop C timeout circuit jid polls = Some (Inr p)"
    and "\<forall>x \<in> set polls. \<exists>s. snd x = answer s jid \<and> owns s jid (client_request C jid circuit ivc)"
  shows "generate_decider_proof E circuit ivc = Inr p"
  using assms
proof (induction polls)
  case (Cons x polls)
  obtain elapsed a where x: "x = (elapsed, a)"
    by (cases x)
  obtain st where st: "a = Inr st"
    using Cons.prems(1) by (auto simp: x split: if_splits sum.splits)
  show ?case
  proof (cases "js_status st = Completed")
    case True
    obtain s where s: "answer s jid = Inr st" "owns s jid (client_request C jid circuit ivc)"
      using Cons.prems(2) x st by fastforce
    note codec = codec_okD [OF codec [OF s(2)]]
    obtain b pf where b: "decode_base64 C (jc_b64_encode C ivc) = Inr b" "generate_decider_proof E circuit b = Inr pf"
        "js_result st = Some (jc_b64_encode C pf)"
      using completed [OF s(1) True s(2)] by (auto simp: client_request_def)
    have "p = pf"
      using Cons.prems(1) True b(3) codec
      by (auto simp: x st decode_base64_payload_def split: if_splits)
    moreover have "b = ivc"
      using b(1) codec by (auto simp: decode_base64_def split: if_splits)
    ultimately show ?thesis
      using b(2) by simp
  next
    case False
    then have "poll_loop C timeout circuit jid polls = Some (Inr p)"
      using Cons.prems(1) by (auto simp: x st split: if_splits job_status.splits)
    then show ?thesis
      using Cons.IH Cons.prems(2) by simp
  qed
qed simp

end

text \<open>The service provides this interface in every state it can reach.\<close>

definition service_owns :: "decider_config \<Rightarrow> job_codec \<Rightarrow> ('p, 'n) prover_engine \<Rightarrow> decider_sys \<times> bool \<Rightarrow> rstring \<Rightarrow> job_request \<Rightarrow> bool" where
  "service_owns cfg C E x jid q \<longleftrightarrow> codec_ok C \<and> decider_reach cfg C E (fst x)
     \<and> (\<forall>q' \<in> set (ds_accepted (fst x)). jr_job_id q' = jid \<longrightarrow> q' = q)"

definition service_answer :: "decider_config \<Rightarrow> job_codec \<Rightarrow> decider_sys \<times> bool \<Rightarrow> rstring \<Rightarrow> decider_http_error + job_state" where
  "service_answer cfg C x jid = get_job_status cfg C (snd x) (ds_now (fst x)) jid (ds_redis (fst x))"

lemma service_completed:
  assumes "service_answer cfg C x jid = Inr st" "js_status st = Completed" "service_owns cfg C E x jid q"
  shows "\<exists>b proof. decode_base64 C (jr_ivc_proof q) = Inr b \<and> generate_decider_proof E (jr_circuit q) b = Inr proof
    \<and> js_result st = Some (jc_b64_encode C proof)"
proof -
  have own: "codec_ok C" "decider_reach cfg C E (fst x)" "\<And>q'. q' \<in> set (ds_accepted (fst x)) \<Longrightarrow> jr_job_id q' = jid \<Longrightarrow> q' = q"
    using assms(3) by (auto simp: service_owns_def)
  have "redis_inv cfg C E (ds_accepted (fst x)) (ds_redis (fst x))"
    using decider_inv_reach [OF own(1,2)] by (simp add: decider_inv_def)
  moreover have "get_job C (snd x) (ds_now (fst x)) (dg_job_prefix cfg) jid (ds_redis (fst x)) = Inr (Some st)"
    using assms(1) by (auto simp: service_answer_def get_job_status_def split: sum.splits option.splits)
  ultimately have "js_job_id st = jid" "genuine C E (ds_accepted (fst x)) st"
    using get_job_genuine [OF own(1)] by blast+
  then obtain q' where "q' \<in> set (ds_accepted (fst x))" "outcome_of C E q' st"
    using assms(2) by (auto simp: genuine_def)
  moreover from this have "q' = q"
    using own(3) [of q'] \<open>js_job_id st = jid\<close> by (simp add: outcome_of_def)
  ultimately obtain b where b: "decode_base64 C (jr_ivc_proof q) = Inr b"
      "case generate_decider_proof E (jr_circuit q) b of Inr proof \<Rightarrow> js_result st = Some (jc_b64_encode C proof) | Inl e \<Rightarrow> False"
    using assms(2) by (fastforce simp: outcome_of_def split: sum.splits)
  then show ?thesis
    by (cases "generate_decider_proof E (jr_circuit q) b") auto
qed

interpretation service: decider_endpoint C E "service_answer cfg C" "service_owns cfg C E"
  for cfg C E
  by unfold_locales (auto simp: service_owns_def dest: service_completed simp del: split_paired_Ex)

section \<open>A worker left alone\<close>

text \<open>The worker until the queue is empty, at a fixed time, with Redis up.\<close>

function drain :: "decider_config \<Rightarrow> job_codec \<Rightarrow> ('p, 'n) prover_engine \<Rightarrow> nat \<Rightarrow> redis \<Rightarrow> redis option" where
  "drain cfg C E now r =
     (if rs_queue r = [] then Some r
      else case process_once cfg C E (\<lambda>_. (True, True)) (now, now) r of
        None \<Rightarrow> None
      | Some (_, r') \<Rightarrow> if length (rs_queue r') < length (rs_queue r) then drain cfg C E now r' else None)"
  by pat_completeness auto
termination
  by (relation "measure (\<lambda>(cfg, C, E, now, r). length (rs_queue r))") auto

declare drain.simps [simp del]

text \<open>A queued job is resolved when it has not expired and its error message, if any, can be cut.\<close>

lemma list_map_preimage: "(\<And>y. y \<in> set ys \<Longrightarrow> \<exists>x \<in> A. y = f x) \<Longrightarrow> \<exists>xs. ys = map f xs \<and> set xs \<subseteq> A"
proof (induction ys)
  case (Cons y ys)
  then obtain x xs where "x \<in> A" "y = f x" "ys = map f xs" "set xs \<subseteq> A"
    by (metis list.set_intros(1,2))
  then have "y # ys = map f (x # xs) \<and> set (x # xs) \<subseteq> A"
    by simp
  then show ?case
    by (rule exI)
qed simp

definition no_panic :: "job_codec \<Rightarrow> ('p, 'n) prover_engine \<Rightarrow> job_request \<Rightarrow> bool" where
  "no_panic C E q \<longleftrightarrow> (\<forall>b e. decode_base64 C (jr_ivc_proof q) = Inr b \<and> generate_decider_proof E (jr_circuit q) b = Inl e \<longrightarrow>
     truncate_error (error_text e) \<noteq> None)"

definition alive :: "decider_config \<Rightarrow> nat \<Rightarrow> redis \<Rightarrow> job_request \<Rightarrow> bool" where
  "alive cfg now r q \<longleftrightarrow> redis_get now r (job_key (dg_job_prefix cfg) (jr_job_id q)) \<noteq> None"

lemma update_status_alive:
  assumes C: "codec_ok C" and inv: "redis_inv cfg C E acc r" and a: "alive cfg now r q" and ttl: "0 < dg_ttl cfg"
  shows "\<exists>st. js_job_id st = jr_job_id q
    \<and> update_status C (True, True) now (dg_job_prefix cfg) (dg_ttl cfg) (jr_job_id q) status result error r
        = (Inr (st\<lparr>js_status := status, js_result := result, js_error := error\<rparr>),
           redis_set_ex now (dg_ttl cfg) (job_key (dg_job_prefix cfg) (jr_job_id q))
             (jc_encode_state C (st\<lparr>js_status := status, js_result := result, js_error := error\<rparr>)) r)"
proof -
  obtain v where v: "redis_get now r (job_key (dg_job_prefix cfg) (jr_job_id q)) = Some v"
    using a by (auto simp: alive_def)
  obtain e where "rs_kv r (job_key (dg_job_prefix cfg) (jr_job_id q)) = Some (v, e)"
    using redis_get_Some [OF v] by blast
  then obtain st where "v = jc_encode_state C st" "js_job_id st = jr_job_id q"
    using inv unfolding redis_inv_def by (metis job_key_inject)
  then show ?thesis
    using v codec_okD(1) [OF C] by (intro exI [of _ st]) (simp add: update_status_def load_update_def get_job_def save_job_def)
qed

lemma process_once_gone:
  assumes "codec_ok C" "rs_queue r = jc_encode_request C q # rest" "\<not> alive cfg now r q"
  shows "\<exists>e. process_once cfg C E (\<lambda>_. (True, True)) (now, now) r = Some (Inl e, r\<lparr>rs_queue := rest\<rparr>)"
  using assms codec_okD(2) [OF assms(1)]
  by (simp add: process_once_def wait_for_job_def worker_start_def update_status_def load_update_def get_job_def alive_def)

lemma process_once_ok:
  assumes C: "codec_ok C" and inv: "redis_inv cfg C E acc r" and ttl: "0 < dg_ttl cfg"
    and q: "rs_queue r = jc_encode_request C q # rest" "decode_base64 C (jr_ivc_proof q) = Inr b" "no_panic C E q" "alive cfg now r q"
      "q \<in> set acc"
  shows "\<exists>st r'. process_once cfg C E (\<lambda>_. (True, True)) (now, now) r = Some (Inr (), r') \<and> rs_queue r' = rest
    \<and> redis_inv cfg C E acc r' \<and> outcome_of C E q st \<and> (\<forall>k. redis_get now r' k
        = (if k = job_key (dg_job_prefix cfg) (jr_job_id q) then Some (jc_encode_state C st) else redis_get now r k))"
proof -
  let ?r1 = "r\<lparr>rs_queue := rest\<rparr>" and ?k = "job_key (dg_job_prefix cfg) (jr_job_id q)"
  have inv1: "redis_inv cfg C E acc ?r1" and a1: "alive cfg now ?r1 q"
    using inv q(1,4) by (auto simp: redis_inv_def alive_def)
  obtain st1 where st1: "worker_start cfg C (True, True) now q ?r1
      = (Inr (st1\<lparr>js_status := Processing, js_result := None, js_error := None\<rparr>),
         redis_set_ex now (dg_ttl cfg) ?k (jc_encode_state C (st1\<lparr>js_status := Processing, js_result := None, js_error := None\<rparr>)) ?r1)"
    using update_status_alive [OF C inv1 a1 ttl] unfolding worker_start_def by blast
  let ?r2 = "redis_set_ex now (dg_ttl cfg) ?k (jc_encode_state C (st1\<lparr>js_status := Processing, js_result := None, js_error := None\<rparr>)) ?r1"
  have inv2: "redis_inv cfg C E acc ?r2" and a2: "alive cfg now ?r2 q"
    using start_inv [OF C inv1, of "(True, True)" now q] st1 ttl by (simp_all add: alive_def)
  have wait: "wait_for_job C True r = Some (Inr q, ?r1)"
    using q(1) codec_okD(2) [OF C] by (simp add: wait_for_job_def)
  obtain status result error where o: "worker_outcome C E q = Some (Inr (status, result, error))"
    using q(2,3) by (fastforce simp: worker_outcome_def no_panic_def split: sum.splits)
  obtain st2 where st2: "js_job_id st2 = jr_job_id q"
      "update_status C (True, True) now (dg_job_prefix cfg) (dg_ttl cfg) (jr_job_id q) status result error ?r2
        = (Inr (st2\<lparr>js_status := status, js_result := result, js_error := error\<rparr>),
           redis_set_ex now (dg_ttl cfg) ?k (jc_encode_state C (st2\<lparr>js_status := status, js_result := result, js_error := error\<rparr>)) ?r2)"
    using update_status_alive [OF C inv2 a2 ttl] by blast
  let ?st = "st2\<lparr>js_status := status, js_result := result, js_error := error\<rparr>"
  have finish: "worker_finish cfg C E (True, True) now q ?r2 = Some (Inr (), redis_set_ex now (dg_ttl cfg) ?k (jc_encode_state C ?st) ?r2)"
    using o st2(2) by (simp add: worker_finish_def)
  have "outcome_of C E q ?st"
    using worker_outcome_of [OF o st2(1)] .
  then show ?thesis
    using wait st1 finish ttl finish_inv [OF C inv2 q(5) finish] by (intro exI [of _ ?st] exI) (auto simp: process_once_def)
qed

text \<open>What a drained queue leaves of a job: its outcome, or nothing if its entry had expired.\<close>

definition resolved :: "decider_config \<Rightarrow> job_codec \<Rightarrow> ('p, 'n) prover_engine \<Rightarrow> nat \<Rightarrow> redis \<Rightarrow> redis \<Rightarrow> job_request \<Rightarrow> bool" where
  "resolved cfg C E now r r' q \<longleftrightarrow>
     (if alive cfg now r q
      then \<exists>st. redis_get now r' (job_key (dg_job_prefix cfg) (jr_job_id q)) = Some (jc_encode_state C st) \<and> outcome_of C E q st
      else redis_get now r' (job_key (dg_job_prefix cfg) (jr_job_id q)) = None)"

lemma process_once_resolves:
  assumes C: "codec_ok C" and inv: "redis_inv cfg C E acc r" and ttl: "0 < dg_ttl cfg"
    and q: "rs_queue r = jc_encode_request C q # rest" "alive cfg now r q \<longrightarrow> no_panic C E q" "q \<in> set acc"
      "decode_base64 C (jr_ivc_proof q) = Inr b"
  obtains x r' where "process_once cfg C E (\<lambda>_. (True, True)) (now, now) r = Some (x, r')" "rs_queue r' = rest"
    "redis_inv cfg C E acc r'" "resolved cfg C E now r r' q"
    "\<And>jid. jid \<noteq> jr_job_id q \<Longrightarrow>
       redis_get now r' (job_key (dg_job_prefix cfg) jid) = redis_get now r (job_key (dg_job_prefix cfg) jid)"
proof (cases "alive cfg now r q")
  case True
  then show ?thesis
    using that process_once_ok [OF C inv ttl q(1,4) _ _ q(3)] q(2) by (fastforce simp: resolved_def)
next
  case False
  moreover have "redis_inv cfg C E acc (r\<lparr>rs_queue := rest\<rparr>)"
    using inv q(1) by (simp add: redis_inv_def)
  ultimately show ?thesis
    using that process_once_gone [OF C q(1) False] by (fastforce simp: resolved_def alive_def)
qed

lemma drain_ok:
  assumes C: "codec_ok C" and ttl: "0 < dg_ttl cfg" and inv: "redis_inv cfg C E acc r"
    and q: "rs_queue r = map (jc_encode_request C) qs" "set qs \<subseteq> set acc"
      "\<forall>q \<in> set qs. (alive cfg now r q \<longrightarrow> no_panic C E q) \<and> (\<exists>b. decode_base64 C (jr_ivc_proof q) = Inr b)"
  shows "\<exists>r'. drain cfg C E now r = Some r' \<and> rs_queue r' = []
    \<and> (\<forall>us q vs. qs = us @ q # vs \<and> jr_job_id q \<notin> jr_job_id ` set vs \<longrightarrow> resolved cfg C E now r r' q)
    \<and> (\<forall>jid. jid \<notin> jr_job_id ` set qs \<longrightarrow>
         redis_get now r' (job_key (dg_job_prefix cfg) jid) = redis_get now r (job_key (dg_job_prefix cfg) jid))"
  using inv q
proof (induction qs arbitrary: r)
  case Nil
  then show ?case
    by (simp add: drain.simps)
next
  case (Cons q qs)
  obtain x r1 where r1: "process_once cfg C E (\<lambda>_. (True, True)) (now, now) r = Some (x, r1)"
      "rs_queue r1 = map (jc_encode_request C) qs" "redis_inv cfg C E acc r1" "resolved cfg C E now r r1 q"
      "\<And>jid. jid \<noteq> jr_job_id q \<Longrightarrow>
         redis_get now r1 (job_key (dg_job_prefix cfg) jid) = redis_get now r (job_key (dg_job_prefix cfg) jid)"
  proof -
    have q: "rs_queue r = jc_encode_request C q # map (jc_encode_request C) qs" "alive cfg now r q \<longrightarrow> no_panic C E q" "q \<in> set acc"
        "\<exists>b. decode_base64 C (jr_ivc_proof q) = Inr b"
      using Cons.prems(2-4) by simp_all
    then obtain b where "decode_base64 C (jr_ivc_proof q) = Inr b"
      by blast
    from process_once_resolves [OF C Cons.prems(1) ttl q(1-3) this] that show thesis .
  qed
  have alive: "alive cfg now r1 q' \<longleftrightarrow> alive cfg now r q'" for q'
    using r1(4,5) by (cases "jr_job_id q' = jr_job_id q") (auto simp: alive_def resolved_def split: if_splits)
  obtain r' where r': "drain cfg C E now r1 = Some r'" "rs_queue r' = []"
      "\<And>us q vs. qs = us @ q # vs \<Longrightarrow> jr_job_id q \<notin> jr_job_id ` set vs \<Longrightarrow> resolved cfg C E now r1 r' q"
      "\<And>jid. jid \<notin> jr_job_id ` set qs \<Longrightarrow>
         redis_get now r' (job_key (dg_job_prefix cfg) jid) = redis_get now r1 (job_key (dg_job_prefix cfg) jid)"
  proof -
    have "set qs \<subseteq> set acc"
        "\<forall>q \<in> set qs. (alive cfg now r1 q \<longrightarrow> no_panic C E q) \<and> (\<exists>b. decode_base64 C (jr_ivc_proof q) = Inr b)"
      using Cons.prems(3,4) alive by simp_all
    from Cons.IH [OF r1(3,2) this] that show thesis
      by blast
  qed
  have "drain cfg C E now r = Some r'"
    using r1(1,2) r'(1) Cons.prems(2) by (subst drain.simps) simp
  moreover have "resolved cfg C E now r r' p" if "q # qs = us @ p # vs" "jr_job_id p \<notin> jr_job_id ` set vs" for us p vs
  proof (cases us)
    case Nil
    then show ?thesis
      using that r1(4) r'(4) by (simp add: resolved_def)
  next
    case (Cons u us')
    then show ?thesis
      using that r'(3) [of us' p vs] alive by (simp add: resolved_def)
  qed
  ultimately show ?case
    using r' r1(5) by auto
qed

lemma get_job_redis:
  assumes "codec_ok C" "redis_get now r (job_key prefix jid) = Some (jc_encode_state C st)"
  shows "get_job C True now prefix jid r = Inr (Some st)"
  using assms codec_okD(1) by (simp add: get_job_def)

text \<open>
  \<^bold>\<open>C25\<close>. A proof the client returns is genuine: whatever other clients submit, however calls to
  Redis fail, entries expire and workers crash, if nobody else used the client's identifier,
  a proof that polling returns is the one the engine makes of exactly the bytes and the
  circuit the client gave.
\<close>

theorem decider_client_genuine:
  assumes "produce_decider_proof C timeout jid circuit ivc submit polls = Some (Inr p)"
    "\<forall>x \<in> set polls. \<exists>s up. codec_ok C \<and> decider_reach cfg C E s \<and> snd x = get_job_status cfg C up (ds_now s) jid (ds_redis s)
       \<and> (\<forall>q \<in> set (ds_accepted s). jr_job_id q = jid \<longrightarrow> q = client_request C jid circuit ivc)"
  shows "generate_decider_proof E circuit ivc = Inr p"
proof (rule service.poll_genuine [where cfg = cfg])
  show "poll_loop C timeout circuit jid polls = Some (Inr p)"
    using assms(1) by (auto simp: produce_decider_proof_def split: sum.splits)
  show "\<forall>x \<in> set polls. \<exists>s. snd x = service_answer cfg C s jid \<and> service_owns cfg C E s jid (client_request C jid circuit ivc)"
    using assms(2) by (simp add: service_answer_def service_owns_def) blast
qed


section \<open>A concrete service\<close>

definition put_text :: "rstring \<Rightarrow> rstring" where "put_text s = length s # s"
definition put_option :: "rstring option \<Rightarrow> rstring" where "put_option x = (case x of None \<Rightarrow> [0] | Some s \<Rightarrow> 1 # put_text s)"
definition put_circuit :: "circuit_kind \<Rightarrow> nat" where "put_circuit k = (case k of Root \<Rightarrow> 0 | WithdrawLocal \<Rightarrow> 1 | WithdrawGlobal \<Rightarrow> 2)"
definition put_status :: "job_status \<Rightarrow> nat" where "put_status x = (case x of Queued \<Rightarrow> 0 | Processing \<Rightarrow> 1 | Completed \<Rightarrow> 2 | Failed \<Rightarrow> 3)"

definition get_text :: "rstring \<Rightarrow> rstring \<times> rstring" where "get_text s = (take (hd s) (tl s), drop (hd s) (tl s))"
definition get_option :: "rstring \<Rightarrow> rstring option \<times> rstring" where
  "get_option s = (if hd s = 0 then (None, tl s) else map_prod Some (\<lambda>x. x) (get_text (tl s)))"
definition get_circuit :: "nat \<Rightarrow> circuit_kind" where "get_circuit n = (if n = 0 then Root else if n = 1 then WithdrawLocal else WithdrawGlobal)"
definition get_status :: "nat \<Rightarrow> job_status" where
  "get_status n = (if n = 0 then Queued else if n = 1 then Processing else if n = 2 then Completed else Failed)"

definition plain_codec :: job_codec where
  "plain_codec = \<lparr>
     jc_encode_state = (\<lambda>s. put_circuit (js_circuit s) # put_status (js_status s) # put_text (js_job_id s) @ put_option (js_result s) @ put_option (js_error s)),
     jc_decode_state = (\<lambda>t. let (i, t1) = get_text (tl (tl t)); (x, t2) = get_option t1; (e, t3) = get_option t2
        in Some \<lparr>js_job_id = i, js_circuit = get_circuit (hd t), js_status = get_status (hd (tl t)), js_result = x, js_error = e\<rparr>),
     jc_encode_request = (\<lambda>q. put_circuit (jr_circuit q) # put_text (jr_job_id q) @ put_text (jr_ivc_proof q)),
     jc_decode_request = (\<lambda>t. let (i, t1) = get_text (tl t); (x, t2) = get_text t1
        in Some \<lparr>jr_job_id = i, jr_circuit = get_circuit (hd t), jr_ivc_proof = x\<rparr>),
     jc_b64_encode = map (\<lambda>x. 300 + unat x), jc_b64_decode = (\<lambda>t. Some (map (\<lambda>c. word_of_nat (c - 300)) t))\<rparr>"

lemma put_get [simp]:
  "get_text (put_text s @ t) = (s, t)" "get_text (put_text s) = (s, [])" "get_option (put_option x @ t) = (x, t)"
  "get_option (put_option x) = (x, [])" "get_circuit (put_circuit k) = k" "get_status (put_status y) = y"
  by (simp_all add: get_text_def put_text_def get_option_def put_option_def get_circuit_def put_circuit_def get_status_def put_status_def
      split: option.splits circuit_kind.splits job_status.splits)

lemma trim_id:
  assumes "\<forall>c \<in> set s. \<not> is_whitespace c"
  shows "trim s = s"
proof -
  have drop: "dropWhile is_whitespace t = t" if "\<forall>c \<in> set t. \<not> is_whitespace c" for t
    using that by (cases t) auto
  show ?thesis
    using drop [of s] drop [of "rev s"] assms by (simp add: trim_def)
qed

lemma plain_codec_ok: "codec_ok plain_codec"
proof -
  have "trim (map (\<lambda>x. 300 + unat x) b) = map (\<lambda>x. 300 + unat x) (b :: bytes)" for b
  proof (rule trim_id, clarsimp)
    fix x :: byte
    assume "is_whitespace (300 + unat x)"
    then show False
      using unat_byte_less [of x] by (auto simp: is_whitespace_def)
  qed
  then show ?thesis
    by (simp add: codec_ok_def plain_codec_def comp_def)
qed

definition plain_context :: "(bytes, bytes) circuit_context" where
  "plain_context = \<lparr>cc_deserialize = Inr, cc_verify = (\<lambda>_. Inr ()), cc_nova_from_ivc = Inr, cc_decider = (\<lambda>n. Inr (7 # n))\<rparr>"

definition plain_engine :: "(bytes, bytes) prover_engine" where
  "plain_engine = \<lparr>pe_root = plain_context, pe_withdraw_local = None, pe_withdraw_global = plain_context\<rparr>"

definition plain_config :: decider_config where
  "plain_config = \<lparr>dg_job_prefix = [1], dg_ttl = 100, dg_enable_withdraw_local = False\<rparr>"

definition plain_request :: job_request where
  "plain_request = client_request plain_codec [42] Root [5]"

definition plain_submitted :: decider_sys where
  "plain_submitted = empty_decider\<lparr>ds_redis := snd (submit_job plain_config plain_codec True 0 plain_request (ds_redis empty_decider)),
     ds_accepted := [plain_request]\<rparr>"

lemma plain_request_simps: "jr_job_id plain_request = [42]" "jr_circuit plain_request = Root"
  by (simp_all add: plain_request_def client_request_def)

lemma plain_decode: "decode_base64 plain_codec (jr_ivc_proof plain_request) = Inr [5]"
  using codec_okD(3,4) [OF plain_codec_ok, of "[5]"]
  by (simp add: decode_base64_def plain_request_def client_request_def) (simp add: plain_codec_def)

lemma plain_submit: "\<exists>x. submit_job plain_config plain_codec True 0 plain_request (ds_redis empty_decider)
    = (Inr (Accepted x), \<lparr>rs_kv = [job_key [1] [42] \<mapsto> (jc_encode_state plain_codec \<lparr>js_job_id = [42], js_circuit = Root, js_status = Queued,
        js_result = None, js_error = None\<rparr>, 100)], rs_queue = [jc_encode_request plain_codec plain_request]\<rparr>)"
proof -
  have "trim [42] = [42 :: nat]"
    by (rule trim_id) (simp add: is_whitespace_def)
  moreover have "ensure_base64_payload plain_codec (jr_ivc_proof plain_request) = Inr ()"
    using plain_decode by (auto simp: ensure_base64_payload_def decode_base64_def split: if_splits option.splits)
  ultimately show ?thesis
    using codec_okD(1) [OF plain_codec_ok]
    by (simp add: submit_job_def validate_job_request_def enqueue_job_def enqueue_script_def redis_get_def redis_set_ex_def
        parse_enqueue_response_def parse_enqueue_flag_def parse_job_state_def empty_decider_def plain_config_def
        plain_request_simps Let_def)
qed

lemma plain_reach: "decider_reach plain_config plain_codec plain_engine plain_submitted"
proof -
  obtain x r where sub: "submit_job plain_config plain_codec True 0 plain_request (ds_redis empty_decider) = (Inr (Accepted x), r)"
    using plain_submit by blast
  have "decider_step plain_config plain_codec plain_engine empty_decider plain_submitted"
    using Submit [of plain_config plain_codec True empty_decider plain_request, where E = plain_engine] sub
    by (simp add: plain_submitted_def empty_decider_def)
  then show ?thesis
    by (simp add: decider_reach_def)
qed

lemma plain_generate: "generate_decider_proof plain_engine Root b = Inr (7 # b)"
  by (simp add: generate_decider_proof_def plain_engine_def engine_produce_def plain_context_def map_error_def)


text \<open>
  The same job after a worker has popped it, has read and written its entry to mark it, and has
  read and written it again to store the outcome: the queue is empty and the entry is completed.
\<close>

definition plain_job :: "job_status \<Rightarrow> rstring option \<Rightarrow> job_state" where
  "plain_job status result = \<lparr>js_job_id = [42], js_circuit = Root, js_status = status, js_result = result, js_error = None\<rparr>"

definition plain_entry :: "job_status \<Rightarrow> rstring option \<Rightarrow> redis" where
  "plain_entry status result = \<lparr>rs_kv = [job_key [1] [42] \<mapsto> (jc_encode_state plain_codec (plain_job status result), 100)], rs_queue = []\<rparr>"

abbreviation plain_result :: rstring where
  "plain_result \<equiv> jc_b64_encode plain_codec [7, 5]"

definition plain_finished :: decider_sys where
  "plain_finished = set_worker 0 Waiting (plain_entry Completed (Some plain_result)) plain_submitted"

lemma plain_calls:
  "load_update plain_codec True 0 [1] [42] status result None (plain_entry x y) = Inr (plain_job status result)"
  "save_job plain_codec True 0 [1] 100 (plain_job status result) (plain_entry x y) = (Inr (), plain_entry status result)"
  "worker_outcome plain_codec plain_engine plain_request = Some (Inr (Completed, Some plain_result, None))"
  using plain_decode
  by (simp_all add: load_update_def get_job_def save_job_def redis_get_def redis_set_ex_def plain_entry_def plain_job_def
      worker_outcome_def plain_generate plain_request_simps codec_okD(1) [OF plain_codec_ok])

lemma plain_finished_ok:
  "decider_reach plain_config plain_codec plain_engine plain_finished" "ds_accepted plain_finished = [plain_request]"
  "ds_now plain_finished = 0"
  "\<exists>st. get_job_status plain_config plain_codec True 0 [42] (ds_redis plain_finished) = Inr st \<and> js_status st = Completed
     \<and> js_result st = Some plain_result"
proof -
  let ?step = "decider_step plain_config plain_codec plain_engine"
  let ?at = "\<lambda>ph r. set_worker 0 ph r plain_submitted"
  have cfg: "dg_job_prefix plain_config = [1]" "dg_ttl plain_config = 100"
    by (simp_all add: plain_config_def)
  have sub: "ds_redis plain_submitted = (plain_entry Queued None)\<lparr>rs_queue := [jc_encode_request plain_codec plain_request]\<rparr>"
      "ds_now plain_submitted = 0" "ds_workers plain_submitted = (\<lambda>_. Waiting)" "ds_accepted plain_submitted = [plain_request]"
    using plain_submit by (auto simp: plain_submitted_def empty_decider_def plain_entry_def plain_job_def)
  have again: "set_worker 0 ph' r' (?at ph r) = ?at ph' r'" for ph ph' r r'
    by (simp add: set_worker_def)
  have wait: "wait_for_job plain_codec True (ds_redis plain_submitted) = Some (Inr plain_request, plain_entry Queued None)"
    using codec_okD(2) [OF plain_codec_ok] by (simp add: wait_for_job_def sub plain_entry_def)
  have "?step plain_submitted (?at (Popped plain_request) (plain_entry Queued None))"
    using Pop [OF _ wait, of 0] by (simp add: sub)
  moreover have "?step (?at (Popped plain_request) (plain_entry Queued None))
      (?at (Marking plain_request (plain_job Processing None)) (plain_entry Queued None))"
    using StartRead [of "?at (Popped plain_request) (plain_entry Queued None)" 0 plain_request plain_codec True plain_config _ plain_engine]
    by (simp add: sub cfg plain_request_simps plain_calls again del: One_nat_def)
  moreover have "?step (?at (Marking plain_request (plain_job Processing None)) (plain_entry Queued None))
      (?at (Started plain_request) (plain_entry Processing None))"
    using StartSave [of "?at (Marking plain_request (plain_job Processing None)) (plain_entry Queued None)" 0 plain_request
        "plain_job Processing None" plain_codec True plain_config _ _ plain_engine]
    by (simp add: sub cfg plain_calls again del: One_nat_def)
  moreover have "?step (?at (Started plain_request) (plain_entry Processing None))
      (?at (Storing plain_request (plain_job Completed (Some plain_result))) (plain_entry Processing None))"
    using FinishRead [of "?at (Started plain_request) (plain_entry Processing None)" 0 plain_request plain_codec plain_engine
        Completed "Some plain_result" None True plain_config, OF _ _ refl]
    by (simp add: sub cfg plain_request_simps plain_calls again del: One_nat_def)
  moreover have "?step (?at (Storing plain_request (plain_job Completed (Some plain_result))) (plain_entry Processing None)) plain_finished"
    using FinishSave [of "?at (Storing plain_request (plain_job Completed (Some plain_result))) (plain_entry Processing None)" 0 plain_request
        "plain_job Completed (Some plain_result)" plain_codec True plain_config _ _ plain_engine]
    by (simp add: sub cfg plain_calls again plain_finished_def del: One_nat_def)
  ultimately show "decider_reach plain_config plain_codec plain_engine plain_finished"
    using plain_reach unfolding decider_reach_def by (meson rtranclp.rtrancl_into_rtrancl)
  show "ds_accepted plain_finished = [plain_request]" "ds_now plain_finished = 0"
    by (simp_all add: plain_finished_def sub)
  show "\<exists>st. get_job_status plain_config plain_codec True 0 [42] (ds_redis plain_finished) = Inr st \<and> js_status st = Completed
     \<and> js_result st = Some plain_result"
    by (simp add: plain_finished_def plain_entry_def plain_job_def get_job_status_def get_job_def redis_get_def cfg codec_okD(1) [OF plain_codec_ok])
qed

theorem decider_client_genuine_witness:
  "produce_decider_proof plain_codec 60 [42] Root [5]
      (\<lambda>q. fst (submit_job plain_config plain_codec True 0 q (ds_redis empty_decider)))
      [(0, get_job_status plain_config plain_codec True 0 [42] (ds_redis plain_finished))] = Some (Inr [7, 5])
    \<and> generate_decider_proof plain_engine Root [5] = Inr [7, 5]"
proof -
  let ?submit = "\<lambda>q. fst (submit_job plain_config plain_codec True 0 q (ds_redis empty_decider))"
  let ?polls = "[(0, get_job_status plain_config plain_codec True 0 [42] (ds_redis plain_finished))]"
  have "jc_b64_encode plain_codec [7, 5] \<noteq> []"
    by (simp add: plain_codec_def)
  then have run: "produce_decider_proof plain_codec 60 [42] Root [5] ?submit ?polls = Some (Inr [7, 5])"
    using plain_finished_ok(4) plain_submit codec_okD(3,4) [OF plain_codec_ok, of "[7, 5]"]
    by (auto simp: produce_decider_proof_def plain_request_def [symmetric] decode_base64_payload_def)
  have "generate_decider_proof plain_engine Root [5] = Inr [7, 5]"
  proof (rule decider_client_genuine [OF run, where cfg = plain_config], intro ballI)
    fix x
    assume "x \<in> set ?polls"
    then show "\<exists>s up. codec_ok plain_codec \<and> decider_reach plain_config plain_codec plain_engine s
        \<and> snd x = get_job_status plain_config plain_codec up (ds_now s) [42] (ds_redis s)
        \<and> (\<forall>q \<in> set (ds_accepted s). jr_job_id q = [42] \<longrightarrow> q = client_request plain_codec [42] Root [5])"
      using plain_finished_ok(1-3) plain_codec_ok
      by (intro exI [of _ plain_finished] exI [of _ True]) (simp add: plain_request_def)
  qed
  with run show ?thesis
    by blast
qed

end
