(* ===== verification/Lease.thy ===== *)
theory Lease
  imports Prelude
begin

text \<open>
  The leases of \<open>indexer/src/jobs/lock.rs\<close>: the table, the three statements on it, and the
  system of processes that acquire, renew and release leases while the database clock
  runs. Times are milliseconds of the database clock, holders stand for the session
  UUIDs; each process has one holder id for all its leases. Guards are given back by
  \<open>LeaseGuard::release\<close>; the statement that \<open>Drop\<close> spawns for a guard that was not given back,
  which happens when a task ends early, is not part of the system.
\<close>

section \<open>The table and its statements\<close>

definition LEASE_TTL :: nat where
  "LEASE_TTL = 30000"

definition RENEW_FRACTION :: nat where
  "RENEW_FRACTION = 3"

record lease_row =
  lr_holder :: nat
  lr_expires_at :: nat

type_synonym leases = "int \<rightharpoonup> lease_row"

text \<open>\<open>INSERT ... ON CONFLICT DO UPDATE ... WHERE holder = ... OR expires_at < now()\<close>.\<close>

definition try_acquire_lock :: "nat \<Rightarrow> nat \<Rightarrow> int \<Rightarrow> leases \<Rightarrow> bool \<times> leases" where
  "try_acquire_lock now holder key ls =
     (let row = \<lparr>lr_holder = holder, lr_expires_at = now + LEASE_TTL\<rparr> in
      case ls key of
        None \<Rightarrow> (True, ls(key \<mapsto> row))
      | Some r \<Rightarrow>
          if lr_holder r = holder \<or> lr_expires_at r < now then (True, ls(key \<mapsto> row)) else (False, ls))"

definition renew_lease :: "nat \<Rightarrow> nat \<Rightarrow> int \<Rightarrow> leases \<Rightarrow> bool \<times> leases" where
  "renew_lease now holder key ls =
     (case ls key of
        Some r \<Rightarrow>
          if lr_holder r = holder then (True, ls(key \<mapsto> r\<lparr>lr_expires_at := now + LEASE_TTL\<rparr>))
          else (False, ls)
      | None \<Rightarrow> (False, ls))"

definition release_lease :: "nat \<Rightarrow> int \<Rightarrow> leases \<Rightarrow> bool \<times> leases" where
  "release_lease holder key ls =
     (case ls key of
        Some r \<Rightarrow> if lr_holder r = holder then (True, ls(key := None)) else (False, ls)
      | None \<Rightarrow> (False, ls))"

text \<open>The sleep between renewals, in milliseconds.\<close>

definition renew_every :: "nat \<Rightarrow> nat" where
  "renew_every ttl = (if ttl div RENEW_FRACTION = 0 then 100 else ttl div RENEW_FRACTION)"

section \<open>What a lease table promises\<close>

text \<open>
  \<open>owner t k\<close> is the holder of a key and the time up to which no other holder can take it.
\<close>

locale lease_table =
  fixes acquire :: "nat \<Rightarrow> 'h \<Rightarrow> 'k \<Rightarrow> 't \<Rightarrow> bool \<times> 't"
    and renew :: "nat \<Rightarrow> 'h \<Rightarrow> 'k \<Rightarrow> 't \<Rightarrow> bool \<times> 't"
    and release :: "'h \<Rightarrow> 'k \<Rightarrow> 't \<Rightarrow> bool \<times> 't"
    and owner :: "'t \<Rightarrow> 'k \<Rightarrow> ('h \<times> nat) option"
    and ttl :: nat
  assumes acquire_iff: "fst (acquire now h k t) \<longleftrightarrow>
      (case owner t k of None \<Rightarrow> True | Some (h', e) \<Rightarrow> h' = h \<or> e < now)"
    and owner_acquire: "owner (snd (acquire now h k t)) k' =
      (if k' = k \<and> fst (acquire now h k t) then Some (h, now + ttl) else owner t k')"
    and renew_iff: "fst (renew now h k t) \<longleftrightarrow> (\<exists>e. owner t k = Some (h, e))"
    and owner_renew: "owner (snd (renew now h k t)) k' =
      (if k' = k \<and> fst (renew now h k t) then Some (h, now + ttl) else owner t k')"
    and release_iff: "fst (release h k t) \<longleftrightarrow> (\<exists>e. owner t k = Some (h, e))"
    and owner_release: "owner (snd (release h k t)) k' =
      (if k' = k \<and> fst (release h k t) then None else owner t k')"
begin

text \<open>\<open>protects t k h d\<close>: the table keeps every other holder out of \<open>k\<close> until \<open>d\<close>.\<close>

definition protects :: "'t \<Rightarrow> 'k \<Rightarrow> 'h \<Rightarrow> nat \<Rightarrow> bool" where
  "protects t k h d \<longleftrightarrow> (\<exists>e. owner t k = Some (h, e) \<and> d \<le> e)"

lemma protects_unique: "protects t k h d \<Longrightarrow> protects t k h' d' \<Longrightarrow> h = h'"
  by (auto simp: protects_def)

lemma acquired_protects: "fst (acquire now h k t) \<Longrightarrow> protects (snd (acquire now h k t)) k h (now + ttl)"
  by (simp add: protects_def owner_acquire)

lemma renewed_protects: "fst (renew now h k t) \<Longrightarrow> protects (snd (renew now h k t)) k h (now + ttl)"
  by (simp add: protects_def owner_renew)

lemma acquire_excluded: "protects t k h d \<Longrightarrow> h' \<noteq> h \<Longrightarrow> now \<le> d \<Longrightarrow> \<not> fst (acquire now h' k t)"
  by (auto simp: protects_def acquire_iff)

lemma acquire_keeps:
  assumes "protects t k h d" "now \<le> d" "(h', k') \<noteq> (h, k)"
  shows "protects (snd (acquire now h' k' t)) k h d"
  using assms acquire_excluded [OF assms(1), of h' now] by (auto simp: protects_def owner_acquire)

lemma renew_keeps:
  assumes "protects t k h d" "d \<le> now + ttl"
  shows "protects (snd (renew now h' k' t)) k h d"
proof (cases "k' = k \<and> fst (renew now h' k' t)")
  case True
  then have "h' = h"
    using assms(1) by (auto simp: protects_def renew_iff)
  with True assms(2) show ?thesis
    by (auto simp: protects_def owner_renew)
next
  case False
  then show ?thesis
    using assms(1) by (auto simp: protects_def owner_renew)
qed

lemma release_keeps: "protects t k h d \<Longrightarrow> (h', k') \<noteq> (h, k) \<Longrightarrow> protects (snd (release h' k' t)) k h d"
  by (auto simp: protects_def owner_release release_iff)

lemma acquire_after_expiry:
  assumes "\<And>h' e. owner t k = Some (h', e) \<Longrightarrow> e < now"
  shows "fst (acquire now h k t)"
  using assms by (auto simp: acquire_iff split: option.splits)

end

definition lease_owner :: "leases \<Rightarrow> int \<Rightarrow> (nat \<times> nat) option" where
  "lease_owner ls k = map_option (\<lambda>r. (lr_holder r, lr_expires_at r)) (ls k)"

interpretation leases: lease_table try_acquire_lock renew_lease release_lease lease_owner LEASE_TTL
  by unfold_locales
    (auto simp: try_acquire_lock_def renew_lease_def release_lease_def lease_owner_def Let_def
      split: option.splits if_splits)

section \<open>The processes\<close>

text \<open>
  A guard: the last moment its holder is known to own the lease, and whether its renewal
  task still runs (it stops at the first renewal that fails). Every job processes its
  tokens one after another, so a process has at most one guard per key.
\<close>

record lease_guard =
  lg_deadline :: nat
  lg_renewing :: bool

record lease_system =
  ls_now :: nat
  ls_table :: leases
  ls_guards :: "nat \<times> int \<rightharpoonup> lease_guard"

datatype lease_event =
    Pass nat
  | Acquire nat int
  | Renew nat int
  | Release nat int
  | Crash nat int

fun lease_exec :: "lease_event \<Rightarrow> lease_system \<Rightarrow> lease_system option" where
  "lease_exec (Pass ms) s = Some (s\<lparr>ls_now := ls_now s + ms\<rparr>)"
| "lease_exec (Acquire h k) s =
     (if ls_guards s (h, k) \<noteq> None then None
      else
        let (ok, t) = try_acquire_lock (ls_now s) h k (ls_table s) in
        Some (s\<lparr>ls_table := t,
          ls_guards := (if ok then (ls_guards s)((h, k) \<mapsto>
              \<lparr>lg_deadline = ls_now s + LEASE_TTL, lg_renewing = True\<rparr>) else ls_guards s)\<rparr>))"
| "lease_exec (Renew h k) s =
     (case ls_guards s (h, k) of
        None \<Rightarrow> None
      | Some g \<Rightarrow>
          if \<not> lg_renewing g then None
          else
            let (ok, t) = renew_lease (ls_now s) h k (ls_table s) in
            Some (s\<lparr>ls_table := t,
              ls_guards := (ls_guards s)((h, k) \<mapsto>
                (if ok then g\<lparr>lg_deadline := ls_now s + LEASE_TTL\<rparr> else g\<lparr>lg_renewing := False\<rparr>))\<rparr>))"
| "lease_exec (Release h k) s =
     (case ls_guards s (h, k) of
        None \<Rightarrow> None
      | Some g \<Rightarrow>
          Some (s\<lparr>ls_table := snd (release_lease h k (ls_table s)), ls_guards := (ls_guards s)((h, k) := None)\<rparr>))"
| "lease_exec (Crash h k) s =
     (case ls_guards s (h, k) of
        None \<Rightarrow> None
      | Some g \<Rightarrow> Some (s\<lparr>ls_guards := (ls_guards s)((h, k) := None)\<rparr>))"

inductive lease_step :: "lease_system \<Rightarrow> lease_event \<Rightarrow> lease_system \<Rightarrow> bool" where
  lease_step: "lease_exec ev s = Some s' \<Longrightarrow> lease_step s ev s'"

inductive_simps lease_step_simps: "lease_step s ev s'"

definition lease_start :: lease_system where
  "lease_start = \<lparr>ls_now = 0, ls_table = Map.empty, ls_guards = Map.empty\<rparr>"

inductive lease_reachable :: "lease_system \<Rightarrow> bool" where
  start: "lease_reachable lease_start"
| step: "lease_reachable s \<Longrightarrow> lease_step s ev s' \<Longrightarrow> lease_reachable s'"

section \<open>Mutual exclusion\<close>

definition lease_inv :: "lease_system \<Rightarrow> bool" where
  "lease_inv s \<longleftrightarrow>
     (\<forall>h k g. ls_guards s (h, k) = Some g \<longrightarrow>
        lg_deadline g \<le> ls_now s + LEASE_TTL
        \<and> (ls_now s \<le> lg_deadline g \<longrightarrow> leases.protects (ls_table s) k h (lg_deadline g)))
     \<and> (\<forall>k h e. lease_owner (ls_table s) k = Some (h, e) \<longrightarrow> e \<le> ls_now s + LEASE_TTL)"

lemma lease_invI:
  assumes "\<And>h k g. ls_guards s (h, k) = Some g \<Longrightarrow> lg_deadline g \<le> ls_now s + LEASE_TTL"
    and "\<And>h k g. ls_guards s (h, k) = Some g \<Longrightarrow> ls_now s \<le> lg_deadline g
      \<Longrightarrow> leases.protects (ls_table s) k h (lg_deadline g)"
    and "\<And>k h e. lease_owner (ls_table s) k = Some (h, e) \<Longrightarrow> e \<le> ls_now s + LEASE_TTL"
  shows "lease_inv s"
  using assms by (auto simp: lease_inv_def)

lemma lease_invD:
  assumes "lease_inv s"
  shows "ls_guards s (h, k) = Some g \<Longrightarrow> lg_deadline g \<le> ls_now s + LEASE_TTL"
    and "ls_guards s (h, k) = Some g \<Longrightarrow> ls_now s \<le> lg_deadline g
      \<Longrightarrow> leases.protects (ls_table s) k h (lg_deadline g)"
    and "lease_owner (ls_table s) k = Some (h, e) \<Longrightarrow> e \<le> ls_now s + LEASE_TTL"
  using assms by (auto simp: lease_inv_def)

lemma lease_inv_acquire:
  assumes inv: "lease_inv s" and run: "lease_exec (Acquire h k) s = Some s'"
  shows "lease_inv s'"
proof -
  let ?a = "try_acquire_lock (ls_now s) h k (ls_table s)"
  have none: "ls_guards s (h, k) = None"
    using run by (auto split: if_splits)
  have s': "s' = s\<lparr>ls_table := snd ?a, ls_guards := (if fst ?a then (ls_guards s)((h, k) \<mapsto>
      \<lparr>lg_deadline = ls_now s + LEASE_TTL, lg_renewing = True\<rparr>) else ls_guards s)\<rparr>"
    using run none by (auto simp: Let_def split: prod.splits)
  show ?thesis
  proof (rule lease_invI)
    fix h' k' g
    assume g: "ls_guards s' (h', k') = Some g"
    show "lg_deadline g \<le> ls_now s' + LEASE_TTL"
      using g lease_invD(1) [OF inv] by (auto simp: s' split: if_splits)
    assume live: "ls_now s' \<le> lg_deadline g"
    show "leases.protects (ls_table s') k' h' (lg_deadline g)"
    proof (cases "(h', k') = (h, k)")
      case True
      with g none show ?thesis
        by (auto simp: s' leases.acquired_protects split: if_splits)
    next
      case False
      then have "ls_guards s (h', k') = Some g"
        using g by (auto simp: s' split: if_splits)
      from lease_invD(2) [OF inv this] live show ?thesis
        using False leases.acquire_keeps [of "ls_table s" k' h' "lg_deadline g" "ls_now s" h k] by (auto simp: s')
    qed
  next
    fix k' h' e
    assume "lease_owner (ls_table s') k' = Some (h', e)"
    then show "e \<le> ls_now s' + LEASE_TTL"
      using lease_invD(3) [OF inv] by (auto simp: s' leases.owner_acquire split: if_splits)
  qed
qed

lemma lease_inv_renew:
  assumes inv: "lease_inv s" and run: "lease_exec (Renew h k) s = Some s'"
  shows "lease_inv s'"
proof -
  let ?a = "renew_lease (ls_now s) h k (ls_table s)"
  obtain g0 where g0: "ls_guards s (h, k) = Some g0"
    using run by (auto split: option.splits)
  have s': "s' = s\<lparr>ls_table := snd ?a, ls_guards := (ls_guards s)((h, k) \<mapsto>
      (if fst ?a then g0\<lparr>lg_deadline := ls_now s + LEASE_TTL\<rparr> else g0\<lparr>lg_renewing := False\<rparr>))\<rparr>"
    using run g0 by (auto simp: Let_def split: prod.splits if_splits)
  show ?thesis
  proof (rule lease_invI)
    fix h' k' g
    assume g: "ls_guards s' (h', k') = Some g"
    show "lg_deadline g \<le> ls_now s' + LEASE_TTL"
      using g g0 lease_invD(1) [OF inv] by (auto simp: s' split: if_splits)
    assume live: "ls_now s' \<le> lg_deadline g"
    show "leases.protects (ls_table s') k' h' (lg_deadline g)"
    proof (cases "(h', k') = (h, k) \<and> fst ?a")
      case True
      with g show ?thesis
        by (auto simp: s' leases.renewed_protects)
    next
      case False
      then obtain g1 where "ls_guards s (h', k') = Some g1" "lg_deadline g1 = lg_deadline g"
        using g g0 by (auto simp: s' split: if_splits)
      with lease_invD(1,2) [OF inv this(1)] live show ?thesis
        using leases.renew_keeps [of "ls_table s" k' h' "lg_deadline g" "ls_now s" h k] by (simp add: s')
    qed
  next
    fix k' h' e
    assume "lease_owner (ls_table s') k' = Some (h', e)"
    then show "e \<le> ls_now s' + LEASE_TTL"
      using lease_invD(3) [OF inv] by (auto simp: s' leases.owner_renew split: if_splits)
  qed
qed

lemma lease_inv_release:
  assumes inv: "lease_inv s" and run: "lease_exec (Release h k) s = Some s'"
  shows "lease_inv s'"
proof -
  have s': "s' = s\<lparr>ls_table := snd (release_lease h k (ls_table s)), ls_guards := (ls_guards s)((h, k) := None)\<rparr>"
    using run by (auto split: option.splits)
  show ?thesis
    by (rule lease_invI)
      (use lease_invD [OF inv] leases.release_keeps in
        \<open>auto simp: s' leases.owner_release split: if_splits\<close>)
qed

lemma lease_inv_step:
  assumes "lease_inv s" "lease_step s ev s'"
  shows "lease_inv s'"
proof (cases ev)
  case (Pass ms)
  then show ?thesis
    using assms by (fastforce simp: lease_step_simps lease_inv_def)
next
  case (Acquire h k)
  then show ?thesis
    using assms lease_inv_acquire by (auto simp only: lease_step_simps)
next
  case (Renew h k)
  then show ?thesis
    using assms lease_inv_renew by (auto simp only: lease_step_simps)
next
  case (Release h k)
  then show ?thesis
    using assms lease_inv_release by (auto simp only: lease_step_simps)
next
  case (Crash h k)
  then show ?thesis
    using assms by (auto simp: lease_step_simps lease_inv_def split: option.splits if_splits)
qed

lemma reachable_lease_inv: "lease_reachable s \<Longrightarrow> lease_inv s"
proof (induction rule: lease_reachable.induct)
  case start
  then show ?case
    by (simp add: lease_start_def lease_inv_def lease_owner_def)
next
  case (step s ev s')
  then show ?case
    by (blast intro: lease_inv_step)
qed

fun lease_run :: "lease_event list \<Rightarrow> lease_system \<Rightarrow> lease_system option" where
  "lease_run [] s = Some s"
| "lease_run (ev # evs) s = (case lease_exec ev s of None \<Rightarrow> None | Some s' \<Rightarrow> lease_run evs s')"

lemma lease_run_reachable: "lease_run evs s = Some s' \<Longrightarrow> lease_reachable s \<Longrightarrow> lease_reachable s'"
  by (induction evs arbitrary: s) (auto split: option.splits intro: lease_reachable.step lease_step.intros)

text \<open>
  \<^bold>\<open>C12\<close>. Mutual exclusion: in every reachable state of any number of processes that
  acquire, renew, release and crash in any order, two guards on the same key that are both
  within the time of their last acquisition or renewal belong to the same process. Guards are
  released explicitly or lost with their process; the delayed deletion by \<open>Drop\<close> is left out.
\<close>

theorem lease_mutual_exclusion:
  assumes "lease_reachable s"
    and "ls_guards s (h, k) = Some g" "ls_now s \<le> lg_deadline g"
    and "ls_guards s (h', k) = Some g'" "ls_now s \<le> lg_deadline g'"
  shows "h = h'"
  using lease_invD(2) [OF reachable_lease_inv [OF assms(1)]] assms(2-5) leases.protects_unique by blast

text \<open>A run: process 1 crashes with the lease, process 2 is refused, then takes it over.\<close>

definition takeover_run :: "lease_event list" where
  "takeover_run = [Acquire 1 7, Pass 10000, Renew 1 7, Acquire 2 7, Crash 1 7, Pass 30001, Acquire 2 7, Acquire 1 7]"

theorem lease_mutual_exclusion_witness:
  "\<exists>s g. lease_run takeover_run lease_start = Some s \<and> ls_guards s (2, 7) = Some g \<and> ls_guards s (1, 7) = None
    \<and> ls_now s \<le> lg_deadline g"
proof -
  obtain s where run: "lease_run takeover_run lease_start = Some s"
      and g: "ls_guards s (2, 7) = Some \<lparr>lg_deadline = 70001, lg_renewing = True\<rparr>"
        "ls_guards s (1, 7) = None" "ls_now s = 40001"
    by (simp add: takeover_run_def lease_start_def try_acquire_lock_def renew_lease_def LEASE_TTL_def Let_def)
  have "lease_reachable s"
    by (rule lease_run_reachable [OF run lease_reachable.start])
  from lease_mutual_exclusion [OF this g(1) _ g(1)] run g show ?thesis
    by simp
qed

text \<open>
  A lease never outlives its holder for long: in every reachable state, once the
  time to live passes without a renewal, any process without a guard on the key acquires
  it, whoever held it before and however that holder ended.
\<close>

theorem lease_takeover:
  assumes "lease_reachable s" "ls_guards s (h, k) = None"
    and "LEASE_TTL < ms"
  shows "\<exists>s' g. lease_run [Pass ms, Acquire h k] s = Some s' \<and> ls_guards s' (h, k) = Some g
    \<and> lg_deadline g = ls_now s + ms + LEASE_TTL"
proof -
  have "e < ls_now s + ms" if "lease_owner (ls_table s) k = Some (h', e)" for h' e
    using lease_invD(3) [OF reachable_lease_inv [OF assms(1)] that] assms(3) by simp
  then have "fst (try_acquire_lock (ls_now s + ms) h k (ls_table s))"
    by (rule leases.acquire_after_expiry)
  then show ?thesis
    using assms(2) by (cases "try_acquire_lock (ls_now s + ms) h k (ls_table s)") simp
qed

theorem lease_takeover_witness:
  "\<exists>s s' g. lease_run [Acquire 1 7, Crash 1 7] lease_start = Some s
    \<and> lease_run [Pass 30001, Acquire 2 7] s = Some s' \<and> ls_guards s' (2, 7) = Some g
    \<and> lg_deadline g = 60001"
proof -
  obtain s where run: "lease_run [Acquire 1 7, Crash 1 7] lease_start = Some s"
      and s: "ls_guards s (2, 7) = None" "ls_now s = 0"
    by (simp add: lease_start_def try_acquire_lock_def Let_def)
  have "LEASE_TTL < 30001"
    by (simp add: LEASE_TTL_def)
  from lease_takeover [OF lease_run_reachable [OF run lease_reachable.start] s(1) this] obtain s' g where
    "lease_run [Pass 30001, Acquire 2 7] s = Some s'" "ls_guards s' (2, 7) = Some g" "lg_deadline g = 60001"
    unfolding s(2) LEASE_TTL_def by (simp del: lease_run.simps) blast
  with run show ?thesis
    by blast
qed

end
