(* ===== verification/Event_Indexer.thy ===== *)
theory Event_Indexer
  imports Field
begin

text \<open>
  The event indexer of \<open>indexer/src/events/mod.rs\<close> for one token: its two tables (the
  indexed transfer events and the indexer state row), the chunked scan of the chain,
  the advancement of the contiguous index, the search for gaps and the backfill.

  The contract calls are parameters: \<open>latest_block\<close>, \<open>index\<close> and
  \<open>get_indexed_transfer_events\<close>. Block numbers and indices are natural numbers below
  \<open>2^64\<close>, the saturating operations and the conversions to \<open>i64\<close> are written out. A scan
  that never returns is the value \<open>None\<close>.
\<close>

section \<open>Data\<close>

datatype event_error =
    EvInvalidTokenId int
  | NonPositiveConfig string
  | EvI64ToU64 string int
  | EvU64ToI64 string nat
  | EvDatabase string
  | EvContract string

record indexed_event =
  ev_index :: nat
  ev_from :: address
  ev_to :: address
  ev_amount :: u256
  ev_block :: nat

record event_row =
  er_index :: int
  er_from :: bytes
  er_to :: bytes
  er_amount :: bytes
  er_block :: int

record state_row =
  contiguous_index :: int
  contiguous_block :: "int option"
  last_synced_block :: int
  last_seen_contract_index :: "int option"

record event_db =
  event_rows :: "event_row list"
  indexer_state :: "state_row option"

record indexer_config =
  block_span :: nat
  forward_scan_overlap :: nat

record indexer_view =
  st_contiguous_index :: int
  st_contiguous_block :: "nat option"
  st_last_synced_block :: nat
  st_last_seen :: "nat option"

definition event_config_new :: "nat \<Rightarrow> nat \<Rightarrow> event_error + indexer_config" where
  "event_config_new span overlap =
     (if span = 0 then Inl (NonPositiveConfig ''block_span'')
      else Inr \<lparr>block_span = span, forward_scan_overlap = overlap\<rparr>)"

definition to_u64 :: "int \<Rightarrow> string \<Rightarrow> event_error + nat" where
  "to_u64 v label = (if v < 0 then Inl (EvI64ToU64 label v) else Inr (nat v))"

definition to_i64 :: "nat \<Rightarrow> string \<Rightarrow> event_error + int" where
  "to_i64 v label = (if v < 2 ^ 63 then Inr (int v) else Inl (EvU64ToI64 label v))"

definition opt_i64_to_u64 :: "int option \<Rightarrow> string \<Rightarrow> event_error + nat option" where
  "opt_i64_to_u64 v label =
     (case v of None \<Rightarrow> Inr None | Some x \<Rightarrow> res_bind (to_u64 x label) (\<lambda>y. Inr (Some y)))"

definition indexer_state_from_row :: "state_row \<Rightarrow> event_error + indexer_view" where
  "indexer_state_from_row row =
     res_bind (opt_i64_to_u64 (contiguous_block row) ''contiguous_block'') (\<lambda>cb.
     res_bind (to_u64 (last_synced_block row) ''last_synced_block'') (\<lambda>ls.
     res_bind (opt_i64_to_u64 (last_seen_contract_index row) ''last_seen_contract_index'') (\<lambda>seen.
     Inr \<lparr>st_contiguous_index = contiguous_index row, st_contiguous_block = cb,
          st_last_synced_block = ls, st_last_seen = seen\<rparr>)))"

section \<open>Table operations\<close>

text \<open>\<open>INSERT ... ON CONFLICT (token_id, event_index) DO UPDATE\<close>.\<close>

definition upsert_event :: "event_row \<Rightarrow> event_row list \<Rightarrow> event_row list" where
  "upsert_event r rows = r # filter (\<lambda>r'. er_index r' \<noteq> er_index r) rows"

fun insert_events_loop :: "indexed_event list \<Rightarrow> event_row list \<Rightarrow> event_error + event_row list" where
  "insert_events_loop [] rows = Inr rows"
| "insert_events_loop (e # es) rows =
     res_bind (to_i64 (ev_index e) ''event index'') (\<lambda>index.
     res_bind (to_i64 (ev_block e) ''event block number'') (\<lambda>block.
     insert_events_loop es
       (upsert_event \<lparr>er_index = index, er_from = address_bytes (ev_from e), er_to = address_bytes (ev_to e),
          er_amount = u256_to_be_bytes (ev_amount e), er_block = block\<rparr> rows)))"

definition insert_events :: "event_db \<Rightarrow> indexed_event list \<Rightarrow> event_error + event_db" where
  "insert_events db es =
     (if es = [] then Inr db
      else res_bind (insert_events_loop es (event_rows db)) (\<lambda>rows. Inr (db\<lparr>event_rows := rows\<rparr>)))"

definition ensure_state_row :: "event_db \<Rightarrow> nat \<Rightarrow> (event_error + indexer_view) \<times> event_db" where
  "ensure_state_row db deployed =
     (case to_i64 deployed ''deployed_block_number for initial state'' of
        Inl e \<Rightarrow> (Inl e, db)
      | Inr initial_block \<Rightarrow>
     let row = (case indexer_state db of
                  Some r \<Rightarrow> r
                | None \<Rightarrow> \<lparr>contiguous_index = - 1, contiguous_block = None,
                           last_synced_block = initial_block, last_seen_contract_index = None\<rparr>);
         row = (if last_synced_block row < initial_block
                then row\<lparr>last_synced_block := initial_block\<rparr> else row)
     in (indexer_state_from_row row, db\<lparr>indexer_state := Some row\<rparr>))"

definition persist_sync_watermark :: "event_db \<Rightarrow> nat \<Rightarrow> nat \<Rightarrow> event_error + event_db" where
  "persist_sync_watermark db latest next_index =
     res_bind (to_i64 latest ''last_synced_block'') (\<lambda>last_block.
     res_bind (to_i64 next_index ''last_seen_contract_index'') (\<lambda>next_i64.
     Inr (db\<lparr>indexer_state :=
       map_option (\<lambda>r. r\<lparr>last_synced_block := last_block, last_seen_contract_index := Some next_i64\<rparr>)
         (indexer_state db)\<rparr>)))"

section \<open>Advancing the contiguous index\<close>

definition event_at :: "event_row list \<Rightarrow> int \<Rightarrow> event_row option" where
  "event_at rows i = find (\<lambda>r. er_index r = i) rows"

lemma event_at_Some: "event_at rows i = Some r \<Longrightarrow> r \<in> set rows \<and> er_index r = i"
  unfolding event_at_def find_Some_iff by auto

lemma event_at_None: "event_at rows i = None \<longleftrightarrow> (\<forall>r \<in> set rows. er_index r \<noteq> i)"
  by (auto simp: event_at_def find_None_iff)

lemma filter_greater_shrinks:
  assumes "event_at rows (c + 1) = Some r"
  shows "length (filter (\<lambda>r'. er_index r < er_index r') rows) < length (filter (\<lambda>r'. c < er_index r') rows)"
proof -
  have r: "r \<in> set rows" "er_index r = c + 1"
    using event_at_Some [OF assms] by auto
  have "filter (\<lambda>r'. er_index r < er_index r') rows
      = filter (\<lambda>r'. c + 1 < er_index r') (filter (\<lambda>r'. c < er_index r') rows)"
    by (auto simp: r(2) intro: filter_cong)
  moreover have "r \<in> set (filter (\<lambda>r'. c < er_index r') rows)"
    using r by simp
  ultimately show ?thesis
    using r(2) by (metis (no_types, lifting) length_filter_less less_irrefl)
qed

function advance_loop :: "event_row list \<Rightarrow> int \<Rightarrow> int option \<Rightarrow> bool \<Rightarrow> int \<times> int option \<times> bool" where
  "advance_loop rows c cb advanced =
     (case event_at rows (c + 1) of
        Some r \<Rightarrow> advance_loop rows (er_index r) (Some (er_block r)) True
      | None \<Rightarrow> (c, cb, advanced))"
  by pat_completeness auto
termination
  by (relation "measure (\<lambda>(rows, c, cb, adv). length (filter (\<lambda>r. c < er_index r) rows))")
    (auto simp: filter_greater_shrinks)

declare advance_loop.simps [simp del]

definition advance_contiguous_index :: "event_db \<Rightarrow> (event_error + indexer_view) \<times> event_db" where
  "advance_contiguous_index db =
     (case indexer_state db of
        None \<Rightarrow> (Inl (EvDatabase ''lock indexer state''), db)
      | Some row \<Rightarrow>
          let (c, cb, advanced) =
                advance_loop (event_rows db) (contiguous_index row) (contiguous_block row) False;
              row' = row\<lparr>contiguous_index := c, contiguous_block := cb\<rparr>;
              db' = (if advanced then db\<lparr>indexer_state := Some row'\<rparr> else db)
          in (indexer_state_from_row row', db'))"

section \<open>Gaps\<close>

text \<open>\<open>WHERE event_index >= $2 ORDER BY event_index ASC LIMIT 1\<close>.\<close>

fun next_known :: "event_row list \<Rightarrow> int \<Rightarrow> event_row option" where
  "next_known [] i = None"
| "next_known (r # rs) i =
     (case next_known rs i of
        None \<Rightarrow> if i \<le> er_index r then Some r else None
      | Some r' \<Rightarrow> if i \<le> er_index r \<and> er_index r \<le> er_index r' then Some r else Some r')"

definition find_gap_anchor ::
  "event_row list \<Rightarrow> indexer_view \<Rightarrow> nat \<Rightarrow> nat \<Rightarrow> nat \<Rightarrow> event_error + (nat \<times> nat) option" where
  "find_gap_anchor rows st target latest deployed =
     (let gap_start = nat (max (st_contiguous_index st + 1) 0) in
      if target < gap_start then Inr None
      else
        res_bind (to_i64 gap_start ''gap start index'') (\<lambda>gs.
        res_bind
          (case next_known rows gs of
             Some row \<Rightarrow>
               res_bind (to_u64 (er_index row) ''next known event index'') (\<lambda>row_index.
                 if row_index \<le> gap_start then Inr None
                 else res_bind (to_u64 (er_block row) ''next known event block'') (\<lambda>b. Inr (Some b)))
           | None \<Rightarrow> Inr (Some latest))
          (\<lambda>to_block.
            case to_block of
              None \<Rightarrow> Inr None
            | Some to_b \<Rightarrow>
                let from_b = max (case st_contiguous_block st of Some b \<Rightarrow> b | None \<Rightarrow> deployed) deployed
                in if to_b < from_b then Inr None else Inr (Some (from_b, to_b)))))"

section \<open>Scanning and synchronising\<close>

definition sat_add_u64 :: "nat \<Rightarrow> nat \<Rightarrow> nat" where
  "sat_add_u64 a b = min (2 ^ 64 - 1) (a + b)"

type_synonym get_events = "nat \<Rightarrow> nat \<Rightarrow> event_error + indexed_event list"

text \<open>
  The scan returns an optional error together with the tables: chunks that were
  inserted before an error stay committed.
\<close>

partial_function (option) scan_loop ::
  "get_events \<Rightarrow> nat \<Rightarrow> nat \<Rightarrow> nat \<Rightarrow> nat \<Rightarrow> event_db \<Rightarrow> (event_error option \<times> event_db) option" where
  "scan_loop get span overlap from to_block db =
     (if to_block < from then Some (None, db)
      else
        let to_b = min to_block (sat_add_u64 from (span - 1)) in
        case res_bind (get from to_b) (insert_events db) of
          Inl e \<Rightarrow> Some (Some e, db)
        | Inr db' \<Rightarrow>
            if to_b = to_block then Some (None, db')
            else
              let next_from = sat_add_u64 to_b 1;
                  from' = next_from - min overlap next_from
              in scan_loop get span overlap from' to_block db')"

declare scan_loop.simps [code]

definition scan_chunked ::
  "get_events \<Rightarrow> indexer_config \<Rightarrow> nat \<Rightarrow> nat \<Rightarrow> event_db \<Rightarrow> (event_error option \<times> event_db) option" where
  "scan_chunked get cfg from_block to_block db =
     (if to_block < from_block then Some (None, db)
      else scan_loop get (block_span cfg) (forward_scan_overlap cfg) from_block to_block db)"

text \<open>The backfill: scan the first gap as long as that makes progress.\<close>

function backfill ::
  "get_events \<Rightarrow> indexer_config \<Rightarrow> nat \<Rightarrow> indexer_view \<Rightarrow> nat \<Rightarrow> nat \<Rightarrow> event_db
     \<Rightarrow> ((event_error + indexer_view) \<times> event_db) option" where
  "backfill get cfg deployed st target latest db =
     (if 0 \<le> st_contiguous_index st \<and> target \<le> nat (st_contiguous_index st) then Some (Inr st, db)
      else
        case find_gap_anchor (event_rows db) st target latest deployed of
          Inl e \<Rightarrow> Some (Inl e, db)
        | Inr None \<Rightarrow> Some (Inr st, db)
        | Inr (Some (from_b, to_b)) \<Rightarrow>
            (case scan_chunked get cfg from_b to_b db of
               None \<Rightarrow> None
             | Some (Some e, db') \<Rightarrow> Some (Inl e, db')
             | Some (None, db') \<Rightarrow>
                 (case advance_contiguous_index db' of
                    (Inl e, db'') \<Rightarrow> Some (Inl e, db'')
                  | (Inr next_st, db'') \<Rightarrow>
                      if st_contiguous_index next_st \<le> st_contiguous_index st
                      then Some (Inr next_st, db'')
                      else backfill get cfg deployed next_st target latest db'')))"
  by pat_completeness auto
termination
  by (relation "measure (\<lambda>(get, cfg, deployed, st, target, latest, db).
        nat (int target - st_contiguous_index st))") auto

declare backfill.simps [simp del]

definition backfill_missing_indices ::
  "get_events \<Rightarrow> indexer_config \<Rightarrow> nat \<Rightarrow> indexer_view \<Rightarrow> nat option \<Rightarrow> nat \<Rightarrow> event_db
     \<Rightarrow> ((event_error + indexer_view) \<times> event_db) option" where
  "backfill_missing_indices get cfg deployed st expected latest db =
     (case expected of
        None \<Rightarrow> Some (Inr st, db)
      | Some target \<Rightarrow> backfill get cfg deployed st target latest db)"

text \<open>
  One synchronisation. \<open>latest_call\<close> and \<open>index_call\<close> are the answers of the two contract
  calls; an error ends the synchronisation with the tables as they are then.
\<close>

definition event_sync ::
  "get_events \<Rightarrow> (event_error + nat) \<Rightarrow> (event_error + nat) \<Rightarrow> indexer_config \<Rightarrow> nat \<Rightarrow> event_db
     \<Rightarrow> (event_error option \<times> event_db) option" where
  "event_sync get latest_call index_call cfg deployed db =
     (case ensure_state_row db deployed of
        (Inl e, db1) \<Rightarrow> Some (Some e, db1)
      | (Inr st, db1) \<Rightarrow>
     (case latest_call of Inl e \<Rightarrow> Some (Some e, db1) | Inr latest \<Rightarrow>
     (case index_call of Inl e \<Rightarrow> Some (Some e, db1) | Inr next_index \<Rightarrow>
       let expected = (if next_index = 0 then None else Some (next_index - 1));
           forward_start = max (st_last_synced_block st - forward_scan_overlap cfg) deployed
       in
       (case (if forward_start \<le> latest then scan_chunked get cfg forward_start latest db1
              else Some (None, db1)) of
          None \<Rightarrow> None
        | Some (Some e, db2) \<Rightarrow> Some (Some e, db2)
        | Some (None, db2) \<Rightarrow>
       (case persist_sync_watermark db2 latest next_index of
          Inl e \<Rightarrow> Some (Some e, db2)
        | Inr db3 \<Rightarrow>
       (case advance_contiguous_index db3 of
          (Inl e, db4) \<Rightarrow> Some (Some e, db4)
        | (Inr st', db4) \<Rightarrow>
       (case backfill_missing_indices get cfg deployed st' expected latest db4 of
          None \<Rightarrow> None
        | Some (Inl e, db5) \<Rightarrow> Some (Some e, db5)
        | Some (Inr _, db5) \<Rightarrow> Some (None, db5))))))))"

end
