(* ===== verification/Db_Tree.thy ===== *)
theory Db_Tree
  imports Incremental_Tree
begin

text \<open>
  The database-backed Merkle tree of \<open>indexer/src/trees/db.rs\<close>: three tables (current
  nodes, node updates, snapshots) keyed by token, appends inside a transaction with
  garbage collection of old update rows, and historical proofs built from an overlay
  of the updates after the target index.

  The tables are explicit state; each SQL statement is the corresponding operation
  on them, with primary-key conflicts as errors. A failing transaction leaves the
  tables unchanged. Connection errors and the partition DDL are not modelled.
  Indices are natural numbers below \<open>2^64\<close>; the conversions to \<open>i64\<close> are written out.
\<close>

section \<open>Errors, tables, configuration\<close>

datatype db_tree_error =
    InvalidTokenId int
  | InvalidHeight nat
  | LeafIndexOverflow
  | InvalidProofTargetZero
  | TreeEmpty
  | TargetIndexTooHigh nat nat
  | RetentionWindowExceeded nat nat
  | LeafIndexOutOfBounds nat nat
  | TokenNotFound int
  | MissingRoot nat
  | MissingHashChain nat
  | U64ToI64 string nat
  | Database string
  | InvalidFrBytes nat
  | InvalidU256Bytes nat
  | InvalidBitPathBytes nat
  | InvalidConfig string
  | DbPanic

record node_update_row =
  nu_token :: int
  nu_index :: int
  nu_path :: bytes
  nu_old :: bytes
  nu_new :: bytes

record snapshot_row =
  sn_token :: int
  sn_index :: int
  sn_root :: bytes
  sn_chain :: bytes

record merkle_db =
  token_ids :: "int list"
  merkle_nodes :: "int \<times> bytes \<rightharpoonup> bytes \<times> int"
  merkle_updates :: "node_update_row list"
  merkle_snapshots :: "snapshot_row list"

record db_tree =
  dt_token :: int
  dt_height :: nat
  dt_zero_hashes :: "fr list"
  dt_window :: nat

record append_result =
  ar_index :: nat
  ar_leaf_index :: nat
  ar_root :: fr
  ar_hash_chain :: u256

record historical_proof =
  hp_target_index :: nat
  hp_leaf_index :: nat
  hp_root :: fr
  hp_hash_chain :: u256
  hp_proof :: merkle_proof

definition db_config_new :: "nat \<Rightarrow> db_tree_error + nat" where
  "db_config_new window =
     (if window = 0 then Inl (InvalidConfig ''history_window must be greater than zero'')
      else Inr window)"

definition compute_zero_hashes :: "(fr \<Rightarrow> fr \<Rightarrow> fr) \<Rightarrow> nat \<Rightarrow> fr list" where
  "compute_zero_hashes H height = zero_loop H height 0 [0]"

definition tree_partitions_new :: "int \<Rightarrow> db_tree_error + int" where
  "tree_partitions_new tid = (if tid \<le> 0 then Inl (InvalidTokenId tid) else Inr tid)"

definition db_tree_new :: "(fr \<Rightarrow> fr \<Rightarrow> fr) \<Rightarrow> int \<Rightarrow> nat \<Rightarrow> nat \<Rightarrow> db_tree_error + db_tree" where
  "db_tree_new H tid height window =
     (if height = 0 then Inl (InvalidHeight height)
      else res_bind (tree_partitions_new tid) (\<lambda>p.
        Inr \<lparr>dt_token = p, dt_height = height, dt_zero_hashes = compute_zero_hashes H height,
             dt_window = window\<rparr>))"

definition zero_root :: "db_tree \<Rightarrow> fr option" where
  "zero_root t = (if dt_zero_hashes t = [] then None else Some (last (dt_zero_hashes t)))"

section \<open>Row encoding\<close>

definition fr_to_bytes :: "fr \<Rightarrow> bytes" where
  "fr_to_bytes x = be_bytes 32 (into_bigint x)"

definition bytes_to_bit_path :: "bytes \<Rightarrow> db_tree_error + bit_path" where
  "bytes_to_bit_path bs =
     (if length bs \<noteq> 12 then Inl (InvalidBitPathBytes (length bs)) else Inr (bp_from_bytes bs))"

definition bytes_to_fr :: "bytes \<Rightarrow> db_tree_error + fr" where
  "bytes_to_fr bs =
     (if length bs \<noteq> 32 then Inl (InvalidFrBytes (length bs)) else Inr (fr_of_nat (nat_of_be bs)))"

definition bytes_to_u256 :: "bytes \<Rightarrow> db_tree_error + u256" where
  "bytes_to_u256 bs =
     (if length bs \<noteq> 32 then Inl (InvalidU256Bytes (length bs)) else Inr (u256_from_be_slice bs))"

definition i64_try_from :: "string \<Rightarrow> nat \<Rightarrow> db_tree_error + int" where
  "i64_try_from label n = (if n < 2 ^ 63 then Inr (int n) else Inl (U64ToI64 label n))"

definition zero_hash_for_path :: "db_tree \<Rightarrow> bit_path \<Rightarrow> db_tree_error + fr" where
  "zero_hash_for_path t path =
     (if dt_height t < plen path then Inl DbPanic
      else (let idx = dt_height t - plen path
            in if idx < length (dt_zero_hashes t) then Inr (dt_zero_hashes t ! idx)
               else if dt_zero_hashes t = [] then Inl DbPanic else Inr (last (dt_zero_hashes t))))"

section \<open>Queries\<close>

text \<open>\<open>ORDER BY tree_index DESC LIMIT 1\<close> over the snapshots of a token.\<close>

fun latest_row :: "snapshot_row list \<Rightarrow> snapshot_row option" where
  "latest_row [] = None"
| "latest_row (r # rs) =
     (case latest_row rs of
        None \<Rightarrow> Some r
      | Some r' \<Rightarrow> if sn_index r' < sn_index r then Some r else Some r')"

definition token_snapshots :: "merkle_db \<Rightarrow> int \<Rightarrow> snapshot_row list" where
  "token_snapshots db tid = filter (\<lambda>r. sn_token r = tid) (merkle_snapshots db)"

definition latest_index_internal :: "merkle_db \<Rightarrow> int \<Rightarrow> nat" where
  "latest_index_internal db tid =
     (case latest_row (token_snapshots db tid) of
        None \<Rightarrow> 0
      | Some r \<Rightarrow> nat (sn_index r mod 2 ^ 64))"

definition latest_hash_chain_internal :: "merkle_db \<Rightarrow> int \<Rightarrow> db_tree_error + u256 option" where
  "latest_hash_chain_internal db tid =
     (case latest_row (token_snapshots db tid) of
        None \<Rightarrow> Inr None
      | Some r \<Rightarrow> res_bind (bytes_to_u256 (sn_chain r)) (\<lambda>c. Inr (Some c)))"

definition snapshot_at :: "merkle_db \<Rightarrow> int \<Rightarrow> int \<Rightarrow> snapshot_row option" where
  "snapshot_at db tid i = find (\<lambda>r. sn_index r = i) (token_snapshots db tid)"

definition root_at_internal :: "merkle_db \<Rightarrow> int \<Rightarrow> nat \<Rightarrow> db_tree_error + fr option" where
  "root_at_internal db tid index =
     res_bind (i64_try_from ''historical root index'' index) (\<lambda>i.
       case snapshot_at db tid i of
         None \<Rightarrow> Inr None
       | Some r \<Rightarrow> res_bind (bytes_to_fr (sn_root r)) (\<lambda>x. Inr (Some x)))"

definition hash_chain_at_internal :: "merkle_db \<Rightarrow> int \<Rightarrow> nat \<Rightarrow> db_tree_error + u256 option" where
  "hash_chain_at_internal db tid index =
     res_bind (i64_try_from ''historical hash chain index'' index) (\<lambda>i.
       case snapshot_at db tid i of
         None \<Rightarrow> Inr None
       | Some r \<Rightarrow> res_bind (bytes_to_u256 (sn_chain r)) (\<lambda>x. Inr (Some x)))"

definition lock_token_row :: "merkle_db \<Rightarrow> int \<Rightarrow> db_tree_error + unit" where
  "lock_token_row db tid = (if tid \<in> set (token_ids db) then Inr () else Inl (TokenNotFound tid))"

text \<open>\<open>SELECT node_path, hash ... WHERE node_path IN (...)\<close> and the decoding of the rows.\<close>

fun load_node_hashes ::
  "merkle_db \<Rightarrow> int \<Rightarrow> bit_path list \<Rightarrow> db_tree_error + (bit_path \<rightharpoonup> fr)" where
  "load_node_hashes db tid [] = Inr Map.empty"
| "load_node_hashes db tid (p # ps) =
     (case merkle_nodes db (tid, bp_to_bytes p) of
        None \<Rightarrow> load_node_hashes db tid ps
      | Some (hash_bytes, _) \<Rightarrow>
          res_bind (bytes_to_bit_path (bp_to_bytes p)) (\<lambda>path.
          res_bind (bytes_to_fr hash_bytes) (\<lambda>hash.
          res_bind (load_node_hashes db tid ps) (\<lambda>m. Inr (m(path \<mapsto> hash))))))"

fun overlay_loop ::
  "node_update_row list \<Rightarrow> (bit_path \<rightharpoonup> fr) \<Rightarrow> db_tree_error + (bit_path \<rightharpoonup> fr)" where
  "overlay_loop [] overlay = Inr overlay"
| "overlay_loop (r # rs) overlay =
     res_bind (bytes_to_bit_path (nu_path r)) (\<lambda>path.
       if overlay path \<noteq> None then overlay_loop rs overlay
       else res_bind (bytes_to_fr (nu_old r)) (\<lambda>hash. overlay_loop rs (overlay(path \<mapsto> hash))))"

definition load_overlay ::
  "merkle_db \<Rightarrow> int \<Rightarrow> nat \<Rightarrow> nat \<Rightarrow> db_tree_error + (bit_path \<rightharpoonup> fr)" where
  "load_overlay db tid from_index to_index =
     (if to_index < from_index then Inr Map.empty
      else
        res_bind (i64_try_from ''overlay lower bound'' from_index) (\<lambda>from_i64.
        res_bind (i64_try_from ''overlay upper bound'' to_index) (\<lambda>to_i64.
          overlay_loop
            (sort_key nu_index
              (filter (\<lambda>r. nu_token r = tid \<and> from_i64 \<le> nu_index r \<and> nu_index r \<le> to_i64)
                (merkle_updates db)))
            Map.empty)))"

section \<open>Appending a leaf\<close>

fun fetch_loop :: "nat \<Rightarrow> bit_path \<Rightarrow> bit_path list" where
  "fetch_loop 0 p = []"
| "fetch_loop (Suc n) p =
     (let parent = snd (bp_pop p)
      in bp_sibling p # parent # (if bp_is_empty parent then [] else fetch_loop n parent))"

record append_plan =
  ap_nodes :: "bit_path \<rightharpoonup> fr"
  ap_updates :: "(bytes \<times> bytes \<times> bytes) list"

text \<open>Compare a node with its stored hash and plan an update if they differ.\<close>

definition plan_node :: "db_tree \<Rightarrow> append_plan \<Rightarrow> bit_path \<Rightarrow> fr \<Rightarrow> db_tree_error + append_plan" where
  "plan_node t s path node_hash =
     res_bind (zero_hash_for_path t path) (\<lambda>zero.
       let old_hash = (case ap_nodes s path of Some h \<Rightarrow> h | None \<Rightarrow> zero)
       in if old_hash \<noteq> node_hash
          then Inr \<lparr>ap_nodes = (ap_nodes s)(path \<mapsto> node_hash),
                    ap_updates = ap_updates s
                      @ [(bp_to_bytes path, fr_to_bytes old_hash, fr_to_bytes node_hash)]\<rparr>
          else Inr s)"

fun append_loop ::
  "(fr \<Rightarrow> fr \<Rightarrow> fr) \<Rightarrow> db_tree \<Rightarrow> nat \<Rightarrow> bit_path \<Rightarrow> fr \<Rightarrow> append_plan
     \<Rightarrow> db_tree_error + (fr \<times> append_plan)" where
  "append_loop H t 0 current_path node_hash s = Inr (node_hash, s)"
| "append_loop H t (Suc n) current_path node_hash s =
     res_bind (plan_node t s current_path node_hash) (\<lambda>s.
     let sibling_path = bp_sibling current_path
     in res_bind (zero_hash_for_path t sibling_path) (\<lambda>sibling_zero.
     let sibling_hash = (case ap_nodes s sibling_path of Some h \<Rightarrow> h | None \<Rightarrow> sibling_zero);
         is_left = (bp_value current_path AND 1 = 0);
         (left, right) = (if is_left then (node_hash, sibling_hash) else (sibling_hash, node_hash))
     in append_loop H t n (snd (bp_pop current_path)) (H left right) s))"

definition update_rows ::
  "int \<Rightarrow> int \<Rightarrow> (bytes \<times> bytes \<times> bytes) list \<Rightarrow> node_update_row list" where
  "update_rows tid i us =
     map (\<lambda>(p, old, new). \<lparr>nu_token = tid, nu_index = i, nu_path = p, nu_old = old, nu_new = new\<rparr>) us"

definition upsert_nodes ::
  "(int \<times> bytes \<rightharpoonup> bytes \<times> int) \<Rightarrow> int \<Rightarrow> int \<Rightarrow> (bytes \<times> bytes \<times> bytes) list
     \<Rightarrow> (int \<times> bytes \<rightharpoonup> bytes \<times> int)" where
  "upsert_nodes m tid i us = foldl (\<lambda>m (p, old, new). m((tid, p) \<mapsto> (new, i))) m us"

definition insert_updates ::
  "merkle_db \<Rightarrow> int \<Rightarrow> int \<Rightarrow> (bytes \<times> bytes \<times> bytes) list \<Rightarrow> db_tree_error + merkle_db" where
  "insert_updates db tid i us =
     (if us = [] then Inr db
      else if list_ex (\<lambda>r. nu_token r = tid \<and> nu_index r = i \<and> nu_path r \<in> fst ` set us) (merkle_updates db)
              \<or> \<not> distinct (map fst us)
      then Inl (Database ''write merkle update rows batch'')
      else Inr (db\<lparr>merkle_updates := merkle_updates db @ update_rows tid i us,
                   merkle_nodes := upsert_nodes (merkle_nodes db) tid i us\<rparr>))"

definition insert_snapshot ::
  "merkle_db \<Rightarrow> int \<Rightarrow> int \<Rightarrow> bytes \<Rightarrow> bytes \<Rightarrow> db_tree_error + merkle_db" where
  "insert_snapshot db tid i root_bytes chain_bytes =
     (if list_ex (\<lambda>r. sn_token r = tid \<and> sn_index r = i) (merkle_snapshots db)
      then Inl (Database ''insert merkle snapshot'')
      else Inr (db\<lparr>merkle_snapshots := merkle_snapshots db
             @ [\<lparr>sn_token = tid, sn_index = i, sn_root = root_bytes, sn_chain = chain_bytes\<rparr>]\<rparr>))"

definition prune_updates :: "merkle_db \<Rightarrow> int \<Rightarrow> int \<Rightarrow> merkle_db" where
  "prune_updates db tid threshold =
     db\<lparr>merkle_updates := filter (\<lambda>r. \<not> (nu_token r = tid \<and> nu_index r \<le> threshold)) (merkle_updates db)\<rparr>"

definition append_leaf ::
  "(fr \<Rightarrow> fr \<Rightarrow> fr) \<Rightarrow> (bytes \<Rightarrow> bytes) \<Rightarrow> db_tree \<Rightarrow> merkle_db \<Rightarrow> address \<Rightarrow> u256
     \<Rightarrow> db_tree_error + (append_result \<times> merkle_db)" where
  "append_leaf H sha t db addr v =
     (let tid = dt_token t in
      res_bind (lock_token_row db tid) (\<lambda>_.
      let latest_index = latest_index_internal db tid;
          next_index = latest_index + 1;
          leaf_index = next_index - 1
      in
      res_bind (latest_hash_chain_internal db tid) (\<lambda>prev.
      let prev_hash_chain = (case prev of None \<Rightarrow> 0 | Some c \<Rightarrow> c);
          leaf_hash = compute_leaf_hash H (address_to_fr addr) (u256_to_fr v)
      in
      res_bind (i64_try_from ''merkle index during append'' next_index) (\<lambda>next_index_i64.
      let leaf_path = bp_new (word_of_nat (dt_height t)) (word_of_nat leaf_index);
          position_list = leaf_path # fetch_loop (dt_height t) leaf_path
      in
      res_bind (load_node_hashes db tid position_list) (\<lambda>existing_nodes.
      res_bind (append_loop H t (dt_height t) leaf_path leaf_hash
          \<lparr>ap_nodes = existing_nodes, ap_updates = []\<rparr>) (\<lambda>(node_hash, s).
      res_bind (plan_node t s bp_default node_hash) (\<lambda>s.
      res_bind (insert_updates db tid next_index_i64 (ap_updates s)) (\<lambda>db.
      let new_hash_chain = hash_chain sha prev_hash_chain addr v in
      res_bind (insert_snapshot db tid next_index_i64 (fr_to_bytes node_hash)
          (u256_to_be_bytes new_hash_chain)) (\<lambda>db.
      let gc_threshold = next_index - dt_window t in
      res_bind (i64_try_from ''gc threshold'' gc_threshold) (\<lambda>gc_threshold_i64.
      let db = prune_updates db tid gc_threshold_i64 in
      Inr (\<lparr>ar_index = next_index, ar_leaf_index = leaf_index, ar_root = node_hash,
             ar_hash_chain = new_hash_chain\<rparr>, db)))))))))))"

section \<open>Historical proofs\<close>

fun prefetch_loop :: "(bit_path \<rightharpoonup> fr) \<Rightarrow> nat \<Rightarrow> bit_path \<Rightarrow> bit_path list" where
  "prefetch_loop overlay 0 path = []"
| "prefetch_loop overlay (Suc n) path =
     (if overlay (bp_sibling path) = None then [bp_sibling path] else [])
       @ prefetch_loop overlay n (snd (bp_pop path))"

text \<open>The siblings of one leaf; missing nodes are entered into the cache as empty subtrees.\<close>

fun sibling_loop ::
  "db_tree \<Rightarrow> (bit_path \<rightharpoonup> fr) \<Rightarrow> nat \<Rightarrow> bit_path \<Rightarrow> (bit_path \<rightharpoonup> fr)
     \<Rightarrow> db_tree_error + (fr list \<times> (bit_path \<rightharpoonup> fr))" where
  "sibling_loop t overlay 0 path cache = Inr ([], cache)"
| "sibling_loop t overlay (Suc n) path cache =
     (let sibling_path = bp_sibling path in
      res_bind
        (case overlay sibling_path of
           Some h \<Rightarrow> Inr (h, cache)
         | None \<Rightarrow>
             (case cache sibling_path of
                Some h \<Rightarrow> Inr (h, cache)
              | None \<Rightarrow> res_bind (zero_hash_for_path t sibling_path) (\<lambda>z.
                  Inr (z, cache(sibling_path \<mapsto> z)))))
        (\<lambda>(sibling_hash, cache).
          res_bind (sibling_loop t overlay n (snd (bp_pop path)) cache) (\<lambda>(rest, cache).
            Inr (sibling_hash # rest, cache))))"

definition proof_path :: "db_tree \<Rightarrow> nat \<Rightarrow> bit_path" where
  "proof_path t leaf_index = bp_new (word_of_nat (dt_height t)) (word_of_nat leaf_index)"

fun proofs_loop ::
  "db_tree \<Rightarrow> (bit_path \<rightharpoonup> fr) \<Rightarrow> nat \<Rightarrow> fr \<Rightarrow> u256 \<Rightarrow> nat list \<Rightarrow> (bit_path \<rightharpoonup> fr)
     \<Rightarrow> db_tree_error + historical_proof list" where
  "proofs_loop t overlay target_index root chain [] cache = Inr []"
| "proofs_loop t overlay target_index root chain (leaf_index # ls) cache =
     res_bind (sibling_loop t overlay (dt_height t) (proof_path t leaf_index) cache) (\<lambda>(sibs, cache).
     res_bind (proofs_loop t overlay target_index root chain ls cache) (\<lambda>rest.
       Inr (\<lparr>hp_target_index = target_index, hp_leaf_index = leaf_index, hp_root = root,
             hp_hash_chain = chain, hp_proof = \<lparr>siblings = sibs\<rparr>\<rparr> # rest)))"

fun check_leaf_indices :: "nat \<Rightarrow> nat list \<Rightarrow> db_tree_error + unit" where
  "check_leaf_indices target_index [] = Inr ()"
| "check_leaf_indices target_index (leaf_index # ls) =
     (if target_index \<le> leaf_index then Inl (LeafIndexOutOfBounds leaf_index target_index)
      else check_leaf_indices target_index ls)"

definition prove_many ::
  "db_tree \<Rightarrow> merkle_db \<Rightarrow> nat \<Rightarrow> nat list \<Rightarrow> db_tree_error + historical_proof list" where
  "prove_many t db target_index leaf_indices =
     (let tid = dt_token t; latest_index = latest_index_internal db tid in
      if leaf_indices = [] then Inr []
      else if target_index = 0 then Inl InvalidProofTargetZero
      else if latest_index = 0 then Inl TreeEmpty
      else if latest_index < target_index then Inl (TargetIndexTooHigh target_index latest_index)
      else if dt_window t < latest_index - target_index
      then Inl (RetentionWindowExceeded target_index (dt_window t))
      else
        res_bind (check_leaf_indices target_index leaf_indices) (\<lambda>_.
        res_bind (load_overlay db tid (target_index + 1) latest_index) (\<lambda>overlay.
        res_bind (res_bind (root_at_internal db tid target_index) (ok_or (MissingRoot target_index))) (\<lambda>root.
        res_bind (res_bind (hash_chain_at_internal db tid target_index)
            (ok_or (MissingHashChain target_index))) (\<lambda>chain.
        let prefetch_paths = concat (map (\<lambda>l. prefetch_loop overlay (dt_height t) (proof_path t l)) leaf_indices) in
        res_bind (if prefetch_paths = [] then Inr Map.empty else load_node_hashes db tid prefetch_paths) (\<lambda>cache.
        proofs_loop t overlay target_index root chain leaf_indices cache))))))"

definition db_prove :: "db_tree \<Rightarrow> merkle_db \<Rightarrow> nat \<Rightarrow> nat \<Rightarrow> db_tree_error + historical_proof" where
  "db_prove t db target_index leaf_index =
     res_bind (prove_many t db target_index [leaf_index]) (\<lambda>proofs.
       if proofs = [] then Inl DbPanic else Inr (last proofs))"

definition latest_index :: "db_tree \<Rightarrow> merkle_db \<Rightarrow> nat" where
  "latest_index t db = latest_index_internal db (dt_token t)"

definition root_at :: "db_tree \<Rightarrow> merkle_db \<Rightarrow> nat \<Rightarrow> db_tree_error + fr option" where
  "root_at t db index = root_at_internal db (dt_token t) index"

definition hash_chain_at :: "db_tree \<Rightarrow> merkle_db \<Rightarrow> nat \<Rightarrow> db_tree_error + u256 option" where
  "hash_chain_at t db index = hash_chain_at_internal db (dt_token t) index"

end
