(* ===== verification/Indexer_Jobs.thy ===== *)
theory Indexer_Jobs
  imports Lease Event_Indexer Db_Tree
begin

text \<open>
  The event job (\<open>indexer/src/jobs/event.rs\<close>) and the tree job (\<open>indexer/src/jobs/tree.rs\<close>)
  over the whole database: the token registry, the event tables of every token and the
  Merkle tables. A job takes the lease of a token, works, and releases it; an error of one
  token is logged and the loop goes on.

  The contracts of the tokens and the standard library's default hasher are parameters.
\<close>

section \<open>Tokens and the database\<close>

record token_entry =
  te_label :: string
  te_token_address :: address
  te_verifier_address :: address
  te_minter_address :: "address option"
  te_chain_id :: nat
  te_deployed_block :: nat
  te_rpc_urls :: "string list"
  te_legacy_tx :: bool

record token_metadata =
  tm_token_address :: address
  tm_verifier_address :: address
  tm_chain_id :: nat

definition te_metadata :: "token_entry \<Rightarrow> token_metadata" where
  "te_metadata t = \<lparr>tm_token_address = te_token_address t, tm_verifier_address = te_verifier_address t,
     tm_chain_id = te_chain_id t\<rparr>"

type_synonym default_hasher = "string \<times> nat \<times> address \<times> address \<times> nat \<Rightarrow> u64"

definition lock_key_with_salt :: "default_hasher \<Rightarrow> token_entry \<Rightarrow> nat \<Rightarrow> int" where
  "lock_key_with_salt hasher t salt =
     sint (hasher (te_label t, te_chain_id t, te_token_address t, te_verifier_address t, salt))"

definition EVENT_LOCK_SALT :: nat where
  "EVENT_LOCK_SALT = 0x45564e54"

definition TREE_LOCK_SALT :: nat where
  "TREE_LOCK_SALT = 0x54524545"

record token_row =
  tk_id :: int
  tk_address :: bytes
  tk_verifier :: bytes
  tk_chain :: int

text \<open>
  \<open>idb_next_id\<close> is the sequence of the identity column; \<open>idb_events\<close> gives each token its
  partition of the two event tables.
\<close>

record indexer_db =
  idb_tokens :: "token_row list"
  idb_next_id :: int
  idb_events :: "int \<Rightarrow> event_db"
  idb_merkle :: merkle_db
  idb_leases :: leases

datatype job_error =
    JobError string
  | JobEvent event_error
  | JobTree db_tree_error

type_synonym job_result = "(job_error + unit) \<times> indexer_db"

section \<open>Processing a token under its lease\<close>

text \<open>
  \<open>process_token\<close> of the jobs: nothing happens when the lease is taken; otherwise the work
  is done and the lease released, whatever the outcome. A failed release is only logged.
  \<open>None\<close> is work that never ends.
\<close>

definition with_lease ::
  "nat \<Rightarrow> nat \<Rightarrow> int \<Rightarrow> (indexer_db \<Rightarrow> job_result option) \<Rightarrow> indexer_db \<Rightarrow> job_result option" where
  "with_lease now holder key work db =
     (let (acquired, ls) = try_acquire_lock now holder key (idb_leases db) in
      if \<not> acquired then Some (Inr (), db)
      else
        case work (db\<lparr>idb_leases := ls\<rparr>) of
          None \<Rightarrow> None
        | Some (outcome, db') \<Rightarrow>
            Some (outcome, db'\<lparr>idb_leases := snd (release_lease holder key (idb_leases db'))\<rparr>))"

text \<open>\<open>run_once\<close> of the jobs: each token in turn, errors logged.\<close>

fun run_once :: "(token_entry \<Rightarrow> indexer_db \<Rightarrow> job_result option) \<Rightarrow> token_entry list \<Rightarrow> indexer_db \<Rightarrow> indexer_db option" where
  "run_once process [] db = Some db"
| "run_once process (t # ts) db =
     (case process t db of None \<Rightarrow> None | Some (_, db') \<Rightarrow> run_once process ts db')"

section \<open>The event job\<close>

record token_chain =
  tc_latest_block :: "event_error + nat"
  tc_index :: "event_error + nat"
  tc_get_events :: get_events

definition find_token :: "token_row list \<Rightarrow> bytes \<Rightarrow> int \<Rightarrow> token_row option" where
  "find_token rows a c = find (\<lambda>r. tk_address r = a \<and> tk_chain r = c) rows"

text \<open>
  \<open>INSERT ... ON CONFLICT (token_address, chain_id) DO UPDATE ... RETURNING id\<close>; the
  statement takes a number from the sequence also when the row exists.
\<close>

definition ensure_token_record :: "token_metadata \<Rightarrow> indexer_db \<Rightarrow> (event_error + int) \<times> indexer_db" where
  "ensure_token_record m db =
     (case to_i64 (tm_chain_id m) ''chain_id'' of
        Inl e \<Rightarrow> (Inl e, db)
      | Inr chain \<Rightarrow>
          let a = address_bytes (tm_token_address m); v = address_bytes (tm_verifier_address m);
              fresh = idb_next_id db
          in case find_token (idb_tokens db) a chain of
               Some r \<Rightarrow>
                 (Inr (tk_id r),
                  db\<lparr>idb_next_id := fresh + 1,
                     idb_tokens := map (\<lambda>r'. if tk_address r' = a \<and> tk_chain r' = chain
                                             then r'\<lparr>tk_verifier := v\<rparr> else r') (idb_tokens db)\<rparr>)
             | None \<Rightarrow>
                 (Inr fresh,
                  db\<lparr>idb_next_id := fresh + 1,
                     idb_tokens := idb_tokens db @ [\<lparr>tk_id = fresh, tk_address = a, tk_verifier = v, tk_chain = chain\<rparr>],
                     idb_merkle := (idb_merkle db)\<lparr>token_ids := token_ids (idb_merkle db) @ [fresh]\<rparr>\<rparr>))"

definition event_indexer_new :: "token_metadata \<Rightarrow> indexer_db \<Rightarrow> (event_error + int) \<times> indexer_db" where
  "event_indexer_new m db =
     (case ensure_token_record m db of
        (Inl e, db') \<Rightarrow> (Inl e, db')
      | (Inr tid, db') \<Rightarrow> (if tid \<le> 0 then Inl (EvInvalidTokenId tid) else Inr tid, db'))"

definition sync_token :: "(token_entry \<Rightarrow> token_chain) \<Rightarrow> indexer_config \<Rightarrow> token_entry \<Rightarrow> indexer_db \<Rightarrow> job_result option" where
  "sync_token chain cfg t db =
     (case event_indexer_new (te_metadata t) db of
        (Inl e, db') \<Rightarrow> Some (Inl (JobEvent e), db')
      | (Inr tid, db') \<Rightarrow>
          (case event_sync (tc_get_events (chain t)) (tc_latest_block (chain t)) (tc_index (chain t)) cfg
                  (te_deployed_block t) (idb_events db' tid) of
             None \<Rightarrow> None
           | Some (err, edb) \<Rightarrow>
               Some (case err of None \<Rightarrow> Inr () | Some e \<Rightarrow> Inl (JobEvent e),
                     db'\<lparr>idb_events := (idb_events db')(tid := edb)\<rparr>)))"

definition event_process_token ::
  "default_hasher \<Rightarrow> (token_entry \<Rightarrow> token_chain) \<Rightarrow> nat \<Rightarrow> nat \<Rightarrow> indexer_config \<Rightarrow> token_entry \<Rightarrow> indexer_db
     \<Rightarrow> job_result option" where
  "event_process_token hasher chain now holder cfg t =
     with_lease now holder (lock_key_with_salt hasher t EVENT_LOCK_SALT) (sync_token chain cfg t)"

definition event_run_once ::
  "default_hasher \<Rightarrow> (token_entry \<Rightarrow> token_chain) \<Rightarrow> nat \<Rightarrow> nat \<Rightarrow> indexer_config \<Rightarrow> token_entry list \<Rightarrow> indexer_db
     \<Rightarrow> indexer_db option" where
  "event_run_once hasher chain now holder cfg = run_once (event_process_token hasher chain now holder cfg)"

section \<open>The tree job\<close>

record tree_job_config =
  tj_interval_ms :: nat
  tj_height :: nat
  tj_history_window :: nat
  tj_batch_size :: nat

definition tree_config_ensure_valid :: "tree_job_config \<Rightarrow> job_error + unit" where
  "tree_config_ensure_valid c =
     (if tj_interval_ms c = 0 then Inl (JobError ''tree job interval must be positive'')
      else if tj_height c = 0 then Inl (JobError ''tree height must be positive'')
      else if tj_batch_size c = 0 then Inl (JobError ''tree job batch_size must be positive'')
      else case db_config_new (tj_history_window c) of
             Inl e \<Rightarrow> Inl (JobTree e)
           | Inr _ \<Rightarrow> Inr ())"

definition parse_address :: "bytes \<Rightarrow> job_error + address" where
  "parse_address bs =
     (if length bs \<noteq> 20 then Inl (JobError ''address bytes must be 20'') else Inr (word_of_nat (nat_of_be bs)))"

definition parse_u256 :: "bytes \<Rightarrow> job_error + u256" where
  "parse_u256 bs =
     (if length bs \<noteq> 32 then Inl (JobError ''value bytes must be 32'') else Inr (word_of_nat (nat_of_be bs)))"

definition latest_tree_index :: "merkle_db \<Rightarrow> int \<Rightarrow> nat" where
  "latest_tree_index db tid =
     nat (max 0 (foldr max (map sn_index (filter (\<lambda>r. sn_token r = tid) (merkle_snapshots db))) 0))"

definition contiguous_event_index :: "event_db \<Rightarrow> nat option" where
  "contiguous_event_index edb =
     (case indexer_state edb of
        Some st \<Rightarrow> if 0 \<le> contiguous_index st then Some (nat (contiguous_index st)) else None
      | None \<Rightarrow> None)"

text \<open>\<open>WHERE event_index >= $2 AND event_index <= $3 ORDER BY event_index LIMIT $4\<close>.\<close>

definition fetch_events :: "event_row list \<Rightarrow> int \<Rightarrow> int \<Rightarrow> nat \<Rightarrow> event_row list" where
  "fetch_events rows lo hi limit =
     take limit (sort_key er_index (filter (\<lambda>r. lo \<le> er_index r \<and> er_index r \<le> hi) rows))"

definition job_i64 :: "string \<Rightarrow> nat \<Rightarrow> job_error + int" where
  "job_i64 label v = (if v < 2 ^ 63 then Inr (int v) else Inl (JobError label))"

text \<open>
  One batch: \<open>Inr (Some n)\<close> goes on with \<open>n\<close> processed events, \<open>Inr None\<close> is the early
  return on a non-contiguous sequence. Leaves appended before an error stay.
\<close>

fun ingest_batch ::
  "(fr \<Rightarrow> fr \<Rightarrow> fr) \<Rightarrow> (bytes \<Rightarrow> bytes) \<Rightarrow> db_tree \<Rightarrow> event_row list \<Rightarrow> nat \<Rightarrow> merkle_db
     \<Rightarrow> (job_error + nat option) \<times> merkle_db" where
  "ingest_batch H sha t [] processed db = (Inr (Some processed), db)"
| "ingest_batch H sha t (e # es) processed db =
     (if er_index e < 0 then (Inl (JobError ''event index negative''), db)
      else
        let event_index = nat (er_index e) in
        if event_index < processed then ingest_batch H sha t es processed db
        else if event_index \<noteq> processed then (Inr None, db)
        else
          case parse_address (er_to e) of Inl x \<Rightarrow> (Inl x, db) | Inr to_address \<Rightarrow>
          case parse_u256 (er_amount e) of Inl x \<Rightarrow> (Inl x, db) | Inr val \<Rightarrow>
          case append_leaf H sha t db to_address val of
            Inl x \<Rightarrow> (Inl (JobTree x), db)
          | Inr (r, db') \<Rightarrow> ingest_batch H sha t es (ar_index r) db')"

partial_function (option) ingest_events ::
  "(fr \<Rightarrow> fr \<Rightarrow> fr) \<Rightarrow> (bytes \<Rightarrow> bytes) \<Rightarrow> db_tree \<Rightarrow> event_row list \<Rightarrow> nat \<Rightarrow> nat \<Rightarrow> nat \<Rightarrow> merkle_db
     \<Rightarrow> ((job_error + unit) \<times> merkle_db) option" where
  "ingest_events H sha t rows processed target batch_size db =
     (if target \<le> processed then Some (Inr (), db)
      else
        let batch = min (target - processed) batch_size in
        case job_i64 ''processed index exceeds i64'' processed of
          Inl e \<Rightarrow> Some (Inl e, db)
        | Inr start_index \<Rightarrow>
        (case job_i64 ''target index exceeds i64'' (target - 1) of
           Inl e \<Rightarrow> Some (Inl e, db)
         | Inr upper_index \<Rightarrow>
        let events = fetch_events rows start_index upper_index (min batch (2 ^ 63 - 1)) in
        if events = [] then Some (Inr (), db)
        else
          case ingest_batch H sha t events processed db of
            (Inl e, db') \<Rightarrow> Some (Inl e, db')
          | (Inr None, db') \<Rightarrow> Some (Inr (), db')
          | (Inr (Some processed'), db') \<Rightarrow> ingest_events H sha t rows processed' target batch_size db'))"

declare ingest_events.simps [code]

definition tree_for_token ::
  "(fr \<Rightarrow> fr \<Rightarrow> fr) \<Rightarrow> tree_job_config \<Rightarrow> int \<Rightarrow> db_tree_error + db_tree" where
  "tree_for_token H cfg tid =
     res_bind (db_config_new (tj_history_window cfg)) (\<lambda>window. db_tree_new H tid (tj_height cfg) window)"

definition ingest_token ::
  "(fr \<Rightarrow> fr \<Rightarrow> fr) \<Rightarrow> (bytes \<Rightarrow> bytes) \<Rightarrow> tree_job_config \<Rightarrow> token_entry \<Rightarrow> indexer_db \<Rightarrow> job_result option" where
  "ingest_token H sha cfg t db =
     (case job_i64 ''chain_id exceeds i64 range for tree ingestion'' (te_chain_id t) of
        Inl e \<Rightarrow> Some (Inl e, db)
      | Inr chain \<Rightarrow>
     (case find_token (idb_tokens db) (address_bytes (te_token_address t)) chain of
        None \<Rightarrow> Some (Inr (), db)
      | Some row \<Rightarrow>
     (case tree_for_token H cfg (tk_id row) of
        Inl e \<Rightarrow> Some (Inl (JobTree e), db)
      | Inr tree \<Rightarrow>
          let processed = latest_tree_index (idb_merkle db) (tk_id row);
              target = (case contiguous_event_index (idb_events db (tk_id row)) of
                          None \<Rightarrow> 0 | Some i \<Rightarrow> i + 1)
          in if target < processed \<or> processed = target then Some (Inr (), db)
             else
               map_option (\<lambda>(outcome, m). (outcome, db\<lparr>idb_merkle := m\<rparr>))
                 (ingest_events H sha tree (event_rows (idb_events db (tk_id row))) processed target
                    (tj_batch_size cfg) (idb_merkle db)))))"

definition tree_process_token ::
  "(fr \<Rightarrow> fr \<Rightarrow> fr) \<Rightarrow> (bytes \<Rightarrow> bytes) \<Rightarrow> default_hasher \<Rightarrow> nat \<Rightarrow> nat \<Rightarrow> tree_job_config \<Rightarrow> token_entry \<Rightarrow> indexer_db
     \<Rightarrow> job_result option" where
  "tree_process_token H sha hasher now holder cfg t =
     with_lease now holder (lock_key_with_salt hasher t TREE_LOCK_SALT) (ingest_token H sha cfg t)"

definition tree_run_once ::
  "(fr \<Rightarrow> fr \<Rightarrow> fr) \<Rightarrow> (bytes \<Rightarrow> bytes) \<Rightarrow> default_hasher \<Rightarrow> nat \<Rightarrow> nat \<Rightarrow> tree_job_config \<Rightarrow> token_entry list \<Rightarrow> indexer_db
     \<Rightarrow> indexer_db option" where
  "tree_run_once H sha hasher now holder cfg = run_once (tree_process_token H sha hasher now holder cfg)"

end
