(* ===== verification/Root_Job.thy ===== *)
theory Root_Job
  imports Circuits Indexer_Jobs
begin

text \<open>
  The root prover job of \<open>indexer/src/jobs/root.rs\<close>: it folds the new transfers of a token
  into an incrementally verifiable proof, keeps one proof per index in the database, and
  submits the newest one when the verifier contract has reserved the matching hash chain.

  The folding scheme, its serialisation, the decider service and the contracts are
  parameters; randomness is part of the folding scheme. The submissions of
  proofs are recorded in \<open>rd_sent\<close> when they are made.
\<close>

section \<open>Parameters\<close>

record ('n, 'i) nova_ops =
  nv_init :: "fr list \<Rightarrow> string + 'n"
  nv_prove_step :: "'n \<Rightarrow> root_external_inputs \<Rightarrow> string + 'n"
  nv_state :: "'n \<Rightarrow> fr list"
  nv_ivc_proof :: "'n \<Rightarrow> 'i"
  nv_verify :: "'i \<Rightarrow> string + unit"
  nv_from_ivc :: "'i \<Rightarrow> string + 'n"
  nv_serialize :: "'i \<Rightarrow> string + bytes"
  nv_deserialize :: "bytes \<Rightarrow> string + 'i"

datatype root_error =
    RootError string
  | RootTree db_tree_error
  | RootNova string
  | RootCall string
  | RootJobError job_error
  | RootPanic

text \<open>
  What the contracts and the decider answer in a cycle; signing with bytes that are no key
  panics. Submitting a proof is two calls, the transaction and the wait for its receipt.
\<close>

record root_calls =
  rc_index :: "string + nat"
  rc_latest_proved :: "string + nat"
  rc_reserve :: "root_error + nat \<times> u256"
  rc_decider :: "bytes \<Rightarrow> string + bytes"
  rc_prove_root :: "bytes \<Rightarrow> root_error + unit"
  rc_prove_receipt :: "bytes \<Rightarrow> root_error + unit"

section \<open>Tables and state\<close>

record ivc_row =
  ir_start :: int
  ir_proof :: bytes
  ir_state_index :: int
  ir_hash_chain :: bytes
  ir_root :: bytes

record prover_row =
  pr_base :: int
  pr_compiled :: int
  pr_submitted :: int
  pr_pending_index :: "int option"
  pr_pending_chain :: "bytes option"

text \<open>
  \<open>rd_sent\<close> is no table but the history of submissions, newest first: for every transaction that
  was handed to the contract client, whatever came of it, the IVC bytes given to the decider,
  the proof it returned, and whether the receipt arrived.
\<close>

record root_db =
  rd_ivc :: "int \<times> int \<rightharpoonup> ivc_row"
  rd_state :: "int \<rightharpoonup> prover_row"
  rd_sent :: "(bytes \<times> bytes \<times> bool) list"

record prover_state =
  ps_base :: nat
  ps_compiled :: nat
  ps_submitted :: nat
  ps_pending_index :: "nat option"
  ps_pending_chain :: "u256 option"

record root_event =
  re_index :: nat
  re_to :: address
  re_amount :: u256

record ivc_record =
  iv_proof :: bytes
  iv_hash_chain :: fr
  iv_root :: fr

record root_job_config =
  rj_history_window :: nat
  rj_submit_enabled :: bool

definition lift_nova :: "string + 'a \<Rightarrow> root_error + 'a" where
  "lift_nova r = (case r of Inl e \<Rightarrow> Inl (RootNova e) | Inr x \<Rightarrow> Inr x)"

definition lift_call :: "string + 'a \<Rightarrow> root_error + 'a" where
  "lift_call r = (case r of Inl e \<Rightarrow> Inl (RootCall e) | Inr x \<Rightarrow> Inr x)"

definition lift_tree :: "db_tree_error + 'a \<Rightarrow> root_error + 'a" where
  "lift_tree r = (case r of Inl e \<Rightarrow> Inl (RootTree e) | Inr x \<Rightarrow> Inr x)"

definition lift_job :: "job_error + 'a \<Rightarrow> root_error + 'a" where
  "lift_job r = (case r of Inl e \<Rightarrow> Inl (RootJobError e) | Inr x \<Rightarrow> Inr x)"

definition u64_to_i64 :: "string \<Rightarrow> nat \<Rightarrow> root_error + int" where
  "u64_to_i64 label v = (if v < 2 ^ 63 then Inr (int v) else Inl (RootError label))"

definition i64_as_u64 :: "int \<Rightarrow> nat" where
  "i64_as_u64 x = nat (x mod 2 ^ 64)"

text \<open>\<open>U256::from_be_slice\<close> panics on more than 32 bytes.\<close>

definition u256_from_be_slice :: "bytes \<Rightarrow> root_error + u256" where
  "u256_from_be_slice bs = (if 32 < length bs then Inl RootPanic else Inr (word_of_nat (nat_of_be bs)))"

section \<open>The prover state\<close>

definition load_prover_state :: "root_db \<Rightarrow> int \<Rightarrow> root_error + prover_state option" where
  "load_prover_state db tid =
     (case rd_state db tid of
        None \<Rightarrow> Inr None
      | Some r \<Rightarrow>
          res_bind (case pr_pending_chain r of
                      None \<Rightarrow> Inr None
                    | Some bs \<Rightarrow> res_bind (u256_from_be_slice bs) (\<lambda>c. Inr (Some c))) (\<lambda>chain.
          Inr (Some \<lparr>ps_base = i64_as_u64 (pr_base r), ps_compiled = i64_as_u64 (pr_compiled r),
                     ps_submitted = i64_as_u64 (pr_submitted r),
                     ps_pending_index = map_option i64_as_u64 (pr_pending_index r),
                     ps_pending_chain = chain\<rparr>)))"

definition upsert_prover_state ::
  "root_db \<Rightarrow> int \<Rightarrow> nat \<Rightarrow> nat \<Rightarrow> nat \<Rightarrow> nat option \<Rightarrow> u256 option \<Rightarrow> root_error + root_db" where
  "upsert_prover_state db tid base compiled submitted pending_index pending_chain =
     res_bind (u64_to_i64 ''base_index'' base) (\<lambda>b.
     res_bind (u64_to_i64 ''last_compiled_index'' compiled) (\<lambda>c.
     res_bind (u64_to_i64 ''last_submitted_index'' submitted) (\<lambda>s.
     res_bind (case pending_index of
                 None \<Rightarrow> Inr None
               | Some p \<Rightarrow> res_bind (u64_to_i64 ''pending_reserved_index'' p) (\<lambda>x. Inr (Some x))) (\<lambda>p.
     Inr (db\<lparr>rd_state := (rd_state db)(tid \<mapsto>
       \<lparr>pr_base = b, pr_compiled = c, pr_submitted = s, pr_pending_index = p,
        pr_pending_chain = map_option u256_to_be_bytes pending_chain\<rparr>)\<rparr>)))))"

definition update_last_compiled_index :: "root_db \<Rightarrow> int \<Rightarrow> nat \<Rightarrow> root_error + root_db" where
  "update_last_compiled_index db tid index =
     res_bind (u64_to_i64 ''last_compiled_index'' index) (\<lambda>i.
     Inr (db\<lparr>rd_state := (rd_state db)(tid := map_option (\<lambda>r. r\<lparr>pr_compiled := i\<rparr>) (rd_state db tid))\<rparr>))"

definition delete_ivc_proofs :: "root_db \<Rightarrow> int \<Rightarrow> root_db" where
  "delete_ivc_proofs db tid = db\<lparr>rd_ivc := (\<lambda>k. if fst k = tid then None else rd_ivc db k)\<rparr>"

definition aligned_state :: "nat \<Rightarrow> prover_state" where
  "aligned_state b = \<lparr>ps_base = b, ps_compiled = b, ps_submitted = b, ps_pending_index = None, ps_pending_chain = None\<rparr>"

definition ensure_state_alignment :: "root_db \<Rightarrow> int \<Rightarrow> nat \<Rightarrow> (root_error + prover_state) \<times> root_db" where
  "ensure_state_alignment db tid base_index =
     (case load_prover_state db tid of
        Inl e \<Rightarrow> (Inl e, db)
      | Inr existing \<Rightarrow>
          let realign =
            (let db1 = delete_ivc_proofs db tid in
             case upsert_prover_state db1 tid base_index base_index base_index None None of
               Inl e \<Rightarrow> (Inl e, db1)
             | Inr db2 \<Rightarrow> (Inr (aligned_state base_index), db2))
          in case existing of
               Some state \<Rightarrow> if ps_base state = base_index then (Inr state, db) else realign
             | None \<Rightarrow> realign)"

definition persist_pending_reservation :: "root_db \<Rightarrow> int \<Rightarrow> nat \<Rightarrow> u256 \<Rightarrow> root_error + root_db" where
  "persist_pending_reservation db tid index chain =
     res_bind (load_prover_state db tid) (\<lambda>snapshot.
     let base = (case snapshot of None \<Rightarrow> index | Some s \<Rightarrow> ps_base s);
         compiled = (case snapshot of None \<Rightarrow> index | Some s \<Rightarrow> ps_compiled s);
         submitted = (case snapshot of None \<Rightarrow> index | Some s \<Rightarrow> ps_submitted s)
     in upsert_prover_state db tid base compiled submitted (Some index) (Some chain))"

definition reset_state_after_submission :: "root_db \<Rightarrow> int \<Rightarrow> nat \<Rightarrow> root_error + root_db" where
  "reset_state_after_submission db tid new_base = upsert_prover_state db tid new_base new_base new_base None None"

section \<open>IVC records and events\<close>

text \<open>The conflict clause leaves \<open>start_index\<close> of an existing row as it is.\<close>

definition upsert_ivc_proof :: "root_db \<Rightarrow> int \<Rightarrow> nat \<Rightarrow> nat \<Rightarrow> bytes \<Rightarrow> fr \<Rightarrow> fr \<Rightarrow> root_error + root_db" where
  "upsert_ivc_proof db tid start_index end_index proof_bytes state_hash_chain state_root =
     res_bind (u64_to_i64 ''start_index'' start_index) (\<lambda>s.
     res_bind (u64_to_i64 ''end_index'' end_index) (\<lambda>e.
     let start = (case rd_ivc db (tid, e) of None \<Rightarrow> s | Some old \<Rightarrow> ir_start old)
     in Inr (db\<lparr>rd_ivc := (rd_ivc db)((tid, e) \<mapsto>
          \<lparr>ir_start = start, ir_proof = proof_bytes, ir_state_index = e,
           ir_hash_chain = fr_to_bytes state_hash_chain, ir_root = fr_to_bytes state_root\<rparr>)\<rparr>)))"

definition load_ivc_record :: "root_db \<Rightarrow> int \<Rightarrow> nat \<Rightarrow> root_error + ivc_record option" where
  "load_ivc_record db tid end_index =
     res_bind (u64_to_i64 ''end_index'' end_index) (\<lambda>e.
     Inr (map_option (\<lambda>r. \<lparr>iv_proof = ir_proof r, iv_hash_chain = fr_of_nat (nat_of_be (ir_hash_chain r)),
                            iv_root = fr_of_nat (nat_of_be (ir_root r))\<rparr>) (rd_ivc db (tid, e))))"

text \<open>
  The poll loop: the lease keeps other writers away, so a record that is missing stays
  missing until the deadline.
\<close>

definition wait_for_ivc_record :: "root_db \<Rightarrow> int \<Rightarrow> nat \<Rightarrow> root_error + ivc_record" where
  "wait_for_ivc_record db tid end_index =
     res_bind (load_ivc_record db tid end_index) (\<lambda>r.
     case r of None \<Rightarrow> Inl (RootError ''timed out waiting for ivc proof'') | Some x \<Rightarrow> Inr x)"

fun parse_events :: "event_row list \<Rightarrow> root_error + root_event list" where
  "parse_events [] = Inr []"
| "parse_events (r # rs) =
     res_bind (lift_job (parse_address (er_to r))) (\<lambda>a.
     res_bind (lift_job (parse_u256 (er_amount r))) (\<lambda>v.
     res_bind (parse_events rs) (\<lambda>es.
     Inr (\<lparr>re_index = i64_as_u64 (er_index r), re_to = a, re_amount = v\<rparr> # es))))"

definition fetch_event_batch :: "event_row list \<Rightarrow> nat \<Rightarrow> nat \<Rightarrow> root_error + root_event list" where
  "fetch_event_batch rows start_index end_index =
     (if end_index \<le> start_index then Inr []
      else
        res_bind (u64_to_i64 ''event_index_start'' start_index) (\<lambda>s.
        res_bind (u64_to_i64 ''event_index_end'' (end_index - 1)) (\<lambda>e.
        parse_events (sort_key er_index (filter (\<lambda>r. s \<le> er_index r \<and> er_index r \<le> e) rows)))))"

definition to_external_inputs :: "address \<Rightarrow> u256 \<Rightarrow> historical_proof \<Rightarrow> root_error + root_external_inputs" where
  "to_external_inputs a v p =
     (if length (siblings (hp_proof p)) \<noteq> TRANSFER_TREE_HEIGHT
      then Inl (RootError ''unexpected sibling path length'')
      else Inr \<lparr>re_is_dummy = False, re_address = address_to_fr a, re_value = u256_to_fr v,
                re_siblings = siblings (hp_proof p)\<rparr>)"

section \<open>Folding\<close>

definition load_state_vector :: "db_tree \<Rightarrow> merkle_db \<Rightarrow> nat \<Rightarrow> root_error + fr list" where
  "load_state_vector t m index =
     res_bind (lift_tree (hash_chain_at t m index)) (\<lambda>hc.
     res_bind (lift_tree (root_at t m index)) (\<lambda>r.
     res_bind (case r of
                 Some x \<Rightarrow> Inr x
               | None \<Rightarrow> (case zero_root t of None \<Rightarrow> Inl RootPanic | Some x \<Rightarrow> Inr x)) (\<lambda>root.
     Inr [fr_of_nat index, u256_to_fr (case hc of None \<Rightarrow> 0 | Some c \<Rightarrow> c), root])))"

definition load_nova_from_ivc :: "('n, 'i) nova_ops \<Rightarrow> bytes \<Rightarrow> root_error + 'n" where
  "load_nova_from_ivc N bs =
     res_bind (lift_nova (nv_deserialize N bs)) (\<lambda>i. lift_nova (nv_from_ivc N i))"

text \<open>A reconstructed state that differs from the stored record only causes a warning.\<close>

definition initialise_nova ::
  "('n, 'i) nova_ops \<Rightarrow> root_db \<Rightarrow> int \<Rightarrow> db_tree \<Rightarrow> merkle_db \<Rightarrow> nat \<Rightarrow> nat \<Rightarrow> root_error + 'n" where
  "initialise_nova N db tid t m base_index compiled_index =
     res_bind (load_state_vector t m base_index) (\<lambda>z0.
     if compiled_index = base_index then lift_nova (nv_init N z0)
     else
       res_bind (load_ivc_record db tid compiled_index) (\<lambda>r.
       case r of
         None \<Rightarrow> Inl (RootError ''missing IVC proof for compiled index'')
       | Some rec \<Rightarrow> load_nova_from_ivc N (iv_proof rec)))"

definition nth_opt :: "'a list \<Rightarrow> nat \<Rightarrow> 'a option" where
  "nth_opt xs i = (if i < length xs then Some (xs ! i) else None)"

definition require :: "string \<Rightarrow> 'a option \<Rightarrow> root_error + 'a" where
  "require msg x = (case x of None \<Rightarrow> Inl (RootError msg) | Some y \<Rightarrow> Inr y)"

text \<open>One event of the loop: the proof, the folding step, its verification, the record.\<close>

definition compile_event ::
  "('n, 'i) nova_ops \<Rightarrow> int \<Rightarrow> db_tree \<Rightarrow> merkle_db \<Rightarrow> nat \<Rightarrow> root_event \<Rightarrow> 'n \<Rightarrow> nat \<Rightarrow> root_db
     \<Rightarrow> root_error + 'n \<times> root_db" where
  "compile_event N tid t m base ev nova current_index db =
     res_bind (lift_tree (db_prove t m (re_index ev + 1) (re_index ev))) (\<lambda>p.
     res_bind (to_external_inputs (re_to ev) (re_amount ev) p) (\<lambda>ext.
     res_bind (lift_nova (nv_prove_step N nova ext)) (\<lambda>nova'.
     res_bind (lift_nova (nv_verify N (nv_ivc_proof N nova'))) (\<lambda>_.
     res_bind (lift_nova (nv_serialize N (nv_ivc_proof N nova'))) (\<lambda>bs.
     res_bind (require ''nova state missing hash chain component'' (nth_opt (nv_state N nova') 1)) (\<lambda>hc.
     res_bind (require ''nova state missing root component'' (nth_opt (nv_state N nova') 2)) (\<lambda>root.
     res_bind (upsert_ivc_proof db tid base (current_index + 1) bs hc root) (\<lambda>db'.
     Inr (nova', db')))))))))"

fun compile_loop ::
  "('n, 'i) nova_ops \<Rightarrow> int \<Rightarrow> db_tree \<Rightarrow> merkle_db \<Rightarrow> nat \<Rightarrow> root_event list \<Rightarrow> 'n \<Rightarrow> nat \<Rightarrow> root_db
     \<Rightarrow> (root_error + nat) \<times> root_db" where
  "compile_loop N tid t m base [] nova current_index db = (Inr current_index, db)"
| "compile_loop N tid t m base (ev # evs) nova current_index db =
     (if re_index ev \<noteq> current_index then (Inr current_index, db)
      else case compile_event N tid t m base ev nova current_index db of
             Inl e \<Rightarrow> (Inl e, db)
           | Inr (nova', db') \<Rightarrow> compile_loop N tid t m base evs nova' (current_index + 1) db')"

definition sync_ivc_proofs ::
  "('n, 'i) nova_ops \<Rightarrow> int \<Rightarrow> db_tree \<Rightarrow> merkle_db \<Rightarrow> event_row list \<Rightarrow> prover_state \<Rightarrow> nat \<Rightarrow> root_db
     \<Rightarrow> (root_error + prover_state) \<times> root_db" where
  "sync_ivc_proofs N tid t m rows state contract_index db =
     (let target_index = min (latest_index t m) contract_index in
      if target_index \<le> ps_compiled state then (Inr state, db)
      else case fetch_event_batch rows (ps_compiled state) target_index of
        Inl e \<Rightarrow> (Inl e, db)
      | Inr events \<Rightarrow>
          if events = [] then (Inr state, db)
          else case initialise_nova N db tid t m (ps_base state) (ps_compiled state) of
            Inl e \<Rightarrow> (Inl e, db)
          | Inr nova \<Rightarrow>
              (case compile_loop N tid t m (ps_base state) events nova (ps_compiled state) db of
                 (Inl e, db') \<Rightarrow> (Inl e, db')
               | (Inr current_index, db') \<Rightarrow>
                   if ps_compiled state < current_index then
                     (case update_last_compiled_index db' tid current_index of
                        Inl e \<Rightarrow> (Inl e, db')
                      | Inr db'' \<Rightarrow> (Inr (state\<lparr>ps_compiled := current_index\<rparr>), db''))
                   else (Inr state, db')))"

section \<open>Submitting\<close>

definition root_dummy :: root_external_inputs where
  "root_dummy = \<lparr>re_is_dummy = True, re_address = 0, re_value = 0, re_siblings = replicate TRANSFER_TREE_HEIGHT 0\<rparr>"

text \<open>A proof of a single step is extended by a dummy step before it goes to the decider.\<close>

definition submission_bytes :: "('n, 'i) nova_ops \<Rightarrow> nat \<Rightarrow> nat \<Rightarrow> ivc_record \<Rightarrow> root_error + bytes" where
  "submission_bytes N target_index base_index rec =
     (if target_index < base_index then Inl RootPanic
      else if target_index - base_index = 1 then
        res_bind (load_nova_from_ivc N (iv_proof rec)) (\<lambda>nova.
        res_bind (lift_nova (nv_prove_step N nova root_dummy)) (\<lambda>nova'.
        lift_nova (nv_serialize N (nv_ivc_proof N nova'))))
      else Inr (iv_proof rec))"

text \<open>The reservation: a pending one for the target index, or a new one, which is persisted.\<close>

definition obtain_reservation ::
  "root_calls \<Rightarrow> int \<Rightarrow> nat \<Rightarrow> prover_state \<Rightarrow> root_db \<Rightarrow> (root_error + (nat \<times> u256) \<times> prover_state) \<times> root_db" where
  "obtain_reservation calls tid target_index state db =
     (case (if ps_pending_index state = Some target_index
            then map_option (\<lambda>c. (target_index, c)) (ps_pending_chain state) else None) of
        Some res \<Rightarrow> (Inr (res, state), db)
      | None \<Rightarrow>
          (case rc_reserve calls of
             Inl e \<Rightarrow> (Inl e, db)
           | Inr (idx, chain) \<Rightarrow>
               (case persist_pending_reservation db tid idx chain of
                  Inl e \<Rightarrow> (Inl e, db)
                | Inr db' \<Rightarrow>
                    (Inr ((idx, chain), state\<lparr>ps_pending_index := Some idx, ps_pending_chain := Some chain\<rparr>), db'))))"

text \<open>After the transaction is mined: the new base, and the proofs of the old base are purged.\<close>

definition finish_submission :: "int \<Rightarrow> nat \<Rightarrow> root_db \<Rightarrow> (root_error + prover_state) \<times> root_db" where
  "finish_submission tid target_index db =
     (case reset_state_after_submission db tid target_index of
        Inl e \<Rightarrow> (Inl e, db)
      | Inr db1 \<Rightarrow>
          (case ensure_state_alignment (delete_ivc_proofs db1 tid) tid target_index of
             (Inl e, db2) \<Rightarrow> (Inl e, db2)
           | (Inr _, db2) \<Rightarrow> (Inr (aligned_state target_index), db2)))"

definition submit_if_ready ::
  "('n, 'i) nova_ops \<Rightarrow> root_calls \<Rightarrow> bool \<Rightarrow> int \<Rightarrow> prover_state \<Rightarrow> nat \<Rightarrow> root_db
     \<Rightarrow> (root_error + prover_state) \<times> root_db" where
  "submit_if_ready N calls submit_enabled tid state contract_index db =
     (if ps_compiled state \<le> ps_submitted state then (Inr state, db)
      else if contract_index < ps_compiled state then (Inr state, db)
      else
        let target_index = ps_compiled state in
        case wait_for_ivc_record db tid target_index of
          Inl e \<Rightarrow> (Inl e, db)
        | Inr rec \<Rightarrow>
        (case submission_bytes N target_index (ps_base state) rec of
           Inl e \<Rightarrow> (Inl e, db)
         | Inr ivc_bytes \<Rightarrow>
        if \<not> submit_enabled then
          (case lift_call (rc_decider calls ivc_bytes) of Inl e \<Rightarrow> (Inl e, db) | Inr _ \<Rightarrow> (Inr state, db))
        else
          case obtain_reservation calls tid target_index state db of
            (Inl e, db1) \<Rightarrow> (Inl e, db1)
          | (Inr ((reserved_index, reserved_hash_chain), state1), db1) \<Rightarrow>
              if reserved_index \<noteq> target_index then (Inr state1, db1)
              else if fr_to_u256 (iv_hash_chain rec) \<noteq> reserved_hash_chain then (Inr state1, db1)
              else
                (case lift_call (rc_decider calls ivc_bytes) of
                   Inl e \<Rightarrow> (Inl e, db1)
                 | Inr decider \<Rightarrow>
                let sent = (\<lambda>mined. db1\<lparr>rd_sent := (ivc_bytes, decider, mined) # rd_sent db1\<rparr>) in
                (case rc_prove_root calls decider of
                   Inl e \<Rightarrow> (Inl e, sent False)
                 | Inr _ \<Rightarrow>
                (case rc_prove_receipt calls decider of
                   Inl e \<Rightarrow> (Inl e, sent False)
                 | Inr _ \<Rightarrow> finish_submission tid target_index (sent True))))))"

section \<open>One cycle for a token\<close>

definition process_token_inner ::
  "('n, 'i) nova_ops \<Rightarrow> root_calls \<Rightarrow> root_job_config \<Rightarrow> (fr \<Rightarrow> fr \<Rightarrow> fr) \<Rightarrow> tree_job_config \<Rightarrow> token_entry \<Rightarrow> indexer_db
     \<Rightarrow> bool \<Rightarrow> bool \<Rightarrow> root_db \<Rightarrow> (root_error + unit) \<times> root_db" where
  "process_token_inner N calls cfg H tcfg token idb do_compile do_submit db =
     (if \<not> do_compile \<and> \<not> do_submit then (Inr (), db)
      else case u64_to_i64 ''chain id'' (te_chain_id token) of
        Inl e \<Rightarrow> (Inl e, db)
      | Inr chain \<Rightarrow>
     (case find_token (idb_tokens idb) (address_bytes (te_token_address token)) chain of
        None \<Rightarrow> (Inr (), db)
      | Some row \<Rightarrow>
     let tid = tk_id row in
     (case lift_tree (tree_for_token H tcfg tid) of
        Inl e \<Rightarrow> (Inl e, db)
      | Inr tree \<Rightarrow>
     (case lift_call (rc_index calls) of
        Inl e \<Rightarrow> (Inl e, db)
      | Inr current_index \<Rightarrow>
     (case (if rj_submit_enabled cfg then lift_call (rc_latest_proved calls) else Inr 0) of
        Inl e \<Rightarrow> (Inl e, db)
      | Inr latest_proved_index \<Rightarrow>
     if (latest_proved_index + rj_history_window cfg) mod 2 ^ 64 < current_index
     then (Inl (RootError ''history window exhausted''), db)
     else
       case ensure_state_alignment db tid latest_proved_index of
         (Inl e, db1) \<Rightarrow> (Inl e, db1)
       | (Inr state, db1) \<Rightarrow>
           (case (if do_compile
                  then sync_ivc_proofs N tid tree (idb_merkle idb) (event_rows (idb_events idb tid)) state current_index db1
                  else (Inr state, db1)) of
              (Inl e, db2) \<Rightarrow> (Inl e, db2)
            | (Inr state2, db2) \<Rightarrow>
                if do_submit then
                  (case submit_if_ready N calls (rj_submit_enabled cfg) tid state2 current_index db2 of
                     (Inl e, db3) \<Rightarrow> (Inl e, db3)
                   | (Inr _, db3) \<Rightarrow> (Inr (), db3))
                else (Inr (), db2)))))))"

section \<open>A cycle over all tokens\<close>

definition ROOT_LOCK_SALT :: nat where
  "ROOT_LOCK_SALT = 0x524f4f54"

definition root_process_token ::
  "('n, 'i) nova_ops \<Rightarrow> (token_entry \<Rightarrow> root_calls) \<Rightarrow> root_job_config \<Rightarrow> (fr \<Rightarrow> fr \<Rightarrow> fr) \<Rightarrow> tree_job_config
     \<Rightarrow> default_hasher \<Rightarrow> nat \<Rightarrow> nat \<Rightarrow> bool \<Rightarrow> bool \<Rightarrow> token_entry \<Rightarrow> indexer_db \<times> root_db
     \<Rightarrow> (root_error + unit) \<times> indexer_db \<times> root_db" where
  "root_process_token N calls cfg H tcfg hasher now holder do_compile do_submit token w =
     (let key = lock_key_with_salt hasher token ROOT_LOCK_SALT;
          (acquired, ls) = try_acquire_lock now holder key (idb_leases (fst w))
      in if \<not> acquired then (Inr (), w)
         else
           let idb = (fst w)\<lparr>idb_leases := ls\<rparr>;
               (outcome, db) = process_token_inner N (calls token) cfg H tcfg token idb do_compile do_submit (snd w)
           in (outcome, idb\<lparr>idb_leases := snd (release_lease holder key (idb_leases idb))\<rparr>, db))"

text \<open>An error of one token is logged and the next token follows; a panic ends the job, the value \<open>None\<close>.\<close>

fun run_cycle ::
  "('n, 'i) nova_ops \<Rightarrow> (token_entry \<Rightarrow> root_calls) \<Rightarrow> root_job_config \<Rightarrow> (fr \<Rightarrow> fr \<Rightarrow> fr) \<Rightarrow> tree_job_config
     \<Rightarrow> default_hasher \<Rightarrow> nat \<Rightarrow> nat \<Rightarrow> bool \<Rightarrow> bool \<Rightarrow> token_entry list \<Rightarrow> indexer_db \<times> root_db
     \<Rightarrow> (indexer_db \<times> root_db) option" where
  "run_cycle N calls cfg H tcfg hasher now holder do_compile do_submit [] w = Some w"
| "run_cycle N calls cfg H tcfg hasher now holder do_compile do_submit (t # ts) w =
     (case root_process_token N calls cfg H tcfg hasher now holder do_compile do_submit t w of
        (Inl RootPanic, _) \<Rightarrow> None
      | (_, w') \<Rightarrow> run_cycle N calls cfg H tcfg hasher now holder do_compile do_submit ts w')"

end
