(* ===== verification/Server.thy ===== *)
theory Server
  imports Root_Job "HOL-Library.AList"
begin

text \<open>
  The HTTP API of the indexer, \<open>indexer/src/server/mod.rs\<close>: the token registry built at
  start, and the handlers that read the tables the jobs maintain. A handler is a function
  of the state of the application and the tables to a response or an error status;
  connection failures of the pool are not modelled. The verifier contracts and the order
  in which a hash map is traversed are parameters.
\<close>

section \<open>Errors and wire types\<close>

text \<open>The body of an error response: a fixed text, or the rendering of a tree error.\<close>

datatype error_body = Text string | Rendered db_tree_error

datatype http_error =
    ErrorBadRequest error_body
  | ErrorNotFound error_body
  | ErrorInternalServerError error_body
  | HandlerPanic

record proof_response =
  pw_target_index :: nat
  pw_leaf_index :: nat
  pw_root :: u256
  pw_hash_chain :: u256
  pw_siblings :: "u256 list"

record events_query =
  eq_chain_id :: nat
  eq_token_address :: address
  eq_to :: address
  eq_limit :: "nat option"

record prove_many_request =
  pq_chain_id :: nat
  pq_token_address :: address
  pq_target_index :: nat
  pq_leaf_indices :: "nat list"

record tree_index_query =
  tq_chain_id :: nat
  tq_token_address :: address
  tq_transfer_root :: u256

record token_status_response =
  sr_label :: string
  sr_chain_id :: nat
  sr_token_address :: address
  sr_verifier_address :: address
  sr_onchain_reserved_index :: "nat option"
  sr_onchain_proved_index :: "nat option"
  sr_events_synced_index :: "nat option"
  sr_tree_synced_index :: "nat option"
  sr_ivc_generated_index :: "nat option"

section \<open>The registry\<close>

record token_context =
  cx_id :: int
  cx_label :: string
  cx_chain_id :: nat
  cx_token_address :: address
  cx_verifier_address :: address
  cx_rpc_urls :: "string list"
  cx_legacy_tx :: bool

type_synonym token_registry = "((nat \<times> address) \<times> token_context) list"

record app_state =
  as_tokens :: token_registry
  as_window :: nat
  as_height :: nat

text \<open>The same statement as in the event job, with an error of its own.\<close>

definition server_token_record :: "token_metadata \<Rightarrow> indexer_db \<Rightarrow> (string + int) \<times> indexer_db" where
  "server_token_record m db =
     (case ensure_token_record m db of
        (Inl _, db') \<Rightarrow> (Inl ''chain_id exceeds i64'', db')
      | (Inr tid, db') \<Rightarrow> (Inr tid, db'))"

definition context_of :: "token_entry \<Rightarrow> int \<Rightarrow> token_context" where
  "context_of t tid = \<lparr>cx_id = tid, cx_label = te_label t, cx_chain_id = te_chain_id t,
     cx_token_address = te_token_address t, cx_verifier_address = te_verifier_address t,
     cx_rpc_urls = te_rpc_urls t, cx_legacy_tx = te_legacy_tx t\<rparr>"

fun registry_initialise ::
  "token_entry list \<Rightarrow> token_registry \<Rightarrow> indexer_db \<Rightarrow> (string + token_registry) \<times> indexer_db" where
  "registry_initialise [] registry db = (Inr registry, db)"
| "registry_initialise (t # ts) registry db =
     (case server_token_record (te_metadata t) db of
        (Inl e, db') \<Rightarrow> (Inl e, db')
      | (Inr tid, db') \<Rightarrow>
          registry_initialise ts
            (AList.update (te_chain_id t, te_token_address t) (context_of t tid) registry) db')"

definition registry_get :: "app_state \<Rightarrow> nat \<Rightarrow> address \<Rightarrow> token_context option" where
  "registry_get s cid token_address = map_of (as_tokens s) (cid, token_address)"

text \<open>The values in the order of traversal.\<close>

definition registry_all :: "(token_context list \<Rightarrow> token_context list) \<Rightarrow> app_state \<Rightarrow> token_context list" where
  "registry_all order s = order (map snd (as_tokens s))"

definition server_start ::
  "token_entry list \<Rightarrow> nat \<Rightarrow> nat \<Rightarrow> indexer_db \<Rightarrow> (string + app_state) \<times> indexer_db" where
  "server_start tokens window height db =
     (case registry_initialise tokens [] db of
        (Inl e, db') \<Rightarrow> (Inl e, db')
      | (Inr registry, db') \<Rightarrow> (Inr \<lparr>as_tokens = registry, as_window = window, as_height = height\<rparr>, db'))"

section \<open>Status\<close>

text \<open>The verifier of a token: building its provider, then the two indices it is asked for.\<close>

type_synonym verifier_view = "token_context \<Rightarrow> string + (string + nat) \<times> (string + nat)"

definition ok_value :: "string + nat \<Rightarrow> nat option" where
  "ok_value r = (case r of Inl _ \<Rightarrow> None | Inr v \<Rightarrow> Some v)"

definition fetch_onchain_indices :: "verifier_view \<Rightarrow> token_context \<Rightarrow> nat option \<times> nat option" where
  "fetch_onchain_indices verifier token =
     (if cx_rpc_urls token = [] then (None, None)
      else case verifier token of
             Inl _ \<Rightarrow> (None, None)
           | Inr (reserved, proved) \<Rightarrow> (ok_value reserved, ok_value proved))"

definition fetch_events_synced_index :: "event_db \<Rightarrow> nat option" where
  "fetch_events_synced_index edb =
     (case indexer_state edb of
        None \<Rightarrow> None
      | Some st \<Rightarrow> if 0 \<le> contiguous_index st then Some (nat (contiguous_index st)) else None)"

text \<open>\<open>SELECT MAX(...)\<close> and \<open>v.max(0) as u64\<close>.\<close>

definition max_column :: "int list \<Rightarrow> nat option" where
  "max_column xs = (if xs = [] then None else Some (nat (fold max xs (hd xs))))"

definition fetch_tree_synced_index :: "merkle_db \<Rightarrow> int \<Rightarrow> nat option" where
  "fetch_tree_synced_index m tid = max_column (map sn_index (token_snapshots m tid))"

text \<open>The argument is the column \<open>end_index\<close> of the proofs of the token.\<close>

definition fetch_ivc_generated_index :: "int list \<Rightarrow> nat option" where
  "fetch_ivc_generated_index ends = max_column ends"

definition token_status :: "verifier_view \<Rightarrow> indexer_db \<Rightarrow> (int \<Rightarrow> int list) \<Rightarrow> token_context \<Rightarrow> token_status_response" where
  "token_status verifier idb ivc_ends token =
     (let (reserved_index, proved_index) = fetch_onchain_indices verifier token
      in \<lparr>sr_label = cx_label token, sr_chain_id = cx_chain_id token, sr_token_address = cx_token_address token,
          sr_verifier_address = cx_verifier_address token,
          sr_onchain_reserved_index = reserved_index, sr_onchain_proved_index = proved_index,
          sr_events_synced_index = fetch_events_synced_index (idb_events idb (cx_id token)),
          sr_tree_synced_index = fetch_tree_synced_index (idb_merkle idb) (cx_id token),
          sr_ivc_generated_index = fetch_ivc_generated_index (ivc_ends (cx_id token))\<rparr>)"

definition tokens_status ::
  "(token_context list \<Rightarrow> token_context list) \<Rightarrow> verifier_view \<Rightarrow> app_state \<Rightarrow> indexer_db \<Rightarrow> (int \<Rightarrow> int list)
     \<Rightarrow> token_status_response list" where
  "tokens_status order verifier s idb ivc_ends = map (token_status verifier idb ivc_ends) (registry_all order s)"

section \<open>Events\<close>

definition address_from_bytes :: "bytes \<Rightarrow> http_error + address" where
  "address_from_bytes bs =
     (if length bs \<noteq> 20 then Inl (ErrorInternalServerError (Text ''address must be 20 bytes''))
      else Inr (word_of_nat (nat_of_be bs)))"

definition bytes32_to_u256 :: "bytes \<Rightarrow> unit + u256" where
  "bytes32_to_u256 bs = (if length bs \<noteq> 32 then Inl () else Inr (word_of_nat (nat_of_be bs)))"

definition i64_to_u64 :: "string \<Rightarrow> int \<Rightarrow> http_error + nat" where
  "i64_to_u64 msg x = (if x < 0 then Inl (ErrorInternalServerError (Text msg)) else Inr (nat x))"

definition decode_event :: "event_row \<Rightarrow> http_error + indexed_event" where
  "decode_event r =
     res_bind (i64_to_u64 ''event_index does not fit into u64'' (er_index r)) (\<lambda>event_index.
     res_bind (i64_to_u64 ''block number does not fit into u64'' (er_block r)) (\<lambda>block_number.
     res_bind (address_from_bytes (er_from r)) (\<lambda>from_address.
     res_bind (address_from_bytes (er_to r)) (\<lambda>to_address.
     res_bind (case bytes32_to_u256 (er_amount r) of
                 Inl _ \<Rightarrow> Inl (ErrorInternalServerError (Text ''stored value must be 32 bytes''))
               | Inr v \<Rightarrow> Inr v) (\<lambda>value.
     Inr \<lparr>ev_index = event_index, ev_from = from_address, ev_to = to_address, ev_amount = value,
          ev_block = block_number\<rparr>)))))"

definition query_limit :: "nat option \<Rightarrow> nat" where
  "query_limit limit = min (case limit of None \<Rightarrow> 100 | Some l \<Rightarrow> l) 1000"

definition events_by_recipient :: "app_state \<Rightarrow> indexer_db \<Rightarrow> events_query \<Rightarrow> http_error + indexed_event list" where
  "events_by_recipient s idb params =
     (case registry_get s (eq_chain_id params) (eq_token_address params) of
        None \<Rightarrow> Inl (ErrorNotFound (Text ''token not configured''))
      | Some token \<Rightarrow>
          let limit = query_limit (eq_limit params);
              rows = take limit (sort_key er_index
                (filter (\<lambda>r. er_to r = address_bytes (eq_to params)) (event_rows (idb_events idb (cx_id token)))))
          in res_map decode_event rows)"

section \<open>Proofs\<close>

definition map_merkle_error :: "db_tree_error \<Rightarrow> http_error" where
  "map_merkle_error err =
     (case err of
        Database _ \<Rightarrow> ErrorInternalServerError (Text ''merkle tree database error'')
      | TokenNotFound _ \<Rightarrow> ErrorNotFound (Rendered err)
      | MissingRoot _ \<Rightarrow> ErrorNotFound (Rendered err)
      | MissingHashChain _ \<Rightarrow> ErrorNotFound (Rendered err)
      | TreeEmpty \<Rightarrow> ErrorNotFound (Rendered err)
      | U64ToI64 _ _ \<Rightarrow> ErrorInternalServerError (Text ''integer conversion error during merkle operation'')
      | DbPanic \<Rightarrow> HandlerPanic
      | _ \<Rightarrow> ErrorBadRequest (Rendered err))"

definition lift_merkle :: "db_tree_error + 'a \<Rightarrow> http_error + 'a" where
  "lift_merkle r = (case r of Inl e \<Rightarrow> Inl (map_merkle_error e) | Inr x \<Rightarrow> Inr x)"

definition proof_response_of :: "historical_proof \<Rightarrow> proof_response" where
  "proof_response_of p = \<lparr>pw_target_index = hp_target_index p, pw_leaf_index = hp_leaf_index p,
     pw_root = fr_to_u256 (hp_root p), pw_hash_chain = hp_hash_chain p,
     pw_siblings = map fr_to_u256 (siblings (hp_proof p))\<rparr>"

definition prove_many_handler ::
  "(fr \<Rightarrow> fr \<Rightarrow> fr) \<Rightarrow> app_state \<Rightarrow> indexer_db \<Rightarrow> prove_many_request \<Rightarrow> http_error + proof_response list" where
  "prove_many_handler H s idb request =
     (case registry_get s (pq_chain_id request) (pq_token_address request) of
        None \<Rightarrow> Inl (ErrorNotFound (Text ''token not configured''))
      | Some token \<Rightarrow>
          if pq_leaf_indices request = [] then Inr []
          else
            res_bind (lift_merkle (db_tree_new H (cx_id token) (as_height s) (as_window s))) (\<lambda>tree.
            res_bind (lift_merkle (prove_many tree (idb_merkle idb) (pq_target_index request) (pq_leaf_indices request))) (\<lambda>proofs.
            Inr (map proof_response_of proofs))))"

definition tree_index_by_root :: "app_state \<Rightarrow> indexer_db \<Rightarrow> tree_index_query \<Rightarrow> http_error + nat" where
  "tree_index_by_root s idb params =
     (case registry_get s (tq_chain_id params) (tq_token_address params) of
        None \<Rightarrow> Inl (ErrorNotFound (Text ''token not configured''))
      | Some token \<Rightarrow>
          let root_bytes = u256_to_be_bytes (tq_transfer_root params)
          in case latest_row (filter (\<lambda>r. sn_root r = root_bytes) (token_snapshots (idb_merkle idb) (cx_id token))) of
               None \<Rightarrow> Inl (ErrorNotFound (Text ''transfer root not found''))
             | Some row \<Rightarrow> i64_to_u64 ''tree_index does not fit into u64'' (sn_index row))"

end
