(* ===== verification/Payment.thy ===== *)
theory Payment
  imports Gadgets
begin

text \<open>
  Payments of \<open>client-common/src/payment/\<close>: invoice identifiers (\<open>invoice.rs\<close>), the
  derivation of secrets and tweaks for invoices and payment advices, and the full burn
  address with its 105-byte encoding (\<open>burn_address.rs\<close>). Keccak-256, SHA-256 and the
  Poseidon hash are parameters; the random bytes of an identifier are an argument.
\<close>

section \<open>Invoice identifiers (\<open>invoice.rs\<close>)\<close>

definition SINGLE_FLAG_MASK :: byte where "SINGLE_FLAG_MASK = 0x80"

definition random_invoice_id :: "bytes \<Rightarrow> bool \<Rightarrow> u64 \<Rightarrow> b256" where
  "random_invoice_id random single cid =
     (let first = (if single then hd random OR SINGLE_FLAG_MASK else hd random AND NOT SINGLE_FLAG_MASK)
      in u256_from_be_slice (first # be_bytes 8 (unat cid) @ drop 9 random))"

definition is_single :: "b256 \<Rightarrow> bool" where
  "is_single invoice_id = (u256_to_be_bytes invoice_id ! 0 AND SINGLE_FLAG_MASK \<noteq> 0)"

definition extract_chain_id :: "b256 \<Rightarrow> u64" where
  "extract_chain_id invoice_id = word_of_nat (nat_of_be (take 8 (drop 1 (u256_to_be_bytes invoice_id))))"

section \<open>Secrets and tweaks\<close>

definition INVOICE_SECRET_DOMAIN :: bytes where "INVOICE_SECRET_DOMAIN = [0x69, 0x73, 0x65, 0x63]"
definition INVOICE_TWEAK_DOMAIN :: bytes where "INVOICE_TWEAK_DOMAIN = [0x69, 0x74, 0x77, 0x6b]"
definition PAYMENT_ADVICE_SECRET_DOMAIN :: bytes where "PAYMENT_ADVICE_SECRET_DOMAIN = [0x70, 0x73, 0x65, 0x63]"
definition PAYMENT_ADVICE_TWEAK_DOMAIN :: bytes where "PAYMENT_ADVICE_TWEAK_DOMAIN = [0x70, 0x74, 0x77, 0x6b]"

record secret_and_tweak =
  st_secret :: b256
  st_tweak :: b256

text \<open>The search for a nonce panics when the 64-bit space is exhausted, here \<open>None\<close>.\<close>

definition pow_adjusted_secret ::
  "(fr \<Rightarrow> fr \<Rightarrow> fr) \<Rightarrow> (bytes \<Rightarrow> bytes) \<Rightarrow> b256 \<Rightarrow> b256 \<Rightarrow> u64 \<Rightarrow> address \<Rightarrow> b256 option" where
  "pow_adjusted_secret H sha base_secret tw cid addr =
     (let gr = new_evm cid addr tw;
          recipient_fr = recipient_to_fr sha gr;
          secret_seed_fr = b256_to_fr base_secret
      in map_option (\<lambda>nonce. fr_to_b256 (secret_from_nonce secret_seed_fr nonce))
           (find_pow_nonce H recipient_fr secret_seed_fr))"

definition with_tweak ::
  "(fr \<Rightarrow> fr \<Rightarrow> fr) \<Rightarrow> (bytes \<Rightarrow> bytes) \<Rightarrow> b256 \<Rightarrow> b256 \<Rightarrow> u64 \<Rightarrow> address \<Rightarrow> secret_and_tweak option" where
  "with_tweak H sha base_secret tw cid addr =
     map_option (\<lambda>s. \<lparr>st_secret = s, st_tweak = tw\<rparr>) (pow_adjusted_secret H sha base_secret tw cid addr)"

definition single_invoice ::
  "(fr \<Rightarrow> fr \<Rightarrow> fr) \<Rightarrow> (bytes \<Rightarrow> bytes) \<Rightarrow> (bytes \<Rightarrow> b256) \<Rightarrow> b256 \<Rightarrow> b256 \<Rightarrow> u64 \<Rightarrow> address \<Rightarrow> secret_and_tweak option" where
  "single_invoice H sha keccak invoice_id seed cid addr =
     with_tweak H sha
       (keccak (INVOICE_SECRET_DOMAIN @ u256_to_be_bytes seed @ u256_to_be_bytes invoice_id))
       (keccak (INVOICE_TWEAK_DOMAIN @ u256_to_be_bytes seed @ u256_to_be_bytes invoice_id)) cid addr"

text \<open>The tweak does not depend on the number of the sub-invoice.\<close>

definition batch_invoice ::
  "(fr \<Rightarrow> fr \<Rightarrow> fr) \<Rightarrow> (bytes \<Rightarrow> bytes) \<Rightarrow> (bytes \<Rightarrow> b256) \<Rightarrow> b256 \<Rightarrow> u32 \<Rightarrow> b256 \<Rightarrow> u64 \<Rightarrow> address
     \<Rightarrow> secret_and_tweak option" where
  "batch_invoice H sha keccak invoice_id sub_id seed cid addr =
     with_tweak H sha
       (keccak (INVOICE_SECRET_DOMAIN @ u256_to_be_bytes seed @ u256_to_be_bytes invoice_id @ be_bytes 4 (unat sub_id)))
       (keccak (INVOICE_TWEAK_DOMAIN @ u256_to_be_bytes seed @ u256_to_be_bytes invoice_id)) cid addr"

definition payment_advice ::
  "(fr \<Rightarrow> fr \<Rightarrow> fr) \<Rightarrow> (bytes \<Rightarrow> bytes) \<Rightarrow> (bytes \<Rightarrow> b256) \<Rightarrow> b256 \<Rightarrow> b256 \<Rightarrow> u64 \<Rightarrow> address \<Rightarrow> secret_and_tweak option" where
  "payment_advice H sha keccak payment_advice_id seed cid addr =
     with_tweak H sha
       (keccak (PAYMENT_ADVICE_SECRET_DOMAIN @ u256_to_be_bytes seed @ u256_to_be_bytes payment_advice_id))
       (keccak (PAYMENT_ADVICE_TWEAK_DOMAIN @ u256_to_be_bytes seed @ u256_to_be_bytes payment_advice_id)) cid addr"

section \<open>Full burn addresses (\<open>burn_address.rs\<close>)\<close>

record full_burn_address =
  fb_gr :: general_recipient
  fb_secret :: b256

datatype payment_error =
    BurnPow burn_address_error
  | BurnLength nat
  | BurnVersion byte

definition lift_burn :: "burn_address_error + 'a \<Rightarrow> payment_error + 'a" where
  "lift_burn r = (case r of Inl e \<Rightarrow> Inl (BurnPow e) | Inr x \<Rightarrow> Inr x)"

definition full_burn_address_new ::
  "(fr \<Rightarrow> fr \<Rightarrow> fr) \<Rightarrow> (bytes \<Rightarrow> bytes) \<Rightarrow> u64 \<Rightarrow> address \<Rightarrow> secret_and_tweak \<Rightarrow> payment_error + full_burn_address" where
  "full_burn_address_new H sha cid addr st =
     (let gr = new_evm cid addr (st_tweak st);
          recipient_fr = recipient_to_fr sha gr;
          secret_fr = b256_to_fr (st_secret st)
      in res_bind (lift_burn (compute_burn_address_from_secret H recipient_fr secret_fr)) (\<lambda>_.
         Inr \<lparr>fb_gr = gr, fb_secret = st_secret st\<rparr>))"

definition burn_address :: "(fr \<Rightarrow> fr \<Rightarrow> fr) \<Rightarrow> (bytes \<Rightarrow> bytes) \<Rightarrow> full_burn_address \<Rightarrow> payment_error + address" where
  "burn_address H sha fb =
     res_bind (lift_burn (compute_burn_address_from_secret H (recipient_to_fr sha (fb_gr fb)) (b256_to_fr (fb_secret fb)))) (\<lambda>a.
     Inr (fr_to_address a))"

definition FULL_BURN_ADDRESS_VERSION :: byte where "FULL_BURN_ADDRESS_VERSION = 1"
definition FULL_BURN_ADDRESS_SERIALIZED_LEN :: nat where "FULL_BURN_ADDRESS_SERIALIZED_LEN = 1 + 8 + 32 + 32 + 32"

definition burn_to_bytes :: "full_burn_address \<Rightarrow> bytes" where
  "burn_to_bytes fb =
     [FULL_BURN_ADDRESS_VERSION] @ be_bytes 8 (unat (chain_id (fb_gr fb)))
       @ u256_to_be_bytes (recipient_address (fb_gr fb)) @ u256_to_be_bytes (tweak (fb_gr fb))
       @ u256_to_be_bytes (fb_secret fb)"

definition slice :: "nat \<Rightarrow> nat \<Rightarrow> bytes \<Rightarrow> bytes" where
  "slice a b bs = take (b - a) (drop a bs)"

definition burn_from_bytes :: "bytes \<Rightarrow> payment_error + full_burn_address" where
  "burn_from_bytes bs =
     (if length bs \<noteq> FULL_BURN_ADDRESS_SERIALIZED_LEN then Inl (BurnLength (length bs))
      else if bs ! 0 \<noteq> FULL_BURN_ADDRESS_VERSION then Inl (BurnVersion (bs ! 0))
      else Inr \<lparr>fb_gr = \<lparr>chain_id = word_of_nat (nat_of_be (slice 1 9 bs)),
                          recipient_address = u256_from_be_slice (slice 9 41 bs),
                          tweak = u256_from_be_slice (slice 41 73 bs)\<rparr>,
                fb_secret = u256_from_be_slice (slice 73 105 bs)\<rparr>)"

section \<open>The encoding\<close>

lemma be_bytes_u64: "length bs = 8 \<Longrightarrow> be_bytes 8 (unat (word_of_nat (nat_of_be bs) :: u64)) = bs"
  using be_bytes_nat_of_be [of bs] nat_of_be_less [of bs] by (simp add: unat_word_of_nat)

lemma burn_from_to_bytes: "burn_from_bytes (burn_to_bytes fb) = Inr fb"
proof -
  have "burn_to_bytes fb ! 0 = FULL_BURN_ADDRESS_VERSION" "length (burn_to_bytes fb) = 105"
    by (simp_all add: burn_to_bytes_def)
  moreover have "slice 1 9 (burn_to_bytes fb) = be_bytes 8 (unat (chain_id (fb_gr fb)))"
      "slice 9 41 (burn_to_bytes fb) = u256_to_be_bytes (recipient_address (fb_gr fb))"
      "slice 41 73 (burn_to_bytes fb) = u256_to_be_bytes (tweak (fb_gr fb))"
      "slice 73 105 (burn_to_bytes fb) = u256_to_be_bytes (fb_secret fb)"
    by (simp_all add: slice_def burn_to_bytes_def)
  moreover have "unat (chain_id (fb_gr fb)) < 256 ^ 8"
    using unat_u64_less [of "chain_id (fb_gr fb)"] by simp
  ultimately show ?thesis
    by (simp add: burn_from_bytes_def FULL_BURN_ADDRESS_SERIALIZED_LEN_def u256_from_be_slice_inverse nat_of_be_be_bytes)
qed

lemma burn_to_from_bytes:
  assumes "burn_from_bytes bs = Inr fb"
  shows "burn_to_bytes fb = bs"
proof -
  have bs: "length bs = 105" "bs ! 0 = FULL_BURN_ADDRESS_VERSION"
    using assms by (auto simp: burn_from_bytes_def FULL_BURN_ADDRESS_SERIALIZED_LEN_def split: if_splits)
  have "bs = [bs ! 0] @ slice 1 9 bs @ slice 9 41 bs @ slice 41 73 bs @ slice 73 105 bs"
  proof -
    have "drop a bs = slice a b bs @ drop b bs" if "a \<le> b" for a b
      using that append_take_drop_id [of "b - a" "drop a bs"] by (simp add: slice_def)
    note split = this [of 1 9] this [of 9 41] this [of 41 73] this [of 73 105]
    have "bs = [bs ! 0] @ drop 1 bs"
      using bs(1) by (cases bs) simp_all
    then show ?thesis
      using split bs(1) by simp
  qed
  then show ?thesis
    using assms bs
    by (auto simp: burn_from_bytes_def FULL_BURN_ADDRESS_SERIALIZED_LEN_def burn_to_bytes_def be_bytes_u64
        be_bytes_u256_from_be_slice slice_def)
qed

section \<open>Derived secrets\<close>

lemma b256_to_fr_to_b256 [simp]: "b256_to_fr (fr_to_b256 x) = x"
  by (simp add: b256_to_fr_eq fr_to_b256_def)

text \<open>A burn address is below 2 to the 160: nothing is lost when it becomes an address.\<close>

lemma burn_address_fits:
  assumes "compute_burn_address_from_secret H r s = Inr a"
  shows "address_to_fr (fr_to_address a) = a"
proof -
  have "into_bigint a < 2 ^ 160"
    using assms bn254_r_bounds by (auto simp: compute_burn_address_iff into_bigint_fr_of_nat)
  then show ?thesis
    by (metis fr_eq_iff into_bigint_address_to_fr mod_less unat_fr_to_address)
qed

lemma pow_adjusted_secret_ok:
  assumes "pow_adjusted_secret H sha base tw cid addr = Some s"
  shows "is_ok (compute_burn_address_from_secret H (recipient_to_fr sha (new_evm cid addr tw)) (b256_to_fr s))"
  using assms find_pow_from_spec [where H = H and r = "recipient_to_fr sha (new_evm cid addr tw)" and seed = "b256_to_fr base" and n = 0]
  by (auto simp: pow_adjusted_secret_def find_pow_nonce_def compute_burn_address_for_nonce_def Let_def)

text \<open>\<open>spends_to\<close>: the withdraw circuits accept the secret for transfers to this address.\<close>

definition spends_to :: "(fr \<Rightarrow> fr \<Rightarrow> fr) \<Rightarrow> fr \<Rightarrow> b256 \<Rightarrow> address \<Rightarrow> bool" where
  "spends_to H recipient secret a \<longleftrightarrow>
     burn_address_var H recipient (b256_to_fr secret) True = Some (address_to_fr a)"

lemma with_tweak_spendable:
  assumes "with_tweak H sha base tw cid addr = Some st"
  shows "\<exists>fb a. full_burn_address_new H sha cid addr st = Inr fb \<and> fb_gr fb = new_evm cid addr tw \<and> fb_secret fb = st_secret st
    \<and> burn_address H sha fb = Inr a \<and> spends_to H (recipient_to_fr sha (fb_gr fb)) (st_secret st) a"
proof -
  have st: "pow_adjusted_secret H sha base tw cid addr = Some (st_secret st)" "st_tweak st = tw"
    using assms by (auto simp: with_tweak_def)
  obtain a where a: "compute_burn_address_from_secret H (recipient_to_fr sha (new_evm cid addr tw)) (b256_to_fr (st_secret st)) = Inr a"
    using pow_adjusted_secret_ok [OF st(1)] by (auto simp: is_ok_iff)
  then show ?thesis
    using st(2) burn_address_fits [OF a]
    by (simp add: full_burn_address_new_def burn_address_def lift_burn_def Let_def spends_to_def burn_address_var_True)
qed

lemma invoice_id_fields:
  assumes "length random = 32"
  shows "is_single (random_invoice_id random single cid) = single" "extract_chain_id (random_invoice_id random single cid) = cid"
proof -
  let ?first = "if single then hd random OR SINGLE_FLAG_MASK else hd random AND NOT SINGLE_FLAG_MASK"
  have bytes: "u256_to_be_bytes (random_invoice_id random single cid) = ?first # be_bytes 8 (unat cid) @ drop 9 random"
    unfolding random_invoice_id_def Let_def using assms by (subst be_bytes_u256_from_be_slice) simp_all
  have "?first AND SINGLE_FLAG_MASK \<noteq> 0 \<longleftrightarrow> single"
  proof -
    have "(x OR m) AND m = m" "(x AND NOT m) AND m = 0" for x m :: byte
      by (auto intro!: bit_eqI simp: bit_simps)
    moreover have "SINGLE_FLAG_MASK \<noteq> 0"
      by (simp add: SINGLE_FLAG_MASK_def)
    ultimately show ?thesis
      by simp
  qed
  then show "is_single (random_invoice_id random single cid) = single"
    by (simp add: is_single_def bytes)
  show "extract_chain_id (random_invoice_id random single cid) = cid"
    using unat_u64_less [of cid] by (simp add: extract_chain_id_def bytes)
qed

text \<open>
  \<^bold>\<open>C33\<close>. Every secret the client derives, for a single invoice, for any sub-invoice of a batch
  or for a payment advice, is accepted as a full burn address, and the withdraw circuit,
  given this secret and the recipient, computes exactly the address the payment goes to;
  the recipient of a batch does not depend on the number of the sub-invoice.
\<close>

theorem derived_secrets_spendable:
  assumes "Some st \<in> {single_invoice H sha keccak iid seed cid addr, batch_invoice H sha keccak iid i seed cid addr,
      payment_advice H sha keccak iid seed cid addr}"
  shows "\<exists>fb a. full_burn_address_new H sha cid addr st = Inr fb \<and> fb_secret fb = st_secret st
    \<and> burn_address H sha fb = Inr a \<and> spends_to H (recipient_to_fr sha (fb_gr fb)) (st_secret st) a
    \<and> (Some st = batch_invoice H sha keccak iid i seed cid addr \<longrightarrow> fb_gr fb = new_evm cid addr
          (keccak (INVOICE_TWEAK_DOMAIN @ u256_to_be_bytes seed @ u256_to_be_bytes iid)))"
proof -
  have eq: "fb_gr fb = new_evm cid addr (st_tweak st)" if "full_burn_address_new H sha cid addr st = Inr fb" for fb
    using that by (auto simp: full_burn_address_new_def Let_def res_bind_Inr_iff)
  have "st_tweak st = keccak (INVOICE_TWEAK_DOMAIN @ u256_to_be_bytes seed @ u256_to_be_bytes iid)"
    if "Some st = batch_invoice H sha keccak iid i seed cid addr"
    using that [symmetric] by (auto simp: batch_invoice_def with_tweak_def)
  moreover obtain base tw where "with_tweak H sha base tw cid addr = Some st"
    using assms by (auto simp: single_invoice_def batch_invoice_def payment_advice_def)
  ultimately show ?thesis
    using with_tweak_spendable [of H sha base tw cid addr st] eq by metis
qed

theorem derived_secrets_spendable_witness:
  "\<exists>st fb a. batch_invoice (\<lambda>_ _. 0) const_sha (\<lambda>_. 7) 1 3 2 5 6 = Some st
    \<and> full_burn_address_new (\<lambda>_ _. 0) const_sha 5 6 st = Inr fb \<and> burn_address (\<lambda>_ _. 0) const_sha fb = Inr a
    \<and> spends_to (\<lambda>_ _. 0) (recipient_to_fr const_sha (fb_gr fb)) (st_secret st) a"
proof -
  have "is_ok (compute_burn_address_from_secret (\<lambda>_ _. 0) r s)" for r s
    by (simp add: is_ok_iff compute_burn_address_iff)
  then have "find_pow_nonce (\<lambda>_ _. 0) r s = Some 0" for r s
    by (simp add: find_pow_nonce_def find_pow_from.simps)
  then obtain st where st: "batch_invoice (\<lambda>_ _. 0) const_sha (\<lambda>_. 7) 1 3 2 5 6 = Some st"
    by (auto simp: batch_invoice_def with_tweak_def pow_adjusted_secret_def Let_def)
  from derived_secrets_spendable [of st "\<lambda>_ _. 0" const_sha "\<lambda>_. 7" 1 2 5 6 3] st show ?thesis
    by auto
qed

text \<open>
  The encoding of a full burn address is exact: the decoder accepts a byte string if and
  only if it is the encoding of a full burn address, which it returns.
\<close>

theorem full_burn_address_codec: "burn_from_bytes bs = Inr fb \<longleftrightarrow> bs = burn_to_bytes fb"
  using burn_from_to_bytes burn_to_from_bytes by metis

end
