(* ===== verification/Teleport.thy ===== *)
theory Teleport
  imports Server Circuits Payment
begin

text \<open>
  The client side of a withdrawal. From \<open>client-common/src/teleport/\<close>: the aggregation tree
  of the hub (\<open>aggregation_tree.rs\<close>), the transfer events of burn addresses and their
  eligibility (\<open>events.rs\<close>), local and global Merkle proofs (\<open>merkle_proofs.rs\<close>). From the
  command line client: assembling the circuits' inputs (\<open>cli/src/proof/\<close>) and redeeming
  (\<open>cli/src/commands/teleport.rs\<close>).

  The indexer, the contracts, the folding scheme, the SNARK and the decider are parameters.
  A hash map is an association list; a function that traverses one takes the order of
  traversal from the list it is given.
\<close>

section \<open>Parameters and errors\<close>

datatype teleport_error =
    TeleportError string
  | TeleportCall string
  | TeleportBurn payment_error
  | TeleportPanic

record indexer_client =
  ic_events :: "nat \<Rightarrow> address \<Rightarrow> address \<Rightarrow> nat option \<Rightarrow> string + indexed_event list"
  ic_prove_many :: "nat \<Rightarrow> address \<Rightarrow> nat \<Rightarrow> nat list \<Rightarrow> string + proof_response list"

text \<open>The HTTP client of \<open>client-common/src/indexer\<close>: the handlers of the server, with any error status as an error.\<close>

definition http_indexer_client :: "(fr \<Rightarrow> fr \<Rightarrow> fr) \<Rightarrow> app_state \<Rightarrow> indexer_db \<Rightarrow> indexer_client" where
  "http_indexer_client H s idb = \<lparr>
     ic_events = (\<lambda>cid token to limit.
       case events_by_recipient s idb \<lparr>eq_chain_id = cid, eq_token_address = token, eq_to = to, eq_limit = limit\<rparr> of
         Inl _ \<Rightarrow> Inl ''indexer events endpoint returned error status'' | Inr es \<Rightarrow> Inr es),
     ic_prove_many = (\<lambda>cid token target_index leaf_indices.
       case prove_many_handler H s idb \<lparr>pq_chain_id = cid, pq_token_address = token, pq_target_index = target_index,
           pq_leaf_indices = leaf_indices\<rparr> of
         Inl _ \<Rightarrow> Inl ''indexer proof endpoint returned error status'' | Inr ps \<Rightarrow> Inr ps)\<rparr>"

record aggregation_root_event =
  ag_root :: u256
  ag_seq :: nat
  ag_snapshot :: "u256 list"
  ag_transfer_tree_indices :: "nat list"

record hub_token_info =
  ht_chain_id :: nat
  ht_eid :: nat
  ht_verifier :: address
  ht_token :: address

record hub_calls =
  hb_latest_block :: "string + nat"
  hb_root_events :: "nat \<Rightarrow> nat \<Rightarrow> string + aggregation_root_event list"
  hb_token_infos :: "string + hub_token_info list"

record verifier_calls =
  vf_latest_agg_seq :: "string + nat"
  vf_global_transfer_root :: "nat \<Rightarrow> string + u256"
  vf_total_teleported :: "u256 \<Rightarrow> string + u256"

definition call :: "string + 'a \<Rightarrow> teleport_error + 'a" where
  "call r = (case r of Inl e \<Rightarrow> Inl (TeleportCall e) | Inr x \<Rightarrow> Inr x)"

definition or_panic :: "'a option \<Rightarrow> teleport_error + 'a" where
  "or_panic x = (case x of None \<Rightarrow> Inl TeleportPanic | Some y \<Rightarrow> Inr y)"

definition guard_error :: "bool \<Rightarrow> string \<Rightarrow> teleport_error + unit" where
  "guard_error ok msg = (if ok then Inr () else Inl (TeleportError msg))"

definition context_error :: "string \<Rightarrow> 'a option \<Rightarrow> teleport_error + 'a" where
  "context_error msg x = (case x of None \<Rightarrow> Inl (TeleportError msg) | Some y \<Rightarrow> Inr y)"

section \<open>The aggregation tree (\<open>aggregation_tree.rs\<close>)\<close>

record aggregation_tree_state =
  at_latest_agg_seq :: nat
  at_aggregation_root :: u256
  at_aggregation_tree :: merkle_tree
  at_tree_root_indices :: "nat list"
  at_chain_ids :: "nat list"

fun position :: "nat \<Rightarrow> nat list \<Rightarrow> nat option" where
  "position x [] = None"
| "position x (y # ys) = (if y = x then Some 0 else map_option Suc (position x ys))"

text \<open>The index into \<open>tree_root_indices\<close> panics when the list is shorter than \<open>chain_ids\<close>.\<close>

definition get_tree_id_for_chain_id :: "aggregation_tree_state \<Rightarrow> nat \<Rightarrow> teleport_error + nat option" where
  "get_tree_id_for_chain_id s cid =
     (case position cid (at_chain_ids s) of
        None \<Rightarrow> Inr None
      | Some idx \<Rightarrow>
          if idx < length (at_tree_root_indices s) then Inr (Some (at_tree_root_indices s ! idx))
          else Inl TeleportPanic)"

text \<open>The scan goes backwards in spans of blocks until the first block is covered.\<close>

function find_event_loop ::
  "hub_calls \<Rightarrow> nat \<Rightarrow> nat \<Rightarrow> nat \<Rightarrow> teleport_error + aggregation_root_event" where
  "find_event_loop hub target_seq span to_block =
     (if span = 0 then Inl (TeleportError ''event_block_span must be greater than zero'')
      else
        let from_block = (if span < to_block + 1 then to_block + 1 - span else 0)
        in case call (hb_root_events hub from_block to_block) of
             Inl e \<Rightarrow> Inl e
           | Inr events \<Rightarrow>
               (case find (\<lambda>e. ag_seq e = target_seq) (rev events) of
                  Some e \<Rightarrow> Inr e
                | None \<Rightarrow>
                    if from_block = 0 then Inl (TeleportError ''Aggregation event not found'')
                    else find_event_loop hub target_seq span (from_block - 1)))"
  by pat_completeness auto
termination
  by (relation "measure (\<lambda>(h, s, b, t). t)") (auto split: if_splits)

declare find_event_loop.simps [simp del]

definition find_aggregation_event :: "hub_calls \<Rightarrow> nat \<Rightarrow> nat \<Rightarrow> teleport_error + aggregation_root_event" where
  "find_aggregation_event hub target_seq span =
     (if span = 0 then Inl (TeleportError ''event_block_span must be greater than zero'')
      else res_bind (call (hb_latest_block hub)) (\<lambda>latest. find_event_loop hub target_seq span latest))"

fun fill_aggregation_tree :: "(fr \<Rightarrow> fr \<Rightarrow> fr) \<Rightarrow> nat \<Rightarrow> u256 list \<Rightarrow> merkle_tree \<Rightarrow> merkle_tree option" where
  "fill_aggregation_tree H idx [] t = Some t"
| "fill_aggregation_tree H idx (root # roots) t =
     (if root \<noteq> 0
      then do { t' \<leftarrow> update_leaf H t (word_of_nat idx) (u256_to_fr root); fill_aggregation_tree H (idx + 1) roots t' }
      else fill_aggregation_tree H (idx + 1) roots t)"

definition fetch_aggregation_tree_state ::
  "(fr \<Rightarrow> fr \<Rightarrow> fr) \<Rightarrow> nat \<Rightarrow> verifier_calls \<Rightarrow> hub_calls \<Rightarrow> teleport_error + aggregation_tree_state" where
  "fetch_aggregation_tree_state H event_block_span verifier hub =
     res_bind (call (vf_latest_agg_seq verifier)) (\<lambda>latest_agg_seq.
     res_bind (guard_error (latest_agg_seq \<noteq> 0) ''No aggregation reached yet'') (\<lambda>_.
     res_bind (call (vf_global_transfer_root verifier latest_agg_seq)) (\<lambda>onchain_global_root.
     res_bind (find_aggregation_event hub latest_agg_seq event_block_span) (\<lambda>ev.
     res_bind (guard_error (ag_root ev = onchain_global_root) ''Mismatch in global transfer root'') (\<lambda>_.
     res_bind (or_panic (fill_aggregation_tree H 0 (ag_snapshot ev) (mt_new H AGGREGATION_TREE_HEIGHT))) (\<lambda>tree.
     res_bind (or_panic (mt_get_root tree)) (\<lambda>root.
     res_bind (guard_error (root = u256_to_fr (ag_root ev)) ''Aggregation tree root mismatch'') (\<lambda>_.
     res_bind (call (hb_token_infos hub)) (\<lambda>token_infos.
     Inr \<lparr>at_latest_agg_seq = latest_agg_seq, at_aggregation_root = ag_root ev, at_aggregation_tree = tree,
          at_tree_root_indices = ag_transfer_tree_indices ev, at_chain_ids = map ht_chain_id token_infos\<rparr>)))))))))"

section \<open>Events (\<open>events.rs\<close>)\<close>

definition push_entry :: "nat \<Rightarrow> 'a \<Rightarrow> (nat \<times> 'a list) list \<Rightarrow> (nat \<times> 'a list) list" where
  "push_entry k x m = AList.update k (case map_of m k of None \<Rightarrow> [x] | Some xs \<Rightarrow> xs @ [x]) m"

type_synonym balance_of = "address \<Rightarrow> string + u256"

fun nonzero_tokens ::
  "address \<Rightarrow> (token_entry \<times> balance_of) list \<Rightarrow> (nat \<times> address list) list \<Rightarrow> teleport_error + (nat \<times> address list) list" where
  "nonzero_tokens a [] m = Inr m"
| "nonzero_tokens a ((t, balance) # ts) m =
     res_bind (call (balance a)) (\<lambda>b.
     nonzero_tokens a ts (if b \<noteq> 0 then push_entry (te_chain_id t) a m else m))"

fun nonzero_addresses ::
  "address list \<Rightarrow> (token_entry \<times> balance_of) list \<Rightarrow> (nat \<times> address list) list \<Rightarrow> teleport_error + (nat \<times> address list) list" where
  "nonzero_addresses [] ts m = Inr m"
| "nonzero_addresses (a # as) ts m = res_bind (nonzero_tokens a ts m) (nonzero_addresses as ts)"

definition chain_events ::
  "indexer_client \<Rightarrow> nat option \<Rightarrow> token_entry list \<Rightarrow> nat \<times> address list \<Rightarrow> teleport_error + nat \<times> indexed_event list" where
  "chain_events indexer limit token_entries entry =
     res_bind (context_error ''token entry not found for chain_id'' (find (\<lambda>t. te_chain_id t = fst entry) token_entries)) (\<lambda>t.
     res_bind (res_map (\<lambda>a. call (ic_events indexer (te_chain_id t) (te_token_address t) a limit)) (snd entry)) (\<lambda>ess.
     Inr (fst entry, concat ess)))"

definition fetch_transfer_events ::
  "indexer_client \<Rightarrow> nat option \<Rightarrow> token_entry list \<Rightarrow> balance_of list \<Rightarrow> address list
     \<Rightarrow> ((nat \<times> address list) list \<Rightarrow> (nat \<times> address list) list) \<Rightarrow> teleport_error + (nat \<times> indexed_event list) list" where
  "fetch_transfer_events indexer limit token_entries token_clients burn_addresses order =
     res_bind (guard_error (length token_entries = length token_clients) ''token entries length does not match'') (\<lambda>_.
     res_bind (nonzero_addresses burn_addresses (zip token_entries token_clients) []) (\<lambda>m.
     res_map (chain_events indexer limit token_entries) (order m)))"

record events_with_eligibility =
  el_eligible :: "indexed_event list"
  el_ineligible :: "indexed_event list"

definition total_value :: "indexed_event list \<Rightarrow> u256" where
  "total_value es = foldl (\<lambda>acc e. acc + ev_amount e) 0 es"

definition eligible_total_value :: "events_with_eligibility \<Rightarrow> u256" where
  "eligible_total_value s = total_value (el_eligible s)"

definition ineligible_total_value :: "events_with_eligibility \<Rightarrow> u256" where
  "ineligible_total_value s = total_value (el_ineligible s)"

definition separate_chain ::
  "aggregation_tree_state \<Rightarrow> nat \<times> indexed_event list \<Rightarrow> teleport_error + nat \<times> events_with_eligibility" where
  "separate_chain s entry =
     res_bind (get_tree_id_for_chain_id s (fst entry)) (\<lambda>idx.
     res_bind (context_error ''no tree root index for chain id'' idx) (\<lambda>tree_root_index.
     Inr (fst entry, \<lparr>el_eligible = filter (\<lambda>e. ev_index e < tree_root_index) (snd entry),
                      el_ineligible = filter (\<lambda>e. \<not> ev_index e < tree_root_index) (snd entry)\<rparr>)))"

definition separate_events_by_eligibility ::
  "aggregation_tree_state \<Rightarrow> (nat \<times> indexed_event list) list \<Rightarrow> teleport_error + (nat \<times> events_with_eligibility) list" where
  "separate_events_by_eligibility s events = res_map (separate_chain s) events"

section \<open>Merkle proofs (\<open>merkle_proofs.rs\<close>)\<close>

record local_teleport_proof =
  lt_tree_index :: nat
  lt_event :: indexed_event
  lt_proof :: merkle_proof

record global_teleport_proof =
  gt_event :: indexed_event
  gt_proof :: merkle_proof
  gt_leaf_index :: u64

definition event_leaf_hash :: "(fr \<Rightarrow> fr \<Rightarrow> fr) \<Rightarrow> indexed_event \<Rightarrow> fr" where
  "event_leaf_hash H e = compute_leaf_hash H (address_to_fr (ev_to e)) (u256_to_fr (ev_amount e))"

definition local_proof ::
  "(fr \<Rightarrow> fr \<Rightarrow> fr) \<Rightarrow> nat \<Rightarrow> indexed_event \<times> proof_response \<Rightarrow> teleport_error + local_teleport_proof" where
  "local_proof H tree_index ep =
     (let (e, p) = ep; mp = \<lparr>siblings = map u256_to_fr (pw_siblings p)\<rparr> in
      res_bind (guard_error (pw_leaf_index p = ev_index e \<and> pw_target_index p = tree_index) ''Mismatch in proof indices'') (\<lambda>_.
      res_bind (or_panic (proof_get_root H mp (event_leaf_hash H e) (word_of_nat (ev_index e)))) (\<lambda>root.
      res_bind (guard_error (root = u256_to_fr (pw_root p)) ''Invalid Merkle proof'') (\<lambda>_.
      Inr \<lparr>lt_tree_index = tree_index, lt_event = e, lt_proof = mp\<rparr>))))"

definition fetch_local_teleport_merkle_proofs ::
  "(fr \<Rightarrow> fr \<Rightarrow> fr) \<Rightarrow> indexer_client \<Rightarrow> token_entry \<Rightarrow> nat \<Rightarrow> indexed_event list \<Rightarrow> teleport_error + local_teleport_proof list" where
  "fetch_local_teleport_merkle_proofs H indexer t tree_index events =
     res_bind (call (ic_prove_many indexer (te_chain_id t) (te_token_address t) tree_index (map ev_index events))) (\<lambda>proofs.
     res_bind (guard_error (length proofs = length events) ''Indexer returned a different number of proofs'') (\<lambda>_.
     res_bind (res_map (local_proof H tree_index) (zip events proofs)) (\<lambda>ps.
     Inr (sort_key (\<lambda>w. ev_index (lt_event w)) ps))))"

definition global_proof ::
  "(fr \<Rightarrow> fr \<Rightarrow> fr) \<Rightarrow> aggregation_tree_state \<Rightarrow> nat \<Rightarrow> merkle_proof \<Rightarrow> local_teleport_proof
     \<Rightarrow> teleport_error + global_teleport_proof" where
  "global_proof H s aggregation_index aggregation_proof w =
     (let gp = proof_extend (lt_proof w) aggregation_proof;
          idx = push_bit TRANSFER_TREE_HEIGHT (word_of_nat aggregation_index) + word_of_nat (ev_index (lt_event w)) in
      res_bind (or_panic (proof_get_root H gp (event_leaf_hash H (lt_event w)) idx)) (\<lambda>expected_root.
      res_bind (guard_error (expected_root = u256_to_fr (at_aggregation_root s)) ''Invalid global Merkle proof'') (\<lambda>_.
      Inr \<lparr>gt_event = lt_event w, gt_proof = gp, gt_leaf_index = idx\<rparr>)))"

definition chain_global_proofs ::
  "(fr \<Rightarrow> fr \<Rightarrow> fr) \<Rightarrow> aggregation_tree_state \<Rightarrow> nat \<times> local_teleport_proof list \<Rightarrow> teleport_error + global_teleport_proof list" where
  "chain_global_proofs H s entry =
     res_bind (context_error ''Chain ID not found in aggregation state'' (position (fst entry) (at_chain_ids s))) (\<lambda>idx.
     res_bind (or_panic (mt_prove (at_aggregation_tree s) (word_of_nat idx))) (\<lambda>ap.
     res_map (global_proof H s idx ap) (snd entry)))"

definition generate_global_teleport_merkle_proofs ::
  "(fr \<Rightarrow> fr \<Rightarrow> fr) \<Rightarrow> aggregation_tree_state \<Rightarrow> (nat \<times> local_teleport_proof list) list
     \<Rightarrow> teleport_error + global_teleport_proof list" where
  "generate_global_teleport_merkle_proofs H s local_proofs =
     res_bind (res_map (chain_global_proofs H s) local_proofs) (\<lambda>gss.
     Inr (sort_key (\<lambda>g. unat (gt_leaf_index g)) (concat gss)))"

section \<open>Inputs of the circuits (\<open>cli/src/proof/\<close>)\<close>

record 'n withdraw_prover =
  wp_init :: "fr list \<Rightarrow> string + 'n"
  wp_prove_step :: "'n \<Rightarrow> withdraw_external_inputs \<Rightarrow> string + 'n"
  wp_verify :: "'n \<Rightarrow> string + unit"
  wp_decider :: "'n \<Rightarrow> string + bytes"
  wp_groth16 :: "single_withdraw_circuit \<Rightarrow> fr list \<Rightarrow> string + bytes"

definition single_circuit ::
  "nat \<Rightarrow> fr \<Rightarrow> u256 \<Rightarrow> indexed_event \<Rightarrow> merkle_proof \<Rightarrow> u64 \<Rightarrow> fr \<Rightarrow> teleport_error + single_withdraw_circuit" where
  "single_circuit DEPTH recipient merkle_root e p leaf_index secret =
     res_bind (guard_error (length (siblings p) = DEPTH) ''invalid number of siblings'') (\<lambda>_.
     Inr \<lparr>sw_merkle_root = Some (u256_to_fr merkle_root), sw_recipient = Some recipient,
          sw_withdraw_value = Some (u256_to_fr (ev_amount e)), sw_value = Some (u256_to_fr (ev_amount e)),
          sw_delta = Some 0, sw_secret = Some secret, sw_leaf_index = Some leaf_index,
          sw_siblings = map Some (siblings p)\<rparr>)"

definition single_teleport_proof ::
  "'n withdraw_prover \<Rightarrow> nat \<Rightarrow> fr \<Rightarrow> u256 \<Rightarrow> indexed_event \<Rightarrow> merkle_proof \<Rightarrow> u64 \<Rightarrow> fr \<Rightarrow> teleport_error + bytes" where
  "single_teleport_proof W DEPTH recipient merkle_root e p leaf_index secret =
     res_bind (single_circuit DEPTH recipient merkle_root e p leaf_index secret) (\<lambda>circuit.
     case single_public_inputs circuit of
       Inl _ \<Rightarrow> Inl (TeleportError ''AssignmentMissing'')
     | Inr public_inputs \<Rightarrow> call (wp_groth16 W circuit public_inputs))"

definition batch_initial_state :: "fr \<Rightarrow> fr \<Rightarrow> fr list" where
  "batch_initial_state root recipient = [root, recipient, 0, 0]"

definition NUM_BATCH_INVOICES :: nat where "NUM_BATCH_INVOICES = 10"

definition batch_input ::
  "nat \<Rightarrow> indexed_event \<times> merkle_proof \<times> u64 \<times> fr \<Rightarrow> teleport_error + withdraw_external_inputs" where
  "batch_input DEPTH x =
     (let (e, p, leaf_index, secret) = x in
      res_bind (guard_error (length (siblings p) = DEPTH) ''invalid number of siblings'') (\<lambda>_.
      Inr \<lparr>we_is_dummy = 0, we_value = u256_to_fr (ev_amount e), we_secret = secret,
           we_leaf_index = fr_of_nat (unat leaf_index), we_siblings = siblings p\<rparr>))"

text \<open>Dummy steps sit at the end of the index range, in front of its last index.\<close>

definition dummy_inputs :: "nat \<Rightarrow> nat \<Rightarrow> withdraw_external_inputs list" where
  "dummy_inputs DEPTH num_dummy_steps =
     (let offset = 2 ^ DEPTH - 1 - num_dummy_steps
      in map (\<lambda>i. dummy_withdraw_ext_input DEPTH (word_of_nat (offset + i)) 0) [0..<num_dummy_steps])"

fun prove_steps :: "'n withdraw_prover \<Rightarrow> 'n \<Rightarrow> withdraw_external_inputs list \<Rightarrow> teleport_error + 'n" where
  "prove_steps W nova [] = Inr nova"
| "prove_steps W nova (e # es) = res_bind (call (wp_prove_step W nova e)) (\<lambda>nova'. prove_steps W nova' es)"

definition batch_external_inputs ::
  "nat \<Rightarrow> nat \<Rightarrow> indexed_event list \<Rightarrow> merkle_proof list \<Rightarrow> u64 list \<Rightarrow> fr list
     \<Rightarrow> teleport_error + withdraw_external_inputs list" where
  "batch_external_inputs DEPTH num_dummy_steps events proofs leaf_indices secrets =
     res_bind (guard_error (length events = length proofs \<and> length events = length leaf_indices
       \<and> length events = length secrets) ''Mismatched lengths'') (\<lambda>_.
     res_bind (res_map (batch_input DEPTH) (zip events (zip proofs (zip leaf_indices secrets)))) (\<lambda>inputs.
     Inr (inputs @ dummy_inputs DEPTH num_dummy_steps)))"

definition batch_teleport_proof ::
  "'n withdraw_prover \<Rightarrow> nat \<Rightarrow> nat \<Rightarrow> fr \<Rightarrow> u256 \<Rightarrow> indexed_event list \<Rightarrow> merkle_proof list \<Rightarrow> u64 list \<Rightarrow> fr list
     \<Rightarrow> teleport_error + bytes" where
  "batch_teleport_proof W DEPTH num_dummy_steps recipient merkle_root events proofs leaf_indices secrets =
     res_bind (batch_external_inputs DEPTH num_dummy_steps events proofs leaf_indices secrets) (\<lambda>inputs.
     res_bind (call (wp_init W (batch_initial_state (u256_to_fr merkle_root) recipient))) (\<lambda>nova.
     res_bind (prove_steps W nova inputs) (\<lambda>nova'.
     res_bind (call (wp_verify W nova')) (\<lambda>_.
     res_bind (guard_error (DEPTH \<in> {TRANSFER_TREE_HEIGHT, GLOBAL_TRANSFER_TREE_HEIGHT}) ''unsupported circuit depth'') (\<lambda>_.
     call (wp_decider W nova'))))))"

section \<open>Redeeming (\<open>cli/src/commands/teleport.rs\<close>)\<close>

definition find_token_by_chain :: "token_entry list \<Rightarrow> nat \<Rightarrow> teleport_error + token_entry" where
  "find_token_by_chain tokens cid =
     (case filter (\<lambda>t. te_chain_id t = cid) tokens of
        [] \<Rightarrow> Inl (TeleportError ''no tokens configured for chain id'')
      | [t] \<Rightarrow> Inr t
      | _ \<Rightarrow> Inl (TeleportError ''multiple tokens configured for chain id''))"

datatype submission =
    SingleTeleport nat general_recipient bytes
  | BatchTeleport nat general_recipient bytes

datatype redeem_result = AlreadyClaimed | NoProofs | Submitted submission

definition chain_local_proofs ::
  "(fr \<Rightarrow> fr \<Rightarrow> fr) \<Rightarrow> indexer_client \<Rightarrow> aggregation_tree_state \<Rightarrow> token_entry list \<Rightarrow> nat \<times> events_with_eligibility
     \<Rightarrow> teleport_error + (nat \<times> local_teleport_proof list) list" where
  "chain_local_proofs H indexer s token_entries entry =
     (let events = el_eligible (snd entry) in
      if events = [] then Inr []
      else
        res_bind (get_tree_id_for_chain_id s (fst entry)) (\<lambda>idx.
        res_bind (context_error ''no tree root index for chain id'' idx) (\<lambda>tree_index.
        res_bind (find_token_by_chain token_entries (fst entry)) (\<lambda>t.
        res_bind (fetch_local_teleport_merkle_proofs H indexer t tree_index events) (\<lambda>ps.
        Inr [(fst entry, ps)])))))"

definition look_up_secret :: "(address \<rightharpoonup> b256) \<Rightarrow> global_teleport_proof \<Rightarrow> teleport_error + fr" where
  "look_up_secret secrets g =
     res_bind (context_error ''missing secret for burn address'' (secrets (ev_to (gt_event g)))) (\<lambda>s. Inr (b256_to_fr s))"

definition redeem_proof ::
  "'n withdraw_prover \<Rightarrow> nat \<Rightarrow> (bytes \<Rightarrow> bytes) \<Rightarrow> aggregation_tree_state \<Rightarrow> (address \<rightharpoonup> b256) \<Rightarrow> general_recipient
     \<Rightarrow> global_teleport_proof list \<Rightarrow> teleport_error + redeem_result" where
  "redeem_proof W num_dummy_steps sha s secrets gr gs =
     (case gs of
        [] \<Rightarrow> Inr NoProofs
      | [g] \<Rightarrow>
          res_bind (look_up_secret secrets g) (\<lambda>secret.
          res_bind (single_teleport_proof W GLOBAL_TRANSFER_TREE_HEIGHT (recipient_to_fr sha gr) (at_aggregation_root s)
              (gt_event g) (gt_proof g) (gt_leaf_index g) secret) (\<lambda>p.
          Inr (Submitted (SingleTeleport (at_latest_agg_seq s) gr p))))
      | _ \<Rightarrow>
          res_bind (res_map (look_up_secret secrets) gs) (\<lambda>ss.
          res_bind (batch_teleport_proof W GLOBAL_TRANSFER_TREE_HEIGHT num_dummy_steps (recipient_to_fr sha gr)
              (at_aggregation_root s) (map gt_event gs) (map gt_proof gs) (map gt_leaf_index gs) ss) (\<lambda>p.
          Inr (Submitted (BatchTeleport (at_latest_agg_seq s) gr p)))))"

definition redeem_transfers ::
  "(fr \<Rightarrow> fr \<Rightarrow> fr) \<Rightarrow> (bytes \<Rightarrow> bytes) \<Rightarrow> 'n withdraw_prover \<Rightarrow> nat \<Rightarrow> verifier_calls \<Rightarrow> (submission \<Rightarrow> string + unit)
     \<Rightarrow> indexer_client \<Rightarrow> aggregation_tree_state \<Rightarrow> (nat \<times> events_with_eligibility) list \<Rightarrow> (address \<rightharpoonup> b256)
     \<Rightarrow> general_recipient \<Rightarrow> token_entry list
     \<Rightarrow> ((nat \<times> local_teleport_proof list) list \<Rightarrow> (nat \<times> local_teleport_proof list) list)
     \<Rightarrow> teleport_error + redeem_result" where
  "redeem_transfers H sha W num_dummy_steps verifier submit indexer s separated_events secrets gr token_entries order =
     (let total_eligible_value = foldl (\<lambda>acc e. acc + eligible_total_value (snd e)) 0 separated_events in
      res_bind (call (vf_total_teleported verifier (recipient_to_u256 sha gr))) (\<lambda>total_teleported.
      if total_eligible_value \<le> total_teleported then Inr AlreadyClaimed
      else
        res_bind (res_map (chain_local_proofs H indexer s token_entries) separated_events) (\<lambda>lss.
        res_bind (generate_global_teleport_merkle_proofs H s (order (concat lss))) (\<lambda>gs.
        res_bind (redeem_proof W num_dummy_steps sha s secrets gr gs) (\<lambda>r.
        case r of
          Submitted c \<Rightarrow> res_bind (call (submit c)) (\<lambda>_. Inr r)
        | _ \<Rightarrow> Inr r)))))"

section \<open>The commands (\<open>receive_transfer.rs\<close>, \<open>invoice.rs\<close>)\<close>

text \<open>
  What the commands share: the contracts, the indexer and its limit, the provers, and the
  orders in which the hash maps happen to be traversed.
\<close>

record 'n redeem_env =
  rv_indexer :: indexer_client
  rv_limit :: nat
  rv_tokens :: "token_entry list"
  rv_clients :: "balance_of list"
  rv_verifier :: "token_entry \<Rightarrow> verifier_calls"
  rv_hub :: hub_calls
  rv_event_block_span :: nat
  rv_prover :: "'n withdraw_prover"
  rv_num_dummy_steps :: nat
  rv_submit :: "submission \<Rightarrow> string + unit"
  rv_address_order :: "(nat \<times> address list) list \<Rightarrow> (nat \<times> address list) list"
  rv_proof_order :: "(nat \<times> local_teleport_proof list) list \<Rightarrow> (nat \<times> local_teleport_proof list) list"
  rv_secret_order :: "(address \<times> secret_and_tweak) list \<Rightarrow> (address \<times> secret_and_tweak) list"

definition lift_payment :: "payment_error + 'a \<Rightarrow> teleport_error + 'a" where
  "lift_payment r = (case r of Inl e \<Rightarrow> Inl (TeleportBurn e) | Inr x \<Rightarrow> Inr x)"

text \<open>\<open>None\<close>: the command reports that there is nothing to claim.\<close>

definition receive_transfer ::
  "(fr \<Rightarrow> fr \<Rightarrow> fr) \<Rightarrow> (bytes \<Rightarrow> bytes) \<Rightarrow> 'n redeem_env \<Rightarrow> bytes \<Rightarrow> teleport_error + redeem_result option" where
  "receive_transfer H sha env burn_bytes =
     res_bind (lift_payment (burn_from_bytes burn_bytes)) (\<lambda>payload.
     res_bind (lift_payment (burn_address H sha payload)) (\<lambda>a.
     let cid = unat (chain_id (fb_gr payload)) in
     res_bind (find_token_by_chain (rv_tokens env) cid) (\<lambda>t.
     res_bind (fetch_aggregation_tree_state H (rv_event_block_span env) (rv_verifier env t) (rv_hub env)) (\<lambda>agg.
     res_bind (fetch_transfer_events (rv_indexer env) (Some (rv_limit env)) (rv_tokens env) (rv_clients env) [a]
         (rv_address_order env)) (\<lambda>events.
     res_bind (separate_events_by_eligibility agg events) (\<lambda>sep.
     case map_of sep cid of
       None \<Rightarrow> Inr None
     | Some events_for_chain \<Rightarrow>
         if el_eligible events_for_chain = [] then Inr None
         else
           res_bind (redeem_transfers H sha (rv_prover env) (rv_num_dummy_steps env) (rv_verifier env t) (rv_submit env)
               (rv_indexer env) agg sep [a \<mapsto> fb_secret payload] (fb_gr payload) (rv_tokens env) (rv_proof_order env)) (\<lambda>r.
           Inr (Some r))))))))"

definition invoice_entry ::
  "(fr \<Rightarrow> fr \<Rightarrow> fr) \<Rightarrow> (bytes \<Rightarrow> bytes) \<Rightarrow> u64 \<Rightarrow> address \<Rightarrow> secret_and_tweak option \<Rightarrow> teleport_error + address \<times> secret_and_tweak" where
  "invoice_entry H sha cid addr st =
     res_bind (or_panic st) (\<lambda>st.
     res_bind (lift_payment (full_burn_address_new H sha cid addr st)) (\<lambda>fb.
     res_bind (lift_payment (burn_address H sha fb)) (\<lambda>a.
     Inr (a, st))))"

definition invoice_secrets ::
  "(fr \<Rightarrow> fr \<Rightarrow> fr) \<Rightarrow> (bytes \<Rightarrow> bytes) \<Rightarrow> (bytes \<Rightarrow> b256) \<Rightarrow> b256 \<Rightarrow> b256 \<Rightarrow> u64 \<Rightarrow> address
     \<Rightarrow> teleport_error + (address \<times> secret_and_tweak) list" where
  "invoice_secrets H sha keccak invoice_id seed cid addr =
     res_bind (res_map (invoice_entry H sha cid addr)
       (if is_single invoice_id then [single_invoice H sha keccak invoice_id seed cid addr]
        else map (\<lambda>sub_id. batch_invoice H sha keccak invoice_id (word_of_nat sub_id) seed cid addr) [0..<NUM_BATCH_INVOICES])) (\<lambda>xs.
     Inr (foldl (\<lambda>m (a, st). AList.update a st m) [] xs))"

record invoice_receive_context =
  ic_token :: token_entry
  ic_gr :: general_recipient
  ic_aggregation_tree_state :: aggregation_tree_state
  ic_separated_events :: "(nat \<times> events_with_eligibility) list"
  ic_burn_address_to_secret_and_tweak :: "(address \<times> secret_and_tweak) list"

definition build_invoice_receive_context ::
  "(fr \<Rightarrow> fr \<Rightarrow> fr) \<Rightarrow> (bytes \<Rightarrow> bytes) \<Rightarrow> (bytes \<Rightarrow> b256) \<Rightarrow> 'n redeem_env \<Rightarrow> b256 \<Rightarrow> b256 \<Rightarrow> u64 \<Rightarrow> address
     \<Rightarrow> teleport_error + invoice_receive_context option" where
  "build_invoice_receive_context H sha keccak env invoice_id seed cid addr =
     res_bind (find_token_by_chain (rv_tokens env) (unat cid)) (\<lambda>t.
     res_bind (invoice_secrets H sha keccak invoice_id seed cid addr) (\<lambda>m.
     case rv_secret_order env m of
       [] \<Rightarrow> Inr None
     | (_, st) # _ \<Rightarrow>
         let gr = new_evm cid addr (st_tweak st) in
         res_bind (fetch_transfer_events (rv_indexer env) (Some (rv_limit env)) (rv_tokens env) (rv_clients env)
             (map fst (rv_secret_order env m)) (rv_address_order env)) (\<lambda>events.
         res_bind (fetch_aggregation_tree_state H (rv_event_block_span env) (rv_verifier env t) (rv_hub env)) (\<lambda>agg.
         res_bind (separate_events_by_eligibility agg events) (\<lambda>sep.
         Inr (Some \<lparr>ic_token = t, ic_gr = gr, ic_aggregation_tree_state = agg, ic_separated_events = sep,
           ic_burn_address_to_secret_and_tweak = m\<rparr>))))))"

definition invoice_receive ::
  "(fr \<Rightarrow> fr \<Rightarrow> fr) \<Rightarrow> (bytes \<Rightarrow> bytes) \<Rightarrow> (bytes \<Rightarrow> b256) \<Rightarrow> 'n redeem_env \<Rightarrow> b256 \<Rightarrow> b256 \<Rightarrow> u64 \<Rightarrow> address
     \<Rightarrow> teleport_error + redeem_result option" where
  "invoice_receive H sha keccak env invoice_id seed cid addr =
     res_bind (build_invoice_receive_context H sha keccak env invoice_id seed cid addr) (\<lambda>context.
     case context of
       None \<Rightarrow> Inr None
     | Some ctx \<Rightarrow>
         res_bind (redeem_transfers H sha (rv_prover env) (rv_num_dummy_steps env) (rv_verifier env (ic_token ctx)) (rv_submit env)
             (rv_indexer env) (ic_aggregation_tree_state ctx) (ic_separated_events ctx)
             (map_option st_secret \<circ> map_of (ic_burn_address_to_secret_and_tweak ctx)) (ic_gr ctx) (rv_tokens env) (rv_proof_order env)) (\<lambda>r.
         Inr (Some r)))"

text \<open>The status command prints the burn addresses and the events per chain.\<close>

definition invoice_status ::
  "(fr \<Rightarrow> fr \<Rightarrow> fr) \<Rightarrow> (bytes \<Rightarrow> bytes) \<Rightarrow> (bytes \<Rightarrow> b256) \<Rightarrow> 'n redeem_env \<Rightarrow> b256 \<Rightarrow> b256 \<Rightarrow> u64 \<Rightarrow> address
     \<Rightarrow> teleport_error + (address list \<times> (nat \<times> events_with_eligibility) list) option" where
  "invoice_status H sha keccak env invoice_id seed cid addr =
     res_bind (build_invoice_receive_context H sha keccak env invoice_id seed cid addr) (\<lambda>context.
     case context of
       None \<Rightarrow> Inr None
     | Some ctx \<Rightarrow>
         Inr (Some (map fst (rv_secret_order env (ic_burn_address_to_secret_and_tweak ctx)), ic_separated_events ctx)))"

text \<open>A hash map built by insertion has the inserted keys, each once.\<close>

lemma foldl_update_keys:
  "distinct (map fst m0) \<Longrightarrow> distinct (map fst (foldl (\<lambda>m (a, st). AList.update a st m) m0 xs))"
  "fst ` set (foldl (\<lambda>m (a, st). AList.update a st m) m0 xs) = fst ` set m0 \<union> fst ` set xs"
  by (induction xs arbitrary: m0) (auto simp: distinct_update dom_update case_prod_unfold)

end
