(* ===== verification/Event_Indexer_Props.thy ===== *)
theory Event_Indexer_Props
  imports Event_Indexer
begin

text \<open>
  Correctness of the event indexer against a chain: the contract's events, numbered
  from zero in block order, and a node that answers a range query with exactly the
  events of the range. A synchronisation ends and leaves the table complete up to the
  contract's last index, from any state that earlier (possibly failed)
  synchronisations can have left behind.
\<close>

section \<open>The chain\<close>

definition chain_ok :: "indexed_event list \<Rightarrow> nat \<Rightarrow> nat \<Rightarrow> bool" where
  "chain_ok log deployed latest \<longleftrightarrow>
     map ev_index log = [0..<length log] \<and> sorted (map ev_block log)
     \<and> (\<forall>e \<in> set log. deployed \<le> ev_block e \<and> ev_block e \<le> latest)
     \<and> deployed \<le> latest \<and> latest < 2 ^ 63 \<and> length log < 2 ^ 63"

definition node_answers :: "get_events \<Rightarrow> indexed_event list \<Rightarrow> bool" where
  "node_answers get log \<longleftrightarrow>
     (\<forall>a b. get a b = Inr (filter (\<lambda>e. a \<le> ev_block e \<and> ev_block e \<le> b) log))"

definition row_of :: "indexed_event \<Rightarrow> event_row" where
  "row_of e = \<lparr>er_index = int (ev_index e), er_from = address_bytes (ev_from e),
     er_to = address_bytes (ev_to e), er_amount = u256_to_be_bytes (ev_amount e),
     er_block = int (ev_block e)\<rparr>"

lemma row_of_simps [simp]:
  "er_index (row_of e) = int (ev_index e)" "er_block (row_of e) = int (ev_block e)"
  by (simp_all add: row_of_def)

lemma log_nth: "chain_ok log d l \<Longrightarrow> i < length log \<Longrightarrow> ev_index (log ! i) = i"
  unfolding chain_ok_def by (metis add_0 length_map nth_map nth_upt)

lemma log_index:
  assumes "chain_ok log d l" "e \<in> set log"
  shows "ev_index e < length log" "log ! ev_index e = e"
  using assms log_nth [OF assms(1)] by (auto simp: in_set_conv_nth)

lemma log_bounds:
  assumes "chain_ok log d l" "e \<in> set log"
  shows "d \<le> ev_block e" "ev_block e \<le> l" "ev_block e < 2 ^ 63" "ev_index e < 2 ^ 63"
  using assms log_index [OF assms] unfolding chain_ok_def by (auto intro: le_less_trans less_trans)

lemma log_mono: "chain_ok log d l \<Longrightarrow> i \<le> j \<Longrightarrow> j < length log \<Longrightarrow> ev_block (log ! i) \<le> ev_block (log ! j)"
  unfolding chain_ok_def using sorted_nth_mono [of "map ev_block log" i j] by simp

definition rows_of_log :: "indexed_event list \<Rightarrow> event_row list \<Rightarrow> bool" where
  "rows_of_log log rows \<longleftrightarrow>
     distinct (map er_index rows) \<and> (\<forall>r \<in> set rows. \<exists>e \<in> set log. r = row_of e)"

section \<open>Inserting and scanning\<close>

lemma distinct_map_filter: "distinct (map f xs) \<Longrightarrow> distinct (map f (filter P xs))"
  by (induction xs) auto

lemma insert_events_loop_ok:
  assumes chain: "chain_ok log d l" and "set es \<subseteq> set log" "rows_of_log log rows"
  shows "\<exists>rows'. insert_events_loop es rows = Inr rows' \<and> set rows' = row_of ` set es \<union> set rows
    \<and> rows_of_log log rows'"
  using assms(2,3)
proof (induction es arbitrary: rows)
  case (Cons e es)
  have e: "e \<in> set log"
    using Cons.prems(1) by simp
  have conv: "to_i64 (ev_index e) lbl = Inr (int (ev_index e))"
      "to_i64 (ev_block e) lbl = Inr (int (ev_block e))" for lbl
    using log_bounds [OF chain e] by (simp_all add: to_i64_def)
  have "r = row_of e" if r: "r \<in> set rows" "er_index r = int (ev_index e)" for r
  proof -
    obtain e' where "e' \<in> set log" "r = row_of e'"
      using Cons.prems(2) r(1) by (auto simp: rows_of_log_def)
    then show ?thesis
      using r(2) log_index [OF chain] e by (metis of_nat_eq_iff row_of_simps(1))
  qed
  then have up: "set (upsert_event (row_of e) rows) = insert (row_of e) (set rows)"
    by (auto simp: upsert_event_def)
  moreover have "distinct (map er_index (upsert_event (row_of e) rows))"
    using Cons.prems(2) by (auto simp: rows_of_log_def upsert_event_def distinct_map_filter)
  ultimately have "rows_of_log log (upsert_event (row_of e) rows)"
    using Cons.prems(2) e by (auto simp: rows_of_log_def)
  from Cons.IH [OF _ this] Cons.prems(1) show ?case
    using up by (auto simp: conv simp flip: row_of_def)
qed simp

lemma insert_events_ok:
  assumes "chain_ok log d l" "set es \<subseteq> set log" "rows_of_log log (event_rows db)"
  shows "\<exists>db'. insert_events db es = Inr db' \<and> set (event_rows db') = row_of ` set es \<union> set (event_rows db)
    \<and> rows_of_log log (event_rows db') \<and> indexer_state db' = indexer_state db"
  using insert_events_loop_ok [OF assms] assms(3)
  by (cases "es = []") (auto simp: insert_events_def)

definition events_between :: "indexed_event list \<Rightarrow> nat \<Rightarrow> nat \<Rightarrow> indexed_event set" where
  "events_between log a b = {e \<in> set log. a \<le> ev_block e \<and> ev_block e \<le> b}"

lemma scan_loop_ok:
  assumes chain: "chain_ok log d l" and node: "node_answers get log"
    and cfg: "0 < span" "overlap < span" and "to_block < 2 ^ 63"
    and "rows_of_log log (event_rows db)" "lo \<le> to_block"
  shows "\<exists>db'. scan_loop get span overlap lo to_block db = Some (None, db')
    \<and> set (event_rows db') = row_of ` events_between log lo to_block \<union> set (event_rows db)
    \<and> rows_of_log log (event_rows db') \<and> indexer_state db' = indexer_state db"
  using assms(6,7)
proof (induction "to_block - lo" arbitrary: lo db rule: less_induct)
  case less
  let ?to = "min to_block (sat_add_u64 lo (span - 1))"
  let ?es = "filter (\<lambda>e. lo \<le> ev_block e \<and> ev_block e \<le> ?to) log"
  obtain db1 where db1: "insert_events db ?es = Inr db1"
      "set (event_rows db1) = row_of ` set ?es \<union> set (event_rows db)"
      "rows_of_log log (event_rows db1)" "indexer_state db1 = indexer_state db"
    using insert_events_ok [OF chain _ less.prems(1), of ?es] by auto
  have call: "res_bind (get lo ?to) (insert_events db) = Inr db1"
    using node db1(1) by (simp add: node_answers_def)
  have es: "set ?es = events_between log lo ?to"
    by (auto simp: events_between_def)
  show ?case
  proof (cases "?to = to_block")
    case True
    then have "scan_loop get span overlap lo to_block db = Some (None, db1)"
      using less.prems(2) call by (subst scan_loop.simps) (simp add: Let_def)
    then show ?thesis
      using db1 es True by auto
  next
    case False
    then have to_eq: "?to = lo + (span - 1)" and lt: "lo + (span - 1) < to_block"
      using assms(5) by (auto simp: sat_add_u64_def min_def split: if_splits)
    let ?lo = "lo + span - overlap"
    have nxt: "sat_add_u64 ?to 1 - min overlap (sat_add_u64 ?to 1) = ?lo"
      using to_eq lt assms(5) cfg by (simp add: sat_add_u64_def)
    have step: "scan_loop get span overlap lo to_block db = scan_loop get span overlap ?lo to_block db1"
      using less.prems(2)
      by (subst scan_loop.simps) (simp only: not_less [THEN iffD2] call False nxt Let_def sum.case if_False)
    have "?lo \<le> to_block" "to_block - ?lo < to_block - lo"
      using lt cfg by linarith+
    from less.hyps [OF this(2) db1(3) this(1)] obtain db' where
      db': "scan_loop get span overlap ?lo to_block db1 = Some (None, db')"
        "set (event_rows db') = row_of ` events_between log ?lo to_block \<union> set (event_rows db1)"
        "rows_of_log log (event_rows db')" "indexer_state db' = indexer_state db1"
      by blast
    have un: "events_between log ?lo to_block \<union> events_between log lo ?to = events_between log lo to_block"
      unfolding to_eq using lt cfg by (auto simp: events_between_def)
    have "set (event_rows db')
        = row_of ` (events_between log ?lo to_block \<union> events_between log lo ?to) \<union> set (event_rows db)"
      unfolding db'(2) db1(2) es by (simp only: image_Un Un_assoc)
    then have "set (event_rows db') = row_of ` events_between log lo to_block \<union> set (event_rows db)"
      unfolding un .
    then show ?thesis
      using step db' db1(4) by auto
  qed
qed

lemma scan_chunked_ok:
  assumes "chain_ok log d l" "node_answers get log"
    and "0 < block_span cfg" "forward_scan_overlap cfg < block_span cfg" "to_block < 2 ^ 63"
    and "rows_of_log log (event_rows db)"
  shows "\<exists>db'. scan_chunked get cfg lo to_block db = Some (None, db')
    \<and> set (event_rows db') = row_of ` events_between log lo to_block \<union> set (event_rows db)
    \<and> rows_of_log log (event_rows db') \<and> indexer_state db' = indexer_state db"
proof (cases "to_block < lo")
  case True
  then have "events_between log lo to_block = {}"
    by (auto simp: events_between_def)
  with True assms(6) show ?thesis
    by (simp add: scan_chunked_def)
next
  case False
  then show ?thesis
    using scan_loop_ok [OF assms, of lo] by (simp add: scan_chunked_def)
qed

section \<open>Advancing\<close>

lemma advance_loop_spec:
  assumes "advance_loop rows c cb adv = (c', cb', adv')"
  shows "c \<le> c' \<and> (\<forall>i. c < i \<and> i \<le> c' \<longrightarrow> event_at rows i \<noteq> None) \<and> event_at rows (c' + 1) = None
    \<and> (if c' = c then cb' = cb \<and> adv' = adv
       else adv' \<and> (\<exists>r \<in> set rows. er_index r = c' \<and> cb' = Some (er_block r)))"
  using assms
proof (induction rows c cb adv arbitrary: c' cb' adv' rule: advance_loop.induct)
  case (1 rows c cb adv)
  show ?case
  proof (cases "event_at rows (c + 1)")
    case None
    then show ?thesis
      using "1.prems" by (auto simp: advance_loop.simps [of rows c])
  next
    case (Some r)
    have r: "r \<in> set rows" "er_index r = c + 1"
      using event_at_Some [OF Some] by auto
    have "advance_loop rows (er_index r) (Some (er_block r)) True = (c', cb', adv')"
      using "1.prems" Some by (simp add: advance_loop.simps [of rows c])
    note ih = "1.IH" [OF Some this, unfolded r(2)]
    have le: "c + 1 \<le> c'"
      using ih by simp
    have "event_at rows i \<noteq> None" if "c < i" "i \<le> c'" for i
      using ih that Some by (cases "i = c + 1") auto
    moreover have "adv' \<and> (\<exists>r \<in> set rows. er_index r = c' \<and> cb' = Some (er_block r))"
      using ih r by (cases "c' = c + 1") auto
    ultimately show ?thesis
      using ih le by simp
  qed
qed

definition state_ok :: "indexed_event list \<Rightarrow> event_row list \<Rightarrow> state_row \<Rightarrow> bool" where
  "state_ok log rows st \<longleftrightarrow>
     - 1 \<le> contiguous_index st \<and> contiguous_index st < int (length log)
     \<and> (\<forall>e \<in> set log. int (ev_index e) \<le> contiguous_index st \<longrightarrow> row_of e \<in> set rows)
     \<and> contiguous_block st
         = (if contiguous_index st = - 1 then None
            else Some (int (ev_block (log ! nat (contiguous_index st)))))
     \<and> 0 \<le> last_synced_block st
     \<and> (case last_seen_contract_index st of None \<Rightarrow> True | Some i \<Rightarrow> 0 \<le> i)"

text \<open>What every synchronisation keeps, whether it succeeds or fails.\<close>

definition events_inv :: "indexed_event list \<Rightarrow> event_db \<Rightarrow> bool" where
  "events_inv log db \<longleftrightarrow> rows_of_log log (event_rows db)
     \<and> (case indexer_state db of None \<Rightarrow> True | Some st \<Rightarrow> state_ok log (event_rows db) st)"

definition view_of :: "state_row \<Rightarrow> indexer_view" where
  "view_of st = \<lparr>st_contiguous_index = contiguous_index st,
     st_contiguous_block = map_option nat (contiguous_block st),
     st_last_synced_block = nat (last_synced_block st),
     st_last_seen = map_option nat (last_seen_contract_index st)\<rparr>"

lemma view_of_simps [simp]:
  "st_contiguous_index (view_of st) = contiguous_index st"
  "st_contiguous_block (view_of st) = map_option nat (contiguous_block st)"
  "st_last_synced_block (view_of st) = nat (last_synced_block st)"
  by (simp_all add: view_of_def)

lemma indexer_state_from_row_ok: "state_ok log rows st \<Longrightarrow> indexer_state_from_row st = Inr (view_of st)"
  by (auto simp: state_ok_def indexer_state_from_row_def opt_i64_to_u64_def to_u64_def view_of_def
      split: option.splits)

lemma state_ok_mono: "state_ok log rows st \<Longrightarrow> set rows \<subseteq> set rows' \<Longrightarrow> state_ok log rows' st"
  by (auto simp: state_ok_def)

lemma event_at_row:
  assumes "chain_ok log d l" "rows_of_log log rows" "e \<in> set log"
  shows "event_at rows (int (ev_index e)) \<noteq> None \<longleftrightarrow> row_of e \<in> set rows"
proof
  assume "event_at rows (int (ev_index e)) \<noteq> None"
  then obtain r where r: "r \<in> set rows" "er_index r = int (ev_index e)"
    using event_at_Some by blast
  then obtain e' where "e' \<in> set log" "r = row_of e'"
    using assms(2) by (auto simp: rows_of_log_def)
  then show "row_of e \<in> set rows"
    using r log_index(2) [OF assms(1)] assms(3) by (metis of_nat_eq_iff row_of_simps(1))
next
  assume "row_of e \<in> set rows"
  then show "event_at rows (int (ev_index e)) \<noteq> None"
    unfolding event_at_None by (metis row_of_simps(1))
qed

lemma advance_ok:
  assumes chain: "chain_ok log d l" and rows: "rows_of_log log (event_rows db)"
    and st: "indexer_state db = Some row" "state_ok log (event_rows db) row"
  shows "\<exists>row'. advance_contiguous_index db = (Inr (view_of row'), db\<lparr>indexer_state := Some row'\<rparr>)
    \<and> state_ok log (event_rows db) row'
    \<and> last_synced_block row' = last_synced_block row
    \<and> contiguous_index row \<le> contiguous_index row'
    \<and> (\<forall>e \<in> set log. int (ev_index e) = contiguous_index row' + 1 \<longrightarrow> row_of e \<notin> set (event_rows db))"
proof -
  obtain c cb adv where loop:
    "advance_loop (event_rows db) (contiguous_index row) (contiguous_block row) False = (c, cb, adv)"
    by (metis prod_cases3)
  note spec = advance_loop_spec [OF loop]
  let ?row = "row\<lparr>contiguous_index := c, contiguous_block := cb\<rparr>"
  have covered: "row_of e \<in> set (event_rows db)" if "e \<in> set log" "int (ev_index e) \<le> c" for e
  proof (cases "int (ev_index e) \<le> contiguous_index row")
    case True
    then show ?thesis
      using st(2) that(1) by (simp add: state_ok_def)
  next
    case False
    then have "event_at (event_rows db) (int (ev_index e)) \<noteq> None"
      using spec that(2) by auto
    then show ?thesis
      using event_at_row [OF chain rows that(1)] by simp
  qed
  have ok: "state_ok log (event_rows db) ?row"
  proof (cases "c = contiguous_index row")
    case True
    then have "cb = contiguous_block row"
      using spec by simp
    with True st(2) show ?thesis
      by simp
  next
    case False
    then obtain r where r: "r \<in> set (event_rows db)" "er_index r = c" "cb = Some (er_block r)"
      using spec by auto
    then obtain e where e: "e \<in> set log" "r = row_of e"
      using rows by (auto simp: rows_of_log_def)
    then have "c = int (ev_index e)" "cb = Some (int (ev_block e))"
      using r by auto
    then show ?thesis
      using st(2) covered log_index [OF chain e(1)] by (simp add: state_ok_def)
  qed
  have "\<forall>e \<in> set log. int (ev_index e) = c + 1 \<longrightarrow> row_of e \<notin> set (event_rows db)"
    using spec event_at_row [OF chain rows] by metis
  moreover have "(if adv then db\<lparr>indexer_state := Some ?row\<rparr> else db) = db\<lparr>indexer_state := Some ?row\<rparr>"
    using spec st(1) by (cases "c = contiguous_index row") (auto simp: state_row.surjective)
  ultimately show ?thesis
    using loop st(1) ok spec indexer_state_from_row_ok [OF ok]
    by (intro exI [of _ ?row]) (simp add: advance_contiguous_index_def Let_def)
qed

section \<open>Backfilling\<close>

lemma next_known_spec:
  "case next_known rows i of
     None \<Rightarrow> \<forall>r \<in> set rows. er_index r < i
   | Some r \<Rightarrow> r \<in> set rows \<and> i \<le> er_index r \<and> (\<forall>r' \<in> set rows. i \<le> er_index r' \<longrightarrow> er_index r \<le> er_index r')"
  by (induction rows) (auto split: option.splits if_splits)

lemma gap_anchor_ok:
  assumes chain: "chain_ok log d l" and rows: "rows_of_log log rows" and st: "state_ok log rows row"
    and gap: "contiguous_index row + 1 < int (length log)"
    and missing: "\<forall>e \<in> set log. int (ev_index e) = contiguous_index row + 1 \<longrightarrow> row_of e \<notin> set rows"
  shows "\<exists>fb tb. find_gap_anchor rows (view_of row) (length log - 1) l d = Inr (Some (fb, tb))
    \<and> fb \<le> ev_block (log ! nat (contiguous_index row + 1)) \<and> ev_block (log ! nat (contiguous_index row + 1)) \<le> tb
    \<and> tb \<le> l"
proof -
  let ?g = "nat (contiguous_index row + 1)" and ?c = "contiguous_index row"
  have c: "- 1 \<le> ?c"
    using st by (simp add: state_ok_def)
  then have g: "?g < length log" "int ?g = ?c + 1"
    using gap by simp_all
  let ?e = "log ! ?g"
  have e: "?e \<in> set log" "ev_index ?e = ?g"
    using g log_nth [OF chain] by simp_all
  note eb = log_bounds [OF chain e(1)]
  let ?fb = "max (case map_option nat (contiguous_block row) of Some b \<Rightarrow> b | None \<Rightarrow> d) d"
  have fb: "?fb \<le> ev_block ?e"
  proof (cases "?c = - 1")
    case True
    then show ?thesis
      using st eb(1) by (simp add: state_ok_def)
  next
    case False
    then have "nat ?c \<le> ?g" "contiguous_block row = Some (int (ev_block (log ! nat ?c)))"
      using c st by (simp_all add: state_ok_def)
    then show ?thesis
      using log_mono [OF chain _ g(1), of "nat ?c"] eb(1) by simp
  qed
  have gs: "to_i64 ?g lbl = Inr (?c + 1)" for lbl
    using g chain by (simp add: to_i64_def chain_ok_def)
  have gstart: "nat (max (?c + 1) 0) = ?g"
    using c by simp
  have not_past: "\<not> length log - 1 < ?g"
    using g(1) by linarith
  note spec = next_known_spec [of rows "?c + 1"]
  show ?thesis
  proof (cases "next_known rows (?c + 1)")
    case None
    have "find_gap_anchor rows (view_of row) (length log - 1) l d = Inr (Some (?fb, l))"
      using None not_past le_trans [OF fb eb(2)]
      by (simp add: find_gap_anchor_def gstart gs Let_def not_less)
    with fb eb(2) show ?thesis
      by blast
  next
    case (Some r)
    with spec have r: "r \<in> set rows" "?c + 1 \<le> er_index r"
      by simp_all
    obtain e' where e': "e' \<in> set log" "r = row_of e'"
      using rows r(1) by (auto simp: rows_of_log_def)
    have "er_index r \<noteq> ?c + 1"
      using missing r(1) e' by auto
    then have later: "?g < ev_index e'"
      using r(2) e' c by (simp add: nat_less_iff)
    then have mono: "ev_block ?e \<le> ev_block e'"
      using log_mono [OF chain, of ?g "ev_index e'"] log_index [OF chain e'(1)] by simp
    have "find_gap_anchor rows (view_of row) (length log - 1) l d = Inr (Some (?fb, ev_block e'))"
      using Some not_past later le_trans [OF fb mono] e'(2)
      by (simp add: find_gap_anchor_def gstart gs Let_def to_u64_def not_less)
    with fb mono log_bounds(2) [OF chain e'(1)] show ?thesis
      by blast
  qed
qed

lemma backfill_ok:
  assumes chain: "chain_ok log d l" and node: "node_answers get log" and ne: "log \<noteq> []"
    and cfg: "0 < block_span cfg" "forward_scan_overlap cfg < block_span cfg"
    and "rows_of_log log (event_rows db)" "indexer_state db = Some row" "state_ok log (event_rows db) row"
    and "\<forall>e \<in> set log. int (ev_index e) = contiguous_index row + 1 \<longrightarrow> row_of e \<notin> set (event_rows db)"
  shows "\<exists>row' db'. backfill get cfg d (view_of row) (length log - 1) l db = Some (Inr (view_of row'), db')
    \<and> rows_of_log log (event_rows db') \<and> indexer_state db' = Some row'
    \<and> state_ok log (event_rows db') row' \<and> contiguous_index row' = int (length log) - 1
    \<and> last_synced_block row' = last_synced_block row"
  using assms(6-9)
proof (induction "nat (int (length log) - contiguous_index row)" arbitrary: row db rule: less_induct)
  case less
  let ?c = "contiguous_index row"
  have c: "- 1 \<le> ?c" "?c < int (length log)"
    using less.prems(3) by (simp_all add: state_ok_def)
  show ?case
  proof (cases "?c = int (length log) - 1")
    case True
    then have "0 \<le> ?c \<and> length log - 1 \<le> nat ?c"
      using ne by (cases log) auto
    then have "backfill get cfg d (view_of row) (length log - 1) l db = Some (Inr (view_of row), db)"
      by (subst backfill.simps) simp
    with True less.prems show ?thesis
      by blast
  next
    case False
    then have gap: "?c + 1 < int (length log)"
      using c by simp
    obtain fb tb where anchor: "find_gap_anchor (event_rows db) (view_of row) (length log - 1) l d = Inr (Some (fb, tb))"
        "fb \<le> ev_block (log ! nat (?c + 1))" "ev_block (log ! nat (?c + 1)) \<le> tb" "tb \<le> l"
      using gap_anchor_ok [OF chain less.prems(1,3) gap less.prems(4)] by blast
    have "tb < 2 ^ 63"
      using anchor(4) chain by (auto simp: chain_ok_def)
    from scan_chunked_ok [OF chain node cfg this less.prems(1), of fb] obtain db1 where
      db1: "scan_chunked get cfg fb tb db = Some (None, db1)"
        "set (event_rows db1) = row_of ` events_between log fb tb \<union> set (event_rows db)"
        "rows_of_log log (event_rows db1)" "indexer_state db1 = Some row"
      using less.prems(2) by auto
    have st1: "state_ok log (event_rows db1) row"
      using state_ok_mono [OF less.prems(3)] db1(2) by blast
    obtain row1 where row1:
      "advance_contiguous_index db1 = (Inr (view_of row1), db1\<lparr>indexer_state := Some row1\<rparr>)"
      "state_ok log (event_rows db1) row1" "last_synced_block row1 = last_synced_block row"
      "?c \<le> contiguous_index row1"
      "\<forall>e \<in> set log. int (ev_index e) = contiguous_index row1 + 1 \<longrightarrow> row_of e \<notin> set (event_rows db1)"
      using advance_ok [OF chain db1(3,4) st1] by blast
    have "contiguous_index row1 \<noteq> ?c"
    proof
      assume same: "contiguous_index row1 = ?c"
      let ?e = "log ! nat (?c + 1)"
      have "?e \<in> set log" "int (ev_index ?e) = ?c + 1"
        using gap c log_nth [OF chain, of "nat (?c + 1)"] by simp_all
      moreover from this have "?e \<in> events_between log fb tb"
        using anchor by (simp add: events_between_def)
      ultimately show False
        using row1(5) db1(2) same by auto
    qed
    then have up: "?c < contiguous_index row1"
      using row1(4) by simp
    have run: "backfill get cfg d (view_of row) (length log - 1) l db
        = backfill get cfg d (view_of row1) (length log - 1) l (db1\<lparr>indexer_state := Some row1\<rparr>)"
    proof -
      have "(0 \<le> ?c \<and> length log - 1 \<le> nat ?c) = False"
        using gap c by auto
      then show ?thesis
        using anchor(1) db1(1) row1(1) up
        by (subst backfill.simps) (simp only: view_of_simps if_False sum.case option.case prod.case not_le [THEN iffD2])
    qed
    have "nat (int (length log) - contiguous_index row1) < nat (int (length log) - ?c)"
      using up c by simp
    from less.hyps [OF this, of "db1\<lparr>indexer_state := Some row1\<rparr>"] obtain row' db' where
      "backfill get cfg d (view_of row1) (length log - 1) l (db1\<lparr>indexer_state := Some row1\<rparr>)
        = Some (Inr (view_of row'), db')"
      "rows_of_log log (event_rows db')" "indexer_state db' = Some row'" "state_ok log (event_rows db') row'"
      "contiguous_index row' = int (length log) - 1" "last_synced_block row' = last_synced_block row1"
      using db1(3) row1(2,5) by auto
    then show ?thesis
      unfolding run row1(3) by blast
  qed
qed

section \<open>One synchronisation\<close>

lemma ensure_state_row_ok:
  assumes "chain_ok log d l" "events_inv log db"
  shows "\<exists>row. ensure_state_row db d = (Inr (view_of row), db\<lparr>indexer_state := Some row\<rparr>)
    \<and> state_ok log (event_rows db) row
    \<and> contiguous_index row = (case indexer_state db of None \<Rightarrow> - 1 | Some r \<Rightarrow> contiguous_index r)"
proof -
  have d: "to_i64 d lbl = Inr (int d)" for lbl
    using assms(1) by (simp add: chain_ok_def to_i64_def)
  define row0 where "row0 = (case indexer_state db of Some r \<Rightarrow> r
    | None \<Rightarrow> \<lparr>contiguous_index = - 1, contiguous_block = None,
               last_synced_block = int d, last_seen_contract_index = None\<rparr>)"
  have row0: "state_ok log (event_rows db) row0"
      "contiguous_index row0 = (case indexer_state db of None \<Rightarrow> - 1 | Some r \<Rightarrow> contiguous_index r)"
    using assms(2) by (auto simp: row0_def events_inv_def state_ok_def split: option.splits)
  let ?row = "if last_synced_block row0 < int d then row0\<lparr>last_synced_block := int d\<rparr> else row0"
  have ok: "state_ok log (event_rows db) ?row" "contiguous_index ?row = contiguous_index row0"
    using row0(1) by (auto simp: state_ok_def)
  have "ensure_state_row db d = (indexer_state_from_row ?row, db\<lparr>indexer_state := Some ?row\<rparr>)"
    by (simp add: ensure_state_row_def d Let_def row0_def)
  then show ?thesis
    using ok row0(2) indexer_state_from_row_ok [OF ok(1)] by auto
qed

lemma persist_sync_watermark_ok:
  assumes "chain_ok log d l" "indexer_state db = Some row" "state_ok log (event_rows db) row"
  shows "\<exists>row'. persist_sync_watermark db l (length log) = Inr (db\<lparr>indexer_state := Some row'\<rparr>)
    \<and> state_ok log (event_rows db) row' \<and> last_synced_block row' = int l
    \<and> contiguous_index row' = contiguous_index row"
  using assms
  by (auto simp: persist_sync_watermark_def to_i64_def chain_ok_def state_ok_def)

lemma backfill_missing_ok:
  assumes "chain_ok log d l" "node_answers get log"
    and "0 < block_span cfg" "forward_scan_overlap cfg < block_span cfg"
    and "rows_of_log log (event_rows db)" "indexer_state db = Some row" "state_ok log (event_rows db) row"
    and "\<forall>e \<in> set log. int (ev_index e) = contiguous_index row + 1 \<longrightarrow> row_of e \<notin> set (event_rows db)"
  shows "\<exists>row' db'. backfill_missing_indices get cfg d (view_of row)
        (if length log = 0 then None else Some (length log - 1)) l db = Some (Inr (view_of row'), db')
    \<and> rows_of_log log (event_rows db') \<and> indexer_state db' = Some row'
    \<and> state_ok log (event_rows db') row' \<and> contiguous_index row' = int (length log) - 1
    \<and> last_synced_block row' = last_synced_block row"
proof (cases "log = []")
  case True
  with assms(7) have "contiguous_index row = int (length log) - 1"
    by (simp add: state_ok_def)
  with True assms show ?thesis
    by (auto simp: backfill_missing_indices_def)
next
  case False
  then show ?thesis
    using backfill_ok [OF assms(1,2) False assms(3-8)] by (simp add: backfill_missing_indices_def)
qed

lemma event_sync_ok:
  assumes chain: "chain_ok log d l" and node: "node_answers get log"
    and cfg: "0 < block_span cfg" "forward_scan_overlap cfg < block_span cfg"
    and inv: "events_inv log db"
  shows "\<exists>db' row. event_sync get (Inr l) (Inr (length log)) cfg d db = Some (None, db')
    \<and> events_inv log db' \<and> indexer_state db' = Some row \<and> last_synced_block row = int l
    \<and> contiguous_index row = int (length log) - 1"
proof -
  obtain row1 where row1: "ensure_state_row db d = (Inr (view_of row1), db\<lparr>indexer_state := Some row1\<rparr>)"
      "state_ok log (event_rows db) row1"
    using ensure_state_row_ok [OF chain inv] by blast
  let ?db1 = "db\<lparr>indexer_state := Some row1\<rparr>"
  let ?start = "max (st_last_synced_block (view_of row1) - forward_scan_overlap cfg) d"
  have rows: "rows_of_log log (event_rows ?db1)"
    using inv by (simp add: events_inv_def)
  have "l < 2 ^ 63"
    using chain by (simp add: chain_ok_def)
  from scan_chunked_ok [OF chain node cfg this rows, of ?start] obtain db2 where db2:
      "(if ?start \<le> l then scan_chunked get cfg ?start l ?db1 else Some (None, ?db1)) = Some (None, db2)"
      "set (event_rows db) \<subseteq> set (event_rows db2)" "rows_of_log log (event_rows db2)"
      "indexer_state db2 = Some row1"
    using rows by (cases "?start \<le> l") auto
  obtain row3 where row3: "persist_sync_watermark db2 l (length log) = Inr (db2\<lparr>indexer_state := Some row3\<rparr>)"
      "state_ok log (event_rows db2) row3" "last_synced_block row3 = int l"
    using persist_sync_watermark_ok [OF chain db2(4) state_ok_mono [OF row1(2) db2(2)]] by blast
  obtain row4 where row4:
      "advance_contiguous_index (db2\<lparr>indexer_state := Some row3\<rparr>)
         = (Inr (view_of row4), db2\<lparr>indexer_state := Some row4\<rparr>)"
      "state_ok log (event_rows db2) row4" "last_synced_block row4 = int l"
      "\<forall>e \<in> set log. int (ev_index e) = contiguous_index row4 + 1 \<longrightarrow> row_of e \<notin> set (event_rows db2)"
    using advance_ok [OF chain, of "db2\<lparr>indexer_state := Some row3\<rparr>" row3] db2(3) row3(2,3) by auto
  obtain row5 db5 where db5:
      "backfill_missing_indices get cfg d (view_of row4)
         (if length log = 0 then None else Some (length log - 1)) l (db2\<lparr>indexer_state := Some row4\<rparr>)
       = Some (Inr (view_of row5), db5)"
      "rows_of_log log (event_rows db5)" "indexer_state db5 = Some row5" "state_ok log (event_rows db5) row5"
      "contiguous_index row5 = int (length log) - 1" "last_synced_block row5 = int l"
    using backfill_missing_ok [OF chain node cfg, of "db2\<lparr>indexer_state := Some row4\<rparr>" row4]
      db2(3) row4(2,3,4) by auto
  have "event_sync get (Inr l) (Inr (length log)) cfg d db = Some (None, db5)"
    unfolding event_sync_def row1(1)
    by (simp only: Let_def db2(1) row3(1) row4(1) db5(1) prod.case sum.case option.case)
  with db5 show ?thesis
    by (auto simp: events_inv_def)
qed

section \<open>Failing nodes\<close>

text \<open>A node that may fail on any call, but whose answers are right.\<close>

definition node_honest :: "get_events \<Rightarrow> indexed_event list \<Rightarrow> bool" where
  "node_honest get log \<longleftrightarrow> (\<forall>a b es. get a b = Inr es \<longrightarrow> set es \<subseteq> set log)"

definition rows_extend :: "indexed_event list \<Rightarrow> event_db \<Rightarrow> event_db \<Rightarrow> bool" where
  "rows_extend log db db' \<longleftrightarrow> rows_of_log log (event_rows db') \<and> set (event_rows db) \<subseteq> set (event_rows db')
     \<and> indexer_state db' = indexer_state db"

lemma rows_extend_refl: "rows_of_log log (event_rows db) \<Longrightarrow> rows_extend log db db"
  by (simp add: rows_extend_def)

lemma rows_extend_trans: "rows_extend log a b \<Longrightarrow> rows_extend log b c \<Longrightarrow> rows_extend log a c"
  by (auto simp: rows_extend_def)

lemma insert_events_extend:
  assumes "chain_ok log d l" "set es \<subseteq> set log" "rows_of_log log (event_rows db)"
  shows "\<exists>db'. insert_events db es = Inr db' \<and> rows_extend log db db'"
  using insert_events_ok [OF assms] by (auto simp: rows_extend_def)

lemma honest_call:
  assumes "chain_ok log d l" "node_honest get log" "rows_of_log log (event_rows db)"
    and "res_bind (get a b) (insert_events db) = Inr db'"
  shows "rows_extend log db db'"
proof -
  obtain es where es: "get a b = Inr es" "insert_events db es = Inr db'"
    using assms(4) by (cases "get a b") auto
  then have "set es \<subseteq> set log"
    using assms(2) by (simp add: node_honest_def)
  from insert_events_extend [OF assms(1) this assms(3)] show ?thesis
    using es(2) by auto
qed

lemma scan_loop_keeps:
  assumes chain: "chain_ok log d l"
  shows "scan_loop get span overlap lo to_block db = Some res \<Longrightarrow>
    node_honest get log \<longrightarrow> rows_of_log log (event_rows db) \<longrightarrow> rows_extend log db (snd res)"
proof (erule scan_loop.raw_induct [rotated], intro impI)
  fix scan :: "get_events \<Rightarrow> nat \<Rightarrow> nat \<Rightarrow> nat \<Rightarrow> nat \<Rightarrow> event_db \<Rightarrow> (event_error option \<times> event_db) option"
    and get span overlap lo to_block db res
  assume ih: "\<And>get span overlap lo to_block db res. scan get span overlap lo to_block db = Some res \<Longrightarrow>
        node_honest get log \<longrightarrow> rows_of_log log (event_rows db) \<longrightarrow> rows_extend log db (snd res)"
    and body: "(if to_block < lo then Some (None, db)
        else let to_b = min to_block (sat_add_u64 lo (span - 1))
             in case res_bind (get lo to_b) (insert_events db) of
                Inl e \<Rightarrow> Some (Some e, db)
                | Inr db' \<Rightarrow>
                    if to_b = to_block then Some (None, db')
                    else let next_from = sat_add_u64 to_b 1;
                             from' = next_from - min overlap next_from
                         in scan get span overlap from' to_block db') = Some res"
    and node: "node_honest get log" and rows: "rows_of_log log (event_rows db)"
  let ?to = "min to_block (sat_add_u64 lo (span - 1))"
  show "rows_extend log db (snd res)"
  proof (cases "res_bind (get lo ?to) (insert_events db)")
    case (Inl e)
    then show ?thesis
      using body rows_extend_refl [OF rows] by (auto simp: Let_def split: if_splits)
  next
    case (Inr db')
    have ext: "rows_extend log db db'"
      by (rule honest_call [OF chain node rows Inr])
    then have "rows_of_log log (event_rows db')"
      by (simp add: rows_extend_def)
    with ih [OF _, THEN mp, THEN mp, OF _ node this] show ?thesis
      using body Inr ext rows_extend_refl [OF rows] rows_extend_trans [OF ext]
      by (auto simp: Let_def split: if_splits)
  qed
qed

lemma scan_chunked_keeps:
  assumes "chain_ok log d l" "node_honest get log" "rows_of_log log (event_rows db)"
    and "scan_chunked get cfg lo to_block db = Some res"
  shows "rows_extend log db (snd res)"
  using assms scan_loop_keeps [OF assms(1)] rows_extend_refl [OF assms(3)]
  by (auto simp: scan_chunked_def split: if_splits)

text \<open>The tables are consistent and the contiguous index is at least \<open>m\<close>.\<close>

definition inv_with_state :: "indexed_event list \<Rightarrow> int \<Rightarrow> event_db \<Rightarrow> bool" where
  "inv_with_state log m db \<longleftrightarrow> events_inv log db \<and> (\<exists>st. indexer_state db = Some st \<and> m \<le> contiguous_index st)"

definition stored_index :: "event_db \<Rightarrow> int" where
  "stored_index db = (case indexer_state db of None \<Rightarrow> - 1 | Some r \<Rightarrow> contiguous_index r)"

lemma rows_extend_inv: "inv_with_state log m db \<Longrightarrow> rows_extend log db db' \<Longrightarrow> inv_with_state log m db'"
  using state_ok_mono by (auto simp: inv_with_state_def events_inv_def rows_extend_def)

lemma advance_keeps:
  assumes "chain_ok log d l" "inv_with_state log m db" "advance_contiguous_index db = (res, db')"
  shows "inv_with_state log m db'"
  using assms advance_ok [OF assms(1), of db] by (fastforce simp: inv_with_state_def events_inv_def)

lemma backfill_keeps:
  assumes chain: "chain_ok log d l" and node: "node_honest get log"
    and "backfill get cfg deployed st target latest db = Some (res, db')" "inv_with_state log m db"
  shows "inv_with_state log m db'"
  using node assms(3,4)
proof (induction get cfg deployed st target latest db rule: backfill.induct)
  case (1 get cfg deployed st target latest db)
  note body = "1.prems"(2) [unfolded backfill.simps [of get cfg deployed st]]
  have rows: "rows_of_log log (event_rows db)"
    using "1.prems"(3) by (simp add: inv_with_state_def events_inv_def)
  have scan: "inv_with_state log m db1" if "scan_chunked get cfg a b db = Some (r, db1)" for a b r db1
    using scan_chunked_keeps [OF chain "1.prems"(1) rows that] rows_extend_inv "1.prems"(3) by fastforce
  have adv: "inv_with_state log m db2"
    if "scan_chunked get cfg a b db = Some (r, db1)" "advance_contiguous_index db1 = (v, db2)" for a b r db1 v db2
    using scan that(1) advance_keeps [OF chain _ that(2)] by blast
  show ?case
    using body "1.prems"(1,3) scan adv "1.IH"
    by (auto split: if_splits sum.splits option.splits prod.splits)
qed

lemma watermark_keeps:
  assumes "inv_with_state log m db" "persist_sync_watermark db latest i = Inr db'"
  shows "inv_with_state log m db'"
  using assms
  by (auto simp: inv_with_state_def events_inv_def persist_sync_watermark_def to_i64_def state_ok_def
      split: if_splits)

lemma backfill_missing_keeps:
  assumes "chain_ok log d l" "node_honest get log" "inv_with_state log m db"
    and "backfill_missing_indices get cfg deployed st expected latest db = Some (r, db')"
  shows "inv_with_state log m db'"
  using assms(3,4) backfill_keeps [OF assms(1,2)]
  by (auto simp: backfill_missing_indices_def split: option.splits)

lemma sync_tail_keeps:
  assumes chain: "chain_ok log d l" and node: "node_honest get log" and inv: "inv_with_state log m db2"
    and run: "(case persist_sync_watermark db2 latest i of Inl e \<Rightarrow> Some (Some e, db2)
        | Inr db3 \<Rightarrow> (case advance_contiguous_index db3 of (Inl e, db4) \<Rightarrow> Some (Some e, db4)
        | (Inr st', db4) \<Rightarrow> (case backfill_missing_indices get cfg d st' expected latest db4 of None \<Rightarrow> None
        | Some (Inl e, db5) \<Rightarrow> Some (Some e, db5) | Some (Inr _, db5) \<Rightarrow> Some (None, db5)))) = Some (res, db')"
  shows "inv_with_state log m db'"
proof (cases "persist_sync_watermark db2 latest i")
  case (Inl e)
  with inv run show ?thesis
    by simp
next
  case (Inr db3)
  obtain v db4 where v: "advance_contiguous_index db3 = (v, db4)"
    by fastforce
  note inv4 = advance_keeps [OF chain watermark_keeps [OF inv Inr] v]
  show ?thesis
  proof (cases v)
    case (Inl e)
    with run Inr v inv4 show ?thesis
      by simp
  next
    case st: (Inr st)
    show ?thesis
      using run [unfolded Inr v st sum.case prod.case]
        backfill_missing_keeps [OF chain node inv4, of cfg d st expected latest]
      by (auto simp del: split_paired_All split: option.splits prod.splits sum.splits)
  qed
qed

lemma event_sync_keeps:
  assumes chain: "chain_ok log d l" and node: "node_honest get log" and inv: "events_inv log db"
    and run: "event_sync get latest_call index_call cfg d db = Some (res, db')"
  shows "inv_with_state log (stored_index db) db'"
proof -
  obtain row1 where row1: "ensure_state_row db d = (Inr (view_of row1), db\<lparr>indexer_state := Some row1\<rparr>)"
      "state_ok log (event_rows db) row1" "contiguous_index row1 = stored_index db"
    using ensure_state_row_ok [OF chain inv] unfolding stored_index_def by blast
  let ?db1 = "db\<lparr>indexer_state := Some row1\<rparr>"
  have inv1: "inv_with_state log (stored_index db) ?db1" and rows: "rows_of_log log (event_rows ?db1)"
    using inv row1(2,3) by (simp_all add: inv_with_state_def events_inv_def)
  have scan: "inv_with_state log (stored_index db) db2" if "scan_chunked get cfg a b ?db1 = Some (r, db2)" for a b r db2
    using scan_chunked_keeps [OF chain node rows that] rows_extend_inv [OF inv1] by simp
  show ?thesis
  proof (cases "\<exists>latest i. latest_call = Inr latest \<and> index_call = Inr i")
    case False
    then have "db' = ?db1"
      using run row1(1) by (auto simp: event_sync_def split: sum.splits)
    with inv1 show ?thesis
      by simp
  next
    case True
    then obtain latest i where calls: "latest_call = Inr latest" "index_call = Inr i"
      by blast
    let ?start = "max (st_last_synced_block (view_of row1) - forward_scan_overlap cfg) d"
    let ?scan = "if ?start \<le> latest then scan_chunked get cfg ?start latest ?db1 else Some (None, ?db1)"
    note body = run [unfolded event_sync_def row1(1) calls prod.case sum.case Let_def]
    then obtain r db2 where p: "?scan = Some (r, db2)"
      by (cases ?scan) auto
    then have inv2: "inv_with_state log (stored_index db) db2"
      using scan inv1 by (auto split: if_splits)
    show ?thesis
    proof (cases r)
      case None
      then show ?thesis
        using sync_tail_keeps [OF chain node inv2] body [unfolded p None option.case prod.case] by blast
    next
      case (Some e)
      then show ?thesis
        using inv2 body [unfolded p Some option.case prod.case] by simp
    qed
  qed
qed

section \<open>A scan that makes no progress\<close>

lemma scan_loop_diverges:
  assumes chain: "chain_ok log d l"
  shows "scan_loop get span overlap lo to_block db = Some res \<Longrightarrow>
    \<not> (node_answers get log \<and> rows_of_log log (event_rows db)
       \<and> 0 < span \<and> span \<le> overlap \<and> lo + (span - 1) < to_block \<and> to_block < 2 ^ 63)"
proof (erule scan_loop.raw_induct [rotated], rule notI, elim conjE)
  fix scan :: "get_events \<Rightarrow> nat \<Rightarrow> nat \<Rightarrow> nat \<Rightarrow> nat \<Rightarrow> event_db \<Rightarrow> (event_error option \<times> event_db) option"
    and get span overlap lo to_block db res
  assume ih: "\<And>get span overlap lo to_block db res. scan get span overlap lo to_block db = Some res \<Longrightarrow>
      \<not> (node_answers get log \<and> rows_of_log log (event_rows db)
       \<and> 0 < span \<and> span \<le> overlap \<and> lo + (span - 1) < to_block \<and> to_block < 2 ^ 63)"
    and body: "(if to_block < lo then Some (None, db)
        else let to_b = min to_block (sat_add_u64 lo (span - 1))
             in case res_bind (get lo to_b) (insert_events db) of
                Inl e \<Rightarrow> Some (Some e, db)
                | Inr db' \<Rightarrow>
                    if to_b = to_block then Some (None, db')
                    else let next_from = sat_add_u64 to_b 1;
                             from' = next_from - min overlap next_from
                         in scan get span overlap from' to_block db') = Some res"
    and node: "node_answers get log" and rows: "rows_of_log log (event_rows db)"
    and span: "0 < span" "span \<le> overlap" and range: "lo + (span - 1) < to_block" "to_block < 2 ^ 63"
  let ?to = "lo + (span - 1)" and ?lo = "lo + span - min overlap (lo + span)"
  have to_b: "min to_block (sat_add_u64 lo (span - 1)) = ?to"
    using range by (simp add: sat_add_u64_def)
  have nxt: "sat_add_u64 ?to 1 = lo + span"
    using range span by (simp add: sat_add_u64_def)
  have "set (filter (\<lambda>e. lo \<le> ev_block e \<and> ev_block e \<le> ?to) log) \<subseteq> set log"
    by auto
  from insert_events_extend [OF chain this rows] obtain db' where
    db': "res_bind (get lo ?to) (insert_events db) = Inr db'" "rows_extend log db db'"
    using node by (auto simp: node_answers_def)
  have flags: "(to_block < lo) = False" "(?to = to_block) = False"
    using range by auto
  have "scan get span overlap ?lo to_block db' = Some res"
    using body by (simp only: flags if_False Let_def to_b nxt db'(1) sum.case)
  moreover have "?lo + (span - 1) < to_block"
    using range span by linarith
  ultimately show False
    using ih node db'(2) span range(2) unfolding rows_extend_def by blast
qed

section \<open>The properties\<close>

text \<open>
  \<^bold>\<open>C9\<close>. Let the configuration be one that the constructor accepts and its scan overlap
  smaller than the block span, as with the defaults (otherwise a scan does not return). Then,
  from any state an earlier synchronisation can have left, a synchronisation against a node
  that answers every call about an unchanged log ends without an error and leaves exactly the
  contract's events in the table: the forward scan, the advancement and the backfill together
  close every gap, the contiguous index is the contract's last index, and the watermark is the
  latest block.
\<close>

theorem event_sync_complete:
  assumes "chain_ok log deployed latest" "node_answers get log" "events_inv log db"
    and "event_config_new span overlap = Inr cfg" "overlap < span"
  shows "\<exists>db' row. event_sync get (Inr latest) (Inr (length log)) cfg deployed db = Some (None, db')
    \<and> set (event_rows db') = row_of ` set log \<and> indexer_state db' = Some row
    \<and> contiguous_index row = int (length log) - 1 \<and> last_synced_block row = int latest
    \<and> events_inv log db'"
proof -
  have cfg: "0 < block_span cfg" "forward_scan_overlap cfg < block_span cfg"
    using assms(4,5) by (auto simp: event_config_new_def split: if_splits)
  obtain db' row where r: "event_sync get (Inr latest) (Inr (length log)) cfg deployed db = Some (None, db')"
      "events_inv log db'" "indexer_state db' = Some row" "last_synced_block row = int latest"
      "contiguous_index row = int (length log) - 1"
    using event_sync_ok [OF assms(1,2) cfg assms(3)] by blast
  have "row_of e \<in> set (event_rows db')" if "e \<in> set log" for e
    using r(2,3,5) log_index(1) [OF assms(1) that] that by (auto simp: events_inv_def state_ok_def)
  then have "set (event_rows db') = row_of ` set log"
    using r(2) by (auto simp: events_inv_def rows_of_log_def)
  with r show ?thesis
    by blast
qed

definition sample_event :: "nat \<Rightarrow> nat \<Rightarrow> indexed_event" where
  "sample_event i b = \<lparr>ev_index = i, ev_from = 1, ev_to = 2, ev_amount = 5, ev_block = b\<rparr>"

definition sample_log :: "indexed_event list" where
  "sample_log = [sample_event 0 10, sample_event 1 10, sample_event 2 17]"

definition sample_node :: get_events where
  "sample_node a b = Inr (filter (\<lambda>e. a \<le> ev_block e \<and> ev_block e \<le> b) sample_log)"

text \<open>A table with a gap: event 2 was stored, the sync failed before event 0 and 1 were.\<close>

definition sample_db :: event_db where
  "sample_db = \<lparr>event_rows = [row_of (sample_event 2 17)],
     indexer_state = Some \<lparr>contiguous_index = - 1, contiguous_block = None,
       last_synced_block = 18, last_seen_contract_index = Some 3\<rparr>\<rparr>"

lemma sample_chain: "chain_ok sample_log 8 20" "node_answers sample_node sample_log" "events_inv sample_log sample_db"
  by (simp_all add: chain_ok_def sample_log_def sample_event_def node_answers_def sample_node_def upt_rec
      events_inv_def sample_db_def rows_of_log_def state_ok_def)

lemma sample_length: "length sample_log = 3"
  by (simp add: sample_log_def)

theorem event_sync_complete_witness:
  "\<exists>db' row. event_sync sample_node (Inr 20) (Inr 3) \<lparr>block_span = 4, forward_scan_overlap = 1\<rparr> 8 sample_db
      = Some (None, db')
    \<and> set (event_rows db') = row_of ` set sample_log \<and> indexer_state db' = Some row
    \<and> contiguous_index row = 2 \<and> last_synced_block row = 20 \<and> events_inv sample_log db'"
  using event_sync_complete [OF sample_chain, of 4 1 "\<lparr>block_span = 4, forward_scan_overlap = 1\<rparr>"]
  by (simp add: event_config_new_def sample_length)

text \<open>
  Whatever fails during a synchronisation (a contract call, a scan in the middle of
  its chunks), the tables it leaves are consistent: every stored row is an event of the
  contract, every index up to the stored contiguous index has its row, and that index has
  not gone back. The next synchronisation can start from them.
\<close>

theorem event_sync_failure_safe:
  assumes "chain_ok log deployed latest" "node_honest get log" "events_inv log db"
    and "event_sync get latest_call index_call cfg deployed db = Some (outcome, db')"
  shows "events_inv log db' \<and> indexer_state db' \<noteq> None \<and> stored_index db \<le> stored_index db'"
  using event_sync_keeps [OF assms] by (auto simp: inv_with_state_def stored_index_def)

definition failing_node :: get_events where
  "failing_node a b = Inl (EvContract ''timeout'')"

theorem event_sync_failure_safe_witness:
  "event_sync failing_node (Inr 20) (Inr 3) \<lparr>block_span = 4, forward_scan_overlap = 1\<rparr> 8 sample_db
      = Some (Some (EvContract ''timeout''), sample_db)
    \<and> events_inv sample_log sample_db \<and> indexer_state sample_db \<noteq> None"
proof -
  have "event_sync failing_node (Inr 20) (Inr 3) \<lparr>block_span = 4, forward_scan_overlap = 1\<rparr> 8 sample_db
      = Some (Some (EvContract ''timeout''), sample_db)"
    by (simp add: event_sync_def ensure_state_row_def sample_db_def to_i64_def indexer_state_from_row_def
        opt_i64_to_u64_def to_u64_def scan_chunked_def scan_loop.simps failing_node_def Let_def)
  with event_sync_failure_safe [OF sample_chain(1) _ sample_chain(3) this] show ?thesis
    by (simp add: node_honest_def failing_node_def)
qed

text \<open>
  \<^bold>\<open>C36\<close>. A configuration the constructor accepts makes a scan run forever: when the overlap
  is at least the block span and the range is longer than one span, every chunk starts at
  or before the previous one.
\<close>

theorem scan_chunked_never_returns:
  assumes "chain_ok log deployed latest" "node_answers get log" "rows_of_log log (event_rows db)"
    and "event_config_new span overlap = Inr cfg" "span \<le> overlap"
    and "from_block + span \<le> to_block" "to_block < 2 ^ 63"
  shows "scan_chunked get cfg from_block to_block db = None"
proof (rule ccontr)
  assume "scan_chunked get cfg from_block to_block db \<noteq> None"
  then obtain res where "scan_loop get span overlap from_block to_block db = Some res" and "0 < span"
    using assms(4,6) by (auto simp: scan_chunked_def event_config_new_def split: if_splits)
  then show False
    using scan_loop_diverges [OF assms(1)] assms by fastforce
qed

theorem scan_chunked_never_returns_witness:
  "scan_chunked sample_node \<lparr>block_span = 4, forward_scan_overlap = 4\<rparr> 8 20 sample_db = None"
  using scan_chunked_never_returns [OF sample_chain(1,2), of sample_db 4 4 "\<lparr>block_span = 4, forward_scan_overlap = 4\<rparr>" 8 20]
    sample_chain(3)
  by (simp add: event_config_new_def events_inv_def)

end
