(* ===== verification/Db_Tree_Props.thy ===== *)
theory Db_Tree_Props
  imports Db_Tree
begin

text \<open>
  The database tree refines the list of transfers: an invariant ties the three
  tables to the history of a token, every append keeps it, and a proof at any index
  inside the retention window is the proof of the tree as it was at that index.
\<close>

section \<open>The value of a node at a time\<close>

definition node_at :: "(fr \<Rightarrow> fr \<Rightarrow> fr) \<Rightarrow> nat \<Rightarrow> transfer list \<Rightarrow> nat \<Rightarrow> bit_path \<Rightarrow> fr" where
  "node_at H h ts i p = node H (transfer_leaves H (take i ts)) (h - plen p) (pval p)"

definition tree_ok :: "(fr \<Rightarrow> fr \<Rightarrow> fr) \<Rightarrow> db_tree \<Rightarrow> bool" where
  "tree_ok H t \<longleftrightarrow> 0 < dt_height t \<and> dt_height t < 2 ^ 32 \<and> 0 < dt_window t
     \<and> dt_zero_hashes t = compute_zero_hashes H (dt_height t)"

definition snapshot_of ::
  "(fr \<Rightarrow> fr \<Rightarrow> fr) \<Rightarrow> (bytes \<Rightarrow> bytes) \<Rightarrow> db_tree \<Rightarrow> transfer list \<Rightarrow> nat \<Rightarrow> snapshot_row" where
  "snapshot_of H sha t ts i =
     \<lparr>sn_token = dt_token t, sn_index = int i,
      sn_root = fr_to_bytes (node_at H (dt_height t) ts i bp_default),
      sn_chain = u256_to_be_bytes (chain_of sha (take i ts))\<rparr>"

definition db_inv ::
  "(fr \<Rightarrow> fr \<Rightarrow> fr) \<Rightarrow> (bytes \<Rightarrow> bytes) \<Rightarrow> db_tree \<Rightarrow> merkle_db \<Rightarrow> transfer list \<Rightarrow> bool" where
  "db_inv H sha t db ts \<longleftrightarrow>
     (let tid = dt_token t; h = dt_height t; n = length ts in
      tid \<in> set (token_ids db) \<and> n < 2 ^ 63
      \<and> (\<forall>p. valid_path h p \<longrightarrow>
           (case merkle_nodes db (tid, bp_to_bytes p) of
              None \<Rightarrow> node_at H h ts n p = zero_hash H (h - plen p)
            | Some (b, _) \<Rightarrow> b = fr_to_bytes (node_at H h ts n p)))
      \<and> token_snapshots db tid = map (snapshot_of H sha t ts) [1..<Suc n]
      \<and> (\<forall>r \<in> set (merkle_updates db). nu_token r = tid \<longrightarrow>
           (\<exists>i p. nu_index r = int i \<and> 1 \<le> i \<and> i \<le> n \<and> n < i + dt_window t \<and> valid_path h p
              \<and> nu_path r = bp_to_bytes p \<and> nu_old r = fr_to_bytes (node_at H h ts (i - 1) p)))
      \<and> (\<forall>i p. 1 \<le> i \<and> i \<le> n \<and> n < i + dt_window t \<and> valid_path h p
           \<and> node_at H h ts (i - 1) p \<noteq> node_at H h ts i p \<longrightarrow>
           (\<exists>r \<in> set (merkle_updates db).
              nu_token r = tid \<and> nu_index r = int i \<and> nu_path r = bp_to_bytes p)))"

lemma db_inv_nodes:
  assumes "db_inv H sha t db ts" "valid_path (dt_height t) p"
  shows "case merkle_nodes db (dt_token t, bp_to_bytes p) of
      None \<Rightarrow> node_at H (dt_height t) ts (length ts) p = zero_hash H (dt_height t - plen p)
    | Some (b, _) \<Rightarrow> b = fr_to_bytes (node_at H (dt_height t) ts (length ts) p)"
  using assms unfolding db_inv_def Let_def by blast

lemma db_inv_row:
  assumes "db_inv H sha t db ts" "r \<in> set (merkle_updates db)" "nu_token r = dt_token t"
  obtains i p where "nu_index r = int i" "1 \<le> i" "i \<le> length ts" "length ts < i + dt_window t"
    "valid_path (dt_height t) p" "nu_path r = bp_to_bytes p"
    "nu_old r = fr_to_bytes (node_at H (dt_height t) ts (i - 1) p)"
  using assms unfolding db_inv_def Let_def by blast

lemma db_inv_row_exists:
  assumes "db_inv H sha t db ts" "1 \<le> i" "i \<le> length ts" "length ts < i + dt_window t"
    "valid_path (dt_height t) p"
    "node_at H (dt_height t) ts (i - 1) p \<noteq> node_at H (dt_height t) ts i p"
  obtains r where "r \<in> set (merkle_updates db)" "nu_token r = dt_token t" "nu_index r = int i"
    "nu_path r = bp_to_bytes p"
  using assms unfolding db_inv_def Let_def by blast

lemma bytes_to_fr_fr_to_bytes [simp, codec_simps]: "bytes_to_fr (fr_to_bytes x) = Inr x"
  using into_bigint_less_256 [of x] by (simp add: bytes_to_fr_def fr_to_bytes_def)

lemma bytes_to_u256_to_be_bytes [simp, codec_simps]: "bytes_to_u256 (u256_to_be_bytes x) = Inr x"
  by (simp add: bytes_to_u256_def)

lemma bytes_to_bit_path_to_bytes [simp, codec_simps]: "bytes_to_bit_path (bp_to_bytes p) = Inr p"
  by (simp add: bytes_to_bit_path_def)

lemma fr_to_bytes_inject [simp]: "fr_to_bytes x = fr_to_bytes y \<longleftrightarrow> x = y"
  by (metis bytes_to_fr_fr_to_bytes sum.inject(2))

lemma zero_hash_for_path_ok [simp]:
  assumes "tree_ok H t" "plen p \<le> dt_height t"
  shows "zero_hash_for_path t p = Inr (zero_hash H (dt_height t - plen p))"
proof -
  have "dt_zero_hashes t = map (zero_hash H) [0..<Suc (dt_height t)]"
    using assms(1) zero_hashes_new [of H "dt_height t"]
    by (simp add: tree_ok_def compute_zero_hashes_def mt_new_def)
  then show ?thesis
    using assms(2) by (simp add: zero_hash_for_path_def Let_def del: upt_Suc)
qed

section \<open>Ancestors of a leaf\<close>

definition anc :: "nat \<Rightarrow> nat \<Rightarrow> nat \<Rightarrow> bit_path" where
  "anc h i k = bp_new (word_of_nat k) (word_of_nat (i div 2 ^ (h - k)))"

lemma anc_simps:
  assumes "k \<le> h" "h < 2 ^ 32" "i < 2 ^ 64"
  shows "plen (anc h i k) = k" "pval (anc h i k) = i div 2 ^ (h - k)"
proof -
  have "i div 2 ^ (h - k) < 2 ^ 64"
    using assms(3) div_le_dividend [of i "2 ^ (h - k)"] by linarith
  then show "plen (anc h i k) = k" "pval (anc h i k) = i div 2 ^ (h - k)"
    using assms by (simp_all add: anc_def bp_new_def unat_word_of_nat)
qed

lemma anc_valid:
  assumes "k \<le> h" "h < 2 ^ 32" "i < 2 ^ 64" "i < 2 ^ h"
  shows "valid_path h (anc h i k)"
proof -
  have "i < 2 ^ k * 2 ^ (h - k)"
    using assms(1,4) by (simp flip: power_add)
  then show ?thesis
    using anc_simps [OF assms(1-3)] assms(1)
    by (simp add: valid_path_def div_less_iff_less_mult)
qed

lemma anc_sibling_valid:
  assumes "k \<le> h" "0 < k" "h < 2 ^ 32" "i < 2 ^ 64" "i < 2 ^ h"
  shows "valid_path h (bp_sibling (anc h i k))"
  using anc_valid [OF assms(1,3-5)] sib_less [of "pval (anc h i k)" "plen (anc h i k)"]
    anc_simps(1) [OF assms(1,3,4)] assms(2)
  by (simp add: valid_path_def)

lemma anc_pop:
  assumes "Suc k \<le> h" "h < 2 ^ 32" "i < 2 ^ 64"
  shows "snd (bp_pop (anc h i (Suc k))) = anc h i k"
proof -
  obtain q where q: "bp_pop (anc h i (Suc k)) = (Some (odd (pval (anc h i (Suc k)))), q)"
      "plen q = k" "pval q = pval (anc h i (Suc k)) div 2"
    using pop_nonempty [of "anc h i (Suc k)" k] anc_simps(1) [OF assms] by blast
  have "h - k = Suc (h - Suc k)"
    using assms(1) by simp
  then have "pval q = i div 2 ^ (h - k)"
    using q(3) anc_simps(2) [OF assms] by (simp only: div_pow_Suc)
  then have "q = anc h i k"
    using q(2) anc_simps [of k h i] assms by (intro path_eqI) simp_all
  with q(1) show ?thesis
    by simp
qed

lemma anc_0: "i < 2 ^ h \<Longrightarrow> anc h i 0 = bp_default"
  by (simp add: anc_def bp_new_def bp_default_def)

lemma anc_inj:
  assumes "h < 2 ^ 32" "i < 2 ^ 64" "j \<le> h" "k \<le> h" "anc h i j = anc h i k"
  shows "j = k"
  using assms anc_simps(1) by metis

lemma on_path_anc:
  assumes "valid_path h p" "h < 2 ^ 32" "i < 2 ^ 64" "pval p = i div 2 ^ (h - plen p)"
  shows "p = anc h i (plen p)"
  using assms anc_simps [of "plen p" h i] by (intro path_eqI) (simp_all add: valid_path_def)

lemma fetch_loop_covers:
  assumes "k \<le> h" "h < 2 ^ 32" "i < 2 ^ 64" "1 \<le> j" "j \<le> k"
  shows "bp_sibling (anc h i j) \<in> set (fetch_loop k (anc h i k))
    \<and> anc h i (j - 1) \<in> set (fetch_loop k (anc h i k))"
  using assms(1,5)
proof (induction k)
  case (Suc k)
  have par: "snd (bp_pop (anc h i (Suc k))) = anc h i k"
    using anc_pop [of k h i] Suc.prems assms by simp
  show ?case
  proof (cases "j = Suc k")
    case True
    then show ?thesis
      by (simp add: par Let_def)
  next
    case False
    then have "\<not> bp_is_empty (anc h i k)"
      using Suc.prems assms anc_simps(1) [of k h i] by (auto simp: bp_is_empty_def)
    then show ?thesis
      using Suc False by (simp add: par Let_def)
  qed
qed (use assms in simp)

lemma fetch_loop_valid:
  assumes "k \<le> h" "h < 2 ^ 32" "i < 2 ^ 64" "i < 2 ^ h" "p \<in> set (fetch_loop k (anc h i k))"
  shows "valid_path h p"
  using assms(1,5)
proof (induction k)
  case (Suc k)
  have par: "snd (bp_pop (anc h i (Suc k))) = anc h i k"
    using anc_pop [of k h i] Suc.prems assms by simp
  from Suc.prems(2) consider "p = bp_sibling (anc h i (Suc k))" | "p = anc h i k"
    | "p \<in> set (fetch_loop k (anc h i k))"
    by (auto simp: par Let_def split: if_splits)
  then show ?case
    using Suc assms anc_sibling_valid [of "Suc k" h i] anc_valid [of k h i] by cases auto
qed simp

section \<open>Reading nodes\<close>

definition node_or_zero ::
  "(fr \<Rightarrow> fr \<Rightarrow> fr) \<Rightarrow> db_tree \<Rightarrow> (bit_path \<rightharpoonup> fr) \<Rightarrow> bit_path \<Rightarrow> fr" where
  "node_or_zero H t m p =
     (case m p of Some x \<Rightarrow> x | None \<Rightarrow> zero_hash H (dt_height t - plen p))"

lemma load_node_hashes_ok:
  assumes "db_inv H sha t db ts" "\<forall>p \<in> set ps. valid_path (dt_height t) p"
  shows "\<exists>m. load_node_hashes db (dt_token t) ps = Inr m
    \<and> (\<forall>p. p \<in> set ps \<longrightarrow> node_or_zero H t m p = node_at H (dt_height t) ts (length ts) p)
    \<and> (\<forall>p x. m p = Some x \<longrightarrow> p \<in> set ps)"
  using assms(2)
proof (induction ps)
  case (Cons p ps)
  let ?v = "node_at H (dt_height t) ts (length ts)"
  obtain m where m: "load_node_hashes db (dt_token t) ps = Inr m"
      "\<forall>q. q \<in> set ps \<longrightarrow> node_or_zero H t m q = ?v q" "\<forall>q x. m q = Some x \<longrightarrow> q \<in> set ps"
    using Cons by auto
  have st: "case merkle_nodes db (dt_token t, bp_to_bytes p) of
      None \<Rightarrow> ?v p = zero_hash H (dt_height t - plen p) | Some (b, _) \<Rightarrow> b = fr_to_bytes (?v p)"
    using assms(1) Cons.prems by (simp add: db_inv_def Let_def)
  show ?case
  proof (cases "merkle_nodes db (dt_token t, bp_to_bytes p)")
    case None
    have "node_or_zero H t m p = ?v p"
    proof (cases "p \<in> set ps")
      case True
      then show ?thesis
        using m(2) by simp
    next
      case False
      then have "m p = None"
        using m(3) by (cases "m p") auto
      then show ?thesis
        using st None by (simp add: node_or_zero_def)
    qed
    with m None show ?thesis
      by auto
  next
    case (Some c)
    then have "load_node_hashes db (dt_token t) (p # ps) = Inr (m(p \<mapsto> ?v p))"
      using st m(1) by (cases c) simp
    moreover have "node_or_zero H t (m(p \<mapsto> ?v p)) q = ?v q" if "q \<in> set (p # ps)" for q
      using that m(2) by (auto simp: node_or_zero_def)
    ultimately show ?thesis
      using m(3) by auto
  qed
qed simp

section \<open>Appending\<close>

definition leaf_update_row ::
  "(fr \<Rightarrow> fr \<Rightarrow> fr) \<Rightarrow> (nat \<Rightarrow> fr) \<Rightarrow> (nat \<Rightarrow> fr) \<Rightarrow> nat \<Rightarrow> nat \<Rightarrow> nat \<Rightarrow> bytes \<times> bytes \<times> bytes" where
  "leaf_update_row H f f' h i k =
     (bp_to_bytes (anc h i k), fr_to_bytes (node H f (h - k) (i div 2 ^ (h - k))),
      fr_to_bytes (node H f' (h - k) (i div 2 ^ (h - k))))"

definition changed_at ::
  "(fr \<Rightarrow> fr \<Rightarrow> fr) \<Rightarrow> (nat \<Rightarrow> fr) \<Rightarrow> (nat \<Rightarrow> fr) \<Rightarrow> nat \<Rightarrow> nat \<Rightarrow> nat \<Rightarrow> bool" where
  "changed_at H f f' h i k \<longleftrightarrow>
     node H f (h - k) (i div 2 ^ (h - k)) \<noteq> node H f' (h - k) (i div 2 ^ (h - k))"

lemma plan_node_ok:
  assumes "tree_ok H t" "k \<le> dt_height t" "i < 2 ^ 64"
    and "node_or_zero H t (ap_nodes s) (anc (dt_height t) i k)
      = node H f (dt_height t - k) (i div 2 ^ (dt_height t - k))"
  shows "\<exists>s'. plan_node t s (anc (dt_height t) i k)
        (node H f' (dt_height t - k) (i div 2 ^ (dt_height t - k))) = Inr s'
    \<and> ap_updates s' = ap_updates s
        @ (if changed_at H f f' (dt_height t) i k then [leaf_update_row H f f' (dt_height t) i k] else [])
    \<and> (\<forall>q. q \<noteq> anc (dt_height t) i k \<longrightarrow> ap_nodes s' q = ap_nodes s q)"
proof -
  have "dt_height t < 2 ^ 32"
    using assms(1) by (simp add: tree_ok_def)
  then have "plen (anc (dt_height t) i k) = k"
    using assms(2,3) by (intro anc_simps(1))
  then show ?thesis
    using assms
    by (auto simp: plan_node_def Let_def node_or_zero_def changed_at_def leaf_update_row_def
        split: option.splits)
qed

lemma even_unat: "even (unat (w :: 'a :: len word)) \<longleftrightarrow> even w"
  using bit_unsigned_iff [where 'a = nat, of w 0] by (simp add: bit_0)

lemma is_left_even: "bp_value p AND 1 = 0 \<longleftrightarrow> even (pval p)"
  by (simp add: and_one_eq mod_2_eq_odd even_unat)

lemma append_loop_ok:
  fixes t i x and f :: "nat \<Rightarrow> fr"
  defines "h \<equiv> dt_height t" and "f' \<equiv> f(i := x)"
  assumes tree: "tree_ok H t" and i: "i < 2 ^ 64" "i < 2 ^ h" and "k \<le> h"
    and "\<forall>j \<le> k. node_or_zero H t (ap_nodes s) (anc h i j) = node H f (h - j) (i div 2 ^ (h - j))"
    and "\<forall>j \<le> k. 0 < j \<longrightarrow>
      node_or_zero H t (ap_nodes s) (bp_sibling (anc h i j)) = node H f (h - j) (sib (i div 2 ^ (h - j)))"
  shows "\<exists>s'. append_loop H t k (anc h i k) (node H f' (h - k) (i div 2 ^ (h - k))) s
      = Inr (node H f' h 0, s')
    \<and> ap_updates s' = ap_updates s
        @ map (leaf_update_row H f f' h i) (filter (changed_at H f f' h i) (rev [1..<Suc k]))
    \<and> node_or_zero H t (ap_nodes s') bp_default = node H f h 0"
  using assms(6-8)
proof (induction k arbitrary: s)
  case 0
  then show ?case
    using i by (simp add: anc_0)
next
  case (Suc k)
  have h32: "h < 2 ^ 32"
    using tree by (simp add: tree_ok_def h_def)
  note anc_eqs = anc_simps [OF Suc.prems(1) h32 i(1)]
  obtain s1 where s1: "plan_node t s (anc h i (Suc k))
        (node H f' (h - Suc k) (i div 2 ^ (h - Suc k))) = Inr s1"
      "ap_updates s1 = ap_updates s
        @ (if changed_at H f f' h i (Suc k) then [leaf_update_row H f f' h i (Suc k)] else [])"
      "\<forall>q. q \<noteq> anc h i (Suc k) \<longrightarrow> ap_nodes s1 q = ap_nodes s q"
    using plan_node_ok [OF tree Suc.prems(1)[unfolded h_def] i(1), of s f f'] Suc.prems(2)
    unfolding h_def by auto
  have same: "node_or_zero H t (ap_nodes s1) q = node_or_zero H t (ap_nodes s) q"
    if "q \<noteq> anc h i (Suc k)" for q
    using s1(3) that by (simp add: node_or_zero_def)
  let ?j = "i div 2 ^ (h - Suc k)"
  have "bp_sibling (anc h i (Suc k)) \<noteq> anc h i (Suc k)"
    using anc_eqs(2) pval_sibling [of "anc h i (Suc k)"] sib_neq by metis
  then have "node_or_zero H t (ap_nodes s1) (bp_sibling (anc h i (Suc k)))
      = node H f (h - Suc k) (sib ?j)"
    using Suc.prems(3) same by simp
  also have "\<dots> = node H f' (h - Suc k) (sib ?j)"
    unfolding f'_def by (rule node_upd_other [symmetric]) simp
  finally have sibv: "node_or_zero H t (ap_nodes s1) (bp_sibling (anc h i (Suc k)))
      = node H f' (h - Suc k) (sib ?j)" .
  have lvl: "h - k = Suc (h - Suc k)"
    using Suc.prems(1) by simp
  have jd: "?j div 2 = i div 2 ^ (h - k)"
    unfolding lvl div_pow_Suc ..
  have parent: "(if even ?j then H (node H f' (h - Suc k) ?j) (node H f' (h - Suc k) (sib ?j))
      else H (node H f' (h - Suc k) (sib ?j)) (node H f' (h - Suc k) ?j))
    = node H f' (h - k) (i div 2 ^ (h - k))"
    using node_parent [of H f' "h - Suc k" ?j] unfolding lvl jd [unfolded lvl] by simp
  have less: "q \<noteq> anc h i (Suc k)" if "plen q \<le> k" for q
    using that anc_eqs(1) by auto
  have "\<forall>j \<le> k. node_or_zero H t (ap_nodes s1) (anc h i j) = node H f (h - j) (i div 2 ^ (h - j))"
    using Suc.prems(1,2) h32 i(1) by (auto simp: same less anc_simps(1))
  moreover have "\<forall>j \<le> k. 0 < j \<longrightarrow>
      node_or_zero H t (ap_nodes s1) (bp_sibling (anc h i j)) = node H f (h - j) (sib (i div 2 ^ (h - j)))"
    using Suc.prems(1,3) h32 i(1) by (auto simp: same less anc_simps(1))
  ultimately obtain s2 where s2:
    "append_loop H t k (anc h i k) (node H f' (h - k) (i div 2 ^ (h - k))) s1 = Inr (node H f' h 0, s2)"
    "ap_updates s2 = ap_updates s1
        @ map (leaf_update_row H f f' h i) (filter (changed_at H f f' h i) (rev [1..<Suc k]))"
    "node_or_zero H t (ap_nodes s2) bp_default = node H f h 0"
    using Suc.IH [of s1] Suc.prems(1) by auto
  have z: "zero_hash_for_path t (bp_sibling (anc h i (Suc k))) = Inr (zero_hash H (h - Suc k))"
    using zero_hash_for_path_ok [OF tree, of "bp_sibling (anc h i (Suc k))"] anc_eqs(1) Suc.prems(1)
    by (simp add: h_def)
  have nz: "(case ap_nodes s1 (bp_sibling (anc h i (Suc k))) of Some x \<Rightarrow> x | None \<Rightarrow> zero_hash H (h - Suc k))
      = node H f' (h - Suc k) (sib ?j)"
    using sibv anc_eqs(1) by (simp add: node_or_zero_def flip: h_def cong: option.case_cong)
  have "append_loop H t (Suc k) (anc h i (Suc k)) (node H f' (h - Suc k) ?j) s
      = append_loop H t k (anc h i k) (node H f' (h - k) (i div 2 ^ (h - k))) s1"
    using parent
    by (simp add: s1(1) z nz is_left_even anc_eqs(2) anc_pop [OF Suc.prems(1) h32 i(1)] Let_def
        split: if_splits)
  then show ?case
    using s1(2) s2 by simp
qed

lemma latest_row_snoc:
  "\<forall>q \<in> set rs. sn_index q < sn_index r \<Longrightarrow> latest_row (rs @ [r]) = Some r"
  by (induction rs) auto

lemma latest_row_inv:
  assumes "db_inv H sha t db ts"
  shows "latest_row (token_snapshots db (dt_token t))
    = (if ts = [] then None else Some (snapshot_of H sha t ts (length ts)))"
proof (cases ts rule: rev_cases)
  case Nil
  then show ?thesis
    using assms by (simp add: db_inv_def Let_def)
next
  case (snoc us u)
  then have "token_snapshots db (dt_token t)
      = map (snapshot_of H sha t ts) [1..<length ts] @ [snapshot_of H sha t ts (length ts)]"
    using assms by (simp add: db_inv_def Let_def)
  then show ?thesis
    using snoc by (simp only:) (subst latest_row_snoc, auto simp: snapshot_of_def)
qed

lemma latest_index_inv:
  assumes "db_inv H sha t db ts"
  shows "latest_index_internal db (dt_token t) = length ts"
proof -
  have "length ts < 2 ^ 63"
    using assms by (simp add: db_inv_def Let_def)
  then show ?thesis
    using latest_row_inv [OF assms]
    by (auto simp: latest_index_internal_def snapshot_of_def nat_mod_distrib)
qed

lemma latest_hash_chain_inv:
  assumes "db_inv H sha t db ts"
  shows "latest_hash_chain_internal db (dt_token t)
    = Inr (if ts = [] then None else Some (chain_of sha ts))"
  using latest_row_inv [OF assms] by (simp add: latest_hash_chain_internal_def snapshot_of_def)

lemma chain_of_Nil [simp]: "chain_of sha [] = 0"
  by (simp add: chain_of_def)

lemma upsert_nodes_other:
  "k \<notin> (\<lambda>u. (tid, fst u)) ` set us \<Longrightarrow> upsert_nodes m tid i us k = m k"
  by (induction us arbitrary: m) (auto simp: upsert_nodes_def)

lemma upsert_nodes_hit:
  "distinct (map fst us) \<Longrightarrow> (p, old, new) \<in> set us \<Longrightarrow> upsert_nodes m tid i us (tid, p) = Some (new, i)"
proof (induction us arbitrary: m)
  case (Cons u us)
  obtain q qo qn where u: "u = (q, qo, qn)"
    by (cases u)
  have step: "upsert_nodes m tid i (u # us) = upsert_nodes (m((tid, q) \<mapsto> (qn, i))) tid i us"
    by (simp add: upsert_nodes_def u)
  show ?case
  proof (cases "(p, old, new) = u")
    case True
    have "p \<notin> fst ` set us"
      using Cons.prems(1) unfolding True [symmetric] by simp
    then have "(tid, p) \<notin> (\<lambda>u. (tid, fst u)) ` set us"
      by (metis (no_types, lifting) Pair_inject image_iff)
    then show ?thesis
      using True u unfolding step by (simp add: upsert_nodes_other)
  next
    case False
    then show ?thesis
      using Cons by (simp add: step)
  qed
qed simp

text \<open>The update rows of one append: the changed ancestors of the new leaf.\<close>

definition append_rows ::
  "(fr \<Rightarrow> fr \<Rightarrow> fr) \<Rightarrow> nat \<Rightarrow> transfer list \<Rightarrow> transfer \<Rightarrow> (bytes \<times> bytes \<times> bytes) list" where
  "append_rows H h ts x =
     (let f = transfer_leaves H ts; f' = transfer_leaves H (ts @ [x]); i = length ts
      in map (leaf_update_row H f f' h i) (filter (changed_at H f f' h i) (rev [0..<Suc h])))"

lemma node_at_take: "i \<le> length ts \<Longrightarrow> node_at H h (ts @ us) i p = node_at H h ts i p"
  by (simp add: node_at_def)

lemma node_at_all: "node_at H h ts (length ts) p = node H (transfer_leaves H ts) (h - plen p) (pval p)"
  by (simp add: node_at_def)

lemma set_append_rows:
  "set (append_rows H h ts x)
     = leaf_update_row H (transfer_leaves H ts) (transfer_leaves H (ts @ [x])) h (length ts)
       ` {j. j \<le> h \<and> changed_at H (transfer_leaves H ts) (transfer_leaves H (ts @ [x])) h (length ts) j}"
  unfolding append_rows_def Let_def set_map set_filter set_rev set_upt
  by (rule arg_cong [where f = "image _"]) auto

lemma append_rows_iff:
  assumes "h < 2 ^ 32" "length ts < 2 ^ 64" "length ts < 2 ^ h"
  shows "(k, old, new) \<in> set (append_rows H h ts x)
    \<longleftrightarrow> (\<exists>p. valid_path h p \<and> k = bp_to_bytes p
          \<and> node_at H h ts (length ts) p \<noteq> node_at H h (ts @ [x]) (Suc (length ts)) p
          \<and> old = fr_to_bytes (node_at H h ts (length ts) p)
          \<and> new = fr_to_bytes (node_at H h (ts @ [x]) (Suc (length ts)) p))"
    (is "?L \<longleftrightarrow> ?R")
proof
  let ?n = "length ts" and ?f = "transfer_leaves H ts" and ?f' = "transfer_leaves H (ts @ [x])"
  assume ?L
  then obtain j where "j \<le> h" "changed_at H ?f ?f' h ?n j" "(k, old, new) = leaf_update_row H ?f ?f' h ?n j"
    unfolding set_append_rows by blast
  then show ?R
    using anc_simps [of j h ?n] anc_valid [of j h ?n] assms
    by (intro exI [of _ "anc h ?n j"]) (auto simp: node_at_def changed_at_def leaf_update_row_def)
next
  let ?n = "length ts" and ?f = "transfer_leaves H ts" and ?f' = "transfer_leaves H (ts @ [x])"
  assume ?R
  then obtain p where p: "valid_path h p" "k = bp_to_bytes p"
      "node H ?f (h - plen p) (pval p) \<noteq> node H ?f' (h - plen p) (pval p)"
      "old = fr_to_bytes (node H ?f (h - plen p) (pval p))"
      "new = fr_to_bytes (node H ?f' (h - plen p) (pval p))"
    by (auto simp: node_at_def)
  have on: "pval p = ?n div 2 ^ (h - plen p)"
    using p(3) node_upd_other [of "pval p" ?n "h - plen p" H ?f "transfer_hash H x"]
    unfolding transfer_leaves_snoc by metis
  then have "p = anc h ?n (plen p)"
    using on_path_anc [OF p(1) assms(1,2)] by simp
  moreover have "plen p \<le> h \<and> changed_at H ?f ?f' h ?n (plen p)"
    using p(1,3) on by (simp add: changed_at_def valid_path_def)
  moreover have "(k, old, new) = leaf_update_row H ?f ?f' h ?n (plen p)"
    using p on \<open>p = anc h ?n (plen p)\<close> by (simp add: leaf_update_row_def)
  ultimately show ?L
    unfolding set_append_rows by blast
qed

lemma append_rows_distinct:
  assumes "h < 2 ^ 32" "length ts < 2 ^ 64"
  shows "distinct (map fst (append_rows H h ts x))"
proof -
  have "inj_on (\<lambda>k. bp_to_bytes (anc h (length ts) k)) {0..<Suc h}"
    using anc_inj [OF assms] by (intro inj_onI) (auto simp: bp_to_bytes_inject)
  then show ?thesis
    unfolding append_rows_def Let_def
    by (auto simp: distinct_map leaf_update_row_def comp_def intro: inj_on_subset simp del: upt_Suc)
qed

lemma append_leaf_plan:
  assumes "db_inv H sha t db ts" "tree_ok H t" "length ts < 2 ^ dt_height t" "length ts < 2 ^ 64"
  defines "h \<equiv> dt_height t"
  shows "\<exists>m s s'. load_node_hashes db (dt_token t) (anc h (length ts) h # fetch_loop h (anc h (length ts) h)) = Inr m
    \<and> append_loop H t h (anc h (length ts) h) (transfer_hash H x) \<lparr>ap_nodes = m, ap_updates = []\<rparr>
        = Inr (node H (transfer_leaves H (ts @ [x])) h 0, s)
    \<and> plan_node t s bp_default (node H (transfer_leaves H (ts @ [x])) h 0) = Inr s'
    \<and> ap_updates s' = append_rows H h ts x"
proof -
  let ?n = "length ts" and ?f = "transfer_leaves H ts" and ?f' = "transfer_leaves H (ts @ [x])"
  have h32: "h < 2 ^ 32"
    using assms(2) by (simp add: tree_ok_def h_def)
  note n = assms(3,4) [folded h_def]
  let ?ps = "anc h ?n h # fetch_loop h (anc h ?n h)"
  have "\<forall>p \<in> set ?ps. valid_path (dt_height t) p"
    using fetch_loop_valid [OF le_refl h32 n(2,1)] anc_valid [OF le_refl h32 n(2,1)]
    by (auto simp: h_def)
  from load_node_hashes_ok [OF assms(1) this] obtain m where
    m: "load_node_hashes db (dt_token t) ?ps = Inr m"
      "\<forall>p. p \<in> set ?ps \<longrightarrow> node_or_zero H t m p = node_at H h ts ?n p"
    by (auto simp: h_def)
  have a: "node_or_zero H t m (anc h ?n j) = node H ?f (h - j) (?n div 2 ^ (h - j))" if "j \<le> h" for j
  proof -
    have "anc h ?n j \<in> set ?ps"
      using that fetch_loop_covers [OF le_refl h32 n(2), of "Suc j"] by (cases "j = h") auto
    then have "node_or_zero H t m (anc h ?n j) = node_at H h ts ?n (anc h ?n j)"
      using m(2) by blast
    then show ?thesis
      using anc_simps [OF that h32 n(2)] by (simp add: node_at_def)
  qed
  have b: "node_or_zero H t m (bp_sibling (anc h ?n j)) = node H ?f (h - j) (sib (?n div 2 ^ (h - j)))"
    if "j \<le> h" "0 < j" for j
  proof -
    have "bp_sibling (anc h ?n j) \<in> set ?ps"
      using that fetch_loop_covers [OF le_refl h32 n(2), of j] by auto
    then have "node_or_zero H t m (bp_sibling (anc h ?n j)) = node_at H h ts ?n (bp_sibling (anc h ?n j))"
      using m(2) by blast
    then show ?thesis
      using anc_simps [OF that(1) h32 n(2)] by (simp add: node_at_def)
  qed
  have fx: "?f(?n := transfer_hash H x) = ?f'"
    by (simp add: transfer_leaves_snoc)
  have leafv: "transfer_hash H x = node H ?f' (h - h) (?n div 2 ^ (h - h))"
    by (simp add: transfer_leaves_snoc)
  obtain s where s: "append_loop H t h (anc h ?n h) (transfer_hash H x) \<lparr>ap_nodes = m, ap_updates = []\<rparr>
        = Inr (node H ?f' h 0, s)"
      "ap_updates s = map (leaf_update_row H ?f ?f' h ?n) (filter (changed_at H ?f ?f' h ?n) (rev [1..<Suc h]))"
      "node_or_zero H t (ap_nodes s) bp_default = node H ?f h 0"
    using append_loop_ok [OF assms(2) n(2), folded h_def, OF n(1) le_refl,
        of "\<lparr>ap_nodes = m, ap_updates = []\<rparr>" ?f "transfer_hash H x", unfolded fx] a b
    unfolding leafv [symmetric] append_plan.simps append_Nil by blast
  have "node_or_zero H t (ap_nodes s) (anc h ?n 0) = node H ?f (h - 0) (?n div 2 ^ (h - 0))"
    using s(3) n(1) by (simp add: anc_0)
  from plan_node_ok [OF assms(2) le0 n(2), folded h_def, OF this, of ?f'] obtain s' where
    "plan_node t s bp_default (node H ?f' h 0) = Inr s'"
    "ap_updates s' = ap_updates s @ (if changed_at H ?f ?f' h ?n 0 then [leaf_update_row H ?f ?f' h ?n 0] else [])"
    using n(1) by (auto simp: anc_0)
  moreover have "[0..<Suc h] = 0 # [1..<Suc h]"
    by (simp add: upt_conv_Cons)
  ultimately show ?thesis
    using m(1) s by (auto simp: append_rows_def Let_def simp del: upt_Suc)
qed

text \<open>The tables after an append.\<close>

definition appended_db ::
  "(fr \<Rightarrow> fr \<Rightarrow> fr) \<Rightarrow> (bytes \<Rightarrow> bytes) \<Rightarrow> db_tree \<Rightarrow> merkle_db \<Rightarrow> transfer list \<Rightarrow> transfer \<Rightarrow> merkle_db" where
  "appended_db H sha t db ts x =
     (let tid = dt_token t; n = Suc (length ts); us = append_rows H (dt_height t) ts x
      in prune_updates
           (db\<lparr>merkle_updates := merkle_updates db @ update_rows tid (int n) us,
               merkle_nodes := upsert_nodes (merkle_nodes db) tid (int n) us,
               merkle_snapshots := merkle_snapshots db @ [snapshot_of H sha t (ts @ [x]) n]\<rparr>)
           tid (int (n - dt_window t)))"

lemma insert_updates_ok:
  assumes "db_inv H sha t db ts" "dt_height t < 2 ^ 32"
  shows "insert_updates db (dt_token t) (int (Suc (length ts))) (append_rows H (dt_height t) ts x)
    = Inr (db\<lparr>merkle_updates := merkle_updates db
                @ update_rows (dt_token t) (int (Suc (length ts))) (append_rows H (dt_height t) ts x),
              merkle_nodes := upsert_nodes (merkle_nodes db) (dt_token t) (int (Suc (length ts)))
                (append_rows H (dt_height t) ts x)\<rparr>)"
proof -
  have "length ts < 2 ^ 64"
    using assms(1) by (simp add: db_inv_def Let_def)
  then have "distinct (map fst (append_rows H (dt_height t) ts x))"
    using append_rows_distinct assms(2) by blast
  moreover have "nu_index r \<noteq> int (Suc (length ts))"
    if "r \<in> set (merkle_updates db)" "nu_token r = dt_token t" for r
    using db_inv_row [OF assms(1) that] by (metis of_nat_eq_iff not_less_eq_eq le_refl)
  ultimately show ?thesis
    by (auto simp: insert_updates_def list_ex_iff update_rows_def upsert_nodes_def)
qed

lemma insert_snapshot_ok:
  assumes "db_inv H sha t db ts" "merkle_snapshots db' = merkle_snapshots db"
  shows "insert_snapshot db' (dt_token t) (int (Suc (length ts))) rb cb
    = Inr (db'\<lparr>merkle_snapshots := merkle_snapshots db
        @ [\<lparr>sn_token = dt_token t, sn_index = int (Suc (length ts)), sn_root = rb, sn_chain = cb\<rparr>]\<rparr>)"
proof -
  have "sn_index r \<noteq> int (Suc (length ts))"
    if "r \<in> set (merkle_snapshots db)" "sn_token r = dt_token t" for r
  proof -
    have "r \<in> set (token_snapshots db (dt_token t))"
      using that by (simp add: token_snapshots_def)
    then show ?thesis
      using assms(1) by (auto simp: db_inv_def Let_def snapshot_of_def)
  qed
  then show ?thesis
    using assms(2) by (auto simp: insert_snapshot_def list_ex_iff)
qed

lemma append_leaf_result:
  assumes inv: "db_inv H sha t db ts" and tree: "tree_ok H t"
    and n: "length ts < 2 ^ dt_height t" "Suc (length ts) < 2 ^ 63"
  shows "append_leaf H sha t db a v
    = Inr (\<lparr>ar_index = Suc (length ts), ar_leaf_index = length ts,
            ar_root = node H (transfer_leaves H (ts @ [(a, v)])) (dt_height t) 0,
            ar_hash_chain = chain_of sha (ts @ [(a, v)])\<rparr>,
           appended_db H sha t db ts (a, v))"
proof -
  let ?h = "dt_height t" and ?n = "length ts" and ?x = "(a, v)" and ?tid = "dt_token t"
  have h32: "?h < 2 ^ 32"
    using tree by (simp add: tree_ok_def)
  have n64: "?n < 2 ^ 64"
    using n(2) by simp
  have lp: "bp_new (word_of_nat ?h) (word_of_nat ?n) = anc ?h ?n ?h"
    by (simp add: anc_def)
  obtain m s s' where plan:
    "load_node_hashes db ?tid (anc ?h ?n ?h # fetch_loop ?h (anc ?h ?n ?h)) = Inr m"
    "append_loop H t ?h (anc ?h ?n ?h) (transfer_hash H ?x) \<lparr>ap_nodes = m, ap_updates = []\<rparr>
        = Inr (node H (transfer_leaves H (ts @ [?x])) ?h 0, s)"
    "plan_node t s bp_default (node H (transfer_leaves H (ts @ [?x])) ?h 0) = Inr s'"
    "ap_updates s' = append_rows H ?h ts ?x"
    using append_leaf_plan [OF inv tree n(1) n64] by blast
  have lh: "compute_leaf_hash H (address_to_fr a) (u256_to_fr v) = transfer_hash H ?x"
    by (simp add: compute_leaf_hash_def transfer_hash_def)
  have lock: "lock_token_row db ?tid = Inr ()"
    using inv by (simp add: lock_token_row_def db_inv_def Let_def)
  have i64: "i64_try_from l (Suc ?n) = Inr (int (Suc ?n))" "i64_try_from l (Suc ?n - dt_window t)
      = Inr (int (Suc ?n - dt_window t))" for l
    using n(2) by (simp_all add: i64_try_from_def)
  have chain: "(case if ts = [] then None else Some (chain_of sha ts) of None \<Rightarrow> 0 | Some c \<Rightarrow> c)
      = chain_of sha ts"
    by simp
  have root: "node_at H ?h (ts @ [?x]) (Suc ?n) bp_default = node H (transfer_leaves H (ts @ [?x])) ?h 0"
    by (simp add: node_at_def bp_default_def)
  have snap: "snapshot_of H sha t (ts @ [?x]) (Suc ?n)
      = \<lparr>sn_token = ?tid, sn_index = int (Suc ?n),
         sn_root = fr_to_bytes (node H (transfer_leaves H (ts @ [?x])) ?h 0),
         sn_chain = u256_to_be_bytes (chain_of sha (ts @ [?x]))\<rparr>"
    unfolding snapshot_of_def root by simp
  show ?thesis
    unfolding append_leaf_def Let_def lock latest_index_inv [OF inv] latest_hash_chain_inv [OF inv]
      res_bind.simps chain lp lh Suc_eq_plus1 [symmetric] i64 plan prod.case diff_Suc_1
      insert_updates_ok [OF inv h32]
    by (subst insert_snapshot_ok [OF inv])
      (simp_all add: appended_db_def Let_def snap chain_of_snoc prune_updates_def)
qed

lemma appended_simps:
  "token_ids (appended_db H sha t db ts x) = token_ids db"
  "merkle_nodes (appended_db H sha t db ts x)
     = upsert_nodes (merkle_nodes db) (dt_token t) (int (Suc (length ts))) (append_rows H (dt_height t) ts x)"
  "merkle_snapshots (appended_db H sha t db ts x)
     = merkle_snapshots db @ [snapshot_of H sha t (ts @ [x]) (Suc (length ts))]"
  "set (merkle_updates (appended_db H sha t db ts x))
     = {r \<in> set (merkle_updates db)
          \<union> set (update_rows (dt_token t) (int (Suc (length ts))) (append_rows H (dt_height t) ts x)).
        \<not> (nu_token r = dt_token t \<and> nu_index r \<le> int (Suc (length ts) - dt_window t))}"
  by (auto simp: appended_db_def Let_def prune_updates_def)

lemma update_rows_iff:
  "r \<in> set (update_rows tid i us)
     \<longleftrightarrow> nu_token r = tid \<and> nu_index r = i \<and> (nu_path r, nu_old r, nu_new r) \<in> set us"
  by (cases r) (force simp: update_rows_def)

lemma appended_nodes_ok:
  assumes inv: "db_inv H sha t db ts" and tree: "tree_ok H t"
    and n: "length ts < 2 ^ dt_height t" and p: "valid_path (dt_height t) p"
  shows "case merkle_nodes (appended_db H sha t db ts x) (dt_token t, bp_to_bytes p) of
      None \<Rightarrow> node_at H (dt_height t) (ts @ [x]) (Suc (length ts)) p = zero_hash H (dt_height t - plen p)
    | Some (b, _) \<Rightarrow> b = fr_to_bytes (node_at H (dt_height t) (ts @ [x]) (Suc (length ts)) p)"
proof -
  let ?h = "dt_height t" and ?n = "length ts" and ?us = "append_rows H (dt_height t) ts x"
  let ?old = "node_at H ?h ts ?n p" and ?new = "node_at H ?h (ts @ [x]) (Suc ?n) p"
  have bounds: "?h < 2 ^ 32" "?n < 2 ^ 64"
    using tree inv by (simp_all add: tree_ok_def db_inv_def Let_def)
  note rows = append_rows_iff [OF bounds n]
  show ?thesis
  proof (cases "?old = ?new")
    case True
    have "bp_to_bytes p \<notin> fst ` set ?us"
    proof
      assume "bp_to_bytes p \<in> fst ` set ?us"
      then obtain old new where "(bp_to_bytes p, old, new) \<in> set ?us"
        by auto
      with rows True show False
        by (metis bp_to_bytes_inject)
    qed
    then have "(dt_token t, bp_to_bytes p) \<notin> (\<lambda>u. (dt_token t, fst u)) ` set ?us"
      by (metis (no_types, lifting) Pair_inject image_iff)
    then have "merkle_nodes (appended_db H sha t db ts x) (dt_token t, bp_to_bytes p)
        = merkle_nodes db (dt_token t, bp_to_bytes p)"
      by (simp add: appended_simps upsert_nodes_other)
    moreover have "case merkle_nodes db (dt_token t, bp_to_bytes p) of
        None \<Rightarrow> ?old = zero_hash H (?h - plen p) | Some (b, _) \<Rightarrow> b = fr_to_bytes ?old"
      by (rule db_inv_nodes [OF inv p])
    ultimately show ?thesis
      using True by (auto split: option.splits)
  next
    case False
    then have "(bp_to_bytes p, fr_to_bytes ?old, fr_to_bytes ?new) \<in> set ?us"
      using rows p by blast
    then show ?thesis
      using upsert_nodes_hit [OF append_rows_distinct [OF bounds]] by (simp add: appended_simps)
  qed
qed

lemma token_snapshots_appended:
  assumes "db_inv H sha t db ts"
  shows "token_snapshots (appended_db H sha t db ts x) (dt_token t)
    = map (snapshot_of H sha t (ts @ [x])) [1..<Suc (Suc (length ts))]"
proof -
  have "map (snapshot_of H sha t (ts @ [x])) [1..<Suc (length ts)]
      = map (snapshot_of H sha t ts) [1..<Suc (length ts)]"
    by (auto simp: snapshot_of_def node_at_take)
  then show ?thesis
    using assms
    by (simp add: token_snapshots_def appended_simps db_inv_def Let_def snapshot_of_def)
qed

lemma db_inv_appended:
  assumes inv: "db_inv H sha t db ts" and tree: "tree_ok H t"
    and n: "length ts < 2 ^ dt_height t" "Suc (length ts) < 2 ^ 63"
  shows "db_inv H sha t (appended_db H sha t db ts x) (ts @ [x])"
proof -
  let ?h = "dt_height t" and ?n = "length ts" and ?us = "append_rows H (dt_height t) ts x"
  let ?W = "dt_window t" and ?db' = "appended_db H sha t db ts x"
  have bounds: "?h < 2 ^ 32" "?n < 2 ^ 64" "0 < ?W"
    using tree n(2) by (simp_all add: tree_ok_def)
  note rows = append_rows_iff [OF bounds(1,2) n(1)]
  have I3: "\<exists>i p. nu_index r = int i \<and> 1 \<le> i \<and> i \<le> Suc ?n \<and> Suc ?n < i + ?W \<and> valid_path ?h p
      \<and> nu_path r = bp_to_bytes p \<and> nu_old r = fr_to_bytes (node_at H ?h (ts @ [x]) (i - 1) p)"
    if r: "r \<in> set (merkle_updates ?db')" "nu_token r = dt_token t" for r
  proof (cases "r \<in> set (merkle_updates db)")
    case True
    then obtain i p where ip: "nu_index r = int i" "1 \<le> i" "i \<le> ?n" "valid_path ?h p"
        "nu_path r = bp_to_bytes p" "nu_old r = fr_to_bytes (node_at H ?h ts (i - 1) p)"
      using db_inv_row [OF inv True r(2)] by metis
    then have "Suc ?n < i + ?W"
      using r by (auto simp: appended_simps)
    with ip show ?thesis
      by (intro exI [of _ i] exI [of _ p]) (simp add: node_at_take)
  next
    case False
    then have "nu_index r = int (Suc ?n)" "(nu_path r, nu_old r, nu_new r) \<in> set ?us"
      using r by (auto simp: appended_simps update_rows_iff)
    then show ?thesis
      using rows bounds(3) by (auto simp: node_at_take intro!: exI [of _ "Suc ?n"])
  qed
  have I4: "\<exists>r \<in> set (merkle_updates ?db').
      nu_token r = dt_token t \<and> nu_index r = int i \<and> nu_path r = bp_to_bytes p"
    if ip: "1 \<le> i" "i \<le> Suc ?n" "Suc ?n < i + ?W" "valid_path ?h p"
      "node_at H ?h (ts @ [x]) (i - 1) p \<noteq> node_at H ?h (ts @ [x]) i p" for i p
  proof (cases "i = Suc ?n")
    case True
    then have "(bp_to_bytes p, fr_to_bytes (node_at H ?h ts ?n p),
        fr_to_bytes (node_at H ?h (ts @ [x]) (Suc ?n) p)) \<in> set ?us"
      using ip rows by (auto simp: node_at_take)
    then show ?thesis
      using True ip(3) bounds(3)
      by (intro bexI [of _ "\<lparr>nu_token = dt_token t, nu_index = int i, nu_path = bp_to_bytes p,
            nu_old = fr_to_bytes (node_at H ?h ts ?n p),
            nu_new = fr_to_bytes (node_at H ?h (ts @ [x]) (Suc ?n) p)\<rparr>"])
        (auto simp: appended_simps update_rows_iff)
  next
    case False
    then have "i \<le> ?n" "?n < i + ?W"
      using ip(2,3) by simp_all
    moreover from this have "node_at H ?h ts (i - 1) p \<noteq> node_at H ?h ts i p"
      using ip(5) by (simp add: node_at_take)
    ultimately obtain r where "r \<in> set (merkle_updates db)" "nu_token r = dt_token t"
        "nu_index r = int i" "nu_path r = bp_to_bytes p"
      using db_inv_row_exists [OF inv ip(1) _ _ ip(4)] by metis
    then show ?thesis
      using ip(1,3) by (intro bexI [of _ r]) (auto simp: appended_simps)
  qed
  have len: "length (ts @ [x]) = Suc ?n"
    by simp
  have "dt_token t \<in> set (token_ids ?db')"
    using inv by (simp add: appended_simps(1) db_inv_def Let_def)
  then show ?thesis
    unfolding db_inv_def Let_def len
    using appended_nodes_ok [OF inv tree n(1), of _ x] token_snapshots_appended [OF inv] I3 I4 n(2)
    by blast
qed

section \<open>The overlay shows the tree as it was\<close>

lemma overlay_loop_ok:
  assumes "\<forall>r \<in> set rs. \<exists>p x. nu_path r = bp_to_bytes p \<and> nu_old r = fr_to_bytes x"
  shows "\<exists>m. overlay_loop rs ov = Inr m
    \<and> (\<forall>p. m p = (case ov p of Some x \<Rightarrow> Some x
          | None \<Rightarrow> (case find (\<lambda>r. nu_path r = bp_to_bytes p) rs of
                None \<Rightarrow> None | Some r \<Rightarrow> Some (fr_of_nat (nat_of_be (nu_old r))))))"
  using assms
proof (induction rs arbitrary: ov)
  case (Cons r rs)
  have prem: "\<forall>r \<in> set rs. \<exists>p x. nu_path r = bp_to_bytes p \<and> nu_old r = fr_to_bytes x"
    using Cons.prems by simp
  obtain q x where r: "nu_path r = bp_to_bytes q" "nu_old r = fr_to_bytes x"
    using Cons.prems by auto
  have x: "fr_of_nat (nat_of_be (fr_to_bytes x)) = x"
    using bytes_to_fr_fr_to_bytes [of x] by (simp add: bytes_to_fr_def split: if_splits)
  show ?case
  proof (cases "ov q")
    case None
    obtain m where "overlay_loop rs (ov(q \<mapsto> x)) = Inr m"
      "\<forall>p. m p = (case (ov(q \<mapsto> x)) p of Some x \<Rightarrow> Some x
          | None \<Rightarrow> (case find (\<lambda>r. nu_path r = bp_to_bytes p) rs of
                None \<Rightarrow> None | Some r \<Rightarrow> Some (fr_of_nat (nat_of_be (nu_old r)))))"
      using Cons.IH [OF prem, of "ov(q \<mapsto> x)"] by blast
    then show ?thesis
      using None r x by (auto simp: bp_to_bytes_inject cong: option.case_cong)
  next
    case (Some y)
    obtain m where m: "overlay_loop rs ov = Inr m"
      "\<forall>p. m p = (case ov p of Some x \<Rightarrow> Some x
          | None \<Rightarrow> (case find (\<lambda>r. nu_path r = bp_to_bytes p) rs of
                None \<Rightarrow> None | Some r \<Rightarrow> Some (fr_of_nat (nat_of_be (nu_old r)))))"
      using Cons.IH [OF prem, of ov] by blast
    have "m p = (case ov p of Some x \<Rightarrow> Some x
          | None \<Rightarrow> (case find (\<lambda>r. nu_path r = bp_to_bytes p) (r # rs) of
                None \<Rightarrow> None | Some r \<Rightarrow> Some (fr_of_nat (nat_of_be (nu_old r)))))" for p
      using m(2) Some r by (cases "p = q") (auto simp: bp_to_bytes_inject cong: option.case_cong)
    then show ?thesis
      using m(1) Some r by auto
  qed
qed (auto split: option.splits)

lemma find_sort_key_min:
  fixes key :: "'a \<Rightarrow> 'b :: linorder"
  assumes "find P (sort_key key xs) = Some r"
  shows "r \<in> set xs \<and> P r \<and> (\<forall>r' \<in> set xs. P r' \<longrightarrow> key r \<le> key r')"
proof -
  from assms obtain i where i: "i < length (sort_key key xs)" "P (sort_key key xs ! i)"
      "r = sort_key key xs ! i" "\<forall>j < i. \<not> P (sort_key key xs ! j)"
    unfolding find_Some_iff by blast
  have "key r \<le> key r'" if "r' \<in> set xs" "P r'" for r'
  proof -
    have "r' \<in> set (sort_key key xs)"
      using that(1) by simp
    then obtain j where j: "j < length (sort_key key xs)" "sort_key key xs ! j = r'"
      unfolding in_set_conv_nth by blast
    then have "i \<le> j"
      using i(4) that(2) not_le by blast
    then show ?thesis
      using sorted_nth_mono [OF sorted_sort_key [of key xs], of i j] i j by simp
  qed
  moreover have "r \<in> set (sort_key key xs)"
    unfolding i(3) by (rule nth_mem [OF i(1)])
  ultimately show ?thesis
    using i(2,3) by simp
qed

lemma node_at_constant:
  assumes "i \<le> j" "\<And>k. i < k \<Longrightarrow> k \<le> j \<Longrightarrow> node_at H h ts (k - 1) p = node_at H h ts k p"
  shows "node_at H h ts i p = node_at H h ts j p"
  using assms
proof (induction j)
  case (Suc j)
  show ?case
  proof (cases "i = Suc j")
    case False
    then have "node_at H h ts i p = node_at H h ts j p"
      using Suc by simp
    then show ?thesis
      using Suc.prems(2) [of "Suc j"] Suc.prems(1) False by simp
  qed simp
qed simp

text \<open>The overlay of all updates after \<open>target\<close>, inside the retention window.\<close>

lemma load_overlay_ok:
  assumes inv: "db_inv H sha t db ts"
    and target: "target \<le> length ts" "length ts - target \<le> dt_window t"
  shows "\<exists>ov. load_overlay db (dt_token t) (target + 1) (length ts) = Inr ov
    \<and> (\<forall>p. valid_path (dt_height t) p \<longrightarrow>
         node_at H (dt_height t) ts target p
           = (case ov p of Some x \<Rightarrow> x | None \<Rightarrow> node_at H (dt_height t) ts (length ts) p))"
proof (cases "target = length ts")
  case True
  then show ?thesis
    by (simp add: load_overlay_def)
next
  case False
  let ?n = "length ts" and ?h = "dt_height t"
  let ?sel = "filter (\<lambda>r. nu_token r = dt_token t \<and> int (target + 1) \<le> nu_index r \<and> nu_index r \<le> int ?n)
    (merkle_updates db)"
  let ?rs = "sort_key nu_index ?sel"
  have n63: "?n < 2 ^ 63"
    using inv by (simp add: db_inv_def Let_def)
  have row: "\<exists>p x. nu_path r = bp_to_bytes p \<and> nu_old r = fr_to_bytes x" if "r \<in> set ?rs" for r
  proof -
    have "r \<in> set (merkle_updates db)" "nu_token r = dt_token t"
      using that by simp_all
    then show ?thesis
      by (rule db_inv_row [OF inv]) blast
  qed
  then obtain ov where ov: "overlay_loop ?rs Map.empty = Inr ov"
      "\<forall>p. ov p = (case find (\<lambda>r. nu_path r = bp_to_bytes p) ?rs of
          None \<Rightarrow> None | Some r \<Rightarrow> Some (fr_of_nat (nat_of_be (nu_old r))))"
    using overlay_loop_ok [of ?rs Map.empty] by auto
  have load: "load_overlay db (dt_token t) (target + 1) ?n = Inr ov"
    using False target(1) n63 ov(1) by (simp add: load_overlay_def i64_try_from_def)
  have quiet: "node_at H ?h ts (k - 1) p = node_at H ?h ts k p"
    if q: "valid_path ?h p" "target < k" "k \<le> ?n"
      "\<forall>r \<in> set ?sel. nu_path r = bp_to_bytes p \<longrightarrow> nu_index r \<noteq> int k" for k p
  proof (rule ccontr)
    assume "node_at H ?h ts (k - 1) p \<noteq> node_at H ?h ts k p"
    moreover have "?n < k + dt_window t" "1 \<le> k"
      using q(2) target by linarith+
    ultimately obtain r where "r \<in> set (merkle_updates db)" "nu_token r = dt_token t"
        "nu_index r = int k" "nu_path r = bp_to_bytes p"
      using db_inv_row_exists [OF inv _ q(3) _ q(1)] by metis
    then show False
      using q by auto
  qed
  have "node_at H ?h ts target p = (case ov p of Some x \<Rightarrow> x | None \<Rightarrow> node_at H ?h ts ?n p)"
    if p: "valid_path ?h p" for p
  proof (cases "find (\<lambda>r. nu_path r = bp_to_bytes p) ?rs")
    case None
    then have none: "\<forall>r \<in> set ?sel. nu_path r \<noteq> bp_to_bytes p"
      by (simp add: find_None_iff)
    have "node_at H ?h ts target p = node_at H ?h ts ?n p"
    proof (rule node_at_constant [OF target(1)])
      fix k
      assume "target < k" "k \<le> ?n"
      then show "node_at H ?h ts (k - 1) p = node_at H ?h ts k p"
        by (rule quiet [OF p]) (use none in blast)
    qed
    then show ?thesis
      using None ov(2) by simp
  next
    case (Some r)
    note min = find_sort_key_min [OF Some]
    then have r: "r \<in> set (merkle_updates db)" "nu_token r = dt_token t" "nu_path r = bp_to_bytes p"
        "int (target + 1) \<le> nu_index r"
      by auto
    obtain i q where iq: "nu_index r = int i" "i \<le> ?n" "nu_path r = bp_to_bytes q"
        "nu_old r = fr_to_bytes (node_at H ?h ts (i - 1) q)"
      using db_inv_row [OF inv r(1,2)] by metis
    then have "q = p" "target < i"
      using r(3,4) by (simp_all add: bp_to_bytes_inject)
    have "node_at H ?h ts target p = node_at H ?h ts (i - 1) p"
    proof (rule node_at_constant)
      fix k
      assume "target < k" "k \<le> i - 1"
      have "\<forall>r' \<in> set ?sel. nu_path r' = bp_to_bytes p \<longrightarrow> nu_index r' \<noteq> int k"
      proof (intro ballI impI notI)
        fix r'
        assume "r' \<in> set ?sel" "nu_path r' = bp_to_bytes p" "nu_index r' = int k"
        with min have "nu_index r \<le> nu_index r'"
          by blast
        with \<open>nu_index r' = int k\<close> have "nu_index r \<le> int k"
          by simp
        with iq(1) \<open>k \<le> i - 1\<close> \<open>target < k\<close> show False
          by simp
      qed
      then show "node_at H ?h ts (k - 1) p = node_at H ?h ts k p"
        using quiet [OF p \<open>target < k\<close>] \<open>k \<le> i - 1\<close> iq(2) by simp
    qed (use \<open>target < i\<close> in simp)
    moreover have "fr_of_nat (nat_of_be (fr_to_bytes x)) = x" for x
      using bytes_to_fr_fr_to_bytes [of x] by (simp add: bytes_to_fr_def split: if_splits)
    ultimately show ?thesis
      using Some ov(2) iq(4) \<open>q = p\<close> by simp
  qed
  with load show ?thesis
    by blast
qed

end
