(* ===== verification/Db_Tree_Proofs.thy ===== *)
theory Db_Tree_Proofs
  imports Db_Tree_Props
begin

text \<open>
  Historical proofs of the database tree, the interface of a transfer log that the
  in-memory and the database tree share, and the properties of the component.
\<close>

section \<open>Proofs at a target index\<close>

lemma snapshot_at_inv:
  assumes "db_inv H sha t db ts" "1 \<le> i" "i \<le> length ts"
  shows "snapshot_at db (dt_token t) (int i) = Some (snapshot_of H sha t ts i)"
proof -
  have "find (\<lambda>r. sn_index r = int i) (map (snapshot_of H sha t ts) [1..<Suc n])
      = (if 1 \<le> i \<and> i \<le> n then Some (snapshot_of H sha t ts i) else None)" for n
  proof (induction n)
    case (Suc n)
    have "find P (xs @ [y]) = (case find P xs of Some z \<Rightarrow> Some z | None \<Rightarrow> if P y then Some y else None)"
      for P and xs :: "snapshot_row list" and y
      by (induction xs) auto
    moreover have "map (snapshot_of H sha t ts) [1..<Suc (Suc n)]
        = map (snapshot_of H sha t ts) [1..<Suc n] @ [snapshot_of H sha t ts (Suc n)]"
      by simp
    moreover have "sn_index (snapshot_of H sha t ts (Suc n)) = int i \<longleftrightarrow> i = Suc n"
      by (auto simp: snapshot_of_def)
    ultimately show ?case
      using Suc by (auto simp del: upt_Suc simp: le_Suc_eq)
  qed simp
  then show ?thesis
    using assms by (simp add: snapshot_at_def db_inv_def Let_def del: upt_Suc)
qed

lemma root_at_inv:
  assumes "db_inv H sha t db ts" "1 \<le> i" "i \<le> length ts"
  shows "root_at_internal db (dt_token t) i
      = Inr (Some (node H (transfer_leaves H (take i ts)) (dt_height t) 0))"
    and "hash_chain_at_internal db (dt_token t) i = Inr (Some (chain_of sha (take i ts)))"
proof -
  have "i < 2 ^ 63"
    using assms by (simp add: db_inv_def Let_def)
  then show "root_at_internal db (dt_token t) i
      = Inr (Some (node H (transfer_leaves H (take i ts)) (dt_height t) 0))"
    and "hash_chain_at_internal db (dt_token t) i = Inr (Some (chain_of sha (take i ts)))"
    using snapshot_at_inv [OF assms]
    by (simp_all add: root_at_internal_def hash_chain_at_internal_def i64_try_from_def snapshot_of_def
        node_at_def bp_default_def)
qed

lemma prefetch_covers:
  assumes "k \<le> h" "h < 2 ^ 32" "l < 2 ^ 64" "0 < j" "j \<le> k" "ov (bp_sibling (anc h l j)) = None"
  shows "bp_sibling (anc h l j) \<in> set (prefetch_loop ov k (anc h l k))"
  using assms(1,5)
proof (induction k)
  case (Suc k)
  then show ?case
    using assms anc_pop [of k h l] by (cases "j = Suc k") auto
qed (use assms(4) in simp)

lemma prefetch_valid:
  assumes "k \<le> h" "h < 2 ^ 32" "l < 2 ^ 64" "l < 2 ^ h" "p \<in> set (prefetch_loop ov k (anc h l k))"
  shows "valid_path h p"
  using assms(1,5)
proof (induction k)
  case (Suc k)
  have "snd (bp_pop (anc h l (Suc k))) = anc h l k"
    using anc_pop [of k h l] Suc.prems(1) assms by simp
  then show ?case
    using Suc assms anc_sibling_valid [of "Suc k" h l] by (auto split: if_splits)
qed simp

lemma node_or_zero_fill:
  "cache p = None \<Longrightarrow> node_or_zero H t (cache(p \<mapsto> zero_hash H (dt_height t - plen p))) = node_or_zero H t cache"
  by (auto simp: node_or_zero_def fun_eq_iff)

lemma sibling_loop_ok:
  fixes t defines "h \<equiv> dt_height t"
  assumes tree: "tree_ok H t" and l: "l < 2 ^ 64" "l < 2 ^ h" and "k \<le> h"
    and ov: "\<And>p. valid_path h p \<Longrightarrow> node_at H h ts target p
      = (case ov p of Some x \<Rightarrow> x | None \<Rightarrow> node_at H h ts (length ts) p)"
    and "\<forall>j. 0 < j \<and> j \<le> k \<and> ov (bp_sibling (anc h l j)) = None \<longrightarrow>
      node_or_zero H t cache (bp_sibling (anc h l j)) = node_at H h ts (length ts) (bp_sibling (anc h l j))"
  shows "\<exists>cache'. sibling_loop t ov k (anc h l k) cache
      = Inr (path_siblings H (transfer_leaves H (take target ts)) (h - k) k (l div 2 ^ (h - k)), cache')
    \<and> node_or_zero H t cache' = node_or_zero H t cache"
  using assms(5,7)
proof (induction k arbitrary: cache)
  case (Suc k)
  let ?s = "bp_sibling (anc h l (Suc k))" and ?f = "transfer_leaves H (take target ts)"
  have h32: "h < 2 ^ 32"
    using tree by (simp add: tree_ok_def h_def)
  have sv: "valid_path h ?s"
    by (rule anc_sibling_valid) (use Suc.prems(1) h32 l in auto)
  have val: "node_at H h ts target ?s = node H ?f (h - Suc k) (sib (l div 2 ^ (h - Suc k)))"
    using anc_simps [OF Suc.prems(1) h32 l(1)] by (simp add: node_at_def)
  have lvl: "h - k = Suc (h - Suc k)"
    using Suc.prems(1) by simp
  have pop: "snd (bp_pop (anc h l (Suc k))) = anc h l k"
    by (rule anc_pop [OF Suc.prems(1) h32 l(1)])
  have z: "zero_hash_for_path t ?s = Inr (zero_hash H (dt_height t - plen ?s))"
    by (rule zero_hash_for_path_ok [OF tree]) (use sv in \<open>simp add: valid_path_def h_def\<close>)
  define step where "step = (case ov ?s of Some x \<Rightarrow> Inr (x, cache)
     | None \<Rightarrow> (case cache ?s of Some x \<Rightarrow> Inr (x, cache)
         | None \<Rightarrow> res_bind (zero_hash_for_path t ?s) (\<lambda>z. Inr (z, cache(?s \<mapsto> z)))))"
  have "\<exists>c1. step = Inr (node_at H h ts target ?s, c1) \<and> node_or_zero H t c1 = node_or_zero H t cache"
  proof (cases "ov ?s")
    case None
    then have "node_or_zero H t cache ?s = node_at H h ts target ?s"
      using Suc.prems(2) ov [OF sv] by simp
    then show ?thesis
      using None node_or_zero_fill [of cache ?s H t] z
      by (cases "cache ?s") (auto simp: step_def node_or_zero_def)
  next
    case (Some x)
    then show ?thesis
      using ov [OF sv] by (simp add: step_def)
  qed
  then obtain c1 where c1: "step = Inr (node_at H h ts target ?s, c1)"
      "node_or_zero H t c1 = node_or_zero H t cache"
    by blast
  from Suc.IH [of c1] Suc.prems obtain c2 where
    "sibling_loop t ov k (anc h l k) c1 = Inr (path_siblings H ?f (h - k) k (l div 2 ^ (h - k)), c2)"
    "node_or_zero H t c2 = node_or_zero H t cache"
    unfolding c1(2) by auto
  moreover have "sibling_loop t ov (Suc k) (anc h l (Suc k)) cache
      = res_bind step (\<lambda>(x, c). res_bind (sibling_loop t ov k (anc h l k) c)
          (\<lambda>(rest, c). Inr (x # rest, c)))"
    unfolding sibling_loop.simps Let_def pop step_def ..
  moreover have "l div 2 ^ (h - Suc k) div 2 = l div 2 ^ (h - k)"
    unfolding lvl div_pow_Suc ..
  ultimately show ?case
    using c1(1) val lvl by simp
qed simp

definition historical_of ::
  "(fr \<Rightarrow> fr \<Rightarrow> fr) \<Rightarrow> (bytes \<Rightarrow> bytes) \<Rightarrow> nat \<Rightarrow> transfer list \<Rightarrow> nat \<Rightarrow> nat \<Rightarrow> historical_proof" where
  "historical_of H sha h ts target l =
     \<lparr>hp_target_index = target, hp_leaf_index = l,
      hp_root = node H (transfer_leaves H (take target ts)) h 0,
      hp_hash_chain = chain_of sha (take target ts),
      hp_proof = \<lparr>siblings = path_siblings H (transfer_leaves H (take target ts)) 0 h l\<rparr>\<rparr>"

lemma proofs_loop_ok:
  fixes t defines "h \<equiv> dt_height t"
  assumes tree: "tree_ok H t"
    and ov: "\<And>p. valid_path h p \<Longrightarrow> node_at H h ts target p
      = (case ov p of Some x \<Rightarrow> x | None \<Rightarrow> node_at H h ts (length ts) p)"
    and "\<forall>l \<in> set ls. l < 2 ^ 64 \<and> l < 2 ^ h"
    and "\<forall>l \<in> set ls. \<forall>j. 0 < j \<and> j \<le> h \<and> ov (bp_sibling (anc h l j)) = None \<longrightarrow>
      node_or_zero H t cache (bp_sibling (anc h l j)) = node_at H h ts (length ts) (bp_sibling (anc h l j))"
  shows "proofs_loop t ov target (node H (transfer_leaves H (take target ts)) h 0)
      (chain_of sha (take target ts)) ls cache
    = Inr (map (historical_of H sha h ts target) ls)"
  using assms(4,5)
proof (induction ls arbitrary: cache)
  case (Cons l ls)
  have pp: "proof_path t l = anc h l h"
    by (simp add: proof_path_def anc_def h_def)
  obtain c where c: "sibling_loop t ov h (anc h l h) cache
      = Inr (path_siblings H (transfer_leaves H (take target ts)) 0 h l, c)"
      "node_or_zero H t c = node_or_zero H t cache"
    using sibling_loop_ok [OF tree, folded h_def, of l h ts target ov cache] Cons.prems ov by auto
  then show ?case
    using Cons.IH [of c] Cons.prems pp by (simp add: historical_of_def flip: h_def)
qed simp

lemma check_leaf_indices_iff:
  "check_leaf_indices target ls = Inr () \<longleftrightarrow> (\<forall>l \<in> set ls. l < target)"
  by (induction ls) auto

lemma prove_many_ok:
  assumes inv: "db_inv H sha t db ts" and tree: "tree_ok H t" and size: "length ts \<le> 2 ^ dt_height t"
    and target: "1 \<le> target" "target \<le> length ts" "length ts - target \<le> dt_window t"
    and ls: "\<forall>l \<in> set ls. l < target"
  shows "prove_many t db target ls = Inr (map (historical_of H sha (dt_height t) ts target) ls)"
proof (cases "ls = []")
  case True
  then show ?thesis
    by (simp add: prove_many_def)
next
  case False
  let ?h = "dt_height t"
  have bounds: "?h < 2 ^ 32" "length ts < 2 ^ 63"
    using tree inv by (simp_all add: tree_ok_def db_inv_def Let_def)
  have lb: "\<forall>l \<in> set ls. l < 2 ^ 64 \<and> l < 2 ^ ?h"
    using ls target(2) size bounds(2) by auto
  obtain ov where ov: "load_overlay db (dt_token t) (target + 1) (length ts) = Inr ov"
      "\<And>p. valid_path ?h p \<Longrightarrow> node_at H ?h ts target p
        = (case ov p of Some x \<Rightarrow> x | None \<Rightarrow> node_at H ?h ts (length ts) p)"
    using load_overlay_ok [OF inv target(2,3)] by blast
  let ?ps = "concat (map (\<lambda>l. prefetch_loop ov ?h (proof_path t l)) ls)"
  have pp: "proof_path t l = anc ?h l ?h" for l
    by (simp add: proof_path_def anc_def)
  have "\<forall>p \<in> set ?ps. valid_path ?h p"
    using lb bounds(1) prefetch_valid [OF le_refl bounds(1)] by (auto simp: pp)
  from load_node_hashes_ok [OF inv this] obtain m where
    m: "load_node_hashes db (dt_token t) ?ps = Inr m"
      "\<forall>p. p \<in> set ?ps \<longrightarrow> node_or_zero H t m p = node_at H ?h ts (length ts) p"
    by auto
  have cache: "(if ?ps = [] then Inr Map.empty else load_node_hashes db (dt_token t) ?ps) = Inr m"
  proof (cases "?ps = []")
    case True
    show ?thesis
      using m(1) unfolding True by simp
  next
    case False
    then show ?thesis
      using m(1) by (simp only: if_False)
  qed
  have "\<forall>l \<in> set ls. \<forall>j. 0 < j \<and> j \<le> ?h \<and> ov (bp_sibling (anc ?h l j)) = None \<longrightarrow>
      node_or_zero H t m (bp_sibling (anc ?h l j)) = node_at H ?h ts (length ts) (bp_sibling (anc ?h l j))"
  proof (intro ballI allI impI)
    fix l j
    assume l: "l \<in> set ls" and j: "0 < j \<and> j \<le> ?h \<and> ov (bp_sibling (anc ?h l j)) = None"
    then have "bp_sibling (anc ?h l j) \<in> set (prefetch_loop ov ?h (anc ?h l ?h))"
      using prefetch_covers [of ?h ?h l j ov] lb bounds(1) by blast
    with l have "bp_sibling (anc ?h l j) \<in> set ?ps"
      by (auto simp: pp)
    then show "node_or_zero H t m (bp_sibling (anc ?h l j))
        = node_at H ?h ts (length ts) (bp_sibling (anc ?h l j))"
      using m(2) by blast
  qed
  note loop = proofs_loop_ok [OF tree ov(2) lb this, of sha]
  have chk: "check_leaf_indices target ls = Inr ()"
    using ls by (simp add: check_leaf_indices_iff)
  have "ts \<noteq> []"
    using target by auto
  then show ?thesis
    unfolding prove_many_def Let_def latest_index_inv [OF inv]
    using False target chk ov(1) root_at_inv [OF inv target(1,2)] cache loop by simp
qed

section \<open>The interface of a transfer log\<close>

fun append_all :: "('s \<Rightarrow> address \<Rightarrow> u256 \<Rightarrow> 's option) \<Rightarrow> 's \<Rightarrow> transfer list \<Rightarrow> 's option" where
  "append_all app s [] = Some s"
| "append_all app s ((a, v) # ts) = do { s' \<leftarrow> app s a v; append_all app s' ts }"

locale transfer_log =
  fixes H :: "fr \<Rightarrow> fr \<Rightarrow> fr" and sha :: "bytes \<Rightarrow> bytes" and height cap :: nat
    and inv :: "'s \<Rightarrow> transfer list \<Rightarrow> bool"
    and app :: "'s \<Rightarrow> address \<Rightarrow> u256 \<Rightarrow> 's option"
    and root_view :: "'s \<Rightarrow> fr option" and chain_view :: "'s \<Rightarrow> u256 option"
  assumes app_law: "inv s ts \<Longrightarrow> length ts < cap
      \<Longrightarrow> \<exists>s'. app s a v = Some s' \<and> inv s' (ts @ [(a, v)])"
    and root_law: "inv s ts \<Longrightarrow> root_view s = Some (node H (transfer_leaves H ts) height 0)"
    and chain_law: "inv s ts \<Longrightarrow> chain_view s = Some (chain_of sha ts)"
begin

lemma append_all_ok:
  assumes "inv s ts" "length ts + length us \<le> cap"
  shows "\<exists>s'. append_all app s us = Some s' \<and> inv s' (ts @ us)"
  using assms
proof (induction us arbitrary: s ts)
  case (Cons u us)
  obtain a v where u: "u = (a, v)"
    by (cases u)
  obtain s' where s': "app s a v = Some s'" "inv s' (ts @ [(a, v)])"
    using app_law [OF Cons.prems(1), of a v] Cons.prems(2) by auto
  then show ?case
    using Cons.IH [OF s'(2)] Cons.prems(2) u by simp
qed simp

end

text \<open>Two logs over the same hashes show the same root and chain after the same transfers.\<close>

locale log_pair =
  A: transfer_log H sha height capA invA appA rootA chainA +
  B: transfer_log H sha height capB invB appB rootB chainB
  for H sha height
    and capA and invA :: "'a \<Rightarrow> transfer list \<Rightarrow> bool" and appA rootA chainA
    and capB and invB :: "'b \<Rightarrow> transfer list \<Rightarrow> bool" and appB rootB chainB
begin

lemma same_view:
  assumes "invA s []" "invB r []" "length ts \<le> capA" "length ts \<le> capB"
  shows "\<exists>s' r'. append_all appA s ts = Some s' \<and> append_all appB r ts = Some r'
    \<and> invA s' ts \<and> invB r' ts \<and> rootA s' = rootB r' \<and> chainA s' = chainB r'"
  using A.append_all_ok [OF assms(1), of ts] B.append_all_ok [OF assms(2), of ts] assms(3,4)
    A.root_law B.root_law A.chain_law B.chain_law by fastforce

end

definition it_append ::
  "(fr \<Rightarrow> fr \<Rightarrow> fr) \<Rightarrow> (bytes \<Rightarrow> bytes) \<Rightarrow> incremental_tree \<Rightarrow> address \<Rightarrow> u256 \<Rightarrow> incremental_tree option" where
  "it_append H sha s a v = map_option snd (it_insert H sha s a v)"

interpretation memory_log: transfer_log H sha height "min (2 ^ height) (2 ^ 64)"
  "it_inv H sha height" "it_append H sha" it_get_root "\<lambda>s. Some (it_hash_chain s)" for H sha height
proof
  fix s ts a v
  assume inv: "it_inv H sha height s ts"
  show "\<exists>s'. it_append H sha s a v = Some s' \<and> it_inv H sha height s' (ts @ [(a, v)])"
    if "length ts < min (2 ^ height) (2 ^ 64)"
    using it_insert_ok [OF inv, of a v] that by (auto simp: it_append_def)
  show "it_get_root s = Some (node H (transfer_leaves H ts) height 0)"
    using inv by (simp add: it_inv_def it_get_root_def mt_get_root_ok)
  show "Some (it_hash_chain s) = Some (chain_of sha ts)"
    using inv by (simp add: it_inv_def)
qed

text \<open>The observers of the database tree that the indexer jobs use.\<close>

definition db_append ::
  "(fr \<Rightarrow> fr \<Rightarrow> fr) \<Rightarrow> (bytes \<Rightarrow> bytes) \<Rightarrow> db_tree \<Rightarrow> merkle_db \<Rightarrow> address \<Rightarrow> u256 \<Rightarrow> merkle_db option" where
  "db_append H sha t db a v = (case append_leaf H sha t db a v of Inr r \<Rightarrow> Some (snd r) | Inl _ \<Rightarrow> None)"

definition db_root_view :: "db_tree \<Rightarrow> merkle_db \<Rightarrow> fr option" where
  "db_root_view t db =
     (if latest_index t db = 0 then zero_root t
      else case root_at t db (latest_index t db) of Inr r \<Rightarrow> r | Inl _ \<Rightarrow> None)"

definition db_chain_view :: "db_tree \<Rightarrow> merkle_db \<Rightarrow> u256 option" where
  "db_chain_view t db =
     (if latest_index t db = 0 then Some 0
      else case hash_chain_at t db (latest_index t db) of Inr c \<Rightarrow> c | Inl _ \<Rightarrow> None)"

definition db_cap :: "db_tree \<Rightarrow> nat" where
  "db_cap t = min (2 ^ dt_height t) (2 ^ 63 - 1)"

definition db_log_inv ::
  "(fr \<Rightarrow> fr \<Rightarrow> fr) \<Rightarrow> (bytes \<Rightarrow> bytes) \<Rightarrow> db_tree \<Rightarrow> merkle_db \<Rightarrow> transfer list \<Rightarrow> bool" where
  "db_log_inv H sha t db ts \<longleftrightarrow> tree_ok H t \<and> db_inv H sha t db ts \<and> length ts \<le> 2 ^ dt_height t"

lemma zero_root_ok: "tree_ok H t \<Longrightarrow> zero_root t = Some (zero_hash H (dt_height t))"
  using zero_hashes_new [of H "dt_height t"]
  by (simp add: zero_root_def tree_ok_def compute_zero_hashes_def mt_new_def)

interpretation db_log: transfer_log H sha "dt_height t" "db_cap t"
  "db_log_inv H sha t" "db_append H sha t" "db_root_view t" "db_chain_view t" for H sha t
proof
  fix db ts a v
  assume "db_log_inv H sha t db ts"
  then have inv: "tree_ok H t" "db_inv H sha t db ts"
    by (simp_all add: db_log_inv_def)
  show "\<exists>db'. db_append H sha t db a v = Some db' \<and> db_log_inv H sha t db' (ts @ [(a, v)])"
    if "length ts < db_cap t"
    using append_leaf_result [OF inv(2,1), of a v] db_inv_appended [OF inv(2,1)] that inv(1)
    by (simp add: db_append_def db_cap_def db_log_inv_def)
  show "db_root_view t db = Some (node H (transfer_leaves H ts) (dt_height t) 0)"
    using latest_index_inv [OF inv(2)] root_at_inv(1) [OF inv(2), of "length ts"] zero_root_ok [OF inv(1)]
    by (cases "ts = []")
      (auto simp: db_root_view_def latest_index_def root_at_def transfer_leaves_Nil node_zero Suc_le_eq)
  show "db_chain_view t db = Some (chain_of sha ts)"
    using latest_index_inv [OF inv(2)] root_at_inv(2) [OF inv(2), of "length ts"]
    by (cases "ts = []")
      (auto simp: db_chain_view_def latest_index_def hash_chain_at_def Suc_le_eq)
qed

interpretation trees: log_pair H sha "dt_height t" "min (2 ^ dt_height t) (2 ^ 64)"
  "it_inv H sha (dt_height t)" "it_append H sha" it_get_root "\<lambda>s. Some (it_hash_chain s)"
  "db_cap t" "db_log_inv H sha t" "db_append H sha t" "db_root_view t" "db_chain_view t" for H sha t
  by unfold_locales

section \<open>Properties of the database tree\<close>

text \<open>A token registered in the database whose tables hold no row of it yet.\<close>

definition fresh_token :: "db_tree \<Rightarrow> merkle_db \<Rightarrow> bool" where
  "fresh_token t db \<longleftrightarrow> dt_token t \<in> set (token_ids db)
     \<and> (\<forall>k. merkle_nodes db (dt_token t, k) = None)
     \<and> (\<forall>r \<in> set (merkle_updates db). nu_token r \<noteq> dt_token t)
     \<and> (\<forall>r \<in> set (merkle_snapshots db). sn_token r \<noteq> dt_token t)"

lemma db_inv_fresh: "fresh_token t db \<Longrightarrow> db_inv H sha t db []"
  by (auto simp: fresh_token_def db_inv_def Let_def node_at_def transfer_leaves_Nil node_zero
      token_snapshots_def filter_empty_conv)

text \<open>
  \<^bold>\<open>C14\<close>. Refinement: from a fresh token, appending any list of transfers to the database
  tree succeeds and shows the same root and the same hash chain as inserting them into
  the in-memory incremental tree that the circuits are proved against.
\<close>

theorem db_tree_equals_memory_tree:
  assumes "tree_ok H t" "fresh_token t db" "length ts \<le> db_cap t"
  shows "\<exists>s db'. append_all (it_append H sha) (it_new H (dt_height t)) ts = Some s
    \<and> append_all (db_append H sha t) db ts = Some db'
    \<and> latest_index t db' = length ts
    \<and> db_root_view t db' = it_get_root s \<and> db_chain_view t db' = Some (it_hash_chain s)"
proof -
  have "dt_height t < 2 ^ 32"
    using assms(1) by (simp add: tree_ok_def)
  then have a: "it_inv H sha (dt_height t) (it_new H (dt_height t)) []"
    by (rule it_inv_new)
  have b: "db_log_inv H sha t db []"
    using assms(1) db_inv_fresh [OF assms(2)] by (simp add: db_log_inv_def)
  have c: "length ts \<le> min (2 ^ dt_height t) (2 ^ 64)"
    using assms(3) by (simp add: db_cap_def)
  from trees.same_view [OF a b c assms(3)] obtain s db' where
    "append_all (it_append H sha) (it_new H (dt_height t)) ts = Some s"
    "append_all (db_append H sha t) db ts = Some db'" "db_log_inv H sha t db' ts"
    "it_get_root s = db_root_view t db'" "Some (it_hash_chain s) = db_chain_view t db'"
    by blast
  then show ?thesis
    using latest_index_inv [of H sha t db' ts] by (auto simp: db_log_inv_def latest_index_def)
qed

definition sample_tree :: db_tree where
  "sample_tree = \<lparr>dt_token = 1, dt_height = 2, dt_zero_hashes = compute_zero_hashes toy_hash 2,
     dt_window = 2\<rparr>"

definition empty_db :: merkle_db where
  "empty_db = \<lparr>token_ids = [1], merkle_nodes = Map.empty, merkle_updates = [], merkle_snapshots = []\<rparr>"

lemma sample_tree_ok: "tree_ok toy_hash sample_tree" "fresh_token sample_tree empty_db"
  "dt_height sample_tree = 2" "dt_window sample_tree = 2" "db_cap sample_tree = 4"
  by (simp_all add: tree_ok_def fresh_token_def sample_tree_def empty_db_def db_cap_def)

theorem db_tree_equals_memory_tree_witness:
  "\<exists>s db'. append_all (it_append toy_hash const_sha) (it_new toy_hash (dt_height sample_tree))
        [(3, 10), (4, 20), (3, 5)] = Some s
    \<and> append_all (db_append toy_hash const_sha sample_tree) empty_db [(3, 10), (4, 20), (3, 5)] = Some db'
    \<and> latest_index sample_tree db' = length [(3 :: address, 10 :: u256), (4, 20), (3, 5)]
    \<and> db_root_view sample_tree db' = it_get_root s
    \<and> db_chain_view sample_tree db' = Some (it_hash_chain s)"
  by (rule db_tree_equals_memory_tree) (simp_all add: sample_tree_ok)

lemma check_leaf_indices_find:
  "check_leaf_indices target ls
     = (case find (\<lambda>l. target \<le> l) ls of Some l \<Rightarrow> Inl (LeafIndexOutOfBounds l target) | None \<Rightarrow> Inr ())"
  by (induction ls) auto

lemma prove_many_cases:
  assumes "db_inv H sha t db ts" "tree_ok H t" "length ts \<le> 2 ^ dt_height t"
  shows "prove_many t db target ls =
    (if ls = [] then Inr []
     else if target = 0 then Inl InvalidProofTargetZero
     else if ts = [] then Inl TreeEmpty
     else if length ts < target then Inl (TargetIndexTooHigh target (length ts))
     else if dt_window t < length ts - target then Inl (RetentionWindowExceeded target (dt_window t))
     else case find (\<lambda>l. target \<le> l) ls of
            Some l \<Rightarrow> Inl (LeafIndexOutOfBounds l target)
          | None \<Rightarrow> Inr (map (historical_of H sha (dt_height t) ts target) ls))"
proof (cases "ls = [] \<or> target = 0 \<or> ts = [] \<or> length ts < target \<or> dt_window t < length ts - target")
  case True
  then show ?thesis
    by (auto simp: prove_many_def Let_def latest_index_inv [OF assms(1)])
next
  case False
  show ?thesis
  proof (cases "find (\<lambda>l. target \<le> l) ls")
    case None
    then have "\<forall>l \<in> set ls. l < target"
      by (auto simp: find_None_iff)
    then show ?thesis
      using False None prove_many_ok [OF assms] by simp
  next
    case (Some l)
    then show ?thesis
      using False
      by (simp add: prove_many_def Let_def latest_index_inv [OF assms(1)] check_leaf_indices_find)
  qed
qed

text \<open>
  \<^bold>\<open>C19\<close>. The complete behaviour of a proof request in any state that appends can reach:
  the five documented refusals, in their order, and otherwise for every leaf the
  historical proof of the tree at the target index. No decoding error, missing
  snapshot or panic is possible; in particular the garbage collection of update rows
  keeps exactly enough history for the retention window.
\<close>

theorem prove_many_total:
  assumes "db_inv H sha t db ts" "tree_ok H t" "length ts \<le> 2 ^ dt_height t"
  shows "prove_many t db target ls =
    (if ls = [] then Inr []
     else if target = 0 then Inl InvalidProofTargetZero
     else if ts = [] then Inl TreeEmpty
     else if length ts < target then Inl (TargetIndexTooHigh target (length ts))
     else if dt_window t < length ts - target then Inl (RetentionWindowExceeded target (dt_window t))
     else case find (\<lambda>l. target \<le> l) ls of
            Some l \<Rightarrow> Inl (LeafIndexOutOfBounds l target)
          | None \<Rightarrow> Inr (map (historical_of H sha (dt_height t) ts target) ls))"
  using assms by (rule prove_many_cases)

theorem prove_many_total_witness:
  "prove_many sample_tree empty_db 3 [0, 1] = Inl TreeEmpty"
  using prove_many_total [OF db_inv_fresh, of sample_tree empty_db toy_hash 3 "[0, 1]"]
  by (simp add: sample_tree_ok)

text \<open>
  \<^bold>\<open>C10\<close>. After appending any transfers to a fresh token, a proof requested at any target
  index within the retention window and for any earlier leaf leads from that transfer's
  leaf hash to the root and hash chain that the in-memory tree has after exactly the
  first \<open>target\<close> transfers.
\<close>

theorem db_historical_proof_verifies:
  assumes "tree_ok H t" "fresh_token t db" "length ts \<le> db_cap t"
    and "target \<le> length ts" "length ts - target \<le> dt_window t" "l < target"
  shows "\<exists>db' p s. append_all (db_append H sha t) db ts = Some db'
    \<and> db_prove t db' target l = Inr p
    \<and> append_all (it_append H sha) (it_new H (dt_height t)) (take target ts) = Some s
    \<and> it_get_root s = Some (hp_root p) \<and> it_hash_chain s = hp_hash_chain p
    \<and> proof_get_root H (hp_proof p) (transfer_hash H (ts ! l)) (word_of_nat l) = Some (hp_root p)"
proof -
  let ?h = "dt_height t"
  have h32: "?h < 2 ^ 32"
    using assms(1) by (simp add: tree_ok_def)
  have "db_log_inv H sha t db []"
    using assms(1) db_inv_fresh [OF assms(2)] by (simp add: db_log_inv_def)
  from db_log.append_all_ok [OF this, of ts] assms(3) obtain db' where
    db': "append_all (db_append H sha t) db ts = Some db'" "db_log_inv H sha t db' ts"
    by auto
  obtain s where s: "append_all (it_append H sha) (it_new H ?h) (take target ts) = Some s"
      "it_inv H sha ?h s (take target ts)"
    using memory_log.append_all_ok [OF it_inv_new [OF h32], of "take target ts"] assms(3,4)
    by (auto simp: db_cap_def)
  have cap: "length ts \<le> 2 ^ ?h" "length ts < 2 ^ 63"
    using assms(3) by (auto simp: db_cap_def)
  have "prove_many t db' target [l] = Inr [historical_of H sha ?h ts target l]"
    using prove_many_ok [of H sha t db' ts target "[l]"] db'(2) assms(4-6) by (simp add: db_log_inv_def)
  then have p: "db_prove t db' target l = Inr (historical_of H sha ?h ts target l)"
    by (simp add: db_prove_def)
  have lt: "l < 2 ^ ?h" "l < 2 ^ 64"
    using assms(4,6) cap by auto
  have "transfer_leaves H (take target ts) l = transfer_hash H (ts ! l)"
    using assms(4,6) by (simp add: transfer_leaves_def)
  then have "proof_get_root H (hp_proof (historical_of H sha ?h ts target l)) (transfer_hash H (ts ! l))
      (word_of_nat l) = Some (hp_root (historical_of H sha ?h ts target l))"
    using node_path_root [OF lt(1), of H "transfer_leaves H (take target ts)"] h32 lt(2)
    by (simp add: historical_of_def proof_get_root_eq unat_word_of_nat)
  then show ?thesis
    using db'(1) p s memory_log.root_law [OF s(2)] by (auto simp: historical_of_def it_inv_def)
qed

theorem db_historical_proof_verifies_witness:
  "\<exists>db' p s. append_all (db_append toy_hash const_sha sample_tree) empty_db [(3, 10), (4, 20), (3, 5)] = Some db'
    \<and> db_prove sample_tree db' 2 1 = Inr p
    \<and> append_all (it_append toy_hash const_sha) (it_new toy_hash (dt_height sample_tree))
         (take 2 [(3, 10), (4, 20), (3, 5)]) = Some s
    \<and> it_get_root s = Some (hp_root p) \<and> it_hash_chain s = hp_hash_chain p
    \<and> proof_get_root toy_hash (hp_proof p)
        (transfer_hash toy_hash ([(3, 10), (4, 20), (3, 5)] ! 1)) (word_of_nat 1) = Some (hp_root p)"
  by (rule db_historical_proof_verifies) (simp_all add: sample_tree_ok)

text \<open>The tables of a token do not depend on what happens to the rows of other tokens.\<close>

lemma db_inv_cong:
  assumes "db_inv H sha t db us" "set (token_ids db) \<subseteq> set (token_ids db')"
    and "\<And>k. merkle_nodes db' (dt_token t, k) = merkle_nodes db (dt_token t, k)"
    and "\<And>r. nu_token r = dt_token t \<Longrightarrow> r \<in> set (merkle_updates db') \<longleftrightarrow> r \<in> set (merkle_updates db)"
    and "token_snapshots db' (dt_token t) = token_snapshots db (dt_token t)"
  shows "db_inv H sha t db' us"
proof -
  have rows: "(\<forall>r \<in> set (merkle_updates db'). nu_token r = dt_token t \<longrightarrow> P r)
        \<longleftrightarrow> (\<forall>r \<in> set (merkle_updates db). nu_token r = dt_token t \<longrightarrow> P r)"
      "(\<exists>r \<in> set (merkle_updates db'). nu_token r = dt_token t \<and> P r)
        \<longleftrightarrow> (\<exists>r \<in> set (merkle_updates db). nu_token r = dt_token t \<and> P r)" for P
    using assms(4) by blast+
  show ?thesis
    using assms(1,2) unfolding db_inv_def Let_def rows assms(3,5) by (simp only:) blast
qed

lemma appended_other_rows:
  assumes "tid \<noteq> dt_token t"
  shows "merkle_nodes (appended_db H sha t db ts x) (tid, k) = merkle_nodes db (tid, k)"
    and "nu_token r = tid \<Longrightarrow>
      r \<in> set (merkle_updates (appended_db H sha t db ts x)) \<longleftrightarrow> r \<in> set (merkle_updates db)"
    and "token_snapshots (appended_db H sha t db ts x) tid = token_snapshots db tid"
    and "token_ids (appended_db H sha t db ts x) = token_ids db"
  using assms
  by (auto simp: appended_simps update_rows_iff token_snapshots_def snapshot_of_def intro!: upsert_nodes_other)

lemma db_inv_other:
  assumes "db_inv H sha t' db us" "dt_token t' \<noteq> dt_token t"
  shows "db_inv H sha t' (appended_db H sha t db ts x) us"
  using assms(1) by (rule db_inv_cong) (simp_all add: appended_other_rows [OF assms(2)])

text \<open>
  Appends are confined to their token: an append to one token leaves every
  other token's tables, and with them its history, latest index and proofs, as they were.
\<close>

theorem append_leaf_isolated:
  assumes "append_leaf H sha t db a v = Inr (r, db')"
    and "db_inv H sha t db ts" "tree_ok H t" "length ts < db_cap t"
    and "db_inv H sha t' db us" "dt_token t' \<noteq> dt_token t"
  shows "db_inv H sha t' db' us \<and> db_inv H sha t db' (ts @ [(a, v)])"
proof -
  have n: "length ts < 2 ^ dt_height t" "Suc (length ts) < 2 ^ 63"
    using assms(4) by (simp_all add: db_cap_def)
  have "db' = appended_db H sha t db ts (a, v)"
    using assms(1) append_leaf_result [OF assms(2,3) n] by simp
  then show ?thesis
    using db_inv_appended [OF assms(2,3) n] db_inv_other [OF assms(5,6)] by simp
qed

definition second_tree :: db_tree where
  "second_tree = sample_tree\<lparr>dt_token := 2\<rparr>"

definition two_token_db :: merkle_db where
  "two_token_db = empty_db\<lparr>token_ids := [1, 2]\<rparr>"

theorem append_leaf_isolated_witness:
  "\<exists>r db'. append_leaf toy_hash const_sha sample_tree two_token_db 3 10 = Inr (r, db')
    \<and> db_inv toy_hash const_sha second_tree db' [] \<and> db_inv toy_hash const_sha sample_tree db' [(3, 10)]"
proof -
  have fresh: "fresh_token sample_tree two_token_db" "fresh_token second_tree two_token_db"
    by (simp_all add: fresh_token_def two_token_db_def second_tree_def sample_tree_def empty_db_def)
  obtain r db' where app: "append_leaf toy_hash const_sha sample_tree two_token_db 3 10 = Inr (r, db')"
    using append_leaf_result [OF db_inv_fresh [OF fresh(1)] sample_tree_ok(1)] by (simp add: sample_tree_ok)
  have "dt_token second_tree \<noteq> dt_token sample_tree"
    by (simp add: second_tree_def sample_tree_def)
  from append_leaf_isolated [OF app db_inv_fresh [OF fresh(1)] sample_tree_ok(1) _
      db_inv_fresh [OF fresh(2)] this] app show ?thesis
    by (simp add: sample_tree_ok)
qed

end
