(* ===== verification/Indexer_Jobs_Props.thy ===== *)
theory Indexer_Jobs_Props
  imports Indexer_Jobs Event_Indexer_Props Db_Tree_Proofs
begin

text \<open>
  The event job and the tree job together: after both have run over a list of tokens, the
  database tree of every token holds exactly the transfers of its contract, in order, and
  no job disturbs the tables of another token.
\<close>

section \<open>Decoding the rows\<close>

definition transfer_of :: "indexed_event \<Rightarrow> transfer" where
  "transfer_of e = (ev_to e, ev_amount e)"

lemma parse_address_bytes [simp, codec_simps]: "parse_address (address_bytes a) = Inr a"
  using nat_of_be_address [of a] by (simp add: parse_address_def address_bytes_def)

lemma parse_u256_bytes [simp, codec_simps]: "parse_u256 (u256_to_be_bytes v) = Inr v"
  using nat_of_be_u256 [of v] by (simp add: parse_u256_def u256_to_be_bytes_def)

lemma row_of_fields [simp]:
  "er_to (row_of e) = address_bytes (ev_to e)" "er_amount (row_of e) = u256_to_be_bytes (ev_amount e)"
  by (simp_all add: row_of_def)

lemma latest_tree_index_inv:
  assumes "db_inv H sha t db ts"
  shows "latest_tree_index db (dt_token t) = length ts"
proof -
  have "filter (\<lambda>r. sn_token r = dt_token t) (merkle_snapshots db) = map (snapshot_of H sha t ts) [1..<Suc (length ts)]"
    using assms by (simp add: db_inv_def Let_def token_snapshots_def)
  then have "map sn_index (filter (\<lambda>r. sn_token r = dt_token t) (merkle_snapshots db)) = map int [1..<Suc (length ts)]"
    by (simp add: snapshot_of_def comp_def)
  moreover have "foldr max (map int [1..<Suc n]) a = max (int n) a" if "0 \<le> a" for n a
    using that by (induction n arbitrary: a) auto
  ultimately show ?thesis
    by (simp add: latest_tree_index_def)
qed

section \<open>Fetching\<close>

lemma sorted_rows_ok:
  assumes chain: "chain_ok log d l" and rows: "rows_of_log log rows"
    and covered: "\<And>i. i < m \<Longrightarrow> row_of (log ! i) \<in> set rows" and m: "k < m" "m \<le> length log"
  shows "sort_key er_index (filter (\<lambda>r. int k \<le> er_index r \<and> er_index r \<le> int (m - 1)) rows)
    = map row_of (drop k (take m log))"
proof -
  let ?xs = "filter (\<lambda>r. int k \<le> er_index r \<and> er_index r \<le> int (m - 1)) rows"
  let ?ys = "map row_of (drop k (take m log))"
  have idx: "map er_index ?ys = map int [k..<m]"
    using m log_nth [OF chain] by (auto intro: nth_equalityI)
  have "set ?xs = set ?ys"
  proof
    show "set ?xs \<subseteq> set ?ys"
    proof
      fix r
      assume "r \<in> set ?xs"
      then have r: "r \<in> set rows" "int k \<le> er_index r" "er_index r \<le> int (m - 1)"
        by auto
      then obtain e where e: "e \<in> set log" "r = row_of e"
        using rows by (auto simp: rows_of_log_def)
      have "e = drop k (take m log) ! (ev_index e - k)" "ev_index e - k < length (drop k (take m log))"
        using e r m log_index [OF chain e(1)] by auto
      then show "r \<in> set ?ys"
        using e(2) by (metis image_eqI nth_mem set_map)
    qed
    show "set ?ys \<subseteq> set ?xs"
    proof
      fix r
      assume "r \<in> set ?ys"
      then obtain j where "j < m - k" "r = row_of (log ! (k + j))"
        using m by (auto simp: in_set_conv_nth)
      then show "r \<in> set ?xs"
        using covered [of "k + j"] log_nth [OF chain, of "k + j"] m by auto
    qed
  qed
  moreover have "sorted (map er_index ?ys)" "distinct (map er_index ?ys)"
    unfolding idx by (simp_all add: sorted_wrt_map distinct_map inj_on_def)
  moreover have "distinct (map er_index (sort_key er_index ?xs))"
    using rows distinct_map_filter [of er_index rows] by (simp add: rows_of_log_def distinct_map)
  ultimately show "sort_key er_index ?xs = ?ys"
    by (intro map_sorted_distinct_set_unique [of er_index]) (auto simp: distinct_map)
qed

lemma fetch_events_ok:
  assumes "chain_ok log d l" "rows_of_log log rows"
    and "\<And>i. i < m \<Longrightarrow> row_of (log ! i) \<in> set rows" and "k < m" "m \<le> length log"
  shows "fetch_events rows (int k) (int (m - 1)) limit = map row_of (take limit (drop k (take m log)))"
  using sorted_rows_ok [OF assms] by (simp add: fetch_events_def take_map)

section \<open>Ingesting\<close>

text \<open>\<open>others_kept tid m m'\<close>: the rows of all tokens but \<open>tid\<close> are the same in \<open>m\<close> and \<open>m'\<close>.\<close>

definition others_kept :: "int \<Rightarrow> merkle_db \<Rightarrow> merkle_db \<Rightarrow> bool" where
  "others_kept tid m m' \<longleftrightarrow> token_ids m' = token_ids m
     \<and> (\<forall>tid'. tid' \<noteq> tid \<longrightarrow> (\<forall>k. merkle_nodes m' (tid', k) = merkle_nodes m (tid', k))
          \<and> (\<forall>r. nu_token r = tid' \<longrightarrow> r \<in> set (merkle_updates m') \<longleftrightarrow> r \<in> set (merkle_updates m))
          \<and> token_snapshots m' tid' = token_snapshots m tid')"

lemma others_kept_refl [simp]: "others_kept tid m m"
  by (simp add: others_kept_def)

lemma others_kept_trans: "others_kept tid a b \<Longrightarrow> others_kept tid b c \<Longrightarrow> others_kept tid a c"
  by (simp add: others_kept_def)

lemma others_kept_appended: "others_kept (dt_token t) db (appended_db H sha t db ts x)"
  using appended_other_rows [of _ t] by (auto simp: others_kept_def appended_simps)

lemma others_kept_inv:
  "others_kept tid m m' \<Longrightarrow> dt_token t \<noteq> tid \<Longrightarrow> db_inv H sha t m us \<Longrightarrow> db_inv H sha t m' us"
  by (erule db_inv_cong) (auto simp: others_kept_def)

lemma ingest_batch_ok:
  assumes chain: "chain_ok log d l" and tree: "tree_ok H t"
    and "k + length es \<le> length log" "k + length es \<le> db_cap t" "es = take (length es) (drop k log)"
    and "db_inv H sha t db (map transfer_of (take k log))"
  shows "\<exists>db'. ingest_batch H sha t (map row_of es) k db = (Inr (Some (k + length es)), db')
    \<and> db_inv H sha t db' (map transfer_of (take (k + length es) log)) \<and> others_kept (dt_token t) db db'"
  using assms(3-6)
proof (induction es arbitrary: k db)
  case (Cons e es)
  have k: "k < length log" "k < db_cap t"
    using Cons.prems(1,2) by auto
  have drop: "drop k log = log ! k # drop (Suc k) log"
    using k by (simp add: Cons_nth_drop_Suc)
  have e: "e = log ! k" and es: "es = take (length es) (drop (Suc k) log)"
    using Cons.prems(3) unfolding drop by simp_all
  let ?ts = "map transfer_of (take k log)"
  have len: "length ?ts = k"
    using k by simp
  have snoc: "?ts @ [transfer_of e] = map transfer_of (take (Suc k) log)"
    using k e by (simp add: take_Suc_conv_app_nth)
  have n: "length ?ts < 2 ^ dt_height t" "Suc (length ?ts) < 2 ^ 63"
    using k len by (simp_all add: db_cap_def)
  let ?db = "appended_db H sha t db ?ts (transfer_of e)"
  have app: "\<exists>r. append_leaf H sha t db (ev_to e) (ev_amount e) = Inr (r, ?db) \<and> ar_index r = Suc k"
    using append_leaf_result [OF Cons.prems(4) tree n] len by (simp add: transfer_of_def)
  have "db_inv H sha t ?db (map transfer_of (take (Suc k) log))"
    using db_inv_appended [OF Cons.prems(4) tree n, of "transfer_of e"] unfolding snoc .
  then obtain db' where
    "ingest_batch H sha t (map row_of es) (Suc k) ?db = (Inr (Some (Suc k + length es)), db')"
    "db_inv H sha t db' (map transfer_of (take (Suc k + length es) log))" "others_kept (dt_token t) ?db db'"
    using Cons.IH [of "Suc k" ?db] Cons.prems(1,2) es by auto
  moreover have "ev_index e = k"
    using log_nth [OF chain k(1)] e by simp
  ultimately show ?case
    using app others_kept_trans [OF others_kept_appended [of t db H sha ?ts "transfer_of e"]]
    by (auto simp: Let_def)
qed simp

lemma ingest_events_ok:
  assumes chain: "chain_ok log d l" and tree: "tree_ok H t" and rows: "rows_of_log log rows"
    and covered: "\<And>i. i < m \<Longrightarrow> row_of (log ! i) \<in> set rows" and m: "m \<le> length log" "m \<le> db_cap t"
    and batch: "0 < batch_size" and "k \<le> m" "db_inv H sha t db (map transfer_of (take k log))"
  shows "\<exists>db'. ingest_events H sha t rows k m batch_size db = Some (Inr (), db')
    \<and> db_inv H sha t db' (map transfer_of (take m log)) \<and> others_kept (dt_token t) db db'"
  using assms(8,9)
proof (induction "m - k" arbitrary: k db rule: less_induct)
  case less
  show ?case
  proof (cases "k = m")
    case True
    then show ?thesis
      using less.prems by (subst ingest_events.simps) auto
  next
    case False
    with less.prems have k: "k < m"
      by simp
    let ?limit = "min (min (m - k) batch_size) (2 ^ 63 - 1)"
    let ?es = "take ?limit (drop k (take m log))"
    have len: "length ?es = ?limit"
      using m by simp
    have limit: "0 < ?limit" "k + ?limit \<le> m"
      using k batch by auto
    have slice: "?es = take (length ?es) (drop k log)"
      using limit m by (simp add: drop_take)
    have i64: "job_i64 lbl k = Inr (int k)" "job_i64 lbl (m - 1) = Inr (int (m - 1))" for lbl
      using k m(2) by (auto simp: job_i64_def db_cap_def)
    obtain db1 where db1: "ingest_batch H sha t (map row_of ?es) k db = (Inr (Some (k + ?limit)), db1)"
        "db_inv H sha t db1 (map transfer_of (take (k + ?limit) log))" "others_kept (dt_token t) db db1"
      using ingest_batch_ok [OF chain tree _ _ slice less.prems(2)] limit m unfolding len by auto
    have run: "ingest_events H sha t rows k m batch_size db = ingest_events H sha t rows (k + ?limit) m batch_size db1"
    proof -
      have "map row_of ?es \<noteq> []"
        using limit len by (metis list.size(3) map_is_Nil_conv not_less_zero)
      then show ?thesis
        using k i64 db1(1) fetch_events_ok [OF chain rows covered k m(1), of ?limit]
        by (subst ingest_events.simps)
          (simp only: Let_def sum.case prod.case option.case not_le [THEN iffD2] if_False)
    qed
    have "m - (k + ?limit) < m - k"
      using k limit by linarith
    from less.hyps [OF this limit(2) db1(2)] show ?thesis
      unfolding run using others_kept_trans [OF db1(3)] by blast
  qed
qed

section \<open>The registry\<close>

definition token_key :: "token_entry \<Rightarrow> address \<times> nat" where
  "token_key t = (te_token_address t, te_chain_id t)"

definition token_id_of :: "indexer_db \<Rightarrow> token_entry \<Rightarrow> int option" where
  "token_id_of db t =
     map_option tk_id (find_token (idb_tokens db) (address_bytes (te_token_address t)) (int (te_chain_id t)))"

definition empty_events :: event_db where
  "empty_events = \<lparr>event_rows = [], indexer_state = None\<rparr>"

definition untouched :: "int \<Rightarrow> merkle_db \<Rightarrow> bool" where
  "untouched tid m \<longleftrightarrow> (\<forall>k. merkle_nodes m (tid, k) = None)
     \<and> (\<forall>r \<in> set (merkle_updates m). nu_token r \<noteq> tid) \<and> token_snapshots m tid = []"

definition registry_ok :: "indexer_db \<Rightarrow> bool" where
  "registry_ok db \<longleftrightarrow> distinct (map tk_id (idb_tokens db)) \<and> 0 < idb_next_id db
     \<and> (\<forall>r \<in> set (idb_tokens db). 0 < tk_id r \<and> tk_id r < idb_next_id db)
     \<and> token_ids (idb_merkle db) = map tk_id (idb_tokens db)
     \<and> (\<forall>tid \<ge> idb_next_id db. idb_events db tid = empty_events \<and> untouched tid (idb_merkle db))"

lemma find_token_Some: "find_token rows a c = Some r \<Longrightarrow> r \<in> set rows \<and> tk_address r = a \<and> tk_chain r = c"
  unfolding find_token_def find_Some_iff by auto

lemma find_token_map:
  assumes "\<And>r. tk_address (f r) = tk_address r" "\<And>r. tk_chain (f r) = tk_chain r"
  shows "find_token (map f rows) a c = map_option f (find_token rows a c)"
  using assms by (induction rows) (auto simp: find_token_def)

lemma find_token_snoc:
  "find_token (rows @ [r]) a c =
     (case find_token rows a c of Some r' \<Rightarrow> Some r' | None \<Rightarrow> if tk_address r = a \<and> tk_chain r = c then Some r else None)"
  by (induction rows) (auto simp: find_token_def)

lemma token_id_of_tables [simp]:
  "token_id_of (db\<lparr>idb_events := es\<rparr>) t = token_id_of db t" "token_id_of (db\<lparr>idb_merkle := m\<rparr>) t = token_id_of db t"
  by (simp_all add: token_id_of_def)

lemma token_id_bounds:
  assumes "registry_ok db" "token_id_of db t = Some tid"
  shows "0 < tid" "tid < idb_next_id db" "tid \<in> set (token_ids (idb_merkle db))"
  using assms find_token_Some by (fastforce simp: registry_ok_def token_id_of_def)+

lemma token_id_inj:
  assumes "registry_ok db" "token_id_of db t = Some tid" "token_id_of db t' = Some tid"
  shows "token_key t = token_key t'"
proof -
  obtain r r' where r: "find_token (idb_tokens db) (address_bytes (te_token_address t)) (int (te_chain_id t)) = Some r"
      "find_token (idb_tokens db) (address_bytes (te_token_address t')) (int (te_chain_id t')) = Some r'"
      "tk_id r = tid" "tk_id r' = tid"
    using assms(2,3) by (auto simp: token_id_of_def)
  have "r = r'"
    using assms(1) find_token_Some [OF r(1)] find_token_Some [OF r(2)] r(3,4)
    by (auto simp: registry_ok_def distinct_map dest: inj_onD)
  then show ?thesis
    using find_token_Some [OF r(1)] find_token_Some [OF r(2)]
    by (simp add: token_key_def address_bytes_inject)
qed

text \<open>What registering a token does: it gets an id, everything else stays.\<close>

definition registers :: "token_entry \<Rightarrow> int \<Rightarrow> indexer_db \<Rightarrow> indexer_db \<Rightarrow> bool" where
  "registers t tid db db' \<longleftrightarrow> registry_ok db' \<and> token_id_of db' t = Some tid
     \<and> (\<forall>t'. token_key t' \<noteq> token_key t \<longrightarrow> token_id_of db' t' = token_id_of db t')
     \<and> (token_id_of db t = Some tid \<or> token_id_of db t = None \<and> tid = idb_next_id db)
     \<and> idb_events db' = idb_events db \<and> idb_leases db' = idb_leases db \<and> idb_next_id db \<le> idb_next_id db'
     \<and> (\<exists>ids. idb_merkle db' = (idb_merkle db)\<lparr>token_ids := token_ids (idb_merkle db) @ ids\<rparr>)"

lemma untouched_token_ids [simp]: "untouched tid (m\<lparr>token_ids := ids\<rparr>) = untouched tid m"
  by (simp add: untouched_def token_snapshots_def)

lemma registry_ok_fresh:
  assumes "registry_ok db" "tk_id r = idb_next_id db"
  shows "registry_ok (db\<lparr>idb_next_id := idb_next_id db + 1, idb_tokens := idb_tokens db @ [r],
    idb_merkle := (idb_merkle db)\<lparr>token_ids := token_ids (idb_merkle db) @ [idb_next_id db]\<rparr>\<rparr>)"
  using assms by (fastforce simp: registry_ok_def)

lemma registry_ok_update:
  assumes "registry_ok db" "\<And>r. tk_id (f r) = tk_id r"
  shows "registry_ok (db\<lparr>idb_next_id := idb_next_id db + 1, idb_tokens := map f (idb_tokens db)\<rparr>)"
  using assms by (fastforce simp: registry_ok_def comp_def)

lemma event_indexer_new_ok:
  assumes reg: "registry_ok db" and chain: "te_chain_id t < 2 ^ 63"
  shows "\<exists>tid db'. event_indexer_new (te_metadata t) db = (Inr tid, db') \<and> registers t tid db db'"
proof -
  let ?a = "address_bytes (te_token_address t)" and ?c = "int (te_chain_id t)"
  have c: "to_i64 (te_chain_id t) lbl = Inr ?c" for lbl
    using chain by (simp add: to_i64_def)
  have key: "address_bytes (te_token_address t') = ?a \<and> int (te_chain_id t') = ?c \<longleftrightarrow> token_key t' = token_key t" for t'
    by (auto simp: token_key_def address_bytes_inject)
  show ?thesis
  proof (cases "find_token (idb_tokens db) ?a ?c")
    case (Some r)
    let ?f = "\<lambda>r'. if tk_address r' = ?a \<and> tk_chain r' = ?c
      then r'\<lparr>tk_verifier := address_bytes (te_verifier_address t)\<rparr> else r'"
    let ?db = "db\<lparr>idb_next_id := idb_next_id db + 1, idb_tokens := map ?f (idb_tokens db)\<rparr>"
    have run: "ensure_token_record (te_metadata t) db = (Inr (tk_id r), ?db)"
      using Some by (simp add: ensure_token_record_def te_metadata_def c Let_def)
    have ids: "token_id_of ?db t' = token_id_of db t'" for t'
      unfolding token_id_of_def by (simp add: find_token_map option.map_comp comp_def) (simp add: comp_def if_distrib cong: if_cong)
    have tid: "token_id_of db t = Some (tk_id r)"
      using Some by (simp add: token_id_of_def)
    have "registers t (tk_id r) db ?db"
      using registry_ok_update [OF reg, of ?f] ids tid by (auto simp: registers_def intro!: exI [of _ "[]"])
    then show ?thesis
      using run token_id_bounds(1) [OF reg tid] by (simp add: event_indexer_new_def)
  next
    case None
    let ?r = "\<lparr>tk_id = idb_next_id db, tk_address = ?a, tk_verifier = address_bytes (te_verifier_address t), tk_chain = ?c\<rparr>"
    let ?db = "db\<lparr>idb_next_id := idb_next_id db + 1, idb_tokens := idb_tokens db @ [?r],
      idb_merkle := (idb_merkle db)\<lparr>token_ids := token_ids (idb_merkle db) @ [idb_next_id db]\<rparr>\<rparr>"
    have run: "ensure_token_record (te_metadata t) db = (Inr (idb_next_id db), ?db)"
      using None by (simp add: ensure_token_record_def te_metadata_def c Let_def)
    have "token_id_of ?db t' = token_id_of db t'" if "token_key t' \<noteq> token_key t" for t'
      using that key [of t'] by (auto simp: token_id_of_def find_token_snoc split: option.splits)
    moreover have "token_id_of ?db t = Some (idb_next_id db)" "token_id_of db t = None"
      using None by (simp_all add: token_id_of_def find_token_snoc)
    ultimately have "registers t (idb_next_id db) db ?db"
      using registry_ok_fresh [OF reg, of ?r] by (auto simp: registers_def)
    moreover have "0 < idb_next_id db"
      using reg by (simp add: registry_ok_def)
    ultimately show ?thesis
      using run by (simp add: event_indexer_new_def)
  qed
qed

text \<open>Ids are never taken away, and new tokens get new ids.\<close>

definition ids_follow :: "indexer_db \<Rightarrow> indexer_db \<Rightarrow> bool" where
  "ids_follow db db' \<longleftrightarrow> idb_next_id db \<le> idb_next_id db'
     \<and> (\<forall>t tid. token_id_of db t = Some tid \<longrightarrow> token_id_of db' t = Some tid)
     \<and> (\<forall>t tid. token_id_of db t = None \<and> token_id_of db' t = Some tid \<longrightarrow> idb_next_id db \<le> tid)"

lemma ids_follow_refl [simp]: "ids_follow db db"
  by (auto simp: ids_follow_def)

lemma ids_follow_tables [simp]:
  "ids_follow db (db'\<lparr>idb_events := es\<rparr>) = ids_follow db db'" "ids_follow db (db'\<lparr>idb_merkle := m\<rparr>) = ids_follow db db'"
  by (simp_all add: ids_follow_def)

lemma ids_follow_trans:
  assumes "ids_follow a b" "ids_follow b c"
  shows "ids_follow a c"
proof -
  have "idb_next_id a \<le> tid" if "token_id_of a t = None" "token_id_of c t = Some tid" for t tid
    using assms that by (cases "token_id_of b t") (fastforce simp: ids_follow_def)+
  then show ?thesis
    using assms by (auto simp: ids_follow_def)
qed

lemma registers_follow: "registers t tid db db' \<Longrightarrow> ids_follow db db'"
proof -
  assume r: "registers t tid db db'"
  have "token_id_of db' t' = token_id_of db t' \<or> (token_id_of db' t' = Some tid \<and> token_id_of db t' = token_id_of db t)" for t'
  proof (cases "token_key t' = token_key t")
    case True
    then have "token_id_of db t' = token_id_of db t" "token_id_of db' t' = token_id_of db' t"
      by (simp_all add: token_id_of_def token_key_def)
    then show ?thesis
      using r by (simp add: registers_def)
  next
    case False
    then show ?thesis
      using r by (simp add: registers_def)
  qed
  then show ?thesis
    using r unfolding ids_follow_def registers_def by (metis option.distinct(1) option.inject order_refl)
qed

section \<open>The invariant of the jobs\<close>

definition job_tree :: "(fr \<Rightarrow> fr \<Rightarrow> fr) \<Rightarrow> tree_job_config \<Rightarrow> int \<Rightarrow> db_tree" where
  "job_tree H cfg tid = \<lparr>dt_token = tid, dt_height = tj_height cfg,
     dt_zero_hashes = compute_zero_hashes H (tj_height cfg), dt_window = tj_history_window cfg\<rparr>"

lemma job_tree_simps [simp]:
  "dt_token (job_tree H cfg tid) = tid" "dt_height (job_tree H cfg tid) = tj_height cfg"
  "dt_window (job_tree H cfg tid) = tj_history_window cfg"
  by (simp_all add: job_tree_def)

definition tree_config_ok :: "tree_job_config \<Rightarrow> bool" where
  "tree_config_ok cfg \<longleftrightarrow> tree_config_ensure_valid cfg = Inr () \<and> tj_height cfg < 2 ^ 32"

lemma tree_config_okD:
  assumes "tree_config_ok cfg"
  shows "0 < tj_batch_size cfg" "tree_ok H (job_tree H cfg tid)"
    and "0 < tid \<Longrightarrow> tree_for_token H cfg tid = Inr (job_tree H cfg tid)"
  using assms
  by (auto simp: tree_config_ok_def tree_config_ensure_valid_def db_config_new_def tree_ok_def job_tree_def
      tree_for_token_def db_tree_new_def tree_partitions_new_def split: if_splits sum.splits)

definition covered_count :: "event_db \<Rightarrow> nat" where
  "covered_count edb = (case contiguous_event_index edb of None \<Rightarrow> 0 | Some i \<Rightarrow> i + 1)"

definition tree_holds ::
  "(fr \<Rightarrow> fr \<Rightarrow> fr) \<Rightarrow> (bytes \<Rightarrow> bytes) \<Rightarrow> tree_job_config \<Rightarrow> int \<Rightarrow> merkle_db \<Rightarrow> indexed_event list \<Rightarrow> bool" where
  "tree_holds H sha cfg tid m es \<longleftrightarrow> db_inv H sha (job_tree H cfg tid) m (map transfer_of es)"

definition token_inv ::
  "(fr \<Rightarrow> fr \<Rightarrow> fr) \<Rightarrow> (bytes \<Rightarrow> bytes) \<Rightarrow> tree_job_config \<Rightarrow> indexed_event list \<Rightarrow> int \<Rightarrow> indexer_db \<Rightarrow> bool" where
  "token_inv H sha cfg log tid db \<longleftrightarrow> events_inv log (idb_events db tid)
     \<and> (\<exists>n \<le> covered_count (idb_events db tid). tree_holds H sha cfg tid (idb_merkle db) (take n log))"

text \<open>
  The state between two runs of the jobs: a well-formed registry, no lease, and for every
  registered token consistent tables with the tree not ahead of the events.
\<close>

definition tables_inv ::
  "(fr \<Rightarrow> fr \<Rightarrow> fr) \<Rightarrow> (bytes \<Rightarrow> bytes) \<Rightarrow> tree_job_config \<Rightarrow> (token_entry \<Rightarrow> indexed_event list)
     \<Rightarrow> token_entry list \<Rightarrow> indexer_db \<Rightarrow> bool" where
  "tables_inv H sha cfg logs tokens db \<longleftrightarrow> registry_ok db
     \<and> (\<forall>t \<in> set tokens. \<forall>tid. token_id_of db t = Some tid \<longrightarrow> token_inv H sha cfg (logs t) tid db)"

definition indexer_inv ::
  "(fr \<Rightarrow> fr \<Rightarrow> fr) \<Rightarrow> (bytes \<Rightarrow> bytes) \<Rightarrow> tree_job_config \<Rightarrow> (token_entry \<Rightarrow> indexed_event list)
     \<Rightarrow> token_entry list \<Rightarrow> indexer_db \<Rightarrow> bool" where
  "indexer_inv H sha cfg logs tokens db \<longleftrightarrow> tables_inv H sha cfg logs tokens db \<and> idb_leases db = Map.empty"

lemma leases_irrelevant [simp]:
  "registry_ok (db\<lparr>idb_leases := ls\<rparr>) = registry_ok db"
  "token_id_of (db\<lparr>idb_leases := ls\<rparr>) t = token_id_of db t"
  "tables_inv H sha cfg logs tokens (db\<lparr>idb_leases := ls\<rparr>) = tables_inv H sha cfg logs tokens db"
  by (simp_all add: registry_ok_def token_id_of_def tables_inv_def token_inv_def)

lemma ids_follow_leases [simp]: "ids_follow db (db'\<lparr>idb_leases := ls\<rparr>) = ids_follow db db'"
  "ids_follow (db\<lparr>idb_leases := ls\<rparr>) db' = ids_follow db db'"
  by (simp_all add: ids_follow_def)

lemma events_inv_empty [simp]: "events_inv log empty_events"
  by (simp add: events_inv_def empty_events_def rows_of_log_def)

lemma covered_count_empty [simp]: "covered_count empty_events = 0"
  by (simp add: covered_count_def contiguous_event_index_def empty_events_def)

lemma covered_count_state:
  assumes "events_inv log edb" "indexer_state edb = Some st"
  shows "int (covered_count edb) = contiguous_index st + 1"
  using assms by (auto simp: covered_count_def contiguous_event_index_def events_inv_def state_ok_def)

lemma covered_count_le:
  assumes "events_inv log edb"
  shows "covered_count edb \<le> length log"
proof (cases "indexer_state edb")
  case None
  then show ?thesis
    by (simp add: covered_count_def contiguous_event_index_def)
next
  case (Some st)
  then show ?thesis
    using assms covered_count_state [OF assms Some] by (simp add: events_inv_def state_ok_def)
qed

lemma covered_rows:
  assumes "chain_ok log d l" "events_inv log edb" "i < covered_count edb"
  shows "row_of (log ! i) \<in> set (event_rows edb)"
proof -
  obtain st where st: "indexer_state edb = Some st"
    using assms(3) by (cases "indexer_state edb") (auto simp: covered_count_def contiguous_event_index_def)
  have i: "i < length log"
    using assms(3) covered_count_le [OF assms(2)] by simp
  have "int i \<le> contiguous_index st"
    using covered_count_state [OF assms(2) st] assms(3) by simp
  then show ?thesis
    using assms(2) st i log_nth [OF assms(1) i] by (simp add: events_inv_def state_ok_def)
qed

lemma tree_holds_fresh: "tid \<in> set (token_ids m) \<Longrightarrow> untouched tid m \<Longrightarrow> tree_holds H sha cfg tid m []"
  by (auto simp: tree_holds_def untouched_def fresh_token_def token_snapshots_def filter_empty_conv intro!: db_inv_fresh)

lemma tree_holds_more_ids:
  "tree_holds H sha cfg tid m es \<Longrightarrow> tree_holds H sha cfg tid (m\<lparr>token_ids := token_ids m @ ids\<rparr>) es"
  unfolding tree_holds_def by (erule db_inv_cong) (auto simp: token_snapshots_def)

lemma token_inv_registered:
  assumes "registry_ok db" "registers t tid db db'"
    and "\<And>tid. token_id_of db t = Some tid \<Longrightarrow> token_inv H sha cfg log tid db"
  shows "token_inv H sha cfg log tid db'"
proof (cases "token_id_of db t")
  case (Some i)
  with assms(2) have "i = tid"
    by (auto simp: registers_def)
  with assms Some show ?thesis
    using tree_holds_more_ids by (fastforce simp: token_inv_def registers_def)
next
  case None
  with assms(2) have tid: "tid = idb_next_id db"
    by (simp add: registers_def)
  then have "idb_events db' tid = empty_events" "untouched tid (idb_merkle db')"
    using assms(1,2) by (auto simp: registers_def registry_ok_def)
  moreover have "tid \<in> set (token_ids (idb_merkle db'))"
    using assms(2) token_id_bounds(3) [of db' t tid] by (simp add: registers_def)
  ultimately show ?thesis
    using tree_holds_fresh by (simp add: token_inv_def)
qed

lemma token_inv_other_registered:
  assumes "registers t tid db db'" "token_inv H sha cfg log tid' db"
  shows "token_inv H sha cfg log tid' db'"
  using assms tree_holds_more_ids by (fastforce simp: token_inv_def registers_def)

section \<open>A job over a list of tokens\<close>

text \<open>
  The contract of a job's \<open>process_token\<close>: it ends without an error, keeps the invariant,
  reaches the goal for its token and keeps what was reached for the others.
\<close>

locale token_job =
  fixes process :: "token_entry \<Rightarrow> indexer_db \<Rightarrow> job_result option"
    and tokens :: "token_entry list"
    and inv :: "indexer_db \<Rightarrow> bool"
    and goal :: "token_entry \<Rightarrow> indexer_db \<Rightarrow> bool"
  assumes process_law: "t \<in> set tokens \<Longrightarrow> inv db \<Longrightarrow>
    \<exists>db'. process t db = Some (Inr (), db') \<and> inv db' \<and> goal t db'
      \<and> (\<forall>t' \<in> set tokens. goal t' db \<longrightarrow> goal t' db')"
begin

lemma run_once_part:
  assumes "set ts \<subseteq> set tokens" "inv db"
  shows "\<exists>db'. run_once process ts db = Some db' \<and> inv db' \<and> (\<forall>t \<in> set ts. goal t db')
    \<and> (\<forall>t \<in> set tokens. goal t db \<longrightarrow> goal t db')"
  using assms
proof (induction ts arbitrary: db)
  case (Cons t ts)
  then obtain db1 where db1: "process t db = Some (Inr (), db1)" "inv db1" "goal t db1"
      "\<forall>t' \<in> set tokens. goal t' db \<longrightarrow> goal t' db1"
    using process_law [of t db] by auto
  from Cons.IH [OF _ db1(2)] Cons.prems(1) obtain db' where
    "run_once process ts db1 = Some db'" "inv db'" "\<forall>t \<in> set ts. goal t db'"
    "\<forall>t \<in> set tokens. goal t db1 \<longrightarrow> goal t db'"
    by auto
  then show ?case
    using db1 Cons.prems(1) by auto
qed simp

lemma run_once_ok:
  assumes "inv db"
  shows "\<exists>db'. run_once process tokens db = Some db' \<and> inv db' \<and> (\<forall>t \<in> set tokens. goal t db')"
  using run_once_part [OF subset_refl assms] by blast

end

lemma with_lease_free:
  assumes "idb_leases db = Map.empty"
    and "\<And>ls. \<exists>db'. work (db\<lparr>idb_leases := ls\<rparr>) = Some (r, db') \<and> idb_leases db' = ls \<and> P (db'\<lparr>idb_leases := Map.empty\<rparr>)"
  shows "\<exists>db'. with_lease now holder key work db = Some (r, db') \<and> idb_leases db' = Map.empty \<and> P db'"
proof -
  let ?ls = "[key \<mapsto> \<lparr>lr_holder = holder, lr_expires_at = now + LEASE_TTL\<rparr>]"
  obtain db' where "work (db\<lparr>idb_leases := ?ls\<rparr>) = Some (r, db')" "idb_leases db' = ?ls"
      "P (db'\<lparr>idb_leases := Map.empty\<rparr>)"
    using assms(2) [of ?ls] by blast
  then show ?thesis
    using assms(1) by (simp add: with_lease_def try_acquire_lock_def release_lease_def Let_def)
qed

section \<open>The event job\<close>

definition tokens_ok :: "token_entry list \<Rightarrow> bool" where
  "tokens_ok tokens \<longleftrightarrow> distinct (map token_key tokens) \<and> (\<forall>t \<in> set tokens. te_chain_id t < 2 ^ 63)"

lemma tokens_ok_inj: "tokens_ok tokens \<Longrightarrow> t \<in> set tokens \<Longrightarrow> t' \<in> set tokens \<Longrightarrow> token_key t = token_key t' \<Longrightarrow> t = t'"
  by (auto simp: tokens_ok_def distinct_map dest: inj_onD)

text \<open>The chain of every token, and a node that answers all calls about it.\<close>

definition event_world ::
  "(token_entry \<Rightarrow> token_chain) \<Rightarrow> (token_entry \<Rightarrow> indexed_event list) \<Rightarrow> (token_entry \<Rightarrow> nat) \<Rightarrow> indexer_config
     \<Rightarrow> token_entry list \<Rightarrow> bool" where
  "event_world chain logs latest cfg tokens \<longleftrightarrow> tokens_ok tokens
     \<and> 0 < block_span cfg \<and> forward_scan_overlap cfg < block_span cfg
     \<and> (\<forall>t \<in> set tokens. chain_ok (logs t) (te_deployed_block t) (latest t)
          \<and> tc_latest_block (chain t) = Inr (latest t) \<and> tc_index (chain t) = Inr (length (logs t))
          \<and> node_answers (tc_get_events (chain t)) (logs t))"

definition synced :: "(token_entry \<Rightarrow> indexed_event list) \<Rightarrow> token_entry \<Rightarrow> indexer_db \<Rightarrow> bool" where
  "synced logs t db \<longleftrightarrow>
     (\<exists>tid. token_id_of db t = Some tid \<and> covered_count (idb_events db tid) = length (logs t))"

lemma synced_leases [simp]: "synced logs t (db\<lparr>idb_leases := ls\<rparr>) = synced logs t db"
  by (simp add: synced_def)

lemma tables_inv_registered:
  assumes "tokens_ok tokens" "t \<in> set tokens" "tables_inv H sha cfg logs tokens db" "registers t tid db db'"
  shows "tables_inv H sha cfg logs tokens db'"
proof -
  have "token_inv H sha cfg (logs t') tid' db'" if t': "t' \<in> set tokens" "token_id_of db' t' = Some tid'" for t' tid'
  proof (cases "t' = t")
    case True
    then show ?thesis
      using t' assms token_inv_registered [OF _ assms(4)] by (auto simp: tables_inv_def registers_def)
  next
    case False
    then have "token_id_of db t' = Some tid'"
      using assms(4) t' tokens_ok_inj [OF assms(1) t'(1) assms(2)] by (metis registers_def)
    then show ?thesis
      using token_inv_other_registered [OF assms(4)] assms(3) t'(1) by (simp add: tables_inv_def)
  qed
  then show ?thesis
    using assms(4) by (simp add: tables_inv_def registers_def)
qed

lemma id_of_other:
  assumes "tokens_ok tokens" "registry_ok db" "t \<in> set tokens" "token_id_of db t = Some tid"
    and "t' \<in> set tokens" "token_id_of db t' = Some tid'" "t' \<noteq> t"
  shows "tid' \<noteq> tid"
  using token_id_inj [OF assms(2,4)] tokens_ok_inj [OF assms(1,3,5)] assms(6,7) by blast

lemma tables_inv_set_events:
  assumes tok: "tokens_ok tokens" "t \<in> set tokens" "tables_inv H sha cfg logs tokens db"
    and tid: "token_id_of db t = Some tid"
    and edb: "events_inv (logs t) edb" "covered_count (idb_events db tid) \<le> covered_count edb"
  shows "tables_inv H sha cfg logs tokens (db\<lparr>idb_events := (idb_events db)(tid := edb)\<rparr>)"
proof -
  let ?db = "db\<lparr>idb_events := (idb_events db)(tid := edb)\<rparr>"
  have reg: "registry_ok db"
    using tok(3) by (simp add: tables_inv_def)
  have "token_inv H sha cfg (logs t') tid' ?db" if t': "t' \<in> set tokens" "token_id_of db t' = Some tid'" for t' tid'
  proof (cases "t' = t")
    case True
    obtain n where n: "n \<le> covered_count (idb_events db tid)"
        "tree_holds H sha cfg tid (idb_merkle db) (take n (logs t))"
      using tok(2,3) tid unfolding tables_inv_def token_inv_def by blast
    have "tid' = tid"
      using True tid t'(2) by simp
    with True edb le_trans [OF n(1) edb(2)] n(2) show ?thesis
      by (auto simp: token_inv_def)
  next
    case False
    then show ?thesis
      using tok(3) t' id_of_other [OF tok(1) reg tok(2) tid t' False] by (auto simp: tables_inv_def token_inv_def)
  qed
  moreover have "registry_ok ?db"
    using reg token_id_bounds(2) [OF reg tid] by (simp add: registry_ok_def)
  ultimately show ?thesis
    by (simp add: tables_inv_def)
qed

lemma synced_set_events:
  assumes "tokens_ok tokens" "registry_ok db'" "t \<in> set tokens" "registers t tid db db'"
    and "covered_count edb = length (logs t)" "t' \<in> set tokens" "t' = t \<or> synced logs t' db"
  shows "synced logs t' (db'\<lparr>idb_events := (idb_events db')(tid := edb)\<rparr>)"
proof (cases "t' = t")
  case True
  then show ?thesis
    using assms(4,5) by (auto simp: synced_def registers_def)
next
  case False
  with assms(7) obtain tid' where tid': "token_id_of db t' = Some tid'" "covered_count (idb_events db tid') = length (logs t')"
    by (auto simp: synced_def)
  have "token_id_of db' t' = Some tid'"
    using tid'(1) assms(4) tokens_ok_inj [OF assms(1,6,3)] False by (metis registers_def)
  moreover from this have "tid' \<noteq> tid"
    using id_of_other [OF assms(1,2,3) _ assms(6) _ False] assms(4) by (auto simp: registers_def)
  ultimately show ?thesis
    using tid'(2) assms(4) by (auto simp: synced_def registers_def)
qed

lemma sync_token_ok:
  assumes world: "event_world chain logs latest ecfg tokens" and t: "t \<in> set tokens"
    and inv: "tables_inv H sha cfg logs tokens db"
  shows "\<exists>db'. sync_token chain ecfg t db = Some (Inr (), db') \<and> idb_leases db' = idb_leases db
    \<and> tables_inv H sha cfg logs tokens db' \<and> ids_follow db db' \<and> synced logs t db'
    \<and> (\<forall>t' \<in> set tokens. synced logs t' db \<longrightarrow> synced logs t' db')"
proof -
  have tok: "tokens_ok tokens" and reg: "registry_ok db"
    using world inv by (simp_all add: event_world_def tables_inv_def)
  obtain tid db1 where new: "event_indexer_new (te_metadata t) db = (Inr tid, db1)" and r: "registers t tid db db1"
    using event_indexer_new_ok [OF reg, of t] tok t by (auto simp: tokens_ok_def)
  have inv1: "tables_inv H sha cfg logs tokens db1" and reg1: "registry_ok db1" and id1: "token_id_of db1 t = Some tid"
    using tables_inv_registered [OF tok t inv r] r by (simp_all add: registers_def)
  then have ev1: "events_inv (logs t) (idb_events db1 tid)"
    using t by (simp add: tables_inv_def token_inv_def)
  have w: "chain_ok (logs t) (te_deployed_block t) (latest t)" "node_answers (tc_get_events (chain t)) (logs t)"
      "0 < block_span ecfg" "forward_scan_overlap ecfg < block_span ecfg"
      "tc_latest_block (chain t) = Inr (latest t)" "tc_index (chain t) = Inr (length (logs t))"
    using world t by (simp_all add: event_world_def)
  obtain edb row where sync: "event_sync (tc_get_events (chain t)) (Inr (latest t)) (Inr (length (logs t))) ecfg
        (te_deployed_block t) (idb_events db1 tid) = Some (None, edb)"
      "events_inv (logs t) edb" "indexer_state edb = Some row" "contiguous_index row = int (length (logs t)) - 1"
    using event_sync_ok [OF w(1-4) ev1] by blast
  have cov: "covered_count edb = length (logs t)"
    using covered_count_state [OF sync(2,3)] sync(4) by simp
  let ?db = "db1\<lparr>idb_events := (idb_events db1)(tid := edb)\<rparr>"
  have "sync_token chain ecfg t db = Some (Inr (), ?db)"
    using new sync(1) w(5,6) by (simp add: sync_token_def)
  moreover have "tables_inv H sha cfg logs tokens ?db"
    using tables_inv_set_events [OF tok t inv1 id1 sync(2)] covered_count_le [OF ev1] cov by simp
  moreover have "idb_leases ?db = idb_leases db"
    using r by (simp add: registers_def)
  moreover have "ids_follow db ?db"
    using registers_follow [OF r] by simp
  ultimately show ?thesis
    using synced_set_events [where logs = logs, OF tok reg1 t r cov] t by blast
qed

interpretation event_job: token_job "event_process_token hasher chain now holder ecfg" tokens
  "\<lambda>db. event_world chain logs latest ecfg tokens \<and> indexer_inv H sha cfg logs tokens db \<and> ids_follow db0 db" "synced logs"
  for hasher chain now holder ecfg tokens logs latest H sha cfg db0
proof
  fix t db
  assume t: "t \<in> set tokens"
    and inv: "event_world chain logs latest ecfg tokens \<and> indexer_inv H sha cfg logs tokens db \<and> ids_follow db0 db"
  let ?Q = "\<lambda>db'. tables_inv H sha cfg logs tokens db' \<and> ids_follow db db' \<and> synced logs t db'
    \<and> (\<forall>t' \<in> set tokens. synced logs t' db \<longrightarrow> synced logs t' db')"
  have work: "\<exists>db'. sync_token chain ecfg t (db\<lparr>idb_leases := ls\<rparr>) = Some (Inr (), db') \<and> idb_leases db' = ls
      \<and> ?Q (db'\<lparr>idb_leases := Map.empty\<rparr>)" for ls
    using sync_token_ok [of chain logs latest ecfg tokens t H sha cfg "db\<lparr>idb_leases := ls\<rparr>"] t inv
    by (simp add: indexer_inv_def)
  have free: "idb_leases db = Map.empty"
    using inv by (simp add: indexer_inv_def)
  from with_lease_free [OF free, of "sync_token chain ecfg t" "Inr ()" ?Q, OF work]
  show "\<exists>db'. event_process_token hasher chain now holder ecfg t db = Some (Inr (), db')
      \<and> (event_world chain logs latest ecfg tokens \<and> indexer_inv H sha cfg logs tokens db' \<and> ids_follow db0 db')
      \<and> synced logs t db' \<and> (\<forall>t' \<in> set tokens. synced logs t' db \<longrightarrow> synced logs t' db')"
    using inv ids_follow_trans [of db0 db] unfolding event_process_token_def indexer_inv_def by blast
qed

section \<open>The tree job\<close>

definition tree_world :: "(token_entry \<Rightarrow> indexed_event list) \<Rightarrow> (token_entry \<Rightarrow> nat) \<Rightarrow> tree_job_config \<Rightarrow> token_entry list \<Rightarrow> bool" where
  "tree_world logs latest cfg tokens \<longleftrightarrow> tokens_ok tokens \<and> tree_config_ok cfg
     \<and> (\<forall>t \<in> set tokens. chain_ok (logs t) (te_deployed_block t) (latest t)
          \<and> length (logs t) \<le> min (2 ^ tj_height cfg) (2 ^ 63 - 1))"

text \<open>The tree of a token holds the transfers of all its contiguous events.\<close>

definition caught_up ::
  "(fr \<Rightarrow> fr \<Rightarrow> fr) \<Rightarrow> (bytes \<Rightarrow> bytes) \<Rightarrow> tree_job_config \<Rightarrow> (token_entry \<Rightarrow> indexed_event list) \<Rightarrow> token_entry
     \<Rightarrow> indexer_db \<Rightarrow> bool" where
  "caught_up H sha cfg logs t db \<longleftrightarrow>
     (\<forall>tid. token_id_of db t = Some tid \<longrightarrow>
        tree_holds H sha cfg tid (idb_merkle db) (take (covered_count (idb_events db tid)) (logs t)))"

lemma caught_up_leases [simp]: "caught_up H sha cfg logs t (db\<lparr>idb_leases := ls\<rparr>) = caught_up H sha cfg logs t db"
  by (simp add: caught_up_def)

lemma untouched_kept: "others_kept tid m m' \<Longrightarrow> tid' \<noteq> tid \<Longrightarrow> untouched tid' m \<Longrightarrow> untouched tid' m'"
  by (auto simp: others_kept_def untouched_def)

lemma tree_holds_kept:
  "others_kept tid m m' \<Longrightarrow> tid' \<noteq> tid \<Longrightarrow> tree_holds H sha cfg tid' m es \<Longrightarrow> tree_holds H sha cfg tid' m' es"
  unfolding tree_holds_def by (rule others_kept_inv) auto

lemma tables_inv_set_merkle:
  assumes tok: "tokens_ok tokens" "t \<in> set tokens" "tables_inv H sha cfg logs tokens db"
    and tid: "token_id_of db t = Some tid" and kept: "others_kept tid (idb_merkle db) m"
    and holds: "tree_holds H sha cfg tid m (take (covered_count (idb_events db tid)) (logs t))"
  shows "tables_inv H sha cfg logs tokens (db\<lparr>idb_merkle := m\<rparr>)"
    and "\<forall>t' \<in> set tokens. t' = t \<or> caught_up H sha cfg logs t' db
      \<longrightarrow> caught_up H sha cfg logs t' (db\<lparr>idb_merkle := m\<rparr>)"
proof -
  let ?db = "db\<lparr>idb_merkle := m\<rparr>"
  have reg: "registry_ok db"
    using tok(3) by (simp add: tables_inv_def)
  note other = id_of_other [OF tok(1) reg tok(2) tid]
  have "token_inv H sha cfg (logs t') tid' ?db" if t': "t' \<in> set tokens" "token_id_of db t' = Some tid'" for t' tid'
  proof (cases "t' = t")
    case True
    then have "tid' = tid"
      using tid t'(2) by simp
    with True holds show ?thesis
      using tok(3) tid t'(1) by (auto simp: tables_inv_def token_inv_def)
  next
    case False
    then show ?thesis
      using tok(3) t' tree_holds_kept [OF kept other [OF t' False]] by (fastforce simp: tables_inv_def token_inv_def)
  qed
  moreover have "registry_ok ?db"
    using reg kept token_id_bounds(2) [OF reg tid] untouched_kept [OF kept]
    by (auto simp: registry_ok_def others_kept_def)
  ultimately show "tables_inv H sha cfg logs tokens ?db"
    by (simp add: tables_inv_def)
  show "\<forall>t' \<in> set tokens. t' = t \<or> caught_up H sha cfg logs t' db \<longrightarrow> caught_up H sha cfg logs t' ?db"
    using holds tid tree_holds_kept [OF kept] other by (fastforce simp: caught_up_def)
qed

lemma ingest_token_ok:
  assumes world: "tree_world logs latest cfg tokens" and t: "t \<in> set tokens"
    and inv: "tables_inv H sha cfg logs tokens db"
  shows "\<exists>m. ingest_token H sha cfg t db = Some (Inr (), db\<lparr>idb_merkle := m\<rparr>)
    \<and> tables_inv H sha cfg logs tokens (db\<lparr>idb_merkle := m\<rparr>)
    \<and> (\<forall>t' \<in> set tokens. t' = t \<or> caught_up H sha cfg logs t' db
        \<longrightarrow> caught_up H sha cfg logs t' (db\<lparr>idb_merkle := m\<rparr>))"
proof -
  have tok: "tokens_ok tokens" and cfg: "tree_config_ok cfg" and reg: "registry_ok db"
    using world inv by (simp_all add: tree_world_def tables_inv_def)
  have ch: "job_i64 lbl (te_chain_id t) = Inr (int (te_chain_id t))" for lbl
    using tok t by (simp add: tokens_ok_def job_i64_def)
  show ?thesis
  proof (cases "token_id_of db t")
    case None
    then have "ingest_token H sha cfg t db = Some (Inr (), db\<lparr>idb_merkle := idb_merkle db\<rparr>)"
      by (simp add: ingest_token_def ch token_id_of_def)
    with None inv show ?thesis
      by (intro exI [of _ "idb_merkle db"]) (auto simp: caught_up_def)
  next
    case (Some tid)
    then obtain row where row: "find_token (idb_tokens db) (address_bytes (te_token_address t)) (int (te_chain_id t)) = Some row"
        "tk_id row = tid"
      by (auto simp: token_id_of_def)
    let ?t = "job_tree H cfg tid" and ?edb = "idb_events db tid"
    obtain n where n: "events_inv (logs t) ?edb" "n \<le> covered_count ?edb"
        "db_inv H sha ?t (idb_merkle db) (map transfer_of (take n (logs t)))"
      using inv t Some by (auto simp: tables_inv_def token_inv_def tree_holds_def)
    have w: "chain_ok (logs t) (te_deployed_block t) (latest t)" "length (logs t) \<le> db_cap ?t"
      using world t by (simp_all add: tree_world_def db_cap_def)
    have cov: "covered_count ?edb \<le> length (logs t)" "covered_count ?edb \<le> db_cap ?t"
      using covered_count_le [OF n(1)] w(2) by simp_all
    have rows: "rows_of_log (logs t) (event_rows ?edb)"
      using n(1) by (simp add: events_inv_def)
    obtain m where m: "ingest_events H sha ?t (event_rows ?edb) n (covered_count ?edb) (tj_batch_size cfg) (idb_merkle db)
          = Some (Inr (), m)"
        "db_inv H sha ?t m (map transfer_of (take (covered_count ?edb) (logs t)))" "others_kept tid (idb_merkle db) m"
      using ingest_events_ok [OF w(1) tree_config_okD(2) [OF cfg] rows covered_rows [OF w(1) n(1)] cov
          tree_config_okD(1) [OF cfg] n(2,3)] by auto
    have idx: "latest_tree_index (idb_merkle db) tid = n"
      using latest_tree_index_inv [OF n(3)] n(2) cov(1) by simp
    have "ingest_token H sha cfg t db = Some (Inr (), db\<lparr>idb_merkle := m\<rparr>)"
    proof (cases "n = covered_count ?edb")
      case True
      with m(1) have "m = idb_merkle db"
        by (subst (asm) ingest_events.simps) simp
      then show ?thesis
        using True row idx tree_config_okD(3) [OF cfg token_id_bounds(1) [OF reg Some]]
        by (simp add: ingest_token_def ch flip: covered_count_def)
    next
      case False
      with n(2) have "\<not> (covered_count ?edb < n \<or> n = covered_count ?edb)"
        by simp
      then show ?thesis
        using row idx m(1) tree_config_okD(3) [OF cfg token_id_bounds(1) [OF reg Some]]
        by (simp add: ingest_token_def ch Let_def flip: covered_count_def)
    qed
    then show ?thesis
      using tables_inv_set_merkle [OF tok t inv Some m(3)] m(2) unfolding tree_holds_def by blast
  qed
qed

interpretation tree_job: token_job "tree_process_token H sha hasher now holder cfg" tokens
  "\<lambda>db. tree_world logs latest cfg tokens \<and> indexer_inv H sha cfg logs tokens db \<and> (\<forall>t \<in> set tokens. P t \<longrightarrow> synced logs t db)
    \<and> ids_follow db0 db"
  "caught_up H sha cfg logs"
  for H sha hasher now holder cfg tokens logs latest P db0
proof
  fix t db
  assume t: "t \<in> set tokens"
    and inv: "tree_world logs latest cfg tokens \<and> indexer_inv H sha cfg logs tokens db
      \<and> (\<forall>t \<in> set tokens. P t \<longrightarrow> synced logs t db) \<and> ids_follow db0 db"
  let ?Q = "\<lambda>db'. tables_inv H sha cfg logs tokens db' \<and> (\<forall>t \<in> set tokens. P t \<longrightarrow> synced logs t db')
    \<and> ids_follow db db' \<and> caught_up H sha cfg logs t db'
    \<and> (\<forall>t' \<in> set tokens. caught_up H sha cfg logs t' db \<longrightarrow> caught_up H sha cfg logs t' db')"
  have work: "\<exists>db'. ingest_token H sha cfg t (db\<lparr>idb_leases := ls\<rparr>) = Some (Inr (), db') \<and> idb_leases db' = ls
      \<and> ?Q (db'\<lparr>idb_leases := Map.empty\<rparr>)" for ls
  proof -
    let ?db = "db\<lparr>idb_leases := ls\<rparr>"
    obtain m where m: "ingest_token H sha cfg t ?db = Some (Inr (), ?db\<lparr>idb_merkle := m\<rparr>)"
        "tables_inv H sha cfg logs tokens (?db\<lparr>idb_merkle := m\<rparr>)"
        "\<forall>t' \<in> set tokens. t' = t \<or> caught_up H sha cfg logs t' ?db \<longrightarrow> caught_up H sha cfg logs t' (?db\<lparr>idb_merkle := m\<rparr>)"
      using ingest_token_ok [of logs latest cfg tokens t H sha ?db] inv t by (auto simp: indexer_inv_def)
    have swap: "?db\<lparr>idb_merkle := m\<rparr> = db\<lparr>idb_merkle := m\<rparr>\<lparr>idb_leases := ls\<rparr>"
      by simp
    have "synced logs t' (db\<lparr>idb_merkle := m\<rparr>)" if "t' \<in> set tokens" "P t'" for t'
      using inv that by (simp add: synced_def)
    then have "?Q (db\<lparr>idb_merkle := m\<rparr>\<lparr>idb_leases := Map.empty\<rparr>)"
      using m(2,3) t unfolding swap leases_irrelevant caught_up_leases synced_leases ids_follow_leases ids_follow_tables
      using ids_follow_refl by blast
    then show ?thesis
      using m(1) by (intro exI [of _ "?db\<lparr>idb_merkle := m\<rparr>"]) simp
  qed
  have free: "idb_leases db = Map.empty"
    using inv by (simp add: indexer_inv_def)
  from with_lease_free [OF free, of "ingest_token H sha cfg t" "Inr ()" ?Q, OF work]
  show "\<exists>db'. tree_process_token H sha hasher now holder cfg t db = Some (Inr (), db')
      \<and> (tree_world logs latest cfg tokens \<and> indexer_inv H sha cfg logs tokens db'
        \<and> (\<forall>t \<in> set tokens. P t \<longrightarrow> synced logs t db') \<and> ids_follow db0 db')
      \<and> caught_up H sha cfg logs t db'
      \<and> (\<forall>t' \<in> set tokens. caught_up H sha cfg logs t' db \<longrightarrow> caught_up H sha cfg logs t' db')"
    using inv ids_follow_trans [of db0 db] unfolding tree_process_token_def indexer_inv_def by blast
qed

section \<open>A growing chain\<close>

lemma events_inv_extend:
  assumes "chain_ok (log @ rest) d l" "events_inv log edb"
  shows "events_inv (log @ rest) edb"
proof -
  have "state_ok (log @ rest) rows st" if "state_ok log rows st" for rows st
  proof -
    have "e \<in> set log" if "e \<in> set (log @ rest)" "int (ev_index e) \<le> contiguous_index st" for e
    proof -
      have "ev_index e < length log"
        using that(2) \<open>state_ok log rows st\<close> by (simp add: state_ok_def)
      then show ?thesis
        using log_index(2) [OF assms(1) that(1)] by (metis nth_append nth_mem)
    qed
    then show ?thesis
      using that by (auto simp: state_ok_def nth_append)
  qed
  then show ?thesis
    using assms(2) by (auto simp: events_inv_def rows_of_log_def split: option.splits)
qed

lemma indexer_inv_extend:
  assumes "\<And>t. t \<in> set tokens \<Longrightarrow> \<exists>rest d l. logs' t = logs t @ rest \<and> chain_ok (logs' t) d l"
    and "indexer_inv H sha cfg logs tokens db"
  shows "indexer_inv H sha cfg logs' tokens db"
proof -
  have "token_inv H sha cfg (logs' t) tid db" if t: "t \<in> set tokens" and tid: "token_inv H sha cfg (logs t) tid db" for t tid
  proof -
    obtain rest d l where rest: "logs' t = logs t @ rest" "chain_ok (logs t @ rest) d l"
      using assms(1) [OF t] by metis
    obtain n where n: "events_inv (logs t) (idb_events db tid)" "n \<le> covered_count (idb_events db tid)"
        "tree_holds H sha cfg tid (idb_merkle db) (take n (logs t))"
      using tid by (auto simp: token_inv_def)
    have "take n (logs' t) = take n (logs t)"
      using covered_count_le [OF n(1)] n(2) rest(1) by simp
    then show ?thesis
      using n events_inv_extend [OF rest(2) n(1)] rest(1) by (auto simp: token_inv_def)
  qed
  then show ?thesis
    using assms(2) by (simp add: indexer_inv_def tables_inv_def)
qed

section \<open>The properties\<close>

text \<open>The observers of a token's tree agree with an in-memory tree of the given transfers.\<close>

definition shows_tree ::
  "(fr \<Rightarrow> fr \<Rightarrow> fr) \<Rightarrow> (bytes \<Rightarrow> bytes) \<Rightarrow> tree_job_config \<Rightarrow> indexer_db \<Rightarrow> token_entry \<Rightarrow> transfer list \<Rightarrow> bool" where
  "shows_tree H sha cfg db t ts \<longleftrightarrow>
     (\<exists>tid s. token_id_of db t = Some tid
        \<and> append_all (it_append H sha) (it_new H (tj_height cfg)) ts = Some s
        \<and> latest_index (job_tree H cfg tid) (idb_merkle db) = length ts
        \<and> db_root_view (job_tree H cfg tid) (idb_merkle db) = it_get_root s
        \<and> db_chain_view (job_tree H cfg tid) (idb_merkle db) = Some (it_hash_chain s))"

lemma shows_treeI:
  assumes "tree_config_ok cfg" "token_id_of db t = Some tid" "tree_holds H sha cfg tid (idb_merkle db) es"
    and "length es \<le> min (2 ^ tj_height cfg) (2 ^ 63 - 1)"
  shows "shows_tree H sha cfg db t (map transfer_of es)"
proof -
  let ?t = "job_tree H cfg tid" and ?ts = "map transfer_of es"
  have tree: "tree_ok H ?t"
    by (rule tree_config_okD(2) [OF assms(1)])
  have inv: "db_log_inv H sha ?t (idb_merkle db) ?ts"
    using assms(3,4) tree by (simp add: tree_holds_def db_log_inv_def)
  have "tj_height cfg < 2 ^ 32"
    using assms(1) by (simp add: tree_config_ok_def)
  then obtain s where s: "append_all (it_append H sha) (it_new H (tj_height cfg)) ?ts = Some s"
      "it_inv H sha (tj_height cfg) s ?ts"
    using memory_log.append_all_ok [OF it_inv_new, of "tj_height cfg" ?ts] assms(4) by auto
  show ?thesis
    using assms(2,3) s db_log.root_law [OF inv] db_log.chain_law [OF inv] memory_log.root_law [OF s(2)]
      memory_log.chain_law [OF s(2)] latest_index_inv [of H sha ?t]
    by (auto simp: shows_tree_def tree_holds_def latest_index_def)
qed

text \<open>What the jobs reach for a token: all its events, and a tree over all its transfers.\<close>

definition token_complete ::
  "(fr \<Rightarrow> fr \<Rightarrow> fr) \<Rightarrow> (bytes \<Rightarrow> bytes) \<Rightarrow> tree_job_config \<Rightarrow> (token_entry \<Rightarrow> indexed_event list) \<Rightarrow> token_entry
     \<Rightarrow> indexer_db \<Rightarrow> bool" where
  "token_complete H sha cfg logs t db \<longleftrightarrow>
     (\<exists>tid. token_id_of db t = Some tid \<and> covered_count (idb_events db tid) = length (logs t)
        \<and> tree_holds H sha cfg tid (idb_merkle db) (logs t))"

lemma indexer_run_ok:
  assumes "event_world chain logs latest ecfg tokens" "tree_world logs latest cfg tokens"
    and "indexer_inv H sha cfg logs tokens db"
  shows "\<exists>db1 db2. event_run_once hasher chain now holder ecfg tokens db = Some db1
    \<and> tree_run_once H sha hasher now' holder' cfg tokens db1 = Some db2
    \<and> indexer_inv H sha cfg logs tokens db2 \<and> ids_follow db db2
    \<and> (\<forall>t \<in> set tokens. token_complete H sha cfg logs t db2)"
proof -
  obtain db1 where db1: "event_run_once hasher chain now holder ecfg tokens db = Some db1"
      "indexer_inv H sha cfg logs tokens db1" "ids_follow db db1" "\<forall>t \<in> set tokens. synced logs t db1"
    using event_job.run_once_ok [of chain logs latest ecfg tokens H sha cfg db db hasher now holder] assms(1,3)
    by (auto simp: event_run_once_def)
  obtain db2 where db2: "tree_run_once H sha hasher now' holder' cfg tokens db1 = Some db2"
      "indexer_inv H sha cfg logs tokens db2" "\<forall>t \<in> set tokens. synced logs t db2" "ids_follow db db2"
      "\<forall>t \<in> set tokens. caught_up H sha cfg logs t db2"
    using tree_job.run_once_ok [of logs latest cfg tokens H sha db1 "\<lambda>_. True" db hasher now' holder'] assms(2) db1(2-4)
    by (auto simp: tree_run_once_def)
  have "token_complete H sha cfg logs t db2" if "t \<in> set tokens" for t
    using db2(3,5) that by (fastforce simp: synced_def caught_up_def token_complete_def)
  with db1(1) db2 show ?thesis
    by blast
qed

text \<open>
  One run of the indexer in its single-run mode, for any number of tokens: from any
  database that earlier runs can have left, the event job and then the tree job end, and
  the tree of every configured token has the index, the root and the hash chain of the
  in-memory tree over the transfers of its contract, in the order of the contract. The
  jobs of one token do not disturb the others, and the invariant holds again.
\<close>

theorem indexer_run_complete:
  assumes "event_world chain logs latest ecfg tokens" "tree_world logs latest cfg tokens"
    and "indexer_inv H sha cfg logs tokens db"
  shows "\<exists>db1 db2. event_run_once hasher chain now holder ecfg tokens db = Some db1
    \<and> tree_run_once H sha hasher now' holder' cfg tokens db1 = Some db2
    \<and> indexer_inv H sha cfg logs tokens db2
    \<and> (\<forall>t \<in> set tokens. shows_tree H sha cfg db2 t (map transfer_of (logs t)))"
proof -
  obtain db1 db2 where run: "event_run_once hasher chain now holder ecfg tokens db = Some db1"
      "tree_run_once H sha hasher now' holder' cfg tokens db1 = Some db2"
      "indexer_inv H sha cfg logs tokens db2" "\<forall>t \<in> set tokens. token_complete H sha cfg logs t db2"
    using indexer_run_ok [OF assms] by blast
  have "shows_tree H sha cfg db2 t (map transfer_of (logs t))" if "t \<in> set tokens" for t
    using run(4) that assms(2) shows_treeI [of cfg db2 t _ H sha "logs t"]
    by (auto simp: token_complete_def tree_world_def)
  with run show ?thesis
    by blast
qed

definition sample_token :: "nat \<Rightarrow> token_entry" where
  "sample_token n = \<lparr>te_label = ''z'', te_token_address = word_of_nat n, te_verifier_address = 9,
     te_minter_address = None, te_chain_id = 1, te_deployed_block = 8, te_rpc_urls = [''rpc''], te_legacy_tx = False\<rparr>"

definition sample_logs :: "token_entry \<Rightarrow> indexed_event list" where
  "sample_logs t = (if te_token_address t = 1 then sample_log else [sample_event 0 12])"

definition sample_chains :: "token_entry \<Rightarrow> token_chain" where
  "sample_chains t = \<lparr>tc_latest_block = Inr 20, tc_index = Inr (length (sample_logs t)),
     tc_get_events = (\<lambda>a b. Inr (filter (\<lambda>e. a \<le> ev_block e \<and> ev_block e \<le> b) (sample_logs t)))\<rparr>"

definition sample_tree_config :: tree_job_config where
  "sample_tree_config = \<lparr>tj_interval_ms = 5, tj_height = 2, tj_history_window = 2, tj_batch_size = 2\<rparr>"

definition empty_indexer :: indexer_db where
  "empty_indexer = \<lparr>idb_tokens = [], idb_next_id = 1, idb_events = (\<lambda>_. empty_events),
     idb_merkle = \<lparr>token_ids = [], merkle_nodes = Map.empty, merkle_updates = [], merkle_snapshots = []\<rparr>,
     idb_leases = Map.empty\<rparr>"

lemma indexer_inv_empty: "indexer_inv H sha cfg logs tokens empty_indexer"
  by (simp add: indexer_inv_def tables_inv_def registry_ok_def empty_indexer_def untouched_def token_snapshots_def
      token_id_of_def find_token_def)

lemma sample_second_chain: "chain_ok [sample_event 0 12] 8 20"
  by (simp add: chain_ok_def sample_event_def)

lemma sample_worlds:
  "event_world sample_chains sample_logs (\<lambda>_. 20) \<lparr>block_span = 4, forward_scan_overlap = 1\<rparr> [sample_token 1, sample_token 2]"
  "tree_world sample_logs (\<lambda>_. 20) sample_tree_config [sample_token 1, sample_token 2]"
  using sample_chain(1) sample_second_chain
  by (simp_all add: event_world_def tree_world_def tokens_ok_def token_key_def sample_token_def sample_logs_def
      sample_chains_def node_answers_def tree_config_ok_def tree_config_ensure_valid_def sample_tree_config_def
      db_config_new_def sample_length)

theorem indexer_run_complete_witness:
  "\<exists>db1 db2. event_run_once (\<lambda>_. 0) sample_chains 5 1 \<lparr>block_span = 4, forward_scan_overlap = 1\<rparr>
        [sample_token 1, sample_token 2] empty_indexer = Some db1
    \<and> tree_run_once toy_hash const_sha (\<lambda>_. 0) 6 2 sample_tree_config [sample_token 1, sample_token 2] db1 = Some db2
    \<and> shows_tree toy_hash const_sha sample_tree_config db2 (sample_token 1) [(2, 5), (2, 5), (2, 5)]
    \<and> shows_tree toy_hash const_sha sample_tree_config db2 (sample_token 2) [(2, 5)]"
  using indexer_run_complete [where H = toy_hash and sha = const_sha and hasher = "\<lambda>_. 0" and now = 5 and holder = 1
      and now' = 6 and holder' = 2, OF sample_worlds indexer_inv_empty]
  by (simp add: sample_logs_def sample_token_def sample_log_def sample_event_def transfer_of_def) blast

text \<open>
  The tree job alone, with the event job at any point: after a run the tree of every
  registered token holds exactly the transfers of its contiguous events, never one beyond
  a gap, and all trees can be trusted by the next run.
\<close>

theorem tree_run_catches_up:
  assumes "tree_world logs latest cfg tokens" "indexer_inv H sha cfg logs tokens db"
  shows "\<exists>db'. tree_run_once H sha hasher now holder cfg tokens db = Some db'
    \<and> indexer_inv H sha cfg logs tokens db'
    \<and> (\<forall>t \<in> set tokens. \<forall>tid. token_id_of db' t = Some tid \<longrightarrow>
         shows_tree H sha cfg db' t (map transfer_of (take (covered_count (idb_events db' tid)) (logs t))))"
proof -
  obtain db' where db': "tree_run_once H sha hasher now holder cfg tokens db = Some db'"
      "indexer_inv H sha cfg logs tokens db'" "\<forall>t \<in> set tokens. caught_up H sha cfg logs t db'"
    using tree_job.run_once_ok [of logs latest cfg tokens H sha db "\<lambda>_. False" db hasher now holder] assms
    by (auto simp: tree_run_once_def)
  have "shows_tree H sha cfg db' t (map transfer_of (take (covered_count (idb_events db' tid)) (logs t)))"
    if t: "t \<in> set tokens" and tid: "token_id_of db' t = Some tid" for t tid
    using shows_treeI [OF _ tid] db'(3) assms(1) t tid by (simp add: tree_world_def caught_up_def min_le_iff_disj)
  with db' show ?thesis
    by blast
qed

text \<open>A database in which only the first of the three events is contiguous.\<close>

definition partial_indexer :: indexer_db where
  "partial_indexer = \<lparr>idb_tokens = [\<lparr>tk_id = 1, tk_address = address_bytes 1, tk_verifier = address_bytes 9, tk_chain = 1\<rparr>],
     idb_next_id = 2,
     idb_events = (\<lambda>_. empty_events)(1 := \<lparr>event_rows = [row_of (sample_event 0 10), row_of (sample_event 2 17)],
       indexer_state = Some \<lparr>contiguous_index = 0, contiguous_block = Some 10, last_synced_block = 18,
         last_seen_contract_index = Some 3\<rparr>\<rparr>),
     idb_merkle = empty_db, idb_leases = Map.empty\<rparr>"

lemma partial_ok: "indexer_inv toy_hash const_sha sample_tree_config sample_logs [sample_token 1] partial_indexer"
proof -
  have "tree_holds toy_hash const_sha sample_tree_config 1 empty_db []"
    by (rule tree_holds_fresh) (simp_all add: empty_db_def untouched_def token_snapshots_def)
  moreover have "events_inv sample_log (idb_events partial_indexer 1)"
    by (simp add: partial_indexer_def events_inv_def rows_of_log_def sample_log_def sample_event_def state_ok_def)
  ultimately show ?thesis
    by (auto simp: indexer_inv_def tables_inv_def registry_ok_def partial_indexer_def untouched_def token_snapshots_def
        token_id_of_def find_token_def sample_token_def token_inv_def sample_logs_def empty_db_def
        intro!: exI [of _ "0 :: nat"])
qed

theorem tree_run_catches_up_witness:
  "\<exists>db'. tree_run_once toy_hash const_sha (\<lambda>_. 0) 6 2 sample_tree_config [sample_token 1] partial_indexer = Some db'
    \<and> indexer_inv toy_hash const_sha sample_tree_config sample_logs [sample_token 1] db'"
proof -
  have "tree_world sample_logs (\<lambda>_. 20) sample_tree_config [sample_token 1]"
    using sample_worlds(2) by (simp add: tree_world_def tokens_ok_def)
  from tree_run_catches_up [where hasher = "\<lambda>_. 0" and now = 6 and holder = 2, OF this partial_ok] show ?thesis
    by blast
qed

end
