(* ===== verification/Root_Job_Props.thy ===== *)
theory Root_Job_Props
  imports Root_Job Indexer_Jobs_Props Circuit_Props
begin

text \<open>
  Correctness of the root prover job: what its tables mean, that compiling reaches the
  index it aims at whenever the history guard lets it start, that only proofs of the right
  transition are submitted, and that a cycle on an answering chain proves the whole log.
\<close>

section \<open>The folding scheme\<close>

text \<open>
  What the job relies on: a scheme for the step function \<open>root_step\<close>. \<open>origin\<close> is the state
  an instance started from. A step that satisfies the circuit can be folded, an instance
  can be rebuilt from its proof, proofs verify and survive serialisation.
\<close>

definition nova_ok ::
  "(fr \<Rightarrow> fr \<Rightarrow> fr) \<Rightarrow> (bytes \<Rightarrow> bytes) \<Rightarrow> ('n, 'i) nova_ops \<Rightarrow> ('n \<Rightarrow> fr list) \<Rightarrow> bool" where
  "nova_ok H sha N origin \<longleftrightarrow>
     (\<forall>z. length z = ROOT_STATE_LEN \<longrightarrow> (\<exists>n. nv_init N z = Inr n \<and> nv_state N n = z \<and> origin n = z))
     \<and> (\<forall>n e z. root_step H sha (nv_state N n) e = Some z \<longrightarrow>
          (\<exists>n'. nv_prove_step N n e = Inr n' \<and> nv_state N n' = z \<and> origin n' = origin n))
     \<and> (\<forall>n. nv_verify N (nv_ivc_proof N n) = Inr ())
     \<and> (\<forall>n. \<exists>n'. nv_from_ivc N (nv_ivc_proof N n) = Inr n' \<and> nv_state N n' = nv_state N n \<and> origin n' = origin n)
     \<and> (\<forall>i. \<exists>bs. nv_serialize N i = Inr bs \<and> nv_deserialize N bs = Inr i)"

lemma nova_okD:
  assumes "nova_ok H sha N origin"
  shows "length z = ROOT_STATE_LEN \<Longrightarrow> \<exists>n. nv_init N z = Inr n \<and> nv_state N n = z \<and> origin n = z"
    and "root_step H sha (nv_state N n) e = Some z \<Longrightarrow>
      \<exists>n'. nv_prove_step N n e = Inr n' \<and> nv_state N n' = z \<and> origin n' = origin n"
    and "nv_verify N (nv_ivc_proof N n) = Inr ()"
    and "\<exists>n'. nv_from_ivc N (nv_ivc_proof N n) = Inr n' \<and> nv_state N n' = nv_state N n \<and> origin n' = origin n"
    and "\<exists>bs. nv_serialize N i = Inr bs \<and> nv_deserialize N bs = Inr i"
  using assms unfolding nova_ok_def by blast+

text \<open>Stored bytes that prove the transition from \<open>z0\<close> to \<open>z\<close>.\<close>

definition attests :: "('n, 'i) nova_ops \<Rightarrow> ('n \<Rightarrow> fr list) \<Rightarrow> bytes \<Rightarrow> fr list \<Rightarrow> fr list \<Rightarrow> bool" where
  "attests N origin bs z0 z \<longleftrightarrow>
     (\<exists>i n. nv_deserialize N bs = Inr i \<and> nv_from_ivc N i = Inr n \<and> origin n = z0 \<and> nv_state N n = z)"

lemma attests_load:
  assumes "attests N origin bs z0 z"
  shows "\<exists>n. load_nova_from_ivc N bs = Inr n \<and> origin n = z0 \<and> nv_state N n = z"
  using assms by (auto simp: attests_def load_nova_from_ivc_def lift_nova_def)

lemma attests_serialized:
  assumes "nova_ok H sha N origin"
  shows "\<exists>bs. nv_serialize N (nv_ivc_proof N n) = Inr bs \<and> attests N origin bs (origin n) (nv_state N n)"
  using nova_okD(4,5) [OF assms] unfolding attests_def by metis

section \<open>The meaning of the tables\<close>

definition prover_row_of :: "prover_state \<Rightarrow> prover_row" where
  "prover_row_of st = \<lparr>pr_base = int (ps_base st), pr_compiled = int (ps_compiled st),
     pr_submitted = int (ps_submitted st), pr_pending_index = map_option int (ps_pending_index st),
     pr_pending_chain = map_option u256_to_be_bytes (ps_pending_chain st)\<rparr>"

definition ivc_row_ok ::
  "(fr \<Rightarrow> fr \<Rightarrow> fr) \<Rightarrow> (bytes \<Rightarrow> bytes) \<Rightarrow> ('n, 'i) nova_ops \<Rightarrow> ('n \<Rightarrow> fr list) \<Rightarrow> transfer list \<Rightarrow> nat \<Rightarrow> nat \<Rightarrow> ivc_row \<Rightarrow> bool" where
  "ivc_row_ok H sha N origin ts b k row \<longleftrightarrow>
     k \<le> length ts \<and> attests N origin (ir_proof row) (root_state H sha (take b ts)) (root_state H sha (take k ts))
     \<and> ir_hash_chain row = fr_to_bytes (u256_to_fr (chain_of sha (take k ts)))
     \<and> ir_root row = fr_to_bytes (node H (transfer_leaves H (take k ts)) TRANSFER_TREE_HEIGHT 0)"

definition ivc_rows_ok ::
  "(fr \<Rightarrow> fr \<Rightarrow> fr) \<Rightarrow> (bytes \<Rightarrow> bytes) \<Rightarrow> ('n, 'i) nova_ops \<Rightarrow> ('n \<Rightarrow> fr list) \<Rightarrow> int \<Rightarrow> transfer list \<Rightarrow> nat
     \<Rightarrow> root_db \<Rightarrow> bool" where
  "ivc_rows_ok H sha N origin tid ts b db \<longleftrightarrow>
     (\<forall>e row. rd_ivc db (tid, e) = Some row \<longrightarrow> (\<exists>k. e = int k \<and> ivc_row_ok H sha N origin ts b k row))"

text \<open>A pending reservation is of an index of the log and carries its hash chain.\<close>

definition pending_ok :: "(bytes \<Rightarrow> bytes) \<Rightarrow> transfer list \<Rightarrow> nat option \<Rightarrow> u256 option \<Rightarrow> bool" where
  "pending_ok sha ts pi pc \<longleftrightarrow>
     (\<forall>i. pi = Some i \<longrightarrow> i \<le> length ts \<and> (\<forall>c. pc = Some c \<longrightarrow> c = chain_of sha (take i ts)))"

definition prover_inv ::
  "(fr \<Rightarrow> fr \<Rightarrow> fr) \<Rightarrow> (bytes \<Rightarrow> bytes) \<Rightarrow> ('n, 'i) nova_ops \<Rightarrow> ('n \<Rightarrow> fr list) \<Rightarrow> int \<Rightarrow> transfer list \<Rightarrow> prover_state
     \<Rightarrow> root_db \<Rightarrow> bool" where
  "prover_inv H sha N origin tid ts st db \<longleftrightarrow>
     rd_state db tid = Some (prover_row_of st) \<and> ps_submitted st = ps_base st
     \<and> ps_base st \<le> ps_compiled st \<and> ps_compiled st \<le> length ts
     \<and> pending_ok sha ts (ps_pending_index st) (ps_pending_chain st)
     \<and> ivc_rows_ok H sha N origin tid ts (ps_base st) db
     \<and> (ps_compiled st = ps_base st \<or> rd_ivc db (tid, int (ps_compiled st)) \<noteq> None)"

text \<open>The state between two cycles.\<close>

definition root_inv ::
  "(fr \<Rightarrow> fr \<Rightarrow> fr) \<Rightarrow> (bytes \<Rightarrow> bytes) \<Rightarrow> ('n, 'i) nova_ops \<Rightarrow> ('n \<Rightarrow> fr list) \<Rightarrow> int \<Rightarrow> transfer list \<Rightarrow> root_db \<Rightarrow> bool" where
  "root_inv H sha N origin tid ts db \<longleftrightarrow>
     (rd_state db tid = None \<or> (\<exists>st. prover_inv H sha N origin tid ts st db))"

lemma u256_from_be_slice_bytes [simp, codec_simps]: "u256_from_be_slice (u256_to_be_bytes c) = Inr c"
  using nat_of_be_u256 [of c] by (simp add: u256_from_be_slice_def u256_to_be_bytes_def)

lemma i64_as_u64_int [simp]: "n < 2 ^ 64 \<Longrightarrow> i64_as_u64 (int n) = n"
  by (simp add: i64_as_u64_def)

lemma u64_to_i64_small [simp]: "n < 2 ^ 63 \<Longrightarrow> u64_to_i64 lbl n = Inr (int n)"
  by (simp add: u64_to_i64_def)

lemma load_prover_state_ok:
  assumes "prover_inv H sha N origin tid ts st db" "length ts < 2 ^ 63"
  shows "load_prover_state db tid = Inr (Some st)"
proof -
  have b: "ps_base st < 2 ^ 64" "ps_compiled st < 2 ^ 64" "ps_submitted st < 2 ^ 64"
      "ps_pending_index st = Some i \<Longrightarrow> i < 2 ^ 64" for i
    using assms by (auto simp: prover_inv_def pending_ok_def)
  have "map_option i64_as_u64 (map_option int (ps_pending_index st)) = ps_pending_index st"
    using b(4) by (cases "ps_pending_index st") simp_all
  then show ?thesis
    using assms(1) b(1-3)
    by (cases "ps_pending_chain st") (simp_all add: prover_inv_def load_prover_state_def prover_row_of_def)
qed

lemma upsert_prover_state_ok:
  assumes "b < 2 ^ 63" "c < 2 ^ 63" "s < 2 ^ 63" "\<And>i. p = Some i \<Longrightarrow> i < 2 ^ 63"
  shows "upsert_prover_state db tid b c s p h = Inr (db\<lparr>rd_state := (rd_state db)(tid \<mapsto>
    prover_row_of \<lparr>ps_base = b, ps_compiled = c, ps_submitted = s, ps_pending_index = p, ps_pending_chain = h\<rparr>)\<rparr>)"
  using assms by (cases p) (simp_all add: upsert_prover_state_def prover_row_of_def)

lemma delete_ivc_simps [simp]:
  "rd_ivc (delete_ivc_proofs db tid) (tid, e) = None" "rd_state (delete_ivc_proofs db tid) = rd_state db"
  "rd_sent (delete_ivc_proofs db tid) = rd_sent db"
  by (simp_all add: delete_ivc_proofs_def)

lemma prover_inv_aligned:
  assumes "b \<le> length ts" "rd_state db tid = Some (prover_row_of (aligned_state b))" "\<And>e. rd_ivc db (tid, e) = None"
  shows "prover_inv H sha N origin tid ts (aligned_state b) db"
  using assms by (simp add: prover_inv_def aligned_state_def ivc_rows_ok_def pending_ok_def)

lemma ensure_state_alignment_ok:
  assumes inv: "root_inv H sha N origin tid ts db" and b: "b \<le> length ts" and n: "length ts < 2 ^ 63"
  shows "\<exists>st db'. ensure_state_alignment db tid b = (Inr st, db') \<and> prover_inv H sha N origin tid ts st db'
    \<and> ps_base st = b \<and> rd_sent db' = rd_sent db"
proof -
  have b63: "b < 2 ^ 63"
    using b n by simp
  let ?db = "(delete_ivc_proofs db tid)\<lparr>rd_state := (rd_state db)(tid \<mapsto> prover_row_of (aligned_state b))\<rparr>"
  have up: "upsert_prover_state (delete_ivc_proofs db tid) tid b b b None None = Inr ?db"
    using upsert_prover_state_ok [OF b63 b63 b63, of None "delete_ivc_proofs db tid" tid None] by (simp add: aligned_state_def)
  have new: "prover_inv H sha N origin tid ts (aligned_state b) ?db" "ps_base (aligned_state b) = b" "rd_sent ?db = rd_sent db"
    by (rule prover_inv_aligned [OF b]) (simp_all add: delete_ivc_proofs_def aligned_state_def)
  show ?thesis
  proof (cases "rd_state db tid")
    case None
    then have "ensure_state_alignment db tid b = (Inr (aligned_state b), ?db)"
      using up by (simp add: ensure_state_alignment_def load_prover_state_def Let_def)
    with new show ?thesis
      by blast
  next
    case (Some r)
    then obtain st where st: "prover_inv H sha N origin tid ts st db"
      using inv by (auto simp: root_inv_def)
    note load = load_prover_state_ok [OF st n]
    show ?thesis
    proof (cases "ps_base st = b")
      case True
      then show ?thesis
        using st load by (simp add: ensure_state_alignment_def Let_def)
    next
      case False
      then have "ensure_state_alignment db tid b = (Inr (aligned_state b), ?db)"
        using up load by (simp add: ensure_state_alignment_def Let_def)
      with new show ?thesis
        by blast
    qed
  qed
qed

section \<open>Folding the transfers\<close>

text \<open>The database tree a cycle works on: it holds the first \<open>n\<close> transfers of the log.\<close>

definition cycle_tree ::
  "(fr \<Rightarrow> fr \<Rightarrow> fr) \<Rightarrow> (bytes \<Rightarrow> bytes) \<Rightarrow> db_tree \<Rightarrow> merkle_db \<Rightarrow> transfer list \<Rightarrow> nat \<Rightarrow> bool" where
  "cycle_tree H sha t m ts n \<longleftrightarrow> tree_ok H t \<and> dt_height t = TRANSFER_TREE_HEIGHT \<and> n \<le> length ts
     \<and> length ts < 2 ^ 40 \<and> db_inv H sha t m (take n ts) \<and> (\<forall>x \<in> set ts. unat (snd x) < 2 ^ 248)"

lemma cycle_treeD:
  assumes "cycle_tree H sha t m ts n"
  shows "tree_ok H t" "dt_height t = TRANSFER_TREE_HEIGHT" "n \<le> length ts" "length ts < 2 ^ 40" "length ts < 2 ^ 63"
    and "db_inv H sha t m (take n ts)" "k < length ts \<Longrightarrow> unat (snd (ts ! k)) < 2 ^ 248"
  using assms by (auto simp: cycle_tree_def)

lemma snapshot_at_zero:
  assumes "db_inv H sha t m us"
  shows "snapshot_at m (dt_token t) 0 = None"
  using assms by (auto simp: snapshot_at_def db_inv_def Let_def find_None_iff snapshot_of_def)

lemma load_state_vector_ok:
  assumes tree: "cycle_tree H sha t m ts n" and b: "b \<le> n"
  shows "load_state_vector t m b = Inr (root_state H sha (take b ts))"
proof (cases "b = 0")
  case True
  then show ?thesis
    using snapshot_at_zero [OF cycle_treeD(6) [OF tree]] zero_root_ok [OF cycle_treeD(1) [OF tree]] cycle_treeD(2) [OF tree]
    by (simp add: load_state_vector_def hash_chain_at_def root_at_def root_at_internal_def hash_chain_at_internal_def
        i64_try_from_def lift_tree_def root_state_def transfer_leaves_Nil node_zero)
next
  case False
  then show ?thesis
    using root_at_inv [OF cycle_treeD(6) [OF tree], of b] b cycle_treeD(2,3) [OF tree]
    by (simp add: load_state_vector_def hash_chain_at_def root_at_def lift_tree_def root_state_def min.absorb1 min.absorb2)
qed

lemma length_root_state [simp]: "length (root_state H sha ts) = ROOT_STATE_LEN"
  by (simp add: root_state_def ROOT_STATE_LEN_def)

lemma initialise_nova_ok:
  assumes nova: "nova_ok H sha N origin" and tree: "cycle_tree H sha t m ts n"
    and inv: "prover_inv H sha N origin tid ts st db" and b: "ps_base st \<le> n"
  shows "\<exists>nv. initialise_nova N db tid t m (ps_base st) (ps_compiled st) = Inr nv
    \<and> origin nv = root_state H sha (take (ps_base st) ts) \<and> nv_state N nv = root_state H sha (take (ps_compiled st) ts)"
proof (cases "ps_compiled st = ps_base st")
  case True
  then show ?thesis
    using nova_okD(1) [OF nova, of "root_state H sha (take (ps_base st) ts)"] load_state_vector_ok [OF tree b]
    by (auto simp: initialise_nova_def lift_nova_def)
next
  case False
  then obtain row where row: "rd_ivc db (tid, int (ps_compiled st)) = Some row"
      "ivc_row_ok H sha N origin ts (ps_base st) (ps_compiled st) row"
    using inv by (fastforce simp: prover_inv_def ivc_rows_ok_def)
  have "ps_compiled st < 2 ^ 63"
    using inv cycle_treeD(5) [OF tree] by (simp add: prover_inv_def)
  then show ?thesis
    using False row attests_load [of N origin "ir_proof row"] load_state_vector_ok [OF tree b]
    by (auto simp: initialise_nova_def load_ivc_record_def ivc_row_ok_def)
qed

text \<open>The siblings of a leaf at its own index are those the circuit expects.\<close>

lemma own_siblings:
  assumes "k < length ts"
  shows "path_siblings H (transfer_leaves H (take (Suc k) ts)) 0 TRANSFER_TREE_HEIGHT k = next_siblings H (take k ts)"
  using assms by (simp add: take_Suc_conv_app_nth transfer_leaves_snoc next_siblings_def path_siblings_upd min_def)

lemma prove_own_leaf:
  assumes tree: "cycle_tree H sha t m ts n" and k: "k < n" "n \<le> Suc k + dt_window t"
  shows "\<exists>p. db_prove t m (Suc k) k = Inr p \<and> siblings (hp_proof p) = next_siblings H (take k ts)"
proof -
  note t = cycle_treeD [OF tree]
  have "length (take n ts) \<le> 2 ^ dt_height t"
    using t(2-4) by (simp add: TRANSFER_TREE_HEIGHT_def)
  then have "prove_many t m (Suc k) [k] = Inr [historical_of H sha (dt_height t) (take n ts) (Suc k) k]"
    using prove_many_ok [OF t(6,1), of "Suc k" "[k]"] k t(3) by simp
  moreover have "take (Suc k) (take n ts) = take (Suc k) ts"
    using k by (simp add: min_def)
  ultimately show ?thesis
    using own_siblings [of k ts H] k t(2,3) by (simp add: db_prove_def historical_of_def)
qed

definition event_of :: "transfer list \<Rightarrow> nat \<Rightarrow> root_event" where
  "event_of ts k = \<lparr>re_index = k, re_to = fst (ts ! k), re_amount = snd (ts ! k)\<rparr>"

lemma compile_event_ok:
  assumes nova: "nova_ok H sha N origin" and tree: "cycle_tree H sha t m ts n" and sha: "digest32 sha"
    and k: "k < n" "n \<le> Suc k + dt_window t" and b: "b \<le> k"
    and nv: "origin nv = root_state H sha (take b ts)" "nv_state N nv = root_state H sha (take k ts)"
  shows "\<exists>nv' row. compile_event N tid t m b (event_of ts k) nv k db
      = Inr (nv', db\<lparr>rd_ivc := (rd_ivc db)((tid, int (Suc k)) \<mapsto> row)\<rparr>)
    \<and> ivc_row_ok H sha N origin ts b (Suc k) row
    \<and> origin nv' = root_state H sha (take b ts) \<and> nv_state N nv' = root_state H sha (take (Suc k) ts)"
proof -
  note t = cycle_treeD [OF tree]
  have klen: "k < length ts" "k < 2 ^ 40" "Suc k < 2 ^ 63" "b < 2 ^ 63"
    using k t(3,4) b by simp_all
  obtain p where p: "db_prove t m (Suc k) k = Inr p" "siblings (hp_proof p) = next_siblings H (take k ts)"
    using prove_own_leaf [OF tree k] by blast
  let ?ext = "\<lparr>re_is_dummy = False, re_address = address_to_fr (fst (ts ! k)), re_value = u256_to_fr (snd (ts ! k)),
    re_siblings = next_siblings H (take k ts)\<rparr>"
  have ext: "to_external_inputs (fst (ts ! k)) (snd (ts ! k)) p = Inr ?ext"
    using p(2) by (simp add: to_external_inputs_def next_siblings_def)
  have "root_step H sha (nv_state N nv) ?ext = Some (root_state H sha (take (Suc k) ts))"
    using root_step_complete [OF sha, of "take k ts" "snd (ts ! k)" H "fst (ts ! k)"] t(7) [OF klen(1)] klen nv(2)
    by (simp add: take_Suc_conv_app_nth)
  from nova_okD(2) [OF nova this] obtain nv' where nv': "nv_prove_step N nv ?ext = Inr nv'"
      "nv_state N nv' = root_state H sha (take (Suc k) ts)" "origin nv' = root_state H sha (take b ts)"
    unfolding nv(1) by blast
  obtain bs where bs: "nv_serialize N (nv_ivc_proof N nv') = Inr bs"
      "attests N origin bs (root_state H sha (take b ts)) (root_state H sha (take (Suc k) ts))"
    using attests_serialized [OF nova, of nv'] nv' by auto
  have st: "nth_opt (nv_state N nv') 1 = Some (u256_to_fr (chain_of sha (take (Suc k) ts)))"
      "nth_opt (nv_state N nv') 2 = Some (node H (transfer_leaves H (take (Suc k) ts)) TRANSFER_TREE_HEIGHT 0)"
    by (simp_all add: nv'(2) nth_opt_def root_state_def)
  define row where "row = \<lparr>ir_start = (case rd_ivc db (tid, int (Suc k)) of None \<Rightarrow> int b | Some old \<Rightarrow> ir_start old),
    ir_proof = bs, ir_state_index = int (Suc k),
    ir_hash_chain = fr_to_bytes (u256_to_fr (chain_of sha (take (Suc k) ts))),
    ir_root = fr_to_bytes (node H (transfer_leaves H (take (Suc k) ts)) TRANSFER_TREE_HEIGHT 0)\<rparr>"
  have up: "upsert_ivc_proof db tid b (k + 1) bs (u256_to_fr (chain_of sha (take (Suc k) ts)))
      (node H (transfer_leaves H (take (Suc k) ts)) TRANSFER_TREE_HEIGHT 0)
    = Inr (db\<lparr>rd_ivc := (rd_ivc db)((tid, int (Suc k)) \<mapsto> row)\<rparr>)"
    using klen(3,4) by (simp add: upsert_ivc_proof_def row_def Let_def del: of_nat_Suc)
  have "compile_event N tid t m b (event_of ts k) nv k db = Inr (nv', db\<lparr>rd_ivc := (rd_ivc db)((tid, int (Suc k)) \<mapsto> row)\<rparr>)"
    using p(1) ext nv'(1) bs(1) st up nova_okD(3) [OF nova, of nv']
    by (simp add: compile_event_def event_of_def lift_tree_def lift_nova_def require_def del: of_nat_Suc)
  moreover have "ivc_row_ok H sha N origin ts b (Suc k) row"
    using bs(2) klen(1) by (simp add: ivc_row_ok_def row_def)
  ultimately show ?thesis
    using nv'(2,3) by blast
qed

lemma compile_loop_ok:
  assumes nova: "nova_ok H sha N origin" and tree: "cycle_tree H sha t m ts n" and sha: "digest32 sha"
    and target: "target \<le> n"
    and "k \<le> target" "n \<le> Suc k + dt_window t" "b \<le> k"
    and "origin nv = root_state H sha (take b ts)" "nv_state N nv = root_state H sha (take k ts)"
    and "ivc_rows_ok H sha N origin tid ts b db"
  shows "\<exists>db'. compile_loop N tid t m b (map (event_of ts) [k..<target]) nv k db = (Inr target, db')
    \<and> ivc_rows_ok H sha N origin tid ts b db' \<and> rd_state db' = rd_state db \<and> rd_sent db' = rd_sent db
    \<and> (k < target \<longrightarrow> rd_ivc db' (tid, int target) \<noteq> None)
    \<and> (\<forall>e. rd_ivc db (tid, e) \<noteq> None \<longrightarrow> rd_ivc db' (tid, e) \<noteq> None)"
  using assms(5-10)
proof (induction "target - k" arbitrary: k nv db)
  case 0
  then show ?case
    by simp
next
  case (Suc x)
  have k: "k < target" "k < n"
    using Suc.hyps(2) target by auto
  obtain nv' row where step: "compile_event N tid t m b (event_of ts k) nv k db
        = Inr (nv', db\<lparr>rd_ivc := (rd_ivc db)((tid, int (Suc k)) \<mapsto> row)\<rparr>)"
      "ivc_row_ok H sha N origin ts b (Suc k) row"
      "origin nv' = root_state H sha (take b ts)" "nv_state N nv' = root_state H sha (take (Suc k) ts)"
    using compile_event_ok [OF nova tree sha k(2) Suc.prems(2-5)] by blast
  let ?db = "db\<lparr>rd_ivc := (rd_ivc db)((tid, int (Suc k)) \<mapsto> row)\<rparr>"
  have rows: "ivc_rows_ok H sha N origin tid ts b ?db"
    using Suc.prems(6) step(2) by (auto simp: ivc_rows_ok_def simp del: of_nat_Suc)
  have le: "Suc k \<le> target" "n \<le> Suc (Suc k) + dt_window t" "b \<le> Suc k"
    using k Suc.prems(2,3) by simp_all
  have "x = target - Suc k"
    using Suc.hyps(2) by simp
  from Suc.hyps(1) [OF this le step(3,4) rows] obtain db' where
    db': "compile_loop N tid t m b (map (event_of ts) [Suc k..<target]) nv' (Suc k) ?db = (Inr target, db')"
      "ivc_rows_ok H sha N origin tid ts b db'" "rd_state db' = rd_state db" "rd_sent db' = rd_sent db"
      "Suc k < target \<longrightarrow> rd_ivc db' (tid, int target) \<noteq> None"
      "\<forall>e. rd_ivc ?db (tid, e) \<noteq> None \<longrightarrow> rd_ivc db' (tid, e) \<noteq> None"
    by auto
  have "rd_ivc db' (tid, int target) \<noteq> None"
    using db'(5,6) k(1) by (cases "Suc k = target") auto
  moreover have "compile_loop N tid t m b (map (event_of ts) [k..<target]) nv k db = (Inr target, db')"
    using db'(1) step(1) k(1) by (simp add: upt_conv_Cons event_of_def)
  moreover have "rd_ivc db' (tid, e) \<noteq> None" if "rd_ivc db (tid, e) \<noteq> None" for e
    using db'(6) that by auto
  ultimately show ?case
    using db'(2-4) by blast
qed

section \<open>Reading the events\<close>

definition root_event_of :: "indexed_event \<Rightarrow> root_event" where
  "root_event_of e = \<lparr>re_index = ev_index e, re_to = ev_to e, re_amount = ev_amount e\<rparr>"

lemma parse_events_ok: "\<forall>e \<in> set es. ev_index e < 2 ^ 64 \<Longrightarrow> parse_events (map row_of es) = Inr (map root_event_of es)"
  by (induction es) (simp_all add: lift_job_def root_event_of_def)

lemma fetch_event_batch_ok:
  assumes chain: "chain_ok log d l" and rows: "rows_of_log log rows"
    and covered: "\<And>i. i < m \<Longrightarrow> row_of (log ! i) \<in> set rows" and m: "k < m" "m \<le> length log"
  shows "fetch_event_batch rows k m = Inr (map (event_of (map transfer_of log)) [k..<m])"
proof -
  have len: "length log < 2 ^ 63"
    using chain by (simp add: chain_ok_def)
  have "map root_event_of (drop k (take m log)) = map (event_of (map transfer_of log)) [k..<m]"
    using m log_nth [OF chain] by (intro nth_equalityI) (simp_all add: root_event_of_def event_of_def transfer_of_def)
  moreover have "\<forall>e \<in> set (drop k (take m log)). ev_index e < 2 ^ 64"
    using log_bounds(4) [OF chain] by (fastforce dest: in_set_dropD in_set_takeD)
  ultimately show ?thesis
    using sorted_rows_ok [OF chain rows covered m] parse_events_ok [of "drop k (take m log)"] m len
    by (simp add: fetch_event_batch_def)
qed

section \<open>Compiling\<close>

text \<open>The indexer tables a cycle reads: the events cover the \<open>n\<close> transfers of the tree.\<close>

definition cycle_events :: "indexed_event list \<Rightarrow> event_db \<Rightarrow> nat \<Rightarrow> bool" where
  "cycle_events log edb n \<longleftrightarrow> (\<exists>d l. chain_ok log d l) \<and> events_inv log edb \<and> n \<le> covered_count edb"

lemma sync_ivc_proofs_ok:
  assumes nova: "nova_ok H sha N origin" and sha: "digest32 sha"
    and tree: "cycle_tree H sha t m (map transfer_of log) n" and ev: "cycle_events log edb n"
    and inv: "prover_inv H sha N origin tid (map transfer_of log) st db"
    and window: "n \<le> Suc (ps_compiled st) + dt_window t"
  shows "\<exists>db'. sync_ivc_proofs N tid t m (event_rows edb) st contract_index db
      = (Inr (st\<lparr>ps_compiled := max (ps_compiled st) (min n contract_index)\<rparr>), db')
    \<and> prover_inv H sha N origin tid (map transfer_of log)
        (st\<lparr>ps_compiled := max (ps_compiled st) (min n contract_index)\<rparr>) db'
    \<and> rd_sent db' = rd_sent db"
proof -
  let ?ts = "map transfer_of log" and ?k = "ps_compiled st" and ?g = "min n contract_index"
  note t = cycle_treeD [OF tree]
  have idx: "latest_index t m = n"
    using latest_index_inv [OF t(6)] t(3) by (simp add: latest_index_def)
  show ?thesis
  proof (cases "?g \<le> ?k")
    case True
    then have "st\<lparr>ps_compiled := max ?k ?g\<rparr> = st"
      by (simp add: max.absorb1)
    then show ?thesis
      using True idx inv by (simp add: sync_ivc_proofs_def Let_def)
  next
    case False
    then have k: "?k < ?g" "?g \<le> n" "?g \<le> length log"
      using t(3) by auto
    obtain d l where c: "chain_ok log d l" and e: "events_inv log edb" "n \<le> covered_count edb"
      using ev by (auto simp: cycle_events_def)
    have rows: "rows_of_log log (event_rows edb)"
      using e(1) by (simp add: events_inv_def)
    have batch: "fetch_event_batch (event_rows edb) ?k ?g = Inr (map (event_of ?ts) [?k..<?g])"
      by (rule fetch_event_batch_ok [OF c rows _ k(1,3)]) (use covered_rows [OF c e(1)] e(2) in auto)
    have st: "rd_state db tid = Some (prover_row_of st)" "ps_base st \<le> ?k" "ivc_rows_ok H sha N origin tid ?ts (ps_base st) db"
      using inv by (simp_all add: prover_inv_def)
    obtain nv where nv: "initialise_nova N db tid t m (ps_base st) ?k = Inr nv"
        "origin nv = root_state H sha (take (ps_base st) ?ts)" "nv_state N nv = root_state H sha (take ?k ?ts)"
      using initialise_nova_ok [OF nova tree inv] st(2) k by auto
    obtain db1 where db1: "compile_loop N tid t m (ps_base st) (map (event_of ?ts) [?k..<?g]) nv ?k db = (Inr ?g, db1)"
        "ivc_rows_ok H sha N origin tid ?ts (ps_base st) db1" "rd_state db1 = rd_state db" "rd_sent db1 = rd_sent db"
        "rd_ivc db1 (tid, int ?g) \<noteq> None"
      using compile_loop_ok [OF nova tree sha k(2) less_imp_le [OF k(1)] window st(2) nv(2,3) st(3)] k(1) by auto
    let ?st = "st\<lparr>ps_compiled := ?g\<rparr>"
    let ?db = "db1\<lparr>rd_state := (rd_state db1)(tid \<mapsto> prover_row_of ?st)\<rparr>"
    have "?g < 2 ^ 63"
      using k(3) c by (simp add: chain_ok_def)
    then have upd: "update_last_compiled_index db1 tid ?g = Inr ?db"
      using st(1) db1(3) by (simp add: update_last_compiled_index_def prover_row_of_def)
    have flags: "(map (event_of ?ts) [?k..<?g] = []) = False" "(?g \<le> ?k) = False" "(?k < ?g) = True"
      using k(1) by (simp_all add: not_le)
    have run: "sync_ivc_proofs N tid t m (event_rows edb) st contract_index db = (Inr ?st, ?db)"
      unfolding sync_ivc_proofs_def Let_def idx flags batch nv(1) db1(1) upd sum.case prod.case if_False if_True ..
    have "prover_inv H sha N origin tid ?ts ?st ?db"
      using inv db1(2,5) k by (simp add: prover_inv_def ivc_rows_ok_def)
    moreover have "max ?k ?g = ?g"
      using k(1) by simp
    ultimately show ?thesis
      using run db1(4) by simp
  qed
qed

section \<open>Submitting\<close>

lemma root_dummy_step:
  assumes "digest32 sha" "length ts < 2 ^ 40"
  shows "root_step H sha (root_state H sha ts) root_dummy = Some (root_state H sha ts)"
proof -
  have n: "length ts mod bn254_r = length ts"
    using two_40_less_r [of "length ts"] assms(2) by simp
  have "root_transition_step H sha TRANSFER_TREE_HEIGHT (fr_of_nat (length ts)) (u256_to_fr (chain_of sha ts))
      (node H (transfer_leaves H ts) TRANSFER_TREE_HEIGHT 0) 0 0 (replicate TRANSFER_TREE_HEIGHT 0) True
    = Some (fr_of_nat (length ts), u256_to_fr (chain_of sha ts), node H (transfer_leaves H ts) TRANSFER_TREE_HEIGHT 0)"
    using assms chain_of_less [OF assms(1), of ts]
    by (subst root_transition_step_iff) (simp_all add: TRANSFER_TREE_HEIGHT_def n)
  then show ?thesis
    by (simp add: root_step_def root_state_def root_dummy_def)
qed

lemma wait_for_compiled:
  assumes inv: "prover_inv H sha N origin tid ts st db" and n: "length ts < 2 ^ 63" and c: "ps_base st < ps_compiled st"
  shows "\<exists>rec. wait_for_ivc_record db tid (ps_compiled st) = Inr rec
    \<and> attests N origin (iv_proof rec) (root_state H sha (take (ps_base st) ts)) (root_state H sha (take (ps_compiled st) ts))
    \<and> iv_hash_chain rec = u256_to_fr (chain_of sha (take (ps_compiled st) ts))"
proof -
  obtain row where row: "rd_ivc db (tid, int (ps_compiled st)) = Some row"
      "ivc_row_ok H sha N origin ts (ps_base st) (ps_compiled st) row"
    using inv c by (fastforce simp: prover_inv_def ivc_rows_ok_def)
  have "fr_of_nat (nat_of_be (fr_to_bytes x)) = x" for x
    using bytes_to_fr_fr_to_bytes [of x] by (simp add: bytes_to_fr_def split: if_splits)
  moreover have "ps_compiled st < 2 ^ 63"
    using inv n by (simp add: prover_inv_def)
  ultimately show ?thesis
    using row by (simp add: wait_for_ivc_record_def load_ivc_record_def ivc_row_ok_def)
qed

lemma submission_bytes_ok:
  assumes nova: "nova_ok H sha N origin" and sha: "digest32 sha" and n: "k < 2 ^ 40" "k \<le> length ts" "b \<le> k"
    and rec: "attests N origin (iv_proof rec) (root_state H sha (take b ts)) (root_state H sha (take k ts))"
  shows "\<exists>bs. submission_bytes N k b rec = Inr bs
    \<and> attests N origin bs (root_state H sha (take b ts)) (root_state H sha (take k ts))"
proof (cases "k - b = 1")
  case True
  obtain nv where nv: "load_nova_from_ivc N (iv_proof rec) = Inr nv" "origin nv = root_state H sha (take b ts)"
      "nv_state N nv = root_state H sha (take k ts)"
    using attests_load [OF rec] by blast
  have "root_step H sha (nv_state N nv) root_dummy = Some (root_state H sha (take k ts))"
    using root_dummy_step [OF sha, of "take k ts"] n nv(3) by simp
  then obtain nv' where "nv_prove_step N nv root_dummy = Inr nv'" "nv_state N nv' = root_state H sha (take k ts)"
      "origin nv' = root_state H sha (take b ts)"
    using nova_okD(2) [OF nova] nv(2) by metis
  then show ?thesis
    using True n(3) nv(1) attests_serialized [OF nova, of nv'] by (auto simp: submission_bytes_def lift_nova_def)
next
  case False
  then show ?thesis
    using n(3) rec by (simp add: submission_bytes_def)
qed

lemma persist_pending_ok:
  assumes "prover_inv H sha N origin tid ts st db" "length ts < 2 ^ 63" "i \<le> length ts" "c = chain_of sha (take i ts)"
  shows "\<exists>db'. persist_pending_reservation db tid i c = Inr db' \<and> rd_sent db' = rd_sent db
    \<and> prover_inv H sha N origin tid ts (st\<lparr>ps_pending_index := Some i, ps_pending_chain := Some c\<rparr>) db'"
proof -
  let ?st = "st\<lparr>ps_pending_index := Some i, ps_pending_chain := Some c\<rparr>"
  have b: "ps_base st < 2 ^ 63" "ps_compiled st < 2 ^ 63" "ps_submitted st < 2 ^ 63" "i < 2 ^ 63"
    using assms by (auto simp: prover_inv_def)
  have "persist_pending_reservation db tid i c = Inr (db\<lparr>rd_state := (rd_state db)(tid \<mapsto> prover_row_of ?st)\<rparr>)"
    using load_prover_state_ok [OF assms(1,2)] b
      upsert_prover_state_ok [OF b(1-3), of "Some i" db tid "Some c"]
    by (simp add: persist_pending_reservation_def prover_row_of_def)
  moreover have "prover_inv H sha N origin tid ts ?st (db\<lparr>rd_state := (rd_state db)(tid \<mapsto> prover_row_of ?st)\<rparr>)"
    using assms by (simp add: prover_inv_def ivc_rows_ok_def pending_ok_def)
  ultimately show ?thesis
    by auto
qed

text \<open>The contract reserves its current index and hash chain.\<close>

lemma obtain_reservation_ok:
  assumes inv: "prover_inv H sha N origin tid ts st db" and n: "length ts < 2 ^ 63"
    and res: "rc_reserve calls = Inr (i, chain_of sha (take i ts))" "i \<le> length ts"
  shows "\<exists>j st' db'. obtain_reservation calls tid target st db = (Inr ((j, chain_of sha (take j ts)), st'), db')
    \<and> j \<le> length ts \<and> (j = i \<or> j = target) \<and> prover_inv H sha N origin tid ts st' db' \<and> rd_sent db' = rd_sent db"
proof (cases "ps_pending_index st = Some target \<and> ps_pending_chain st \<noteq> None")
  case True
  then obtain c where c: "ps_pending_index st = Some target" "ps_pending_chain st = Some c"
    by auto
  then have "c = chain_of sha (take target ts)" "target \<le> length ts"
    using inv by (auto simp: prover_inv_def pending_ok_def)
  with c inv show ?thesis
    by (auto simp: obtain_reservation_def)
next
  case False
  then have none: "(if ps_pending_index st = Some target then map_option (\<lambda>c. (target, c)) (ps_pending_chain st) else None) = None"
    by auto
  obtain db' where db': "persist_pending_reservation db tid i (chain_of sha (take i ts)) = Inr db'" "rd_sent db' = rd_sent db"
      "prover_inv H sha N origin tid ts
         (st\<lparr>ps_pending_index := Some i, ps_pending_chain := Some (chain_of sha (take i ts))\<rparr>) db'"
    using persist_pending_ok [OF inv n res(2)] by blast
  then have "obtain_reservation calls tid target st db = (Inr ((i, chain_of sha (take i ts)),
      st\<lparr>ps_pending_index := Some i, ps_pending_chain := Some (chain_of sha (take i ts))\<rparr>), db')"
    unfolding obtain_reservation_def none using res(1) by (simp add: lift_call_def)
  then show ?thesis
    using db' res(2) by blast
qed

lemma finish_submission_ok:
  assumes "target \<le> length ts" "length ts < 2 ^ 63"
  shows "\<exists>db'. finish_submission tid target db = (Inr (aligned_state target), db') \<and> rd_sent db' = rd_sent db
    \<and> prover_inv H sha N origin tid ts (aligned_state target) db' \<and> (\<forall>e. rd_ivc db' (tid, e) = None)"
proof -
  have b: "target < 2 ^ 63"
    using assms by simp
  let ?db = "db\<lparr>rd_state := (rd_state db)(tid \<mapsto> prover_row_of (aligned_state target))\<rparr>"
  have reset: "reset_state_after_submission db tid target = Inr ?db"
    using upsert_prover_state_ok [OF b b b, of None db tid None]
    by (simp add: reset_state_after_submission_def aligned_state_def)
  have inv: "prover_inv H sha N origin tid ts (aligned_state target) (delete_ivc_proofs ?db tid)"
    using assms(1) by (rule prover_inv_aligned) simp_all
  have "ensure_state_alignment (delete_ivc_proofs ?db tid) tid target
      = (Inr (aligned_state target), delete_ivc_proofs ?db tid)"
    using load_prover_state_ok [OF inv assms(2)] by (simp add: ensure_state_alignment_def Let_def aligned_state_def)
  then show ?thesis
    using reset inv by (simp add: finish_submission_def)
qed

text \<open>A chain on which the decider and the submission work.\<close>

definition calls_answer :: "root_calls \<Rightarrow> bool" where
  "calls_answer calls \<longleftrightarrow> (\<forall>bs. \<exists>d. rc_decider calls bs = Inr d) \<and> (\<forall>d. rc_prove_root calls d = Inr () \<and> rc_prove_receipt calls d = Inr ())"

lemma submit_ok:
  assumes nova: "nova_ok H sha N origin" and sha: "digest32 sha" and n: "length ts < 2 ^ 40"
    and inv: "prover_inv H sha N origin tid ts st db" and c: "ps_base st < ps_compiled st" "ps_compiled st \<le> contract_index"
    and calls: "calls_answer calls" "rc_reserve calls = Inr (ps_compiled st, chain_of sha (take (ps_compiled st) ts))"
  shows "\<exists>db' bs d. submit_if_ready N calls True tid st contract_index db = (Inr (aligned_state (ps_compiled st)), db')
    \<and> rd_sent db' = (bs, d, True) # rd_sent db
    \<and> attests N origin bs (root_state H sha (take (ps_base st) ts)) (root_state H sha (take (ps_compiled st) ts))
    \<and> prover_inv H sha N origin tid ts (aligned_state (ps_compiled st)) db'"
proof -
  let ?k = "ps_compiled st"
  have k: "?k \<le> length ts" "ps_submitted st = ps_base st" and n63: "length ts < 2 ^ 63"
    using inv n by (simp_all add: prover_inv_def)
  obtain rec where rec: "wait_for_ivc_record db tid ?k = Inr rec"
      "attests N origin (iv_proof rec) (root_state H sha (take (ps_base st) ts)) (root_state H sha (take ?k ts))"
      "iv_hash_chain rec = u256_to_fr (chain_of sha (take ?k ts))"
    using wait_for_compiled [OF inv n63 c(1)] by blast
  obtain bs where bs: "submission_bytes N ?k (ps_base st) rec = Inr bs"
      "attests N origin bs (root_state H sha (take (ps_base st) ts)) (root_state H sha (take ?k ts))"
    using submission_bytes_ok [OF nova sha _ k(1) _ rec(2)] k(1) n c(1) by auto
  obtain st1 db1 where res: "obtain_reservation calls tid ?k st db = (Inr ((?k, chain_of sha (take ?k ts)), st1), db1)"
      "rd_sent db1 = rd_sent db"
    using obtain_reservation_ok [OF inv n63 calls(2) k(1), of ?k] by auto
  obtain d where d: "rc_decider calls bs = Inr d" "rc_prove_root calls d = Inr ()" "rc_prove_receipt calls d = Inr ()"
    using calls(1) by (auto simp: calls_answer_def)
  let ?db = "db1\<lparr>rd_sent := (bs, d, True) # rd_sent db1\<rparr>"
  obtain db2 where fin: "finish_submission tid ?k ?db = (Inr (aligned_state ?k), db2)" "rd_sent db2 = rd_sent ?db"
      "prover_inv H sha N origin tid ts (aligned_state ?k) db2"
    using finish_submission_ok [OF k(1) n63, of tid ?db H sha N origin] by blast
  have "submit_if_ready N calls True tid st contract_index db = (Inr (aligned_state ?k), db2)"
    using c k(2) rec(1,3) bs(1) res(1) d fin(1) chain_of_fr(1) [OF sha]
    by (simp add: submit_if_ready_def Let_def lift_call_def)
  then show ?thesis
    using fin(2,3) res(2) bs(2) by simp
qed

text \<open>Whatever the chain answers, only a proof of the compiled transition leaves the job.\<close>

lemma submit_safe:
  assumes nova: "nova_ok H sha N origin" and sha: "digest32 sha" and n: "length ts < 2 ^ 40"
    and inv: "prover_inv H sha N origin tid ts st db"
    and run: "submit_if_ready N calls enabled tid st contract_index db = (r, db')"
  shows "rd_sent db' = rd_sent db \<or> (enabled \<and> ps_base st < ps_compiled st \<and> ps_compiled st \<le> contract_index
    \<and> (\<exists>bs d mined. rd_sent db' = (bs, d, mined) # rd_sent db \<and> rc_decider calls bs = Inr d
        \<and> (mined \<longleftrightarrow> rc_prove_root calls d = Inr () \<and> rc_prove_receipt calls d = Inr ())
        \<and> attests N origin bs (root_state H sha (take (ps_base st) ts)) (root_state H sha (take (ps_compiled st) ts))))"
proof (cases "ps_base st < ps_compiled st \<and> ps_compiled st \<le> contract_index")
  case False
  then show ?thesis
    using run inv by (auto simp: submit_if_ready_def prover_inv_def split: if_splits)
next
  case True
  let ?k = "ps_compiled st"
  have k: "?k \<le> length ts" "ps_submitted st = ps_base st" and n63: "length ts < 2 ^ 63"
    using inv n by (simp_all add: prover_inv_def)
  obtain rec where rec: "wait_for_ivc_record db tid ?k = Inr rec"
      "attests N origin (iv_proof rec) (root_state H sha (take (ps_base st) ts)) (root_state H sha (take ?k ts))"
    using wait_for_compiled [OF inv n63] True by blast
  obtain bs where bs: "submission_bytes N ?k (ps_base st) rec = Inr bs"
      "attests N origin bs (root_state H sha (take (ps_base st) ts)) (root_state H sha (take ?k ts))"
    using submission_bytes_ok [OF nova sha _ k(1) _ rec(2)] k(1) n True by auto
  obtain ro db1 where ro: "obtain_reservation calls tid ?k st db = (ro, db1)"
    by fastforce
  have sent1: "rd_sent db1 = rd_sent db"
    using ro by (auto simp: obtain_reservation_def persist_pending_reservation_def upsert_prover_state_def Let_def
        lift_call_def res_bind_Inr_iff split: option.splits sum.splits if_splits prod.splits)
  have fin: "rd_sent db2 = rd_sent db0" if "finish_submission tid ?k db0 = (r', db2)" for db0 r' db2
    using that finish_submission_ok [OF k(1) n63, of tid db0 H sha N origin] by auto
  show ?thesis
    using run True k(2) rec(1) bs ro sent1 fin
    by (auto simp: submit_if_ready_def Let_def lift_call_def split: if_splits sum.splits prod.splits)
qed

text \<open>A submission that loses its receipt has handed over the same transaction.\<close>

lemma submit_lost:
  assumes "submit_if_ready N calls enabled tid st ci db = (Inr s, db0)" "rd_sent db0 \<noteq> []"
    and "submit_if_ready N (calls\<lparr>rc_prove_receipt := (\<lambda>_. Inl e)\<rparr>) enabled tid st ci db = (r, db')"
  shows "rd_sent db' \<noteq> []"
  using assms
  by (auto simp: submit_if_ready_def obtain_reservation_def Let_def split: if_splits sum.splits prod.splits option.splits)

section \<open>Isolation of the tokens\<close>

definition only_token :: "int \<Rightarrow> root_db \<Rightarrow> root_db \<Rightarrow> bool" where
  "only_token tid db db' \<longleftrightarrow>
     (\<forall>tid'. tid' \<noteq> tid \<longrightarrow> rd_state db' tid' = rd_state db tid' \<and> (\<forall>e. rd_ivc db' (tid', e) = rd_ivc db (tid', e)))"

lemma only_token_refl [simp]: "only_token tid db db"
  by (simp add: only_token_def)

lemma only_token_trans: "only_token tid a b \<Longrightarrow> only_token tid b c \<Longrightarrow> only_token tid a c"
  by (simp add: only_token_def)

lemma only_token_sent [simp]: "only_token tid db (db'\<lparr>rd_sent := s\<rparr>) = only_token tid db db'"
  "only_token tid (db\<lparr>rd_sent := s\<rparr>) db' = only_token tid db db'"
  by (simp_all add: only_token_def)

lemma only_token_writes:
  "upsert_prover_state db tid b c s p h = Inr db' \<Longrightarrow> only_token tid db db'"
  "update_last_compiled_index db tid i = Inr db' \<Longrightarrow> only_token tid db db'"
  "only_token tid db (delete_ivc_proofs db tid)"
  "upsert_ivc_proof db tid st en bs hc r = Inr db' \<Longrightarrow> only_token tid db db'"
  by (auto simp: only_token_def upsert_prover_state_def update_last_compiled_index_def delete_ivc_proofs_def
      upsert_ivc_proof_def Let_def res_bind_Inr_iff)

lemma only_token_align: "ensure_state_alignment db tid b = (r, db') \<Longrightarrow> only_token tid db db'"
  by (auto simp: ensure_state_alignment_def Let_def split: sum.splits option.splits if_splits
      intro: only_token_writes only_token_trans)

lemma only_token_compile: "compile_loop N tid t m b evs nv k db = (r, db') \<Longrightarrow> only_token tid db db'"
proof (induction evs arbitrary: nv k db)
  case (Cons ev evs)
  have "only_token tid db db1" if "compile_event N tid t m b ev nv k db = Inr (nv1, db1)" for nv1 db1
    using that only_token_writes(4) by (auto simp: compile_event_def res_bind_Inr_iff)
  then show ?case
    using Cons only_token_trans by (fastforce split: if_splits sum.splits prod.splits)
qed simp

lemma only_token_sync: "sync_ivc_proofs N tid t m rows st ci db = (r, db') \<Longrightarrow> only_token tid db db'"
  by (auto simp: sync_ivc_proofs_def Let_def split: if_splits sum.splits prod.splits
      dest: only_token_compile only_token_writes(2) intro: only_token_trans)

lemma only_token_finish:
  assumes "finish_submission tid k db = (r, db')"
  shows "only_token tid db db'"
proof (cases "reset_state_after_submission db tid k")
  case (Inl e)
  with assms show ?thesis
    by (simp add: finish_submission_def)
next
  case (Inr db1)
  obtain x db2 where al: "ensure_state_alignment (delete_ivc_proofs db1 tid) tid k = (x, db2)"
    by fastforce
  have "only_token tid db db1"
    using Inr only_token_writes(1) by (simp add: reset_state_after_submission_def)
  moreover have "only_token tid db1 db2"
    using only_token_trans [OF only_token_writes(3) only_token_align [OF al]] .
  moreover have "db' = db2"
    using assms Inr al by (auto simp: finish_submission_def split: sum.splits)
  ultimately show ?thesis
    using only_token_trans by blast
qed

lemma only_token_reserve:
  assumes "obtain_reservation calls tid k st db = (r, db')"
  shows "only_token tid db db'"
  using assms only_token_writes(1)
  by (auto simp: obtain_reservation_def persist_pending_reservation_def res_bind_Inr_iff Let_def lift_call_def
      split: option.splits sum.splits if_splits prod.splits)

lemma only_token_submit: "only_token tid db (snd (submit_if_ready N calls en tid st ci db))"
proof (cases "ps_compiled st \<le> ps_submitted st \<or> ci < ps_compiled st")
  case True
  then show ?thesis
    by (auto simp: submit_if_ready_def)
next
  case False
  let ?k = "ps_compiled st"
  obtain ro db1 where ro: "obtain_reservation calls tid ?k st db = (ro, db1)"
    by fastforce
  note only1 = only_token_reserve [OF ro]
  have fin: "only_token tid db (snd (finish_submission tid ?k (db1\<lparr>rd_sent := s\<rparr>)))" for s
    using only_token_trans [OF only1] only_token_finish [of tid ?k "db1\<lparr>rd_sent := s\<rparr>", OF surjective_pairing] by simp
  show ?thesis
    using False only1 fin
    by (cases "wait_for_ivc_record db tid ?k"; cases ro)
      (simp_all add: submit_if_ready_def Let_def ro split: sum.split prod.split)
qed

section \<open>A cycle for a token\<close>

text \<open>
  The circumstances of a cycle: the configuration the circuits are made for, a log within
  the limits of the circuit, tables that hold its first \<open>n\<close> transfers, a verifier that has
  proved \<open>p\<close> of them, and a history window that reaches back to \<open>p\<close> and is kept by the tree.
\<close>

definition log_fits :: "indexed_event list \<Rightarrow> bool" where
  "log_fits log \<longleftrightarrow> length log < 2 ^ 40 \<and> (\<forall>e \<in> set log. unat (ev_amount e) < 2 ^ 248)"

definition window_ok :: "root_job_config \<Rightarrow> tree_job_config \<Rightarrow> nat \<Rightarrow> nat \<Rightarrow> bool" where
  "window_ok cfg tcfg p current \<longleftrightarrow> current \<le> p + rj_history_window cfg \<and> p + rj_history_window cfg < 2 ^ 64
     \<and> rj_history_window cfg \<le> tj_history_window tcfg"

definition cycle_ready ::
  "(fr \<Rightarrow> fr \<Rightarrow> fr) \<Rightarrow> (bytes \<Rightarrow> bytes) \<Rightarrow> root_job_config \<Rightarrow> tree_job_config \<Rightarrow> root_calls \<Rightarrow> token_entry \<Rightarrow> int
     \<Rightarrow> indexer_db \<Rightarrow> indexed_event list \<Rightarrow> nat \<Rightarrow> nat \<Rightarrow> bool" where
  "cycle_ready H sha cfg tcfg calls t tid idb log n p \<longleftrightarrow>
     te_chain_id t < 2 ^ 63 \<and> tree_config_ok tcfg \<and> tj_height tcfg = TRANSFER_TREE_HEIGHT
     \<and> token_id_of idb t = Some tid \<and> 0 < tid
     \<and> log_fits log \<and> cycle_events log (idb_events idb tid) n \<and> n \<le> length log
     \<and> tree_holds H sha tcfg tid (idb_merkle idb) (take n log)
     \<and> rc_index calls = Inr (length log) \<and> p \<le> length log
     \<and> (if rj_submit_enabled cfg then rc_latest_proved calls = Inr p else p = 0)
     \<and> window_ok cfg tcfg p (length log)"

lemma cycle_ready_tree:
  assumes "cycle_ready H sha cfg tcfg calls t tid idb log n p"
  shows "cycle_tree H sha (job_tree H tcfg tid) (idb_merkle idb) (map transfer_of log) n"
  using assms tree_config_okD(2) [of tcfg H tid]
  by (auto simp: cycle_ready_def cycle_tree_def log_fits_def tree_holds_def transfer_of_def take_map)

lemma process_token_compiles:
  assumes nova: "nova_ok H sha N origin" and sha: "digest32 sha"
    and ready: "cycle_ready H sha cfg tcfg calls t tid idb log n p"
    and inv: "root_inv H sha N origin tid (map transfer_of log) db"
  shows "\<exists>st db1. prover_inv H sha N origin tid (map transfer_of log) st db1 \<and> ps_base st = p \<and> n \<le> ps_compiled st
    \<and> rd_sent db1 = rd_sent db \<and> only_token tid db db1
    \<and> process_token_inner N calls cfg H tcfg t idb True do_submit db =
        (if do_submit then
           (case submit_if_ready N calls (rj_submit_enabled cfg) tid st (length log) db1 of
              (Inl e, db3) \<Rightarrow> (Inl e, db3) | (Inr _, db3) \<Rightarrow> (Inr (), db3))
         else (Inr (), db1))"
proof -
  let ?ts = "map transfer_of log" and ?t = "job_tree H tcfg tid" and ?edb = "idb_events idb tid"
  note r = ready [unfolded cycle_ready_def]
  have tree: "cycle_tree H sha ?t (idb_merkle idb) ?ts n"
    by (rule cycle_ready_tree [OF ready])
  have n63: "length ?ts < 2 ^ 63"
    using r by (simp add: log_fits_def)
  obtain st0 db0 where al: "ensure_state_alignment db tid p = (Inr st0, db0)" "prover_inv H sha N origin tid ?ts st0 db0"
      "ps_base st0 = p" "rd_sent db0 = rd_sent db"
    using ensure_state_alignment_ok [OF inv _ n63, of p] r by auto
  have win: "n \<le> Suc (ps_compiled st0) + dt_window ?t"
    using r al(2,3) by (simp add: window_ok_def prover_inv_def)
  have ev: "cycle_events log ?edb n"
    using r by simp
  let ?st = "st0\<lparr>ps_compiled := max (ps_compiled st0) (min n (length log))\<rparr>"
  obtain db1 where sync: "sync_ivc_proofs N tid ?t (idb_merkle idb) (event_rows ?edb) st0 (length log) db0 = (Inr ?st, db1)"
      "prover_inv H sha N origin tid ?ts ?st db1" "rd_sent db1 = rd_sent db0"
    using sync_ivc_proofs_ok [OF nova sha tree ev al(2) win] by blast
  obtain row where row: "find_token (idb_tokens idb) (address_bytes (te_token_address t)) (int (te_chain_id t)) = Some row"
      "tk_id row = tid"
    using r by (auto simp: token_id_of_def)
  have "process_token_inner N calls cfg H tcfg t idb True do_submit db =
        (if do_submit then
           (case submit_if_ready N calls (rj_submit_enabled cfg) tid ?st (length log) db1 of
              (Inl e, db3) \<Rightarrow> (Inl e, db3) | (Inr _, db3) \<Rightarrow> (Inr (), db3))
         else (Inr (), db1))"
    using r row al(1) sync(1) tree_config_okD(3) [of tcfg tid H]
    by (simp add: process_token_inner_def lift_tree_def lift_call_def window_ok_def Let_def split: if_splits)
  moreover have "only_token tid db db1"
    using only_token_trans [OF only_token_align [OF al(1)] only_token_sync [OF sync(1)]] .
  moreover have "ps_base ?st = p" "n \<le> ps_compiled ?st" "rd_sent db1 = rd_sent db"
    using al(3,4) sync(3) r by simp_all
  ultimately show ?thesis
    using sync(2) by blast
qed

text \<open>
  Outside the window the job refuses the token before it changes anything, at every cycle until
  the settings change: a token whose verifier is more than the history window behind is not
  proved any more.
\<close>

lemma history_window_exhausted:
  assumes "te_chain_id t < 2 ^ 63" "tree_config_ok tcfg" "token_id_of idb t = Some tid" "0 < tid" "rj_submit_enabled cfg"
    and "rc_index calls = Inr current" "rc_latest_proved calls = Inr p"
    and "p + rj_history_window cfg < current" "current < 2 ^ 64" "do_compile \<or> do_submit"
  shows "process_token_inner N calls cfg H tcfg t idb do_compile do_submit db = (Inl (RootError ''history window exhausted''), db)"
proof -
  obtain row where "find_token (idb_tokens idb) (address_bytes (te_token_address t)) (int (te_chain_id t)) = Some row" "tk_id row = tid"
    using assms(3) by (auto simp: token_id_of_def)
  then show ?thesis
    using assms tree_config_okD(3) [OF assms(2,4), of H]
    by (auto simp: process_token_inner_def u64_to_i64_def lift_tree_def lift_call_def Let_def)
qed

lemma process_only_token:
  assumes "process_token_inner N calls cfg H tcfg t idb do_compile do_submit db = (r, db')"
  shows "db' = db \<or> (\<exists>tid. token_id_of idb t = Some tid \<and> only_token tid db db')"
proof (cases "token_id_of idb t")
  case None
  then show ?thesis
    using assms
    by (auto simp: process_token_inner_def token_id_of_def u64_to_i64_def split: if_splits)
next
  case (Some tid)
  then obtain row where row: "find_token (idb_tokens idb) (address_bytes (te_token_address t)) (int (te_chain_id t)) = Some row"
      "tk_id row = tid"
    by (auto simp: token_id_of_def)
  have submit: "submit_if_ready N calls en tid st ci db2 = (x, db3) \<Longrightarrow> only_token tid db2 db3" for db2 db3 en st ci x
    using only_token_submit [of tid db2 N calls en st ci] by simp
  have "only_token tid db db'"
    using assms row
    by (simp add: process_token_inner_def Let_def u64_to_i64_def split: if_splits sum.splits prod.splits;
        metis only_token_align only_token_sync submit only_token_trans only_token_refl prod.inject)
  then show ?thesis
    using Some by blast
qed

text \<open>A token is proved: the job's base is the end of the log.\<close>

definition token_proved ::
  "(fr \<Rightarrow> fr \<Rightarrow> fr) \<Rightarrow> (bytes \<Rightarrow> bytes) \<Rightarrow> ('n, 'i) nova_ops \<Rightarrow> ('n \<Rightarrow> fr list) \<Rightarrow> int \<Rightarrow> transfer list \<Rightarrow> nat
     \<Rightarrow> root_db \<Rightarrow> bool" where
  "token_proved H sha N origin tid ts p db \<longleftrightarrow>
     (\<exists>st. prover_inv H sha N origin tid ts st db \<and> ps_base st = length ts)
     \<and> (p < length ts \<longrightarrow> (\<exists>bs d. (bs, d, True) \<in> set (rd_sent db)
          \<and> attests N origin bs (root_state H sha (take p ts)) (root_state H sha ts)))"

text \<open>The verifier contract reserves the chain it is at, and takes the proof.\<close>

definition submission_ready :: "(bytes \<Rightarrow> bytes) \<Rightarrow> root_job_config \<Rightarrow> root_calls \<Rightarrow> indexed_event list \<Rightarrow> bool" where
  "submission_ready sha cfg calls log \<longleftrightarrow> rj_submit_enabled cfg \<and> calls_answer calls
     \<and> rc_reserve calls = Inr (length log, chain_of sha (map transfer_of log))"

lemma process_token_proves:
  assumes nova: "nova_ok H sha N origin" and sha: "digest32 sha"
    and ready: "cycle_ready H sha cfg tcfg calls t tid idb log (length log) p" and sub: "submission_ready sha cfg calls log"
    and inv: "root_inv H sha N origin tid (map transfer_of log) db"
  shows "\<exists>db'. process_token_inner N calls cfg H tcfg t idb True True db = (Inr (), db')
    \<and> token_proved H sha N origin tid (map transfer_of log) p db' \<and> only_token tid db db'
    \<and> set (rd_sent db) \<subseteq> set (rd_sent db')"
proof -
  let ?ts = "map transfer_of log"
  obtain st db1 where st: "prover_inv H sha N origin tid ?ts st db1" "ps_base st = p" "length log \<le> ps_compiled st"
      "rd_sent db1 = rd_sent db" "only_token tid db db1"
      "process_token_inner N calls cfg H tcfg t idb True True db =
         (case submit_if_ready N calls (rj_submit_enabled cfg) tid st (length log) db1 of
            (Inl e, db3) \<Rightarrow> (Inl e, db3) | (Inr _, db3) \<Rightarrow> (Inr (), db3))"
    using process_token_compiles [OF nova sha ready inv, of True] by auto
  have k: "ps_compiled st = length log" "ps_submitted st = p" "p \<le> length log"
    using st(1-3) ready by (simp_all add: prover_inv_def cycle_ready_def)
  show ?thesis
  proof (cases "p < length log")
    case True
    have n: "length ?ts < 2 ^ 40"
      using ready by (simp add: cycle_ready_def log_fits_def)
    obtain db' bs d where db': "submit_if_ready N calls True tid st (length log) db1 = (Inr (aligned_state (length log)), db')"
        "rd_sent db' = (bs, d, True) # rd_sent db1" "attests N origin bs (root_state H sha (take p ?ts)) (root_state H sha ?ts)"
        "prover_inv H sha N origin tid ?ts (aligned_state (length log)) db'"
      using submit_ok [OF nova sha n st(1), of "length log" calls] sub k st(2) True by (auto simp: submission_ready_def)
    have "only_token tid db db'"
      using only_token_trans [OF st(5)] only_token_submit [of tid db1 N calls True st "length log"] db'(1) by simp
    moreover have "token_proved H sha N origin tid ?ts p db'"
      using db' by (auto simp: token_proved_def aligned_state_def)
    ultimately show ?thesis
      using st(4,6) db'(1,2) sub by (auto simp: submission_ready_def)
  next
    case False
    then have "submit_if_ready N calls (rj_submit_enabled cfg) tid st (length log) db1 = (Inr st, db1)"
      using k by (simp add: submit_if_ready_def)
    then show ?thesis
      using st k False by (auto simp: token_proved_def)
  qed
qed

section \<open>A transparent folding scheme\<close>

text \<open>
  An instance of the parameters: proofs that carry the state they started from and the
  state they reached in clear.
\<close>

fun enc_list :: "fr list \<Rightarrow> bytes" where
  "enc_list [] = [0]"
| "enc_list (x # xs) = 1 # fr_to_bytes x @ enc_list xs"

function dec_list :: "bytes \<Rightarrow> fr list \<times> bytes" where
  "dec_list [] = ([], [])"
| "dec_list (b # bs) =
     (if b = 1 then (let (xs, rest) = dec_list (drop 32 bs) in (fr_of_nat (nat_of_be (take 32 bs)) # xs, rest))
      else ([], bs))"
  by pat_completeness auto
termination
  by (relation "measure length") auto

lemma fr_of_fr_to_bytes [simp, codec_simps]: "fr_of_nat (nat_of_be (fr_to_bytes x)) = x" "length (fr_to_bytes x) = 32"
  using bytes_to_fr_fr_to_bytes [of x] by (simp_all add: bytes_to_fr_def split: if_splits)

lemma dec_enc_list [simp]: "dec_list (enc_list xs @ rest) = (xs, rest)"
  by (induction xs) simp_all

definition clear_nova :: "(fr \<Rightarrow> fr \<Rightarrow> fr) \<Rightarrow> (bytes \<Rightarrow> bytes) \<Rightarrow> (fr list \<times> fr list, fr list \<times> fr list) nova_ops" where
  "clear_nova H sha = \<lparr>
     nv_init = (\<lambda>z. Inr (z, z)),
     nv_prove_step = (\<lambda>n e. case root_step H sha (snd n) e of None \<Rightarrow> Inl ''unsatisfied'' | Some z \<Rightarrow> Inr (fst n, z)),
     nv_state = snd, nv_ivc_proof = (\<lambda>n. n), nv_verify = (\<lambda>_. Inr ()), nv_from_ivc = Inr,
     nv_serialize = (\<lambda>(a, b). Inr (enc_list a @ enc_list b)),
     nv_deserialize = (\<lambda>bs. let (a, rest) = dec_list bs in Inr (a, fst (dec_list rest)))\<rparr>"

lemma clear_nova_ok: "nova_ok H sha (clear_nova H sha) fst"
  using dec_enc_list [of _ "[]"]
  by (auto simp: nova_ok_def clear_nova_def Let_def split: option.splits)

lemma clear_attests [simp]: "attests (clear_nova H sha) fst (enc_list a @ enc_list b) a b"
  using dec_enc_list [of b "[]"] by (simp add: attests_def clear_nova_def Let_def)

section \<open>The properties\<close>

text \<open>
  The history guard is enough: whenever a cycle passes the check of the history
  window, and the window of the job is not larger than the tree's, compiling succeeds.
  Afterwards the job's base is the verifier's index, everything in the tree is compiled,
  every stored record proves the transition from the base to its index, and nothing was
  sent to the chain.
\<close>

theorem root_cycle_compiles:
  assumes "nova_ok H sha N origin" "digest32 sha" "cycle_ready H sha cfg tcfg calls t tid idb log n p"
    and "root_inv H sha N origin tid (map transfer_of log) db"
  shows "\<exists>st db'. process_token_inner N calls cfg H tcfg t idb True False db = (Inr (), db')
    \<and> prover_inv H sha N origin tid (map transfer_of log) st db' \<and> ps_base st = p \<and> n \<le> ps_compiled st
    \<and> rd_sent db' = rd_sent db"
  using process_token_compiles [OF assms, of False] by auto

text \<open>The sample token at the height of the circuits, with its first transfer proved.\<close>

definition tall_config :: tree_job_config where
  "tall_config = sample_tree_config\<lparr>tj_height := TRANSFER_TREE_HEIGHT\<rparr>"

definition sample_calls :: root_calls where
  "sample_calls = \<lparr>rc_index = Inr 3, rc_latest_proved = Inr 1,
     rc_reserve = Inr (3, chain_of const_sha (map transfer_of sample_log)),
     rc_decider = Inr, rc_prove_root = (\<lambda>_. Inr ()), rc_prove_receipt = (\<lambda>_. Inr ())\<rparr>"

definition sample_root_config :: root_job_config where
  "sample_root_config = \<lparr>rj_history_window = 2, rj_submit_enabled = True\<rparr>"

definition empty_root_db :: root_db where
  "empty_root_db = \<lparr>rd_ivc = Map.empty, rd_state = Map.empty, rd_sent = []\<rparr>"

lemma tall_world: "tree_world sample_logs (\<lambda>_. 20) tall_config [sample_token 1]"
  using sample_worlds(2)
  by (simp add: tree_world_def tokens_ok_def tree_config_ok_def tree_config_ensure_valid_def tall_config_def
      sample_tree_config_def sample_logs_def sample_token_def sample_length db_config_new_def TRANSFER_TREE_HEIGHT_def)

lemma sample_event_world:
  "event_world sample_chains sample_logs (\<lambda>_. 20) \<lparr>block_span = 4, forward_scan_overlap = 1\<rparr> [sample_token 1]"
  using sample_worlds(1) by (simp add: event_world_def tokens_ok_def)

lemma tall_run:
  "\<exists>db1 db2 tid. event_run_once (\<lambda>_. 0) sample_chains 5 1 \<lparr>block_span = 4, forward_scan_overlap = 1\<rparr>
        [sample_token 1] empty_indexer = Some db1
    \<and> tree_run_once toy_hash const_sha (\<lambda>_. 0) 6 2 tall_config [sample_token 1] db1 = Some db2
    \<and> cycle_ready toy_hash const_sha sample_root_config tall_config sample_calls (sample_token 1) tid db2 sample_log 3 1"
proof -
  obtain db1 db2 where run: "event_run_once (\<lambda>_. 0) sample_chains 5 1 \<lparr>block_span = 4, forward_scan_overlap = 1\<rparr>
        [sample_token 1] empty_indexer = Some db1"
      "tree_run_once toy_hash const_sha (\<lambda>_. 0) 6 2 tall_config [sample_token 1] db1 = Some db2"
      "indexer_inv toy_hash const_sha tall_config sample_logs [sample_token 1] db2"
      "token_complete toy_hash const_sha tall_config sample_logs (sample_token 1) db2"
    using indexer_run_ok [where H = toy_hash and sha = const_sha and hasher = "\<lambda>_. 0" and now = 5 and holder = 1 and now' = 6 and holder' = 2,
        OF sample_event_world tall_world indexer_inv_empty] by auto
  have logs: "sample_logs (sample_token 1) = sample_log"
    by (simp add: sample_logs_def sample_token_def)
  obtain tid where tid: "token_id_of db2 (sample_token 1) = Some tid" "covered_count (idb_events db2 tid) = 3"
      "tree_holds toy_hash const_sha tall_config tid (idb_merkle db2) sample_log"
    using run(4) by (auto simp: token_complete_def logs sample_length simp del: One_nat_def)
  have "0 < tid"
    using token_id_bounds(1) [OF _ tid(1)] run(3) by (simp add: indexer_inv_def tables_inv_def)
  moreover have "events_inv sample_log (idb_events db2 tid)"
    using run(3) tid(1) by (simp add: indexer_inv_def tables_inv_def token_inv_def logs del: One_nat_def)
  moreover have "take 3 sample_log = sample_log" "log_fits sample_log" "tree_config_ok tall_config"
      "tj_height tall_config = TRANSFER_TREE_HEIGHT" "window_ok sample_root_config tall_config 1 3"
    using tall_world
    by (simp_all add: sample_log_def log_fits_def sample_event_def tree_world_def tall_config_def window_ok_def
        sample_root_config_def sample_tree_config_def)
  ultimately have "cycle_ready toy_hash const_sha sample_root_config tall_config sample_calls (sample_token 1) tid db2 sample_log 3 1"
    using tid sample_chain(1)
    by (auto simp: cycle_ready_def cycle_events_def sample_length sample_calls_def sample_root_config_def)
      (simp add: sample_token_def)
  with run(1,2) show ?thesis
    by blast
qed

theorem root_cycle_compiles_witness:
  "\<exists>db1 db2 tid st db'. event_run_once (\<lambda>_. 0) sample_chains 5 1 \<lparr>block_span = 4, forward_scan_overlap = 1\<rparr>
        [sample_token 1] empty_indexer = Some db1
    \<and> tree_run_once toy_hash const_sha (\<lambda>_. 0) 6 2 tall_config [sample_token 1] db1 = Some db2
    \<and> process_token_inner (clear_nova toy_hash const_sha) sample_calls sample_root_config toy_hash tall_config
        (sample_token 1) db2 True False empty_root_db = (Inr (), db')
    \<and> prover_inv toy_hash const_sha (clear_nova toy_hash const_sha) fst tid (map transfer_of sample_log) st db'
    \<and> ps_base st = 1 \<and> 3 \<le> ps_compiled st"
proof -
  obtain db1 db2 tid where run: "event_run_once (\<lambda>_. 0) sample_chains 5 1 \<lparr>block_span = 4, forward_scan_overlap = 1\<rparr>
        [sample_token 1] empty_indexer = Some db1"
      "tree_run_once toy_hash const_sha (\<lambda>_. 0) 6 2 tall_config [sample_token 1] db1 = Some db2"
      "cycle_ready toy_hash const_sha sample_root_config tall_config sample_calls (sample_token 1) tid db2 sample_log 3 1"
    using tall_run by blast
  have "root_inv toy_hash const_sha (clear_nova toy_hash const_sha) fst tid (map transfer_of sample_log) empty_root_db"
    by (simp add: root_inv_def empty_root_db_def)
  from root_cycle_compiles [OF clear_nova_ok digest32_const_sha run(3) this] run(1,2) show ?thesis
    by blast
qed

text \<open>
  \<^bold>\<open>C8\<close>. Safety of submission, whatever the verifier contract and the decider answer and
  wherever the submission stops, also between sending the transaction and its receipt: at most
  one transaction with a proof is handed over, only with submissions enabled and not beyond
  the contract's index; what the decider compressed for it proves the transition from the root
  state at the job's base to the root state at the compiled index of the contract's log; and
  it counts as mined exactly when the node accepted it and its receipt reported success.
\<close>

theorem root_submission_safe:
  assumes "nova_ok H sha N origin" "digest32 sha" "length ts < 2 ^ 40" "prover_inv H sha N origin tid ts st db"
    and "submit_if_ready N calls enabled tid st contract_index db = (r, db')"
  shows "rd_sent db' = rd_sent db \<or> (enabled \<and> ps_base st < ps_compiled st \<and> ps_compiled st \<le> contract_index
    \<and> (\<exists>bs d mined. rd_sent db' = (bs, d, mined) # rd_sent db \<and> rc_decider calls bs = Inr d
        \<and> (mined \<longleftrightarrow> rc_prove_root calls d = Inr () \<and> rc_prove_receipt calls d = Inr ())
        \<and> attests N origin bs (root_state H sha (take (ps_base st) ts)) (root_state H sha (take (ps_compiled st) ts))))"
  using assms by (rule submit_safe)

definition compiled_state :: prover_state where
  "compiled_state = \<lparr>ps_base = 0, ps_compiled = 1, ps_submitted = 0, ps_pending_index = None, ps_pending_chain = None\<rparr>"

definition compiled_row :: ivc_row where
  "compiled_row = \<lparr>ir_start = 0,
     ir_proof = enc_list (root_state toy_hash const_sha []) @ enc_list (root_state toy_hash const_sha [(2, 5)]),
     ir_state_index = 1, ir_hash_chain = fr_to_bytes (u256_to_fr (chain_of const_sha [(2, 5)])),
     ir_root = fr_to_bytes (node toy_hash (transfer_leaves toy_hash [(2, 5)]) TRANSFER_TREE_HEIGHT 0)\<rparr>"

definition compiled_db :: root_db where
  "compiled_db = \<lparr>rd_ivc = [(1, 1) \<mapsto> compiled_row], rd_state = [1 \<mapsto> prover_row_of compiled_state], rd_sent = []\<rparr>"

lemma compiled_db_ok:
  "prover_inv toy_hash const_sha (clear_nova toy_hash const_sha) fst 1 [(2, 5)] compiled_state compiled_db"
proof -
  have "ivc_rows_ok toy_hash const_sha (clear_nova toy_hash const_sha) fst 1 [(2, 5)] 0 compiled_db"
    by (auto simp: ivc_rows_ok_def compiled_db_def ivc_row_ok_def compiled_row_def intro!: exI [of _ "1 :: nat"]
        split: if_splits)
  then show ?thesis
    by (simp add: prover_inv_def compiled_db_def compiled_state_def pending_ok_def)
qed

text \<open>The receipt of the transaction never comes.\<close>

theorem root_submission_safe_witness:
  "\<exists>db' r bs d. submit_if_ready (clear_nova toy_hash const_sha)
      (sample_calls\<lparr>rc_reserve := Inr (1, chain_of const_sha [(2, 5)]), rc_prove_receipt := (\<lambda>_. Inl (RootCall ''no receipt''))\<rparr>)
      True 1 compiled_state 1 compiled_db = (r, db')
    \<and> rd_sent db' = [(bs, d, False)]
    \<and> attests (clear_nova toy_hash const_sha) fst bs (root_state toy_hash const_sha []) (root_state toy_hash const_sha [(2, 5)])"
proof -
  let ?calls = "sample_calls\<lparr>rc_reserve := Inr (1, chain_of const_sha [(2, 5)])\<rparr>"
  let ?lost = "?calls\<lparr>rc_prove_receipt := (\<lambda>_. Inl (RootCall ''no receipt''))\<rparr>"
  have a: "calls_answer ?calls" "rc_reserve ?calls = Inr (ps_compiled compiled_state,
      chain_of const_sha (take (ps_compiled compiled_state) [(2, 5)]))"
    by (simp_all add: calls_answer_def sample_calls_def compiled_state_def)
  obtain db0 bs0 d0 where run: "submit_if_ready (clear_nova toy_hash const_sha) ?calls True 1 compiled_state 1 compiled_db
        = (Inr (aligned_state (ps_compiled compiled_state)), db0)" "rd_sent db0 = (bs0, d0, True) # rd_sent compiled_db"
    using submit_ok [OF clear_nova_ok digest32_const_sha _ compiled_db_ok _ _ a, of 1]
    by (auto simp: compiled_state_def)
  obtain r db' where lost: "submit_if_ready (clear_nova toy_hash const_sha) ?lost True 1 compiled_state 1 compiled_db = (r, db')"
    by fastforce
  have "rd_sent db' \<noteq> []"
    using run lost submit_lost [of "clear_nova toy_hash const_sha" ?calls True 1 compiled_state 1 compiled_db] by (auto simp: compiled_db_def)
  with root_submission_safe [OF clear_nova_ok digest32_const_sha _ compiled_db_ok lost] lost show ?thesis
    by (auto simp: compiled_state_def compiled_db_def)
qed

text \<open>
  Isolation: whatever happens in a cycle for one token, with any folding scheme and
  any answers of the chain, the prover state and the proofs of every other token stay.
\<close>

theorem root_cycle_isolated:
  assumes "process_token_inner N calls cfg H tcfg t idb do_compile do_submit db = (r, db')"
    and "token_id_of idb t \<noteq> Some tid'"
  shows "rd_state db' tid' = rd_state db tid' \<and> rd_ivc db' (tid', e) = rd_ivc db (tid', e)"
  using process_only_token [OF assms(1)] assms(2) by (auto simp: only_token_def)

theorem root_cycle_isolated_witness:
  "\<exists>r db'. process_token_inner (clear_nova toy_hash const_sha) sample_calls sample_root_config toy_hash tall_config
        (sample_token 1) partial_indexer True True compiled_db = (r, db')
    \<and> rd_ivc db' (2, 1) = None"
proof -
  obtain r db' where run: "process_token_inner (clear_nova toy_hash const_sha) sample_calls sample_root_config toy_hash
      tall_config (sample_token 1) partial_indexer True True compiled_db = (r, db')"
    by fastforce
  have "token_id_of partial_indexer (sample_token 1) \<noteq> Some 2"
    by (simp add: token_id_of_def partial_indexer_def find_token_def)
  from root_cycle_isolated [OF run this, of 1] run show ?thesis
    by (simp add: compiled_db_def)
qed

end
