(* ===== verification/Indexer_Main.thy ===== *)
theory Indexer_Main
  imports Root_Job_Props
begin

text \<open>
  The composition of the three jobs in \<open>indexer/src/main.rs\<close>: with \<open>--once\<close> the event job,
  the tree job and the root prover job run one after the other over the same tokens.
  The first part carries the guarantee for one token through the cycle over all tokens,
  the second one is the pipeline from the log of a contract to its proved root. \<open>None\<close> stands
  for a run that does not return, because a scan goes on for ever or the root job panics.
\<close>

section \<open>The program\<close>

text \<open>One round of the root prover job, and the whole program with \<open>--once\<close>.\<close>

definition root_run_once ::
  "('n, 'i) nova_ops \<Rightarrow> (token_entry \<Rightarrow> root_calls) \<Rightarrow> root_job_config \<Rightarrow> (fr \<Rightarrow> fr \<Rightarrow> fr) \<Rightarrow> tree_job_config
     \<Rightarrow> default_hasher \<Rightarrow> nat \<Rightarrow> nat \<Rightarrow> token_entry list \<Rightarrow> indexer_db \<times> root_db \<Rightarrow> (indexer_db \<times> root_db) option" where
  "root_run_once N calls cfg H tcfg hasher now holder tokens w =
     run_cycle N calls cfg H tcfg hasher now holder True True tokens w"

text \<open>The times at which the jobs start, and the lease holders they draw.\<close>

record job_times =
  jt_event :: "nat \<times> nat"
  jt_tree :: "nat \<times> nat"
  jt_root :: "nat \<times> nat"

definition main_once ::
  "('n, 'i) nova_ops \<Rightarrow> (token_entry \<Rightarrow> token_chain) \<Rightarrow> (token_entry \<Rightarrow> root_calls) \<Rightarrow> indexer_config \<Rightarrow> tree_job_config
     \<Rightarrow> root_job_config \<Rightarrow> (fr \<Rightarrow> fr \<Rightarrow> fr) \<Rightarrow> (bytes \<Rightarrow> bytes) \<Rightarrow> default_hasher \<Rightarrow> job_times \<Rightarrow> token_entry list \<Rightarrow> bool
     \<Rightarrow> indexer_db \<times> root_db \<Rightarrow> (indexer_db \<times> root_db) option" where
  "main_once N chain calls ecfg tcfg rcfg H sha hasher jt tokens run_sync w =
     (if \<not> run_sync then Some w
      else case event_run_once hasher chain (fst (jt_event jt)) (snd (jt_event jt)) ecfg tokens (fst w) of
        None \<Rightarrow> None
      | Some idb1 \<Rightarrow>
     (case tree_run_once H sha hasher (fst (jt_tree jt)) (snd (jt_tree jt)) tcfg tokens idb1 of
        None \<Rightarrow> None
      | Some idb2 \<Rightarrow>
          root_run_once N calls rcfg H tcfg hasher (fst (jt_root jt)) (snd (jt_root jt)) tokens (idb2, snd w)))"

section \<open>Frames\<close>

lemma prover_inv_frame:
  assumes "only_token tid db db'" "tid' \<noteq> tid"
  shows "prover_inv H sha N origin tid' ts st db' = prover_inv H sha N origin tid' ts st db"
    and "root_inv H sha N origin tid' ts db' = root_inv H sha N origin tid' ts db"
  using assms by (simp_all add: prover_inv_def root_inv_def ivc_rows_ok_def only_token_def)

lemma token_proved_frame:
  assumes "token_proved H sha N origin tid' ts p db" "only_token tid db db'" "tid' \<noteq> tid"
    and "set (rd_sent db) \<subseteq> set (rd_sent db')"
  shows "token_proved H sha N origin tid' ts p db'"
  using assms prover_inv_frame [OF assms(2,3)] unfolding token_proved_def by (meson subsetD)

lemma cycle_ready_leases [simp]:
  "cycle_ready H sha cfg tcfg calls t tid (idb\<lparr>idb_leases := ls\<rparr>) log n p = cycle_ready H sha cfg tcfg calls t tid idb log n p"
  by (simp add: cycle_ready_def)

section \<open>A cycle over all tokens\<close>

text \<open>What a token needs to be proved in this cycle.\<close>

definition token_ready ::
  "(fr \<Rightarrow> fr \<Rightarrow> fr) \<Rightarrow> (bytes \<Rightarrow> bytes) \<Rightarrow> ('n, 'i) nova_ops \<Rightarrow> ('n \<Rightarrow> fr list) \<Rightarrow> root_job_config \<Rightarrow> tree_job_config
     \<Rightarrow> (token_entry \<Rightarrow> root_calls) \<Rightarrow> (token_entry \<Rightarrow> indexed_event list) \<Rightarrow> (token_entry \<Rightarrow> nat) \<Rightarrow> indexer_db \<Rightarrow> root_db
     \<Rightarrow> token_entry \<Rightarrow> int \<Rightarrow> bool" where
  "token_ready H sha N origin cfg tcfg calls logs proved idb db t tid \<longleftrightarrow>
     cycle_ready H sha cfg tcfg (calls t) t tid idb (logs t) (length (logs t)) (proved t)
     \<and> submission_ready sha cfg (calls t) (logs t)
     \<and> root_inv H sha N origin tid (map transfer_of (logs t)) db"

lemma token_ready_id: "token_ready H sha N origin cfg tcfg calls logs proved idb db t tid \<Longrightarrow> token_id_of idb t = Some tid"
  by (simp add: token_ready_def cycle_ready_def)

lemma root_process_token_proves:
  assumes "nova_ok H sha N origin" "digest32 sha" "idb_leases idb = Map.empty"
    and ready: "token_ready H sha N origin cfg tcfg calls logs proved idb db t tid"
  shows "\<exists>db'. root_process_token N calls cfg H tcfg hasher now holder True True t (idb, db) = (Inr (), idb, db')
    \<and> token_proved H sha N origin tid (map transfer_of (logs t)) (proved t) db' \<and> only_token tid db db'
    \<and> set (rd_sent db) \<subseteq> set (rd_sent db')"
proof -
  let ?key = "lock_key_with_salt hasher t ROOT_LOCK_SALT"
  let ?ls = "[?key \<mapsto> \<lparr>lr_holder = holder, lr_expires_at = now + LEASE_TTL\<rparr>]"
  have "cycle_ready H sha cfg tcfg (calls t) t tid (idb\<lparr>idb_leases := ?ls\<rparr>) (logs t) (length (logs t)) (proved t)"
    using ready by (simp add: token_ready_def)
  from process_token_proves [OF assms(1,2) this] ready obtain db' where db':
    "process_token_inner N (calls t) cfg H tcfg t (idb\<lparr>idb_leases := ?ls\<rparr>) True True db = (Inr (), db')"
    "token_proved H sha N origin tid (map transfer_of (logs t)) (proved t) db'" "only_token tid db db'"
    "set (rd_sent db) \<subseteq> set (rd_sent db')"
    by (auto simp: token_ready_def)
  have "idb\<lparr>idb_leases := Map.empty\<rparr> = idb"
    using assms(3) by simp
  then have "root_process_token N calls cfg H tcfg hasher now holder True True t (idb, db) = (Inr (), idb, db')"
    using assms(3) db'(1)
    by (simp add: root_process_token_def try_acquire_lock_def release_lease_def Let_def)
  with db' show ?thesis
    by blast
qed

lemma run_cycle_proves:
  assumes nova: "nova_ok H sha N origin" "digest32 sha" and idb: "idb_leases idb = Map.empty" "registry_ok idb"
    and "distinct (map token_key ts)"
    and "\<forall>t \<in> set ts. \<exists>tid. token_ready H sha N origin cfg tcfg calls logs proved idb db t tid"
  shows "\<exists>db'. run_cycle N calls cfg H tcfg hasher now holder True True ts (idb, db) = Some (idb, db')
    \<and> (\<forall>t \<in> set ts. \<exists>tid. token_id_of idb t = Some tid
         \<and> token_proved H sha N origin tid (map transfer_of (logs t)) (proved t) db')
    \<and> set (rd_sent db) \<subseteq> set (rd_sent db')
    \<and> (\<forall>tid. (\<forall>t \<in> set ts. token_id_of idb t \<noteq> Some tid) \<longrightarrow>
         rd_state db' tid = rd_state db tid \<and> (\<forall>e. rd_ivc db' (tid, e) = rd_ivc db (tid, e)))"
  using assms(5,6)
proof (induction ts arbitrary: db)
  case (Cons t ts)
  then obtain tid where tid: "token_ready H sha N origin cfg tcfg calls logs proved idb db t tid"
    by auto
  note id = token_ready_id [OF tid]
  obtain db1 where db1: "root_process_token N calls cfg H tcfg hasher now holder True True t (idb, db) = (Inr (), idb, db1)"
      "token_proved H sha N origin tid (map transfer_of (logs t)) (proved t) db1" "only_token tid db db1"
      "set (rd_sent db) \<subseteq> set (rd_sent db1)"
    using root_process_token_proves [OF nova idb(1) tid] by blast
  have other: "token_id_of idb t' \<noteq> Some tid" if "t' \<in> set ts" for t'
  proof
    assume "token_id_of idb t' = Some tid"
    then show False
      using token_id_inj [OF idb(2) id] Cons.prems(1) that by (auto simp: image_iff)
  qed
  have "\<exists>tid. token_ready H sha N origin cfg tcfg calls logs proved idb db1 t' tid" if t': "t' \<in> set ts" for t'
  proof -
    obtain tid' where tid': "token_ready H sha N origin cfg tcfg calls logs proved idb db t' tid'"
      using Cons.prems(2) t' by auto
    then have "tid' \<noteq> tid"
      using other [OF t'] token_ready_id by blast
    then show ?thesis
      using tid' by (intro exI [of _ tid']) (simp add: token_ready_def prover_inv_frame(2) [OF db1(3)])
  qed
  with Cons.IH [of db1] Cons.prems(1) obtain db' where db':
    "run_cycle N calls cfg H tcfg hasher now holder True True ts (idb, db1) = Some (idb, db')"
    "\<forall>t \<in> set ts. \<exists>tid. token_id_of idb t = Some tid
       \<and> token_proved H sha N origin tid (map transfer_of (logs t)) (proved t) db'"
    "set (rd_sent db1) \<subseteq> set (rd_sent db')"
    "\<forall>tid. (\<forall>t \<in> set ts. token_id_of idb t \<noteq> Some tid) \<longrightarrow>
       rd_state db' tid = rd_state db1 tid \<and> (\<forall>e. rd_ivc db' (tid, e) = rd_ivc db1 (tid, e))"
    by auto
  have "token_proved H sha N origin tid (map transfer_of (logs t)) (proved t) db'"
    using db1(2) db'(3,4) other
    by (auto simp: token_proved_def prover_inv_def ivc_rows_ok_def)
  then show ?case
    using db1 db' id by (auto simp: only_token_def)
qed simp

section \<open>The pipeline\<close>

text \<open>
  The prover tables of a set of tokens: consistent for every registered token, and empty for
  identifiers that are not given out yet.
\<close>

definition roots_inv ::
  "(fr \<Rightarrow> fr \<Rightarrow> fr) \<Rightarrow> (bytes \<Rightarrow> bytes) \<Rightarrow> ('n, 'i) nova_ops \<Rightarrow> ('n \<Rightarrow> fr list) \<Rightarrow> (token_entry \<Rightarrow> indexed_event list)
     \<Rightarrow> token_entry list \<Rightarrow> indexer_db \<Rightarrow> root_db \<Rightarrow> bool" where
  "roots_inv H sha N origin logs tokens idb db \<longleftrightarrow>
     (\<forall>t \<in> set tokens. \<forall>tid. token_id_of idb t = Some tid \<longrightarrow> root_inv H sha N origin tid (map transfer_of (logs t)) db)
     \<and> (\<forall>tid \<ge> idb_next_id idb. rd_state db tid = None)"

text \<open>
  The contracts answer: every token contract is at the end of its log, its verifier has
  proved \<open>proved t\<close> transfers, reserves the chain of the log and takes proofs, and the
  history window reaches back to what is proved.
\<close>

definition root_world ::
  "(bytes \<Rightarrow> bytes) \<Rightarrow> root_job_config \<Rightarrow> tree_job_config \<Rightarrow> (token_entry \<Rightarrow> root_calls) \<Rightarrow> (token_entry \<Rightarrow> indexed_event list)
     \<Rightarrow> (token_entry \<Rightarrow> nat) \<Rightarrow> token_entry list \<Rightarrow> bool" where
  "root_world sha cfg tcfg calls logs proved tokens \<longleftrightarrow> tj_height tcfg = TRANSFER_TREE_HEIGHT
     \<and> (\<forall>t \<in> set tokens. log_fits (logs t) \<and> submission_ready sha cfg (calls t) (logs t)
          \<and> rc_index (calls t) = Inr (length (logs t)) \<and> rc_latest_proved (calls t) = Inr (proved t)
          \<and> proved t \<le> length (logs t) \<and> window_ok cfg tcfg (proved t) (length (logs t)))"

lemma roots_inv_follow:
  assumes "roots_inv H sha N origin logs tokens idb db" "ids_follow idb idb'" "t \<in> set tokens" "token_id_of idb' t = Some tid"
  shows "root_inv H sha N origin tid (map transfer_of (logs t)) db"
proof (cases "token_id_of idb t")
  case None
  then have "idb_next_id idb \<le> tid"
    using assms(2,4) by (auto simp: ids_follow_def)
  then show ?thesis
    using assms(1) by (simp add: roots_inv_def root_inv_def)
next
  case (Some tid0)
  then show ?thesis
    using assms by (auto simp: ids_follow_def roots_inv_def)
qed

lemma token_ready_complete:
  assumes inv: "indexer_inv H sha tcfg logs tokens idb" and t: "t \<in> set tokens"
    and complete: "token_complete H sha tcfg logs t idb"
    and world: "tree_world logs latest tcfg tokens" "root_world sha cfg tcfg calls logs proved tokens"
    and root: "\<And>tid. token_id_of idb t = Some tid \<Longrightarrow> root_inv H sha N origin tid (map transfer_of (logs t)) db"
  shows "\<exists>tid. token_ready H sha N origin cfg tcfg calls logs proved idb db t tid"
proof -
  obtain tid where tid: "token_id_of idb t = Some tid" "covered_count (idb_events idb tid) = length (logs t)"
      "tree_holds H sha tcfg tid (idb_merkle idb) (logs t)"
    using complete by (auto simp: token_complete_def)
  have "0 < tid" "events_inv (logs t) (idb_events idb tid)"
    using inv t tid(1) token_id_bounds(1) [OF _ tid(1)] by (auto simp: indexer_inv_def tables_inv_def token_inv_def)
  moreover have "chain_ok (logs t) (te_deployed_block t) (latest t)" "te_chain_id t < 2 ^ 63" "tree_config_ok tcfg"
    using world(1) t by (auto simp: tree_world_def tokens_ok_def)
  ultimately show ?thesis
    using tid world(2) t root [OF tid(1)]
    by (intro exI [of _ tid]) (auto simp: token_ready_def cycle_ready_def root_world_def submission_ready_def cycle_events_def)
qed

lemma main_once_ok:
  assumes nova: "nova_ok H sha N origin" "digest32 sha"
    and world: "event_world chain logs latest ecfg tokens" "tree_world logs latest tcfg tokens"
      "root_world sha rcfg tcfg calls logs proved tokens"
    and inv: "indexer_inv H sha tcfg logs tokens idb" "roots_inv H sha N origin logs tokens idb db"
  shows "\<exists>idb' db'. main_once N chain calls ecfg tcfg rcfg H sha hasher jt tokens True (idb, db) = Some (idb', db')
    \<and> indexer_inv H sha tcfg logs tokens idb' \<and> roots_inv H sha N origin logs tokens idb' db'
    \<and> (\<forall>t \<in> set tokens. \<exists>tid. token_id_of idb' t = Some tid
         \<and> token_proved H sha N origin tid (map transfer_of (logs t)) (proved t) db')"
proof -
  obtain idb1 idb2 where run:
    "event_run_once hasher chain (fst (jt_event jt)) (snd (jt_event jt)) ecfg tokens idb = Some idb1"
    "tree_run_once H sha hasher (fst (jt_tree jt)) (snd (jt_tree jt)) tcfg tokens idb1 = Some idb2"
    "indexer_inv H sha tcfg logs tokens idb2" "ids_follow idb idb2"
    "\<forall>t \<in> set tokens. token_complete H sha tcfg logs t idb2"
    using indexer_run_ok [OF world(1,2) inv(1)] by blast
  have leases: "idb_leases idb2 = Map.empty" and reg: "registry_ok idb2"
    using run(3) by (simp_all add: indexer_inv_def tables_inv_def)
  have ready: "\<forall>t \<in> set tokens. \<exists>tid. token_ready H sha N origin rcfg tcfg calls logs proved idb2 db t tid"
    using token_ready_complete [OF run(3) _ _ world(2,3)] run(5) roots_inv_follow [OF inv(2) run(4)] by blast
  have dist: "distinct (map token_key tokens)"
    using world(1) by (simp add: event_world_def tokens_ok_def)
  obtain db' where db':
    "run_cycle N calls rcfg H tcfg hasher (fst (jt_root jt)) (snd (jt_root jt)) True True tokens (idb2, db) = Some (idb2, db')"
    "\<forall>t \<in> set tokens. \<exists>tid. token_id_of idb2 t = Some tid
       \<and> token_proved H sha N origin tid (map transfer_of (logs t)) (proved t) db'"
    "\<forall>tid. (\<forall>t \<in> set tokens. token_id_of idb2 t \<noteq> Some tid) \<longrightarrow>
       rd_state db' tid = rd_state db tid \<and> (\<forall>e. rd_ivc db' (tid, e) = rd_ivc db (tid, e))"
    using run_cycle_proves [OF nova leases reg dist ready] by blast
  have "rd_state db' tid = None" if "idb_next_id idb2 \<le> tid" for tid
  proof -
    have "\<forall>t \<in> set tokens. token_id_of idb2 t \<noteq> Some tid"
      using token_id_bounds(2) [OF reg] that by fastforce
    moreover have "idb_next_id idb \<le> tid"
      using that run(4) by (simp add: ids_follow_def)
    ultimately show ?thesis
      using db'(3) inv(2) by (simp add: roots_inv_def)
  qed
  then have "roots_inv H sha N origin logs tokens idb2 db'"
    using db'(2) by (fastforce simp: roots_inv_def root_inv_def token_proved_def)
  then show ?thesis
    using run db' by (auto simp: main_once_def root_run_once_def)
qed

lemma sample_root_world:
  "tree_world sample_logs (\<lambda>_. 20) tall_config [sample_token 1, sample_token 2]"
  using sample_worlds(2)
  by (simp add: tree_world_def tokens_ok_def tree_config_ok_def tree_config_ensure_valid_def tall_config_def
      sample_tree_config_def sample_logs_def sample_token_def sample_length db_config_new_def TRANSFER_TREE_HEIGHT_def)

end
