(* ===== verification/Server_Props.thy ===== *)
theory Server_Props
  imports Server Indexer_Main
begin

text \<open>
  What the handlers of the HTTP API answer in the states the jobs leave: exactly the events
  of the contract's log, proofs that verify, a tree index whose proofs lead to the root that
  was asked for, and a status that never claims more than the tables hold.
\<close>

section \<open>A token that is served\<close>

text \<open>The registry knows the token, the tables hold a prefix of its log, the tree its first \<open>n\<close> transfers.\<close>

definition served ::
  "(fr \<Rightarrow> fr \<Rightarrow> fr) \<Rightarrow> (bytes \<Rightarrow> bytes) \<Rightarrow> tree_job_config \<Rightarrow> app_state \<Rightarrow> indexer_db \<Rightarrow> token_entry \<Rightarrow> int
     \<Rightarrow> indexed_event list \<Rightarrow> nat \<Rightarrow> bool" where
  "served H sha tcfg s idb t tid log n \<longleftrightarrow>
     (\<exists>cx. registry_get s (te_chain_id t) (te_token_address t) = Some cx \<and> cx_id cx = tid) \<and> 0 < tid
     \<and> as_height s = tj_height tcfg \<and> as_window s = tj_history_window tcfg \<and> tree_config_ok tcfg
     \<and> (\<exists>d l. chain_ok log d l) \<and> events_inv log (idb_events idb tid)
     \<and> n \<le> covered_count (idb_events idb tid) \<and> n \<le> 2 ^ tj_height tcfg
     \<and> tree_holds H sha tcfg tid (idb_merkle idb) (take n log)"

lemma servedD:
  assumes "served H sha tcfg s idb t tid log n"
  shows "n \<le> length log" "db_inv H sha (job_tree H tcfg tid) (idb_merkle idb) (map transfer_of (take n log))"
    "tree_ok H (job_tree H tcfg tid)" "db_tree_new H tid (as_height s) (as_window s) = Inr (job_tree H tcfg tid)"
proof -
  have "covered_count (idb_events idb tid) \<le> length log"
    using assms covered_count_le by (auto simp: served_def)
  then show "n \<le> length log" "db_inv H sha (job_tree H tcfg tid) (idb_merkle idb) (map transfer_of (take n log))"
    using assms by (simp_all add: served_def tree_holds_def)
  show ok: "tree_ok H (job_tree H tcfg tid)"
    using assms tree_config_okD(2) by (simp add: served_def)
  show "db_tree_new H tid (as_height s) (as_window s) = Inr (job_tree H tcfg tid)"
    using assms ok by (simp add: served_def tree_ok_def db_tree_new_def tree_partitions_new_def job_tree_def)
qed

section \<open>Starting the server\<close>

lemma server_token_record_ok:
  assumes "registry_ok db" "te_chain_id t < 2 ^ 63"
  shows "\<exists>tid db'. server_token_record (te_metadata t) db = (Inr tid, db') \<and> registers t tid db db'"
  using event_indexer_new_ok [OF assms]
  by (auto simp: event_indexer_new_def server_token_record_def split: sum.splits prod.splits if_splits)

lemma registry_initialise_ok:
  assumes "tokens_ok tokens" "set ts \<subseteq> set tokens" "distinct (map token_key ts)" "tables_inv H sha cfg logs tokens db"
  shows "\<exists>reg' db'. registry_initialise ts reg db = (Inr reg', db') \<and> tables_inv H sha cfg logs tokens db'
    \<and> ids_follow db db' \<and> idb_leases db' = idb_leases db
    \<and> (\<forall>t \<in> set ts. \<exists>cx. map_of reg' (te_chain_id t, te_token_address t) = Some cx \<and> token_id_of db' t = Some (cx_id cx))
    \<and> (\<forall>k. k \<notin> (\<lambda>t. (te_chain_id t, te_token_address t)) ` set ts \<longrightarrow> map_of reg' k = map_of reg k)
    \<and> (\<forall>tid. idb_events db' tid = idb_events db tid)"
  using assms(2-4)
proof (induction ts arbitrary: reg db)
  case (Cons t ts)
  let ?key = "\<lambda>t. (te_chain_id t, te_token_address t)"
  have t: "t \<in> set tokens" "te_chain_id t < 2 ^ 63" "registry_ok db"
    using Cons.prems assms(1) by (auto simp: tokens_ok_def tables_inv_def)
  obtain tid db1 where db1: "server_token_record (te_metadata t) db = (Inr tid, db1)" "registers t tid db db1"
    using server_token_record_ok [OF t(3,2)] by blast
  have inv1: "tables_inv H sha cfg logs tokens db1"
    by (rule tables_inv_registered [OF assms(1) t(1) Cons.prems(3) db1(2)])
  obtain reg' db' where db': "registry_initialise ts (AList.update (?key t) (context_of t tid) reg) db1 = (Inr reg', db')"
      "tables_inv H sha cfg logs tokens db'" "ids_follow db1 db'" "idb_leases db' = idb_leases db1"
      "\<forall>t \<in> set ts. \<exists>cx. map_of reg' (?key t) = Some cx \<and> token_id_of db' t = Some (cx_id cx)"
      "\<forall>k. k \<notin> ?key ` set ts \<longrightarrow> map_of reg' k = map_of (AList.update (?key t) (context_of t tid) reg) k"
      "\<forall>tid. idb_events db' tid = idb_events db1 tid"
    using Cons.IH [OF _ _ inv1, of "AList.update (?key t) (context_of t tid) reg"] Cons.prems by auto
  have new: "?key t \<notin> ?key ` set ts"
    using Cons.prems(2) by (auto simp: token_key_def image_iff)
  have "token_id_of db' t = Some tid"
    using db1(2) db'(3) by (simp add: registers_def ids_follow_def)
  moreover have "map_of reg' (?key t) = Some (context_of t tid)" "cx_id (context_of t tid) = tid"
    using db'(6) new by (simp_all add: update_conv' context_of_def)
  moreover have "ids_follow db db'"
    using ids_follow_trans [OF registers_follow [OF db1(2)] db'(3)] .
  ultimately show ?case
    using db1 db' by (auto simp: registers_def update_conv')
qed simp

lemma server_start_ok:
  assumes "tokens_ok tokens" "indexer_inv H sha cfg logs tokens db"
  shows "\<exists>s db'. server_start tokens window height db = (Inr s, db') \<and> indexer_inv H sha cfg logs tokens db'
    \<and> ids_follow db db' \<and> (\<forall>tid. idb_events db' tid = idb_events db tid) \<and> as_height s = height \<and> as_window s = window
    \<and> (\<forall>t \<in> set tokens. \<exists>cx. registry_get s (te_chain_id t) (te_token_address t) = Some cx
         \<and> token_id_of db' t = Some (cx_id cx))
    \<and> (\<forall>c a. registry_get s c a \<noteq> None \<longrightarrow> (\<exists>t \<in> set tokens. te_chain_id t = c \<and> te_token_address t = a))"
proof -
  let ?key = "\<lambda>t. (te_chain_id t, te_token_address t)"
  obtain reg db' where reg: "registry_initialise tokens [] db = (Inr reg, db')" "tables_inv H sha cfg logs tokens db'"
      "ids_follow db db'" "idb_leases db' = idb_leases db"
      "\<forall>t \<in> set tokens. \<exists>cx. map_of reg (?key t) = Some cx \<and> token_id_of db' t = Some (cx_id cx)"
      "\<forall>k. k \<notin> ?key ` set tokens \<longrightarrow> map_of reg k = map_of [] k" "\<forall>tid. idb_events db' tid = idb_events db tid"
    using registry_initialise_ok [OF assms(1) subset_refl, of H sha cfg logs db "[]"] assms
    by (auto simp: tokens_ok_def indexer_inv_def)
  let ?s = "\<lparr>as_tokens = reg, as_window = window, as_height = height\<rparr>"
  have "\<exists>t \<in> set tokens. te_chain_id t = c \<and> te_token_address t = a" if "registry_get ?s c a \<noteq> None" for c a
    using reg(6) [rule_format, of "(c, a)"] that by (force simp: registry_get_def)
  then show ?thesis
    using reg assms(2)
    by (intro exI [of _ ?s] exI [of _ db']) (auto simp: server_start_def indexer_inv_def registry_get_def)
qed

text \<open>Every token is served as soon as the server runs, at whatever point the jobs are.\<close>

lemma served_start:
  assumes "tree_world logs latest tcfg tokens" "indexer_inv H sha tcfg logs tokens db" "t \<in> set tokens"
    and "server_start tokens (tj_history_window tcfg) (tj_height tcfg) db = (Inr s, db')"
    and "indexer_inv H sha tcfg logs tokens idb" "ids_follow db' idb"
  shows "\<exists>tid n. token_id_of idb t = Some tid \<and> served H sha tcfg s idb t tid (logs t) n"
proof -
  have ok: "tokens_ok tokens" "tree_config_ok tcfg" "chain_ok (logs t) (te_deployed_block t) (latest t)"
      "length (logs t) \<le> 2 ^ tj_height tcfg"
    using assms(1,3) by (auto simp: tree_world_def)
  obtain cx where cx: "registry_get s (te_chain_id t) (te_token_address t) = Some cx" "token_id_of db' t = Some (cx_id cx)"
      "as_height s = tj_height tcfg" "as_window s = tj_history_window tcfg"
    using server_start_ok [OF ok(1) assms(2), of "tj_history_window tcfg" "tj_height tcfg"] assms(3,4) by fastforce
  have tid: "token_id_of idb t = Some (cx_id cx)"
    using cx(2) assms(6) by (simp add: ids_follow_def)
  have "registry_ok idb" "token_inv H sha tcfg (logs t) (cx_id cx) idb"
    using assms(3,5) tid by (auto simp: indexer_inv_def tables_inv_def)
  then obtain n where "events_inv (logs t) (idb_events idb (cx_id cx))" "n \<le> covered_count (idb_events idb (cx_id cx))"
      "tree_holds H sha tcfg (cx_id cx) (idb_merkle idb) (take n (logs t))" "0 < cx_id cx"
    using token_id_bounds(1) [OF _ tid] by (auto simp: token_inv_def)
  moreover have "n \<le> 2 ^ tj_height tcfg"
    using calculation(1,2) covered_count_le ok(4) le_trans by blast
  ultimately show ?thesis
    using cx ok tid by (intro exI [of _ "cx_id cx"] exI [of _ n]) (auto simp: served_def)
qed

section \<open>Events\<close>

lemma decode_event_row [simp]: "decode_event (row_of e) = Inr e"
proof -
  have "address_from_bytes (address_bytes a) = Inr a" "bytes32_to_u256 (u256_to_be_bytes v) = Inr v" for a v
    using parse_address_bytes [of a] parse_u256_bytes [of v]
    by (simp_all add: address_from_bytes_def bytes32_to_u256_def parse_address_def parse_u256_def split: if_splits)
  then show ?thesis
    by (simp add: decode_event_def row_of_def i64_to_u64_def)
qed

lemma recipient_rows:
  assumes chain: "chain_ok log d l" and rows: "rows_of_log log rows"
  shows "sort_key er_index (filter (\<lambda>r. er_to r = address_bytes a) rows)
    = map row_of (filter (\<lambda>e. ev_to e = a \<and> row_of e \<in> set rows) log)"
proof -
  let ?xs = "filter (\<lambda>r. er_to r = address_bytes a) rows"
  let ?ys = "map row_of (filter (\<lambda>e. ev_to e = a \<and> row_of e \<in> set rows) log)"
  have "sorted (map ev_index log)" "distinct (map ev_index log)"
    using chain by (simp_all add: chain_ok_def)
  then have "sorted (map er_index ?ys)" "distinct (map er_index ?ys)"
    by (simp_all add: comp_def sorted_wrt_map sorted_wrt_filter distinct_map inj_on_def)
  moreover have "distinct (map er_index (sort_key er_index ?xs))"
    using rows distinct_map_filter [of er_index rows] by (simp add: rows_of_log_def distinct_map)
  moreover have "set ?xs = set ?ys"
    using rows by (fastforce simp: rows_of_log_def row_of_def address_bytes_inject)
  ultimately show ?thesis
    by (intro map_sorted_distinct_set_unique [of er_index]) (auto simp: distinct_map)
qed

lemma events_by_recipient_ok:
  assumes "served H sha tcfg s idb t tid log n"
  shows "events_by_recipient s idb \<lparr>eq_chain_id = te_chain_id t, eq_token_address = te_token_address t, eq_to = a, eq_limit = limit\<rparr>
    = Inr (take (query_limit limit)
        (filter (\<lambda>e. ev_to e = a \<and> row_of e \<in> set (event_rows (idb_events idb tid))) log))"
proof -
  obtain d l cx where t: "chain_ok log d l" "events_inv log (idb_events idb tid)"
      "registry_get s (te_chain_id t) (te_token_address t) = Some cx" "cx_id cx = tid"
    using assms by (auto simp: served_def)
  have "res_map decode_event (map row_of es) = Inr es" for es
    by (induction es) simp_all
  then show ?thesis
    using t recipient_rows [OF t(1), of "event_rows (idb_events idb tid)" a]
    by (simp add: events_by_recipient_def events_inv_def take_map)
qed

section \<open>Proofs\<close>

definition response_of ::
  "(fr \<Rightarrow> fr \<Rightarrow> fr) \<Rightarrow> (bytes \<Rightarrow> bytes) \<Rightarrow> nat \<Rightarrow> transfer list \<Rightarrow> nat \<Rightarrow> nat \<Rightarrow> proof_response" where
  "response_of H sha h ts target l = proof_response_of (historical_of H sha h ts target l)"

lemma prove_many_handler_ok:
  assumes served: "served H sha tcfg s idb t tid log n"
    and target: "target \<le> n" "n - target \<le> tj_history_window tcfg" "\<forall>l \<in> set ls. l < target"
  shows "prove_many_handler H s idb \<lparr>pq_chain_id = te_chain_id t, pq_token_address = te_token_address t,
      pq_target_index = target, pq_leaf_indices = ls\<rparr>
    = Inr (map (response_of H sha (tj_height tcfg) (map transfer_of log) target) ls)"
proof (cases "ls = []")
  case False
  let ?ts = "map transfer_of (take n log)"
  note d = servedD [OF served]
  have len: "length ?ts = n" and cap: "n \<le> 2 ^ tj_height tcfg"
    using d(1) served by (simp_all add: served_def)
  have "1 \<le> target"
    using False target(3) by (cases ls) auto
  then have "prove_many (job_tree H tcfg tid) (idb_merkle idb) target ls
      = Inr (map (historical_of H sha (tj_height tcfg) ?ts target) ls)"
    using prove_many_ok [OF d(2,3), of target ls] target len cap by simp
  moreover have "historical_of H sha h ?ts target l = historical_of H sha h (map transfer_of log) target l" for h l
    using target(1) by (simp add: historical_of_def take_map min_def)
  ultimately show ?thesis
    using False served d(4)
    by (auto simp: prove_many_handler_def served_def lift_merkle_def response_of_def)
qed (use served in \<open>auto simp: prove_many_handler_def served_def\<close>)

text \<open>A response leads from the leaf of the transfer to the root of the tree at the target index.\<close>

lemma response_of_simps [simp]:
  "pw_target_index (response_of H sha h ts target l) = target" "pw_leaf_index (response_of H sha h ts target l) = l"
  "u256_to_fr (pw_root (response_of H sha h ts target l)) = node H (transfer_leaves H (take target ts)) h 0"
  "map u256_to_fr (pw_siblings (response_of H sha h ts target l)) = path_siblings H (transfer_leaves H (take target ts)) 0 h l"
  "pw_root (response_of H sha h ts target l) = fr_to_u256 (node H (transfer_leaves H (take target ts)) h 0)"
  by (simp_all add: response_of_def proof_response_of_def historical_of_def comp_def)

lemma response_verifies:
  assumes "l < target" "target \<le> length ts" "target \<le> 2 ^ h" "h < 2 ^ 32" "l < 2 ^ 64"
  shows "proof_get_root H \<lparr>siblings = map u256_to_fr (pw_siblings (response_of H sha h ts target l))\<rparr>
      (transfer_hash H (ts ! l)) (word_of_nat l) = Some (u256_to_fr (pw_root (response_of H sha h ts target l)))"
proof -
  have "transfer_leaves H (take target ts) l = transfer_hash H (ts ! l)"
    using assms by (simp add: transfer_leaves_def)
  then show ?thesis
    using assms node_path_root [of l h H "transfer_leaves H (take target ts)"]
    by (simp add: proof_get_root_eq unat_word_of_nat)
qed

section \<open>Roots\<close>

lemma latest_row_iff: "latest_row rs = None \<longleftrightarrow> rs = []"
  by (cases rs) (auto split: option.splits)

lemma latest_row_max:
  "latest_row rs = Some r \<Longrightarrow> r \<in> set rs \<and> (\<forall>q \<in> set rs. sn_index q \<le> sn_index r)"
proof (induction rs arbitrary: r)
  case (Cons q rs)
  then show ?case
    by (cases "latest_row rs") (fastforce simp: latest_row_iff split: if_splits)+
qed simp

text \<open>The root of the tree of the first \<open>i\<close> transfers, as the contracts hold it.\<close>

definition root_word :: "(fr \<Rightarrow> fr \<Rightarrow> fr) \<Rightarrow> nat \<Rightarrow> transfer list \<Rightarrow> nat \<Rightarrow> u256" where
  "root_word H h ts i = fr_to_u256 (node H (transfer_leaves H (take i ts)) h 0)"

lemma snapshot_root_eq: "fr_to_bytes x = u256_to_be_bytes r \<longleftrightarrow> fr_to_u256 x = r"
proof -
  have "fr_to_bytes x = u256_to_be_bytes (fr_to_u256 x)"
    by (simp add: fr_to_bytes_def u256_to_be_bytes_def)
  then show ?thesis
    by (auto simp: u256_to_be_bytes_inject)
qed

lemma tree_index_rows:
  assumes served: "served H sha tcfg s idb t tid log n"
  shows "filter (\<lambda>r. sn_root r = u256_to_be_bytes w) (token_snapshots (idb_merkle idb) tid)
    = map (snapshot_of H sha (job_tree H tcfg tid) (map transfer_of log))
        (filter (\<lambda>i. root_word H (tj_height tcfg) (map transfer_of log) i = w) [1..<Suc n])"
proof -
  let ?t = "job_tree H tcfg tid" and ?ts = "map transfer_of (take n log)"
  note d = servedD [OF served]
  have "snapshot_of H sha ?t ?ts i = snapshot_of H sha ?t (map transfer_of log) i" if "i \<le> n" for i
    using that by (simp add: snapshot_of_def node_at_def take_map min_def)
  then have "token_snapshots (idb_merkle idb) tid = map (snapshot_of H sha ?t (map transfer_of log)) [1..<Suc n]"
    using d(1,2) by (auto simp: db_inv_def Let_def intro: map_cong)
  then show ?thesis
    by (simp add: filter_map comp_def snapshot_of_def node_at_def snapshot_root_eq root_word_def bp_default_def del: upt_Suc)
qed

lemma tree_index_by_root_ok:
  assumes served: "served H sha tcfg s idb t tid log n"
    and i: "1 \<le> i" "i \<le> n" "root_word H (tj_height tcfg) (map transfer_of log) i = w"
  shows "\<exists>k. tree_index_by_root s idb \<lparr>tq_chain_id = te_chain_id t, tq_token_address = te_token_address t,
      tq_transfer_root = w\<rparr> = Inr k
    \<and> i \<le> k \<and> k \<le> n \<and> root_word H (tj_height tcfg) (map transfer_of log) k = w"
proof -
  note upt_Suc [simp del]
  let ?snap = "snapshot_of H sha (job_tree H tcfg tid) (map transfer_of log)"
  let ?is = "filter (\<lambda>i. root_word H (tj_height tcfg) (map transfer_of log) i = w) [1..<Suc n]"
  have mem: "i \<in> set ?is"
    using i by (simp del: upt_Suc)
  then have "map ?snap ?is \<noteq> []"
    by (metis empty_iff list.set(1) map_is_Nil_conv)
  then obtain r where r: "latest_row (map ?snap ?is) = Some r"
    by (metis latest_row_iff not_None_eq)
  from latest_row_max [OF r] obtain k where k: "k \<in> set ?is" "r = ?snap k"
    by (elim conjE imageE) (auto simp only: set_map image_iff)
  have idx: "sn_index (?snap j) = int j" for j
    by (simp add: snapshot_of_def)
  have "?snap i \<in> set (map ?snap ?is)"
    using mem by (simp only: set_map imageI)
  then have "i \<le> k"
    using latest_row_max [OF r] k(2) idx by (metis of_nat_le_iff)
  moreover have "k \<le> n" "root_word H (tj_height tcfg) (map transfer_of log) k = w"
    using k(1) by simp_all
  moreover obtain cx where "registry_get s (te_chain_id t) (te_token_address t) = Some cx" "cx_id cx = tid"
    using served by (auto simp: served_def)
  ultimately show ?thesis
    using r tree_index_rows [OF served, of w] by (simp add: tree_index_by_root_def i64_to_u64_def k(2) idx)
qed

section \<open>Status\<close>

lemma max_column_Some:
  assumes "\<forall>x \<in> set xs. 0 \<le> x"
  shows "max_column xs = Some k \<longleftrightarrow> xs \<noteq> [] \<and> int k \<in> set xs \<and> (\<forall>x \<in> set xs. x \<le> int k)"
proof (cases xs)
  case (Cons a as)
  have max: "fold max as a = Max (set xs)"
    using Cons by (simp only: Max.set_eq_fold)
  have "Max (set xs) \<in> set xs"
    using Cons by (intro Max_in) auto
  then have "max_column xs = Some k \<longleftrightarrow> Max (set xs) = int k"
    using Cons max assms by (auto simp: max_column_def)
  then show ?thesis
    using Cons by (auto simp: Max_eq_iff simp del: Max_insert)
qed (simp add: max_column_def)

lemma tree_synced_ok:
  assumes "served H sha tcfg s idb t tid log n"
  shows "fetch_tree_synced_index (idb_merkle idb) tid = (if n = 0 then None else Some n)"
proof -
  have "map sn_index (token_snapshots (idb_merkle idb) tid) = map int [1..<Suc n]"
    using servedD(1,2) [OF assms] by (simp add: db_inv_def Let_def snapshot_of_def comp_def del: upt_Suc)
  moreover have "max_column (map int [1..<Suc n]) = Some n" if "n \<noteq> 0"
    using that by (subst max_column_Some) auto
  ultimately show ?thesis
    by (cases "n = 0") (simp_all add: fetch_tree_synced_index_def max_column_def del: upt_Suc)
qed

lemma events_synced_ok:
  "fetch_events_synced_index edb = (if covered_count edb = 0 then None else Some (covered_count edb - 1))"
  by (auto simp: fetch_events_synced_index_def covered_count_def contiguous_event_index_def split: option.splits)

text \<open>
  The status of a token: the events are reported up to the contiguous index, the tree up to
  the index of its last snapshot, which is never beyond the events, and the proof index is
  one a stored proof attests to.
\<close>

lemma token_status_exact:
  assumes served: "served H sha tcfg s idb t tid log n" and cx: "cx_id cx = tid"
    and root: "prover_inv H sha N origin tid (map transfer_of log) st db"
    and column: "set (ivc_ends tid) = {e. rd_ivc db (tid, e) \<noteq> None}"
  shows "sr_events_synced_index (token_status verifier idb ivc_ends cx) =
      (if covered_count (idb_events idb tid) = 0 then None else Some (covered_count (idb_events idb tid) - 1))"
    and "sr_tree_synced_index (token_status verifier idb ivc_ends cx) = (if n = 0 then None else Some n)"
    and "n \<le> covered_count (idb_events idb tid)" "covered_count (idb_events idb tid) \<le> length log"
    and "sr_ivc_generated_index (token_status verifier idb ivc_ends cx) = Some k \<Longrightarrow>
      \<exists>row. rd_ivc db (tid, int k) = Some row \<and> ivc_row_ok H sha N origin (map transfer_of log) (ps_base st) k row"
proof -
  show "sr_ivc_generated_index (token_status verifier idb ivc_ends cx) = Some k \<Longrightarrow>
      \<exists>row. rd_ivc db (tid, int k) = Some row \<and> ivc_row_ok H sha N origin (map transfer_of log) (ps_base st) k row"
  proof -
    assume k: "sr_ivc_generated_index (token_status verifier idb ivc_ends cx) = Some k"
    have "\<forall>e \<in> set (ivc_ends tid). 0 \<le> e"
      using root column by (fastforce simp: prover_inv_def ivc_rows_ok_def)
    then have "int k \<in> set (ivc_ends tid)"
      using k cx by (simp add: token_status_def fetch_ivc_generated_index_def max_column_Some split: prod.splits)
    then show ?thesis
      using root column by (fastforce simp: prover_inv_def ivc_rows_ok_def)
  qed
qed (use served cx covered_count_le in
    \<open>auto simp: token_status_def events_synced_ok tree_synced_ok [OF served] served_def split: prod.splits\<close>)

section \<open>Every request is answered\<close>

definition client_fault :: "http_error \<Rightarrow> bool" where
  "client_fault e = (case e of ErrorBadRequest _ \<Rightarrow> True | ErrorNotFound _ \<Rightarrow> True | _ \<Rightarrow> False)"

text \<open>A response that satisfies \<open>P\<close>, or an error that the client is told it made.\<close>

definition answers :: "('a \<Rightarrow> bool) \<Rightarrow> http_error + 'a \<Rightarrow> bool" where
  "answers P r = (case r of Inl e \<Rightarrow> client_fault e | Inr x \<Rightarrow> P x)"

definition canonical_response :: "prove_many_request \<Rightarrow> nat \<Rightarrow> proof_response \<Rightarrow> bool" where
  "canonical_response q h p \<longleftrightarrow> pw_target_index p = pq_target_index q \<and> pw_leaf_index p \<in> set (pq_leaf_indices q)
     \<and> unat (pw_root p) < bn254_r \<and> length (pw_siblings p) = h \<and> list_all (\<lambda>w. unat w < bn254_r) (pw_siblings p)"

lemma canonical_response_of:
  assumes "l \<in> set (pq_leaf_indices q)" "target = pq_target_index q"
  shows "canonical_response q h (response_of H sha h ts target l)"
  using assms into_bigint_less
  by (auto simp: canonical_response_def response_of_def proof_response_of_def historical_of_def list_all_iff)

lemma prove_many_handler_answers:
  assumes served: "served H sha tcfg s idb t tid log n"
    and q: "pq_chain_id q = te_chain_id t" "pq_token_address q = te_token_address t"
  shows "answers (\<lambda>ps. length ps = length (pq_leaf_indices q) \<and> list_all (canonical_response q (tj_height tcfg)) ps)
    (prove_many_handler H s idb q)"
proof -
  let ?ts = "map transfer_of (take n log)" and ?t = "job_tree H tcfg tid"
  note d = servedD [OF served]
  obtain cx where cx: "registry_get s (te_chain_id t) (te_token_address t) = Some cx" "cx_id cx = tid"
    using served by (auto simp: served_def)
  have cap: "length ?ts \<le> 2 ^ dt_height ?t"
    using served d(1) by (simp add: served_def)
  let ?r = "prove_many ?t (idb_merkle idb) (pq_target_index q) (pq_leaf_indices q)"
  have "?r = Inr (map (historical_of H sha (tj_height tcfg) ?ts (pq_target_index q)) (pq_leaf_indices q))
      \<or> (\<exists>e. ?r = Inl e \<and> client_fault (map_merkle_error e))"
    using prove_many_cases [OF d(2,3) cap, of "pq_target_index q" "pq_leaf_indices q"]
    by (auto simp: client_fault_def map_merkle_error_def split: if_splits option.splits)
  then show ?thesis
    using cx q d(4) canonical_response_of [of _ q _ "tj_height tcfg" H sha ?ts]
    by (auto simp: answers_def prove_many_handler_def lift_merkle_def list_all_iff response_of_def)
qed

lemma events_by_recipient_answers:
  assumes "served H sha tcfg s idb t tid log n" "eq_chain_id q = te_chain_id t" "eq_token_address q = te_token_address t"
  shows "answers (\<lambda>es. length es \<le> 1000 \<and> list_all (\<lambda>e. ev_to e = eq_to q) es) (events_by_recipient s idb q)"
proof -
  have "q = \<lparr>eq_chain_id = te_chain_id t, eq_token_address = te_token_address t, eq_to = eq_to q, eq_limit = eq_limit q\<rparr>"
    using assms(2,3) by simp
  from events_by_recipient_ok [OF assms(1), of "eq_to q" "eq_limit q", folded this] show ?thesis
    by (auto simp: answers_def query_limit_def list_all_iff dest: in_set_takeD)
qed

lemma tree_index_answers:
  assumes "served H sha tcfg s idb t tid log n" "tq_chain_id q = te_chain_id t" "tq_token_address q = te_token_address t"
  shows "answers (\<lambda>k. k \<le> n) (tree_index_by_root s idb q)"
proof (cases "\<exists>i. 1 \<le> i \<and> i \<le> n \<and> root_word H (tj_height tcfg) (map transfer_of log) i = tq_transfer_root q")
  case True
  have "q = \<lparr>tq_chain_id = te_chain_id t, tq_token_address = te_token_address t, tq_transfer_root = tq_transfer_root q\<rparr>"
    using assms(2,3) by simp
  with True tree_index_by_root_ok [OF assms(1), of _ "tq_transfer_root q"] show ?thesis
    by (metis (mono_tags, lifting) answers_def sum.case(2))
next
  case False
  then have "filter (\<lambda>i. root_word H (tj_height tcfg) (map transfer_of log) i = tq_transfer_root q) [1..<Suc n] = []"
    by (auto simp: filter_empty_conv simp del: upt_Suc)
  then show ?thesis
    using assms tree_index_rows [OF assms(1), of "tq_transfer_root q"]
    by (auto simp: answers_def tree_index_by_root_def served_def client_fault_def simp del: upt_Suc)
qed

lemma unknown_token_answers:
  "registry_get s (pq_chain_id p) (pq_token_address p) = None \<Longrightarrow> answers P (prove_many_handler H s idb p)"
  "registry_get s (eq_chain_id e) (eq_token_address e) = None \<Longrightarrow> answers Q (events_by_recipient s idb e)"
  "registry_get s (tq_chain_id r) (tq_token_address r) = None \<Longrightarrow> answers R (tree_index_by_root s idb r)"
  by (simp_all add: answers_def client_fault_def prove_many_handler_def events_by_recipient_def tree_index_by_root_def)

text \<open>The server has started on some tables and answers on the tables the jobs have made of them.\<close>

definition server_running ::
  "(fr \<Rightarrow> fr \<Rightarrow> fr) \<Rightarrow> (bytes \<Rightarrow> bytes) \<Rightarrow> tree_job_config \<Rightarrow> (token_entry \<Rightarrow> indexed_event list) \<Rightarrow> (token_entry \<Rightarrow> nat)
     \<Rightarrow> token_entry list \<Rightarrow> app_state \<Rightarrow> indexer_db \<Rightarrow> bool" where
  "server_running H sha tcfg logs latest tokens s idb \<longleftrightarrow> tree_world logs latest tcfg tokens
     \<and> indexer_inv H sha tcfg logs tokens idb
     \<and> (\<exists>db db'. indexer_inv H sha tcfg logs tokens db
          \<and> server_start tokens (tj_history_window tcfg) (tj_height tcfg) db = (Inr s, db') \<and> ids_follow db' idb)"

lemma running_registered:
  assumes "server_running H sha tcfg logs latest tokens s idb" "t \<in> set tokens"
  shows "\<exists>tid n. token_id_of idb t = Some tid \<and> served H sha tcfg s idb t tid (logs t) n"
  using assms served_start by (fastforce simp: server_running_def)

text \<open>When the jobs are done, the whole log is served.\<close>

lemma running_complete:
  assumes "server_running H sha tcfg logs latest tokens s idb" "t \<in> set tokens" "token_complete H sha tcfg logs t idb"
  shows "\<exists>tid. token_id_of idb t = Some tid \<and> served H sha tcfg s idb t tid (logs t) (length (logs t))"
proof -
  have "length (logs t) \<le> 2 ^ tj_height tcfg"
    using assms(1,2) by (auto simp: server_running_def tree_world_def)
  then show ?thesis
    using running_registered [OF assms(1,2)] assms(3) by (auto simp: token_complete_def served_def) blast
qed

lemma running_served:
  assumes "server_running H sha tcfg logs latest tokens s idb" "registry_get s c a \<noteq> None"
  shows "\<exists>t tid n. t \<in> set tokens \<and> te_chain_id t = c \<and> te_token_address t = a \<and> served H sha tcfg s idb t tid (logs t) n"
proof -
  obtain db db' where run: "tree_world logs latest tcfg tokens" "indexer_inv H sha tcfg logs tokens idb"
      "indexer_inv H sha tcfg logs tokens db" "ids_follow db' idb"
      "server_start tokens (tj_history_window tcfg) (tj_height tcfg) db = (Inr s, db')"
    using assms(1) by (auto simp: server_running_def)
  then have "\<forall>c a. registry_get s c a \<noteq> None \<longrightarrow> (\<exists>t \<in> set tokens. te_chain_id t = c \<and> te_token_address t = a)"
    using server_start_ok [OF _ run(3), of "tj_history_window tcfg" "tj_height tcfg"]
    by (auto simp: tree_world_def simp del: not_None_eq)
  then obtain t where t: "t \<in> set tokens" "te_chain_id t = c" "te_token_address t = a"
    using assms(2) by blast
  then show ?thesis
    using served_start [OF run(1,3) t(1) run(5,2,4)] by blast
qed

text \<open>
  \<^bold>\<open>C17\<close>. Whatever is asked of a running server, at whatever point the jobs are, the answer is
  a well-formed response or an error that blames the request: never an internal error and
  never a panic. Events are at most 1000 and all for the address asked for; proofs are one
  for each leaf, with the target asked for and as many siblings as the tree is high, all of
  them canonical field elements.
\<close>

theorem server_answers_every_request:
  assumes "server_running H sha tcfg logs latest tokens s idb"
  shows "answers (\<lambda>ps. length ps = length (pq_leaf_indices p) \<and> list_all (canonical_response p (tj_height tcfg)) ps)
      (prove_many_handler H s idb p)
    \<and> answers (\<lambda>es. length es \<le> 1000 \<and> list_all (\<lambda>x. ev_to x = eq_to e) es) (events_by_recipient s idb e)
    \<and> answers (\<lambda>k. k \<le> 2 ^ tj_height tcfg) (tree_index_by_root s idb r)"
proof (intro conjI)
  have find: "\<exists>t tid n. te_chain_id t = c \<and> te_token_address t = a \<and> served H sha tcfg s idb t tid (logs t) n"
    if "registry_get s c a \<noteq> None" for c a
    using running_served [OF assms that] by blast
  show "answers (\<lambda>ps. length ps = length (pq_leaf_indices p) \<and> list_all (canonical_response p (tj_height tcfg)) ps)
      (prove_many_handler H s idb p)"
    using find unknown_token_answers(1)
    by (cases "registry_get s (pq_chain_id p) (pq_token_address p) = None") (blast intro: prove_many_handler_answers sym)+
  show "answers (\<lambda>es. length es \<le> 1000 \<and> list_all (\<lambda>x. ev_to x = eq_to e) es) (events_by_recipient s idb e)"
    using find unknown_token_answers(2)
    by (cases "registry_get s (eq_chain_id e) (eq_token_address e) = None") (blast intro: events_by_recipient_answers sym)+
  show "answers (\<lambda>k. k \<le> 2 ^ tj_height tcfg) (tree_index_by_root s idb r)"
  proof (cases "registry_get s (tq_chain_id r) (tq_token_address r) = None")
    case False
    then obtain t tid n where t: "te_chain_id t = tq_chain_id r" "te_token_address t = tq_token_address r"
        "served H sha tcfg s idb t tid (logs t) n"
      using find by blast
    then show ?thesis
      using tree_index_answers [OF t(3), of r] by (auto simp: answers_def served_def split: sum.splits)
  qed (rule unknown_token_answers(3))
qed

definition sample_tokens :: "token_entry list" where
  "sample_tokens = [sample_token 1, sample_token 2]"

text \<open>A server that has started on empty tables, after one run of the jobs.\<close>

lemma server_after_run:
  assumes world: "event_world chain logs latest ecfg tokens" "tree_world logs latest tcfg tokens"
  shows "\<exists>s idb. server_running H sha tcfg logs latest tokens s idb \<and> (\<forall>t \<in> set tokens. token_complete H sha tcfg logs t idb)"
proof -
  have ok: "tokens_ok tokens"
    using world by (simp add: tree_world_def)
  obtain s db' where start: "server_start tokens (tj_history_window tcfg) (tj_height tcfg) empty_indexer = (Inr s, db')"
      "indexer_inv H sha tcfg logs tokens db'"
    using server_start_ok [OF ok indexer_inv_empty, of "tj_history_window tcfg" "tj_height tcfg"] by blast
  obtain idb where "indexer_inv H sha tcfg logs tokens idb" "ids_follow db' idb"
      "\<forall>t \<in> set tokens. token_complete H sha tcfg logs t idb"
    using indexer_run_ok [where hasher = "\<lambda>_. 0" and now = 5 and holder = 1 and now' = 6 and holder' = 2,
        OF world start(2)] by blast
  then show ?thesis
    using start world indexer_inv_empty unfolding server_running_def by blast
qed

lemma sample_server:
  "\<exists>s idb. server_running toy_hash const_sha tall_config sample_logs (\<lambda>_. 20) sample_tokens s idb
    \<and> token_complete toy_hash const_sha tall_config sample_logs (sample_token 1) idb"
  using server_after_run [OF sample_worlds(1) sample_root_world(1), where H = toy_hash and sha = const_sha]
  by (simp add: sample_tokens_def) blast

theorem server_answers_every_request_witness:
  "\<exists>s idb. server_running toy_hash const_sha tall_config sample_logs (\<lambda>_. 20) sample_tokens s idb
    \<and> answers (\<lambda>ps. length ps = 2)
        (prove_many_handler toy_hash s idb \<lparr>pq_chain_id = 1, pq_token_address = 1, pq_target_index = 3, pq_leaf_indices = [0, 2]\<rparr>)"
proof -
  obtain s idb where run: "server_running toy_hash const_sha tall_config sample_logs (\<lambda>_. 20) sample_tokens s idb"
    using sample_server by blast
  from server_answers_every_request [OF run, of "\<lparr>pq_chain_id = 1, pq_token_address = 1, pq_target_index = 3, pq_leaf_indices = [0, 2]\<rparr>"]
    run show ?thesis
    by (intro exI [of _ s] exI [of _ idb]) (auto simp: answers_def split: sum.splits)
qed

text \<open>
  \<^bold>\<open>C16\<close>. From a root to proofs: for the root of any index the tree has kept history for, the
  server finds a tree index, and a proof requested at that index for any leaf below is given
  and leads from the leaf of that transfer to the root that was asked for.
\<close>

theorem server_root_lookup_proves:
  assumes "served H sha tcfg s idb t tid log n" "1 \<le> i" "i \<le> n" "n - i \<le> tj_history_window tcfg" "l < i"
  shows "\<exists>k p. tree_index_by_root s idb \<lparr>tq_chain_id = te_chain_id t, tq_token_address = te_token_address t,
      tq_transfer_root = root_word H (tj_height tcfg) (map transfer_of log) i\<rparr> = Inr k
    \<and> prove_many_handler H s idb \<lparr>pq_chain_id = te_chain_id t, pq_token_address = te_token_address t,
        pq_target_index = k, pq_leaf_indices = [l]\<rparr> = Inr [p]
    \<and> pw_root p = root_word H (tj_height tcfg) (map transfer_of log) i
    \<and> proof_get_root H \<lparr>siblings = map u256_to_fr (pw_siblings p)\<rparr> (transfer_hash H (transfer_of (log ! l))) (word_of_nat l)
        = Some (u256_to_fr (root_word H (tj_height tcfg) (map transfer_of log) i))"
proof -
  obtain k where k: "tree_index_by_root s idb \<lparr>tq_chain_id = te_chain_id t, tq_token_address = te_token_address t,
      tq_transfer_root = root_word H (tj_height tcfg) (map transfer_of log) i\<rparr> = Inr k" "i \<le> k" "k \<le> n"
      "root_word H (tj_height tcfg) (map transfer_of log) k = root_word H (tj_height tcfg) (map transfer_of log) i"
    using tree_index_by_root_ok [OF assms(1-3) refl] by blast
  have n: "n \<le> length log" "n \<le> 2 ^ tj_height tcfg" "tj_height tcfg < 2 ^ 32" "length log < 2 ^ 63"
    using servedD(1) [OF assms(1)] assms(1) by (auto simp: served_def tree_config_ok_def chain_ok_def)
  show ?thesis
    using k n assms(4,5) prove_many_handler_ok [OF assms(1) k(3), of "[l]"]
      response_verifies [of l k "map transfer_of log" "tj_height tcfg" H sha]
    by (auto simp: root_word_def)
qed

theorem server_root_lookup_proves_witness:
  "\<exists>s idb k p. tree_index_by_root s idb \<lparr>tq_chain_id = 1, tq_token_address = 1,
      tq_transfer_root = root_word toy_hash TRANSFER_TREE_HEIGHT [(2, 5), (2, 5), (2, 5)] 2\<rparr> = Inr k
    \<and> prove_many_handler toy_hash s idb \<lparr>pq_chain_id = 1, pq_token_address = 1, pq_target_index = k,
        pq_leaf_indices = [1]\<rparr> = Inr [p]
    \<and> pw_root p = root_word toy_hash TRANSFER_TREE_HEIGHT [(2, 5), (2, 5), (2, 5)] 2"
proof -
  obtain s idb where run: "server_running toy_hash const_sha tall_config sample_logs (\<lambda>_. 20) sample_tokens s idb"
      "token_complete toy_hash const_sha tall_config sample_logs (sample_token 1) idb"
    using sample_server by blast
  have log: "sample_logs (sample_token 1) = sample_log" "map transfer_of sample_log = [(2, 5), (2, 5), (2, 5)]"
    by (simp_all add: sample_logs_def sample_token_def sample_log_def sample_event_def transfer_of_def)
  obtain tid where "served toy_hash const_sha tall_config s idb (sample_token 1) tid sample_log 3"
    using running_complete [OF run(1) _ run(2)] by (auto simp: log sample_length sample_tokens_def simp del: One_nat_def)
  from server_root_lookup_proves [OF this, of 2 1] show ?thesis
    by (simp add: log tall_config_def sample_tree_config_def sample_token_def) blast
qed

end
