(* ===== verification/Teleport_Props.thy ===== *)
theory Teleport_Props
  imports Teleport Server_Props Withdraw_Props "HOL-Library.Multiset"
begin

text \<open>
  Redeeming works: with an indexer that serves the logs of the chains, a hub that has
  aggregated the roots of their trees, and secrets that spend to the burn addresses, the
  client submits a proof of the exact sum of the eligible transfers.
\<close>

section \<open>Positions and global indices\<close>

lemma position_Some: "position x xs = Some i \<Longrightarrow> i < length xs \<and> xs ! i = x"
  by (induction xs arbitrary: i) (auto split: if_splits)

lemma position_inj: "position x xs = Some i \<Longrightarrow> position y xs = Some i \<Longrightarrow> x = y"
  using position_Some by metis

definition global_index :: "nat \<Rightarrow> nat \<Rightarrow> nat" where
  "global_index i e = i * 2 ^ TRANSFER_TREE_HEIGHT + e"

lemma unat_global_index:
  assumes "i < 2 ^ AGGREGATION_TREE_HEIGHT" "e < 2 ^ TRANSFER_TREE_HEIGHT"
  shows "unat (push_bit TRANSFER_TREE_HEIGHT (word_of_nat i) + word_of_nat e :: u64) = global_index i e"
    and "global_index i e < 2 ^ GLOBAL_TRANSFER_TREE_HEIGHT"
proof -
  have "i * 2 ^ 40 + e < 2 ^ 46"
    using assms by (simp add: tree_heights)
  then show "global_index i e < 2 ^ GLOBAL_TRANSFER_TREE_HEIGHT"
    by (simp add: global_index_def tree_heights)
  then have "unat (word_of_nat (global_index i e) :: u64) = global_index i e"
    unfolding unat_word_of_nat by (simp add: tree_heights)
  moreover have "push_bit TRANSFER_TREE_HEIGHT (word_of_nat i) + word_of_nat e = (word_of_nat (global_index i e) :: u64)"
    by (simp add: push_bit_eq_mult global_index_def)
  ultimately show "unat (push_bit TRANSFER_TREE_HEIGHT (word_of_nat i) + word_of_nat e :: u64) = global_index i e"
    by (simp only:)
qed

lemma global_index_inj:
  assumes "global_index i e = global_index j e'" "e < 2 ^ TRANSFER_TREE_HEIGHT" "e' < 2 ^ TRANSFER_TREE_HEIGHT"
  shows "i = j \<and> e = e'"
proof -
  have "i = global_index i e div 2 ^ TRANSFER_TREE_HEIGHT" "e = global_index i e mod 2 ^ TRANSFER_TREE_HEIGHT"
      "j = global_index j e' div 2 ^ TRANSFER_TREE_HEIGHT" "e' = global_index j e' mod 2 ^ TRANSFER_TREE_HEIGHT"
    using assms(2,3) by (simp_all add: global_index_def)
  then show ?thesis
    using assms(1) by simp
qed

section \<open>Local proofs\<close>

lemma insort_key_map: "insort_key f (g x) (map g xs) = map g (insort_key (\<lambda>x. f (g x)) x xs)"
  by (induction xs) auto

lemma sort_key_map: "sort_key f (map g xs) = map g (sort_key (\<lambda>x. f (g x)) xs)"
  by (induction xs) (simp_all add: insort_key_map)

text \<open>The client's proof for an event of a log whose tree is aggregated at index \<open>k\<close>.\<close>

definition local_of :: "(fr \<Rightarrow> fr \<Rightarrow> fr) \<Rightarrow> indexed_event list \<Rightarrow> nat \<Rightarrow> indexed_event \<Rightarrow> local_teleport_proof" where
  "local_of H log k e = \<lparr>lt_tree_index = k, lt_event = e,
     lt_proof = \<lparr>siblings = path_siblings H (transfer_leaves H (map transfer_of (take k log))) 0 TRANSFER_TREE_HEIGHT (ev_index e)\<rparr>\<rparr>"

text \<open>
  The interface of the proof service: where it is ready for a token, its log and a tree index,
  it answers a request for leaves below that index with one proof for each, which leads from
  the leaf to the root of the tree at that index.
\<close>

locale proof_service =
  fixes H :: "fr \<Rightarrow> fr \<Rightarrow> fr" and indexer :: indexer_client
    and ready :: "token_entry \<Rightarrow> indexed_event list \<Rightarrow> nat \<Rightarrow> bool"
  assumes serves: "ready t log k \<Longrightarrow> \<forall>l \<in> set ls. l < k \<Longrightarrow>
      \<exists>ps. ic_prove_many indexer (te_chain_id t) (te_token_address t) k ls = Inr ps
        \<and> map pw_leaf_index ps = ls
        \<and> (\<forall>p \<in> set ps. pw_target_index p = k
            \<and> u256_to_fr (pw_root p) = node H (transfer_leaves H (map transfer_of (take k log))) TRANSFER_TREE_HEIGHT 0
            \<and> map u256_to_fr (pw_siblings p)
                = path_siblings H (transfer_leaves H (map transfer_of (take k log))) 0 TRANSFER_TREE_HEIGHT (pw_leaf_index p))"
    and log_index: "ready t log k \<Longrightarrow> i < k \<Longrightarrow> i < length log \<and> ev_index (log ! i) = i"
    and small: "ready t log k \<Longrightarrow> k \<le> 2 ^ TRANSFER_TREE_HEIGHT"
begin

lemma leaf_of_event:
  assumes r: "ready t log k" and "e \<in> set (take k log)"
  shows "ev_index e < k" "transfer_leaves H (map transfer_of (take k log)) (ev_index e) = event_leaf_hash H e"
proof -
  obtain i where i: "i < k" "i < length log" "e = log ! i"
    using assms by (auto simp: in_set_conv_nth)
  then show "ev_index e < k" "transfer_leaves H (map transfer_of (take k log)) (ev_index e) = event_leaf_hash H e"
    using log_index [OF r i(1)]
    by (simp_all add: transfer_leaves_def transfer_hash_def transfer_of_def event_leaf_hash_def compute_leaf_hash_def)
qed

lemma local_proof_ok:
  assumes r: "ready t log k" and e: "e \<in> set (take k log)" and p: "pw_leaf_index p = ev_index e" "pw_target_index p = k"
      "u256_to_fr (pw_root p) = node H (transfer_leaves H (map transfer_of (take k log))) TRANSFER_TREE_HEIGHT 0"
      "map u256_to_fr (pw_siblings p)
        = path_siblings H (transfer_leaves H (map transfer_of (take k log))) 0 TRANSFER_TREE_HEIGHT (pw_leaf_index p)"
  shows "local_proof H k (e, p) = Inr (local_of H log k e)"
proof -
  have l: "ev_index e < 2 ^ TRANSFER_TREE_HEIGHT"
    using leaf_of_event(1) [OF r e] small [OF r] by simp
  have h: "ev_index e < 2 ^ 64" "TRANSFER_TREE_HEIGHT < 2 ^ 32"
    using l by (simp_all add: tree_heights)
  show ?thesis
    using h p leaf_of_event [OF r e] node_path_root [OF l, of H "transfer_leaves H (map transfer_of (take k log))"]
    by (simp add: local_proof_def local_of_def guard_error_def or_panic_def proof_get_root_eq unat_word_of_nat Let_def)
qed

lemma fetch_local_ok:
  assumes r: "ready t log k" and "set es \<subseteq> set (take k log)"
  shows "fetch_local_teleport_merkle_proofs H indexer t k es
    = Inr (map (local_of H log k) (sort_key ev_index es))"
proof -
  have "\<forall>l \<in> set (map ev_index es). l < k"
    using assms leaf_of_event(1) [OF r] by auto
  then obtain ps where ps: "ic_prove_many indexer (te_chain_id t) (te_token_address t) k (map ev_index es) = Inr ps"
      "map pw_leaf_index ps = map ev_index es"
      "\<forall>p \<in> set ps. pw_target_index p = k
        \<and> u256_to_fr (pw_root p) = node H (transfer_leaves H (map transfer_of (take k log))) TRANSFER_TREE_HEIGHT 0
        \<and> map u256_to_fr (pw_siblings p)
            = path_siblings H (transfer_leaves H (map transfer_of (take k log))) 0 TRANSFER_TREE_HEIGHT (pw_leaf_index p)"
    using serves [OF r] by blast
  have len: "length ps = length es"
    using ps(2) by (metis length_map)
  have "local_proof H k x = Inr (local_of H log k (fst x))" if x: "x \<in> set (zip es ps)" for x
  proof -
    obtain i where i: "i < length es" "x = (es ! i, ps ! i)"
      using x len by (auto simp: in_set_conv_nth)
    then have "pw_leaf_index (ps ! i) = ev_index (es ! i)" "ps ! i \<in> set ps" "es ! i \<in> set (take k log)"
      using ps(2) len assms by (metis nth_map, simp, force)
    then show ?thesis
      using local_proof_ok [OF r] ps(3) i(2) by simp
  qed
  then have "res_map (local_proof H k) (zip es ps) = Inr (map (\<lambda>x. local_of H log k (fst x)) (zip es ps))"
    by (rule res_map_Inr)
  moreover have "map (\<lambda>x. local_of H log k (fst x)) (zip es ps) = map (local_of H log k) es"
    using len by (auto intro: nth_equalityI)
  moreover have "sort_key (\<lambda>w. ev_index (lt_event w)) (map (local_of H log k) es) = map (local_of H log k) (sort_key ev_index es)"
    by (simp add: sort_key_map local_of_def)
  ultimately show ?thesis
    using ps(1) len by (simp add: fetch_local_teleport_merkle_proofs_def call_def guard_error_def)
qed

end

section \<open>The aggregated tree\<close>

text \<open>
  \<open>logs\<close>: the log of the token of each chain. The hub has aggregated, for every chain it
  knows, the root of its tree at the index in \<open>tree_root_indices\<close>; \<open>f\<close> are the leaves of the
  aggregation tree.
\<close>

definition aggregated ::
  "(fr \<Rightarrow> fr \<Rightarrow> fr) \<Rightarrow> aggregation_tree_state \<Rightarrow> (nat \<Rightarrow> fr) \<Rightarrow> (nat \<Rightarrow> indexed_event list) \<Rightarrow> bool" where
  "aggregated H s f logs \<longleftrightarrow> mt_inv H AGGREGATION_TREE_HEIGHT (at_aggregation_tree s) f
     \<and> u256_to_fr (at_aggregation_root s) = node H f AGGREGATION_TREE_HEIGHT 0
     \<and> length (at_chain_ids s) \<le> length (at_tree_root_indices s)
     \<and> length (at_chain_ids s) \<le> 2 ^ AGGREGATION_TREE_HEIGHT
     \<and> (\<forall>c i. position c (at_chain_ids s) = Some i \<longrightarrow>
          f i = node H (transfer_leaves H (map transfer_of (take (at_tree_root_indices s ! i) (logs c)))) TRANSFER_TREE_HEIGHT 0)"

text \<open>The tree index of a chain, its position, and the client's proof for an event of it.\<close>

definition tree_index_of :: "aggregation_tree_state \<Rightarrow> nat \<Rightarrow> nat" where
  "tree_index_of s c = at_tree_root_indices s ! the (position c (at_chain_ids s))"

definition global_of ::
  "(fr \<Rightarrow> fr \<Rightarrow> fr) \<Rightarrow> aggregation_tree_state \<Rightarrow> (nat \<Rightarrow> fr) \<Rightarrow> (nat \<Rightarrow> indexed_event list) \<Rightarrow> nat \<Rightarrow> indexed_event
     \<Rightarrow> global_teleport_proof" where
  "global_of H s f logs c e =
     (let i = the (position c (at_chain_ids s)); k = tree_index_of s c in
      \<lparr>gt_event = e,
       gt_proof = \<lparr>siblings = path_siblings H (transfer_leaves H (map transfer_of (take k (logs c)))) 0 TRANSFER_TREE_HEIGHT (ev_index e)
          @ path_siblings H f 0 AGGREGATION_TREE_HEIGHT i\<rparr>,
       gt_leaf_index = push_bit TRANSFER_TREE_HEIGHT (word_of_nat i) + word_of_nat (ev_index e)\<rparr>)"

lemma tree_id_ok:
  assumes "aggregated H s f logs" "position c (at_chain_ids s) = Some i"
  shows "get_tree_id_for_chain_id s c = Inr (Some (tree_index_of s c))" "i < 2 ^ AGGREGATION_TREE_HEIGHT"
  using assms position_Some [OF assms(2)] by (auto simp: get_tree_id_for_chain_id_def tree_index_of_def aggregated_def)

context proof_service
begin

lemma global_proof_ok:
  assumes r: "ready t log k" and agg: "aggregated H s f logs" and c: "position c (at_chain_ids s) = Some i" "logs c = log" "tree_index_of s c = k"
    and e: "e \<in> set (take k log)"
  shows "global_proof H s i \<lparr>siblings = path_siblings H f 0 AGGREGATION_TREE_HEIGHT i\<rparr> (local_of H log k e) = Inr (global_of H s f logs c e)"
    and "path_root H (siblings (gt_proof (global_of H s f logs c e))) (unat (gt_leaf_index (global_of H s f logs c e)))
      (event_leaf_hash H e) = u256_to_fr (at_aggregation_root s)"
    and "unat (gt_leaf_index (global_of H s f logs c e)) = global_index i (ev_index e)"
proof -
  let ?lp = "lt_proof (local_of H log k e)" and ?ap = "\<lparr>siblings = path_siblings H f 0 AGGREGATION_TREE_HEIGHT i\<rparr>"
  let ?idx = "push_bit TRANSFER_TREE_HEIGHT (word_of_nat i) + word_of_nat (ev_index e) :: u64"
  have l: "ev_index e < 2 ^ TRANSFER_TREE_HEIGHT"
    using leaf_of_event(1) [OF r e] small [OF r] by simp
  have i: "i < 2 ^ AGGREGATION_TREE_HEIGHT"
    by (rule tree_id_ok(2) [OF agg c(1)])
  note idx = unat_global_index [OF i l]
  have small_words: "ev_index e < 2 ^ 64" "i < 2 ^ 64" "AGGREGATION_TREE_HEIGHT + TRANSFER_TREE_HEIGHT < 2 ^ 32"
    using i l by (simp_all add: tree_heights)
  have leaf: "f i = node H (transfer_leaves H (map transfer_of (take k log))) TRANSFER_TREE_HEIGHT 0"
    using agg c by (auto simp: aggregated_def tree_index_of_def)
  have root: "u256_to_fr (at_aggregation_root s) = node H f AGGREGATION_TREE_HEIGHT 0"
    using agg by (simp add: aggregated_def)
  have "proof_get_root H (proof_extend ?lp ?ap) (event_leaf_hash H e) ?idx
      = do { mid \<leftarrow> proof_get_root H ?lp (event_leaf_hash H e) (word_of_nat (ev_index e));
             proof_get_root H ?ap mid (word_of_nat i) }"
    using small_words l idx(1)
    by (intro proof_extend_get_root) (simp_all add: proof_height_def local_of_def global_index_def unat_word_of_nat)
  also have "\<dots> = Some (u256_to_fr (at_aggregation_root s))"
    using small_words leaf_of_event(2) [OF r e] leaf root
      node_path_root [OF l, of H "transfer_leaves H (map transfer_of (take k log))"] node_path_root [OF i, of H f]
    by (simp add: proof_get_root_eq local_of_def unat_word_of_nat)
  finally have get: "proof_get_root H (proof_extend ?lp ?ap) (event_leaf_hash H e) ?idx = Some (u256_to_fr (at_aggregation_root s))" .
  have gp: "gt_proof (global_of H s f logs c e) = proof_extend ?lp ?ap" "gt_leaf_index (global_of H s f logs c e) = ?idx"
      "gt_event (global_of H s f logs c e) = e"
    using c by (simp_all add: global_of_def Let_def proof_extend_def local_of_def)
  show "global_proof H s i ?ap (local_of H log k e) = Inr (global_of H s f logs c e)"
    using get c by (simp add: global_proof_def or_panic_def guard_error_def Let_def global_of_def proof_extend_def local_of_def)
  show "path_root H (siblings (gt_proof (global_of H s f logs c e))) (unat (gt_leaf_index (global_of H s f logs c e)))
      (event_leaf_hash H e) = u256_to_fr (at_aggregation_root s)"
    using get small_words unfolding gp by (simp add: proof_get_root_eq proof_extend_def local_of_def)
  show "unat (gt_leaf_index (global_of H s f logs c e)) = global_index i (ev_index e)"
    using idx(1) gp(2) by simp
qed

lemma chain_global_proofs_ok:
  assumes r: "ready t log k" and agg: "aggregated H s f logs" and c: "position c (at_chain_ids s) = Some i" "logs c = log" "tree_index_of s c = k"
    and es: "set es \<subseteq> set (take k log)"
  shows "chain_global_proofs H s (c, map (local_of H log k) es) = Inr (map (global_of H s f logs c) es)"
proof -
  have "unat (word_of_nat i :: u64) = i" "i < 2 ^ AGGREGATION_TREE_HEIGHT"
    using tree_id_ok(2) [OF agg c(1)] by (simp_all add: unat_word_of_nat tree_heights)
  then have "mt_prove (at_aggregation_tree s) (word_of_nat i) = Some \<lparr>siblings = path_siblings H f 0 AGGREGATION_TREE_HEIGHT i\<rparr>"
    using mt_prove_ok [of H AGGREGATION_TREE_HEIGHT "at_aggregation_tree s" f "word_of_nat i"] agg by (simp add: aggregated_def)
  moreover have "res_map (global_proof H s i \<lparr>siblings = path_siblings H f 0 AGGREGATION_TREE_HEIGHT i\<rparr>) (map (local_of H log k) es)
      = Inr (map (global_of H s f logs c) es)"
    using es
  proof (induction es)
    case (Cons e es)
    then show ?case
      using global_proof_ok(1) [OF r agg c, of e] by simp
  qed simp
  ultimately show ?thesis
    using c(1) by (simp add: chain_global_proofs_def context_error_def or_panic_def)
qed

end

section \<open>All chains together\<close>

text \<open>The eligible events of a chain are distinct events of its log below the aggregated index.\<close>

definition chain_ready ::
  "(token_entry \<Rightarrow> indexed_event list \<Rightarrow> nat \<Rightarrow> bool) \<Rightarrow> aggregation_tree_state \<Rightarrow> token_entry list
     \<Rightarrow> (nat \<Rightarrow> indexed_event list) \<Rightarrow> nat \<times> events_with_eligibility \<Rightarrow> bool" where
  "chain_ready ready s tokens logs x \<longleftrightarrow> el_eligible (snd x) = [] \<or>
     (\<exists>i t. position (fst x) (at_chain_ids s) = Some i \<and> find_token_by_chain tokens (fst x) = Inr t
        \<and> ready t (logs (fst x)) (tree_index_of s (fst x))
        \<and> set (el_eligible (snd x)) \<subseteq> set (take (tree_index_of s (fst x)) (logs (fst x)))
        \<and> distinct (map ev_index (el_eligible (snd x))))"

definition items :: "(nat \<times> events_with_eligibility) list \<Rightarrow> (nat \<times> indexed_event) list" where
  "items sep = concat (map (\<lambda>x. map (Pair (fst x)) (el_eligible (snd x))) sep)"

definition locals_of ::
  "(fr \<Rightarrow> fr \<Rightarrow> fr) \<Rightarrow> aggregation_tree_state \<Rightarrow> (nat \<Rightarrow> indexed_event list) \<Rightarrow> nat \<times> events_with_eligibility
     \<Rightarrow> (nat \<times> local_teleport_proof list) list" where
  "locals_of H s logs x =
     (if el_eligible (snd x) = [] then []
      else [(fst x, map (local_of H (logs (fst x)) (tree_index_of s (fst x))) (sort_key ev_index (el_eligible (snd x))))])"

lemma items_iff: "(c, e) \<in> set (items sep) \<longleftrightarrow> (\<exists>x \<in> set sep. fst x = c \<and> e \<in> set (el_eligible (snd x)))"
  by (auto simp: items_def)

lemma distinct_items:
  assumes "distinct (map fst sep)" "\<forall>x \<in> set sep. distinct (map ev_index (el_eligible (snd x)))"
  shows "distinct (map (\<lambda>(c, e). (c, ev_index e)) (items sep))"
  using assms
proof (induction sep)
  case (Cons x sep)
  have "distinct (map (\<lambda>e. (fst x, ev_index e)) (el_eligible (snd x)))"
    using Cons.prems(2) by (auto simp: distinct_map inj_on_def)
  moreover have "fst x \<noteq> c" if "(c, e) \<in> set (items sep)" for c e
    using that Cons.prems(1) by (auto simp: items_iff)
  ultimately show ?case
    using Cons by (auto simp: items_def comp_def)
qed (simp add: items_def)

lemma mset_concat_cong: "mset xs = mset ys \<Longrightarrow> mset (concat (map F xs)) = mset (concat (map F ys))"
  by (metis mset_concat mset_map sum_mset_sum_list)

context proof_service
begin

lemma chain_local_ok:
  assumes agg: "aggregated H s f logs" and x: "chain_ready ready s tokens logs x"
  shows "chain_local_proofs H indexer s tokens x = Inr (locals_of H s logs x)"
proof (cases "el_eligible (snd x) = []")
  case False
  then obtain i t where t: "position (fst x) (at_chain_ids s) = Some i" "find_token_by_chain tokens (fst x) = Inr t"
      "ready t (logs (fst x)) (tree_index_of s (fst x))"
      "set (el_eligible (snd x)) \<subseteq> set (take (tree_index_of s (fst x)) (logs (fst x)))"
    using x by (auto simp: chain_ready_def)
  then show ?thesis
    using False fetch_local_ok [OF t(3,4)] tree_id_ok(1) [OF agg t(1)]
    by (simp add: chain_local_proofs_def locals_of_def context_error_def)
qed (simp add: chain_local_proofs_def locals_of_def)

lemma generate_ok:
  assumes agg: "aggregated H s f logs" and sep: "\<forall>x \<in> set sep. chain_ready ready s tokens logs x"
    and order: "\<And>xs. mset (order xs) = mset xs"
  shows "\<exists>gs. generate_global_teleport_merkle_proofs H s (order (concat (map (locals_of H s logs) sep))) = Inr gs
    \<and> mset gs = mset (map (\<lambda>(c, e). global_of H s f logs c e) (items sep))
    \<and> sorted (map (\<lambda>g. unat (gt_leaf_index g)) gs)"
proof -
  let ?L = "concat (map (locals_of H s logs) sep)"
  let ?F = "\<lambda>y. map (\<lambda>w. global_of H s f logs (fst y) (lt_event w)) (snd y)"
  have "chain_global_proofs H s y = Inr (?F y)" if y: "y \<in> set (order ?L)" for y
  proof -
    have "y \<in> set ?L"
      using y order [of ?L] by (metis mset_eq_setD)
    then obtain x where x: "x \<in> set sep" "el_eligible (snd x) \<noteq> []"
        "y = (fst x, map (local_of H (logs (fst x)) (tree_index_of s (fst x))) (sort_key ev_index (el_eligible (snd x))))"
      by (auto simp: locals_of_def split: if_splits)
    then obtain i t where t: "position (fst x) (at_chain_ids s) = Some i"
        "ready t (logs (fst x)) (tree_index_of s (fst x))"
        "set (sort_key ev_index (el_eligible (snd x))) \<subseteq> set (take (tree_index_of s (fst x)) (logs (fst x)))"
      using sep by (fastforce simp: chain_ready_def)
    show ?thesis
      using chain_global_proofs_ok [OF t(2) agg t(1) refl refl t(3)] by (simp add: x(3) local_of_def comp_def)
  qed
  then have "res_map (chain_global_proofs H s) (order ?L) = Inr (map ?F (order ?L))"
    by (rule res_map_Inr)
  moreover have "mset (concat (map ?F (order ?L))) = mset (map (\<lambda>(c, e). global_of H s f logs c e) (items sep))"
  proof -
    have "mset (concat (map ?F (order ?L))) = mset (concat (map ?F ?L))"
      by (rule mset_concat_cong [OF order])
    also have "\<dots> = mset (map (\<lambda>(c, e). global_of H s f logs c e) (items sep))"
    proof (induction sep)
      case (Cons x sep)
      have "mset (concat (map ?F (locals_of H s logs x))) = mset (map (global_of H s f logs (fst x)) (el_eligible (snd x)))"
        by (simp add: locals_of_def local_of_def comp_def)
      with Cons show ?case
        by (simp add: items_def comp_def)
    qed (simp add: items_def)
    finally show ?thesis .
  qed
  ultimately show ?thesis
    by (auto simp: generate_global_teleport_merkle_proofs_def)
qed

end

section \<open>Proving\<close>

text \<open>
  What the client relies on of the provers: a proof can be started, and a proof that verifies
  can be continued to one that verifies when the step circuit is satisfied; the decider
  compresses proofs that verify; a Groth16 proof exists when the constraints hold. \<open>state\<close> is
  the state a folded proof has reached.
\<close>

definition withdraw_prover_ok :: "(fr \<Rightarrow> fr \<Rightarrow> fr) \<Rightarrow> 'n withdraw_prover \<Rightarrow> ('n \<Rightarrow> fr list) \<Rightarrow> bool" where
  "withdraw_prover_ok H W state \<longleftrightarrow>
     (\<forall>z. length z = WITHDRAW_STATE_LEN \<longrightarrow> (\<exists>n. wp_init W z = Inr n \<and> state n = z \<and> wp_verify W n = Inr ()))
     \<and> (\<forall>n e z. withdraw_nova_step H GLOBAL_TRANSFER_TREE_HEIGHT (state n) e = Some z \<and> wp_verify W n = Inr () \<longrightarrow>
          (\<exists>n'. wp_prove_step W n e = Inr n' \<and> state n' = z \<and> wp_verify W n' = Inr ()))
     \<and> (\<forall>n. wp_verify W n = Inr () \<longrightarrow> (\<exists>p. wp_decider W n = Inr p))
     \<and> (\<forall>c pub. single_generate_constraints H GLOBAL_TRANSFER_TREE_HEIGHT c = Inr () \<and> single_public_inputs c = Inr pub
          \<longrightarrow> (\<exists>p. wp_groth16 W c pub = Inr p))"

text \<open>The submitted proof is one for the aggregation root, the recipient and the total.\<close>

definition attests_total ::
  "(fr \<Rightarrow> fr \<Rightarrow> fr) \<Rightarrow> 'n withdraw_prover \<Rightarrow> ('n \<Rightarrow> fr list) \<Rightarrow> fr \<Rightarrow> fr \<Rightarrow> nat \<Rightarrow> submission \<Rightarrow> bool" where
  "attests_total H W state root rcp amt c =
     (case c of
        SingleTeleport _ _ p \<Rightarrow>
          (\<exists>circuit. single_generate_constraints H GLOBAL_TRANSFER_TREE_HEIGHT circuit = Inr ()
             \<and> single_public_inputs circuit = Inr [root, rcp, fr_of_nat amt]
             \<and> wp_groth16 W circuit [root, rcp, fr_of_nat amt] = Inr p)
      | BatchTeleport _ _ p \<Rightarrow>
          (\<exists>n i. wp_verify W n = Inr () \<and> wp_decider W n = Inr p \<and> state n = [root, rcp, i, fr_of_nat amt]))"

definition spendable_proof ::
  "(fr \<Rightarrow> fr \<Rightarrow> fr) \<Rightarrow> fr \<Rightarrow> fr \<Rightarrow> (address \<rightharpoonup> b256) \<Rightarrow> global_teleport_proof \<Rightarrow> bool" where
  "spendable_proof H root rcp secrets g \<longleftrightarrow>
     (\<exists>secret. secrets (ev_to (gt_event g)) = Some secret \<and> spends_to H rcp secret (ev_to (gt_event g)))
     \<and> length (siblings (gt_proof g)) = GLOBAL_TRANSFER_TREE_HEIGHT
     \<and> unat (gt_leaf_index g) < 2 ^ GLOBAL_TRANSFER_TREE_HEIGHT - NUM_BATCH_INVOICES
     \<and> unat (ev_amount (gt_event g)) < 2 ^ 248
     \<and> path_root H (siblings (gt_proof g)) (unat (gt_leaf_index g)) (event_leaf_hash H (gt_event g)) = root"

definition gt_amount :: "global_teleport_proof \<Rightarrow> nat" where
  "gt_amount g = unat (ev_amount (gt_event g))"

lemma amount_to_fr: "unat v < 2 ^ 248 \<Longrightarrow> into_bigint (u256_to_fr v) = unat v" "unat v < 2 ^ 248 \<Longrightarrow> u256_to_fr v = fr_of_nat (unat v)"
  using bn254_r_bounds by (simp_all add: into_bigint_u256_to_fr fr_eq_iff)

lemma index_to_fr: "unat (x :: u64) < 2 ^ GLOBAL_TRANSFER_TREE_HEIGHT \<Longrightarrow> into_bigint (fr_of_nat (unat x)) = unat x"
  using bn254_r_bounds by (simp add: tree_heights into_bigint_fr_of_nat bn254_r_def)

lemma totals_ok_nonneg:
  assumes "\<forall>e \<in> set es. 0 \<le> signed_amount e" "0 \<le> t" "t + sum_list (map signed_amount es) < 2 ^ 248"
  shows "totals_ok t es"
  using assms
proof (induction es arbitrary: t)
  case (Cons e es)
  have "0 \<le> sum_list (map signed_amount es)"
    using Cons.prems(1) by (intro sum_list_nonneg) auto
  then show ?case
    using Cons.prems Cons.IH [of "t + signed_amount e"] by simp
qed simp

lemma prove_steps_ok:
  assumes "withdraw_prover_ok H W state" "ivc (withdraw_nova_step H GLOBAL_TRANSFER_TREE_HEIGHT) (state n) es = Some z"
    and "wp_verify W n = Inr ()"
  shows "\<exists>n'. prove_steps W n es = Inr n' \<and> state n' = z \<and> wp_verify W n' = Inr ()"
  using assms(2,3)
proof (induction es arbitrary: n)
  case (Cons e es)
  then obtain z' where z': "withdraw_nova_step H GLOBAL_TRANSFER_TREE_HEIGHT (state n) e = Some z'"
      "ivc (withdraw_nova_step H GLOBAL_TRANSFER_TREE_HEIGHT) z' es = Some z"
    by (auto simp: bind_eq_Some_conv)
  then obtain n1 where "wp_prove_step W n e = Inr n1" "state n1 = z'" "wp_verify W n1 = Inr ()"
    using assms(1) Cons.prems(2) unfolding withdraw_prover_ok_def by blast
  then show ?case
    using Cons.IH [of n1] z'(2) by (simp add: call_def)
qed simp

definition input_of :: "(address \<rightharpoonup> b256) \<Rightarrow> global_teleport_proof \<Rightarrow> withdraw_external_inputs" where
  "input_of secrets g = \<lparr>we_is_dummy = 0, we_value = u256_to_fr (ev_amount (gt_event g)),
     we_secret = b256_to_fr (the (secrets (ev_to (gt_event g)))),
     we_leaf_index = fr_of_nat (unat (gt_leaf_index g)), we_siblings = siblings (gt_proof g)\<rparr>"

lemma input_of_ok:
  assumes "spendable_proof H root rcp secrets g"
  shows "input_ok H GLOBAL_TRANSFER_TREE_HEIGHT root rcp (input_of secrets g)" "leaf_idx (input_of secrets g) = unat (gt_leaf_index g)"
    "signed_amount (input_of secrets g) = int (gt_amount g)"
proof -
  obtain secret where secret: "secrets (ev_to (gt_event g)) = Some secret"
      "compute_burn_address_from_secret H rcp (b256_to_fr secret) = Inr (address_to_fr (ev_to (gt_event g)))"
    using assms by (auto simp: spendable_proof_def spends_to_def burn_address_var_True)
  have idx: "into_bigint (fr_of_nat (unat (gt_leaf_index g))) = unat (gt_leaf_index g)"
    using assms by (intro index_to_fr) (auto simp: spendable_proof_def)
  have v: "into_bigint (u256_to_fr (ev_amount (gt_event g))) = gt_amount g" "gt_amount g < 2 ^ 248"
  proof -
    have "unat (ev_amount (gt_event g)) < 2 ^ 248"
      using assms by (simp add: spendable_proof_def)
    then show "into_bigint (u256_to_fr (ev_amount (gt_event g))) = gt_amount g" "gt_amount g < 2 ^ 248"
      using amount_to_fr(1) by (simp_all add: gt_amount_def)
  qed
  show "input_ok H GLOBAL_TRANSFER_TREE_HEIGHT root rcp (input_of secrets g)"
    using assms secret idx v
    by (auto simp: input_ok_def input_of_def well_signed_def is_real_def leaf_idx_def amount_def claims_leaf_def
        compute_burn_address_eq spendable_proof_def event_leaf_hash_def compute_leaf_hash_def)
  show "leaf_idx (input_of secrets g) = unat (gt_leaf_index g)"
    using idx by (simp add: leaf_idx_def input_of_def)
  show "signed_amount (input_of secrets g) = int (gt_amount g)"
    using v(1) by (simp add: signed_amount_def is_real_def amount_def input_of_def)
qed

lemma dummy_leaf_idx: "n < 2 ^ GLOBAL_TRANSFER_TREE_HEIGHT \<Longrightarrow> leaf_idx (dummy_withdraw_ext_input D (word_of_nat n) v) = n"
  using index_to_fr [of "word_of_nat n"]
  by (simp add: leaf_idx_def dummy_withdraw_ext_input_def unat_word_of_nat tree_heights)

lemma dummy_inputs_iff:
  assumes "nd < NUM_BATCH_INVOICES"
  shows "map leaf_idx (dummy_inputs GLOBAL_TRANSFER_TREE_HEIGHT nd) = map (\<lambda>i. 2 ^ GLOBAL_TRANSFER_TREE_HEIGHT - 1 - nd + i) [0..<nd]"
proof -
  have "leaf_idx (dummy_withdraw_ext_input D (word_of_nat (2 ^ GLOBAL_TRANSFER_TREE_HEIGHT - 1 - nd + i)) v)
      = 2 ^ GLOBAL_TRANSFER_TREE_HEIGHT - 1 - nd + i" if "i < nd" for i D v
    using that assms by (intro dummy_leaf_idx) (simp add: tree_heights NUM_BATCH_INVOICES_def)
  then show ?thesis
    unfolding dummy_inputs_def Let_def map_map comp_def by (intro map_cong) auto
qed

lemma dummy_inputs_ok:
  assumes nd: "nd < NUM_BATCH_INVOICES" and d: "d \<in> set (dummy_inputs GLOBAL_TRANSFER_TREE_HEIGHT nd)"
  shows "input_ok H GLOBAL_TRANSFER_TREE_HEIGHT root rcp d" "signed_amount d = 0"
    "2 ^ GLOBAL_TRANSFER_TREE_HEIGHT - NUM_BATCH_INVOICES \<le> leaf_idx d"
proof -
  have "leaf_idx d \<in> set (map leaf_idx (dummy_inputs GLOBAL_TRANSFER_TREE_HEIGHT nd))"
    using d by simp
  then have i: "2 ^ GLOBAL_TRANSFER_TREE_HEIGHT - 1 - nd \<le> leaf_idx d" "leaf_idx d < 2 ^ GLOBAL_TRANSFER_TREE_HEIGHT"
    unfolding dummy_inputs_iff [OF nd] using nd by (auto simp: NUM_BATCH_INVOICES_def tree_heights)
  have d0: "we_is_dummy d = 1" "amount d = 0" "length (we_siblings d) = GLOBAL_TRANSFER_TREE_HEIGHT"
    using d by (auto simp: dummy_inputs_def dummy_withdraw_ext_input_def amount_def amount_to_fr Let_def)
  show "input_ok H GLOBAL_TRANSFER_TREE_HEIGHT root rcp d" "signed_amount d = 0"
    using d0 i(2) by (simp_all add: input_ok_def well_signed_def is_real_def signed_amount_def)
  show "2 ^ GLOBAL_TRANSFER_TREE_HEIGHT - NUM_BATCH_INVOICES \<le> leaf_idx d"
    using i(1) nd by (simp add: NUM_BATCH_INVOICES_def)
qed

lemma dummy_inputs_increasing:
  "nd < NUM_BATCH_INVOICES \<Longrightarrow> strictly_increasing (map leaf_idx (dummy_inputs GLOBAL_TRANSFER_TREE_HEIGHT nd))"
  by (simp add: dummy_inputs_iff strictly_increasing_def sorted_wrt_map)

lemma sum_amounts: "sum_list (map (\<lambda>g. int (gt_amount g)) gs) = int (sum_list (map gt_amount gs))"
  by (induction gs) simp_all

lemma batch_run_ok:
  assumes gs: "\<forall>g \<in> set gs. spendable_proof H root rcp secrets g" "strictly_increasing (map (\<lambda>g. unat (gt_leaf_index g)) gs)"
    and amt: "sum_list (map gt_amount gs) < 2 ^ 248" and nd: "nd < NUM_BATCH_INVOICES"
  shows "\<exists>i. ivc (withdraw_nova_step H GLOBAL_TRANSFER_TREE_HEIGHT) [root, rcp, 0, 0]
      (map (input_of secrets) gs @ dummy_inputs GLOBAL_TRANSFER_TREE_HEIGHT nd) = Some [root, rcp, i, fr_of_nat (sum_list (map gt_amount gs))]"
proof -
  let ?ds = "dummy_inputs GLOBAL_TRANSFER_TREE_HEIGHT nd" and ?ins = "map (input_of secrets) gs"
  let ?es = "?ins @ ?ds" and ?amt = "sum_list (map gt_amount gs)"
  have ok: "input_ok H GLOBAL_TRANSFER_TREE_HEIGHT root rcp e" if "e \<in> set ?es" for e
    using that gs(1) input_of_ok(1) dummy_inputs_ok(1) [OF nd] by auto
  have idx: "map leaf_idx ?ins = map (\<lambda>g. unat (gt_leaf_index g)) gs"
    using gs(1) input_of_ok(2) by auto
  have bound: "unat (gt_leaf_index g) < leaf_idx d" if "g \<in> set gs" "d \<in> set ?ds" for g d
    using that gs(1) dummy_inputs_ok(3) [OF nd that(2)] by (fastforce simp: spendable_proof_def)
  then have inc: "strictly_increasing (map leaf_idx ?es)"
    using gs(2) dummy_inputs_increasing [OF nd]
    unfolding map_append idx strictly_increasing_def sorted_wrt_append by auto
  have amounts: "map signed_amount ?ins = map (\<lambda>g. int (gt_amount g)) gs" "map signed_amount ?ds = map (\<lambda>_. 0) ?ds"
    using gs(1) input_of_ok(3) dummy_inputs_ok(2) [OF nd] by auto
  have sum: "sum_list (map signed_amount ?es) = int ?amt"
    unfolding map_append sum_list_append amounts sum_amounts by simp
  have "\<forall>e \<in> set ?es. 0 \<le> signed_amount e"
    using gs(1) input_of_ok(3) dummy_inputs_ok(2) [OF nd] by auto
  then have tot: "totals_ok 0 ?es"
    using totals_ok_nonneg [of ?es 0] sum amt by simp
  have "into_bigint (fr_of_nat ?amt) = ?amt"
    using amt bn254_r_bounds by (simp add: into_bigint_fr_of_nat)
  then have t: "into_bigint (fr_of_nat ?amt) < 2 ^ 248"
      "int (into_bigint (fr_of_nat ?amt)) = int (into_bigint 0) + sum_list (map signed_amount ?es)"
    using amt sum by simp_all
  have D: "GLOBAL_TRANSFER_TREE_HEIGHT \<le> 251" "into_bigint 0 < 2 ^ 248" "into_bigint 0 \<le> 2 ^ GLOBAL_TRANSFER_TREE_HEIGHT"
    by (simp_all add: tree_heights)
  from withdraw_ivc_iff [OF D, of H root rcp ?es] ok inc tot t show ?thesis
    by (auto intro!: exI [of _ "fr_of_nat ?amt"])
qed

lemma look_up_ok:
  assumes "spendable_proof H root rcp secrets g"
  shows "look_up_secret secrets g = Inr (we_secret (input_of secrets g))"
  using assms by (auto simp: spendable_proof_def look_up_secret_def context_error_def input_of_def)

lemma single_constraints_ok:
  assumes g: "spendable_proof H (u256_to_fr w) rcp secrets g"
    and c: "single_circuit GLOBAL_TRANSFER_TREE_HEIGHT rcp w (gt_event g) (gt_proof g) (gt_leaf_index g)
      (we_secret (input_of secrets g)) = Inr c"
  shows "single_generate_constraints H GLOBAL_TRANSFER_TREE_HEIGHT c = Inr ()"
    "single_public_inputs c = Inr [u256_to_fr w, rcp, fr_of_nat (gt_amount g)]"
proof -
  have sibs: "res_map (ok_or AssignmentMissing) (map Some ss) = Inr ss" for ss :: "fr list"
    by (induction ss) simp_all
  note ok = input_of_ok [OF g]
  have D: "GLOBAL_TRANSFER_TREE_HEIGHT \<le> 252"
    by (simp add: tree_heights)
  have v: "unat (ev_amount (gt_event g)) < 2 ^ 248"
    using g by (simp add: spendable_proof_def)
  have "single_withdraw H GLOBAL_TRANSFER_TREE_HEIGHT (u256_to_fr w) rcp (u256_to_fr (ev_amount (gt_event g))) 0
      (we_secret (input_of secrets g)) (fr_of_nat (unat (gt_leaf_index g))) (siblings (gt_proof g)) = Some (u256_to_fr (ev_amount (gt_event g)))"
    using ok(1) by (simp add: single_withdraw_iff [OF D] input_ok_def is_real_def claims_leaf_def input_of_def leaf_idx_def amount_def)
  then show "single_generate_constraints H GLOBAL_TRANSFER_TREE_HEIGHT c = Inr ()"
      "single_public_inputs c = Inr [u256_to_fr w, rcp, fr_of_nat (gt_amount g)]"
    using c amount_to_fr(2) [OF v]
    by (auto simp: single_circuit_def res_bind_Inr_iff single_generate_constraints_def single_public_inputs_def sibs gt_amount_def)
qed

lemma batch_inputs_ok:
  assumes "\<forall>g \<in> set gs. length (siblings (gt_proof g)) = D"
  shows "batch_external_inputs D nd (map gt_event gs) (map gt_proof gs) (map gt_leaf_index gs) (map (\<lambda>g. we_secret (input_of secrets g)) gs)
    = Inr (map (input_of secrets) gs @ dummy_inputs D nd)"
proof -
  let ?x = "\<lambda>g. (gt_event g, gt_proof g, gt_leaf_index g, we_secret (input_of secrets g))"
  have "zip (map gt_event gs) (zip (map gt_proof gs) (zip (map gt_leaf_index gs) (map (\<lambda>g. we_secret (input_of secrets g)) gs))) = map ?x gs"
    by (induction gs) simp_all
  moreover have "res_map (batch_input D) (map ?x gs) = Inr (map (input_of secrets) gs)"
    using assms by (induction gs) (auto simp: batch_input_def guard_error_def input_of_def)
  ultimately show ?thesis
    by (simp add: batch_external_inputs_def guard_error_def)
qed

lemma redeem_proof_ok:
  assumes W: "withdraw_prover_ok H W state" and gs: "gs \<noteq> []"
      "\<forall>g \<in> set gs. spendable_proof H (u256_to_fr (at_aggregation_root s)) (recipient_to_fr sha gr) secrets g"
      "strictly_increasing (map (\<lambda>g. unat (gt_leaf_index g)) gs)"
    and amt: "sum_list (map gt_amount gs) < 2 ^ 248" and nd: "nd < NUM_BATCH_INVOICES"
  shows "\<exists>c. redeem_proof W nd sha s secrets gr gs = Inr (Submitted c)
    \<and> attests_total H W state (u256_to_fr (at_aggregation_root s)) (recipient_to_fr sha gr) (sum_list (map gt_amount gs)) c"
proof -
  let ?root = "u256_to_fr (at_aggregation_root s)" and ?rcp = "recipient_to_fr sha gr" and ?D = GLOBAL_TRANSFER_TREE_HEIGHT
  have len: "length (siblings (gt_proof g)) = ?D" "look_up_secret secrets g = Inr (we_secret (input_of secrets g))" if "g \<in> set gs" for g
    using gs(2) that look_up_ok by (auto simp: spendable_proof_def)
  show ?thesis
  proof (cases "tl gs = []")
    case True
    then obtain g where g: "gs = [g]"
      using gs(1) by (cases gs) auto
    then obtain c where c: "single_circuit ?D ?rcp (at_aggregation_root s) (gt_event g) (gt_proof g) (gt_leaf_index g)
        (we_secret (input_of secrets g)) = Inr c"
      using len by (simp add: single_circuit_def guard_error_def)
    have ok: "single_generate_constraints H ?D c = Inr ()" "single_public_inputs c = Inr [?root, ?rcp, fr_of_nat (gt_amount g)]"
      using single_constraints_ok [OF _ c] gs(2) g by simp_all
    then obtain p where p: "wp_groth16 W c [?root, ?rcp, fr_of_nat (gt_amount g)] = Inr p"
      using W unfolding withdraw_prover_ok_def by blast
    have run: "redeem_proof W nd sha s secrets gr gs = Inr (Submitted (SingleTeleport (at_latest_agg_seq s) gr p))"
      using g len(2) c ok(2) p by (simp add: redeem_proof_def single_teleport_proof_def call_def)
    have "attests_total H W state ?root ?rcp (sum_list (map gt_amount gs)) (SingleTeleport (at_latest_agg_seq s) gr p)"
      using g ok p by (auto simp: attests_total_def)
    with run show ?thesis
      by blast
  next
    case False
    then obtain g g' gs' where gs': "gs = g # g' # gs'"
      using gs(1) by (metis list.exhaust_sel)
    let ?ss = "map (\<lambda>g. we_secret (input_of secrets g)) gs"
    have secrets: "res_map (look_up_secret secrets) gs = Inr ?ss"
      using len(2) by (intro res_map_Inr) simp
    have inputs: "batch_external_inputs ?D nd (map gt_event gs) (map gt_proof gs) (map gt_leaf_index gs) ?ss
        = Inr (map (input_of secrets) gs @ dummy_inputs ?D nd)"
      using len(1) by (intro batch_inputs_ok) simp
    obtain i where run: "ivc (withdraw_nova_step H ?D) [?root, ?rcp, 0, 0] (map (input_of secrets) gs @ dummy_inputs ?D nd)
        = Some [?root, ?rcp, i, fr_of_nat (sum_list (map gt_amount gs))]"
      using batch_run_ok [OF gs(2,3) amt nd] by blast
    have "length (batch_initial_state ?root ?rcp) = WITHDRAW_STATE_LEN"
      by (simp add: batch_initial_state_def WITHDRAW_STATE_LEN_def)
    then obtain n where n: "wp_init W (batch_initial_state ?root ?rcp) = Inr n" "state n = [?root, ?rcp, 0, 0]" "wp_verify W n = Inr ()"
      using W unfolding withdraw_prover_ok_def batch_initial_state_def by blast
    obtain n' where n': "prove_steps W n (map (input_of secrets) gs @ dummy_inputs ?D nd) = Inr n'"
        "state n' = [?root, ?rcp, i, fr_of_nat (sum_list (map gt_amount gs))]" "wp_verify W n' = Inr ()"
      using prove_steps_ok [OF W, of n] run n(2,3) by (metis (no_types, lifting))
    then obtain p where p: "wp_decider W n' = Inr p"
      using W unfolding withdraw_prover_ok_def by blast
    have "redeem_proof W nd sha s secrets gr gs = Inr (Submitted (BatchTeleport (at_latest_agg_seq s) gr p))"
      using gs' secrets inputs n n' p
      by (simp add: redeem_proof_def batch_teleport_proof_def call_def guard_error_def)
    then show ?thesis
      using n'(2,3) p by (auto simp: attests_total_def)
  qed
qed

section \<open>Redeeming\<close>

definition eligible_sum :: "(nat \<times> events_with_eligibility) list \<Rightarrow> nat" where
  "eligible_sum sep = sum_list (map (\<lambda>(c, e). unat (ev_amount e)) (items sep))"

lemma foldl_amounts:
  "foldl (\<lambda>acc e. acc + ev_amount e) a es = a + word_of_nat (sum_list (map (\<lambda>e. unat (ev_amount e)) es))"
  by (induction es arbitrary: a) (simp_all add: algebra_simps)

lemma foldl_eligible:
  "foldl (\<lambda>acc x. acc + eligible_total_value (snd x)) a sep = a + word_of_nat (eligible_sum sep)"
proof (induction sep arbitrary: a)
  case (Cons x sep)
  have "eligible_sum (x # sep) = sum_list (map (\<lambda>e. unat (ev_amount e)) (el_eligible (snd x))) + eligible_sum sep"
    by (simp add: eligible_sum_def items_def comp_def)
  then show ?case
    using Cons by (simp add: eligible_total_value_def total_value_def foldl_amounts add.assoc)
qed (simp add: eligible_sum_def items_def)

text \<open>
  The funds of a recipient: every eligible event was sent to a burn address of the recipient
  whose secret is known, amounts are those the circuits can sum, and the last indices of the
  index range are left to the dummy steps.
\<close>

definition spendable_items ::
  "(fr \<Rightarrow> fr \<Rightarrow> fr) \<Rightarrow> aggregation_tree_state \<Rightarrow> fr \<Rightarrow> (address \<rightharpoonup> b256) \<Rightarrow> (nat \<times> events_with_eligibility) list \<Rightarrow> bool" where
  "spendable_items H s rcp secrets sep \<longleftrightarrow>
     (\<forall>(c, e) \<in> set (items sep).
        (\<exists>secret. secrets (ev_to e) = Some secret \<and> spends_to H rcp secret (ev_to e))
        \<and> global_index (the (position c (at_chain_ids s))) (ev_index e) < 2 ^ GLOBAL_TRANSFER_TREE_HEIGHT - NUM_BATCH_INVOICES)
     \<and> eligible_sum sep < 2 ^ 248"

lemma eligible_amount_le: "(c, e) \<in> set (items sep) \<Longrightarrow> unat (ev_amount e) \<le> eligible_sum sep"
  unfolding eligible_sum_def by (rule member_le_sum_list) (force simp: image_iff)+

context proof_service
begin

lemma item_ready:
  assumes "\<forall>x \<in> set sep. chain_ready ready s tokens logs x" "(c, e) \<in> set (items sep)"
  shows "\<exists>i t. position c (at_chain_ids s) = Some i \<and> ready t (logs c) (tree_index_of s c)
    \<and> e \<in> set (take (tree_index_of s c) (logs c))"
proof -
  obtain x where x: "x \<in> set sep" "fst x = c" "e \<in> set (el_eligible (snd x))"
    using assms(2) by (auto simp: items_iff)
  then show ?thesis
    using assms(1) by (fastforce simp: chain_ready_def)
qed

lemma item_spendable:
  assumes agg: "aggregated H s f logs" and sep: "\<forall>x \<in> set sep. chain_ready ready s tokens logs x"
    and spend: "spendable_items H s rcp secrets sep" and x: "(c, e) \<in> set (items sep)"
  shows "spendable_proof H (u256_to_fr (at_aggregation_root s)) rcp secrets (global_of H s f logs c e)"
    and "unat (gt_leaf_index (global_of H s f logs c e)) = global_index (the (position c (at_chain_ids s))) (ev_index e)"
    and "ev_index e < 2 ^ TRANSFER_TREE_HEIGHT"
proof -
  obtain i t where t: "position c (at_chain_ids s) = Some i" "ready t (logs c) (tree_index_of s c)"
      "e \<in> set (take (tree_index_of s c) (logs c))"
    using item_ready [OF sep x] by blast
  note g = global_proof_ok [OF t(2) agg t(1) refl refl t(3)]
  have ge: "gt_event (global_of H s f logs c e) = e" "length (siblings (gt_proof (global_of H s f logs c e))) = GLOBAL_TRANSFER_TREE_HEIGHT"
    by (simp_all add: global_of_def Let_def GLOBAL_TRANSFER_TREE_HEIGHT_def)
  show idx: "unat (gt_leaf_index (global_of H s f logs c e)) = global_index (the (position c (at_chain_ids s))) (ev_index e)"
    using g(3) t(1) by simp
  show "ev_index e < 2 ^ TRANSFER_TREE_HEIGHT"
    using leaf_of_event(1) [OF t(2,3)] small [OF t(2)] by simp
  show "spendable_proof H (u256_to_fr (at_aggregation_root s)) rcp secrets (global_of H s f logs c e)"
    using spend x eligible_amount_le [OF x] g(2) idx ge unfolding spendable_proof_def spendable_items_def by fastforce
qed

lemma distinct_indices:
  assumes agg: "aggregated H s f logs" and sep: "\<forall>x \<in> set sep. chain_ready ready s tokens logs x" "distinct (map fst sep)"
    and spend: "spendable_items H s rcp secrets sep"
  shows "distinct (map (\<lambda>x. unat (gt_leaf_index (case x of (c, e) \<Rightarrow> global_of H s f logs c e))) (items sep))"
proof -
  have d: "distinct (map (\<lambda>(c, e). (c, ev_index e)) (items sep))"
    using sep by (intro distinct_items) (auto simp: chain_ready_def)
  have "c = c' \<and> e = e'" if x: "(c, e) \<in> set (items sep)" and y: "(c', e') \<in> set (items sep)"
    and eq: "unat (gt_leaf_index (global_of H s f logs c e)) = unat (gt_leaf_index (global_of H s f logs c' e'))" for c e c' e'
  proof -
    obtain i j where ij: "position c (at_chain_ids s) = Some i" "position c' (at_chain_ids s) = Some j"
      using item_ready [OF sep(1)] x y by blast
    have "global_index i (ev_index e) = global_index j (ev_index e')"
      using eq item_spendable(2) [OF agg sep(1) spend x] item_spendable(2) [OF agg sep(1) spend y] ij by simp
    then have "i = j \<and> ev_index e = ev_index e'"
      using global_index_inj item_spendable(3) [OF agg sep(1) spend x] item_spendable(3) [OF agg sep(1) spend y] by blast
    then have "(c, ev_index e) = (c', ev_index e')"
      using position_inj ij by blast
    moreover have "inj_on (\<lambda>(c, e). (c, ev_index e)) (set (items sep))"
      using d by (simp add: distinct_map)
    ultimately show ?thesis
      using inj_onD [of "\<lambda>(c, e). (c, ev_index e)" "set (items sep)" "(c, e)" "(c', e')"] x y by simp
  qed
  then show ?thesis
    using d by (auto simp: distinct_map inj_on_def)
qed

lemma redeem_ok:
  assumes W: "withdraw_prover_ok H W state" and agg: "aggregated H s f logs"
    and sep: "\<forall>x \<in> set sep. chain_ready ready s tokens logs x" "distinct (map fst sep)"
    and spend: "spendable_items H s (recipient_to_fr sha gr) secrets sep"
    and order: "\<And>xs. mset (order xs) = mset xs" and nd: "nd < NUM_BATCH_INVOICES"
    and claimed: "vf_total_teleported verifier (recipient_to_u256 sha gr) = Inr claimed" "unat claimed < eligible_sum sep"
    and submit: "\<And>c. submit c = Inr ()"
  shows "\<exists>c. redeem_transfers H sha W nd verifier submit indexer s sep secrets gr tokens order = Inr (Submitted c)
    \<and> attests_total H W state (u256_to_fr (at_aggregation_root s)) (recipient_to_fr sha gr) (eligible_sum sep) c"
proof -
  let ?G = "\<lambda>(c, e). global_of H s f logs c e"
  obtain gs where gs: "generate_global_teleport_merkle_proofs H s (order (concat (map (locals_of H s logs) sep))) = Inr gs"
      "mset gs = mset (map ?G (items sep))" "sorted (map (\<lambda>g. unat (gt_leaf_index g)) gs)"
    using generate_ok [OF agg sep(1) order] by blast
  have local: "res_map (chain_local_proofs H indexer s tokens) sep = Inr (map (locals_of H s logs) sep)"
    using sep(1) chain_local_ok [OF agg] by (intro res_map_Inr) simp
  have sum: "sum_list (map gt_amount gs) = eligible_sum sep"
  proof -
    have "sum_list (map gt_amount gs) = sum_mset (image_mset gt_amount (mset gs))"
      by (metis mset_map sum_mset_sum_list)
    also have "\<dots> = sum_list (map (gt_amount \<circ> ?G) (items sep))"
      unfolding gs(2) by (metis list.map_comp mset_map sum_mset_sum_list)
    also have "map (gt_amount \<circ> ?G) (items sep) = map (\<lambda>(c, e). unat (ev_amount e)) (items sep)"
      by (auto simp: gt_amount_def global_of_def Let_def)
    finally show ?thesis
      by (simp add: eligible_sum_def)
  qed
  have spendable: "\<forall>g \<in> set gs. spendable_proof H (u256_to_fr (at_aggregation_root s)) (recipient_to_fr sha gr) secrets g"
    using item_spendable(1) [OF agg sep(1) spend] mset_eq_setD [OF gs(2)] by auto
  have "mset (map (\<lambda>g. unat (gt_leaf_index g)) gs) = mset (map (\<lambda>x. unat (gt_leaf_index (?G x))) (items sep))"
    by (simp add: gs(2) multiset.map_comp comp_def)
  then have "distinct (map (\<lambda>g. unat (gt_leaf_index g)) gs)"
    using distinct_indices [OF agg sep spend] by (metis mset_eq_imp_distinct_iff)
  then have inc: "strictly_increasing (map (\<lambda>g. unat (gt_leaf_index g)) gs)"
    using gs(3) by (simp add: strictly_increasing_def strict_sorted_iff)
  have "gs \<noteq> []"
    using sum claimed(2) by auto
  then obtain c where c: "redeem_proof W nd sha s secrets gr gs = Inr (Submitted c)"
      "attests_total H W state (u256_to_fr (at_aggregation_root s)) (recipient_to_fr sha gr) (eligible_sum sep) c"
    using redeem_proof_ok [OF W _ spendable inc _ nd] sum spend by (auto simp: spendable_items_def)
  have "unat (word_of_nat (eligible_sum sep) :: u256) = eligible_sum sep"
    using spend by (simp add: spendable_items_def unat_word_of_nat)
  then have "\<not> word_of_nat (eligible_sum sep) \<le> claimed"
    using claimed(2) by (simp add: word_le_nat_alt)
  then show ?thesis
    using c local gs(1) claimed(1) submit
    by (simp add: redeem_transfers_def Let_def call_def foldl_eligible)
qed

end

section \<open>The aggregation tree of the hub\<close>

fun snapshot_leaves :: "nat \<Rightarrow> u256 list \<Rightarrow> (nat \<Rightarrow> fr) \<Rightarrow> nat \<Rightarrow> fr" where
  "snapshot_leaves idx [] f = f"
| "snapshot_leaves idx (r # rs) f = snapshot_leaves (idx + 1) rs (if r \<noteq> 0 then f(idx := u256_to_fr r) else f)"

lemma snapshot_leaves_nth:
  "snapshot_leaves idx rs f i =
     (if idx \<le> i \<and> i < idx + length rs \<and> rs ! (i - idx) \<noteq> 0 then u256_to_fr (rs ! (i - idx)) else f i)"
proof (induction rs arbitrary: idx f)
  case (Cons r rs)
  then show ?case
    by (cases "i = idx") (auto simp: nth_Cons' Suc_diff_le)
qed auto

lemma fill_ok:
  assumes "mt_inv H AGGREGATION_TREE_HEIGHT t f" "idx + length rs \<le> 2 ^ AGGREGATION_TREE_HEIGHT"
  shows "\<exists>t'. fill_aggregation_tree H idx rs t = Some t' \<and> mt_inv H AGGREGATION_TREE_HEIGHT t' (snapshot_leaves idx rs f)"
  using assms
proof (induction rs arbitrary: idx t f)
  case (Cons r rs)
  have idx: "unat (word_of_nat idx :: u64) = idx" "idx < 2 ^ AGGREGATION_TREE_HEIGHT"
    using Cons.prems(2) by (simp_all add: unat_word_of_nat tree_heights)
  show ?case
  proof (cases "r = 0")
    case False
    obtain t1 where t1: "update_leaf H t (word_of_nat idx) (u256_to_fr r) = Some t1"
        "mt_inv H AGGREGATION_TREE_HEIGHT t1 (f(idx := u256_to_fr r))"
      using update_leaf_inside [OF Cons.prems(1), of "word_of_nat idx" "u256_to_fr r"] idx by auto
    then show ?thesis
      using False t1(1) Cons.IH [OF t1(2), of "idx + 1"] Cons.prems(2) by (simp add: fun_upd_def)
  qed (use Cons in simp)
qed simp

text \<open>
  The hub has recorded the roots of the chains: the event of the latest aggregation has, for
  every token the hub knows, the root of its tree at the transfer tree index.
\<close>

definition hub_records ::
  "(fr \<Rightarrow> fr \<Rightarrow> fr) \<Rightarrow> nat \<Rightarrow> verifier_calls \<Rightarrow> hub_calls \<Rightarrow> (nat \<Rightarrow> indexed_event list) \<Rightarrow> bool" where
  "hub_records H span verifier hub logs \<longleftrightarrow>
     (\<forall>seq ev infos. vf_latest_agg_seq verifier = Inr seq \<and> find_aggregation_event hub seq span = Inr ev
          \<and> hb_token_infos hub = Inr infos \<longrightarrow>
        length (ag_snapshot ev) \<le> 2 ^ AGGREGATION_TREE_HEIGHT \<and> length infos \<le> length (ag_snapshot ev)
        \<and> length infos \<le> length (ag_transfer_tree_indices ev)
        \<and> (\<forall>i < length infos. ag_snapshot ev ! i
             = root_word H TRANSFER_TREE_HEIGHT (map transfer_of (logs (ht_chain_id (infos ! i)))) (ag_transfer_tree_indices ev ! i)))"

lemma call_Inr_iff [simp]: "call r = Inr x \<longleftrightarrow> r = Inr x"
  by (auto simp: call_def split: sum.splits)

lemma guard_error_Inr_iff [simp]: "guard_error b m = Inr u \<longleftrightarrow> b"
  by (simp add: guard_error_def)

lemma or_panic_Inr_iff [simp]: "or_panic x = Inr y \<longleftrightarrow> x = Some y"
  by (auto simp: or_panic_def split: option.splits)

lemma fetch_aggregated:
  assumes fetch: "fetch_aggregation_tree_state H span verifier hub = Inr s" and hub: "hub_records H span verifier hub logs"
  shows "\<exists>f. aggregated H s f logs"
proof -
  obtain seq ev t infos where r: "vf_latest_agg_seq verifier = Inr seq" "find_aggregation_event hub seq span = Inr ev"
      "fill_aggregation_tree H 0 (ag_snapshot ev) (mt_new H AGGREGATION_TREE_HEIGHT) = Some t"
      "mt_get_root t = Some (u256_to_fr (ag_root ev))" "hb_token_infos hub = Inr infos"
      "s = \<lparr>at_latest_agg_seq = seq, at_aggregation_root = ag_root ev, at_aggregation_tree = t,
          at_tree_root_indices = ag_transfer_tree_indices ev, at_chain_ids = map ht_chain_id infos\<rparr>"
    using fetch by (auto simp: fetch_aggregation_tree_state_def res_bind_Inr_iff)
  note h = hub [unfolded hub_records_def, rule_format, OF conjI [OF r(1) conjI [OF r(2,5)]]]
  let ?f = "snapshot_leaves 0 (ag_snapshot ev) (\<lambda>_. 0)"
  have "mt_inv H AGGREGATION_TREE_HEIGHT (mt_new H AGGREGATION_TREE_HEIGHT) (\<lambda>_. 0)"
    by (rule mt_inv_new) (simp add: tree_heights)
  then have t: "mt_inv H AGGREGATION_TREE_HEIGHT t ?f"
    using fill_ok [of H _ "\<lambda>_. 0" 0 "ag_snapshot ev"] r(3) h by fastforce
  have "?f i = u256_to_fr (ag_snapshot ev ! i)" if "i < length (ag_snapshot ev)" for i
    using that by (auto simp: snapshot_leaves_nth u256_to_fr_def)
  moreover have "u256_to_fr (root_word H d ts k) = node H (transfer_leaves H (take k ts)) d 0" for d ts k
    by (simp add: root_word_def)
  ultimately have "?f i = node H (transfer_leaves H (map transfer_of (take (ag_transfer_tree_indices ev ! i) (logs c)))) TRANSFER_TREE_HEIGHT 0"
    if "position c (map ht_chain_id infos) = Some i" for c i
    using position_Some [OF that] h by (auto simp: take_map)
  then show ?thesis
    using t r(4,6) h mt_get_root_ok [OF t] by (intro exI [of _ ?f]) (auto simp: aggregated_def)
qed

section \<open>The indexer as the proof service\<close>

text \<open>The server is ready for a token and an index when its tree holds that many transfers, within its history window.\<close>

definition indexer_ready ::
  "(fr \<Rightarrow> fr \<Rightarrow> fr) \<Rightarrow> (bytes \<Rightarrow> bytes) \<Rightarrow> tree_job_config \<Rightarrow> app_state \<Rightarrow> indexer_db \<Rightarrow> token_entry \<Rightarrow> indexed_event list
     \<Rightarrow> nat \<Rightarrow> bool" where
  "indexer_ready H sha tcfg s idb t log k \<longleftrightarrow> tj_height tcfg = TRANSFER_TREE_HEIGHT
     \<and> (\<exists>tid n. served H sha tcfg s idb t tid log n \<and> k \<le> n \<and> n - k \<le> tj_history_window tcfg)"

interpretation indexer_api: proof_service H "http_indexer_client H s idb" "indexer_ready H sha tcfg s idb"
  for H sha tcfg s idb
proof
  fix t log k ls
  assume r: "indexer_ready H sha tcfg s idb t log k" and ls: "\<forall>l \<in> set ls. l < k"
  then obtain tid n where n: "served H sha tcfg s idb t tid log n" "k \<le> n" "n - k \<le> tj_history_window tcfg"
      "tj_height tcfg = TRANSFER_TREE_HEIGHT"
    by (auto simp: indexer_ready_def)
  show "\<exists>ps. ic_prove_many (http_indexer_client H s idb) (te_chain_id t) (te_token_address t) k ls = Inr ps
      \<and> map pw_leaf_index ps = ls
      \<and> (\<forall>p \<in> set ps. pw_target_index p = k
          \<and> u256_to_fr (pw_root p) = node H (transfer_leaves H (map transfer_of (take k log))) TRANSFER_TREE_HEIGHT 0
          \<and> map u256_to_fr (pw_siblings p)
              = path_siblings H (transfer_leaves H (map transfer_of (take k log))) 0 TRANSFER_TREE_HEIGHT (pw_leaf_index p))"
    using prove_many_handler_ok [OF n(1-3) ls] n(4) by (auto simp: http_indexer_client_def comp_def take_map)
next
  fix t log k i
  assume r: "indexer_ready H sha tcfg s idb t log k" and i: "i < k"
  then obtain tid n where n: "served H sha tcfg s idb t tid log n" "k \<le> n"
    by (auto simp: indexer_ready_def)
  then have "i < length log"
    using servedD(1) [OF n(1)] i by simp
  then show "i < length log \<and> ev_index (log ! i) = i"
    using log_nth n(1) by (auto simp: served_def)
next
  fix t log k
  assume "indexer_ready H sha tcfg s idb t log k"
  then show "k \<le> 2 ^ TRANSFER_TREE_HEIGHT"
    by (auto simp: indexer_ready_def served_def)
qed

end
