(* ===== verification/Redeem_Props.thy ===== *)
theory Redeem_Props
  imports Teleport_Props
begin

text \<open>
  What the events fetched from the indexer are: for each burn address and chain, the first
  transfers below the aggregated index, up to the limit of the query, so that fetching,
  separating and redeeming submits a proof of exactly their total. Where no address received
  more transfers than the limit, this is all that was paid.
\<close>

section \<open>Generic lemmas\<close>

lemma mset_concat_filter:
  assumes "distinct bs"
  shows "mset (concat (map (\<lambda>b. filter (\<lambda>e. g e = b) xs) bs)) = mset (filter (\<lambda>e. g e \<in> set bs) xs)"
  using assms
proof (induction bs)
  case (Cons b bs)
  have "mset (filter (\<lambda>e. g e = b) xs) + mset (filter (\<lambda>e. g e \<in> set bs) xs) = mset (filter (\<lambda>e. g e = b \<or> g e \<in> set bs) xs)"
    using Cons.prems by (induction xs) auto
  then show ?case
    using Cons by simp
qed simp

lemma sum_list_filter_irrelevant:
  assumes "\<And>x. x \<in> set xs \<Longrightarrow> P x \<noteq> Q x \<Longrightarrow> f x = (0 :: nat)"
  shows "sum_list (map f (filter P xs)) = sum_list (map f (filter Q xs))"
  using assms
proof (induction xs)
  case (Cons x xs)
  then have "P x \<noteq> Q x \<Longrightarrow> f x = 0" "sum_list (map f (filter P xs)) = sum_list (map f (filter Q xs))"
    by simp_all
  then show ?case
    by (cases "P x"; cases "Q x") simp_all
qed simp

lemma res_map_filter_concat:
  assumes "\<And>a. a \<in> set as \<Longrightarrow> \<exists>es. f a = Inr es \<and> filter Q es = g a"
  shows "\<exists>ess. res_map f as = Inr ess \<and> filter Q (concat ess) = concat (map g as)"
  using assms
proof (induction as)
  case (Cons a as)
  obtain es where "f a = Inr es" "filter Q es = g a"
    using Cons.prems by fastforce
  moreover obtain ess where "res_map f as = Inr ess" "filter Q (concat ess) = concat (map g as)"
    using Cons.IH Cons.prems by fastforce
  ultimately show ?case
    by simp
qed simp

lemma res_map_ex:
  assumes "\<And>x. x \<in> set xs \<Longrightarrow> \<exists>y. f x = Inr y \<and> R x y"
  shows "\<exists>ys. res_map f xs = Inr ys \<and> list_all2 R xs ys"
  using assms
proof (induction xs)
  case (Cons x xs)
  obtain y where "f x = Inr y" "R x y"
    using Cons.prems by fastforce
  moreover obtain ys where "res_map f xs = Inr ys" "list_all2 R xs ys"
    using Cons.IH Cons.prems by fastforce
  ultimately show ?case
    by simp
qed simp

section \<open>Addresses with a balance\<close>

definition add_addresses :: "address list option \<Rightarrow> address list \<Rightarrow> address list option" where
  "add_addresses old xs = (if xs = [] then old else Some (case old of None \<Rightarrow> xs | Some ys \<Rightarrow> ys @ xs))"

definition held :: "(token_entry \<times> balance_of) list \<Rightarrow> nat \<Rightarrow> address \<Rightarrow> bool" where
  "held ts c a \<longleftrightarrow> (\<exists>x \<in> set ts. te_chain_id (fst x) = c \<and> snd x a \<noteq> Inr 0)"

definition answering :: "(token_entry \<times> balance_of) list \<Rightarrow> bool" where
  "answering ts \<longleftrightarrow> (\<forall>x \<in> set ts. \<forall>a. \<exists>v. snd x a = Inr v) \<and> distinct (map (te_chain_id \<circ> fst) ts)"

lemma push_entry_simps [simp]:
  "map_of (push_entry c a m) c' = (if c' = c then add_addresses (map_of m c) [a] else map_of m c')"
  "distinct (map fst m) \<Longrightarrow> distinct (map fst (push_entry c a m))"
  by (auto simp: push_entry_def update_conv' distinct_update add_addresses_def split: option.splits)

lemma add_addresses_simps [simp]:
  "add_addresses old [] = old" "add_addresses (add_addresses old xs) ys = add_addresses old (xs @ ys)"
  "add_addresses None xs = (if xs = [] then None else Some xs)"
  by (auto simp: add_addresses_def split: option.splits)

lemma nonzero_tokens_ok:
  assumes "answering ts" "distinct (map fst m)"
  shows "\<exists>m'. nonzero_tokens a ts m = Inr m' \<and> distinct (map fst m')
    \<and> (\<forall>c. map_of m' c = add_addresses (map_of m c) (if held ts c a then [a] else []))"
  using assms
proof (induction ts arbitrary: m)
  case (Cons x ts)
  obtain t balance where "x = (t, balance)"
    by (cases x)
  moreover from this obtain b where "balance a = Inr b"
    using Cons.prems(1) by (force simp: answering_def)
  ultimately have x: "x = (t, balance)" "balance a = Inr b" .
  let ?m = "if b \<noteq> 0 then push_entry (te_chain_id t) a m else m"
  have ts: "answering ts" "\<not> held ts (te_chain_id t) a"
    using Cons.prems(1) x unfolding answering_def held_def by simp_all (metis image_eqI)
  have dm: "distinct (map fst ?m)"
    using Cons.prems(2) by simp
  obtain m' where m': "nonzero_tokens a ts ?m = Inr m'" "distinct (map fst m')"
      "\<forall>c. map_of m' c = add_addresses (map_of ?m c) (if held ts c a then [a] else [])"
    using Cons.IH [OF ts(1) dm] by blast
  have "held (x # ts) c a \<longleftrightarrow> (if c = te_chain_id t then b \<noteq> 0 else held ts c a)" for c
    using ts(2) x by (auto simp: held_def)
  then have "map_of m' c = add_addresses (map_of m c) (if held (x # ts) c a then [a] else [])" for c
    using m'(3) ts(2) by simp
  then show ?case
    using m'(1,2) x by (auto simp: call_def)
qed (simp add: held_def)

lemma nonzero_addresses_ok:
  assumes "answering ts" "distinct (map fst m)"
  shows "\<exists>m'. nonzero_addresses as ts m = Inr m' \<and> distinct (map fst m')
    \<and> (\<forall>c. map_of m' c = add_addresses (map_of m c) (filter (held ts c) as))"
  using assms(2)
proof (induction as arbitrary: m)
  case (Cons a as)
  obtain m1 where m1: "nonzero_tokens a ts m = Inr m1" "distinct (map fst m1)"
      "\<forall>c. map_of m1 c = add_addresses (map_of m c) (if held ts c a then [a] else [])"
    using nonzero_tokens_ok [OF assms(1) Cons.prems] by blast
  show ?case
    using Cons.IH [OF m1(2)] m1(1,3) by auto
qed simp

section \<open>Events of an indexer\<close>

text \<open>The client's tokens are on different chains, all known to the hub, and served up to the aggregated index.\<close>

definition tokens_served ::
  "(token_entry \<Rightarrow> indexed_event list \<Rightarrow> nat \<Rightarrow> bool) \<Rightarrow> aggregation_tree_state \<Rightarrow> (nat \<Rightarrow> indexed_event list) \<Rightarrow> token_entry list \<Rightarrow> bool" where
  "tokens_served ready s logs tokens \<longleftrightarrow> distinct (map te_chain_id tokens)
     \<and> (\<forall>t \<in> set tokens. te_chain_id t \<in> set (at_chain_ids s) \<and> ready t (logs (te_chain_id t)) (tree_index_of s (te_chain_id t)))"

lemma find_token:
  assumes "distinct (map te_chain_id tokens)" "t \<in> set tokens"
  shows "find (\<lambda>x. te_chain_id x = te_chain_id t) tokens = Some t" "find_token_by_chain tokens (te_chain_id t) = Inr t"
proof -
  have "filter (\<lambda>x. te_chain_id x = te_chain_id t) tokens = [t]"
    using assms by (induction tokens) (auto simp: filter_empty_conv image_iff)
  then show "find (\<lambda>x. te_chain_id x = te_chain_id t) tokens = Some t" "find_token_by_chain tokens (te_chain_id t) = Inr t"
    by (simp_all add: find_dropWhile find_token_by_chain_def) (induction tokens; auto split: if_splits)
qed

text \<open>
  The first \<open>L\<close> transfers to an address on a chain, below the aggregated index: what the indexer
  reports of them when the limit of the query is \<open>L\<close>.
\<close>

definition served_events :: "nat \<Rightarrow> aggregation_tree_state \<Rightarrow> (nat \<Rightarrow> indexed_event list) \<Rightarrow> nat \<Rightarrow> address \<Rightarrow> indexed_event list" where
  "served_events L s logs c a = take L (filter (\<lambda>e. ev_to e = a) (take (tree_index_of s c) (logs c)))"

lemma served_eventsD:
  "e \<in> set (served_events L s logs c a) \<Longrightarrow> e \<in> set (take (tree_index_of s c) (logs c)) \<and> ev_to e = a"
  by (auto simp: served_events_def dest: in_set_takeD)

text \<open>One entry of the result: the eligible events are those served for the addresses with a balance.\<close>

definition fetched ::
  "nat \<Rightarrow> aggregation_tree_state \<Rightarrow> (nat \<Rightarrow> indexed_event list) \<Rightarrow> token_entry list \<Rightarrow> nat \<times> address list
     \<Rightarrow> nat \<times> events_with_eligibility \<Rightarrow> bool" where
  "fetched L s logs tokens p x \<longleftrightarrow> fst x = fst p \<and> fst p \<in> te_chain_id ` set tokens
     \<and> el_eligible (snd x) = concat (map (served_events L s logs (fst p)) (snd p))"

lemma position_mem: "c \<in> set cs \<Longrightarrow> \<exists>i. position c cs = Some i"
  by (induction cs) auto

text \<open>What was paid to a set of addresses, on one chain and on all, below the aggregated indices.\<close>

definition event_amount :: "indexed_event \<Rightarrow> nat" where
  "event_amount e = unat (ev_amount e)"

definition paid_on :: "aggregation_tree_state \<Rightarrow> (nat \<Rightarrow> indexed_event list) \<Rightarrow> address set \<Rightarrow> nat \<Rightarrow> nat" where
  "paid_on s logs A c = sum_list (map event_amount (filter (\<lambda>e. ev_to e \<in> A) (take (tree_index_of s c) (logs c))))"

definition paid :: "aggregation_tree_state \<Rightarrow> (nat \<Rightarrow> indexed_event list) \<Rightarrow> token_entry list \<Rightarrow> address set \<Rightarrow> nat" where
  "paid s logs tokens A = sum_list (map (\<lambda>t. paid_on s logs A (te_chain_id t)) tokens)"

text \<open>The part of it that the limit lets through, which is all if no address received more transfers than the limit.\<close>

definition served_on :: "nat \<Rightarrow> aggregation_tree_state \<Rightarrow> (nat \<Rightarrow> indexed_event list) \<Rightarrow> address set \<Rightarrow> nat \<Rightarrow> nat" where
  "served_on L s logs A c = (\<Sum>a \<in> A. sum_list (map event_amount (served_events L s logs c a)))"

definition served_total :: "nat \<Rightarrow> aggregation_tree_state \<Rightarrow> (nat \<Rightarrow> indexed_event list) \<Rightarrow> token_entry list \<Rightarrow> address set \<Rightarrow> nat" where
  "served_total L s logs tokens A = sum_list (map (\<lambda>t. served_on L s logs A (te_chain_id t)) tokens)"

definition within_limit :: "nat \<Rightarrow> aggregation_tree_state \<Rightarrow> (nat \<Rightarrow> indexed_event list) \<Rightarrow> token_entry list \<Rightarrow> address set \<Rightarrow> bool" where
  "within_limit L s logs tokens A \<longleftrightarrow> (\<forall>t \<in> set tokens. \<forall>a \<in> A.
     length (filter (\<lambda>e. ev_to e = a) (take (tree_index_of s (te_chain_id t)) (logs (te_chain_id t)))) \<le> L)"

lemma served_on_list:
  "distinct as \<Longrightarrow> served_on L s logs (set as) c = sum_list (map event_amount (concat (map (served_events L s logs c) as)))"
  unfolding served_on_def by (induction as) simp_all

lemma sum_list_mset_cong: "mset xs = mset ys \<Longrightarrow> sum_list (map f xs) = (sum_list (map f ys) :: nat)"
  by (metis mset_map sum_mset_sum_list)

lemma served_total_paid:
  assumes "finite A" "within_limit L s logs tokens A"
  shows "served_total L s logs tokens A = paid s logs tokens A"
proof -
  obtain as where as: "A = set as" "distinct as"
    using finite_distinct_list [OF assms(1)] by blast
  have "served_on L s logs A (te_chain_id t) = paid_on s logs A (te_chain_id t)" if t: "t \<in> set tokens" for t
  proof -
    let ?log = "take (tree_index_of s (te_chain_id t)) (logs (te_chain_id t))"
    have "map (served_events L s logs (te_chain_id t)) as = map (\<lambda>a. filter (\<lambda>e. ev_to e = a) ?log) as"
      using assms(2) t as(1) by (simp add: within_limit_def served_events_def)
    then show ?thesis
      unfolding as(1) served_on_list [OF as(2)] paid_on_def
      using sum_list_mset_cong [OF mset_concat_filter [OF as(2), of ev_to ?log]] by (simp only:)
  qed
  then show ?thesis
    by (simp add: served_total_def paid_def cong: map_cong)
qed

text \<open>Balances are answered, and an address without one has received nothing: nobody spends from a burn address.\<close>

definition balances_ok :: "(nat \<Rightarrow> indexed_event list) \<Rightarrow> token_entry list \<Rightarrow> balance_of list \<Rightarrow> bool" where
  "balances_ok logs tokens clients \<longleftrightarrow> length tokens = length clients
     \<and> (\<forall>x \<in> set (zip tokens clients). \<forall>a. \<exists>v. snd x a = Inr v
          \<and> (v = 0 \<longrightarrow> (\<forall>e \<in> set (logs (te_chain_id (fst x))). ev_to e = a \<longrightarrow> ev_amount e = 0)))"

lemma balances_answering:
  assumes "balances_ok logs tokens clients" "distinct (map te_chain_id tokens)"
  shows "answering (zip tokens clients)"
proof -
  have "map (te_chain_id \<circ> fst) (zip tokens clients) = map te_chain_id tokens"
    using assms(1) unfolding balances_ok_def by (metis list.map_comp map_fst_zip)
  then show ?thesis
    using assms unfolding answering_def balances_ok_def by metis
qed

lemma not_held_nothing_paid:
  assumes "balances_ok logs tokens clients" "t \<in> set tokens" "\<not> held (zip tokens clients) (te_chain_id t) a"
    and "e \<in> set (logs (te_chain_id t))" "ev_to e = a"
  shows "event_amount e = 0"
proof -
  obtain b where b: "(t, b) \<in> set (zip tokens clients)"
    using assms(1,2) unfolding balances_ok_def by (metis in_set_impl_in_set_zip1)
  then have "b a = Inr 0"
    using assms(3) by (force simp: held_def)
  then show ?thesis
    using assms(1,4,5) b by (force simp: balances_ok_def event_amount_def)
qed

lemma served_on_held:
  assumes "balances_ok logs tokens clients" "t \<in> set tokens"
  shows "served_on L s logs (set (filter (held (zip tokens clients) (te_chain_id t)) as)) (te_chain_id t)
    = served_on L s logs (set as) (te_chain_id t)"
  unfolding served_on_def
proof (rule sum.mono_neutral_left)
  show "\<forall>a \<in> set as - set (filter (held (zip tokens clients) (te_chain_id t)) as).
      sum_list (map event_amount (served_events L s logs (te_chain_id t) a)) = 0"
    using not_held_nothing_paid [OF assms] by (fastforce simp: served_events_def dest: in_set_takeD)
qed auto

lemma eligible_sum_list: "eligible_sum sep = sum_list (map (\<lambda>x. sum_list (map event_amount (el_eligible (snd x)))) sep)"
  by (induction sep) (simp_all add: eligible_sum_def items_def event_amount_def comp_def)

lemma fetched_sum:
  assumes "fetched L s logs tokens p x" "distinct (snd p)"
  shows "sum_list (map event_amount (el_eligible (snd x))) = served_on L s logs (set (snd p)) (fst p)"
  using assms by (simp add: fetched_def served_on_list)

lemma served_events_distinct:
  assumes "distinct (map ev_index (take (tree_index_of s c) (logs c)))" "distinct as"
  shows "distinct (map ev_index (concat (map (served_events L s logs c) as)))"
  using assms(2)
proof (induction as)
  case (Cons a as)
  let ?log = "take (tree_index_of s c) (logs c)"
  have "distinct (map ev_index (served_events L s logs c a))"
    using distinct_map_filter [OF assms(1)] by (simp add: served_events_def take_map [symmetric] del: take_map)
  moreover have "ev_index e \<noteq> ev_index e'"
    if "e \<in> set (served_events L s logs c a)" "b \<in> set as" "e' \<in> set (served_events L s logs c b)" for e e' b
  proof
    assume "ev_index e = ev_index e'"
    then have "e = e'"
      using assms(1) served_eventsD [OF that(1)] served_eventsD [OF that(3)] by (metis distinct_map inj_onD)
    then show False
      using served_eventsD [OF that(1)] served_eventsD [OF that(3)] that(2) Cons.prems by simp
  qed
  ultimately show ?case
    using Cons by (auto simp: disjoint_iff)
qed simp

text \<open>The addresses with a balance, by chain, in any order of the chains.\<close>

definition held_pairs :: "(token_entry \<times> balance_of) list \<Rightarrow> address list \<Rightarrow> (nat \<times> address list) list \<Rightarrow> bool" where
  "held_pairs ts as p \<longleftrightarrow> distinct (map fst p) \<and> (\<forall>c bs. (c, bs) \<in> set p \<longleftrightarrow> bs = filter (held ts c) as \<and> bs \<noteq> [])"

lemma nonzero_held_pairs:
  assumes "answering ts" "\<And>xs. mset (order xs) = mset xs"
  shows "\<exists>p. nonzero_addresses as ts [] = Inr p \<and> held_pairs ts as (order p)"
proof -
  obtain p where p: "nonzero_addresses as ts [] = Inr p" "distinct (map fst p)"
      "\<forall>c. map_of p c = (if filter (held ts c) as = [] then None else Some (filter (held ts c) as))"
    using nonzero_addresses_ok [OF assms(1), of "[]" as] by auto
  have "set (order p) = set p" "distinct (map fst (order p))"
    using assms(2) p(2) by (metis mset_eq_setD, metis assms(2) mset_eq_imp_distinct_iff mset_map p(2))
  moreover have "(c, bs) \<in> set p \<longleftrightarrow> bs = filter (held ts c) as \<and> bs \<noteq> []" for c bs
    using p(2,3) by (metis map_of_eq_Some_iff option.distinct(1) option.inject)
  ultimately show ?thesis
    using p(1) by (simp add: held_pairs_def)
qed

lemma held_pairsD:
  assumes "held_pairs (zip tokens clients) as p" "y \<in> set p" "distinct as"
  shows "fst y \<in> te_chain_id ` set tokens" "set (snd y) \<subseteq> set as" "distinct (snd y)"
    "snd y = filter (held (zip tokens clients) (fst y)) as"
proof -
  show y: "snd y = filter (held (zip tokens clients) (fst y)) as"
    using assms by (cases y) (auto simp: held_pairs_def)
  then have "\<exists>a. held (zip tokens clients) (fst y) a"
    using assms by (cases y) (auto simp: held_pairs_def filter_empty_conv)
  then show "fst y \<in> te_chain_id ` set tokens"
    unfolding held_def by (metis image_eqI prod.collapse set_zip_leftD)
  show "set (snd y) \<subseteq> set as" "distinct (snd y)"
    using y assms(3) by auto
qed

lemma held_pairs_chains: "held_pairs ts as p \<Longrightarrow> fst ` set p = {c. \<exists>a \<in> set as. held ts c a}"
  by (force simp: held_pairs_def filter_empty_conv)

lemma held_pairs_served:
  assumes pairs: "held_pairs (zip tokens clients) as p" and bal: "balances_ok logs tokens clients"
    and as: "distinct as" and dist: "distinct (map te_chain_id tokens)"
  shows "sum_list (map (\<lambda>y. served_on L s logs (set (snd y)) (fst y)) p) = served_total L s logs tokens (set as)"
proof -
  have "served_on L s logs (set (snd y)) (fst y) = served_on L s logs (set as) (fst y)" if "y \<in> set p" for y
    using held_pairsD [OF pairs that as] served_on_held [OF bal] by auto
  then have "map (\<lambda>y. served_on L s logs (set (snd y)) (fst y)) p = map (served_on L s logs (set as)) (map fst p)"
    by simp
  moreover have "sum_list (map (served_on L s logs (set as)) (map fst p)) = sum (served_on L s logs (set as)) (fst ` set p)"
    using pairs sum_list_distinct_conv_sum_set [of "map fst p" "served_on L s logs (set as)"] by (simp add: held_pairs_def)
  moreover have "sum (served_on L s logs (set as)) (fst ` set p) = sum (served_on L s logs (set as)) (te_chain_id ` set tokens)"
  proof (rule sum.mono_neutral_left)
    show "fst ` set p \<subseteq> te_chain_id ` set tokens"
      using held_pairsD(1) [OF pairs _ as] by auto
    show "\<forall>c \<in> te_chain_id ` set tokens - fst ` set p. served_on L s logs (set as) c = 0"
    proof
      fix c
      assume c: "c \<in> te_chain_id ` set tokens - fst ` set p"
      then obtain t where t: "t \<in> set tokens" "c = te_chain_id t"
        by blast
      have "filter (held (zip tokens clients) c) as = []"
        using c held_pairs_chains [OF pairs] by (auto simp: filter_empty_conv)
      then show "served_on L s logs (set as) c = 0"
        using served_on_held [OF bal t(1), of L s as] t(2) by (simp add: served_on_def)
    qed
  qed simp
  moreover have "sum (served_on L s logs (set as)) (te_chain_id ` set tokens) = served_total L s logs tokens (set as)"
    using sum_list_distinct_conv_sum_set [OF dist, of "served_on L s logs (set as)"] by (simp add: served_total_def comp_def)
  ultimately show ?thesis
    by (simp only:)
qed

lemma list_all2_mem2: "list_all2 R xs ys \<Longrightarrow> y \<in> set ys \<Longrightarrow> \<exists>x \<in> set xs. R x y"
  by (induction rule: list_all2_induct) auto

text \<open>The last indices of the global tree are left to the dummy steps.\<close>

definition room_for_dummies :: "aggregation_tree_state \<Rightarrow> token_entry list \<Rightarrow> bool" where
  "room_for_dummies s tokens \<longleftrightarrow> (\<forall>t \<in> set tokens.
     global_index (the (position (te_chain_id t) (at_chain_ids s))) (tree_index_of s (te_chain_id t))
       \<le> 2 ^ GLOBAL_TRANSFER_TREE_HEIGHT - NUM_BATCH_INVOICES)"

text \<open>
  The whole interface of the indexer: where it is ready for a tree index, the events it
  reports for an address are, below that index, the first of the log, as many as the limit on
  the number of events allows.
\<close>

locale indexer_service = proof_service +
  assumes events: "ready t log k \<Longrightarrow>
      \<exists>es. ic_events indexer (te_chain_id t) (te_token_address t) a limit = Inr es
        \<and> filter (\<lambda>e. ev_index e < k) es = take (query_limit limit) (filter (\<lambda>e. ev_to e = a) (take k log))"
begin

lemma chain_events_ok:
  assumes served: "tokens_served ready s logs tokens" and t: "t \<in> set tokens"
  shows "\<exists>es. chain_events indexer limit tokens (te_chain_id t, bs) = Inr (te_chain_id t, es)
    \<and> filter (\<lambda>e. ev_index e < tree_index_of s (te_chain_id t)) es
        = concat (map (served_events (query_limit limit) s logs (te_chain_id t)) bs)"
proof -
  have one: "\<exists>es. call (ic_events indexer (te_chain_id t) (te_token_address t) a limit) = Inr es
      \<and> filter (\<lambda>e. ev_index e < tree_index_of s (te_chain_id t)) es = served_events (query_limit limit) s logs (te_chain_id t) a" for a
    using t served events [of t "logs (te_chain_id t)" "tree_index_of s (te_chain_id t)" a limit]
    by (auto simp: tokens_served_def served_events_def)
  obtain ess where "res_map (\<lambda>a. call (ic_events indexer (te_chain_id t) (te_token_address t) a limit)) bs = Inr ess"
      "filter (\<lambda>e. ev_index e < tree_index_of s (te_chain_id t)) (concat ess)
        = concat (map (served_events (query_limit limit) s logs (te_chain_id t)) bs)"
    using res_map_filter_concat [of bs "\<lambda>a. call (ic_events indexer (te_chain_id t) (te_token_address t) a limit)", OF one]
    by blast
  then show ?thesis
    using find_token(1) [of tokens t] served t
    by (auto simp: chain_events_def context_error_def tokens_served_def)
qed

lemma fetch_separate:
  assumes agg: "aggregated H s f logs" and served: "tokens_served ready s logs tokens"
    and p: "\<forall>y \<in> set p. fst y \<in> te_chain_id ` set tokens"
  shows "\<exists>m sep. res_map (chain_events indexer limit tokens) p = Inr m \<and> separate_events_by_eligibility s m = Inr sep
    \<and> list_all2 (fetched (query_limit limit) s logs tokens) p sep"
  using p
proof (induction p)
  case (Cons y p)
  obtain c bs where y: "y = (c, bs)"
    by (cases y)
  obtain t where t: "t \<in> set tokens" "c = te_chain_id t"
    using Cons.prems y by auto
  obtain es where es: "chain_events indexer limit tokens y = Inr (c, es)"
      "filter (\<lambda>e. ev_index e < tree_index_of s c) es = concat (map (served_events (query_limit limit) s logs c) bs)"
    using chain_events_ok [OF served t(1), of limit bs] y t(2) by auto
  have "\<exists>i. position c (at_chain_ids s) = Some i"
    using served t by (intro position_mem) (auto simp: tokens_served_def)
  then have sep: "separate_chain s (c, es)
      = Inr (c, \<lparr>el_eligible = filter (\<lambda>e. ev_index e < tree_index_of s c) es, el_ineligible = filter (\<lambda>e. \<not> ev_index e < tree_index_of s c) es\<rparr>)"
    using tree_id_ok(1) [OF agg] by (auto simp: separate_chain_def context_error_def)
  have one: "fetched (query_limit limit) s logs tokens y
      (c, \<lparr>el_eligible = filter (\<lambda>e. ev_index e < tree_index_of s c) es, el_ineligible = filter (\<lambda>e. \<not> ev_index e < tree_index_of s c) es\<rparr>)"
    using es(2) t y by (simp add: fetched_def)
  obtain m sep' where "res_map (chain_events indexer limit tokens) p = Inr m" "separate_events_by_eligibility s m = Inr sep'"
      "list_all2 (fetched (query_limit limit) s logs tokens) p sep'"
    using Cons by auto
  then show ?case
    using es(1) sep one by (auto simp: separate_events_by_eligibility_def)
qed (simp add: separate_events_by_eligibility_def)

lemma fetched_ready:
  assumes agg: "aggregated H s f logs" and served: "tokens_served ready s logs tokens"
    and x: "fetched L s logs tokens p x" "distinct (snd p)"
  shows "chain_ready ready s tokens logs x"
proof -
  obtain t where t: "t \<in> set tokens" "te_chain_id t = fst x" "fst x = fst p"
    using x(1) by (auto simp: fetched_def)
  let ?log = "logs (fst x)" and ?k = "tree_index_of s (fst x)"
  have r: "ready t ?log ?k" "distinct (map te_chain_id tokens)" "fst x \<in> set (at_chain_ids s)"
    using served t by (auto simp: tokens_served_def)
  have el: "el_eligible (snd x) = concat (map (served_events L s logs (fst x)) (snd p))"
    using x(1) t(3) by (simp add: fetched_def)
  have "distinct (map ev_index (take ?k ?log))"
    using log_index [OF r(1)] by (simp add: distinct_conv_nth)
  then have "distinct (map ev_index (el_eligible (snd x)))"
    unfolding el using x(2) by (rule served_events_distinct)
  moreover have "set (el_eligible (snd x)) \<subseteq> set (take ?k ?log)"
    unfolding el using served_eventsD by fastforce
  ultimately show ?thesis
    using r t find_token(2) [OF r(2) t(1)] position_mem [OF r(3)] by (auto simp: chain_ready_def)
qed

text \<open>The fetched and separated events: one entry for each chain with a balance, and together what the limit lets through.\<close>

lemma fetch_ok:
  assumes agg: "aggregated H s f logs" and served: "tokens_served ready s logs tokens"
    and bal: "balances_ok logs tokens clients" and as: "distinct as" and order: "\<And>xs. mset (order xs) = mset xs"
  shows "\<exists>m sep. fetch_transfer_events indexer limit tokens clients as order = Inr m
    \<and> separate_events_by_eligibility s m = Inr sep \<and> distinct (map fst sep)
    \<and> (\<forall>x \<in> set sep. chain_ready ready s tokens logs x) \<and> eligible_sum sep = served_total (query_limit limit) s logs tokens (set as)
    \<and> fst ` set sep = {c. \<exists>a \<in> set as. held (zip tokens clients) c a}
    \<and> (\<forall>x \<in> set sep. sum_list (map event_amount (el_eligible (snd x))) = served_on (query_limit limit) s logs (set as) (fst x))
    \<and> (\<forall>(c, e) \<in> set (items sep). c \<in> te_chain_id ` set tokens \<and> ev_to e \<in> set as)"
proof -
  let ?ts = "zip tokens clients"
  have dist: "distinct (map te_chain_id tokens)"
    using served by (simp add: tokens_served_def)
  obtain p where p: "nonzero_addresses as ?ts [] = Inr p" "held_pairs ?ts as (order p)"
    using nonzero_held_pairs [OF balances_answering [OF bal dist] order] by blast
  note y = held_pairsD [OF p(2) _ as]
  obtain m sep where m: "res_map (chain_events indexer limit tokens) (order p) = Inr m"
      "separate_events_by_eligibility s m = Inr sep" "list_all2 (fetched (query_limit limit) s logs tokens) (order p) sep"
    using fetch_separate [OF agg served, of "order p" limit] y by blast
  have from_p: "\<exists>y \<in> set (order p). fetched (query_limit limit) s logs tokens y x" if "x \<in> set sep" for x
    using list_all2_mem2 [OF m(3) that] .
  have fst_sep: "map fst sep = map fst (order p)"
    using m(3) by (induction rule: list_all2_induct) (auto simp: fetched_def)
  then have chains: "distinct (map fst sep)" "fst ` set sep = {c. \<exists>a \<in> set as. held ?ts c a}"
    using p(2) held_pairs_chains [OF p(2)] by (simp add: held_pairs_def, metis list.set_map)
  have ready: "\<forall>x \<in> set sep. chain_ready ready s tokens logs x"
    using fetched_ready [OF agg served] from_p y(3) by blast
  have "eligible_sum sep = sum_list (map (\<lambda>y. served_on (query_limit limit) s logs (set (snd y)) (fst y)) (order p))"
    unfolding eligible_sum_list using m(3) y(3)
    by (induction rule: list_all2_induct) (auto simp: fetched_sum)
  then have sum: "eligible_sum sep = served_total (query_limit limit) s logs tokens (set as)"
    using held_pairs_served [OF p(2) bal as dist] by simp
  have one: "sum_list (map event_amount (el_eligible (snd x))) = served_on (query_limit limit) s logs (set as) (fst x)" if x: "x \<in> set sep" for x
  proof -
    obtain z where z: "z \<in> set (order p)" "fetched (query_limit limit) s logs tokens z x"
      using from_p [OF x] by blast
    then obtain t where "t \<in> set tokens" "fst x = te_chain_id t" "fst z = fst x"
      using y(1) by (fastforce simp: fetched_def)
    then show ?thesis
      using fetched_sum [OF z(2) y(3) [OF z(1)]] y(4) [OF z(1)] served_on_held [OF bal] by simp
  qed
  have "c \<in> te_chain_id ` set tokens \<and> ev_to e \<in> set as" if "(c, e) \<in> set (items sep)" for c e
  proof -
    obtain el where el: "(c, el) \<in> set sep" "e \<in> set (el_eligible el)"
      using \<open>(c, e) \<in> set (items sep)\<close> by (auto simp: items_iff)
    obtain z where z: "z \<in> set (order p)" "fetched (query_limit limit) s logs tokens z (c, el)"
      using from_p [OF el(1)] by blast
    then have zc: "fst z = c" "el_eligible el = concat (map (served_events (query_limit limit) s logs c) (snd z))"
      unfolding fetched_def by simp_all
    then obtain a where a: "a \<in> set (snd z)" "e \<in> set (served_events (query_limit limit) s logs c a)"
      using el(2) by auto
    have "a \<in> set as" "c \<in> te_chain_id ` set tokens"
      using a(1) y(1,2) [OF z(1)] zc(1) by (blast, simp)
    then show ?thesis
      using served_eventsD [OF a(2)] by simp
  qed
  then show ?thesis
    using m(1,2) p(1) bal chains ready sum one
    by (auto simp: fetch_transfer_events_def guard_error_def balances_ok_def)
qed

text \<open>Fetching, separating and redeeming together.\<close>

lemma redeem_fetched:
  assumes W: "withdraw_prover_ok H W state" and agg: "aggregated H s f logs"
    and served: "tokens_served ready s logs tokens" and bal: "balances_ok logs tokens clients" and as: "distinct as"
    and order: "\<And>xs. mset (order xs) = mset xs" "\<And>xs. mset (order' xs) = mset xs" and nd: "nd < NUM_BATCH_INVOICES"
    and spend: "\<And>a. a \<in> set as \<Longrightarrow> \<exists>secret. secrets a = Some secret \<and> spends_to H (recipient_to_fr sha gr) secret a"
    and room: "room_for_dummies s tokens"
    and claimed: "vf_total_teleported verifier (recipient_to_u256 sha gr) = Inr claimed"
      "unat claimed < served_total (query_limit limit) s logs tokens (set as)" "served_total (query_limit limit) s logs tokens (set as) < 2 ^ 248"
    and submit: "\<And>c. submit c = Inr ()"
  shows "\<exists>m sep c. fetch_transfer_events indexer limit tokens clients as order = Inr m
    \<and> separate_events_by_eligibility s m = Inr sep
    \<and> (\<forall>c. map_of sep c = None \<longleftrightarrow> (\<forall>a \<in> set as. \<not> held (zip tokens clients) c a))
    \<and> (\<forall>x \<in> set sep. sum_list (map event_amount (el_eligible (snd x))) = served_on (query_limit limit) s logs (set as) (fst x))
    \<and> redeem_transfers H sha W nd verifier submit indexer s sep secrets gr tokens order' = Inr (Submitted c)
    \<and> attests_total H W state (u256_to_fr (at_aggregation_root s)) (recipient_to_fr sha gr) (served_total (query_limit limit) s logs tokens (set as)) c"
proof -
  obtain m sep where m: "fetch_transfer_events indexer limit tokens clients as order = Inr m"
      "separate_events_by_eligibility s m = Inr sep" "distinct (map fst sep)"
      "\<forall>x \<in> set sep. chain_ready ready s tokens logs x" "eligible_sum sep = served_total (query_limit limit) s logs tokens (set as)"
      "fst ` set sep = {c. \<exists>a \<in> set as. held (zip tokens clients) c a}"
      "\<forall>(c, e) \<in> set (items sep). c \<in> te_chain_id ` set tokens \<and> ev_to e \<in> set as"
      "\<forall>x \<in> set sep. sum_list (map event_amount (el_eligible (snd x))) = served_on (query_limit limit) s logs (set as) (fst x)"
    using fetch_ok [OF agg served bal as order(1)] by blast
  have "global_index (the (position c (at_chain_ids s))) (ev_index e) < 2 ^ GLOBAL_TRANSFER_TREE_HEIGHT - NUM_BATCH_INVOICES"
    if ce: "(c, e) \<in> set (items sep)" for c e
  proof -
    obtain i t where t: "ready t (logs c) (tree_index_of s c)" "e \<in> set (take (tree_index_of s c) (logs c))"
      using item_ready [OF m(4) ce] by blast
    have "ev_index e < tree_index_of s c"
      using leaf_of_event(1) [OF t] .
    then show ?thesis
      using room m(7) ce by (fastforce simp: room_for_dummies_def global_index_def)
  qed
  then have "spendable_items H s (recipient_to_fr sha gr) secrets sep"
    using spend m(5,7) claimed(3) unfolding spendable_items_def by fastforce
  then show ?thesis
    using redeem_ok [OF W agg m(4,3) _ order(2) nd claimed(1) _ submit] m claimed(2)
    by (auto simp: map_of_eq_None_iff)
qed

end

text \<open>The indexer of this repository provides the interface.\<close>

interpretation indexer_events: indexer_service H "http_indexer_client H s idb" "indexer_ready H sha tcfg s idb"
  for H sha tcfg s idb
proof
  fix t log k a limit
  assume r: "indexer_ready H sha tcfg s idb t log k"
  then obtain tid n where n: "served H sha tcfg s idb t tid log n" "k \<le> n"
    by (auto simp: indexer_ready_def)
  let ?shown = "\<lambda>e. row_of e \<in> set (event_rows (idb_events idb tid))"
  obtain d l where c: "chain_ok log d l" "events_inv log (idb_events idb tid)" "k \<le> covered_count (idb_events idb tid)"
    using n by (auto simp: served_def)
  have k: "k \<le> length log"
    using servedD(1) [OF n(1)] n(2) by simp
  have shown: "?shown e" if "e \<in> set (take k log)" for e
    using covered_rows [OF c(1,2)] that c(3) by (auto simp: in_set_conv_nth)
  let ?es = "filter (\<lambda>e. ev_to e = a \<and> ?shown e) log" and ?L = "query_limit limit"
  have "ic_events (http_indexer_client H s idb) (te_chain_id t) (te_token_address t) a limit = Inr (take ?L ?es)"
    using events_by_recipient_ok [OF n(1), of a limit] by (simp add: http_indexer_client_def)
  moreover have "filter (\<lambda>e. ev_index e < k) (take ?L ?es) = take ?L (filter (\<lambda>e. ev_to e = a) (take k log))"
  proof -
    have split: "?es = filter (\<lambda>e. ev_to e = a) (take k log) @ filter (\<lambda>e. ev_to e = a \<and> ?shown e) (drop k log)"
      using shown filter_append [of "\<lambda>e. ev_to e = a \<and> ?shown e" "take k log" "drop k log"] by (simp cong: filter_cong)
    have low: "\<forall>e \<in> set (take k log). ev_index e < k" and high: "\<forall>e \<in> set (drop k log). \<not> ev_index e < k"
      using k log_nth [OF c(1)] by (auto simp: in_set_conv_nth)
    have "filter (\<lambda>e. ev_index e < k) (take n (filter P (take k log))) = take n (filter P (take k log))" for n P
      using low by (intro filter_True) (auto dest: in_set_takeD)
    moreover have "filter (\<lambda>e. ev_index e < k) (take n (filter P (drop k log))) = []" for n P
      using high by (intro filter_False) (auto dest: in_set_takeD)
    ultimately show ?thesis
      unfolding split by (simp only: take_append filter_append append_Nil2)
  qed
  ultimately show "\<exists>es. ic_events (http_indexer_client H s idb) (te_chain_id t) (te_token_address t) a limit = Inr es
      \<and> filter (\<lambda>e. ev_index e < k) es = take ?L (filter (\<lambda>e. ev_to e = a) (take k log))"
    by blast
qed

section \<open>Burn addresses of the recipient\<close>

lemma burn_address_spends:
  assumes "burn_address H sha fb = Inr a"
  shows "spends_to H (recipient_to_fr sha (fb_gr fb)) (fb_secret fb) a"
proof -
  obtain x where x: "compute_burn_address_from_secret H (recipient_to_fr sha (fb_gr fb)) (b256_to_fr (fb_secret fb)) = Inr x"
      "a = fr_to_address x"
    using assms by (auto simp: burn_address_def lift_burn_def res_bind_Inr_iff split: sum.splits)
  then show ?thesis
    using burn_address_fits [OF x(1)] by (simp add: spends_to_def burn_address_var_True)
qed

definition invoice_recipient :: "(bytes \<Rightarrow> b256) \<Rightarrow> b256 \<Rightarrow> b256 \<Rightarrow> u64 \<Rightarrow> address \<Rightarrow> general_recipient" where
  "invoice_recipient keccak iid seed cid addr
     = new_evm cid addr (keccak (INVOICE_TWEAK_DOMAIN @ u256_to_be_bytes seed @ u256_to_be_bytes iid))"

lemma res_map_mem: "res_map f xs = Inr ys \<Longrightarrow> y \<in> set ys \<Longrightarrow> \<exists>x \<in> set xs. f x = Inr y"
  by (induction xs arbitrary: ys) (auto simp: res_bind_Inr_iff)

lemma lift_payment_Inr_iff [simp]: "lift_payment r = Inr x \<longleftrightarrow> r = Inr x"
  by (auto simp: lift_payment_def split: sum.splits)

lemma with_tweak_tweak: "Some st = with_tweak H sha base tw cid addr \<Longrightarrow> st_tweak st = tw"
  by (auto simp: with_tweak_def map_option_case split: option.splits)

lemma invoice_entry_ok:
  assumes "invoice_entry H sha cid addr x = Inr (a, st)" "\<And>st. x = Some st \<Longrightarrow> st_tweak st = tw"
  shows "st_tweak st = tw \<and> spends_to H (recipient_to_fr sha (new_evm cid addr tw)) (st_secret st) a"
proof -
  obtain fb where fb: "x = Some st" "full_burn_address_new H sha cid addr st = Inr fb" "burn_address H sha fb = Inr a"
    using assms(1) by (auto simp: invoice_entry_def res_bind_Inr_iff)
  moreover have "fb_gr fb = new_evm cid addr (st_tweak st)" "fb_secret fb = st_secret st"
    using fb(2) by (auto simp: full_burn_address_new_def Let_def res_bind_Inr_iff)
  ultimately show ?thesis
    using burn_address_spends [OF fb(3)] assms(2) by simp
qed

lemma foldl_update:
  assumes "map_of (foldl (\<lambda>m (a, st). AList.update a st m) m0 xs) a = Some st"
  shows "(a, st) \<in> set xs \<or> map_of m0 a = Some st"
  using assms
proof (induction xs arbitrary: m0)
  case (Cons x xs)
  then have "(a, st) \<in> set xs \<or> map_of (AList.update (fst x) (snd x) m0) a = Some st"
    by (simp add: case_prod_unfold)
  then show ?case
    by (cases x) (auto simp: update_conv' split: if_splits)
qed simp

lemma invoice_secrets_ok:
  assumes "invoice_secrets H sha keccak iid seed cid addr = Inr m"
  shows "distinct (map fst m)" "m \<noteq> []"
    "(a, st) \<in> set m \<Longrightarrow> new_evm cid addr (st_tweak st) = invoice_recipient keccak iid seed cid addr
       \<and> spends_to H (recipient_to_fr sha (invoice_recipient keccak iid seed cid addr)) (st_secret st) a"
proof -
  let ?xs = "if is_single iid then [single_invoice H sha keccak iid seed cid addr]
    else map (\<lambda>sub_id. batch_invoice H sha keccak iid (word_of_nat sub_id) seed cid addr) [0..<NUM_BATCH_INVOICES]"
  obtain ys where ys: "res_map (invoice_entry H sha cid addr) ?xs = Inr ys" "m = foldl (\<lambda>m (a, st). AList.update a st m) [] ys"
    using assms by (auto simp: invoice_secrets_def res_bind_Inr_iff)
  show d: "distinct (map fst m)"
    unfolding ys(2) by (rule foldl_update_keys) simp
  have "ys \<noteq> []"
    using ys(1) by (auto simp: NUM_BATCH_INVOICES_def upt_rec res_bind_Inr_iff split: if_splits)
  then show "m \<noteq> []"
    using foldl_update_keys(2) [of "[]" ys] ys(2) by auto
  assume "(a, st) \<in> set m"
  then have "(a, st) \<in> set ys"
    using foldl_update [of "[]" ys a st] d ys(2) by simp
  then obtain x where x: "x \<in> set ?xs" "invoice_entry H sha cid addr x = Inr (a, st)"
    using res_map_mem [OF ys(1)] by blast
  have "st_tweak st' = keccak (INVOICE_TWEAK_DOMAIN @ u256_to_be_bytes seed @ u256_to_be_bytes iid)" if "x = Some st'" for st'
    using that x(1) by (auto simp: single_invoice_def batch_invoice_def intro: with_tweak_tweak split: if_splits)
  then show "new_evm cid addr (st_tweak st) = invoice_recipient keccak iid seed cid addr
       \<and> spends_to H (recipient_to_fr sha (invoice_recipient keccak iid seed cid addr)) (st_secret st) a"
    using invoice_entry_ok [OF x(2)] by (simp add: invoice_recipient_def)
qed

end
