(* ===== verification/Redeem_Commands.thy ===== *)
theory Redeem_Commands
  imports Redeem_Props
begin

text \<open>
  The commands of the client from end to end: every payment to the burn addresses of an
  invoice can be redeemed, on whatever chain it was made, once its root is aggregated; and a
  case in which \<open>receive-transfer\<close> does not redeem.
\<close>

section \<open>The commands\<close>

text \<open>
  The environment of a command: the indexer of this repository serves the tokens, which are on
  different chains, up to the aggregated indices; the hub has aggregated their roots and its
  state can be fetched; balances are answered; the last indices of the global tree are free for
  dummy steps; hash maps are traversed in some order; and transactions are accepted.
\<close>

definition redeem_env_ok ::
  "(fr \<Rightarrow> fr \<Rightarrow> fr) \<Rightarrow> (bytes \<Rightarrow> bytes) \<Rightarrow> tree_job_config \<Rightarrow> app_state \<Rightarrow> indexer_db \<Rightarrow> (nat \<Rightarrow> indexed_event list)
     \<Rightarrow> 'n redeem_env \<Rightarrow> token_entry \<Rightarrow> aggregation_tree_state \<Rightarrow> bool" where
  "redeem_env_ok H sha tcfg s idb logs env t agg \<longleftrightarrow>
     rv_indexer env = http_indexer_client H s idb \<and> t \<in> set (rv_tokens env)
     \<and> fetch_aggregation_tree_state H (rv_event_block_span env) (rv_verifier env t) (rv_hub env) = Inr agg
     \<and> hub_records H (rv_event_block_span env) (rv_verifier env t) (rv_hub env) logs
     \<and> tokens_served (indexer_ready H sha tcfg s idb) agg logs (rv_tokens env)
     \<and> balances_ok logs (rv_tokens env) (rv_clients env) \<and> room_for_dummies agg (rv_tokens env)
     \<and> (\<forall>xs. mset (rv_address_order env xs) = mset xs) \<and> (\<forall>xs. mset (rv_proof_order env xs) = mset xs)
     \<and> (\<forall>xs. mset (rv_secret_order env xs) = mset xs)
     \<and> rv_num_dummy_steps env < NUM_BATCH_INVOICES \<and> (\<forall>c. rv_submit env c = Inr ())"

text \<open>
  What the command can redeem: per burn address and chain, the first transfers up to the fetch
  limit of the command and the cap of 1000 of the server (\<open>query_limit\<close>); all that was paid, if
  no address received more transfers than this on a chain.
\<close>

definition event_limit :: "'n redeem_env \<Rightarrow> nat" where
  "event_limit env = query_limit (Some (rv_limit env))"

definition redeemable :: "'n redeem_env \<Rightarrow> aggregation_tree_state \<Rightarrow> (nat \<Rightarrow> indexed_event list) \<Rightarrow> address set \<Rightarrow> nat" where
  "redeemable env agg logs A = served_total (event_limit env) agg logs (rv_tokens env) A"

lemma redeemable_paid:
  "finite A \<Longrightarrow> within_limit (event_limit env) agg logs (rv_tokens env) A \<Longrightarrow> redeemable env agg logs A = paid agg logs (rv_tokens env) A"
  by (simp add: redeemable_def served_total_paid)

lemma env_redeem:
  assumes env: "redeem_env_ok H sha tcfg s idb logs env t agg" and W: "withdraw_prover_ok H (rv_prover env) state"
    and as: "distinct bs" "set bs = set as"
    and spend: "\<And>a. a \<in> set as \<Longrightarrow> \<exists>secret. secrets a = Some secret \<and> spends_to H (recipient_to_fr sha gr) secret a"
    and claimed: "vf_total_teleported (rv_verifier env t) (recipient_to_u256 sha gr) = Inr claimed"
      "unat claimed < redeemable env agg logs (set as)" "redeemable env agg logs (set as) < 2 ^ 248"
  shows "\<exists>m sep c. fetch_transfer_events (rv_indexer env) (Some (rv_limit env)) (rv_tokens env) (rv_clients env) bs
        (rv_address_order env) = Inr m
    \<and> separate_events_by_eligibility agg m = Inr sep
    \<and> (\<forall>c. map_of sep c = None \<longleftrightarrow> (\<forall>a \<in> set bs. \<not> held (zip (rv_tokens env) (rv_clients env)) c a))
    \<and> (\<forall>x \<in> set sep. sum_list (map event_amount (el_eligible (snd x))) = served_on (event_limit env) agg logs (set bs) (fst x))
    \<and> redeem_transfers H sha (rv_prover env) (rv_num_dummy_steps env) (rv_verifier env t) (rv_submit env) (rv_indexer env)
         agg sep secrets gr (rv_tokens env) (rv_proof_order env) = Inr (Submitted c)
    \<and> attests_total H (rv_prover env) state (u256_to_fr (at_aggregation_root agg)) (recipient_to_fr sha gr)
         (redeemable env agg logs (set bs)) c"
proof -
  have e: "rv_indexer env = http_indexer_client H s idb" "\<And>xs. mset (rv_address_order env xs) = mset xs"
      "\<And>xs. mset (rv_proof_order env xs) = mset xs" "rv_num_dummy_steps env < NUM_BATCH_INVOICES"
      "\<And>c. rv_submit env c = Inr ()" "balances_ok logs (rv_tokens env) (rv_clients env)" "room_for_dummies agg (rv_tokens env)"
    using env by (simp_all add: redeem_env_ok_def)
  have served: "tokens_served (indexer_ready H sha tcfg s idb) agg logs (rv_tokens env)"
    using env by (simp add: redeem_env_ok_def)
  obtain f where agg: "aggregated H agg f logs"
    using fetch_aggregated env by (fastforce simp: redeem_env_ok_def)
  show ?thesis
    unfolding e(1) redeemable_def event_limit_def
    by (rule indexer_events.redeem_fetched [OF W agg served e(6) as(1) e(2,3,4) _ e(7) claimed(1) _ _ e(5)])
      (use spend claimed as(2) in \<open>auto simp: redeemable_def event_limit_def\<close>)
qed

text \<open>
  Payments to an invoice can be redeemed, wherever they were made: once the hub has
  aggregated roots that cover them and the indexer serves these, \<open>invoice receive\<close> submits a
  proof, accepted by the circuits, of exactly the total of the first transfers to each burn
  address of the invoice on each chain, up to the fetch limit and below the aggregated indices,
  if that is more than what was claimed before; in whatever order hash maps are traversed.
\<close>

theorem invoice_receive_redeems:
  assumes "invoice_secrets H sha keccak iid seed cid addr = Inr m" "te_chain_id t = unat cid"
    "redeem_env_ok H sha tcfg s idb logs env t agg" "withdraw_prover_ok H (rv_prover env) state"
    "vf_total_teleported (rv_verifier env t) (recipient_to_u256 sha (invoice_recipient keccak iid seed cid addr)) = Inr claimed"
    "unat claimed < redeemable env agg logs (fst ` set m)" "redeemable env agg logs (fst ` set m) < 2 ^ 248"
  shows "\<exists>c. invoice_receive H sha keccak env iid seed cid addr = Inr (Some (Submitted c))
    \<and> attests_total H (rv_prover env) state (u256_to_fr (at_aggregation_root agg))
         (recipient_to_fr sha (invoice_recipient keccak iid seed cid addr)) (redeemable env agg logs (fst ` set m)) c"
proof -
  let ?q = "rv_secret_order env m" and ?gr = "invoice_recipient keccak iid seed cid addr"
  have token: "find_token_by_chain (rv_tokens env) (unat cid) = Inr t"
      "fetch_aggregation_tree_state H (rv_event_block_span env) (rv_verifier env t) (rv_hub env) = Inr agg"
    using assms(2,3) find_token(2) [of "rv_tokens env" t] by (auto simp: redeem_env_ok_def tokens_served_def)
  have "mset ?q = mset m"
    using assms(3) by (simp add: redeem_env_ok_def)
  then have q: "set ?q = set m" "distinct (map fst ?q)" "?q \<noteq> []"
    using invoice_secrets_ok(1,2) [OF assms(1)] by (metis mset_eq_setD, metis mset_eq_imp_distinct_iff mset_map, auto)
  then obtain a st rest where hd: "?q = (a, st) # rest"
    by (metis list.exhaust surj_pair)
  then have gr: "new_evm cid addr (st_tweak st) = ?gr"
    using q(1) invoice_secrets_ok(3) [OF assms(1)] by fastforce
  have spend: "\<exists>secret. (map_option st_secret \<circ> map_of m) a = Some secret \<and> spends_to H (recipient_to_fr sha ?gr) secret a"
    if "a \<in> set (map fst m)" for a
    using that invoice_secrets_ok(1,3) [OF assms(1)] by auto blast
  have keys: "set (map fst ?q) = set (map fst m)" "set (map fst m) = fst ` set m"
    using q(1) by simp_all
  obtain es sep c where run: "fetch_transfer_events (rv_indexer env) (Some (rv_limit env)) (rv_tokens env) (rv_clients env)
        (map fst ?q) (rv_address_order env) = Inr es" "separate_events_by_eligibility agg es = Inr sep"
      "redeem_transfers H sha (rv_prover env) (rv_num_dummy_steps env) (rv_verifier env t) (rv_submit env) (rv_indexer env)
         agg sep (map_option st_secret \<circ> map_of m) ?gr (rv_tokens env) (rv_proof_order env) = Inr (Submitted c)"
      "attests_total H (rv_prover env) state (u256_to_fr (at_aggregation_root agg)) (recipient_to_fr sha ?gr)
         (redeemable env agg logs (fst ` set m)) c"
    using env_redeem [OF assms(3,4) q(2) keys(1) spend assms(5)] assms(6,7) unfolding keys by blast
  have "invoice_receive H sha keccak env iid seed cid addr = Inr (Some (Submitted c))"
    using run(1-3) assms(1) token gr by (simp add: invoice_receive_def build_invoice_receive_context_def hd)
  then show ?thesis
    using run(4) by blast
qed


section \<open>A concrete world\<close>

text \<open>
  Two chains: all transfers were made on chain 1, the recipient is on chain 2, where nothing
  was paid. The hash is constant, so that every secret burns to the address 2 of the sample log.
\<close>

definition two_hash :: "fr \<Rightarrow> fr \<Rightarrow> fr" where "two_hash a b = 2"

definition cross_tokens :: "token_entry list" where
  "cross_tokens = [sample_token 1, (sample_token 2)\<lparr>te_chain_id := 2\<rparr>]"

definition cross_log :: "nat \<Rightarrow> indexed_event list" where
  "cross_log c = (if c = 1 then sample_log else [])"

definition cross_chains :: "token_entry \<Rightarrow> token_chain" where
  "cross_chains t = \<lparr>tc_latest_block = Inr 20, tc_index = Inr (length (cross_log (te_chain_id t))),
     tc_get_events = (\<lambda>a b. Inr (filter (\<lambda>e. a \<le> ev_block e \<and> ev_block e \<le> b) (cross_log (te_chain_id t))))\<rparr>"

lemma cross_world:
  "event_world cross_chains (\<lambda>t. cross_log (te_chain_id t)) (\<lambda>_. 20) \<lparr>block_span = 4, forward_scan_overlap = 1\<rparr> cross_tokens"
  "tree_world (\<lambda>t. cross_log (te_chain_id t)) (\<lambda>_. 20) tall_config cross_tokens"
  using sample_chain(1) sample_root_world(1)
  by (simp_all add: event_world_def tree_world_def tokens_ok_def token_key_def sample_token_def cross_tokens_def cross_log_def
      cross_chains_def node_answers_def sample_length chain_ok_def tall_config_def sample_tree_config_def TRANSFER_TREE_HEIGHT_def)

lemma cross_server:
  "\<exists>s idb. \<forall>t \<in> set cross_tokens.
     indexer_ready two_hash const_sha tall_config s idb t (cross_log (te_chain_id t)) (length (cross_log (te_chain_id t)))"
proof -
  obtain s idb where run: "server_running two_hash const_sha tall_config (\<lambda>t. cross_log (te_chain_id t)) (\<lambda>_. 20) cross_tokens s idb"
      "\<forall>t \<in> set cross_tokens. token_complete two_hash const_sha tall_config (\<lambda>t. cross_log (te_chain_id t)) t idb"
    using server_after_run [OF cross_world] by blast
  then show ?thesis
    using running_complete [OF run(1)] by (fastforce simp: indexer_ready_def tall_config_def)
qed

definition cross_event :: aggregation_root_event where
  "cross_event = \<lparr>ag_root = 2, ag_seq = 1, ag_snapshot = [2, 2], ag_transfer_tree_indices = [3, 0]\<rparr>"

definition cross_hub :: hub_calls where
  "cross_hub = \<lparr>hb_latest_block = Inr 0, hb_root_events = (\<lambda>_ _. Inr [cross_event]),
     hb_token_infos = Inr (map (\<lambda>t. \<lparr>ht_chain_id = te_chain_id t, ht_eid = 0, ht_verifier = te_verifier_address t,
       ht_token = te_token_address t\<rparr>) cross_tokens)\<rparr>"

definition cross_verifier :: verifier_calls where
  "cross_verifier = \<lparr>vf_latest_agg_seq = Inr 1, vf_global_transfer_root = (\<lambda>_. Inr 2), vf_total_teleported = (\<lambda>_. Inr 0)\<rparr>"

lemma two_simps: "fr_to_u256 2 = 2" "u256_to_fr 2 = 2" "fr_to_address 2 = 2" "node two_hash f (Suc d) k = 2"
  by (simp_all add: word_unat_eq_iff fr_eq_iff unat_fr_to_address into_bigint_numeral into_bigint_u256_to_fr bn254_r_def two_hash_def)

lemma cross_find: "find_aggregation_event cross_hub 1 5 = Inr cross_event"
  by (simp add: find_aggregation_event_def cross_hub_def find_event_loop.simps cross_event_def call_def)

lemma cross_fetch:
  "\<exists>agg. fetch_aggregation_tree_state two_hash 5 cross_verifier cross_hub = Inr agg
     \<and> at_chain_ids agg = [1, 2] \<and> at_tree_root_indices agg = [3, 0] \<and> at_aggregation_root agg = 2"
proof -
  have "mt_inv two_hash AGGREGATION_TREE_HEIGHT (mt_new two_hash AGGREGATION_TREE_HEIGHT) (\<lambda>_. 0)"
    by (rule mt_inv_new) (simp add: tree_heights)
  then obtain t where t: "fill_aggregation_tree two_hash 0 [2, 2] (mt_new two_hash AGGREGATION_TREE_HEIGHT) = Some t"
      "mt_inv two_hash AGGREGATION_TREE_HEIGHT t (snapshot_leaves 0 [2, 2] (\<lambda>_. 0))"
    using fill_ok [of two_hash _ "\<lambda>_. 0" 0 "[2, 2]"] by (force simp: tree_heights)
  have "node two_hash g AGGREGATION_TREE_HEIGHT 0 = 2" for g
    using two_simps(4) [of g 5 0] by (simp add: tree_heights)
  then have "mt_get_root t = Some 2"
    using mt_get_root_ok [OF t(2)] by simp
  then show ?thesis
    using t(1) cross_find
    by (simp add: fetch_aggregation_tree_state_def cross_verifier_def cross_event_def call_def guard_error_def or_panic_def two_simps
        del: fill_aggregation_tree.simps) (simp add: cross_hub_def cross_tokens_def sample_token_def)
qed

lemma cross_records: "hub_records two_hash 5 cross_verifier cross_hub cross_log"
proof -
  have root: "root_word two_hash TRANSFER_TREE_HEIGHT ts k = 2" for ts k
    using two_simps(4) [of _ 39 0] by (simp add: root_word_def tree_heights two_simps(1))
  show ?thesis
    unfolding hub_records_def
  proof (intro allI impI)
    fix seq ev infos
    assume a: "vf_latest_agg_seq cross_verifier = Inr seq \<and> find_aggregation_event cross_hub seq 5 = Inr ev
      \<and> hb_token_infos cross_hub = Inr infos"
    then have ev: "ev = cross_event"
      using cross_find by (simp add: cross_verifier_def)
    have len: "length infos = 2"
      using a by (auto simp: cross_hub_def cross_tokens_def)
    show "length (ag_snapshot ev) \<le> 2 ^ AGGREGATION_TREE_HEIGHT \<and> length infos \<le> length (ag_snapshot ev)
        \<and> length infos \<le> length (ag_transfer_tree_indices ev)
        \<and> (\<forall>i < length infos. ag_snapshot ev ! i
             = root_word two_hash TRANSFER_TREE_HEIGHT (map transfer_of (cross_log (ht_chain_id (infos ! i)))) (ag_transfer_tree_indices ev ! i))"
      unfolding root ev len by (auto simp: cross_event_def tree_heights less_2_cases_iff)
  qed
qed

definition clear_withdraw :: "(fr \<Rightarrow> fr \<Rightarrow> fr) \<Rightarrow> fr list withdraw_prover" where
  "clear_withdraw H = \<lparr>wp_init = Inr,
     wp_prove_step = (\<lambda>z e. case withdraw_nova_step H GLOBAL_TRANSFER_TREE_HEIGHT z e of
        None \<Rightarrow> Inl ''unsatisfied'' | Some z' \<Rightarrow> Inr z'),
     wp_verify = (\<lambda>_. Inr ()), wp_decider = (\<lambda>_. Inr []), wp_groth16 = (\<lambda>_ _. Inr [])\<rparr>"

lemma clear_withdraw_ok: "withdraw_prover_ok H (clear_withdraw H) id"
  by (auto simp: withdraw_prover_ok_def clear_withdraw_def)

definition cross_env :: "app_state \<Rightarrow> indexer_db \<Rightarrow> fr list redeem_env" where
  "cross_env s idb = \<lparr>rv_indexer = http_indexer_client two_hash s idb, rv_limit = 100, rv_tokens = cross_tokens,
     rv_clients = [\<lambda>_. Inr 15, \<lambda>_. Inr 0], rv_verifier = (\<lambda>_. cross_verifier), rv_hub = cross_hub, rv_event_block_span = 5,
     rv_prover = clear_withdraw two_hash, rv_num_dummy_steps = 3, rv_submit = (\<lambda>_. Inr ()),
     rv_address_order = rev, rv_proof_order = rev, rv_secret_order = rev\<rparr>"

definition home_token :: token_entry where
  "home_token = (sample_token 2)\<lparr>te_chain_id := 2\<rparr>"

lemma cross_env_ok:
  assumes ready: "\<forall>t \<in> set cross_tokens.
      indexer_ready two_hash const_sha tall_config s idb t (cross_log (te_chain_id t)) (length (cross_log (te_chain_id t)))"
    and agg: "fetch_aggregation_tree_state two_hash 5 cross_verifier cross_hub = Inr agg"
      "at_chain_ids agg = [1, 2]" "at_tree_root_indices agg = [3, 0]"
  shows "redeem_env_ok two_hash const_sha tall_config s idb cross_log (cross_env s idb) home_token agg"
    "redeemable (cross_env s idb) agg cross_log {2} = 15"
proof -
  have idx: "tree_index_of agg (Suc 0) = 3" "tree_index_of agg 2 = 0"
    using agg by (simp_all add: tree_index_of_def)
  have tokens: "te_chain_id (sample_token 1) = 1" "length (cross_log 1) = 3" "cross_log 2 = []"
    by (simp_all add: sample_token_def cross_log_def sample_length)
  have len: "length (filter P (take k (cross_log c))) \<le> 100" for P k c
    by (rule order_trans [OF length_filter_le]) (simp add: cross_log_def sample_length min_def)
  have "tokens_served (indexer_ready two_hash const_sha tall_config s idb) agg cross_log cross_tokens"
    using ready agg tokens idx by (simp add: tokens_served_def cross_tokens_def)
  moreover have "balances_ok cross_log cross_tokens [\<lambda>_. Inr 15, \<lambda>_. Inr 0]"
    using tokens by (simp add: balances_ok_def cross_tokens_def)
  moreover have "room_for_dummies agg cross_tokens"
    using agg tokens idx
    by (simp add: room_for_dummies_def cross_tokens_def global_index_def tree_heights NUM_BATCH_INVOICES_def)
  ultimately show "redeem_env_ok two_hash const_sha tall_config s idb cross_log (cross_env s idb) home_token agg"
    using agg(1) cross_records by (simp add: redeem_env_ok_def cross_env_def home_token_def cross_tokens_def NUM_BATCH_INVOICES_def)
  have "within_limit (event_limit (cross_env s idb)) agg cross_log (rv_tokens (cross_env s idb)) {2}"
    using len by (simp add: within_limit_def event_limit_def query_limit_def cross_env_def)
  moreover have "paid agg cross_log (rv_tokens (cross_env s idb)) {2} = 15"
    using tokens idx
    by (simp add: paid_def paid_on_def cross_env_def cross_tokens_def)
      (simp add: cross_log_def sample_log_def sample_event_def event_amount_def)
  ultimately show "redeemable (cross_env s idb) agg cross_log {2} = 15"
    by (simp add: redeemable_paid)
qed

lemma two_burn: "compute_burn_address_from_secret two_hash r x = Inr 2"
proof -
  have "into_bigint 2 = 2"
    by (simp add: into_bigint_numeral bn254_r_def)
  then show ?thesis
    by (simp add: compute_burn_address_iff two_hash_def fr_eq_iff into_bigint_fr_of_nat bn254_r_def)
qed

lemma two_address: "burn_address two_hash const_sha fb = Inr 2"
  by (simp add: burn_address_def two_burn lift_burn_def two_simps)

definition sample_invoice :: b256 where
  "sample_invoice = random_invoice_id (replicate 32 0) True 2"

lemma sample_invoice_secrets:
  "\<exists>st. invoice_secrets two_hash const_sha keccak sample_invoice seed 2 addr = Inr [(2, st)]"
proof -
  have "find_pow_nonce two_hash r x = Some 0" for r x
    by (simp add: find_pow_nonce_def find_pow_from.simps compute_burn_address_for_nonce_def two_burn is_ok_iff)
  moreover have "is_single sample_invoice"
    unfolding sample_invoice_def by (rule invoice_id_fields(1) [THEN iffD2]) simp_all
  ultimately show ?thesis
    by (simp add: invoice_secrets_def single_invoice_def with_tweak_def pow_adjusted_secret_def Let_def invoice_entry_def
        or_panic_def lift_payment_def full_burn_address_new_def two_burn lift_burn_def two_address)
qed


end
