(* ===== verification/Config.thy ===== *)
theory Config
  imports Root_Job
begin

text \<open>
  Configuration of the programs: the token file (\<open>client-common/src/tokens.rs\<close>, loaded by
  \<open>cli/src/main.rs\<close> and \<open>crosschain-job/src/main.rs\<close>), the settings of the indexer
  (\<open>indexer/src/config.rs\<close>), and the parsers of command-line values
  (\<open>cli/src/commands/shared.rs\<close>). Files and variables are given as their contents; JSON,
  hexadecimal and decimal decoding and URLs are third-party code and parameters.
\<close>

datatype config_error =
    ConfigError string
  | ConfigParse string
  | ConfigEvent event_error
  | ConfigJob job_error

definition ensure :: "bool \<Rightarrow> string \<Rightarrow> config_error + unit" where
  "ensure ok msg = (if ok then Inr () else Inl (ConfigError msg))"

lemma ensure_Inr [simp]: "ensure ok msg = Inr u \<longleftrightarrow> ok"
  by (simp add: ensure_def)

section \<open>The token file (\<open>tokens.rs\<close>)\<close>

record hub_entry =
  he_hub_address :: address
  he_chain_id :: nat
  he_rpc_urls :: "string list"

record tokens_file =
  tf_hub :: "hub_entry option"
  tf_tokens :: "token_entry list"

definition token_normalize :: "token_entry \<Rightarrow> config_error + unit" where
  "token_normalize t =
     (if trim_ascii (te_label t) = [] then Inl (ConfigError ''token label must be non-empty'')
      else if te_rpc_urls t = [] then Inl (ConfigError ''token must configure at least one rpc url'')
      else Inr ())"

definition hub_normalize :: "hub_entry \<Rightarrow> config_error + unit" where
  "hub_normalize h = (if he_rpc_urls h = [] then Inl (ConfigError ''hub must configure at least one rpc url'') else Inr ())"

definition tokens_file_normalize :: "tokens_file \<Rightarrow> config_error + unit" where
  "tokens_file_normalize f = (case tf_hub f of Some hub \<Rightarrow> hub_normalize hub | None \<Rightarrow> Inr ())"

text \<open>The contents of the file, \<open>None\<close> when it cannot be read; \<open>json\<close> parses them.\<close>

definition load_tokens_config ::
  "(string \<Rightarrow> tokens_file option) \<Rightarrow> string option \<Rightarrow> config_error + token_entry list \<times> hub_entry option" where
  "load_tokens_config json contents =
     res_bind (ok_or (ConfigParse ''failed to read tokens config'') contents) (\<lambda>text.
     res_bind (ok_or (ConfigParse ''failed to parse tokens config JSON'') (json text)) (\<lambda>f.
     res_bind (tokens_file_normalize f) (\<lambda>_.
     res_bind (res_map token_normalize (tf_tokens f)) (\<lambda>_.
     Inr (tf_tokens f, tf_hub f)))))"

definition token_valid :: "token_entry \<Rightarrow> bool" where
  "token_valid t \<longleftrightarrow> trim_ascii (te_label t) \<noteq> [] \<and> te_rpc_urls t \<noteq> []"

lemma token_normalize_iff: "token_normalize t = Inr u \<longleftrightarrow> token_valid t"
  by (auto simp: token_normalize_def token_valid_def)

lemma res_map_ok_iff: "(\<exists>ys. res_map f xs = Inr ys) \<longleftrightarrow> (\<forall>x \<in> set xs. \<exists>y. f x = Inr y)"
  by (induction xs) (auto simp: res_bind_Inr_iff)

section \<open>Values on the command line (\<open>shared.rs\<close>)\<close>

text \<open>
  \<open>unhex\<close> decodes hexadecimal digits; \<open>big\<close> gives the big-endian bytes of a decimal number.
\<close>

definition fill_to_32 :: "bytes \<Rightarrow> bytes" where
  "fill_to_32 bs = replicate (32 - length bs) 0 @ bs"

definition strip_any_0x :: "string \<Rightarrow> string option" where
  "strip_any_0x s = (if take 2 s = ''0x'' \<or> take 2 s = ''0X'' then Some (drop 2 s) else None)"

definition parse_b256 :: "(string \<Rightarrow> bytes option) \<Rightarrow> (string \<Rightarrow> bytes option) \<Rightarrow> string \<Rightarrow> config_error + b256" where
  "parse_b256 unhex big s =
     (let trimmed = trim_ascii s in
      if trimmed = [] then Inr 0
      else res_bind (case strip_any_0x trimmed of
             Some hex_str \<Rightarrow>
               let normalized = (if odd (length hex_str) then CHR ''0'' # hex_str else hex_str)
               in ok_or (ConfigParse ''hex'') (unhex normalized)
           | None \<Rightarrow> ok_or (ConfigParse ''decimal'') (big trimmed)) (\<lambda>bs.
         res_bind (ensure (length bs \<le> 32) ''value does not fit into 256 bits'') (\<lambda>_.
         Inr (Field.u256_from_be_slice (fill_to_32 bs)))))"

definition parse_hex_to_u256 :: "(string \<Rightarrow> bytes option) \<Rightarrow> string \<Rightarrow> config_error + u256" where
  "parse_hex_to_u256 unhex hex_str =
     (if hex_str = [] then Inr 0
      else res_bind (ok_or (ConfigParse ''hex'') (unhex hex_str)) (\<lambda>bs.
           res_bind (ensure (length bs \<le> 32) ''hex value does not fit into 256 bits'') (\<lambda>_.
           Inr (Field.u256_from_be_slice (fill_to_32 bs)))))"

definition bigint_to_u256 :: "bytes \<Rightarrow> config_error + u256" where
  "bigint_to_u256 bs =
     res_bind (ensure (length bs \<le> 32) ''decimal value does not fit into 256 bits'') (\<lambda>_.
     Inr (Field.u256_from_be_slice (fill_to_32 bs)))"

definition parse_u256_arg :: "(string \<Rightarrow> bytes option) \<Rightarrow> (string \<Rightarrow> bytes option) \<Rightarrow> string \<Rightarrow> config_error + u256" where
  "parse_u256_arg unhex big s =
     (let trimmed = trim_ascii s in
      case strip_any_0x trimmed of
        Some hex_str \<Rightarrow> parse_hex_to_u256 unhex hex_str
      | None \<Rightarrow> res_bind (ok_or (ConfigParse ''decimal'') (big trimmed)) bigint_to_u256)"

definition parse_private_key :: "(string \<Rightarrow> bytes option) \<Rightarrow> string \<Rightarrow> config_error + b256" where
  "parse_private_key unhex input =
     res_bind (ok_or (ConfigParse ''failed to decode private key hex'') (unhex (strip_0x (trim_ascii input)))) (\<lambda>bs.
     res_bind (ensure (length bs = 32) ''private key must be 32 bytes'') (\<lambda>_.
     Inr (Field.u256_from_be_slice bs)))"

section \<open>Settings of the indexer (\<open>config.rs\<close>)\<close>

definition DEFAULT_EVENT_INTERVAL_MS :: nat where "DEFAULT_EVENT_INTERVAL_MS = 5000"
definition DEFAULT_TREE_INTERVAL_MS :: nat where "DEFAULT_TREE_INTERVAL_MS = 2000"
definition DEFAULT_TREE_BATCH_SIZE :: nat where "DEFAULT_TREE_BATCH_SIZE = 128"
definition DEFAULT_ROOT_INTERVAL_MS :: nat where "DEFAULT_ROOT_INTERVAL_MS = 5000"
definition DEFAULT_ROOT_SUBMIT_INTERVAL_MS :: nat where "DEFAULT_ROOT_SUBMIT_INTERVAL_MS = 10000"
definition DEFAULT_DECIDER_PROVER_TIMEOUT_SECS :: nat where "DEFAULT_DECIDER_PROVER_TIMEOUT_SECS = 120"
definition DEFAULT_DECIDER_PROVER_POLL_INTERVAL_MS :: nat where "DEFAULT_DECIDER_PROVER_POLL_INTERVAL_MS = 1000"

definition BLOCK_SPAN_RECOMMENDED :: nat where "BLOCK_SPAN_RECOMMENDED = 5000"
definition FORWARD_SCAN_OVERLAP_RECOMMENDED :: nat where "FORWARD_SCAN_OVERLAP_RECOMMENDED = 10"
definition HISTORY_WINDOW_RECOMMENDED :: nat where "HISTORY_WINDOW_RECOMMENDED = 100"

text \<open>The environment as typed values, \<open>None\<close> where a variable is not set.\<close>

record env_vars =
  ev_database_url :: "string option"
  ev_event_interval_ms :: "nat option"
  ev_event_block_span :: "nat option"
  ev_event_forward_scan_overlap :: "nat option"
  ev_tree_interval_ms :: "nat option"
  ev_tree_history_window :: "nat option"
  ev_tree_batch_size :: "nat option"
  ev_root_interval_ms :: "nat option"
  ev_root_submit_interval_ms :: "nat option"
  ev_root_history_window :: "nat option"
  ev_decider_prover_timeout_secs :: "nat option"
  ev_decider_prover_poll_interval_ms :: "nat option"
  ev_decider_prover_url :: "string option"
  ev_root_submitter_private_key :: "string option"
  ev_root_artifacts_dir :: "string option"

record env_settings =
  es_database_url :: string
  es_event_interval_ms :: nat
  es_event_block_span :: nat
  es_event_forward_scan_overlap :: nat
  es_tree_interval_ms :: nat
  es_tree_history_window :: nat
  es_tree_batch_size :: nat
  es_root_interval_ms :: nat
  es_root_submit_interval_ms :: nat
  es_root_history_window :: "nat option"
  es_decider_prover_timeout_secs :: nat
  es_decider_prover_poll_interval_ms :: nat
  es_decider_prover_url :: string
  es_root_submitter_private_key :: string
  es_root_artifacts_dir :: "string option"

definition unwrap_or :: "'a option \<Rightarrow> 'a \<Rightarrow> 'a" where
  "unwrap_or x d = (case x of None \<Rightarrow> d | Some y \<Rightarrow> y)"

definition env_from_env :: "env_vars \<Rightarrow> config_error + env_settings" where
  "env_from_env e =
     res_bind (ok_or (ConfigParse ''DATABASE_URL'') (ev_database_url e)) (\<lambda>database_url.
     res_bind (ok_or (ConfigParse ''DECIDER_PROVER_URL'') (ev_decider_prover_url e)) (\<lambda>url.
     res_bind (ok_or (ConfigParse ''ROOT_SUBMITTER_PRIVATE_KEY'') (ev_root_submitter_private_key e)) (\<lambda>key.
     Inr \<lparr>es_database_url = database_url,
          es_event_interval_ms = unwrap_or (ev_event_interval_ms e) DEFAULT_EVENT_INTERVAL_MS,
          es_event_block_span = unwrap_or (ev_event_block_span e) BLOCK_SPAN_RECOMMENDED,
          es_event_forward_scan_overlap = unwrap_or (ev_event_forward_scan_overlap e) FORWARD_SCAN_OVERLAP_RECOMMENDED,
          es_tree_interval_ms = unwrap_or (ev_tree_interval_ms e) DEFAULT_TREE_INTERVAL_MS,
          es_tree_history_window = unwrap_or (ev_tree_history_window e) HISTORY_WINDOW_RECOMMENDED,
          es_tree_batch_size = unwrap_or (ev_tree_batch_size e) DEFAULT_TREE_BATCH_SIZE,
          es_root_interval_ms = unwrap_or (ev_root_interval_ms e) DEFAULT_ROOT_INTERVAL_MS,
          es_root_submit_interval_ms = unwrap_or (ev_root_submit_interval_ms e) DEFAULT_ROOT_SUBMIT_INTERVAL_MS,
          es_root_history_window = ev_root_history_window e,
          es_decider_prover_timeout_secs = unwrap_or (ev_decider_prover_timeout_secs e) DEFAULT_DECIDER_PROVER_TIMEOUT_SECS,
          es_decider_prover_poll_interval_ms = unwrap_or (ev_decider_prover_poll_interval_ms e) DEFAULT_DECIDER_PROVER_POLL_INTERVAL_MS,
          es_decider_prover_url = url,
          es_root_submitter_private_key = key,
          es_root_artifacts_dir = ev_root_artifacts_dir e\<rparr>)))"

record event_job_config =
  ej_interval_ms :: nat
  ej_block_span :: nat
  ej_forward_scan_overlap :: nat

definition event_config_ensure_valid :: "event_job_config \<Rightarrow> config_error + unit" where
  "event_config_ensure_valid c =
     res_bind (ensure (ej_interval_ms c \<noteq> 0) ''event job interval must be positive'') (\<lambda>_.
     case event_config_new (ej_block_span c) (ej_forward_scan_overlap c) of
       Inl e \<Rightarrow> Inl (ConfigEvent e) | Inr _ \<Rightarrow> Inr ())"

definition build_indexer_config :: "event_job_config \<Rightarrow> config_error + indexer_config" where
  "build_indexer_config c =
     (case event_config_new (ej_block_span c) (ej_forward_scan_overlap c) of
        Inl e \<Rightarrow> Inl (ConfigEvent e) | Inr cfg \<Rightarrow> Inr cfg)"

record 'url root_settings =
  rs_interval_ms :: nat
  rs_submit_interval_ms :: nat
  rs_history_window :: nat
  rs_prover_timeout_secs :: nat
  rs_prover_poll_interval_ms :: nat
  rs_prover_url :: 'url
  rs_submitter_private_key :: b256
  rs_artifacts_dir :: string

definition parse_hex_b256 :: "(string \<Rightarrow> bytes option) \<Rightarrow> string \<Rightarrow> config_error + b256" where
  "parse_hex_b256 unhex value =
     (let normalized = trim_ascii value in
      res_bind (ensure (normalized \<noteq> []) ''hex string must not be empty'') (\<lambda>_.
      let hex = strip_0x normalized in
      res_bind (ensure (length hex = 64) ''hex string must be 32 bytes (64 hex characters)'') (\<lambda>_.
      res_bind (ok_or (ConfigParse ''failed to decode hex string into bytes'') (unhex hex)) (\<lambda>bs.
      res_bind (ensure (length bs = 32) ''hex string must decode to exactly 32 bytes'') (\<lambda>_.
      Inr (Field.u256_from_be_slice bs))))))"

text \<open>Paths are strings; \<open>root\<close> is the directory of the workspace.\<close>

definition path_join :: "string \<Rightarrow> string \<Rightarrow> string" where
  "path_join root p = root @ ''/'' @ p"

definition artifacts_path :: "string \<Rightarrow> string option \<Rightarrow> string" where
  "artifacts_path root dir =
     (case dir of
        Some path \<Rightarrow> if take 1 path = ''/'' then path else path_join root path
      | None \<Rightarrow> path_join root ''nova_artifacts'')"

definition root_config_new ::
  "(string \<Rightarrow> bytes option) \<Rightarrow> (string \<Rightarrow> 'url option) \<Rightarrow> string \<Rightarrow> nat \<Rightarrow> nat \<Rightarrow> nat \<Rightarrow> nat \<Rightarrow> nat \<Rightarrow> string \<Rightarrow> string \<Rightarrow> string option
     \<Rightarrow> config_error + 'url root_settings" where
  "root_config_new unhex parse_url root interval_ms submit_interval_ms history_window prover_timeout_secs prover_poll_interval_ms
       prover_url submitter_private_key artifacts_dir =
     res_bind (ensure (interval_ms \<noteq> 0) ''root prover job interval must be positive'') (\<lambda>_.
     res_bind (ensure (submit_interval_ms \<noteq> 0) ''root prover submission interval must be positive'') (\<lambda>_.
     res_bind (ensure (history_window \<noteq> 0) ''root prover history window must be greater than zero'') (\<lambda>_.
     res_bind (ensure (prover_poll_interval_ms \<noteq> 0) ''root prover poll interval must be greater than zero'') (\<lambda>_.
     res_bind (ok_or (ConfigParse ''DECIDER_PROVER_URL'') (parse_url (trim_ascii prover_url))) (\<lambda>url.
     res_bind (parse_hex_b256 unhex submitter_private_key) (\<lambda>key.
     Inr \<lparr>rs_interval_ms = interval_ms, rs_submit_interval_ms = submit_interval_ms, rs_history_window = history_window,
          rs_prover_timeout_secs = prover_timeout_secs, rs_prover_poll_interval_ms = prover_poll_interval_ms,
          rs_prover_url = url, rs_submitter_private_key = key, rs_artifacts_dir = artifacts_path root artifacts_dir\<rparr>))))))"

record 'url indexer_settings =
  is_database_url :: string
  is_tokens :: "token_entry list"
  is_event_indexer :: event_job_config
  is_tree :: tree_job_config
  is_root :: "'url root_settings"

definition load_tokens :: "(string \<Rightarrow> tokens_file option) \<Rightarrow> string option \<Rightarrow> config_error + token_entry list" where
  "load_tokens json contents =
     res_bind (ok_or (ConfigParse ''failed to read token config'') contents) (\<lambda>text.
     res_bind (ok_or (ConfigParse ''failed to parse token config'') (json text)) (\<lambda>f.
     res_bind (tokens_file_normalize f) (\<lambda>_. Inr (tf_tokens f))))"

definition indexer_config_load ::
  "(string \<Rightarrow> tokens_file option) \<Rightarrow> (string \<Rightarrow> bytes option) \<Rightarrow> (string \<Rightarrow> 'url option) \<Rightarrow> string \<Rightarrow> env_vars \<Rightarrow> string option
     \<Rightarrow> config_error + 'url indexer_settings" where
  "indexer_config_load json unhex parse_url root vars contents =
     res_bind (env_from_env vars) (\<lambda>env.
     res_bind (load_tokens json contents) (\<lambda>tokens.
     res_bind (ensure (tokens \<noteq> []) ''at least one token entry must be configured'') (\<lambda>_.
     res_bind (res_map token_normalize tokens) (\<lambda>_.
     let event_indexer = \<lparr>ej_interval_ms = es_event_interval_ms env, ej_block_span = es_event_block_span env,
           ej_forward_scan_overlap = es_event_forward_scan_overlap env\<rparr> in
     res_bind (event_config_ensure_valid event_indexer) (\<lambda>_.
     let tree = \<lparr>tj_interval_ms = es_tree_interval_ms env, tj_height = TRANSFER_TREE_HEIGHT,
           tj_history_window = es_tree_history_window env, tj_batch_size = es_tree_batch_size env\<rparr> in
     res_bind (case tree_config_ensure_valid tree of Inl e \<Rightarrow> Inl (ConfigJob e) | Inr _ \<Rightarrow> Inr ()) (\<lambda>_.
     res_bind (root_config_new unhex parse_url root (es_root_interval_ms env) (es_root_submit_interval_ms env)
        (unwrap_or (es_root_history_window env) (tj_history_window tree)) (es_decider_prover_timeout_secs env)
        (es_decider_prover_poll_interval_ms env) (es_decider_prover_url env) (es_root_submitter_private_key env)
        (es_root_artifacts_dir env)) (\<lambda>root.
     Inr \<lparr>is_database_url = es_database_url env, is_tokens = tokens, is_event_indexer = event_indexer, is_tree = tree,
          is_root = root\<rparr>)))))))"

section \<open>What a loaded configuration guarantees\<close>

lemma event_config_ensure_valid_iff:
  "event_config_ensure_valid c = Inr u \<longleftrightarrow> ej_interval_ms c \<noteq> 0 \<and> ej_block_span c \<noteq> 0"
  by (auto simp: event_config_ensure_valid_def event_config_new_def res_bind_Inr_iff split: sum.splits if_splits)

lemma root_config_new_Inr:
  "root_config_new unhex parse_url root i s h t p url key dir = Inr rs \<Longrightarrow>
     i \<noteq> 0 \<and> s \<noteq> 0 \<and> h \<noteq> 0 \<and> p \<noteq> 0 \<and> rs_history_window rs = h
     \<and> rs_interval_ms rs = i \<and> rs_submit_interval_ms rs = s \<and> rs_prover_poll_interval_ms rs = p \<and> parse_hex_b256 unhex key = Inr (rs_submitter_private_key rs)
     \<and> parse_url (trim_ascii url) = Some (rs_prover_url rs) \<and> take 1 (rs_artifacts_dir rs) = take 1 (artifacts_path root dir)"
  by (auto simp: root_config_new_def res_bind_Inr_iff ok_or_def split: option.splits)

lemma parse_hex_b256_Inr:
  assumes "parse_hex_b256 unhex value = Inr key"
  shows "\<exists>bs. length (strip_0x (trim_ascii value)) = 64 \<and> unhex (strip_0x (trim_ascii value)) = Some bs \<and> length bs = 32
    \<and> u256_to_be_bytes key = bs"
  using assms be_bytes_u256_from_be_slice
  by (auto simp: parse_hex_b256_def Let_def res_bind_Inr_iff ok_or_def split: option.splits)

lemma load_tokens_Inr:
  "load_tokens json contents = Inr ts \<longleftrightarrow>
     (\<exists>text f. contents = Some text \<and> json text = Some f \<and> (\<forall>h. tf_hub f = Some h \<longrightarrow> he_rpc_urls h \<noteq> []) \<and> ts = tf_tokens f)"
  by (auto simp: load_tokens_def tokens_file_normalize_def hub_normalize_def res_bind_Inr_iff ok_or_def split: option.splits if_splits)

lemma lift_job_Inr: "(case r of Inl e \<Rightarrow> Inl (ConfigJob e) | Inr _ \<Rightarrow> Inr ()) = Inr u \<longleftrightarrow> r = Inr ()"
  by (cases r) auto

lemma res_map_all: "res_map f xs = Inr ys \<Longrightarrow> \<forall>x \<in> set xs. \<exists>y. f x = Inr y"
  using res_map_ok_iff [of f xs] by blast

lemma loaded_config_ok:
  assumes "indexer_config_load json unhex parse_url root vars contents = Inr cfg"
  shows "is_tokens cfg \<noteq> [] \<and> (\<forall>t \<in> set (is_tokens cfg). token_valid t)
    \<and> (\<exists>ecfg. build_indexer_config (is_event_indexer cfg) = Inr ecfg \<and> 0 < block_span ecfg)
    \<and> tree_config_ensure_valid (is_tree cfg) = Inr () \<and> tj_height (is_tree cfg) = TRANSFER_TREE_HEIGHT
    \<and> 0 < rs_history_window (is_root cfg)
    \<and> 0 < ej_interval_ms (is_event_indexer cfg) \<and> 0 < rs_interval_ms (is_root cfg) \<and> 0 < rs_submit_interval_ms (is_root cfg)
    \<and> 0 < rs_prover_poll_interval_ms (is_root cfg)
    \<and> (\<exists>key bs. ev_root_submitter_private_key vars = Some key \<and> length (strip_0x (trim_ascii key)) = 64
         \<and> unhex (strip_0x (trim_ascii key)) = Some bs \<and> length bs = 32 \<and> u256_to_be_bytes (rs_submitter_private_key (is_root cfg)) = bs)
    \<and> (ev_event_block_span vars = None \<and> ev_event_forward_scan_overlap vars = None
         \<longrightarrow> ej_forward_scan_overlap (is_event_indexer cfg) < ej_block_span (is_event_indexer cfg))
    \<and> (ev_root_history_window vars = None \<longrightarrow> rs_history_window (is_root cfg) = tj_history_window (is_tree cfg))"
proof -
  obtain env ts us rs where env: "env_from_env vars = Inr env" and "ts \<noteq> []" "res_map token_normalize ts = Inr us"
    and valid: "event_config_ensure_valid \<lparr>ej_interval_ms = es_event_interval_ms env, ej_block_span = es_event_block_span env,
        ej_forward_scan_overlap = es_event_forward_scan_overlap env\<rparr> = Inr ()"
      "tree_config_ensure_valid \<lparr>tj_interval_ms = es_tree_interval_ms env, tj_height = TRANSFER_TREE_HEIGHT,
        tj_history_window = es_tree_history_window env, tj_batch_size = es_tree_batch_size env\<rparr> = Inr ()"
    and rs: "root_config_new unhex parse_url root (es_root_interval_ms env) (es_root_submit_interval_ms env)
        (unwrap_or (es_root_history_window env) (es_tree_history_window env)) (es_decider_prover_timeout_secs env)
        (es_decider_prover_poll_interval_ms env) (es_decider_prover_url env) (es_root_submitter_private_key env)
        (es_root_artifacts_dir env) = Inr rs"
    and cfg: "cfg = \<lparr>is_database_url = es_database_url env, is_tokens = ts,
        is_event_indexer = \<lparr>ej_interval_ms = es_event_interval_ms env, ej_block_span = es_event_block_span env,
          ej_forward_scan_overlap = es_event_forward_scan_overlap env\<rparr>,
        is_tree = \<lparr>tj_interval_ms = es_tree_interval_ms env, tj_height = TRANSFER_TREE_HEIGHT,
          tj_history_window = es_tree_history_window env, tj_batch_size = es_tree_batch_size env\<rparr>, is_root = rs\<rparr>"
    using assms unfolding indexer_config_load_def Let_def res_bind_Inr_iff by (auto simp: lift_job_Inr)
  have ts: "\<forall>t \<in> set ts. token_valid t"
    using res_map_all [OF \<open>res_map token_normalize ts = Inr us\<close>] by (simp add: token_normalize_iff)
  note root = root_config_new_Inr [OF rs]
  have env': "es_event_block_span env = unwrap_or (ev_event_block_span vars) BLOCK_SPAN_RECOMMENDED"
    "es_event_forward_scan_overlap env = unwrap_or (ev_event_forward_scan_overlap vars) FORWARD_SCAN_OVERLAP_RECOMMENDED"
    "es_root_history_window env = ev_root_history_window vars"
    "ev_root_submitter_private_key vars = Some (es_root_submitter_private_key env)"
    using env by (auto simp: env_from_env_def res_bind_Inr_iff ok_or_def split: option.splits)
  have "parse_hex_b256 unhex (es_root_submitter_private_key env) = Inr (rs_submitter_private_key rs)"
    using root by blast
  note key = parse_hex_b256_Inr [OF this]
  moreover have "0 < es_event_interval_ms env"
    using valid(1) by (simp add: event_config_ensure_valid_iff)
  moreover have "\<exists>ecfg. build_indexer_config (is_event_indexer cfg) = Inr ecfg \<and> 0 < block_span ecfg"
    using valid(1) by (simp add: cfg event_config_ensure_valid_iff build_indexer_config_def event_config_new_def)
  ultimately show ?thesis
    using \<open>ts \<noteq> []\<close> ts valid(2) root env'
    by (auto simp: cfg unwrap_or_def BLOCK_SPAN_RECOMMENDED_def FORWARD_SCAN_OVERLAP_RECOMMENDED_def)
qed

text \<open>
  \<^bold>\<open>C38\<close>. A configuration that the indexer loads is one its jobs can run with: there is a token,
  every token has a name and an endpoint; the block span, the intervals of the event, tree and
  root jobs, of submissions and of polling the decider, the batch size and both history windows
  are positive; the trees have the height of the circuits. The key of the submitter is what the
  64 digits of the variable, without surrounding space and an \<open>0x\<close>, decode to, exactly 32 bytes.
  When no optional variable is set, also the overlap of scans is below the block span and the
  root job guards exactly the window that the trees retain.
\<close>

theorem loaded_config_runs:
  assumes "indexer_config_load json unhex parse_url root vars contents = Inr cfg"
  shows "is_tokens cfg \<noteq> [] \<and> (\<forall>t \<in> set (is_tokens cfg). trim_ascii (te_label t) \<noteq> [] \<and> te_rpc_urls t \<noteq> [])
    \<and> 0 < ej_block_span (is_event_indexer cfg) \<and> (\<exists>ecfg. build_indexer_config (is_event_indexer cfg) = Inr ecfg)
    \<and> 0 < ej_interval_ms (is_event_indexer cfg) \<and> 0 < tj_interval_ms (is_tree cfg)
    \<and> 0 < rs_interval_ms (is_root cfg) \<and> 0 < rs_submit_interval_ms (is_root cfg) \<and> 0 < rs_prover_poll_interval_ms (is_root cfg)
    \<and> 0 < tj_batch_size (is_tree cfg) \<and> 0 < tj_history_window (is_tree cfg) \<and> 0 < rs_history_window (is_root cfg)
    \<and> tj_height (is_tree cfg) = TRANSFER_TREE_HEIGHT
    \<and> (\<exists>key bs. ev_root_submitter_private_key vars = Some key \<and> length (strip_0x (trim_ascii key)) = 64
         \<and> unhex (strip_0x (trim_ascii key)) = Some bs \<and> length bs = 32 \<and> u256_to_be_bytes (rs_submitter_private_key (is_root cfg)) = bs)
    \<and> (ev_event_block_span vars = None \<and> ev_event_forward_scan_overlap vars = None
         \<longrightarrow> ej_forward_scan_overlap (is_event_indexer cfg) < ej_block_span (is_event_indexer cfg))
    \<and> (ev_root_history_window vars = None \<longrightarrow> rs_history_window (is_root cfg) = tj_history_window (is_tree cfg))"
proof -
  note ok = loaded_config_ok [OF assms]
  then have "0 < ej_block_span (is_event_indexer cfg)"
    by (auto simp: build_indexer_config_def event_config_new_def split: sum.splits if_splits)
  moreover have "0 < tj_interval_ms (is_tree cfg) \<and> 0 < tj_batch_size (is_tree cfg) \<and> 0 < tj_history_window (is_tree cfg)"
    using ok by (auto simp: tree_config_ensure_valid_def db_config_new_def split: if_splits sum.splits)
  ultimately show ?thesis
    using ok by (simp add: token_valid_def) blast
qed

definition sample_env :: env_vars where
  "sample_env = \<lparr>ev_database_url = Some ''db'', ev_event_interval_ms = None, ev_event_block_span = None,
     ev_event_forward_scan_overlap = None, ev_tree_interval_ms = None, ev_tree_history_window = Some 50, ev_tree_batch_size = None,
     ev_root_interval_ms = None, ev_root_submit_interval_ms = None, ev_root_history_window = None,
     ev_decider_prover_timeout_secs = None, ev_decider_prover_poll_interval_ms = None, ev_decider_prover_url = Some ''u'',
     ev_root_submitter_private_key = Some (replicate 64 (CHR ''0'')), ev_root_artifacts_dir = None\<rparr>"

definition sample_file :: tokens_file where
  "sample_file = \<lparr>tf_hub = None, tf_tokens = [\<lparr>te_label = ''z'', te_token_address = 1, te_verifier_address = 9,
     te_minter_address = None, te_chain_id = 1, te_deployed_block = 8, te_rpc_urls = [''rpc''], te_legacy_tx = False\<rparr>]\<rparr>"

lemma sample_key_string: "trim_ascii (replicate 64 (CHR ''0'')) = replicate 64 (CHR ''0'')" "strip_0x (replicate 64 (CHR ''0'')) = replicate 64 (CHR ''0'')"
proof -
  show "trim_ascii (replicate 64 (CHR ''0'')) = replicate 64 (CHR ''0'')"
    by (intro trim_ascii_id) (simp add: is_space_def)
  have "replicate 64 (CHR ''0'') = CHR ''0'' # CHR ''0'' # replicate 62 (CHR ''0'')"
    by (simp add: numeral_eq_Suc)
  then show "strip_0x (replicate 64 (CHR ''0'')) = replicate 64 (CHR ''0'')"
    by (simp add: strip_0x_def)
qed

lemma sample_config_loads:
  "\<exists>cfg. indexer_config_load (\<lambda>_. Some sample_file) (\<lambda>_. Some (replicate 32 1)) Some ''/w'' sample_env (Some []) = Inr cfg"
proof -
  have "trim_ascii ''z'' = ''z''"
    by (intro trim_ascii_id) (simp add: is_space_def)
  then show ?thesis
    by (simp add: indexer_config_load_def env_from_env_def sample_env_def load_tokens_def tokens_file_normalize_def sample_file_def
        token_normalize_def event_config_ensure_valid_def event_config_new_def tree_config_ensure_valid_def db_config_new_def
        root_config_new_def parse_hex_b256_def sample_key_string unwrap_or_def ensure_def Let_def TRANSFER_TREE_HEIGHT_def
        DEFAULT_EVENT_INTERVAL_MS_def DEFAULT_TREE_INTERVAL_MS_def DEFAULT_TREE_BATCH_SIZE_def DEFAULT_ROOT_INTERVAL_MS_def
        DEFAULT_ROOT_SUBMIT_INTERVAL_MS_def DEFAULT_DECIDER_PROVER_POLL_INTERVAL_MS_def BLOCK_SPAN_RECOMMENDED_def)
qed

theorem loaded_config_runs_witness:
  "\<exists>cfg. indexer_config_load (\<lambda>_. Some sample_file) (\<lambda>_. Some (replicate 32 1)) Some ''/w'' sample_env (Some []) = Inr cfg
    \<and> is_tokens cfg \<noteq> [] \<and> 0 < rs_history_window (is_root cfg)
    \<and> ej_forward_scan_overlap (is_event_indexer cfg) < ej_block_span (is_event_indexer cfg)"
proof -
  obtain cfg where cfg: "indexer_config_load (\<lambda>_. Some sample_file) (\<lambda>_. Some (replicate 32 1)) Some ''/w'' sample_env (Some []) = Inr cfg"
    using sample_config_loads by blast
  have "ev_event_block_span sample_env = None" "ev_event_forward_scan_overlap sample_env = None"
    by (simp_all add: sample_env_def)
  then show ?thesis
    using loaded_config_runs [OF cfg] cfg by blast
qed

end
