(* ===== verification/Crosschain.thy ===== *)
theory Crosschain
  imports Config Teleport
begin

text \<open>
  The cross-chain job (\<open>crosschain-job/src/main.rs\<close>): relaying of the transfer roots of all
  verifiers to the hub and broadcast of the aggregated root, with \<open>--once\<close>.

  The contracts and their transactions are fields of \<open>crosschain_calls\<close> over a state of all
  chains; a job carries the transactions it has submitted along. The endless loops repeat
  \<open>execute_once\<close> after a failure as after a success; receipts are parsed for the log only.
\<close>

section \<open>Fees\<close>

definition saturating_mul :: "u256 \<Rightarrow> u256 \<Rightarrow> u256" where
  "saturating_mul a b = word_of_nat (min (2 ^ 256 - 1) (unat a * unat b))"

definition apply_fee_buffer :: "u256 \<Rightarrow> u64 \<Rightarrow> u256" where
  "apply_fee_buffer fee buffer_bps =
     (if buffer_bps = 0 then fee
      else let base = 10000;
               multiplier = base + ucast buffer_bps;
               buffered = saturating_mul fee multiplier div base
           in if buffered = fee \<and> fee > 0 then fee + 1 else buffered)"

section \<open>Calls and jobs\<close>

datatype crosschain_tx =
    RelayTx token_entry u256 bytes
  | BroadcastTx hub_entry "u32 list" u256 bytes

record ('w, 'tx) crosschain_calls =
  cc_verifier_up_to_date :: "token_entry \<Rightarrow> 'w \<Rightarrow> string + bool"
  cc_quote_relay :: "token_entry \<Rightarrow> bytes \<Rightarrow> 'w \<Rightarrow> string + u256 \<times> u256"
  cc_relay_transfer_root :: "token_entry \<Rightarrow> b256 \<Rightarrow> u256 \<Rightarrow> bytes \<Rightarrow> 'w \<Rightarrow> (string + 'tx) \<times> 'w"
  cc_get_receipt :: "'tx \<Rightarrow> 'w \<Rightarrow> (string + bool) \<times> 'w"
  cc_hub_up_to_date :: "hub_entry \<Rightarrow> 'w \<Rightarrow> string + bool"
  cc_quote_broadcast :: "hub_entry \<Rightarrow> u32 list \<Rightarrow> bytes \<Rightarrow> 'w \<Rightarrow> string + u256"
  cc_broadcast :: "hub_entry \<Rightarrow> b256 \<Rightarrow> u32 list \<Rightarrow> bytes \<Rightarrow> u256 \<Rightarrow> 'w \<Rightarrow> (string + 'tx) \<times> 'w"
  cc_token_info :: "hub_entry \<Rightarrow> nat \<Rightarrow> 'w \<Rightarrow> string + hub_token_info"
  cc_provider :: "string list \<Rightarrow> bool"

datatype crosschain_error =
    CrosschainCall string
  | CrosschainReverted
  | CrosschainConfig config_error

type_synonym 'w crosschain_state = "'w \<times> crosschain_tx list"

record relay_job =
  rl_token :: token_entry
  rl_private_key :: b256
  rl_lz_options :: bytes
  rl_interval_secs :: nat
  rl_fee_buffer_bps :: u64

record broadcast_job =
  bj_hub :: hub_entry
  bj_private_key :: b256
  bj_lz_options :: bytes
  bj_interval_secs :: nat
  bj_target_eids :: "u32 list"
  bj_fee_buffer_bps :: u64

definition wait_for_receipt :: "('w, 'tx) crosschain_calls \<Rightarrow> 'tx \<Rightarrow> 'w \<Rightarrow> (crosschain_error + unit) \<times> 'w" where
  "wait_for_receipt C pending w =
     (case cc_get_receipt C pending w of
        (Inl e, w') \<Rightarrow> (Inl (CrosschainCall e), w')
      | (Inr status, w') \<Rightarrow> (if status then Inr () else Inl CrosschainReverted, w'))"

definition relay_execute_once ::
  "('w, 'tx) crosschain_calls \<Rightarrow> relay_job \<Rightarrow> 'w crosschain_state \<Rightarrow> (crosschain_error + unit) \<times> 'w crosschain_state" where
  "relay_execute_once C job s =
     (case s of (w, sent) \<Rightarrow>
      case cc_verifier_up_to_date C (rl_token job) w of
        Inl e \<Rightarrow> (Inl (CrosschainCall e), s)
      | Inr True \<Rightarrow> (Inr (), s)
      | Inr False \<Rightarrow>
          (case cc_quote_relay C (rl_token job) (rl_lz_options job) w of
             Inl e \<Rightarrow> (Inl (CrosschainCall e), s)
           | Inr (native_fee, lz_token_fee) \<Rightarrow>
               let fee = apply_fee_buffer native_fee (rl_fee_buffer_bps job) in
               case cc_relay_transfer_root C (rl_token job) (rl_private_key job) fee (rl_lz_options job) w of
                 (Inl e, w') \<Rightarrow> (Inl (CrosschainCall e), w', sent)
               | (Inr pending, w') \<Rightarrow>
                   (case wait_for_receipt C pending w' of
                      (r, w'') \<Rightarrow> (r, w'', sent @ [RelayTx (rl_token job) fee (rl_lz_options job)]))))"

definition broadcast_execute_once ::
  "('w, 'tx) crosschain_calls \<Rightarrow> broadcast_job \<Rightarrow> 'w crosschain_state \<Rightarrow> (crosschain_error + unit) \<times> 'w crosschain_state" where
  "broadcast_execute_once C job s =
     (case s of (w, sent) \<Rightarrow>
      if bj_target_eids job = [] then (Inr (), s)
      else case cc_hub_up_to_date C (bj_hub job) w of
        Inl e \<Rightarrow> (Inl (CrosschainCall e), s)
      | Inr True \<Rightarrow> (Inr (), s)
      | Inr False \<Rightarrow>
          (case cc_quote_broadcast C (bj_hub job) (bj_target_eids job) (bj_lz_options job) w of
             Inl e \<Rightarrow> (Inl (CrosschainCall e), s)
           | Inr quote \<Rightarrow>
               let fee = apply_fee_buffer quote (bj_fee_buffer_bps job) in
               case cc_broadcast C (bj_hub job) (bj_private_key job) (bj_target_eids job) (bj_lz_options job) fee w of
                 (Inl e, w') \<Rightarrow> (Inl (CrosschainCall e), w', sent)
               | (Inr pending, w') \<Rightarrow>
                   (case wait_for_receipt C pending w' of
                      (r, w'') \<Rightarrow> (r, w'', sent @ [BroadcastTx (bj_hub job) (bj_target_eids job) fee (bj_lz_options job)]))))"

section \<open>The program\<close>

definition parse_hex_blob :: "(string \<Rightarrow> bytes option) \<Rightarrow> string \<Rightarrow> config_error + bytes" where
  "parse_hex_blob unhex input =
     (let normalized = trim_ascii input in
      if normalized = [] \<or> normalized = ''0x'' \<or> normalized = ''0X'' then Inr []
      else let without_prefix = strip_0x normalized in
        res_bind (ensure (even (length without_prefix)) ''hex string must have even length'') (\<lambda>_.
        ok_or (ConfigParse ''failed to decode hex payload'') (unhex without_prefix)))"

record crosschain_cli =
  cl_relay_private_key :: string
  cl_relay_interval_secs :: nat
  cl_relay_options :: bytes
  cl_relay_fee_buffer_bps :: u64
  cl_broadcast_interval_secs :: nat
  cl_broadcast_options :: bytes
  cl_broadcast_fee_buffer_bps :: u64
  cl_once :: bool

text \<open>The endpoint identifiers by position in the configuration; a mismatch is only logged.\<close>

fun resolve_target_eids :: "('w, 'tx) crosschain_calls \<Rightarrow> hub_entry \<Rightarrow> 'w \<Rightarrow> nat \<Rightarrow> token_entry list \<Rightarrow> crosschain_error + u32 list" where
  "resolve_target_eids C hub w index [] = Inr []"
| "resolve_target_eids C hub w index (token # tokens) =
     (case cc_token_info C hub index w of
        Inl e \<Rightarrow> Inl (CrosschainCall e)
      | Inr info \<Rightarrow> res_bind (resolve_target_eids C hub w (index + 1) tokens) (\<lambda>eids. Inr (word_of_nat (ht_eid info) # eids)))"

definition build_provider :: "('w, 'tx) crosschain_calls \<Rightarrow> string list \<Rightarrow> crosschain_error + unit" where
  "build_provider C rpc_urls =
     (if rpc_urls = [] then Inl (CrosschainConfig (ConfigError ''provider requires at least one RPC URL''))
      else if cc_provider C rpc_urls then Inr () else Inl (CrosschainCall ''provider''))"

definition build_relay_job :: "('w, 'tx) crosschain_calls \<Rightarrow> crosschain_cli \<Rightarrow> b256 \<Rightarrow> token_entry \<Rightarrow> crosschain_error + relay_job" where
  "build_relay_job C cli private_key token =
     res_bind (build_provider C (te_rpc_urls token)) (\<lambda>_.
     Inr \<lparr>rl_token = token, rl_private_key = private_key, rl_lz_options = cl_relay_options cli,
          rl_interval_secs = cl_relay_interval_secs cli, rl_fee_buffer_bps = cl_relay_fee_buffer_bps cli\<rparr>)"

definition build_broadcast_job ::
  "('w, 'tx) crosschain_calls \<Rightarrow> crosschain_cli \<Rightarrow> b256 \<Rightarrow> token_entry list \<Rightarrow> hub_entry option \<Rightarrow> 'w \<Rightarrow> crosschain_error + broadcast_job option" where
  "build_broadcast_job C cli private_key tokens hub_entry w =
     (case hub_entry of
        None \<Rightarrow> Inr None
      | Some hub \<Rightarrow>
          res_bind (build_provider C (he_rpc_urls hub)) (\<lambda>_.
          res_bind (resolve_target_eids C hub w 0 tokens) (\<lambda>target_eids.
          Inr (Some \<lparr>bj_hub = hub, bj_private_key = private_key, bj_lz_options = cl_broadcast_options cli,
            bj_interval_secs = max 1 (cl_broadcast_interval_secs cli), bj_target_eids = remdups_adj (sort target_eids),
            bj_fee_buffer_bps = cl_broadcast_fee_buffer_bps cli\<rparr>))))"

fun run_relay_jobs ::
  "('w, 'tx) crosschain_calls \<Rightarrow> relay_job list \<Rightarrow> 'w crosschain_state \<Rightarrow> (crosschain_error + unit) \<times> 'w crosschain_state" where
  "run_relay_jobs C [] s = (Inr (), s)"
| "run_relay_jobs C (job # jobs) s =
     (case relay_execute_once C job s of
        (Inl e, s') \<Rightarrow> (Inl e, s')
      | (Inr _, s') \<Rightarrow> run_relay_jobs C jobs s')"

definition crosschain_setup ::
  "(string \<Rightarrow> tokens_file option) \<Rightarrow> (string \<Rightarrow> bytes option) \<Rightarrow> ('w, 'tx) crosschain_calls \<Rightarrow> crosschain_cli \<Rightarrow> string option \<Rightarrow> 'w
     \<Rightarrow> crosschain_error + relay_job list \<times> broadcast_job option" where
  "crosschain_setup json unhex C cli contents w =
     (let cfg = (\<lambda>r. case r of Inl e \<Rightarrow> Inl (CrosschainConfig e) | Inr x \<Rightarrow> Inr x) in
      res_bind (cfg (ensure (cl_relay_interval_secs cli \<noteq> 0) ''RELAY_INTERVAL_SECS must be greater than zero'')) (\<lambda>_.
      res_bind (cfg (ensure (cl_broadcast_interval_secs cli \<noteq> 0 \<or> cl_once cli) ''BROADCAST_INTERVAL_SECS must be greater than zero'')) (\<lambda>_.
      res_bind (case load_tokens_config json contents of Inl e \<Rightarrow> Inl (CrosschainConfig e) | Inr x \<Rightarrow> Inr x) (\<lambda>(tokens, hub).
      res_bind (cfg (ensure (tokens \<noteq> []) ''no tokens configured'')) (\<lambda>_.
      res_bind (case parse_private_key unhex (cl_relay_private_key cli) of Inl e \<Rightarrow> Inl (CrosschainConfig e) | Inr x \<Rightarrow> Inr x) (\<lambda>private_key.
      res_bind (res_map (build_relay_job C cli private_key) tokens) (\<lambda>relay_jobs.
      res_bind (build_broadcast_job C cli private_key tokens hub w) (\<lambda>broadcast_job.
      Inr (relay_jobs, broadcast_job)))))))))"

definition crosschain_once ::
  "(string \<Rightarrow> tokens_file option) \<Rightarrow> (string \<Rightarrow> bytes option) \<Rightarrow> ('w, 'tx) crosschain_calls \<Rightarrow> crosschain_cli \<Rightarrow> string option
     \<Rightarrow> 'w crosschain_state \<Rightarrow> (crosschain_error + unit) \<times> 'w crosschain_state" where
  "crosschain_once json unhex C cli contents s =
     (case crosschain_setup json unhex C cli contents (fst s) of
        Inl e \<Rightarrow> (Inl e, s)
      | Inr (relay_jobs, broadcast_job) \<Rightarrow>
          (case run_relay_jobs C relay_jobs s of
             (Inl e, s') \<Rightarrow> (Inl e, s')
           | (Inr _, s') \<Rightarrow>
               (case broadcast_job of None \<Rightarrow> (Inr (), s') | Some job \<Rightarrow> broadcast_execute_once C job s')))"

end
