(* ===== verification/Proving.thy ===== *)
theory Proving
  imports Circuits
begin

text \<open>
  Parameters of the proof systems (\<open>zkp/src/groth16/params.rs\<close>, \<open>zkp/src/nova/params.rs\<close>):
  loading and storing keys, proofs that are verified before they leave the prover, and the
  calldata of the decider.

  The proof systems themselves are third-party: \<open>groth16_lib\<close>, \<open>folding_lib\<close> and
  \<open>decider_lib\<close> hold the operations the code calls, for one circuit each.
\<close>

definition map_error :: "('e \<Rightarrow> 'f) \<Rightarrow> 'e + 'a \<Rightarrow> 'f + 'a" where
  "map_error f r = (case r of Inl e \<Rightarrow> Inl (f e) | Inr x \<Rightarrow> Inr x)"

lemma map_error_simps [simp]: "map_error f (Inl e) = Inl (f e)" "map_error f (Inr x) = Inr x"
  by (simp_all add: map_error_def)

lemma map_error_Inr [simp]: "map_error f r = Inr x \<longleftrightarrow> r = Inr x"
  by (cases r) simp_all

section \<open>Groth16\<close>

datatype groth16_error =
    Groth16Setup string
  | Groth16Serialization string
  | Groth16Deserialization string
  | Groth16SolidityExport string
  | Groth16ProofGeneration string
  | Groth16VerificationInternal string
  | Groth16Verification string

text \<open>\<open>'r\<close> are the states of the random generator, \<open>'c\<close> the circuits with their assignments.\<close>

record ('pk, 'vk, 'p, 'c, 'r) groth16_lib =
  gl_setup :: "'c \<Rightarrow> 'r \<Rightarrow> string + 'pk \<times> 'vk"
  gl_prove :: "'pk \<Rightarrow> 'c \<Rightarrow> 'r \<Rightarrow> string + 'p"
  gl_verify :: "'vk \<Rightarrow> fr list \<Rightarrow> 'p \<Rightarrow> string + bool"
  gl_pk_serialize :: "'pk \<Rightarrow> string + bytes"
  gl_vk_serialize :: "'vk \<Rightarrow> string + bytes"
  gl_pk_deserialize :: "bytes \<Rightarrow> string + 'pk"
  gl_vk_deserialize :: "bytes \<Rightarrow> string + 'vk"
  gl_proof_to_eth :: "'p \<Rightarrow> bytes"
  gl_inputs_to_eth :: "fr list \<Rightarrow> bytes"

record ('pk, 'vk) groth16_params =
  gp_vk :: 'vk
  gp_pk :: 'pk

definition groth16_rand :: "('pk, 'vk, 'p, 'c, 'r) groth16_lib \<Rightarrow> 'r \<Rightarrow> 'c \<Rightarrow> groth16_error + ('pk, 'vk) groth16_params" where
  "groth16_rand L rng circuit =
     res_bind (map_error Groth16Setup (gl_setup L circuit rng)) (\<lambda>(pk, vk). Inr \<lparr>gp_vk = vk, gp_pk = pk\<rparr>)"

definition groth16_from_bytes ::
  "('pk, 'vk, 'p, 'c, 'r) groth16_lib \<Rightarrow> bytes \<Rightarrow> bytes \<Rightarrow> groth16_error + ('pk, 'vk) groth16_params" where
  "groth16_from_bytes L pk_bytes vk_bytes =
     res_bind (map_error Groth16Deserialization (gl_pk_deserialize L pk_bytes)) (\<lambda>pk.
     res_bind (map_error Groth16Deserialization (gl_vk_deserialize L vk_bytes)) (\<lambda>vk.
     Inr \<lparr>gp_vk = vk, gp_pk = pk\<rparr>))"

definition groth16_to_bytes ::
  "('pk, 'vk, 'p, 'c, 'r) groth16_lib \<Rightarrow> ('pk, 'vk) groth16_params \<Rightarrow> groth16_error + bytes \<times> bytes" where
  "groth16_to_bytes L params =
     res_bind (map_error Groth16Serialization (gl_pk_serialize L (gp_pk params))) (\<lambda>pk_bytes.
     res_bind (map_error Groth16Serialization (gl_vk_serialize L (gp_vk params))) (\<lambda>vk_bytes.
     Inr (pk_bytes, vk_bytes)))"

definition generate_proof ::
  "('pk, 'vk, 'p, 'c, 'r) groth16_lib \<Rightarrow> ('pk, 'vk) groth16_params \<Rightarrow> 'r \<Rightarrow> 'c \<Rightarrow> fr list \<Rightarrow> groth16_error + bytes" where
  "generate_proof L params rng circuit public_inputs =
     res_bind (map_error Groth16ProofGeneration (gl_prove L (gp_pk params) circuit rng)) (\<lambda>p.
     res_bind (map_error Groth16VerificationInternal (gl_verify L (gp_vk params) public_inputs p)) (\<lambda>verified.
     if \<not> verified then Inl (Groth16Verification ''Groth16 proof verification failed'')
     else Inr (gl_proof_to_eth L p @ gl_inputs_to_eth L public_inputs)))"

section \<open>Nova\<close>

datatype nova_error =
    NovaDeserialization string
  | NovaSerialization string
  | NovaInitialization string
  | NovaVerification string
  | NovaPreprocess string
  | NovaDeciderProof string

record ('pp, 'vp, 'n, 'i, 'e) folding_lib =
  fl_circuit_new :: "string + unit"
  fl_preprocess :: "string + 'pp \<times> 'vp"
  fl_state_len :: nat
  fl_pp_deserialize :: "bytes \<Rightarrow> string + 'pp"
  fl_vp_deserialize :: "bytes \<Rightarrow> string + 'vp"
  fl_pp_serialize :: "'pp \<Rightarrow> string + bytes"
  fl_vp_serialize :: "'vp \<Rightarrow> string + bytes"
  fl_init :: "'pp \<Rightarrow> 'vp \<Rightarrow> fr list \<Rightarrow> string + 'n"
  fl_from_ivc_proof :: "'i \<Rightarrow> 'pp \<Rightarrow> 'vp \<Rightarrow> string + 'n"
  fl_prove_step :: "'n \<Rightarrow> 'e \<Rightarrow> string + 'n"
  fl_state :: "'n \<Rightarrow> fr list"
  fl_ivc_proof :: "'n \<Rightarrow> 'i"
  fl_verify :: "'vp \<Rightarrow> 'i \<Rightarrow> string + unit"
  fl_ivc_serialize :: "'i \<Rightarrow> string + bytes"

record ('pp, 'vp) nova_params =
  np_pp :: 'pp
  np_vp :: 'vp

definition nova_rand :: "('pp, 'vp, 'n, 'i, 'e) folding_lib \<Rightarrow> nova_error + ('pp, 'vp) nova_params" where
  "nova_rand L =
     res_bind (map_error NovaInitialization (fl_circuit_new L)) (\<lambda>_.
     res_bind (map_error NovaPreprocess (fl_preprocess L)) (\<lambda>(pp, vp). Inr \<lparr>np_pp = pp, np_vp = vp\<rparr>))"

definition nova_from_bytes ::
  "('pp, 'vp, 'n, 'i, 'e) folding_lib \<Rightarrow> bytes \<Rightarrow> bytes \<Rightarrow> nova_error + ('pp, 'vp) nova_params" where
  "nova_from_bytes L pp_bytes vp_bytes =
     res_bind (map_error NovaDeserialization (fl_pp_deserialize L pp_bytes)) (\<lambda>nova_pp.
     res_bind (map_error NovaDeserialization (fl_vp_deserialize L vp_bytes)) (\<lambda>nova_vp.
     Inr \<lparr>np_pp = nova_pp, np_vp = nova_vp\<rparr>))"

definition nova_to_bytes :: "('pp, 'vp, 'n, 'i, 'e) folding_lib \<Rightarrow> ('pp, 'vp) nova_params \<Rightarrow> nova_error + bytes \<times> bytes" where
  "nova_to_bytes L params =
     res_bind (map_error NovaSerialization (fl_pp_serialize L (np_pp params))) (\<lambda>pp_bytes.
     res_bind (map_error NovaSerialization (fl_vp_serialize L (np_vp params))) (\<lambda>vp_bytes.
     Inr (pp_bytes, vp_bytes)))"

definition initial_nova :: "('pp, 'vp, 'n, 'i, 'e) folding_lib \<Rightarrow> ('pp, 'vp) nova_params \<Rightarrow> fr list \<Rightarrow> nova_error + 'n" where
  "initial_nova L params z0 =
     res_bind (map_error NovaInitialization (fl_circuit_new L)) (\<lambda>_.
     map_error NovaInitialization (fl_init L (np_pp params) (np_vp params) z0))"

definition nova_from_ivc_proof :: "('pp, 'vp, 'n, 'i, 'e) folding_lib \<Rightarrow> ('pp, 'vp) nova_params \<Rightarrow> 'i \<Rightarrow> nova_error + 'n" where
  "nova_from_ivc_proof L params ivc_proof =
     map_error NovaInitialization (fl_from_ivc_proof L ivc_proof (np_pp params) (np_vp params))"

definition nova_verify :: "('pp, 'vp, 'n, 'i, 'e) folding_lib \<Rightarrow> ('pp, 'vp) nova_params \<Rightarrow> 'i \<Rightarrow> nova_error + unit" where
  "nova_verify L params ivc_proof =
     res_bind (map_error NovaVerification (fl_verify L (np_vp params) ivc_proof)) (\<lambda>_. Inr ())"

definition nova_state_len :: "('pp, 'vp, 'n, 'i, 'e) folding_lib \<Rightarrow> nova_error + nat" where
  "nova_state_len L = res_bind (map_error NovaInitialization (fl_circuit_new L)) (\<lambda>_. Inr (fl_state_len L))"

section \<open>The decider\<close>

text \<open>The encodings of the parts of a folded instance and of a decider proof, in calldata form.\<close>

record nova_eth =
  ne_i :: bytes
  ne_z_0 :: bytes
  ne_z_i :: bytes
  ne_U_cmW :: bytes
  ne_U_cmE :: bytes
  ne_u_cmW :: bytes

record decider_eth =
  de_cmT :: bytes
  de_r :: bytes
  de_snark_proof :: bytes
  de_kzg_challenges :: bytes
  de_eval_W :: bytes
  de_eval_E :: bytes
  de_kzg_proof_W :: bytes
  de_kzg_proof_E :: bytes

record ('pp, 'vp, 'dp, 'dv, 'n, 'p) decider_lib =
  dl_preprocess :: "'pp \<Rightarrow> 'vp \<Rightarrow> nat \<Rightarrow> string + 'dp \<times> 'dv"
  dl_pp_deserialize :: "bytes \<Rightarrow> string + 'dp"
  dl_vp_deserialize :: "bytes \<Rightarrow> string + 'dv"
  dl_pp_serialize :: "'dp \<Rightarrow> string + bytes"
  dl_vp_serialize :: "'dv \<Rightarrow> string + bytes"
  dl_prove :: "'dp \<Rightarrow> 'n \<Rightarrow> string + 'p"
  dl_verify :: "'dv \<Rightarrow> 'n \<Rightarrow> 'p \<Rightarrow> string + bool"
  dl_nova_eth :: "'n \<Rightarrow> nova_eth"
  dl_proof_eth :: "'p \<Rightarrow> decider_eth"

record ('dp, 'dv) decider_params =
  dp_pp :: 'dp
  dp_vp :: 'dv

definition decider_rand ::
  "('pp, 'vp, 'dp, 'dv, 'n, 'p) decider_lib \<Rightarrow> ('pp, 'vp, 'n, 'i, 'e) folding_lib \<Rightarrow> ('pp, 'vp) nova_params
     \<Rightarrow> nova_error + ('dp, 'dv) decider_params" where
  "decider_rand D L nova =
     res_bind (nova_state_len L) (\<lambda>state_len.
     res_bind (map_error NovaPreprocess (dl_preprocess D (np_pp nova) (np_vp nova) state_len)) (\<lambda>(pp, vp).
     Inr \<lparr>dp_pp = pp, dp_vp = vp\<rparr>))"

definition decider_from_bytes ::
  "('pp, 'vp, 'dp, 'dv, 'n, 'p) decider_lib \<Rightarrow> bytes \<Rightarrow> bytes \<Rightarrow> nova_error + ('dp, 'dv) decider_params" where
  "decider_from_bytes D pp_bytes vp_bytes =
     res_bind (map_error NovaDeserialization (dl_pp_deserialize D pp_bytes)) (\<lambda>decider_pp.
     res_bind (map_error NovaDeserialization (dl_vp_deserialize D vp_bytes)) (\<lambda>decider_vp.
     Inr \<lparr>dp_pp = decider_pp, dp_vp = decider_vp\<rparr>))"

definition decider_to_bytes ::
  "('pp, 'vp, 'dp, 'dv, 'n, 'p) decider_lib \<Rightarrow> ('dp, 'dv) decider_params \<Rightarrow> nova_error + bytes \<times> bytes" where
  "decider_to_bytes D params =
     res_bind (map_error NovaSerialization (dl_pp_serialize D (dp_pp params))) (\<lambda>pp_bytes.
     res_bind (map_error NovaSerialization (dl_vp_serialize D (dp_vp params))) (\<lambda>vp_bytes.
     Inr (pp_bytes, vp_bytes)))"

definition generate_decider_proof ::
  "('pp, 'vp, 'dp, 'dv, 'n, 'p) decider_lib \<Rightarrow> ('dp, 'dv) decider_params \<Rightarrow> 'n \<Rightarrow> nova_error + bytes" where
  "generate_decider_proof D params nova =
     res_bind (map_error NovaDeciderProof (dl_prove D (dp_pp params) nova)) (\<lambda>p.
     res_bind (map_error NovaDeciderProof (dl_verify D (dp_vp params) nova p)) (\<lambda>verified.
     if \<not> verified then Inl (NovaDeciderProof ''Decider Proof Verification Failed'')
     else let n = dl_nova_eth D nova; d = dl_proof_eth D p in
       Inr (concat [ne_i n, ne_z_0 n, ne_z_i n, ne_U_cmW n, ne_U_cmE n, ne_u_cmW n, de_cmT d, de_r d, de_snark_proof d,
         de_kzg_challenges d, de_eval_W d, de_eval_E d, de_kzg_proof_W d, de_kzg_proof_E d])))"

section \<open>What leaves the provers\<close>

lemma generate_proof_verified:
  "generate_proof L params rng c pub = Inr bs \<longleftrightarrow>
     (\<exists>p. gl_prove L (gp_pk params) c rng = Inr p \<and> gl_verify L (gp_vk params) pub p = Inr True
        \<and> bs = gl_proof_to_eth L p @ gl_inputs_to_eth L pub)"
  by (auto simp: generate_proof_def res_bind_Inr_iff split: if_splits)

lemma decider_proof_verified:
  "generate_decider_proof D params nova = Inr bs \<Longrightarrow>
     \<exists>p. dl_prove D (dp_pp params) nova = Inr p \<and> dl_verify D (dp_vp params) nova p = Inr True"
  by (auto simp: generate_decider_proof_def res_bind_Inr_iff split: if_splits)

text \<open>Keys that the library can write and read back survive storing.\<close>

lemma groth16_stored:
  assumes "\<forall>k bs. gl_pk_serialize L k = Inr bs \<longrightarrow> gl_pk_deserialize L bs = Inr k"
    and "\<forall>k bs. gl_vk_serialize L k = Inr bs \<longrightarrow> gl_vk_deserialize L bs = Inr k"
    and "groth16_to_bytes L params = Inr (a, b)"
  shows "groth16_from_bytes L a b = Inr params"
  using assms by (auto simp: groth16_to_bytes_def groth16_from_bytes_def res_bind_Inr_iff)

lemma nova_stored:
  assumes "\<forall>k bs. fl_pp_serialize L k = Inr bs \<longrightarrow> fl_pp_deserialize L bs = Inr k"
    and "\<forall>k bs. fl_vp_serialize L k = Inr bs \<longrightarrow> fl_vp_deserialize L bs = Inr k"
    and "nova_to_bytes L params = Inr (a, b)"
  shows "nova_from_bytes L a b = Inr params"
  using assms by (auto simp: nova_to_bytes_def nova_from_bytes_def res_bind_Inr_iff)

end
