(* ===== verification/Contracts.thy ===== *)
theory Contracts
  imports Crosschain Proving
begin

text \<open>
  The typed contract clients (\<open>client-common/src/contracts\<close>): views, signed transactions with
  optional legacy gas price, receipts and event queries of the verifier, the hub, the token and
  the minter.

  The node is a \<open>provider\<close> over a state of the chain, and a call is the Solidity function with
  its arguments; the ABI coding and the signing are third-party code behind the fields of
  \<open>provider\<close>. An event decoder is a parameter of the function that reads a receipt.
\<close>

section \<open>Calls, values and nodes\<close>

datatype contract_error =
    ContractFailure string
  | ContractTransport string string
  | MissingEvent string
  | ContractPanic

datatype verifier_call =
    VTOKEN | VHUB_EID | VlatestReservedIndex | VlatestProvedIndex | VlatestRelayedIndex | VisUpToDate | VlatestAggSeq
  | VreservedHashChains u64 | VprovedTransferRoots u64 | VglobalTransferRoots u64 | VtotalTeleported u256 | Vpaused
  | VrootDecider | VwithdrawGlobalDecider | VwithdrawLocalDecider | VquoteRelay bytes
  | VreserveHashChain | VproveTransferRoot bytes | VrelayTransferRoot bytes
  | Vteleport bool u64 general_recipient bytes | VsingleTeleport bool u64 general_recipient bytes
  | VdeactivateEmergency | VsetVerifiers address address address address address

datatype hub_call =
    HaggSeq | HisUpToDate | HtransferRoots u256 | HtransferTreeIndices u256 | HMAX_LEAVES | HzeroHash u256
  | HeidToPosition u32 | HtokenInfos u256 | HgetTokenInfos | HquoteBroadcast "u32 list" bytes | Hbroadcast "u32 list" bytes
  | HregisterToken hub_token_info | HupdateToken hub_token_info

datatype token_call =
    ZhashChain | Zindex | Zverifier | Zminter | ZbalanceOf address | Zmint address u256 | Zteleport address u256
  | ZsetMinter address | ZsetVerifier address | Zburn address u256 | Ztransfer address u256

datatype minter_call =
    Mzerc20Token | MtokenAddress | MdepositNative | MdepositToken u256 | MwithdrawNative u256 | MwithdrawToken u256

datatype abi_call =
    VerifierCall verifier_call
  | HubCall hub_call
  | TokenCall token_call
  | MinterCall minter_call

datatype abi_value =
    AddressValue address | U32Value u32 | U64Value u64 | U256Value u256 | BoolValue bool | FeeValue u256 u256
  | TokenInfoValue hub_token_info | TokenInfosValue "hub_token_info list"

fun as_address :: "abi_value \<Rightarrow> address option" where
  "as_address (AddressValue a) = Some a" | "as_address _ = None"

fun as_u32 :: "abi_value \<Rightarrow> u32 option" where
  "as_u32 (U32Value x) = Some x" | "as_u32 _ = None"

fun as_u64 :: "abi_value \<Rightarrow> u64 option" where
  "as_u64 (U64Value x) = Some x" | "as_u64 _ = None"

fun as_u256 :: "abi_value \<Rightarrow> u256 option" where
  "as_u256 (U256Value x) = Some x" | "as_u256 _ = None"

fun as_bool :: "abi_value \<Rightarrow> bool option" where
  "as_bool (BoolValue b) = Some b" | "as_bool _ = None"

fun as_fee :: "abi_value \<Rightarrow> (u256 \<times> u256) option" where
  "as_fee (FeeValue n z) = Some (n, z)" | "as_fee _ = None"

fun as_token_info :: "abi_value \<Rightarrow> hub_token_info option" where
  "as_token_info (TokenInfoValue i) = Some i" | "as_token_info _ = None"

fun as_token_infos :: "abi_value \<Rightarrow> hub_token_info list option" where
  "as_token_infos (TokenInfosValue is) = Some is" | "as_token_infos _ = None"

record tx_request =
  tq_to :: address
  tq_call :: abi_call
  tq_value :: u256
  tq_gas_price :: "nat option"

text \<open>Events as the node returns them, with the number of their block if it is mined.\<close>

record indexed_transfer_log =
  il_index :: u256
  il_from :: address
  il_to :: address
  il_value :: u256
  il_block :: "nat option"

record teleport_log =
  tl_to :: address
  tl_value :: u256
  tl_block :: "nat option"

record ('w, 'tx) provider =
  pv_valid_key :: "b256 \<Rightarrow> bool"
  pv_call :: "address \<Rightarrow> abi_call \<Rightarrow> 'w \<Rightarrow> string + abi_value"
  pv_gas_price :: "'w \<Rightarrow> string + nat"
  pv_send :: "b256 \<Rightarrow> tx_request \<Rightarrow> 'w \<Rightarrow> (string + 'tx) \<times> 'w"
  pv_block_number :: "'w \<Rightarrow> string + nat"
  pv_indexed_transfers :: "address \<Rightarrow> nat \<Rightarrow> nat \<Rightarrow> 'w \<Rightarrow> string + indexed_transfer_log list"
  pv_teleports :: "address \<Rightarrow> nat \<Rightarrow> nat \<Rightarrow> 'w \<Rightarrow> string + teleport_log list"
  pv_aggregations :: "address \<Rightarrow> nat \<Rightarrow> nat \<Rightarrow> 'w \<Rightarrow> string + aggregation_root_event list"

section \<open>Shared functions (\<open>utils.rs\<close>)\<close>

definition provider_urls_ok :: "(string \<Rightarrow> bool) \<Rightarrow> string list \<Rightarrow> bool" where
  "provider_urls_ok parses rpc_urls =
     (if length rpc_urls = 1 then parses (hd rpc_urls) else list_all parses rpc_urls)"

definition uint256_as_u64 :: "u256 \<Rightarrow> u64" where
  "uint256_as_u64 value = (let bs = u256_to_be_bytes value in word_of_nat (nat_of_be (drop 24 bs)))"

definition send_call_with_legacy ::
  "('w, 'tx) provider \<Rightarrow> b256 \<Rightarrow> tx_request \<Rightarrow> bool \<Rightarrow> 'w \<Rightarrow> (contract_error + 'tx) \<times> 'w" where
  "send_call_with_legacy pv key req use_legacy w =
     (case (if use_legacy
            then res_bind (map_error (ContractTransport ''fetching gas price for legacy transfer'') (pv_gas_price pv w)) (\<lambda>gas_price.
                 Inr (req\<lparr>tq_gas_price := Some gas_price\<rparr>))
            else Inr req) of
        Inl e \<Rightarrow> (Inl e, w)
      | Inr req' \<Rightarrow> (case pv_send pv key req' w of (r, w') \<Rightarrow> (map_error ContractFailure r, w')))"

text \<open>A contract client: the address and the kind of transactions; the node is passed along.\<close>

record contract =
  ct_address :: address
  ct_legacy_tx :: bool

definition contract_new :: "address \<Rightarrow> contract" where
  "contract_new addr = \<lparr>ct_address = addr, ct_legacy_tx = False\<rparr>"

definition with_legacy_tx :: "bool \<Rightarrow> contract \<Rightarrow> contract" where
  "with_legacy_tx legacy_tx c = c\<lparr>ct_legacy_tx := legacy_tx\<rparr>"

definition call_view :: "(abi_value \<Rightarrow> 'a option) \<Rightarrow> ('w, 'tx) provider \<Rightarrow> contract \<Rightarrow> abi_call \<Rightarrow> 'w \<Rightarrow> contract_error + 'a" where
  "call_view decode pv c f w =
     res_bind (map_error ContractFailure (pv_call pv (ct_address c) f w)) (\<lambda>v.
     ok_or (ContractFailure ''decode'') (decode v))"

text \<open>Signing with bytes that are no private key panics.\<close>

definition send_signed :: "('w, 'tx) provider \<Rightarrow> contract \<Rightarrow> b256 \<Rightarrow> abi_call \<Rightarrow> u256 \<Rightarrow> 'w \<Rightarrow> (contract_error + 'tx) \<times> 'w" where
  "send_signed pv c private_key f value w =
     (if \<not> pv_valid_key pv private_key then (Inl ContractPanic, w)
      else send_call_with_legacy pv private_key \<lparr>tq_to = ct_address c, tq_call = f, tq_value = value, tq_gas_price = None\<rparr>
             (ct_legacy_tx c) w)"

fun parse_event :: "string \<Rightarrow> ('l \<Rightarrow> 'e option) \<Rightarrow> 'l list \<Rightarrow> contract_error + 'e" where
  "parse_event name decode [] = Inl (MissingEvent name)"
| "parse_event name decode (log # logs) =
     (case decode log of Some event \<Rightarrow> Inr event | None \<Rightarrow> parse_event name decode logs)"

section \<open>The verifier (\<open>verifier.rs\<close>)\<close>

definition verifier_token :: "('w, 'tx) provider \<Rightarrow> contract \<Rightarrow> 'w \<Rightarrow> contract_error + address" where
  "verifier_token pv c w = call_view as_address pv c (VerifierCall VTOKEN) w"

definition verifier_hub_eid :: "('w, 'tx) provider \<Rightarrow> contract \<Rightarrow> 'w \<Rightarrow> contract_error + u32" where
  "verifier_hub_eid pv c w = call_view as_u32 pv c (VerifierCall VHUB_EID) w"

definition latest_reserved_index :: "('w, 'tx) provider \<Rightarrow> contract \<Rightarrow> 'w \<Rightarrow> contract_error + u64" where
  "latest_reserved_index pv c w = call_view as_u64 pv c (VerifierCall VlatestReservedIndex) w"

definition latest_proved_index :: "('w, 'tx) provider \<Rightarrow> contract \<Rightarrow> 'w \<Rightarrow> contract_error + u64" where
  "latest_proved_index pv c w = call_view as_u64 pv c (VerifierCall VlatestProvedIndex) w"

definition latest_relayed_index :: "('w, 'tx) provider \<Rightarrow> contract \<Rightarrow> 'w \<Rightarrow> contract_error + u64" where
  "latest_relayed_index pv c w = call_view as_u64 pv c (VerifierCall VlatestRelayedIndex) w"

definition verifier_is_up_to_date :: "('w, 'tx) provider \<Rightarrow> contract \<Rightarrow> 'w \<Rightarrow> contract_error + bool" where
  "verifier_is_up_to_date pv c w = call_view as_bool pv c (VerifierCall VisUpToDate) w"

definition latest_agg_seq :: "('w, 'tx) provider \<Rightarrow> contract \<Rightarrow> 'w \<Rightarrow> contract_error + u64" where
  "latest_agg_seq pv c w = call_view as_u64 pv c (VerifierCall VlatestAggSeq) w"

definition reserved_hash_chain :: "('w, 'tx) provider \<Rightarrow> contract \<Rightarrow> u64 \<Rightarrow> 'w \<Rightarrow> contract_error + u256" where
  "reserved_hash_chain pv c index w = call_view as_u256 pv c (VerifierCall (VreservedHashChains index)) w"

definition proved_transfer_root :: "('w, 'tx) provider \<Rightarrow> contract \<Rightarrow> u64 \<Rightarrow> 'w \<Rightarrow> contract_error + u256" where
  "proved_transfer_root pv c index w = call_view as_u256 pv c (VerifierCall (VprovedTransferRoots index)) w"

definition global_transfer_root :: "('w, 'tx) provider \<Rightarrow> contract \<Rightarrow> u64 \<Rightarrow> 'w \<Rightarrow> contract_error + u256" where
  "global_transfer_root pv c agg_seq w = call_view as_u256 pv c (VerifierCall (VglobalTransferRoots agg_seq)) w"

definition total_teleported :: "('w, 'tx) provider \<Rightarrow> contract \<Rightarrow> u256 \<Rightarrow> 'w \<Rightarrow> contract_error + u256" where
  "total_teleported pv c recipient w = call_view as_u256 pv c (VerifierCall (VtotalTeleported recipient)) w"

definition paused :: "('w, 'tx) provider \<Rightarrow> contract \<Rightarrow> 'w \<Rightarrow> contract_error + bool" where
  "paused pv c w = call_view as_bool pv c (VerifierCall Vpaused) w"

definition root_decider :: "('w, 'tx) provider \<Rightarrow> contract \<Rightarrow> 'w \<Rightarrow> contract_error + address" where
  "root_decider pv c w = call_view as_address pv c (VerifierCall VrootDecider) w"

definition withdraw_global_decider :: "('w, 'tx) provider \<Rightarrow> contract \<Rightarrow> 'w \<Rightarrow> contract_error + address" where
  "withdraw_global_decider pv c w = call_view as_address pv c (VerifierCall VwithdrawGlobalDecider) w"

definition withdraw_local_decider :: "('w, 'tx) provider \<Rightarrow> contract \<Rightarrow> 'w \<Rightarrow> contract_error + address" where
  "withdraw_local_decider pv c w = call_view as_address pv c (VerifierCall VwithdrawLocalDecider) w"

definition quote_relay :: "('w, 'tx) provider \<Rightarrow> contract \<Rightarrow> bytes \<Rightarrow> 'w \<Rightarrow> contract_error + u256 \<times> u256" where
  "quote_relay pv c options w = call_view as_fee pv c (VerifierCall (VquoteRelay options)) w"

definition reserve_hash_chain :: "('w, 'tx) provider \<Rightarrow> contract \<Rightarrow> b256 \<Rightarrow> 'w \<Rightarrow> (contract_error + 'tx) \<times> 'w" where
  "reserve_hash_chain pv c key w = send_signed pv c key (VerifierCall VreserveHashChain) 0 w"

definition prove_transfer_root :: "('w, 'tx) provider \<Rightarrow> contract \<Rightarrow> b256 \<Rightarrow> bytes \<Rightarrow> 'w \<Rightarrow> (contract_error + 'tx) \<times> 'w" where
  "prove_transfer_root pv c key proof_bytes w = send_signed pv c key (VerifierCall (VproveTransferRoot proof_bytes)) 0 w"

definition relay_transfer_root :: "('w, 'tx) provider \<Rightarrow> contract \<Rightarrow> b256 \<Rightarrow> u256 \<Rightarrow> bytes \<Rightarrow> 'w \<Rightarrow> (contract_error + 'tx) \<times> 'w" where
  "relay_transfer_root pv c key native_fee options w = send_signed pv c key (VerifierCall (VrelayTransferRoot options)) native_fee w"

definition verifier_teleport :: "('w, 'tx) provider \<Rightarrow> contract \<Rightarrow> b256 \<Rightarrow> bool \<Rightarrow> u64 \<Rightarrow> general_recipient \<Rightarrow> bytes \<Rightarrow> 'w \<Rightarrow> (contract_error + 'tx) \<times> 'w" where
  "verifier_teleport pv c key is_global root_hint gr proof_bytes w = send_signed pv c key (VerifierCall (Vteleport is_global root_hint gr proof_bytes)) 0 w"

definition verifier_single_teleport :: "('w, 'tx) provider \<Rightarrow> contract \<Rightarrow> b256 \<Rightarrow> bool \<Rightarrow> u64 \<Rightarrow> general_recipient \<Rightarrow> bytes \<Rightarrow> 'w \<Rightarrow> (contract_error + 'tx) \<times> 'w" where
  "verifier_single_teleport pv c key is_global root_hint gr proof_bytes w = send_signed pv c key (VerifierCall (VsingleTeleport is_global root_hint gr proof_bytes)) 0 w"

definition deactivate_emergency :: "('w, 'tx) provider \<Rightarrow> contract \<Rightarrow> b256 \<Rightarrow> 'w \<Rightarrow> (contract_error + 'tx) \<times> 'w" where
  "deactivate_emergency pv c key w = send_signed pv c key (VerifierCall VdeactivateEmergency) 0 w"

definition set_verifiers :: "('w, 'tx) provider \<Rightarrow> contract \<Rightarrow> b256 \<Rightarrow> address \<Rightarrow> address \<Rightarrow> address \<Rightarrow> address \<Rightarrow> address \<Rightarrow> 'w \<Rightarrow> (contract_error + 'tx) \<times> 'w" where
  "set_verifiers pv c key root_dec global_dec local_dec single_global single_local w = send_signed pv c key (VerifierCall (VsetVerifiers root_dec global_dec local_dec single_global single_local)) 0 w"

record global_root_saved_event =
  gs_agg_seq :: u64
  gs_root :: u256

record emergency_triggered_event =
  em_index :: u64
  em_existing_root :: u256
  em_new_root :: u256

record verifiers_set_event =
  vs_root_decider :: address
  vs_withdraw_global_decider :: address
  vs_withdraw_local_decider :: address
  vs_single_withdraw_global_verifier :: address
  vs_single_withdraw_local_verifier :: address

definition parse_hash_chain_reserved :: "('l \<Rightarrow> (u64 \<times> u256) option) \<Rightarrow> 'l list \<Rightarrow> contract_error + u64 \<times> u256" where
  "parse_hash_chain_reserved decode logs = parse_event ''HashChainReserved'' decode logs"

definition parse_transfer_root_proved :: "('l \<Rightarrow> (u64 \<times> u256) option) \<Rightarrow> 'l list \<Rightarrow> contract_error + u64 \<times> u256" where
  "parse_transfer_root_proved decode logs = parse_event ''TransferRootProved'' decode logs"

definition parse_transfer_root_relayed :: "('l \<Rightarrow> (u64 \<times> u256 \<times> bytes) option) \<Rightarrow> 'l list \<Rightarrow> contract_error + u64 \<times> u256 \<times> bytes" where
  "parse_transfer_root_relayed decode logs = parse_event ''TransferRootRelayed'' decode logs"

definition parse_teleport :: "('l \<Rightarrow> (address \<times> u256) option) \<Rightarrow> 'l list \<Rightarrow> contract_error + address \<times> u256" where
  "parse_teleport decode logs = parse_event ''Teleport'' decode logs"

definition parse_global_root_saved :: "('l \<Rightarrow> global_root_saved_event option) \<Rightarrow> 'l list \<Rightarrow> contract_error + global_root_saved_event" where
  "parse_global_root_saved decode logs = parse_event ''GlobalRootSaved'' decode logs"

definition parse_emergency_triggered ::
  "('l \<Rightarrow> emergency_triggered_event option) \<Rightarrow> 'l list \<Rightarrow> contract_error + emergency_triggered_event" where
  "parse_emergency_triggered decode logs = parse_event ''EmergencyTriggered'' decode logs"

definition parse_deactivate_emergency :: "('l \<Rightarrow> unit option) \<Rightarrow> 'l list \<Rightarrow> contract_error + unit" where
  "parse_deactivate_emergency decode logs = parse_event ''DeactivateEmergency'' decode logs"

definition parse_verifiers_set :: "('l \<Rightarrow> verifiers_set_event option) \<Rightarrow> 'l list \<Rightarrow> contract_error + verifiers_set_event" where
  "parse_verifiers_set decode logs = parse_event ''VerifiersSet'' decode logs"

section \<open>The hub (\<open>hub.rs\<close>)\<close>

definition agg_seq :: "('w, 'tx) provider \<Rightarrow> contract \<Rightarrow> 'w \<Rightarrow> contract_error + u64" where
  "agg_seq pv c w = call_view as_u64 pv c (HubCall HaggSeq) w"

definition hub_is_up_to_date :: "('w, 'tx) provider \<Rightarrow> contract \<Rightarrow> 'w \<Rightarrow> contract_error + bool" where
  "hub_is_up_to_date pv c w = call_view as_bool pv c (HubCall HisUpToDate) w"

definition transfer_root :: "('w, 'tx) provider \<Rightarrow> contract \<Rightarrow> u64 \<Rightarrow> 'w \<Rightarrow> contract_error + u256" where
  "transfer_root pv c index w = call_view as_u256 pv c (HubCall (HtransferRoots (ucast index))) w"

definition transfer_tree_index :: "('w, 'tx) provider \<Rightarrow> contract \<Rightarrow> u64 \<Rightarrow> 'w \<Rightarrow> contract_error + u64" where
  "transfer_tree_index pv c index w = call_view as_u64 pv c (HubCall (HtransferTreeIndices (ucast index))) w"

definition max_leaves :: "('w, 'tx) provider \<Rightarrow> contract \<Rightarrow> 'w \<Rightarrow> contract_error + u256" where
  "max_leaves pv c w = call_view as_u256 pv c (HubCall HMAX_LEAVES) w"

definition hub_zero_hash :: "('w, 'tx) provider \<Rightarrow> contract \<Rightarrow> u64 \<Rightarrow> 'w \<Rightarrow> contract_error + u256" where
  "hub_zero_hash pv c depth w = call_view as_u256 pv c (HubCall (HzeroHash (ucast depth))) w"

definition eid_position :: "('w, 'tx) provider \<Rightarrow> contract \<Rightarrow> u32 \<Rightarrow> 'w \<Rightarrow> contract_error + u64" where
  "eid_position pv c eid w = res_bind (call_view as_u256 pv c (HubCall (HeidToPosition eid)) w) (\<lambda>pos. Inr (uint256_as_u64 pos))"

definition hub_token_info_at :: "('w, 'tx) provider \<Rightarrow> contract \<Rightarrow> u64 \<Rightarrow> 'w \<Rightarrow> contract_error + hub_token_info" where
  "hub_token_info_at pv c index w = call_view as_token_info pv c (HubCall (HtokenInfos (ucast index))) w"

definition token_infos :: "('w, 'tx) provider \<Rightarrow> contract \<Rightarrow> 'w \<Rightarrow> contract_error + hub_token_info list" where
  "token_infos pv c w = call_view as_token_infos pv c (HubCall HgetTokenInfos) w"

definition quote_broadcast :: "('w, 'tx) provider \<Rightarrow> contract \<Rightarrow> u32 list \<Rightarrow> bytes \<Rightarrow> 'w \<Rightarrow> contract_error + u256" where
  "quote_broadcast pv c target_eids lz_options w = call_view as_u256 pv c (HubCall (HquoteBroadcast target_eids lz_options)) w"

definition hub_broadcast :: "('w, 'tx) provider \<Rightarrow> contract \<Rightarrow> b256 \<Rightarrow> u32 list \<Rightarrow> bytes \<Rightarrow> u256 \<Rightarrow> 'w \<Rightarrow> (contract_error + 'tx) \<times> 'w" where
  "hub_broadcast pv c key target_eids lz_options native_fee w = send_signed pv c key (HubCall (Hbroadcast target_eids lz_options)) native_fee w"

definition register_token :: "('w, 'tx) provider \<Rightarrow> contract \<Rightarrow> b256 \<Rightarrow> hub_token_info \<Rightarrow> 'w \<Rightarrow> (contract_error + 'tx) \<times> 'w" where
  "register_token pv c key info w = send_signed pv c key (HubCall (HregisterToken info)) 0 w"

definition update_token :: "('w, 'tx) provider \<Rightarrow> contract \<Rightarrow> b256 \<Rightarrow> hub_token_info \<Rightarrow> 'w \<Rightarrow> (contract_error + 'tx) \<times> 'w" where
  "update_token pv c key info w = send_signed pv c key (HubCall (HupdateToken info)) 0 w"

record transfer_root_updated_event =
  tu_eid :: u32
  tu_index :: u64
  tu_new_root :: u256

record token_registered_event =
  tr_eid :: u32
  tr_index :: u64
  tr_chain_id :: u64
  tr_token :: address
  tr_verifier :: address

definition parse_aggregation_root_updated ::
  "('l \<Rightarrow> aggregation_root_event option) \<Rightarrow> 'l list \<Rightarrow> contract_error + aggregation_root_event" where
  "parse_aggregation_root_updated decode logs = parse_event ''AggregationRootUpdated'' decode logs"

text \<open>Indices are 256-bit numbers in the event, of which the low 64 bits are kept.\<close>

definition parse_transfer_root_updated ::
  "('l \<Rightarrow> (u32 \<times> u256 \<times> u256) option) \<Rightarrow> 'l list \<Rightarrow> contract_error + transfer_root_updated_event" where
  "parse_transfer_root_updated decode logs =
     res_bind (parse_event ''TransferRootUpdated'' decode logs) (\<lambda>(eid, index, root).
     Inr \<lparr>tu_eid = eid, tu_index = uint256_as_u64 index, tu_new_root = root\<rparr>)"

definition token_event :: "u32 \<times> u256 \<times> u64 \<times> address \<times> address \<Rightarrow> token_registered_event" where
  "token_event e = (case e of (eid, index, cid, token, verifier) \<Rightarrow>
     \<lparr>tr_eid = eid, tr_index = uint256_as_u64 index, tr_chain_id = cid, tr_token = token, tr_verifier = verifier\<rparr>)"

definition parse_token_registered ::
  "('l \<Rightarrow> (u32 \<times> u256 \<times> u64 \<times> address \<times> address) option) \<Rightarrow> 'l list \<Rightarrow> contract_error + token_registered_event" where
  "parse_token_registered decode logs =
     res_bind (parse_event ''TokenRegistered'' decode logs) (\<lambda>e. Inr (token_event e))"

definition parse_token_updated ::
  "('l \<Rightarrow> (u32 \<times> u256 \<times> u64 \<times> address \<times> address) option) \<Rightarrow> 'l list \<Rightarrow> contract_error + token_registered_event" where
  "parse_token_updated decode logs =
     res_bind (parse_event ''TokenUpdated'' decode logs) (\<lambda>e. Inr (token_event e))"

definition aggregation_root_events ::
  "('w, 'tx) provider \<Rightarrow> contract \<Rightarrow> nat \<Rightarrow> nat \<Rightarrow> 'w \<Rightarrow> contract_error + aggregation_root_event list" where
  "aggregation_root_events pv c from_block to_block w =
     map_error ContractFailure (pv_aggregations pv (ct_address c) from_block to_block w)"

definition latest_block :: "('w, 'tx) provider \<Rightarrow> 'w \<Rightarrow> contract_error + nat" where
  "latest_block pv w = map_error (ContractTransport ''get_block_number'') (pv_block_number pv w)"

section \<open>The token and the minter (\<open>z_erc20.rs\<close>, \<open>minter.rs\<close>)\<close>

definition token_hash_chain :: "('w, 'tx) provider \<Rightarrow> contract \<Rightarrow> 'w \<Rightarrow> contract_error + u256" where
  "token_hash_chain pv c w = call_view as_u256 pv c (TokenCall ZhashChain) w"

definition token_index :: "('w, 'tx) provider \<Rightarrow> contract \<Rightarrow> 'w \<Rightarrow> contract_error + u64" where
  "token_index pv c w = res_bind (call_view as_u256 pv c (TokenCall Zindex) w) (\<lambda>index. Inr (uint256_as_u64 index))"

definition token_verifier :: "('w, 'tx) provider \<Rightarrow> contract \<Rightarrow> 'w \<Rightarrow> contract_error + address" where
  "token_verifier pv c w = call_view as_address pv c (TokenCall Zverifier) w"

definition token_minter :: "('w, 'tx) provider \<Rightarrow> contract \<Rightarrow> 'w \<Rightarrow> contract_error + address" where
  "token_minter pv c w = call_view as_address pv c (TokenCall Zminter) w"

definition balance_of :: "('w, 'tx) provider \<Rightarrow> contract \<Rightarrow> address \<Rightarrow> 'w \<Rightarrow> contract_error + u256" where
  "balance_of pv c account w = call_view as_u256 pv c (TokenCall (ZbalanceOf account)) w"

definition mint :: "('w, 'tx) provider \<Rightarrow> contract \<Rightarrow> b256 \<Rightarrow> address \<Rightarrow> u256 \<Rightarrow> 'w \<Rightarrow> (contract_error + 'tx) \<times> 'w" where
  "mint pv c key recipient amount w = send_signed pv c key (TokenCall (Zmint recipient amount)) 0 w"

definition token_teleport :: "('w, 'tx) provider \<Rightarrow> contract \<Rightarrow> b256 \<Rightarrow> address \<Rightarrow> u256 \<Rightarrow> 'w \<Rightarrow> (contract_error + 'tx) \<times> 'w" where
  "token_teleport pv c key recipient amount w = send_signed pv c key (TokenCall (Zteleport recipient amount)) 0 w"

definition set_minter :: "('w, 'tx) provider \<Rightarrow> contract \<Rightarrow> b256 \<Rightarrow> address \<Rightarrow> 'w \<Rightarrow> (contract_error + 'tx) \<times> 'w" where
  "set_minter pv c key new_minter w = send_signed pv c key (TokenCall (ZsetMinter new_minter)) 0 w"

definition set_verifier :: "('w, 'tx) provider \<Rightarrow> contract \<Rightarrow> b256 \<Rightarrow> address \<Rightarrow> 'w \<Rightarrow> (contract_error + 'tx) \<times> 'w" where
  "set_verifier pv c key new_verifier w = send_signed pv c key (TokenCall (ZsetVerifier new_verifier)) 0 w"

definition burn :: "('w, 'tx) provider \<Rightarrow> contract \<Rightarrow> b256 \<Rightarrow> address \<Rightarrow> u256 \<Rightarrow> 'w \<Rightarrow> (contract_error + 'tx) \<times> 'w" where
  "burn pv c key holder amount w = send_signed pv c key (TokenCall (Zburn holder amount)) 0 w"

definition transfer :: "('w, 'tx) provider \<Rightarrow> contract \<Rightarrow> b256 \<Rightarrow> address \<Rightarrow> u256 \<Rightarrow> 'w \<Rightarrow> (contract_error + 'tx) \<times> 'w" where
  "transfer pv c key recipient amount w = send_signed pv c key (TokenCall (Ztransfer recipient amount)) 0 w"

definition zerc20_token :: "('w, 'tx) provider \<Rightarrow> contract \<Rightarrow> 'w \<Rightarrow> contract_error + address" where
  "zerc20_token pv c w = call_view as_address pv c (MinterCall Mzerc20Token) w"

definition token_address :: "('w, 'tx) provider \<Rightarrow> contract \<Rightarrow> 'w \<Rightarrow> contract_error + address" where
  "token_address pv c w = call_view as_address pv c (MinterCall MtokenAddress) w"

definition deposit_native :: "('w, 'tx) provider \<Rightarrow> contract \<Rightarrow> b256 \<Rightarrow> u256 \<Rightarrow> 'w \<Rightarrow> (contract_error + 'tx) \<times> 'w" where
  "deposit_native pv c key amount w = send_signed pv c key (MinterCall MdepositNative) amount w"

definition deposit_token :: "('w, 'tx) provider \<Rightarrow> contract \<Rightarrow> b256 \<Rightarrow> u256 \<Rightarrow> 'w \<Rightarrow> (contract_error + 'tx) \<times> 'w" where
  "deposit_token pv c key amount w = send_signed pv c key (MinterCall (MdepositToken amount)) 0 w"

definition withdraw_native :: "('w, 'tx) provider \<Rightarrow> contract \<Rightarrow> b256 \<Rightarrow> u256 \<Rightarrow> 'w \<Rightarrow> (contract_error + 'tx) \<times> 'w" where
  "withdraw_native pv c key amount w = send_signed pv c key (MinterCall (MwithdrawNative amount)) 0 w"

definition withdraw_token :: "('w, 'tx) provider \<Rightarrow> contract \<Rightarrow> b256 \<Rightarrow> u256 \<Rightarrow> 'w \<Rightarrow> (contract_error + 'tx) \<times> 'w" where
  "withdraw_token pv c key amount w = send_signed pv c key (MinterCall (MwithdrawToken amount)) 0 w"

text \<open>An event that is not yet in a block is reported in block 0.\<close>

definition get_indexed_transfer_events ::
  "('w, 'tx) provider \<Rightarrow> contract \<Rightarrow> nat \<Rightarrow> nat \<Rightarrow> 'w \<Rightarrow> contract_error + indexed_event list" where
  "get_indexed_transfer_events pv c from_block to_block w =
     res_bind (map_error ContractFailure (pv_indexed_transfers pv (ct_address c) from_block to_block w)) (\<lambda>logs.
     Inr (map (\<lambda>l. \<lparr>ev_index = unat (uint256_as_u64 (il_index l)), ev_from = il_from l, ev_to = il_to l,
                    ev_amount = il_value l, ev_block = unwrap_or (il_block l) 0\<rparr>) logs))"

record teleport_event =
  te_to :: address
  te_value :: u256
  te_eth_block_number :: nat

definition get_teleport_events ::
  "('w, 'tx) provider \<Rightarrow> contract \<Rightarrow> nat \<Rightarrow> nat \<Rightarrow> 'w \<Rightarrow> contract_error + teleport_event list" where
  "get_teleport_events pv c from_block to_block w =
     res_bind (map_error ContractFailure (pv_teleports pv (ct_address c) from_block to_block w)) (\<lambda>logs.
     Inr (map (\<lambda>l. \<lparr>te_to = tl_to l, te_value = tl_value l, te_eth_block_number = unwrap_or (tl_block l) 0\<rparr>) logs))"

section \<open>The public transfer command (\<open>cli/src/commands/transfer.rs\<close>)\<close>

datatype transfer_error =
    TransferToken teleport_error
  | TransferProvider
  | TransferContract contract_error
  | TransferPanic

record transfer_args =
  ta_chain_id :: nat
  ta_to :: address
  ta_amount :: u256

text \<open>Without any address of a node the fallback transport cannot be built, which panics.\<close>

definition build_erc20 :: "(string \<Rightarrow> bool) \<Rightarrow> token_entry \<Rightarrow> transfer_error + contract" where
  "build_erc20 parses t =
     (if te_rpc_urls t = [] then Inl TransferPanic
      else if \<not> provider_urls_ok parses (te_rpc_urls t) then Inl TransferProvider
      else Inr (with_legacy_tx (te_legacy_tx t) (contract_new (te_token_address t))))"

definition transfer_run ::
  "(string \<Rightarrow> bool) \<Rightarrow> (string list \<Rightarrow> ('w, 'tx) provider) \<Rightarrow> transfer_args \<Rightarrow> token_entry list \<Rightarrow> b256 \<Rightarrow> 'w \<Rightarrow> (transfer_error + 'tx) \<times> 'w" where
  "transfer_run parses pvs args tokens private_key w =
     (case res_bind (map_error TransferToken (find_token_by_chain tokens (ta_chain_id args))) (\<lambda>entry.
           res_bind (build_erc20 parses entry) (\<lambda>erc20. Inr (entry, erc20))) of
        Inl e \<Rightarrow> (Inl e, w)
      | Inr (entry, erc20) \<Rightarrow>
          (case transfer (pvs (te_rpc_urls entry)) erc20 private_key (ta_to args) (ta_amount args) w of
             (r, w') \<Rightarrow> (map_error TransferContract r, w')))"

end
