(* ===== verification/Crosschain_Props.thy ===== *)
theory Crosschain_Props
  imports Crosschain "HOL-Library.Sublist"
begin

text \<open>
  The cross-chain job: fees, what a run sends whatever the contracts answer, and that a run
  against contracts that answer brings every verifier and the hub up to date.
\<close>

section \<open>Fees\<close>

lemma unat_saturating_mul: "unat (saturating_mul a b) = min (2 ^ 256 - 1) (unat a * unat b)"
proof -
  have "min (2 ^ 256 - 1) (unat a * unat b) < (2 :: nat) ^ 256"
    by (rule le_less_trans [OF min.cobounded1]) simp
  then show ?thesis
    unfolding saturating_mul_def unat_word_of_nat by simp
qed

text \<open>The greatest quote whose multiple by ten thousand fits into 256 bits.\<close>

definition max_quote :: nat where
  "max_quote = (2 ^ 256 - 1) div 10000"

lemma fee_multiplier: "unat ((10000 :: u256) + ucast (bps :: u64)) = 10000 + unat bps"
proof -
  have "unat (ucast bps :: u256) = unat bps"
    using less_trans [OF unat_u64_less [of bps], of "2 ^ 256"] by (simp add: unsigned_ucast_eq take_bit_nat_eq_self_iff)
  moreover have "unat (10000 :: u256) + unat bps < 2 ^ LENGTH(256)"
    using less_trans [OF unat_u64_less [of bps], of "2 ^ 256 - 10000"] by simp
  ultimately show ?thesis
    by (subst unat_word_ariths(1)) simp
qed

lemma buffered_fee:
  fixes bps :: u64
  shows "unat (saturating_mul fee (10000 + ucast bps) div 10000) = min (2 ^ 256 - 1) (unat fee * (10000 + unat bps)) div 10000"
  by (simp add: unat_div unat_saturating_mul fee_multiplier)

lemma nat_buffer:
  fixes n b M :: nat
  assumes "0 < b"
  shows "n \<le> M div 10000 \<Longrightarrow> n \<le> min M (n * (10000 + b)) div 10000"
    "M div 10000 < n \<Longrightarrow> min M (n * (10000 + b)) div 10000 = M div 10000"
    "min M (n * (10000 + b)) div 10000 \<le> n + n * b div 10000"
proof -
  show "n \<le> min M (n * (10000 + b)) div 10000" if "n \<le> M div 10000"
  proof -
    have "n * 10000 \<le> M" "n * 10000 \<le> n * (10000 + b)"
      using that by auto
    then show ?thesis
      by (simp add: less_eq_div_iff_mult_less_eq)
  qed
  show "min M (n * (10000 + b)) div 10000 = M div 10000" if "M div 10000 < n"
  proof -
    have "M < n * 10000"
      using that by (simp add: div_less_iff_less_mult)
    then have "M \<le> n * (10000 + b)"
      by (simp add: algebra_simps)
    then show ?thesis
      by (simp add: min_absorb1)
  qed
  have "min M (n * (10000 + b)) div 10000 \<le> n * (10000 + b) div 10000"
    by (intro div_le_mono) simp
  also have "\<dots> = n + n * b div 10000"
    by (simp add: algebra_simps)
  finally show "min M (n * (10000 + b)) div 10000 \<le> n + n * b div 10000" .
qed

text \<open>
  A buffer raises every positive quote up to \<open>(2^256 - 1) / 10000\<close>, also one so small
  that the percentage rounds to nothing, by at most the configured share plus one; for
  greater quotes the product saturates and the amount sent falls below the quote.
\<close>

theorem fee_buffer_covers_quote:
  "(fee < apply_fee_buffer fee bps \<longleftrightarrow> bps \<noteq> 0 \<and> fee \<noteq> 0 \<and> unat fee \<le> max_quote)
   \<and> (apply_fee_buffer fee bps < fee \<longleftrightarrow> bps \<noteq> 0 \<and> max_quote < unat fee)
   \<and> unat (apply_fee_buffer fee bps) \<le> unat fee + unat fee * unat bps div 10000 + 1"
proof (cases "bps = 0")
  case False
  define q where "q = saturating_mul fee (10000 + ucast bps) div 10000"
  have uq: "unat q = min (2 ^ 256 - 1) (unat fee * (10000 + unat bps)) div 10000"
    unfolding q_def by (rule buffered_fee)
  have b: "0 < unat bps"
    using False by (simp add: unat_gt_0)
  note nb = nat_buffer [OF b, where n = "unat fee" and M = "2 ^ 256 - 1", folded uq max_quote_def]
  have fee: "apply_fee_buffer fee bps = (if q = fee \<and> fee > 0 then fee + 1 else q)"
    using False by (simp add: apply_fee_buffer_def Let_def q_def)
  have small: "unat fee \<le> max_quote \<Longrightarrow> unat (fee + 1) = unat fee + 1"
    by (subst unat_plus_one_word) (simp_all add: max_quote_def)
  consider (zero) "fee = 0" | (large) "max_quote < unat fee" | (ok) "0 < unat fee" "unat fee \<le> max_quote"
    by (metis linorder_not_less unat_gt_0)
  then show ?thesis
  proof cases
    case zero
    then have "q = 0"
      using uq by (simp add: word_unat_eq_iff)
    then show ?thesis
      using zero fee by simp
  next
    case large
    then have "unat q = max_quote"
      by (rule nb(2))
    then have "q < fee" "q \<noteq> fee" "\<not> fee < q"
      using large by (auto simp: word_less_nat_alt)
    then show ?thesis
      using fee False large nb(3) by auto
  next
    case ok
    then have le: "unat fee \<le> unat q"
      by (intro nb(1))
    have "fee \<noteq> 0" "fee > 0"
      using ok(1) by (auto simp: unat_gt_0 word_gt_0)
    show ?thesis
    proof (cases "q = fee")
      case True
      then show ?thesis
        using fee ok small False \<open>fee \<noteq> 0\<close> \<open>fee > 0\<close> by (auto simp: word_less_nat_alt)
    next
      case False
      then have "unat fee < unat q"
        using le by (metis le_neq_implies_less word_unat_eq_iff)
      then show ?thesis
        using fee ok \<open>bps \<noteq> 0\<close> False \<open>fee \<noteq> 0\<close> nb(3) by (auto simp: word_less_nat_alt)
    qed
  qed
qed (simp add: apply_fee_buffer_def)

lemma fee_buffer_ge: "unat fee \<le> max_quote \<Longrightarrow> fee \<le> apply_fee_buffer fee bps"
proof (cases "bps = 0")
  case True
  then show "fee \<le> apply_fee_buffer fee bps"
    by (simp add: apply_fee_buffer_def)
next
  case False
  assume "unat fee \<le> max_quote"
  then have le: "unat fee \<le> unat (saturating_mul fee (10000 + ucast bps) div 10000)"
    unfolding buffered_fee max_quote_def using False by (intro nat_buffer(1)) (simp_all add: unat_gt_0)
  moreover have "unat (fee + 1) = unat fee + 1"
    using \<open>unat fee \<le> max_quote\<close> by (subst unat_plus_one_word) (simp_all add: max_quote_def)
  ultimately show ?thesis
    using False by (auto simp: apply_fee_buffer_def Let_def word_le_nat_alt)
qed

section \<open>Contracts that answer\<close>

text \<open>
  The views answer; a relay that pays at least the quote is mined and brings its verifier, and
  no other one, up to date; a broadcast that pays at least the quote does so for the hub and
  leaves the verifiers alone.
\<close>

definition relay_answers :: "('w, 'tx) crosschain_calls \<Rightarrow> token_entry list \<Rightarrow> bool" where
  "relay_answers C tokens \<longleftrightarrow>
     (\<forall>t \<in> set tokens. cc_provider C (te_rpc_urls t)
       \<and> (\<forall>w. \<exists>b. cc_verifier_up_to_date C t w = Inr b)
       \<and> (\<forall>opts w. \<exists>q z. cc_quote_relay C t opts w = Inr (q, z) \<and> unat q \<le> max_quote)
       \<and> (\<forall>key fee opts w q z. cc_quote_relay C t opts w = Inr (q, z) \<and> q \<le> fee \<longrightarrow>
            (\<exists>tx w' w''. cc_relay_transfer_root C t key fee opts w = (Inr tx, w') \<and> cc_get_receipt C tx w' = (Inr True, w'')
               \<and> cc_verifier_up_to_date C t w'' = Inr True
               \<and> (\<forall>t' \<in> set tokens. t' \<noteq> t \<longrightarrow> cc_verifier_up_to_date C t' w'' = cc_verifier_up_to_date C t' w))))"

definition hub_answers :: "('w, 'tx) crosschain_calls \<Rightarrow> token_entry list \<Rightarrow> hub_entry \<Rightarrow> bool" where
  "hub_answers C tokens hub \<longleftrightarrow> cc_provider C (he_rpc_urls hub)
     \<and> (\<forall>i w. i < length tokens \<longrightarrow> (\<exists>info. cc_token_info C hub i w = Inr info))
     \<and> (\<forall>w. \<exists>b. cc_hub_up_to_date C hub w = Inr b)
     \<and> (\<forall>eids opts w. \<exists>q. cc_quote_broadcast C hub eids opts w = Inr q \<and> unat q \<le> max_quote)
     \<and> (\<forall>key eids fee opts w q. cc_quote_broadcast C hub eids opts w = Inr q \<and> q \<le> fee \<longrightarrow>
          (\<exists>tx w' w''. cc_broadcast C hub key eids opts fee w = (Inr tx, w') \<and> cc_get_receipt C tx w' = (Inr True, w'')
             \<and> cc_hub_up_to_date C hub w'' = Inr True
             \<and> (\<forall>t \<in> set tokens. cc_verifier_up_to_date C t w'' = cc_verifier_up_to_date C t w)))"

definition up_to_date :: "('w, 'tx) crosschain_calls \<Rightarrow> token_entry list \<Rightarrow> 'w \<Rightarrow> bool" where
  "up_to_date C tokens w \<longleftrightarrow> (\<forall>t \<in> set tokens. cc_verifier_up_to_date C t w = Inr True)"

fun tx_token :: "crosschain_tx \<Rightarrow> token_entry option" where
  "tx_token (RelayTx t fee opts) = Some t"
| "tx_token (BroadcastTx hub eids fee opts) = None"

lemma relay_execute_current: "cc_verifier_up_to_date C (rl_token job) w = Inr True \<Longrightarrow> relay_execute_once C job (w, sent) = (Inr (), w, sent)"
  by (simp add: relay_execute_once_def)

lemma relay_execute_stale:
  assumes "relay_answers C tokens" "rl_token job \<in> set tokens" "cc_verifier_up_to_date C (rl_token job) w = Inr False"
  shows "\<exists>w' fee. relay_execute_once C job (w, sent) = (Inr (), w', sent @ [RelayTx (rl_token job) fee (rl_lz_options job)])
    \<and> cc_verifier_up_to_date C (rl_token job) w' = Inr True
    \<and> (\<forall>t' \<in> set tokens. t' \<noteq> rl_token job \<longrightarrow> cc_verifier_up_to_date C t' w' = cc_verifier_up_to_date C t' w)"
proof -
  obtain q z where q: "cc_quote_relay C (rl_token job) (rl_lz_options job) w = Inr (q, z)" "unat q \<le> max_quote"
    using assms(1,2) unfolding relay_answers_def by blast
  then have "q \<le> apply_fee_buffer q (rl_fee_buffer_bps job)"
    by (intro fee_buffer_ge)
  then obtain tx w' w'' where
    tx: "cc_relay_transfer_root C (rl_token job) (rl_private_key job) (apply_fee_buffer q (rl_fee_buffer_bps job)) (rl_lz_options job) w = (Inr tx, w')"
      "cc_get_receipt C tx w' = (Inr True, w'')" "cc_verifier_up_to_date C (rl_token job) w'' = Inr True"
      "\<forall>t' \<in> set tokens. t' \<noteq> rl_token job \<longrightarrow> cc_verifier_up_to_date C t' w'' = cc_verifier_up_to_date C t' w"
    using assms(1,2) q(1) unfolding relay_answers_def by blast
  have "relay_execute_once C job (w, sent) = (Inr (), w'', sent @ [RelayTx (rl_token job) (apply_fee_buffer q (rl_fee_buffer_bps job)) (rl_lz_options job)])"
    using assms(3) q(1) tx(1,2) by (simp add: relay_execute_once_def wait_for_receipt_def Let_def)
  then show ?thesis
    using tx(3,4) by blast
qed

lemma run_relay_jobs_ok:
  assumes "relay_answers C tokens" "set (map rl_token jobs) \<subseteq> set tokens" "distinct (map rl_token jobs)"
    and "\<forall>t \<in> set tokens - set (map rl_token jobs). cc_verifier_up_to_date C t w = Inr True"
  shows "\<exists>w' relays. run_relay_jobs C jobs (w, sent) = (Inr (), w', sent @ relays) \<and> up_to_date C tokens w'
    \<and> map tx_token relays = map Some (filter (\<lambda>t. cc_verifier_up_to_date C t w = Inr False) (map rl_token jobs))"
  using assms(2-4)
proof (induction jobs arbitrary: w sent)
  case Nil
  then show ?case
    by (auto simp: up_to_date_def)
next
  case (Cons job jobs)
  let ?t = "rl_token job"
  obtain b where b: "cc_verifier_up_to_date C ?t w = Inr b"
    using assms(1) Cons.prems(1) unfolding relay_answers_def by fastforce
  show ?case
  proof (cases b)
    case True
    then have "\<forall>t \<in> set tokens - set (map rl_token jobs). cc_verifier_up_to_date C t w = Inr True"
      using Cons.prems(3) b by auto
    from Cons.IH [OF _ _ this, of sent] show ?thesis
      using Cons.prems(1,2) True b by (auto simp: relay_execute_current)
  next
    case False
    then obtain w1 fee where
      step: "relay_execute_once C job (w, sent) = (Inr (), w1, sent @ [RelayTx ?t fee (rl_lz_options job)])"
        "cc_verifier_up_to_date C ?t w1 = Inr True"
      and others: "\<forall>t' \<in> set tokens. t' \<noteq> ?t \<longrightarrow> cc_verifier_up_to_date C t' w1 = cc_verifier_up_to_date C t' w"
      using relay_execute_stale [OF assms(1), of job w sent] Cons.prems(1) b by auto
    have "\<forall>t \<in> set tokens - set (map rl_token jobs). cc_verifier_up_to_date C t w1 = Inr True"
    proof
      fix t assume "t \<in> set tokens - set (map rl_token jobs)"
      then show "cc_verifier_up_to_date C t w1 = Inr True"
        using Cons.prems(3) others step(2) by (cases "t = ?t") auto
    qed
    from Cons.IH [OF _ _ this, of "sent @ [RelayTx ?t fee (rl_lz_options job)]"] obtain w' relays where
      rest: "run_relay_jobs C jobs (w1, sent @ [RelayTx ?t fee (rl_lz_options job)]) = (Inr (), w', (sent @ [RelayTx ?t fee (rl_lz_options job)]) @ relays)"
        "up_to_date C tokens w'"
        "map tx_token relays = map Some (filter (\<lambda>t. cc_verifier_up_to_date C t w1 = Inr False) (map rl_token jobs))"
      using Cons.prems(1,2) by auto
    have "cc_verifier_up_to_date C t w1 = cc_verifier_up_to_date C t w" if "t \<in> set (map rl_token jobs)" for t
    proof -
      have "?t \<notin> set (map rl_token jobs)" "set (map rl_token jobs) \<subseteq> set tokens"
        using Cons.prems(1,2) by simp_all
      then have "t \<in> set tokens" "t \<noteq> ?t"
        using that by blast+
      then show ?thesis
        using others by blast
    qed
    then have "filter (\<lambda>t. cc_verifier_up_to_date C t w1 = Inr False) (map rl_token jobs)
        = filter (\<lambda>t. cc_verifier_up_to_date C t w = Inr False) (map rl_token jobs)"
      by (intro filter_cong) simp_all
    then show ?thesis
      using step(1) rest b False by (intro exI [of _ w'] exI [of _ "RelayTx ?t fee (rl_lz_options job) # relays"]) simp
  qed
qed

lemma broadcast_ok:
  assumes "hub_answers C tokens (bj_hub job)" "bj_target_eids job \<noteq> []"
  shows "\<exists>w' txs. broadcast_execute_once C job (w, sent) = (Inr (), w', sent @ txs) \<and> map tx_token txs \<in> {[], [None]}
    \<and> cc_hub_up_to_date C (bj_hub job) w' = Inr True
    \<and> (\<forall>t \<in> set tokens. cc_verifier_up_to_date C t w' = cc_verifier_up_to_date C t w)
    \<and> (cc_hub_up_to_date C (bj_hub job) w = Inr True \<longrightarrow> w' = w \<and> txs = [])"
proof -
  obtain b where b: "cc_hub_up_to_date C (bj_hub job) w = Inr b"
    using assms(1) unfolding hub_answers_def by blast
  show ?thesis
  proof (cases b)
    case True
    then show ?thesis
      using b assms(2) by (intro exI [of _ w] exI [of _ "[]"]) (simp add: broadcast_execute_once_def)
  next
    case False
    obtain q where q: "cc_quote_broadcast C (bj_hub job) (bj_target_eids job) (bj_lz_options job) w = Inr q" "unat q \<le> max_quote"
      using assms(1) unfolding hub_answers_def by blast
    let ?fee = "apply_fee_buffer q (bj_fee_buffer_bps job)"
    have "q \<le> ?fee"
      using q(2) by (intro fee_buffer_ge)
    then obtain tx w' w'' where
      tx: "cc_broadcast C (bj_hub job) (bj_private_key job) (bj_target_eids job) (bj_lz_options job) ?fee w = (Inr tx, w')"
        "cc_get_receipt C tx w' = (Inr True, w'')" "cc_hub_up_to_date C (bj_hub job) w'' = Inr True"
        "\<forall>t \<in> set tokens. cc_verifier_up_to_date C t w'' = cc_verifier_up_to_date C t w"
      using assms(1) q(1) unfolding hub_answers_def by blast
    have "broadcast_execute_once C job (w, sent)
        = (Inr (), w'', sent @ [BroadcastTx (bj_hub job) (bj_target_eids job) ?fee (bj_lz_options job)])"
      using assms(2) b False q(1) tx(1,2) by (simp add: broadcast_execute_once_def wait_for_receipt_def Let_def)
    then show ?thesis
      using tx(3,4) b False by (intro exI [of _ w''] exI [of _ "[BroadcastTx (bj_hub job) (bj_target_eids job) ?fee (bj_lz_options job)]"]) simp
  qed
qed

section \<open>A run of the program\<close>

lemma resolve_target_eids_ok:
  assumes "\<forall>i. i < k + length tokens \<longrightarrow> (\<exists>info. cc_token_info C hub i w = Inr info)"
  shows "\<exists>eids. resolve_target_eids C hub w k tokens = Inr eids \<and> length eids = length tokens"
  using assms
proof (induction tokens arbitrary: k)
  case (Cons t tokens)
  obtain info where "cc_token_info C hub k w = Inr info"
    using Cons.prems by (auto dest!: spec [of _ k])
  moreover obtain eids where "resolve_target_eids C hub w (k + 1) tokens = Inr eids" "length eids = length tokens"
    using Cons.IH [of "k + 1"] Cons.prems by auto
  ultimately show ?case
    by simp
qed simp

lemma load_tokens_config_valid:
  assumes "load_tokens_config json contents = Inr (tokens, hub)"
  shows "\<forall>t \<in> set tokens. te_rpc_urls t \<noteq> []" "\<forall>h. hub = Some h \<longrightarrow> he_rpc_urls h \<noteq> []"
proof -
  obtain f us where *: "tokens_file_normalize f = Inr ()" "res_map token_normalize (tf_tokens f) = Inr us" "tokens = tf_tokens f"
    "hub = tf_hub f"
    using assms by (auto simp: load_tokens_config_def res_bind_Inr_iff)
  show "\<forall>t \<in> set tokens. te_rpc_urls t \<noteq> []"
    using res_map_all [OF *(2)] *(3) by (auto simp: token_normalize_iff token_valid_def)
  show "\<forall>h. hub = Some h \<longrightarrow> he_rpc_urls h \<noteq> []"
    using *(1,4) by (auto simp: tokens_file_normalize_def hub_normalize_def split: if_splits)
qed

lemma crosschain_setup_ok:
  assumes load: "load_tokens_config json contents = Inr (tokens, hub)" and "tokens \<noteq> []"
    and cli: "cl_relay_interval_secs cli \<noteq> 0" "cl_once cli" "parse_private_key unhex (cl_relay_private_key cli) = Inr key"
    and world: "relay_answers C tokens" "\<forall>h. hub = Some h \<longrightarrow> hub_answers C tokens h"
  shows "\<exists>jobs bjob. crosschain_setup json unhex C cli contents w = Inr (jobs, bjob) \<and> map rl_token jobs = tokens
    \<and> map_option bj_hub bjob = hub \<and> (\<forall>job. bjob = Some job \<longrightarrow> bj_target_eids job \<noteq> [])"
proof -
  define mk where "mk t = \<lparr>rl_token = t, rl_private_key = key, rl_lz_options = cl_relay_options cli,
      rl_interval_secs = cl_relay_interval_secs cli, rl_fee_buffer_bps = cl_relay_fee_buffer_bps cli\<rparr>" for t
  have "build_relay_job C cli key t = Inr (mk t)" if "t \<in> set tokens" for t
    using that load_tokens_config_valid(1) [OF load] world(1)
    by (simp add: build_relay_job_def build_provider_def relay_answers_def mk_def)
  then have jobs: "res_map (build_relay_job C cli key) tokens = Inr (map mk tokens)"
    by (intro res_map_Inr)
  obtain bjob where bjob: "build_broadcast_job C cli key tokens hub w = Inr bjob" "map_option bj_hub bjob = hub"
    "\<forall>job. bjob = Some job \<longrightarrow> bj_target_eids job \<noteq> []"
  proof (cases hub)
    case None
    then show thesis
      using that [of None] by (simp add: build_broadcast_job_def)
  next
    case (Some h)
    then obtain eids where "resolve_target_eids C h w 0 tokens = Inr eids" "length eids = length tokens"
      using resolve_target_eids_ok [of 0 tokens C h w] world(2) by (auto simp: hub_answers_def)
    moreover have "cc_provider C (he_rpc_urls h)" "he_rpc_urls h \<noteq> []"
      using Some world(2) load_tokens_config_valid(2) [OF load] by (auto simp: hub_answers_def)
    moreover have "remdups_adj (sort eids) \<noteq> []"
      using calculation(2) \<open>tokens \<noteq> []\<close> by (metis length_0_conv length_sort remdups_adj_Nil_iff)
    ultimately show thesis
      using that Some by (simp add: build_broadcast_job_def build_provider_def)
  qed
  have "map rl_token (map mk tokens) = tokens"
    by (simp add: mk_def comp_def)
  then show ?thesis
    using load \<open>tokens \<noteq> []\<close> cli jobs bjob by (auto simp: crosschain_setup_def ensure_def Let_def)
qed

text \<open>
  \<^bold>\<open>C27\<close>. With \<open>--once\<close>, a valid configuration of different tokens, and contracts that answer with
  quotes small enough for the fee buffer, take effect at once and are changed by nobody else in
  the meantime (later deliveries between the chains are outside), the run succeeds. It has
  then relayed exactly the verifiers that were stale, once each and in the order of the
  configuration, has sent at most one broadcast, after all relays, and leaves every verifier
  and the hub up to date; a further run sends nothing.
\<close>

theorem crosschain_once_converges:
  assumes "load_tokens_config json contents = Inr (tokens, hub)" "tokens \<noteq> []" "distinct tokens"
    and "cl_relay_interval_secs cli \<noteq> 0" "cl_once cli" "parse_private_key unhex (cl_relay_private_key cli) = Inr key"
    and "relay_answers C tokens" "\<forall>h. hub = Some h \<longrightarrow> hub_answers C tokens h"
  shows "\<exists>w' relays txs. crosschain_once json unhex C cli contents (w, sent) = (Inr (), w', sent @ relays @ txs)
    \<and> map tx_token relays = map Some (filter (\<lambda>t. cc_verifier_up_to_date C t w = Inr False) tokens)
    \<and> map tx_token txs \<in> {[], [None]} \<and> up_to_date C tokens w' \<and> (\<forall>h. hub = Some h \<longrightarrow> cc_hub_up_to_date C h w' = Inr True)
    \<and> crosschain_once json unhex C cli contents (w', []) = (Inr (), w', [])"
proof -
  have run: "\<exists>w' relays txs. crosschain_once json unhex C cli contents (w, sent) = (Inr (), w', sent @ relays @ txs)
    \<and> map tx_token relays = map Some (filter (\<lambda>t. cc_verifier_up_to_date C t w = Inr False) tokens)
    \<and> map tx_token txs \<in> {[], [None]} \<and> up_to_date C tokens w' \<and> (\<forall>h. hub = Some h \<longrightarrow> cc_hub_up_to_date C h w' = Inr True)" for w sent
  proof -
    obtain jobs bjob where jobs: "crosschain_setup json unhex C cli contents w = Inr (jobs, bjob)" "map rl_token jobs = tokens"
      "map_option bj_hub bjob = hub" "\<forall>job. bjob = Some job \<longrightarrow> bj_target_eids job \<noteq> []"
      using crosschain_setup_ok [OF assms(1,2,4-8), of w] by blast
    obtain w1 relays where relays: "run_relay_jobs C jobs (w, sent) = (Inr (), w1, sent @ relays)" "up_to_date C tokens w1"
      "map tx_token relays = map Some (filter (\<lambda>t. cc_verifier_up_to_date C t w = Inr False) tokens)"
      using run_relay_jobs_ok [OF assms(7), of jobs w sent] jobs(2) assms(3) by auto
    show ?thesis
    proof (cases bjob)
      case None
      then show ?thesis
        using jobs relays by (intro exI [of _ w1] exI [of _ relays] exI [of _ "[]"]) (auto simp: crosschain_once_def)
    next
      case (Some job)
      then obtain w' txs where "broadcast_execute_once C job (w1, sent @ relays) = (Inr (), w', (sent @ relays) @ txs)"
        "map tx_token txs \<in> {[], [None]}" "cc_hub_up_to_date C (bj_hub job) w' = Inr True"
        "\<forall>t \<in> set tokens. cc_verifier_up_to_date C t w' = cc_verifier_up_to_date C t w1"
        using broadcast_ok [of C tokens job w1 "sent @ relays"] jobs(3,4) assms(8) by auto
      then show ?thesis
        using Some jobs relays by (intro exI [of _ w'] exI [of _ relays] exI [of _ txs]) (auto simp: crosschain_once_def up_to_date_def)
    qed
  qed
  have idle: "crosschain_once json unhex C cli contents (w, []) = (Inr (), w, [])"
    if "up_to_date C tokens w" "\<forall>h. hub = Some h \<longrightarrow> cc_hub_up_to_date C h w = Inr True" for w
  proof -
    obtain jobs bjob where jobs: "crosschain_setup json unhex C cli contents w = Inr (jobs, bjob)" "map rl_token jobs = tokens"
      "map_option bj_hub bjob = hub"
      using crosschain_setup_ok [OF assms(1,2,4-8), of w] by blast
    have "run_relay_jobs C js (w, []) = (Inr (), w, [])" if "set (map rl_token js) \<subseteq> set tokens" for js
      using that \<open>up_to_date C tokens w\<close> by (induction js) (auto simp: relay_execute_current up_to_date_def)
    then show ?thesis
      using jobs that(2) by (auto simp: crosschain_once_def broadcast_execute_once_def split: option.splits)
  qed
  show ?thesis
    using run [of w sent] idle by meson
qed

text \<open>Two verifiers, the second one stale, and a hub: a state of the chains lists who is up to date.\<close>

definition sample_tokens :: "token_entry list" where
  "sample_tokens = map (\<lambda>a. \<lparr>te_label = ''z'', te_token_address = a, te_verifier_address = a,
     te_minter_address = None, te_chain_id = 1, te_deployed_block = 8, te_rpc_urls = [''rpc''], te_legacy_tx = False\<rparr>) [1, 2]"

definition sample_hub :: hub_entry where
  "sample_hub = \<lparr>he_hub_address = 7, he_chain_id = 1, he_rpc_urls = [''rpc'']\<rparr>"

definition sample_cli :: crosschain_cli where
  "sample_cli = \<lparr>cl_relay_private_key = replicate 64 (CHR ''0''), cl_relay_interval_secs = 60, cl_relay_options = [],
     cl_relay_fee_buffer_bps = 100, cl_broadcast_interval_secs = 0, cl_broadcast_options = [], cl_broadcast_fee_buffer_bps = 0,
     cl_once = True\<rparr>"

definition sample_calls :: "(address set, nat) crosschain_calls" where
  "sample_calls = \<lparr>
     cc_verifier_up_to_date = (\<lambda>t w. Inr (te_verifier_address t \<in> w)),
     cc_quote_relay = (\<lambda>t opts w. Inr (50, 0)),
     cc_relay_transfer_root = (\<lambda>t key fee opts w. if fee < 50 then (Inl ''fee'', w) else (Inr 0, insert (te_verifier_address t) w)),
     cc_get_receipt = (\<lambda>tx w. (Inr True, w)),
     cc_hub_up_to_date = (\<lambda>hub w. Inr (7 \<in> w)),
     cc_quote_broadcast = (\<lambda>hub eids opts w. Inr 70),
     cc_broadcast = (\<lambda>hub key eids opts fee w. if fee < 70 then (Inl ''fee'', w) else (Inr 1, insert 7 w)),
     cc_token_info = (\<lambda>hub i w. Inr \<lparr>ht_chain_id = 1, ht_eid = 30101, ht_verifier = 1, ht_token = 1\<rparr>),
     cc_provider = (\<lambda>urls. True)\<rparr>"

lemma sample_world: "relay_answers sample_calls sample_tokens" "hub_answers sample_calls sample_tokens sample_hub"
  by (auto simp: relay_answers_def hub_answers_def sample_calls_def sample_tokens_def max_quote_def not_less)

lemma sample_loads:
  "load_tokens_config (\<lambda>_. Some \<lparr>tf_hub = Some sample_hub, tf_tokens = sample_tokens\<rparr>) (Some []) = Inr (sample_tokens, Some sample_hub)"
proof -
  have "trim_ascii ''z'' = ''z''"
    by (intro trim_ascii_id) (simp add: is_space_def)
  then show ?thesis
    by (simp add: load_tokens_config_def tokens_file_normalize_def hub_normalize_def sample_hub_def sample_tokens_def token_normalize_def)
qed

theorem crosschain_once_converges_witness:
  "\<exists>w' relays txs. crosschain_once (\<lambda>_. Some \<lparr>tf_hub = Some sample_hub, tf_tokens = sample_tokens\<rparr>) (\<lambda>_. Some (replicate 32 1))
       sample_calls sample_cli (Some []) ({1}, []) = (Inr (), w', relays @ txs)
    \<and> map tx_token relays = [Some (sample_tokens ! 1)] \<and> up_to_date sample_calls sample_tokens w'"
proof -
  have cli: "cl_relay_interval_secs sample_cli \<noteq> 0" "cl_once sample_cli"
    "parse_private_key (\<lambda>_. Some (replicate 32 1)) (cl_relay_private_key sample_cli) = Inr (Field.u256_from_be_slice (replicate 32 1))"
    by (simp_all add: sample_cli_def parse_private_key_def ensure_def)
  have tokens: "sample_tokens \<noteq> []" "distinct sample_tokens"
    "filter (\<lambda>t. cc_verifier_up_to_date sample_calls t {1} = Inr False) sample_tokens = [sample_tokens ! 1]"
    by (simp_all add: sample_tokens_def sample_calls_def)
  have "\<forall>h. Some sample_hub = Some h \<longrightarrow> hub_answers sample_calls sample_tokens h"
    using sample_world(2) by simp
  from crosschain_once_converges [OF sample_loads tokens(1,2) cli sample_world(1) this, of "{1}" "[]"] show ?thesis
    unfolding tokens(3) list.map append_Nil by (elim exE conjE) (intro exI conjI)
qed

end
