(* ===== verification/Contract_Props.thy ===== *)
theory Contract_Props
  imports Contracts Crosschain_Props
begin

text \<open>
  The contract clients (\<open>Contracts\<close>) under the cross-chain job: reading of receipts, the width of
  indices, and the refinement of the job's calls to the requests that reach the nodes.
\<close>

section \<open>Receipts and indices\<close>

text \<open>A receipt is read at its first log of the kind.\<close>

lemma parse_event_first:
  "parse_event name decode logs = ok_or (MissingEvent name) (Option.bind (List.find (\<lambda>l. decode l \<noteq> None) logs) decode)"
  by (induction logs) (auto split: option.splits)

lemma unat_uint256_as_u64: "unat (uint256_as_u64 v) = unat v mod 2 ^ 64"
  by (simp add: uint256_as_u64_def u256_to_be_bytes_def drop_be_bytes unat_word_of_nat)

section \<open>The calls of the cross-chain job\<close>

definition contract_error_text :: "contract_error \<Rightarrow> string" where
  "contract_error_text e =
     (case e of ContractFailure s \<Rightarrow> s | ContractTransport a s \<Rightarrow> a @ s | MissingEvent s \<Rightarrow> s | ContractPanic \<Rightarrow> ''panic'')"

definition verifier_of :: "token_entry \<Rightarrow> contract" where
  "verifier_of t = with_legacy_tx (te_legacy_tx t) (contract_new (te_verifier_address t))"

definition hub_of :: "hub_entry \<Rightarrow> contract" where
  "hub_of h = contract_new (he_hub_address h)"

text \<open>\<open>pvs\<close> gives the node behind the configured addresses, \<open>receipt\<close> the fate of a transaction.\<close>

definition bound_calls ::
  "(string \<Rightarrow> bool) \<Rightarrow> (string list \<Rightarrow> ('w, 'tx) provider) \<Rightarrow> ('tx \<Rightarrow> 'w \<Rightarrow> (string + bool) \<times> 'w) \<Rightarrow> ('w, 'tx) crosschain_calls" where
  "bound_calls parses pvs receipt = \<lparr>
     cc_verifier_up_to_date = (\<lambda>t w. map_error contract_error_text (verifier_is_up_to_date (pvs (te_rpc_urls t)) (verifier_of t) w)),
     cc_quote_relay = (\<lambda>t opts w. map_error contract_error_text (quote_relay (pvs (te_rpc_urls t)) (verifier_of t) opts w)),
     cc_relay_transfer_root = (\<lambda>t key fee opts w.
       case relay_transfer_root (pvs (te_rpc_urls t)) (verifier_of t) key fee opts w of (r, w') \<Rightarrow> (map_error contract_error_text r, w')),
     cc_get_receipt = receipt,
     cc_hub_up_to_date = (\<lambda>h w. map_error contract_error_text (hub_is_up_to_date (pvs (he_rpc_urls h)) (hub_of h) w)),
     cc_quote_broadcast = (\<lambda>h eids opts w. map_error contract_error_text (quote_broadcast (pvs (he_rpc_urls h)) (hub_of h) eids opts w)),
     cc_broadcast = (\<lambda>h key eids opts fee w.
       case hub_broadcast (pvs (he_rpc_urls h)) (hub_of h) key eids opts fee w of (r, w') \<Rightarrow> (map_error contract_error_text r, w')),
     cc_token_info = (\<lambda>h i w. map_error contract_error_text (hub_token_info_at (pvs (he_rpc_urls h)) (hub_of h) (word_of_nat i) w)),
     cc_provider = provider_urls_ok parses\<rparr>"

text \<open>A node whose state also holds the requests it has accepted, each with the state it was sent in.\<close>

type_synonym 'w request_log = "(b256 \<times> tx_request \<times> 'w) list"

definition recorded :: "('w, 'tx) provider \<Rightarrow> ('w \<times> 'w request_log, 'tx) provider" where
  "recorded pv = \<lparr>
     pv_valid_key = pv_valid_key pv,
     pv_call = (\<lambda>a f s. pv_call pv a f (fst s)),
     pv_gas_price = (\<lambda>s. pv_gas_price pv (fst s)),
     pv_send = (\<lambda>key req s. case pv_send pv key req (fst s) of
        (Inl e, w) \<Rightarrow> (Inl e, w, snd s)
      | (Inr tx, w) \<Rightarrow> (Inr tx, w, snd s @ [(key, req, fst s)])),
     pv_block_number = (\<lambda>s. pv_block_number pv (fst s)),
     pv_indexed_transfers = (\<lambda>a i j s. pv_indexed_transfers pv a i j (fst s)),
     pv_teleports = (\<lambda>a i j s. pv_teleports pv a i j (fst s)),
     pv_aggregations = (\<lambda>a i j s. pv_aggregations pv a i j (fst s))\<rparr>"

definition recorded_receipt ::
  "('tx \<Rightarrow> 'w \<Rightarrow> (string + bool) \<times> 'w) \<Rightarrow> 'tx \<Rightarrow> 'w \<times> 'r \<Rightarrow> (string + bool) \<times> 'w \<times> 'r" where
  "recorded_receipt receipt tx s = (case receipt tx (fst s) of (r, w) \<Rightarrow> (r, w, snd s))"

text \<open>
  The value of a request for a quoted fee: the quote and the configured share of it, at least
  one unit more when both are positive, while the product fits 256 bits.
\<close>

definition buffered_value :: "u256 \<Rightarrow> u64 \<Rightarrow> u256 \<Rightarrow> bool" where
  "buffered_value quote bps v \<longleftrightarrow> v = apply_fee_buffer quote bps
     \<and> (unat quote * (10000 + unat bps) < 2 ^ 256 \<longrightarrow>
          unat v = unat quote + (if quote = 0 \<or> bps = 0 then 0 else max 1 (unat quote * unat bps div 10000)))"

text \<open>A gas price is set exactly for legacy chains, to what the node reports.\<close>

definition gas_price_ok :: "('w, 'tx) provider \<Rightarrow> bool \<Rightarrow> 'w \<Rightarrow> nat option \<Rightarrow> bool" where
  "gas_price_ok pv legacy w gas \<longleftrightarrow> (if legacy then \<exists>g. pv_gas_price pv w = Inr g \<and> gas = Some g else gas = None)"

text \<open>
  \<open>request_of\<close>: the request that a transaction of the job has to be on the chain. Its value is
  made from the quote of the contract in the state in which it was sent.
\<close>

definition request_of ::
  "(string list \<Rightarrow> ('w, 'tx) provider) \<Rightarrow> b256 \<Rightarrow> crosschain_cli \<Rightarrow> token_entry list \<Rightarrow> hub_entry option \<Rightarrow> crosschain_tx
     \<Rightarrow> b256 \<times> tx_request \<times> 'w \<Rightarrow> bool" where
  "request_of pvs key cli tokens hub tx sent \<longleftrightarrow> (case sent of (signer, req, w) \<Rightarrow> signer = key \<and>
     (case tx of
        RelayTx t fee opts \<Rightarrow> t \<in> set tokens \<and> opts = cl_relay_options cli
          \<and> tq_to req = te_verifier_address t \<and> tq_call req = VerifierCall (VrelayTransferRoot opts) \<and> tq_value req = fee
          \<and> (\<exists>quote lz_fee. quote_relay (pvs (te_rpc_urls t)) (verifier_of t) opts w = Inr (quote, lz_fee)
               \<and> buffered_value quote (cl_relay_fee_buffer_bps cli) fee)
          \<and> gas_price_ok (pvs (te_rpc_urls t)) (te_legacy_tx t) w (tq_gas_price req)
      | BroadcastTx h eids fee opts \<Rightarrow> hub = Some h \<and> opts = cl_broadcast_options cli
          \<and> tq_to req = he_hub_address h \<and> tq_call req = HubCall (Hbroadcast eids opts) \<and> tq_value req = fee
          \<and> (\<exists>quote. quote_broadcast (pvs (he_rpc_urls h)) (hub_of h) eids opts w = Inr quote
               \<and> buffered_value quote (cl_broadcast_fee_buffer_bps cli) fee)
          \<and> gas_price_ok (pvs (he_rpc_urls h)) False w (tq_gas_price req)))"

lemma buffered_value_apply: "buffered_value quote bps (apply_fee_buffer quote bps)"
proof (cases "bps = 0 \<or> 2 ^ 256 \<le> unat quote * (10000 + unat bps)")
  case True
  then show ?thesis
    by (auto simp: buffered_value_def apply_fee_buffer_def)
next
  case False
  define q where "q = saturating_mul quote (10000 + ucast bps) div 10000"
  have "unat q = (unat quote * (10000 + unat bps)) div 10000"
    using False buffered_fee [of quote bps] by (simp add: q_def min_absorb2)
  also have "\<dots> = unat quote + unat quote * unat bps div 10000"
    by (simp add: distrib_left)
  finally have q: "unat q = unat quote + unat quote * unat bps div 10000" .
  have "unat (quote + 1) = unat quote + 1" if "q = quote"
  proof -
    have "unat quote * 10000 \<le> unat quote * (10000 + unat bps)"
      by (rule mult_le_mono2) simp
    also have "\<dots> < 2 ^ 256"
      using False by (simp only: not_le de_Morgan_disj)
    finally have "unat quote + 1 < 2 ^ 256"
      by simp
    then show ?thesis
      by (simp add: unat_word_ariths)
  qed
  moreover have "apply_fee_buffer quote bps = (if q = quote \<and> quote > 0 then quote + 1 else q)"
    using False by (simp add: apply_fee_buffer_def Let_def q_def)
  moreover have "q = quote \<longleftrightarrow> unat quote * unat bps div 10000 = 0"
    using q by (metis add_cancel_right_right word_unat_eq_iff)
  ultimately show ?thesis
    using False q by (auto simp: buffered_value_def word_gt_0)
qed

text \<open>A signed call either changes no record or appends the one request for it.\<close>

lemma recorded_send:
  assumes "send_signed (recorded pv) c key f value (w, reqs) = (r, w', reqs')"
  shows "case r of Inl e \<Rightarrow> reqs' = reqs
    | Inr tx \<Rightarrow> \<exists>gas. reqs' = reqs @ [(key, \<lparr>tq_to = ct_address c, tq_call = f, tq_value = value, tq_gas_price = gas\<rparr>, w)]
        \<and> gas_price_ok pv (ct_legacy_tx c) w gas"
  using assms
  by (auto simp: send_signed_def send_call_with_legacy_def recorded_def gas_price_ok_def res_bind_Inr_iff map_error_def
      split: if_splits sum.splits prod.splits)

text \<open>A transfer that is reported as submitted is one request, to the only token on the chain.\<close>

lemma transfer_run_request:
  assumes "transfer_run parses (recorded \<circ> pvs) args tokens key (w, reqs) = (Inr tx, w', reqs')"
  shows "\<exists>t gas. filter (\<lambda>t. te_chain_id t = ta_chain_id args) tokens = [t]
    \<and> reqs' = reqs @ [(key, \<lparr>tq_to = te_token_address t, tq_call = TokenCall (Ztransfer (ta_to args) (ta_amount args)), tq_value = 0,
        tq_gas_price = gas\<rparr>, w)] \<and> gas_price_ok (pvs (te_rpc_urls t)) (te_legacy_tx t) w gas"
proof -
  have find: "find_token_by_chain tokens cid = Inr t \<longleftrightarrow> filter (\<lambda>t. te_chain_id t = cid) tokens = [t]" for cid t
    by (auto simp: find_token_by_chain_def split: list.splits)
  obtain t where "filter (\<lambda>t. te_chain_id t = ta_chain_id args) tokens = [t]"
    and "transfer (recorded (pvs (te_rpc_urls t))) (with_legacy_tx (te_legacy_tx t) (contract_new (te_token_address t))) key
      (ta_to args) (ta_amount args) (w, reqs) = (Inr tx, w', reqs')"
    using assms by (auto simp: transfer_run_def build_erc20_def res_bind_Inr_iff find split: sum.splits prod.splits if_splits)
  then show ?thesis
    using recorded_send [of "pvs (te_rpc_urls t)" "with_legacy_tx (te_legacy_tx t) (contract_new (te_token_address t))" key
        "TokenCall (Ztransfer (ta_to args) (ta_amount args))" 0 w reqs]
    by (auto simp: transfer_def with_legacy_tx_def contract_new_def)
qed

text \<open>\<open>synced\<close>: the transactions of the job and the accepted requests correspond one to one.\<close>

definition synced ::
  "(string list \<Rightarrow> ('w, 'tx) provider) \<Rightarrow> b256 \<Rightarrow> crosschain_cli \<Rightarrow> token_entry list \<Rightarrow> hub_entry option
     \<Rightarrow> ('w \<times> 'w request_log) crosschain_state \<Rightarrow> bool" where
  "synced pvs key cli tokens hub s \<longleftrightarrow> list_all2 (request_of pvs key cli tokens hub) (snd s) (snd (fst s))"

lemma bound_receipt: "snd (snd (wait_for_receipt (bound_calls parses pvs (recorded_receipt receipt)) tx s)) = snd s"
  by (cases s) (auto simp: wait_for_receipt_def bound_calls_def recorded_receipt_def split: sum.splits prod.splits)

lemma relay_synced:
  assumes "synced pvs key cli tokens hub s" "rl_token job \<in> set tokens" "rl_private_key job = key" "rl_lz_options job = cl_relay_options cli"
    and "rl_fee_buffer_bps job = cl_relay_fee_buffer_bps cli"
    and "relay_execute_once (bound_calls parses (recorded \<circ> pvs) (recorded_receipt receipt)) job s = (r, s')"
  shows "synced pvs key cli tokens hub s'"
proof -
  let ?C = "bound_calls parses (recorded \<circ> pvs) (recorded_receipt receipt)"
  let ?t = "rl_token job"
  obtain w reqs sent where s: "s = ((w, reqs), sent)"
    by (cases s) auto
  have send: "case r of Inl e \<Rightarrow> reqs' = reqs
      | Inr tx \<Rightarrow> list_all2 (request_of pvs key cli tokens hub) (sent @ [RelayTx ?t fee (rl_lz_options job)]) reqs'"
    if sent: "cc_relay_transfer_root ?C ?t (rl_private_key job) fee (rl_lz_options job) (w, reqs) = (r, w', reqs')"
      and "cc_quote_relay ?C ?t (rl_lz_options job) (w, reqs) = Inr (quote, lz)" "fee = apply_fee_buffer quote (rl_fee_buffer_bps job)"
    for fee r w' reqs' quote lz
  proof (cases r)
    case (Inr tx)
    have "quote_relay (pvs (te_rpc_urls ?t)) (verifier_of ?t) (rl_lz_options job) w = Inr (quote, lz)"
      using that(2) by (auto simp: bound_calls_def quote_relay_def call_view_def recorded_def map_error_def split: sum.splits)
    moreover have "buffered_value quote (cl_relay_fee_buffer_bps cli) fee"
      using that(3) assms(5) buffered_value_apply by simp
    moreover obtain gas where "reqs' = reqs @ [(key, \<lparr>tq_to = te_verifier_address ?t, tq_call = VerifierCall (VrelayTransferRoot (rl_lz_options job)),
        tq_value = fee, tq_gas_price = gas\<rparr>, w)]" "gas_price_ok (pvs (te_rpc_urls ?t)) (te_legacy_tx ?t) w gas"
      using sent Inr assms(3) recorded_send [of "pvs (te_rpc_urls ?t)" "verifier_of ?t" key "VerifierCall (VrelayTransferRoot (rl_lz_options job))" fee w reqs]
      by (fastforce simp: bound_calls_def relay_transfer_root_def verifier_of_def with_legacy_tx_def contract_new_def map_error_def
          split: prod.splits sum.splits)
    ultimately show ?thesis
      using Inr assms(1,2,4) s by (auto simp: synced_def request_of_def intro!: list_all2_appendI)
  next
    case (Inl e)
    then show ?thesis
      using sent assms(3) recorded_send [of "pvs (te_rpc_urls ?t)" "verifier_of ?t" key "VerifierCall (VrelayTransferRoot (rl_lz_options job))" fee w reqs]
      by (fastforce simp: bound_calls_def relay_transfer_root_def map_error_def split: prod.splits sum.splits)
  qed
  have wait: "snd (snd (wait_for_receipt ?C tx x)) = snd x" for tx x
    by (rule bound_receipt)
  consider "s' = s"
    | fee quote lz q w' reqs' where "cc_relay_transfer_root ?C ?t (rl_private_key job) fee (rl_lz_options job) (w, reqs) = (Inl q, w', reqs')"
      "cc_quote_relay ?C ?t (rl_lz_options job) (w, reqs) = Inr (quote, lz)" "fee = apply_fee_buffer quote (rl_fee_buffer_bps job)"
      "s' = ((w', reqs'), sent)"
    | fee quote lz tx w' reqs' x where "cc_relay_transfer_root ?C ?t (rl_private_key job) fee (rl_lz_options job) (w, reqs) = (Inr tx, w', reqs')"
      "cc_quote_relay ?C ?t (rl_lz_options job) (w, reqs) = Inr (quote, lz)" "fee = apply_fee_buffer quote (rl_fee_buffer_bps job)"
      "wait_for_receipt ?C tx (w', reqs') = x" "s' = (snd x, sent @ [RelayTx ?t fee (rl_lz_options job)])"
    using assms(6) unfolding s relay_execute_once_def Let_def
    by (fastforce split: sum.splits prod.splits bool.splits)
  then show ?thesis
  proof cases
    case 1
    then show ?thesis
      using assms(1) by simp
  next
    case 2
    then show ?thesis
      using send [OF 2(1-3)] assms(1) s by (simp add: synced_def)
  next
    case 3
    then show ?thesis
      using send [OF 3(1-3)] wait [of tx "(w', reqs')"] by (auto simp: synced_def)
  qed
qed

lemma broadcast_synced:
  assumes "synced pvs key cli tokens hub s" "hub = Some (bj_hub job)" "bj_private_key job = key" "bj_lz_options job = cl_broadcast_options cli"
    and "bj_fee_buffer_bps job = cl_broadcast_fee_buffer_bps cli"
    and "broadcast_execute_once (bound_calls parses (recorded \<circ> pvs) (recorded_receipt receipt)) job s = (r, s')"
  shows "synced pvs key cli tokens hub s'"
proof -
  let ?C = "bound_calls parses (recorded \<circ> pvs) (recorded_receipt receipt)"
  let ?tx = "\<lambda>fee. BroadcastTx (bj_hub job) (bj_target_eids job) fee (bj_lz_options job)"
  let ?send = "\<lambda>fee. cc_broadcast ?C (bj_hub job) (bj_private_key job) (bj_target_eids job) (bj_lz_options job) fee"
  obtain w reqs sent where s: "s = ((w, reqs), sent)"
    by (cases s) auto
  have send: "case r of Inl e \<Rightarrow> reqs' = reqs | Inr tx \<Rightarrow> list_all2 (request_of pvs key cli tokens hub) (sent @ [?tx fee]) reqs'"
    if sent: "?send fee (w, reqs) = (r, w', reqs')"
      and "cc_quote_broadcast ?C (bj_hub job) (bj_target_eids job) (bj_lz_options job) (w, reqs) = Inr quote"
        "fee = apply_fee_buffer quote (bj_fee_buffer_bps job)" for fee r w' reqs' quote
  proof (cases r)
    case (Inr tx)
    have "quote_broadcast (pvs (he_rpc_urls (bj_hub job))) (hub_of (bj_hub job)) (bj_target_eids job) (bj_lz_options job) w = Inr quote"
      using that(2) by (auto simp: bound_calls_def quote_broadcast_def call_view_def recorded_def map_error_def split: sum.splits)
    moreover have "buffered_value quote (cl_broadcast_fee_buffer_bps cli) fee"
      using that(3) assms(5) buffered_value_apply by simp
    moreover obtain gas where "reqs' = reqs @ [(key, \<lparr>tq_to = he_hub_address (bj_hub job),
        tq_call = HubCall (Hbroadcast (bj_target_eids job) (bj_lz_options job)), tq_value = fee, tq_gas_price = gas\<rparr>, w)]"
        "gas_price_ok (pvs (he_rpc_urls (bj_hub job))) False w gas"
      using sent Inr assms(3) recorded_send [of "pvs (he_rpc_urls (bj_hub job))" "hub_of (bj_hub job)" key
          "HubCall (Hbroadcast (bj_target_eids job) (bj_lz_options job))" fee w reqs]
      by (fastforce simp: bound_calls_def hub_broadcast_def hub_of_def contract_new_def map_error_def split: prod.splits sum.splits)
    ultimately show ?thesis
      using Inr assms(1,2,4) s by (auto simp: synced_def request_of_def intro!: list_all2_appendI)
  next
    case (Inl e)
    then show ?thesis
      using sent assms(3) recorded_send [of "pvs (he_rpc_urls (bj_hub job))" "hub_of (bj_hub job)" key
          "HubCall (Hbroadcast (bj_target_eids job) (bj_lz_options job))" fee w reqs]
      by (fastforce simp: bound_calls_def hub_broadcast_def map_error_def split: prod.splits sum.splits)
  qed
  have wait: "snd (snd (wait_for_receipt ?C tx x)) = snd x" for tx x
    by (rule bound_receipt)
  consider "s' = s"
    | fee quote q w' reqs' where "?send fee (w, reqs) = (Inl q, w', reqs')"
      "cc_quote_broadcast ?C (bj_hub job) (bj_target_eids job) (bj_lz_options job) (w, reqs) = Inr quote"
      "fee = apply_fee_buffer quote (bj_fee_buffer_bps job)" "s' = ((w', reqs'), sent)"
    | fee quote tx w' reqs' x where "?send fee (w, reqs) = (Inr tx, w', reqs')"
      "cc_quote_broadcast ?C (bj_hub job) (bj_target_eids job) (bj_lz_options job) (w, reqs) = Inr quote"
      "fee = apply_fee_buffer quote (bj_fee_buffer_bps job)" "wait_for_receipt ?C tx (w', reqs') = x" "s' = (snd x, sent @ [?tx fee])"
    using assms(6) unfolding s broadcast_execute_once_def Let_def
    by (fastforce split: sum.splits prod.splits bool.splits if_splits)
  then show ?thesis
  proof cases
    case 1
    then show ?thesis
      using assms(1) by simp
  next
    case 2
    then show ?thesis
      using send [OF 2(1-3)] assms(1) s by (simp add: synced_def)
  next
    case 3
    then show ?thesis
      using send [OF 3(1-3)] wait [of tx "(w', reqs')"] by (auto simp: synced_def)
  qed
qed

lemma run_relay_jobs_synced:
  assumes C: "C = bound_calls parses (recorded \<circ> pvs) (recorded_receipt receipt)"
    and "synced pvs key cli tokens hub s" "\<forall>job \<in> set jobs. rl_token job \<in> set tokens \<and> rl_private_key job = key \<and> rl_lz_options job = cl_relay_options cli
        \<and> rl_fee_buffer_bps job = cl_relay_fee_buffer_bps cli"
    and "run_relay_jobs C jobs s = (r, s')"
  shows "synced pvs key cli tokens hub s'"
  using assms(2-4)
proof (induction jobs arbitrary: s)
  case (Cons job jobs)
  obtain r1 s1 where step: "relay_execute_once C job s = (r1, s1)"
    by (cases "relay_execute_once C job s") auto
  then have "synced pvs key cli tokens hub s1"
    using Cons.prems(1,2) C by (intro relay_synced [OF _ _ _ _ _ step [unfolded C]]) auto
  then show ?case
    using Cons.IH [of s1] Cons.prems(2,3) step by (cases r1) auto
qed simp

lemma crosschain_setup_jobs:
  assumes "crosschain_setup json unhex C cli contents w = Inr (jobs, bjob)" "load_tokens_config json contents = Inr (tokens, hub)"
    and "parse_private_key unhex (cl_relay_private_key cli) = Inr key"
  shows "\<forall>job \<in> set jobs. rl_token job \<in> set tokens \<and> rl_private_key job = key \<and> rl_lz_options job = cl_relay_options cli
      \<and> rl_fee_buffer_bps job = cl_relay_fee_buffer_bps cli"
    and "\<forall>job. bjob = Some job \<longrightarrow> hub = Some (bj_hub job) \<and> bj_private_key job = key \<and> bj_lz_options job = cl_broadcast_options cli
      \<and> bj_fee_buffer_bps job = cl_broadcast_fee_buffer_bps cli"
proof -
  have jobs: "res_map (build_relay_job C cli key) tokens = Inr jobs" and bjob: "build_broadcast_job C cli key tokens hub w = Inr bjob"
    using assms by (auto simp: crosschain_setup_def res_bind_Inr_iff Let_def split: sum.splits)
  show "\<forall>job \<in> set jobs. rl_token job \<in> set tokens \<and> rl_private_key job = key \<and> rl_lz_options job = cl_relay_options cli
      \<and> rl_fee_buffer_bps job = cl_relay_fee_buffer_bps cli"
    using jobs by (induction tokens arbitrary: jobs) (auto simp: build_relay_job_def res_bind_Inr_iff)
  show "\<forall>job. bjob = Some job \<longrightarrow> hub = Some (bj_hub job) \<and> bj_private_key job = key \<and> bj_lz_options job = cl_broadcast_options cli
      \<and> bj_fee_buffer_bps job = cl_broadcast_fee_buffer_bps cli"
    using bjob by (auto simp: build_broadcast_job_def res_bind_Inr_iff split: option.splits)
qed


definition sample_provider :: "(unit, nat) provider" where
  "sample_provider = \<lparr>
     pv_valid_key = (\<lambda>_. True),
     pv_call = (\<lambda>a f w. case f of
        VerifierCall VisUpToDate \<Rightarrow> Inr (BoolValue False) | VerifierCall (VquoteRelay _) \<Rightarrow> Inr (FeeValue 50 0)
      | HubCall HisUpToDate \<Rightarrow> Inr (BoolValue True)
      | HubCall (HtokenInfos _) \<Rightarrow> Inr (TokenInfoValue \<lparr>ht_chain_id = 1, ht_eid = 30101, ht_verifier = 1, ht_token = 1\<rparr>)
      | _ \<Rightarrow> Inl ''unknown''),
     pv_gas_price = (\<lambda>_. Inr 3), pv_send = (\<lambda>_ _ w. (Inr 0, w)), pv_block_number = (\<lambda>_. Inr 0),
     pv_indexed_transfers = (\<lambda>_ _ _ _. Inr []), pv_teleports = (\<lambda>_ _ _ _. Inr []), pv_aggregations = (\<lambda>_ _ _ _. Inr [])\<rparr>"

definition sample_bound :: "(unit \<times> unit request_log, nat) crosschain_calls" where
  "sample_bound = bound_calls (\<lambda>_. True) (recorded \<circ> (\<lambda>_. sample_provider)) (recorded_receipt (\<lambda>_ w. (Inr True, w)))"

lemmas sample_bound_simps = sample_bound_def bound_calls_def recorded_def recorded_receipt_def call_view_def sample_provider_def

lemma sample_relay_run:
  "\<exists>reqs' txs. run_relay_jobs sample_bound jobs (((), reqs), sent) = (Inr (), ((), reqs'), sent @ txs) \<and> length txs = length jobs"
proof (induction jobs arbitrary: reqs sent)
  case (Cons job jobs)
  have "\<exists>fee reqs'. relay_execute_once sample_bound job (((), reqs), sent)
      = (Inr (), ((), reqs'), sent @ [RelayTx (rl_token job) fee (rl_lz_options job)])"
    by (simp add: relay_execute_once_def sample_bound_simps verifier_is_up_to_date_def quote_relay_def
        relay_transfer_root_def send_signed_def send_call_with_legacy_def wait_for_receipt_def Let_def)
  then obtain fee reqs' where step: "relay_execute_once sample_bound job (((), reqs), sent)
      = (Inr (), ((), reqs'), sent @ [RelayTx (rl_token job) fee (rl_lz_options job)])"
    by blast
  show ?case
    using Cons.IH [of reqs' "sent @ [RelayTx (rl_token job) fee (rl_lz_options job)]"] by (auto simp: step)
qed simp

lemma sample_broadcast_run: "broadcast_execute_once sample_bound job s = (Inr (), s)"
  by (cases s) (auto simp: broadcast_execute_once_def sample_bound_simps hub_is_up_to_date_def)

lemma sample_setup_run:
  "\<exists>jobs bjob. crosschain_setup (\<lambda>_. Some \<lparr>tf_hub = Some sample_hub, tf_tokens = sample_tokens\<rparr>) (\<lambda>_. Some (replicate 32 1))
     sample_bound sample_cli (Some []) s = Inr (jobs, bjob) \<and> length jobs = 2"
  unfolding crosschain_setup_def sample_loads
  by (simp add: sample_cli_def ensure_def parse_private_key_def build_relay_job_def build_broadcast_job_def build_provider_def
      sample_tokens_def sample_hub_def sample_bound_simps hub_token_info_at_def provider_urls_ok_def Let_def)


end
