(* ===== verification/Indexer_Program.thy ===== *)
theory Indexer_Program
  imports Indexer_Main Contract_Props
begin

text \<open>
  The indexer program (\<open>indexer/src/main.rs\<close>): its settings, the jobs built from them
  (\<open>into_job\<close> of \<open>indexer/src/jobs/event.rs\<close>, \<open>tree.rs\<close> and \<open>root.rs\<close>), the contract clients
  the jobs call, the \<open>--once\<close> mode and the timing of the endless loops.

  A node answers a call in the state the chain has when the call is made; these states are
  parameters. The artefacts are files given by their contents, and the folding library, the
  HTTP client of the decider and the database connection are parameters.
\<close>

section \<open>Calls of the jobs through the contract clients\<close>

fun root_of_contract :: "contract_error \<Rightarrow> root_error" where
  "root_of_contract ContractPanic = RootPanic"
| "root_of_contract e = RootCall (contract_error_text e)"

record 'l tx_receipt =
  tr_status :: bool
  tr_logs :: "'l list"

definition root_wait_for_receipt ::
  "('tx \<Rightarrow> 'w \<Rightarrow> (string + 'l tx_receipt) \<times> 'w) \<Rightarrow> 'tx \<Rightarrow> 'w \<Rightarrow> (root_error + 'l tx_receipt) \<times> 'w" where
  "root_wait_for_receipt get_receipt pending w =
     (case get_receipt pending w of
        (Inl _, w') \<Rightarrow> (Inl (RootCall ''failed to fetch transaction receipt''), w')
      | (Inr receipt, w') \<Rightarrow>
          (if tr_status receipt then (Inr receipt, w') else (Inl (RootCall ''transaction reverted''), w')))"

definition job_reserve_hash_chain ::
  "('w, 'tx) provider \<Rightarrow> ('tx \<Rightarrow> 'w \<Rightarrow> (string + 'l tx_receipt) \<times> 'w) \<Rightarrow> ('l \<Rightarrow> (u64 \<times> u256) option) \<Rightarrow> b256 \<Rightarrow> contract \<Rightarrow> 'w
     \<Rightarrow> (root_error + nat \<times> u256) \<times> 'w" where
  "job_reserve_hash_chain pv get_receipt decode key verifier w =
     (case reserve_hash_chain pv verifier key w of
        (Inl e, w1) \<Rightarrow> (Inl (root_of_contract e), w1)
      | (Inr pending, w1) \<Rightarrow>
          (case root_wait_for_receipt get_receipt pending w1 of
             (Inl e, w2) \<Rightarrow> (Inl e, w2)
           | (Inr receipt, w2) \<Rightarrow>
               (case parse_hash_chain_reserved decode (tr_logs receipt) of
                  Inl _ \<Rightarrow> (Inl (RootCall ''failed to parse HashChainReserved event''), w2)
                | Inr (index, chain) \<Rightarrow> (Inr (unat index, chain), w2))))"

definition submit_transfer_root ::
  "('w, 'tx) provider \<Rightarrow> ('tx \<Rightarrow> 'w \<Rightarrow> (string + 'l tx_receipt) \<times> 'w) \<Rightarrow> b256 \<Rightarrow> contract \<Rightarrow> bytes \<Rightarrow> 'w
     \<Rightarrow> (root_error + 'l tx_receipt) \<times> 'w" where
  "submit_transfer_root pv get_receipt key verifier decider_proof w =
     (case prove_transfer_root pv verifier key decider_proof w of
        (Inl e, w1) \<Rightarrow> (Inl (root_of_contract e), w1)
      | (Inr pending, w1) \<Rightarrow> root_wait_for_receipt get_receipt pending w1)"

section \<open>The jobs\<close>

datatype main_error =
    MainConfig config_error
  | MainError string
  | MainNova nova_error
  | MainPanic

text \<open>The provider of a token; without any address the fallback transport cannot be built, which panics.\<close>

definition token_provider :: "(string \<Rightarrow> bool) \<Rightarrow> token_entry \<Rightarrow> main_error + unit" where
  "token_provider parses t =
     (if te_rpc_urls t = [] then Inl MainPanic
      else if provider_urls_ok parses (te_rpc_urls t) then Inr () else Inl (MainError ''failed to build provider''))"

definition token_client :: "token_entry \<Rightarrow> contract" where
  "token_client t = with_legacy_tx (te_legacy_tx t) (contract_new (te_token_address t))"

text \<open>The entry in a context stands for its label, its metadata and the block of deployment.\<close>

record event_token_context =
  ec_token :: token_entry
  ec_contract :: contract
  ec_lock_key :: int

record event_sync_job =
  sj_tokens :: "event_token_context list"
  sj_interval_ms :: nat
  sj_indexer_config :: indexer_config

definition event_into_job :: "(string \<Rightarrow> bool) \<Rightarrow> default_hasher \<Rightarrow> event_job_config \<Rightarrow> token_entry list \<Rightarrow> main_error + event_sync_job" where
  "event_into_job parses hasher job_config tokens =
     res_bind (map_error MainConfig (build_indexer_config job_config)) (\<lambda>indexer_config.
     res_bind (res_map (\<lambda>t. res_bind (token_provider parses t) (\<lambda>_.
        Inr \<lparr>ec_token = t, ec_contract = token_client t, ec_lock_key = lock_key_with_salt hasher t EVENT_LOCK_SALT\<rparr>)) tokens) (\<lambda>contexts.
     Inr \<lparr>sj_tokens = contexts, sj_interval_ms = ej_interval_ms job_config, sj_indexer_config = indexer_config\<rparr>))"

record tree_token_context =
  tx_token :: token_entry
  tx_lock_key :: int

record tree_ingestion_job =
  ti_tokens :: "tree_token_context list"
  ti_config :: tree_job_config

definition build_tree_config :: "tree_job_config \<Rightarrow> main_error + nat" where
  "build_tree_config c = map_error (\<lambda>_. MainError ''failed to construct DbMerkleTreeConfig'') (db_config_new (tj_history_window c))"

definition tree_into_job :: "default_hasher \<Rightarrow> tree_job_config \<Rightarrow> token_entry list \<Rightarrow> main_error + tree_ingestion_job" where
  "tree_into_job hasher job_config tokens =
     res_bind (build_tree_config job_config) (\<lambda>_.
     Inr \<lparr>ti_tokens = map (\<lambda>t. \<lparr>tx_token = t, tx_lock_key = lock_key_with_salt hasher t TREE_LOCK_SALT\<rparr>) tokens,
          ti_config = job_config\<rparr>)"

subsection \<open>The root prover job\<close>

definition load_root_nova_params ::
  "('pp, 'vp, 'n, 'i, root_external_inputs) folding_lib \<Rightarrow> (string \<Rightarrow> bytes option) \<Rightarrow> string \<Rightarrow> main_error + ('pp, 'vp) nova_params" where
  "load_root_nova_params L read artifacts_dir =
     res_bind (ok_or (MainError ''failed to read root_nova_pp.bin'') (read (path_join artifacts_dir ''root_nova_pp.bin''))) (\<lambda>pp_bytes.
     res_bind (ok_or (MainError ''failed to read root_nova_vp.bin'') (read (path_join artifacts_dir ''root_nova_vp.bin''))) (\<lambda>vp_bytes.
     map_error MainNova (nova_from_bytes L pp_bytes vp_bytes)))"

text \<open>The operations of the job on instances of these parameters (\<open>zkp/src/nova/params.rs\<close>).\<close>

fun nova_error_text :: "nova_error \<Rightarrow> string" where
  "nova_error_text (NovaDeserialization s) = s"
| "nova_error_text (NovaSerialization s) = s"
| "nova_error_text (NovaInitialization s) = s"
| "nova_error_text (NovaVerification s) = s"
| "nova_error_text (NovaPreprocess s) = s"
| "nova_error_text (NovaDeciderProof s) = s"

definition root_nova ::
  "('pp, 'vp, 'n, 'i, root_external_inputs) folding_lib \<Rightarrow> (bytes \<Rightarrow> string + 'i) \<Rightarrow> ('pp, 'vp) nova_params \<Rightarrow> ('n, 'i) nova_ops" where
  "root_nova L deserialize params = \<lparr>
     nv_init = (\<lambda>z0. map_error nova_error_text (initial_nova L params z0)),
     nv_prove_step = fl_prove_step L,
     nv_state = fl_state L,
     nv_ivc_proof = fl_ivc_proof L,
     nv_verify = (\<lambda>i. map_error nova_error_text (nova_verify L params i)),
     nv_from_ivc = (\<lambda>i. map_error nova_error_text (nova_from_ivc_proof L params i)),
     nv_serialize = fl_ivc_serialize L,
     nv_deserialize = deserialize\<rparr>"

type_synonym decider_client = "bytes \<Rightarrow> string + bytes"

record root_token_context =
  rt_token :: token_entry
  rt_token_contract :: contract
  rt_verifier_contract :: contract
  rt_lock_key :: int

record ('pp, 'vp) root_prover_job =
  rpj_tokens :: "root_token_context list"
  rpj_config :: root_job_config
  rpj_compile_interval :: nat
  rpj_submit_interval :: nat
  rpj_nova_params :: "('pp, 'vp) nova_params"
  rpj_prover :: decider_client
  rpj_submitter_private_key :: b256

record 'url root_job_builder =
  rb_root_config :: "'url root_settings"
  rb_tokens :: "token_entry list"
  rb_prover_override :: "decider_client option"
  rb_submission_enabled :: bool

definition root_builder_new :: "'url root_settings \<Rightarrow> token_entry list \<Rightarrow> 'url root_job_builder" where
  "root_builder_new cfg tokens = \<lparr>rb_root_config = cfg, rb_tokens = tokens, rb_prover_override = None, rb_submission_enabled = True\<rparr>"

definition with_prover :: "decider_client \<Rightarrow> 'url root_job_builder \<Rightarrow> 'url root_job_builder" where
  "with_prover prover b = b\<lparr>rb_prover_override := Some prover\<rparr>"

definition with_submission_enabled :: "bool \<Rightarrow> 'url root_job_builder \<Rightarrow> 'url root_job_builder" where
  "with_submission_enabled enabled b = b\<lparr>rb_submission_enabled := enabled\<rparr>"

text \<open>\<open>http_client\<close> builds the HTTP client of the decider from the address, the poll interval and the timeout.\<close>

definition root_into_job ::
  "(string \<Rightarrow> bool) \<Rightarrow> default_hasher \<Rightarrow> ('pp, 'vp, 'n, 'i, root_external_inputs) folding_lib \<Rightarrow> (string \<Rightarrow> bytes option)
     \<Rightarrow> ('url \<Rightarrow> nat \<Rightarrow> nat \<Rightarrow> string + decider_client) \<Rightarrow> 'url root_job_builder \<Rightarrow> main_error + ('pp, 'vp) root_prover_job" where
  "root_into_job parses hasher L read http_client b =
     (let cfg = rb_root_config b in
     res_bind (res_map (\<lambda>t. res_bind (token_provider parses t) (\<lambda>_.
        Inr \<lparr>rt_token = t, rt_token_contract = token_client t, rt_verifier_contract = verifier_of t,
             rt_lock_key = lock_key_with_salt hasher t ROOT_LOCK_SALT\<rparr>)) (rb_tokens b)) (\<lambda>contexts.
     res_bind (load_root_nova_params L read (rs_artifacts_dir cfg)) (\<lambda>nova_params.
     res_bind (case rb_prover_override b of
                 Some custom \<Rightarrow> Inr custom
               | None \<Rightarrow> map_error MainError
                   (http_client (rs_prover_url cfg) (rs_prover_poll_interval_ms cfg) (1000 * rs_prover_timeout_secs cfg))) (\<lambda>prover.
     Inr \<lparr>rpj_tokens = contexts,
          rpj_config = \<lparr>rj_history_window = rs_history_window cfg, rj_submit_enabled = rb_submission_enabled b\<rparr>,
          rpj_compile_interval = rs_interval_ms cfg, rpj_submit_interval = rs_submit_interval_ms cfg,
          rpj_nova_params = nova_params, rpj_prover = prover, rpj_submitter_private_key = rs_submitter_private_key cfg\<rparr>))))"

section \<open>The program\<close>

text \<open>The states of the chain in which the calls about a token are answered in one round of the jobs.\<close>

record 'w call_states =
  cs_event :: 'w
  cs_index :: 'w
  cs_proved :: 'w
  cs_reserve :: 'w
  cs_prove :: 'w

definition contract_chain :: "('w, 'tx) provider \<Rightarrow> contract \<Rightarrow> 'w \<Rightarrow> token_chain" where
  "contract_chain pv c w = \<lparr>
     tc_latest_block = map_error (\<lambda>_. EvContract ''latest_block'') (latest_block pv w),
     tc_index = res_bind (map_error (\<lambda>_. EvContract ''index'') (token_index pv c w)) (\<lambda>i. Inr (unat i)),
     tc_get_events = (\<lambda>a b. map_error (\<lambda>_. EvContract ''get_indexed_transfer_events'') (get_indexed_transfer_events pv c a b w))\<rparr>"

text \<open>The receipt is that of the transaction which was sent in the same state.\<close>

definition contract_root_calls ::
  "('w, 'tx) provider \<Rightarrow> ('tx \<Rightarrow> 'w \<Rightarrow> (string + 'l tx_receipt) \<times> 'w) \<Rightarrow> ('l \<Rightarrow> (u64 \<times> u256) option) \<Rightarrow> decider_client \<Rightarrow> b256
     \<Rightarrow> token_entry \<Rightarrow> 'w call_states \<Rightarrow> root_calls" where
  "contract_root_calls pv get_receipt decode prover key t s = \<lparr>
     rc_index = res_bind (map_error contract_error_text (token_index pv (token_client t) (cs_index s))) (\<lambda>i. Inr (unat i)),
     rc_latest_proved = res_bind (map_error contract_error_text (latest_proved_index pv (verifier_of t) (cs_proved s))) (\<lambda>i. Inr (unat i)),
     rc_reserve = fst (job_reserve_hash_chain pv get_receipt decode key (verifier_of t) (cs_reserve s)),
     rc_decider = prover,
     rc_prove_root = (\<lambda>p. res_bind (map_error root_of_contract (fst (prove_transfer_root pv (verifier_of t) key p (cs_prove s)))) (\<lambda>_. Inr ())),
     rc_prove_receipt = (\<lambda>p. res_bind (fst (submit_transfer_root pv get_receipt key (verifier_of t) p (cs_prove s))) (\<lambda>_. Inr ()))\<rparr>"

text \<open>What the program runs in.\<close>

record ('w, 'tx, 'l, 'pp, 'vp, 'n, 'i, 'url) indexer_env =
  ie_vars :: env_vars
  ie_is_sync :: "string option"
  ie_workspace :: string
  ie_read_text :: "string \<Rightarrow> string option"
  ie_read :: "string \<Rightarrow> bytes option"
  ie_json :: "string \<Rightarrow> tokens_file option"
  ie_unhex :: "string \<Rightarrow> bytes option"
  ie_parse_url :: "string \<Rightarrow> 'url option"
  ie_rpc_parses :: "string \<Rightarrow> bool"
  ie_connect :: "string \<Rightarrow> nat \<Rightarrow> bool"
  ie_http_client :: "'url \<Rightarrow> nat \<Rightarrow> nat \<Rightarrow> string + decider_client"
  ie_folding :: "('pp, 'vp, 'n, 'i, root_external_inputs) folding_lib"
  ie_ivc_deserialize :: "bytes \<Rightarrow> string + 'i"
  ie_providers :: "string list \<Rightarrow> ('w, 'tx) provider"
  ie_receipt :: "'tx \<Rightarrow> 'w \<Rightarrow> (string + 'l tx_receipt) \<times> 'w"
  ie_decode_reserved :: "'l \<Rightarrow> (u64 \<times> u256) option"
  ie_states :: "token_entry \<Rightarrow> 'w call_states"

record indexer_cli =
  ic_tokens :: string
  ic_max_connections :: nat
  ic_once :: bool
  ic_listen_addr :: string

definition to_ascii_lowercase :: "char \<Rightarrow> char" where
  "to_ascii_lowercase c = (if 65 \<le> (of_char c :: nat) \<and> of_char c \<le> (90 :: nat) then char_of ((of_char c :: nat) + 32) else c)"

definition run_sync :: "string option \<Rightarrow> bool" where
  "run_sync v = (case v of Some value \<Rightarrow> map to_ascii_lowercase value = ''true'' | None \<Rightarrow> False)"

text \<open>The program either runs the jobs once or serves requests, with the jobs beside the server or without.\<close>

datatype main_outcome =
    RanOnce "(indexer_db \<times> root_db) option"
  | Serving bool

definition indexer_main ::
  "('w, 'tx, 'l, 'pp, 'vp, 'n, 'i, 'url) indexer_env \<Rightarrow> (fr \<Rightarrow> fr \<Rightarrow> fr) \<Rightarrow> (bytes \<Rightarrow> bytes) \<Rightarrow> default_hasher \<Rightarrow> job_times \<Rightarrow> indexer_cli
     \<Rightarrow> indexer_db \<times> root_db \<Rightarrow> main_error + main_outcome" where
  "indexer_main E H sha hasher jt cli w =
     res_bind (map_error MainConfig (indexer_config_load (ie_json E) (ie_unhex E) (ie_parse_url E) (ie_workspace E) (ie_vars E)
        (ie_read_text E (ic_tokens cli)))) (\<lambda>config.
     res_bind (if ie_connect E (is_database_url config) (ic_max_connections cli) then Inr ()
        else Inl (MainError ''failed to connect to postgres'')) (\<lambda>_.
     res_bind (event_into_job (ie_rpc_parses E) hasher (is_event_indexer config) (is_tokens config)) (\<lambda>event_job.
     res_bind (tree_into_job hasher (is_tree config) (is_tokens config)) (\<lambda>tree_job.
     res_bind (build_tree_config (is_tree config)) (\<lambda>tree_config.
     res_bind (root_into_job (ie_rpc_parses E) hasher (ie_folding E) (ie_read E) (ie_http_client E)
        (root_builder_new (is_root config) (is_tokens config))) (\<lambda>root_job.
     if ic_once cli then
       Inr (RanOnce (main_once (root_nova (ie_folding E) (ie_ivc_deserialize E) (rpj_nova_params root_job))
         (\<lambda>t. contract_chain (ie_providers E (te_rpc_urls t)) (token_client t) (cs_event (ie_states E t)))
         (\<lambda>t. contract_root_calls (ie_providers E (te_rpc_urls t)) (ie_receipt E) (ie_decode_reserved E) (rpj_prover root_job)
                (rpj_submitter_private_key root_job) t (ie_states E t))
         (sj_indexer_config event_job) (ti_config tree_job) (rpj_config root_job) H sha hasher jt
         (map rt_token (rpj_tokens root_job)) (run_sync (ie_is_sync E)) w))
     else Inr (Serving (run_sync (ie_is_sync E)))))))))"

text \<open>When the program serves, the first of the server and the jobs to end decides its result.\<close>

definition handle_job_exit :: "string \<Rightarrow> string + (string + unit) \<Rightarrow> main_error + unit" where
  "handle_job_exit name result =
     (case result of
        Inr inner \<Rightarrow> map_error (\<lambda>_. MainError (name @ '' job exited with an error'')) inner
      | Inl join_err \<Rightarrow> Inl (MainError join_err))"

section \<open>Building the jobs\<close>

lemma res_map_Inr_map: "(\<forall>x \<in> set xs. f x = Inr (g x)) \<Longrightarrow> res_map f xs = Inr (map g xs)"
  by (induction xs) auto

definition rpc_ok :: "(string \<Rightarrow> bool) \<Rightarrow> token_entry list \<Rightarrow> bool" where
  "rpc_ok parses tokens \<longleftrightarrow> (\<forall>t \<in> set tokens. te_rpc_urls t \<noteq> [] \<and> list_all parses (te_rpc_urls t))"

lemma rpc_ok_provider: "rpc_ok parses tokens \<Longrightarrow> t \<in> set tokens \<Longrightarrow> token_provider parses t = Inr ()"
  by (cases "te_rpc_urls t") (auto simp: rpc_ok_def token_provider_def provider_urls_ok_def)

lemma event_into_job_ok:
  assumes "rpc_ok parses tokens" "build_indexer_config cfg = Inr ecfg"
  shows "\<exists>job. event_into_job parses hasher cfg tokens = Inr job \<and> sj_indexer_config job = ecfg
    \<and> map ec_token (sj_tokens job) = tokens \<and> map ec_contract (sj_tokens job) = map token_client tokens"
  using rpc_ok_provider [OF assms(1)] assms(2)
  by (simp add: event_into_job_def res_map_Inr_map [where g = "\<lambda>t. \<lparr>ec_token = t, ec_contract = token_client t,
        ec_lock_key = lock_key_with_salt hasher t EVENT_LOCK_SALT\<rparr>"] comp_def)

lemma tree_into_job_ok:
  "tree_config_ensure_valid cfg = Inr () \<Longrightarrow> \<exists>job w. tree_into_job hasher cfg tokens = Inr job \<and> ti_config job = cfg
    \<and> map tx_token (ti_tokens job) = tokens \<and> build_tree_config cfg = Inr w"
  by (auto simp: tree_into_job_def build_tree_config_def tree_config_ensure_valid_def comp_def split: if_splits sum.splits)

lemma root_into_job_ok:
  assumes "rpc_ok parses tokens" "load_root_nova_params L read (rs_artifacts_dir cfg) = Inr params"
    and "http_client (rs_prover_url cfg) (rs_prover_poll_interval_ms cfg) (1000 * rs_prover_timeout_secs cfg) = Inr prover"
  shows "\<exists>job. root_into_job parses hasher L read http_client (root_builder_new cfg tokens) = Inr job
    \<and> map rt_token (rpj_tokens job) = tokens \<and> rpj_nova_params job = params \<and> rpj_prover job = prover
    \<and> rpj_submitter_private_key job = rs_submitter_private_key cfg
    \<and> rpj_config job = \<lparr>rj_history_window = rs_history_window cfg, rj_submit_enabled = True\<rparr>"
  using rpc_ok_provider [OF assms(1)] assms(2,3)
  by (simp add: root_into_job_def root_builder_new_def Let_def res_map_Inr_map [where g = "\<lambda>t. \<lparr>rt_token = t,
        rt_token_contract = token_client t, rt_verifier_contract = verifier_of t,
        rt_lock_key = lock_key_with_salt hasher t ROOT_LOCK_SALT\<rparr>"] comp_def)

end
