(* ===== verification/Artifacts.thy ===== *)
theory Artifacts
  imports Indexer_Program Decider
begin

text \<open>
  The circuit artefacts: the generator \<open>zkp/src/bin/generate_circuit_artifacts.rs\<close> writes the
  keys of all circuits into a directory of the workspace, and the programs read them: the indexer
  (\<open>load_root_nova_params\<close>), the decider (\<open>decider-prover/src/circuits.rs\<close>, \<open>config.rs\<close>,
  \<open>main.rs\<close>) and the command line (\<open>cli/src/proof/batch.rs\<close>, \<open>single.rs\<close>). Whatever a successful
  run of the generator has written, all of them load.

  Files are a map from paths to contents. Creating a directory and writing a file can fail; a
  write that fails may leave anything under its path. Set-up draws from a random generator with
  a fixed seed: \<open>fl_preprocess\<close> and \<open>dl_preprocess\<close> are what the libraries return for these draws.
\<close>

section \<open>Strings of the standard library\<close>

text \<open>A Rust string is the list of its bytes where only its bytes matter; the names are ASCII.\<close>

definition ascii_bytes :: "string \<Rightarrow> bytes" where
  "ascii_bytes s = map of_char s"

definition is_continuation :: "nat \<Rightarrow> bool" where
  "is_continuation b \<longleftrightarrow> 0x80 \<le> b \<and> b \<le> 0xBF"

text \<open>\<open>String::from_utf8\<close> accepts exactly the well-formed byte sequences.\<close>

fun valid_utf8 :: "nat list \<Rightarrow> bool" where
  "valid_utf8 [] \<longleftrightarrow> True"
| "valid_utf8 (a # r) \<longleftrightarrow>
     (if a < 0x80 then valid_utf8 r
      else if 0xC2 \<le> a \<and> a \<le> 0xDF then
        (case r of b # r1 \<Rightarrow> is_continuation b \<and> valid_utf8 r1 | [] \<Rightarrow> False)
      else if 0xE0 \<le> a \<and> a \<le> 0xEF then
        (case r of
           b # c # r2 \<Rightarrow> is_continuation b \<and> (a = 0xE0 \<longrightarrow> 0xA0 \<le> b) \<and> (a = 0xED \<longrightarrow> b \<le> 0x9F) \<and> is_continuation c \<and> valid_utf8 r2
         | _ \<Rightarrow> False)
      else if 0xF0 \<le> a \<and> a \<le> 0xF4 then
        (case r of
           b # c # d # r3 \<Rightarrow> is_continuation b \<and> (a = 0xF0 \<longrightarrow> 0x90 \<le> b) \<and> (a = 0xF4 \<longrightarrow> b \<le> 0x8F) \<and> is_continuation c
             \<and> is_continuation d \<and> valid_utf8 r3
         | _ \<Rightarrow> False)
      else False)"

text \<open>\<open>str::replace\<close> with a pattern that is not empty: from the left, without overlaps.\<close>

function str_replace :: "'a list \<Rightarrow> 'a list \<Rightarrow> 'a list \<Rightarrow> 'a list" where
  "str_replace pat new [] = []"
| "str_replace pat new (c # cs) =
     (if pat \<noteq> [] \<and> take (length pat) (c # cs) = pat then new @ str_replace pat new (drop (length pat) (c # cs))
      else c # str_replace pat new cs)"
  by pat_completeness auto
termination by (relation "measure (\<lambda>(_, _, s). length s)") auto

fun split_char :: "char \<Rightarrow> string \<Rightarrow> string list" where
  "split_char sep [] = [[]]"
| "split_char sep (c # cs) =
     (if c = sep then [] # split_char sep cs
      else case split_char sep cs of [] \<Rightarrow> [[c]] | s # ss \<Rightarrow> (c # s) # ss)"

definition to_uppercase :: "char \<Rightarrow> char" where
  "to_uppercase c = (let n = of_char c :: nat in if 97 \<le> n \<and> n \<le> 122 then char_of (n - 32) else c)"

definition to_pascal_case :: "string \<Rightarrow> string" where
  "to_pascal_case s =
     concat (map (\<lambda>segment. case segment of [] \<Rightarrow> [] | first # rest \<Rightarrow> to_uppercase first # rest)
       (filter (\<lambda>segment. segment \<noteq> []) (split_char (CHR ''_'') s)))"

section \<open>The generator\<close>

datatype gen_error =
    GenError string
  | GenNova nova_error
  | GenGroth16 string groth16_error

type_synonym files = "string \<rightharpoonup> bytes"

text \<open>A failed write comes with what it leaves under the path.\<close>

record fs_ops =
  fo_create_dir_all :: "string \<Rightarrow> string + unit"
  fo_write :: "string \<Rightarrow> bytes \<Rightarrow> (string \<times> bytes option) + unit"

type_synonym 'a gen = "files \<Rightarrow> (gen_error + 'a) \<times> files"

definition gen_lift :: "gen_error + 'a \<Rightarrow> 'a gen" where
  "gen_lift r fs = (r, fs)"

definition gen_bind :: "'a gen \<Rightarrow> ('a \<Rightarrow> 'b gen) \<Rightarrow> 'b gen" where
  "gen_bind m f fs = (case m fs of (Inl e, fs') \<Rightarrow> (Inl e, fs') | (Inr x, fs') \<Rightarrow> f x fs')"

definition write_bytes :: "fs_ops \<Rightarrow> string \<Rightarrow> bytes \<Rightarrow> unit gen" where
  "write_bytes ops path bytes fs =
     (case fo_write ops path bytes of
        Inl (_, left) \<Rightarrow> (Inl (GenError (''failed to write '' @ path)), fs(path := left))
      | Inr _ \<Rightarrow> (Inr (), fs(path \<mapsto> bytes)))"

text \<open>The libraries of one folded circuit, and those of the single withdrawal circuits.\<close>

record ('pp, 'vp, 'n, 'i, 'e, 'dp, 'dv, 'p) nova_system =
  ns_folding :: "('pp, 'vp, 'n, 'i, 'e) folding_lib"
  ns_decider :: "('pp, 'vp, 'dp, 'dv, 'n, 'p) decider_lib"
  ns_ivc_deserialize :: "bytes \<Rightarrow> string + 'i"
  ns_decider_template :: "'dv \<Rightarrow> nat \<Rightarrow> bytes"

record ('pk, 'vk, 'q) groth16_system =
  gs_lib :: "('pk, 'vk, 'q, single_withdraw_circuit, u64) groth16_lib"
  gs_render :: "'vk \<Rightarrow> bytes"

definition groth16_verifier_solidity_code ::
  "('pk, 'vk, 'q) groth16_system \<Rightarrow> ('pk, 'vk) groth16_params \<Rightarrow> groth16_error + bytes" where
  "groth16_verifier_solidity_code G params =
     (let bytes = gs_render G (gp_vk params)
      in if valid_utf8 (map unat bytes) then Inr bytes else Inl (Groth16SolidityExport ''UTF-8 Error''))"

definition nova_verifier_solidity_code ::
  "('pp, 'vp, 'n, 'i, 'e, 'dp, 'dv, 'p) nova_system \<Rightarrow> ('dp, 'dv) decider_params \<Rightarrow> nat \<Rightarrow> bytes" where
  "nova_verifier_solidity_code S params state_len = ns_decider_template S (dp_vp params) state_len"

definition generate_nova_artifacts ::
  "('pp, 'vp, 'n, 'i, 'e, 'dp, 'dv, 'p) nova_system \<Rightarrow> fs_ops \<Rightarrow> string \<Rightarrow> string \<Rightarrow> unit gen" where
  "generate_nova_artifacts S ops pfx output_dir =
     gen_bind (gen_lift (Proving.map_error GenNova (nova_rand (ns_folding S)))) (\<lambda>nova_params.
     gen_bind (gen_lift (Proving.map_error GenNova (nova_state_len (ns_folding S)))) (\<lambda>state_len.
     gen_bind (gen_lift (Proving.map_error GenNova (decider_rand (ns_decider S) (ns_folding S) nova_params))) (\<lambda>decider_params.
     gen_bind (gen_lift (Proving.map_error GenNova (nova_to_bytes (ns_folding S) nova_params))) (\<lambda>(nova_pp_bytes, nova_vp_bytes).
     gen_bind (gen_lift (Proving.map_error GenNova (decider_to_bytes (ns_decider S) decider_params))) (\<lambda>(decider_pp_bytes, decider_vp_bytes).
     let pascal_case_prefix = to_pascal_case pfx;
         contract_name = pascal_case_prefix @ ''NovaDecider'';
         solidity = str_replace (ascii_bytes ''NovaDecider'') (ascii_bytes contract_name)
           (nova_verifier_solidity_code S decider_params state_len)
     in gen_bind (write_bytes ops (path_join output_dir (pfx @ ''_nova_pp.bin'')) nova_pp_bytes) (\<lambda>_.
        gen_bind (write_bytes ops (path_join output_dir (pfx @ ''_nova_vp.bin'')) nova_vp_bytes) (\<lambda>_.
        gen_bind (write_bytes ops (path_join output_dir (pfx @ ''_decider_pp.bin'')) decider_pp_bytes) (\<lambda>_.
        gen_bind (write_bytes ops (path_join output_dir (pfx @ ''_decider_vp.bin'')) decider_vp_bytes) (\<lambda>_.
        write_bytes ops (path_join output_dir (pascal_case_prefix @ ''NovaDecider.sol'')) solidity)))))))))"

definition generate_groth16_artifacts ::
  "('pk, 'vk, 'q) groth16_system \<Rightarrow> nat \<Rightarrow> fs_ops \<Rightarrow> string \<Rightarrow> string \<Rightarrow> unit gen" where
  "generate_groth16_artifacts G DEPTH ops pfx output_dir =
     gen_bind (gen_lift (Proving.map_error (GenGroth16 (''failed groth16 setup for '' @ pfx))
       (groth16_rand (gs_lib G) 42 (single_withdraw_new DEPTH)))) (\<lambda>params.
     gen_bind (gen_lift (Proving.map_error (GenGroth16 (''failed to serialize groth16 params for '' @ pfx))
       (groth16_to_bytes (gs_lib G) params))) (\<lambda>(pk_bytes, vk_bytes).
     let pascal_case_prefix = to_pascal_case pfx;
         contract_name = pascal_case_prefix @ ''Groth16Verifier''
     in gen_bind (gen_lift (Proving.map_error (GenGroth16 (''failed to render solidity verifier for '' @ pfx))
          (groth16_verifier_solidity_code G params))) (\<lambda>code.
        let solidity = str_replace (ascii_bytes ''Groth16Verifier'') (ascii_bytes contract_name) code
        in gen_bind (write_bytes ops (path_join output_dir (pfx @ ''_groth16_pk.bin'')) pk_bytes) (\<lambda>_.
           gen_bind (write_bytes ops (path_join output_dir (pfx @ ''_groth16_vk.bin'')) vk_bytes) (\<lambda>_.
           write_bytes ops (path_join output_dir (pascal_case_prefix @ ''Groth16Verifier.sol'')) solidity)))))"

record ('pp, 'vp, 'n, 'i, 'dp, 'dv, 'p, 'pk, 'vk, 'q) circuit_libs =
  cl_groth16 :: "('pk, 'vk, 'q) groth16_system"
  cl_root :: "('pp, 'vp, 'n, 'i, root_external_inputs, 'dp, 'dv, 'p) nova_system"
  cl_withdraw_local :: "('pp, 'vp, 'n, 'i, withdraw_external_inputs, 'dp, 'dv, 'p) nova_system"
  cl_withdraw_global :: "('pp, 'vp, 'n, 'i, withdraw_external_inputs, 'dp, 'dv, 'p) nova_system"

text \<open>\<open>workspace_root\<close> is the parent of the directory of the crate, \<open>None\<close> where it has none.\<close>

definition generate_circuit_artifacts ::
  "('pp, 'vp, 'n, 'i, 'dp, 'dv, 'p, 'pk, 'vk, 'q) circuit_libs \<Rightarrow> fs_ops \<Rightarrow> string option \<Rightarrow> unit gen" where
  "generate_circuit_artifacts L ops workspace_root =
     gen_bind (gen_lift (ok_or (GenError ''failed to locate workspace root directory'') workspace_root)) (\<lambda>root.
     let artifacts_dir = path_join root ''nova_artifacts''
     in gen_bind (gen_lift (Proving.map_error (\<lambda>_. GenError (''failed to create '' @ artifacts_dir)) (fo_create_dir_all ops artifacts_dir))) (\<lambda>_.
        gen_bind (generate_groth16_artifacts (cl_groth16 L) TRANSFER_TREE_HEIGHT ops ''withdraw_local'' artifacts_dir) (\<lambda>_.
        gen_bind (generate_groth16_artifacts (cl_groth16 L) GLOBAL_TRANSFER_TREE_HEIGHT ops ''withdraw_global'' artifacts_dir) (\<lambda>_.
        gen_bind (generate_nova_artifacts (cl_root L) ops ''root'' artifacts_dir) (\<lambda>_.
        gen_bind (generate_nova_artifacts (cl_withdraw_local L) ops ''withdraw_local'' artifacts_dir) (\<lambda>_.
        generate_nova_artifacts (cl_withdraw_global L) ops ''withdraw_global'' artifacts_dir))))))"

section \<open>Readers\<close>

subsection \<open>The decider\<close>

fun nova_error_display :: "nova_error \<Rightarrow> string" where
  "nova_error_display (NovaDeserialization s) = ''Deserialization Error: '' @ s"
| "nova_error_display (NovaSerialization s) = ''Serialization Error: '' @ s"
| "nova_error_display (NovaInitialization s) = ''Initialization Error: '' @ s"
| "nova_error_display (NovaVerification s) = ''Verification Error: '' @ s"
| "nova_error_display (NovaPreprocess s) = ''Preprocess Error: '' @ s"
| "nova_error_display (NovaDeciderProof s) = ''Decider Proof Error: '' @ s"

definition prover_of_nova :: "nova_error \<Rightarrow> prover_error" where
  "prover_of_nova e = PNova (lit (nova_error_display e))"

definition read_artifact :: "files \<Rightarrow> string \<Rightarrow> string \<Rightarrow> string \<Rightarrow> prover_error + bytes" where
  "read_artifact fs dir pfx sfx =
     (let path = path_join dir (pfx @ ''_'' @ sfx) in ok_or (PIo (lit (''failed to read '' @ path))) (fs path))"

text \<open>A context is the pair of parameters, seen through the operations of \<open>produce_decider_proof\<close>.\<close>

definition engine_context ::
  "('pp, 'vp, 'n, 'i, 'e, 'dp, 'dv, 'p) nova_system \<Rightarrow> ('pp, 'vp) nova_params \<Rightarrow> ('dp, 'dv) decider_params \<Rightarrow> ('i, 'n) circuit_context" where
  "engine_context S nova decider = \<lparr>
     cc_deserialize = (\<lambda>b. Proving.map_error lit (ns_ivc_deserialize S b)),
     cc_verify = (\<lambda>i. Proving.map_error (\<lambda>e. lit (nova_error_display e)) (nova_verify (ns_folding S) nova i)),
     cc_nova_from_ivc = (\<lambda>i. Proving.map_error (\<lambda>e. lit (nova_error_display e)) (nova_from_ivc_proof (ns_folding S) nova i)),
     cc_decider = (\<lambda>n. Proving.map_error (\<lambda>e. lit (nova_error_display e)) (Proving.generate_decider_proof (ns_decider S) decider n))\<rparr>"

definition circuit_context_load ::
  "('pp, 'vp, 'n, 'i, 'e, 'dp, 'dv, 'p) nova_system \<Rightarrow> files \<Rightarrow> string \<Rightarrow> string \<Rightarrow> prover_error + ('i, 'n) circuit_context" where
  "circuit_context_load S fs pfx dir =
     res_bind (read_artifact fs dir pfx ''nova_pp.bin'') (\<lambda>nova_pp.
     res_bind (read_artifact fs dir pfx ''nova_vp.bin'') (\<lambda>nova_vp.
     res_bind (read_artifact fs dir pfx ''decider_pp.bin'') (\<lambda>decider_pp.
     res_bind (read_artifact fs dir pfx ''decider_vp.bin'') (\<lambda>decider_vp.
     res_bind (Proving.map_error prover_of_nova (nova_from_bytes (ns_folding S) nova_pp nova_vp)) (\<lambda>nova.
     res_bind (Proving.map_error prover_of_nova (decider_from_bytes (ns_decider S) decider_pp decider_vp)) (\<lambda>decider.
     Inr (engine_context S nova decider)))))))"

definition prover_engine_load ::
  "('pp, 'vp, 'n, 'i, 'dp, 'dv, 'p, 'pk, 'vk, 'q) circuit_libs \<Rightarrow> files \<Rightarrow> string \<Rightarrow> bool \<Rightarrow> prover_error + ('i, 'n) prover_engine" where
  "prover_engine_load L fs artifacts_dir enable_withdraw_local =
     res_bind (circuit_context_load (cl_root L) fs ''root'' artifacts_dir) (\<lambda>root.
     res_bind (if enable_withdraw_local
               then res_bind (circuit_context_load (cl_withdraw_local L) fs ''withdraw_local'' artifacts_dir) (\<lambda>cc. Inr (Some cc))
               else Inr None) (\<lambda>withdraw_local.
     res_bind (circuit_context_load (cl_withdraw_global L) fs ''withdraw_global'' artifacts_dir) (\<lambda>withdraw_global.
     Inr \<lparr>pe_root = root, pe_withdraw_local = withdraw_local, pe_withdraw_global = withdraw_global\<rparr>)))"

text \<open>The environment as typed values, \<open>None\<close> where a variable is not set; \<open>root\<close> is the workspace.\<close>

record decider_env =
  dn_redis_url :: "string option"
  dn_artifacts_dir :: "string option"
  dn_queue_key :: "string option"
  dn_job_key_prefix :: "string option"
  dn_listen_addr :: "string option"
  dn_json_body_limit_bytes :: "nat option"
  dn_job_ttl_seconds :: "nat option"
  dn_enable_withdraw_local :: "bool option"

record app_config =
  ac_redis_url :: string
  ac_artifacts_dir :: string
  ac_queue_key :: string
  ac_job_key_prefix :: string
  ac_listen_addr :: string
  ac_json_body_limit_bytes :: nat
  ac_job_ttl_seconds :: nat
  ac_enable_withdraw_local :: bool

definition default_artifacts_dir :: "string \<Rightarrow> string" where
  "default_artifacts_dir root = path_join root ''nova_artifacts''"

definition load_config :: "string \<Rightarrow> decider_env \<Rightarrow> prover_error + app_config" where
  "load_config root env =
     res_bind (ok_or (PConfig (lit ''missing value for field redis_url'')) (dn_redis_url env)) (\<lambda>redis_url.
     let cfg = \<lparr>ac_redis_url = redis_url,
           ac_artifacts_dir = unwrap_or (dn_artifacts_dir env) (default_artifacts_dir root),
           ac_queue_key = unwrap_or (dn_queue_key env) ''prover:queue'',
           ac_job_key_prefix = unwrap_or (dn_job_key_prefix env) ''prover:job'',
           ac_listen_addr = unwrap_or (dn_listen_addr env) ''0.0.0.0:8080'',
           ac_json_body_limit_bytes = unwrap_or (dn_json_body_limit_bytes env) (40 * 1024 * 1024),
           ac_job_ttl_seconds = unwrap_or (dn_job_ttl_seconds env) (24 * 60 * 60),
           ac_enable_withdraw_local = unwrap_or (dn_enable_withdraw_local env) False\<rparr>;
         cfg1 = (if take 1 (ac_artifacts_dir cfg) = ''/'' then cfg
                 else cfg\<lparr>ac_artifacts_dir := path_join root (ac_artifacts_dir cfg)\<rparr>)
     in if ac_job_ttl_seconds cfg1 = 0 then Inl (PConfig (lit ''job_ttl_seconds must be greater than zero''))
        else Inr cfg1)"

text \<open>
  The program up to its worker and its server: the engine both share, and their settings.
  \<open>create_pool\<close> opens the connections to Redis.
\<close>

record ('i, 'n, 'pool) decider_program =
  dm_engine :: "('i, 'n) prover_engine"
  dm_pool :: 'pool
  dm_settings :: decider_config
  dm_json_limit :: nat
  dm_listen_addr :: string

definition decider_main ::
  "('pp, 'vp, 'n, 'i, 'dp, 'dv, 'p, 'pk, 'vk, 'q) circuit_libs \<Rightarrow> files \<Rightarrow> string \<Rightarrow> decider_env \<Rightarrow> (string \<Rightarrow> prover_error + 'pool)
     \<Rightarrow> prover_error + ('i, 'n, 'pool) decider_program" where
  "decider_main L fs root env create_pool =
     res_bind (load_config root env) (\<lambda>config.
     res_bind (prover_engine_load L fs (ac_artifacts_dir config) (ac_enable_withdraw_local config)) (\<lambda>engine.
     res_bind (create_pool (ac_redis_url config)) (\<lambda>pool.
     Inr \<lparr>dm_engine = engine, dm_pool = pool,
          dm_settings = \<lparr>dg_job_prefix = lit (ac_job_key_prefix config), dg_ttl = ac_job_ttl_seconds config,
            dg_enable_withdraw_local = ac_enable_withdraw_local config\<rparr>,
          dm_json_limit = ac_json_body_limit_bytes config, dm_listen_addr = ac_listen_addr config\<rparr>)))"

subsection \<open>The command line\<close>

definition withdraw_prefix :: "nat \<Rightarrow> teleport_error + string" where
  "withdraw_prefix DEPTH =
     (if DEPTH = TRANSFER_TREE_HEIGHT then Inr ''withdraw_local''
      else if DEPTH = GLOBAL_TRANSFER_TREE_HEIGHT then Inr ''withdraw_global''
      else Inl (TeleportError ''Unsupported transfer tree depth''))"

definition load_withdraw_params ::
  "('pp, 'vp, 'n, 'i, withdraw_external_inputs) folding_lib \<Rightarrow> files \<Rightarrow> string \<Rightarrow> nat \<Rightarrow> teleport_error + ('pp, 'vp) nova_params" where
  "load_withdraw_params L fs artifacts_dir DEPTH =
     res_bind (withdraw_prefix DEPTH) (\<lambda>pfx.
     res_bind (ok_or (TeleportError (''failed to read '' @ pfx @ ''_nova_pp.bin'')) (fs (path_join artifacts_dir (pfx @ ''_nova_pp.bin'')))) (\<lambda>pp.
     res_bind (ok_or (TeleportError (''failed to read '' @ pfx @ ''_nova_vp.bin'')) (fs (path_join artifacts_dir (pfx @ ''_nova_vp.bin'')))) (\<lambda>vp.
     Proving.map_error (\<lambda>e. TeleportError (''failed to deserialize withdraw nova params: '' @ nova_error_display e)) (nova_from_bytes L pp vp))))"

definition load_single_withdraw_params ::
  "('pk, 'vk, 'q, single_withdraw_circuit, u64) groth16_lib \<Rightarrow> files \<Rightarrow> string \<Rightarrow> nat \<Rightarrow> teleport_error + ('pk, 'vk) groth16_params" where
  "load_single_withdraw_params L fs artifacts_dir depth =
     res_bind (withdraw_prefix depth) (\<lambda>pfx.
     res_bind (ok_or (TeleportError (''failed to read '' @ pfx @ ''_groth16_pp.bin'')) (fs (path_join artifacts_dir (pfx @ ''_groth16_pk.bin'')))) (\<lambda>pk.
     res_bind (ok_or (TeleportError (''failed to read '' @ pfx @ ''_groth16_vp.bin'')) (fs (path_join artifacts_dir (pfx @ ''_groth16_vk.bin'')))) (\<lambda>vk.
     Proving.map_error (\<lambda>_. TeleportError (''failed to parse '' @ pfx @ '' Groth16 params'')) (groth16_from_bytes L pk vk))))"

section \<open>What a run leaves\<close>

lemma gen_lift_bind [simp]:
  "gen_bind (gen_lift r) f fs = (case r of Inl e \<Rightarrow> (Inl e, fs) | Inr x \<Rightarrow> f x fs)"
  by (cases r) (simp_all add: gen_bind_def gen_lift_def)

lemma gen_lift_Inr_bind: "gen_bind (gen_lift (Inr x)) f = f x"
  by (rule ext) simp

lemma gen_bind_Inr:
  "gen_bind m f fs = (Inr y, fs'') \<longleftrightarrow> (\<exists>x fs'. m fs = (Inr x, fs') \<and> f x fs' = (Inr y, fs''))"
  by (auto simp: gen_bind_def split: prod.splits sum.splits)

lemma gen_lift_Inr: "gen_lift r fs = (Inr x, fs') \<longleftrightarrow> r = Inr x \<and> fs' = fs"
  by (auto simp: gen_lift_def)

lemma write_bytes_Inr:
  "write_bytes ops path bs fs = (Inr u, fs') \<longleftrightarrow> fo_write ops path bs = Inr () \<and> fs' = fs(path \<mapsto> bs)"
  by (auto simp: write_bytes_def split: sum.splits prod.splits)

lemmas gen_Inr = gen_bind_Inr gen_lift_Inr write_bytes_Inr

text \<open>No outcome of a run touches a file outside the set of paths its stages write.\<close>

definition touches :: "string set \<Rightarrow> 'a gen \<Rightarrow> bool" where
  "touches P m \<longleftrightarrow> (\<forall>fs p. p \<notin> P \<longrightarrow> snd (m fs) p = fs p)"

lemma touches_lift [simp, intro]: "touches P (gen_lift r)"
  by (simp add: touches_def gen_lift_def)

lemma touches_bind [intro]: "touches P m \<Longrightarrow> (\<And>x. touches P (f x)) \<Longrightarrow> touches P (gen_bind m f)"
  by (auto simp: touches_def gen_bind_def split: prod.splits sum.splits) (metis snd_conv)+

lemma touches_write [intro]: "path \<in> P \<Longrightarrow> touches P (write_bytes ops path bs)"
  by (auto simp: touches_def write_bytes_def split: sum.splits)

lemma path_join_inject [simp]: "path_join d x = path_join d y \<longleftrightarrow> x = y"
  by (simp add: path_join_def)

definition nova_paths :: "string \<Rightarrow> string \<Rightarrow> string set" where
  "nova_paths dir pfx = path_join dir ` {pfx @ ''_nova_pp.bin'', pfx @ ''_nova_vp.bin'', pfx @ ''_decider_pp.bin'',
     pfx @ ''_decider_vp.bin'', to_pascal_case pfx @ ''NovaDecider.sol''}"

definition groth16_paths :: "string \<Rightarrow> string \<Rightarrow> string set" where
  "groth16_paths dir pfx = path_join dir ` {pfx @ ''_groth16_pk.bin'', pfx @ ''_groth16_vk.bin'', to_pascal_case pfx @ ''Groth16Verifier.sol''}"

lemma touches_nova: "touches (nova_paths dir pfx) (generate_nova_artifacts S ops pfx dir)"
  unfolding generate_nova_artifacts_def Let_def
  by (intro touches_bind touches_lift touches_write) (auto simp: nova_paths_def split: prod.split intro!: touches_bind touches_write)

lemma touches_groth16: "touches (groth16_paths dir pfx) (generate_groth16_artifacts G n ops pfx dir)"
  unfolding generate_groth16_artifacts_def Let_def
  by (intro touches_bind touches_lift touches_write) (auto simp: groth16_paths_def split: prod.split intro!: touches_bind touches_write)

text \<open>What the readers find: files that hold given parameters.\<close>

definition nova_at ::
  "('pp, 'vp, 'n, 'i, 'e, 'dp, 'dv, 'p) nova_system \<Rightarrow> files \<Rightarrow> string \<Rightarrow> string \<Rightarrow> ('pp, 'vp) nova_params \<Rightarrow> ('dp, 'dv) decider_params \<Rightarrow> bool" where
  "nova_at S fs dir pfx nova dec \<longleftrightarrow> (\<exists>a b c d.
     fs (path_join dir (pfx @ ''_nova_pp.bin'')) = Some a \<and> fs (path_join dir (pfx @ ''_nova_vp.bin'')) = Some b
     \<and> fs (path_join dir (pfx @ ''_decider_pp.bin'')) = Some c \<and> fs (path_join dir (pfx @ ''_decider_vp.bin'')) = Some d
     \<and> nova_from_bytes (ns_folding S) a b = Inr nova \<and> decider_from_bytes (ns_decider S) c d = Inr dec)"

definition groth16_at ::
  "('pk, 'vk, 'q) groth16_system \<Rightarrow> files \<Rightarrow> string \<Rightarrow> string \<Rightarrow> ('pk, 'vk) groth16_params \<Rightarrow> bool" where
  "groth16_at G fs dir pfx params \<longleftrightarrow> (\<exists>a b.
     fs (path_join dir (pfx @ ''_groth16_pk.bin'')) = Some a \<and> fs (path_join dir (pfx @ ''_groth16_vk.bin'')) = Some b
     \<and> groth16_from_bytes (gs_lib G) a b = Inr params)"

lemma touches_same: "touches P m \<Longrightarrow> m fs = (r, fs') \<Longrightarrow> P \<inter> Q = {} \<Longrightarrow> p \<in> Q \<Longrightarrow> fs' p = fs p"
  by (metis disjoint_iff snd_conv touches_def)

lemma nova_at_kept:
  assumes "nova_at S fs dir pfx nova dec" and kept: "touches P m" "m fs = (r, fs')" "P \<inter> nova_paths dir pfx = {}"
  shows "nova_at S fs' dir pfx nova dec"
  using assms(1) touches_same [OF kept] by (simp add: nova_at_def nova_paths_def)

lemma groth16_at_kept:
  assumes "groth16_at G fs dir pfx params" and kept: "touches P m" "m fs = (r, fs')" "P \<inter> groth16_paths dir pfx = {}"
  shows "groth16_at G fs' dir pfx params"
  using assms(1) touches_same [OF kept] by (simp add: groth16_at_def groth16_paths_def)

lemma sol_not_bin [simp]:
  "x @ ''_nova_pp.bin'' \<noteq> y @ ''NovaDecider.sol''" "x @ ''_nova_vp.bin'' \<noteq> y @ ''NovaDecider.sol''"
  "x @ ''_decider_pp.bin'' \<noteq> y @ ''NovaDecider.sol''" "x @ ''_decider_vp.bin'' \<noteq> y @ ''NovaDecider.sol''"
  "x @ ''_groth16_pk.bin'' \<noteq> y @ ''Groth16Verifier.sol''" "x @ ''_groth16_vk.bin'' \<noteq> y @ ''Groth16Verifier.sol''"
  by (auto dest!: arg_cong [of _ _ last])

text \<open>Libraries that read back what they write.\<close>

definition nova_system_ok :: "('pp, 'vp, 'n, 'i, 'e, 'dp, 'dv, 'p) nova_system \<Rightarrow> bool" where
  "nova_system_ok S \<longleftrightarrow>
     (\<forall>k bs. fl_pp_serialize (ns_folding S) k = Inr bs \<longrightarrow> fl_pp_deserialize (ns_folding S) bs = Inr k)
     \<and> (\<forall>k bs. fl_vp_serialize (ns_folding S) k = Inr bs \<longrightarrow> fl_vp_deserialize (ns_folding S) bs = Inr k)
     \<and> (\<forall>k bs. dl_pp_serialize (ns_decider S) k = Inr bs \<longrightarrow> dl_pp_deserialize (ns_decider S) bs = Inr k)
     \<and> (\<forall>k bs. dl_vp_serialize (ns_decider S) k = Inr bs \<longrightarrow> dl_vp_deserialize (ns_decider S) bs = Inr k)"

definition groth16_system_ok :: "('pk, 'vk, 'q) groth16_system \<Rightarrow> bool" where
  "groth16_system_ok G \<longleftrightarrow>
     (\<forall>k bs. gl_pk_serialize (gs_lib G) k = Inr bs \<longrightarrow> gl_pk_deserialize (gs_lib G) bs = Inr k)
     \<and> (\<forall>k bs. gl_vk_serialize (gs_lib G) k = Inr bs \<longrightarrow> gl_vk_deserialize (gs_lib G) bs = Inr k)"

lemma decider_stored:
  assumes "nova_system_ok S" "decider_to_bytes (ns_decider S) params = Inr (a, b)"
  shows "decider_from_bytes (ns_decider S) a b = Inr params"
  using assms by (auto simp: nova_system_ok_def decider_to_bytes_def decider_from_bytes_def res_bind_Inr_iff)

lemma nova_stage:
  assumes ok: "nova_system_ok S" and run: "generate_nova_artifacts S ops pfx dir fs = (Inr u, fs')"
  shows "\<exists>nova dec. nova_rand (ns_folding S) = Inr nova \<and> decider_rand (ns_decider S) (ns_folding S) nova = Inr dec
    \<and> nova_at S fs' dir pfx nova dec"
proof -
  obtain nova dec a b c d sol where rand: "nova_rand (ns_folding S) = Inr nova"
      "decider_rand (ns_decider S) (ns_folding S) nova = Inr dec"
    and to: "nova_to_bytes (ns_folding S) nova = Inr (a, b)" "decider_to_bytes (ns_decider S) dec = Inr (c, d)"
    and fs': "fs' = fs(path_join dir (pfx @ ''_nova_pp.bin'') \<mapsto> a, path_join dir (pfx @ ''_nova_vp.bin'') \<mapsto> b,
      path_join dir (pfx @ ''_decider_pp.bin'') \<mapsto> c, path_join dir (pfx @ ''_decider_vp.bin'') \<mapsto> d,
      path_join dir (to_pascal_case pfx @ ''NovaDecider.sol'') \<mapsto> sol)"
    using run by (auto simp: generate_nova_artifacts_def Let_def gen_Inr split: sum.splits)
  have "nova_from_bytes (ns_folding S) a b = Inr nova"
    using ok to(1) by (auto simp: nova_system_ok_def intro!: nova_stored)
  with rand decider_stored [OF ok to(2)] show ?thesis
    by (auto simp: nova_at_def fs')
qed

lemma groth16_stage:
  assumes ok: "groth16_system_ok G" and run: "generate_groth16_artifacts G n ops pfx dir fs = (Inr u, fs')"
  shows "\<exists>params. groth16_rand (gs_lib G) 42 (single_withdraw_new n) = Inr params \<and> groth16_at G fs' dir pfx params"
proof -
  obtain params a b sol where rand: "groth16_rand (gs_lib G) 42 (single_withdraw_new n) = Inr params"
    and to: "groth16_to_bytes (gs_lib G) params = Inr (a, b)"
    and fs': "fs' = fs(path_join dir (pfx @ ''_groth16_pk.bin'') \<mapsto> a, path_join dir (pfx @ ''_groth16_vk.bin'') \<mapsto> b,
      path_join dir (to_pascal_case pfx @ ''Groth16Verifier.sol'') \<mapsto> sol)"
    using run by (auto simp: generate_groth16_artifacts_def Let_def gen_Inr split: sum.splits)
  have "groth16_from_bytes (gs_lib G) a b = Inr params"
    using ok to by (auto simp: groth16_system_ok_def intro!: groth16_stored)
  with rand show ?thesis
    by (auto simp: groth16_at_def fs')
qed

section \<open>What the programs load\<close>

lemma context_loads: "nova_at S fs dir pfx nova dec \<Longrightarrow> circuit_context_load S fs pfx dir = Inr (engine_context S nova dec)"
  by (auto simp: nova_at_def circuit_context_load_def read_artifact_def)

lemma root_params_load:
  "nova_at S fs dir ''root'' nova dec \<Longrightarrow> load_root_nova_params (ns_folding S) fs dir = Inr nova"
  by (auto simp: nova_at_def load_root_nova_params_def)

lemma withdraw_params_load:
  "nova_at S fs dir pfx nova dec \<Longrightarrow> withdraw_prefix DEPTH = Inr pfx \<Longrightarrow> load_withdraw_params (ns_folding S) fs dir DEPTH = Inr nova"
  by (auto simp: nova_at_def load_withdraw_params_def)

lemma single_params_load:
  "groth16_at G fs dir pfx params \<Longrightarrow> withdraw_prefix DEPTH = Inr pfx \<Longrightarrow> load_single_withdraw_params (gs_lib G) fs dir DEPTH = Inr params"
  by (auto simp: groth16_at_def load_single_withdraw_params_def)

lemma withdraw_prefixes [simp]:
  "withdraw_prefix TRANSFER_TREE_HEIGHT = Inr ''withdraw_local''" "withdraw_prefix GLOBAL_TRANSFER_TREE_HEIGHT = Inr ''withdraw_global''"
  by (simp_all add: withdraw_prefix_def GLOBAL_TRANSFER_TREE_HEIGHT_def tree_heights)

definition circuit_libs_ok :: "('pp, 'vp, 'n, 'i, 'dp, 'dv, 'p, 'pk, 'vk, 'q) circuit_libs \<Rightarrow> bool" where
  "circuit_libs_ok L \<longleftrightarrow> groth16_system_ok (cl_groth16 L) \<and> nova_system_ok (cl_root L)
     \<and> nova_system_ok (cl_withdraw_local L) \<and> nova_system_ok (cl_withdraw_global L)"

definition drawn ::
  "('pp, 'vp, 'n, 'i, 'e, 'dp, 'dv, 'p) nova_system \<Rightarrow> ('pp, 'vp) nova_params \<Rightarrow> ('dp, 'dv) decider_params \<Rightarrow> bool" where
  "drawn S nova dec \<longleftrightarrow> nova_rand (ns_folding S) = Inr nova \<and> decider_rand (ns_decider S) (ns_folding S) nova = Inr dec"

lemma pascal_names [simp]:
  "to_pascal_case ''root'' = ''Root''" "to_pascal_case ''withdraw_local'' = ''WithdrawLocal''"
  "to_pascal_case ''withdraw_global'' = ''WithdrawGlobal''"
  by code_simp+

lemma stage_paths_disjoint:
  "groth16_paths d ''withdraw_global'' \<inter> groth16_paths d ''withdraw_local'' = {}"
  "nova_paths d ''withdraw_local'' \<inter> nova_paths d ''root'' = {}"
  "nova_paths d ''withdraw_global'' \<inter> nova_paths d ''root'' = {}"
  "nova_paths d ''withdraw_global'' \<inter> nova_paths d ''withdraw_local'' = {}"
  "nova_paths d ''root'' \<inter> groth16_paths d ''withdraw_local'' = {}"
  "nova_paths d ''withdraw_local'' \<inter> groth16_paths d ''withdraw_local'' = {}"
  "nova_paths d ''withdraw_global'' \<inter> groth16_paths d ''withdraw_local'' = {}"
  "nova_paths d ''root'' \<inter> groth16_paths d ''withdraw_global'' = {}"
  "nova_paths d ''withdraw_local'' \<inter> groth16_paths d ''withdraw_global'' = {}"
  "nova_paths d ''withdraw_global'' \<inter> groth16_paths d ''withdraw_global'' = {}"
  by (simp_all add: nova_paths_def groth16_paths_def)

lemma generator_stores:
  assumes ok: "circuit_libs_ok L" and run: "generate_circuit_artifacts L ops (Some root) fs = (Inr (), fs')"
    and dir: "dir = path_join root ''nova_artifacts''"
  shows "\<exists>gl gg nr dr nl dl ng dg.
      groth16_rand (gs_lib (cl_groth16 L)) 42 (single_withdraw_new TRANSFER_TREE_HEIGHT) = Inr gl
      \<and> groth16_rand (gs_lib (cl_groth16 L)) 42 (single_withdraw_new GLOBAL_TRANSFER_TREE_HEIGHT) = Inr gg
      \<and> drawn (cl_root L) nr dr \<and> drawn (cl_withdraw_local L) nl dl \<and> drawn (cl_withdraw_global L) ng dg
      \<and> groth16_at (cl_groth16 L) fs' dir ''withdraw_local'' gl \<and> groth16_at (cl_groth16 L) fs' dir ''withdraw_global'' gg
      \<and> nova_at (cl_root L) fs' dir ''root'' nr dr \<and> nova_at (cl_withdraw_local L) fs' dir ''withdraw_local'' nl dl
      \<and> nova_at (cl_withdraw_global L) fs' dir ''withdraw_global'' ng dg"
proof -
  obtain f1 f2 f3 f4 where runs:
    "generate_groth16_artifacts (cl_groth16 L) TRANSFER_TREE_HEIGHT ops ''withdraw_local'' dir fs = (Inr (), f1)"
    "generate_groth16_artifacts (cl_groth16 L) GLOBAL_TRANSFER_TREE_HEIGHT ops ''withdraw_global'' dir f1 = (Inr (), f2)"
    "generate_nova_artifacts (cl_root L) ops ''root'' dir f2 = (Inr (), f3)"
    "generate_nova_artifacts (cl_withdraw_local L) ops ''withdraw_local'' dir f3 = (Inr (), f4)"
    "generate_nova_artifacts (cl_withdraw_global L) ops ''withdraw_global'' dir f4 = (Inr (), fs')"
    using run by (auto simp: generate_circuit_artifacts_def Let_def dir gen_Inr split: sum.splits)
  note oks = ok [unfolded circuit_libs_ok_def]
  note kept = nova_at_kept [OF _ touches_nova] and kept16 = groth16_at_kept [OF _ touches_nova]
  obtain gl where gl: "groth16_rand (gs_lib (cl_groth16 L)) 42 (single_withdraw_new TRANSFER_TREE_HEIGHT) = Inr gl"
    and gl1: "groth16_at (cl_groth16 L) f1 dir ''withdraw_local'' gl"
    using groth16_stage [OF _ runs(1)] oks by blast
  have gl': "groth16_at (cl_groth16 L) fs' dir ''withdraw_local'' gl"
    by (rule kept16 [OF kept16 [OF kept16 [OF groth16_at_kept [OF gl1 touches_groth16 runs(2)] runs(3)] runs(4)] runs(5)])
      (simp_all add: stage_paths_disjoint)
  obtain gg where gg: "groth16_rand (gs_lib (cl_groth16 L)) 42 (single_withdraw_new GLOBAL_TRANSFER_TREE_HEIGHT) = Inr gg"
    and gg1: "groth16_at (cl_groth16 L) f2 dir ''withdraw_global'' gg"
    using groth16_stage [OF _ runs(2)] oks by blast
  have gg': "groth16_at (cl_groth16 L) fs' dir ''withdraw_global'' gg"
    by (rule kept16 [OF kept16 [OF kept16 [OF gg1 runs(3)] runs(4)] runs(5)]) (simp_all add: stage_paths_disjoint)
  obtain nr dr where nr: "drawn (cl_root L) nr dr" and nr1: "nova_at (cl_root L) f3 dir ''root'' nr dr"
    using nova_stage [OF _ runs(3)] oks unfolding drawn_def by blast
  have nr': "nova_at (cl_root L) fs' dir ''root'' nr dr"
    by (rule kept [OF kept [OF nr1 runs(4)] runs(5)]) (simp_all add: stage_paths_disjoint)
  obtain nl dl where nl: "drawn (cl_withdraw_local L) nl dl" and nl1: "nova_at (cl_withdraw_local L) f4 dir ''withdraw_local'' nl dl"
    using nova_stage [OF _ runs(4)] oks unfolding drawn_def by blast
  have nl': "nova_at (cl_withdraw_local L) fs' dir ''withdraw_local'' nl dl"
    by (rule kept [OF nl1 runs(5)]) (simp add: stage_paths_disjoint)
  obtain ng dg where ng: "drawn (cl_withdraw_global L) ng dg" "nova_at (cl_withdraw_global L) fs' dir ''withdraw_global'' ng dg"
    using nova_stage [OF _ runs(5)] oks unfolding drawn_def by blast
  from gl gl' gg gg' nr nr' nl nl' ng show ?thesis by blast
qed

text \<open>The generator fails only where a library, the disk or the location of the workspace fails.\<close>

definition nova_setup_ok :: "('pp, 'vp, 'n, 'i, 'e, 'dp, 'dv, 'p) nova_system \<Rightarrow> bool" where
  "nova_setup_ok S \<longleftrightarrow> (\<exists>nova dec. drawn S nova dec \<and> is_ok (nova_to_bytes (ns_folding S) nova) \<and> is_ok (decider_to_bytes (ns_decider S) dec))"

definition groth16_setup_ok :: "('pk, 'vk, 'q) groth16_system \<Rightarrow> nat \<Rightarrow> bool" where
  "groth16_setup_ok G n \<longleftrightarrow> (\<exists>params. groth16_rand (gs_lib G) 42 (single_withdraw_new n) = Inr params
     \<and> is_ok (groth16_to_bytes (gs_lib G) params) \<and> valid_utf8 (map unat (gs_render G (gp_vk params))))"

definition disk_ok :: "fs_ops \<Rightarrow> bool" where
  "disk_ok ops \<longleftrightarrow> (\<forall>d. is_ok (fo_create_dir_all ops d)) \<and> (\<forall>p bs. is_ok (fo_write ops p bs))"

lemma gen_bind_ok: "m fs = (Inr x, fs') \<Longrightarrow> gen_bind m f fs = f x fs'"
  by (simp add: gen_bind_def)

lemma write_ok: "disk_ok ops \<Longrightarrow> write_bytes ops path bs fs = (Inr (), fs(path \<mapsto> bs))"
  by (auto simp: disk_ok_def is_ok_iff write_bytes_def split: sum.splits)

lemma nova_stage_runs:
  assumes "disk_ok ops" "nova_setup_ok S"
  shows "\<exists>fs'. generate_nova_artifacts S ops pfx dir fs = (Inr (), fs')"
proof -
  obtain nova dec a b c d where "nova_rand (ns_folding S) = Inr nova" "decider_rand (ns_decider S) (ns_folding S) nova = Inr dec"
    "nova_to_bytes (ns_folding S) nova = Inr (a, b)" "decider_to_bytes (ns_decider S) dec = Inr (c, d)"
    using assms(2) by (auto simp: nova_setup_ok_def drawn_def is_ok_iff)
  moreover from this obtain m where "nova_state_len (ns_folding S) = Inr m"
    by (auto simp: decider_rand_def res_bind_Inr_iff)
  ultimately show ?thesis
    by (simp add: generate_nova_artifacts_def Let_def gen_bind_ok [OF write_ok [OF assms(1)]] write_ok [OF assms(1)])
qed

lemma groth16_stage_runs:
  assumes "disk_ok ops" "groth16_setup_ok G n"
  shows "\<exists>fs'. generate_groth16_artifacts G n ops pfx dir fs = (Inr (), fs')"
proof -
  obtain params a b where "groth16_rand (gs_lib G) 42 (single_withdraw_new n) = Inr params"
    "groth16_to_bytes (gs_lib G) params = Inr (a, b)" "valid_utf8 (map unat (gs_render G (gp_vk params)))"
    using assms(2) by (auto simp: groth16_setup_ok_def is_ok_iff)
  then show ?thesis
    by (simp add: generate_groth16_artifacts_def groth16_verifier_solidity_code_def Let_def
        gen_bind_ok [OF write_ok [OF assms(1)]] write_ok [OF assms(1)])
qed

theorem generator_succeeds:
  assumes disk: "disk_ok ops"
    and ok: "groth16_setup_ok (cl_groth16 L) TRANSFER_TREE_HEIGHT" "groth16_setup_ok (cl_groth16 L) GLOBAL_TRANSFER_TREE_HEIGHT"
      "nova_setup_ok (cl_root L)" "nova_setup_ok (cl_withdraw_local L)" "nova_setup_ok (cl_withdraw_global L)"
  shows "\<exists>fs'. generate_circuit_artifacts L ops (Some root) fs = (Inr (), fs')"
proof -
  define dir where "dir = path_join root ''nova_artifacts''"
  have "fo_create_dir_all ops dir = Inr ()"
    using disk by (auto simp: disk_ok_def is_ok_iff)
  moreover obtain f1 where "generate_groth16_artifacts (cl_groth16 L) TRANSFER_TREE_HEIGHT ops ''withdraw_local'' dir fs = (Inr (), f1)"
    using groth16_stage_runs [OF disk ok(1)] by blast
  moreover obtain f2 where "generate_groth16_artifacts (cl_groth16 L) GLOBAL_TRANSFER_TREE_HEIGHT ops ''withdraw_global'' dir f1 = (Inr (), f2)"
    using groth16_stage_runs [OF disk ok(2)] by blast
  moreover obtain f3 where "generate_nova_artifacts (cl_root L) ops ''root'' dir f2 = (Inr (), f3)"
    using nova_stage_runs [OF disk ok(3)] by blast
  moreover obtain f4 where "generate_nova_artifacts (cl_withdraw_local L) ops ''withdraw_local'' dir f3 = (Inr (), f4)"
    using nova_stage_runs [OF disk ok(4)] by blast
  moreover obtain f5 where "generate_nova_artifacts (cl_withdraw_global L) ops ''withdraw_global'' dir f4 = (Inr (), f5)"
    using nova_stage_runs [OF disk ok(5)] by blast
  ultimately show ?thesis
    by (simp add: generate_circuit_artifacts_def Let_def gen_bind_ok flip: dir_def)
qed

text \<open>However a run ends, files outside the directory of artefacts are as before.\<close>

lemma touches_mono: "touches P m \<Longrightarrow> P \<subseteq> Q \<Longrightarrow> touches Q m"
  by (auto simp: touches_def)

theorem generator_keeps_other_files:
  assumes "\<And>name. path \<noteq> path_join (path_join root ''nova_artifacts'') name"
  shows "snd (generate_circuit_artifacts L ops (Some root) fs) path = fs path"
proof -
  define dir where "dir = path_join root ''nova_artifacts''"
  have sub: "nova_paths dir p \<subseteq> range (path_join dir)" "groth16_paths dir p \<subseteq> range (path_join dir)" for p
    by (auto simp: nova_paths_def groth16_paths_def)
  note stages = touches_mono [OF touches_nova sub(1)] touches_mono [OF touches_groth16 sub(2)]
  have "touches (range (path_join dir)) (generate_circuit_artifacts L ops (Some root))"
    unfolding generate_circuit_artifacts_def ok_or_simps gen_lift_Inr_bind Let_def dir_def [symmetric]
    by (intro touches_bind touches_lift stages)
  then show ?thesis
    using assms by (auto simp: touches_def dir_def)
qed

lemma load_config_default:
  assumes "dn_redis_url env = Some url" "dn_artifacts_dir env = None" "dn_job_ttl_seconds env \<noteq> Some 0" "take 1 root = ''/''"
  shows "\<exists>cfg. load_config root env = Inr cfg \<and> ac_redis_url cfg = url \<and> ac_artifacts_dir cfg = path_join root ''nova_artifacts''
    \<and> ac_enable_withdraw_local cfg = unwrap_or (dn_enable_withdraw_local env) False"
proof -
  have "take 1 (path_join root ''nova_artifacts'') = ''/''"
    using assms(4) by (cases root) (simp_all add: path_join_def)
  then show ?thesis
    using assms(1-3) by (auto simp: load_config_def Let_def default_artifacts_dir_def unwrap_or_def split: option.splits)
qed

lemma engine_loads:
  assumes "nova_at (cl_root L) fs dir ''root'' nr dr" "nova_at (cl_withdraw_local L) fs dir ''withdraw_local'' nl dl"
    "nova_at (cl_withdraw_global L) fs dir ''withdraw_global'' ng dg"
  shows "prover_engine_load L fs dir enable = Inr \<lparr>pe_root = engine_context (cl_root L) nr dr,
      pe_withdraw_local = (if enable then Some (engine_context (cl_withdraw_local L) nl dl) else None),
      pe_withdraw_global = engine_context (cl_withdraw_global L) ng dg\<rparr>"
  using assms by (simp add: prover_engine_load_def context_loads)

lemma decider_starts:
  assumes env: "dn_redis_url env = Some url" "dn_artifacts_dir env = None" "dn_job_ttl_seconds env \<noteq> Some 0" "take 1 root = ''/''"
    and pool: "create_pool url = Inr pool"
    and at: "nova_at (cl_root L) fs (path_join root ''nova_artifacts'') ''root'' nr dr"
      "nova_at (cl_withdraw_local L) fs (path_join root ''nova_artifacts'') ''withdraw_local'' nl dl"
      "nova_at (cl_withdraw_global L) fs (path_join root ''nova_artifacts'') ''withdraw_global'' ng dg"
  shows "\<exists>prog. decider_main L fs root env create_pool = Inr prog
    \<and> dm_engine prog = \<lparr>pe_root = engine_context (cl_root L) nr dr,
        pe_withdraw_local = (if dg_enable_withdraw_local (dm_settings prog) then Some (engine_context (cl_withdraw_local L) nl dl) else None),
        pe_withdraw_global = engine_context (cl_withdraw_global L) ng dg\<rparr>"
proof -
  obtain cfg where "load_config root env = Inr cfg" "ac_redis_url cfg = url" "ac_artifacts_dir cfg = path_join root ''nova_artifacts''"
    using load_config_default [OF env] by blast
  then show ?thesis
    using pool by (simp add: decider_main_def engine_loads [OF at])
qed

text \<open>
  \<^bold>\<open>C40\<close> (round trip). What a successful run of the generator of circuit artefacts stores under the
  directory of the workspace, an absolute path, is loaded again, when the libraries can read
  what they write. The indexer and the decider find it without being told where, in the
  directory they use by default: the indexer gets the parameters of the root circuit that were
  generated, and the decider, given a Redis URL to which it can connect and a job lifetime that
  is not zero, starts with the parameters of the same circuits for all proofs it will make. The
  command line has no default: its loaders, called with the directory \<open>nova_artifacts\<close> of the
  workspace, get the parameters of both withdrawal circuits, folded and single. So the indexer
  and the clients prove under the same parameters under which the decider verifies.
\<close>

theorem artifacts_load:
  assumes libs: "circuit_libs_ok L"
    and run: "generate_circuit_artifacts L ops (Some root) fs = (Inr (), fs')"
    and env: "dn_redis_url env = Some url" "dn_artifacts_dir env = None" "dn_job_ttl_seconds env \<noteq> Some 0"
    and pool: "create_pool url = Inr pool" and root: "take 1 root = ''/''"
  shows "\<exists>gl gg nr dr nl dl ng dg prog.
      groth16_rand (gs_lib (cl_groth16 L)) 42 (single_withdraw_new TRANSFER_TREE_HEIGHT) = Inr gl
      \<and> groth16_rand (gs_lib (cl_groth16 L)) 42 (single_withdraw_new GLOBAL_TRANSFER_TREE_HEIGHT) = Inr gg
      \<and> drawn (cl_root L) nr dr \<and> drawn (cl_withdraw_local L) nl dl \<and> drawn (cl_withdraw_global L) ng dg
      \<and> load_root_nova_params (ns_folding (cl_root L)) fs' (artifacts_path root None) = Inr nr
      \<and> decider_main L fs' root env create_pool = Inr prog
      \<and> dm_engine prog = \<lparr>pe_root = engine_context (cl_root L) nr dr,
          pe_withdraw_local = (if dg_enable_withdraw_local (dm_settings prog) then Some (engine_context (cl_withdraw_local L) nl dl) else None),
          pe_withdraw_global = engine_context (cl_withdraw_global L) ng dg\<rparr>
      \<and> load_withdraw_params (ns_folding (cl_withdraw_local L)) fs' (path_join root ''nova_artifacts'') TRANSFER_TREE_HEIGHT = Inr nl
      \<and> load_withdraw_params (ns_folding (cl_withdraw_global L)) fs' (path_join root ''nova_artifacts'') GLOBAL_TRANSFER_TREE_HEIGHT = Inr ng
      \<and> load_single_withdraw_params (gs_lib (cl_groth16 L)) fs' (path_join root ''nova_artifacts'') TRANSFER_TREE_HEIGHT = Inr gl
      \<and> load_single_withdraw_params (gs_lib (cl_groth16 L)) fs' (path_join root ''nova_artifacts'') GLOBAL_TRANSFER_TREE_HEIGHT = Inr gg"
proof -
  have dir: "artifacts_path root None = path_join root ''nova_artifacts''"
    by (simp add: artifacts_path_def)
  obtain gl gg nr dr nl dl ng dg where
    "groth16_rand (gs_lib (cl_groth16 L)) 42 (single_withdraw_new TRANSFER_TREE_HEIGHT) = Inr gl"
    "groth16_rand (gs_lib (cl_groth16 L)) 42 (single_withdraw_new GLOBAL_TRANSFER_TREE_HEIGHT) = Inr gg"
    "drawn (cl_root L) nr dr" "drawn (cl_withdraw_local L) nl dl" "drawn (cl_withdraw_global L) ng dg"
    and at16: "groth16_at (cl_groth16 L) fs' (artifacts_path root None) ''withdraw_local'' gl"
      "groth16_at (cl_groth16 L) fs' (artifacts_path root None) ''withdraw_global'' gg"
    and at: "nova_at (cl_root L) fs' (artifacts_path root None) ''root'' nr dr"
      "nova_at (cl_withdraw_local L) fs' (artifacts_path root None) ''withdraw_local'' nl dl"
      "nova_at (cl_withdraw_global L) fs' (artifacts_path root None) ''withdraw_global'' ng dg"
    using generator_stores [OF libs run dir] by blast
  moreover obtain prog where "decider_main L fs' root env create_pool = Inr prog"
      "dm_engine prog = \<lparr>pe_root = engine_context (cl_root L) nr dr,
          pe_withdraw_local = (if dg_enable_withdraw_local (dm_settings prog) then Some (engine_context (cl_withdraw_local L) nl dl) else None),
          pe_withdraw_global = engine_context (cl_withdraw_global L) ng dg\<rparr>"
    using decider_starts [where create_pool = create_pool, OF env root pool at [unfolded dir]] by blast
  ultimately show ?thesis
    using root_params_load [OF at(1)] withdraw_params_load [OF at(2)] withdraw_params_load [OF at(3)]
      single_params_load [OF at16(1)] single_params_load [OF at16(2)] by (intro exI conjI) (simp_all add: dir)
qed

text \<open>Libraries whose keys are their own encodings, and a disk that accepts every write.\<close>

definition sample_system :: "byte \<Rightarrow> (bytes, bytes, unit, unit, 'e, bytes, bytes, unit) nova_system" where
  "sample_system k = \<lparr>
     ns_folding = \<lparr>fl_circuit_new = Inr (), fl_preprocess = Inr ([k, 1], [k, 2]), fl_state_len = 4,
       fl_pp_deserialize = Inr, fl_vp_deserialize = Inr, fl_pp_serialize = Inr, fl_vp_serialize = Inr,
       fl_init = (\<lambda>_ _ _. Inr ()), fl_from_ivc_proof = (\<lambda>_ _ _. Inr ()), fl_prove_step = (\<lambda>_ _. Inr ()), fl_state = (\<lambda>_. []),
       fl_ivc_proof = (\<lambda>_. ()), fl_verify = (\<lambda>_ _. Inr ()), fl_ivc_serialize = (\<lambda>_. Inr [])\<rparr>,
     ns_decider = \<lparr>dl_preprocess = (\<lambda>pp vp n. Inr (pp @ [3], vp @ [4])), dl_pp_deserialize = Inr, dl_vp_deserialize = Inr,
       dl_pp_serialize = Inr, dl_vp_serialize = Inr, dl_prove = (\<lambda>_ _. Inr ()), dl_verify = (\<lambda>_ _ _. Inr True),
       dl_nova_eth = (\<lambda>_. \<lparr>ne_i = [], ne_z_0 = [], ne_z_i = [], ne_U_cmW = [], ne_U_cmE = [], ne_u_cmW = []\<rparr>),
       dl_proof_eth = (\<lambda>_. \<lparr>de_cmT = [], de_r = [], de_snark_proof = [], de_kzg_challenges = [], de_eval_W = [], de_eval_E = [],
         de_kzg_proof_W = [], de_kzg_proof_E = []\<rparr>)\<rparr>,
     ns_ivc_deserialize = (\<lambda>_. Inr ()),
     ns_decider_template = (\<lambda>vp n. ascii_bytes ''contract NovaDecider {}'')\<rparr>"

definition sample_groth16 :: "(bytes, bytes, unit) groth16_system" where
  "sample_groth16 = \<lparr>
     gs_lib = \<lparr>gl_setup = (\<lambda>c rng. Inr ([5, of_nat (length (sw_siblings c))], [6, of_nat (length (sw_siblings c))])),
       gl_prove = (\<lambda>_ _ _. Inr ()), gl_verify = (\<lambda>_ _ _. Inr True), gl_pk_serialize = Inr, gl_vk_serialize = Inr,
       gl_pk_deserialize = Inr, gl_vk_deserialize = Inr, gl_proof_to_eth = (\<lambda>_. []), gl_inputs_to_eth = (\<lambda>_. [])\<rparr>,
     gs_render = (\<lambda>_. ascii_bytes ''contract Groth16Verifier {}'')\<rparr>"

definition sample_libs :: "(bytes, bytes, unit, unit, bytes, bytes, unit, bytes, bytes, unit) circuit_libs" where
  "sample_libs = \<lparr>cl_groth16 = sample_groth16, cl_root = sample_system 10, cl_withdraw_local = sample_system 20,
     cl_withdraw_global = sample_system 30\<rparr>"

definition sample_disk :: fs_ops where
  "sample_disk = \<lparr>fo_create_dir_all = (\<lambda>_. Inr ()), fo_write = (\<lambda>_ _. Inr ())\<rparr>"

definition sample_decider_env :: decider_env where
  "sample_decider_env = \<lparr>dn_redis_url = Some ''redis://db'', dn_artifacts_dir = None, dn_queue_key = None, dn_job_key_prefix = None,
     dn_listen_addr = None, dn_json_body_limit_bytes = None, dn_job_ttl_seconds = None, dn_enable_withdraw_local = Some True\<rparr>"

lemma sample_drawn:
  "drawn (sample_system k) nova dec \<longleftrightarrow> nova = \<lparr>np_pp = [k, 1], np_vp = [k, 2]\<rparr> \<and> dec = \<lparr>dp_pp = [k, 1, 3], dp_vp = [k, 2, 4]\<rparr>"
  by (auto simp: drawn_def sample_system_def nova_rand_def decider_rand_def nova_state_len_def)

lemma sample_groth16_rand:
  "groth16_rand (gs_lib sample_groth16) r (single_withdraw_new n) = Inr \<lparr>gp_vk = [6, of_nat n], gp_pk = [5, of_nat n]\<rparr>"
  by (simp add: sample_groth16_def groth16_rand_def single_withdraw_new_def)

lemma sample_libs_ok: "circuit_libs_ok sample_libs"
  by (auto simp: circuit_libs_ok_def sample_libs_def nova_system_ok_def groth16_system_ok_def sample_system_def sample_groth16_def)

lemma sample_bytes_ok:
  "is_ok (nova_to_bytes (ns_folding (sample_system k)) nova)" "is_ok (decider_to_bytes (ns_decider (sample_system k)) dec)"
  "is_ok (groth16_to_bytes (gs_lib sample_groth16) params)" "valid_utf8 (map unat (gs_render sample_groth16 vk))"
  by (simp_all add: nova_to_bytes_def decider_to_bytes_def sample_system_def groth16_to_bytes_def sample_groth16_def ascii_bytes_def)

lemma sample_setup_ok: "nova_setup_ok (sample_system k)" "groth16_setup_ok sample_groth16 n"
  by (simp_all add: nova_setup_ok_def sample_drawn groth16_setup_ok_def sample_groth16_rand sample_bytes_ok)

lemma sample_generator_runs: "\<exists>fs'. generate_circuit_artifacts sample_libs sample_disk (Some ''/zerc20'') Map.empty = (Inr (), fs')"
  by (rule generator_succeeds) (simp_all add: sample_libs_def sample_setup_ok disk_ok_def sample_disk_def)

theorem artifacts_load_witness:
  "\<exists>fs' prog. generate_circuit_artifacts sample_libs sample_disk (Some ''/zerc20'') Map.empty = (Inr (), fs')
     \<and> load_root_nova_params (ns_folding (cl_root sample_libs)) fs' ''/zerc20/nova_artifacts'' = Inr \<lparr>np_pp = [10, 1], np_vp = [10, 2]\<rparr>
     \<and> decider_main sample_libs fs' ''/zerc20'' sample_decider_env (\<lambda>_. Inr ()) = Inr prog
     \<and> pe_withdraw_local (dm_engine prog) \<noteq> None
     \<and> load_single_withdraw_params (gs_lib (cl_groth16 sample_libs)) fs' ''/zerc20/nova_artifacts'' TRANSFER_TREE_HEIGHT
         = Inr \<lparr>gp_vk = [6, 40], gp_pk = [5, 40]\<rparr>"
proof -
  obtain fs' where run: "generate_circuit_artifacts sample_libs sample_disk (Some ''/zerc20'') Map.empty = (Inr (), fs')"
    using sample_generator_runs by blast
  have hyps: "dn_redis_url sample_decider_env = Some ''redis://db''" "dn_artifacts_dir sample_decider_env = None"
    "dn_job_ttl_seconds sample_decider_env \<noteq> Some 0" "(Inr () :: prover_error + unit) = Inr ()" "take 1 ''/zerc20'' = ''/''"
    by (simp_all add: sample_decider_env_def)
  have dir: "artifacts_path ''/zerc20'' None = ''/zerc20/nova_artifacts''"
    by (simp add: artifacts_path_def path_join_def)
  from artifacts_load [where create_pool = "\<lambda>_. Inr ()", OF sample_libs_ok run hyps] obtain gl nr dr nl dl dec prog where
    "groth16_rand (gs_lib (cl_groth16 sample_libs)) 42 (single_withdraw_new TRANSFER_TREE_HEIGHT) = Inr gl" "drawn (cl_root sample_libs) nr dr"
    and loaded: "load_root_nova_params (ns_folding (cl_root sample_libs)) fs' (artifacts_path ''/zerc20'' None) = Inr nr"
      "load_single_withdraw_params (gs_lib (cl_groth16 sample_libs)) fs' (path_join ''/zerc20'' ''nova_artifacts'') TRANSFER_TREE_HEIGHT = Inr gl"
    and prog: "decider_main sample_libs fs' ''/zerc20'' sample_decider_env (\<lambda>_. Inr ()) = Inr prog"
      "pe_withdraw_local (dm_engine prog)
         = (if dg_enable_withdraw_local (dm_settings prog) then Some (engine_context (cl_withdraw_local sample_libs) nl dl) else None)"
    by force
  then have "gl = \<lparr>gp_vk = [6, 40], gp_pk = [5, 40]\<rparr>" "nr = \<lparr>np_pp = [10, 1], np_vp = [10, 2]\<rparr>"
    by (auto simp: sample_libs_def sample_drawn sample_groth16_rand tree_heights)
  moreover have "dg_enable_withdraw_local (dm_settings prog)"
    using prog(1) by (auto simp: decider_main_def load_config_def sample_decider_env_def unwrap_or_def Let_def res_bind_Inr_iff split: if_splits)
  ultimately show ?thesis
    using run loaded prog by (auto simp: dir path_join_def)
qed

end
