(* ===== verification/Wasm.thy ===== *)
theory Wasm
  imports Proving Payment
begin

text \<open>
  The library behind the browser wallet (\<open>wasm/src/lib.rs\<close>): conversion of text to field
  elements and words and back, derivation of burn addresses, the aggregation tree of a
  snapshot, and the two provers.

  JavaScript values are given as the Rust values they decode to. Hexadecimal encoding,
  addresses and the parser of 256-bit numbers are third-party code, fields of \<open>wasm_lib\<close>;
  \<open>from_str_radix\<close> on \<open>u64\<close> is that of the standard library.
\<close>

datatype wasm_error =
    JsError string
  | JsPayment payment_error
  | JsGroth16 groth16_error
  | JsNova nova_error
  | JsPanic

record wasm_lib =
  wl_hex :: "bytes \<Rightarrow> string"
  wl_unhex :: "string \<Rightarrow> bytes option"
  wl_address_from_str :: "string \<Rightarrow> address option"
  wl_address_hex :: "address \<Rightarrow> string"
  wl_u256_from_hex :: "string \<Rightarrow> u256 option"

section \<open>Numbers and field elements\<close>

definition digit_value :: "nat \<Rightarrow> char \<Rightarrow> nat option" where
  "digit_value radix c =
     (let n = of_char c :: nat;
          d = (if 48 \<le> n \<and> n \<le> 57 then Some (n - 48)
               else if 97 \<le> n \<and> n \<le> 122 then Some (n - 87)
               else if 65 \<le> n \<and> n \<le> 90 then Some (n - 55) else None)
      in case d of None \<Rightarrow> None | Some v \<Rightarrow> if v < radix then Some v else None)"

fun radix_loop :: "nat \<Rightarrow> nat \<Rightarrow> string \<Rightarrow> nat option" where
  "radix_loop radix acc [] = Some acc"
| "radix_loop radix acc (c # s) =
     (case digit_value radix c of
        None \<Rightarrow> None
      | Some d \<Rightarrow> if acc * radix + d < 2 ^ 64 then radix_loop radix (acc * radix + d) s else None)"

text \<open>A leading plus sign is accepted, an empty string and a lone sign are not.\<close>

definition u64_from_str_radix :: "nat \<Rightarrow> string \<Rightarrow> u64 option" where
  "u64_from_str_radix radix s =
     (if s = [] then None
      else let digits = (if hd s = CHR ''+'' \<and> tl s \<noteq> [] then tl s else s)
           in map_option word_of_nat (radix_loop radix 0 digits))"

definition parse_u64 :: "string \<Rightarrow> wasm_error + u64" where
  "parse_u64 value =
     (let normalized = trim_ascii value in
      if normalized = [] then Inl (JsError ''empty numeric value'')
      else if take 2 normalized = ''0x''
      then ok_or (JsError ''invalid hex for u64'') (u64_from_str_radix 16 (drop 2 normalized))
      else ok_or (JsError ''invalid decimal for u64'') (u64_from_str_radix 10 normalized))"

definition hex_to_fr :: "wasm_lib \<Rightarrow> string \<Rightarrow> wasm_error + fr" where
  "hex_to_fr L value =
     (let normalized = trim_ascii value in
      if normalized = [] then Inl (JsError ''empty field element'')
      else res_bind (ok_or (JsError ''invalid hex field element'') (wl_unhex L (strip_0x normalized))) (\<lambda>bs.
           Inr (fr_of_nat (nat_of_be bs))))"

definition fr_to_hex :: "wasm_lib \<Rightarrow> fr \<Rightarrow> string" where
  "fr_to_hex L value = ''0x'' @ wl_hex L (be_bytes 32 (into_bigint value))"

definition parse_b256_hex :: "wasm_lib \<Rightarrow> string \<Rightarrow> wasm_error + b256" where
  "parse_b256_hex L value =
     res_bind (ok_or (JsError ''invalid hex value'') (wl_unhex L (strip_0x value))) (\<lambda>bs.
     if length bs \<noteq> 32 then Inl (JsError ''expected 32-byte value'') else Inr (Field.u256_from_be_slice bs))"

definition parse_address_hex :: "wasm_lib \<Rightarrow> string \<Rightarrow> wasm_error + address" where
  "parse_address_hex L value = ok_or (JsError ''invalid recipient address'') (wl_address_from_str L value)"

definition b256_to_hex_string :: "wasm_lib \<Rightarrow> b256 \<Rightarrow> string" where
  "b256_to_hex_string L value = ''0x'' @ wl_hex L (u256_to_be_bytes value)"

definition parse_u256_hex :: "wasm_lib \<Rightarrow> string \<Rightarrow> wasm_error + u256" where
  "parse_u256_hex L value =
     (let trimmed = trim_ascii value in
      if trimmed = [] then Inl (JsError ''empty hex value'')
      else ok_or (JsError ''invalid hex-encoded U256'') (wl_u256_from_hex L (strip_0x trimmed)))"

section \<open>Secrets and burn addresses\<close>

record js_secret_tweak =
  jst_secret :: string
  jst_tweak :: string

record js_general_recipient =
  jgr_chain_id :: u64
  jgr_address :: string
  jgr_tweak :: string
  jgr_fr :: string
  jgr_u256 :: string

record js_burn_artifacts =
  jba_burn_address :: string
  jba_full_burn_address :: string
  jba_general_recipient :: js_general_recipient
  jba_secret :: string

definition secret_tweak_to_js :: "wasm_lib \<Rightarrow> secret_and_tweak \<Rightarrow> js_secret_tweak" where
  "secret_tweak_to_js L st = \<lparr>jst_secret = b256_to_hex_string L (st_secret st), jst_tweak = b256_to_hex_string L (st_tweak st)\<rparr>"

text \<open>\<open>Address::from_word\<close> takes the low twenty bytes.\<close>

definition general_recipient_to_js :: "wasm_lib \<Rightarrow> (bytes \<Rightarrow> bytes) \<Rightarrow> general_recipient \<Rightarrow> js_general_recipient" where
  "general_recipient_to_js L sha gr =
     (let fr_value = recipient_to_fr sha gr in
      \<lparr>jgr_chain_id = chain_id gr,
       jgr_address = wl_address_hex L (address_from_slice (drop 12 (u256_to_be_bytes (recipient_address gr)))),
       jgr_tweak = b256_to_hex_string L (tweak gr),
       jgr_fr = fr_to_hex L fr_value,
       jgr_u256 = b256_to_hex_string L (fr_to_b256 fr_value)\<rparr>)"

definition build_burn_artifacts ::
  "wasm_lib \<Rightarrow> (fr \<Rightarrow> fr \<Rightarrow> fr) \<Rightarrow> (bytes \<Rightarrow> bytes) \<Rightarrow> full_burn_address \<Rightarrow> wasm_error + js_burn_artifacts" where
  "build_burn_artifacts L H sha burn =
     res_bind (map_error JsPayment (burn_address H sha burn)) (\<lambda>a.
     Inr \<lparr>jba_burn_address = wl_address_hex L a,
          jba_full_burn_address = ''0x'' @ wl_hex L (burn_to_bytes burn),
          jba_general_recipient = general_recipient_to_js L sha (fb_gr burn),
          jba_secret = b256_to_hex_string L (fb_secret burn)\<rparr>)"

definition derive_payment_advice ::
  "wasm_lib \<Rightarrow> (fr \<Rightarrow> fr \<Rightarrow> fr) \<Rightarrow> (bytes \<Rightarrow> bytes) \<Rightarrow> (bytes \<Rightarrow> b256) \<Rightarrow> string \<Rightarrow> string \<Rightarrow> u64 \<Rightarrow> string
     \<Rightarrow> wasm_error + js_secret_tweak" where
  "derive_payment_advice L H sha keccak seed_hex payment_advice_id_hex recipient_chain_id recipient_address_hex =
     res_bind (parse_b256_hex L seed_hex) (\<lambda>seed.
     res_bind (parse_b256_hex L payment_advice_id_hex) (\<lambda>payment_advice_id.
     res_bind (parse_address_hex L recipient_address_hex) (\<lambda>addr.
     res_bind (ok_or JsPanic (payment_advice H sha keccak payment_advice_id seed recipient_chain_id addr)) (\<lambda>st.
     Inr (secret_tweak_to_js L st)))))"

definition derive_invoice_single ::
  "wasm_lib \<Rightarrow> (fr \<Rightarrow> fr \<Rightarrow> fr) \<Rightarrow> (bytes \<Rightarrow> bytes) \<Rightarrow> (bytes \<Rightarrow> b256) \<Rightarrow> string \<Rightarrow> string \<Rightarrow> u64 \<Rightarrow> string
     \<Rightarrow> wasm_error + js_secret_tweak" where
  "derive_invoice_single L H sha keccak seed_hex invoice_id_hex recipient_chain_id recipient_address_hex =
     res_bind (parse_b256_hex L seed_hex) (\<lambda>seed.
     res_bind (parse_b256_hex L invoice_id_hex) (\<lambda>invoice_id.
     res_bind (parse_address_hex L recipient_address_hex) (\<lambda>addr.
     res_bind (ok_or JsPanic (single_invoice H sha keccak invoice_id seed recipient_chain_id addr)) (\<lambda>st.
     Inr (secret_tweak_to_js L st)))))"

definition derive_invoice_batch ::
  "wasm_lib \<Rightarrow> (fr \<Rightarrow> fr \<Rightarrow> fr) \<Rightarrow> (bytes \<Rightarrow> bytes) \<Rightarrow> (bytes \<Rightarrow> b256) \<Rightarrow> string \<Rightarrow> string \<Rightarrow> u32 \<Rightarrow> u64 \<Rightarrow> string
     \<Rightarrow> wasm_error + js_secret_tweak" where
  "derive_invoice_batch L H sha keccak seed_hex invoice_id_hex sub_id recipient_chain_id recipient_address_hex =
     res_bind (parse_b256_hex L seed_hex) (\<lambda>seed.
     res_bind (parse_b256_hex L invoice_id_hex) (\<lambda>invoice_id.
     res_bind (parse_address_hex L recipient_address_hex) (\<lambda>addr.
     res_bind (ok_or JsPanic (batch_invoice H sha keccak invoice_id sub_id seed recipient_chain_id addr)) (\<lambda>st.
     Inr (secret_tweak_to_js L st)))))"

definition build_full_burn_address ::
  "wasm_lib \<Rightarrow> (fr \<Rightarrow> fr \<Rightarrow> fr) \<Rightarrow> (bytes \<Rightarrow> bytes) \<Rightarrow> u64 \<Rightarrow> string \<Rightarrow> string \<Rightarrow> string \<Rightarrow> wasm_error + js_burn_artifacts" where
  "build_full_burn_address L H sha recipient_chain_id recipient_address_hex secret_hex tweak_hex =
     res_bind (parse_address_hex L recipient_address_hex) (\<lambda>addr.
     res_bind (parse_b256_hex L secret_hex) (\<lambda>secret.
     res_bind (parse_b256_hex L tweak_hex) (\<lambda>tw.
     res_bind (map_error JsPayment (full_burn_address_new H sha recipient_chain_id addr \<lparr>st_secret = secret, st_tweak = tw\<rparr>)) (\<lambda>burn.
     build_burn_artifacts L H sha burn))))"

definition decode_full_burn_address_js ::
  "wasm_lib \<Rightarrow> (fr \<Rightarrow> fr \<Rightarrow> fr) \<Rightarrow> (bytes \<Rightarrow> bytes) \<Rightarrow> string \<Rightarrow> wasm_error + js_burn_artifacts" where
  "decode_full_burn_address_js L H sha full_burn_address_hex =
     res_bind (ok_or (JsError ''invalid FullBurnAddress hex'') (wl_unhex L (strip_0x full_burn_address_hex))) (\<lambda>bs.
     res_bind (map_error JsPayment (burn_from_bytes bs)) (\<lambda>burn.
     build_burn_artifacts L H sha burn))"

definition general_recipient_fr :: "wasm_lib \<Rightarrow> (bytes \<Rightarrow> bytes) \<Rightarrow> u64 \<Rightarrow> string \<Rightarrow> string \<Rightarrow> wasm_error + string" where
  "general_recipient_fr L sha cid recipient_address_hex tweak_hex =
     res_bind (parse_address_hex L recipient_address_hex) (\<lambda>addr.
     res_bind (parse_b256_hex L tweak_hex) (\<lambda>tw.
     Inr (fr_to_hex L (recipient_to_fr sha (new_evm cid addr tw)))))"

section \<open>The aggregation tree\<close>

fun fill_snapshot :: "wasm_lib \<Rightarrow> (fr \<Rightarrow> fr \<Rightarrow> fr) \<Rightarrow> nat \<Rightarrow> string list \<Rightarrow> merkle_tree \<Rightarrow> wasm_error + merkle_tree" where
  "fill_snapshot L H idx [] tree = Inr tree"
| "fill_snapshot L H idx (hex # rest) tree =
     (case parse_u256_hex L hex of
        Inl e \<Rightarrow> Inl e
      | Inr value \<Rightarrow>
          if value = 0 then fill_snapshot L H (idx + 1) rest tree
          else res_bind (ok_or JsPanic (update_leaf H tree (word_of_nat idx) (u256_to_fr value))) (\<lambda>tree'.
               fill_snapshot L H (idx + 1) rest tree'))"

definition aggregation_root :: "wasm_lib \<Rightarrow> (fr \<Rightarrow> fr \<Rightarrow> fr) \<Rightarrow> string list \<Rightarrow> wasm_error + string" where
  "aggregation_root L H snapshot =
     res_bind (fill_snapshot L H 0 snapshot (mt_new H AGGREGATION_TREE_HEIGHT)) (\<lambda>tree.
     res_bind (ok_or JsPanic (mt_get_root tree)) (\<lambda>root.
     Inr (fr_to_hex L root)))"

definition aggregation_merkle_proof :: "wasm_lib \<Rightarrow> (fr \<Rightarrow> fr \<Rightarrow> fr) \<Rightarrow> string list \<Rightarrow> u32 \<Rightarrow> wasm_error + string list" where
  "aggregation_merkle_proof L H snapshot index =
     res_bind (fill_snapshot L H 0 snapshot (mt_new H AGGREGATION_TREE_HEIGHT)) (\<lambda>tree.
     if 2 ^ AGGREGATION_TREE_HEIGHT \<le> unat index then Inl (JsError ''aggregation index exceeds tree capacity'')
     else res_bind (ok_or JsPanic (mt_prove tree (ucast index))) (\<lambda>p.
          Inr (map (fr_to_hex L) (siblings p))))"

section \<open>The provers\<close>

record js_external_input =
  jx_is_dummy :: bool
  jx_value :: string
  jx_secret :: string
  jx_leaf_index :: string
  jx_siblings :: "string list"

record js_prove_result =
  jpr_final_state :: "string list"
  jpr_ivc_proof :: string
  jpr_steps :: nat

record js_single_withdraw_input =
  jsw_merkle_root :: string
  jsw_recipient :: string
  jsw_withdraw_value :: string
  jsw_value :: string
  jsw_delta :: string
  jsw_secret :: string
  jsw_leaf_index :: string
  jsw_siblings :: "string list"

record js_groth16_prove_result =
  jgp_proof_calldata :: string
  jgp_public_inputs :: "string list"
  jgp_tree_depth :: nat

definition external_input :: "wasm_lib \<Rightarrow> nat \<Rightarrow> js_external_input \<Rightarrow> wasm_error + withdraw_external_inputs" where
  "external_input L DEPTH external =
     res_bind (res_map (hex_to_fr L) (jx_siblings external)) (\<lambda>sibs.
     if length sibs \<noteq> DEPTH then Inl (JsError ''Merkle path must have DEPTH siblings'')
     else res_bind (parse_u64 (jx_leaf_index external)) (\<lambda>leaf_index.
          res_bind (hex_to_fr L (jx_value external)) (\<lambda>value_fr.
          res_bind (hex_to_fr L (jx_secret external)) (\<lambda>secret_fr.
          Inr \<lparr>we_is_dummy = (if jx_is_dummy external then 1 else 0), we_value = value_fr, we_secret = secret_fr,
               we_leaf_index = fr_of_nat (unat leaf_index), we_siblings = sibs\<rparr>))))"

fun prove_inputs ::
  "wasm_lib \<Rightarrow> ('pp, 'vp, 'n, 'i, withdraw_external_inputs) folding_lib \<Rightarrow> nat \<Rightarrow> js_external_input list \<Rightarrow> 'n \<Rightarrow> wasm_error + 'n" where
  "prove_inputs L F DEPTH [] nova = Inr nova"
| "prove_inputs L F DEPTH (external # rest) nova =
     res_bind (external_input L DEPTH external) (\<lambda>ext_input.
     res_bind (map_error JsError (fl_prove_step F nova ext_input)) (\<lambda>nova'.
     prove_inputs L F DEPTH rest nova'))"

definition prove_with_depth ::
  "wasm_lib \<Rightarrow> ('pp, 'vp, 'n, 'i, withdraw_external_inputs) folding_lib \<Rightarrow> nat \<Rightarrow> ('pp, 'vp) nova_params \<Rightarrow> fr list
     \<Rightarrow> js_external_input list \<Rightarrow> wasm_error + js_prove_result" where
  "prove_with_depth L F DEPTH params z0_fields step_inputs =
     res_bind (map_error JsNova (initial_nova F params z0_fields)) (\<lambda>nova.
     res_bind (prove_inputs L F DEPTH step_inputs nova) (\<lambda>nova'.
     let final_state = map (fr_to_hex L) (fl_state F nova'); ivc_proof = fl_ivc_proof F nova' in
     res_bind (map_error JsNova (nova_verify F params ivc_proof)) (\<lambda>_.
     res_bind (map_error JsError (fl_ivc_serialize F ivc_proof)) (\<lambda>proof_bytes.
     Inr \<lparr>jpr_final_state = final_state, jpr_ivc_proof = ''0x'' @ wl_hex L proof_bytes, jpr_steps = length step_inputs\<rparr>))))"

record ('pp, 'vp, 'pp2, 'vp2) withdraw_nova_wasm =
  wn_local :: "('pp, 'vp) nova_params"
  wn_global :: "('pp2, 'vp2) nova_params"

definition withdraw_nova_wasm_new ::
  "('pp, 'vp, 'n, 'i, withdraw_external_inputs) folding_lib \<Rightarrow> ('pp2, 'vp2, 'n2, 'i2, withdraw_external_inputs) folding_lib
     \<Rightarrow> bytes \<Rightarrow> bytes \<Rightarrow> bytes \<Rightarrow> bytes \<Rightarrow> wasm_error + ('pp, 'vp, 'pp2, 'vp2) withdraw_nova_wasm" where
  "withdraw_nova_wasm_new F G local_pp local_vp global_pp global_vp =
     res_bind (map_error JsNova (nova_from_bytes F local_pp local_vp)) (\<lambda>l.
     res_bind (map_error JsNova (nova_from_bytes G global_pp global_vp)) (\<lambda>g.
     Inr \<lparr>wn_local = l, wn_global = g\<rparr>))"

definition withdraw_nova_prove ::
  "wasm_lib \<Rightarrow> ('pp, 'vp, 'n, 'i, withdraw_external_inputs) folding_lib \<Rightarrow> ('pp2, 'vp2, 'n2, 'i2, withdraw_external_inputs) folding_lib
     \<Rightarrow> ('pp, 'vp, 'pp2, 'vp2) withdraw_nova_wasm \<Rightarrow> string list \<Rightarrow> js_external_input list \<Rightarrow> wasm_error + js_prove_result" where
  "withdraw_nova_prove L F G self z0_hex step_inputs =
     (if length z0_hex \<noteq> WITHDRAW_STATE_LEN then Inl (JsError ''z0 must contain exactly four field elements'')
      else res_bind (res_map (hex_to_fr L) z0_hex) (\<lambda>z0_fields.
        let tree_height = (case step_inputs of [] \<Rightarrow> TRANSFER_TREE_HEIGHT | input # _ \<Rightarrow> length (jx_siblings input)) in
        if \<exists>input \<in> set step_inputs. length (jx_siblings input) \<noteq> tree_height
        then Inl (JsError ''all steps must have sibling paths with uniform length'')
        else if tree_height = TRANSFER_TREE_HEIGHT
        then prove_with_depth L F TRANSFER_TREE_HEIGHT (wn_local self) z0_fields step_inputs
        else if tree_height = GLOBAL_TRANSFER_TREE_HEIGHT
        then prove_with_depth L G GLOBAL_TRANSFER_TREE_HEIGHT (wn_global self) z0_fields step_inputs
        else Inl (JsError ''unsupported sibling path length'')))"

text \<open>The generator of the single prover starts from the fixed seed 42.\<close>

definition prove_single_with_depth ::
  "wasm_lib \<Rightarrow> ('pk, 'vk, 'p, single_withdraw_circuit, u64) groth16_lib \<Rightarrow> nat \<Rightarrow> ('pk, 'vk) groth16_params
     \<Rightarrow> js_single_withdraw_input \<Rightarrow> wasm_error + js_groth16_prove_result" where
  "prove_single_with_depth L G DEPTH params witness =
     (if length (jsw_siblings witness) \<noteq> DEPTH then Inl (JsError ''Merkle path must have DEPTH siblings'')
      else
        res_bind (hex_to_fr L (jsw_merkle_root witness)) (\<lambda>merkle_root_fr.
        res_bind (hex_to_fr L (jsw_recipient witness)) (\<lambda>recipient_fr.
        res_bind (hex_to_fr L (jsw_withdraw_value witness)) (\<lambda>withdraw_value_fr.
        res_bind (hex_to_fr L (jsw_value witness)) (\<lambda>value_fr.
        res_bind (hex_to_fr L (jsw_delta witness)) (\<lambda>delta_fr.
        res_bind (hex_to_fr L (jsw_secret witness)) (\<lambda>secret_fr.
        res_bind (parse_u64 (jsw_leaf_index witness)) (\<lambda>leaf_index_u64.
        res_bind (res_map (hex_to_fr L) (jsw_siblings witness)) (\<lambda>siblings_vec.
        let circuit = \<lparr>sw_merkle_root = Some merkle_root_fr, sw_recipient = Some recipient_fr,
              sw_withdraw_value = Some withdraw_value_fr, sw_value = Some value_fr, sw_delta = Some delta_fr,
              sw_secret = Some secret_fr, sw_leaf_index = Some leaf_index_u64, sw_siblings = map Some siblings_vec\<rparr> in
        res_bind (map_error (\<lambda>_. JsError ''AssignmentMissing'') (single_public_inputs circuit)) (\<lambda>public_inputs.
        res_bind (map_error JsGroth16 (generate_proof G params 42 circuit public_inputs)) (\<lambda>proof_bytes.
        Inr \<lparr>jgp_proof_calldata = ''0x'' @ wl_hex L proof_bytes, jgp_public_inputs = map (fr_to_hex L) public_inputs,
             jgp_tree_depth = DEPTH\<rparr>)))))))))))"

record ('pk, 'vk) single_withdraw_wasm =
  sn_local :: "('pk, 'vk) groth16_params"
  sn_global :: "('pk, 'vk) groth16_params"

definition single_withdraw_wasm_new ::
  "('pk, 'vk, 'p, single_withdraw_circuit, u64) groth16_lib \<Rightarrow> bytes \<Rightarrow> bytes \<Rightarrow> bytes \<Rightarrow> bytes
     \<Rightarrow> wasm_error + ('pk, 'vk) single_withdraw_wasm" where
  "single_withdraw_wasm_new G local_pk local_vk global_pk global_vk =
     res_bind (map_error JsGroth16 (groth16_from_bytes G local_pk local_vk)) (\<lambda>l.
     res_bind (map_error JsGroth16 (groth16_from_bytes G global_pk global_vk)) (\<lambda>g.
     Inr \<lparr>sn_local = l, sn_global = g\<rparr>))"

definition single_withdraw_prove ::
  "wasm_lib \<Rightarrow> ('pk, 'vk, 'p, single_withdraw_circuit, u64) groth16_lib \<Rightarrow> ('pk, 'vk) single_withdraw_wasm
     \<Rightarrow> js_single_withdraw_input \<Rightarrow> wasm_error + js_groth16_prove_result" where
  "single_withdraw_prove L G self witness =
     (let tree_depth = length (jsw_siblings witness) in
      if tree_depth = TRANSFER_TREE_HEIGHT then prove_single_with_depth L G TRANSFER_TREE_HEIGHT (sn_local self) witness
      else if tree_depth = GLOBAL_TRANSFER_TREE_HEIGHT
      then prove_single_with_depth L G GLOBAL_TRANSFER_TREE_HEIGHT (sn_global self) witness
      else Inl (JsError ''unsupported sibling path length''))"

end
