(* ===== verification/Storage.thy ===== *)
theory Storage
  imports Prelude "HOL-Library.Sublist"
begin

text \<open>
  The storage canister (\<open>zstorage/backend/storage/src/lib.rs\<close>): a board of encrypted
  announcements, numbered in the order of their submission and read in pages, and the
  identifiers of issued invoices, filed under the address that signed their submission.

  Arrays of bytes are byte lists. Signatures, Keccak-256, the EIP-191 prefix and the
  hexadecimal encoding are third-party code and fields of \<open>signatures\<close>. An update call that
  returns an error keeps the changes it made; the counter of announcements wraps around at
  64 bits, as in a release build.
\<close>

section \<open>Signatures\<close>

record 'sig signatures =
  sg_keccak :: "bytes \<Rightarrow> b256"
  sg_eip191 :: "bytes \<Rightarrow> bytes"
  sg_hex :: "bytes \<Rightarrow> string"
  sg_from_raw :: "bytes \<Rightarrow> 'sig option"
  sg_from_erc2098 :: "bytes \<Rightarrow> 'sig"
  sg_recover :: "'sig \<Rightarrow> b256 \<Rightarrow> bytes option"

definition text_bytes :: "string \<Rightarrow> bytes" where
  "text_bytes s = map of_char s"

section \<open>State\<close>

definition MAX_CIPHERTEXT_BYTES :: nat where "MAX_CIPHERTEXT_BYTES = 16 * 1024"
definition MAX_IBE_CIPHERTEXT_BYTES :: nat where "MAX_IBE_CIPHERTEXT_BYTES = 512"
definition DEFAULT_LIST_LIMIT :: nat where "DEFAULT_LIST_LIMIT = 50"
definition MAX_LIST_LIMIT :: nat where "MAX_LIST_LIMIT = 200"

record announcement_input =
  in_ibe_ciphertext :: bytes
  in_ciphertext :: bytes
  in_nonce :: bytes

record announcement =
  an_id :: u64
  an_ibe_ciphertext :: bytes
  an_ciphertext :: bytes
  an_nonce :: bytes
  an_created_at_ns :: u64

record announcement_page =
  pg_announcements :: "announcement list"
  pg_next_id :: "u64 option"

record invoice_submission =
  is_invoice_id :: bytes
  is_signature :: bytes

record storage_state =
  so_announcements :: "announcement list"
  so_next_id :: u64
  so_invoices :: "bytes \<rightharpoonup> bytes list"

definition storage_init :: storage_state where
  "storage_init = \<lparr>so_announcements = [], so_next_id = 0, so_invoices = Map.empty\<rparr>"

datatype storage_error =
    IbeSizeInvalid
  | CiphertextSizeInvalid
  | NonceLength
  | InvoiceIdLength
  | SignatureLength
  | SignatureInvalid
  | RecoveryError
  | AddressLength

section \<open>Announcements\<close>

definition validate_announcement :: "announcement_input \<Rightarrow> storage_error + unit" where
  "validate_announcement input =
     (if in_ibe_ciphertext input = [] \<or> length (in_ibe_ciphertext input) > MAX_IBE_CIPHERTEXT_BYTES then Inl IbeSizeInvalid
      else if in_ciphertext input = [] \<or> length (in_ciphertext input) > MAX_CIPHERTEXT_BYTES then Inl CiphertextSizeInvalid
      else if length (in_nonce input) \<noteq> 12 then Inl NonceLength
      else Inr ())"

definition submit_announcement ::
  "announcement_input \<Rightarrow> u64 \<Rightarrow> storage_state \<Rightarrow> (storage_error + announcement) \<times> storage_state" where
  "submit_announcement input now s =
     (case validate_announcement input of
        Inl e \<Rightarrow> (Inl e, s)
      | Inr _ \<Rightarrow>
          let a = \<lparr>an_id = so_next_id s, an_ibe_ciphertext = in_ibe_ciphertext input, an_ciphertext = in_ciphertext input,
                   an_nonce = in_nonce input, an_created_at_ns = now\<rparr>
          in (Inr a, s\<lparr>so_announcements := so_announcements s @ [a], so_next_id := so_next_id s + 1\<rparr>))"

text \<open>The loop over the announcements: skip up to \<open>start\<close>, collect, stop at the first one too many.\<close>

fun list_loop :: "u64 option \<Rightarrow> nat \<Rightarrow> announcement list \<Rightarrow> announcement list \<Rightarrow> announcement list \<times> u64 option" where
  "list_loop start limit collected [] = (collected, None)"
| "list_loop start limit collected (a # as) =
     (if (case start of None \<Rightarrow> False | Some st \<Rightarrow> an_id a \<le> st) then list_loop start limit collected as
      else if length collected < limit then list_loop start limit (collected @ [a]) as
      else (collected, Some (an_id a)))"

definition list_limit :: "u32 option \<Rightarrow> nat" where
  "list_limit limit = min (case limit of None \<Rightarrow> DEFAULT_LIST_LIMIT | Some l \<Rightarrow> unat l) MAX_LIST_LIMIT"

definition list_announcements :: "storage_state \<Rightarrow> u64 option \<Rightarrow> u32 option \<Rightarrow> announcement_page" where
  "list_announcements s start_after limit =
     (let (items, next_marker) = list_loop start_after (list_limit limit) [] (so_announcements s)
      in \<lparr>pg_announcements = sort_key an_id items, pg_next_id = next_marker\<rparr>)"

definition get_announcement :: "storage_state \<Rightarrow> u64 \<Rightarrow> announcement option" where
  "get_announcement s i = List.find (\<lambda>a. an_id a = i) (so_announcements s)"

section \<open>Invoices\<close>

definition normalize_invoice_id :: "bytes \<Rightarrow> storage_error + bytes" where
  "normalize_invoice_id iid = (if length iid \<noteq> 32 then Inl InvoiceIdLength else Inr iid)"

definition parse_signature :: "'sig signatures \<Rightarrow> bytes \<Rightarrow> storage_error + 'sig" where
  "parse_signature sg bs =
     (if length bs = 65 then ok_or SignatureInvalid (sg_from_raw sg bs)
      else if length bs = 64 then Inr (sg_from_erc2098 sg bs)
      else Inl SignatureLength)"

definition normalize_address :: "bytes \<Rightarrow> storage_error + bytes" where
  "normalize_address addr = (if length addr \<noteq> 20 then Inl AddressLength else Inr addr)"

definition invoice_signature_message :: "'sig signatures \<Rightarrow> bytes \<Rightarrow> bytes" where
  "invoice_signature_message sg iid =
     sg_eip191 sg (text_bytes (''ICP Stealth Invoice Submission:'' @ [CHR 0x0A] @ ''invoice_id: 0x'' @ sg_hex sg iid))"

definition recover_address_from_signature :: "'sig signatures \<Rightarrow> 'sig \<Rightarrow> bytes \<Rightarrow> storage_error + bytes" where
  "recover_address_from_signature sg sig message = ok_or RecoveryError (sg_recover sg sig (sg_keccak sg message))"

definition invoice_signer :: "'sig signatures \<Rightarrow> invoice_submission \<Rightarrow> storage_error + bytes \<times> bytes" where
  "invoice_signer sg input =
     res_bind (normalize_invoice_id (is_invoice_id input)) (\<lambda>iid.
     res_bind (parse_signature sg (is_signature input)) (\<lambda>sig.
     res_bind (recover_address_from_signature sg sig (invoice_signature_message sg iid)) (\<lambda>signer.
     Inr (signer, iid))))"

definition submit_invoice ::
  "'sig signatures \<Rightarrow> invoice_submission \<Rightarrow> storage_state \<Rightarrow> (storage_error + unit) \<times> storage_state" where
  "submit_invoice sg input s =
     (case invoice_signer sg input of
        Inl e \<Rightarrow> (Inl e, s)
      | Inr (signer, iid) \<Rightarrow>
          let invoices = (case so_invoices s signer of None \<Rightarrow> [] | Some l \<Rightarrow> l);
              invoices' = (if iid \<in> set invoices then invoices else invoices @ [iid])
          in (Inr (), s\<lparr>so_invoices := (so_invoices s)(signer \<mapsto> invoices')\<rparr>))"

definition list_invoices :: "storage_state \<Rightarrow> bytes \<Rightarrow> storage_error + bytes list" where
  "list_invoices s addr =
     res_bind (normalize_address addr) (\<lambda>a.
     Inr (case so_invoices s a of None \<Rightarrow> [] | Some l \<Rightarrow> l))"

section \<open>Upgrades and the steps of the canister\<close>

text \<open>Stable memory survives an upgrade, the heap does not.\<close>

definition pre_upgrade :: "storage_state \<Rightarrow> storage_state option" where
  "pre_upgrade s = Some s"

definition post_upgrade :: "storage_state option \<Rightarrow> storage_state option" where
  "post_upgrade memory = memory"

inductive storage_step :: "'sig signatures \<Rightarrow> storage_state \<Rightarrow> storage_state \<Rightarrow> bool" for sg where
  step_announcement: "submit_announcement input now s = (r, s') \<Longrightarrow> storage_step sg s s'"
| step_invoice: "submit_invoice sg input s = (r, s') \<Longrightarrow> storage_step sg s s'"
| step_upgrade: "post_upgrade (pre_upgrade s) = Some s' \<Longrightarrow> storage_step sg s s'"

inductive_cases storage_stepE: "storage_step sg s s'"

abbreviation storage_steps :: "'sig signatures \<Rightarrow> storage_state \<Rightarrow> storage_state \<Rightarrow> bool" where
  "storage_steps sg \<equiv> (storage_step sg)\<^sup>*\<^sup>*"

text \<open>The same calls as data, for statements about what was submitted.\<close>

datatype canister_call =
    SubmitAnnouncement announcement_input u64
  | SubmitInvoice invoice_submission
  | UpgradeStorage

fun storage_apply :: "'sig signatures \<Rightarrow> canister_call \<Rightarrow> storage_state \<Rightarrow> storage_state" where
  "storage_apply sg (SubmitAnnouncement input now) s = snd (submit_announcement input now s)"
| "storage_apply sg (SubmitInvoice input) s = snd (submit_invoice sg input s)"
| "storage_apply sg UpgradeStorage s = (case post_upgrade (pre_upgrade s) of None \<Rightarrow> s | Some s' \<Rightarrow> s')"

abbreviation storage_after :: "'sig signatures \<Rightarrow> canister_call list \<Rightarrow> storage_state \<Rightarrow> storage_state" where
  "storage_after sg \<equiv> fold (storage_apply sg)"

lemma storage_apply_step: "storage_step sg s (storage_apply sg c s)"
  by (cases c) (auto simp: pre_upgrade_def post_upgrade_def intro: step_announcement step_invoice step_upgrade prod.collapse [symmetric])

lemma storage_after_steps: "storage_steps sg s (storage_after sg calls s)"
proof (induction calls arbitrary: s)
  case (Cons c calls)
  then show ?case
    using converse_rtranclp_into_rtranclp [of "storage_step sg", OF storage_apply_step [of sg s c]] by simp
qed simp

section \<open>The invariant\<close>

definition numbered :: "announcement list \<Rightarrow> bool" where
  "numbered as \<longleftrightarrow> map an_id as = map word_of_nat [0..<length as]"

definition valid_announcement :: "announcement \<Rightarrow> bool" where
  "valid_announcement a \<longleftrightarrow> 0 < length (an_ibe_ciphertext a) \<and> length (an_ibe_ciphertext a) \<le> MAX_IBE_CIPHERTEXT_BYTES
     \<and> 0 < length (an_ciphertext a) \<and> length (an_ciphertext a) \<le> MAX_CIPHERTEXT_BYTES \<and> length (an_nonce a) = 12"

definition storage_inv :: "storage_state \<Rightarrow> bool" where
  "storage_inv s \<longleftrightarrow> numbered (so_announcements s) \<and> so_next_id s = word_of_nat (length (so_announcements s))
     \<and> (\<forall>a \<in> set (so_announcements s). valid_announcement a)
     \<and> (\<forall>addr l. so_invoices s addr = Some l \<longrightarrow> distinct l \<and> (\<forall>iid \<in> set l. length iid = 32))"

lemma numbered_snoc: "numbered (as @ [a]) \<longleftrightarrow> numbered as \<and> an_id a = word_of_nat (length as)"
  by (simp add: numbered_def)

lemma numbered_nth: "numbered as \<Longrightarrow> i < length as \<Longrightarrow> an_id (as ! i) = word_of_nat i"
  unfolding numbered_def by (metis add.left_neutral length_map nth_map nth_upt)

lemma submit_announcement_ok:
  "submit_announcement input now s = (Inr a, s') \<longleftrightarrow>
     validate_announcement input = Inr ()
     \<and> a = \<lparr>an_id = so_next_id s, an_ibe_ciphertext = in_ibe_ciphertext input, an_ciphertext = in_ciphertext input,
            an_nonce = in_nonce input, an_created_at_ns = now\<rparr>
     \<and> s' = s\<lparr>so_announcements := so_announcements s @ [a], so_next_id := so_next_id s + 1\<rparr>"
  by (auto simp: submit_announcement_def Let_def split: sum.splits)

lemma submit_announcement_error:
  "submit_announcement input now s = (Inl e, s') \<longleftrightarrow> validate_announcement input = Inl e \<and> s' = s"
  by (auto simp: submit_announcement_def Let_def split: sum.splits)

lemma validate_announcement_valid:
  "validate_announcement input = Inr () \<Longrightarrow>
     valid_announcement \<lparr>an_id = i, an_ibe_ciphertext = in_ibe_ciphertext input, an_ciphertext = in_ciphertext input,
       an_nonce = in_nonce input, an_created_at_ns = now\<rparr>"
  by (auto simp: validate_announcement_def valid_announcement_def split: if_splits)

lemma submit_announcement_inv:
  assumes "submit_announcement input now s = (r, s')" "storage_inv s"
  shows "storage_inv s'"
proof (cases r)
  case (Inl e)
  then show ?thesis
    using assms by (simp add: submit_announcement_error)
next
  case (Inr a)
  then show ?thesis
    using assms validate_announcement_valid [of input "so_next_id s" now]
    by (auto simp: submit_announcement_ok storage_inv_def numbered_snoc add.commute)
qed

lemma invoice_signer_id: "invoice_signer sg input = Inr (addr, iid) \<Longrightarrow> iid = is_invoice_id input \<and> length iid = 32"
  by (auto simp: invoice_signer_def res_bind_Inr_iff normalize_invoice_id_def split: if_splits)

lemma submit_invoice_inv:
  assumes "submit_invoice sg input s = (r, s')" "storage_inv s"
  shows "storage_inv s'"
proof (cases "invoice_signer sg input")
  case (Inl e)
  then show ?thesis
    using assms by (simp add: submit_invoice_def)
next
  case (Inr p)
  obtain addr iid where p: "p = (addr, iid)"
    by fastforce
  have "length iid = 32"
    using Inr p invoice_signer_id [of sg input addr iid] by blast
  then show ?thesis
    using assms Inr p
    by (auto simp: submit_invoice_def Let_def storage_inv_def split: if_splits option.splits)
qed

lemma storage_step_inv: "storage_step sg s s' \<Longrightarrow> storage_inv s \<Longrightarrow> storage_inv s'"
  by (auto elim!: storage_stepE dest: submit_announcement_inv submit_invoice_inv simp: post_upgrade_def pre_upgrade_def)

lemma storage_init_inv: "storage_inv storage_init"
  by (simp add: storage_inv_def storage_init_def numbered_def)

lemma storage_steps_inv: "storage_steps sg s s' \<Longrightarrow> storage_inv s \<Longrightarrow> storage_inv s'"
  by (induction rule: rtranclp_induct) (auto intro: storage_step_inv)

text \<open>Nothing is ever removed: announcements and invoices only grow.\<close>

definition filed :: "storage_state \<Rightarrow> bytes \<Rightarrow> bytes list" where
  "filed s addr = (case so_invoices s addr of None \<Rightarrow> [] | Some l \<Rightarrow> l)"

lemma storage_step_grows:
  assumes "storage_step sg s s'"
  shows "prefix (so_announcements s) (so_announcements s')" "prefix (filed s addr) (filed s' addr)"
  using assms
  by (auto elim!: storage_stepE simp: submit_announcement_def submit_invoice_def post_upgrade_def pre_upgrade_def Let_def
      filed_def split: sum.splits prod.splits option.splits if_splits)

lemma storage_steps_grow:
  assumes "storage_steps sg s s'"
  shows "prefix (so_announcements s) (so_announcements s')" "prefix (filed s addr) (filed s' addr)"
  using assms
proof (induction rule: rtranclp_induct)
  case (step t u)
  { case 1 then show ?case using step.IH(1) step.hyps(2) storage_step_grows(1) prefix_order.trans by blast }
  { case 2 then show ?case using step.IH(2) step.hyps(2) storage_step_grows(2) prefix_order.trans by blast }
qed auto

section \<open>Pages\<close>

lemma find_append: "List.find P (xs @ ys) = (case List.find P xs of None \<Rightarrow> List.find P ys | Some x \<Rightarrow> Some x)"
  by (induction xs) auto

text \<open>The number of announcements a reader who has seen \<open>start\<close> has behind it.\<close>

definition page_start :: "u64 option \<Rightarrow> nat" where
  "page_start start = (case start of None \<Rightarrow> 0 | Some i \<Rightarrow> Suc (unat i))"

lemma list_loop_eq:
  assumes "length collected \<le> limit"
  shows "list_loop start limit collected as =
    (let fresh = filter (\<lambda>a. \<not> (case start of None \<Rightarrow> False | Some st \<Rightarrow> an_id a \<le> st)) as
     in (collected @ take (limit - length collected) fresh,
         if length collected + length fresh \<le> limit then None else Some (an_id (fresh ! (limit - length collected)))))"
  using assms
proof (induction as arbitrary: collected)
  case (Cons a as)
  let ?skip = "case start of None \<Rightarrow> False | Some st \<Rightarrow> an_id a \<le> st"
  consider (skip) ?skip | (full) "\<not> ?skip" "limit = length collected" | (add) "\<not> ?skip" "length collected < limit"
    using Cons.prems by linarith
  then show ?case
  proof cases
    case skip
    then show ?thesis
      using Cons.IH [OF Cons.prems] by simp
  next
    case full
    then show ?thesis
      by (simp add: Let_def)
  next
    case add
    then have "limit - length collected = Suc (limit - Suc (length collected))"
      by linarith
    then show ?thesis
      using Cons.IH [of "collected @ [a]"] add by (simp add: Let_def)
  qed
qed simp

lemma numbered_fresh:
  assumes "numbered as" "length as \<le> 2 ^ 64"
  shows "filter (\<lambda>a. \<not> (case start of None \<Rightarrow> False | Some st \<Rightarrow> an_id a \<le> st)) as = drop (page_start start) as"
proof (cases start)
  case (Some st)
  have "filter (\<lambda>a. \<not> an_id a \<le> st) as = drop (Suc (unat st)) as"
    using assms
  proof (induction as rule: rev_induct)
    case (snoc a as)
    then have a: "unat (an_id a) = length as"
      by (simp add: numbered_snoc unat_word_of_nat)
    then have "an_id a \<le> st \<longleftrightarrow> length as < Suc (unat st)"
      by (simp add: word_le_nat_alt less_Suc_eq_le)
    then show ?case
      using snoc by (auto simp: numbered_snoc)
  qed simp
  then show ?thesis
    using Some by (simp add: page_start_def)
qed (simp add: page_start_def)

lemma numbered_sorted:
  assumes "numbered as" "length as \<le> 2 ^ 64"
  shows "sorted (map an_id as)"
  unfolding sorted_iff_nth_mono
proof (intro allI impI)
  fix i j assume ij: "i \<le> j" "j < length (map an_id as)"
  then have "unat (an_id (as ! i)) = i" "unat (an_id (as ! j)) = j"
    using assms by (auto simp: numbered_nth unat_word_of_nat)
  then show "map an_id as ! i \<le> map an_id as ! j"
    using ij by (simp add: word_le_nat_alt)
qed

lemma numbered_distinct:
  assumes "numbered as" "length as \<le> 2 ^ 64"
  shows "distinct (map an_id as)"
  unfolding distinct_conv_nth
proof (intro allI impI)
  fix i j assume "i < length (map an_id as)" "j < length (map an_id as)" "i \<noteq> j"
  moreover from this have "unat (map an_id as ! i) = i" "unat (map an_id as ! j) = j"
    using assms by (auto simp: numbered_nth unat_word_of_nat)
  ultimately show "map an_id as ! i \<noteq> map an_id as ! j"
    by metis
qed

lemma sort_key_numbered_part:
  assumes "numbered as" "length as \<le> 2 ^ 64"
  shows "sort_key an_id (take n (drop k as)) = take n (drop k as)"
  using numbered_sorted [OF assms]
  by (intro sort_key_id_if_sorted) (simp add: sorted_wrt_take sorted_wrt_drop flip: take_map drop_map)

text \<open>A page is the next part of the board; it names a next announcement when it is not the last.\<close>

lemma list_announcements_eq:
  assumes "numbered (so_announcements s)" "length (so_announcements s) \<le> 2 ^ 64"
  shows "list_announcements s start limit =
    \<lparr>pg_announcements = take (list_limit limit) (drop (page_start start) (so_announcements s)),
     pg_next_id = (if length (so_announcements s) \<le> page_start start + list_limit limit then None
       else Some (word_of_nat (page_start start + list_limit limit)))\<rparr>"
proof -
  have "an_id (drop (page_start start) (so_announcements s) ! list_limit limit) = word_of_nat (page_start start + list_limit limit)"
    if "\<not> length (so_announcements s) \<le> page_start start + list_limit limit"
    using that numbered_nth [OF assms(1)] by simp
  then show ?thesis
    by (auto simp: list_announcements_def list_loop_eq Let_def numbered_fresh [OF assms] sort_key_numbered_part [OF assms])
qed

section \<open>The board as its readers see it\<close>

locale announcement_board =
  fixes board :: "'st \<Rightarrow> announcement list"
    and read_page :: "'st \<Rightarrow> u64 option \<Rightarrow> u32 option \<Rightarrow> announcement_page"
    and later :: "'st \<Rightarrow> 'st \<Rightarrow> bool"
    and sound :: "'st \<Rightarrow> bool"
  assumes board_ids: "sound s \<Longrightarrow> i < length (board s) \<Longrightarrow> unat (an_id (board s ! i)) = i"
    and page_items: "sound s \<Longrightarrow> pg_announcements (read_page s start limit) = take (list_limit limit) (drop (page_start start) (board s))"
    and page_last: "sound s \<Longrightarrow> pg_next_id (read_page s start limit) = None \<longleftrightarrow> length (board s) \<le> page_start start + list_limit limit"
    and board_grows: "later s s' \<Longrightarrow> prefix (board s) (board s')"
begin

lemma board_length: "sound s \<Longrightarrow> length (board s) \<le> 2 ^ 64"
proof (rule ccontr)
  assume *: "sound s" "\<not> length (board s) \<le> 2 ^ 64"
  then have "unat (an_id (board s ! 18446744073709551616)) = 18446744073709551616"
    by (intro board_ids) simp_all
  then show False
    using unat_u64_less [of "an_id (board s ! 18446744073709551616)"] by simp
qed

lemma board_mono:
  assumes "\<And>k. later (st k) (st (Suc k))" "k \<le> n"
  shows "prefix (board (st k)) (board (st n))"
  using assms(2) by (induction rule: dec_induct) (auto intro: prefix_order.trans board_grows assms(1))

text \<open>Reading on after the last announcement of a page continues where the page ended.\<close>

lemma page_start_next:
  assumes "sound s" "pg_announcements (read_page s start limit) \<noteq> []"
  shows "page_start (Some (an_id (last (pg_announcements (read_page s start limit)))))
    = page_start start + length (pg_announcements (read_page s start limit))"
proof -
  let ?p = "pg_announcements (read_page s start limit)"
  let ?i = "page_start start + (length ?p - 1)"
  have p: "?p = take (list_limit limit) (drop (page_start start) (board s))"
    using assms(1) by (rule page_items)
  have len: "0 < length ?p" "?i < length (board s)"
    using assms(2) p by auto
  have "last ?p = board s ! ?i"
    using assms(2) len p by (simp add: last_conv_nth)
  then show ?thesis
    using board_ids [OF assms(1) len(2)] len(1) by (simp add: page_start_def)
qed

end

definition storage_sound :: "storage_state \<Rightarrow> bool" where
  "storage_sound s \<longleftrightarrow> storage_inv s \<and> length (so_announcements s) \<le> 2 ^ 64"

interpretation storage: announcement_board so_announcements list_announcements "storage_steps sg" "storage_sound" for sg
proof unfold_locales
  fix s i assume "storage_sound s" "i < length (so_announcements s)"
  then show "unat (an_id (so_announcements s ! i)) = i"
    by (auto simp: storage_sound_def storage_inv_def numbered_nth unat_word_of_nat)
qed (auto simp: storage_sound_def storage_inv_def list_announcements_eq storage_steps_grow dest: storage_steps_inv)

section \<open>What was submitted\<close>

text \<open>The invoices that the calls have submitted with an accepted signature of the address.\<close>

definition submitted_invoices :: "'sig signatures \<Rightarrow> canister_call list \<Rightarrow> bytes \<Rightarrow> bytes set" where
  "submitted_invoices sg calls addr = {iid. \<exists>input. SubmitInvoice input \<in> set calls \<and> invoice_signer sg input = Inr (addr, iid)}"

lemma filed_apply:
  "set (filed (storage_apply sg c s) addr) = set (filed s addr) \<union> submitted_invoices sg [c] addr"
  by (cases c) (auto simp: filed_def submitted_invoices_def submit_announcement_def submit_invoice_def post_upgrade_def pre_upgrade_def
      Let_def split: sum.splits prod.splits option.splits if_splits)

lemma filed_after: "set (filed (storage_after sg calls s) addr) = set (filed s addr) \<union> submitted_invoices sg calls addr"
proof (induction calls arbitrary: s)
  case (Cons c calls)
  have "submitted_invoices sg (c # calls) addr = submitted_invoices sg [c] addr \<union> submitted_invoices sg calls addr"
    by (auto simp: submitted_invoices_def)
  then show ?case
    using Cons by (simp add: filed_apply Un_assoc)
qed (simp add: submitted_invoices_def)

lemma list_invoices_filed: "length addr = 20 \<Longrightarrow> list_invoices s addr = Inr (filed s addr)"
  by (simp add: list_invoices_def normalize_address_def filed_def)

lemma distinct_filed: "storage_inv s \<Longrightarrow> distinct (filed s addr)"
  by (auto simp: filed_def storage_inv_def split: option.splits)

text \<open>
  \<^bold>\<open>C24\<close>. What the canister accepts it keeps (the code has no capacity limit and never evicts,
  unlike \<open>docs/zstorage/stealth_announcement_spec.md\<close>), through any later calls and upgrades, as long as
  it has taken at most \<open>2\<^sup>6\<^sup>4\<close> announcements: an accepted announcement gets a number that no
  earlier one has, and by that number it is found unchanged from then on. The invoices listed
  under an address are, without repetition, exactly those that were submitted, before or after,
  in a call with a signature that recovers to that address.
\<close>

theorem storage_keeps_submissions:
  assumes "s = storage_after sg calls storage_init" "submit_announcement input now s = (Inr a, s')"
    and "s'' = storage_after sg calls' s'" "length (so_announcements s'') \<le> 2 ^ 64"
  shows "get_announcement s'' (an_id a) = Some a \<and> get_announcement s (an_id a) = None
    \<and> an_ciphertext a = in_ciphertext input \<and> an_ibe_ciphertext a = in_ibe_ciphertext input \<and> an_nonce a = in_nonce input
    \<and> (\<forall>addr. length addr = 20 \<longrightarrow> (\<exists>l. list_invoices s'' addr = Inr l \<and> distinct l
         \<and> set l = {iid. \<exists>submission. SubmitInvoice submission \<in> set (calls @ calls')
                           \<and> invoice_signer sg submission = Inr (addr, iid)}))"
proof -
  have "storage_inv s"
    using storage_steps_inv [OF storage_after_steps storage_init_inv] assms(1) by simp
  note submit_announcement_inv [OF assms(2) this]
  then have inv: "storage_inv s''"
    using storage_steps_inv [OF storage_after_steps] assms(3) by simp
  have s': "so_announcements s' = so_announcements s @ [a]" "an_id a = so_next_id s" "so_invoices s' = so_invoices s"
    using assms(2) by (simp_all add: submit_announcement_ok)
  have "distinct (map an_id (so_announcements s''))" "prefix (so_announcements s @ [a]) (so_announcements s'')"
    using numbered_distinct [OF _ assms(4)] inv storage_steps_grow(1) [OF storage_after_steps, of s' sg calls'] s'(1) assms(3)
    by (simp_all add: storage_inv_def)
  moreover from this(2) obtain zs where zs: "so_announcements s'' = so_announcements s @ a # zs"
    by (auto simp: prefix_def)
  ultimately have "an_id a \<notin> an_id ` set (so_announcements s)"
    by simp
  then have none: "List.find (\<lambda>b. an_id b = an_id a) (so_announcements s) = None"
    by (auto simp: find_None_iff image_iff)
  have "filed s' addr = filed s addr" "filed storage_init addr = []" for addr
    using s'(3) by (simp_all add: filed_def storage_init_def)
  then have "set (filed s'' addr) = submitted_invoices sg (calls @ calls') addr" for addr
    using filed_after [of sg calls storage_init addr] filed_after [of sg calls' s' addr]
    by (auto simp: assms(1,3) submitted_invoices_def)
  then have invoices: "\<exists>l. list_invoices s'' addr = Inr l \<and> distinct l \<and> set l = submitted_invoices sg (calls @ calls') addr"
    if "length addr = 20" for addr
    using list_invoices_filed [OF that] distinct_filed [OF inv] by blast
  have "get_announcement s'' (an_id a) = Some a"
    using none zs by (simp add: get_announcement_def find_append)
  then show ?thesis
    using none assms(2) invoices by (auto simp: get_announcement_def submit_announcement_ok submitted_invoices_def)
qed

definition sample_input :: announcement_input where
  "sample_input = \<lparr>in_ibe_ciphertext = [1], in_ciphertext = [2], in_nonce = replicate 12 3\<rparr>"

text \<open>A sample wallet without secrets: every signature recovers to its first 20 bytes.\<close>

definition sample_signatures :: "bytes signatures" where
  "sample_signatures = \<lparr>sg_keccak = (\<lambda>_. 0), sg_eip191 = id, sg_hex = (\<lambda>_. []), sg_from_raw = Some,
     sg_from_erc2098 = id, sg_recover = (\<lambda>sig _. Some (take 20 sig))\<rparr>"

text \<open>An invoice is submitted before the announcement and another announcement after it.\<close>

theorem storage_keeps_submissions_witness:
  "\<exists>a s' s'' l. submit_announcement sample_input 4
        (storage_after sample_signatures [SubmitInvoice \<lparr>is_invoice_id = replicate 32 8, is_signature = replicate 65 7\<rparr>] storage_init)
        = (Inr a, s')
    \<and> s'' = storage_after sample_signatures [UpgradeStorage, SubmitAnnouncement sample_input 5] s'
    \<and> get_announcement s'' (an_id a) = Some a \<and> an_ciphertext a = [2]
    \<and> list_invoices s'' (replicate 20 7) = Inr l \<and> replicate 32 8 \<in> set l"
proof -
  let ?inv = "\<lparr>is_invoice_id = replicate 32 8, is_signature = replicate 65 7\<rparr>"
  let ?s = "storage_after sample_signatures [SubmitInvoice ?inv] storage_init"
  have len: "length (so_announcements ?s) = 0"
    by (simp add: submit_invoice_def storage_init_def Let_def split: sum.splits prod.splits)
  have valid: "validate_announcement sample_input = Inr ()"
    by (simp add: validate_announcement_def sample_input_def MAX_IBE_CIPHERTEXT_BYTES_def MAX_CIPHERTEXT_BYTES_def)
  then obtain a s' where sub: "submit_announcement sample_input 4 ?s = (Inr a, s')" "length (so_announcements s') = 1"
    using len by (auto simp: submit_announcement_def Let_def)
  have len'': "length (so_announcements (storage_after sample_signatures [UpgradeStorage, SubmitAnnouncement sample_input 5] s')) \<le> 2 ^ 64"
    using sub(2) valid by (simp add: post_upgrade_def pre_upgrade_def submit_announcement_def Let_def)
  have "invoice_signer sample_signatures ?inv = Inr (replicate 20 7, replicate 32 8)"
    by (simp add: invoice_signer_def normalize_invoice_id_def parse_signature_def recover_address_from_signature_def sample_signatures_def)
  then have "\<exists>submission. SubmitInvoice submission \<in> set ([SubmitInvoice ?inv] @ [UpgradeStorage, SubmitAnnouncement sample_input 5])
      \<and> invoice_signer sample_signatures submission = Inr (replicate 20 7, replicate 32 8)"
    by (intro exI [of _ ?inv]) simp
  then have "\<exists>l. list_invoices (storage_after sample_signatures [UpgradeStorage, SubmitAnnouncement sample_input 5] s') (replicate 20 7)
      = Inr l \<and> replicate 32 8 \<in> set l"
    using conjunct2 [OF conjunct2 [OF conjunct2 [OF conjunct2 [OF conjunct2 [OF storage_keeps_submissions [OF refl sub(1) refl len'']]]]],
      THEN spec [of _ "replicate 20 7"]] by auto
  then show ?thesis
    using storage_keeps_submissions [OF refl sub(1) refl len''] sub(1) by (auto simp: sample_input_def simp del: fold.simps)
qed

end
