(* ===== verification/Key_Manager.thy ===== *)
theory Key_Manager
  imports Storage
begin

text \<open>
  The key manager canister (\<open>zstorage/backend/key_manager/src/lib.rs\<close>, \<open>authorization.rs\<close>). It
  derives, through the management canister, the public view key of an address and, for a
  request that the address has signed, the view key encrypted to a transport key. The
  greatest nonce seen per address is its only state.

  The management canister and the identity of the canister are fields of \<open>management\<close>. A call
  that returns an error keeps the changes it made to the state.

  A request for a view key is suspended while the management canister derives the key
  (\<open>vetkd_derive_key(&args).await\<close>); the canister then serves other calls. \<open>begin_request\<close> is the
  part before that point, \<open>derive_reply\<close> the part after it, and \<open>request_encrypted_view_key\<close> a
  request that is answered before any other call. A run of the canister is a sequence of
  requests, of replies to suspended ones in any order, and of upgrades, which lose the
  suspended ones; its history records what each of them did.
\<close>

section \<open>State and messages\<close>

record management =
  mg_self :: string
  mg_public_key :: "bytes \<Rightarrow> string \<Rightarrow> string + bytes"
  mg_derive_key :: "bytes \<Rightarrow> bytes \<Rightarrow> string \<Rightarrow> bytes \<Rightarrow> string + bytes"

record key_manager_state =
  km_key_id_name :: string
  km_max_nonce_by_address :: "bytes \<rightharpoonup> u64"

record view_key_request =
  vr_address :: bytes
  vr_transport_public_key :: bytes
  vr_expiry_ns :: u64
  vr_nonce :: u64
  vr_signature :: bytes

datatype key_manager_error =
    ViewAddressLength
  | NotInitialized
  | AuthorizationExpired
  | NonceReuse
  | AuthorizationInvalidSignature
  | AuthorizationRecoveryFailed
  | SignatureMismatch
  | ManagementError string

definition key_manager_init :: "string \<Rightarrow> key_manager_state option" where
  "key_manager_init key_id_name = Some \<lparr>km_key_id_name = key_id_name, km_max_nonce_by_address = Map.empty\<rparr>"

definition key_manager_pre_upgrade :: "key_manager_state option \<Rightarrow> key_manager_state option option" where
  "key_manager_pre_upgrade s = Some s"

definition key_manager_post_upgrade :: "key_manager_state option option \<Rightarrow> key_manager_state option option" where
  "key_manager_post_upgrade memory = memory"

definition CONTEXT_BASE :: bytes where
  "CONTEXT_BASE = text_bytes ''icp-stealth-announcement-v1''"

definition context_for_address :: "bytes \<Rightarrow> bytes" where
  "context_for_address addr = CONTEXT_BASE @ addr"

definition to_address :: "bytes \<Rightarrow> key_manager_error + bytes" where
  "to_address bs = (if length bs = 20 then Inr bs else Inl ViewAddressLength)"

text \<open>\<open>Display\<close> of an unsigned integer.\<close>

fun decimal :: "nat \<Rightarrow> string" where
  "decimal n = (if n < 10 then [char_of (48 + n)] else decimal (n div 10) @ [char_of (48 + n mod 10)])"

declare decimal.simps [simp del]

definition authorization_message :: "'sig signatures \<Rightarrow> string \<Rightarrow> bytes \<Rightarrow> bytes \<Rightarrow> u64 \<Rightarrow> u64 \<Rightarrow> bytes" where
  "authorization_message sg canister_id addr transport_public_key expiry_ns nonce =
     sg_eip191 sg (text_bytes
       (''ICP Stealth Authorization:'' @ [CHR 0x0A] @ ''address: 0x'' @ sg_hex sg addr @ [CHR 0x0A]
        @ ''canister: '' @ canister_id @ [CHR 0x0A] @ ''transport: 0x'' @ sg_hex sg transport_public_key @ [CHR 0x0A]
        @ ''expiry_ns:'' @ decimal (unat expiry_ns) @ [CHR 0x0A] @ ''nonce:'' @ decimal (unat nonce)))"

definition recover_authorization :: "'sig signatures \<Rightarrow> bytes \<Rightarrow> bytes \<Rightarrow> key_manager_error + bytes" where
  "recover_authorization sg message signature =
     res_bind (ok_or AuthorizationInvalidSignature (sg_from_raw sg signature)) (\<lambda>sig.
     ok_or AuthorizationRecoveryFailed (sg_recover sg sig (sg_keccak sg message)))"

section \<open>Calls\<close>

definition management_call :: "string + 'a \<Rightarrow> key_manager_error + 'a" where
  "management_call r = (case r of Inl e \<Rightarrow> Inl (ManagementError e) | Inr x \<Rightarrow> Inr x)"

definition get_view_public_key :: "management \<Rightarrow> key_manager_state option \<Rightarrow> bytes \<Rightarrow> key_manager_error + bytes" where
  "get_view_public_key mg s address =
     res_bind (to_address address) (\<lambda>addr.
     res_bind (ok_or NotInitialized s) (\<lambda>st.
     management_call (mg_public_key mg (context_for_address addr) (km_key_id_name st))))"

text \<open>The nonce is recorded, also the default 0 of an unknown address, before the signature is checked.\<close>

definition take_nonce :: "bytes \<Rightarrow> u64 \<Rightarrow> key_manager_state \<Rightarrow> (key_manager_error + unit) \<times> key_manager_state" where
  "take_nonce addr nonce s =
     (let entry = (case km_max_nonce_by_address s addr of None \<Rightarrow> 0 | Some n \<Rightarrow> n)
      in if nonce \<le> entry then (Inl NonceReuse, s\<lparr>km_max_nonce_by_address := (km_max_nonce_by_address s)(addr \<mapsto> entry)\<rparr>)
         else (Inr (), s\<lparr>km_max_nonce_by_address := (km_max_nonce_by_address s)(addr \<mapsto> nonce)\<rparr>))"

record derive_key_args =
  da_context :: bytes
  da_input :: bytes
  da_key_id_name :: string
  da_transport_public_key :: bytes

definition derive_key_args_for :: "string \<Rightarrow> view_key_request \<Rightarrow> derive_key_args" where
  "derive_key_args_for key_id_name request = \<lparr>da_context = context_for_address (vr_address request), da_input = [],
     da_key_id_name = key_id_name, da_transport_public_key = vr_transport_public_key request\<rparr>"

definition authorize_request ::
  "'sig signatures \<Rightarrow> management \<Rightarrow> string \<Rightarrow> bytes \<Rightarrow> view_key_request \<Rightarrow> key_manager_error + derive_key_args" where
  "authorize_request sg mg key_id_name addr request =
     res_bind (recover_authorization sg
       (authorization_message sg (mg_self mg) addr (vr_transport_public_key request) (vr_expiry_ns request) (vr_nonce request))
       (vr_signature request)) (\<lambda>recovered.
     if recovered \<noteq> addr then Inl SignatureMismatch
     else Inr \<lparr>da_context = context_for_address addr, da_input = [], da_key_id_name = key_id_name,
                da_transport_public_key = vr_transport_public_key request\<rparr>)"

text \<open>The call up to the point where it waits for the management canister.\<close>

definition begin_request ::
  "'sig signatures \<Rightarrow> management \<Rightarrow> u64 \<Rightarrow> view_key_request \<Rightarrow> key_manager_state option
     \<Rightarrow> (key_manager_error + derive_key_args) \<times> key_manager_state option" where
  "begin_request sg mg now request s =
     (case to_address (vr_address request) of
        Inl e \<Rightarrow> (Inl e, s)
      | Inr addr \<Rightarrow>
          (case s of
             None \<Rightarrow> (Inl NotInitialized, s)
           | Some st \<Rightarrow>
               if vr_expiry_ns request < now then (Inl AuthorizationExpired, s)
               else case take_nonce addr (vr_nonce request) st of
                      (Inl e, st') \<Rightarrow> (Inl e, Some st')
                    | (Inr _, st') \<Rightarrow> (authorize_request sg mg (km_key_id_name st) addr request, Some st')))"

definition derive_reply :: "management \<Rightarrow> derive_key_args \<Rightarrow> key_manager_error + bytes" where
  "derive_reply mg args =
     management_call (mg_derive_key mg (da_context args) (da_input args) (da_key_id_name args) (da_transport_public_key args))"

definition request_encrypted_view_key ::
  "'sig signatures \<Rightarrow> management \<Rightarrow> u64 \<Rightarrow> view_key_request \<Rightarrow> key_manager_state option
     \<Rightarrow> (key_manager_error + bytes) \<times> key_manager_state option" where
  "request_encrypted_view_key sg mg now request s =
     (case begin_request sg mg now request s of
        (Inl e, s') \<Rightarrow> (Inl e, s')
      | (Inr args, s') \<Rightarrow> (derive_reply mg args, s'))"

definition get_max_nonce :: "key_manager_state option \<Rightarrow> bytes \<Rightarrow> key_manager_error + u64" where
  "get_max_nonce s address =
     res_bind (to_address address) (\<lambda>addr.
     res_bind (ok_or NotInitialized s) (\<lambda>st.
     Inr (case km_max_nonce_by_address st addr of None \<Rightarrow> 0 | Some n \<Rightarrow> n)))"

section \<open>Interleaved calls\<close>

text \<open>
  A suspended call keeps its request and the arguments it sent to the management canister. The
  reply to the \<open>k\<close>-th suspended call is the answer of the management canister, or a failure of
  the call to it. An upgrade loses the suspended calls (one that waits for them is an upgrade
  after their replies).
\<close>

record suspended_call =
  sc_request :: view_key_request
  sc_args :: derive_key_args

record key_manager_system =
  ks_state :: "key_manager_state option"
  ks_suspended :: "suspended_call list"

datatype key_manager_call =
    RequestViewKey u64 view_key_request
  | DeriveReply nat "string option"
  | Upgrade

datatype key_manager_event =
    Refused view_key_request key_manager_error
  | Accepted u64 view_key_request
  | Answered view_key_request "key_manager_error + bytes"
  | Upgraded
  | NothingToAnswer

definition key_manager_start :: "string \<Rightarrow> key_manager_system" where
  "key_manager_start key_id_name = \<lparr>ks_state = key_manager_init key_id_name, ks_suspended = []\<rparr>"

fun key_manager_apply ::
  "'sig signatures \<Rightarrow> management \<Rightarrow> key_manager_call \<Rightarrow> key_manager_system \<Rightarrow> key_manager_event \<times> key_manager_system" where
  "key_manager_apply sg mg (RequestViewKey now request) ks =
     (case begin_request sg mg now request (ks_state ks) of
        (Inl e, s) \<Rightarrow> (Refused request e, ks\<lparr>ks_state := s\<rparr>)
      | (Inr args, s) \<Rightarrow> (Accepted now request,
          ks\<lparr>ks_state := s, ks_suspended := ks_suspended ks @ [\<lparr>sc_request = request, sc_args = args\<rparr>]\<rparr>))"
| "key_manager_apply sg mg (DeriveReply k failure) ks =
     (if k < length (ks_suspended ks)
      then let sc = ks_suspended ks ! k in
           (Answered (sc_request sc) (case failure of None \<Rightarrow> derive_reply mg (sc_args sc) | Some e \<Rightarrow> Inl (ManagementError e)),
            ks\<lparr>ks_suspended := take k (ks_suspended ks) @ drop (Suc k) (ks_suspended ks)\<rparr>)
      else (NothingToAnswer, ks))"
| "key_manager_apply sg mg Upgrade ks =
     (case key_manager_post_upgrade (key_manager_pre_upgrade (ks_state ks)) of
        None \<Rightarrow> (Upgraded, ks)
      | Some s \<Rightarrow> (Upgraded, \<lparr>ks_state = s, ks_suspended = []\<rparr>))"

fun key_manager_run ::
  "'sig signatures \<Rightarrow> management \<Rightarrow> key_manager_call list \<Rightarrow> key_manager_system \<Rightarrow> key_manager_event list \<times> key_manager_system" where
  "key_manager_run sg mg [] ks = ([], ks)"
| "key_manager_run sg mg (c # cs) ks =
     (let (e, ks') = key_manager_apply sg mg c ks; (es, ks'') = key_manager_run sg mg cs ks' in (e # es, ks''))"

section \<open>One call\<close>

text \<open>The greatest nonce seen for an address; 0 for an unknown one.\<close>

definition nonce_of :: "key_manager_state option \<Rightarrow> bytes \<Rightarrow> u64" where
  "nonce_of s addr = (case s of None \<Rightarrow> 0 | Some st \<Rightarrow> (case km_max_nonce_by_address st addr of None \<Rightarrow> 0 | Some n \<Rightarrow> n))"

text \<open>The address has signed this transport key, expiry and nonce for this canister.\<close>

definition authorized :: "'sig signatures \<Rightarrow> management \<Rightarrow> view_key_request \<Rightarrow> bool" where
  "authorized sg mg request \<longleftrightarrow>
     (\<exists>sig. sg_from_raw sg (vr_signature request) = Some sig
        \<and> sg_recover sg sig (sg_keccak sg (authorization_message sg (mg_self mg) (vr_address request)
             (vr_transport_public_key request) (vr_expiry_ns request) (vr_nonce request))) = Some (vr_address request))"

lemma authorize_request_iff:
  "authorize_request sg mg name (vr_address request) request = Inr args \<longleftrightarrow>
     authorized sg mg request \<and> args = derive_key_args_for name request"
  by (auto simp: authorize_request_def authorized_def recover_authorization_def derive_key_args_for_def res_bind_Inr_iff ok_or_def
      split: option.splits if_splits)

lemma derive_reply_for:
  "derive_reply mg (derive_key_args_for name request) =
     management_call (mg_derive_key mg (context_for_address (vr_address request)) [] name (vr_transport_public_key request))"
  by (simp add: derive_reply_def derive_key_args_for_def)

lemma management_call_Inr [simp]: "management_call r = Inr x \<longleftrightarrow> r = Inr x"
  by (auto simp: management_call_def split: sum.splits)

lemma begin_request_nonce:
  "begin_request sg mg now request s = (r, s') \<Longrightarrow> nonce_of s addr \<le> nonce_of s' addr"
  by (auto simp: begin_request_def take_nonce_def nonce_of_def Let_def split: sum.splits option.splits if_splits)

lemma begin_request_config:
  "begin_request sg mg now request s = (r, s') \<Longrightarrow> map_option km_key_id_name s' = map_option km_key_id_name s"
  by (auto simp: begin_request_def take_nonce_def Let_def split: sum.splits option.splits if_splits)

lemma begin_request_accepted:
  assumes "begin_request sg mg now request s = (Inr args, s')"
  shows "nonce_of s (vr_address request) < vr_nonce request" "nonce_of s' (vr_address request) = vr_nonce request"
    "now \<le> vr_expiry_ns request" "length (vr_address request) = 20" "authorized sg mg request"
    "\<exists>st. s = Some st \<and> args = derive_key_args_for (km_key_id_name st) request"
proof -
  obtain st where "s = Some st" "authorize_request sg mg (km_key_id_name st) (vr_address request) request = Inr args"
    and *: "nonce_of s (vr_address request) < vr_nonce request" "nonce_of s' (vr_address request) = vr_nonce request"
    "now \<le> vr_expiry_ns request" "length (vr_address request) = 20"
    using assms
    by (auto simp: begin_request_def take_nonce_def nonce_of_def to_address_def Let_def word_gt_0
        split: sum.splits option.splits if_splits)
  then show "authorized sg mg request" "\<exists>st. s = Some st \<and> args = derive_key_args_for (km_key_id_name st) request"
    by (auto simp: authorize_request_iff)
qed (use assms in \<open>auto simp: begin_request_def take_nonce_def nonce_of_def to_address_def Let_def word_gt_0
        split: sum.splits option.splits if_splits\<close>)

lemma request_released:
  assumes "request_encrypted_view_key sg mg now request s = (Inr key, s')"
  shows "nonce_of s (vr_address request) < vr_nonce request"
  using assms begin_request_accepted(1) [of sg mg now request s]
  by (auto simp: request_encrypted_view_key_def split: prod.splits sum.splits)

lemma request_granted:
  assumes "nonce_of (Some st) (vr_address request) < vr_nonce request" "now \<le> vr_expiry_ns request"
    and "length (vr_address request) = 20" "authorized sg mg request"
    and "mg_derive_key mg (context_for_address (vr_address request)) [] (km_key_id_name st) (vr_transport_public_key request) = Inr key"
  shows "request_encrypted_view_key sg mg now request (Some st) =
    (Inr key, Some (st\<lparr>km_max_nonce_by_address := (km_max_nonce_by_address st)(vr_address request \<mapsto> vr_nonce request)\<rparr>))"
proof -
  have "authorize_request sg mg (km_key_id_name st) (vr_address request) request = Inr (derive_key_args_for (km_key_id_name st) request)"
    using assms(4) by (simp add: authorize_request_iff)
  moreover have "take_nonce (vr_address request) (vr_nonce request) st =
      (Inr (), st\<lparr>km_max_nonce_by_address := (km_max_nonce_by_address st)(vr_address request \<mapsto> vr_nonce request)\<rparr>)"
    using assms(1) by (auto simp: take_nonce_def nonce_of_def Let_def)
  ultimately show ?thesis
    using assms(2,3,5)
    by (simp add: request_encrypted_view_key_def begin_request_def to_address_def derive_reply_for)
qed

section \<open>Histories\<close>

lemma apply_nonce:
  "key_manager_apply sg mg c ks = (e, ks') \<Longrightarrow> nonce_of (ks_state ks) addr \<le> nonce_of (ks_state ks') addr"
  by (cases c) (auto simp: key_manager_post_upgrade_def key_manager_pre_upgrade_def Let_def
      dest: begin_request_nonce split: prod.splits sum.splits if_splits)

lemma apply_config:
  "key_manager_apply sg mg c ks = (e, ks')
     \<Longrightarrow> map_option km_key_id_name (ks_state ks') = map_option km_key_id_name (ks_state ks)"
  by (cases c) (auto simp: key_manager_post_upgrade_def key_manager_pre_upgrade_def Let_def
      dest: begin_request_config split: prod.splits sum.splits if_splits)

lemma apply_accepted:
  "key_manager_apply sg mg c ks = (Accepted now request, ks') \<longleftrightarrow>
     c = RequestViewKey now request \<and> (\<exists>args s. begin_request sg mg now request (ks_state ks) = (Inr args, s)
        \<and> ks' = ks\<lparr>ks_state := s, ks_suspended := ks_suspended ks @ [\<lparr>sc_request = request, sc_args = args\<rparr>]\<rparr>)"
  by (cases c) (auto simp: key_manager_post_upgrade_def key_manager_pre_upgrade_def Let_def
      split: prod.splits sum.splits if_splits)

lemma apply_answered:
  assumes "key_manager_apply sg mg c ks = (Answered request r, ks')"
  obtains k sc where "k < length (ks_suspended ks)" "sc = ks_suspended ks ! k" "request = sc_request sc"
    "ks_suspended ks' = take k (ks_suspended ks) @ drop (Suc k) (ks_suspended ks)" "ks_state ks' = ks_state ks"
    "\<And>key. r = Inr key \<Longrightarrow> derive_reply mg (sc_args sc) = Inr key"
  using assms
  by (cases c) (auto simp: key_manager_post_upgrade_def key_manager_pre_upgrade_def Let_def
      split: prod.splits sum.splits if_splits option.splits)

lemma apply_other:
  assumes "key_manager_apply sg mg c ks = (e, ks')" "\<And>now request. e \<noteq> Accepted now request" "\<And>request r. e \<noteq> Answered request r"
  shows "ks_suspended ks' = ks_suspended ks \<or> ks_suspended ks' = []"
  using assms
  by (cases c) (auto simp: key_manager_post_upgrade_def key_manager_pre_upgrade_def Let_def
      split: prod.splits sum.splits if_splits)

lemma key_manager_run_snoc:
  "key_manager_run sg mg (cs @ [c]) ks =
     (let (es, ks') = key_manager_run sg mg cs ks; (e, ks'') = key_manager_apply sg mg c ks' in (es @ [e], ks''))"
  by (induction cs arbitrary: ks) (simp_all add: Let_def split_beta)

lemma run_nonce: "nonce_of (ks_state ks) addr \<le> nonce_of (ks_state (snd (key_manager_run sg mg cs ks))) addr"
proof (induction cs arbitrary: ks)
  case (Cons c cs)
  then show ?case
    using apply_nonce [of sg mg c ks "fst (key_manager_apply sg mg c ks)" "snd (key_manager_apply sg mg c ks)" addr]
    by (simp add: Let_def split_beta) (meson order_trans)
qed simp

lemma run_config:
  "key_manager_run sg mg cs ks = (es, ks')
     \<Longrightarrow> map_option km_key_id_name (ks_state ks') = map_option km_key_id_name (ks_state ks)"
proof (induction cs arbitrary: ks es)
  case (Cons c cs)
  then show ?case
    using apply_config [of sg mg c ks] by (fastforce simp: Let_def split: prod.splits)
qed simp

text \<open>Every event of a history was produced by a call, at the state that the calls before it left.\<close>

lemma run_split:
  assumes "fst (key_manager_run sg mg cs ks) = before @ e # after"
  obtains cs1 c cs2 ks1 ks2 where "cs = cs1 @ c # cs2" "key_manager_run sg mg cs1 ks = (before, ks1)"
    "key_manager_apply sg mg c ks1 = (e, ks2)" "fst (key_manager_run sg mg cs2 ks2) = after"
  using assms
proof (induction cs arbitrary: ks before thesis)
  case (Cons c cs)
  obtain e' ks' where a: "key_manager_apply sg mg c ks = (e', ks')"
    by fastforce
  show ?case
  proof (cases before)
    case Nil
    then show ?thesis
      using Cons.prems(1) [of "[]" c cs ks ks'] Cons.prems(2) a by (simp add: Let_def split_beta)
  next
    case (Cons b before')
    then have b: "b = e'" "fst (key_manager_run sg mg cs ks') = before' @ e # after"
      using Cons.prems(2) a by (simp_all add: Let_def split_beta)
    obtain cs1 c' cs2 ks1 ks2 where "cs = cs1 @ c' # cs2" "key_manager_run sg mg cs1 ks' = (before', ks1)"
      "key_manager_apply sg mg c' ks1 = (e, ks2)" "fst (key_manager_run sg mg cs2 ks2) = after"
      using Cons.IH [OF _ b(2)] by blast
    then show ?thesis
      using Cons.prems(1) [of "c # cs1" c' cs2 ks1 ks2] a b(1) Cons by simp
  qed
qed simp

text \<open>What holds after every history: \<open>answered\<close> lists the requests that have been answered.\<close>

definition answered :: "key_manager_event list \<Rightarrow> view_key_request list" where
  "answered es = concat (map (\<lambda>e. case e of Answered request r \<Rightarrow> [request] | _ \<Rightarrow> []) es)"

definition authorization_of :: "view_key_request \<Rightarrow> bytes \<times> u64" where
  "authorization_of request = (vr_address request, vr_nonce request)"

definition history_ok :: "string \<Rightarrow> key_manager_event list \<Rightarrow> key_manager_system \<Rightarrow> bool" where
  "history_ok name es ks \<longleftrightarrow>
     map_option km_key_id_name (ks_state ks) = Some name
     \<and> (\<forall>now request. Accepted now request \<in> set es \<longrightarrow> vr_nonce request \<le> nonce_of (ks_state ks) (vr_address request))
     \<and> (\<forall>sc \<in> set (ks_suspended ks). sc_args sc = derive_key_args_for name (sc_request sc)
          \<and> (\<exists>now. Accepted now (sc_request sc) \<in> set es))
     \<and> (\<forall>request \<in> set (answered es). \<exists>now. Accepted now request \<in> set es)
     \<and> distinct (map authorization_of (answered es @ map sc_request (ks_suspended ks)))"

lemma answered_simps [simp]:
  "answered [] = []" "answered (es @ es') = answered es @ answered es'"
  "answered [Accepted now request] = []" "answered [Answered request r] = [request]"
  by (simp_all add: answered_def)

lemma answered_other:
  "(\<And>request r. e \<noteq> Answered request r) \<Longrightarrow> answered [e] = []"
  by (cases e) (auto simp: answered_def)

lemma in_answered: "Answered request r \<in> set es \<Longrightarrow> request \<in> set (answered es)"
  by (force simp: answered_def)

lemma history_accepted:
  assumes "history_ok name es ks" "key_manager_apply sg mg c ks = (Accepted now request, ks')"
  shows "history_ok name (es @ [Accepted now request]) ks'"
proof -
  obtain args s where b: "begin_request sg mg now request (ks_state ks) = (Inr args, s)"
    "ks' = ks\<lparr>ks_state := s, ks_suspended := ks_suspended ks @ [\<lparr>sc_request = request, sc_args = args\<rparr>]\<rparr>"
    using assms(2) by (auto simp: apply_accepted)
  note acc = begin_request_accepted [OF b(1)]
  have old: "vr_nonce r \<le> nonce_of (ks_state ks) (vr_address r)" if "Accepted n r \<in> set es" for n r
    using assms(1) that by (simp add: history_ok_def)
  have "authorization_of r \<noteq> authorization_of request" if "Accepted n r \<in> set es" for n r
    using old [OF that] acc(1) by (auto simp: authorization_of_def)
  then have "authorization_of request \<notin> authorization_of ` (set (answered es) \<union> sc_request ` set (ks_suspended ks))"
    using assms(1) unfolding history_ok_def by (force simp del: Un_iff)
  moreover have "vr_nonce r \<le> nonce_of s (vr_address r)" if "Accepted n r \<in> set es" for n r
    using old [OF that] begin_request_nonce [OF b(1), of "vr_address r"] by (rule order_trans)
  ultimately show ?thesis
    using assms(1) acc(2,6) begin_request_config [OF b(1)] b(2) by (auto simp: history_ok_def)
qed

lemma history_answered:
  assumes "history_ok name es ks" "key_manager_apply sg mg c ks = (Answered request r, ks')"
  shows "history_ok name (es @ [Answered request r]) ks'"
proof -
  obtain k sc where k: "k < length (ks_suspended ks)" "sc = ks_suspended ks ! k" "request = sc_request sc"
    "ks_suspended ks' = take k (ks_suspended ks) @ drop (Suc k) (ks_suspended ks)" "ks_state ks' = ks_state ks"
    using apply_answered [OF assms(2)] by metis
  have at_k: "ks_suspended ks = take k (ks_suspended ks) @ sc # drop (Suc k) (ks_suspended ks)"
    using id_take_nth_drop [OF k(1)] k(2) by simp
  have "distinct (map authorization_of (answered es @ map sc_request (take k (ks_suspended ks) @ sc # drop (Suc k) (ks_suspended ks))))"
    using assms(1) unfolding history_ok_def by (simp flip: at_k)
  then have "distinct (map authorization_of (answered es @ [request] @ map sc_request (ks_suspended ks')))"
    using k(3,4) by auto
  moreover have "set (ks_suspended ks') \<subseteq> set (ks_suspended ks)" "sc \<in> set (ks_suspended ks)"
    using k(1,2,4) by (auto dest: in_set_takeD in_set_dropD)
  ultimately show ?thesis
    using assms(1) k(3,5) unfolding history_ok_def by (auto 0 3)
qed

lemma history_other:
  assumes "history_ok name es ks" "key_manager_apply sg mg c ks = (e, ks')"
    and "\<And>now request. e \<noteq> Accepted now request" "\<And>request r. e \<noteq> Answered request r"
  shows "history_ok name (es @ [e]) ks'"
proof -
  have "vr_nonce request \<le> nonce_of (ks_state ks') (vr_address request)" if "Accepted now request \<in> set es" for now request
    using assms(1) that apply_nonce [OF assms(2), of "vr_address request"] unfolding history_ok_def by (meson order_trans)
  then show ?thesis
    using assms(1) apply_other [OF assms(2-4)] apply_config [OF assms(2)] answered_other [OF assms(4)] assms(3)
    unfolding history_ok_def by (auto 4 3)
qed

lemma run_history:
  "key_manager_run sg mg cs (key_manager_start name) = (es, ks) \<Longrightarrow> history_ok name es ks"
proof (induction cs arbitrary: es ks rule: rev_induct)
  case Nil
  then show ?case
    by (auto simp: history_ok_def key_manager_start_def key_manager_init_def)
next
  case (snoc c cs)
  obtain es1 ks1 where run: "key_manager_run sg mg cs (key_manager_start name) = (es1, ks1)"
    by fastforce
  obtain e where e: "key_manager_apply sg mg c ks1 = (e, ks)" "es = es1 @ [e]"
    using snoc.prems run by (auto simp: key_manager_run_snoc Let_def split: prod.splits)
  show ?case
    using history_accepted [OF snoc.IH [OF run]] history_answered [OF snoc.IH [OF run]] history_other [OF snoc.IH [OF run] e(1)] e
    by (cases e) auto
qed

text \<open>A request is answered only if it was suspended at the start or accepted meanwhile.\<close>

lemma apply_suspended:
  assumes "key_manager_apply sg mg c ks = (e, ks')" "sc \<in> set (ks_suspended ks')"
  shows "sc \<in> set (ks_suspended ks) \<or> (\<exists>now. e = Accepted now (sc_request sc))"
  using assms
  by (cases c) (auto simp: key_manager_post_upgrade_def key_manager_pre_upgrade_def Let_def
      dest: in_set_takeD in_set_dropD split: prod.splits sum.splits if_splits)

lemma run_suspended:
  assumes "key_manager_run sg mg cs ks = (es, ks')" "sc \<in> set (ks_suspended ks')"
  shows "sc \<in> set (ks_suspended ks) \<or> (\<exists>now. Accepted now (sc_request sc) \<in> set es)"
  using assms
proof (induction cs arbitrary: es ks' rule: rev_induct)
  case (snoc c cs)
  obtain es1 ks1 where run: "key_manager_run sg mg cs ks = (es1, ks1)"
    by fastforce
  obtain e where e: "key_manager_apply sg mg c ks1 = (e, ks')" "es = es1 @ [e]"
    using snoc.prems(1) run by (auto simp: key_manager_run_snoc Let_def split: prod.splits)
  show ?case
    using apply_suspended [OF e(1) snoc.prems(2)] snoc.IH [OF run] e(2) by auto
qed simp

lemma run_answered:
  assumes "fst (key_manager_run sg mg cs ks) = es" "Answered request r \<in> set es"
  shows "request \<in> sc_request ` set (ks_suspended ks) \<or> (\<exists>now. Accepted now request \<in> set es)"
proof -
  obtain before after where es: "es = before @ Answered request r # after"
    using assms(2) by (meson split_list)
  obtain cs1 c ks1 ks2 where run: "key_manager_run sg mg cs1 ks = (before, ks1)"
    "key_manager_apply sg mg c ks1 = (Answered request r, ks2)"
    using run_split [OF assms(1) [unfolded es]] by metis
  obtain sc where "sc \<in> set (ks_suspended ks1)" "request = sc_request sc"
    using apply_answered [OF run(2)] by (metis nth_mem)
  then show ?thesis
    using run_suspended [OF run(1)] es by auto
qed

section \<open>Released keys\<close>

text \<open>
  \<^bold>\<open>C21\<close>. Whatever calls the key manager receives, in whatever order, with other calls and
  upgrades while a request waits for the management canister and with the replies in any
  order: a view key is released only for a request that the canister accepted earlier, not
  expired at that time, with a nonce greater than that of every request for the address that
  was accepted before it, and signed by the address together with this transport key, expiry
  and nonce for this canister; it is the key of that address, encrypted to that transport
  key. No other answer of the whole history, before or after, releases a key for the same
  address and nonce: no authorization is honoured twice.
\<close>

theorem view_key_released_once:
  assumes "fst (key_manager_run sg mg calls (key_manager_start name)) = before @ Answered request (Inr key) # after"
  shows "mg_derive_key mg (context_for_address (vr_address request)) [] name (vr_transport_public_key request) = Inr key
    \<and> (\<exists>now earlier later. before = earlier @ Accepted now request # later
        \<and> now \<le> vr_expiry_ns request \<and> length (vr_address request) = 20
        \<and> (\<exists>sig. sg_from_raw sg (vr_signature request) = Some sig
            \<and> sg_recover sg sig (sg_keccak sg (authorization_message sg (mg_self mg) (vr_address request)
                 (vr_transport_public_key request) (vr_expiry_ns request) (vr_nonce request))) = Some (vr_address request))
        \<and> (\<forall>now' request'. Accepted now' request' \<in> set earlier \<and> vr_address request' = vr_address request
             \<longrightarrow> vr_nonce request' < vr_nonce request))
    \<and> (\<forall>request' key'. Answered request' (Inr key') \<in> set (before @ after) \<and> vr_address request' = vr_address request
         \<longrightarrow> vr_nonce request' \<noteq> vr_nonce request)"
proof -
  obtain cs1 c cs2 ks1 ks2 where one: "calls = cs1 @ c # cs2" "key_manager_run sg mg cs1 (key_manager_start name) = (before, ks1)"
    "key_manager_apply sg mg c ks1 = (Answered request (Inr key), ks2)"
    using run_split [OF assms] by metis
  obtain sc where sc: "sc \<in> set (ks_suspended ks1)" "request = sc_request sc" "derive_reply mg (sc_args sc) = Inr key"
    using apply_answered [OF one(3)] by (metis nth_mem)
  then obtain now where now: "Accepted now request \<in> set before" "sc_args sc = derive_key_args_for name request"
    using run_history [OF one(2)] by (auto simp: history_ok_def)
  then obtain earlier later where split: "before = earlier @ Accepted now request # later"
    by (meson split_list)
  have hist1: "fst (key_manager_run sg mg cs1 (key_manager_start name)) = earlier @ Accepted now request # later"
    using one(2) split by simp
  obtain cs3 c' ks3 ks4 where acc: "key_manager_run sg mg cs3 (key_manager_start name) = (earlier, ks3)"
    "key_manager_apply sg mg c' ks3 = (Accepted now request, ks4)"
    using run_split [OF hist1] by metis
  then obtain args s where "begin_request sg mg now request (ks_state ks3) = (Inr args, s)"
    by (auto simp: apply_accepted)
  note ok = begin_request_accepted [OF this]
  have smaller: "\<forall>now' request'. Accepted now' request' \<in> set earlier \<and> vr_address request' = vr_address request
      \<longrightarrow> vr_nonce request' < vr_nonce request"
    using run_history [OF acc(1)] ok(1) unfolding history_ok_def by (metis order.strict_trans1)
  have "distinct (map authorization_of (answered (before @ Answered request (Inr key) # after)))"
    using run_history [OF prod.collapse [symmetric], of name sg mg calls]
    unfolding history_ok_def assms map_append distinct_append by blast
  then have "distinct (map authorization_of (answered before @ [request] @ answered after))"
    by (simp add: answered_def)
  then have "authorization_of request' \<noteq> authorization_of request" if "request' \<in> set (answered before) \<union> set (answered after)" for request'
    using imageI [OF that, of authorization_of] by auto
  then have once: "\<forall>request' key'. Answered request' (Inr key') \<in> set (before @ after) \<and> vr_address request' = vr_address request
      \<longrightarrow> vr_nonce request' \<noteq> vr_nonce request"
    using in_answered by (fastforce simp: authorization_of_def)
  show ?thesis
    using ok(3-5) smaller once split sc(3) now(2) by (auto simp: authorized_def derive_reply_for)
qed

definition sample_management :: management where
  "sample_management = \<lparr>mg_self = ''km'', mg_public_key = (\<lambda>c _. Inr c), mg_derive_key = (\<lambda>c _ _ t. Inr (c @ t))\<rparr>"

definition sample_request :: "u64 \<Rightarrow> view_key_request" where
  "sample_request n = \<lparr>vr_address = replicate 20 7, vr_transport_public_key = [1, 2], vr_expiry_ns = 10, vr_nonce = n,
     vr_signature = replicate 65 7\<rparr>"

lemma sample_begin:
  "vr_nonce (sample_request n) = n"
  "nonce_of s (replicate 20 7) < n \<Longrightarrow> map_option km_key_id_name s = Some name
     \<Longrightarrow> \<exists>s'. begin_request sample_signatures sample_management 5 (sample_request n) s = (Inr (derive_key_args_for name (sample_request n)), s')
       \<and> nonce_of s' (replicate 20 7) = n \<and> map_option km_key_id_name s' = Some name"
  by (auto simp: begin_request_def take_nonce_def sample_request_def to_address_def nonce_of_def derive_key_args_for_def
      authorize_request_def recover_authorization_def sample_signatures_def Let_def split: option.splits)

lemma sample_reply:
  "derive_reply sample_management (derive_key_args_for name (sample_request n)) = Inr (context_for_address (replicate 20 7) @ [1, 2])"
  by (simp add: derive_reply_for sample_management_def sample_request_def)

text \<open>Two requests wait; the later one is answered first.\<close>

lemma sample_history:
  "fst (key_manager_run sample_signatures sample_management
      [RequestViewKey 5 (sample_request 1), RequestViewKey 5 (sample_request 2), DeriveReply 1 None, DeriveReply 0 None]
      (key_manager_start name)) =
    [Accepted 5 (sample_request 1), Accepted 5 (sample_request 2),
     Answered (sample_request 2) (Inr (context_for_address (replicate 20 7) @ [1, 2])),
     Answered (sample_request 1) (Inr (context_for_address (replicate 20 7) @ [1, 2]))]"
proof -
  have "nonce_of (key_manager_init name) (replicate 20 7) < 1" "map_option km_key_id_name (key_manager_init name) = Some name"
    by (simp_all add: key_manager_init_def nonce_of_def)
  then obtain s1 where 1: "begin_request sample_signatures sample_management 5 (sample_request 1) (key_manager_init name)
      = (Inr (derive_key_args_for name (sample_request 1)), s1)" "nonce_of s1 (replicate 20 7) = 1" "map_option km_key_id_name s1 = Some name"
    using sample_begin(2) by meson
  then obtain s2 where "begin_request sample_signatures sample_management 5 (sample_request 2) s1
      = (Inr (derive_key_args_for name (sample_request 2)), s2)"
    using sample_begin(2) [of s1 2 name] by auto
  with 1(1) show ?thesis
    by (simp add: key_manager_start_def sample_reply)
qed

theorem view_key_released_once_witness:
  "\<exists>key before. fst (key_manager_run sample_signatures sample_management
      [RequestViewKey 5 (sample_request 1), RequestViewKey 5 (sample_request 2), DeriveReply 1 None, DeriveReply 0 None]
      (key_manager_start ''key_1'')) = before @ [Answered (sample_request 1) (Inr key)]
    \<and> mg_derive_key sample_management (context_for_address (vr_address (sample_request 1))) [] ''key_1''
        (vr_transport_public_key (sample_request 1)) = Inr key
    \<and> (\<exists>now earlier later. before = earlier @ Accepted now (sample_request 1) # later \<and> now \<le> vr_expiry_ns (sample_request 1))
    \<and> Answered (sample_request 2) (Inr key) \<in> set before"
proof -
  let ?key = "context_for_address (replicate 20 7) @ [1, 2]"
  let ?before = "[Accepted 5 (sample_request 1), Accepted 5 (sample_request 2), Answered (sample_request 2) (Inr ?key)]"
  have hist: "fst (key_manager_run sample_signatures sample_management
      [RequestViewKey 5 (sample_request 1), RequestViewKey 5 (sample_request 2), DeriveReply 1 None, DeriveReply 0 None]
      (key_manager_start ''key_1'')) = ?before @ [Answered (sample_request 1) (Inr ?key)]"
    by (simp only: sample_history append.simps)
  have "Answered (sample_request 2) (Inr ?key) \<in> set ?before"
    by simp
  then show ?thesis
    using hist view_key_released_once [OF hist] by blast
qed

text \<open>
  \<^bold>\<open>C37\<close>. The nonce is recorded before the signature is verified. A request with the greatest
  nonce therefore ends the service for the address it names, whoever sent it, whatever its
  signature and whatever requests are suspended: in every later history no request for that
  address is accepted, a key for it is released only by a reply to a request that was already
  suspended, a further request is refused even when the management canister would answer at
  once, and the nonce that \<open>get_max_nonce\<close> reports has no successor.
\<close>

theorem view_key_denial:
  assumes "length (vr_address forged) = 20" "now \<le> vr_expiry_ns forged" "vr_nonce forged = - 1"
    and "ks_state ks = Some st" "key_manager_apply sg mg (RequestViewKey now forged) ks = (e, ks1)"
    and "key_manager_run sg mg calls ks1 = (hist, ks2)"
    and "vr_address request = vr_address forged"
  shows "Accepted now' request \<notin> set hist
    \<and> (Answered request (Inr key) \<in> set hist \<longrightarrow> request \<in> sc_request ` set (ks_suspended ks1))
    \<and> fst (request_encrypted_view_key sg mg now' request (ks_state ks2)) \<noteq> Inr key
    \<and> get_max_nonce (ks_state ks1) (vr_address forged) = Inr (- 1)
    \<and> get_max_nonce (ks_state ks2) (vr_address forged) = Inr (- 1)"
proof -
  have forged: "nonce_of (ks_state ks1) (vr_address request) = - 1" "ks_state ks1 \<noteq> None"
    using assms(1-5,7) word_order.extremum_uniqueI [of "case km_max_nonce_by_address st (vr_address forged) of None \<Rightarrow> 0 | Some n \<Rightarrow> n"]
    by (auto simp: begin_request_def take_nonce_def nonce_of_def to_address_def Let_def
        split: sum.splits option.splits if_splits prod.splits)
  have later: "nonce_of (ks_state ks3) (vr_address request) = - 1" "ks_state ks3 \<noteq> None"
    if "key_manager_run sg mg cs ks1 = (es, ks3)" for cs es ks3
    using run_nonce [of ks1 "vr_address request" sg mg cs] run_config [OF that] forged that by (auto simp: word_order.extremum_unique)
  have accepted: "Accepted n request \<notin> set hist" for n
  proof
    assume "Accepted n request \<in> set hist"
    then obtain before after where "fst (key_manager_run sg mg calls ks1) = before @ Accepted n request # after"
      using assms(6) by (metis fst_conv split_list)
    then obtain cs c ks3 ks4 where "key_manager_run sg mg cs ks1 = (before, ks3)"
      "key_manager_apply sg mg c ks3 = (Accepted n request, ks4)"
      by (rule run_split)
    then show False
      using later(1) begin_request_accepted(1) by (fastforce simp: apply_accepted)
  qed
  have "fst (request_encrypted_view_key sg mg now' request (ks_state ks2)) \<noteq> Inr key"
    using later(1) [OF assms(6)] request_released [of sg mg now' request "ks_state ks2" key] by (metis prod.collapse word_order.extremum_strict)
  then show ?thesis
    using accepted run_answered [OF _ , of sg mg calls ks1 hist request "Inr key"] assms(1,6,7) forged later [OF assms(6)]
    by (auto simp: get_max_nonce_def nonce_of_def to_address_def split: option.splits)
qed

text \<open>The owner's signed request would be granted; after a forged one, unsigned, it is not.\<close>

theorem view_key_denial_witness:
  "\<exists>e ks1. key_manager_apply sample_signatures sample_management
      (RequestViewKey 5 ((sample_request (- 1))\<lparr>vr_signature := []\<rparr>)) (key_manager_start ''key_1'') = (e, ks1)
    \<and> fst (request_encrypted_view_key sample_signatures sample_management 5 (sample_request 3) (key_manager_init ''key_1''))
        = Inr (context_for_address (replicate 20 7) @ [1, 2])
    \<and> fst (request_encrypted_view_key sample_signatures sample_management 5 (sample_request 3) (ks_state ks1))
        \<noteq> Inr (context_for_address (replicate 20 7) @ [1, 2])
    \<and> get_max_nonce (ks_state ks1) (replicate 20 7) = Inr (- 1)"
proof -
  let ?f = "(sample_request (- 1))\<lparr>vr_signature := []\<rparr>"
  have f: "length (vr_address ?f) = 20" "(5 :: u64) \<le> vr_expiry_ns ?f" "vr_nonce ?f = - 1"
    "vr_address (sample_request 3) = vr_address ?f" "vr_address ?f = replicate 20 7"
    by (simp_all add: sample_request_def)
  obtain e ks1 where e: "key_manager_apply sample_signatures sample_management (RequestViewKey 5 ?f) (key_manager_start ''key_1'') = (e, ks1)"
    by fastforce
  have start: "ks_state (key_manager_start ''key_1'') = Some \<lparr>km_key_id_name = ''key_1'', km_max_nonce_by_address = Map.empty\<rparr>"
    by (simp add: key_manager_start_def key_manager_init_def)
  have run: "key_manager_run sample_signatures sample_management [] ks1 = ([], ks1)"
    by simp
  have "fst (request_encrypted_view_key sample_signatures sample_management 5 (sample_request 3) (key_manager_init ''key_1''))
      = Inr (context_for_address (replicate 20 7) @ [1, 2])"
    using sample_begin(2) [of "key_manager_init ''key_1''" 3 "''key_1''"]
    by (auto simp: request_encrypted_view_key_def sample_reply key_manager_init_def nonce_of_def)
  then show ?thesis
    using view_key_denial [OF f(1-3) start e run f(4)] e f(5) by auto
qed

end
