(* ===== verification/Stealth.thy ===== *)
theory Stealth
  imports Key_Manager Contracts
begin

text \<open>
  The client of the canisters (\<open>zstorage/frontend/src/\<close>: \<open>encryption.rs\<close>, \<open>recipient.rs\<close>,
  \<open>authorization.rs\<close>) and the commands built on it (\<open>cli/src/commands/\<close>: \<open>private_transfer.rs\<close>,
  \<open>scan_receive_transfers.rs\<close>, and issuing and listing of \<open>invoice.rs\<close>, with
  \<open>client-common/src/payment/seed.rs\<close>).

  A call of the client is the call of the canister: encoding and transport are left to the
  agent. Identity-based encryption, AES-GCM and the keys of a wallet are third-party code and
  fields of \<open>vetkeys\<close> and \<open>wallet\<close>; random bytes and clocks are arguments. The construction
  of the client (\<open>build_stealth_client\<close>) rests on the agent library, the fields of \<open>ic_agent\<close>;
  the transfer on the chain goes through the contract client of \<open>Contracts\<close>.
\<close>

section \<open>Parameters\<close>

record ('pk, 'vk, 'tk, 'ek, 'ct) vetkeys =
  vt_public_key :: "bytes \<Rightarrow> 'pk option"
  vt_ibe_encrypt :: "'pk \<Rightarrow> bytes \<Rightarrow> bytes \<Rightarrow> bytes \<Rightarrow> 'ct"
  vt_ibe_serialize :: "'ct \<Rightarrow> bytes"
  vt_ibe_deserialize :: "bytes \<Rightarrow> 'ct option"
  vt_ibe_decrypt :: "'ct \<Rightarrow> 'vk \<Rightarrow> bytes option"
  vt_transport_key :: "bytes \<Rightarrow> 'tk option"
  vt_transport_public :: "'tk \<Rightarrow> bytes"
  vt_encrypted_key :: "bytes \<Rightarrow> 'ek option"
  vt_decrypt_and_verify :: "'ek \<Rightarrow> 'tk \<Rightarrow> 'pk \<Rightarrow> bytes \<Rightarrow> 'vk option"
  vt_aes_encrypt :: "bytes \<Rightarrow> bytes \<Rightarrow> bytes \<Rightarrow> bytes option"
  vt_aes_decrypt :: "bytes \<Rightarrow> bytes \<Rightarrow> bytes \<Rightarrow> bytes option"

record 'sk wallet =
  wl_signing_key :: "b256 \<Rightarrow> 'sk option"
  wl_encoded_point :: "'sk \<Rightarrow> bytes"
  wl_address :: "'sk \<Rightarrow> address"
  wl_sign_prehash :: "'sk \<Rightarrow> b256 \<Rightarrow> (bytes \<times> byte) option"
  wl_sign_message :: "'sk \<Rightarrow> bytes \<Rightarrow> bytes option"

datatype stealth_error =
    InvalidDerivedPublicKey
  | EncryptionFailed
  | AnnouncementIgnored string
  | TransportError string
  | StorageCanister storage_error
  | KeyManagerCanister key_manager_error
  | SigningKeyInvalid
  | SigningFailed
  | CommandError teleport_error
  | FileError string
  | ClientError string
  | ContractStep transfer_error

definition storage_call :: "storage_error + 'a \<Rightarrow> stealth_error + 'a" where
  "storage_call r = (case r of Inl e \<Rightarrow> Inl (StorageCanister e) | Inr x \<Rightarrow> Inr x)"

definition key_manager_reply :: "key_manager_error + 'a \<Rightarrow> stealth_error + 'a" where
  "key_manager_reply r = (case r of Inl e \<Rightarrow> Inl (KeyManagerCanister e) | Inr x \<Rightarrow> Inr x)"

definition command_step :: "teleport_error + 'a \<Rightarrow> stealth_error + 'a" where
  "command_step r = (case r of Inl e \<Rightarrow> Inl (CommandError e) | Inr x \<Rightarrow> Inr x)"

lemma reply_simps [simp]:
  "storage_call (Inl a) = Inl (StorageCanister a)" "storage_call (Inr x) = Inr x"
  "key_manager_reply (Inl b) = Inl (KeyManagerCanister b)" "key_manager_reply (Inr x) = Inr x"
  "command_step (Inl c) = Inl (CommandError c)" "command_step (Inr x) = Inr x"
  by (simp_all add: storage_call_def key_manager_reply_def command_step_def)

section \<open>The connection to the canisters (\<open>shared.rs\<close>)\<close>

text \<open>Whether an agent for the address can be built, its root key fetched, a principal parsed.\<close>

record ic_agent =
  ic_build :: "string \<Rightarrow> bool"
  ic_fetch_root_key :: "string \<Rightarrow> bool"
  ic_principal_from_text :: "string \<Rightarrow> bool"

record canister_args =
  cn_ic_replica_url :: string
  cn_storage_canister_id :: string
  cn_key_manager_canister_id :: string

definition is_local_replica :: "string \<Rightarrow> bool" where
  "is_local_replica url \<longleftrightarrow> sublist ''127.0.0.1'' url \<or> sublist ''localhost'' url"

definition build_stealth_client :: "ic_agent \<Rightarrow> canister_args \<Rightarrow> stealth_error + unit" where
  "build_stealth_client ic common =
     (if \<not> ic_build ic (cn_ic_replica_url common) then Inl (ClientError ''failed to build IC agent'')
      else if is_local_replica (cn_ic_replica_url common) \<and> \<not> ic_fetch_root_key ic (cn_ic_replica_url common)
      then Inl (ClientError ''failed to fetch replica root key'')
      else if \<not> ic_principal_from_text ic (cn_storage_canister_id common)
      then Inl (ClientError ''failed to parse storage canister principal'')
      else if \<not> ic_principal_from_text ic (cn_key_manager_canister_id common)
      then Inl (ClientError ''failed to parse key manager canister principal'')
      else Inr ())"

section \<open>Encryption (\<open>encryption.rs\<close>)\<close>

definition SESSION_KEY_LEN :: nat where "SESSION_KEY_LEN = 32"
definition NONCE_LEN :: nat where "NONCE_LEN = 12"

record decrypted_announcement =
  da_id :: u64
  da_plaintext :: bytes
  da_created_at_ns :: u64

text \<open>The random bytes, in the order they are drawn: the seed, the session key, the nonce.\<close>

record randomness =
  rn_ibe_seed :: bytes
  rn_session_key :: bytes
  rn_nonce :: bytes

definition encrypt_payload ::
  "('pk, 'vk, 'tk, 'ek, 'ct) vetkeys \<Rightarrow> randomness \<Rightarrow> bytes \<Rightarrow> bytes \<Rightarrow> stealth_error + announcement_input" where
  "encrypt_payload vt rng view_public_key_bytes plaintext =
     res_bind (ok_or InvalidDerivedPublicKey (vt_public_key vt view_public_key_bytes)) (\<lambda>derived_public_key.
     if length (rn_session_key rng) \<noteq> SESSION_KEY_LEN then Inl EncryptionFailed
     else res_bind (ok_or EncryptionFailed (vt_aes_encrypt vt (rn_session_key rng) (rn_nonce rng) plaintext)) (\<lambda>ciphertext.
     Inr \<lparr>in_ibe_ciphertext = vt_ibe_serialize vt (vt_ibe_encrypt vt derived_public_key [] (rn_session_key rng) (rn_ibe_seed rng)),
          in_ciphertext = ciphertext, in_nonce = rn_nonce rng\<rparr>))"

definition decrypt_announcement ::
  "('pk, 'vk, 'tk, 'ek, 'ct) vetkeys \<Rightarrow> 'vk \<Rightarrow> announcement \<Rightarrow> stealth_error + decrypted_announcement" where
  "decrypt_announcement vt vet_key a =
     res_bind (ok_or (AnnouncementIgnored ''invalid IBE ciphertext'') (vt_ibe_deserialize vt (an_ibe_ciphertext a))) (\<lambda>ct.
     res_bind (ok_or (AnnouncementIgnored ''vet key mismatch'') (vt_ibe_decrypt vt ct vet_key)) (\<lambda>session_key.
     if length session_key \<noteq> SESSION_KEY_LEN then Inl (AnnouncementIgnored ''unexpected session key length'')
     else if length (an_nonce a) \<noteq> NONCE_LEN then Inl (AnnouncementIgnored ''invalid nonce length'')
     else res_bind (ok_or (AnnouncementIgnored ''ciphertext authentication failed'')
            (vt_aes_decrypt vt session_key (an_nonce a) (an_ciphertext a))) (\<lambda>plaintext.
     Inr \<lparr>da_id = an_id a, da_plaintext = plaintext, da_created_at_ns = an_created_at_ns a\<rparr>)))"

fun scan_announcements ::
  "('pk, 'vk, 'tk, 'ek, 'ct) vetkeys \<Rightarrow> 'vk \<Rightarrow> announcement list \<Rightarrow> stealth_error + decrypted_announcement list" where
  "scan_announcements vt vet_key [] = Inr []"
| "scan_announcements vt vet_key (a # as) =
     (case decrypt_announcement vt vet_key a of
        Inr message \<Rightarrow> res_bind (scan_announcements vt vet_key as) (\<lambda>rest. Inr (message # rest))
      | Inl (AnnouncementIgnored _) \<Rightarrow> scan_announcements vt vet_key as
      | Inl err \<Rightarrow> Inl err)"

section \<open>Keys and authorization (\<open>recipient.rs\<close>, \<open>authorization.rs\<close>, \<open>seed.rs\<close>)\<close>

definition prepare_transport_key :: "('pk, 'vk, 'tk, 'ek, 'ct) vetkeys \<Rightarrow> bytes \<Rightarrow> stealth_error + 'tk \<times> bytes" where
  "prepare_transport_key vt seed =
     res_bind (command_step (or_panic (vt_transport_key vt seed))) (\<lambda>secret. Inr (secret, vt_transport_public vt secret))"

definition decrypt_vet_key :: "('pk, 'vk, 'tk, 'ek, 'ct) vetkeys \<Rightarrow> bytes \<Rightarrow> bytes \<Rightarrow> 'tk \<Rightarrow> stealth_error + 'vk" where
  "decrypt_vet_key vt encrypted_key derived_public_key transport_secret =
     res_bind (ok_or (TransportError ''encrypted key'') (vt_encrypted_key vt encrypted_key)) (\<lambda>encrypted.
     res_bind (ok_or (TransportError ''invalid derived public key'') (vt_public_key vt derived_public_key)) (\<lambda>derived.
     ok_or (TransportError ''decrypt and verify'') (vt_decrypt_and_verify vt encrypted transport_secret derived [])))"

definition derive_address :: "'sig signatures \<Rightarrow> 'sk wallet \<Rightarrow> 'sk \<Rightarrow> bytes" where
  "derive_address sg wl signing_key =
     drop 12 (u256_to_be_bytes (sg_keccak sg (drop 1 (wl_encoded_point wl signing_key))))"

text \<open>\<open>r||s||v\<close>; the recovery byte saturates.\<close>

definition sign_authorization :: "'sig signatures \<Rightarrow> 'sk wallet \<Rightarrow> bytes \<Rightarrow> 'sk \<Rightarrow> stealth_error + bytes" where
  "sign_authorization sg wl message signing_key =
     res_bind (ok_or SigningFailed (wl_sign_prehash wl signing_key (sg_keccak sg message))) (\<lambda>(signature, recovery_id).
     Inr (signature @ [word_of_nat (min 255 (unat recovery_id + 27))]))"

definition sat_add :: "u64 \<Rightarrow> u64 \<Rightarrow> u64" where
  "sat_add a b = word_of_nat (min (2 ^ 64 - 1) (unat a + unat b))"

definition sat_mul :: "u64 \<Rightarrow> u64 \<Rightarrow> u64" where
  "sat_mul a b = word_of_nat (min (2 ^ 64 - 1) (unat a * unat b))"

definition unix_time_ns :: "u64 \<Rightarrow> u32 \<Rightarrow> u64" where
  "unix_time_ns secs subsec_nanos = sat_add (sat_mul secs 1000000000) (ucast subsec_nanos)"

definition signing_key_from_b256 :: "'sk wallet \<Rightarrow> b256 \<Rightarrow> stealth_error + 'sk" where
  "signing_key_from_b256 wl secret = ok_or SigningKeyInvalid (wl_signing_key wl secret)"

definition newline :: string where "newline = [CHR 0x0A]"

definition SEED_MESSAGE :: string where
  "SEED_MESSAGE =
     ''zERC20 | Seed Derivation'' @ newline @ newline
     @ ''You are signing to derive a private seed used ONLY to generate'' @ newline
     @ ''one-time burn receiving addresses for zERC20.'' @ newline @ newline
     @ ''Facts:'' @ newline
     @ ''- Not a transaction; no gas or approvals.'' @ newline
     @ ''- Cannot move funds or grant permissions.'' @ newline
     @ ''- If this signature is exposed, privacy may be reduced'' @ newline
     @ ''  (burn addresses may become linkable). Funds remain safe.'' @ newline
     @ ''- Keep this signature private.'' @ newline @ newline
     @ ''Details:'' @ newline
     @ ''- App: zERC20'' @ newline
     @ ''- Purpose: Seed for burn address derivation'' @ newline
     @ ''- Version: 1''"

definition compute_seed_from_signature :: "'sig signatures \<Rightarrow> 'sk wallet \<Rightarrow> b256 \<Rightarrow> stealth_error + b256" where
  "compute_seed_from_signature sg wl private_key =
     res_bind (signing_key_from_b256 wl private_key) (\<lambda>signer.
     res_bind (ok_or SigningFailed (wl_sign_message wl signer (text_bytes SEED_MESSAGE))) (\<lambda>signature.
     Inr (sg_keccak sg signature)))"

section \<open>Addresses\<close>

definition address_to_array :: "address \<Rightarrow> bytes" where
  "address_to_array addr = be_bytes 20 (unat addr)"

definition address_of_bytes :: "bytes \<Rightarrow> address" where
  "address_of_bytes bs = word_of_nat (nat_of_be bs)"

lemma length_address_to_array [simp]: "length (address_to_array addr) = 20"
  by (simp add: address_to_array_def)

lemma address_of_to_array [simp]: "address_of_bytes (address_to_array addr) = addr"
  using unsigned_less [of addr, where ?'a = nat] by (simp add: address_of_bytes_def address_to_array_def)

lemma address_to_from_slice: "length bs = 20 \<Longrightarrow> address_to_array (address_of_bytes bs) = bs"
  using be_bytes_nat_of_be [of bs] nat_of_be_less [of bs]
  by (simp add: address_of_bytes_def address_to_array_def unat_word_of_nat)

text \<open>\<open>unwrap\<close> panics on an invalid key.\<close>

definition get_address_from_private_key :: "'sk wallet \<Rightarrow> b256 \<Rightarrow> stealth_error + address" where
  "get_address_from_private_key wl private_key =
     res_bind (command_step (or_panic (wl_signing_key wl private_key))) (\<lambda>signer. Inr (wl_address wl signer))"

section \<open>Sending (\<open>private_transfer.rs\<close>)\<close>

record private_transfer_args =
  pt_chain_id :: nat
  pt_to :: address
  pt_to_chain_id :: u64
  pt_amount :: u256

record 'tx private_transfer_result =
  pr_announcement :: announcement
  pr_burn_address :: address
  pr_transaction :: 'tx

text \<open>The payload and its address, before anything is sent.\<close>

definition private_payload ::
  "(fr \<Rightarrow> fr \<Rightarrow> fr) \<Rightarrow> (bytes \<Rightarrow> bytes) \<Rightarrow> 'sig signatures \<Rightarrow> 'sk wallet \<Rightarrow> (string \<Rightarrow> bool) \<Rightarrow> token_entry list
     \<Rightarrow> private_transfer_args \<Rightarrow> b256 \<Rightarrow> b256 \<Rightarrow> stealth_error + token_entry \<times> contract \<times> full_burn_address \<times> address" where
  "private_payload H sha sg wl parses tokens args payment_advice_id private_key =
     res_bind (command_step (find_token_by_chain tokens (pt_chain_id args))) (\<lambda>entry.
     res_bind (map_error ContractStep (build_erc20 parses entry)) (\<lambda>erc20.
     res_bind (compute_seed_from_signature sg wl private_key) (\<lambda>seed.
     res_bind (command_step (or_panic (payment_advice H sha (sg_keccak sg) payment_advice_id seed (pt_to_chain_id args) (pt_to args)))) (\<lambda>st.
     res_bind (command_step (lift_payment (full_burn_address_new H sha (pt_to_chain_id args) (pt_to args) st))) (\<lambda>burn_payload.
     res_bind (command_step (lift_payment (burn_address H sha burn_payload))) (\<lambda>a.
     Inr (entry, erc20, burn_payload, a)))))))"

text \<open>
  The whole command: \<open>s\<close> is the state of the storage canister, \<open>w\<close> that of the chain, and
  \<open>pvs\<close> gives the provider behind the configured nodes.
\<close>

definition private_transfer ::
  "(fr \<Rightarrow> fr \<Rightarrow> fr) \<Rightarrow> (bytes \<Rightarrow> bytes) \<Rightarrow> 'sig signatures \<Rightarrow> 'sk wallet \<Rightarrow> ('pk, 'vk, 'tk, 'ek, 'ct) vetkeys \<Rightarrow> management
     \<Rightarrow> ic_agent \<Rightarrow> canister_args \<Rightarrow> (string \<Rightarrow> bool) \<Rightarrow> (string list \<Rightarrow> ('w, 'tx) provider) \<Rightarrow> token_entry list
     \<Rightarrow> private_transfer_args \<Rightarrow> b256 \<Rightarrow> b256 \<Rightarrow> randomness \<Rightarrow> u64 \<Rightarrow> key_manager_state option \<Rightarrow> storage_state \<Rightarrow> 'w
     \<Rightarrow> (stealth_error + 'tx private_transfer_result) \<times> storage_state \<times> 'w" where
  "private_transfer H sha sg wl vt mg ic common parses pvs tokens args payment_advice_id private_key rng now km s w =
     (case res_bind (private_payload H sha sg wl parses tokens args payment_advice_id private_key) (\<lambda>(entry, erc20, burn_payload, a).
           res_bind (build_stealth_client ic common) (\<lambda>_.
           res_bind (key_manager_reply (get_view_public_key mg km (address_to_array (pt_to args)))) (\<lambda>view_public_key.
           res_bind (encrypt_payload vt rng view_public_key (burn_to_bytes burn_payload)) (\<lambda>input.
           Inr (entry, erc20, a, input))))) of
        Inl e \<Rightarrow> (Inl e, s, w)
      | Inr (entry, erc20, a, input) \<Rightarrow>
          (case submit_announcement input now s of
             (Inl e, s') \<Rightarrow> (Inl (StorageCanister e), s', w)
           | (Inr announcement, s') \<Rightarrow>
               (case transfer (pvs (te_rpc_urls entry)) erc20 private_key a (pt_amount args) w of
                  (Inl e, w') \<Rightarrow> (Inl (ContractStep (TransferContract e)), s', w')
                | (Inr tx, w') \<Rightarrow>
                    (Inr \<lparr>pr_announcement = announcement, pr_burn_address = a, pr_transaction = tx\<rparr>, s', w'))))"

section \<open>Scanning (\<open>scan_receive_transfers.rs\<close>)\<close>

record scanned_transfer =
  sc_id :: u64
  sc_recipient_chain_id :: u64
  sc_recipient_address :: address
  sc_burn_address :: address
  sc_full_burn_address_hex :: string
  sc_created_at_ns :: u64

definition recipient_address_from_payload :: "full_burn_address \<Rightarrow> address" where
  "recipient_address_from_payload burn_payload = ucast (recipient_address (fb_gr burn_payload))"

definition is_recipient :: "full_burn_address \<Rightarrow> address \<Rightarrow> bool" where
  "is_recipient burn_payload recipient \<longleftrightarrow> recipient_address_from_payload burn_payload = recipient"

text \<open>One turn of the inner loop; \<open>None\<close> where the code warns or skips.\<close>

definition scanned_entry ::
  "(fr \<Rightarrow> fr \<Rightarrow> fr) \<Rightarrow> (bytes \<Rightarrow> bytes) \<Rightarrow> 'sig signatures \<Rightarrow> address \<Rightarrow> decrypted_announcement \<Rightarrow> scanned_transfer option" where
  "scanned_entry H sha sg recipient entry =
     (case burn_from_bytes (da_plaintext entry) of
        Inl _ \<Rightarrow> None
      | Inr burn_payload \<Rightarrow>
          if \<not> is_recipient burn_payload recipient then None
          else case burn_address H sha burn_payload of
                 Inl _ \<Rightarrow> None
               | Inr a \<Rightarrow> Some \<lparr>sc_id = da_id entry, sc_recipient_chain_id = chain_id (fb_gr burn_payload),
                   sc_recipient_address = recipient_address_from_payload burn_payload, sc_burn_address = a,
                   sc_full_burn_address_hex = ''0x'' @ sg_hex sg (da_plaintext entry), sc_created_at_ns = da_created_at_ns entry\<rparr>)"

definition scan_page ::
  "(fr \<Rightarrow> fr \<Rightarrow> fr) \<Rightarrow> (bytes \<Rightarrow> bytes) \<Rightarrow> 'sig signatures \<Rightarrow> ('pk, 'vk, 'tk, 'ek, 'ct) vetkeys \<Rightarrow> 'vk \<Rightarrow> address \<Rightarrow> announcement list
     \<Rightarrow> stealth_error + scanned_transfer list" where
  "scan_page H sha sg vt vet_key recipient as =
     res_bind (scan_announcements vt vet_key as) (\<lambda>decrypted. Inr (List.map_filter (scanned_entry H sha sg recipient) decrypted))"

text \<open>
  The loop over pages. The canister goes on serving others: \<open>fetch k\<close> is the answer it gives
  to the request number \<open>k\<close>.
\<close>

partial_function (option) scan_pages ::
  "(nat \<Rightarrow> u64 option \<Rightarrow> announcement_page) \<Rightarrow> (announcement list \<Rightarrow> stealth_error + 'a list) \<Rightarrow> nat \<Rightarrow> u64 option \<Rightarrow> 'a list
     \<Rightarrow> (stealth_error + 'a list) option" where
  "scan_pages fetch scan k start_after saved =
     (let page = fetch k start_after in
      if pg_announcements page = [] then Some (Inr saved)
      else case scan (pg_announcements page) of
             Inl e \<Rightarrow> Some (Inl e)
           | Inr new \<Rightarrow>
               if pg_next_id page = None then Some (Inr (saved @ new))
               else scan_pages fetch scan (Suc k) (Some (an_id (last (pg_announcements page)))) (saved @ new))"

record scan_args =
  sa_page_size :: u32
  sa_authorization_ttl_seconds :: u64

text \<open>Between the construction of the client and the loop: the view key of the owner of the private key.\<close>

definition obtain_vet_key ::
  "'sig signatures \<Rightarrow> 'sk wallet \<Rightarrow> ('pk, 'vk, 'tk, 'ek, 'ct) vetkeys \<Rightarrow> management \<Rightarrow> scan_args \<Rightarrow> b256 \<Rightarrow> bytes \<Rightarrow> u64 \<Rightarrow> u64
     \<Rightarrow> key_manager_state option \<Rightarrow> (stealth_error + 'vk \<times> address) \<times> key_manager_state option" where
  "obtain_vet_key sg wl vt mg args private_key transport_seed unix_now canister_now km =
     (case res_bind (signing_key_from_b256 wl private_key) (\<lambda>signing_key.
           let address_bytes = derive_address sg wl signing_key in
           res_bind (key_manager_reply (get_view_public_key mg km address_bytes)) (\<lambda>view_public_key.
           res_bind (prepare_transport_key vt transport_seed) (\<lambda>(transport_secret, transport_public).
           let expiry_ns = sat_add unix_now (sat_mul (sa_authorization_ttl_seconds args) 1000000000) in
           res_bind (key_manager_reply (get_max_nonce km address_bytes)) (\<lambda>max_nonce.
           let nonce = sat_add max_nonce 1;
               auth_message = authorization_message sg (mg_self mg) address_bytes transport_public expiry_ns nonce in
           res_bind (sign_authorization sg wl auth_message signing_key) (\<lambda>signature.
           Inr (\<lparr>vr_address = address_bytes, vr_transport_public_key = transport_public, vr_expiry_ns = expiry_ns,
                 vr_nonce = nonce, vr_signature = signature\<rparr>, view_public_key, transport_secret)))))) of
        Inl e \<Rightarrow> (Inl e, km)
      | Inr (request, view_public_key, transport_secret) \<Rightarrow>
          (case request_encrypted_view_key sg mg canister_now request km of
             (r, km') \<Rightarrow>
               (res_bind (key_manager_reply r) (\<lambda>encrypted_key.
                res_bind (decrypt_vet_key vt encrypted_key view_public_key transport_secret) (\<lambda>vet_key.
                Inr (vet_key, address_of_bytes (vr_address request)))), km')))"

definition scan_receive_transfers ::
  "(fr \<Rightarrow> fr \<Rightarrow> fr) \<Rightarrow> (bytes \<Rightarrow> bytes) \<Rightarrow> 'sig signatures \<Rightarrow> 'sk wallet \<Rightarrow> ('pk, 'vk, 'tk, 'ek, 'ct) vetkeys \<Rightarrow> management
     \<Rightarrow> ic_agent \<Rightarrow> canister_args \<Rightarrow> scan_args \<Rightarrow> b256 \<Rightarrow> bytes \<Rightarrow> u64 \<Rightarrow> u64 \<Rightarrow> key_manager_state option \<Rightarrow> (nat \<Rightarrow> storage_state)
     \<Rightarrow> (stealth_error + scanned_transfer list) option \<times> key_manager_state option" where
  "scan_receive_transfers H sha sg wl vt mg ic common args private_key transport_seed unix_now canister_now km storage =
     (case build_stealth_client ic common of
        Inl e \<Rightarrow> (Some (Inl e), km)
      | Inr _ \<Rightarrow>
          (case obtain_vet_key sg wl vt mg args private_key transport_seed unix_now canister_now km of
             (Inl e, km') \<Rightarrow> (Some (Inl e), km')
           | (Inr (vet_key, recipient), km') \<Rightarrow>
               (scan_pages (\<lambda>k start. list_announcements (storage k) start (Some (sa_page_size args)))
                  (scan_page H sha sg vt vet_key recipient) 0 None [], km')))"

text \<open>The results file: absent, empty, a list of entries, or something that does not parse.\<close>

datatype results_file = Absent | Blank | Entries "scanned_transfer list" | Garbage

fun merge_results :: "scanned_transfer list \<Rightarrow> u64 set \<Rightarrow> bool \<Rightarrow> scanned_transfer list \<Rightarrow> scanned_transfer list \<times> bool" where
  "merge_results existing seen_ids modified [] = (existing, modified)"
| "merge_results existing seen_ids modified (t # ts) =
     (if sc_id t \<in> seen_ids then merge_results existing seen_ids modified ts
      else merge_results (existing @ [t]) (insert (sc_id t) seen_ids) True ts)"

definition write_results :: "results_file \<Rightarrow> scanned_transfer list \<Rightarrow> (stealth_error + unit) \<times> results_file" where
  "write_results file transfers =
     (case (case file of Absent \<Rightarrow> Inr [] | Blank \<Rightarrow> Inr [] | Entries es \<Rightarrow> Inr es
              | Garbage \<Rightarrow> Inl (FileError ''failed to parse existing scanned transfers'')) of
        Inl e \<Rightarrow> (Inl e, file)
      | Inr existing \<Rightarrow>
          let (merged, changed) = merge_results existing (sc_id ` set existing) False transfers;
              modified = (changed \<or> file = Absent \<and> transfers = [])
          in (Inr (), if modified then Entries merged else file))"

section \<open>Scanned transfers as input (\<open>receive_transfer.rs\<close>)\<close>

definition load_scanned_transfer :: "results_file \<Rightarrow> u64 \<Rightarrow> stealth_error + scanned_transfer" where
  "load_scanned_transfer file i =
     (case file of
        Absent \<Rightarrow> Inl (FileError ''failed to open scanned transfers file'')
      | Entries es \<Rightarrow> ok_or (FileError ''announcement id not found'') (List.find (\<lambda>e. sc_id e = i) es)
      | _ \<Rightarrow> Inl (FileError ''failed to parse scanned transfers JSON''))"

text \<open>\<open>trim_start_matches\<close> removes every leading occurrence.\<close>

fun trim_start_0x :: "string \<Rightarrow> string" where
  "trim_start_0x (a # b # s) = (if a = CHR ''0'' \<and> b = CHR ''x'' then trim_start_0x s else a # b # s)"
| "trim_start_0x s = s"

definition decode_full_burn_address :: "(string \<Rightarrow> bytes option) \<Rightarrow> string \<Rightarrow> stealth_error + bytes" where
  "decode_full_burn_address hex_decode input =
     ok_or (FileError ''failed to decode FullBurnAddress hex'') (hex_decode (trim_start_0x (trim_ascii input)))"

definition resolve_full_burn_address ::
  "(string \<Rightarrow> bytes option) \<Rightarrow> string option \<Rightarrow> u64 option \<Rightarrow> results_file option \<Rightarrow> stealth_error + bytes" where
  "resolve_full_burn_address hex_decode full_burn announcement_id scan_results =
     (case full_burn of
        Some hex \<Rightarrow> decode_full_burn_address hex_decode hex
      | None \<Rightarrow>
          res_bind (ok_or (FileError ''announcement_id must be provided'') announcement_id) (\<lambda>i.
          res_bind (ok_or (FileError ''--scan-results-path is required'') scan_results) (\<lambda>file.
          res_bind (load_scanned_transfer file i) (\<lambda>t.
          decode_full_burn_address hex_decode (sc_full_burn_address_hex t)))))"

section \<open>Issuing and listing invoices (\<open>invoice.rs\<close>)\<close>

definition decode_invoice_id :: "bytes \<Rightarrow> stealth_error + b256" where
  "decode_invoice_id bs =
     (if length bs \<noteq> 32 then Inl (FileError ''invoice identifier must be 32 bytes'') else Inr (Field.u256_from_be_slice bs))"

definition decode_invoice_ids :: "bytes list \<Rightarrow> stealth_error + b256 list" where
  "decode_invoice_ids raw = res_map decode_invoice_id raw"

definition sign_invoice :: "'sig signatures \<Rightarrow> 'sk wallet \<Rightarrow> 'sk \<Rightarrow> b256 \<Rightarrow> stealth_error + bytes" where
  "sign_invoice sg wl signing_key invoice_id =
     res_bind (ok_or SigningFailed (wl_sign_prehash wl signing_key
        (sg_keccak sg (invoice_signature_message sg (u256_to_be_bytes invoice_id))))) (\<lambda>(signature, recovery_id).
     Inr (signature @ [word_of_nat (min 255 (unat recovery_id + 27))]))"

text \<open>Draw identifiers until one is new; \<open>random k\<close> are the bytes of the draw number \<open>k\<close>.\<close>

partial_function (option) fresh_invoice_id :: "(nat \<Rightarrow> bytes) \<Rightarrow> bool \<Rightarrow> u64 \<Rightarrow> b256 list \<Rightarrow> nat \<Rightarrow> b256 option" where
  "fresh_invoice_id random single cid existing k =
     (let invoice_id = random_invoice_id (random k) single cid
      in if invoice_id \<in> set existing then fresh_invoice_id random single cid existing (Suc k) else Some invoice_id)"

record issue_args =
  ia_chain_id :: u64
  ia_recipient :: "address option"
  ia_batch :: bool

record issued_invoice =
  iv_invoice_id :: b256
  iv_burn_addresses :: "address list"

definition issued_burn_addresses ::
  "(fr \<Rightarrow> fr \<Rightarrow> fr) \<Rightarrow> (bytes \<Rightarrow> bytes) \<Rightarrow> (bytes \<Rightarrow> b256) \<Rightarrow> bool \<Rightarrow> b256 \<Rightarrow> b256 \<Rightarrow> u64 \<Rightarrow> address \<Rightarrow> teleport_error + address list" where
  "issued_burn_addresses H sha keccak batch invoice_id seed cid recipient =
     res_bind (res_map (invoice_entry H sha cid recipient)
       (if batch then map (\<lambda>sub_id. batch_invoice H sha keccak invoice_id (word_of_nat sub_id) seed cid recipient) [0..<NUM_BATCH_INVOICES]
        else [single_invoice H sha keccak invoice_id seed cid recipient])) (\<lambda>xs.
     Inr (map fst xs))"

text \<open>The identifier is filed before the addresses are derived and printed.\<close>

definition invoice_issue ::
  "(fr \<Rightarrow> fr \<Rightarrow> fr) \<Rightarrow> (bytes \<Rightarrow> bytes) \<Rightarrow> 'sig signatures \<Rightarrow> 'sk wallet \<Rightarrow> ic_agent \<Rightarrow> canister_args \<Rightarrow> token_entry list \<Rightarrow> issue_args \<Rightarrow> b256 \<Rightarrow> (nat \<Rightarrow> bytes)
     \<Rightarrow> storage_state \<Rightarrow> ((stealth_error + issued_invoice) \<times> storage_state) option" where
  "invoice_issue H sha sg wl ic common tokens args private_key random s =
     (case res_bind (command_step (find_token_by_chain tokens (unat (ia_chain_id args)))) (\<lambda>entry.
           res_bind (build_stealth_client ic common) (\<lambda>_.
           res_bind (compute_seed_from_signature sg wl private_key) (\<lambda>seed.
           res_bind (case ia_recipient args of Some a \<Rightarrow> Inr a | None \<Rightarrow> get_address_from_private_key wl private_key) (\<lambda>recipient.
           res_bind (storage_call (list_invoices s (address_to_array recipient))) (\<lambda>raw.
           res_bind (decode_invoice_ids raw) (\<lambda>existing.
           Inr (seed, recipient, existing))))))) of
        Inl e \<Rightarrow> Some (Inl e, s)
      | Inr (seed, recipient, existing) \<Rightarrow>
          map_option (\<lambda>invoice_id.
            case res_bind (signing_key_from_b256 wl private_key) (\<lambda>signing_key. sign_invoice sg wl signing_key invoice_id) of
              Inl e \<Rightarrow> (Inl e, s)
            | Inr signature \<Rightarrow>
                (case submit_invoice sg \<lparr>is_invoice_id = u256_to_be_bytes invoice_id, is_signature = signature\<rparr> s of
                   (Inl e, s') \<Rightarrow> (Inl (StorageCanister e), s')
                 | (Inr _, s') \<Rightarrow>
                     (res_bind (command_step (issued_burn_addresses H sha (sg_keccak sg) (ia_batch args) invoice_id seed (ia_chain_id args) recipient)) (\<lambda>as.
                      Inr \<lparr>iv_invoice_id = invoice_id, iv_burn_addresses = as\<rparr>), s')))
            (fresh_invoice_id random (\<not> ia_batch args) (ia_chain_id args) existing 0))"

definition invoice_list ::
  "'sk wallet \<Rightarrow> ic_agent \<Rightarrow> canister_args \<Rightarrow> token_entry list \<Rightarrow> u64 \<Rightarrow> address option \<Rightarrow> b256 \<Rightarrow> storage_state \<Rightarrow> stealth_error + b256 list" where
  "invoice_list wl ic common tokens cid owner private_key s =
     res_bind (command_step (find_token_by_chain tokens (unat cid))) (\<lambda>entry.
     res_bind (build_stealth_client ic common) (\<lambda>_.
     res_bind (case owner of Some a \<Rightarrow> Inr a | None \<Rightarrow> get_address_from_private_key wl private_key) (\<lambda>owner.
     res_bind (storage_call (list_invoices s (address_to_array owner))) (\<lambda>raw.
     res_bind (decode_invoice_ids raw) (\<lambda>invoice_ids.
     Inr (filter (\<lambda>invoice_id. extract_chain_id invoice_id = cid) invoice_ids))))))"

end
