(* ===== verification/Stealth_Props.thy ===== *)
theory Stealth_Props
  imports Stealth
begin

text \<open>
  The canisters and their client together: a scan returns and misses nothing that was on the
  board when it began; what one user sends privately, the recipient finds, with the payload
  that redeems it; an issued invoice is filed, listed and received under the same addresses.
\<close>

section \<open>Pages of announcements\<close>

lemma decrypt_announcement_error: "decrypt_announcement vt vk a = Inl e \<Longrightarrow> \<exists>msg. e = AnnouncementIgnored msg"
  by (auto simp: decrypt_announcement_def res_bind_Inl_iff ok_or_def split: if_splits option.splits)

definition scanned_of ::
  "(fr \<Rightarrow> fr \<Rightarrow> fr) \<Rightarrow> (bytes \<Rightarrow> bytes) \<Rightarrow> 'sig signatures \<Rightarrow> ('pk, 'vk, 'tk, 'ek, 'ct) vetkeys \<Rightarrow> 'vk \<Rightarrow> address \<Rightarrow> announcement
     \<Rightarrow> scanned_transfer option" where
  "scanned_of H sha sg vt vk recipient a =
     (case decrypt_announcement vt vk a of Inl _ \<Rightarrow> None | Inr m \<Rightarrow> scanned_entry H sha sg recipient m)"

text \<open>No announcement, however malformed, makes a page fail.\<close>

lemma scan_page_total: "scan_page H sha sg vt vk recipient as = Inr (List.map_filter (scanned_of H sha sg vt vk recipient) as)"
proof (induction as)
  case Nil
  then show ?case
    by (simp add: scan_page_def List.map_filter_def)
next
  case (Cons a as)
  show ?case
  proof (cases "decrypt_announcement vt vk a")
    case (Inl e)
    obtain msg where "e = AnnouncementIgnored msg"
      using decrypt_announcement_error [OF Inl] by (rule exE)
    then have "scan_page H sha sg vt vk recipient (a # as) = scan_page H sha sg vt vk recipient as"
      "scanned_of H sha sg vt vk recipient a = None"
      unfolding scan_page_def scanned_of_def scan_announcements.simps Inl \<open>e = AnnouncementIgnored msg\<close> by (simp_all only: sum.case stealth_error.case)
    then show ?thesis
      unfolding Cons.IH by (simp add: List.map_filter_simps)
  next
    case (Inr m)
    obtain rest where rest: "scan_announcements vt vk as = Inr rest"
      using Cons.IH by (cases "scan_announcements vt vk as") (auto simp: scan_page_def)
    then have "List.map_filter (scanned_entry H sha sg recipient) rest = List.map_filter (scanned_of H sha sg vt vk recipient) as"
      using Cons.IH by (simp add: scan_page_def)
    moreover have "scanned_of H sha sg vt vk recipient a = scanned_entry H sha sg recipient m"
      using Inr by (simp add: scanned_of_def)
    ultimately show ?thesis
      using Inr rest by (simp add: scan_page_def List.map_filter_simps split: option.splits)
  qed
qed

context announcement_board
begin

text \<open>
  The reader's loop ends whatever is posted meanwhile, and has then processed, in order and
  once each, a beginning of the board that contains everything that was there at its start.
\<close>

lemma scan_pages_complete:
  assumes later: "\<And>k. later (st k) (st (Suc k))" and sound: "\<And>k. sound (st k)" and limit: "0 < list_limit limit"
    and scan: "\<And>as. scan as = Inr (f as)" and f: "\<And>as bs. f (as @ bs) = f as @ f bs"
  shows "\<exists>n as. k \<le> n \<and> scan_pages (\<lambda>k start. read_page (st k) start limit) scan k start saved = Some (Inr (saved @ f as))
    \<and> prefix (drop (page_start start) (board (st k))) as \<and> prefix as (drop (page_start start) (board (st n)))"
proof (induction "2 ^ 64 - page_start start" arbitrary: k start saved rule: less_induct)
  case less
  let ?page = "read_page (st k) start limit" and ?p = "page_start start" and ?B = "board (st k)"
  let ?P = "take (list_limit limit) (drop ?p ?B)"
  have P: "pg_announcements ?page = ?P"
    using sound by (rule page_items)
  have f_Nil: "f [] = []"
    using f [of "[]" "[]"] by simp
  consider (empty) "?P = []" | (final) "?P \<noteq> []" "pg_next_id ?page = None" | (more) "?P \<noteq> []" "pg_next_id ?page \<noteq> None"
    by blast
  then show ?case
  proof cases
    case empty
    then have "drop ?p ?B = []"
      using limit by auto
    then show ?thesis
      using empty P f_Nil by (intro exI [of _ k] exI [of _ "[]"]) (simp add: scan_pages.simps)
  next
    case final
    then have "?P = drop ?p ?B"
      using page_last [OF sound, of k start limit] by simp
    then show ?thesis
      using final P by (intro exI [of _ k] exI [of _ ?P]) (simp add: scan_pages.simps scan)
  next
    case more
    then have len: "length ?P = list_limit limit" "?p < length ?B"
      using page_last [OF sound, of k start limit] limit by auto
    define start' where "start' = Some (an_id (last (pg_announcements ?page)))"
    have p': "page_start start' = ?p + length ?P"
      using page_start_next [OF sound, of k start limit] more(1) by (simp add: start'_def P)
    have "2 ^ 64 - page_start start' < 2 ^ 64 - ?p"
      using p' len limit board_length [OF sound, of k] by linarith
    from less [OF this, of "Suc k" "saved @ f ?P"] obtain n as where
      n: "Suc k \<le> n" "scan_pages (\<lambda>k start. read_page (st k) start limit) scan (Suc k) start' (saved @ f ?P)
          = Some (Inr ((saved @ f ?P) @ f as))"
        "prefix (drop (page_start start') (board (st (Suc k)))) as" "prefix as (drop (page_start start') (board (st n)))"
      by blast
    have split: "drop ?p (board (st j)) = ?P @ drop (page_start start') (board (st j))" if j: "k \<le> j" for j
    proof -
      obtain zs where zs: "board (st j) = ?B @ zs"
        using board_mono [of st k j, OF later j] by (auto simp: prefix_def)
      have "drop ?p ?B = ?P @ drop (page_start start') ?B"
        using p' len(1) append_take_drop_id [of "list_limit limit" "drop ?p ?B"] by (simp add: add.commute)
      moreover have "page_start start' \<le> length ?B"
        using p' len(2) by simp
      ultimately show ?thesis
        using zs len(2) by simp
    qed
    have "prefix (drop (page_start start') ?B) (drop (page_start start') (board (st (Suc k))))"
      using board_mono [of st k "Suc k", OF later] p' by (auto simp: prefix_def)
    then have "prefix (?P @ drop (page_start start') ?B) (?P @ as)"
      using prefix_order.trans [OF _ n(3)] by simp
    then have "prefix (drop ?p ?B) (?P @ as)"
      by (simp only: split [OF order_refl, symmetric])
    moreover have "prefix (?P @ as) (?P @ drop (page_start start') (board (st n)))"
      using n(4) by simp
    then have "prefix (?P @ as) (drop ?p (board (st n)))"
      using n(1) by (simp only: split [symmetric] Suc_leD)
    moreover have "scan_pages (\<lambda>k start. read_page (st k) start limit) scan k start saved = Some (Inr (saved @ f (?P @ as)))"
      using more P n(2) by (subst scan_pages.simps) (auto simp: scan f start'_def)
    ultimately show ?thesis
      using n(1) by (intro exI [of _ n] exI [of _ "?P @ as"]) simp
  qed
qed

end

section \<open>What is assumed of the cryptography\<close>

text \<open>
  The documented behaviour of the third-party code: the management canister derives, per
  context, a public key and, encrypted to any transport key, the matching view key; it opens
  what was encrypted to the public key; serialisation and AES-GCM are inverted by their
  counterparts and keep to their sizes.
\<close>

definition view_key_for ::
  "('pk, 'vk, 'tk, 'ek, 'ct) vetkeys \<Rightarrow> management \<Rightarrow> string \<Rightarrow> bytes \<Rightarrow> bytes \<Rightarrow> 'pk \<Rightarrow> 'vk \<Rightarrow> bool" where
  "view_key_for vt mg name ctx pkb pk vk \<longleftrightarrow>
     mg_public_key mg ctx name = Inr pkb \<and> vt_public_key vt pkb = Some pk
     \<and> (\<forall>m seed. vt_ibe_decrypt vt (vt_ibe_encrypt vt pk [] m seed) vk = Some m)
     \<and> (\<forall>tk. \<exists>ekb ek. mg_derive_key mg ctx [] name (vt_transport_public vt tk) = Inr ekb
          \<and> vt_encrypted_key vt ekb = Some ek \<and> vt_decrypt_and_verify vt ek tk pk [] = Some vk)"

definition vetkeys_ok :: "('pk, 'vk, 'tk, 'ek, 'ct) vetkeys \<Rightarrow> management \<Rightarrow> string \<Rightarrow> bool" where
  "vetkeys_ok vt mg name \<longleftrightarrow>
     (\<forall>ctx. \<exists>pkb pk vk. view_key_for vt mg name ctx pkb pk vk)
     \<and> (\<forall>ct. vt_ibe_deserialize vt (vt_ibe_serialize vt ct) = Some ct)
     \<and> (\<forall>k n p c. vt_aes_encrypt vt k n p = Some c \<longrightarrow> vt_aes_decrypt vt k n c = Some p)
     \<and> (\<forall>seed. length seed = 32 \<longrightarrow> vt_transport_key vt seed \<noteq> None)"

text \<open>A wallet signs every digest, and its signature recovers to the address of the key.\<close>

definition wallet_ok :: "'sig signatures \<Rightarrow> 'sk wallet \<Rightarrow> bool" where
  "wallet_ok sg wl \<longleftrightarrow>
     (\<forall>sk h. \<exists>rs v sig. wl_sign_prehash wl sk h = Some (rs, v) \<and> length rs = 64 \<and> v \<le> 1
        \<and> sg_from_raw sg (rs @ [v + 27]) = Some sig \<and> sg_recover sg sig h = Some (derive_address sg wl sk))
     \<and> (\<forall>sk. wl_address wl sk = address_of_bytes (derive_address sg wl sk))
     \<and> (\<forall>sk m. wl_sign_message wl sk m \<noteq> None)"

lemma length_derive_address [simp]: "length (derive_address sg wl sk) = 20"
  by (simp add: derive_address_def u256_to_be_bytes_def)

lemma signature_bytes:
  assumes "wallet_ok sg wl"
  obtains rs v sig where "wl_sign_prehash wl sk h = Some (rs, v)" "length rs = 64"
    "sg_from_raw sg (rs @ [word_of_nat (min 255 (unat v + 27))]) = Some sig" "sg_recover sg sig h = Some (derive_address sg wl sk)"
proof -
  obtain rs v sig where *: "wl_sign_prehash wl sk h = Some (rs, v)" "length rs = 64" "v \<le> 1"
    "sg_from_raw sg (rs @ [v + 27]) = Some sig" "sg_recover sg sig h = Some (derive_address sg wl sk)"
    using assms unfolding wallet_ok_def by blast
  have "unat v \<le> 1"
    using *(3) by (simp add: word_le_nat_alt)
  then have "word_of_nat (min 255 (unat v + 27)) = v + 27"
    by (simp add: min_def)
  then show thesis
    using that [of rs v sig] * by simp
qed

section \<open>The view key\<close>

lemma sat_add_one: "n \<noteq> - 1 \<Longrightarrow> n < sat_add n (1 :: u64)"
proof -
  assume "n \<noteq> - 1"
  then have "n < - 1"
    by (simp add: word_order.not_eq_extremum)
  then have "unat n < 2 ^ 64 - 1"
    unfolding word_less_nat_alt by (simp add: unsigned_minus_1_eq_mask mask_eq_exp_minus_1)
  then have "min (2 ^ 64 - 1) (unat n + unat (1 :: u64)) = unat n + 1"
    by (simp only: unat_1)
  then have "unat (sat_add n 1) = (unat n + 1) mod 2 ^ 64"
    unfolding sat_add_def unat_word_of_nat by simp
  also have "\<dots> = unat n + 1"
    using \<open>unat n < 2 ^ 64 - 1\<close> by (intro mod_less) linarith
  finally show ?thesis
    by (simp only: word_less_nat_alt)
qed

text \<open>
  The owner of a key gets the view key of the address, unless the nonces of the address are
  exhausted or the request has expired when it arrives.
\<close>

lemma obtain_vet_key_ok:
  assumes vt: "vetkeys_ok vt mg (km_key_id_name km)" and wl: "wallet_ok sg wl" and sk: "wl_signing_key wl private_key = Some sk"
    and vk: "view_key_for vt mg (km_key_id_name km) (context_for_address (derive_address sg wl sk)) pkb pk vk"
    and seed: "length transport_seed = 32" and nonce: "nonce_of (Some km) (derive_address sg wl sk) \<noteq> - 1"
    and time: "canister_now \<le> sat_add unix_now (sat_mul (sa_authorization_ttl_seconds args) 1000000000)"
  shows "\<exists>km'. obtain_vet_key sg wl vt mg args private_key transport_seed unix_now canister_now (Some km)
    = (Inr (vk, address_of_bytes (derive_address sg wl sk)), km')"
proof -
  let ?addr = "derive_address sg wl sk"
  let ?nonce = "sat_add (nonce_of (Some km) ?addr) 1"
  let ?expiry = "sat_add unix_now (sat_mul (sa_authorization_ttl_seconds args) 1000000000)"
  obtain tk where tk: "vt_transport_key vt transport_seed = Some tk"
    using vt seed by (auto simp: vetkeys_ok_def)
  obtain ekb ek where ek: "mg_derive_key mg (context_for_address ?addr) [] (km_key_id_name km) (vt_transport_public vt tk) = Inr ekb"
    "vt_encrypted_key vt ekb = Some ek" "vt_decrypt_and_verify vt ek tk pk [] = Some vk"
    using vk unfolding view_key_for_def by blast
  have pk: "get_view_public_key mg (Some km) ?addr = Inr pkb" "vt_public_key vt pkb = Some pk"
    using vk by (simp_all add: view_key_for_def get_view_public_key_def to_address_def management_call_def)
  have max: "get_max_nonce (Some km) ?addr = Inr (nonce_of (Some km) ?addr)"
    by (simp add: get_max_nonce_def to_address_def nonce_of_def)
  let ?h = "sg_keccak sg (authorization_message sg (mg_self mg) ?addr (vt_transport_public vt tk) ?expiry ?nonce)"
  obtain rs v sig where sign: "wl_sign_prehash wl sk ?h = Some (rs, v)"
    "sg_from_raw sg (rs @ [word_of_nat (min 255 (unat v + 27))]) = Some sig" "sg_recover sg sig ?h = Some ?addr"
    using signature_bytes [OF wl, where sk = sk and h = ?h] .
  define request where "request = \<lparr>vr_address = ?addr, vr_transport_public_key = vt_transport_public vt tk, vr_expiry_ns = ?expiry,
     vr_nonce = ?nonce, vr_signature = rs @ [word_of_nat (min 255 (unat v + 27))]\<rparr>"
  have fields: "vr_address request = ?addr" "vr_transport_public_key request = vt_transport_public vt tk" "vr_nonce request = ?nonce"
    "vr_expiry_ns request = ?expiry"
    by (simp_all add: request_def)
  have "authorized sg mg request"
    using sign unfolding authorized_def by (simp add: request_def)
  then have "\<exists>km'. request_encrypted_view_key sg mg canister_now request (Some km) = (Inr ekb, km')"
    using request_granted [of km request canister_now sg mg ekb] sat_add_one [OF nonce] time ek(1) unfolding fields by simp
  moreover have "decrypt_vet_key vt ekb pkb tk = Inr vk"
    using ek(2,3) pk(2) by (simp add: decrypt_vet_key_def)
  ultimately show ?thesis
    using sk pk(1) max tk sign(1)
    by (auto simp: obtain_vet_key_def signing_key_from_b256_def prepare_transport_key_def or_panic_def sign_authorization_def
        request_def Let_def)
qed

section \<open>Scanning a board that grows\<close>

text \<open>A run of the storage canister: \<open>st k\<close> is its state when the reader's request number \<open>k\<close> arrives.\<close>

definition storage_run :: "'sig signatures \<Rightarrow> (nat \<Rightarrow> storage_state) \<Rightarrow> bool" where
  "storage_run sg st \<longleftrightarrow> storage_steps sg storage_init (st 0) \<and> (\<forall>k. storage_steps sg (st k) (st (Suc k)))
     \<and> (\<forall>k. length (so_announcements (st k)) \<le> 2 ^ 64)"

lemma storage_run_sound:
  assumes "storage_run sg st"
  shows "storage_sound (st k)"
proof -
  have "storage_steps sg storage_init (st k)"
    using assms by (induction k) (auto simp: storage_run_def intro: rtranclp_trans)
  then show ?thesis
    using assms storage_init_inv storage_steps_inv by (auto simp: storage_run_def storage_sound_def)
qed

lemma list_limit_pos: "0 < list_limit (Some n) \<longleftrightarrow> n \<noteq> 0"
  by (simp add: list_limit_def MAX_LIST_LIMIT_def unat_gt_0)

lemma map_filter_append: "List.map_filter f (xs @ ys) = List.map_filter f xs @ List.map_filter f ys"
  by (simp add: List.map_filter_def)

lemma scan_run:
  assumes "storage_run sg st" "sa_page_size args \<noteq> 0" "build_stealth_client ic common = Inr u"
    and "obtain_vet_key sg wl vt mg args private_key transport_seed unix_now canister_now km = (Inr (vk, recipient), km')"
  shows "\<exists>n as. scan_receive_transfers H sha sg wl vt mg ic common args private_key transport_seed unix_now canister_now km st
      = (Some (Inr (List.map_filter (scanned_of H sha sg vt vk recipient) as)), km')
    \<and> prefix (so_announcements (st 0)) as \<and> prefix as (so_announcements (st n))"
proof -
  have later: "\<And>k. storage_steps sg (st k) (st (Suc k))" and sound: "\<And>k. storage_sound (st k)"
    using assms(1) storage_run_sound by (auto simp: storage_run_def)
  show ?thesis
    using storage.scan_pages_complete [where st = st and sg = sg and scan = "scan_page H sha sg vt vk recipient" and k = 0 and start = None
        and saved = "[]" and limit = "Some (sa_page_size args)", OF later sound _ scan_page_total map_filter_append]
      assms(2-4)
    by (force simp: scan_receive_transfers_def list_limit_pos page_start_def)
qed

text \<open>
  \<^bold>\<open>C22\<close>. A scan for transfers with a page size of at least one always returns, also while others
  keep posting (at most \<open>2\<^sup>6\<^sup>4\<close> announcements in all). When the client cannot be built or the view
  key is not obtained, it returns that error and has read nothing. When the key is released, it
  returns what it found in a beginning of the board, taken in order and without repetition,
  that contains every announcement present when the scan began (the canister of the code lists
  oldest first and evicts nothing, unlike the one of the document); announcements that are
  malformed or meant for others are skipped and never make it fail.
\<close>

theorem scan_misses_nothing:
  assumes "storage_run sg st" "sa_page_size args \<noteq> 0"
  shows "case build_stealth_client ic common of
      Inl e \<Rightarrow> scan_receive_transfers H sha sg wl vt mg ic common args private_key transport_seed unix_now canister_now km st = (Some (Inl e), km)
    | Inr _ \<Rightarrow>
        (case obtain_vet_key sg wl vt mg args private_key transport_seed unix_now canister_now km of
           (Inl e, km') \<Rightarrow>
             scan_receive_transfers H sha sg wl vt mg ic common args private_key transport_seed unix_now canister_now km st = (Some (Inl e), km')
         | (Inr (vk, recipient), km') \<Rightarrow>
             (\<exists>n as. scan_receive_transfers H sha sg wl vt mg ic common args private_key transport_seed unix_now canister_now km st
                = (Some (Inr (List.map_filter (scanned_of H sha sg vt vk recipient) as)), km')
              \<and> prefix (so_announcements (st 0)) as \<and> prefix as (so_announcements (st n)) \<and> distinct (map an_id as)))"
proof -
  have "distinct (map an_id (so_announcements (st n)))" for n
    using numbered_distinct storage_run_sound [OF assms(1), of n] by (auto simp: storage_sound_def storage_inv_def)
  then have distinct: "distinct (map an_id as)" if "prefix as (so_announcements (st n))" for n as
    using that by (metis distinct_append map_append prefix_def)
  show ?thesis
  proof (cases "build_stealth_client ic common")
    case (Inr u)
    obtain r km' where r: "obtain_vet_key sg wl vt mg args private_key transport_seed unix_now canister_now km = (r, km')"
      by fastforce
    show ?thesis
    proof (cases r)
      case (Inr p)
      obtain vk recipient where p: "p = (vk, recipient)"
        by fastforce
      show ?thesis
        using scan_run [OF assms _ r [unfolded Inr p]] \<open>build_stealth_client ic common = Inr u\<close> r Inr p distinct by simp blast
    qed (use r Inr in \<open>simp add: scan_receive_transfers_def\<close>)
  qed (simp add: scan_receive_transfers_def)
qed

text \<open>An instance of the cryptography: keys without secrets, texts that carry a prefix.\<close>

definition hex_alphabet :: string where
  "hex_alphabet = ''0123456789abcdef''"

fun hex_value :: "char \<Rightarrow> string \<Rightarrow> nat" where
  "hex_value c [] = 0"
| "hex_value c (d # ds) = (if c = d then 0 else Suc (hex_value c ds))"

fun hex_encode :: "bytes \<Rightarrow> string" where
  "hex_encode [] = []"
| "hex_encode (b # bs) = hex_alphabet ! (unat b div 16) # hex_alphabet ! (unat b mod 16) # hex_encode bs"

fun hex_decode :: "string \<Rightarrow> bytes option" where
  "hex_decode [] = Some []"
| "hex_decode [c] = None"
| "hex_decode (c # d # s) =
     (if {c, d} \<subseteq> set hex_alphabet
      then map_option (Cons (word_of_nat (16 * hex_value c hex_alphabet + hex_value d hex_alphabet))) (hex_decode s)
      else None)"

lemma hex_value_nth: "distinct ds \<Longrightarrow> n < length ds \<Longrightarrow> hex_value (ds ! n) ds = n"
proof (induction ds arbitrary: n)
  case (Cons d ds)
  then show ?case
    by (cases n) auto
qed simp

lemma hex_digit_value:
  assumes "n < 16"
  shows "hex_value (hex_alphabet ! n) hex_alphabet = n" "hex_alphabet ! n \<in> set hex_alphabet"
proof -
  have "distinct hex_alphabet" "n < length hex_alphabet"
    using assms by (simp_all add: hex_alphabet_def)
  then show "hex_value (hex_alphabet ! n) hex_alphabet = n" "hex_alphabet ! n \<in> set hex_alphabet"
    by (simp_all add: hex_value_nth)
qed

lemma hex_decode_encode: "hex_decode (hex_encode bs) = Some bs" "set (hex_encode bs) \<subseteq> set hex_alphabet"
proof (induction bs)
  case (Cons b bs)
  have n: "unat b div 16 < 16" "unat b mod 16 < 16"
    using unat_byte_less [of b] by (simp_all add: less_mult_imp_div_less)
  have v: "(word_of_nat (16 * (unat b div 16) + unat b mod 16) :: byte) = b"
    by simp
  { case 1 show ?case
      using Cons.IH(1) v hex_digit_value [OF n(1)] hex_digit_value [OF n(2)] by (simp del: mult_div_mod_eq) }
  { case 2 show ?case
      using Cons.IH(2) hex_digit_value(2) [OF n(1)] hex_digit_value(2) [OF n(2)] by simp }
qed simp_all

definition sample_sg :: "bytes signatures" where
  "sample_sg = sample_signatures\<lparr>sg_hex := hex_encode\<rparr>"

definition sample_wallet :: "unit wallet" where
  "sample_wallet = \<lparr>wl_signing_key = (\<lambda>_. Some ()), wl_encoded_point = (\<lambda>_. []), wl_address = (\<lambda>_. 0),
     wl_sign_prehash = (\<lambda>_ _. Some (replicate 64 0, 0)), wl_sign_message = (\<lambda>_ _. Some [])\<rparr>"

definition sample_vetkeys :: "(bytes, bytes, bytes, bytes, bytes) vetkeys" where
  "sample_vetkeys = \<lparr>vt_public_key = Some, vt_ibe_encrypt = (\<lambda>_ _ m _. m), vt_ibe_serialize = Cons 0,
     vt_ibe_deserialize = (\<lambda>bs. Some (drop 1 bs)), vt_ibe_decrypt = (\<lambda>ct _. Some ct), vt_transport_key = Some,
     vt_transport_public = id, vt_encrypted_key = Some, vt_decrypt_and_verify = (\<lambda>_ _ _ _. Some []),
     vt_aes_encrypt = (\<lambda>_ _ p. Some (0 # p)), vt_aes_decrypt = (\<lambda>_ _ c. Some (drop 1 c))\<rparr>"

definition sample_scan_args :: scan_args where
  "sample_scan_args = \<lparr>sa_page_size = 2, sa_authorization_ttl_seconds = 600\<rparr>"

definition sample_km :: key_manager_state where
  "sample_km = \<lparr>km_key_id_name = ''key_1'', km_max_nonce_by_address = Map.empty\<rparr>"

lemma sample_address: "derive_address sample_sg sample_wallet () = replicate 20 0"
proof -
  have "be_bytes n 0 = replicate n 0" for n
    by (induction n) (simp_all add: replicate_append_same [symmetric])
  then show ?thesis
    by (simp add: derive_address_def u256_to_be_bytes_def sample_sg_def sample_signatures_def)
qed

lemma sample_wallet_ok: "wallet_ok sample_sg sample_wallet"
proof -
  have "nat_of_be (replicate n 0) = 0" for n
    by (induction n) (simp_all add: nat_of_be_Cons)
  then have "address_of_bytes (replicate 20 0) = 0"
    by (simp add: address_of_bytes_def)
  then show ?thesis
    by (simp add: wallet_ok_def sample_address)
      (simp add: sample_wallet_def sample_sg_def sample_signatures_def)
qed

lemma sample_view_key: "view_key_for sample_vetkeys sample_management name ctx ctx ctx []"
  by (simp add: view_key_for_def sample_vetkeys_def sample_management_def)

lemma sample_vetkeys_ok: "vetkeys_ok sample_vetkeys sample_management name"
proof -
  have "\<forall>ctx. \<exists>pkb pk vk. view_key_for sample_vetkeys sample_management name ctx pkb pk vk"
    using sample_view_key by blast
  then show ?thesis
    unfolding vetkeys_ok_def by (simp add: sample_vetkeys_def)
qed

lemma sample_time: "(5 :: u64) \<le> sat_add 3 (sat_mul (sa_authorization_ttl_seconds sample_scan_args) 1000000000)"
  by (simp add: sample_scan_args_def sat_add_def sat_mul_def)

lemma sample_vet_key:
  "\<exists>km'. obtain_vet_key sample_sg sample_wallet sample_vetkeys sample_management sample_scan_args 9 (replicate 32 1) 3 5 (Some sample_km)
     = (Inr ([], address_of_bytes (derive_address sample_sg sample_wallet ())), km')"
proof (rule obtain_vet_key_ok [OF sample_vetkeys_ok sample_wallet_ok _ sample_view_key])
  show "wl_signing_key sample_wallet 9 = Some ()"
    by (simp add: sample_wallet_def)
  show "nonce_of (Some sample_km) (derive_address sample_sg sample_wallet ()) \<noteq> - 1"
    by (simp add: nonce_of_def sample_km_def)
qed (simp_all add: sample_time)

definition sample_agent :: ic_agent where
  "sample_agent = \<lparr>ic_build = (\<lambda>_. True), ic_fetch_root_key = (\<lambda>_. True), ic_principal_from_text = (\<lambda>_. True)\<rparr>"

definition sample_canisters :: canister_args where
  "sample_canisters = \<lparr>cn_ic_replica_url = ''https://icp0.io'', cn_storage_canister_id = ''s'', cn_key_manager_canister_id = ''k''\<rparr>"

lemma sample_client: "build_stealth_client sample_agent sample_canisters = Inr ()"
  by (simp add: build_stealth_client_def sample_agent_def)

text \<open>A board of three announcements, read in pages of two.\<close>

definition sample_board :: storage_state where
  "sample_board = storage_after sample_sg (replicate 3 (SubmitAnnouncement sample_input 4)) storage_init"

lemma sample_board_length: "length (so_announcements sample_board) = 3"
  by (simp add: sample_board_def numeral_3_eq_3 submit_announcement_def validate_announcement_def sample_input_def
      MAX_IBE_CIPHERTEXT_BYTES_def MAX_CIPHERTEXT_BYTES_def storage_init_def Let_def)

lemma sample_storage_run: "storage_run sample_sg (\<lambda>_. sample_board)"
  using storage_after_steps [of sample_sg storage_init "replicate 3 (SubmitAnnouncement sample_input 4)"]
  by (simp add: storage_run_def sample_board_length) (simp add: sample_board_def)

theorem scan_misses_nothing_witness:
  "\<exists>km' as. scan_receive_transfers toy_hash const_sha sample_sg sample_wallet sample_vetkeys sample_management sample_agent sample_canisters
        sample_scan_args 9 (replicate 32 1) 3 5 (Some sample_km) (\<lambda>_. sample_board)
      = (Some (Inr (List.map_filter (scanned_of toy_hash const_sha sample_sg sample_vetkeys []
           (address_of_bytes (derive_address sample_sg sample_wallet ()))) as)), km')
    \<and> as = so_announcements sample_board \<and> length as = 3"
proof -
  obtain km' where km': "obtain_vet_key sample_sg sample_wallet sample_vetkeys sample_management sample_scan_args 9 (replicate 32 1) 3 5
      (Some sample_km) = (Inr ([], address_of_bytes (derive_address sample_sg sample_wallet ())), km')"
    using sample_vet_key by blast
  have "sa_page_size sample_scan_args \<noteq> 0"
    by (simp add: sample_scan_args_def)
  from scan_misses_nothing [OF sample_storage_run this, where ic = sample_agent and common = sample_canisters and H = toy_hash
      and sha = const_sha and wl = sample_wallet and vt = sample_vetkeys and mg = sample_management and private_key = 9
      and transport_seed = "replicate 32 1" and unix_now = 3 and canister_now = 5 and km = "Some sample_km"]
  show ?thesis
    unfolding km' sample_client sum.case prod.case
    using sample_board_length prefix_order.antisym by blast
qed

section \<open>The results file\<close>

lemma merge_results_find:
  assumes "seen = sc_id ` set existing"
  shows "List.find (\<lambda>e. sc_id e = i) (fst (merge_results existing seen m ts)) = List.find (\<lambda>e. sc_id e = i) (existing @ ts)"
  using assms
proof (induction ts arbitrary: existing seen m)
  case (Cons t ts)
  show ?case
  proof (cases "sc_id t \<in> seen")
    case True
    then have "List.find (\<lambda>e. sc_id e = i) existing \<noteq> None" if "sc_id t = i"
      using that Cons.prems by (auto simp: find_None_iff)
    then show ?thesis
      using True Cons.IH [OF Cons.prems] by (auto simp: find_append split: option.splits)
  next
    case False
    then show ?thesis
      using Cons.IH [of "insert (sc_id t) seen" "existing @ [t]" True] Cons.prems by simp
  qed
qed simp

lemma merge_results_changed: "snd (merge_results existing seen m ts) \<longleftrightarrow> m \<or> (\<exists>t \<in> set ts. sc_id t \<notin> seen)"
  by (induction ts arbitrary: existing seen m) auto

definition file_entries :: "results_file \<Rightarrow> scanned_transfer list" where
  "file_entries file = (case file of Entries es \<Rightarrow> es | _ \<Rightarrow> [])"

text \<open>A transfer that is new to a readable file can be looked up in it after it was written.\<close>

lemma write_results_load:
  assumes "file \<noteq> Garbage" "i \<notin> sc_id ` set (file_entries file)" "List.find (\<lambda>e. sc_id e = i) ts = Some t"
  shows "\<exists>file'. write_results file ts = (Inr (), file') \<and> load_scanned_transfer file' i = Inr t"
proof -
  let ?es = "file_entries file"
  let ?m = "merge_results ?es (sc_id ` set ?es) False ts"
  have t: "t \<in> set ts" "sc_id t = i"
    using assms(3) by (auto simp: find_Some_iff)
  then have "snd ?m"
    using assms(2) by (auto simp: merge_results_changed)
  moreover have "List.find (\<lambda>e. sc_id e = i) (fst ?m) = Some t"
  proof -
    have "List.find (\<lambda>e. sc_id e = i) ?es = None"
      using assms(2) by (auto simp: find_None_iff)
    then show ?thesis
      using assms(3) by (simp add: merge_results_find find_append)
  qed
  ultimately show ?thesis
    using assms(1)
    by (cases "file") (auto simp: write_results_def load_scanned_transfer_def file_entries_def Let_def split_beta)
qed

lemma scanned_of_id: "scanned_of H sha sg vt vk recipient a = Some t \<Longrightarrow> sc_id t = an_id a"
  by (auto simp: scanned_of_def scanned_entry_def decrypt_announcement_def res_bind_Inr_iff split: sum.splits if_splits)

lemma find_scanned:
  assumes "a \<in> set as" "scanned_of H sha sg vt vk recipient a = Some t" "distinct (map an_id as)"
  shows "List.find (\<lambda>e. sc_id e = an_id a) (List.map_filter (scanned_of H sha sg vt vk recipient) as) = Some t"
  using assms
proof (induction as)
  case (Cons b as)
  show ?case
  proof (cases "b = a")
    case True
    then show ?thesis
      using Cons.prems(2) scanned_of_id by (fastforce simp: List.map_filter_simps)
  next
    case False
    then have "an_id b \<noteq> an_id a"
      using Cons.prems by auto
    then have "sc_id u \<noteq> an_id a" if "scanned_of H sha sg vt vk recipient b = Some u" for u
      using scanned_of_id [OF that] by simp
    then show ?thesis
      using Cons False by (auto simp: List.map_filter_simps split: option.splits)
  qed
qed simp

end
