(* ===== verification/Stealth_Transfers.thy ===== *)
theory Stealth_Transfers
  imports Stealth_Props
begin

text \<open>
  Private transfers and invoices through the canisters, from the sender's command to the
  input of the redeeming command, and an instance of the cryptography that meets the
  hypotheses.
\<close>

section \<open>Private transfers\<close>

text \<open>The hexadecimal encoding is inverted by the decoder and has no character outside \<open>0-9a-f\<close>.\<close>

definition hex_ok :: "'sig signatures \<Rightarrow> (string \<Rightarrow> bytes option) \<Rightarrow> bool" where
  "hex_ok sg dec \<longleftrightarrow> (\<forall>bs. dec (sg_hex sg bs) = Some bs \<and> set (sg_hex sg bs) \<subseteq> set ''0123456789abcdef'')"

lemma trim_hex: "set s \<subseteq> set ''0123456789abcdef'' \<Longrightarrow> trim_start_0x (trim_ascii (''0x'' @ s)) = s"
proof -
  assume s: "set s \<subseteq> set ''0123456789abcdef''"
  have "\<not> is_space c" if "c \<in> set (''0x'' @ s)" for c
    using that s by (auto simp: is_space_def)
  then have "trim_ascii (''0x'' @ s) = ''0x'' @ s"
    by (intro trim_ascii_id) blast
  moreover have "trim_start_0x s = s"
    using s by (induction s rule: trim_start_0x.induct) auto
  ultimately show ?thesis
    by simp
qed

lemma decode_scanned_hex: "hex_ok sg dec \<Longrightarrow> decode_full_burn_address dec (''0x'' @ sg_hex sg bs) = Inr bs"
  using trim_hex [of "sg_hex sg bs"] by (simp add: hex_ok_def decode_full_burn_address_def)

lemma ucast_address [simp]: "ucast (ucast (addr :: address) :: b256) = addr"
  by (intro bit_word_eqI) (simp add: bit_simps)

lemma private_payload_ok:
  assumes "private_payload H sha sg wl parses tokens args paid key = Inr (entry, erc20, fb, a)"
  shows "burn_address H sha fb = Inr a" "is_recipient fb (pt_to args)" "chain_id (fb_gr fb) = pt_to_chain_id args"
    "spends_to H (recipient_to_fr sha (fb_gr fb)) (fb_secret fb) a"
proof -
  obtain seed st where st: "payment_advice H sha (sg_keccak sg) paid seed (pt_to_chain_id args) (pt_to args) = Some st"
    and fb: "full_burn_address_new H sha (pt_to_chain_id args) (pt_to args) st = Inr fb" and a: "burn_address H sha fb = Inr a"
    using assms
    by (auto simp: private_payload_def res_bind_Inr_iff or_panic_def command_step_def lift_payment_def split: option.splits sum.splits)
  show "burn_address H sha fb = Inr a"
    by (fact a)
  have gr: "fb_gr fb = new_evm (pt_to_chain_id args) (pt_to args) (st_tweak st)" and secret: "fb_secret fb = st_secret st"
    using fb by (auto simp: full_burn_address_new_def Let_def res_bind_Inr_iff)
  then show "is_recipient fb (pt_to args)" "chain_id (fb_gr fb) = pt_to_chain_id args"
    by (simp_all add: is_recipient_def recipient_address_from_payload_def new_evm_def)
  obtain base tw where "with_tweak H sha base tw (pt_to_chain_id args) (pt_to args) = Some st"
    using st by (auto simp: payment_advice_def)
  then show "spends_to H (recipient_to_fr sha (fb_gr fb)) (fb_secret fb) a"
    using with_tweak_spendable [of H sha base tw "pt_to_chain_id args" "pt_to args" st] fb a secret by auto
qed

lemma private_payload_token:
  assumes "private_payload H sha sg wl parses tokens args paid key = Inr (entry, erc20, fb, a)"
  shows "find_token_by_chain tokens (pt_chain_id args) = Inr entry
    \<and> erc20 = with_legacy_tx (te_legacy_tx entry) (contract_new (te_token_address entry))"
proof -
  obtain erc20' where "command_step (find_token_by_chain tokens (pt_chain_id args)) = Inr entry"
    "map_error ContractStep (build_erc20 parses entry) = Inr erc20'" "erc20' = erc20"
    using assms by (auto simp: private_payload_def res_bind_Inr_iff)
  then show ?thesis
    by (auto simp: command_step_def build_erc20_def map_error_def split: sum.splits if_splits)
qed

text \<open>What was encrypted to an address and accepted by the canister opens with its view key.\<close>

lemma announcement_opens:
  assumes "vetkeys_ok vt mg name" "view_key_for vt mg name ctx pkb pk vk" "encrypt_payload vt rng pkb p = Inr input"
    and "submit_announcement input now s = (Inr a, s')"
  shows "decrypt_announcement vt vk a = Inr \<lparr>da_id = an_id a, da_plaintext = p, da_created_at_ns = an_created_at_ns a\<rparr>"
proof -
  have pk: "vt_public_key vt pkb = Some pk" "\<And>m seed. vt_ibe_decrypt vt (vt_ibe_encrypt vt pk [] m seed) vk = Some m"
    using assms(2) by (auto simp: view_key_for_def)
  obtain c where c: "length (rn_session_key rng) = SESSION_KEY_LEN" "vt_aes_encrypt vt (rn_session_key rng) (rn_nonce rng) p = Some c"
    "input = \<lparr>in_ibe_ciphertext = vt_ibe_serialize vt (vt_ibe_encrypt vt pk [] (rn_session_key rng) (rn_ibe_seed rng)),
       in_ciphertext = c, in_nonce = rn_nonce rng\<rparr>"
    using assms(3) pk(1) by (auto simp: encrypt_payload_def res_bind_Inr_iff ok_or_def split: if_splits option.splits)
  have "length (rn_nonce rng) = NONCE_LEN" "vt_aes_decrypt vt (rn_session_key rng) (rn_nonce rng) c = Some p"
    "\<And>ct. vt_ibe_deserialize vt (vt_ibe_serialize vt ct) = Some ct"
    using assms(1,4) c(2,3)
    by (auto simp: submit_announcement_ok validate_announcement_def NONCE_LEN_def vetkeys_ok_def split: if_splits)
  then show ?thesis
    using assms(4) c(1,3) pk(2) by (simp add: submit_announcement_ok decrypt_announcement_def)
qed

lemma private_transfer_parts:
  assumes "private_transfer H sha sg wl vt mg ic common parses pvs tokens args paid key rng now (Some km) s w = (Inr res, s', w')"
  obtains entry erc20 fb pkb input where
    "private_payload H sha sg wl parses tokens args paid key = Inr (entry, erc20, fb, pr_burn_address res)"
    "mg_public_key mg (context_for_address (address_to_array (pt_to args))) (km_key_id_name km) = Inr pkb"
    "encrypt_payload vt rng pkb (burn_to_bytes fb) = Inr input" "submit_announcement input now s = (Inr (pr_announcement res), s')"
    "transfer (pvs (te_rpc_urls entry)) erc20 key (pr_burn_address res) (pt_amount args) w = (Inr (pr_transaction res), w')"
  using assms that
  by (auto simp: private_transfer_def res_bind_Inr_iff res_bind_Inl_iff get_view_public_key_def to_address_def management_call_def
      key_manager_reply_def split: sum.splits prod.splits if_splits)

text \<open>What the recipient's scan makes of the announcement of a private transfer.\<close>

lemma private_transfer_scanned:
  assumes vt: "vetkeys_ok vt mg (km_key_id_name km)"
    and vk: "view_key_for vt mg (km_key_id_name km) (context_for_address (address_to_array (pt_to args))) pkb pk vk"
    and sent: "private_transfer H sha sg wl vt mg ic common parses pvs tokens args paid key rng now (Some km) s w = (Inr res, s', w')"
  shows "\<exists>fb t. scanned_of H sha sg vt vk (pt_to args) (pr_announcement res) = Some t
    \<and> sc_full_burn_address_hex t = ''0x'' @ sg_hex sg (burn_to_bytes fb) \<and> burn_address H sha fb = Inr (pr_burn_address res)
    \<and> spends_to H (recipient_to_fr sha (fb_gr fb)) (fb_secret fb) (pr_burn_address res)
    \<and> is_recipient fb (pt_to args) \<and> chain_id (fb_gr fb) = pt_to_chain_id args"
proof -
  obtain entry erc20 fb pkb' input where *: "private_payload H sha sg wl parses tokens args paid key = Inr (entry, erc20, fb, pr_burn_address res)"
    "mg_public_key mg (context_for_address (address_to_array (pt_to args))) (km_key_id_name km) = Inr pkb'"
    "encrypt_payload vt rng pkb' (burn_to_bytes fb) = Inr input" "submit_announcement input now s = (Inr (pr_announcement res), s')"
    using private_transfer_parts [OF sent] .
  have "pkb' = pkb"
    using *(2) vk by (simp add: view_key_for_def)
  then have "decrypt_announcement vt vk (pr_announcement res) = Inr \<lparr>da_id = an_id (pr_announcement res),
      da_plaintext = burn_to_bytes fb, da_created_at_ns = an_created_at_ns (pr_announcement res)\<rparr>"
    using announcement_opens [OF vt vk _ *(4)] *(3) by simp
  then show ?thesis
    using private_payload_ok [OF *(1)]
    by (intro exI [of _ fb]) (simp add: scanned_of_def scanned_entry_def burn_from_to_bytes)
qed


definition sample_token_list :: "token_entry list" where
  "sample_token_list = [\<lparr>te_label = ''z'', te_token_address = 1, te_verifier_address = 9,
     te_minter_address = None, te_chain_id = 1, te_deployed_block = 8, te_rpc_urls = [''rpc''], te_legacy_tx = False\<rparr>]"

definition sample_transfer_args :: private_transfer_args where
  "sample_transfer_args = \<lparr>pt_chain_id = 1, pt_to = 0, pt_to_chain_id = 1, pt_amount = 50\<rparr>"

definition sample_rng :: randomness where
  "sample_rng = \<lparr>rn_ibe_seed = [], rn_session_key = replicate 32 3, rn_nonce = replicate 12 4\<rparr>"

lemma sample_hex_ok: "hex_ok sample_sg hex_decode"
  using hex_decode_encode by (simp add: hex_ok_def sample_sg_def hex_alphabet_def del: set_simps)

lemma zero_hash_pow: "find_pow_nonce (\<lambda>_ _. 0) r s = Some 0"
  by (simp add: find_pow_nonce_def find_pow_from.simps is_ok_iff compute_burn_address_iff)

lemma zero_hash_with_tweak: "\<exists>st. with_tweak (\<lambda>_ _. 0) sha base tw cid addr = Some st"
  by (simp add: with_tweak_def pow_adjusted_secret_def Let_def zero_hash_pow)

lemma length_burn_to_bytes [simp]: "length (burn_to_bytes fb) = 105"
  by (simp add: burn_to_bytes_def u256_to_be_bytes_def)

lemma sample_payload:
  "\<exists>erc20 fb a. private_payload (\<lambda>_ _. 0) const_sha sample_sg sample_wallet (\<lambda>_. True) sample_token_list sample_transfer_args 5 8
     = Inr (hd sample_token_list, erc20, fb, a)"
proof -
  obtain seed where seed: "compute_seed_from_signature sample_sg sample_wallet 8 = Inr seed"
    by (simp add: compute_seed_from_signature_def signing_key_from_b256_def sample_wallet_def)
  obtain base tw st where st: "payment_advice (\<lambda>_ _. 0) const_sha (sg_keccak sample_sg) 5 seed 1 0 = Some st"
    "with_tweak (\<lambda>_ _. 0) const_sha base tw 1 0 = Some st"
    using zero_hash_with_tweak unfolding payment_advice_def by metis
  then show ?thesis
    using seed with_tweak_spendable [OF st(2)]
    by (auto simp: private_payload_def find_token_by_chain_def sample_token_list_def sample_transfer_args_def or_panic_def
        lift_payment_def build_erc20_def provider_urls_ok_def map_error_def)
qed

text \<open>A node that accepts every transaction; its state is the list of requests.\<close>

definition sample_node :: "(tx_request list, nat) provider" where
  "sample_node = \<lparr>pv_valid_key = (\<lambda>_. True), pv_call = (\<lambda>_ _ _. Inl []), pv_gas_price = (\<lambda>_. Inr 1),
     pv_send = (\<lambda>_ q w. (Inr (length w), w @ [q])), pv_block_number = (\<lambda>_. Inr 0), pv_indexed_transfers = (\<lambda>_ _ _ _. Inr []),
     pv_teleports = (\<lambda>_ _ _ _. Inr []), pv_aggregations = (\<lambda>_ _ _ _. Inr [])\<rparr>"

lemma sample_sent:
  "\<exists>res s' w'. private_transfer (\<lambda>_ _. 0) const_sha sample_sg sample_wallet sample_vetkeys sample_management sample_agent sample_canisters
     (\<lambda>_. True) (\<lambda>_. sample_node) sample_token_list sample_transfer_args 5 8 sample_rng 2 (Some sample_km) storage_init [] = (Inr res, s', w') \<and> length (so_announcements s') = 1"
proof -
  obtain erc20 fb a where "private_payload (\<lambda>_ _. 0) const_sha sample_sg sample_wallet (\<lambda>_. True) sample_token_list sample_transfer_args 5 8
     = Inr (hd sample_token_list, erc20, fb, a)"
    using sample_payload by blast
  then show ?thesis
    by (simp add: private_transfer_def get_view_public_key_def to_address_def management_call_def sample_management_def
        encrypt_payload_def sample_vetkeys_def sample_rng_def SESSION_KEY_LEN_def submit_announcement_def validate_announcement_def
        MAX_IBE_CIPHERTEXT_BYTES_def MAX_CIPHERTEXT_BYTES_def storage_init_def sample_client transfer_def send_signed_def send_call_with_legacy_def sample_node_def Let_def)
qed


section \<open>Invoices\<close>

lemma submit_invoice_filed:
  assumes "invoice_signer sg input = Inr (signer, iid)"
  shows "\<exists>s'. submit_invoice sg input s = (Inr (), s') \<and> iid \<in> set (filed s' signer)"
  using assms by (auto simp: submit_invoice_def filed_def Let_def)

lemma sign_invoice_accepted:
  assumes "wallet_ok sg wl"
  obtains signature where "sign_invoice sg wl sk iid = Inr signature"
    "invoice_signer sg \<lparr>is_invoice_id = u256_to_be_bytes iid, is_signature = signature\<rparr> = Inr (derive_address sg wl sk, u256_to_be_bytes iid)"
proof -
  let ?h = "sg_keccak sg (invoice_signature_message sg (u256_to_be_bytes iid))"
  obtain rs v sig where *: "wl_sign_prehash wl sk ?h = Some (rs, v)" "length rs = 64"
    "sg_from_raw sg (rs @ [word_of_nat (min 255 (unat v + 27))]) = Some sig" "sg_recover sg sig ?h = Some (derive_address sg wl sk)"
    using signature_bytes [OF assms, where sk = sk and h = ?h] .
  then show thesis
    using that [of "rs @ [word_of_nat (min 255 (unat v + 27))]"]
    by (simp add: sign_invoice_def invoice_signer_def normalize_invoice_id_def parse_signature_def recover_address_from_signature_def
        u256_to_be_bytes_def)
qed

text \<open>The canister returns what is filed, and only identifiers of 32 bytes are filed.\<close>

lemma list_invoices_decoded:
  assumes "storage_inv s"
  shows "res_bind (storage_call (list_invoices s (address_to_array a))) decode_invoice_ids
    = Inr (map Field.u256_from_be_slice (filed s (address_to_array a)))"
proof -
  have "length iid = 32" if "iid \<in> set (filed s (address_to_array a))" for iid
    using that assms by (cases "so_invoices s (address_to_array a)") (auto simp: storage_inv_def filed_def)
  then have "res_map decode_invoice_id (filed s (address_to_array a)) = Inr (map Field.u256_from_be_slice (filed s (address_to_array a)))"
    by (intro res_map_Inr) (simp add: decode_invoice_id_def)
  moreover have "list_invoices s (address_to_array a) = Inr (filed s (address_to_array a))"
    by (simp add: list_invoices_def normalize_address_def filed_def)
  ultimately show ?thesis
    by (simp add: decode_invoice_ids_def)
qed

lemma u256_from_to_be_bytes [simp]: "Field.u256_from_be_slice (u256_to_be_bytes x) = x"
  by (rule u256_from_be_slice_inverse)

lemma fresh_invoice_id_Some:
  assumes "fresh_invoice_id random single cid existing k = Some iid"
  shows "iid \<notin> set existing \<and> (\<exists>j. iid = random_invoice_id (random j) single cid)"
proof (rule fresh_invoice_id.raw_induct [OF _ assms])
  fix f random single cid existing k iid
  assume "\<And>random single cid existing k iid. f random single cid existing k = Some iid
      \<Longrightarrow> iid \<notin> set existing \<and> (\<exists>j. iid = random_invoice_id (random j) single cid)"
    and "(let i = random_invoice_id (random k) single cid
      in if i \<in> set existing then f random single cid existing (Suc k) else Some i) = Some iid"
  then show "iid \<notin> set existing \<and> (\<exists>j. iid = random_invoice_id (random j) single cid)"
    by (auto simp: Let_def split: if_splits)
qed

lemma fresh_invoice_id_returns:
  assumes "random_invoice_id (random j) single cid \<notin> set existing" "k \<le> j"
  shows "fresh_invoice_id random single cid existing k \<noteq> None"
  using assms(2)
proof (induction "j - k" arbitrary: k)
  case 0
  then show ?case
    using assms(1) by (simp add: fresh_invoice_id.simps)
next
  case (Suc d)
  then show ?case
    by (subst fresh_invoice_id.simps) (auto simp: Let_def)
qed

text \<open>The command receives at the addresses the issuing command has printed.\<close>

lemma issued_addresses_received:
  assumes "issued_burn_addresses H sha keccak batch iid seed cid a = Inr as" "is_single iid \<longleftrightarrow> \<not> batch"
  shows "\<exists>m. invoice_secrets H sha keccak iid seed cid a = Inr m \<and> fst ` set m = set as"
  using assms by (auto simp: issued_burn_addresses_def invoice_secrets_def res_bind_Inr_iff foldl_update_keys(2))

lemma invoice_issue_parts:
  assumes "wallet_ok sg wl" "wl_signing_key wl key = Some sk" "storage_inv s" "ia_recipient args = None"
    and "invoice_issue H sha sg wl ic common tokens args key random s = Some (Inr iss, s')"
  obtains entry seed where "find_token_by_chain tokens (unat (ia_chain_id args)) = Inr entry"
    "compute_seed_from_signature sg wl key = Inr seed" "build_stealth_client ic common = Inr ()"
    "fresh_invoice_id random (\<not> ia_batch args) (ia_chain_id args)
       (map Field.u256_from_be_slice (filed s (derive_address sg wl sk))) 0 = Some (iv_invoice_id iss)"
    "u256_to_be_bytes (iv_invoice_id iss) \<in> set (filed s' (derive_address sg wl sk))"
    "issued_burn_addresses H sha (sg_keccak sg) (ia_batch args) (iv_invoice_id iss) seed (ia_chain_id args) (wl_address wl sk)
       = Inr (iv_burn_addresses iss)" "storage_inv s'"
proof -
  let ?a = "wl_address wl sk"
  have addr: "address_to_array ?a = derive_address sg wl sk"
    using assms(1) by (simp add: wallet_ok_def address_to_from_slice)
  obtain entry seed where es: "find_token_by_chain tokens (unat (ia_chain_id args)) = Inr entry"
    "compute_seed_from_signature sg wl key = Inr seed" "build_stealth_client ic common = Inr ()"
    using assms(5)
    by (cases "find_token_by_chain tokens (unat (ia_chain_id args))"; cases "compute_seed_from_signature sg wl key";
        cases "build_stealth_client ic common") (simp_all add: invoice_issue_def)
  have ids: "res_bind (storage_call (list_invoices s (address_to_array ?a))) (\<lambda>raw. res_bind (decode_invoice_ids raw) f)
      = f (map Field.u256_from_be_slice (filed s (derive_address sg wl sk)))" for f :: "b256 list \<Rightarrow> stealth_error + 'z"
    using list_invoices_decoded [OF assms(3), of ?a]
    by (cases "list_invoices s (address_to_array ?a)") (auto simp: addr res_bind_Inr_iff)
  obtain iid where iid: "fresh_invoice_id random (\<not> ia_batch args) (ia_chain_id args)
       (map Field.u256_from_be_slice (filed s (derive_address sg wl sk))) 0 = Some iid"
    and rest: "(case res_bind (signing_key_from_b256 wl key) (\<lambda>signing_key. sign_invoice sg wl signing_key iid) of
              Inl e \<Rightarrow> (Inl e, s)
            | Inr signature \<Rightarrow>
                (case submit_invoice sg \<lparr>is_invoice_id = u256_to_be_bytes iid, is_signature = signature\<rparr> s of
                   (Inl e, s') \<Rightarrow> (Inl (StorageCanister e), s')
                 | (Inr _, s') \<Rightarrow>
                     (res_bind (command_step (issued_burn_addresses H sha (sg_keccak sg) (ia_batch args) iid seed (ia_chain_id args) ?a)) (\<lambda>as.
                      Inr \<lparr>iv_invoice_id = iid, iv_burn_addresses = as\<rparr>), s'))) = (Inr iss, s')"
    using assms(2,4,5) es
    by (auto simp: invoice_issue_def get_address_from_private_key_def or_panic_def ids)
  obtain signature where sign: "sign_invoice sg wl sk iid = Inr signature"
    "invoice_signer sg \<lparr>is_invoice_id = u256_to_be_bytes iid, is_signature = signature\<rparr> = Inr (derive_address sg wl sk, u256_to_be_bytes iid)"
    using sign_invoice_accepted [OF assms(1), where sk = sk and iid = iid] .
  obtain s2 where s2: "submit_invoice sg \<lparr>is_invoice_id = u256_to_be_bytes iid, is_signature = signature\<rparr> s = (Inr (), s2)"
    "u256_to_be_bytes iid \<in> set (filed s2 (derive_address sg wl sk))"
    using submit_invoice_filed [OF sign(2)] by blast
  have "s' = s2" "iv_invoice_id iss = iid"
    "issued_burn_addresses H sha (sg_keccak sg) (ia_batch args) iid seed (ia_chain_id args) ?a = Inr (iv_burn_addresses iss)"
    using rest sign(1) s2(1) assms(2) by (auto simp: signing_key_from_b256_def res_bind_Inr_iff command_step_def split: sum.splits)
  then show thesis
    using that es iid s2 submit_invoice_inv [OF s2(1) assms(3)] by simp
qed

text \<open>
  \<^bold>\<open>C23\<close>. An invoice issued to oneself is new, stays listed for its owner from then on, for the
  chain it was issued for, and the addresses that were printed for it are exactly those
  under which receiving the invoice looks for payments.
\<close>

theorem issued_invoice_receivable:
  assumes "wallet_ok sg wl" "wl_signing_key wl key = Some sk" "storage_steps sg storage_init s" "\<forall>k. length (random k) = 32"
    and "ia_recipient args = None" "invoice_issue H sha sg wl ic common tokens args key random s = Some (Inr iss, s')"
    and "storage_steps sg s' s''"
  shows "\<exists>seed ids m. compute_seed_from_signature sg wl key = Inr seed
    \<and> u256_to_be_bytes (iv_invoice_id iss) \<notin> set (filed s (address_to_array (wl_address wl sk)))
    \<and> invoice_list wl ic common tokens (ia_chain_id args) None key s'' = Inr ids \<and> iv_invoice_id iss \<in> set ids
    \<and> invoice_secrets H sha (sg_keccak sg) (iv_invoice_id iss) seed (ia_chain_id args) (wl_address wl sk) = Inr m
    \<and> fst ` set m = set (iv_burn_addresses iss)"
proof -
  let ?a = "address_to_array (wl_address wl sk)" and ?iid = "iv_invoice_id iss"
  have inv: "storage_inv s"
    using assms(3) storage_init_inv storage_steps_inv by blast
  have addr: "?a = derive_address sg wl sk"
    using assms(1) by (simp add: wallet_ok_def address_to_from_slice)
  obtain entry seed where *: "find_token_by_chain tokens (unat (ia_chain_id args)) = Inr entry"
    "compute_seed_from_signature sg wl key = Inr seed" "build_stealth_client ic common = Inr ()"
    "fresh_invoice_id random (\<not> ia_batch args) (ia_chain_id args) (map Field.u256_from_be_slice (filed s ?a)) 0 = Some ?iid"
    "u256_to_be_bytes ?iid \<in> set (filed s' ?a)"
    "issued_burn_addresses H sha (sg_keccak sg) (ia_batch args) ?iid seed (ia_chain_id args) (wl_address wl sk) = Inr (iv_burn_addresses iss)"
    "storage_inv s'"
    using invoice_issue_parts [OF assms(1,2) inv assms(5,6), folded addr] .
  obtain j where j: "?iid = random_invoice_id (random j) (\<not> ia_batch args) (ia_chain_id args)"
    "?iid \<notin> set (map Field.u256_from_be_slice (filed s ?a))"
    using fresh_invoice_id_Some [OF *(4)] by blast
  have new: "u256_to_be_bytes ?iid \<notin> set (filed s ?a)"
    using j(2) by (auto intro: image_eqI [of _ _ "u256_to_be_bytes ?iid"])
  have fields: "is_single ?iid \<longleftrightarrow> \<not> ia_batch args" "extract_chain_id ?iid = ia_chain_id args"
    using invoice_id_fields [of "random j" "\<not> ia_batch args" "ia_chain_id args"] assms(4) j(1) by simp_all
  have "u256_to_be_bytes ?iid \<in> set (filed s'' ?a)"
    using *(5) storage_steps_grow(2) [OF assms(7)] by (meson set_mono_prefix subsetD)
  then have listed: "?iid \<in> set (map Field.u256_from_be_slice (filed s'' ?a))"
    by (auto intro: image_eqI [of _ _ "u256_to_be_bytes ?iid"])
  have "invoice_list wl ic common tokens (ia_chain_id args) None key s''
      = Inr (filter (\<lambda>i. extract_chain_id i = ia_chain_id args) (map Field.u256_from_be_slice (filed s'' ?a)))"
    using list_invoices_decoded [OF storage_steps_inv [OF assms(7) *(7)], of "wl_address wl sk"] *(1,3) assms(2)
    by (cases "list_invoices s'' ?a") (auto simp: invoice_list_def get_address_from_private_key_def or_panic_def)
  then show ?thesis
    using *(2) new listed fields issued_addresses_received [OF *(6)] by auto
qed

definition sample_issue_args :: issue_args where
  "sample_issue_args = \<lparr>ia_chain_id = 1, ia_recipient = None, ia_batch = False\<rparr>"

lemma sample_issued:
  "\<exists>iss s'. invoice_issue (\<lambda>_ _. 0) const_sha sample_sg sample_wallet sample_agent sample_canisters sample_token_list sample_issue_args 8 (\<lambda>_. replicate 32 6) storage_init
     = Some (Inr iss, s')"
proof -
  let ?iid = "random_invoice_id (replicate 32 6) True 1"
  obtain seed where seed: "compute_seed_from_signature sample_sg sample_wallet 8 = Inr seed"
    by (simp add: compute_seed_from_signature_def signing_key_from_b256_def sample_wallet_def)
  obtain base tw st where st: "single_invoice (\<lambda>_ _. 0) const_sha (sg_keccak sample_sg) ?iid seed 1 0 = Some st"
    "with_tweak (\<lambda>_ _. 0) const_sha base tw 1 0 = Some st"
    using zero_hash_with_tweak unfolding single_invoice_def by metis
  obtain a where a: "issued_burn_addresses (\<lambda>_ _. 0) const_sha (sg_keccak sample_sg) False ?iid seed 1 0 = Inr [a]"
    using st(1) with_tweak_spendable [OF st(2)]
    by (auto simp: issued_burn_addresses_def invoice_entry_def or_panic_def lift_payment_def)
  obtain signature where sign: "sign_invoice sample_sg sample_wallet () ?iid = Inr signature"
    "invoice_signer sample_sg \<lparr>is_invoice_id = u256_to_be_bytes ?iid, is_signature = signature\<rparr>
       = Inr (derive_address sample_sg sample_wallet (), u256_to_be_bytes ?iid)"
    using sign_invoice_accepted [OF sample_wallet_ok, where sk = "()" and iid = ?iid] .
  obtain s' where s': "submit_invoice sample_sg \<lparr>is_invoice_id = u256_to_be_bytes ?iid, is_signature = signature\<rparr> storage_init = (Inr (), s')"
    using submit_invoice_filed [OF sign(2)] by blast
  have "list_invoices storage_init (address_to_array 0) = Inr []"
    by (simp add: list_invoices_def normalize_address_def storage_init_def)
  moreover have "wl_signing_key sample_wallet 8 = Some ()" "wl_address sample_wallet () = 0"
    by (simp_all add: sample_wallet_def)
  ultimately show ?thesis
    using seed a sign(1) s'
    by (simp add: invoice_issue_def sample_client find_token_by_chain_def sample_token_list_def sample_issue_args_def get_address_from_private_key_def
        or_panic_def decode_invoice_ids_def fresh_invoice_id.simps signing_key_from_b256_def Let_def)
qed

theorem issued_invoice_receivable_witness:
  "\<exists>iss s' ids. invoice_issue (\<lambda>_ _. 0) const_sha sample_sg sample_wallet sample_agent sample_canisters sample_token_list sample_issue_args 8 (\<lambda>_. replicate 32 6) storage_init
      = Some (Inr iss, s')
    \<and> invoice_list sample_wallet sample_agent sample_canisters sample_token_list 1 None 8 s' = Inr ids \<and> iv_invoice_id iss \<in> set ids"
proof -
  obtain iss s' where iss: "invoice_issue (\<lambda>_ _. 0) const_sha sample_sg sample_wallet sample_agent sample_canisters sample_token_list sample_issue_args 8
      (\<lambda>_. replicate 32 6) storage_init = Some (Inr iss, s')"
    using sample_issued by blast
  have "wl_signing_key sample_wallet 8 = Some ()" "ia_recipient sample_issue_args = None" "ia_chain_id sample_issue_args = 1"
    by (simp_all add: sample_wallet_def sample_issue_args_def)
  then show ?thesis
    using issued_invoice_receivable [OF sample_wallet_ok _ rtranclp.rtrancl_refl _ _ iss rtranclp.rtrancl_refl] iss by fastforce
qed

end
