(* ===== verification/Wasm_Props.thy ===== *)
theory Wasm_Props
  imports Wasm Stealth_Transfers Teleport_Props Withdraw_Props
begin

text \<open>
  Correctness of the browser library (\<open>Wasm\<close>): what it prints it reads back, the addresses it
  builds are those the command line understands and the circuits accept, its aggregation tree
  is the one of the command line, and its provers accept exactly the inputs the circuits
  accept.
\<close>

section \<open>Text\<close>

definition wasm_lib_ok :: "wasm_lib \<Rightarrow> bool" where
  "wasm_lib_ok L \<longleftrightarrow> (\<forall>bs. wl_unhex L (wl_hex L bs) = Some bs \<and> set (wl_hex L bs) \<subseteq> set ''0123456789abcdef'')"

lemma wasm_unhex: "wasm_lib_ok L \<Longrightarrow> wl_unhex L (wl_hex L bs) = Some bs"
  by (simp add: wasm_lib_ok_def)

lemma trim_0x_hex:
  assumes "wasm_lib_ok L"
  shows "trim_ascii (''0x'' @ wl_hex L bs) = ''0x'' @ wl_hex L bs"
proof (rule trim_ascii_id)
  have "set (wl_hex L bs) \<subseteq> set ''0123456789abcdef''"
    using assms by (simp add: wasm_lib_ok_def del: set_simps)
  then show "\<forall>c \<in> set (''0x'' @ wl_hex L bs). \<not> is_space c"
    by (auto simp: is_space_def)
qed

lemma hex_to_fr_to_hex:
  assumes "wasm_lib_ok L"
  shows "hex_to_fr L (fr_to_hex L x) = Inr x"
proof -
  have "into_bigint x < 256 ^ 32"
    using into_bigint_less [of x] by (simp add: bn254_r_def)
  then show ?thesis
    using trim_0x_hex [OF assms] assms
    by (simp add: hex_to_fr_def fr_to_hex_def Let_def wasm_unhex nat_of_be_be_bytes del: append.simps)
qed

lemma parse_b256_to_hex:
  assumes "wasm_lib_ok L"
  shows "parse_b256_hex L (b256_to_hex_string L x) = Inr x"
  using assms by (simp add: parse_b256_hex_def b256_to_hex_string_def wasm_unhex del: append.simps)

section \<open>Burn addresses\<close>

lemma derived_secret:
  assumes "Inr js \<in> {derive_invoice_single L H sha keccak s i cid a, derive_invoice_batch L H sha keccak s i k cid a,
      derive_payment_advice L H sha keccak s i cid a}"
  shows "\<exists>addr base tw st. parse_address_hex L a = Inr addr \<and> with_tweak H sha base tw cid addr = Some st
    \<and> js = secret_tweak_to_js L st"
proof -
  have ok: "ok_or JsPanic x = Inr y \<longleftrightarrow> x = Some y" for x and y :: secret_and_tweak
    by (cases x) simp_all
  consider "derive_invoice_single L H sha keccak s i cid a = Inr js" | "derive_invoice_batch L H sha keccak s i k cid a = Inr js"
    | "derive_payment_advice L H sha keccak s i cid a = Inr js"
    using assms by auto
  then show ?thesis
    by cases (auto simp: derive_invoice_single_def derive_invoice_batch_def derive_payment_advice_def res_bind_Inr_iff ok
        single_invoice_def batch_invoice_def payment_advice_def)
qed

lemma burn_artifacts_decode:
  assumes "wasm_lib_ok L" "build_burn_artifacts L H sha fb = Inr art"
  shows "decode_full_burn_address_js L H sha (jba_full_burn_address art) = Inr art"
    and "Stealth.decode_full_burn_address (wl_unhex L) (jba_full_burn_address art) = Inr (burn_to_bytes fb)"
proof -
  have art: "jba_full_burn_address art = ''0x'' @ wl_hex L (burn_to_bytes fb)"
    using assms(2) by (auto simp: build_burn_artifacts_def res_bind_Inr_iff)
  then show "decode_full_burn_address_js L H sha (jba_full_burn_address art) = Inr art"
    using assms by (simp add: decode_full_burn_address_js_def wasm_unhex burn_from_to_bytes del: append.simps)
  have "set (wl_hex L (burn_to_bytes fb)) \<subseteq> set ''0123456789abcdef''"
    using assms(1) by (simp add: wasm_lib_ok_def del: set_simps)
  then show "Stealth.decode_full_burn_address (wl_unhex L) (jba_full_burn_address art) = Inr (burn_to_bytes fb)"
    using assms(1) trim_hex by (simp add: art decode_full_burn_address_def wasm_unhex del: append.simps)
qed

lemma recipient_word: "address_from_slice (drop 12 (u256_to_be_bytes (recipient_address (new_evm cid addr tw)))) = addr"
proof -
  have "unat addr < 2 ^ 160"
    using unsigned_less [of addr, where ?'a = nat] by simp
  moreover from this have "unat (ucast addr :: b256) = unat addr"
    using less_trans [of "unat addr" "2 ^ 160" "2 ^ 256"] by (simp add: unsigned_ucast_eq take_bit_nat_eq_self_iff)
  ultimately show ?thesis
    by (simp add: new_evm_def u256_to_be_bytes_def drop_be_bytes address_from_slice_def)
qed

text \<open>
  \<^bold>\<open>C29\<close>. Whatever the browser derives, it accepts back as text: the full burn address it builds
  decodes to the same artifacts, in the browser and on the command line, shows the recipient
  and secret it was built for, and its burn address is one the withdraw circuits pay out.
\<close>

theorem browser_burn_roundtrip:
  assumes "wasm_lib_ok L"
    and "Inr js \<in> {derive_invoice_single L H sha keccak s i cid a, derive_invoice_batch L H sha keccak s i k cid a,
      derive_payment_advice L H sha keccak s i cid a}"
  shows "\<exists>addr art fb b. parse_address_hex L a = Inr addr
    \<and> build_full_burn_address L H sha cid a (jst_secret js) (jst_tweak js) = Inr art
    \<and> decode_full_burn_address_js L H sha (jba_full_burn_address art) = Inr art
    \<and> jba_secret art = jst_secret js \<and> jgr_tweak (jba_general_recipient art) = jst_tweak js
    \<and> jgr_address (jba_general_recipient art) = wl_address_hex L addr
    \<and> general_recipient_fr L sha cid a (jst_tweak js) = Inr (jgr_fr (jba_general_recipient art))
    \<and> Stealth.decode_full_burn_address (wl_unhex L) (jba_full_burn_address art) = Inr (burn_to_bytes fb)
    \<and> burn_address H sha fb = Inr b \<and> jba_burn_address art = wl_address_hex L b
    \<and> spends_to H (recipient_to_fr sha (new_evm cid addr (tweak (fb_gr fb)))) (fb_secret fb) b"
proof -
  obtain addr base tw st where addr: "parse_address_hex L a = Inr addr" and st: "with_tweak H sha base tw cid addr = Some st"
    and js: "js = secret_tweak_to_js L st"
    using derived_secret [OF assms(2)] by blast
  have tw: "st_tweak st = tw"
    using st by (auto simp: with_tweak_def)
  obtain fb b where fb: "full_burn_address_new H sha cid addr st = Inr fb" "fb_gr fb = new_evm cid addr tw" "fb_secret fb = st_secret st"
    and b: "burn_address H sha fb = Inr b" "spends_to H (recipient_to_fr sha (fb_gr fb)) (st_secret st) b"
    using with_tweak_spendable [OF st] by blast
  obtain art where art: "build_burn_artifacts L H sha fb = Inr art"
    using b(1) by (simp add: build_burn_artifacts_def)
  have js': "parse_b256_hex L (jst_secret js) = Inr (st_secret st)" "parse_b256_hex L (jst_tweak js) = Inr (st_tweak st)"
    using parse_b256_to_hex [OF assms(1)] by (simp_all add: js secret_tweak_to_js_def)
  moreover have st_eq: "\<lparr>st_secret = st_secret st, st_tweak = st_tweak st\<rparr> = st"
    by simp
  ultimately have "build_full_burn_address L H sha cid a (jst_secret js) (jst_tweak js) = Inr art"
    using addr art fb(1) by (simp add: build_full_burn_address_def st_eq)
  moreover have "jba_secret art = jst_secret js" "jgr_tweak (jba_general_recipient art) = jst_tweak js"
    "jgr_address (jba_general_recipient art) = wl_address_hex L addr" "jba_burn_address art = wl_address_hex L b"
    "jgr_fr (jba_general_recipient art) = fr_to_hex L (recipient_to_fr sha (new_evm cid addr tw))"
    using art b(1) fb(2,3) recipient_word [of cid addr tw]
    by (auto simp: build_burn_artifacts_def general_recipient_to_js_def Let_def js secret_tweak_to_js_def tw new_evm_def)
  moreover have "general_recipient_fr L sha cid a (jst_tweak js) = Inr (fr_to_hex L (recipient_to_fr sha (new_evm cid addr tw)))"
    using addr js'(2) tw by (simp add: general_recipient_fr_def)
  moreover have "tweak (fb_gr fb) = tw"
    by (simp add: fb(2) new_evm_def)
  ultimately show ?thesis
    using addr b fb(2,3) burn_artifacts_decode [OF assms(1) art] by auto
qed

section \<open>The aggregation tree\<close>

lemma fill_snapshot_eq:
  assumes "res_map (parse_u256_hex L) snapshot = Inr vs"
  shows "fill_snapshot L H idx snapshot tree = ok_or JsPanic (fill_aggregation_tree H idx vs tree)"
  using assms
proof (induction snapshot arbitrary: idx tree vs)
  case (Cons hex snapshot)
  then obtain v vs' where v: "parse_u256_hex L hex = Inr v" "res_map (parse_u256_hex L) snapshot = Inr vs'" "vs = v # vs'"
    by (auto simp: res_bind_Inr_iff)
  then show ?case
    using Cons.IH [OF v(2)] by (cases "update_leaf H tree (word_of_nat idx) (u256_to_fr v)") simp_all
qed simp

text \<open>
  \<^bold>\<open>C32\<close>. For a snapshot of at most 64 roots the browser computes the root of the tree that the
  command line builds, and its proof for any index leads from the root of that chain, zero
  where there is none, to this root; an index beyond the tree is refused.
\<close>

theorem browser_aggregation_proofs:
  assumes "wasm_lib_ok L" "res_map (parse_u256_hex L) snapshot = Inr vs" "length vs \<le> 2 ^ AGGREGATION_TREE_HEIGHT"
  shows "\<exists>tree root. fill_aggregation_tree H 0 vs (mt_new H AGGREGATION_TREE_HEIGHT) = Some tree \<and> mt_get_root tree = Some root
    \<and> res_bind (aggregation_root L H snapshot) (hex_to_fr L) = Inr root
    \<and> (\<forall>i. if unat i < 2 ^ AGGREGATION_TREE_HEIGHT
         then \<exists>sibs. res_bind (aggregation_merkle_proof L H snapshot i) (res_map (hex_to_fr L)) = Inr sibs
           \<and> length sibs = AGGREGATION_TREE_HEIGHT
           \<and> proof_get_root H \<lparr>siblings = sibs\<rparr> (if unat i < length vs then u256_to_fr (vs ! unat i) else 0) (ucast i) = Some root
         else aggregation_merkle_proof L H snapshot i = Inl (JsError ''aggregation index exceeds tree capacity''))"
proof -
  have new: "mt_inv H AGGREGATION_TREE_HEIGHT (mt_new H AGGREGATION_TREE_HEIGHT) (\<lambda>_. 0)"
    by (intro mt_inv_new) (simp add: tree_heights)
  obtain tree where tree: "fill_aggregation_tree H 0 vs (mt_new H AGGREGATION_TREE_HEIGHT) = Some tree"
    and inv: "mt_inv H AGGREGATION_TREE_HEIGHT tree (snapshot_leaves 0 vs (\<lambda>_. 0))"
    using fill_ok [OF new, of 0 vs] assms(3) by auto
  have fill: "fill_snapshot L H 0 snapshot (mt_new H AGGREGATION_TREE_HEIGHT) = Inr tree"
    using fill_snapshot_eq [OF assms(2)] tree by simp
  have printed: "res_map (hex_to_fr L) (map (fr_to_hex L) xs) = Inr xs" for xs
    by (induction xs) (simp_all add: hex_to_fr_to_hex [OF assms(1)])
  obtain root where root: "mt_get_root tree = Some root"
    using mt.root_law [OF inv] by blast
  have "\<exists>sibs. res_bind (aggregation_merkle_proof L H snapshot i) (res_map (hex_to_fr L)) = Inr sibs \<and> length sibs = AGGREGATION_TREE_HEIGHT
      \<and> proof_get_root H \<lparr>siblings = sibs\<rparr> (if unat i < length vs then u256_to_fr (vs ! unat i) else 0) (ucast i) = Some root"
    if i: "unat i < 2 ^ AGGREGATION_TREE_HEIGHT" for i :: u32
  proof -
    have u: "unat (ucast i :: u64) = unat i"
      using i less_trans [of "unat i" "2 ^ AGGREGATION_TREE_HEIGHT" "2 ^ 64"]
      by (simp add: unsigned_ucast_eq take_bit_nat_eq_self_iff tree_heights)
    obtain p where p: "mt_prove tree (ucast i) = Some p" "proof_height p = AGGREGATION_TREE_HEIGHT"
      "proof_get_root H p (snapshot_leaves 0 vs (\<lambda>_. 0) (unat i)) (ucast i) = Some root"
      using mt.prove_verifies [OF inv, of "ucast i"] i u root by auto
    moreover have "\<lparr>siblings = siblings p\<rparr> = p"
      by simp
    moreover have "snapshot_leaves 0 vs (\<lambda>_. 0) (unat i) = (if unat i < length vs then u256_to_fr (vs ! unat i) else 0)"
      by (simp add: snapshot_leaves_nth u256_to_fr_def)
    ultimately show ?thesis
      using fill i printed by (intro exI [of _ "siblings p"] conjI) (simp_all only: proof_height_def, simp add: aggregation_merkle_proof_def)
  qed
  moreover have "aggregation_merkle_proof L H snapshot i = Inl (JsError ''aggregation index exceeds tree capacity'')"
    if "\<not> unat i < 2 ^ AGGREGATION_TREE_HEIGHT" for i :: u32
    using that fill by (simp add: aggregation_merkle_proof_def)
  moreover have "res_bind (aggregation_root L H snapshot) (hex_to_fr L) = Inr root"
    using fill root hex_to_fr_to_hex [OF assms(1)] by (simp add: aggregation_root_def)
  ultimately show ?thesis
    using tree root by (intro exI [of _ tree] exI [of _ root]) simp
qed

section \<open>The provers\<close>

text \<open>
  The folding scheme on the withdraw circuit: proofs start and continue along satisfied
  steps, and a proof that verifies after a step attests this step and all before it.
\<close>

definition folding_ok ::
  "(fr \<Rightarrow> fr \<Rightarrow> fr) \<Rightarrow> nat \<Rightarrow> ('pp, 'vp, 'n, 'i, withdraw_external_inputs) folding_lib \<Rightarrow> ('pp, 'vp) nova_params \<Rightarrow> bool" where
  "folding_ok H DEPTH F params \<longleftrightarrow> fl_circuit_new F = Inr ()
     \<and> (\<forall>z n. fl_init F (np_pp params) (np_vp params) z = Inr n \<longrightarrow> fl_state F n = z)
     \<and> (\<forall>z. length z = WITHDRAW_STATE_LEN \<longrightarrow>
          (\<exists>n. fl_init F (np_pp params) (np_vp params) z = Inr n \<and> fl_verify F (np_vp params) (fl_ivc_proof F n) = Inr ()))
     \<and> (\<forall>n e z. withdraw_nova_step H DEPTH (fl_state F n) e = Some z \<and> fl_verify F (np_vp params) (fl_ivc_proof F n) = Inr ()
          \<longrightarrow> (\<exists>n'. fl_prove_step F n e = Inr n' \<and> fl_verify F (np_vp params) (fl_ivc_proof F n') = Inr ()))
     \<and> (\<forall>n e n'. fl_prove_step F n e = Inr n' \<and> fl_verify F (np_vp params) (fl_ivc_proof F n') = Inr ()
          \<longrightarrow> fl_verify F (np_vp params) (fl_ivc_proof F n) = Inr ()
            \<and> withdraw_nova_step H DEPTH (fl_state F n) e = Some (fl_state F n'))
     \<and> (\<forall>i. \<exists>bs. fl_ivc_serialize F i = Inr bs)"

lemma prove_inputs_sound:
  assumes "folding_ok H DEPTH F params" "prove_inputs L F DEPTH steps n = Inr n'" "fl_verify F (np_vp params) (fl_ivc_proof F n') = Inr ()"
  shows "\<exists>es. res_map (external_input L DEPTH) steps = Inr es \<and> ivc (withdraw_nova_step H DEPTH) (fl_state F n) es = Some (fl_state F n')
    \<and> fl_verify F (np_vp params) (fl_ivc_proof F n) = Inr ()"
  using assms(2)
proof (induction steps arbitrary: n)
  case (Cons x steps)
  then obtain e n1 where e: "external_input L DEPTH x = Inr e" "fl_prove_step F n e = Inr n1" "prove_inputs L F DEPTH steps n1 = Inr n'"
    by (auto simp: res_bind_Inr_iff)
  obtain es where es: "res_map (external_input L DEPTH) steps = Inr es"
    "ivc (withdraw_nova_step H DEPTH) (fl_state F n1) es = Some (fl_state F n')" "fl_verify F (np_vp params) (fl_ivc_proof F n1) = Inr ()"
    using Cons.IH [OF e(3)] by blast
  then show ?case
    using e(1,2) assms(1) unfolding folding_ok_def by (intro exI [of _ "e # es"]) simp
qed (use assms(3) in simp)

lemma prove_inputs_complete:
  assumes "folding_ok H DEPTH F params" "res_map (external_input L DEPTH) steps = Inr es"
    and "ivc (withdraw_nova_step H DEPTH) (fl_state F n) es = Some z" "fl_verify F (np_vp params) (fl_ivc_proof F n) = Inr ()"
  shows "\<exists>n'. prove_inputs L F DEPTH steps n = Inr n' \<and> fl_state F n' = z \<and> fl_verify F (np_vp params) (fl_ivc_proof F n') = Inr ()"
  using assms(2-4)
proof (induction steps arbitrary: n es)
  case (Cons x steps)
  then obtain e es' where e: "external_input L DEPTH x = Inr e" "res_map (external_input L DEPTH) steps = Inr es'" "es = e # es'"
    by (auto simp: res_bind_Inr_iff)
  obtain z1 where z1: "withdraw_nova_step H DEPTH (fl_state F n) e = Some z1" "ivc (withdraw_nova_step H DEPTH) z1 es' = Some z"
    using Cons.prems(2) by (auto simp: e(3) bind_eq_Some_conv)
  obtain n1 where n1: "fl_prove_step F n e = Inr n1" "fl_verify F (np_vp params) (fl_ivc_proof F n1) = Inr ()"
    using assms(1) z1(1) Cons.prems(3) unfolding folding_ok_def by blast
  moreover have "fl_state F n1 = z1"
    using assms(1) n1 z1(1) unfolding folding_ok_def by (metis option.inject)
  ultimately show ?case
    using Cons.IH [OF e(2), of n1] e(1) z1(2) by simp
qed simp

lemma prove_with_depth_iff:
  assumes "folding_ok H DEPTH F params" "length z0 = WITHDRAW_STATE_LEN"
  shows "(\<exists>r. prove_with_depth L F DEPTH params z0 steps = Inr r \<and> jpr_final_state r = out)
    \<longleftrightarrow> (\<exists>es z. res_map (external_input L DEPTH) steps = Inr es \<and> ivc (withdraw_nova_step H DEPTH) z0 es = Some z
          \<and> out = map (fr_to_hex L) z)"
    (is "?prove \<longleftrightarrow> ?spec")
proof
  assume ?prove
  then obtain n n' where n: "initial_nova F params z0 = Inr n" "prove_inputs L F DEPTH steps n = Inr n'"
    "fl_verify F (np_vp params) (fl_ivc_proof F n') = Inr ()" and out: "out = map (fr_to_hex L) (fl_state F n')"
    by (auto simp: prove_with_depth_def res_bind_Inr_iff nova_verify_def Let_def)
  moreover have "fl_state F n = z0"
    using n(1) assms(1) by (auto simp: initial_nova_def folding_ok_def res_bind_Inr_iff)
  ultimately show ?spec
    using prove_inputs_sound [OF assms(1) n(2,3)] by auto
next
  assume ?spec
  then obtain es z where es: "res_map (external_input L DEPTH) steps = Inr es" "ivc (withdraw_nova_step H DEPTH) z0 es = Some z"
    and out: "out = map (fr_to_hex L) z"
    by blast
  obtain n where init: "fl_init F (np_pp params) (np_vp params) z0 = Inr n" "fl_verify F (np_vp params) (fl_ivc_proof F n) = Inr ()"
    using assms unfolding folding_ok_def by blast
  then have n: "initial_nova F params z0 = Inr n" "fl_state F n = z0" "fl_verify F (np_vp params) (fl_ivc_proof F n) = Inr ()"
    using assms(1) by (simp_all add: folding_ok_def initial_nova_def)
  obtain n' where n': "prove_inputs L F DEPTH steps n = Inr n'" "fl_state F n' = z" "fl_verify F (np_vp params) (fl_ivc_proof F n') = Inr ()"
    using prove_inputs_complete [OF assms(1) es(1) _ n(3)] es(2) n(2) by auto
  obtain bs where "fl_ivc_serialize F (fl_ivc_proof F n') = Inr bs"
    using assms(1) unfolding folding_ok_def by blast
  then show ?prove
    using n(1) n' out by (simp add: prove_with_depth_def nova_verify_def Let_def)
qed

lemma external_inputs_depth:
  assumes "res_map (external_input L DEPTH) steps = Inr es" "x \<in> set steps"
  shows "length (jx_siblings x) = DEPTH"
proof -
  have "external_input L DEPTH x = Inr e \<Longrightarrow> length (jx_siblings x) = DEPTH" for e
    by (auto simp: external_input_def res_bind_Inr_iff dest!: res_map_length split: if_splits)
  moreover have "\<exists>e. external_input L DEPTH x = Inr e"
    using assms by (induction steps arbitrary: es) (auto simp: res_bind_Inr_iff)
  ultimately show ?thesis
    by blast
qed

text \<open>
  \<^bold>\<open>C30\<close>. The batch prover of the browser returns a proof exactly for four field elements and
  steps that decode with paths of one supported length and that the withdraw circuit of this
  length accepts from them; the final state it reports is the one of the circuit.
\<close>

theorem browser_batch_prover_exact:
  assumes "folding_ok H TRANSFER_TREE_HEIGHT F (wn_local self)" "folding_ok H GLOBAL_TRANSFER_TREE_HEIGHT G (wn_global self)"
  shows "(\<exists>r. withdraw_nova_prove L F G self z0_hex steps = Inr r \<and> jpr_final_state r = out)
    \<longleftrightarrow> (\<exists>DEPTH z0 es z. (DEPTH = TRANSFER_TREE_HEIGHT \<or> DEPTH = GLOBAL_TRANSFER_TREE_HEIGHT \<and> steps \<noteq> [])
          \<and> res_map (hex_to_fr L) z0_hex = Inr z0 \<and> length z0 = WITHDRAW_STATE_LEN
          \<and> res_map (external_input L DEPTH) steps = Inr es
          \<and> ivc (withdraw_nova_step H DEPTH) z0 es = Some z \<and> out = map (fr_to_hex L) z)"
    (is "?prove \<longleftrightarrow> ?spec")
proof -
  let ?height = "case steps of [] \<Rightarrow> TRANSFER_TREE_HEIGHT | input # _ \<Rightarrow> length (jx_siblings input)"
  have heights: "TRANSFER_TREE_HEIGHT \<noteq> GLOBAL_TRANSFER_TREE_HEIGHT"
    by (simp add: tree_heights)
  have height: "?height = DEPTH" "\<forall>x \<in> set steps. length (jx_siblings x) = ?height"
    if "res_map (external_input L DEPTH) steps = Inr es" "DEPTH = TRANSFER_TREE_HEIGHT \<or> DEPTH = GLOBAL_TRANSFER_TREE_HEIGHT \<and> steps \<noteq> []"
    for DEPTH es
    using that external_inputs_depth [OF that(1)] by (auto split: list.splits)
  show ?thesis
  proof
    assume ?prove
    then obtain z0 where z0: "length z0_hex = WITHDRAW_STATE_LEN" "res_map (hex_to_fr L) z0_hex = Inr z0"
      and run: "(?height = TRANSFER_TREE_HEIGHT \<and> (\<exists>r. prove_with_depth L F TRANSFER_TREE_HEIGHT (wn_local self) z0 steps = Inr r \<and> jpr_final_state r = out))
        \<or> (?height = GLOBAL_TRANSFER_TREE_HEIGHT
            \<and> (\<exists>r. prove_with_depth L G GLOBAL_TRANSFER_TREE_HEIGHT (wn_global self) z0 steps = Inr r \<and> jpr_final_state r = out))"
      unfolding withdraw_nova_prove_def Let_def by (auto simp: res_bind_Inr_iff split: if_splits)
    have len: "length z0 = WITHDRAW_STATE_LEN"
      using res_map_length [OF z0(2)] z0(1) by simp
    show ?spec
      using run z0(2) len heights unfolding prove_with_depth_iff [OF assms(1) len] prove_with_depth_iff [OF assms(2) len]
      by (auto split: list.splits)
  next
    assume ?spec
    then obtain DEPTH z0 es z where depth: "DEPTH = TRANSFER_TREE_HEIGHT \<or> DEPTH = GLOBAL_TRANSFER_TREE_HEIGHT \<and> steps \<noteq> []"
      and z0: "res_map (hex_to_fr L) z0_hex = Inr z0" "length z0 = WITHDRAW_STATE_LEN"
      and es: "res_map (external_input L DEPTH) steps = Inr es" "ivc (withdraw_nova_step H DEPTH) z0 es = Some z" "out = map (fr_to_hex L) z"
      by blast
    note h = height [OF es(1) depth]
    have len: "length z0_hex = WITHDRAW_STATE_LEN"
      using res_map_length [OF z0(1)] z0(2) by simp
    show ?prove
      using depth
    proof
      assume "DEPTH = TRANSFER_TREE_HEIGHT"
      then show ?prove
        using prove_with_depth_iff [OF assms(1) z0(2), of L steps out] es z0 h len by (auto simp: withdraw_nova_prove_def Let_def)
    next
      assume "DEPTH = GLOBAL_TRANSFER_TREE_HEIGHT \<and> steps \<noteq> []"
      then show ?prove
        using prove_with_depth_iff [OF assms(2) z0(2), of L steps out] es z0 h len heights by (auto simp: withdraw_nova_prove_def Let_def)
    qed
  qed
qed

text \<open>Groth16 on the single-withdraw circuit: satisfied assignments, and only those, give proofs that verify.\<close>

definition groth16_ok ::
  "(fr \<Rightarrow> fr \<Rightarrow> fr) \<Rightarrow> nat \<Rightarrow> ('pk, 'vk, 'p, single_withdraw_circuit, u64) groth16_lib \<Rightarrow> ('pk, 'vk) groth16_params \<Rightarrow> bool" where
  "groth16_ok H DEPTH G params \<longleftrightarrow>
     (\<forall>c pub rng. single_generate_constraints H DEPTH c = Inr () \<and> single_public_inputs c = Inr pub \<longrightarrow>
        (\<exists>p. gl_prove G (gp_pk params) c rng = Inr p \<and> gl_verify G (gp_vk params) pub p = Inr True))
     \<and> (\<forall>c pub rng p. gl_prove G (gp_pk params) c rng = Inr p \<and> gl_verify G (gp_vk params) pub p = Inr True
          \<and> single_public_inputs c = Inr pub \<longrightarrow> single_generate_constraints H DEPTH c = Inr ())"

lemma groth16_proves:
  assumes "groth16_ok H DEPTH G params" "single_public_inputs c = Inr pub"
  shows "(\<exists>bs. generate_proof G params rng c pub = Inr bs) \<longleftrightarrow> single_generate_constraints H DEPTH c = Inr ()"
  using assms unfolding generate_proof_verified groth16_ok_def by blast

definition single_decoded ::
  "wasm_lib \<Rightarrow> js_single_withdraw_input \<Rightarrow> fr \<Rightarrow> fr \<Rightarrow> fr \<Rightarrow> fr \<Rightarrow> fr \<Rightarrow> fr \<Rightarrow> u64 \<Rightarrow> fr list \<Rightarrow> bool" where
  "single_decoded L w root rcp wv v delta secret li ss \<longleftrightarrow>
     hex_to_fr L (jsw_merkle_root w) = Inr root \<and> hex_to_fr L (jsw_recipient w) = Inr rcp
     \<and> hex_to_fr L (jsw_withdraw_value w) = Inr wv \<and> hex_to_fr L (jsw_value w) = Inr v \<and> hex_to_fr L (jsw_delta w) = Inr delta
     \<and> hex_to_fr L (jsw_secret w) = Inr secret \<and> parse_u64 (jsw_leaf_index w) = Inr li \<and> res_map (hex_to_fr L) (jsw_siblings w) = Inr ss"

lemma prove_single_with_depth_iff:
  assumes "groth16_ok H DEPTH G params" "length (jsw_siblings w) = DEPTH"
  shows "(\<exists>r. prove_single_with_depth L G DEPTH params w = Inr r \<and> jgp_public_inputs r = out)
    \<longleftrightarrow> (\<exists>root rcp wv v delta secret li ss. single_decoded L w root rcp wv v delta secret li ss
          \<and> single_withdraw H DEPTH root rcp v delta secret (fr_of_nat (unat li)) ss = Some wv
          \<and> out = map (fr_to_hex L) [root, rcp, wv])"
proof -
  define c where "c root rcp wv v delta secret li ss = \<lparr>sw_merkle_root = Some root, sw_recipient = Some rcp,
      sw_withdraw_value = Some wv, sw_value = Some v, sw_delta = Some delta, sw_secret = Some secret, sw_leaf_index = Some li,
      sw_siblings = map Some ss\<rparr>" for root rcp wv v delta secret :: fr and li :: u64 and ss :: "fr list"
  have pub: "single_public_inputs (c root rcp wv v delta secret li ss) = Inr [root, rcp, wv]" for root rcp wv v delta secret li ss
    by (simp add: c_def single_public_inputs_def)
  have "single_generate_constraints H DEPTH (c root rcp wv v delta secret li ss) = Inr ()
      \<longleftrightarrow> single_withdraw H DEPTH root rcp v delta secret (fr_of_nat (unat li)) ss = Some wv" for root rcp wv v delta secret li ss
    unfolding single_circuit_public_inputs pub by (auto simp: c_def inj_map_eq_map)
  then have sat: "(\<exists>bs. generate_proof G params 42 (c root rcp wv v delta secret li ss) [root, rcp, wv] = Inr bs)
      \<longleftrightarrow> single_withdraw H DEPTH root rcp v delta secret (fr_of_nat (unat li)) ss = Some wv" for root rcp wv v delta secret li ss
    using groth16_proves [OF assms(1) pub] by simp
  have "(\<exists>r. prove_single_with_depth L G DEPTH params w = Inr r \<and> jgp_public_inputs r = out)
    \<longleftrightarrow> (\<exists>root rcp wv v delta secret li ss. single_decoded L w root rcp wv v delta secret li ss
          \<and> (\<exists>bs. generate_proof G params 42 (c root rcp wv v delta secret li ss) [root, rcp, wv] = Inr bs)
          \<and> out = map (fr_to_hex L) [root, rcp, wv])"
    unfolding prove_single_with_depth_def c_def [symmetric] Let_def pub
    using assms(2) by (auto simp: res_bind_Inr_iff single_decoded_def)
  then show ?thesis
    unfolding sat .
qed

text \<open>
  \<^bold>\<open>C31\<close>. The single prover of the browser returns a proof exactly for inputs that decode, with a
  path of a supported length, to an assignment the withdraw circuit accepts; its public inputs
  are the root, the recipient and the withdrawn value.
\<close>

theorem browser_single_prover_exact:
  assumes "groth16_ok H TRANSFER_TREE_HEIGHT G (sn_local self)" "groth16_ok H GLOBAL_TRANSFER_TREE_HEIGHT G (sn_global self)"
  shows "(\<exists>r. single_withdraw_prove L G self w = Inr r \<and> jgp_public_inputs r = out)
    \<longleftrightarrow> length (jsw_siblings w) \<in> {TRANSFER_TREE_HEIGHT, GLOBAL_TRANSFER_TREE_HEIGHT}
      \<and> (\<exists>root rcp wv v delta secret li ss. single_decoded L w root rcp wv v delta secret li ss
          \<and> single_withdraw H (length (jsw_siblings w)) root rcp v delta secret (fr_of_nat (unat li)) ss = Some wv
          \<and> out = map (fr_to_hex L) [root, rcp, wv])"
proof -
  consider "length (jsw_siblings w) = TRANSFER_TREE_HEIGHT" | "length (jsw_siblings w) = GLOBAL_TRANSFER_TREE_HEIGHT"
    | "length (jsw_siblings w) \<notin> {TRANSFER_TREE_HEIGHT, GLOBAL_TRANSFER_TREE_HEIGHT}"
    by blast
  then show ?thesis
  proof cases
    case 1
    then show ?thesis
      using prove_single_with_depth_iff [OF assms(1) 1, of L out] by (simp add: single_withdraw_prove_def)
  next
    case 2
    moreover have "TRANSFER_TREE_HEIGHT \<noteq> GLOBAL_TRANSFER_TREE_HEIGHT"
      by (simp add: tree_heights)
    ultimately show ?thesis
      using prove_single_with_depth_iff [OF assms(2) 2, of L out] by (simp add: single_withdraw_prove_def)
  next
    case 3
    then show ?thesis
      by (simp add: single_withdraw_prove_def)
  qed
qed

section \<open>Concrete instances\<close>

definition sample_lib :: wasm_lib where
  "sample_lib = \<lparr>wl_hex = hex_encode, wl_unhex = hex_decode, wl_address_from_str = (\<lambda>s. if s = ''a'' then Some 6 else None),
     wl_address_hex = (\<lambda>_. ''a''), wl_u256_from_hex = (\<lambda>s. map_option (\<lambda>bs. word_of_nat (nat_of_be bs)) (hex_decode s))\<rparr>"

lemma sample_lib_ok: "wasm_lib_ok sample_lib"
  using hex_decode_encode by (simp add: wasm_lib_ok_def sample_lib_def hex_alphabet_def del: set_simps)

theorem browser_burn_roundtrip_witness:
  "\<exists>js art. derive_invoice_batch sample_lib (\<lambda>_ _. 0) const_sha (\<lambda>_. 7) (b256_to_hex_string sample_lib 2)
       (b256_to_hex_string sample_lib 1) 3 5 ''a'' = Inr js
    \<and> build_full_burn_address sample_lib (\<lambda>_ _. 0) const_sha 5 ''a'' (jst_secret js) (jst_tweak js) = Inr art
    \<and> decode_full_burn_address_js sample_lib (\<lambda>_ _. 0) const_sha (jba_full_burn_address art) = Inr art"
proof -
  have "is_ok (compute_burn_address_from_secret (\<lambda>_ _. 0) r s)" for r s
    by (simp add: is_ok_iff compute_burn_address_iff)
  then have "find_pow_nonce (\<lambda>_ _. 0) r s = Some 0" for r s
    by (simp add: find_pow_nonce_def find_pow_from.simps)
  then obtain st where "batch_invoice (\<lambda>_ _. 0) const_sha (\<lambda>_. 7) 1 3 2 5 6 = Some st"
    by (auto simp: batch_invoice_def with_tweak_def pow_adjusted_secret_def Let_def)
  then obtain js where js: "derive_invoice_batch sample_lib (\<lambda>_ _. 0) const_sha (\<lambda>_. 7) (b256_to_hex_string sample_lib 2)
      (b256_to_hex_string sample_lib 1) 3 5 ''a'' = Inr js"
    by (simp add: derive_invoice_batch_def parse_b256_to_hex [OF sample_lib_ok] parse_address_hex_def) (simp add: sample_lib_def)
  have "Inr js \<in> {derive_invoice_single sample_lib (\<lambda>_ _. 0) const_sha (\<lambda>_. 7) (b256_to_hex_string sample_lib 2)
      (b256_to_hex_string sample_lib 1) 5 ''a'', derive_invoice_batch sample_lib (\<lambda>_ _. 0) const_sha (\<lambda>_. 7)
      (b256_to_hex_string sample_lib 2) (b256_to_hex_string sample_lib 1) 3 5 ''a'',
      derive_payment_advice sample_lib (\<lambda>_ _. 0) const_sha (\<lambda>_. 7) (b256_to_hex_string sample_lib 2)
      (b256_to_hex_string sample_lib 1) 5 ''a''}"
    by (simp add: js)
  from browser_burn_roundtrip [OF sample_lib_ok this] js show ?thesis
    by blast
qed

lemma sample_snapshot: "res_map (parse_u256_hex sample_lib) (map (b256_to_hex_string sample_lib) vs) = Inr vs"
proof -
  have "parse_u256_hex sample_lib (b256_to_hex_string sample_lib v) = Inr v" for v
    using trim_0x_hex [OF sample_lib_ok] wasm_unhex [OF sample_lib_ok]
    by (simp add: parse_u256_hex_def b256_to_hex_string_def Let_def del: append.simps)
      (simp add: sample_lib_def hex_decode_encode flip: Field.u256_from_be_slice_def)
  then show ?thesis
    by (induction vs) simp_all
qed

theorem browser_aggregation_proofs_witness:
  "\<exists>root sibs. res_bind (aggregation_root sample_lib toy_hash (map (b256_to_hex_string sample_lib) [5, 0, 9])) (hex_to_fr sample_lib) = Inr root
    \<and> res_bind (aggregation_merkle_proof sample_lib toy_hash (map (b256_to_hex_string sample_lib) [5, 0, 9]) 2) (res_map (hex_to_fr sample_lib)) = Inr sibs
    \<and> proof_get_root toy_hash \<lparr>siblings = sibs\<rparr> (u256_to_fr 9) 2 = Some root"
proof -
  have "length [5, 0, 9 :: u256] \<le> 2 ^ AGGREGATION_TREE_HEIGHT" "unat (2 :: u32) < 2 ^ AGGREGATION_TREE_HEIGHT"
    by (simp_all add: tree_heights)
  with browser_aggregation_proofs [OF sample_lib_ok sample_snapshot this(1), of toy_hash] show ?thesis
    by (elim exE conjE) (erule allE [of _ 2], auto)
qed

definition clear_folding ::
  "(fr \<Rightarrow> fr \<Rightarrow> fr) \<Rightarrow> nat \<Rightarrow> (unit, unit, fr list, fr list, withdraw_external_inputs) folding_lib" where
  "clear_folding H DEPTH = \<lparr>fl_circuit_new = Inr (), fl_preprocess = Inr ((), ()), fl_state_len = WITHDRAW_STATE_LEN,
     fl_pp_deserialize = (\<lambda>_. Inr ()), fl_vp_deserialize = (\<lambda>_. Inr ()), fl_pp_serialize = (\<lambda>_. Inr []), fl_vp_serialize = (\<lambda>_. Inr []),
     fl_init = (\<lambda>_ _ z. Inr z), fl_from_ivc_proof = (\<lambda>z _ _. Inr z),
     fl_prove_step = (\<lambda>z e. case withdraw_nova_step H DEPTH z e of None \<Rightarrow> Inl ''unsatisfied'' | Some z' \<Rightarrow> Inr z'),
     fl_state = id, fl_ivc_proof = id, fl_verify = (\<lambda>_ _. Inr ()), fl_ivc_serialize = (\<lambda>_. Inr [])\<rparr>"

lemma clear_folding_ok: "folding_ok H DEPTH (clear_folding H DEPTH) params"
  by (auto simp: folding_ok_def clear_folding_def split: option.splits)

definition sample_step :: js_external_input where
  "sample_step = \<lparr>jx_is_dummy = True, jx_value = fr_to_hex sample_lib 0, jx_secret = fr_to_hex sample_lib 1, jx_leaf_index = ''3'',
     jx_siblings = replicate 40 (fr_to_hex sample_lib 0)\<rparr>"

lemma parse_u64_3: "parse_u64 ''3'' = Inr 3"
proof -
  have "trim_ascii ''3'' = ''3''"
    by (intro trim_ascii_id) (simp add: is_space_def)
  then show ?thesis
    by (simp add: parse_u64_def u64_from_str_radix_def digit_value_def Let_def)
qed

lemma sample_hex_siblings: "res_map (hex_to_fr sample_lib) (replicate n (fr_to_hex sample_lib x)) = Inr (replicate n x)"
  by (induction n) (simp_all add: hex_to_fr_to_hex [OF sample_lib_ok])

theorem browser_batch_prover_exact_witness:
  "\<exists>r. withdraw_nova_prove sample_lib (clear_folding zero_fn TRANSFER_TREE_HEIGHT) (clear_folding zero_fn GLOBAL_TRANSFER_TREE_HEIGHT)
       \<lparr>wn_local = \<lparr>np_pp = (), np_vp = ()\<rparr>, wn_global = \<lparr>np_pp = (), np_vp = ()\<rparr>\<rparr>
       (map (fr_to_hex sample_lib) [0, 9, 0, 0]) [sample_step] = Inr r
    \<and> jpr_final_state r = map (fr_to_hex sample_lib) [0, 9, fr_of_nat 4, 0]"
proof -
  let ?e = "\<lparr>we_is_dummy = 1, we_value = 0, we_secret = 1, we_leaf_index = fr_of_nat 3, we_siblings = replicate 40 0\<rparr>"
  have "external_input sample_lib TRANSFER_TREE_HEIGHT sample_step = Inr ?e"
    by (simp add: external_input_def sample_step_def sample_hex_siblings parse_u64_3 hex_to_fr_to_hex [OF sample_lib_ok] tree_heights)
  moreover have "ivc (withdraw_nova_step zero_fn TRANSFER_TREE_HEIGHT) [0, 9, 0, 0] [?e] = Some [0, 9, fr_of_nat 4, 0]"
    by (subst withdraw_ivc_exact)
      (simp_all add: tree_heights input_ok_def well_signed_def leaf_idx_def amount_def is_real_def strictly_increasing_def bn254_r_def signed_amount_def)
  moreover have "res_map (hex_to_fr sample_lib) (map (fr_to_hex sample_lib) [0, 9, 0, 0]) = Inr [0, 9, 0, 0]"
    by (simp add: hex_to_fr_to_hex [OF sample_lib_ok])
  ultimately show ?thesis
    by (subst browser_batch_prover_exact [OF clear_folding_ok clear_folding_ok])
      (intro exI [of _ TRANSFER_TREE_HEIGHT] exI [of _ "[0, 9, 0, 0]"] exI [of _ "[?e]"] exI [of _ "[0, 9, fr_of_nat 4, 0]"],
       simp add: WITHDRAW_STATE_LEN_def)
qed

definition clear_groth16 ::
  "(fr \<Rightarrow> fr \<Rightarrow> fr) \<Rightarrow> (nat, nat, single_withdraw_circuit, single_withdraw_circuit, u64) groth16_lib" where
  "clear_groth16 H = \<lparr>gl_setup = (\<lambda>_ _. Inr (40, 40)),
     gl_prove = (\<lambda>depth c _. map_error (\<lambda>_. ''unsatisfied'') (res_bind (single_generate_constraints H depth c) (\<lambda>_. Inr c))),
     gl_verify = (\<lambda>_ pub c. Inr (single_public_inputs c = Inr pub)),
     gl_pk_serialize = (\<lambda>_. Inr []), gl_vk_serialize = (\<lambda>_. Inr []), gl_pk_deserialize = (\<lambda>_. Inr 40), gl_vk_deserialize = (\<lambda>_. Inr 40),
     gl_proof_to_eth = (\<lambda>_. []), gl_inputs_to_eth = (\<lambda>_. [])\<rparr>"

lemma clear_groth16_ok: "gp_pk params = DEPTH \<Longrightarrow> groth16_ok H DEPTH (clear_groth16 H) params"
  by (auto simp: groth16_ok_def clear_groth16_def res_bind_Inr_iff)

definition sample_witness :: js_single_withdraw_input where
  "sample_witness = \<lparr>jsw_merkle_root = fr_to_hex sample_lib 0, jsw_recipient = fr_to_hex sample_lib 9,
     jsw_withdraw_value = fr_to_hex sample_lib 2, jsw_value = fr_to_hex sample_lib 7, jsw_delta = fr_to_hex sample_lib 5,
     jsw_secret = fr_to_hex sample_lib 1, jsw_leaf_index = ''3'', jsw_siblings = replicate 40 (fr_to_hex sample_lib 4)\<rparr>"

theorem browser_single_prover_exact_witness:
  "\<exists>r. single_withdraw_prove sample_lib (clear_groth16 zero_fn)
       \<lparr>sn_local = \<lparr>gp_vk = 40, gp_pk = 40\<rparr>, sn_global = \<lparr>gp_vk = 46, gp_pk = 46\<rparr>\<rparr> sample_witness = Inr r
    \<and> jgp_public_inputs r = map (fr_to_hex sample_lib) [0, 9, 2]"
proof -
  let ?self = "\<lparr>sn_local = \<lparr>gp_vk = 40, gp_pk = 40\<rparr>, sn_global = \<lparr>gp_vk = 46, gp_pk = 46\<rparr>\<rparr>"
  have dec: "single_decoded sample_lib sample_witness 0 9 2 7 5 1 3 (replicate 40 4)"
    by (simp add: single_decoded_def sample_witness_def hex_to_fr_to_hex [OF sample_lib_ok] parse_u64_3 sample_hex_siblings)
  have len: "length (jsw_siblings sample_witness) = TRANSFER_TREE_HEIGHT"
    by (simp add: sample_witness_def tree_heights)
  have sat: "single_withdraw zero_fn (length (jsw_siblings sample_witness)) 0 9 7 5 1 (fr_of_nat (unat (3 :: u64))) (replicate 40 4) = Some 2"
    unfolding len TRANSFER_TREE_HEIGHT_def by (subst single_withdraw_iff)
      (simp_all add: burn_ok_def is_ok_iff compute_burn_address_iff path_root_zero_fn zero_fn_def into_bigint_numeral bn254_r_def)
  have ok: "groth16_ok zero_fn TRANSFER_TREE_HEIGHT (clear_groth16 zero_fn) (sn_local ?self)"
    "groth16_ok zero_fn GLOBAL_TRANSFER_TREE_HEIGHT (clear_groth16 zero_fn) (sn_global ?self)"
    by (intro clear_groth16_ok; simp add: tree_heights)+
  show ?thesis
    unfolding browser_single_prover_exact [OF ok] using dec sat len by blast
qed

end
