(* ===== verification/Redeem_Program.thy ===== *)
theory Redeem_Program
  imports Redeem_Commands Artifacts Wasm_Props Stealth_Transfers
begin

text \<open>
  The redeeming commands as a program (\<open>cli/src/main.rs\<close>, \<open>cli/src/commands/invoice.rs\<close>,
  \<open>cli/src/commands/shared.rs\<close>): from the arguments, the token file, the private key and the
  stored artefacts to the submitted proof. The provers are built from the parameters that the
  command loads, and the decider is the service that has loaded the same artefacts.

  What the program is given of the outside is the record \<open>cli_world\<close>: files, parsers, the
  wallet, contracts, services, random choices and the orders of hash maps.
\<close>

section \<open>The provers of the command line\<close>

record common_args =
  ca_tokens_file_path :: string
  ca_private_key :: string
  ca_indexer_url :: string
  ca_decider_prover_url :: string
  ca_ic_replica_url :: string
  ca_key_manager_canister_id :: string
  ca_storage_canister_id :: string
  ca_indexer_fetch_limit :: nat
  ca_event_block_span :: nat
  ca_nova_artifacts_dir :: "string option"

record ('url, 'sig, 'sk) cli_world =
  cw_read_to_string :: "string \<Rightarrow> string option"
  cw_json :: "string \<Rightarrow> tokens_file option"
  cw_unhex :: "string \<Rightarrow> bytes option"
  cw_parse_url :: "string \<Rightarrow> 'url option"
  cw_rpc_parses :: "string \<Rightarrow> bool"
  cw_files :: files
  cw_signatures :: "'sig signatures"
  cw_wallet :: "'sk wallet"
  cw_erc20 :: "token_entry \<Rightarrow> balance_of"
  cw_verifier :: "token_entry \<Rightarrow> verifier_calls"
  cw_hub :: "hub_entry \<Rightarrow> hub_calls"
  cw_indexer :: "'url \<Rightarrow> indexer_client"
  cw_decider :: "'url \<Rightarrow> circuit_kind \<Rightarrow> bytes \<Rightarrow> string + bytes"
  cw_submit :: "token_entry \<Rightarrow> b256 \<Rightarrow> submission \<Rightarrow> string + unit"
  cw_rng :: u64
  cw_num_dummy_steps :: nat
  cw_address_order :: "(nat \<times> address list) list \<Rightarrow> (nat \<times> address list) list"
  cw_proof_order :: "(nat \<times> local_teleport_proof list) list \<Rightarrow> (nat \<times> local_teleport_proof list) list"
  cw_secret_order :: "(address \<times> secret_and_tweak) list \<Rightarrow> (address \<times> secret_and_tweak) list"

definition teleport_text :: "teleport_error \<Rightarrow> string" where
  "teleport_text e = (case e of TeleportError s \<Rightarrow> s | TeleportCall s \<Rightarrow> s | TeleportBurn _ \<Rightarrow> ''burn address'' | TeleportPanic \<Rightarrow> ''panic'')"

definition build_decider_client ::
  "('url, 'sig, 'sk) cli_world \<Rightarrow> common_args \<Rightarrow> string + (circuit_kind \<Rightarrow> bytes \<Rightarrow> string + bytes)" where
  "build_decider_client W common =
     res_bind (ok_or (''invalid DECIDER_PROVER_URL '' @ ca_decider_prover_url common) (cw_parse_url W (ca_decider_prover_url common))) (\<lambda>base.
     Inr (cw_decider W base))"

text \<open>
  What \<open>batch_teleport_proof\<close> and \<open>single_teleport_proof\<close> call at the depth of the global tree.
  Loading reads files that do not change, so it gives the same parameters each time.
\<close>

definition cli_prover ::
  "('pp, 'vp, 'n, 'i, 'dp, 'dv, 'p, 'pk, 'vk, 'q) circuit_libs \<Rightarrow> ('url, 'sig, 'sk) cli_world \<Rightarrow> common_args \<Rightarrow> string \<Rightarrow> 'n withdraw_prover" where
  "cli_prover L W common artifacts_dir =
     (let F = ns_folding (cl_withdraw_global L);
          G = gs_lib (cl_groth16 L);
          nova_params = Proving.map_error teleport_text (load_withdraw_params F (cw_files W) artifacts_dir GLOBAL_TRANSFER_TREE_HEIGHT);
          single_params = Proving.map_error teleport_text (load_single_withdraw_params G (cw_files W) artifacts_dir GLOBAL_TRANSFER_TREE_HEIGHT)
      in \<lparr>wp_init = (\<lambda>z. res_bind nova_params (\<lambda>params. Proving.map_error nova_error_display (initial_nova F params z))),
          wp_prove_step = fl_prove_step F,
          wp_verify = (\<lambda>nova. res_bind nova_params (\<lambda>params. Proving.map_error nova_error_display (nova_verify F params (fl_ivc_proof F nova)))),
          wp_decider = (\<lambda>nova. res_bind (build_decider_client W common) (\<lambda>decider.
            res_bind (fl_ivc_serialize F (fl_ivc_proof F nova)) (\<lambda>proof_bytes. decider WithdrawGlobal proof_bytes))),
          wp_groth16 = (\<lambda>circuit public_inputs. res_bind single_params (\<lambda>params.
            Proving.map_error (\<lambda>_. ''failed to create single global teleport Groth16 proof'')
              (generate_proof G params (cw_rng W) circuit public_inputs)))\<rparr>)"

section \<open>The commands\<close>

datatype cli_error =
    CliConfig config_error
  | CliStealth stealth_error
  | CliTeleport teleport_error
  | CliError string

definition build_indexer_client :: "('url, 'sig, 'sk) cli_world \<Rightarrow> common_args \<Rightarrow> cli_error + indexer_client" where
  "build_indexer_client W common =
     res_bind (ok_or (CliError (''invalid INDEXER_URL '' @ ca_indexer_url common)) (cw_parse_url W (ca_indexer_url common))) (\<lambda>base.
     Inr (cw_indexer W base))"

definition cli_provider :: "('url, 'sig, 'sk) cli_world \<Rightarrow> string list \<Rightarrow> cli_error + unit" where
  "cli_provider W rpc_urls =
     (if provider_urls_ok (cw_rpc_parses W) rpc_urls then Inr () else Inl (CliError ''failed to construct provider''))"

record invoice_receive_args =
  ra_chain_id :: u64
  ra_invoice_id :: b256

text \<open>What the commands on an invoice share, with the provers for an artefacts directory.\<close>

definition command_env ::
  "('pp, 'vp, 'n, 'i, 'dp, 'dv, 'p, 'pk, 'vk, 'q) circuit_libs \<Rightarrow> ('url, 'sig, 'sk) cli_world \<Rightarrow> common_args \<Rightarrow> token_entry list \<Rightarrow> hub_entry
     \<Rightarrow> indexer_client \<Rightarrow> token_entry \<Rightarrow> b256 \<Rightarrow> string \<Rightarrow> 'n redeem_env" where
  "command_env L W common tokens hub indexer t private_key artifacts_dir =
     \<lparr>rv_indexer = indexer, rv_limit = ca_indexer_fetch_limit common, rv_tokens = tokens, rv_clients = map (cw_erc20 W) tokens,
      rv_verifier = cw_verifier W, rv_hub = cw_hub W hub, rv_event_block_span = ca_event_block_span common,
      rv_prover = cli_prover L W common artifacts_dir, rv_num_dummy_steps = cw_num_dummy_steps W, rv_submit = cw_submit W t private_key,
      rv_address_order = cw_address_order W, rv_proof_order = cw_proof_order W, rv_secret_order = cw_secret_order W\<rparr>"

text \<open>
  The set-up of \<open>build_invoice_receive_context\<close>: contracts, seed, recipient and the indexer. The
  code derives the burn addresses before the providers of all tokens and the indexer are
  built; each of these steps only succeeds or fails.
\<close>

definition invoice_setup ::
  "('url, 'sig, 'sk) cli_world \<Rightarrow> common_args \<Rightarrow> invoice_receive_args \<Rightarrow> token_entry list \<Rightarrow> hub_entry option \<Rightarrow> b256
     \<Rightarrow> cli_error + hub_entry \<times> token_entry \<times> b256 \<times> address \<times> indexer_client" where
  "invoice_setup W common args token_entries hub private_key =
     res_bind (ok_or (CliError ''hub entry is required'') hub) (\<lambda>hub_entry.
     res_bind (cli_provider W (he_rpc_urls hub_entry)) (\<lambda>_.
     res_bind (Proving.map_error CliTeleport (find_token_by_chain token_entries (unat (ra_chain_id args)))) (\<lambda>token_entry.
     res_bind (cli_provider W (te_rpc_urls token_entry)) (\<lambda>_.
     res_bind (Proving.map_error CliStealth (compute_seed_from_signature (cw_signatures W) (cw_wallet W) private_key)) (\<lambda>seed.
     res_bind (Proving.map_error CliStealth (get_address_from_private_key (cw_wallet W) private_key)) (\<lambda>recipient_address.
     res_bind (res_map (\<lambda>t. cli_provider W (te_rpc_urls t)) token_entries) (\<lambda>_.
     res_bind (build_indexer_client W common) (\<lambda>indexer.
     Inr (hub_entry, token_entry, seed, recipient_address, indexer)))))))))"

text \<open>Without a directory of artefacts the command fails once its context has been built.\<close>

definition invoice_receive_run ::
  "(fr \<Rightarrow> fr \<Rightarrow> fr) \<Rightarrow> (bytes \<Rightarrow> bytes) \<Rightarrow> ('pp, 'vp, 'n, 'i, 'dp, 'dv, 'p, 'pk, 'vk, 'q) circuit_libs \<Rightarrow> ('url, 'sig, 'sk) cli_world
     \<Rightarrow> common_args \<Rightarrow> invoice_receive_args \<Rightarrow> token_entry list \<Rightarrow> hub_entry option \<Rightarrow> b256 \<Rightarrow> cli_error + redeem_result option" where
  "invoice_receive_run H sha L W common args token_entries hub private_key =
     res_bind (invoice_setup W common args token_entries hub private_key) (\<lambda>(hub_entry, token_entry, seed, recipient_address, indexer).
     let keccak = sg_keccak (cw_signatures W);
         env = command_env L W common token_entries hub_entry indexer token_entry private_key
     in case ca_nova_artifacts_dir common of
          Some artifacts_dir \<Rightarrow> Proving.map_error CliTeleport
            (invoice_receive H sha keccak (env artifacts_dir) (ra_invoice_id args) seed (ra_chain_id args) recipient_address)
        | None \<Rightarrow>
            res_bind (Proving.map_error CliTeleport (build_invoice_receive_context H sha keccak (env []) (ra_invoice_id args) seed
                (ra_chain_id args) recipient_address)) (\<lambda>context.
            case context of
              None \<Rightarrow> Inr None
            | Some _ \<Rightarrow> Inl (CliError ''Nova artifacts directory must be specified for invoice receive command'')))"

definition invoice_status_run ::
  "(fr \<Rightarrow> fr \<Rightarrow> fr) \<Rightarrow> (bytes \<Rightarrow> bytes) \<Rightarrow> ('pp, 'vp, 'n, 'i, 'dp, 'dv, 'p, 'pk, 'vk, 'q) circuit_libs \<Rightarrow> ('url, 'sig, 'sk) cli_world
     \<Rightarrow> common_args \<Rightarrow> invoice_receive_args \<Rightarrow> token_entry list \<Rightarrow> hub_entry option \<Rightarrow> b256
     \<Rightarrow> cli_error + (address list \<times> (nat \<times> events_with_eligibility) list) option" where
  "invoice_status_run H sha L W common args token_entries hub private_key =
     res_bind (invoice_setup W common args token_entries hub private_key) (\<lambda>(hub_entry, token_entry, seed, recipient_address, indexer).
     Proving.map_error CliTeleport (invoice_status H sha (sg_keccak (cw_signatures W))
       (command_env L W common token_entries hub_entry indexer token_entry private_key []) (ra_invoice_id args) seed (ra_chain_id args) recipient_address))"

text \<open>The part of \<open>main\<close> before the command, and the branches of the two commands.\<close>

definition cli_load :: "('url, 'sig, 'sk) cli_world \<Rightarrow> common_args \<Rightarrow> cli_error + token_entry list \<times> hub_entry option \<times> b256" where
  "cli_load W common =
     res_bind (Proving.map_error CliConfig (load_tokens_config (cw_json W) (cw_read_to_string W (ca_tokens_file_path common)))) (\<lambda>(tokens, hub).
     res_bind (Proving.map_error CliConfig (parse_private_key (cw_unhex W) (ca_private_key common))) (\<lambda>private_key.
     Inr (tokens, hub, private_key)))"

definition cli_invoice_receive ::
  "(fr \<Rightarrow> fr \<Rightarrow> fr) \<Rightarrow> (bytes \<Rightarrow> bytes) \<Rightarrow> ('pp, 'vp, 'n, 'i, 'dp, 'dv, 'p, 'pk, 'vk, 'q) circuit_libs \<Rightarrow> ('url, 'sig, 'sk) cli_world
     \<Rightarrow> common_args \<Rightarrow> invoice_receive_args \<Rightarrow> cli_error + redeem_result option" where
  "cli_invoice_receive H sha L W common args =
     res_bind (cli_load W common) (\<lambda>(tokens, hub, private_key). invoice_receive_run H sha L W common args tokens hub private_key)"

definition cli_invoice_status ::
  "(fr \<Rightarrow> fr \<Rightarrow> fr) \<Rightarrow> (bytes \<Rightarrow> bytes) \<Rightarrow> ('pp, 'vp, 'n, 'i, 'dp, 'dv, 'p, 'pk, 'vk, 'q) circuit_libs \<Rightarrow> ('url, 'sig, 'sk) cli_world
     \<Rightarrow> common_args \<Rightarrow> invoice_receive_args \<Rightarrow> cli_error + (address list \<times> (nat \<times> events_with_eligibility) list) option" where
  "cli_invoice_status H sha L W common args =
     res_bind (cli_load W common) (\<lambda>(tokens, hub, private_key). invoice_status_run H sha L W common args tokens hub private_key)"

section \<open>Provers and decider over the same artefacts\<close>

text \<open>
  What is relied on of the proof systems at the depth of the global tree, for given parameters:
  folding and Groth16 prove what the circuits accept, the encoding of folded proofs can be read
  back, and the decider completes every folded proof that verifies.
\<close>

definition proofs_ok ::
  "(fr \<Rightarrow> fr \<Rightarrow> fr) \<Rightarrow> ('pp, 'vp, 'n, 'i, 'dp, 'dv, 'p, 'pk, 'vk, 'q) circuit_libs \<Rightarrow> ('pk, 'vk) groth16_params \<Rightarrow> ('pp, 'vp) nova_params
     \<Rightarrow> ('dp, 'dv) decider_params \<Rightarrow> bool" where
  "proofs_ok H L gg ng dg \<longleftrightarrow>
     (let S = cl_withdraw_global L; F = ns_folding S; D = ns_decider S in
      folding_ok H GLOBAL_TRANSFER_TREE_HEIGHT F ng \<and> groth16_ok H GLOBAL_TRANSFER_TREE_HEIGHT (gs_lib (cl_groth16 L)) gg
      \<and> (\<forall>i bs. fl_ivc_serialize F i = Inr bs \<longrightarrow> ns_ivc_deserialize S bs = Inr i)
      \<and> (\<forall>i. fl_verify F (np_vp ng) i = Inr () \<longrightarrow>
           (\<exists>n p. fl_from_ivc_proof F i (np_pp ng) (np_vp ng) = Inr n \<and> dl_prove D (dp_pp dg) n = Inr p \<and> dl_verify D (dp_vp dg) n p = Inr True)))"

lemma decider_error_Inr [simp]: "Decider.map_error f r = Inr x \<longleftrightarrow> r = Inr x"
  by (cases r) (simp_all add: Decider.map_error_def)

text \<open>The engine of the decider completes what the command line has folded and verified.\<close>

lemma engine_completes:
  assumes ok: "proofs_ok H L gg ng dg" and nova: "fl_verify (ns_folding (cl_withdraw_global L)) (np_vp ng) i = Inr ()"
    and bs: "fl_ivc_serialize (ns_folding (cl_withdraw_global L)) i = Inr bs"
  shows "\<exists>p. engine_produce (engine_context (cl_withdraw_global L) ng dg) bs = Inr p"
proof -
  let ?S = "cl_withdraw_global L"
  obtain n p where "ns_ivc_deserialize ?S bs = Inr i" "fl_from_ivc_proof (ns_folding ?S) i (np_pp ng) (np_vp ng) = Inr n"
    "dl_prove (ns_decider ?S) (dp_pp dg) n = Inr p" "dl_verify (ns_decider ?S) (dp_vp dg) n p = Inr True"
    using ok nova bs by (fastforce simp: proofs_ok_def Let_def)
  then show ?thesis
    using nova by (simp add: engine_produce_def engine_context_def Decider.map_error_def nova_verify_def nova_from_ivc_proof_def
        Proving.generate_decider_proof_def Let_def)
qed

lemma folding_steps:
  assumes F: "folding_ok H DEPTH F params"
    and step: "withdraw_nova_step H DEPTH (fl_state F n) e = Some z" "fl_verify F (np_vp params) (fl_ivc_proof F n) = Inr ()"
  shows "\<exists>n'. fl_prove_step F n e = Inr n' \<and> fl_state F n' = z \<and> fl_verify F (np_vp params) (fl_ivc_proof F n') = Inr ()"
proof -
  obtain n' where n': "fl_prove_step F n e = Inr n'" "fl_verify F (np_vp params) (fl_ivc_proof F n') = Inr ()"
    using F step unfolding folding_ok_def by blast
  then have "withdraw_nova_step H DEPTH (fl_state F n) e = Some (fl_state F n')"
    using F unfolding folding_ok_def by blast
  with n' step(1) show ?thesis
    by auto
qed

lemma cli_prover_ok:
  assumes files: "nova_at (cl_withdraw_global L) (cw_files W) dir ''withdraw_global'' ng dg"
      "groth16_at (cl_groth16 L) (cw_files W) dir ''withdraw_global'' gg"
    and ok: "proofs_ok H L gg ng dg" and url: "cw_parse_url W (ca_decider_prover_url common) = Some url"
    and decider: "\<And>b p. engine_produce (engine_context (cl_withdraw_global L) ng dg) b = Inr p \<Longrightarrow> cw_decider W url WithdrawGlobal b = Inr p"
  shows "withdraw_prover_ok H (cli_prover L W common dir) (fl_state (ns_folding (cl_withdraw_global L)))"
proof -
  let ?F = "ns_folding (cl_withdraw_global L)"
  have loads: "load_withdraw_params ?F (cw_files W) dir GLOBAL_TRANSFER_TREE_HEIGHT = Inr ng"
    "load_single_withdraw_params (gs_lib (cl_groth16 L)) (cw_files W) dir GLOBAL_TRANSFER_TREE_HEIGHT = Inr gg"
    using withdraw_params_load [OF files(1)] single_params_load [OF files(2)] by simp_all
  have F: "folding_ok H GLOBAL_TRANSFER_TREE_HEIGHT ?F ng" and G: "groth16_ok H GLOBAL_TRANSFER_TREE_HEIGHT (gs_lib (cl_groth16 L)) gg"
    using ok by (simp_all add: proofs_ok_def Let_def)
  have verify: "wp_verify (cli_prover L W common dir) n = Inr () \<longleftrightarrow> fl_verify ?F (np_vp ng) (fl_ivc_proof ?F n) = Inr ()" for n
    by (simp add: cli_prover_def Let_def loads nova_verify_def res_bind_Inr_iff)
  have init: "wp_init (cli_prover L W common dir) z = Inr n \<longleftrightarrow> fl_init ?F (np_pp ng) (np_vp ng) z = Inr n" for z n
    using F by (simp add: cli_prover_def Let_def loads initial_nova_def folding_ok_def)
  have step: "wp_prove_step (cli_prover L W common dir) = fl_prove_step ?F"
    by (simp add: cli_prover_def Let_def)
  have "\<exists>p. wp_decider (cli_prover L W common dir) n = Inr p" if n: "fl_verify ?F (np_vp ng) (fl_ivc_proof ?F n) = Inr ()" for n
  proof -
    obtain bs where bs: "fl_ivc_serialize ?F (fl_ivc_proof ?F n) = Inr bs"
      using F unfolding folding_ok_def by blast
    then obtain p where "engine_produce (engine_context (cl_withdraw_global L) ng dg) bs = Inr p"
      using engine_completes [OF ok n] by blast
    then show ?thesis
      using decider bs by (simp add: cli_prover_def Let_def build_decider_client_def url)
  qed
  moreover have "\<exists>p. wp_groth16 (cli_prover L W common dir) c pub = Inr p"
    if "single_generate_constraints H GLOBAL_TRANSFER_TREE_HEIGHT c = Inr ()" "single_public_inputs c = Inr pub" for c pub
    using groth16_proves [OF G that(2)] that(1) by (auto simp: cli_prover_def Let_def loads)
  moreover have "\<exists>n. fl_init ?F (np_pp ng) (np_vp ng) z = Inr n \<and> fl_state ?F n = z \<and> fl_verify ?F (np_vp ng) (fl_ivc_proof ?F n) = Inr ()"
    if "length z = WITHDRAW_STATE_LEN" for z
    using F that unfolding folding_ok_def by blast
  moreover have "\<exists>n'. fl_prove_step ?F n e = Inr n' \<and> fl_state ?F n' = z \<and> fl_verify ?F (np_vp ng) (fl_ivc_proof ?F n') = Inr ()"
    if "withdraw_nova_step H GLOBAL_TRANSFER_TREE_HEIGHT (fl_state ?F n) e = Some z" "fl_verify ?F (np_vp ng) (fl_ivc_proof ?F n) = Inr ()" for n e z
    using folding_steps [OF F that] .
  ultimately show ?thesis
    unfolding withdraw_prover_ok_def verify init step by blast
qed

section \<open>Redeeming an invoice\<close>

lemma find_token_chain: "find_token_by_chain tokens c = Inr t \<Longrightarrow> te_chain_id t = c"
proof -
  assume "find_token_by_chain tokens c = Inr t"
  then have "filter (\<lambda>t. te_chain_id t = c) tokens = [t]"
    by (auto simp: find_token_by_chain_def split: list.splits)
  then have "t \<in> set (filter (\<lambda>t. te_chain_id t = c) tokens)"
    by simp
  then show ?thesis
    by simp
qed

lemma decider_main_engine:
  assumes "decider_main L fs root denv create_pool = Inr prog" "dn_artifacts_dir denv = None" "take 1 root = ''/''"
  shows "\<exists>enable. prover_engine_load L fs (path_join root ''nova_artifacts'') enable = Inr (dm_engine prog)"
proof -
  obtain config where cfg: "load_config root denv = Inr config"
    and load: "prover_engine_load L fs (ac_artifacts_dir config) (ac_enable_withdraw_local config) = Inr (dm_engine prog)"
    using assms(1) by (auto simp: decider_main_def res_bind_Inr_iff)
  have "take 1 (path_join root ''nova_artifacts'') = ''/''"
    using assms(3) by (cases root) (simp_all add: path_join_def)
  then have "ac_artifacts_dir config = path_join root ''nova_artifacts''"
    using cfg assms(2) by (auto simp: load_config_def Let_def res_bind_Inr_iff default_artifacts_dir_def unwrap_or_def split: if_splits)
  with load show ?thesis
    by auto
qed

lemma engine_global:
  "prover_engine_load L fs dir enable = Inr E \<Longrightarrow> circuit_context_load (cl_withdraw_global L) fs ''withdraw_global'' dir = Inr cc
     \<Longrightarrow> pe_withdraw_global E = cc"
  by (auto simp: prover_engine_load_def res_bind_Inr_iff split: if_splits)


section \<open>An instance\<close>

text \<open>Proof systems in the clear, for every circuit a folding scheme along its step function.\<close>

definition clear_system ::
  "(fr list \<Rightarrow> 'e \<Rightarrow> fr list option) \<Rightarrow> (unit, unit, fr list, fr list, 'e, unit, unit, unit) nova_system" where
  "clear_system step = \<lparr>
     ns_folding = \<lparr>fl_circuit_new = Inr (), fl_preprocess = Inr ((), ()), fl_state_len = 4,
       fl_pp_deserialize = (\<lambda>_. Inr ()), fl_vp_deserialize = (\<lambda>_. Inr ()), fl_pp_serialize = (\<lambda>_. Inr []), fl_vp_serialize = (\<lambda>_. Inr []),
       fl_init = (\<lambda>_ _ z. Inr z), fl_from_ivc_proof = (\<lambda>z _ _. Inr z),
       fl_prove_step = (\<lambda>z e. case step z e of None \<Rightarrow> Inl ''unsatisfied'' | Some z' \<Rightarrow> Inr z'),
       fl_state = id, fl_ivc_proof = id, fl_verify = (\<lambda>_ _. Inr ()), fl_ivc_serialize = (\<lambda>z. Inr (enc_list z))\<rparr>,
     ns_decider = \<lparr>dl_preprocess = (\<lambda>_ _ _. Inr ((), ())), dl_pp_deserialize = (\<lambda>_. Inr ()), dl_vp_deserialize = (\<lambda>_. Inr ()),
       dl_pp_serialize = (\<lambda>_. Inr []), dl_vp_serialize = (\<lambda>_. Inr []), dl_prove = (\<lambda>_ _. Inr ()), dl_verify = (\<lambda>_ _ _. Inr True),
       dl_nova_eth = (\<lambda>z. \<lparr>ne_i = [], ne_z_0 = [], ne_z_i = enc_list z, ne_U_cmW = [], ne_U_cmE = [], ne_u_cmW = []\<rparr>),
       dl_proof_eth = (\<lambda>_. \<lparr>de_cmT = [], de_r = [], de_snark_proof = [], de_kzg_challenges = [], de_eval_W = [], de_eval_E = [],
         de_kzg_proof_W = [], de_kzg_proof_E = []\<rparr>)\<rparr>,
     ns_ivc_deserialize = (\<lambda>bs. Inr (fst (dec_list bs))),
     ns_decider_template = (\<lambda>_ _. ascii_bytes ''contract NovaDecider {}'')\<rparr>"

definition clear_groth16_system :: "(fr \<Rightarrow> fr \<Rightarrow> fr) \<Rightarrow> (nat, nat, single_withdraw_circuit) groth16_system" where
  "clear_groth16_system H = \<lparr>
     gs_lib = (clear_groth16 H)\<lparr>gl_setup := (\<lambda>c _. Inr (length (sw_siblings c), length (sw_siblings c))),
       gl_pk_serialize := (\<lambda>k. Inr (replicate k 0)), gl_vk_serialize := (\<lambda>k. Inr (replicate k 0)),
       gl_pk_deserialize := (\<lambda>bs. Inr (length bs)), gl_vk_deserialize := (\<lambda>bs. Inr (length bs))\<rparr>,
     gs_render = (\<lambda>_. ascii_bytes ''contract Groth16Verifier {}'')\<rparr>"

definition clear_libs ::
  "(fr \<Rightarrow> fr \<Rightarrow> fr) \<Rightarrow> (unit, unit, fr list, fr list, unit, unit, unit, nat, nat, single_withdraw_circuit) circuit_libs" where
  "clear_libs H = \<lparr>cl_groth16 = clear_groth16_system H, cl_root = clear_system (root_step H const_sha),
     cl_withdraw_local = clear_system (withdraw_nova_step H TRANSFER_TREE_HEIGHT),
     cl_withdraw_global = clear_system (withdraw_nova_step H GLOBAL_TRANSFER_TREE_HEIGHT)\<rparr>"

lemma clear_libs_ok: "circuit_libs_ok (clear_libs H)"
  by (auto simp: circuit_libs_ok_def clear_libs_def nova_system_ok_def groth16_system_ok_def clear_system_def clear_groth16_system_def)

lemma clear_drawn: "drawn (clear_system step) \<lparr>np_pp = (), np_vp = ()\<rparr> \<lparr>dp_pp = (), dp_vp = ()\<rparr>"
  by (simp add: drawn_def clear_system_def nova_rand_def decider_rand_def nova_state_len_def)

lemma clear_rand:
  "groth16_rand (gs_lib (clear_groth16_system H)) r (single_withdraw_new n) = Inr \<lparr>gp_vk = n, gp_pk = n\<rparr>"
  by (simp add: clear_groth16_system_def groth16_rand_def single_withdraw_new_def)

lemma clear_setup_ok: "nova_setup_ok (clear_system step)" "groth16_setup_ok (clear_groth16_system H) n"
proof -
  have "is_ok (nova_to_bytes (ns_folding (clear_system step)) nova)" "is_ok (decider_to_bytes (ns_decider (clear_system step)) dec)" for nova dec
    by (simp_all add: nova_to_bytes_def decider_to_bytes_def clear_system_def)
  then show "nova_setup_ok (clear_system step)"
    using clear_drawn [of step] by (auto simp: nova_setup_ok_def)
  have "is_ok (groth16_to_bytes (gs_lib (clear_groth16_system H)) params)" "valid_utf8 (map unat (gs_render (clear_groth16_system H) vk))" for params vk
    by (simp_all add: groth16_to_bytes_def clear_groth16_system_def ascii_bytes_def)
  then show "groth16_setup_ok (clear_groth16_system H) n"
    by (simp add: groth16_setup_ok_def clear_rand)
qed

lemma clear_generator_runs:
  "\<exists>fs'. generate_circuit_artifacts (clear_libs H) sample_disk (Some ''/zerc20'') Map.empty = (Inr (), fs')"
  by (rule generator_succeeds) (simp_all add: clear_libs_def clear_setup_ok disk_ok_def sample_disk_def)

lemma clear_proofs_ok:
  assumes "gp_pk gg = GLOBAL_TRANSFER_TREE_HEIGHT"
  shows "proofs_ok H (clear_libs H) gg ng dg"
proof -
  have "folding_ok H GLOBAL_TRANSFER_TREE_HEIGHT (ns_folding (clear_system (withdraw_nova_step H GLOBAL_TRANSFER_TREE_HEIGHT))) ng"
    by (auto simp: folding_ok_def clear_system_def split: option.splits)
  moreover have "groth16_ok H GLOBAL_TRANSFER_TREE_HEIGHT (gs_lib (clear_groth16_system H)) gg"
    using clear_groth16_ok [OF assms, of H] by (simp add: groth16_ok_def clear_groth16_system_def)
  ultimately show ?thesis
    using dec_enc_list [of _ "[]"] by (simp add: proofs_ok_def Let_def clear_libs_def) (simp add: clear_system_def)
qed

definition sample_common :: common_args where
  "sample_common = \<lparr>ca_tokens_file_path = ''tokens.json'', ca_private_key = ''key'', ca_indexer_url = ''http://indexer'',
     ca_decider_prover_url = ''http://decider'', ca_ic_replica_url = [], ca_key_manager_canister_id = [], ca_storage_canister_id = [],
     ca_indexer_fetch_limit = 100, ca_event_block_span = 5, ca_nova_artifacts_dir = Some ''/zerc20/nova_artifacts''\<rparr>"

definition sample_hub_entry :: hub_entry where
  "sample_hub_entry = \<lparr>he_hub_address = 4, he_chain_id = 9, he_rpc_urls = [''rpc'']\<rparr>"

definition sample_receive_args :: invoice_receive_args where
  "sample_receive_args = \<lparr>ra_chain_id = 2, ra_invoice_id = sample_invoice\<rparr>"

text \<open>The world of the redeeming example before, with files and the engine of a decider.\<close>

definition sample_world ::
  "app_state \<Rightarrow> indexer_db \<Rightarrow> files \<Rightarrow> ('i, 'n) prover_engine \<Rightarrow> (string, bytes, unit) cli_world" where
  "sample_world s idb fs engine = \<lparr>
     cw_read_to_string = (\<lambda>_. Some []), cw_json = (\<lambda>_. Some \<lparr>tf_hub = Some sample_hub_entry, tf_tokens = cross_tokens\<rparr>),
     cw_unhex = (\<lambda>_. Some (replicate 32 1)), cw_parse_url = Some, cw_rpc_parses = (\<lambda>_. True), cw_files = fs,
     cw_signatures = sample_sg, cw_wallet = sample_wallet,
     cw_erc20 = (\<lambda>t. if te_chain_id t = 1 then (\<lambda>_. Inr 15) else (\<lambda>_. Inr 0)), cw_verifier = (\<lambda>_. cross_verifier), cw_hub = (\<lambda>_. cross_hub),
     cw_indexer = (\<lambda>_. http_indexer_client two_hash s idb),
     cw_decider = (\<lambda>_ k b. Proving.map_error (\<lambda>_. ''failed'') (Decider.generate_decider_proof engine k b)),
     cw_submit = (\<lambda>_ _ _. Inr ()), cw_rng = 3, cw_num_dummy_steps = 3,
     cw_address_order = rev, cw_proof_order = rev, cw_secret_order = rev\<rparr>"

lemma sample_cli_load:
  "cli_load (sample_world s idb fs engine) sample_common
     = Inr (cross_tokens, Some sample_hub_entry, Field.u256_from_be_slice (replicate 32 1))"
proof -
  have "trim_ascii ''z'' = ''z''"
    by (intro trim_ascii_id) (simp add: is_space_def)
  then show ?thesis
    by (simp add: cli_load_def sample_world_def load_tokens_config_def tokens_file_normalize_def hub_normalize_def sample_hub_entry_def
        cross_tokens_def sample_token_def token_normalize_def parse_private_key_def ensure_def)
qed

lemma sample_invoice_setup:
  "\<exists>seed addr. invoice_setup (sample_world s idb fs engine) sample_common sample_receive_args cross_tokens (Some sample_hub_entry) key
     = Inr (sample_hub_entry, home_token, seed, addr, http_indexer_client two_hash s idb)"
  by (simp add: invoice_setup_def cli_provider_def provider_urls_ok_def sample_world_def sample_hub_entry_def sample_receive_args_def
      find_token_by_chain_def cross_tokens_def sample_token_def home_token_def compute_seed_from_signature_def signing_key_from_b256_def
      get_address_from_private_key_def sample_wallet_def or_panic_def command_step_def build_indexer_client_def)

lemma sample_command_env_ok:
  assumes ready: "\<forall>t \<in> set cross_tokens.
      indexer_ready two_hash const_sha tall_config s idb t (cross_log (te_chain_id t)) (length (cross_log (te_chain_id t)))"
    and agg: "fetch_aggregation_tree_state two_hash 5 cross_verifier cross_hub = Inr agg"
      "at_chain_ids agg = [1, 2]" "at_tree_root_indices agg = [3, 0]"
  shows "redeem_env_ok two_hash const_sha tall_config s idb cross_log
      (command_env L (sample_world s idb fs engine) sample_common cross_tokens sample_hub_entry (http_indexer_client two_hash s idb) home_token key dir)
      home_token agg"
  using cross_env_ok(1) [OF ready agg]
  by (simp add: redeem_env_ok_def command_env_def sample_world_def sample_common_def cross_env_def)
    (simp add: cross_tokens_def sample_token_def)


end
