(* ===== verification/Program_Props.thy ===== *)
theory Program_Props
  imports Indexer_Program
begin

text \<open>
  The indexer program as a whole: from its environment to proved roots on the chain, and the
  rhythm of the endless loop of the root prover job.
\<close>

section \<open>Nodes that serve a log\<close>

definition log_of :: "indexed_event \<Rightarrow> indexed_transfer_log" where
  "log_of e = \<lparr>il_index = word_of_nat (ev_index e), il_from = ev_from e, il_to = ev_to e, il_value = ev_amount e,
     il_block = Some (ev_block e)\<rparr>"

text \<open>A call to the verifier is accepted at every gas price, and its transaction is mined with these logs.\<close>

definition mined ::
  "('w, 'tx) provider \<Rightarrow> ('tx \<Rightarrow> 'w \<Rightarrow> (string + 'l tx_receipt) \<times> 'w) \<Rightarrow> b256 \<Rightarrow> token_entry \<Rightarrow> verifier_call \<Rightarrow> 'w \<Rightarrow> ('l list \<Rightarrow> bool) \<Rightarrow> bool" where
  "mined pv get_receipt key t f w P \<longleftrightarrow> pv_valid_key pv key \<and> (te_legacy_tx t \<longrightarrow> (\<exists>g. pv_gas_price pv w = Inr g))
     \<and> (\<forall>gas. \<exists>tx w' receipt w''.
          pv_send pv key \<lparr>tq_to = te_verifier_address t, tq_call = VerifierCall f, tq_value = 0, tq_gas_price = gas\<rparr> w = (Inr tx, w')
          \<and> get_receipt tx w' = (Inr receipt, w'') \<and> tr_status receipt \<and> P (tr_logs receipt))"

text \<open>
  The token contract of \<open>t\<close> is at the end of \<open>log\<close>, its verifier has proved \<open>p\<close> transfers,
  reserves the chain of the log and takes proofs.
\<close>

definition chain_serves ::
  "('w, 'tx, 'l, 'pp, 'vp, 'n, 'i, 'url) indexer_env \<Rightarrow> (bytes \<Rightarrow> bytes) \<Rightarrow> b256 \<Rightarrow> indexed_event list \<Rightarrow> nat \<Rightarrow> nat \<Rightarrow> token_entry \<Rightarrow> bool" where
  "chain_serves E sha key log latest p t \<longleftrightarrow>
     (let pv = ie_providers E (te_rpc_urls t); s = ie_states E t; n = length log in
      pv_block_number pv (cs_event s) = Inr latest
      \<and> pv_call pv (te_token_address t) (TokenCall Zindex) (cs_event s) = Inr (U256Value (word_of_nat n))
      \<and> (\<forall>a b. pv_indexed_transfers pv (te_token_address t) a b (cs_event s)
           = Inr (map log_of (filter (\<lambda>e. a \<le> ev_block e \<and> ev_block e \<le> b) log)))
      \<and> pv_call pv (te_token_address t) (TokenCall Zindex) (cs_index s) = Inr (U256Value (word_of_nat n))
      \<and> pv_call pv (te_verifier_address t) (VerifierCall VlatestProvedIndex) (cs_proved s) = Inr (U64Value (word_of_nat p))
      \<and> mined pv (ie_receipt E) key t VreserveHashChain (cs_reserve s)
           (\<lambda>logs. parse_hash_chain_reserved (ie_decode_reserved E) logs = Inr (word_of_nat n, chain_of sha (map transfer_of log)))
      \<and> (\<forall>bs. mined pv (ie_receipt E) key t (VproveTransferRoot bs) (cs_prove s) (\<lambda>_. True)))"

lemma unat_word64: "n < 2 ^ 63 \<Longrightarrow> unat (word_of_nat n :: u64) = n"
  by (simp add: unat_word_of_nat)

lemma unat_word256: "n < 2 ^ 63 \<Longrightarrow> unat (word_of_nat n :: u256) = n"
  by (simp add: unat_word_of_nat)

lemma token_index_serves:
  assumes "pv_call pv (te_token_address t) (TokenCall Zindex) w = Inr (U256Value (word_of_nat n))" "n < 2 ^ 63"
  shows "\<exists>i. token_index pv (token_client t) w = Inr i \<and> unat i = n"
  using assms
  by (simp add: token_index_def call_view_def token_client_def with_legacy_tx_def contract_new_def ok_or_def
      unat_uint256_as_u64 unat_word256)

lemma event_of_log: "ev_index e < 2 ^ 63 \<Longrightarrow>
  \<lparr>ev_index = unat (uint256_as_u64 (il_index (log_of e))), ev_from = il_from (log_of e), ev_to = il_to (log_of e),
   ev_amount = il_value (log_of e), ev_block = unwrap_or (il_block (log_of e)) 0\<rparr> = e"
  by (cases e) (simp add: log_of_def unat_uint256_as_u64 unat_word256 unwrap_or_def)

lemma transfer_events_serve:
  assumes "\<forall>a b. pv_indexed_transfers pv (te_token_address t) a b w = Inr (map log_of (filter (Q a b) log))"
    and "\<forall>e \<in> set log. ev_index e < 2 ^ 63"
  shows "get_indexed_transfer_events pv (token_client t) a b w = Inr (filter (Q a b) log)"
proof -
  have "map (\<lambda>e. \<lparr>ev_index = unat (uint256_as_u64 (il_index (log_of e))), ev_from = il_from (log_of e), ev_to = il_to (log_of e),
      ev_amount = il_value (log_of e), ev_block = unwrap_or (il_block (log_of e)) 0\<rparr>) (filter (Q a b) log) = filter (Q a b) log"
    using assms(2) event_of_log by (intro map_idI) simp
  then show ?thesis
    using assms(1) by (simp add: get_indexed_transfer_events_def token_client_def with_legacy_tx_def contract_new_def comp_def)
qed

text \<open>A call to the verifier that is mined goes through the client.\<close>

lemma send_mined:
  assumes "mined pv get_receipt key t f w P"
  obtains tx w1 receipt w2 where "send_signed pv (verifier_of t) key (VerifierCall f) 0 w = (Inr tx, w1)"
    and "root_wait_for_receipt get_receipt tx w1 = (Inr receipt, w2)" "P (tr_logs receipt)"
proof -
  obtain gas where "te_legacy_tx t \<longrightarrow> pv_gas_price pv w = Inr gas"
    using assms by (auto simp: mined_def)
  moreover obtain tx w1 receipt w2 where
    "pv_send pv key \<lparr>tq_to = te_verifier_address t, tq_call = VerifierCall f, tq_value = 0,
       tq_gas_price = if te_legacy_tx t then Some gas else None\<rparr> w = (Inr tx, w1)"
    "get_receipt tx w1 = (Inr receipt, w2)" "tr_status receipt" "P (tr_logs receipt)"
    using assms unfolding mined_def by blast
  ultimately show ?thesis
    using assms
    by (intro that [of tx w1 receipt w2])
       (auto simp: mined_def send_signed_def send_call_with_legacy_def verifier_of_def with_legacy_tx_def contract_new_def
          root_wait_for_receipt_def split: if_splits)
qed

lemma chain_serves_events:
  assumes "chain_serves E sha key log latest p t" "chain_ok log deployed latest"
  defines "c \<equiv> contract_chain (ie_providers E (te_rpc_urls t)) (token_client t) (cs_event (ie_states E t))"
  shows "tc_latest_block c = Inr latest" "tc_index c = Inr (length log)" "node_answers (tc_get_events c) log"
proof -
  have n: "length log < 2 ^ 63" "\<forall>e \<in> set log. ev_index e < 2 ^ 63"
  proof -
    show len: "length log < 2 ^ 63"
      using assms(2) by (simp add: chain_ok_def)
    have "ev_index ` set log = {0..<length log}"
      using assms(2) by (metis chain_ok_def list.set_map set_upt)
    then show "\<forall>e \<in> set log. ev_index e < 2 ^ 63"
      using len by (metis atLeastLessThan_iff image_eqI order_less_trans)
  qed
  show "tc_latest_block c = Inr latest"
    using assms(1) by (simp add: chain_serves_def Let_def c_def contract_chain_def latest_block_def)
  show "tc_index c = Inr (length log)"
    using assms(1) token_index_serves [OF _ n(1)] by (fastforce simp: chain_serves_def Let_def c_def contract_chain_def)
  show "node_answers (tc_get_events c) log"
  proof -
    have "\<forall>a b. pv_indexed_transfers (ie_providers E (te_rpc_urls t)) (te_token_address t) a b (cs_event (ie_states E t))
        = Inr (map log_of (filter (\<lambda>e. a \<le> ev_block e \<and> ev_block e \<le> b) log))"
      using assms(1) by (simp add: chain_serves_def Let_def)
    from transfer_events_serve [OF this n(2)] show ?thesis
      by (simp add: c_def contract_chain_def node_answers_def)
  qed
qed

lemma chain_serves_root:
  assumes "chain_serves E sha key log latest p t" "length log < 2 ^ 63" "p \<le> length log" and prover: "\<forall>bs. \<exists>d. prover bs = Inr d"
  defines "c \<equiv> contract_root_calls (ie_providers E (te_rpc_urls t)) (ie_receipt E) (ie_decode_reserved E) prover key t (ie_states E t)"
  shows "rc_index c = Inr (length log)" "rc_latest_proved c = Inr p" "calls_answer c"
    "rc_reserve c = Inr (length log, chain_of sha (map transfer_of log))"
proof -
  let ?pv = "ie_providers E (te_rpc_urls t)" and ?s = "ie_states E t"
  have serves: "pv_call ?pv (te_token_address t) (TokenCall Zindex) (cs_index ?s) = Inr (U256Value (word_of_nat (length log)))"
      "pv_call ?pv (te_verifier_address t) (VerifierCall VlatestProvedIndex) (cs_proved ?s) = Inr (U64Value (word_of_nat p))"
    and reserved: "mined ?pv (ie_receipt E) key t VreserveHashChain (cs_reserve ?s)
      (\<lambda>logs. parse_hash_chain_reserved (ie_decode_reserved E) logs = Inr (word_of_nat (length log), chain_of sha (map transfer_of log)))"
    and proved: "\<forall>bs. mined ?pv (ie_receipt E) key t (VproveTransferRoot bs) (cs_prove ?s) (\<lambda>_. True)"
    using assms(1) by (simp_all add: chain_serves_def Let_def)
  show "rc_index c = Inr (length log)"
    using token_index_serves [OF serves(1) assms(2)] by (auto simp: c_def contract_root_calls_def)
  show "rc_latest_proved c = Inr p"
    using serves(2) assms(2,3)
    by (simp add: c_def contract_root_calls_def latest_proved_index_def call_view_def verifier_of_def with_legacy_tx_def
        contract_new_def ok_or_def unat_word64)
  obtain tx w1 receipt w2 where reserve: "send_signed ?pv (verifier_of t) key (VerifierCall VreserveHashChain) 0 (cs_reserve ?s) = (Inr tx, w1)"
    "root_wait_for_receipt (ie_receipt E) tx w1 = (Inr receipt, w2)"
    "parse_hash_chain_reserved (ie_decode_reserved E) (tr_logs receipt) = Inr (word_of_nat (length log), chain_of sha (map transfer_of log))"
    by (rule send_mined [OF reserved])
  then show "rc_reserve c = Inr (length log, chain_of sha (map transfer_of log))"
    using assms(2) by (simp add: c_def contract_root_calls_def job_reserve_hash_chain_def reserve_hash_chain_def unat_word64)
  have "rc_prove_root c bs = Inr () \<and> rc_prove_receipt c bs = Inr ()" for bs
  proof -
    obtain tx w1 receipt w2 where "send_signed ?pv (verifier_of t) key (VerifierCall (VproveTransferRoot bs)) 0 (cs_prove ?s) = (Inr tx, w1)"
      "root_wait_for_receipt (ie_receipt E) tx w1 = (Inr receipt, w2)"
      by (rule send_mined [OF proved [THEN spec, of bs]])
    then show ?thesis
      by (simp add: c_def contract_root_calls_def submit_transfer_root_def prove_transfer_root_def map_error_def)
  qed
  then show "calls_answer c"
    using prover by (simp add: calls_answer_def c_def contract_root_calls_def)
qed

section \<open>From the environment to proved roots\<close>

text \<open>The settings load, the database and the artefacts are there and all addresses parse.\<close>

definition program_starts ::
  "('w, 'tx, 'l, 'pp, 'vp, 'n, 'i, 'url) indexer_env \<Rightarrow> indexer_cli \<Rightarrow> 'url indexer_settings \<Rightarrow> ('pp, 'vp) nova_params \<Rightarrow> decider_client \<Rightarrow> bool" where
  "program_starts E cli cfg params prover \<longleftrightarrow>
     indexer_config_load (ie_json E) (ie_unhex E) (ie_parse_url E) (ie_workspace E) (ie_vars E) (ie_read_text E (ic_tokens cli)) = Inr cfg
     \<and> ie_connect E (is_database_url cfg) (ic_max_connections cli)
     \<and> (\<forall>t \<in> set (is_tokens cfg). list_all (ie_rpc_parses E) (te_rpc_urls t))
     \<and> load_root_nova_params (ie_folding E) (ie_read E) (rs_artifacts_dir (is_root cfg)) = Inr params
     \<and> ie_http_client E (rs_prover_url (is_root cfg)) (rs_prover_poll_interval_ms (is_root cfg))
          (1000 * rs_prover_timeout_secs (is_root cfg)) = Inr prover
     \<and> (\<forall>bs. \<exists>d. prover bs = Inr d)"

text \<open>
  The tokens differ, and the chain of every token is served, with a log that the circuits can
  hold and of which the verifier has proved a beginning.
\<close>

definition chains_served ::
  "('w, 'tx, 'l, 'pp, 'vp, 'n, 'i, 'url) indexer_env \<Rightarrow> (bytes \<Rightarrow> bytes) \<Rightarrow> 'url indexer_settings \<Rightarrow> (token_entry \<Rightarrow> indexed_event list)
     \<Rightarrow> (token_entry \<Rightarrow> nat) \<Rightarrow> (token_entry \<Rightarrow> nat) \<Rightarrow> bool" where
  "chains_served E sha cfg logs latest proved \<longleftrightarrow> tokens_ok (is_tokens cfg)
     \<and> (\<forall>t \<in> set (is_tokens cfg). chain_ok (logs t) (te_deployed_block t) (latest t) \<and> log_fits (logs t)
          \<and> chain_serves E sha (rs_submitter_private_key (is_root cfg)) (logs t) (latest t) (proved t) t
          \<and> proved t \<le> length (logs t) \<and> proved t + rs_history_window (is_root cfg) < 2 ^ 64)"

text \<open>In addition the windows fit each other, as the defaults do, and reach back to what is proved.\<close>

definition chains_ready ::
  "('w, 'tx, 'l, 'pp, 'vp, 'n, 'i, 'url) indexer_env \<Rightarrow> (bytes \<Rightarrow> bytes) \<Rightarrow> 'url indexer_settings \<Rightarrow> (token_entry \<Rightarrow> indexed_event list)
     \<Rightarrow> (token_entry \<Rightarrow> nat) \<Rightarrow> (token_entry \<Rightarrow> nat) \<Rightarrow> bool" where
  "chains_ready E sha cfg logs latest proved \<longleftrightarrow> chains_served E sha cfg logs latest proved
     \<and> ej_forward_scan_overlap (is_event_indexer cfg) < ej_block_span (is_event_indexer cfg)
     \<and> rs_history_window (is_root cfg) \<le> tj_history_window (is_tree cfg)
     \<and> (\<forall>t \<in> set (is_tokens cfg). length (logs t) \<le> proved t + rs_history_window (is_root cfg))"

lemma program_worlds:
  assumes start: "program_starts E cli cfg params prover" and ready: "chains_ready E sha cfg logs latest proved"
    and ecfg: "build_indexer_config (is_event_indexer cfg) = Inr ecfg"
  shows "event_world (\<lambda>t. contract_chain (ie_providers E (te_rpc_urls t)) (token_client t) (cs_event (ie_states E t)))
      logs latest ecfg (is_tokens cfg)"
    and "tree_world logs latest (is_tree cfg) (is_tokens cfg)"
    and "root_world sha \<lparr>rj_history_window = rs_history_window (is_root cfg), rj_submit_enabled = True\<rparr> (is_tree cfg)
      (\<lambda>t. contract_root_calls (ie_providers E (te_rpc_urls t)) (ie_receipt E) (ie_decode_reserved E) prover
             (rs_submitter_private_key (is_root cfg)) t (ie_states E t)) logs proved (is_tokens cfg)"
proof -
  have loaded: "indexer_config_load (ie_json E) (ie_unhex E) (ie_parse_url E) (ie_workspace E) (ie_vars E)
      (ie_read_text E (ic_tokens cli)) = Inr cfg"
    and prover: "\<forall>bs. \<exists>d. prover bs = Inr d"
    using start by (simp_all add: program_starts_def)
  note cfg = loaded_config_ok [OF loaded]
  have height: "tj_height (is_tree cfg) = TRANSFER_TREE_HEIGHT" "tree_config_ensure_valid (is_tree cfg) = Inr ()"
    using cfg by auto
  have span: "block_span ecfg = ej_block_span (is_event_indexer cfg)" "0 < block_span ecfg"
    "forward_scan_overlap ecfg = ej_forward_scan_overlap (is_event_indexer cfg)"
    using ecfg by (auto simp: build_indexer_config_def event_config_new_def split: sum.splits if_splits)
  have token: "chain_ok (logs t) (te_deployed_block t) (latest t)" "log_fits (logs t)"
      "chain_serves E sha (rs_submitter_private_key (is_root cfg)) (logs t) (latest t) (proved t) t"
      "proved t \<le> length (logs t)" "length (logs t) < 2 ^ 40" if "t \<in> set (is_tokens cfg)" for t
    using ready that by (simp_all add: chains_ready_def chains_served_def log_fits_def)
  show "event_world (\<lambda>t. contract_chain (ie_providers E (te_rpc_urls t)) (token_client t) (cs_event (ie_states E t)))
      logs latest ecfg (is_tokens cfg)"
    using ready span token(1) chain_serves_events [OF token(3) token(1)] by (simp add: event_world_def chains_ready_def chains_served_def)
  have fits: "length (logs t) \<le> min (2 ^ tj_height (is_tree cfg)) (2 ^ 63 - 1)" if "t \<in> set (is_tokens cfg)" for t
    using token(5) [OF that] by (simp add: height TRANSFER_TREE_HEIGHT_def)
  show "tree_world logs latest (is_tree cfg) (is_tokens cfg)"
    using ready token(1) fits height by (simp add: tree_world_def chains_ready_def chains_served_def tree_config_ok_def TRANSFER_TREE_HEIGHT_def)
  have "length (logs t) < 2 ^ 63" if "t \<in> set (is_tokens cfg)" for t
    using token(5) [OF that] by simp
  note root = chain_serves_root [OF token(3) this token(4) prover]
  show "root_world sha \<lparr>rj_history_window = rs_history_window (is_root cfg), rj_submit_enabled = True\<rparr> (is_tree cfg)
      (\<lambda>t. contract_root_calls (ie_providers E (te_rpc_urls t)) (ie_receipt E) (ie_decode_reserved E) prover
             (rs_submitter_private_key (is_root cfg)) t (ie_states E t)) logs proved (is_tokens cfg)"
    using ready root token height(1) by (simp add: root_world_def chains_ready_def chains_served_def submission_ready_def window_ok_def)
qed

lemma program_runs_once:
  assumes start: "program_starts E cli cfg params prover" and "ic_once cli"
    and ecfg: "build_indexer_config (is_event_indexer cfg) = Inr ecfg"
  shows "indexer_main E H sha hasher jt cli w = Inr (RanOnce (main_once (root_nova (ie_folding E) (ie_ivc_deserialize E) params)
      (\<lambda>t. contract_chain (ie_providers E (te_rpc_urls t)) (token_client t) (cs_event (ie_states E t)))
      (\<lambda>t. contract_root_calls (ie_providers E (te_rpc_urls t)) (ie_receipt E) (ie_decode_reserved E) prover
             (rs_submitter_private_key (is_root cfg)) t (ie_states E t))
      ecfg (is_tree cfg) \<lparr>rj_history_window = rs_history_window (is_root cfg), rj_submit_enabled = True\<rparr> H sha hasher jt
      (is_tokens cfg) (run_sync (ie_is_sync E)) w))"
proof -
  have loaded: "indexer_config_load (ie_json E) (ie_unhex E) (ie_parse_url E) (ie_workspace E) (ie_vars E)
      (ie_read_text E (ic_tokens cli)) = Inr cfg"
    using start by (simp add: program_starts_def)
  note cfg = loaded_config_ok [OF loaded]
  have rpc: "rpc_ok (ie_rpc_parses E) (is_tokens cfg)"
    using start cfg by (auto simp: rpc_ok_def program_starts_def token_valid_def)
  obtain event_job where ej: "event_into_job (ie_rpc_parses E) hasher (is_event_indexer cfg) (is_tokens cfg) = Inr event_job"
      "sj_indexer_config event_job = ecfg"
    using event_into_job_ok [OF rpc ecfg] by blast
  obtain tree_job window where tj: "tree_into_job hasher (is_tree cfg) (is_tokens cfg) = Inr tree_job" "ti_config tree_job = is_tree cfg"
      "build_tree_config (is_tree cfg) = Inr window"
    using tree_into_job_ok cfg by blast
  obtain root_job where rj: "root_into_job (ie_rpc_parses E) hasher (ie_folding E) (ie_read E) (ie_http_client E)
        (root_builder_new (is_root cfg) (is_tokens cfg)) = Inr root_job"
      "map rt_token (rpj_tokens root_job) = is_tokens cfg" "rpj_nova_params root_job = params" "rpj_prover root_job = prover"
      "rpj_submitter_private_key root_job = rs_submitter_private_key (is_root cfg)"
      "rpj_config root_job = \<lparr>rj_history_window = rs_history_window (is_root cfg), rj_submit_enabled = True\<rparr>"
    using root_into_job_ok [OF rpc] start unfolding program_starts_def by blast
  show ?thesis
    unfolding indexer_main_def using loaded start assms(2) ej tj rj by (simp add: program_starts_def)
qed

text \<open>
  \<^bold>\<open>C2\<close>. The whole program with \<open>--once\<close> and \<open>IS_SYNC=true\<close> (in any case), from its variables and
  files to the chain. Suppose the settings load, the database and the decider answer, the
  artefacts hold parameters of a complete folding scheme, the tables are as an earlier run
  left them, and the nodes serve the logs of the token contracts (different tokens, fewer than
  \<open>2 ^ 40\<close> transfers each, amounts below \<open>2 ^ 248\<close>) and mine the transactions that the submitter
  signs. Suppose further that the configured scan overlap is below the block span, that the
  history window of the root job is at most that of the tree, and that no verifier is more
  than the history window of the root job behind its token. Then the program builds its jobs,
  ends without an error and leaves, for every configured token, a prover whose base is the end
  of the log; where the verifier was behind, a proof was mined of the transition from the root
  state it had to the root state of the whole log. The tables are ready for the next run.
  Beyond the window the job refuses the token (\<open>history_window_exhausted\<close>), and with a larger
  overlap the scan of the synchroniser does not return.
\<close>

theorem indexer_program_proves_roots:
  assumes "program_starts E cli cfg params prover" "ic_once cli" "run_sync (ie_is_sync E)"
    and "nova_ok H sha (root_nova (ie_folding E) (ie_ivc_deserialize E) params) origin" "digest32 sha"
    and "chains_served E sha cfg logs latest proved"
    and "ej_forward_scan_overlap (is_event_indexer cfg) < ej_block_span (is_event_indexer cfg)"
    and "rs_history_window (is_root cfg) \<le> tj_history_window (is_tree cfg)"
    and "\<forall>t \<in> set (is_tokens cfg). length (logs t) \<le> proved t + rs_history_window (is_root cfg)"
    and "indexer_inv H sha (is_tree cfg) logs (is_tokens cfg) idb"
    and "roots_inv H sha (root_nova (ie_folding E) (ie_ivc_deserialize E) params) origin logs (is_tokens cfg) idb db"
  shows "\<exists>idb' db'. indexer_main E H sha hasher jt cli (idb, db) = Inr (RanOnce (Some (idb', db')))
    \<and> indexer_inv H sha (is_tree cfg) logs (is_tokens cfg) idb'
    \<and> roots_inv H sha (root_nova (ie_folding E) (ie_ivc_deserialize E) params) origin logs (is_tokens cfg) idb' db'
    \<and> (\<forall>t \<in> set (is_tokens cfg). \<exists>tid. token_id_of idb' t = Some tid
         \<and> token_proved H sha (root_nova (ie_folding E) (ie_ivc_deserialize E) params) origin tid (map transfer_of (logs t)) (proved t) db')"
proof -
  obtain ecfg where ecfg: "build_indexer_config (is_event_indexer cfg) = Inr ecfg"
    using assms(1) loaded_config_ok unfolding program_starts_def by blast
  have ready: "chains_ready E sha cfg logs latest proved"
    using assms(6-9) by (simp add: chains_ready_def)
  show ?thesis
    using main_once_ok [OF assms(4,5) program_worlds [OF assms(1) ready ecfg] assms(10,11), of hasher jt]
      program_runs_once [OF assms(1,2) ecfg, of H sha hasher jt] assms(3) by simp
qed

text \<open>A folding scheme in the clear, and the node of the sample token with its first transfer proved.\<close>

definition clear_folding :: "(fr \<Rightarrow> fr \<Rightarrow> fr) \<Rightarrow> (bytes \<Rightarrow> bytes)
     \<Rightarrow> (unit, unit, fr list \<times> fr list, fr list \<times> fr list, root_external_inputs) folding_lib" where
  "clear_folding H sha = \<lparr>
     fl_circuit_new = Inr (), fl_preprocess = Inr ((), ()), fl_state_len = ROOT_STATE_LEN,
     fl_pp_deserialize = (\<lambda>_. Inr ()), fl_vp_deserialize = (\<lambda>_. Inr ()), fl_pp_serialize = (\<lambda>_. Inr []), fl_vp_serialize = (\<lambda>_. Inr []),
     fl_init = (\<lambda>_ _ z. Inr (z, z)), fl_from_ivc_proof = (\<lambda>i _ _. Inr i),
     fl_prove_step = nv_prove_step (clear_nova H sha), fl_state = snd, fl_ivc_proof = (\<lambda>n. n), fl_verify = (\<lambda>_ _. Inr ()),
     fl_ivc_serialize = nv_serialize (clear_nova H sha)\<rparr>"

lemma root_nova_clear: "root_nova (clear_folding H sha) (nv_deserialize (clear_nova H sha)) params = clear_nova H sha"
  by (simp add: root_nova_def clear_folding_def clear_nova_def initial_nova_def nova_verify_def nova_from_ivc_proof_def)

definition sample_node_provider :: "(unit, unit) provider" where
  "sample_node_provider = \<lparr>
     pv_valid_key = (\<lambda>_. True),
     pv_call = (\<lambda>a f w. case f of TokenCall Zindex \<Rightarrow> Inr (U256Value 3) | VerifierCall VlatestProvedIndex \<Rightarrow> Inr (U64Value 1) | _ \<Rightarrow> Inl ''unknown''),
     pv_gas_price = (\<lambda>_. Inr 3), pv_send = (\<lambda>_ _ w. (Inr (), w)), pv_block_number = (\<lambda>_. Inr 20),
     pv_indexed_transfers = (\<lambda>_ a b _. Inr (map log_of (filter (\<lambda>e. a \<le> ev_block e \<and> ev_block e \<le> b) sample_log))),
     pv_teleports = (\<lambda>_ _ _ _. Inr []), pv_aggregations = (\<lambda>_ _ _ _. Inr [])\<rparr>"

definition sample_program :: "(unit, unit, unit, unit, unit, fr list \<times> fr list, fr list \<times> fr list, string) indexer_env" where
  "sample_program = \<lparr>
     ie_vars = sample_env, ie_is_sync = Some ''TRUE'', ie_workspace = ''/w'', ie_read_text = (\<lambda>_. Some []), ie_read = (\<lambda>_. Some []),
     ie_json = (\<lambda>_. Some \<lparr>tf_hub = None, tf_tokens = [sample_token 1]\<rparr>), ie_unhex = (\<lambda>_. Some (replicate 32 1)),
     ie_parse_url = Some, ie_rpc_parses = (\<lambda>_. True), ie_connect = (\<lambda>_ _. True), ie_http_client = (\<lambda>_ _ _. Inr Inr),
     ie_folding = clear_folding toy_hash const_sha, ie_ivc_deserialize = nv_deserialize (clear_nova toy_hash const_sha),
     ie_providers = (\<lambda>_. sample_node_provider), ie_receipt = (\<lambda>_ w. (Inr \<lparr>tr_status = True, tr_logs = [()]\<rparr>, w)),
     ie_decode_reserved = (\<lambda>_. Some (3, chain_of const_sha (map transfer_of sample_log))),
     ie_states = (\<lambda>_. \<lparr>cs_event = (), cs_index = (), cs_proved = (), cs_reserve = (), cs_prove = ()\<rparr>)\<rparr>"

definition sample_indexer_cli :: indexer_cli where
  "sample_indexer_cli = \<lparr>ic_tokens = ''tokens.json'', ic_max_connections = 10, ic_once = True, ic_listen_addr = ''127.0.0.1:8080''\<rparr>"

lemma sample_program_loads:
  "\<exists>cfg. program_starts sample_program sample_indexer_cli cfg \<lparr>np_pp = (), np_vp = ()\<rparr> Inr \<and> is_tokens cfg = [sample_token 1]
     \<and> ej_forward_scan_overlap (is_event_indexer cfg) < ej_block_span (is_event_indexer cfg)
     \<and> tj_history_window (is_tree cfg) = 50 \<and> rs_history_window (is_root cfg) = 50"
proof -
  have "trim_ascii ''z'' = ''z''"
    by (intro trim_ascii_id) (simp add: is_space_def)
  then show ?thesis
    by (simp add: program_starts_def sample_program_def sample_token_def
        indexer_config_load_def env_from_env_def sample_env_def load_tokens_def tokens_file_normalize_def
        token_normalize_def event_config_ensure_valid_def event_config_new_def tree_config_ensure_valid_def db_config_new_def
        root_config_new_def parse_hex_b256_def sample_key_string unwrap_or_def ensure_def Let_def TRANSFER_TREE_HEIGHT_def
        DEFAULT_EVENT_INTERVAL_MS_def DEFAULT_TREE_INTERVAL_MS_def DEFAULT_TREE_BATCH_SIZE_def DEFAULT_ROOT_INTERVAL_MS_def
        DEFAULT_ROOT_SUBMIT_INTERVAL_MS_def DEFAULT_DECIDER_PROVER_POLL_INTERVAL_MS_def BLOCK_SPAN_RECOMMENDED_def
        FORWARD_SCAN_OVERLAP_RECOMMENDED_def load_root_nova_params_def nova_from_bytes_def clear_folding_def ok_or_def)
qed

lemma sample_chain_serves: "chain_serves sample_program const_sha key sample_log 20 1 (sample_token 1)"
  by (simp add: chain_serves_def sample_program_def sample_node_provider_def mined_def sample_token_def sample_length Let_def
      parse_hash_chain_reserved_def)

lemma run_sync_TRUE: "run_sync (Some ''TRUE'')"
  by code_simp

theorem indexer_program_proves_roots_witness:
  "\<exists>idb' db' tid. indexer_main sample_program toy_hash const_sha (\<lambda>_. 0) \<lparr>jt_event = (5, 1), jt_tree = (6, 2), jt_root = (7, 3)\<rparr>
        sample_indexer_cli (empty_indexer, empty_root_db) = Inr (RanOnce (Some (idb', db')))
    \<and> token_id_of idb' (sample_token 1) = Some tid
    \<and> token_proved toy_hash const_sha (clear_nova toy_hash const_sha) fst tid [(2, 5), (2, 5), (2, 5)] 1 db'"
proof -
  obtain cfg where cfg: "program_starts sample_program sample_indexer_cli cfg \<lparr>np_pp = (), np_vp = ()\<rparr> Inr"
      "is_tokens cfg = [sample_token 1]" "ej_forward_scan_overlap (is_event_indexer cfg) < ej_block_span (is_event_indexer cfg)"
      "tj_history_window (is_tree cfg) = 50" "rs_history_window (is_root cfg) = 50"
    using sample_program_loads by blast
  have ready: "chains_served sample_program const_sha cfg (\<lambda>_. sample_log) (\<lambda>_. 20) (\<lambda>_. 1)"
    using cfg(2-5) sample_chain(1) sample_chain_serves
    by (simp add: chains_served_def tokens_ok_def sample_token_def log_fits_def sample_log_def sample_event_def)
  have windows: "rs_history_window (is_root cfg) \<le> tj_history_window (is_tree cfg)"
      "\<forall>t \<in> set (is_tokens cfg). length sample_log \<le> 1 + rs_history_window (is_root cfg)"
    using cfg(4,5) by (simp_all add: sample_log_def)
  have sync: "run_sync (ie_is_sync sample_program)"
    by (simp add: sample_program_def run_sync_TRUE)
  have nova: "root_nova (ie_folding sample_program) (ie_ivc_deserialize sample_program) \<lparr>np_pp = (), np_vp = ()\<rparr> = clear_nova toy_hash const_sha"
    by (simp add: sample_program_def root_nova_clear)
  have roots: "roots_inv toy_hash const_sha (clear_nova toy_hash const_sha) fst (\<lambda>_. sample_log) (is_tokens cfg) empty_indexer empty_root_db"
    by (simp add: roots_inv_def root_inv_def empty_root_db_def)
  have "ic_once sample_indexer_cli"
    by (simp add: sample_indexer_cli_def)
  from indexer_program_proves_roots [OF cfg(1) this sync _ digest32_const_sha ready cfg(3) windows indexer_inv_empty, of toy_hash fst empty_root_db
      "\<lambda>_. 0" "\<lparr>jt_event = (5, 1), jt_tree = (6, 2), jt_root = (7, 3)\<rparr>"]
  show ?thesis
    using roots clear_nova_ok [of toy_hash const_sha] unfolding nova cfg(2)
    by (simp add: sample_log_def sample_event_def transfer_of_def) blast
qed

end
