(* ===== verification/Indexer_Service.thy ===== *)
theory Indexer_Service
  imports Indexer_Main
begin

text \<open>
  The indexer in its serving mode: the rounds of the three jobs repeat in any order
  (\<open>run_forever\<close> of \<open>indexer/src/jobs\<close>), the chains grow between them and calls fail.
  A round over all tokens is one step. The invariant of all reachable states is the one from
  which a later round against answering nodes recovers.
\<close>

section \<open>Growing logs\<close>

definition grows :: "token_entry list \<Rightarrow> (token_entry \<Rightarrow> indexed_event list) \<Rightarrow> (token_entry \<Rightarrow> indexed_event list) \<Rightarrow> bool" where
  "grows tokens logs logs' \<longleftrightarrow> (\<forall>t \<in> set tokens. \<exists>new. logs' t = logs t @ new)"

lemma chain_ok_prefix_index:
  assumes "chain_ok (log @ new) d l" "e \<in> set new"
  shows "length log \<le> ev_index e"
proof -
  have idx: "map ev_index (log @ new) = [0..<length (log @ new)]"
    using assms(1) by (simp add: chain_ok_def)
  have "map ev_index new = drop (length log) (map ev_index (log @ new))"
    by simp
  also have "\<dots> = [length log..<length log + length new]"
    unfolding idx by (simp add: drop_upt)
  finally have "ev_index e \<in> set [length log..<length log + length new]"
    using assms(2) by (metis list.set_map imageI)
  then show ?thesis
    by simp
qed

lemma events_inv_grow:
  assumes inv: "events_inv log edb" and chain: "chain_ok (log @ new) d l"
  shows "events_inv (log @ new) edb"
proof -
  have "state_ok (log @ new) (event_rows edb) st" if st: "state_ok log (event_rows edb) st" for st
  proof -
    have "row_of e \<in> set (event_rows edb)" if e: "e \<in> set (log @ new)" "int (ev_index e) \<le> contiguous_index st" for e
    proof -
      have "e \<notin> set new"
        using chain_ok_prefix_index [OF chain, of e] e(2) st by (auto simp: state_ok_def)
      then show ?thesis
        using e st by (simp add: state_ok_def)
    qed
    moreover have "nat (contiguous_index st) < length log" if "contiguous_index st \<noteq> - 1"
      using st that by (auto simp: state_ok_def)
    ultimately show ?thesis
      using st by (auto simp: state_ok_def nth_append)
  qed
  then show ?thesis
    using inv by (auto simp: events_inv_def rows_of_log_def split: option.splits)
qed

lemma tables_inv_grow:
  assumes inv: "tables_inv H sha cfg logs tokens idb" and grow: "grows tokens logs logs'"
    and chain: "\<forall>t \<in> set tokens. chain_ok (logs' t) (te_deployed_block t) (latest t)"
  shows "tables_inv H sha cfg logs' tokens idb"
proof -
  have "token_inv H sha cfg (logs' t) tid idb" if t: "t \<in> set tokens" "token_id_of idb t = Some tid" for t tid
  proof -
    obtain new where new: "logs' t = logs t @ new"
      using grow t(1) by (auto simp: grows_def)
    have old: "events_inv (logs t) (idb_events idb tid)"
      and tree: "\<exists>n \<le> covered_count (idb_events idb tid). tree_holds H sha cfg tid (idb_merkle idb) (take n (logs t))"
      using inv t by (auto simp: tables_inv_def token_inv_def)
    have "take n (logs' t) = take n (logs t)" if "n \<le> covered_count (idb_events idb tid)" for n
      using that covered_count_le [OF old] by (simp add: new)
    then show ?thesis
      using tree events_inv_grow [OF old, of new] chain t(1) unfolding token_inv_def by (metis new)
  qed
  then show ?thesis
    using inv by (simp add: tables_inv_def)
qed

lemma ivc_row_ok_grow:
  assumes "ivc_row_ok H sha N origin ts b k row" "b \<le> length ts" "k \<le> length ts"
  shows "ivc_row_ok H sha N origin (ts @ new) b k row"
  using assms by (simp add: ivc_row_ok_def)

lemma prover_inv_grow:
  assumes "prover_inv H sha N origin tid ts st db"
  shows "prover_inv H sha N origin tid (ts @ new) st db"
proof -
  have b: "ps_base st \<le> length ts"
    using assms by (simp add: prover_inv_def)
  have "ivc_rows_ok H sha N origin tid (ts @ new) (ps_base st) db"
    using assms b by (fastforce simp: prover_inv_def ivc_rows_ok_def ivc_row_ok_def)
  moreover have "pending_ok sha (ts @ new) (ps_pending_index st) (ps_pending_chain st)"
    using assms by (auto simp: prover_inv_def pending_ok_def)
  ultimately show ?thesis
    using assms by (simp add: prover_inv_def)
qed

lemma roots_inv_grow:
  assumes "roots_inv H sha N origin logs tokens idb db" "grows tokens logs logs'"
  shows "roots_inv H sha N origin logs' tokens idb db"
proof -
  have "root_inv H sha N origin tid (map transfer_of (logs' t)) db"
    if t: "t \<in> set tokens" "root_inv H sha N origin tid (map transfer_of (logs t)) db" for t tid
  proof -
    obtain new where "logs' t = logs t @ new"
      using assms(2) t(1) by (auto simp: grows_def)
    then show ?thesis
      using t(2) prover_inv_grow [where new = "map transfer_of new"] unfolding root_inv_def by (metis map_append)
  qed
  then show ?thesis
    using assms(1) by (simp add: roots_inv_def)
qed

section \<open>Rounds of the event job against failing nodes\<close>

text \<open>
  Whatever the nodes answer about the latest block and the index, and whichever calls fail:
  the events they return are events of the log.
\<close>

definition events_honest :: "(token_entry \<Rightarrow> token_chain) \<Rightarrow> (token_entry \<Rightarrow> indexed_event list) \<Rightarrow> (token_entry \<Rightarrow> nat) \<Rightarrow> token_entry list \<Rightarrow> bool" where
  "events_honest chain logs latest tokens \<longleftrightarrow> tokens_ok tokens
     \<and> (\<forall>t \<in> set tokens. chain_ok (logs t) (te_deployed_block t) (latest t) \<and> node_honest (tc_get_events (chain t)) (logs t))"

lemma covered_count_stored: "events_inv log edb \<Longrightarrow> int (covered_count edb) = stored_index edb + 1"
  using covered_count_state [of log edb]
  by (cases "indexer_state edb") (simp_all add: stored_index_def covered_count_def contiguous_event_index_def)

lemma sync_token_keeps:
  assumes world: "events_honest chain logs latest tokens" and t: "t \<in> set tokens"
    and inv: "tables_inv H sha cfg logs tokens db" and run: "sync_token chain ecfg t db = Some (r, db')"
  shows "idb_leases db' = idb_leases db \<and> tables_inv H sha cfg logs tokens db' \<and> ids_follow db db'"
proof -
  have tok: "tokens_ok tokens" and reg: "registry_ok db"
    using world inv by (simp_all add: events_honest_def tables_inv_def)
  obtain tid db1 where new: "event_indexer_new (te_metadata t) db = (Inr tid, db1)" and r: "registers t tid db db1"
    using event_indexer_new_ok [OF reg, of t] tok t by (auto simp: tokens_ok_def)
  have inv1: "tables_inv H sha cfg logs tokens db1" and id1: "token_id_of db1 t = Some tid"
    using tables_inv_registered [OF tok t inv r] r by (simp_all add: registers_def)
  then have ev1: "events_inv (logs t) (idb_events db1 tid)"
    using t by (simp add: tables_inv_def token_inv_def)
  obtain err edb where sync: "event_sync (tc_get_events (chain t)) (tc_latest_block (chain t)) (tc_index (chain t)) ecfg
        (te_deployed_block t) (idb_events db1 tid) = Some (err, edb)"
    and db': "db' = db1\<lparr>idb_events := (idb_events db1)(tid := edb)\<rparr>"
    using run new by (auto simp: sync_token_def split: option.splits)
  have "chain_ok (logs t) (te_deployed_block t) (latest t)" "node_honest (tc_get_events (chain t)) (logs t)"
    using world t by (simp_all add: events_honest_def)
  from event_sync_keeps [OF this ev1 sync] have ev: "events_inv (logs t) edb" "stored_index (idb_events db1 tid) \<le> stored_index edb"
    by (auto simp: inv_with_state_def stored_index_def)
  have "covered_count (idb_events db1 tid) \<le> covered_count edb"
    using covered_count_stored [OF ev1] covered_count_stored [OF ev(1)] ev(2) by simp
  then show ?thesis
    using tables_inv_set_events [OF tok t inv1 id1 ev(1)] registers_follow [OF r] r by (simp add: db' registers_def)
qed

text \<open>A job that keeps an invariant for every token keeps it in a round.\<close>

locale keeping_job =
  fixes process :: "token_entry \<Rightarrow> indexer_db \<Rightarrow> job_result option"
    and tokens :: "token_entry list"
    and inv :: "indexer_db \<Rightarrow> bool"
  assumes process_keeps: "t \<in> set tokens \<Longrightarrow> inv db \<Longrightarrow> process t db = Some (r, db') \<Longrightarrow> inv db'"
begin

lemma run_once_keeps: "set ts \<subseteq> set tokens \<Longrightarrow> inv db \<Longrightarrow> run_once process ts db = Some db' \<Longrightarrow> inv db'"
proof (induction ts arbitrary: db)
  case (Cons t ts)
  then show ?case
    using process_keeps [of t db] by (auto split: option.splits prod.splits)
qed simp

end

lemma with_lease_keeps:
  assumes "idb_leases db = Map.empty" "with_lease now holder key work db = Some (r, db')"
    and work: "\<And>ls r' db1. work (db\<lparr>idb_leases := ls\<rparr>) = Some (r', db1) \<Longrightarrow> idb_leases db1 = ls \<and> P (db1\<lparr>idb_leases := Map.empty\<rparr>)"
  shows "idb_leases db' = Map.empty \<and> P db'"
proof -
  let ?ls = "[key \<mapsto> \<lparr>lr_holder = holder, lr_expires_at = now + LEASE_TTL\<rparr>]"
  obtain r' db1 where "work (db\<lparr>idb_leases := ?ls\<rparr>) = Some (r', db1)"
      "db' = db1\<lparr>idb_leases := snd (release_lease holder key (idb_leases db1))\<rparr>"
    using assms(1,2) by (auto simp: with_lease_def try_acquire_lock_def Let_def split: option.splits)
  then show ?thesis
    using work by (auto simp: release_lease_def)
qed

interpretation event_rounds: keeping_job "event_process_token hasher chain now holder ecfg" tokens
  "\<lambda>db. events_honest chain logs latest tokens \<and> indexer_inv H sha cfg logs tokens db \<and> ids_follow db0 db"
  for hasher chain now holder ecfg tokens logs latest H sha cfg db0
proof
  fix t db r db'
  assume t: "t \<in> set tokens"
    and inv: "events_honest chain logs latest tokens \<and> indexer_inv H sha cfg logs tokens db \<and> ids_follow db0 db"
    and run: "event_process_token hasher chain now holder ecfg t db = Some (r, db')"
  have "idb_leases db1 = ls \<and> tables_inv H sha cfg logs tokens (db1\<lparr>idb_leases := Map.empty\<rparr>)
      \<and> ids_follow db (db1\<lparr>idb_leases := Map.empty\<rparr>)"
    if "sync_token chain ecfg t (db\<lparr>idb_leases := ls\<rparr>) = Some (r', db1)" for ls r' db1
    using sync_token_keeps [OF _ t _ that, of logs latest H sha cfg] inv by (simp add: indexer_inv_def)
  from with_lease_keeps [OF _ run [unfolded event_process_token_def], where P = "\<lambda>db'. tables_inv H sha cfg logs tokens db' \<and> ids_follow db db'", OF _ this]
  show "events_honest chain logs latest tokens \<and> indexer_inv H sha cfg logs tokens db' \<and> ids_follow db0 db'"
    using inv ids_follow_trans [of db0 db] by (simp add: indexer_inv_def)
qed

lemma event_round_keeps:
  assumes "events_honest chain logs latest tokens" "indexer_inv H sha cfg logs tokens idb"
    and "event_run_once hasher chain now holder ecfg tokens idb = Some idb'"
  shows "indexer_inv H sha cfg logs tokens idb' \<and> ids_follow idb idb'"
  using event_rounds.run_once_keeps [OF subset_refl _ assms(3) [unfolded event_run_once_def], of logs latest H sha cfg idb] assms(1,2)
  by simp

lemma tree_round_keeps:
  assumes "tree_world logs latest cfg tokens" "indexer_inv H sha cfg logs tokens idb"
  shows "\<exists>idb'. tree_run_once H sha hasher now holder cfg tokens idb = Some idb' \<and> indexer_inv H sha cfg logs tokens idb' \<and> ids_follow idb idb'"
  using tree_job.run_once_ok [of logs latest cfg tokens H sha idb "\<lambda>_. False" idb hasher now holder] assms
  by (auto simp: tree_run_once_def)

section \<open>Rounds of the root job against failing contracts\<close>

text \<open>
  What the contracts say is true, and any call may fail: the index, the proved index and the
  reservation; the decider and the submission are not restricted.
\<close>

definition calls_honest :: "(bytes \<Rightarrow> bytes) \<Rightarrow> root_calls \<Rightarrow> indexed_event list \<Rightarrow> bool" where
  "calls_honest sha calls log \<longleftrightarrow>
     (\<forall>i. rc_index calls = Inr i \<longrightarrow> i = length log) \<and> (\<forall>p. rc_latest_proved calls = Inr p \<longrightarrow> p \<le> length log)
     \<and> (\<forall>i c. rc_reserve calls = Inr (i, c) \<longrightarrow> i \<le> length log \<and> c = chain_of sha (take i (map transfer_of log)))"

text \<open>A proof that was handed over for submission attests a transition of the log.\<close>

definition sent_ok ::
  "(fr \<Rightarrow> fr \<Rightarrow> fr) \<Rightarrow> (bytes \<Rightarrow> bytes) \<Rightarrow> ('n, 'i) nova_ops \<Rightarrow> ('n \<Rightarrow> fr list) \<Rightarrow> transfer list \<Rightarrow> bytes \<times> bytes \<times> bool \<Rightarrow> bool" where
  "sent_ok H sha N origin ts x \<longleftrightarrow> (\<exists>b k. b < k \<and> k \<le> length ts
     \<and> attests N origin (fst x) (root_state H sha (take b ts)) (root_state H sha (take k ts)))"

lemma obtain_reservation_keeps:
  assumes inv: "prover_inv H sha N origin tid ts st db" and n: "length ts < 2 ^ 63"
    and res: "\<And>i c. rc_reserve calls = Inr (i, c) \<Longrightarrow> i \<le> length ts \<and> c = chain_of sha (take i ts)"
    and run: "obtain_reservation calls tid target st db = (r, db')"
  shows "\<exists>st'. prover_inv H sha N origin tid ts st' db'"
proof (cases "rc_reserve calls")
  case (Inl e)
  then have "db' = db"
    using run by (auto simp: obtain_reservation_def split: if_splits option.splits)
  then show ?thesis
    using inv by blast
next
  case (Inr x)
  obtain i c where x: "x = (i, c)"
    by fastforce
  then have "rc_reserve calls = Inr (i, chain_of sha (take i ts))" "i \<le> length ts"
    using Inr res [of i c] by auto
  then show ?thesis
    using obtain_reservation_ok [OF inv n, of calls i target] run by auto
qed

lemma submit_keeps:
  assumes inv: "prover_inv H sha N origin tid ts st db" and n: "length ts < 2 ^ 63"
    and res: "\<And>i c. rc_reserve calls = Inr (i, c) \<Longrightarrow> i \<le> length ts \<and> c = chain_of sha (take i ts)"
    and run: "submit_if_ready N calls enabled tid st contract_index db = (r, db')"
  shows "\<exists>st'. prover_inv H sha N origin tid ts st' db'"
proof -
  obtain ro db1 where ro: "obtain_reservation calls tid (ps_compiled st) st db = (ro, db1)"
    by fastforce
  obtain st1 where st1: "prover_inv H sha N origin tid ts st1 db1"
    using obtain_reservation_keeps [OF inv n res ro] by blast
  have k: "ps_compiled st \<le> length ts"
    using inv by (simp add: prover_inv_def)
  consider "db' = db" | "db' = db1" | s where "db' = db1\<lparr>rd_sent := s\<rparr>"
    | s where "finish_submission tid (ps_compiled st) (db1\<lparr>rd_sent := s\<rparr>) = (r, db')"
    using run ro by (auto simp: submit_if_ready_def Let_def split: if_splits sum.splits prod.splits)
  then show ?thesis
  proof cases
    case (3 s)
    then show ?thesis
      using st1 by (auto simp: prover_inv_def ivc_rows_ok_def)
  next
    case (4 s)
    then show ?thesis
      using finish_submission_ok [OF k n, of tid "db1\<lparr>rd_sent := s\<rparr>" H sha N origin] by auto
  qed (use inv st1 in blast)+
qed

text \<open>The circumstances of a round that do not depend on the contracts.\<close>

definition round_ready ::
  "(fr \<Rightarrow> fr \<Rightarrow> fr) \<Rightarrow> (bytes \<Rightarrow> bytes) \<Rightarrow> root_job_config \<Rightarrow> tree_job_config \<Rightarrow> token_entry \<Rightarrow> int \<Rightarrow> indexer_db \<Rightarrow> indexed_event list \<Rightarrow> nat \<Rightarrow> bool" where
  "round_ready H sha cfg tcfg t tid idb log n \<longleftrightarrow>
     te_chain_id t < 2 ^ 63 \<and> tree_config_ok tcfg \<and> tj_height tcfg = TRANSFER_TREE_HEIGHT
     \<and> token_id_of idb t = Some tid \<and> 0 < tid \<and> log_fits log \<and> cycle_events log (idb_events idb tid) n \<and> n \<le> length log
     \<and> tree_holds H sha tcfg tid (idb_merkle idb) (take n log)
     \<and> rj_history_window cfg \<le> tj_history_window tcfg \<and> rj_history_window cfg + 2 ^ 40 \<le> 2 ^ 64"

text \<open>What a round does for a registered token once its calls are answered.\<close>

definition round_body ::
  "('n, 'i) nova_ops \<Rightarrow> root_calls \<Rightarrow> root_job_config \<Rightarrow> (fr \<Rightarrow> fr \<Rightarrow> fr) \<Rightarrow> tree_job_config \<Rightarrow> int \<Rightarrow> indexer_db \<Rightarrow> bool \<Rightarrow> bool
     \<Rightarrow> nat \<Rightarrow> nat \<Rightarrow> root_db \<Rightarrow> (root_error + unit) \<times> root_db" where
  "round_body N calls cfg H tcfg tid idb do_compile do_submit current p db =
     (case ensure_state_alignment db tid p of
        (Inl e, db1) \<Rightarrow> (Inl e, db1)
      | (Inr state, db1) \<Rightarrow>
          (case (if do_compile
                 then sync_ivc_proofs N tid (job_tree H tcfg tid) (idb_merkle idb) (event_rows (idb_events idb tid)) state current db1
                 else (Inr state, db1)) of
             (Inl e, db2) \<Rightarrow> (Inl e, db2)
           | (Inr state2, db2) \<Rightarrow>
               if do_submit then
                 (case submit_if_ready N calls (rj_submit_enabled cfg) tid state2 current db2 of
                    (Inl e, db3) \<Rightarrow> (Inl e, db3)
                  | (Inr _, db3) \<Rightarrow> (Inr (), db3))
               else (Inr (), db2)))"

lemma process_token_registered:
  assumes "te_chain_id t < 2 ^ 63" "tree_config_ok tcfg" "token_id_of idb t = Some tid" "0 < tid"
  shows "process_token_inner N calls cfg H tcfg t idb do_compile do_submit db =
     (if \<not> do_compile \<and> \<not> do_submit then (Inr (), db)
      else case lift_call (rc_index calls) of Inl e \<Rightarrow> (Inl e, db) | Inr current \<Rightarrow>
       (case (if rj_submit_enabled cfg then lift_call (rc_latest_proved calls) else Inr 0) of Inl e \<Rightarrow> (Inl e, db) | Inr p \<Rightarrow>
          if (p + rj_history_window cfg) mod 2 ^ 64 < current then (Inl (RootError ''history window exhausted''), db)
          else round_body N calls cfg H tcfg tid idb do_compile do_submit current p db))"
proof -
  obtain row where row: "find_token (idb_tokens idb) (address_bytes (te_token_address t)) (int (te_chain_id t)) = Some row"
      "tk_id row = tid"
    using assms(3) by (auto simp: token_id_of_def)
  have tree: "lift_tree (tree_for_token H tcfg tid) = Inr (job_tree H tcfg tid)"
    using tree_config_okD(3) [OF assms(2,4), of H] by (simp add: lift_tree_def)
  show ?thesis
    unfolding process_token_inner_def round_body_def u64_to_i64_small [OF assms(1)] sum.case row option.case Let_def tree by (rule refl)
qed

lemma round_body_keeps:
  assumes nova: "nova_ok H sha N origin" and sha: "digest32 sha" and ready: "round_ready H sha cfg tcfg t tid idb log n"
    and calls: "calls_honest sha calls log" and inv: "root_inv H sha N origin tid (map transfer_of log) db"
    and p: "p \<le> length log" "length log \<le> p + rj_history_window cfg"
    and run: "round_body N calls cfg H tcfg tid idb do_compile do_submit (length log) p db = (r, db')"
  shows "root_inv H sha N origin tid (map transfer_of log) db'
    \<and> (\<forall>x \<in> set (rd_sent db'). x \<in> set (rd_sent db) \<or> sent_ok H sha N origin (map transfer_of log) x)"
proof -
  let ?ts = "map transfer_of log" and ?t = "job_tree H tcfg tid" and ?edb = "idb_events idb tid"
  note rd = ready [unfolded round_ready_def]
  have n40: "length ?ts < 2 ^ 40" and n63: "length ?ts < 2 ^ 63"
    using rd by (simp_all add: log_fits_def)
  have tree: "cycle_tree H sha ?t (idb_merkle idb) ?ts n"
    using rd tree_config_okD(2) [of tcfg H tid]
    by (auto simp: cycle_tree_def log_fits_def tree_holds_def transfer_of_def take_map)
  obtain st0 db0 where al: "ensure_state_alignment db tid p = (Inr st0, db0)" "prover_inv H sha N origin tid ?ts st0 db0"
      "ps_base st0 = p" "rd_sent db0 = rd_sent db"
    using ensure_state_alignment_ok [OF inv _ n63, of p] p(1) by auto
  have win: "n \<le> Suc (ps_compiled st0) + dt_window ?t"
    using rd al(2,3) p(2) by (simp add: prover_inv_def)
  obtain st1 db1 where st1: "(if do_compile then sync_ivc_proofs N tid ?t (idb_merkle idb) (event_rows ?edb) st0 (length log) db0
        else (Inr st0, db0)) = (Inr st1, db1)" "prover_inv H sha N origin tid ?ts st1 db1" "rd_sent db1 = rd_sent db"
    using sync_ivc_proofs_ok [OF nova sha tree _ al(2) win, of ?edb "length log"] rd al by (cases do_compile) auto
  show ?thesis
  proof (cases do_submit)
    case False
    then show ?thesis
      using run al(1) st1 by (auto simp: round_body_def root_inv_def)
  next
    case True
    obtain r3 db3 where sub: "submit_if_ready N calls (rj_submit_enabled cfg) tid st1 (length log) db1 = (r3, db3)"
      by fastforce
    then have "db' = db3"
      using run al(1) st1(1) True by (auto simp: round_body_def split: sum.splits)
    moreover have "root_inv H sha N origin tid ?ts db3"
      using submit_keeps [OF st1(2) n63 _ sub] calls by (auto simp: calls_honest_def root_inv_def)
    moreover have "x \<in> set (rd_sent db) \<or> sent_ok H sha N origin ?ts x" if "x \<in> set (rd_sent db3)" for x
      using submit_safe [OF nova sha n40 st1(2) sub] that st1(2,3) by (auto simp: sent_ok_def prover_inv_def)
    ultimately show ?thesis
      by blast
  qed
qed

lemma process_token_keeps:
  assumes nova: "nova_ok H sha N origin" and sha: "digest32 sha" and ready: "round_ready H sha cfg tcfg t tid idb log n"
    and calls: "calls_honest sha calls log" and inv: "root_inv H sha N origin tid (map transfer_of log) db"
    and run: "process_token_inner N calls cfg H tcfg t idb do_compile do_submit db = (r, db')"
  shows "root_inv H sha N origin tid (map transfer_of log) db'
    \<and> (\<forall>x \<in> set (rd_sent db'). x \<in> set (rd_sent db) \<or> sent_ok H sha N origin (map transfer_of log) x)"
proof -
  note rd = ready [unfolded round_ready_def]
  define latest where "latest = (if rj_submit_enabled cfg then lift_call (rc_latest_proved calls) else Inr 0)"
  have eq: "process_token_inner N calls cfg H tcfg t idb do_compile do_submit db =
     (if \<not> do_compile \<and> \<not> do_submit then (Inr (), db)
      else case lift_call (rc_index calls) of Inl e \<Rightarrow> (Inl e, db) | Inr current \<Rightarrow>
       (case latest of Inl e \<Rightarrow> (Inl e, db) | Inr p \<Rightarrow>
          if (p + rj_history_window cfg) mod 2 ^ 64 < current then (Inl (RootError ''history window exhausted''), db)
          else round_body N calls cfg H tcfg tid idb do_compile do_submit current p db))"
    unfolding latest_def by (rule process_token_registered) (use rd in blast)+
  show ?thesis
  proof (cases "db' = db")
    case False
    then obtain current p where run': "rc_index calls = Inr current" "latest = Inr p"
        "\<not> (p + rj_history_window cfg) mod 2 ^ 64 < current"
        "round_body N calls cfg H tcfg tid idb do_compile do_submit current p db = (r, db')"
      using run eq by (cases "rc_index calls"; cases latest) (auto simp: lift_call_def split: if_splits)
    have current: "current = length log"
      using run'(1) calls by (simp add: calls_honest_def)
    have p: "p \<le> length log"
      using run'(2) calls by (auto simp: latest_def lift_call_def calls_honest_def split: if_splits sum.splits)
    then have "p + rj_history_window cfg < 2 ^ 64"
      using rd by (simp add: log_fits_def)
    then have "length log \<le> p + rj_history_window cfg"
      using run'(3) current by simp
    from round_body_keeps [OF nova sha ready calls inv p this run'(4) [unfolded current]] show ?thesis .
  qed (use inv in simp)
qed

section \<open>The invariant of the service\<close>

definition service_config :: "tree_job_config \<Rightarrow> root_job_config \<Rightarrow> token_entry list \<Rightarrow> bool" where
  "service_config tcfg cfg tokens \<longleftrightarrow> tokens_ok tokens \<and> tree_config_ok tcfg \<and> tj_height tcfg = TRANSFER_TREE_HEIGHT
     \<and> rj_history_window cfg \<le> tj_history_window tcfg \<and> rj_history_window cfg + 2 ^ 40 \<le> 2 ^ 64"

definition logs_ok :: "(token_entry \<Rightarrow> indexed_event list) \<Rightarrow> (token_entry \<Rightarrow> nat) \<Rightarrow> token_entry list \<Rightarrow> bool" where
  "logs_ok logs latest tokens \<longleftrightarrow> (\<forall>t \<in> set tokens. chain_ok (logs t) (te_deployed_block t) (latest t) \<and> log_fits (logs t))"

definition sent_inv ::
  "(fr \<Rightarrow> fr \<Rightarrow> fr) \<Rightarrow> (bytes \<Rightarrow> bytes) \<Rightarrow> ('n, 'i) nova_ops \<Rightarrow> ('n \<Rightarrow> fr list) \<Rightarrow> (token_entry \<Rightarrow> indexed_event list) \<Rightarrow> token_entry list \<Rightarrow> root_db \<Rightarrow> bool" where
  "sent_inv H sha N origin logs tokens db \<longleftrightarrow>
     (\<forall>x \<in> set (rd_sent db). \<exists>t \<in> set tokens. sent_ok H sha N origin (map transfer_of (logs t)) x)"

lemma sent_inv_grow:
  assumes "sent_inv H sha N origin logs tokens db" "grows tokens logs logs'"
  shows "sent_inv H sha N origin logs' tokens db"
proof -
  have "sent_ok H sha N origin (map transfer_of (logs' t)) x"
    if t: "t \<in> set tokens" and x: "sent_ok H sha N origin (map transfer_of (logs t)) x" for t x
  proof -
    obtain new where new: "logs' t = logs t @ new"
      using assms(2) t by (auto simp: grows_def)
    obtain b k where "b < k" "k \<le> length (logs t)" "attests N origin (fst x) (root_state H sha (take b (map transfer_of (logs t))))
        (root_state H sha (take k (map transfer_of (logs t))))"
      using x by (auto simp: sent_ok_def)
    then show ?thesis
      unfolding sent_ok_def new by (intro exI [of _ b] exI [of _ k]) simp
  qed
  then show ?thesis
    using assms(1) unfolding sent_inv_def by blast
qed

definition service_inv ::
  "(fr \<Rightarrow> fr \<Rightarrow> fr) \<Rightarrow> (bytes \<Rightarrow> bytes) \<Rightarrow> ('n, 'i) nova_ops \<Rightarrow> ('n \<Rightarrow> fr list) \<Rightarrow> tree_job_config \<Rightarrow> token_entry list
     \<Rightarrow> (token_entry \<Rightarrow> indexed_event list) \<Rightarrow> indexer_db \<Rightarrow> root_db \<Rightarrow> bool" where
  "service_inv H sha N origin tcfg tokens logs idb db \<longleftrightarrow> indexer_inv H sha tcfg logs tokens idb
     \<and> roots_inv H sha N origin logs tokens idb db \<and> sent_inv H sha N origin logs tokens db"

lemma root_process_token_lease:
  assumes "idb_leases idb = Map.empty"
    and "root_process_token N calls cfg H tcfg hasher now holder do_compile do_submit t (idb, db) = (r, idb', db')"
  shows "idb' = idb \<and> (\<exists>ls. process_token_inner N (calls t) cfg H tcfg t (idb\<lparr>idb_leases := ls\<rparr>) do_compile do_submit db = (r, db'))"
proof -
  have "idb\<lparr>idb_leases := Map.empty\<rparr> = idb"
    using assms(1) by simp
  then show ?thesis
    using assms
    by (auto simp: root_process_token_def try_acquire_lock_def release_lease_def Let_def split: prod.splits)
qed

lemma round_ready_inv:
  assumes "service_config tcfg cfg tokens" "logs_ok logs latest tokens" "indexer_inv H sha tcfg logs tokens idb"
    and t: "t \<in> set tokens" "token_id_of idb t = Some tid"
  shows "\<exists>n. round_ready H sha cfg tcfg t tid (idb\<lparr>idb_leases := ls\<rparr>) (logs t) n"
proof -
  have inv: "token_inv H sha tcfg (logs t) tid idb" and "0 < tid"
    using assms(3) t token_id_bounds(1) [OF _ t(2)] by (auto simp: indexer_inv_def tables_inv_def)
  then obtain n where n: "n \<le> covered_count (idb_events idb tid)" "tree_holds H sha tcfg tid (idb_merkle idb) (take n (logs t))"
    by (auto simp: token_inv_def)
  have ev: "events_inv (logs t) (idb_events idb tid)"
    using inv by (simp add: token_inv_def)
  have "n \<le> length (logs t)"
    using n(1) covered_count_le [OF ev] by simp
  moreover have "cycle_events (logs t) (idb_events idb tid) n"
    using assms(2) t(1) ev n(1) by (auto simp: cycle_events_def logs_ok_def)
  ultimately show ?thesis
    using assms(1,2) t n(2) \<open>0 < tid\<close>
    by (intro exI [of _ n]) (simp add: round_ready_def service_config_def tokens_ok_def logs_ok_def)
qed

lemma root_step_keeps:
  assumes nova: "nova_ok H sha N origin" and sha: "digest32 sha" and cfg: "service_config tcfg cfg tokens"
    and logs: "logs_ok logs latest tokens" and calls: "calls_honest sha calls (logs t)" and t: "t \<in> set tokens"
    and inv: "service_inv H sha N origin tcfg tokens logs idb db"
    and run: "process_token_inner N calls cfg H tcfg t (idb\<lparr>idb_leases := ls\<rparr>) do_compile do_submit db = (r, db')"
  shows "service_inv H sha N origin tcfg tokens logs idb db'"
proof (cases "token_id_of idb t")
  case None
  then have "db' = db"
    using process_only_token [OF run] by simp
  then show ?thesis
    using inv by simp
next
  case (Some tid)
  have idb: "indexer_inv H sha tcfg logs tokens idb" and roots: "roots_inv H sha N origin logs tokens idb db"
    and sent: "sent_inv H sha N origin logs tokens db"
    using inv by (simp_all add: service_inv_def)
  have reg: "registry_ok idb" and tok: "tokens_ok tokens"
    using idb cfg by (simp_all add: indexer_inv_def tables_inv_def service_config_def)
  obtain n where ready: "round_ready H sha cfg tcfg t tid (idb\<lparr>idb_leases := ls\<rparr>) (logs t) n"
    using round_ready_inv [OF cfg logs idb t Some] by blast
  have "root_inv H sha N origin tid (map transfer_of (logs t)) db"
    using roots t Some by (simp add: roots_inv_def)
  from process_token_keeps [OF nova sha ready calls this run]
  have own: "root_inv H sha N origin tid (map transfer_of (logs t)) db'"
    and new: "\<forall>x \<in> set (rd_sent db'). x \<in> set (rd_sent db) \<or> sent_ok H sha N origin (map transfer_of (logs t)) x"
    by blast+
  have only: "only_token tid db db'"
    using process_only_token [OF run] Some by auto
  have "root_inv H sha N origin tid' (map transfer_of (logs t')) db'" if t': "t' \<in> set tokens" "token_id_of idb t' = Some tid'" for t' tid'
  proof (cases "t' = t")
    case True
    then show ?thesis
      using own t' Some by simp
  next
    case False
    then show ?thesis
      unfolding prover_inv_frame(2) [OF only id_of_other [OF tok reg t Some t' False]] using roots t' by (simp add: roots_inv_def)
  qed
  moreover have "rd_state db' tid' = None" if "idb_next_id idb \<le> tid'" for tid'
    using only roots that token_id_bounds(2) [OF reg Some] by (auto simp: only_token_def roots_inv_def)
  ultimately have "roots_inv H sha N origin logs tokens idb db'"
    by (simp add: roots_inv_def)
  moreover have "sent_inv H sha N origin logs tokens db'"
    using sent new t unfolding sent_inv_def by blast
  ultimately show ?thesis
    using idb by (simp add: service_inv_def)
qed

lemma run_cycle_keeps:
  assumes nova: "nova_ok H sha N origin" and sha: "digest32 sha" and cfg: "service_config tcfg cfg tokens"
    and logs: "logs_ok logs latest tokens" and calls: "\<forall>t \<in> set tokens. calls_honest sha (calls t) (logs t)"
  shows "set ts \<subseteq> set tokens \<Longrightarrow> service_inv H sha N origin tcfg tokens logs idb db \<Longrightarrow>
    run_cycle N calls cfg H tcfg hasher now holder do_compile do_submit ts (idb, db) = Some (idb', db') \<Longrightarrow>
    idb' = idb \<and> service_inv H sha N origin tcfg tokens logs idb db'"
proof (induction ts arbitrary: db)
  case (Cons t ts)
  have free: "idb_leases idb = Map.empty"
    using Cons.prems(2) by (simp add: service_inv_def indexer_inv_def)
  obtain r idb1 db1 where step: "root_process_token N calls cfg H tcfg hasher now holder do_compile do_submit t (idb, db) = (r, idb1, db1)"
    by (metis prod_cases3)
  obtain ls where idb1: "idb1 = idb" and run: "process_token_inner N (calls t) cfg H tcfg t (idb\<lparr>idb_leases := ls\<rparr>) do_compile do_submit db = (r, db1)"
    using root_process_token_lease [OF free step] by blast
  have "service_inv H sha N origin tcfg tokens logs idb db1"
    using root_step_keeps [OF nova sha cfg logs _ _ Cons.prems(2) run] calls Cons.prems(1) by simp
  then show ?case
    using Cons.IH [of db1] Cons.prems(1,3) step idb1 by (auto split: sum.splits root_error.splits)
qed simp

section \<open>The service\<close>

record service =
  sv_logs :: "token_entry \<Rightarrow> indexed_event list"
  sv_latest :: "token_entry \<Rightarrow> nat"
  sv_idb :: indexer_db
  sv_root :: root_db

text \<open>
  The steps: the chains grow, and rounds of the three spawned jobs, each at any time. Calls of
  the event job may fail or be answered by different nodes, calls of the root job may fail or
  be answered truly; which parts of a root round are due is left open.
\<close>

inductive service_step ::
  "(fr \<Rightarrow> fr \<Rightarrow> fr) \<Rightarrow> (bytes \<Rightarrow> bytes) \<Rightarrow> ('n, 'i) nova_ops \<Rightarrow> indexer_config \<Rightarrow> tree_job_config \<Rightarrow> root_job_config \<Rightarrow> default_hasher
     \<Rightarrow> token_entry list \<Rightarrow> service \<Rightarrow> service \<Rightarrow> bool"
  for H sha N ecfg tcfg cfg hasher tokens where
  chain_grows: "grows tokens (sv_logs s) logs' \<Longrightarrow> logs_ok logs' latest' tokens \<Longrightarrow>
     service_step H sha N ecfg tcfg cfg hasher tokens s (s\<lparr>sv_logs := logs', sv_latest := latest'\<rparr>)"
| event_round: "\<forall>t \<in> set tokens. node_honest (tc_get_events (chain t)) (sv_logs s t) \<Longrightarrow>
     event_run_once hasher chain now holder ecfg tokens (sv_idb s) = Some idb' \<Longrightarrow>
     service_step H sha N ecfg tcfg cfg hasher tokens s (s\<lparr>sv_idb := idb'\<rparr>)"
| tree_round: "tree_run_once H sha hasher now holder tcfg tokens (sv_idb s) = Some idb' \<Longrightarrow>
     service_step H sha N ecfg tcfg cfg hasher tokens s (s\<lparr>sv_idb := idb'\<rparr>)"
| root_round: "\<forall>t \<in> set tokens. calls_honest sha (calls t) (sv_logs s t) \<Longrightarrow>
     run_cycle N calls cfg H tcfg hasher now holder do_compile do_submit tokens (sv_idb s, sv_root s) = Some (idb', db') \<Longrightarrow>
     service_step H sha N ecfg tcfg cfg hasher tokens s (s\<lparr>sv_idb := idb', sv_root := db'\<rparr>)"

definition service_start :: "(token_entry \<Rightarrow> indexed_event list) \<Rightarrow> (token_entry \<Rightarrow> nat) \<Rightarrow> service" where
  "service_start logs latest = \<lparr>sv_logs = logs, sv_latest = latest, sv_idb = empty_indexer, sv_root = empty_root_db\<rparr>"

definition service_ok ::
  "(fr \<Rightarrow> fr \<Rightarrow> fr) \<Rightarrow> (bytes \<Rightarrow> bytes) \<Rightarrow> ('n, 'i) nova_ops \<Rightarrow> ('n \<Rightarrow> fr list) \<Rightarrow> tree_job_config \<Rightarrow> token_entry list \<Rightarrow> service \<Rightarrow> bool" where
  "service_ok H sha N origin tcfg tokens s \<longleftrightarrow> logs_ok (sv_logs s) (sv_latest s) tokens
     \<and> service_inv H sha N origin tcfg tokens (sv_logs s) (sv_idb s) (sv_root s)"

lemma roots_inv_ids:
  assumes "roots_inv H sha N origin logs tokens idb db" "ids_follow idb idb'"
  shows "roots_inv H sha N origin logs tokens idb' db"
  using assms roots_inv_follow [OF assms] by (auto simp: roots_inv_def ids_follow_def)

lemma service_ok_idb:
  assumes "service_ok H sha N origin tcfg tokens s" "indexer_inv H sha tcfg (sv_logs s) tokens idb'" "ids_follow (sv_idb s) idb'"
  shows "service_ok H sha N origin tcfg tokens (s\<lparr>sv_idb := idb'\<rparr>)"
  using assms(1,2) roots_inv_ids [OF _ assms(3), of H sha N origin] by (simp add: service_ok_def service_inv_def)

lemma tree_world_service:
  assumes "service_config tcfg cfg tokens" "logs_ok logs latest tokens"
  shows "tree_world logs latest tcfg tokens"
proof -
  have "length (logs t) \<le> min (2 ^ tj_height tcfg) (2 ^ 63 - 1)" if "t \<in> set tokens" for t
    using assms that by (auto simp: service_config_def logs_ok_def log_fits_def TRANSFER_TREE_HEIGHT_def)
  then show ?thesis
    using assms by (auto simp: tree_world_def service_config_def logs_ok_def)
qed

lemma service_step_ok:
  assumes nova: "nova_ok H sha N origin" "digest32 sha" and cfg: "service_config tcfg cfg tokens"
    and step: "service_step H sha N ecfg tcfg cfg hasher tokens s s'" and ok: "service_ok H sha N origin tcfg tokens s"
  shows "service_ok H sha N origin tcfg tokens s'"
  using step
proof cases
  case (chain_grows logs' latest')
  have "\<forall>t \<in> set tokens. chain_ok (logs' t) (te_deployed_block t) (latest' t)"
    using chain_grows(3) by (simp add: logs_ok_def)
  then show ?thesis
    using ok chain_grows tables_inv_grow [OF _ chain_grows(2)] roots_inv_grow [OF _ chain_grows(2)] sent_inv_grow [OF _ chain_grows(2)]
    by (auto simp: service_ok_def service_inv_def indexer_inv_def)
next
  case (event_round chain now holder idb')
  have "events_honest chain (sv_logs s) (sv_latest s) tokens"
    using ok event_round(2) cfg by (simp add: events_honest_def service_ok_def logs_ok_def service_config_def)
  from event_round_keeps [OF this _ event_round(3), of H sha tcfg] show ?thesis
    using ok service_ok_idb [OF ok] event_round(1) by (simp add: service_ok_def service_inv_def)
next
  case (tree_round now holder idb')
  then show ?thesis
    using ok tree_round_keeps [OF tree_world_service [OF cfg], of "sv_logs s" "sv_latest s" H sha "sv_idb s" hasher now holder]
      service_ok_idb [OF ok] by (auto simp: service_ok_def service_inv_def)
next
  case (root_round calls now holder do_compile do_submit idb' db')
  then show ?thesis
    using ok run_cycle_keeps [OF nova cfg _ root_round(2) subset_refl _ root_round(3)] by (auto simp: service_ok_def)
qed

lemma service_start_ok: "logs_ok logs latest tokens \<Longrightarrow> service_ok H sha N origin tcfg tokens (service_start logs latest)"
  using indexer_inv_empty
  by (simp add: service_ok_def service_start_def service_inv_def roots_inv_def root_inv_def empty_root_db_def sent_inv_def)

lemma service_reachable_ok:
  assumes "nova_ok H sha N origin" "digest32 sha" "service_config tcfg cfg tokens" "logs_ok logs latest tokens"
    and "(service_step H sha N ecfg tcfg cfg hasher tokens)\<^sup>*\<^sup>* (service_start logs latest) s"
  shows "service_ok H sha N origin tcfg tokens s"
  using assms(5) by (induction rule: rtranclp_induct) (use service_start_ok assms service_step_ok in blast)+

text \<open>The sample token, whose contract has proved one of its three transfers.\<close>

lemma sample_service:
  "service_config tall_config sample_root_config [sample_token 1]" "logs_ok sample_logs (\<lambda>_. 20) [sample_token 1]"
  "root_world const_sha sample_root_config tall_config (\<lambda>_. sample_calls) sample_logs (\<lambda>_. 1) [sample_token 1]"
proof -
  show logs: "logs_ok sample_logs (\<lambda>_. 20) [sample_token 1]"
    using tall_world by (auto simp: tree_world_def logs_ok_def log_fits_def sample_logs_def sample_token_def sample_log_def sample_event_def)
  show "service_config tall_config sample_root_config [sample_token 1]"
    using tall_world by (simp add: tree_world_def service_config_def tall_config_def sample_tree_config_def sample_root_config_def)
  show "root_world const_sha sample_root_config tall_config (\<lambda>_. sample_calls) sample_logs (\<lambda>_. 1) [sample_token 1]"
    using logs
    by (simp add: root_world_def logs_ok_def tall_config_def sample_tree_config_def sample_root_config_def submission_ready_def
        calls_answer_def sample_calls_def sample_logs_def sample_token_def sample_length window_ok_def)
qed

lemma sample_steps:
  "\<exists>s. (service_step toy_hash const_sha (clear_nova toy_hash const_sha) \<lparr>block_span = 4, forward_scan_overlap = 1\<rparr> tall_config
      sample_root_config (\<lambda>_. 0) [sample_token 1])\<^sup>*\<^sup>* (service_start sample_logs (\<lambda>_. 20)) s
     \<and> sv_logs s = sample_logs \<and> rd_sent (sv_root s) \<noteq> []"
proof -
  let ?step = "service_step toy_hash const_sha (clear_nova toy_hash const_sha) \<lparr>block_span = 4, forward_scan_overlap = 1\<rparr> tall_config
      sample_root_config (\<lambda>_. 0) [sample_token 1]"
  let ?s0 = "service_start sample_logs (\<lambda>_. 20)"
  have "roots_inv toy_hash const_sha (clear_nova toy_hash const_sha) fst sample_logs [sample_token 1] empty_indexer empty_root_db"
    by (simp add: roots_inv_def root_inv_def empty_root_db_def)
  from main_once_ok [where hasher = "\<lambda>_. 0" and jt = "\<lparr>jt_event = (5, 1), jt_tree = (6, 2), jt_root = (7, 3)\<rparr>", OF clear_nova_ok
      digest32_const_sha sample_event_world tall_world sample_service(3) indexer_inv_empty this]
  obtain idb1 idb2 idb3 db' tid where run:
    "event_run_once (\<lambda>_. 0) sample_chains 5 1 \<lparr>block_span = 4, forward_scan_overlap = 1\<rparr> [sample_token 1] (sv_idb ?s0) = Some idb1"
    "tree_run_once toy_hash const_sha (\<lambda>_. 0) 6 2 tall_config [sample_token 1] idb1 = Some idb2"
    "run_cycle (clear_nova toy_hash const_sha) (\<lambda>_. sample_calls) sample_root_config toy_hash tall_config (\<lambda>_. 0) 7 3 True True
       [sample_token 1] (idb2, empty_root_db) = Some (idb3, db')"
    "token_proved toy_hash const_sha (clear_nova toy_hash const_sha) fst tid (map transfer_of (sample_logs (sample_token 1))) 1 db'"
    by (auto simp: main_once_def root_run_once_def service_start_def split: option.splits)
  have sent: "rd_sent db' \<noteq> []"
    using run(4) by (auto simp: token_proved_def sample_logs_def sample_token_def sample_length)
  have "node_honest (tc_get_events (sample_chains t)) (sample_logs t)" for t
    by (auto simp: node_honest_def sample_chains_def)
  then have "?step ?s0 (?s0\<lparr>sv_idb := idb1\<rparr>)"
    by (intro event_round [OF _ run(1)]) (simp add: service_start_def)
  moreover have "?step (?s0\<lparr>sv_idb := idb1\<rparr>) (?s0\<lparr>sv_idb := idb2\<rparr>)"
    using tree_round [of toy_hash const_sha "\<lambda>_. 0" 6 2 tall_config "[sample_token 1]" "?s0\<lparr>sv_idb := idb1\<rparr>" idb2] run(2) by simp
  moreover have "?step (?s0\<lparr>sv_idb := idb2\<rparr>) (?s0\<lparr>sv_idb := idb3, sv_root := db'\<rparr>)"
  proof -
    have "calls_honest const_sha sample_calls (sample_logs (sample_token 1))"
      by (simp add: calls_honest_def sample_calls_def sample_logs_def sample_token_def sample_length sample_log_def)
    then show ?thesis
      using root_round [of "[sample_token 1]" const_sha "\<lambda>_. sample_calls" "?s0\<lparr>sv_idb := idb2\<rparr>" "clear_nova toy_hash const_sha"
          sample_root_config toy_hash tall_config "\<lambda>_. 0" 7 3 True True idb3 db'] run(3) by (simp add: service_start_def)
  qed
  ultimately have "?step\<^sup>*\<^sup>* ?s0 (?s0\<lparr>sv_idb := idb3, sv_root := db'\<rparr>)"
    by (meson rtranclp.rtrancl_into_rtrancl rtranclp.rtrancl_refl)
  then show ?thesis
    using sent by (intro exI [of _ "?s0\<lparr>sv_idb := idb3, sv_root := db'\<rparr>"]) (simp add: service_start_def)
qed

text \<open>
  \<^bold>\<open>C3\<close>. The serving indexer, from empty tables, with the chains growing and the rounds of its
  three jobs in any order, however calls fail: in every reachable state the stored events are
  events of the contracts and cover a beginning of each log, every tree holds a beginning of
  its log and is not ahead of the events, every stored proof attests the transition from the
  base of its prover to its index, and every proof that was ever handed over for submission attests a
  transition between two states of the log of one of the tokens.
\<close>

theorem service_keeps_tables:
  assumes "nova_ok H sha N origin" "digest32 sha" "service_config tcfg cfg tokens" "logs_ok logs latest tokens"
    and "(service_step H sha N ecfg tcfg cfg hasher tokens)\<^sup>*\<^sup>* (service_start logs latest) s"
  shows "indexer_inv H sha tcfg (sv_logs s) tokens (sv_idb s)
    \<and> roots_inv H sha N origin (sv_logs s) tokens (sv_idb s) (sv_root s)
    \<and> (\<forall>x \<in> set (rd_sent (sv_root s)). \<exists>t \<in> set tokens. \<exists>b k. b < k \<and> k \<le> length (sv_logs s t)
         \<and> attests N origin (fst x) (root_state H sha (take b (map transfer_of (sv_logs s t))))
              (root_state H sha (take k (map transfer_of (sv_logs s t)))))"
  using service_reachable_ok [OF assms] by (simp add: service_ok_def service_inv_def sent_inv_def sent_ok_def)

theorem service_keeps_tables_witness:
  "\<exists>s. (service_step toy_hash const_sha (clear_nova toy_hash const_sha) \<lparr>block_span = 4, forward_scan_overlap = 1\<rparr> tall_config
      sample_root_config (\<lambda>_. 0) [sample_token 1])\<^sup>*\<^sup>* (service_start sample_logs (\<lambda>_. 20)) s
    \<and> indexer_inv toy_hash const_sha tall_config sample_logs [sample_token 1] (sv_idb s)
    \<and> (\<exists>x \<in> set (rd_sent (sv_root s)). \<exists>b k. b < k \<and> k \<le> 3
         \<and> attests (clear_nova toy_hash const_sha) fst (fst x) (root_state toy_hash const_sha (take b [(2, 5), (2, 5), (2, 5)]))
              (root_state toy_hash const_sha (take k [(2, 5), (2, 5), (2, 5)])))"
proof -
  obtain s where s: "(service_step toy_hash const_sha (clear_nova toy_hash const_sha) \<lparr>block_span = 4, forward_scan_overlap = 1\<rparr> tall_config
      sample_root_config (\<lambda>_. 0) [sample_token 1])\<^sup>*\<^sup>* (service_start sample_logs (\<lambda>_. 20)) s"
    "sv_logs s = sample_logs" "rd_sent (sv_root s) \<noteq> []"
    using sample_steps by blast
  have logs: "length (sample_logs (sample_token 1)) = 3" "map transfer_of (sample_logs (sample_token 1)) = [(2, 5), (2, 5), (2, 5)]"
    by (simp_all add: sample_logs_def sample_token_def sample_log_def sample_event_def transfer_of_def)
  obtain x where x: "x \<in> set (rd_sent (sv_root s))"
    using s(3) by (cases "rd_sent (sv_root s)") auto
  note keeps = service_keeps_tables [OF clear_nova_ok digest32_const_sha sample_service(1,2) s(1), unfolded s(2)]
  then have "\<exists>t \<in> set [sample_token 1]. \<exists>b k. b < k \<and> k \<le> length (sample_logs t)
      \<and> attests (clear_nova toy_hash const_sha) fst (fst x) (root_state toy_hash const_sha (take b (map transfer_of (sample_logs t))))
          (root_state toy_hash const_sha (take k (map transfer_of (sample_logs t))))"
    using x by blast
  then have "\<exists>b k. b < k \<and> k \<le> 3 \<and> attests (clear_nova toy_hash const_sha) fst (fst x)
      (root_state toy_hash const_sha (take b [(2, 5), (2, 5), (2, 5)])) (root_state toy_hash const_sha (take k [(2, 5), (2, 5), (2, 5)]))"
    by (simp only: list.set logs bex_simps simp_thms)
  then show ?thesis
    using keeps s(1) x by blast
qed

text \<open>The nodes answer for the events, and the contracts for the proofs, which are taken.\<close>

definition nodes_answer ::
  "(token_entry \<Rightarrow> token_chain) \<Rightarrow> (token_entry \<Rightarrow> indexed_event list) \<Rightarrow> (token_entry \<Rightarrow> nat) \<Rightarrow> token_entry list \<Rightarrow> bool" where
  "nodes_answer chain logs latest tokens \<longleftrightarrow> (\<forall>t \<in> set tokens. tc_latest_block (chain t) = Inr (latest t)
     \<and> tc_index (chain t) = Inr (length (logs t)) \<and> node_answers (tc_get_events (chain t)) (logs t))"

definition contracts_answer ::
  "(bytes \<Rightarrow> bytes) \<Rightarrow> root_job_config \<Rightarrow> (token_entry \<Rightarrow> root_calls) \<Rightarrow> (token_entry \<Rightarrow> indexed_event list) \<Rightarrow> (token_entry \<Rightarrow> nat)
     \<Rightarrow> token_entry list \<Rightarrow> bool" where
  "contracts_answer sha cfg calls logs proved tokens \<longleftrightarrow> (\<forall>t \<in> set tokens. submission_ready sha cfg (calls t) (logs t)
     \<and> rc_index (calls t) = Inr (length (logs t)) \<and> rc_latest_proved (calls t) = Inr (proved t) \<and> proved t \<le> length (logs t))"

text \<open>
  \<^bold>\<open>C4\<close>. The serving indexer recovers from outages that the history window spans. It serves
  different tokens, with logs below \<open>2 ^ 40\<close> transfers and amounts below \<open>2 ^ 248\<close>, the history
  window of the root job at most that of the tree, and the scan overlap below the block span.
  In whatever state growing chains, failing calls and rounds in any order have left it, if no
  verifier is more than the history window of the root job behind its token, one round of each
  job, alone, against nodes, decider and contracts that answer again and take the proofs, ends
  and proves the whole log of every token. A token further behind is refused by the root job
  (\<open>history_window_exhausted\<close>), and with a larger overlap the scan of the synchroniser does
  not return: these are excluded.
\<close>

theorem service_recovers:
  assumes "nova_ok H sha N origin" "digest32 sha" "service_config tcfg cfg tokens" "logs_ok logs latest tokens"
    and "(service_step H sha N ecfg tcfg cfg hasher tokens)\<^sup>*\<^sup>* (service_start logs latest) s"
    and "forward_scan_overlap ecfg < block_span ecfg" "nodes_answer chain (sv_logs s) (sv_latest s) tokens"
    and "contracts_answer sha cfg calls (sv_logs s) proved tokens"
    and "\<forall>t \<in> set tokens. length (sv_logs s t) \<le> proved t + rj_history_window cfg"
  shows "\<exists>idb1 idb2 idb3 db'. event_run_once hasher chain now holder ecfg tokens (sv_idb s) = Some idb1
    \<and> tree_run_once H sha hasher now' holder' tcfg tokens idb1 = Some idb2
    \<and> run_cycle N calls cfg H tcfg hasher now'' holder'' True True tokens (idb2, sv_root s) = Some (idb3, db')
    \<and> (\<forall>t \<in> set tokens. \<exists>tid. token_id_of idb3 t = Some tid
         \<and> token_proved H sha N origin tid (map transfer_of (sv_logs s t)) (proved t) db')"
proof -
  have ok: "service_ok H sha N origin tcfg tokens s"
    using service_reachable_ok [OF assms(1-5)] .
  then have "tree_world (sv_logs s) (sv_latest s) tcfg tokens"
    using tree_world_service [OF assms(3)] by (simp add: service_ok_def)
  moreover have "event_world chain (sv_logs s) (sv_latest s) ecfg tokens"
    using ok assms(3,6,7) by (simp add: event_world_def nodes_answer_def service_ok_def logs_ok_def service_config_def)
  moreover have "root_world sha cfg tcfg calls (sv_logs s) proved tokens"
  proof -
    have "proved t + rj_history_window cfg < 2 ^ 64" if "t \<in> set tokens" for t
      using ok assms(3,8) that by (fastforce simp: contracts_answer_def service_ok_def logs_ok_def log_fits_def service_config_def)
    then show ?thesis
      using ok assms(3,8,9)
      by (simp add: root_world_def contracts_answer_def service_ok_def logs_ok_def service_config_def window_ok_def)
  qed
  ultimately have worlds: "event_world chain (sv_logs s) (sv_latest s) ecfg tokens" "tree_world (sv_logs s) (sv_latest s) tcfg tokens"
      "root_world sha cfg tcfg calls (sv_logs s) proved tokens"
    by simp_all
  from main_once_ok [OF assms(1,2) worlds, of "sv_idb s" "sv_root s" hasher
      "\<lparr>jt_event = (now, holder), jt_tree = (now', holder'), jt_root = (now'', holder'')\<rparr>"] ok
  show ?thesis
    by (auto simp: service_ok_def service_inv_def main_once_def root_run_once_def split: option.splits)
qed

theorem service_recovers_witness:
  "\<exists>s idb1 idb2 idb3 db' tid. (service_step toy_hash const_sha (clear_nova toy_hash const_sha) \<lparr>block_span = 4, forward_scan_overlap = 1\<rparr>
      tall_config sample_root_config (\<lambda>_. 0) [sample_token 1])\<^sup>*\<^sup>* (service_start (\<lambda>_. []) (\<lambda>_. 20)) s
    \<and> event_run_once (\<lambda>_. 0) sample_chains 5 1 \<lparr>block_span = 4, forward_scan_overlap = 1\<rparr> [sample_token 1] (sv_idb s) = Some idb1
    \<and> tree_run_once toy_hash const_sha (\<lambda>_. 0) 6 2 tall_config [sample_token 1] idb1 = Some idb2
    \<and> run_cycle (clear_nova toy_hash const_sha) (\<lambda>_. sample_calls) sample_root_config toy_hash tall_config (\<lambda>_. 0) 7 3 True True
        [sample_token 1] (idb2, sv_root s) = Some (idb3, db')
    \<and> token_proved toy_hash const_sha (clear_nova toy_hash const_sha) fst tid [(2, 5), (2, 5), (2, 5)] 1 db'"
proof -
  let ?a = "service_start (\<lambda>_. []) (\<lambda>_. 20)" and ?b = "service_start sample_logs (\<lambda>_. 20)"
  let ?step = "service_step toy_hash const_sha (clear_nova toy_hash const_sha) \<lparr>block_span = 4, forward_scan_overlap = 1\<rparr>
      tall_config sample_root_config (\<lambda>_. 0) [sample_token 1]"
  have "?step ?a (?a\<lparr>sv_logs := sample_logs, sv_latest := (\<lambda>_. 20)\<rparr>)"
    by (rule chain_grows [OF _ sample_service(2)]) (simp add: grows_def service_start_def)
  then have step: "?step\<^sup>*\<^sup>* ?a ?b"
    by (simp add: service_start_def)
  have logs: "logs_ok (\<lambda>_. []) (\<lambda>_. 20) [sample_token 1]"
    by (simp add: logs_ok_def chain_ok_def log_fits_def sample_token_def)
  have nodes: "nodes_answer sample_chains (sv_logs ?b) (sv_latest ?b) [sample_token 1]"
    using sample_event_world by (simp add: event_world_def nodes_answer_def service_start_def)
  have contracts: "contracts_answer const_sha sample_root_config (\<lambda>_. sample_calls) (sv_logs ?b) (\<lambda>_. 1) [sample_token 1]"
      "\<forall>t \<in> set [sample_token 1]. length (sv_logs ?b t) \<le> 1 + rj_history_window sample_root_config"
    using sample_service(3) by (simp_all add: root_world_def contracts_answer_def service_start_def window_ok_def)
  from service_recovers [where now = 5 and holder = 1 and now' = 6 and holder' = 2 and now'' = 7 and holder'' = 3, OF clear_nova_ok
      digest32_const_sha sample_service(1) logs step _ nodes contracts]
  show ?thesis
    using step
    by (fastforce simp: service_start_def sample_logs_def sample_token_def sample_log_def sample_event_def transfer_of_def)
qed

end
