(* ===== verification/Job_Loops.thy ===== *)
theory Job_Loops
  imports Indexer_Program
begin

text \<open>
  The endless loops of the jobs (\<open>run_forever\<close> of \<open>indexer/src/jobs/event.rs\<close>, \<open>tree.rs\<close> and
  \<open>root.rs\<close>) against a clock in milliseconds. A loop is run for the rounds given: each round
  carries what the outside answers in it, how long the work takes and how much longer than
  asked the sleep takes. The loops return the rounds they made with their times.
\<close>

section \<open>The loops\<close>

record 'x job_round =
  jr_input :: 'x
  jr_elapsed :: nat
  jr_late :: nat

text \<open>The event job and the tree job: one round per interval, without sleep when a round takes longer.\<close>

fun interval_loop :: "nat \<Rightarrow> (nat \<Rightarrow> 'x \<Rightarrow> 's \<Rightarrow> 's option) \<Rightarrow> 'x job_round list \<Rightarrow> nat \<Rightarrow> 's \<Rightarrow> (nat list \<times> 's) option" where
  "interval_loop interval run [] now s = Some ([], s)"
| "interval_loop interval run (r # rs) now s =
     (case run now (jr_input r) s of
        None \<Rightarrow> None
      | Some s' \<Rightarrow>
          let finished = now + jr_elapsed r;
              next = (if jr_elapsed r < interval then finished + (interval - jr_elapsed r) + jr_late r else finished)
          in map_option (\<lambda>(starts, x). (now # starts, x)) (interval_loop interval run rs next s'))"

definition event_run_forever ::
  "default_hasher \<Rightarrow> event_sync_job \<Rightarrow> ((token_entry \<Rightarrow> token_chain) \<times> nat) job_round list \<Rightarrow> nat \<Rightarrow> indexer_db \<Rightarrow> (nat list \<times> indexer_db) option" where
  "event_run_forever hasher job = interval_loop (sj_interval_ms job)
     (\<lambda>now (chain, holder) db. event_run_once hasher chain now holder (sj_indexer_config job) (map ec_token (sj_tokens job)) db)"

definition tree_run_forever ::
  "(fr \<Rightarrow> fr \<Rightarrow> fr) \<Rightarrow> (bytes \<Rightarrow> bytes) \<Rightarrow> default_hasher \<Rightarrow> tree_ingestion_job \<Rightarrow> nat job_round list \<Rightarrow> nat \<Rightarrow> indexer_db
     \<Rightarrow> (nat list \<times> indexer_db) option" where
  "tree_run_forever H sha hasher job = interval_loop (tj_interval_ms (ti_config job))
     (\<lambda>now holder db. tree_run_once H sha hasher now holder (ti_config job) (map tx_token (ti_tokens job)) db)"

text \<open>
  The root job keeps two instants. An instant may be before the start of the clock, so they
  are integers here.
\<close>

record loop_clock =
  lc_now :: int
  lc_compile :: int
  lc_submit :: int

record loop_tick =
  tick_start :: int
  tick_compile :: bool
  tick_submit :: bool
  tick_end :: int

definition loop_start :: "nat \<Rightarrow> nat \<Rightarrow> int \<Rightarrow> loop_clock" where
  "loop_start compile_interval submit_interval now =
     \<lparr>lc_now = now, lc_compile = now - int compile_interval, lc_submit = now - int submit_interval\<rparr>"

definition root_tick :: "nat \<Rightarrow> nat \<Rightarrow> 'x job_round \<Rightarrow> loop_clock \<Rightarrow> loop_tick \<times> loop_clock" where
  "root_tick compile_interval submit_interval r c =
     (let min_interval = min compile_interval submit_interval;
          should_compile = int compile_interval \<le> lc_now c - lc_compile c;
          should_submit = int submit_interval \<le> lc_now c - lc_submit c;
          completed = lc_now c + (if should_compile \<or> should_submit then int (jr_elapsed r) else 0)
      in (\<lparr>tick_start = lc_now c, tick_compile = should_compile, tick_submit = should_submit, tick_end = completed\<rparr>,
          \<lparr>lc_now = completed + int min_interval + int (jr_late r),
           lc_compile = (if should_compile then completed else lc_compile c),
           lc_submit = (if should_submit then completed else lc_submit c)\<rparr>))"

fun root_loop ::
  "nat \<Rightarrow> nat \<Rightarrow> (bool \<Rightarrow> bool \<Rightarrow> int \<Rightarrow> 'x \<Rightarrow> 's \<Rightarrow> 's option) \<Rightarrow> 'x job_round list \<Rightarrow> loop_clock \<Rightarrow> 's \<Rightarrow> (loop_tick list \<times> loop_clock \<times> 's) option" where
  "root_loop ci si cycle [] c w = Some ([], c, w)"
| "root_loop ci si cycle (r # rs) c w =
     (let (tick, c') = root_tick ci si r c in
      case (if tick_compile tick \<or> tick_submit tick
            then cycle (tick_compile tick) (tick_submit tick) (tick_start tick) (jr_input r) w else Some w) of
        None \<Rightarrow> None
      | Some w' \<Rightarrow> map_option (\<lambda>(ticks, x). (tick # ticks, x)) (root_loop ci si cycle rs c' w'))"

text \<open>A round of the root job gets the answers of the chain, a lease holder and the tables of the other jobs.\<close>

definition root_run_forever ::
  "('n, 'i) nova_ops \<Rightarrow> (fr \<Rightarrow> fr \<Rightarrow> fr) \<Rightarrow> tree_job_config \<Rightarrow> default_hasher \<Rightarrow> ('pp, 'vp) root_prover_job
     \<Rightarrow> ((token_entry \<Rightarrow> root_calls) \<times> nat \<times> indexer_db) job_round list \<Rightarrow> int \<Rightarrow> root_db \<Rightarrow> (loop_tick list \<times> loop_clock \<times> root_db) option" where
  "root_run_forever N H tcfg hasher job rounds now =
     root_loop (rpj_compile_interval job) (rpj_submit_interval job)
       (\<lambda>do_compile do_submit at (calls, holder, idb) db.
          map_option snd (run_cycle N calls (rpj_config job) H tcfg hasher (nat at) holder do_compile do_submit
            (map rt_token (rpj_tokens job)) (idb, db)))
       rounds (loop_start (rpj_compile_interval job) (rpj_submit_interval job) now)"

section \<open>The rhythm\<close>

lemma interval_loop_spacing:
  "interval_loop interval run rounds now s = Some (starts, s') \<Longrightarrow>
     length starts = length rounds \<and> successively (\<lambda>a b. a + interval \<le> b) starts \<and> (starts \<noteq> [] \<longrightarrow> hd starts = now)"
proof (induction rounds arbitrary: now s starts)
  case (Cons r rs)
  obtain s1 where s1: "run now (jr_input r) s = Some s1"
    using Cons.prems by (auto split: option.splits)
  let ?next = "if jr_elapsed r < interval then now + jr_elapsed r + (interval - jr_elapsed r) + jr_late r else now + jr_elapsed r"
  obtain starts' where st: "interval_loop interval run rs ?next s1 = Some (starts', s')" "starts = now # starts'"
    using Cons.prems s1 by (auto simp: Let_def)
  show ?case
    using Cons.IH [OF st(1)] st(2) by (cases starts') (auto split: if_splits)
qed simp

text \<open>
  One activity of the root loop: it is not early by its interval, and late by at most \<open>gap\<close>.
  \<open>prev\<close> is when it was last completed.
\<close>

fun on_time :: "int \<Rightarrow> int \<Rightarrow> int \<Rightarrow> (int \<times> int) list \<Rightarrow> bool" where
  "on_time interval gap prev [] = True"
| "on_time interval gap prev ((b, e) # xs) \<longleftrightarrow> prev + interval \<le> b \<and> b \<le> prev + interval + gap \<and> on_time interval gap e xs"

definition activity :: "(loop_tick \<Rightarrow> bool) \<Rightarrow> loop_tick list \<Rightarrow> (int \<times> int) list" where
  "activity due ticks = map (\<lambda>k. (tick_start k, tick_end k)) (filter due ticks)"

lemma activity_simps [simp]: "activity due [] = []"
  "activity due (k # ks) = (if due k then (tick_start k, tick_end k) # activity due ks else activity due ks)"
  by (simp_all add: activity_def)

definition clock_ok :: "nat \<Rightarrow> nat \<Rightarrow> int \<Rightarrow> loop_clock \<Rightarrow> bool" where
  "clock_ok ci si gap c \<longleftrightarrow> lc_now c \<le> lc_compile c + int ci + gap \<and> lc_now c \<le> lc_submit c + int si + gap"

lemma root_tick_clock:
  assumes "clock_ok ci si gap c" "jr_elapsed r \<le> D" "jr_late r \<le> L" "gap = int (min ci si + D + L)"
  shows "clock_ok ci si gap (snd (root_tick ci si r c))"
  using assms by (auto simp: clock_ok_def root_tick_def Let_def)

lemma root_loop_rhythm:
  assumes "\<forall>r \<in> set rounds. jr_elapsed r \<le> D \<and> jr_late r \<le> L" "gap = int (min ci si + D + L)"
  shows "root_loop ci si cycle rounds c w = Some (ticks, c', w') \<Longrightarrow> clock_ok ci si gap c \<Longrightarrow>
    clock_ok ci si gap c' \<and> on_time (int ci) gap (lc_compile c) (activity tick_compile ticks)
    \<and> on_time (int si) gap (lc_submit c) (activity tick_submit ticks)"
  using assms(1)
proof (induction rounds arbitrary: c w ticks)
  case (Cons r rs)
  obtain tick c1 where tick: "root_tick ci si r c = (tick, c1)"
    by fastforce
  obtain w1 ticks1 where rest: "root_loop ci si cycle rs c1 w1 = Some (ticks1, c', w')" "ticks = tick # ticks1"
    using Cons.prems(1) tick by (auto split: option.splits if_splits)
  have ok1: "clock_ok ci si gap c1"
    using root_tick_clock [OF Cons.prems(2), of r D L] Cons.prems(3) tick assms(2) by simp
  show ?case
    using Cons.IH [OF rest(1) ok1] Cons.prems(2,3) tick rest(2)
    by (auto simp: root_tick_def Let_def clock_ok_def)
qed simp

lemma root_loop_ticks:
  "root_loop ci si cycle rounds c w = Some (ticks, c', w') \<Longrightarrow>
     length ticks = length rounds \<and> (rounds \<noteq> [] \<longrightarrow> hd ticks = fst (root_tick ci si (hd rounds) c))"
proof (induction rounds arbitrary: c w ticks)
  case (Cons r rs)
  obtain w1 ticks1 where rest: "root_loop ci si cycle rs (snd (root_tick ci si r c)) w1 = Some (ticks1, c', w')"
      "ticks = fst (root_tick ci si r c) # ticks1"
    using Cons.prems by (auto split: option.splits if_splits prod.splits)
  then show ?case
    using Cons.IH [OF rest(1)] by simp
qed simp

text \<open>
  \<^bold>\<open>C39\<close>. The rhythm of the root job's endless loop, when a round takes at most \<open>D\<close> and a sleep at
  most \<open>L\<close> longer than asked: the first round compiles and submits at once; afterwards
  compiling, and likewise submitting, starts no earlier than its interval after it was last
  completed and no later than another \<open>min(compile, submit) + D + L\<close> after that, and at no time
  is either overdue by more.
\<close>

theorem root_job_rhythm:
  assumes "root_run_forever N H tcfg hasher job rounds now db = Some (ticks, c, db')"
    and "\<forall>r \<in> set rounds. jr_elapsed r \<le> D \<and> jr_late r \<le> L"
    and "gap = int (min (rpj_compile_interval job) (rpj_submit_interval job) + D + L)"
  shows "on_time (int (rpj_compile_interval job)) gap (now - int (rpj_compile_interval job)) (activity tick_compile ticks)
    \<and> on_time (int (rpj_submit_interval job)) gap (now - int (rpj_submit_interval job)) (activity tick_submit ticks)
    \<and> (rounds \<noteq> [] \<longrightarrow> tick_start (hd ticks) = now \<and> tick_compile (hd ticks) \<and> tick_submit (hd ticks))
    \<and> lc_now c \<le> lc_compile c + int (rpj_compile_interval job) + gap
    \<and> lc_now c \<le> lc_submit c + int (rpj_submit_interval job) + gap"
proof -
  let ?c = "loop_start (rpj_compile_interval job) (rpj_submit_interval job) now"
  note run = assms(1) [unfolded root_run_forever_def]
  have "0 \<le> gap"
    by (simp add: assms(3))
  then have "clock_ok (rpj_compile_interval job) (rpj_submit_interval job) gap ?c"
    by (simp add: clock_ok_def loop_start_def)
  from root_loop_rhythm [OF assms(2,3) run this] root_loop_ticks [OF run] show ?thesis
    by (auto simp: clock_ok_def loop_start_def root_tick_def Let_def)
qed

definition sample_root_job :: "(unit, unit) root_prover_job" where
  "sample_root_job = \<lparr>rpj_tokens = [\<lparr>rt_token = sample_token 1, rt_token_contract = token_client (sample_token 1),
       rt_verifier_contract = verifier_of (sample_token 1), rt_lock_key = 0\<rparr>],
     rpj_config = sample_root_config, rpj_compile_interval = 50, rpj_submit_interval = 100,
     rpj_nova_params = \<lparr>np_pp = (), np_vp = ()\<rparr>, rpj_prover = Inr, rpj_submitter_private_key = 1\<rparr>"

definition sample_round :: "((token_entry \<Rightarrow> root_calls) \<times> nat \<times> indexer_db) job_round" where
  "sample_round = \<lparr>jr_input = (\<lambda>_. Root_Job_Props.sample_calls, 1, empty_indexer), jr_elapsed = 30, jr_late = 5\<rparr>"

lemma sample_round_waits:
  "run_cycle (clear_nova toy_hash const_sha) (\<lambda>_. Root_Job_Props.sample_calls) sample_root_config toy_hash tall_config (\<lambda>_. 0) now 1 a b
     [sample_token 1] (empty_indexer, db) = Some (empty_indexer, db)"
  by (simp add: root_process_token_def try_acquire_lock_def release_lease_def process_token_inner_def empty_indexer_def
      find_token_def sample_token_def u64_to_i64_def Let_def)

theorem root_job_rhythm_witness:
  "\<exists>ticks c db'. root_run_forever (clear_nova toy_hash const_sha) toy_hash tall_config (\<lambda>_. 0) sample_root_job
       [sample_round, sample_round, sample_round] 0 empty_root_db = Some (ticks, c, db')
    \<and> activity tick_compile ticks = [(0, 30), (85, 115), (170, 200)] \<and> activity tick_submit ticks = [(0, 30), (170, 200)]
    \<and> on_time 50 85 (- 50) (activity tick_compile ticks) \<and> on_time 100 85 (- 100) (activity tick_submit ticks)"
proof -
  obtain ticks c db' where run: "root_run_forever (clear_nova toy_hash const_sha) toy_hash tall_config (\<lambda>_. 0) sample_root_job
       [sample_round, sample_round, sample_round] 0 empty_root_db = Some (ticks, c, db')"
      "activity tick_compile ticks = [(0, 30), (85, 115), (170, 200)]" "activity tick_submit ticks = [(0, 30), (170, 200)]"
    by (simp add: root_run_forever_def sample_root_job_def sample_round_def sample_round_waits root_tick_def loop_start_def Let_def
        del: run_cycle.simps One_nat_def)
  have "\<forall>r \<in> set [sample_round, sample_round, sample_round]. jr_elapsed r \<le> 30 \<and> jr_late r \<le> 5"
    by (simp add: sample_round_def)
  from root_job_rhythm [OF run(1) this refl] run show ?thesis
    by (simp add: sample_root_job_def)
qed

end
