(* ===== verification/Spec2Isabelle.thy ===== *)
theory Spec2Isabelle
  imports Poseidon Withdraw_Props Decider_Props Redeem_Program Program_Props Indexer_Service Job_Loops
begin

text \<open>
  \<^bold>\<open>zERC20: circuits, indexer, services and clients.\<close>

  zERC20 is an ERC-20 token whose transfers to unspendable \<^emph>\<open>burn addresses\<close> can be withdrawn
  privately elsewhere. A token contract numbers its transfers and keeps a SHA-256 hash chain of
  them. The \<^emph>\<open>indexer\<close> collects the transfer events, keeps a Poseidon Merkle tree of them with its
  history, proves with a folding scheme that the tree belongs to the hash chain, and answers
  clients over HTTP. A hub contract aggregates the roots of all chains into one tree. The
  \<^emph>\<open>client\<close> derives burn addresses for a recipient, looks their transfers up, assembles Merkle
  proofs up to the aggregated root, and proves with the \<^emph>\<open>withdraw circuits\<close> the total it may
  mint; it exists as a command line and as a library for the browser. A \<^emph>\<open>decider\<close> service turns
  folded proofs into final ones, a \<^emph>\<open>cross-chain job\<close> relays roots to the hub and broadcasts the
  aggregated root, and two \<^emph>\<open>canisters\<close> keep encrypted announcements and release view keys, so
  that a recipient can find private transfers. This library models the Rust code of these parts
  and proves each part and their composition.

  \<^bold>\<open>Theories and sources\<close> (paths below \<open>src/\<close>)

  \<^item> \<open>Prelude\<close>: result types (\<open>error + value\<close>) and their sequencing, generic lemmas.
  \<^item> \<open>Field\<close>: \<open>zkp/src/utils/convertion.rs\<close>, \<open>general_recipient.rs\<close>. Scalars of BN254 as a type of
    integers modulo the group order, 256-bit words, addresses, bytes, recipients.
  \<^item> \<open>Poseidon\<close>: \<open>zkp/src/utils/poseidon/\<close>. The wrappers: which parameters a sponge is made with,
    what they absorb and squeeze and which element they return, natively and in a circuit; the
    operations of the third-party sponges are the records \<open>native_sponge\<close> and \<open>sponge_gadget\<close>.
  \<^item> \<open>Merkle_Tree\<close>, \<open>Incremental_Tree\<close>: \<open>zkp/src/utils/tree/\<close> (\<open>bit_path.rs\<close>, \<open>merkle_tree.rs\<close>,
    \<open>incremental_merkle_tree.rs\<close>): the sparse tree and the tree of transfers.
  \<^item> \<open>Gadgets\<close>, \<open>Circuits\<close>: \<open>zkp/src/utils/tree/gadgets/\<close>, \<open>zkp/src/circuits/\<close>, \<open>zkp/src/nova/\<close>,
    \<open>zkp/src/groth16/withdraw.rs\<close>. A gadget is the partial function from its inputs to its
    output that is defined where its constraints are satisfied.
  \<^item> \<open>Circuit_Props\<close>, \<open>Withdraw_Props\<close>: soundness and completeness of the circuits.
  \<^item> \<open>Db_Tree\<close>, \<open>Db_Tree_Props\<close>, \<open>Db_Tree_Proofs\<close>: \<open>indexer/src/trees/db.rs\<close> over its three tables.
  \<^item> \<open>Event_Indexer\<close>, \<open>Event_Indexer_Props\<close>: \<open>indexer/src/events/mod.rs\<close>.
  \<^item> \<open>Lease\<close>: \<open>indexer/src/jobs/lock.rs\<close>, with the system of processes as a step relation.
  \<^item> \<open>Indexer_Jobs\<close>, \<open>Indexer_Jobs_Props\<close>: \<open>indexer/src/jobs/event.rs\<close>, \<open>tree.rs\<close>, \<open>tokens\<close>, \<open>config.rs\<close>.
  \<^item> \<open>Root_Job\<close>, \<open>Root_Job_Props\<close>: \<open>indexer/src/jobs/root.rs\<close>. The history \<open>rd_sent\<close> has every proof
    handed over to the node, whether or not the call came back, and whether it was mined.
  \<^item> \<open>Indexer_Main\<close>: the rounds of the three jobs in the \<open>--once\<close> mode of \<open>indexer/src/main.rs\<close>.
  \<^item> \<open>Indexer_Program\<close>, \<open>Program_Props\<close>: the whole program, from the environment and the token file
    over the construction of the jobs and their contract clients to the roots it proves.
  \<^item> \<open>Indexer_Service\<close>: the serving mode, as a step relation in which the logs of the chains grow,
    jobs run their rounds in any order and calls fail; \<open>Job_Loops\<close>: the endless loops of the
    jobs against a clock.
  \<^item> \<open>Server\<close>, \<open>Server_Props\<close>: \<open>indexer/src/server/mod.rs\<close> and the wire types of \<open>api-types\<close>.
  \<^item> \<open>Payment\<close>: \<open>client-common/src/payment/\<close>.
  \<^item> \<open>Teleport\<close>: \<open>client-common/src/teleport/\<close>, \<open>cli/src/proof/\<close> and the redeeming commands of
    \<open>cli/src/commands/\<close>; \<open>Teleport_Props\<close>, \<open>Redeem_Props\<close>, \<open>Redeem_Commands\<close> prove them.
  \<^item> \<open>Artifacts\<close>: the generator \<open>zkp/src/bin/generate_circuit_artifacts.rs\<close>, and all that reads its
    files: the settings and start-up of the decider (\<open>decider-prover/src/config.rs\<close>,
    \<open>circuits.rs\<close>, \<open>main.rs\<close>) and the loaders of \<open>cli/src/proof/\<close>.
  \<^item> \<open>Redeem_Program\<close>: \<open>invoice receive\<close> and \<open>status\<close> from the arguments of \<open>cli/src/main.rs\<close>, with the
    provers built from the stored artefacts.
  \<^item> \<open>Decider\<close>, \<open>Decider_Props\<close>: \<open>decider-prover/src/\<close> and \<open>client-common/src/prover/\<close>: queue,
    workers and clients over a Redis store with expiry, as a step relation whose steps are
    single calls to Redis.
  \<^item> \<open>Storage\<close>, \<open>Key_Manager\<close>: the canisters of \<open>zstorage/backend/\<close>. A request for a view key is
    suspended while the key is derived, so that other calls come in between: the system has a
    step for the part before and one for the part after.
  \<^item> \<open>Stealth\<close>, \<open>Stealth_Props\<close>, \<open>Stealth_Transfers\<close>: \<open>zstorage/frontend/src/\<close> and the commands
    \<open>private-transfer\<close>, \<open>scan-receive-transfers\<close>, \<open>invoice issue\<close> and \<open>list\<close>, with the set-up of
    their clients.
  \<^item> \<open>Config\<close>: \<open>client-common/src/tokens.rs\<close>, \<open>indexer/src/config.rs\<close>, values on the command line.
  \<^item> \<open>Crosschain\<close>, \<open>Crosschain_Props\<close>: \<open>crosschain-job/src/main.rs\<close>.
  \<^item> \<open>Contracts\<close>, \<open>Contract_Props\<close>: \<open>client-common/src/contracts/\<close> and the \<open>transfer\<close> command.
  \<^item> \<open>Proving\<close>: \<open>zkp/src/groth16/params.rs\<close>, \<open>zkp/src/nova/params.rs\<close>; \<open>Wasm\<close>, \<open>Wasm_Props\<close>:
    \<open>wasm/src/lib.rs\<close>, with the two provers of the browser.

  State is explicit: a database is a record of its tables, an operation returns its result and
  the new tables, also when it fails. Errors and panics are values. Machine integers have their
  width where the code's behaviour depends on it; indices that the code keeps in 64 bits and
  converts with checks are natural numbers with the checks written out.

  \<^bold>\<open>Parameters.\<close> The two-to-one Poseidon hash (a function \<open>H\<close> on scalars), SHA-256, Keccak-256,
  the folding scheme, the decider, the Groth16 prover, contract calls and the nodes that answer
  them, signatures, identity-based and symmetric encryption, JSON, hexadecimal and decimal
  coding, random bytes, the clock, and the order in which hash maps are traversed. What a
  theorem needs of them is a named hypothesis: that digests have 32 bytes (\<open>digest32\<close>), that
  coding can be undone (\<open>codec_ok\<close>, \<open>hex_ok\<close>, \<open>wasm_lib_ok\<close>, \<open>circuit_libs_ok\<close>), that what is encrypted or signed can
  be opened or attributed (\<open>vetkeys_ok\<close>, \<open>wallet_ok\<close>), that a provable step can be proved and,
  where a theorem says so, nothing else (\<open>nova_ok\<close>, \<open>withdraw_prover_ok\<close>, \<open>folding_ok\<close>,
  \<open>groth16_ok\<close>, \<open>proofs_ok\<close>), that calls are answered (\<open>event_world\<close>, \<open>root_world\<close>, \<open>balances_ok\<close>,
  \<open>hub_records\<close>, \<open>relay_answers\<close>, \<open>hub_answers\<close>). No hash is assumed to be
  collision free: soundness theorems exhibit the collision instead. The constraints of the sponge
  gadget are assumed to compute the operations of the native sponge one by one (\<open>gadget_implements\<close>);
  that the wrappers agree is proved from this. Every hypothesis is met by
  a concrete instance in the witness of the theorem that has it.

  \<^bold>\<open>What is shown\<close>

  \<^item> Trees: any sequence of updates leaves the root of the complete tree and verifying proofs;
    a proof of a different leaf is a collision; the database tree shows the same states as the
    tree in memory and proves every retained state.
  \<^item> Circuits: accepted runs of the root circuit are runs of the incremental tree, and all of
    these are accepted; accepted withdrawals pay out distinct burned transfers exactly.
  \<^item> Indexer: a synchronisation ends with exactly the events of the contract, failures leave
    the tables consistent; leases exclude each other; a run of the jobs ends with complete
    trees and, for the root job, with a proof of the transition to the end of the log; the
    program does so from its environment on; while it serves, no round of any job and no failure
    breaks the tables, and one good round of each job repairs what failures have left, as long as
    no verifier is more than the history window behind (then the job refuses the token); the root
    job compiles and submits in its intervals; the server answers every request, with proofs
    that verify.
  \<^item> Client: derived secrets spend to their burn addresses; what was paid to an invoice on any
    chain is redeemed by one proof of the exact total, by the command line, the artefact
    generator, the decider and the indexer together, up to the limit on the number of transfers
    fetched for each address, beyond which later transfers are left out. What the generator
    stores, every program loads. What the browser prints it reads back and the command line
    understands, it computes the same aggregation tree, and its provers accept exactly what the
    circuits accept.
  \<^item> Private transfers: the storage canister keeps what it accepts through upgrades, in the order
    of arrival, and has no eviction; a view key is accepted for release at most once per nonce and
    only for a request that the address signed, and anyone can use up the nonces of an address; a
    scan ends and misses nothing; a private transfer and an issued invoice reach their recipient
    while the recipient can still get a view key.
  \<^item> Services: the decider returns only genuine proofs, and a worker left alone empties its queue
    unless a message has to be cut inside a character; every loaded
    configuration is one the jobs accept; a run of the cross-chain job relays exactly the stale
    roots, and what it counts as sent is what the nodes have accepted.

  \<^bold>\<open>Interfaces\<close> are locales, interpreted on the model: a store of Merkle leaves (\<open>merkle_store\<close>),
  a log of transfers with states and proofs, in memory and in the database (\<open>transfer_log\<close>,
  \<open>log_pair\<close>), the lease table (\<open>lease_table\<close>), a job over all tokens (\<open>token_job\<close>), the proof and
  event service the client relies on (\<open>proof_service\<close>, \<open>indexer_service\<close>), the decider as its
  client sees it (\<open>decider_endpoint\<close>), the board of announcements (\<open>announcement_board\<close>), and a
  job whose rounds keep the tables consistent (\<open>keeping_job\<close>).

  \<^bold>\<open>Loops.\<close> Loops over data are structural; the proof-of-work search has a measure on the
  64-bit nonces left, after which the code starts again or panics and the model has \<open>None\<close>; the scan of blocks may run forever (this is proved for some
  configurations) and returns \<open>None\<close> then; backfills, batches of the root job and the search for
  the aggregation event have measures. The batches of the tree job, the scan over pages of
  announcements and the search for an unused invoice identifier are partial and proved to
  return. The endless loops of the jobs are given the list of their rounds, of any length, with
  what the clock shows in each; a round of the root job that panics ends its loop. No fuel is
  used.

  \<^bold>\<open>Not modelled.\<close> The Solidity contracts, the TypeScript frontend and vendored code (other
  languages or third parties); ABI coding, HTTP and canister transport, JSON (third-party code
  behind the parameters); the demonstration client of the canisters; parsing of command lines,
  logging and printing. In the serving mode a round of a job is one step: that rounds of different
  jobs overlap in time, or that the process dies in the middle of one, is not covered, nor are
  the socket and the scheduling of tasks. The deletion that a dropped lease guard leaves to a
  spawned task (\<open>Drop\<close> in \<open>jobs/lock.rs\<close>) and failures of the connection pool in the handlers of the
  server are left out. Benches and tests are not part of the programs.
\<close>

end
